(* ===== verification/NtPrelude.thy ===== *)
theory NtPrelude
  imports Main "HOL-Library.Word" "HOL-Library.Char_ord"
begin

text \<open>The prelude of the MicroNT development: the machine types of
  kernel/include/ntdef.h, the page and alignment arithmetic every memory component
  uses, the status codes of kernel/include/ntstatus.h, C strings and the generic
  lemmas on words, lists and maps that the component theories share.\<close>

unbundle bit_operations_syntax

section \<open>Machine types (ntdef.h)\<close>

type_synonym u8 = "8 word"
type_synonym u16 = "16 word"
type_synonym u32 = "32 word"
type_synonym u64 = "64 word"
type_synonym i32 = "32 word"
type_synonym NTSTATUS = "32 word"

text \<open>A NUL-terminated C string is the list of the characters before the NUL.\<close>
type_synonym cstr = "char list"

named_theorems kinv \<open>preservation of the component invariants\<close>
named_theorems kcase \<open>the branches of an operation under its guards\<close>

section \<open>Status codes (ntstatus.h)\<close>

definition STATUS_SUCCESS :: NTSTATUS where "STATUS_SUCCESS = 0"
definition STATUS_TIMEOUT :: NTSTATUS where "STATUS_TIMEOUT = 0x102"
definition STATUS_UNSUCCESSFUL :: NTSTATUS where "STATUS_UNSUCCESSFUL = 0xC0000001"
definition STATUS_ACCESS_VIOLATION :: NTSTATUS where "STATUS_ACCESS_VIOLATION = 0xC0000005"
definition STATUS_INVALID_HANDLE :: NTSTATUS where "STATUS_INVALID_HANDLE = 0xC0000008"
definition STATUS_INVALID_PARAMETER :: NTSTATUS where "STATUS_INVALID_PARAMETER = 0xC000000D"
definition STATUS_NO_SUCH_FILE :: NTSTATUS where "STATUS_NO_SUCH_FILE = 0xC000000F"
definition STATUS_END_OF_FILE :: NTSTATUS where "STATUS_END_OF_FILE = 0xC0000011"
definition STATUS_NO_MEMORY :: NTSTATUS where "STATUS_NO_MEMORY = 0xC0000017"
definition STATUS_INVALID_SYSTEM_SERVICE :: NTSTATUS where "STATUS_INVALID_SYSTEM_SERVICE = 0xC000001C"
definition STATUS_OBJECT_TYPE_MISMATCH :: NTSTATUS where "STATUS_OBJECT_TYPE_MISMATCH = 0xC0000024"
definition STATUS_OBJECT_NAME_NOT_FOUND :: NTSTATUS where "STATUS_OBJECT_NAME_NOT_FOUND = 0xC0000034"
definition STATUS_ALREADY_EXISTS :: NTSTATUS where "STATUS_ALREADY_EXISTS = 0xC0000035"
definition STATUS_MUTANT_NOT_OWNED :: NTSTATUS where "STATUS_MUTANT_NOT_OWNED = 0xC0000046"
definition STATUS_INVALID_IMAGE_FORMAT :: NTSTATUS where "STATUS_INVALID_IMAGE_FORMAT = 0xC000007B"
definition STATUS_INSUFFICIENT_RESOURCES :: NTSTATUS where "STATUS_INSUFFICIENT_RESOURCES = 0xC000009A"
definition STATUS_INFO_LENGTH_MISMATCH :: NTSTATUS where "STATUS_INFO_LENGTH_MISMATCH = 0xC0000004"
definition STATUS_NOT_FOUND :: NTSTATUS where "STATUS_NOT_FOUND = 0xC0000225"

text \<open>A status is a signed 32-bit number; the system calls return it widened to 64 bits.\<close>
definition nt :: "NTSTATUS \<Rightarrow> u64" where "nt st = scast st"

section \<open>Pages and alignment (ntdef.h)\<close>

definition PAGE_SIZE :: nat where "PAGE_SIZE = 0x1000"
definition PAGE_SHIFT :: nat where "PAGE_SHIFT = 12"

text \<open>The templates AlignUp and AlignDown at 64 bits: the sum wraps.\<close>

definition AlignUp :: "u64 \<Rightarrow> u64 \<Rightarrow> u64" where
  "AlignUp value align = (value + align - 1) AND NOT (align - 1)"

definition AlignDown :: "u64 \<Rightarrow> u64 \<Rightarrow> u64" where
  "AlignDown value align = value AND NOT (align - 1)"

section \<open>Word arithmetic shared by the memory components\<close>

lemma and_not_mask_push: "(w::'a::len word) AND NOT (mask n) = push_bit n (drop_bit n w)"
  by (rule bit_eqI) (auto simp: bit_simps)
lemma unat_and_not_mask: "unat ((w::'a::len word) AND NOT (mask n)) = unat w div 2^n * 2^n"
proof -
  have 1: "w AND NOT (mask n) = w - take_bit n w" 
    by (metis add_diff_cancel_right' and_not_mask_push bits_ident)
  have 2: "unat (take_bit n w) = unat w mod 2^n" by (simp only: unsigned_take_bit_eq take_bit_nat_def)
  then have "take_bit n w \<le> w" by (simp only: word_le_nat_alt mod_less_eq_dividend)
  then have "unat (w - take_bit n w) = unat w - unat w mod 2^n" by (simp only: unat_sub 2)
  then show ?thesis by (simp only: 1 minus_mod_eq_div_mult)
qed

lemma exp_minus_1_mask: "(2::'a::len word) ^ n - 1 = mask n" by (simp add: mask_eq_exp_minus_1)
lemma unat_AlignDown: "unat (AlignDown v (2^n)) = unat v div 2^n * 2^n"
  by (simp add: AlignDown_def exp_minus_1_mask unat_and_not_mask)
lemma unat_mask: "n \<le> LENGTH('a) \<Longrightarrow> unat (mask n :: 'a::len word) = 2^n - 1"
proof -
  assume n: "n \<le> LENGTH('a)"
  have "(mask n :: 'a word) = take_bit n (- 1)" by (rule mask_eq_take_bit_minus_one)
  then have "unat (mask n :: 'a word) = take_bit n (mask LENGTH('a))"
    by (simp only: unsigned_take_bit_eq unsigned_minus_1_eq_mask)
  also have "\<dots> = mask n" using n by (simp only: take_bit_of_mask min_absorb1)
  finally show ?thesis by (simp only: mask_eq_exp_minus_1)
qed
lemma unat_AlignUp:
  assumes "unat v + 2^n - 1 < 2^64" "n < 64"
  shows "unat (AlignUp v (2^n)) = (unat v + 2^n - 1) div 2^n * 2^n"
proof -
  have 1: "v + 2^n - 1 = v + mask n" by (simp add: mask_eq_exp_minus_1)
  have m: "unat (mask n :: 64 word) = 2^n - 1" using assms(2) by (simp add: unat_mask)
  have "unat (v + mask n) = unat v + (2^n - 1)"
    using assms(1) m by (subst unat_add_lem[THEN iffD1]) auto
  then show ?thesis by (simp add: AlignUp_def exp_minus_1_mask unat_and_not_mask 1)
qed

lemma AlignDown_page: "unat (AlignDown v 4096) = unat v div 4096 * 4096"
  using unat_AlignDown[of v 12] by simp

lemma AlignUp_page: "unat v + 4095 < 2^64 \<Longrightarrow> unat (AlignUp v 4096) = (unat v + 4095) div 4096 * 4096"
  using unat_AlignUp[of v 12] by simp

lemma unat_of_nat64: "k < 2 ^ 64 \<Longrightarrow> unat (of_nat k :: u64) = k"
  by (simp add: unat_of_nat)

lemma unat_ucast_32_64: "unat (ucast (w :: u32) :: u64) = unat w"
proof -
  have "unat w < 2 ^ 32" using unsigned_less [of w] by simp
  then show ?thesis by (simp add: unsigned_ucast_eq take_bit_nat_eq_self)
qed

section \<open>Lists\<close>

lemma length_minus_card_set: "length xs - card (set xs) = 0 \<longleftrightarrow> distinct xs"
  using card_length [of xs] by (auto simp: distinct_card intro: card_distinct)

lemma take_take_append [simp]: "take n (take n xs @ ys) = take n (xs @ ys)"
  by (simp add: min_def)

lemma and_push_bit_1: "(w :: 'a::len word) AND push_bit n 1 = push_bit n (of_bool (bit w n))"
  by (rule bit_word_eqI) (auto simp: bit_simps)

end
