(* ===== verification/PhysMem.thy ===== *)
theory PhysMem
  imports NtPrelude
begin

text \<open>The physical memory manager, kernel/mm/physical_memory.cpp: a bitmap with one bit
  for each 4 KB frame of the first 8 GB (set = in use), a counter of free frames and a
  search hint.  The static variables are the record pmm; the bitmap array is a function from
  the byte index.  The boot information record of kernel/include/bootinfo.h is here too.
  Diagnostic output is left out.\<close>

section \<open>Boot information (bootinfo.h)\<close>

datatype BootMemoryType = BOOT_MEM_RESERVED | BOOT_MEM_AVAILABLE | BOOT_MEM_ACPI
  | BOOT_MEM_NVS | BOOT_MEM_MMIO | BOOT_MEM_LOADER

record BootMemoryEntry =
  me_base :: u64
  me_length :: u64
  me_type :: BootMemoryType

definition BOOTINFO_MAGIC :: u64 where "BOOTINFO_MAGIC = 0x544E424D01"

text \<open>The fields of MicroNTBootInfo that the memory manager reads.\<close>
record MicroNTBootInfo =
  bi_magic :: u64
  bi_memory_entry_count :: u32
  bi_memory_map :: "BootMemoryEntry list"

section \<open>State\<close>

definition MAX_PAGES :: nat where "MAX_PAGES = (8 * 1024 * 1024 * 1024) div PAGE_SIZE"
definition BITMAP_BYTES :: nat where "BITMAP_BYTES = MAX_PAGES div 8"

type_synonym bitmap = "nat \<Rightarrow> u8"

record pmm =
  s_bitmap :: bitmap
  s_total_pages :: nat
  s_free_pages :: nat
  s_search_hint :: nat

section \<open>Operations\<close>

definition BitmapSet :: "nat \<Rightarrow> bitmap \<Rightarrow> bitmap" where
  "BitmapSet page b = b(page div 8 := b (page div 8) OR push_bit (page mod 8) 1)"

definition BitmapClear :: "nat \<Rightarrow> bitmap \<Rightarrow> bitmap" where
  "BitmapClear page b = b(page div 8 := b (page div 8) AND NOT (push_bit (page mod 8) 1))"

definition BitmapTest :: "nat \<Rightarrow> bitmap \<Rightarrow> bool" where
  "BitmapTest page b \<longleftrightarrow> drop_bit (page mod 8) (b (page div 8)) AND 1 \<noteq> 0"

text \<open>One page of a memory-map entry, and the reservation of one page: the bodies of the
  loops of Init.  The counter is only decremented when it is not zero, as on nat.\<close>

definition InitPage :: "bool \<Rightarrow> nat \<Rightarrow> pmm \<Rightarrow> pmm" where
  "InitPage is_free page s =
    (if is_free
     then s\<lparr>s_bitmap := BitmapClear page (s_bitmap s), s_free_pages := s_free_pages s + 1,
            s_total_pages := s_total_pages s + 1\<rparr>
     else s\<lparr>s_total_pages := s_total_pages s + 1\<rparr>)"

definition ReservePage :: "nat \<Rightarrow> pmm \<Rightarrow> pmm" where
  "ReservePage page s =
    (if page < MAX_PAGES \<and> \<not> BitmapTest page (s_bitmap s)
     then s\<lparr>s_bitmap := BitmapSet page (s_bitmap s), s_free_pages := s_free_pages s - 1\<rparr>
     else s)"

text \<open>The page range of an entry: base and end are rounded to pages at 64 bits, so that a
  base in the last page of the address space wraps as in the code.\<close>

definition entry_base :: "BootMemoryEntry \<Rightarrow> u64" where
  "entry_base e = AlignUp (me_base e) (of_nat PAGE_SIZE)"

definition entry_end :: "BootMemoryEntry \<Rightarrow> u64" where
  "entry_end e = AlignDown (me_base e + me_length e) (of_nat PAGE_SIZE)"

definition entry_pages :: "BootMemoryEntry \<Rightarrow> nat list" where
  "entry_pages e =
     [unat (entry_base e) div PAGE_SIZE ..< min MAX_PAGES (unat (entry_end e) div PAGE_SIZE)]"

definition InitEntry :: "BootMemoryEntry \<Rightarrow> pmm \<Rightarrow> pmm" where
  "InitEntry e s =
    (if entry_base e \<ge> entry_end e then s
     else fold (InitPage (me_type e = BOOT_MEM_AVAILABLE)) (entry_pages e) s)"

text \<open>The pages the bitmap itself occupies; the address of the array is given by the linker.\<close>
definition bitmap_pages :: "u64 \<Rightarrow> nat list" where
  "bitmap_pages bm_start =
     [unat (AlignDown bm_start (of_nat PAGE_SIZE)) div PAGE_SIZE
       ..< unat (AlignUp (bm_start + of_nat BITMAP_BYTES) (of_nat PAGE_SIZE)) div PAGE_SIZE]"

definition LOW_PAGES :: nat where "LOW_PAGES = 2 * 1024 * 1024 div PAGE_SIZE"

definition PMM_Init :: "u64 \<Rightarrow> MicroNTBootInfo option \<Rightarrow> pmm \<Rightarrow> pmm" where
  "PMM_Init bm_start bi s =
    (let s0 = s\<lparr>s_bitmap := (\<lambda>_. 0xFF)\<rparr> in
     case bi of
       None \<Rightarrow> s0
     | Some b \<Rightarrow>
         if bi_magic b \<noteq> BOOTINFO_MAGIC then s0
         else
           (let s1 = fold InitEntry (take (unat (bi_memory_entry_count b)) (bi_memory_map b)) s0;
                s2 = fold ReservePage (bitmap_pages bm_start) s1
            in fold ReservePage [0..<LOW_PAGES] s2))"

text \<open>AllocPage: the scan from the hint; the result 0 means that no page is left.\<close>

definition TakePage :: "nat \<Rightarrow> pmm \<Rightarrow> pmm" where
  "TakePage page s =
     s\<lparr>s_bitmap := BitmapSet page (s_bitmap s), s_free_pages := s_free_pages s - 1\<rparr>"

function AllocPage_loop :: "nat \<Rightarrow> pmm \<Rightarrow> u64 \<times> pmm" where
  "AllocPage_loop i s =
    (if i < MAX_PAGES then
       (if \<not> BitmapTest i (s_bitmap s)
        then (of_nat i * of_nat PAGE_SIZE, (TakePage i s)\<lparr>s_search_hint := i + 1\<rparr>)
        else AllocPage_loop (i + 1) s)
     else (0, s))"
  by pat_completeness auto
termination by (relation "measure (\<lambda>(i, s). MAX_PAGES - i)") auto

declare AllocPage_loop.simps [simp del]

definition AllocPage :: "pmm \<Rightarrow> u64 \<times> pmm" where
  "AllocPage s = AllocPage_loop (s_search_hint s) s"

definition FreePage :: "u64 \<Rightarrow> pmm \<Rightarrow> pmm" where
  "FreePage phys_addr s =
    (let page = unat (phys_addr div of_nat PAGE_SIZE) in
     if page \<ge> MAX_PAGES \<or> \<not> BitmapTest page (s_bitmap s) then s
     else s\<lparr>s_bitmap := BitmapClear page (s_bitmap s), s_free_pages := s_free_pages s + 1,
            s_search_hint := (if page < s_search_hint s then page else s_search_hint s)\<rparr>)"

text \<open>AllocPages: first fit from page 0, counting the current run of clear bits.
  The start of the run, i - count + 1 on usize in the code, may wrap and wrap back; the sum is
  taken first here, which is the same number.\<close>

function AllocPages_loop :: "nat \<Rightarrow> nat \<Rightarrow> nat \<Rightarrow> pmm \<Rightarrow> u64 \<times> pmm" where
  "AllocPages_loop count run i s =
    (if i < MAX_PAGES then
       (if \<not> BitmapTest i (s_bitmap s)
        then (if run + 1 = count
              then (let start = i + 1 - count
                    in (of_nat start * of_nat PAGE_SIZE, fold TakePage [start..<i + 1] s))
              else AllocPages_loop count (run + 1) (i + 1) s)
        else AllocPages_loop count 0 (i + 1) s)
     else (0, s))"
  by pat_completeness auto
termination by (relation "measure (\<lambda>(count, run, i, s). MAX_PAGES - i)") auto

declare AllocPages_loop.simps [simp del]

definition AllocPages :: "nat \<Rightarrow> pmm \<Rightarrow> u64 \<times> pmm" where
  "AllocPages count s = (if count = 0 then (0, s) else AllocPages_loop count 0 0 s)"

definition TotalPages :: "pmm \<Rightarrow> nat" where "TotalPages s = s_total_pages s"
definition FreePages :: "pmm \<Rightarrow> nat" where "FreePages s = s_free_pages s"
definition UsedPages :: "pmm \<Rightarrow> nat" where "UsedPages s = s_total_pages s - s_free_pages s"

section \<open>The bitmap\<close>

lemma BitmapTest_bit: "BitmapTest p b \<longleftrightarrow> bit (b (p div 8)) (p mod 8)"
  by (simp add: BitmapTest_def and_one_eq bit_iff_odd_drop_bit odd_iff_mod_2_eq_one)

lemma div_mod_8_eq: "p div 8 = q div 8 \<Longrightarrow> p mod 8 = q mod 8 \<Longrightarrow> p = (q::nat)"
  by (metis div_mult_mod_eq)

lemma BitmapTest_Set [simp]: "BitmapTest p (BitmapSet q b) \<longleftrightarrow> p = q \<or> BitmapTest p b"
  by (auto simp: BitmapTest_bit BitmapSet_def bit_simps dest: div_mod_8_eq)

lemma BitmapTest_Clear [simp]: "BitmapTest p (BitmapClear q b) \<longleftrightarrow> p \<noteq> q \<and> BitmapTest p b"
  by (auto simp: BitmapTest_bit BitmapClear_def bit_simps dest: div_mod_8_eq)

lemma BitmapTest_full [simp]: "BitmapTest p (\<lambda>_. 0xFF)"
proof -
  have "bit (0xFF :: u8) n" if "n < 8" for n
  proof -
    have "n \<in> {0..<8}" using that by simp
    then show ?thesis by (auto simp: eval_nat_numeral atLeastLessThanSuc bit_simps)
  qed
  then show ?thesis by (simp add: BitmapTest_bit)
qed

section \<open>Frames and the invariant\<close>

lemma MAX_PAGES_val: "MAX_PAGES = 2097152"
  by (simp add: MAX_PAGES_def PAGE_SIZE_def)

definition frame_of :: "nat \<Rightarrow> u64" where "frame_of p = of_nat p * of_nat PAGE_SIZE"

lemma unat_frame_of: "p < MAX_PAGES \<Longrightarrow> unat (frame_of p) = p * 4096"
  unfolding frame_of_def PAGE_SIZE_def MAX_PAGES_val of_nat_mult [symmetric] unat_of_nat by simp

lemma page_of_frame: "p < MAX_PAGES \<Longrightarrow> unat (frame_of p div of_nat PAGE_SIZE) = p"
  by (simp add: unat_div unat_frame_of PAGE_SIZE_def)

lemma frame_of_inj: "p < MAX_PAGES \<Longrightarrow> q < MAX_PAGES \<Longrightarrow> frame_of p = frame_of q \<longleftrightarrow> p = q"
  by (metis page_of_frame)

definition pmm_free :: "pmm \<Rightarrow> nat set" where
  "pmm_free s = {p. p < MAX_PAGES \<and> \<not> BitmapTest p (s_bitmap s)}"

definition pmm_frames :: "pmm \<Rightarrow> u64 set" where
  "pmm_frames s = frame_of ` pmm_free s"

definition pmm_inv :: "pmm \<Rightarrow> bool" where
  "pmm_inv s \<longleftrightarrow>
     s_free_pages s = card (pmm_free s) \<and> s_search_hint s \<le> MAX_PAGES
     \<and> (\<forall>p. p < s_search_hint s \<longrightarrow> BitmapTest p (s_bitmap s)) \<and> BitmapTest 0 (s_bitmap s)"

lemma finite_pmm_free [simp]: "finite (pmm_free s)"
  by (simp add: pmm_free_def)

lemma pmm_freeD: "p \<in> pmm_free s \<Longrightarrow> p < MAX_PAGES \<and> \<not> BitmapTest p (s_bitmap s)"
  by (simp add: pmm_free_def)

lemma pmm_free_TakePage [simp]: "pmm_free (TakePage p s) = pmm_free s - {p}"
  by (auto simp: pmm_free_def TakePage_def)

lemma pmm_free_hint [simp]: "pmm_free (s\<lparr>s_search_hint := h\<rparr>) = pmm_free s"
  by (simp add: pmm_free_def)

lemma TakePage_sel [simp]:
  "s_free_pages (TakePage p s) = s_free_pages s - 1"
  "s_search_hint (TakePage p s) = s_search_hint s"
  "s_bitmap (TakePage p s) = BitmapSet p (s_bitmap s)"
  "s_total_pages (TakePage p s) = s_total_pages s"
  by (simp_all add: TakePage_def)

section \<open>AllocPage\<close>

lemma below_Min: "q < Min (pmm_free s) \<Longrightarrow> pmm_free s \<noteq> {} \<Longrightarrow> BitmapTest q (s_bitmap s)"
proof (rule ccontr)
  assume q: "q < Min (pmm_free s)" "pmm_free s \<noteq> {}" and "\<not> BitmapTest q (s_bitmap s)"
  moreover have "q < MAX_PAGES" using q(1) pmm_freeD [OF Min_in [OF finite_pmm_free q(2)]] by linarith
  ultimately have "q \<in> pmm_free s" by (simp add: pmm_free_def)
  then show False using q Min_le [OF finite_pmm_free] by (meson not_le)
qed

lemma AllocPage_loop_none:
  "(\<And>p. i \<le> p \<Longrightarrow> p < MAX_PAGES \<Longrightarrow> BitmapTest p (s_bitmap s)) \<Longrightarrow> AllocPage_loop i s = (0, s)"
proof (induction i s rule: AllocPage_loop.induct)
  case (1 i s)
  then show ?case by (subst AllocPage_loop.simps) auto
qed

lemma AllocPage_loop_some:
  assumes "i \<le> p" "p < MAX_PAGES" "\<not> BitmapTest p (s_bitmap s)"
    and "\<And>q. i \<le> q \<Longrightarrow> q < p \<Longrightarrow> BitmapTest q (s_bitmap s)"
  shows "AllocPage_loop i s = (frame_of p, (TakePage p s)\<lparr>s_search_hint := p + 1\<rparr>)"
  using assms
proof (induction i s rule: AllocPage_loop.induct)
  case (1 i s)
  show ?case
  proof (cases "i = p")
    case True
    then show ?thesis using 1 by (subst AllocPage_loop.simps) (simp add: frame_of_def)
  next
    case False
    then have "AllocPage_loop (i + 1) s = (frame_of p, (TakePage p s)\<lparr>s_search_hint := p + 1\<rparr>)"
      using 1 by auto
    then show ?thesis using False 1 by (subst AllocPage_loop.simps) auto
  qed
qed

lemma AllocPage_empty: "pmm_inv s \<Longrightarrow> pmm_free s = {} \<Longrightarrow> AllocPage s = (0, s)"
  unfolding AllocPage_def by (rule AllocPage_loop_none) (auto simp: pmm_free_def)

lemma AllocPage_Min:
  assumes "pmm_inv s" "pmm_free s \<noteq> {}"
  shows "AllocPage s = (frame_of (Min (pmm_free s)),
     (TakePage (Min (pmm_free s)) s)\<lparr>s_search_hint := Min (pmm_free s) + 1\<rparr>)"
  unfolding AllocPage_def
proof (rule AllocPage_loop_some)
  have m: "Min (pmm_free s) \<in> pmm_free s" using assms(2) by simp
  then show "Min (pmm_free s) < MAX_PAGES" "\<not> BitmapTest (Min (pmm_free s)) (s_bitmap s)"
    by (auto dest: pmm_freeD)
  then show "s_search_hint s \<le> Min (pmm_free s)"
    using assms(1) by (meson pmm_inv_def not_le)
  show "BitmapTest q (s_bitmap s)" if "q < Min (pmm_free s)" for q
    using that assms(2) by (rule below_Min)
qed

lemma TakePage_inv:
  assumes "pmm_inv s" "p \<in> pmm_free s" "\<And>q. q < h \<Longrightarrow> q = p \<or> BitmapTest q (s_bitmap s)" "h \<le> MAX_PAGES"
  shows "pmm_inv ((TakePage p s)\<lparr>s_search_hint := h\<rparr>)"
  using assms by (auto simp: pmm_inv_def)

lemma AllocPage_inv [kinv]: "pmm_inv s \<Longrightarrow> pmm_inv (snd (AllocPage s))"
proof (cases "pmm_free s = {}")
  case False
  assume inv: "pmm_inv s"
  have m: "Min (pmm_free s) \<in> pmm_free s" using False by simp
  have "pmm_inv ((TakePage (Min (pmm_free s)) s)\<lparr>s_search_hint := Min (pmm_free s) + 1\<rparr>)"
  proof (rule TakePage_inv [OF inv m])
    show "q = Min (pmm_free s) \<or> BitmapTest q (s_bitmap s)" if "q < Min (pmm_free s) + 1" for q
      using that below_Min [of q s] False by (auto simp: less_Suc_eq)
  qed (use pmm_freeD [OF m] in simp)
  then show ?thesis by (simp add: AllocPage_Min [OF inv False])
qed (simp add: AllocPage_empty)

section \<open>FreePage\<close>

lemma FreePage_frame:
  assumes "p < MAX_PAGES"
  shows "FreePage (frame_of p) s = (if \<not> BitmapTest p (s_bitmap s) then s
     else s\<lparr>s_bitmap := BitmapClear p (s_bitmap s), s_free_pages := s_free_pages s + 1,
            s_search_hint := min p (s_search_hint s)\<rparr>)"
  using assms by (simp add: FreePage_def page_of_frame Let_def min_def)

lemma FreePage_free:
  "p < MAX_PAGES \<Longrightarrow> pmm_free (FreePage (frame_of p) s) = insert p (pmm_free s)"
  by (auto simp: FreePage_frame pmm_free_def)

lemma FreePage_inv [kinv]:
  assumes "pmm_inv s" "p < MAX_PAGES" "p \<noteq> 0"
  shows "pmm_inv (FreePage (frame_of p) s)"
proof (cases "BitmapTest p (s_bitmap s)")
  case True
  then have "p \<notin> pmm_free s" by (simp add: pmm_free_def)
  then show ?thesis
    using assms FreePage_free [OF assms(2), of s] True
    by (auto simp: pmm_inv_def FreePage_frame)
qed (use assms in \<open>simp add: FreePage_frame\<close>)

section \<open>AllocPages\<close>

definition is_run :: "nat \<Rightarrow> pmm \<Rightarrow> nat \<Rightarrow> bool" where
  "is_run count s p \<longleftrightarrow> p + count \<le> MAX_PAGES \<and> {p..<p + count} \<subseteq> pmm_free s"

lemma pmm_free_fold_TakePage [simp]: "pmm_free (fold TakePage ps s) = pmm_free s - set ps"
  by (induction ps arbitrary: s) auto

lemma fold_TakePage_inv [kinv]:
  "pmm_inv s \<Longrightarrow> distinct ps \<Longrightarrow> set ps \<subseteq> pmm_free s \<Longrightarrow> pmm_inv (fold TakePage ps s)"
proof (induction ps arbitrary: s)
  case (Cons p ps)
  have "pmm_inv (TakePage p s)"
    using TakePage_inv [of s p "s_search_hint s"] Cons.prems by (auto simp: pmm_inv_def)
  moreover have "set ps \<subseteq> pmm_free (TakePage p s)" using Cons.prems by auto
  ultimately show ?case using Cons by simp
qed simp

lemma AllocPages_loop_spec:
  assumes "0 < count" "run < count" "run \<le> i" "{i - run..<i} \<subseteq> pmm_free s"
    and "\<And>j. j < i - run \<Longrightarrow> \<not> is_run count s j"
  shows "AllocPages_loop count run i s =
    (if \<exists>p. is_run count s p
     then (let p = (LEAST p. is_run count s p) in (frame_of p, fold TakePage [p..<p + count] s))
     else (0, s))"
  using assms
proof (induction count run i s rule: AllocPages_loop.induct)
  case (1 count run i s)
  let ?T = "BitmapTest i (s_bitmap s)"
  consider (stop) "\<not> i < MAX_PAGES" | (set) "i < MAX_PAGES" "?T"
    | (found) "i < MAX_PAGES" "\<not> ?T" "run + 1 = count" | (more) "i < MAX_PAGES" "\<not> ?T" "run + 1 \<noteq> count"
    by blast
  then show ?case
  proof cases
    case stop
    have "\<not> is_run count s p" for p
      using "1.prems"(2,3) "1.prems"(5)[of p] stop by (cases "p < i - run") (auto simp: is_run_def)
    then have "(\<exists>p. is_run count s p) = False" by blast
    then show ?thesis using stop by (subst AllocPages_loop.simps) (simp only: if_False)
  next
    case set
    have "\<not> is_run count s j" if "j < i + 1" for j
    proof (cases "j < i - run")
      case False
      then have "i \<in> {j..<j + count}" using "1.prems" that by auto
      then show ?thesis using set by (auto simp: is_run_def dest: pmm_freeD)
    qed (use "1.prems" in blast)
    then show ?thesis using 1(2) set "1.prems" by (subst AllocPages_loop.simps) simp
  next
    case found
    let ?p = "i + 1 - count"
    have p: "?p = i - run" "?p + count = i + 1" using found "1.prems" by auto
    have "i \<in> pmm_free s" using found by (simp add: pmm_free_def)
    then have "{?p..<?p + count} \<subseteq> pmm_free s"
      using "1.prems"(4) p by (auto simp: subset_iff less_Suc_eq)
    then have r: "is_run count s ?p" using found p by (simp add: is_run_def)
    have l: "(LEAST p. is_run count s p) = ?p"
    proof (rule Least_equality)
      show "?p \<le> y" if "is_run count s y" for y
        using that "1.prems"(5)[of y] p(1) by (metis not_le)
    qed (rule r)
    show ?thesis using found r p(2)
      by (subst AllocPages_loop.simps) (auto simp: l Let_def frame_of_def)
  next
    case more
    have "i \<in> pmm_free s" using more by (simp add: pmm_free_def)
    then have "{i + 1 - (run + 1)..<i + 1} \<subseteq> pmm_free s"
      using "1.prems"(4) by (auto simp: subset_iff less_Suc_eq)
    then show ?thesis using 1(1) more "1.prems" by (subst AllocPages_loop.simps) auto
  qed
qed

lemma AllocPages_spec:
  "0 < count \<Longrightarrow> AllocPages count s =
    (if \<exists>p. is_run count s p
     then (let p = (LEAST p. is_run count s p) in (frame_of p, fold TakePage [p..<p + count] s))
     else (0, s))"
  by (simp add: AllocPages_def AllocPages_loop_spec)


section \<open>Init\<close>

definition avail_entries :: "MicroNTBootInfo \<Rightarrow> BootMemoryEntry list" where
  "avail_entries b = filter (\<lambda>e. me_type e = BOOT_MEM_AVAILABLE)
     (take (unat (bi_memory_entry_count b)) (bi_memory_map b))"

lemma InitEntry_fold:
  "InitEntry e s = fold (InitPage (me_type e = BOOT_MEM_AVAILABLE)) (entry_pages e) s"
proof (cases "entry_base e \<ge> entry_end e")
  case True
  then have "unat (entry_end e) div PAGE_SIZE \<le> unat (entry_base e) div PAGE_SIZE"
    by (simp add: word_le_nat_alt div_le_mono)
  then have "entry_pages e = []" by (simp add: entry_pages_def)
  then show ?thesis using True by (simp add: InitEntry_def)
qed (simp add: InitEntry_def)

lemma fold_InitPage_True:
  "s_free_pages (fold (InitPage True) ps s) = s_free_pages s + length ps
   \<and> BitmapTest p (s_bitmap (fold (InitPage True) ps s)) = (p \<notin> set ps \<and> BitmapTest p (s_bitmap s))
   \<and> s_search_hint (fold (InitPage True) ps s) = s_search_hint s"
  by (induction ps arbitrary: s) (auto simp: InitPage_def)

lemma fold_InitPage_False:
  "fold (InitPage False) ps s = s\<lparr>s_total_pages := s_total_pages s + length ps\<rparr>"
  by (induction ps arbitrary: s) (auto simp: InitPage_def)

lemma fold_InitEntry:
  "s_free_pages (fold InitEntry es s) = s_free_pages s
     + length (concat (map entry_pages (filter (\<lambda>e. me_type e = BOOT_MEM_AVAILABLE) es)))
   \<and> BitmapTest p (s_bitmap (fold InitEntry es s)) =
     (p \<notin> set (concat (map entry_pages (filter (\<lambda>e. me_type e = BOOT_MEM_AVAILABLE) es)))
      \<and> BitmapTest p (s_bitmap s))
   \<and> s_search_hint (fold InitEntry es s) = s_search_hint s"
proof (induction es arbitrary: s)
  case (Cons e es)
  show ?case
    using Cons[of "InitEntry e s"] fold_InitPage_True[where ps = "entry_pages e" and s = s and p = p]
    by (auto simp: InitEntry_fold fold_InitPage_False)
qed simp

lemma ReservePage_TakePage: "ReservePage p s = (if p \<in> pmm_free s then TakePage p s else s)"
  by (simp add: ReservePage_def pmm_free_def TakePage_def)

lemma fold_ReservePage:
  "k + card (pmm_free s) = s_free_pages s \<Longrightarrow>
   pmm_free (fold ReservePage ps s) = pmm_free s - set ps
   \<and> k + card (pmm_free (fold ReservePage ps s)) = s_free_pages (fold ReservePage ps s)
   \<and> s_search_hint (fold ReservePage ps s) = s_search_hint s"
proof (induction ps arbitrary: s)
  case (Cons p ps)
  have "k + card (pmm_free (ReservePage p s)) = s_free_pages (ReservePage p s)"
    using Cons.prems card_gt_0_iff [of "pmm_free s"]
    by (auto simp: ReservePage_TakePage card_Diff_singleton)
  then show ?case using Cons.IH [of "ReservePage p s"] by (auto simp: ReservePage_TakePage)
qed simp

lemma set_entry_pages: "set (entry_pages e) \<subseteq> {..<MAX_PAGES}"
  by (auto simp: entry_pages_def)

lemma PMM_Init_spec:
  assumes "bi_magic b = BOOTINFO_MAGIC" "s_free_pages s = 0"
  defines "L \<equiv> concat (map entry_pages (avail_entries b))"
  shows "pmm_free (PMM_Init bm (Some b) s) = set L - set (bitmap_pages bm) - {..<LOW_PAGES}"
    and "FreePages (PMM_Init bm (Some b) s) =
           card (pmm_free (PMM_Init bm (Some b) s)) + (length L - card (set L))"
    and "s_search_hint (PMM_Init bm (Some b) s) = s_search_hint s"
proof -
  let ?es = "take (unat (bi_memory_entry_count b)) (bi_memory_map b)"
  let ?s1 = "fold InitEntry ?es (s\<lparr>s_bitmap := \<lambda>_. 0xFF\<rparr>)"
  let ?s2 = "fold ReservePage (bitmap_pages bm) ?s1"
  have I: "PMM_Init bm (Some b) s = fold ReservePage [0..<LOW_PAGES] ?s2"
    using assms(1) by (simp add: PMM_Init_def Let_def)
  have sub: "set L \<subseteq> {..<MAX_PAGES}" using set_entry_pages by (fastforce simp: L_def)
  have F: "pmm_free ?s1 = set L"
    using sub by (auto simp: pmm_free_def fold_InitEntry L_def avail_entries_def)
  have "s_free_pages ?s1 = length L"
    using assms(2) by (simp add: fold_InitEntry L_def avail_entries_def)
  then have k1: "(length L - card (set L)) + card (pmm_free ?s1) = s_free_pages ?s1"
    using card_length [of L] by (simp add: F)
  note r2 = fold_ReservePage [OF k1, of "bitmap_pages bm"]
  note r3 = fold_ReservePage [OF r2 [THEN conjunct2, THEN conjunct1], of "[0..<LOW_PAGES]"]
  show "pmm_free (PMM_Init bm (Some b) s) = set L - set (bitmap_pages bm) - {..<LOW_PAGES}"
    using r2 r3 by (auto simp: I F)
  show "FreePages (PMM_Init bm (Some b) s) =
      card (pmm_free (PMM_Init bm (Some b) s)) + (length L - card (set L))"
    using r3 [THEN conjunct2, THEN conjunct1] by (simp only: FreePages_def I add.commute)
  show "s_search_hint (PMM_Init bm (Some b) s) = s_search_hint s"
    using r2 r3 by (simp add: I fold_InitEntry)
qed

section \<open>The allocator interface\<close>

text \<open>What a client of the allocator relies on: allocation hands out a frame that was free
  and nothing else changes, 0 means that no frame is left, and a frame given back is free.\<close>

locale frame_allocator =
  fixes alloc :: "'s \<Rightarrow> u64 \<times> 's"
    and release :: "u64 \<Rightarrow> 's \<Rightarrow> 's"
    and inv :: "'s \<Rightarrow> bool"
    and frames :: "'s \<Rightarrow> u64 set"
    and all_frames :: "u64 set"
  assumes alloc_empty: "inv s \<Longrightarrow> frames s = {} \<Longrightarrow> alloc s = (0, s)"
    and alloc_frame: "inv s \<Longrightarrow> frames s \<noteq> {} \<Longrightarrow>
      fst (alloc s) \<in> frames s \<and> frames (snd (alloc s)) = frames s - {fst (alloc s)}"
    and alloc_inv: "inv s \<Longrightarrow> inv (snd (alloc s))"
    and frames_ok: "inv s \<Longrightarrow> frames s \<subseteq> all_frames"
    and frame_nonzero: "inv s \<Longrightarrow> 0 \<notin> frames s"
    and frame_aligned: "f \<in> all_frames \<Longrightarrow> unat f mod 4096 = 0"
    and release_frames: "inv s \<Longrightarrow> f \<in> all_frames \<Longrightarrow> frames (release f s) = insert f (frames s)"
    and release_inv: "inv s \<Longrightarrow> f \<in> all_frames \<Longrightarrow> f \<noteq> 0 \<Longrightarrow> inv (release f s)"
begin

lemma alloc_zero_iff: "inv s \<Longrightarrow> fst (alloc s) = 0 \<longleftrightarrow> frames s = {}"
  using alloc_empty alloc_frame frame_nonzero by (metis fst_conv)

lemma alloc_nonzero:
  assumes "inv s" "fst (alloc s) \<noteq> 0"
  shows "fst (alloc s) \<in> frames s" "frames (snd (alloc s)) = frames s - {fst (alloc s)}"
  using alloc_frame [of s] alloc_zero_iff [of s] assms by auto

lemma alloc_frames_subset: "inv s \<Longrightarrow> frames (snd (alloc s)) \<subseteq> frames s"
  using alloc_empty [of s] alloc_frame [of s] by (cases "frames s = {}") auto

lemma alloc_twice_distinct:
  assumes "inv s" "alloc s = (f, s')" "f \<noteq> 0" "alloc s' = (g, s'')" "g \<noteq> 0"
  shows "f \<noteq> g" "f \<in> frames s" "g \<in> frames s" "frames s'' = frames s - {f, g}"
  using alloc_nonzero [of s] alloc_nonzero [of s'] alloc_inv [of s] assms by auto

lemma alloc_release:
  assumes "inv s" "alloc s = (f, s')" "f \<noteq> 0"
  shows "frames (release f s') = frames s" "inv (release f s')"
proof -
  have f: "f \<in> frames s" "frames s' = frames s - {f}" "inv s'"
    using alloc_nonzero [of s] alloc_inv [of s] assms by auto
  then have "f \<in> all_frames" using frames_ok assms(1) by blast
  then show "frames (release f s') = frames s" "inv (release f s')"
    using release_frames [of s' f] release_inv [of s' f] f assms(3) by auto
qed

end

definition pmm_all_frames :: "u64 set" where "pmm_all_frames = frame_of ` {..<MAX_PAGES}"

lemma frame_of_zero: "p < MAX_PAGES \<Longrightarrow> frame_of p = 0 \<longleftrightarrow> p = 0"
  using frame_of_inj [of p 0] by (simp add: frame_of_def MAX_PAGES_val)

lemma pmm_frames_inj: "inj_on frame_of {..<MAX_PAGES}"
  by (auto intro!: inj_onI simp: frame_of_inj)

lemma pmm_frames_Diff:
  "p \<in> pmm_free s \<Longrightarrow> frame_of ` (pmm_free s - {p}) = pmm_frames s - {frame_of p}"
  unfolding pmm_frames_def by (subst inj_on_image_set_diff [OF pmm_frames_inj]) (auto dest: pmm_freeD)

interpretation pmm: frame_allocator AllocPage FreePage pmm_inv pmm_frames pmm_all_frames
proof unfold_locales
  fix s f assume inv: "pmm_inv s"
  show "AllocPage s = (0, s)" if "pmm_frames s = {}"
    using that AllocPage_empty [OF inv] by (simp add: pmm_frames_def)
  show "fst (AllocPage s) \<in> pmm_frames s
      \<and> pmm_frames (snd (AllocPage s)) = pmm_frames s - {fst (AllocPage s)}" if "pmm_frames s \<noteq> {}"
  proof -
    have ne: "pmm_free s \<noteq> {}" using that by (simp add: pmm_frames_def)
    then have "Min (pmm_free s) \<in> pmm_free s" by simp
    then show ?thesis using pmm_frames_Diff [of "Min (pmm_free s)" s]
      by (simp add: AllocPage_Min [OF inv ne] pmm_frames_def)
  qed
  show "pmm_inv (snd (AllocPage s))" using inv by (rule AllocPage_inv)
  show "pmm_frames s \<subseteq> pmm_all_frames" by (auto simp: pmm_frames_def pmm_all_frames_def dest: pmm_freeD)
  have "0 \<notin> pmm_free s" using inv by (simp add: pmm_free_def pmm_inv_def)
  then show "0 \<notin> pmm_frames s"
    by (metis frame_of_zero imageE pmm_freeD pmm_frames_def)
  assume f: "f \<in> pmm_all_frames"
  then show "pmm_frames (FreePage f s) = insert f (pmm_frames s)"
    by (auto simp: pmm_all_frames_def pmm_frames_def FreePage_free)
  show "pmm_inv (FreePage f s)" if "f \<noteq> 0"
    using f that FreePage_inv [OF inv] frame_of_zero by (auto simp: pmm_all_frames_def)
next
  fix f assume "f \<in> pmm_all_frames"
  then show "unat f mod 4096 = 0" by (auto simp: pmm_all_frames_def unat_frame_of)
qed

section \<open>Correctness of the physical memory manager\<close>

text \<open>A small concrete state: frames 768 and 770 are the free ones.\<close>
definition pmm_demo :: pmm where
  "pmm_demo = \<lparr>s_bitmap = BitmapClear 768 (BitmapClear 770 (\<lambda>_. 0xFF)),
     s_total_pages = 3, s_free_pages = 2, s_search_hint = 5\<rparr>"

lemma pmm_demo_free: "pmm_free pmm_demo = {768, 770}"
  by (auto simp: pmm_free_def pmm_demo_def MAX_PAGES_val)

lemma pmm_demo_inv: "pmm_inv pmm_demo"
  by (simp add: pmm_inv_def pmm_demo_free) (simp add: pmm_demo_def MAX_PAGES_val)

text \<open>After Init a frame is free exactly when an available entry of the memory map
  covers it and it is neither part of the bitmap nor of the low 2 MB; the allocator is consistent
  (the counter is the number of free frames) exactly when no two available entries overlap.\<close>
theorem PMM_Init_free_frames:
  assumes "bi_magic b = BOOTINFO_MAGIC" "s_free_pages s = 0" "s_search_hint s = 0"
  shows "pmm_free (PMM_Init bm (Some b) s) =
           (\<Union>e\<in>set (avail_entries b). set (entry_pages e)) - set (bitmap_pages bm) - {..<LOW_PAGES}
         \<and> (pmm_inv (PMM_Init bm (Some b) s) \<longleftrightarrow> distinct (concat (map entry_pages (avail_entries b))))"
proof -
  let ?L = "concat (map entry_pages (avail_entries b))"
  note I = PMM_Init_spec [OF assms(1,2), of bm]
  have "0 \<notin> pmm_free (PMM_Init bm (Some b) s)" by (simp add: I(1) LOW_PAGES_def PAGE_SIZE_def)
  then have "BitmapTest 0 (s_bitmap (PMM_Init bm (Some b) s))" by (simp add: pmm_free_def MAX_PAGES_val)
  moreover have "length ?L - card (set ?L) = 0 \<longleftrightarrow> distinct ?L"
    by (rule length_minus_card_set)
  ultimately show ?thesis
    using I(2,3) assms(3) by (auto simp: pmm_inv_def I(1) FreePages_def)
qed

lemma PMM_Init_free_frames_witness:
  "pmm_inv (PMM_Init 0x100000 (Some \<lparr>bi_magic = BOOTINFO_MAGIC, bi_memory_entry_count = 2,
      bi_memory_map = [\<lparr>me_base = 0x2FF800, me_length = 0x2900, me_type = BOOT_MEM_AVAILABLE\<rparr>,
                       \<lparr>me_base = 0x10F000, me_length = 0x3000, me_type = BOOT_MEM_AVAILABLE\<rparr>]\<rparr>)
     \<lparr>s_bitmap = (\<lambda>_. 0), s_total_pages = 0, s_free_pages = 0, s_search_hint = 0\<rparr>)"
proof -
  let ?b = "\<lparr>bi_magic = BOOTINFO_MAGIC, bi_memory_entry_count = 2,
      bi_memory_map = [\<lparr>me_base = 0x2FF800, me_length = 0x2900, me_type = BOOT_MEM_AVAILABLE\<rparr>,
                       \<lparr>me_base = 0x10F000, me_length = 0x3000, me_type = BOOT_MEM_AVAILABLE\<rparr>]\<rparr>"
  have "distinct (concat (map entry_pages (avail_entries ?b)))"
    by (simp add: avail_entries_def entry_pages_def entry_base_def entry_end_def AlignUp_def AlignDown_def
        PAGE_SIZE_def MAX_PAGES_val upt_rec)
  then show ?thesis
    using PMM_Init_free_frames [of ?b "\<lparr>s_bitmap = (\<lambda>_. 0), s_total_pages = 0, s_free_pages = 0, s_search_hint = 0\<rparr>" "0x100000"]
    by simp
qed

text \<open>C23 (functional): AllocPage takes the lowest free frame, marks it used, moves the hint behind it
  and keeps the invariant; without a free frame it returns 0 and changes nothing.\<close>
theorem AllocPage_lowest_free:
  assumes "pmm_inv s"
  shows "AllocPage s =
    (if pmm_free s = {} then (0, s)
     else (frame_of (Min (pmm_free s)),
           s\<lparr>s_bitmap := BitmapSet (Min (pmm_free s)) (s_bitmap s),
             s_free_pages := s_free_pages s - 1, s_search_hint := Min (pmm_free s) + 1\<rparr>))
    \<and> pmm_inv (snd (AllocPage s))
    \<and> pmm_free (snd (AllocPage s)) = pmm_free s - {Min (pmm_free s)}"
  using assms AllocPage_inv [OF assms]
  by (auto simp: AllocPage_empty AllocPage_Min TakePage_def pmm_free_def)

lemma AllocPage_lowest_free_witness:
  "fst (AllocPage pmm_demo) = 0x300000 \<and> pmm_free (snd (AllocPage pmm_demo)) = {770}"
proof -
  note T = AllocPage_lowest_free [OF pmm_demo_inv]
  have "fst (AllocPage pmm_demo) = frame_of 768" by (simp add: T [THEN conjunct1] pmm_demo_free)
  moreover have "pmm_free (snd (AllocPage pmm_demo)) = {770}"
    by (simp only: T [THEN conjunct2, THEN conjunct2] pmm_demo_free) auto
  ultimately show ?thesis by (simp add: frame_of_def PAGE_SIZE_def)
qed

text \<open>AllocPages takes the first run of count free frames, all of them and nothing
  else, and fails exactly when there is no such run.\<close>
theorem AllocPages_first_fit:
  assumes "0 < count"
  shows "AllocPages count s =
    (if \<exists>p. is_run count s p
     then (let p = (LEAST p. is_run count s p) in (frame_of p, fold TakePage [p..<p + count] s))
     else (0, s))
   \<and> (pmm_inv s \<longrightarrow> pmm_inv (snd (AllocPages count s)))
   \<and> pmm_free (snd (AllocPages count s)) =
       pmm_free s - (if \<exists>p. is_run count s p
         then {(LEAST p. is_run count s p)..<(LEAST p. is_run count s p) + count} else {})"
proof (cases "\<exists>p. is_run count s p")
  case True
  let ?p = "LEAST p. is_run count s p"
  have "is_run count s ?p" using True by (rule LeastI_ex)
  then have "pmm_inv s \<longrightarrow> pmm_inv (fold TakePage [?p..<?p + count] s)"
    by (simp add: is_run_def fold_TakePage_inv)
  then show ?thesis using True by (simp add: AllocPages_spec [OF assms] Let_def)
qed (use assms in \<open>auto simp: AllocPages_spec\<close>)

lemma AllocPages_first_fit_witness: "fst (AllocPages 2 pmm_demo) = 0 \<and> snd (AllocPages 2 pmm_demo) = pmm_demo"
proof -
  have "\<not> (\<exists>p. is_run 2 pmm_demo p)"
  proof
    assume "\<exists>p. is_run 2 pmm_demo p"
    then obtain p :: nat where "{p..<p + 2} \<subseteq> {768, 770}" by (auto simp: is_run_def pmm_demo_free)
    moreover have "p \<in> {p..<p + 2}" "p + 1 \<in> {p..<p + 2}" by auto
    ultimately have "p \<in> {768, 770}" "p + 1 \<in> {768, 770}" by blast+
    then show False by auto
  qed
  then show ?thesis using AllocPages_first_fit [of 2 pmm_demo] by simp
qed

text \<open>Giving a frame back undoes its allocation: the same frames are free, the counter
  has its old value and the invariant holds.\<close>
theorem FreePage_restores:
  assumes "pmm_inv s" "fst (AllocPage s) \<noteq> 0"
  shows "pmm_frames (FreePage (fst (AllocPage s)) (snd (AllocPage s))) = pmm_frames s
    \<and> pmm_inv (FreePage (fst (AllocPage s)) (snd (AllocPage s)))
    \<and> FreePages (FreePage (fst (AllocPage s)) (snd (AllocPage s))) = FreePages s"
proof -
  obtain f s' where A: "AllocPage s = (f, s')" by fastforce
  note R = pmm.alloc_release [OF assms(1) A] and f = assms(2)[unfolded A fst_conv]
  have "pmm_free (FreePage f s') = pmm_free s"
    using R(1) [OF f] inj_on_image_eq_iff [OF pmm_frames_inj, of "pmm_free (FreePage f s')" "pmm_free s"]
    by (auto simp: pmm_frames_def pmm_free_def)
  then show ?thesis using R f assms(1) by (simp add: A FreePages_def pmm_inv_def)
qed

lemma FreePage_restores_witness:
  "pmm_frames (FreePage (fst (AllocPage pmm_demo)) (snd (AllocPage pmm_demo))) = pmm_frames pmm_demo"
proof -
  have "fst (AllocPage pmm_demo) \<noteq> 0"
    by (simp add: pmm.alloc_zero_iff [OF pmm_demo_inv] pmm_frames_def pmm_demo_free)
  then show ?thesis using FreePage_restores [OF pmm_demo_inv] by blast
qed

end
