(* ===== verification/VirtMem.thy ===== *)
theory VirtMem
  imports PhysMem
begin

text \<open>The virtual memory manager, kernel/mm/virtual_memory.cpp: 4-level page tables in
  identity-mapped physical memory.  Memory is a function from the address of a 64-bit entry to
  its value, so a table is its physical address and entry i of table t is at t + 8 * i.  The
  state also holds the frame allocator, CR3, the kernel PML4 and the bump pointer of kernel
  virtual addresses.  TLB flushes and diagnostics are left out.\<close>

section \<open>State, flags and indices\<close>

record vmm =
  vm_pmm :: pmm
  vm_mem :: "u64 \<Rightarrow> u64"
  vm_cr3 :: u64
  s_pml4_phys :: u64
  s_kvirt_next :: u64

definition PTE_PRESENT :: u64 where "PTE_PRESENT = 1"
definition PTE_WRITABLE :: u64 where "PTE_WRITABLE = 2"
definition PTE_USER :: u64 where "PTE_USER = 4"
definition PTE_PS :: u64 where "PTE_PS = 0x80"
definition PTE_NX :: u64 where "PTE_NX = 0x8000000000000000"
definition PTE_ADDR_MASK :: u64 where "PTE_ADDR_MASK = 0x000FFFFFFFFFF000"

abbreviation present :: "u64 \<Rightarrow> bool" where "present e \<equiv> e AND PTE_PRESENT \<noteq> 0"
abbreviation huge :: "u64 \<Rightarrow> bool" where "huge e \<equiv> e AND PTE_PS \<noteq> 0"

definition pml4_idx :: "u64 \<Rightarrow> u64" where "pml4_idx v = drop_bit 39 v AND 0x1FF"
definition pdpt_idx :: "u64 \<Rightarrow> u64" where "pdpt_idx v = drop_bit 30 v AND 0x1FF"
definition pd_idx :: "u64 \<Rightarrow> u64" where "pd_idx v = drop_bit 21 v AND 0x1FF"
definition pt_idx :: "u64 \<Rightarrow> u64" where "pt_idx v = drop_bit 12 v AND 0x1FF"

text \<open>The address of entry i of table t, a read and a write of an entry.\<close>
definition entry_ptr :: "u64 \<Rightarrow> u64 \<Rightarrow> u64" where "entry_ptr t i = t + 8 * i"

abbreviation rd :: "vmm \<Rightarrow> u64 \<Rightarrow> u64 \<Rightarrow> u64" where "rd s t i \<equiv> vm_mem s (entry_ptr t i)"

definition wr :: "u64 \<Rightarrow> u64 \<Rightarrow> vmm \<Rightarrow> vmm" where
  "wr a e s = s\<lparr>vm_mem := (vm_mem s)(a := e)\<rparr>"

text \<open>The loop that writes f i to entry i of a table for the indices of a list.\<close>
definition fill_table :: "u64 \<Rightarrow> (u64 \<Rightarrow> u64) \<Rightarrow> nat list \<Rightarrow> vmm \<Rightarrow> vmm" where
  "fill_table t f ns s = fold (\<lambda>i s. wr (entry_ptr t (of_nat i)) (f (of_nat i)) s) ns s"

section \<open>Operations\<close>

definition get_or_alloc :: "u64 \<Rightarrow> bool \<Rightarrow> vmm \<Rightarrow> u64 \<times> vmm" where
  "get_or_alloc ep alloc s =
    (let e = vm_mem s ep in
     if present e then (if huge e then (0, s) else (e AND PTE_ADDR_MASK, s))
     else if \<not> alloc then (0, s)
     else
       (let (phys, pm) = AllocPage (vm_pmm s); s1 = s\<lparr>vm_pmm := pm\<rparr> in
        if phys = 0 then (0, s1)
        else (phys, wr ep (phys OR PTE_PRESENT OR PTE_WRITABLE OR PTE_USER)
                       (fill_table phys (\<lambda>_. 0) [0..<512] s1))))"

definition VMM_Init :: "vmm \<Rightarrow> vmm" where
  "VMM_Init s = s\<lparr>s_pml4_phys := vm_cr3 s AND PTE_ADDR_MASK\<rparr>"

definition MapPageInto :: "u64 \<Rightarrow> u64 \<Rightarrow> u64 \<Rightarrow> u64 \<Rightarrow> vmm \<Rightarrow> bool \<times> vmm" where
  "MapPageInto pml4 virt phys flags s =
    (let (pdpt, s) = get_or_alloc (entry_ptr pml4 (pml4_idx virt)) True s in
     if pdpt = 0 then (False, s) else
     let (pd, s) = get_or_alloc (entry_ptr pdpt (pdpt_idx virt)) True s in
     if pd = 0 then (False, s) else
     let (pt, s) = get_or_alloc (entry_ptr pd (pd_idx virt)) True s in
     if pt = 0 then (False, s) else
     (True, wr (entry_ptr pt (pt_idx virt)) ((phys AND PTE_ADDR_MASK) OR (flags OR PTE_PRESENT)) s))"

text \<open>MapPage has the same body on the kernel PML4 (and flushes the TLB entry).\<close>
definition MapPage :: "u64 \<Rightarrow> u64 \<Rightarrow> u64 \<Rightarrow> vmm \<Rightarrow> bool \<times> vmm" where
  "MapPage virt phys flags s = MapPageInto (s_pml4_phys s) virt phys flags s"

definition UnmapPage :: "u64 \<Rightarrow> vmm \<Rightarrow> vmm" where
  "UnmapPage virt s =
    (let e1 = rd s (s_pml4_phys s) (pml4_idx virt) in
     if \<not> present e1 then s else
     let pdpt = e1 AND PTE_ADDR_MASK; e2 = rd s pdpt (pdpt_idx virt) in
     if \<not> present e2 \<or> huge e2 then s else
     let pd = e2 AND PTE_ADDR_MASK; e3 = rd s pd (pd_idx virt) in
     if \<not> present e3 \<or> huge e3 then s else
     let pt = e3 AND PTE_ADDR_MASK in wr (entry_ptr pt (pt_idx virt)) 0 s)"

definition V2P :: "u64 \<Rightarrow> vmm \<Rightarrow> u64" where
  "V2P virt s =
    (let e1 = rd s (s_pml4_phys s) (pml4_idx virt) in
     if \<not> present e1 then 0 else
     let pdpt = e1 AND PTE_ADDR_MASK; e2 = rd s pdpt (pdpt_idx virt) in
     if \<not> present e2 then 0 else
     if huge e2 then (e2 AND 0xFFFFFFC0000000) OR (virt AND 0x3FFFFFFF) else
     let pd = e2 AND PTE_ADDR_MASK; e3 = rd s pd (pd_idx virt) in
     if \<not> present e3 then 0 else
     if huge e3 then (e3 AND 0xFFFFFFFE00000) OR (virt AND 0x1FFFFF) else
     let pt = e3 AND PTE_ADDR_MASK; pte = rd s pt (pt_idx virt) in
     if \<not> present pte then 0 else (pte AND PTE_ADDR_MASK) OR (virt AND 0xFFF))"

definition AllocKernelVA :: "u64 \<Rightarrow> vmm \<Rightarrow> u64 \<times> vmm" where
  "AllocKernelVA pages s =
    (s_kvirt_next s, s\<lparr>s_kvirt_next := s_kvirt_next s + pages * of_nat PAGE_SIZE\<rparr>)"

definition HandlePageFault :: "u64 \<Rightarrow> u32 \<Rightarrow> bool" where
  "HandlePageFault cr2 error_code = False"

text \<open>The two copying loops of CreateUserPml4: present entries of the kernel PML4, with the user
  bit added, and the entries of the kernel PDPT.\<close>
definition copy_present :: "u64 \<Rightarrow> u64 \<Rightarrow> nat list \<Rightarrow> vmm \<Rightarrow> vmm" where
  "copy_present k n ns s = fold (\<lambda>i s. let e = rd s k (of_nat i) in
     if present e then wr (entry_ptr n (of_nat i)) (e OR PTE_USER) s else s) ns s"

definition copy_entries :: "u64 \<Rightarrow> u64 \<Rightarrow> nat list \<Rightarrow> vmm \<Rightarrow> vmm" where
  "copy_entries k n ns s = fold (\<lambda>i s. wr (entry_ptr n (of_nat i)) (rd s k (of_nat i)) s) ns s"

definition CreateUserPml4 :: "vmm \<Rightarrow> u64 \<times> vmm" where
  "CreateUserPml4 s =
    (let (new_pml4, pm) = AllocPage (vm_pmm s); s = s\<lparr>vm_pmm := pm\<rparr> in
     if new_pml4 = 0 then (0, s) else
     let k = s_pml4_phys s;
         s = fill_table new_pml4 (\<lambda>_. 0) [0..<512] s;
         s = copy_present k new_pml4 [1..<512] s;
         (new_pdpt, pm) = AllocPage (vm_pmm s); s = s\<lparr>vm_pmm := pm\<rparr> in
     if new_pdpt = 0 then (0, s\<lparr>vm_pmm := FreePage new_pml4 (vm_pmm s)\<rparr>) else
     let s = fill_table new_pdpt (\<lambda>_. 0) [0..<512] s;
         s = (if present (rd s k 0)
              then copy_entries (rd s k 0 AND PTE_ADDR_MASK) new_pdpt [0..<4] s
              else s)
     in (new_pml4, wr (entry_ptr new_pml4 0) (new_pdpt OR PTE_PRESENT OR PTE_WRITABLE OR PTE_USER) s))"

definition SHARED_USER_VA :: u64 where "SHARED_USER_VA = 0x7FFE0000"

definition MapSharedUserData :: "u64 \<Rightarrow> vmm \<Rightarrow> bool \<times> vmm" where
  "MapSharedUserData phys s =
    (let va = SHARED_USER_VA; pml4 = s_pml4_phys s; e1 = rd s pml4 (pml4_idx va) in
     if \<not> present e1 then (False, s) else
     let s = wr (entry_ptr pml4 (pml4_idx va)) (e1 OR PTE_USER) s;
         pdpt = e1 AND PTE_ADDR_MASK; e2 = rd s pdpt (pdpt_idx va) in
     if \<not> present e2 then (False, s) else
     let s = wr (entry_ptr pdpt (pdpt_idx va)) (e2 OR PTE_USER) s;
         pd = e2 AND PTE_ADDR_MASK; e3 = rd s pd (pd_idx va) in
     if \<not> present e3 \<or> \<not> huge e3 then MapPage va phys (PTE_PRESENT OR PTE_USER) s else
     let huge_base = e3 AND 0x000FFFFFFFE00000;
         (pt, pm) = AllocPage (vm_pmm s); s = s\<lparr>vm_pmm := pm\<rparr> in
     if pt = 0 then (False, s) else
     let s = fill_table pt (\<lambda>i. (huge_base + i * of_nat PAGE_SIZE) OR PTE_PRESENT OR PTE_WRITABLE) [0..<512] s;
         s = wr (entry_ptr pt (pt_idx va)) ((phys AND PTE_ADDR_MASK) OR PTE_PRESENT OR PTE_USER) s
     in (True, wr (entry_ptr pd (pd_idx va)) (pt OR PTE_PRESENT OR PTE_WRITABLE OR PTE_USER) s))"

definition SwitchAddressSpace :: "u64 \<Rightarrow> vmm \<Rightarrow> vmm" where
  "SwitchAddressSpace cr3 s = s\<lparr>vm_cr3 := cr3\<rparr>"

definition ProtectPageInto :: "u64 \<Rightarrow> u64 \<Rightarrow> u64 \<Rightarrow> vmm \<Rightarrow> bool \<times> vmm" where
  "ProtectPageInto pml4 virt flags s =
    (let e1 = rd s pml4 (pml4_idx virt) in
     if \<not> present e1 \<or> huge e1 then (False, s) else
     let pdpt = e1 AND PTE_ADDR_MASK; e2 = rd s pdpt (pdpt_idx virt) in
     if \<not> present e2 \<or> huge e2 then (False, s) else
     let pd = e2 AND PTE_ADDR_MASK; e3 = rd s pd (pd_idx virt) in
     if \<not> present e3 \<or> huge e3 then (False, s) else
     let pt = e3 AND PTE_ADDR_MASK; pte = rd s pt (pt_idx virt) in
     if \<not> present pte then (False, s) else
     (True, wr (entry_ptr pt (pt_idx virt)) ((pte AND PTE_ADDR_MASK) OR (flags OR PTE_PRESENT)) s))"

definition GetPteInto :: "u64 \<Rightarrow> u64 \<Rightarrow> vmm \<Rightarrow> u64" where
  "GetPteInto pml4 virt s =
    (let e1 = rd s pml4 (pml4_idx virt) in
     if \<not> present e1 \<or> huge e1 then 0 else
     let pdpt = e1 AND PTE_ADDR_MASK; e2 = rd s pdpt (pdpt_idx virt) in
     if \<not> present e2 \<or> huge e2 then 0 else
     let pd = e2 AND PTE_ADDR_MASK; e3 = rd s pd (pd_idx virt) in
     if \<not> present e3 \<or> huge e3 then 0 else
     let pt = e3 AND PTE_ADDR_MASK in rd s pt (pt_idx virt))"

definition TranslateInPml4 :: "u64 \<Rightarrow> u64 \<Rightarrow> vmm \<Rightarrow> u64" where
  "TranslateInPml4 pml4 virt s =
    (let e1 = rd s pml4 (pml4_idx virt) in
     if \<not> present e1 then 0 else
     if huge e1 then 0 else
     let pdpt = e1 AND PTE_ADDR_MASK; e2 = rd s pdpt (pdpt_idx virt) in
     if \<not> present e2 then 0 else
     if huge e2 then (e2 AND 0xFFFFFFC0000000) OR (virt AND 0x3FFFFFFF) else
     let pd = e2 AND PTE_ADDR_MASK; e3 = rd s pd (pd_idx virt) in
     if \<not> present e3 then 0 else
     if huge e3 then (e3 AND 0xFFFFFFFE00000) OR (virt AND 0x1FFFFF) else
     let pt = e3 AND PTE_ADDR_MASK; pte = rd s pt (pt_idx virt) in
     if \<not> present pte then 0 else (pte AND PTE_ADDR_MASK) OR (virt AND 0xFFF))"

definition UnmapPageFrom :: "u64 \<Rightarrow> u64 \<Rightarrow> vmm \<Rightarrow> vmm" where
  "UnmapPageFrom pml4 virt s =
    (let e1 = rd s pml4 (pml4_idx virt) in
     if \<not> present e1 \<or> huge e1 then s else
     let l3 = e1 AND PTE_ADDR_MASK; e2 = rd s l3 (pdpt_idx virt) in
     if \<not> present e2 \<or> huge e2 then s else
     let l2 = e2 AND PTE_ADDR_MASK; e3 = rd s l2 (pd_idx virt) in
     if \<not> present e3 \<or> huge e3 then s else
     let l1 = e3 AND PTE_ADDR_MASK in wr (entry_ptr l1 (pt_idx virt)) 0 s)"

end
