(* ===== verification/PageTree.thy ===== *)
theory PageTree
  imports VirtMem
begin

text \<open>The page tables of kernel/mm/virtual_memory.cpp as a tree: reads after writes of entries,
  the tree of tables below a root, the well-formedness invariant (the tables are distinct frames
  in use), and what each operation of VirtMem does to the tree, to the translations of its own
  root and to those of every other root.\<close>

section \<open>Page-table entries\<close>

lemma present_bit: "present e \<longleftrightarrow> bit e 0"
  by (auto simp: PTE_PRESENT_def and_one_eq bit_0 odd_iff_mod_2_eq_one)

lemma huge_bit: "huge e \<longleftrightarrow> bit e 7"
  using and_exp_eq_0_iff_not_bit [of e 7] by (simp add: PTE_PS_def)

lemma PTE_ADDR_MASK_alt: "PTE_ADDR_MASK = push_bit 12 (mask 40)"
  by (simp add: PTE_ADDR_MASK_def mask_eq_exp_minus_1)

lemma bit_ADDR_MASK: "bit PTE_ADDR_MASK n \<longleftrightarrow> 12 \<le> n \<and> n < 52"
  by (auto simp: PTE_ADDR_MASK_alt bit_simps)

lemma frame_bits: "f \<in> pmm_all_frames \<Longrightarrow> bit f n \<Longrightarrow> 12 \<le> n \<and> n < 33"
proof -
  assume "f \<in> pmm_all_frames" and b: "bit f n"
  then obtain p where p: "p < 2097152" "f = frame_of p" by (auto simp: pmm_all_frames_def MAX_PAGES_val)
  have "f = push_bit 12 (of_nat p)" by (simp add: p(2) frame_of_def PAGE_SIZE_def push_bit_eq_mult)
  then have n: "12 \<le> n" "bit (of_nat p :: u64) (n - 12)" using b by (auto simp: bit_simps)
  have "bit p (n - 12)" using n(2) by (simp add: bit_simps)
  then have "2 ^ (n - 12) \<le> p" by (metis bit_nat_iff bit_iff_odd div_less even_zero not_le)
  then have "(2::nat) ^ (n - 12) < 2 ^ 21" using p(1) by simp
  then have "n - 12 < 21" by (rule power_less_imp_less_exp [rotated]) simp
  then show ?thesis using n(1) by simp
qed

lemma flag_bits: "bit (PTE_PRESENT OR PTE_WRITABLE OR PTE_USER) n \<longleftrightarrow> n < 3"
proof -
  have "PTE_PRESENT OR PTE_WRITABLE OR PTE_USER = mask 3"
    by (simp add: PTE_PRESENT_def PTE_WRITABLE_def PTE_USER_def mask_eq_exp_minus_1)
  then show ?thesis by (auto simp: bit_simps)
qed

lemma link_entry:
  assumes "f \<in> pmm_all_frames"
  defines "e \<equiv> f OR PTE_PRESENT OR PTE_WRITABLE OR PTE_USER"
  shows "present e" "\<not> huge e" "e AND PTE_ADDR_MASK = f"
proof -
  have b: "bit e n \<longleftrightarrow> bit f n \<or> n < 3" for n
    using flag_bits [of n] by (auto simp: e_def bit_or_iff)
  show "present e" using b [of 0] by (simp add: present_bit)
  show "\<not> huge e" using b [of 7] frame_bits [OF assms(1), of 7] by (auto simp: huge_bit)
  show "e AND PTE_ADDR_MASK = f"
    by (rule bit_word_eqI) (use b frame_bits [OF assms(1)] in \<open>force simp: bit_and_iff bit_ADDR_MASK\<close>)
qed

lemma frame_small: "f \<in> pmm_all_frames \<Longrightarrow> unat f < 2^33"
  by (auto simp: pmm_all_frames_def unat_frame_of MAX_PAGES_val)

lemma unat_entry_ptr:
  assumes "f \<in> pmm_all_frames" "i < 512"
  shows "unat (entry_ptr f i) = unat f + 8 * unat i"
proof -
  have i: "unat i < 512" using assms(2) by (simp add: word_less_nat_alt)
  have "unat (8 * i) = 8 * unat i" using i by (subst unat_mult_lem [THEN iffD1]) auto
  then show ?thesis using frame_small [OF assms(1)] i
    by (simp add: entry_ptr_def) (subst unat_add_lem [THEN iffD1], auto)
qed

lemma entry_ptr_inj:
  assumes "t \<in> pmm_all_frames" "u \<in> pmm_all_frames" "i < 512" "j < 512"
  shows "entry_ptr t i = entry_ptr u j \<longleftrightarrow> t = u \<and> i = j"
proof
  assume "entry_ptr t i = entry_ptr u j"
  then have e: "unat t + 8 * unat i = unat u + 8 * unat j"
    using unat_entry_ptr assms by metis
  have m: "unat t mod 4096 = 0" "unat u mod 4096 = 0" using assms by (auto intro: pmm.frame_aligned)
  obtain a b where ab: "unat t = 4096 * a" "unat u = 4096 * b" using m by (auto elim!: dvdE simp: mod_eq_0_iff_dvd)
  have ij: "unat i < 512" "unat j < 512" using assms by (simp_all add: word_less_nat_alt)
  have s: "512 * a + unat i = 512 * b + unat j" using e ab by simp
  have "(512 * a + unat i) div 512 = a" "(512 * b + unat j) div 512 = b" using ij by simp_all
  then have "a = b" using s by simp
  then have "unat t = unat u \<and> unat i = unat j" using s ab by simp
  then show "t = u \<and> i = j" by (simp add: word_unat_eq_iff)
qed simp

lemma idx_lt [simp]: "pml4_idx v < 512" "pdpt_idx v < 512" "pd_idx v < 512" "pt_idx v < 512"
proof -
  have "w AND 0x1FF < 512" for w :: u64
  proof -
    have "w AND 0x1FF = take_bit 9 w" by (simp add: take_bit_eq_mask mask_eq_exp_minus_1)
    then show ?thesis by (simp add: word_less_nat_alt unsigned_take_bit_eq take_bit_nat_def)
  qed
  then show "pml4_idx v < 512" "pdpt_idx v < 512" "pd_idx v < 512" "pt_idx v < 512"
    by (simp_all add: pml4_idx_def pdpt_idx_def pd_idx_def pt_idx_def)
qed

section \<open>Reads after writes\<close>

lemma wr_sel [simp]: "vm_pmm (wr a e s) = vm_pmm s" "s_pml4_phys (wr a e s) = s_pml4_phys s"
  "vm_mem (wr a e s) = (vm_mem s)(a := e)"
  by (simp_all add: wr_def)

lemma fill_table_sel [simp]: "vm_pmm (fill_table t f ns s) = vm_pmm s"
  "s_pml4_phys (fill_table t f ns s) = s_pml4_phys s"
  by (induction ns arbitrary: s) (simp_all add: fill_table_def)

lemma fill_table_rd:
  assumes "t \<in> pmm_all_frames" "u \<in> pmm_all_frames" "j < 512" "\<forall>n\<in>set ns. n < 512"
  shows "rd (fill_table t f ns s) u j =
    (if u = t \<and> unat j \<in> set ns then f j else rd s u j)"
  using assms(4)
proof (induction ns rule: rev_induct)
  case (snoc n ns)
  have n0: "n < 512" using snoc.prems by simp
  then have n1: "unat (of_nat n :: u64) = n" by (subst unat_of_nat) simp
  then have n: "n < 512" "of_nat n < (512 :: u64)" using n0 by (simp_all only: word_less_nat_alt) simp
  have "entry_ptr u j = entry_ptr t (of_nat n) \<longleftrightarrow> u = t \<and> unat j = n"
    using entry_ptr_inj [OF assms(2,1,3) n(2)] n1 by (metis word_unat_eq_iff)
  moreover have "fill_table t f (ns @ [n]) s = wr (entry_ptr t (of_nat n)) (f (of_nat n)) (fill_table t f ns s)"
    by (simp add: fill_table_def)
  moreover have "rd (fill_table t f ns s) u j = (if u = t \<and> unat j \<in> set ns then f j else rd s u j)"
    using snoc by simp
  moreover have "unat j = n \<Longrightarrow> of_nat n = j" by auto
  ultimately show ?case by (cases "u = t \<and> unat j = n") auto
qed (simp add: fill_table_def)

lemma fill_table_full:
  assumes "t \<in> pmm_all_frames" "u \<in> pmm_all_frames" "j < 512"
  shows "rd (fill_table t f [0..<512] s) u j = (if u = t then f j else rd s u j)"
  using fill_table_rd [OF assms, of "[0..<512]"] assms(3) by (simp add: word_less_nat_alt)

section \<open>The tree of tables\<close>

definition child :: "vmm \<Rightarrow> u64 \<Rightarrow> u64 \<Rightarrow> u64 option" where
  "child s t i = (let e = rd s t i in if present e \<and> \<not> huge e then Some (e AND PTE_ADDR_MASK) else None)"

text \<open>The table reached from table t along a path of indices.\<close>
fun table_at :: "vmm \<Rightarrow> u64 \<Rightarrow> u64 list \<Rightarrow> u64 option" where
  "table_at s t [] = Some t"
| "table_at s t (i # is) = (case child s t i of None \<Rightarrow> None | Some c \<Rightarrow> table_at s c is)"

definition vpath :: "u64 list \<Rightarrow> bool" where
  "vpath p \<longleftrightarrow> length p \<le> 3 \<and> (\<forall>i\<in>set p. i < 512)"

definition va_path :: "u64 \<Rightarrow> u64 list" where
  "va_path v = [pml4_idx v, pdpt_idx v, pd_idx v]"

definition tables :: "vmm \<Rightarrow> u64 \<Rightarrow> u64 set" where
  "tables s r = {t. \<exists>p. vpath p \<and> table_at s r p = Some t}"

definition used_frames :: "vmm \<Rightarrow> u64 set" where
  "used_frames s = pmm_all_frames - pmm_frames (vm_pmm s) - {0}"

text \<open>A root is well formed when its tables are frames in use and form a tree: no table is reached
  along two paths.\<close>
definition pt_wf :: "vmm \<Rightarrow> u64 \<Rightarrow> bool" where
  "pt_wf s r \<longleftrightarrow> pmm_inv (vm_pmm s) \<and> tables s r \<subseteq> used_frames s
     \<and> (\<forall>p q t. vpath p \<and> vpath q \<and> table_at s r p = Some t \<and> table_at s r q = Some t \<longrightarrow> p = q)"

lemma vpath_snoc: "vpath (p @ [i]) \<longleftrightarrow> vpath p \<and> length p < 3 \<and> i < 512"
  by (auto simp: vpath_def)

lemma vpath_va [simp]: "vpath (va_path v)" "vpath []" "vpath [pml4_idx v]"
  "vpath [pml4_idx v, pdpt_idx v]" "vpath [pml4_idx v, pdpt_idx v, pd_idx v]"
  by (simp_all add: vpath_def va_path_def)

lemma table_at_append:
  "table_at s t (p @ q) = (case table_at s t p of None \<Rightarrow> None | Some u \<Rightarrow> table_at s u q)"
  by (induction p arbitrary: t) (auto split: option.splits)

lemma table_at_snoc:
  "table_at s t (p @ [i]) = (case table_at s t p of None \<Rightarrow> None | Some u \<Rightarrow> child s u i)"
  by (auto simp: table_at_append split: option.splits)

lemma tablesI: "vpath p \<Longrightarrow> table_at s r p = Some t \<Longrightarrow> t \<in> tables s r"
  by (auto simp: tables_def)

lemma pt_wf_used: "pt_wf s r \<Longrightarrow> vpath p \<Longrightarrow> table_at s r p = Some t \<Longrightarrow> t \<in> used_frames s"
  by (auto simp: pt_wf_def dest: tablesI)

lemma pt_wf_inj:
  "pt_wf s r \<Longrightarrow> vpath p \<Longrightarrow> vpath q \<Longrightarrow> table_at s r p = Some t \<Longrightarrow> table_at s r q = Some t \<Longrightarrow> p = q"
  by (auto simp: pt_wf_def)

lemma used_frame: "t \<in> used_frames s \<Longrightarrow> t \<in> pmm_all_frames \<and> t \<noteq> 0 \<and> t \<notin> pmm_frames (vm_pmm s)"
  by (auto simp: used_frames_def)

section \<open>The walk as a recursion along a path\<close>

text \<open>What a hit at each level yields: nothing, a 1 GB, a 2 MB or a 4 KB translation.\<close>
fun xl :: "vmm \<Rightarrow> u64 \<Rightarrow> (u64 \<times> (u64 \<Rightarrow> u64)) list \<Rightarrow> u64" where
  "xl s t [] = 0"
| "xl s t ((i, g) # l) = (let e = rd s t i in
     if \<not> present e then 0 else if l = [] then g e
     else if huge e then g e else xl s (e AND PTE_ADDR_MASK) l)"

definition levels :: "u64 \<Rightarrow> (u64 \<times> (u64 \<Rightarrow> u64)) list" where
  "levels v = [(pml4_idx v, \<lambda>_. 0), (pdpt_idx v, \<lambda>e. (e AND 0xFFFFFFC0000000) OR (v AND 0x3FFFFFFF)),
     (pd_idx v, \<lambda>e. (e AND 0xFFFFFFFE00000) OR (v AND 0x1FFFFF)),
     (pt_idx v, \<lambda>e. (e AND PTE_ADDR_MASK) OR (v AND 0xFFF))]"

lemma Translate_xl: "TranslateInPml4 r v s = xl s r (levels v)"
  by (simp add: TranslateInPml4_def levels_def Let_def)

text \<open>Two states whose tables along the walk agree translate alike.\<close>
lemma xl_cong:
  assumes "table_at s r p = Some t" "length p + length l = 4" "l \<noteq> []" "vpath p" "\<forall>x\<in>set l. fst x < 512"
    and "\<And>q u j. vpath q \<Longrightarrow> table_at s r q = Some u \<Longrightarrow> j < 512 \<Longrightarrow>
          (\<exists>k. q @ [j] = p @ map fst (take (Suc k) l)) \<Longrightarrow> rd s' u j = rd s u j"
  shows "xl s' t l = xl s t l"
  using assms
proof (induction l arbitrary: p t)
  case (Cons x l)
  obtain i g where x: "x = (i, g)" by fastforce
  have "p @ [i] = p @ map fst (take (Suc 0) (x # l))" by (simp add: x)
  then have e: "rd s' t i = rd s t i" using Cons.prems(1,4,5) Cons.prems(6)[of p t i] x by auto
  show ?case
  proof (cases "present (rd s t i) \<and> \<not> huge (rd s t i) \<and> l \<noteq> []")
    case True
    let ?c = "rd s t i AND PTE_ADDR_MASK"
    have c: "table_at s r (p @ [i]) = Some ?c"
      using Cons.prems(1) True by (simp add: table_at_snoc child_def)
    have "xl s' ?c l = xl s ?c l"
    proof (rule Cons.IH [OF c])
      show "length (p @ [i]) + length l = 4" "l \<noteq> []" "\<forall>x\<in>set l. fst x < 512"
        using Cons.prems True by auto
      then show "vpath (p @ [i])" using Cons.prems x True by (cases l) (auto simp: vpath_def)
      fix q u j assume a: "vpath q" "table_at s r q = Some u" "j < 512"
        and "\<exists>k. q @ [j] = (p @ [i]) @ map fst (take (Suc k) l)"
      then obtain k where "q @ [j] = p @ map fst (take (Suc (Suc k)) (x # l))" by (auto simp: x)
      then show "rd s' u j = rd s u j" using Cons.prems(6) [OF a] by blast
    qed
    then show ?thesis using e True by (simp add: x)
  qed (use e in \<open>auto simp: x Let_def\<close>)
qed simp

lemma levels_simps [simp]: "map fst (levels v) = va_path v @ [pt_idx v]" "length (levels v) = 4"
  "levels v \<noteq> []" "\<forall>x\<in>set (levels v). fst x < 512"
  by (simp_all add: levels_def va_path_def)

lemma Translate_cong:
  assumes "\<And>q u j. vpath q \<Longrightarrow> table_at s r q = Some u \<Longrightarrow> j < 512 \<Longrightarrow>
      (\<exists>k. q @ [j] = take (Suc k) (va_path v @ [pt_idx v])) \<Longrightarrow> rd s' u j = rd s u j"
  shows "TranslateInPml4 r v s' = TranslateInPml4 r v s"
  unfolding Translate_xl
proof (rule xl_cong [of s r "[]" r])
  fix q u j assume a: "vpath q" "table_at s r q = Some u" "j < 512"
    and "\<exists>k. q @ [j] = [] @ map fst (take (Suc k) (levels v))"
  then show "rd s' u j = rd s u j" using assms [OF a] by (auto simp: take_map [symmetric])
qed auto

lemma table_at_cong:
  assumes "\<And>q u j. vpath q \<Longrightarrow> length q < 3 \<Longrightarrow> table_at s r q = Some u \<Longrightarrow> j < 512 \<Longrightarrow> rd s' u j = rd s u j"
    and "vpath p"
  shows "table_at s' r p = table_at s r p"
  using assms(2)
proof (induction p rule: rev_induct)
  case (snoc j q)
  then show ?case using assms(1) by (auto simp: vpath_snoc table_at_snoc child_def split: option.splits)
qed simp

text \<open>A state change that leaves the tables of a root alone leaves its translations alone.\<close>
lemma root_cong:
  assumes "pt_wf s r" "\<And>u j. u \<in> tables s r \<Longrightarrow> j < 512 \<Longrightarrow> rd s' u j = rd s u j"
  shows "vpath p \<Longrightarrow> table_at s' r p = table_at s r p" "tables s' r = tables s r"
    "TranslateInPml4 r v s' = TranslateInPml4 r v s"
    "pmm_inv (vm_pmm s') \<Longrightarrow> used_frames s \<subseteq> used_frames s' \<Longrightarrow> pt_wf s' r"
proof -
  have t: "table_at s' r p = table_at s r p" if "vpath p" for p
    by (rule table_at_cong) (use assms(2) that in \<open>auto dest: tablesI\<close>)
  show "vpath p \<Longrightarrow> table_at s' r p = table_at s r p" by (rule t)
  show T: "tables s' r = tables s r" by (auto simp: tables_def t)
  show "TranslateInPml4 r v s' = TranslateInPml4 r v s"
    by (rule Translate_cong) (use assms(2) in \<open>auto dest: tablesI\<close>)
  assume "pmm_inv (vm_pmm s')" "used_frames s \<subseteq> used_frames s'"
  then show "pt_wf s' r" using assms(1) unfolding pt_wf_def T by (metis (no_types, opaque_lifting) t order_trans)
qed

section \<open>Linking a fresh table\<close>

text \<open>The effect of the allocating branch: frame f, free before, becomes a zeroed table linked at
  entry i of table t.\<close>
definition links :: "vmm \<Rightarrow> u64 \<Rightarrow> u64 \<Rightarrow> u64 \<Rightarrow> vmm \<Rightarrow> bool" where
  "links s t i f s' \<longleftrightarrow> f \<in> pmm_frames (vm_pmm s) \<and> f \<in> pmm_all_frames \<and> f \<noteq> 0
     \<and> pmm_inv (vm_pmm s') \<and> pmm_frames (vm_pmm s') = pmm_frames (vm_pmm s) - {f}
     \<and> (\<forall>u j. u \<in> pmm_all_frames \<longrightarrow> j < 512 \<longrightarrow>
          rd s' u j = (if u = t \<and> j = i then f OR PTE_PRESENT OR PTE_WRITABLE OR PTE_USER
                       else if u = f then 0 else rd s u j))"

lemma zero_not_present [simp]: "\<not> present 0" by simp

lemma link_table_at:
  assumes wf: "pt_wf s r" and p: "vpath (p @ [i])" "table_at s r p = Some t"
    and np: "\<not> present (rd s t i)" and l: "links s t i f s'"
  shows "vpath q \<Longrightarrow> table_at s' r q = (if q = p @ [i] then Some f else table_at s r q)"
proof (induction q rule: rev_induct)
  case (snoc j q)
  have vq: "vpath q" "length q < 3" "j < 512" using snoc.prems by (simp_all add: vpath_snoc)
  have vp: "vpath p" "i < 512" using p by (simp_all add: vpath_snoc)
  have IH: "table_at s' r q = (if q = p @ [i] then Some f else table_at s r q)" using snoc.IH vq by simp
  have tf: "t \<in> used_frames s" using wf vp p by (blast intro: pt_wf_used)
  then have f: "f \<in> pmm_all_frames" "f \<notin> used_frames s" "f \<noteq> t" using l by (auto simp: links_def used_frames_def)
  have none: "table_at s r (p @ [i]) = None" using p np by (simp add: table_at_snoc child_def Let_def)
  show ?case
  proof (cases "q = p @ [i]")
    case True
    have "child s' f j = None" using l f vq by (simp add: child_def links_def Let_def)
    moreover have "table_at s r (q @ [j]) = None" unfolding True using none by (subst table_at_append) simp
    moreover have "table_at s' r (q @ [j]) = child s' f j" using True IH by (subst table_at_snoc) simp
    moreover have "q @ [j] \<noteq> p @ [i]" using True by simp
    ultimately show ?thesis by simp
  next
    case nq: False
    show ?thesis
    proof (cases "table_at s r q")
      case None
      then show ?thesis using IH nq p by (auto simp: table_at_snoc)
    next
      case (Some u)
      have u: "u \<in> used_frames s" using wf vq Some by (blast intro: pt_wf_used)
      then have uf: "u \<noteq> f" "u \<in> pmm_all_frames" using f(2) by (auto dest: used_frame)
      have rdu: "rd s' u j = (if u = t \<and> j = i then f OR PTE_PRESENT OR PTE_WRITABLE OR PTE_USER else rd s u j)"
        using l uf vq by (simp add: links_def)
      have iff: "q @ [j] = p @ [i] \<longleftrightarrow> u = t \<and> j = i"
        using pt_wf_inj [OF wf vq(1) vp(1)] Some p by auto
      show ?thesis
        using IH nq Some rdu iff link_entry [OF f(1)] by (auto simp: table_at_snoc child_def Let_def)
    qed
  qed
qed (use p in simp)

lemma used_links: "links s t i f s' \<Longrightarrow> used_frames s' = insert f (used_frames s)"
  by (auto simp: links_def used_frames_def)

lemma link_wf:
  assumes wf: "pt_wf s r" and p: "vpath (p @ [i])" "table_at s r p = Some t"
    and np: "\<not> present (rd s t i)" and l: "links s t i f s'"
  shows "pt_wf s' r" "tables s' r = insert f (tables s r)"
proof -
  note T = link_table_at [OF assms]
  have f: "f \<notin> used_frames s" using l by (simp add: links_def used_frames_def)
  have none: "table_at s r (p @ [i]) = None" using p np by (simp add: table_at_snoc child_def Let_def)
  have "table_at s' r q = table_at s r q" if "vpath q" "table_at s r q = Some u" for q u
    using that none by (auto simp: T)
  then show tt: "tables s' r = insert f (tables s r)"
    using p(1) by (auto simp: tables_def T split: if_splits)
  have inj: "a = b" if "vpath a" "vpath b" "table_at s' r a = Some u" "table_at s' r b = Some u" for a b u
    using that f pt_wf_used [OF wf] pt_wf_inj [OF wf] by (auto simp: T split: if_splits)
  show "pt_wf s' r"
    unfolding pt_wf_def used_links [OF l] tt using wf l inj by (auto simp: pt_wf_def links_def)
qed

lemma xl_link:
  assumes wf: "pt_wf s r" and p: "vpath (p @ [i])" "table_at s r p = Some t"
    and np: "\<not> present (rd s t i)" and l: "links s t i f s'"
  shows "table_at s r q = Some u \<Longrightarrow> length q + length ls = 4 \<Longrightarrow> vpath q \<Longrightarrow> ls \<noteq> [] \<Longrightarrow>
     \<forall>x\<in>set ls. fst x < 512 \<Longrightarrow> xl s' u ls = xl s u ls"
proof (induction ls arbitrary: q u)
  case (Cons x ls)
  obtain j g where x: "x = (j, g)" by fastforce
  have u: "u \<in> used_frames s" using wf Cons.prems by (blast intro: pt_wf_used)
  have f: "f \<in> pmm_all_frames" "f \<notin> used_frames s" using l by (auto simp: links_def used_frames_def)
  have j: "j < 512" using Cons.prems x by simp
  show ?case
  proof (cases "u = t \<and> j = i")
    case True
    then have qp: "q = p" using pt_wf_inj [OF wf] Cons.prems p by (auto simp: vpath_snoc)
    then have ne: "ls \<noteq> []" using Cons.prems(2) p(1) by (auto simp: vpath_snoc)
    have e: "rd s' u j = f OR PTE_PRESENT OR PTE_WRITABLE OR PTE_USER"
      using l True used_frame [OF u] j by (simp add: links_def)
    obtain k h ls' where ls: "ls = (k, h) # ls'" using ne by (cases ls) auto
    have "rd s' f k = 0"
      using l f Cons.prems(5) True u by (auto simp: links_def ls used_frames_def)
    then have "xl s' f ls = 0" by (simp add: ls)
    then show ?thesis using np True e ne link_entry [OF f(1)] by (simp add: x Let_def)
  next
    case False
    then have e: "rd s' u j = rd s u j"
      using l u f(2) j by (auto simp: links_def dest: used_frame)
    show ?thesis
    proof (cases "present (rd s u j) \<and> \<not> huge (rd s u j) \<and> ls \<noteq> []")
      case True
      then have c: "table_at s r (q @ [j]) = Some (rd s u j AND PTE_ADDR_MASK)"
        using Cons.prems(1) by (simp add: table_at_snoc child_def)
      have "vpath (q @ [j])" using Cons.prems True j by (cases ls) (auto simp: vpath_def)
      then show ?thesis using Cons.IH [OF c] Cons.prems True e by (simp add: x)
    qed (use e in \<open>auto simp: x Let_def\<close>)
  qed
qed simp

lemma Translate_link:
  assumes "pt_wf s r" "vpath (p @ [i])" "table_at s r p = Some t" "\<not> present (rd s t i)" "links s t i f s'"
  shows "TranslateInPml4 r v s' = TranslateInPml4 r v s"
  unfolding Translate_xl by (rule xl_link [OF assms, of "[]"]) auto

section \<open>Descending one level\<close>

lemma get_or_alloc_fresh:
  assumes "pmm_inv (vm_pmm s)" "t \<in> pmm_all_frames" "i < 512" "\<not> present (rd s t i)"
    and "get_or_alloc (entry_ptr t i) True s = (c, s')" "t \<notin> pmm_frames (vm_pmm s)"
  shows "if c = 0 then s' = s else links s t i c s'"
proof -
  obtain f pm where A: "AllocPage (vm_pmm s) = (f, pm)" by fastforce
  show ?thesis
  proof (cases "f = 0")
    case True
    then have "pmm_frames (vm_pmm s) = {}" using pmm.alloc_zero_iff [OF assms(1)] A by simp
    then have "pm = vm_pmm s" using pmm.alloc_empty [OF assms(1)] A by simp
    then show ?thesis using assms(4,5) A True by (simp add: get_or_alloc_def Let_def)
  next
    case False
    have F: "f \<in> pmm_frames (vm_pmm s)" "pmm_frames pm = pmm_frames (vm_pmm s) - {f}" "pmm_inv pm"
      using pmm.alloc_nonzero [OF assms(1)] pmm.alloc_inv [OF assms(1)] A False by auto
    then have ff: "f \<in> pmm_all_frames" "f \<noteq> t" using pmm.frames_ok [OF assms(1)] assms(6) by auto
    have r: "c = f" "s' = wr (entry_ptr t i) (f OR PTE_PRESENT OR PTE_WRITABLE OR PTE_USER)
                   (fill_table f (\<lambda>_. 0) [0..<512] (s\<lparr>vm_pmm := pm\<rparr>))"
      using assms(4,5) A False by (auto simp: get_or_alloc_def Let_def)
    have "rd s' u j = (if u = t \<and> j = i then f OR PTE_PRESENT OR PTE_WRITABLE OR PTE_USER
                       else if u = f then 0 else rd s u j)" if "u \<in> pmm_all_frames" "j < 512" for u j
      using that fill_table_full [OF ff(1) that, of "\<lambda>_. 0" "s\<lparr>vm_pmm := pm\<rparr>"]
        entry_ptr_inj [OF that(1) assms(2) that(2) assms(3)] by (auto simp: r)
    then show ?thesis using F ff False by (simp add: r links_def)
  qed
qed

lemma get_or_alloc_step:
  assumes wf: "pt_wf s r" and p: "vpath (p @ [i])" "table_at s r p = Some t"
    and g: "get_or_alloc (entry_ptr t i) True s = (c, s')"
  shows "pt_wf s' r" "TranslateInPml4 r v s' = TranslateInPml4 r v s"
    "c \<noteq> 0 \<Longrightarrow> table_at s' r (p @ [i]) = Some c"
    "vpath q \<Longrightarrow> table_at s r q = Some u \<Longrightarrow> table_at s' r q = Some u"
    "used_frames s \<subseteq> used_frames s'"
    "u \<in> used_frames s \<Longrightarrow> j < 512 \<Longrightarrow> u \<noteq> t \<Longrightarrow> rd s' u j = rd s u j"
    "tables s' r \<subseteq> tables s r \<union> (used_frames s' - used_frames s)"
proof -
  have vp: "vpath p" "i < 512" using p(1) by (simp_all add: vpath_snoc)
  have t: "t \<in> used_frames s" using wf vp(1) p(2) by (rule pt_wf_used)
  have inv: "pmm_inv (vm_pmm s)" using wf by (simp add: pt_wf_def)
  consider (same) "s' = s" "c \<noteq> 0 \<Longrightarrow> child s t i = Some c" | (link) "\<not> present (rd s t i)" "c \<noteq> 0" "links s t i c s'"
  proof (cases "present (rd s t i)")
    case True
    then show thesis using g that(1) by (auto simp: get_or_alloc_def child_def Let_def split: if_splits)
  next
    case False
    then show thesis using get_or_alloc_fresh [OF inv _ vp(2) False g] used_frame [OF t] that by (auto split: if_splits)
  qed
  then have "pt_wf s' r \<and> TranslateInPml4 r v s' = TranslateInPml4 r v s
    \<and> (c \<noteq> 0 \<longrightarrow> table_at s' r (p @ [i]) = Some c)
    \<and> (vpath q \<longrightarrow> table_at s r q = Some u \<longrightarrow> table_at s' r q = Some u)
    \<and> used_frames s \<subseteq> used_frames s'
    \<and> (u \<in> used_frames s \<longrightarrow> j < 512 \<longrightarrow> u \<noteq> t \<longrightarrow> rd s' u j = rd s u j)
    \<and> tables s' r \<subseteq> tables s r \<union> (used_frames s' - used_frames s)"
  proof cases
    case same
    then show ?thesis using wf p by (auto simp: table_at_snoc)
  next
    case link
    note L = wf p link(1,3)
    have none: "table_at s r (p @ [i]) = None" using p link by (simp add: table_at_snoc child_def Let_def)
    have c: "c \<notin> used_frames s" using link(3) by (auto simp: links_def used_frames_def)
    show ?thesis
      using link_wf [OF L] Translate_link [OF L] link_table_at [OF L] used_links [OF link(3)] p(1) none c link(3)
      by (auto simp: links_def dest: used_frame)
  qed
  then show "pt_wf s' r" "TranslateInPml4 r v s' = TranslateInPml4 r v s"
    "c \<noteq> 0 \<Longrightarrow> table_at s' r (p @ [i]) = Some c"
    "vpath q \<Longrightarrow> table_at s r q = Some u \<Longrightarrow> table_at s' r q = Some u"
    "used_frames s \<subseteq> used_frames s'"
    "u \<in> used_frames s \<Longrightarrow> j < 512 \<Longrightarrow> u \<noteq> t \<Longrightarrow> rd s' u j = rd s u j"
    "tables s' r \<subseteq> tables s r \<union> (used_frames s' - used_frames s)"
    by blast+
qed

section \<open>Writing a leaf entry\<close>

lemma leaf_store:
  assumes wf: "pt_wf s r" and p: "vpath p" "length p = 3" "table_at s r p = Some t" and i: "i < 512"
    and s'_def: "s' = wr (entry_ptr t i) e s"
  shows "vpath q \<Longrightarrow> table_at s' r q = table_at s r q" "pt_wf s' r" "tables s' r = tables s r"
    "TranslateInPml4 r v s' =
      (if va_path v = p \<and> pt_idx v = i
       then (if present e then (e AND PTE_ADDR_MASK) OR (v AND 0xFFF) else 0)
       else TranslateInPml4 r v s)"
    "u \<in> pmm_all_frames \<Longrightarrow> j < 512 \<Longrightarrow> rd s' u j = (if u = t \<and> j = i then e else rd s u j)"
proof -
  have t: "t \<in> used_frames s" using wf p by (blast intro: pt_wf_used)
  show R: "rd s' u j = (if u = t \<and> j = i then e else rd s u j)" if "u \<in> pmm_all_frames" "j < 512" for u j
    using entry_ptr_inj [OF that(1) _ that(2) i, of t] used_frame [OF t] by (auto simp: s'_def)
  have R': "rd s' u j = rd s u j" if "vpath q" "table_at s r q = Some u" "j < 512" "q = p \<longrightarrow> j \<noteq> i" for q u j
    using R [of u j] that used_frame [OF pt_wf_used [OF wf that(1,2)]] pt_wf_inj [OF wf that(1) p(1)] p(3)
    by auto
  show T: "table_at s' r q = table_at s r q" if "vpath q" for q
    by (rule table_at_cong) (use that p(2) in \<open>auto intro: R'\<close>)
  show tt: "tables s' r = tables s r" by (auto simp: tables_def T)
  show "pt_wf s' r"
  proof -
    have "p = q" if "vpath p" "vpath q" "table_at s' r p = Some u" "table_at s' r q = Some u" for p q u
      using that pt_wf_inj [OF wf that(1,2)] by (simp add: T)
    moreover have "used_frames s' = used_frames s" "pmm_inv (vm_pmm s')"
      using wf by (simp_all add: s'_def used_frames_def pt_wf_def)
    ultimately show ?thesis using wf unfolding pt_wf_def tt by blast
  qed
  show "TranslateInPml4 r v s' =
      (if va_path v = p \<and> pt_idx v = i
       then (if present e then (e AND PTE_ADDR_MASK) OR (v AND 0xFFF) else 0)
       else TranslateInPml4 r v s)"
  proof (cases "va_path v = p \<and> pt_idx v = i")
    case True
    have "table_at s' r (va_path v) = Some t" using True p T by simp
    moreover have "rd s' t i = e" using R [of t i] used_frame [OF t] i by simp
    ultimately show ?thesis
      using True by (auto simp: va_path_def child_def TranslateInPml4_def Let_def split: if_splits option.splits)
  next
    case False
    have "TranslateInPml4 r v s' = TranslateInPml4 r v s"
    proof (rule Translate_cong)
      fix q u j assume a: "vpath q" "table_at s r q = Some u" "j < 512"
        and "\<exists>k. q @ [j] = take (Suc k) (va_path v @ [pt_idx v])"
      then obtain k where k: "q @ [j] = take (Suc k) (va_path v @ [pt_idx v])" by blast
      have "va_path v @ [pt_idx v] \<noteq> p @ [i]" using False by simp
      moreover have "length (va_path v @ [pt_idx v]) = 4" by (simp add: va_path_def)
      moreover have "take (Suc k) (va_path v @ [pt_idx v]) = va_path v @ [pt_idx v]"
        if "length (take (Suc k) (va_path v @ [pt_idx v])) = 4"
        using that calculation(2) by (intro take_all) simp
      ultimately have "q = p \<longrightarrow> j \<noteq> i"
        using k p(2) by (metis Suc_1 add_2_eq_Suc' length_append_singleton numeral_2_eq_2 numeral_3_eq_3 numeral_Bit0 add_Suc eval_nat_numeral(2))
      then show "rd s' u j = rd s u j" using R' a by blast
    qed
    then show ?thesis by (simp only: if_not_P [OF False])
  qed
qed

section \<open>Mapping a page\<close>

definition walk_tables :: "vmm \<Rightarrow> u64 \<Rightarrow> u64 \<Rightarrow> u64 set" where
  "walk_tables s r v = {t. \<exists>k. table_at s r (take k (va_path v)) = Some t}"

definition leaf_entry :: "u64 \<Rightarrow> u64 \<Rightarrow> u64" where
  "leaf_entry phys flags = (phys AND PTE_ADDR_MASK) OR (flags OR PTE_PRESENT)"

lemma vpath_take [simp]: "vpath (take k (va_path v))"
  using set_take_subset [of k "va_path v"] by (auto simp: vpath_def va_path_def)

lemma va_table: "table_at s r (va_path v) =
    (let e1 = rd s r (pml4_idx v) in
     if \<not> present e1 \<or> huge e1 then None else
     let pdpt = e1 AND PTE_ADDR_MASK; e2 = rd s pdpt (pdpt_idx v) in
     if \<not> present e2 \<or> huge e2 then None else
     let pd = e2 AND PTE_ADDR_MASK; e3 = rd s pd (pd_idx v) in
     if \<not> present e3 \<or> huge e3 then None else Some (e3 AND PTE_ADDR_MASK))"
  by (auto simp: va_path_def child_def Let_def)

lemma GetPteInto_table:
  "GetPteInto r v s = (case table_at s r (va_path v) of None \<Rightarrow> 0 | Some t \<Rightarrow> rd s t (pt_idx v))"
  by (auto simp: va_table GetPteInto_def Let_def)

lemma MapPageInto_step:
  assumes wf: "pt_wf s r" and M: "MapPageInto r virt phys flags s = (b, s')"
  shows "pt_wf s' r" "used_frames s \<subseteq> used_frames s'"
    "vpath q \<Longrightarrow> table_at s r q = Some t \<Longrightarrow> table_at s' r q = Some t"
    "tables s' r \<subseteq> tables s r \<union> (used_frames s' - used_frames s)"
    "TranslateInPml4 r v s' =
      (if b \<and> va_path v = va_path virt \<and> pt_idx v = pt_idx virt
       then (leaf_entry phys flags AND PTE_ADDR_MASK) OR (v AND 0xFFF) else TranslateInPml4 r v s)"
    "u \<in> used_frames s \<Longrightarrow> u \<notin> walk_tables s r virt \<Longrightarrow> j < 512 \<Longrightarrow> rd s' u j = rd s u j"
    "b \<Longrightarrow> GetPteInto r virt s' = leaf_entry phys flags"
proof -
  obtain c1 s1 where g1: "get_or_alloc (entry_ptr r (pml4_idx virt)) True s = (c1, s1)" by fastforce
  obtain c2 s2 where g2: "get_or_alloc (entry_ptr c1 (pdpt_idx virt)) True s1 = (c2, s2)" by fastforce
  obtain c3 s3 where g3: "get_or_alloc (entry_ptr c2 (pd_idx virt)) True s2 = (c3, s3)" by fastforce
  let ?Q = "\<lambda>s'. pt_wf s' r \<and> used_frames s \<subseteq> used_frames s'
    \<and> tables s' r \<subseteq> tables s r \<union> (used_frames s' - used_frames s)
    \<and> (\<forall>v. TranslateInPml4 r v s' = TranslateInPml4 r v s)
    \<and> (\<forall>q u. vpath q \<longrightarrow> table_at s r q = Some u \<longrightarrow> table_at s' r q = Some u)
    \<and> (\<forall>u j. u \<in> used_frames s \<longrightarrow> u \<notin> walk_tables s r virt \<longrightarrow> j < 512 \<longrightarrow> rd s' u j = rd s u j)"
  have walk: "t \<in> walk_tables s r virt \<or> t \<notin> used_frames s"
    if Q: "?Q s'" and t: "table_at s' r (take k (va_path virt)) = Some t" for s' k t
  proof (cases "table_at s r (take k (va_path virt))")
    case None
    have "t \<notin> tables s r"
    proof
      assume "t \<in> tables s r"
      then obtain q where q: "vpath q" "table_at s r q = Some t" by (auto simp: tables_def)
      then have "table_at s' r q = Some t" using Q by blast
      then have "q = take k (va_path virt)" using Q q(1) t pt_wf_inj [of s' r] by simp
      then show False using q(2) None by simp
    qed
    then show ?thesis using Q t by (auto dest: tablesI [OF vpath_take])
  next
    case (Some u)
    then have "table_at s' r (take k (va_path virt)) = Some u" using Q vpath_take by blast
    then show ?thesis using t Some by (auto simp: walk_tables_def)
  qed
  have step: "?Q s'' \<and> (c \<noteq> 0 \<longrightarrow> table_at s'' r (p @ [i]) = Some c)"
    if Q: "?Q s'" and p: "p @ [i] = take (Suc k) (va_path virt)" "k < 3" "table_at s' r p = Some t"
      and g: "get_or_alloc (entry_ptr t i) True s' = (c, s'')" for s' s'' p i t c k
  proof -
    have w: "pt_wf s' r" using Q by blast
    have vp: "vpath (p @ [i])" by (simp only: p(1) vpath_take)
    note G = get_or_alloc_step [OF w vp p(3) g]
    have "p = take k (va_path virt)"
      using p(1) take_Suc_conv_app_nth [of k "va_path virt"] p(2) by (simp add: va_path_def del: take_Suc_Cons)
    then have tt: "t \<in> walk_tables s r virt \<or> t \<notin> used_frames s" using walk [OF Q, of k t] p(3) by simp
    have "rd s'' u j = rd s u j" if "u \<in> used_frames s" "u \<notin> walk_tables s r virt" "j < 512" for u j
    proof -
      have "u \<in> used_frames s'" "u \<noteq> t" using Q that tt by blast+
      then show ?thesis using G(6) [of u j] Q that by simp
    qed
    moreover have "tables s'' r \<subseteq> tables s r \<union> (used_frames s'' - used_frames s)"
      using G(5,7) Q by blast
    moreover have "used_frames s \<subseteq> used_frames s''" using G(5) Q by blast
    moreover have "TranslateInPml4 r v s'' = TranslateInPml4 r v s" for v using G(2) Q by simp
    moreover have "\<forall>q u. vpath q \<longrightarrow> table_at s r q = Some u \<longrightarrow> table_at s'' r q = Some u"
      using G(4) Q by blast
    ultimately show ?thesis using G(1,3) by simp
  qed
  have Q0: "?Q s" using wf by blast
  have s1: "?Q s1" "c1 \<noteq> 0 \<Longrightarrow> table_at s1 r [pml4_idx virt] = Some c1"
    using step [OF Q0 _ _ _ g1, of "[]" 0] by (auto simp: va_path_def)
  have s2: "?Q s2 \<and> (c2 \<noteq> 0 \<longrightarrow> table_at s2 r [pml4_idx virt, pdpt_idx virt] = Some c2)" if "c1 \<noteq> 0"
    using step [OF s1(1) _ _ _ g2, of "[pml4_idx virt]" 1] s1(2) [OF that] by (simp add: va_path_def)
  have s3: "?Q s3 \<and> (c3 \<noteq> 0 \<longrightarrow> table_at s3 r (va_path virt) = Some c3)" if "c1 \<noteq> 0" "c2 \<noteq> 0"
    using step [OF s2 [OF that(1), THEN conjunct1] _ _ _ g3, of "[pml4_idx virt, pdpt_idx virt]" 2]
      s2 that by (simp add: va_path_def)
  let ?R = "pt_wf s' r \<and> used_frames s \<subseteq> used_frames s'
    \<and> (vpath q \<longrightarrow> table_at s r q = Some t \<longrightarrow> table_at s' r q = Some t)
    \<and> tables s' r \<subseteq> tables s r \<union> (used_frames s' - used_frames s)
    \<and> (TranslateInPml4 r v s' =
      (if b \<and> va_path v = va_path virt \<and> pt_idx v = pt_idx virt
       then (leaf_entry phys flags AND PTE_ADDR_MASK) OR (v AND 0xFFF) else TranslateInPml4 r v s))
    \<and> (u \<in> used_frames s \<longrightarrow> u \<notin> walk_tables s r virt \<longrightarrow> j < 512 \<longrightarrow> rd s' u j = rd s u j)
    \<and> (b \<longrightarrow> GetPteInto r virt s' = leaf_entry phys flags)"
  consider (f1) "c1 = 0" "b = False" "s' = s1" | (f2) "c1 \<noteq> 0" "c2 = 0" "b = False" "s' = s2"
    | (f3) "c1 \<noteq> 0" "c2 \<noteq> 0" "c3 = 0" "b = False" "s' = s3"
    | (ok) "c1 \<noteq> 0" "c2 \<noteq> 0" "c3 \<noteq> 0" "b = True" "s' = wr (entry_ptr c3 (pt_idx virt)) (leaf_entry phys flags) s3"
    using M g1 g2 g3 by (auto simp: MapPageInto_def leaf_entry_def split: if_splits)
  then have ?R
  proof cases
    case f1 then show ?thesis using s1 by simp
  next
    case f2 then show ?thesis using s2 by simp
  next
    case f3 then show ?thesis using s3 by simp
  next
    case ok
    have Q3: "?Q s3" and c3: "table_at s3 r (va_path virt) = Some c3" using s3 ok by auto
    have w3: "pt_wf s3 r" using Q3 by blast
    have len: "length (va_path virt) = 3" by (simp add: va_path_def)
    note L = leaf_store [OF w3 vpath_va(1) len c3 idx_lt(4) ok(5)]
    have pr: "present (leaf_entry phys flags)"
      unfolding present_bit by (simp add: leaf_entry_def bit_or_iff PTE_PRESENT_def)
    have uf: "used_frames s' = used_frames s3" by (simp add: ok used_frames_def)
    have "c3 \<in> walk_tables s r virt \<or> c3 \<notin> used_frames s"
      using walk [OF Q3, of 3 c3] c3 len by simp
    then have "rd s' u j = rd s u j" if "u \<in> used_frames s" "u \<notin> walk_tables s r virt" "j < 512" for u j
      using that Q3 L(5) [of u j] by (auto simp: used_frames_def)
    moreover have "GetPteInto r virt s' = leaf_entry phys flags"
      using L(1) [OF vpath_va(1)] L(5) [of c3 "pt_idx virt"] c3 used_frame [OF pt_wf_used [OF w3 vpath_va(1) c3]]
      by (simp add: GetPteInto_table)
    ultimately show ?thesis using Q3 L(1,2,3,4) pr ok(4) uf by auto
  qed
  then show "pt_wf s' r" "used_frames s \<subseteq> used_frames s'"
    "vpath q \<Longrightarrow> table_at s r q = Some t \<Longrightarrow> table_at s' r q = Some t"
    "tables s' r \<subseteq> tables s r \<union> (used_frames s' - used_frames s)"
    "TranslateInPml4 r v s' =
      (if b \<and> va_path v = va_path virt \<and> pt_idx v = pt_idx virt
       then (leaf_entry phys flags AND PTE_ADDR_MASK) OR (v AND 0xFFF) else TranslateInPml4 r v s)"
    "u \<in> used_frames s \<Longrightarrow> u \<notin> walk_tables s r virt \<Longrightarrow> j < 512 \<Longrightarrow> rd s' u j = rd s u j"
    "b \<Longrightarrow> GetPteInto r virt s' = leaf_entry phys flags"
    by blast+
qed

lemma walk_tables_mono:
  assumes "pt_wf s' r" "tables s' r \<subseteq> tables s r \<union> (used_frames s' - used_frames s)"
    and m: "\<And>q u. vpath q \<Longrightarrow> table_at s r q = Some u \<Longrightarrow> table_at s' r q = Some u"
    and t: "t \<in> walk_tables s' r v"
  shows "t \<in> walk_tables s r v \<or> t \<notin> used_frames s"
proof -
  obtain k where k: "table_at s' r (take k (va_path v)) = Some t" using t by (auto simp: walk_tables_def)
  show ?thesis
  proof (cases "table_at s r (take k (va_path v))")
    case None
    have "t \<notin> tables s r"
    proof
      assume "t \<in> tables s r"
      then obtain q where q: "vpath q" "table_at s r q = Some t" by (auto simp: tables_def)
      then have "q = take k (va_path v)" using m k pt_wf_inj [OF assms(1)] by simp
      then show False using q(2) None by simp
    qed
    then show ?thesis using assms(2) tablesI [OF vpath_take k] by blast
  next
    case (Some u)
    then show ?thesis using m [OF vpath_take Some] k by (auto simp: walk_tables_def)
  qed
qed

lemma leaf_entry_frame:
  assumes "flags AND PTE_ADDR_MASK = 0"
  shows "leaf_entry phys flags AND PTE_ADDR_MASK = phys AND PTE_ADDR_MASK"
proof (rule bit_word_eqI)
  fix n
  have "\<not> bit (flags AND PTE_ADDR_MASK) n" using assms by simp
  then show "bit (leaf_entry phys flags AND PTE_ADDR_MASK) n = bit (phys AND PTE_ADDR_MASK) n"
    by (cases n) (auto simp: leaf_entry_def bit_and_iff bit_or_iff bit_ADDR_MASK PTE_PRESENT_def bit_1_iff)
qed

section \<open>The other operations, along the path\<close>

lemma UnmapPageFrom_table:
  "UnmapPageFrom r v s =
    (case table_at s r (va_path v) of None \<Rightarrow> s | Some t \<Rightarrow> wr (entry_ptr t (pt_idx v)) 0 s)"
  by (auto simp: va_table UnmapPageFrom_def Let_def)

lemma ProtectPageInto_table:
  "ProtectPageInto r v flags s =
    (case table_at s r (va_path v) of None \<Rightarrow> (False, s)
     | Some t \<Rightarrow> if present (rd s t (pt_idx v))
        then (True, wr (entry_ptr t (pt_idx v)) (leaf_entry (rd s t (pt_idx v)) flags) s) else (False, s))"
  by (auto simp: va_table ProtectPageInto_def leaf_entry_def Let_def)

lemma Translate_table:
  "table_at s r (va_path v) = Some t \<Longrightarrow> TranslateInPml4 r v s =
    (if present (rd s t (pt_idx v)) then (rd s t (pt_idx v) AND PTE_ADDR_MASK) OR (v AND 0xFFF) else 0)"
  by (auto simp: va_table TranslateInPml4_def Let_def split: if_splits)

definition root_ok :: "vmm \<Rightarrow> u64 \<Rightarrow> bool" where
  "root_ok s r \<longleftrightarrow> pt_wf s r \<and> (\<forall>i<512. \<not> (present (rd s r i) \<and> huge (rd s r i)))"

lemma V2P_Translate:
  "\<not> (present (rd s (s_pml4_phys s) (pml4_idx v)) \<and> huge (rd s (s_pml4_phys s) (pml4_idx v))) \<Longrightarrow>
   V2P v s = TranslateInPml4 (s_pml4_phys s) v s"
  by (auto simp: V2P_def TranslateInPml4_def Let_def)

lemma UnmapPage_UnmapPageFrom:
  "\<not> (present (rd s (s_pml4_phys s) (pml4_idx v)) \<and> huge (rd s (s_pml4_phys s) (pml4_idx v))) \<Longrightarrow>
   UnmapPage v s = UnmapPageFrom (s_pml4_phys s) v s"
  by (auto simp: UnmapPage_def UnmapPageFrom_def Let_def)

section \<open>When a mapping succeeds\<close>

definition huge_at :: "vmm \<Rightarrow> u64 \<Rightarrow> u64 list \<Rightarrow> u64 \<Rightarrow> bool" where
  "huge_at s r p i \<longleftrightarrow> (case table_at s r p of None \<Rightarrow> False | Some t \<Rightarrow> present (rd s t i) \<and> huge (rd s t i))"

definition walk_huge :: "vmm \<Rightarrow> u64 \<Rightarrow> u64 \<Rightarrow> bool" where
  "walk_huge s r v \<longleftrightarrow> huge_at s r [] (pml4_idx v) \<or> huge_at s r [pml4_idx v] (pdpt_idx v)
     \<or> huge_at s r [pml4_idx v, pdpt_idx v] (pd_idx v)"

lemma card_pmm_frames: "card (pmm_frames s) = card (pmm_free s)"
  unfolding pmm_frames_def
  by (rule card_image) (rule inj_on_subset [OF pmm_frames_inj], auto dest: pmm_freeD)

lemma finite_pmm_frames [simp]: "finite (pmm_frames s)" by (simp add: pmm_frames_def)

lemma get_or_alloc_avail:
  assumes wf: "pt_wf s r" and p: "vpath (p @ [i])" "table_at s r p = Some t"
    and g: "get_or_alloc (entry_ptr t i) True s = (c, s')"
    and n: "0 < card (pmm_frames (vm_pmm s))" "\<not> huge_at s r p i"
  shows "c \<noteq> 0" "card (pmm_frames (vm_pmm s)) \<le> card (pmm_frames (vm_pmm s')) + 1"
    "vpath (q @ [j]) \<Longrightarrow> huge_at s' r q j \<Longrightarrow> huge_at s r q j"
proof -
  have vp: "vpath p" "i < 512" using p(1) by (simp_all add: vpath_snoc)
  have t: "t \<in> used_frames s" using wf vp(1) p(2) by (rule pt_wf_used)
  have inv: "pmm_inv (vm_pmm s)" using wf by (simp add: pt_wf_def)
  have "c \<noteq> 0 \<and> card (pmm_frames (vm_pmm s)) \<le> card (pmm_frames (vm_pmm s')) + 1
    \<and> (vpath (q @ [j]) \<longrightarrow> huge_at s' r q j \<longrightarrow> huge_at s r q j)"
  proof (cases "present (rd s t i)")
    case True
    then have c: "child s t i = Some c" "s' = s"
      using g n(2) p(2) by (auto simp: get_or_alloc_def child_def huge_at_def Let_def split: if_splits)
    then have "table_at s r (p @ [i]) = Some c" using p(2) by (simp add: table_at_snoc)
    then have "c \<in> used_frames s" using wf p(1) by (blast intro: pt_wf_used)
    then show ?thesis using c by (auto dest: used_frame)
  next
    case False
    note F = get_or_alloc_fresh [OF inv _ vp(2) False g] used_frame [OF t]
    have ne: "c \<noteq> 0"
    proof
      assume c: "c = 0"
      obtain f pm where A: "AllocPage (vm_pmm s) = (f, pm)" by fastforce
      then have "f = 0" using g c False by (auto simp: get_or_alloc_def Let_def split: if_splits)
      then show False using A n(1) pmm.alloc_zero_iff [OF inv] by simp
    qed
    then have l: "links s t i c s'" using F by simp
    have "huge_at s r q j" if v: "vpath (q @ [j])" and h: "huge_at s' r q j"
    proof -
      have vq: "vpath q" "j < 512" using v by (simp_all add: vpath_snoc)
      obtain u where u: "table_at s' r q = Some u" "present (rd s' u j)" "huge (rd s' u j)"
        using h by (auto simp: huge_at_def split: option.splits)
      have cf: "c \<in> pmm_all_frames" using l by (simp add: links_def)
      show ?thesis
      proof (cases "q = p @ [i]")
        case True
        then have "u = c" using u(1) link_table_at [OF wf p False l vq(1)] by simp
        moreover have "c \<noteq> t" using l t by (auto simp: links_def used_frames_def)
        ultimately have "rd s' u j = 0" using l cf vq(2) by (simp add: links_def)
        then show ?thesis using u(2) by simp
      next
        case False
        then have us: "table_at s r q = Some u" using u(1) link_table_at [OF wf p \<open>\<not> present (rd s t i)\<close> l vq(1)] by simp
        then have uu: "u \<in> used_frames s" using wf vq(1) by (blast intro: pt_wf_used)
        have uf: "u \<in> pmm_all_frames" using used_frame [OF uu] by simp
        have "u \<noteq> c" using l uu by (auto simp: links_def used_frames_def)
        then have "rd s' u j = (if u = t \<and> j = i then c OR PTE_PRESENT OR PTE_WRITABLE OR PTE_USER else rd s u j)"
          using l uf vq(2) by (simp add: links_def)
        then show ?thesis using u(2,3) us link_entry(2) [OF cf] by (auto simp: huge_at_def split: if_splits)
      qed
    qed
    moreover have "card (pmm_frames (vm_pmm s)) \<le> card (pmm_frames (vm_pmm s')) + 1"
      using l n(1) by (simp add: links_def card_Diff_singleton)
    ultimately show ?thesis using ne by blast
  qed
  then show "c \<noteq> 0" "card (pmm_frames (vm_pmm s)) \<le> card (pmm_frames (vm_pmm s')) + 1"
    "vpath (q @ [j]) \<Longrightarrow> huge_at s' r q j \<Longrightarrow> huge_at s r q j" by blast+
qed

text \<open>With three free frames and no huge page on the walk a mapping succeeds; it takes at most
  three frames and makes no entry above the last level huge.\<close>
lemma MapPageInto_avail:
  assumes wf: "pt_wf s r" and n: "3 \<le> card (pmm_frames (vm_pmm s))" and h: "\<not> walk_huge s r virt"
    and M: "MapPageInto r virt phys flags s = (b, s')"
  shows "b" "card (pmm_frames (vm_pmm s)) \<le> card (pmm_frames (vm_pmm s')) + 3"
    "vpath (q @ [j]) \<Longrightarrow> huge_at s' r q j \<Longrightarrow> huge_at s r q j"
proof -
  obtain c1 s1 where g1: "get_or_alloc (entry_ptr r (pml4_idx virt)) True s = (c1, s1)" by fastforce
  obtain c2 s2 where g2: "get_or_alloc (entry_ptr c1 (pdpt_idx virt)) True s1 = (c2, s2)" by fastforce
  obtain c3 s3 where g3: "get_or_alloc (entry_ptr c2 (pd_idx virt)) True s2 = (c3, s3)" by fastforce
  have v: "vpath ([] @ [pml4_idx virt])" "vpath ([pml4_idx virt] @ [pdpt_idx virt])"
    "vpath ([pml4_idx virt, pdpt_idx virt] @ [pd_idx virt])" by simp_all
  have r0: "table_at s r [] = Some r" by simp
  have a1: "0 < card (pmm_frames (vm_pmm s))" "\<not> huge_at s r [] (pml4_idx virt)"
    using n h by (auto simp: walk_huge_def)
  note A1 = get_or_alloc_avail [OF wf v(1) r0 g1 a1] and S1 = get_or_alloc_step [OF wf v(1) r0 g1]
  have a2: "0 < card (pmm_frames (vm_pmm s1))" "\<not> huge_at s1 r [pml4_idx virt] (pdpt_idx virt)"
    using n A1(2) A1(3) [OF v(2)] h by (auto simp: walk_huge_def)
  have t1: "table_at s1 r [pml4_idx virt] = Some c1" using S1(3) [OF A1(1)] by simp
  note A2 = get_or_alloc_avail [OF S1(1) v(2) t1 g2 a2] and S2 = get_or_alloc_step [OF S1(1) v(2) t1 g2]
  have a3: "0 < card (pmm_frames (vm_pmm s2))" "\<not> huge_at s2 r [pml4_idx virt, pdpt_idx virt] (pd_idx virt)"
    using n A1(2) A2(2) A2(3) [OF v(3)] A1(3) [OF v(3)] h by (auto simp: walk_huge_def)
  have t2: "table_at s2 r [pml4_idx virt, pdpt_idx virt] = Some c2" using S2(3) [OF A2(1)] by simp
  note A3 = get_or_alloc_avail [OF S2(1) v(3) t2 g3 a3] and S3 = get_or_alloc_step [OF S2(1) v(3) t2 g3]
  have t3: "table_at s3 r (va_path virt) = Some c3" using S3(3) [OF A3(1)] by (simp add: va_path_def)
  have bs: "b" "s' = wr (entry_ptr c3 (pt_idx virt)) (leaf_entry phys flags) s3"
    using M g1 g2 g3 A1(1) A2(1) A3(1) by (auto simp: MapPageInto_def leaf_entry_def)
  show "b" by (rule bs(1))
  show "card (pmm_frames (vm_pmm s)) \<le> card (pmm_frames (vm_pmm s')) + 3" using A1(2) A2(2) A3(2) bs(2) by simp
  have len: "length (va_path virt) = 3" by (simp add: va_path_def)
  note L = leaf_store [OF S3(1) vpath_va(1) len t3 idx_lt(4) bs(2)]
  show "huge_at s r q j" if vq: "vpath (q @ [j])" and hq: "huge_at s' r q j"
  proof -
    have q: "vpath q" "length q < 3" "j < 512" using vq by (simp_all add: vpath_snoc)
    obtain u where u: "table_at s3 r q = Some u" "present (rd s' u j)" "huge (rd s' u j)"
      using hq L(1) [OF q(1)] by (auto simp: huge_at_def split: option.splits)
    have "u \<noteq> c3" using pt_wf_inj [OF S3(1) q(1) vpath_va(1) u(1)] t3 q(2) len by auto
    then have "huge_at s3 r q j"
      using u L(5) [of u j] q(3) used_frame [OF pt_wf_used [OF S3(1) q(1) u(1)]] by (simp add: huge_at_def)
    then show ?thesis using A1(3) A2(3) A3(3) vq by blast
  qed
qed

lemma MapPageInto_True:
  assumes "pt_wf s r" "3 \<le> card (pmm_free (vm_pmm s))" "\<not> walk_huge s r virt"
  shows "fst (MapPageInto r virt phys flags s)"
  using MapPageInto_avail(1) [OF assms(1) _ assms(3) prod.collapse [symmetric]] assms(2)
  by (simp add: card_pmm_frames)

section \<open>A new user address space\<close>

lemma user_bit [simp]: "(e OR PTE_USER) AND PTE_PRESENT = e AND PTE_PRESENT"
  "(e OR PTE_USER) AND PTE_PS = e AND PTE_PS" "(e OR PTE_USER) AND PTE_ADDR_MASK = e AND PTE_ADDR_MASK"
proof -
  have "PTE_USER AND PTE_PRESENT = 0" "PTE_USER AND PTE_PS = 0" "PTE_USER AND PTE_ADDR_MASK = 0"
    by (simp_all add: PTE_USER_def PTE_PRESENT_def PTE_PS_def PTE_ADDR_MASK_def)
  then show "(e OR PTE_USER) AND PTE_PRESENT = e AND PTE_PRESENT" "(e OR PTE_USER) AND PTE_PS = e AND PTE_PS"
    "(e OR PTE_USER) AND PTE_ADDR_MASK = e AND PTE_ADDR_MASK"
    by (simp_all add: bit.conj_disj_distrib2)
qed

lemma copy_present_sel [simp]: "vm_pmm (copy_present k n ns s) = vm_pmm s"
  "s_pml4_phys (copy_present k n ns s) = s_pml4_phys s"
  by (induction ns rule: rev_induct) (simp_all add: copy_present_def Let_def)

lemma unat_of_nat_512: "n < 512 \<Longrightarrow> unat (of_nat n :: u64) = n"
  by (subst unat_of_nat) simp

lemma of_nat_lt_512: "n < 512 \<Longrightarrow> (of_nat n :: u64) < 512"
  by (simp add: word_less_nat_alt unat_of_nat_512)

lemma copy_present_rd:
  assumes "k \<in> pmm_all_frames" "n \<in> pmm_all_frames" "n \<noteq> k" "\<forall>i\<in>set ns. i < 512"
    and "u \<in> pmm_all_frames" "j < 512"
  shows "rd (copy_present k n ns s) u j =
    (if u = n \<and> unat j \<in> set ns \<and> present (rd s k j) then rd s k j OR PTE_USER else rd s u j)"
  using assms(4-)
proof (induction ns arbitrary: u j rule: rev_induct)
  case (snoc i ns)
  have i: "i < 512" using snoc.prems by simp
  let ?s = "copy_present k n ns s"
  have ek: "rd ?s k (of_nat i) = rd s k (of_nat i)"
    using snoc.IH [of k "of_nat i"] snoc.prems assms(1,3) of_nat_lt_512 [OF i] by simp
  have step: "copy_present k n (ns @ [i]) s = (if present (rd s k (of_nat i))
      then wr (entry_ptr n (of_nat i)) (rd s k (of_nat i) OR PTE_USER) ?s else ?s)"
    using ek by (simp add: copy_present_def Let_def)
  have "entry_ptr u j = entry_ptr n (of_nat i) \<longleftrightarrow> u = n \<and> unat j = i"
    using entry_ptr_inj [OF snoc.prems(2) assms(2) snoc.prems(3) of_nat_lt_512 [OF i]] unat_of_nat_512 [OF i]
    by (metis word_unat_eq_iff)
  moreover have "rd ?s u j = (if u = n \<and> unat j \<in> set ns \<and> present (rd s k j) then rd s k j OR PTE_USER else rd s u j)"
    using snoc by simp
  moreover have "unat j = i \<Longrightarrow> of_nat i = j" by auto
  ultimately show ?case by (cases "u = n \<and> unat j = i") (auto simp: step)
qed (simp add: copy_present_def)

text \<open>The loop that seeds the new PDPT with the first entries of the kernel PDPT.\<close>
lemma copy_entries_rd:
  assumes "k \<in> pmm_all_frames" "n \<in> pmm_all_frames" "n \<noteq> k" "\<forall>i\<in>set ns. i < 512"
    and "u \<in> pmm_all_frames" "j < 512"
  shows "rd (copy_entries k n ns s) u j =
    (if u = n \<and> unat j \<in> set ns then rd s k j else rd s u j)"
  using assms(4-)
proof (induction ns arbitrary: u j rule: rev_induct)
  case (snoc i ns)
  have i: "i < 512" using snoc.prems by simp
  let ?s = "copy_entries k n ns s"
  have ek: "rd ?s k (of_nat i) = rd s k (of_nat i)"
    using snoc.IH [of k "of_nat i"] snoc.prems assms(1,3) of_nat_lt_512 [OF i] by simp
  have "entry_ptr u j = entry_ptr n (of_nat i) \<longleftrightarrow> u = n \<and> unat j = i"
    using entry_ptr_inj [OF snoc.prems(2) assms(2) snoc.prems(3) of_nat_lt_512 [OF i]] unat_of_nat_512 [OF i]
    by (metis word_unat_eq_iff)
  moreover have "rd ?s u j = (if u = n \<and> unat j \<in> set ns then rd s k j else rd s u j)"
    using snoc by simp
  moreover have "unat j = i \<Longrightarrow> of_nat i = j" by auto
  ultimately show ?case using ek by (cases "u = n \<and> unat j = i") (auto simp: copy_entries_def)
qed (simp add: copy_entries_def)

lemma copy_entries_sel [simp]:
  "vm_pmm (copy_entries k n ns s) = vm_pmm s" "s_pml4_phys (copy_entries k n ns s) = s_pml4_phys s"
  by (induction ns rule: rev_induct) (simp_all add: copy_entries_def)

text \<open>What a successful CreateUserPml4 leaves in memory, entry by entry.\<close>
lemma CreateUserPml4_mem:
  assumes wf: "root_ok s (s_pml4_phys s)" and C: "CreateUserPml4 s = (n, s')" and n0: "n \<noteq> 0"
  defines "k \<equiv> s_pml4_phys s"
  obtains d where "d \<in> pmm_frames (vm_pmm s)" "n \<in> pmm_frames (vm_pmm s)" "d \<noteq> n" "d \<noteq> 0"
    "pmm_inv (vm_pmm s')" "pmm_frames (vm_pmm s') = pmm_frames (vm_pmm s) - {n, d}"
    "s_pml4_phys s' = s_pml4_phys s"
    "\<And>u j. u \<in> used_frames s \<Longrightarrow> j < 512 \<Longrightarrow> rd s' u j = rd s u j"
    "\<And>j. j < 512 \<Longrightarrow> rd s' n j =
       (if j = 0 then d OR PTE_PRESENT OR PTE_WRITABLE OR PTE_USER
        else if present (rd s k j) then rd s k j OR PTE_USER else 0)"
    "\<And>j. j < 512 \<Longrightarrow> rd s' d j =
       (if j < 4 \<and> present (rd s k 0) then rd s (rd s k 0 AND PTE_ADDR_MASK) j else 0)"
proof -
  have pw: "pt_wf s k" using wf by (simp add: root_ok_def k_def)
  then have inv: "pmm_inv (vm_pmm s)" by (simp add: pt_wf_def)
  have ku: "k \<in> used_frames s" using pt_wf_used [OF pw, of "[]" k] by simp
  obtain pm where A: "AllocPage (vm_pmm s) = (n, pm)"
    using C n0 by (auto simp: CreateUserPml4_def Let_def split: prod.splits if_splits)
  let ?s1 = "fill_table n (\<lambda>_. 0) [0..<512] (s\<lparr>vm_pmm := pm\<rparr>)"
  let ?s2 = "copy_present k n [1..<512] ?s1"
  obtain d pm2 where B: "AllocPage pm = (d, pm2)" by fastforce
  let ?s3 = "fill_table d (\<lambda>_. 0) [0..<512] (?s2\<lparr>vm_pmm := pm2\<rparr>)"
  have d0: "d \<noteq> 0"
    using C n0 A B by (auto simp: CreateUserPml4_def k_def [symmetric] Let_def)
  let ?kp = "rd ?s3 k 0 AND PTE_ADDR_MASK"
  let ?s4 = "if present (rd ?s3 k 0)
      then copy_entries ?kp d [0..<4] ?s3 else ?s3"
  have "CreateUserPml4 s = (n, wr (entry_ptr n 0) (d OR PTE_PRESENT OR PTE_WRITABLE OR PTE_USER) ?s4)"
    using n0 d0 A B by (simp add: CreateUserPml4_def k_def [symmetric] Let_def)
  then have s': "s' = wr (entry_ptr n 0) (d OR PTE_PRESENT OR PTE_WRITABLE OR PTE_USER) ?s4"
    using C by simp
  have fr: "d \<noteq> n" "n \<in> pmm_frames (vm_pmm s)" "d \<in> pmm_frames (vm_pmm s)"
    "pmm_frames pm2 = pmm_frames (vm_pmm s) - {n, d}"
    using pmm.alloc_twice_distinct [OF inv A n0 B d0] by auto
  have inv2: "pmm_inv pm2" using pmm.alloc_inv [OF inv] A B pmm.alloc_inv [of pm] by simp
  have af: "n \<in> pmm_all_frames" "d \<in> pmm_all_frames" "k \<in> pmm_all_frames"
    using fr pmm.frames_ok [OF inv] used_frame [OF ku] by auto
  have nk: "n \<noteq> k" "d \<noteq> k" using fr used_frame [OF ku] by auto
  have r1: "rd ?s1 u j = (if u = n then 0 else rd s u j)" if "u \<in> pmm_all_frames" "j < 512" for u j
    using fill_table_full [OF af(1) that, of "\<lambda>_. 0" "s\<lparr>vm_pmm := pm\<rparr>"] by auto
  have r2: "rd ?s2 u j = (if u = n then (if j \<noteq> 0 \<and> present (rd s k j) then rd s k j OR PTE_USER else 0) else rd s u j)"
    if u: "u \<in> pmm_all_frames" "j < 512" for u j
  proof -
    have "unat j \<in> set [1..<512] \<longleftrightarrow> j \<noteq> 0"
      using u(2) by (auto simp: word_less_nat_alt unat_gt_0 Suc_le_eq)
    then show ?thesis using copy_present_rd [OF af(3,1) nk(1) _ u, of "[1..<512]" ?s1] r1 [OF u] r1 [OF af(3) u(2)] nk
      by auto
  qed
  have r3: "rd ?s3 u j = (if u = d then 0 else rd ?s2 u j)" if "u \<in> pmm_all_frames" "j < 512" for u j
    using fill_table_full [OF af(2) that, of "\<lambda>_. 0" "?s2\<lparr>vm_pmm := pm2\<rparr>"] by auto
  have k0: "rd ?s3 k 0 = rd s k 0" using r3 [OF af(3), of 0] r2 [OF af(3), of 0] nk by simp
  have r4: "rd ?s4 u j = (if u = d \<and> j < 4 \<and> present (rd s k 0)
        then rd s (rd s k 0 AND PTE_ADDR_MASK) j else rd ?s3 u j)"
    if u: "u \<in> pmm_all_frames" "j < 512" for u j
  proof (cases "present (rd s k 0)")
    case True
    have "\<not> huge (rd s k 0)" using wf [unfolded root_ok_def, THEN conjunct2, rule_format, of 0] True by (simp add: k_def)
    then have "table_at s k [0] = Some (rd s k 0 AND PTE_ADDR_MASK)" using True by (simp add: child_def)
    then have kp: "rd s k 0 AND PTE_ADDR_MASK \<in> used_frames s"
      using pt_wf_used [OF pw, of "[0]"] by (simp add: vpath_def)
    then have kpf: "rd s k 0 AND PTE_ADDR_MASK \<in> pmm_all_frames" "d \<noteq> rd s k 0 AND PTE_ADDR_MASK" "n \<noteq> rd s k 0 AND PTE_ADDR_MASK"
      using fr used_frame [OF kp] by auto
    have "unat j \<in> set [0..<4] \<longleftrightarrow> j < 4" by (simp add: word_less_nat_alt)
    moreover have "rd ?s3 (rd s k 0 AND PTE_ADDR_MASK) j = rd s (rd s k 0 AND PTE_ADDR_MASK) j"
      using r3 [OF kpf(1) u(2)] r2 [OF kpf(1) u(2)] kpf by simp
    ultimately show ?thesis
      using copy_entries_rd [OF kpf(1) af(2) kpf(2) _ u, of "[0..<4]" ?s3] True
      unfolding k0 by auto
  next
    case False
    then show ?thesis unfolding k0 by simp
  qed
  have r5: "rd s' u j = (if u = n \<and> j = 0 then d OR PTE_PRESENT OR PTE_WRITABLE OR PTE_USER else rd ?s4 u j)"
    if "u \<in> pmm_all_frames" "j < 512" for u j
    using entry_ptr_inj [OF that(1) af(1) that(2), of 0] unfolding s' by auto
  show thesis
  proof (rule that [of d])
    show "d \<in> pmm_frames (vm_pmm s)" "n \<in> pmm_frames (vm_pmm s)" "d \<noteq> n" "d \<noteq> 0" using fr d0 by auto
    have "vm_pmm s' = pm2" unfolding s' by simp
    then show "pmm_inv (vm_pmm s')" "pmm_frames (vm_pmm s') = pmm_frames (vm_pmm s) - {n, d}"
      using inv2 fr by auto
    show "s_pml4_phys s' = s_pml4_phys s" unfolding s' by simp
    show "rd s' u j = rd s u j" if "u \<in> used_frames s" "j < 512" for u j
    proof -
      have "u \<in> pmm_all_frames" "u \<noteq> n" "u \<noteq> d" using used_frame [OF that(1)] fr by auto
      then show ?thesis using r5 r4 r3 r2 that(2) by simp
    qed
    show "rd s' n j = (if j = 0 then d OR PTE_PRESENT OR PTE_WRITABLE OR PTE_USER
        else if present (rd s k j) then rd s k j OR PTE_USER else 0)" if "j < 512" for j
      using r5 [OF af(1) that] r4 [OF af(1) that] r3 [OF af(1) that] r2 [OF af(1) that] fr by auto
    show "rd s' d j = (if j < 4 \<and> present (rd s k 0) then rd s (rd s k 0 AND PTE_ADDR_MASK) j else 0)"
      if "j < 512" for j
      using r5 [OF af(2) that] r4 [OF af(2) that] r3 [OF af(2) that] fr by auto
  qed
qed

lemma root_cong_used:
  assumes "pt_wf s r" "\<And>u j. u \<in> used_frames s \<Longrightarrow> j < 512 \<Longrightarrow> rd s' u j = rd s u j"
  shows "vpath p \<Longrightarrow> table_at s' r p = table_at s r p" "tables s' r = tables s r"
    "TranslateInPml4 r v s' = TranslateInPml4 r v s"
    "pmm_inv (vm_pmm s') \<Longrightarrow> used_frames s \<subseteq> used_frames s' \<Longrightarrow> pt_wf s' r"
proof -
  have "rd s' u j = rd s u j" if "u \<in> tables s r" "j < 512" for u j
    using assms that by (auto simp: pt_wf_def)
  note R = root_cong [OF assms(1) this]
  show "vpath p \<Longrightarrow> table_at s' r p = table_at s r p" "tables s' r = tables s r"
    "TranslateInPml4 r v s' = TranslateInPml4 r v s"
    "pmm_inv (vm_pmm s') \<Longrightarrow> used_frames s \<subseteq> used_frames s' \<Longrightarrow> pt_wf s' r"
    using R by auto
qed

text \<open>The tree of the new address space: its own PML4 and PDPT, below them the kernel's tables.\<close>
lemma CreateUserPml4_tree:
  assumes wf: "root_ok s (s_pml4_phys s)" and C: "CreateUserPml4 s = (n, s')" and n0: "n \<noteq> 0"
  defines "k \<equiv> s_pml4_phys s"
  shows "pt_wf s r \<Longrightarrow> pt_wf s' r \<and> TranslateInPml4 r v s' = TranslateInPml4 r v s"
    and "pt_wf s' n"
    and "TranslateInPml4 n v s' =
      (if pml4_idx v = 0 \<and> \<not> pdpt_idx v < 4 then 0 else TranslateInPml4 k v s)"
    and "pml4_idx v = 0 \<Longrightarrow> \<not> pdpt_idx v < 4 \<Longrightarrow> pt_wf s r \<Longrightarrow> walk_tables s' n v \<inter> tables s' r = {}"
proof -
  have pw: "pt_wf s k" and nh: "\<And>i. i < 512 \<Longrightarrow> present (rd s k i) \<Longrightarrow> \<not> huge (rd s k i)"
    using wf by (auto simp: root_ok_def k_def)
  then have inv: "pmm_inv (vm_pmm s)" by (simp add: pt_wf_def)
  obtain d where d: "d \<in> pmm_frames (vm_pmm s)" "n \<in> pmm_frames (vm_pmm s)" "d \<noteq> n" "d \<noteq> 0"
    "pmm_inv (vm_pmm s')" "pmm_frames (vm_pmm s') = pmm_frames (vm_pmm s) - {n, d}"
    and same: "\<And>u j. u \<in> used_frames s \<Longrightarrow> j < 512 \<Longrightarrow> rd s' u j = rd s u j"
    and rn: "\<And>j. j < 512 \<Longrightarrow> rd s' n j =
       (if j = 0 then d OR PTE_PRESENT OR PTE_WRITABLE OR PTE_USER
        else if present (rd s k j) then rd s k j OR PTE_USER else 0)"
    and rdd: "\<And>j. j < 512 \<Longrightarrow> rd s' d j =
       (if j < 4 \<and> present (rd s k 0) then rd s (rd s k 0 AND PTE_ADDR_MASK) j else 0)"
    unfolding k_def
  proof (rule CreateUserPml4_mem [OF wf C n0], goal_cases)
    case (1 d)
    show ?case by (rule 1(1) [OF 1(2-7) 1(9-11)])
  qed
  have uf: "used_frames s' = used_frames s \<union> {n, d}"
    using d pmm.frames_ok [OF inv] pmm.frame_nonzero [OF inv] by (auto simp: used_frames_def)
  have nd: "n \<notin> used_frames s" "d \<notin> used_frames s" "d \<in> pmm_all_frames"
    using d pmm.frames_ok [OF inv] by (auto simp: used_frames_def)
  note R = root_cong_used [OF _ same]
  show "pt_wf s' r \<and> TranslateInPml4 r v s' = TranslateInPml4 r v s" if "pt_wf s r"
    using R(3,4) [OF that] d uf by auto
  note link = link_entry [OF nd(3)]
  have cn: "child s' n j = (if j = 0 then Some d else child s k j)" if "j < 512" for j
    using rn [OF that] link by (simp add: child_def Let_def)
  have k0: "child s k 0 = (if present (rd s k 0) then Some (rd s k 0 AND PTE_ADDR_MASK) else None)"
    using nh [of 0] by (simp add: child_def Let_def)
  have cd: "child s' d j = (if j < 4 then table_at s k [0, j] else None)" if "j < 512" for j
    using rdd [OF that] nh [of 0] by (auto simp: child_def Let_def)
  have T: "table_at s' n q = (case q of [] \<Rightarrow> Some n
      | i # q' \<Rightarrow> if i \<noteq> 0 then table_at s k q
        else (case q' of [] \<Rightarrow> Some d | j # _ \<Rightarrow> if j < 4 then table_at s k q else None))"
    if q: "vpath q" for q
    using that
  proof (induction q rule: rev_induct)
    case (snoc j q)
    have vq: "vpath q" "length q < 3" "j < 512" using snoc.prems by (simp_all add: vpath_snoc)
    have same': "child s' u j = child s u j" if "table_at s k q = Some u" for u
      using pt_wf_used [OF pw vq(1) that] same vq(3) by (simp add: child_def)
    note IH = snoc.IH [OF vq(1)] and TS = table_at_snoc [of s' n q j] and TK = table_at_snoc [of s k q j]
    have up: "table_at s' n (q @ [j]) = table_at s k (q @ [j])" if "table_at s' n q = table_at s k q"
      unfolding TS TK that using same' by (cases "table_at s k q") simp_all
    consider "q = []" | i where "q = [i]" | i i2 r where "q = i # i2 # r" by (metis list.exhaust)
    then show ?case
    proof cases
      case 1
      then show ?thesis using cn [OF vq(3)] by (simp split: option.split)
    next
      case (2 i)
      then show ?thesis
      proof (cases "i = 0")
        case True
        then have "table_at s' n (q @ [j]) = child s' d j" using IH 2 unfolding TS by simp
        then show ?thesis using cd [OF vq(3)] 2 True by (simp only: append.simps list.case) simp
      next
        case False
        then have "table_at s' n (q @ [j]) = table_at s k (q @ [j])" using up IH 2 by simp
        then show ?thesis using 2 False by (simp only: append.simps list.case) simp
      qed
    next
      case (3 i i2 r)
      show ?thesis
      proof (cases "i \<noteq> 0 \<or> i2 < 4")
        case True
        then have "table_at s' n (q @ [j]) = table_at s k (q @ [j])" using up IH 3 by auto
        then show ?thesis using 3 True by (simp only: append.simps list.case) simp
      next
        case False
        then have "table_at s' n q = None" using IH 3 by simp
        then have "table_at s' n (q @ [j]) = None" unfolding TS by simp
        then show ?thesis using 3 False by (simp only: append.simps list.case) simp
      qed
    qed
  qed simp
  have val: "q \<noteq> [] \<Longrightarrow> q \<noteq> [0] \<Longrightarrow> vpath q \<Longrightarrow> table_at s' n q = Some u \<Longrightarrow> table_at s k q = Some u" for q u
    by (auto simp: T split: list.splits if_splits)
  have tn: "table_at s' n q = Some u \<Longrightarrow> vpath q \<Longrightarrow> u = n \<and> q = [] \<or> u = d \<and> q = [0] \<or> u \<in> used_frames s \<and> table_at s k q = Some u" for q u
    using val [of q u] pt_wf_used [OF pw, of q u] T [of q] by (cases "q = [] \<or> q = [0]") auto
  have "a = b" if "vpath a" "vpath b" "table_at s' n a = Some u" "table_at s' n b = Some u" for a b u
    using tn [OF that(3,1)] tn [OF that(4,2)] nd d(3) pt_wf_inj [OF pw that(1,2)] by auto
  moreover have "tables s' n \<subseteq> used_frames s'"
    using tn by (auto simp: tables_def uf)
  ultimately show "pt_wf s' n" using d(5) by (auto simp: pt_wf_def)
  have kx: "xl s' u ls = xl s u ls" if "table_at s k q = Some u" "length q + length ls = 4" "ls \<noteq> []" "vpath q"
    "\<forall>x\<in>set ls. fst x < 512" for q u ls
    using that by (rule xl_cong) (auto intro: same pt_wf_used [OF pw])
  show "TranslateInPml4 n v s' = (if pml4_idx v = 0 \<and> \<not> pdpt_idx v < 4 then 0 else TranslateInPml4 k v s)"
  proof (cases "pml4_idx v = 0")
    case False
    let ?e = "rd s k (pml4_idx v)"
    have "xl s' (?e AND PTE_ADDR_MASK) (tl (levels v)) = xl s (?e AND PTE_ADDR_MASK) (tl (levels v))" if "present ?e"
      by (rule kx [of "[pml4_idx v]"]) (use that nh [of "pml4_idx v"] in \<open>auto simp: child_def levels_def\<close>)
    then show ?thesis
      using False rn [of "pml4_idx v"] nh [of "pml4_idx v"] unfolding Translate_xl
      by (auto simp: levels_def Let_def)
  next
    case True
    let ?e = "rd s k 0" and ?p = "rd s k 0 AND PTE_ADDR_MASK"
    let ?e2 = "rd s ?p (pdpt_idx v)"
    have l: "TranslateInPml4 n v s' = xl s' d (tl (levels v))"
      using True rn [of 0] link unfolding Translate_xl by (simp add: levels_def Let_def)
    have "xl s' (?e2 AND PTE_ADDR_MASK) (tl (tl (levels v))) = xl s (?e2 AND PTE_ADDR_MASK) (tl (tl (levels v)))"
      if "present ?e" "present ?e2" "\<not> huge ?e2"
      by (rule kx [of "[0, pdpt_idx v]"]) (use that k0 in \<open>auto simp: child_def levels_def vpath_def\<close>)
    then show ?thesis
      unfolding l using True rdd [of "pdpt_idx v"] nh [of 0] unfolding Translate_xl
      by (auto simp: levels_def Let_def)
  qed
  assume v: "pml4_idx v = 0" "\<not> pdpt_idx v < 4" and r: "pt_wf s r"
  have "walk_tables s' n v \<subseteq> {n, d}"
  proof
    fix t assume "t \<in> walk_tables s' n v"
    then obtain j where j: "table_at s' n (take j (va_path v)) = Some t" by (auto simp: walk_tables_def)
    have "vpath (take j (va_path v))" by simp
    from T [OF this] j v show "t \<in> {n, d}"
      by (cases j; cases "j - 1") (auto simp: va_path_def split: if_splits)
  qed
  moreover have "tables s' r \<subseteq> used_frames s" using R(2) [OF r] r by (auto simp: pt_wf_def)
  ultimately show "walk_tables s' n v \<inter> tables s' r = {}" using nd by auto
qed

end
