(* ===== verification/PhysBytes.thy ===== *)
theory PhysBytes
  imports PageTree
begin

text \<open>Byte access to the identity-mapped physical memory of VirtMem, as the process code
  (kernel/ps/process.cpp) and the image loader (kernel/ldr/pe_loader.cpp) use it: a byte is a
  part of the 64-bit entry at its address rounded down to 8, wider accesses are little endian
  and may be unaligned.  The lemmas relate the bytes of a frame to its entries, so that writing
  the bytes of a data frame leaves the page tables alone.\<close>

section \<open>Accesses\<close>

abbreviation qword :: "u64 \<Rightarrow> u64" where "qword a \<equiv> a AND NOT (mask 3)"
abbreviation lane :: "u64 \<Rightarrow> nat" where "lane a \<equiv> unat (take_bit 3 a)"

definition byte_of :: "nat \<Rightarrow> u64 \<Rightarrow> u8" where
  "byte_of k e = ucast (drop_bit (8 * k) e)"

definition set_byte :: "nat \<Rightarrow> u8 \<Rightarrow> u64 \<Rightarrow> u64" where
  "set_byte k v e = (e AND NOT (push_bit (8 * k) (mask 8))) OR push_bit (8 * k) (ucast v)"

definition rd8 :: "vmm \<Rightarrow> u64 \<Rightarrow> u8" where
  "rd8 s a = byte_of (lane a) (vm_mem s (qword a))"

definition wr8 :: "u64 \<Rightarrow> u8 \<Rightarrow> vmm \<Rightarrow> vmm" where
  "wr8 a v s = wr (qword a) (set_byte (lane a) v (vm_mem s (qword a))) s"

text \<open>The loop p[i] = g i over the first n bytes at p.\<close>
definition wr_bytes :: "u64 \<Rightarrow> nat \<Rightarrow> (nat \<Rightarrow> u8) \<Rightarrow> vmm \<Rightarrow> vmm" where
  "wr_bytes p n g s = fold (\<lambda>i. wr8 (p + of_nat i) (g i)) [0..<n] s"

text \<open>Little-endian values of n bytes.\<close>
definition le_val :: "nat \<Rightarrow> (nat \<Rightarrow> u8) \<Rightarrow> nat" where
  "le_val n g = horner_sum unat 256 (map g [0..<n])"

definition rd64 :: "vmm \<Rightarrow> u64 \<Rightarrow> u64" where
  "rd64 s a = of_nat (le_val 8 (\<lambda>i. rd8 s (a + of_nat i)))"

definition wr16 :: "u64 \<Rightarrow> u16 \<Rightarrow> vmm \<Rightarrow> vmm" where
  "wr16 a v = wr_bytes a 2 (\<lambda>i. byte_of i (ucast v))"

definition wr32 :: "u64 \<Rightarrow> u32 \<Rightarrow> vmm \<Rightarrow> vmm" where
  "wr32 a v = wr_bytes a 4 (\<lambda>i. byte_of i (ucast v))"

definition wr64 :: "u64 \<Rightarrow> u64 \<Rightarrow> vmm \<Rightarrow> vmm" where
  "wr64 a v = wr_bytes a 8 (\<lambda>i. byte_of i v)"

section \<open>Bytes of an entry\<close>

lemma bit_byte_of: "bit (byte_of k e) n \<longleftrightarrow> n < 8 \<and> bit e (8 * k + n)"
  by (auto simp: byte_of_def bit_simps)

lemma bit_set_byte: "k < 8 \<Longrightarrow> m < 64 \<Longrightarrow>
    bit (set_byte k v e) m = (if 8 * k \<le> m \<and> m < 8 * k + 8 then bit v (m - 8 * k) else bit e m)"
  by (auto simp: set_byte_def bit_simps dest: bit_imp_le_length)

lemma byte_set_byte:
  assumes "k < 8" "j < 8"
  shows "byte_of j (set_byte k v e) = (if j = k then v else byte_of j e)"
proof (rule bit_word_eqI)
  fix n assume n: "n < LENGTH(8)"
  then have n8: "n < 8" by simp
  have "8 * j + n < 64" using assms n8 by simp
  then have "bit (byte_of j (set_byte k v e)) n =
      (if 8 * k \<le> 8 * j + n \<and> 8 * j + n < 8 * k + 8 then bit v (8 * j + n - 8 * k) else bit e (8 * j + n))"
    using n8 by (simp add: bit_byte_of bit_set_byte [OF assms(1)])
  moreover have "8 * k \<le> 8 * j + n \<and> 8 * j + n < 8 * k + 8 \<longleftrightarrow> j = k" using n8 by auto
  ultimately show "bit (byte_of j (set_byte k v e)) n = bit (if j = k then v else byte_of j e) n"
    using n8 by (auto simp: bit_byte_of)
qed

lemma lane_lt: "lane a < 8"
  by (simp add: unsigned_take_bit_eq take_bit_nat_def)

lemma qword_lane: "qword a = qword b \<Longrightarrow> lane a = lane b \<Longrightarrow> a = b"
  by (metis and_not_mask_push bits_ident word_unat_eq_iff)

lemma rd8_wr8: "rd8 (wr8 a v s) b = (if b = a then v else rd8 s b)"
proof (cases "qword b = qword a")
  case True
  then show ?thesis using byte_set_byte [OF lane_lt lane_lt, of b a v] qword_lane [of b a]
    by (auto simp: rd8_def wr8_def wr_def)
qed (auto simp: rd8_def wr8_def wr_def)

lemma wr8_sel [simp]: "vm_pmm (wr8 a v s) = vm_pmm s" "s_pml4_phys (wr8 a v s) = s_pml4_phys s"
  "vm_cr3 (wr8 a v s) = vm_cr3 s"
  by (simp_all add: wr8_def) (simp add: wr_def)

lemma wr_bytes_sel [simp]: "vm_pmm (wr_bytes p n g s) = vm_pmm s"
  "s_pml4_phys (wr_bytes p n g s) = s_pml4_phys s" "vm_cr3 (wr_bytes p n g s) = vm_cr3 s"
  by (induction n) (simp_all add: wr_bytes_def)

lemma wr_bytes_Suc: "wr_bytes p (Suc n) g s = wr8 (p + of_nat n) (g n) (wr_bytes p n g s)"
  by (simp add: wr_bytes_def)

lemma rd8_wr_bytes:
  assumes "n < 2 ^ 64"
  shows "rd8 (wr_bytes p n g s) b = (if unat (b - p) < n then g (unat (b - p)) else rd8 s b)"
  using assms
proof (induction n)
  case (Suc n)
  have u: "unat (of_nat n :: u64) = n" using Suc.prems by (intro unat_of_nat64) simp
  then have "b = p + of_nat n \<longleftrightarrow> unat (b - p) = n" by (auto simp: algebra_simps)
  then show ?case using Suc u by (auto simp: wr_bytes_Suc rd8_wr8 less_Suc_eq)
qed (simp add: wr_bytes_def)

lemma vm_mem_wr_bytes:
  "\<forall>i<n. qword (p + of_nat i) \<noteq> x \<Longrightarrow> vm_mem (wr_bytes p n g s) x = vm_mem s x"
  by (induction n) (auto simp: wr_bytes_Suc wr8_def wr_def wr_bytes_def)

section \<open>Little-endian round trips\<close>

lemma le_val_digits: "le_val n (\<lambda>i. of_nat (m div 256 ^ i)) = m mod 256 ^ n"
proof (induction n arbitrary: m)
  case (Suc n)
  have "map (\<lambda>i. of_nat (m div 256 ^ i) :: u8) [0..<Suc n] =
      of_nat m # map (\<lambda>i. of_nat (m div 256 div 256 ^ i)) [0..<n]"
    by (simp add: upt_conv_Cons map_Suc_upt [symmetric] div_mult2_eq del: upt_Suc)
  then have "le_val (Suc n) (\<lambda>i. of_nat (m div 256 ^ i)) = m mod 256 + 256 * (m div 256 mod 256 ^ n)"
    using Suc [of "m div 256"] by (simp add: le_val_def unsigned_of_nat take_bit_nat_def)
  then show ?case by (simp add: mod_mult2_eq)
qed (simp add: le_val_def)

lemma le_val_cong: "(\<And>i. i < n \<Longrightarrow> f i = g i) \<Longrightarrow> le_val n f = le_val n g"
  by (auto simp: le_val_def intro!: arg_cong [where f = "horner_sum unat 256"])

lemma byte_of_nat: "byte_of i v = of_nat (unat v div 256 ^ i)"
proof -
  have "take_bit 64 (unat v) = unat v"
    by (rule take_bit_nat_eq_self) (use unsigned_less [of v, where ?'a = nat] in simp)
  then have "unat (drop_bit (8 * i) v) = unat v div 256 ^ i"
    by (subst unsigned_drop_bit_eq) (simp add: drop_bit_eq_div power_mult)
  then show ?thesis by (simp add: byte_of_def word_unat_eq_iff unsigned_ucast_eq unsigned_of_nat)
qed

lemma wr64_rd8: "rd8 (wr64 p v s) b = (if unat (b - p) < 8 then byte_of (unat (b - p)) v else rd8 s b)"
  by (simp add: wr64_def rd8_wr_bytes)

lemma rd64_wr64: "rd64 (wr64 p v s) p = v"
proof -
  have "le_val 8 (\<lambda>i. rd8 (wr64 p v s) (p + of_nat i)) = le_val 8 (\<lambda>i. of_nat (unat v div 256 ^ i))"
    by (rule le_val_cong) (simp add: wr64_rd8 unat_of_nat64 byte_of_nat)
  also have "\<dots> = unat v" unfolding le_val_digits by (rule mod_less) (use unsigned_less [of v, where ?'a = nat] in simp)
  finally show ?thesis by (simp add: rd64_def)
qed

section \<open>Bytes of a frame\<close>

lemma frame_byte:
  assumes "f \<in> pmm_all_frames" "i < 4096"
  shows "qword (f + of_nat i) = entry_ptr f (of_nat (i div 8))" "lane (f + of_nat i) = i mod 8"
    "unat (f + of_nat i) = unat f + i" "(of_nat (i div 8) :: u64) < 512"
proof -
  have i: "unat (of_nat i :: u64) = i" using assms(2) by (intro unat_of_nat64) simp
  obtain c where c: "unat f = 4096 * c" using pmm.frame_aligned [OF assms(1)] by (auto simp: mod_eq_0_iff_dvd elim!: dvdE)
  show u: "unat (f + of_nat i) = unat f + i"
    using frame_small [OF assms(1)] assms(2) by (subst unat_add_lem [THEN iffD1]) (auto simp: i)
  have d: "i div 8 < 512" using assms(2) by auto
  then have du: "unat (of_nat (i div 8) :: u64) = i div 8" by (intro unat_of_nat64) simp
  then show l: "(of_nat (i div 8) :: u64) < 512" using d by (simp add: word_less_nat_alt)
  show "lane (f + of_nat i) = i mod 8"
    by (simp only: unsigned_take_bit_eq take_bit_nat_def u c) (simp add: mod_mult_left_eq [symmetric] mod_add_left_eq [symmetric] mult.assoc)
  have "(4096 * c + i) div 8 = 512 * c + i div 8" by simp
  then show "qword (f + of_nat i) = entry_ptr f (of_nat (i div 8))"
    by (simp add: word_unat_eq_iff unat_and_not_mask u unat_entry_ptr [OF assms(1) l] du c)
qed

lemma rd8_frame:
  assumes "f \<in> pmm_all_frames" "i < 4096"
  shows "rd8 s (f + of_nat i) = byte_of (i mod 8) (rd s f (of_nat (i div 8)))"
  by (simp only: rd8_def frame_byte [OF assms])

text \<open>Writing bytes of one frame changes no entry of another.\<close>
lemma wr_bytes_frame:
  assumes "f \<in> pmm_all_frames" "u \<in> pmm_all_frames" "u \<noteq> f" "j < 512" "k + n \<le> 4096"
  shows "rd (wr_bytes (f + of_nat k) n g s) u j = rd s u j"
proof (rule vm_mem_wr_bytes, intro allI impI)
  fix i assume "i < n"
  then have i: "k + i < 4096" using assms(5) by simp
  have "f + of_nat k + of_nat i = f + of_nat (k + i)" by (simp add: ac_simps)
  then have "qword (f + of_nat k + of_nat i) = entry_ptr f (of_nat ((k + i) div 8))"
    by (simp only: frame_byte(1) [OF assms(1) i])
  then show "qword (f + of_nat k + of_nat i) \<noteq> entry_ptr u j"
    using entry_ptr_inj [OF assms(1,2) frame_byte(4) [OF assms(1) i] assms(4)] assms(3) by simp
qed
end
