(* ===== verification/AddressSpaces.thy ===== *)
theory AddressSpaces
  imports PageTree
begin

text \<open>Correctness of the virtual memory manager (kernel/mm/virtual_memory.cpp): mapping,
  unmapping and protecting pages, new user address spaces and their isolation, stated over the
  translations of TranslateInPml4 with the tree lemmas of PageTree.\<close>

section \<open>Correctness of the virtual memory manager\<close>

text \<open>Two addresses on the same 4 KB page: bits 12 to 47 agree (the others are not translated).\<close>
definition same_page :: "u64 \<Rightarrow> u64 \<Rightarrow> bool" where
  "same_page v w \<longleftrightarrow> take_bit 36 (drop_bit 12 v) = take_bit 36 (drop_bit 12 w)"

lemma idx_take_bit: "pml4_idx v = take_bit 9 (drop_bit 39 v)" "pdpt_idx v = take_bit 9 (drop_bit 30 v)"
  "pd_idx v = take_bit 9 (drop_bit 21 v)" "pt_idx v = take_bit 9 (drop_bit 12 v)"
  by (simp_all add: pml4_idx_def pdpt_idx_def pd_idx_def pt_idx_def take_bit_eq_mask mask_eq_exp_minus_1)

lemma take_drop_bits: "take_bit n (drop_bit k v) = take_bit n (drop_bit k w) \<longleftrightarrow>
    (\<forall>i. k \<le> i \<and> i < k + n \<longrightarrow> bit v i = bit w i)" for v w :: u64
proof
  assume e: "take_bit n (drop_bit k v) = take_bit n (drop_bit k w)"
  show "\<forall>i. k \<le> i \<and> i < k + n \<longrightarrow> bit v i = bit w i"
  proof (intro allI impI)
    fix i assume i: "k \<le> i \<and> i < k + n"
    have "bit (take_bit n (drop_bit k v)) (i - k) = bit (take_bit n (drop_bit k w)) (i - k)" using e by simp
    then show "bit v i = bit w i" using i by (auto simp: bit_take_bit_iff bit_drop_bit_eq)
  qed
qed (auto intro!: bit_word_eqI simp: bit_take_bit_iff bit_drop_bit_eq)

lemma same_page_idx: "same_page v w \<longleftrightarrow> va_path v = va_path w \<and> pt_idx v = pt_idx w"
proof -
  have "(\<forall>i. 12 \<le> i \<and> i < 12 + 36 \<longrightarrow> bit v i = bit w i) \<longleftrightarrow>
    (\<forall>i. 39 \<le> i \<and> i < 39 + 9 \<longrightarrow> bit v i = bit w i) \<and> (\<forall>i. 30 \<le> i \<and> i < 30 + 9 \<longrightarrow> bit v i = bit w i)
    \<and> (\<forall>i. 21 \<le> i \<and> i < 21 + 9 \<longrightarrow> bit v i = bit w i) \<and> (\<forall>i. 12 \<le> i \<and> i < 12 + 9 \<longrightarrow> bit v i = bit w i)"
    (is "?l \<longleftrightarrow> ?a \<and> ?b \<and> ?c \<and> ?d")
  proof
    assume r: "?a \<and> ?b \<and> ?c \<and> ?d"
    show ?l
    proof (intro allI impI)
      fix i :: nat assume "12 \<le> i \<and> i < 12 + 36"
      then have "39 \<le> i \<and> i < 39 + 9 \<or> 30 \<le> i \<and> i < 30 + 9 \<or> 21 \<le> i \<and> i < 21 + 9 \<or> 12 \<le> i \<and> i < 12 + 9"
        by linarith
      then show "bit v i = bit w i" using r by blast
    qed
  qed auto
  then show ?thesis unfolding same_page_def va_path_def list.inject idx_take_bit take_drop_bits by blast
qed

text \<open>A concrete machine: an empty root table in frame 768, frames 770 to 774 free.\<close>
definition vmm_demo :: vmm where
  "vmm_demo = \<lparr>vm_pmm = \<lparr>s_bitmap = BitmapClear 770 (BitmapClear 771 (BitmapClear 772 (BitmapClear 773
       (BitmapClear 774 (\<lambda>_. 0xFF))))), s_total_pages = 6, s_free_pages = 5, s_search_hint = 768\<rparr>,
     vm_mem = (\<lambda>_. 0), vm_cr3 = 0x300000, s_pml4_phys = 0x300000, s_kvirt_next = 0xFFFFFF8000000000\<rparr>"

lemma vmm_demo_free: "pmm_free (vm_pmm vmm_demo) = {770, 771, 772, 773, 774}"
  by (auto simp: pmm_free_def vmm_demo_def MAX_PAGES_val)

lemma vmm_demo_pmm: "pmm_inv (vm_pmm vmm_demo)"
  by (simp add: pmm_inv_def vmm_demo_free) (simp add: vmm_demo_def MAX_PAGES_val)

lemma vmm_demo_root: "root_ok vmm_demo 0x300000"
proof -
  have f: "0x300000 = frame_of 768" by (simp add: frame_of_def PAGE_SIZE_def)
  have "frame_of 768 \<notin> pmm_frames (vm_pmm vmm_demo)"
    by (auto simp: pmm_frames_def vmm_demo_free frame_of_inj MAX_PAGES_val)
  then have u: "0x300000 \<in> used_frames vmm_demo"
    using frame_of_zero [of 768] by (auto simp: used_frames_def f pmm_all_frames_def MAX_PAGES_val)
  have t: "table_at vmm_demo 0x300000 p = Some t \<longleftrightarrow> p = [] \<and> t = 0x300000" for p t
    by (cases p) (auto simp: child_def vmm_demo_def)
  show ?thesis
    using u vmm_demo_pmm by (auto simp: root_ok_def pt_wf_def tables_def t) (simp add: vmm_demo_def)
qed

lemma vmm_demo_wf: "pt_wf vmm_demo 0x300000"
  using vmm_demo_root by (simp add: root_ok_def)

text \<open>C1 (functional): mapping a page makes exactly that page translate to the given frame; every
  other address, and every address when the call fails, translates as before, and the tables
  stay a tree of frames in use.\<close>
theorem MapPageInto_translates:
  assumes "pt_wf s r" "flags AND PTE_ADDR_MASK = 0" "phys AND PTE_ADDR_MASK = phys"
    and "MapPageInto r virt phys flags s = (b, s')"
  shows "pt_wf s' r \<and> (\<forall>v. TranslateInPml4 r v s' =
    (if b \<and> same_page v virt then phys OR (v AND 0xFFF) else TranslateInPml4 r v s))"
  using MapPageInto_step(1,5) [OF assms(1,4)] leaf_entry_frame [OF assms(2), of phys] assms(3)
  by (simp add: same_page_idx)

lemma MapPageInto_translates_witness:
  "TranslateInPml4 0x300000 0x1234567 (snd (MapPageInto 0x300000 0x1234000 0x5000 6 vmm_demo)) \<in> {0, 0x5567}
   \<and> TranslateInPml4 0x300000 0x999999 (snd (MapPageInto 0x300000 0x1234000 0x5000 6 vmm_demo)) = 0"
proof -
  obtain b s' where M: "MapPageInto 0x300000 0x1234000 0x5000 6 vmm_demo = (b, s')" by fastforce
  have z: "TranslateInPml4 0x300000 v vmm_demo = 0" for v by (simp add: TranslateInPml4_def vmm_demo_def)
  show ?thesis
    using MapPageInto_translates [OF vmm_demo_wf _ _ M]
    by (simp add: M z PTE_ADDR_MASK_def same_page_def take_bit_eq_mask mask_eq_exp_minus_1 drop_bit_eq_div)
qed

text \<open>With three free frames a mapping succeeds, unless a huge page lies on the walk.\<close>
theorem MapPageInto_succeeds:
  assumes "pt_wf s r" "3 \<le> FreePages (vm_pmm s)" "\<not> walk_huge s r virt"
  shows "fst (MapPageInto r virt phys flags s)"
  using MapPageInto_True [OF assms(1) _ assms(3)] assms(1,2) by (simp add: FreePages_def pt_wf_def pmm_inv_def)

lemma MapPageInto_succeeds_witness: "fst (MapPageInto 0x300000 0x1234000 0x5000 6 vmm_demo)"
  by (rule MapPageInto_succeeds [OF vmm_demo_wf])
     (simp_all add: FreePages_def vmm_demo_def walk_huge_def huge_at_def child_def)

text \<open>Unmapping a page removes its translation and no other; nothing changes when
  the page is not mapped through a page table.\<close>
theorem UnmapPageFrom_unmaps:
  assumes "pt_wf s r"
  shows "pt_wf (UnmapPageFrom r virt s) r \<and> GetPteInto r virt (UnmapPageFrom r virt s) = 0
    \<and> TranslateInPml4 r v (UnmapPageFrom r virt s) =
        (if same_page v virt \<and> table_at s r (va_path virt) \<noteq> None then 0 else TranslateInPml4 r v s)"
proof (cases "table_at s r (va_path virt)")
  case None
  then show ?thesis using assms by (simp add: UnmapPageFrom_table GetPteInto_table)
next
  case (Some t)
  let ?s' = "wr (entry_ptr t (pt_idx virt)) 0 s"
  have s': "UnmapPageFrom r virt s = ?s'" by (simp add: UnmapPageFrom_table Some)
  have l: "length (va_path virt) = 3" by (simp add: va_path_def)
  note L = leaf_store [OF assms vpath_va(1) l Some idx_lt(4) refl, where e = 0]
  have "t \<in> pmm_all_frames" using pt_wf_used [OF assms vpath_va(1) Some] by (auto dest: used_frame)
  then have "GetPteInto r virt ?s' = 0" using L(1) [OF vpath_va(1)] L(5) [of t "pt_idx virt"] Some
    by (simp add: GetPteInto_table)
  then show ?thesis unfolding s' using L(2,4) Some by (auto simp: same_page_idx)
qed

lemma UnmapPageFrom_unmaps_witness:
  "TranslateInPml4 0x300000 0x1234567 (UnmapPageFrom 0x300000 0x1234000
     (snd (MapPageInto 0x300000 0x1234000 0x5000 6 vmm_demo))) = 0"
proof -
  let ?s = "snd (MapPageInto 0x300000 0x1234000 0x5000 6 vmm_demo)"
  have M: "MapPageInto 0x300000 0x1234000 0x5000 6 vmm_demo = (True, ?s)"
    using MapPageInto_True [OF vmm_demo_wf, of "0x1234000" "0x5000" 6]
    by (simp add: prod_eq_iff vmm_demo_free) (simp add: walk_huge_def huge_at_def child_def vmm_demo_def)
  have w: "pt_wf ?s 0x300000" by (rule MapPageInto_step(1) [OF vmm_demo_wf M])
  have sp: "same_page 0x1234567 0x1234000"
    by (simp add: same_page_def take_bit_eq_mask mask_eq_exp_minus_1 drop_bit_eq_div)
  have "GetPteInto 0x300000 0x1234000 ?s \<noteq> 0"
    using MapPageInto_step(7) [OF vmm_demo_wf M] by (simp add: leaf_entry_def PTE_ADDR_MASK_def PTE_PRESENT_def)
  then have "table_at ?s 0x300000 (va_path 0x1234000) \<noteq> None" by (auto simp: GetPteInto_table split: option.splits)
  then show ?thesis
    using UnmapPageFrom_unmaps [OF w, of "0x1234000" "0x1234567"] sp by simp
qed

text \<open>Changing the protection of a page keeps its frame and every translation, and
  leaves exactly the new flags in the entry; the call fails where no 4 KB page is mapped.\<close>
theorem ProtectPageInto_keeps_frame:
  assumes "pt_wf s r" "flags AND PTE_ADDR_MASK = 0" "ProtectPageInto r virt flags s = (b, s')"
  shows "pt_wf s' r \<and> b = present (GetPteInto r virt s)
    \<and> GetPteInto r virt s' = (if b then leaf_entry (GetPteInto r virt s) flags else GetPteInto r virt s)
    \<and> (\<forall>v. TranslateInPml4 r v s' = TranslateInPml4 r v s)"
proof (cases "table_at s r (va_path virt)")
  case None
  then show ?thesis using assms by (auto simp: ProtectPageInto_table GetPteInto_table)
next
  case (Some t)
  let ?e = "rd s t (pt_idx virt)"
  show ?thesis
  proof (cases "present ?e")
    case True
    have s': "s' = wr (entry_ptr t (pt_idx virt)) (leaf_entry ?e flags) s" and b: "b"
      using assms(3) Some True by (auto simp: ProtectPageInto_table)
    have l: "length (va_path virt) = 3" by (simp add: va_path_def)
    note L = leaf_store [OF assms(1) vpath_va(1) l Some idx_lt(4) s']
    have pr: "present (leaf_entry ?e flags)"
      unfolding present_bit by (simp add: leaf_entry_def bit_or_iff PTE_PRESENT_def)
    have "t \<in> pmm_all_frames" using pt_wf_used [OF assms(1) vpath_va(1) Some] by (auto dest: used_frame)
    then have "GetPteInto r virt s' = leaf_entry ?e flags" "GetPteInto r virt s = ?e"
      using L(1) [OF vpath_va(1)] L(5) [of t "pt_idx virt"] Some by (simp_all add: GetPteInto_table)
    moreover have "TranslateInPml4 r v s' = TranslateInPml4 r v s" for v
    proof (cases "va_path v = va_path virt \<and> pt_idx v = pt_idx virt")
      case same: True
      then have "TranslateInPml4 r v s = (?e AND PTE_ADDR_MASK) OR (v AND 0xFFF)"
        using Translate_table [of s r v t] Some True by simp
      then show ?thesis using L(4) [of v] same pr leaf_entry_frame [OF assms(2), of ?e] by simp
    next
      case other: False
      show ?thesis by (rule trans [OF L(4) if_not_P [OF other]])
    qed
    ultimately show ?thesis using L(2) b True by simp
  next
    case False
    then show ?thesis using assms Some by (auto simp: ProtectPageInto_table GetPteInto_table)
  qed
qed

lemma ProtectPageInto_keeps_frame_witness:
  "fst (ProtectPageInto 0x300000 0x1234000 5 vmm_demo) = False
   \<and> TranslateInPml4 0x300000 7 (snd (ProtectPageInto 0x300000 0x1234000 5 vmm_demo)) = 0"
proof -
  obtain b s' where P: "ProtectPageInto 0x300000 0x1234000 5 vmm_demo = (b, s')" by fastforce
  have z: "TranslateInPml4 0x300000 v vmm_demo = 0" "GetPteInto 0x300000 v vmm_demo = 0" for v
    by (simp_all add: TranslateInPml4_def GetPteInto_def vmm_demo_def)
  show ?thesis
    using ProtectPageInto_keeps_frame [OF vmm_demo_wf _ P] by (simp add: P z PTE_ADDR_MASK_def)
qed

lemma CreateUserPml4_nonzero:
  assumes "pmm_inv (vm_pmm s)" "2 \<le> card (pmm_frames (vm_pmm s))"
  shows "fst (CreateUserPml4 s) \<noteq> 0"
proof -
  obtain n pm where A: "AllocPage (vm_pmm s) = (n, pm)" by fastforce
  obtain d pm2 where B: "AllocPage pm = (d, pm2)" by fastforce
  have n: "n \<noteq> 0" using pmm.alloc_zero_iff [OF assms(1)] A assms(2) by auto
  have "pmm_frames pm = pmm_frames (vm_pmm s) - {n}" "n \<in> pmm_frames (vm_pmm s)"
    using pmm.alloc_nonzero [OF assms(1)] A n by auto
  then have "card (pmm_frames pm) \<noteq> 0" using assms(2) by (simp add: card_Diff_singleton)
  then have "d \<noteq> 0" using pmm.alloc_zero_iff [of pm] pmm.alloc_inv [OF assms(1)] A B by auto
  then show ?thesis using A B n by (simp add: CreateUserPml4_def Let_def)
qed

lemma vmm_demo_user: "fst (CreateUserPml4 vmm_demo) \<noteq> 0"
  by (rule CreateUserPml4_nonzero [OF vmm_demo_pmm]) (simp add: card_pmm_frames vmm_demo_free)

text \<open>C27 (functional): a new user address space translates every address like the kernel, except
  the private region (PDPT entries 4 to 511 below PML4 entry 0), where nothing is mapped; the
  translations of every existing address space are untouched.\<close>
theorem CreateUserPml4_clones_kernel:
  assumes "root_ok s (s_pml4_phys s)" "CreateUserPml4 s = (n, s')" "n \<noteq> 0"
  shows "pt_wf s' n
    \<and> TranslateInPml4 n v s' = (if pml4_idx v = 0 \<and> 4 \<le> pdpt_idx v then 0 else TranslateInPml4 (s_pml4_phys s) v s)
    \<and> (pt_wf s r \<longrightarrow> pt_wf s' r \<and> TranslateInPml4 r v s' = TranslateInPml4 r v s)"
  using CreateUserPml4_tree(1,2,3) [OF assms] by (simp add: not_less)

lemma CreateUserPml4_clones_kernel_witness:
  "fst (CreateUserPml4 vmm_demo) \<noteq> 0 \<and> pt_wf (snd (CreateUserPml4 vmm_demo)) (fst (CreateUserPml4 vmm_demo))"
  using CreateUserPml4_clones_kernel [OF _ prod.collapse [symmetric], of vmm_demo] vmm_demo_user vmm_demo_root
  by (simp add: vmm_demo_def)

text \<open>When the tables on the walk to an address of one address space are not tables of another,
  mapping a page there changes no translation of the other, and this is kept for every such
  address.\<close>
lemma isolation_step:
  assumes "pt_wf s r1" "pt_wf s r2" "walk_tables s r1 virt \<inter> tables s r2 = {}"
    and "MapPageInto r1 virt phys flags s = (b, s')"
  shows "pt_wf s' r2" "TranslateInPml4 r2 v s' = TranslateInPml4 r2 v s"
    "walk_tables s r1 w \<inter> tables s r2 = {} \<Longrightarrow> walk_tables s' r1 w \<inter> tables s' r2 = {}"
proof -
  note M = MapPageInto_step [OF assms(1,4)]
  have t2: "tables s r2 \<subseteq> used_frames s" using assms(2) by (simp add: pt_wf_def)
  have "rd s' u j = rd s u j" if "u \<in> tables s r2" "j < 512" for u j
    using M(6) [of u j] that t2 assms(3) by blast
  note R = root_cong [OF assms(2) this]
  have inv: "pmm_inv (vm_pmm s')" using M(1) by (simp add: pt_wf_def)
  show "walk_tables s' r1 w \<inter> tables s' r2 = {}" if "walk_tables s r1 w \<inter> tables s r2 = {}"
    using walk_tables_mono [OF M(1,4,3)] that t2 R(2) by blast
  show "pt_wf s' r2" "TranslateInPml4 r2 v s' = TranslateInPml4 r2 v s" using R(3,4) inv M(2) by blast+
qed

text \<open>Addresses of the private region of a user address space: below PML4 entry 0, from PDPT entry
  4 on.\<close>
definition private_va :: "u64 \<Rightarrow> bool" where
  "private_va va \<longleftrightarrow> pml4_idx va = 0 \<and> 4 \<le> pdpt_idx va"

text \<open>A sequence of mappings (address, frame and flags of each) into one address space.\<close>
definition map_all :: "u64 \<Rightarrow> (u64 \<times> u64 \<times> u64) list \<Rightarrow> vmm \<Rightarrow> vmm" where
  "map_all r ms s = fold (\<lambda>(va, phys, flags) s. snd (MapPageInto r va phys flags s)) ms s"

lemma map_all_isolated:
  assumes "pt_wf s n" "pt_wf s r" "\<And>va. private_va va \<Longrightarrow> walk_tables s n va \<inter> tables s r = {}"
    and "\<And>va phys flags. (va, phys, flags) \<in> set ms \<Longrightarrow> private_va va"
  shows "pt_wf (map_all n ms s) n \<and> pt_wf (map_all n ms s) r
    \<and> (\<forall>v. TranslateInPml4 r v (map_all n ms s) = TranslateInPml4 r v s)"
  using assms
proof (induction ms arbitrary: s)
  case (Cons m ms)
  obtain va phys flags where m: "m = (va, phys, flags)" by (cases m)
  obtain b s' where M: "MapPageInto n va phys flags s = (b, s')" by fastforce
  have "private_va va" by (rule Cons.prems(4) [of va phys flags]) (simp add: m)
  note S = isolation_step [OF Cons.prems(1,2) Cons.prems(3) [OF this] M]
  have "map_all n (m # ms) s = map_all n ms s'" by (simp add: map_all_def m M)
  moreover have "pt_wf (map_all n ms s') n \<and> pt_wf (map_all n ms s') r
      \<and> (\<forall>v. TranslateInPml4 r v (map_all n ms s') = TranslateInPml4 r v s')"
    by (rule Cons.IH [OF MapPageInto_step(1) [OF Cons.prems(1) M] S(1) S(3) [OF Cons.prems(3)]])
       (use Cons.prems(4) in auto)
  ultimately show ?case using S(2) by simp
qed (simp add: map_all_def)

text \<open>C2 (safety): isolation of address spaces.  When CreateUserPml4 succeeds, any sequence of
  mappings into the private region of the new address space (PDPT entries 4 to 511 below PML4
  entry 0), successful or not, changes no translation of any address space that existed before,
  the kernel's included, and the tables of both stay well formed.\<close>
theorem address_space_isolation:
  assumes "root_ok s (s_pml4_phys s)" "CreateUserPml4 s = (n, s')" "n \<noteq> 0" "pt_wf s r"
    and "\<And>va phys flags. (va, phys, flags) \<in> set ms \<Longrightarrow> pml4_idx va = 0 \<and> 4 \<le> pdpt_idx va"
  shows "pt_wf (map_all n ms s') n \<and> pt_wf (map_all n ms s') r
    \<and> (\<forall>v. TranslateInPml4 r v (map_all n ms s') = TranslateInPml4 r v s)"
proof -
  note T = CreateUserPml4_tree [OF assms(1-3)]
  have "walk_tables s' n va \<inter> tables s' r = {}" if "private_va va" for va
    using T(4) [of va, OF _ _ assms(4)] that by (simp add: private_va_def not_less)
  then show ?thesis
    using map_all_isolated [of s' n r ms] T(1) [OF assms(4)] T(2) assms(5) by (simp add: private_va_def)
qed

lemma address_space_isolation_witness:
  "fst (CreateUserPml4 vmm_demo) \<noteq> 0
   \<and> TranslateInPml4 0x300000 0x55 (map_all (fst (CreateUserPml4 vmm_demo))
       [(0x500000000, 0x7000, 7), (0x500001000, 0x300000, 7)] (snd (CreateUserPml4 vmm_demo)))
     = TranslateInPml4 0x300000 0x55 vmm_demo"
proof -
  have v: "pml4_idx 0x500000000 = 0" "4 \<le> pdpt_idx 0x500000000" "pml4_idx 0x500001000 = 0" "4 \<le> pdpt_idx 0x500001000"
    by (simp_all add: pml4_idx_def pdpt_idx_def drop_bit_eq_div)
  have P: "root_ok vmm_demo (s_pml4_phys vmm_demo)" using vmm_demo_root by (simp add: vmm_demo_def)
  show ?thesis
    using address_space_isolation [OF P prod.collapse [symmetric] vmm_demo_user vmm_demo_wf,
        of "[(0x500000000, 0x7000, 7), (0x500001000, 0x300000, 7)]"] vmm_demo_user v by auto
qed

text \<open>For the active kernel root, the walks that do not look at the huge-page bit
  of the PML4 (V2P, UnmapPage) agree with the ones that do.\<close>
theorem V2P_is_TranslateInPml4:
  assumes "root_ok s (s_pml4_phys s)"
  shows "V2P v s = TranslateInPml4 (s_pml4_phys s) v s \<and> UnmapPage v s = UnmapPageFrom (s_pml4_phys s) v s"
proof -
  have "\<not> (present (rd s (s_pml4_phys s) (pml4_idx v)) \<and> huge (rd s (s_pml4_phys s) (pml4_idx v)))"
    using assms by (simp add: root_ok_def)
  then show ?thesis by (simp only: V2P_Translate UnmapPage_UnmapPageFrom simp_thms)
qed

lemma V2P_is_TranslateInPml4_witness: "V2P 0x55 vmm_demo = TranslateInPml4 0x300000 0x55 vmm_demo"
  using V2P_is_TranslateInPml4 [of vmm_demo "0x55"] vmm_demo_root by (simp add: vmm_demo_def)

end
