(* ===== verification/DataPages.thy ===== *)
theory DataPages
  imports PhysBytes AddressSpaces
begin

text \<open>Data pages: the step that process creation and the image loader repeat - allocate a frame,
  write its bytes, map it - and what it does to an address space.  A page holds given bytes when
  every address on it translates into a data frame with these bytes; a data frame is in use and is
  not a page table.\<close>

definition alloc_page :: "vmm \<Rightarrow> u64 \<times> vmm" where
  "alloc_page s = (let (f, pm) = AllocPage (vm_pmm s) in (f, s\<lparr>vm_pmm := pm\<rparr>))"

definition zero_page :: "u64 \<Rightarrow> vmm \<Rightarrow> vmm" where
  "zero_page f s = wr_bytes f PAGE_SIZE (\<lambda>_. 0) s"

definition data_frame :: "vmm \<Rightarrow> u64 \<Rightarrow> u64 \<Rightarrow> bool" where
  "data_frame s r f \<longleftrightarrow> f \<in> used_frames s \<and> f \<notin> tables s r"

text \<open>The page of va is data frame f; and it holds the bytes g.\<close>
definition page_at :: "vmm \<Rightarrow> u64 \<Rightarrow> u64 \<Rightarrow> u64 \<Rightarrow> bool" where
  "page_at s r va f \<longleftrightarrow> data_frame s r f \<and> (\<forall>v. same_page v va \<longrightarrow> TranslateInPml4 r v s = f + (v AND 0xFFF))"

definition page_holds :: "vmm \<Rightarrow> u64 \<Rightarrow> u64 \<Rightarrow> (nat \<Rightarrow> u8) \<Rightarrow> bool" where
  "page_holds s r va g \<longleftrightarrow> (\<exists>f. page_at s r va f \<and> (\<forall>i<4096. rd8 s (f + of_nat i) = g i))"

text \<open>A state change that writes only to the entries of the frames F.\<close>
definition writes_in :: "vmm \<Rightarrow> u64 set \<Rightarrow> vmm \<Rightarrow> bool" where
  "writes_in s F s' \<longleftrightarrow> vm_pmm s' = vm_pmm s \<and> (\<forall>u j. u \<in> pmm_all_frames \<longrightarrow> u \<notin> F \<longrightarrow> j < 512 \<longrightarrow> rd s' u j = rd s u j)"

abbreviation writes_only :: "vmm \<Rightarrow> u64 \<Rightarrow> vmm \<Rightarrow> bool" where "writes_only s f \<equiv> writes_in s {f}"

lemma writes_in_refl [intro!, simp]: "writes_in s F s"
  by (simp add: writes_in_def)

lemma writes_in_trans [trans]: "writes_in s F s' \<Longrightarrow> writes_in s' F s'' \<Longrightarrow> writes_in s F s''"
  by (simp add: writes_in_def)

lemma writes_in_mono: "writes_in s F s' \<Longrightarrow> F \<subseteq> G \<Longrightarrow> writes_in s G s'"
  by (auto simp: writes_in_def)

lemma wr_bytes_only:
  assumes "f \<in> pmm_all_frames" "k + n \<le> 4096"
  shows "writes_only s f (wr_bytes (f + of_nat k) n g s)"
  using wr_bytes_frame [OF assms(1) _ _ _ assms(2)] by (auto simp: writes_in_def)

lemma zero_page_only: "f \<in> pmm_all_frames \<Longrightarrow> writes_only s f (zero_page f s)"
  using wr_bytes_only [of f 0 4096] by (simp add: zero_page_def PAGE_SIZE_def)

lemma rd8_zero_page:
  assumes "i < 4096" shows "rd8 (zero_page f s) (f + of_nat i) = 0"
  using assms by (simp add: zero_page_def rd8_wr_bytes PAGE_SIZE_def unat_of_nat64)

lemma page_offset_lt: "unat (v AND 0xFFF :: u64) < 4096"
proof -
  have "v AND 0xFFF = take_bit 12 v" by (simp add: take_bit_eq_mask mask_eq_exp_minus_1)
  then show ?thesis by (simp add: unsigned_take_bit_eq take_bit_nat_def)
qed

lemma page_offset_of_nat: "v AND 0xFFF = (of_nat (unat (v AND 0xFFF)) :: u64)" by simp

lemma frame_plus_offset:
  assumes "f \<in> pmm_all_frames" shows "f OR (v AND 0xFFF) = f + (v AND 0xFFF)"
proof -
  have m: "v AND 0xFFF = v AND mask 12" by (simp add: mask_eq_exp_minus_1)
  have "\<not> bit f n \<or> \<not> bit (v AND mask 12) n" for n
    using frame_bits [OF assms, of n] by (auto simp: bit_and_iff bit_mask_iff)
  then show ?thesis unfolding m by (simp add: disjunctive_add)
qed

lemma frame_addr_mask: "f \<in> pmm_all_frames \<Longrightarrow> f AND PTE_ADDR_MASK = f"
  by (rule bit_word_eqI) (use frame_bits [of f] in \<open>force simp: bit_and_iff bit_ADDR_MASK\<close>)

text \<open>Two states that agree on the entries of a frame agree on its bytes.\<close>
lemma rd8_frame_cong:
  assumes "f \<in> pmm_all_frames" "i < 4096" "\<And>j. j < 512 \<Longrightarrow> rd s' f j = rd s f j"
  shows "rd8 s' (f + of_nat i) = rd8 s (f + of_nat i)"
  using assms(3) [OF frame_byte(4) [OF assms(1,2)]] by (simp add: rd8_frame [OF assms(1,2)])

section \<open>The step\<close>

lemma alloc_page_frame:
  assumes "pmm_inv (vm_pmm s)" "alloc_page s = (f, s1)" "f \<noteq> 0"
  shows "f \<in> pmm_all_frames" "f \<notin> used_frames s" "pmm_inv (vm_pmm s1)" "used_frames s1 = insert f (used_frames s)"
    "vm_mem s1 = vm_mem s" "s1 = s\<lparr>vm_pmm := vm_pmm s1\<rparr>" "pmm_frames (vm_pmm s1) = pmm_frames (vm_pmm s) - {f}"
proof -
  obtain pm where a: "AllocPage (vm_pmm s) = (f, pm)" "s1 = s\<lparr>vm_pmm := pm\<rparr>"
    using assms(2) by (auto simp: alloc_page_def split: prod.splits)
  have f: "f \<in> pmm_frames (vm_pmm s)" "pmm_frames pm = pmm_frames (vm_pmm s) - {f}"
    using pmm.alloc_nonzero [OF assms(1)] a(1) assms(3) by auto
  show "f \<in> pmm_all_frames" using f pmm.frames_ok [OF assms(1)] by blast
  then show "f \<notin> used_frames s" "used_frames s1 = insert f (used_frames s)"
    using f assms(3) by (auto simp: used_frames_def a(2))
  show "pmm_inv (vm_pmm s1)" using pmm.alloc_inv [OF assms(1)] a by auto
  show "vm_mem s1 = vm_mem s" "s1 = s\<lparr>vm_pmm := vm_pmm s1\<rparr>" "pmm_frames (vm_pmm s1) = pmm_frames (vm_pmm s) - {f}"
    using a(2) f(2) by simp_all
qed

lemma alloc_write:
  assumes wf: "pt_wf s r" and A: "alloc_page s = (f, s1)" and f0: "f \<noteq> 0" and W: "writes_in s1 (insert f F) s2"
    and F: "F \<subseteq> Collect (data_frame s r)"
  shows "pt_wf s2 r" "tables s2 r = tables s r" "TranslateInPml4 r v s2 = TranslateInPml4 r v s"
    "used_frames s2 = insert f (used_frames s)" "f \<in> pmm_all_frames" "f \<notin> used_frames s"
    "u \<in> used_frames s \<Longrightarrow> u \<notin> F \<Longrightarrow> j < 512 \<Longrightarrow> rd s2 u j = rd s u j"
    "u \<in> tables s r \<Longrightarrow> j < 512 \<Longrightarrow> rd s2 u j = rd s u j"
proof -
  have inv: "pmm_inv (vm_pmm s)" using wf by (simp add: pt_wf_def)
  note P = alloc_page_frame [OF inv A f0]
  have pm: "vm_pmm s2 = vm_pmm s1" using W by (simp add: writes_in_def)
  show uf: "used_frames s2 = insert f (used_frames s)" using P(4) pm by (simp add: used_frames_def)
  show "f \<in> pmm_all_frames" "f \<notin> used_frames s" by (rule P)+
  show rdu: "rd s2 u j = rd s u j" if "u \<in> used_frames s" "u \<notin> F" "j < 512" for u j
    using W that P(2,5) by (auto simp: writes_in_def dest: used_frame)
  show rdt: "rd s2 u j = rd s u j" if "u \<in> tables s r" "j < 512" for u j
    by (rule rdu) (use that wf F in \<open>auto simp: pt_wf_def data_frame_def\<close>)
  note R = root_cong [OF wf rdt]
  show "tables s2 r = tables s r" "TranslateInPml4 r v s2 = TranslateInPml4 r v s" by (rule R; assumption)+
  show "pt_wf s2 r" using R(4) P(3) pm uf by auto
qed

text \<open>Mapping a data frame: it becomes the page, every other page stays where it is, and the
  entries of all data frames are kept.\<close>
lemma map_frame:
  assumes wf: "pt_wf s r" and d: "data_frame s r f"
    and M: "MapPageInto r va f flags s = (b, s')" and fl: "flags AND PTE_ADDR_MASK = 0"
  shows "pt_wf s' r" "used_frames s \<subseteq> used_frames s'"
    "TranslateInPml4 r v s' = (if b \<and> same_page v va then f + (v AND 0xFFF) else TranslateInPml4 r v s)"
    "data_frame s r g \<Longrightarrow> data_frame s' r g"
    "data_frame s r g \<Longrightarrow> j < 512 \<Longrightarrow> rd s' g j = rd s g j"
    "b \<Longrightarrow> page_at s' r va f"
    "page_at s r w g \<Longrightarrow> \<not> (b \<and> same_page w va) \<Longrightarrow> page_at s' r w g"
proof -
  note S = MapPageInto_step [OF wf M]
  have f: "f \<in> pmm_all_frames" using d by (auto simp: data_frame_def dest: used_frame)
  have wt: "walk_tables s r va \<subseteq> tables s r" by (auto simp: walk_tables_def intro: tablesI [OF vpath_take])
  show "pt_wf s' r" "used_frames s \<subseteq> used_frames s'" by (rule S)+
  show T: "TranslateInPml4 r v s' = (if b \<and> same_page v va then f + (v AND 0xFFF) else TranslateInPml4 r v s)" for v
    using S(5) [of v] leaf_entry_frame [OF fl, of f]
    by (simp add: same_page_idx frame_addr_mask [OF f] frame_plus_offset [OF f])
  show D: "data_frame s' r g" if "data_frame s r g" for g using that S(2,4) by (auto simp: data_frame_def)
  show "rd s' g j = rd s g j" if "data_frame s r g" "j < 512"
    using S(6) [of g j] that wt by (auto simp: data_frame_def)
  show "b \<Longrightarrow> page_at s' r va f" using D [OF d] T by (simp add: page_at_def)
  show "page_at s' r w g" if pa: "page_at s r w g" and ns: "\<not> (b \<and> same_page w va)"
  proof -
    have "\<not> (b \<and> same_page v va)" if "same_page v w" for v using ns that by (auto simp: same_page_def)
    then show ?thesis using pa T D by (auto simp: page_at_def)
  qed
qed

lemma alloc_write_data:
  assumes wf: "pt_wf s r" and A: "alloc_page s = (f, s1)" and f0: "f \<noteq> 0" and W: "writes_in s1 (insert f F) s2"
    and F: "F \<subseteq> Collect (data_frame s r)"
  shows "data_frame s2 r f" "data_frame s r d \<Longrightarrow> data_frame s2 r d" "page_at s r w d \<Longrightarrow> page_at s2 r w d"
    "data_frame s r d \<Longrightarrow> d \<notin> F \<Longrightarrow> j < 512 \<Longrightarrow> rd s2 d j = rd s d j" "data_frame s r d \<Longrightarrow> d \<noteq> f"
proof -
  note B = alloc_write [OF wf A f0 W F]
  show "data_frame s2 r f" using B(2,4,6) wf by (auto simp: data_frame_def pt_wf_def)
  show d: "data_frame s r d \<Longrightarrow> data_frame s2 r d" for d using B(2,4) by (auto simp: data_frame_def)
  show "page_at s r w d \<Longrightarrow> page_at s2 r w d" using d B(3) by (simp add: page_at_def)
  show "data_frame s r d \<Longrightarrow> d \<notin> F \<Longrightarrow> j < 512 \<Longrightarrow> rd s2 d j = rd s d j" using B(7) by (simp add: data_frame_def)
  show "data_frame s r d \<Longrightarrow> d \<noteq> f" using B(6) by (auto simp: data_frame_def)
qed

text \<open>The whole step: allocate, write, map.\<close>
lemma map_data_page_in:
  assumes wf: "pt_wf s r" and A: "alloc_page s = (f, s1)" and f0: "f \<noteq> 0" and W: "writes_in s1 (insert f F) s2"
    and M: "MapPageInto r va f flags s2 = (b, s3)" and fl: "flags AND PTE_ADDR_MASK = 0"
    and F: "F \<subseteq> Collect (data_frame s r)"
  shows "pt_wf s3 r" "used_frames s \<subseteq> used_frames s3" "data_frame s3 r f"
    "TranslateInPml4 r v s3 = (if b \<and> same_page v va then f + (v AND 0xFFF) else TranslateInPml4 r v s)"
    "data_frame s r d \<Longrightarrow> data_frame s3 r d"
    "data_frame s r d \<Longrightarrow> j < 512 \<Longrightarrow> rd s3 d j = rd s2 d j"
    "j < 512 \<Longrightarrow> rd s3 f j = rd s2 f j"
    "b \<Longrightarrow> page_at s3 r va f"
    "page_at s r w d \<Longrightarrow> \<not> (b \<and> same_page w va) \<Longrightarrow> page_at s3 r w d"
proof -
  note B = alloc_write [OF wf A f0 W F] and D = alloc_write_data [OF wf A f0 W F]
  note G = map_frame [OF B(1) D(1) M fl]
  show "pt_wf s3 r" "data_frame s3 r f" by (rule G(1) G(4) [OF D(1)])+
  show "used_frames s \<subseteq> used_frames s3" using G(2) B(4) by blast
  show "TranslateInPml4 r v s3 = (if b \<and> same_page v va then f + (v AND 0xFFF) else TranslateInPml4 r v s)"
    using G(3) B(3) by simp
  show "data_frame s r d \<Longrightarrow> data_frame s3 r d" "data_frame s r d \<Longrightarrow> j < 512 \<Longrightarrow> rd s3 d j = rd s2 d j"
    using G(4,5) D(2) by simp_all
  show "j < 512 \<Longrightarrow> rd s3 f j = rd s2 f j" by (rule G(5) [OF D(1)])
  show "b \<Longrightarrow> page_at s3 r va f" "page_at s r w d \<Longrightarrow> \<not> (b \<and> same_page w va) \<Longrightarrow> page_at s3 r w d"
    using G(6,7) D(3) by blast+
qed

lemma map_data_page:
  assumes "pt_wf s r" "alloc_page s = (f, s1)" "f \<noteq> 0" "writes_only s1 f s2"
    and "MapPageInto r va f flags s2 = (b, s3)" "flags AND PTE_ADDR_MASK = 0"
  shows "pt_wf s3 r" "used_frames s \<subseteq> used_frames s3" "data_frame s3 r f"
    "TranslateInPml4 r v s3 = (if b \<and> same_page v va then f + (v AND 0xFFF) else TranslateInPml4 r v s)"
    "data_frame s r d \<Longrightarrow> data_frame s3 r d"
    "data_frame s r d \<Longrightarrow> j < 512 \<Longrightarrow> rd s3 d j = rd s d j"
    "j < 512 \<Longrightarrow> rd s3 f j = rd s2 f j"
    "b \<Longrightarrow> page_at s3 r va f"
    "page_at s r w d \<Longrightarrow> \<not> (b \<and> same_page w va) \<Longrightarrow> page_at s3 r w d"
proof -
  note G = map_data_page_in [OF assms(1-6) empty_subsetI] and D = alloc_write_data(4) [OF assms(1-4) empty_subsetI]
  show "pt_wf s3 r" "used_frames s \<subseteq> used_frames s3" "data_frame s3 r f"
    "TranslateInPml4 r v s3 = (if b \<and> same_page v va then f + (v AND 0xFFF) else TranslateInPml4 r v s)"
    "data_frame s r d \<Longrightarrow> data_frame s3 r d"
    "j < 512 \<Longrightarrow> rd s3 f j = rd s2 f j" "b \<Longrightarrow> page_at s3 r va f"
    "page_at s r w d \<Longrightarrow> \<not> (b \<and> same_page w va) \<Longrightarrow> page_at s3 r w d" by (rule G; assumption)+
  show "data_frame s r d \<Longrightarrow> j < 512 \<Longrightarrow> rd s3 d j = rd s d j" using G(6) D by simp
qed

text \<open>The new page holds what was written; every other page still holds what it held.\<close>
lemma map_data_page_holds:
  assumes "pt_wf s r" "alloc_page s = (f, s1)" "f \<noteq> 0" "writes_only s1 f s2"
    and "MapPageInto r va f flags s2 = (b, s3)" "flags AND PTE_ADDR_MASK = 0"
  shows "b \<Longrightarrow> (\<And>i. i < 4096 \<Longrightarrow> rd8 s2 (f + of_nat i) = g i) \<Longrightarrow> page_holds s3 r va g"
    and "page_holds s r w h \<Longrightarrow> \<not> (b \<and> same_page w va) \<Longrightarrow> page_holds s3 r w h"
proof -
  note S = map_data_page [OF assms]
  have f: "f \<in> pmm_all_frames" using S(3) by (auto simp: data_frame_def dest: used_frame)
  show "page_holds s3 r va g" if "b" "\<And>i. i < 4096 \<Longrightarrow> rd8 s2 (f + of_nat i) = g i"
    unfolding page_holds_def
    using S(8) [OF that(1)] rd8_frame_cong [OF f _ S(7)] that(2) by (intro exI [of _ f]) auto
  show "page_holds s3 r w h" if ph: "page_holds s r w h" and ns: "\<not> (b \<and> same_page w va)"
  proof -
    obtain d where d: "page_at s r w d" "\<And>i. i < 4096 \<Longrightarrow> rd8 s (d + of_nat i) = h i"
      using ph by (auto simp: page_holds_def)
    have "data_frame s r d" "d \<in> pmm_all_frames" using d(1) by (auto simp: page_at_def data_frame_def dest: used_frame)
    then have "rd8 s3 (d + of_nat i) = h i" if "i < 4096" for i
      using rd8_frame_cong [of d i s3 s] S(6) d(2) that by simp
    then show ?thesis unfolding page_holds_def using S(9) [OF d(1) ns] by blast
  qed
qed

section \<open>Releasing a frame and storing into one\<close>

lemma FreePage_data:
  assumes "pt_wf s r" "data_frame s r f"
  defines "s' \<equiv> s\<lparr>vm_pmm := FreePage f (vm_pmm s)\<rparr>"
  shows "pt_wf s' r" "TranslateInPml4 r v s' = TranslateInPml4 r v s" "tables s' r = tables s r"
    "used_frames s' = used_frames s - {f}" "rd8 s' a = rd8 s a"
proof -
  have f: "f \<in> pmm_all_frames" "f \<noteq> 0" using assms(2) by (auto simp: data_frame_def dest: used_frame)
  have inv: "pmm_inv (vm_pmm s)" using assms(1) by (simp add: pt_wf_def)
  show u: "used_frames s' = used_frames s - {f}"
    using pmm.release_frames [OF inv f(1)] by (auto simp: used_frames_def s'_def)
  have R: "rd s' u j = rd s u j" for u j by (simp add: s'_def)
  note C = root_cong_used [OF assms(1) R]
  show T: "tables s' r = tables s r" "TranslateInPml4 r v s' = TranslateInPml4 r v s" by (rule C)+
  have "tables s' r \<subseteq> used_frames s'" using assms(1,2) T u by (auto simp: pt_wf_def data_frame_def)
  then show "pt_wf s' r" using assms(1) C(1) pmm.release_inv [OF inv f] by (auto simp: pt_wf_def s'_def)
  show "rd8 s' a = rd8 s a" by (simp add: rd8_def s'_def)
qed

lemma alloc_page_none:
  assumes "pmm_inv (vm_pmm s)" "alloc_page s = (0, s1)" shows "s1 = s"
proof -
  obtain pm where a: "AllocPage (vm_pmm s) = (0, pm)" "s1 = s\<lparr>vm_pmm := pm\<rparr>"
    using assms(2) by (auto simp: alloc_page_def split: prod.splits)
  then have "pmm_frames (vm_pmm s) = {}" using pmm.alloc_zero_iff [OF assms(1)] by simp
  then show ?thesis using pmm.alloc_empty [OF assms(1)] a by simp
qed

lemma rd64_wr64_other:
  assumes "p AND 7 = 0" "q AND 7 = 0" "p \<noteq> q" shows "rd64 (wr64 p v s) q = rd64 s q"
proof -
  have a: "unat x mod 8 = 0" if "x AND 7 = 0" for x :: u64
  proof -
    have "x AND 7 = take_bit 3 x" by (simp add: take_bit_eq_mask mask_eq_exp_minus_1)
    then have "take_bit 3 x = 0" using that by simp
    then have "unat (take_bit 3 x) = 0" by simp
    then show ?thesis by (simp add: unsigned_take_bit_eq take_bit_nat_def)
  qed
  obtain c d where cd: "unat q = 8 * c" "unat p = 8 * d" using a [OF assms(1)] a [OF assms(2)] by (auto simp: mod_eq_0_iff_dvd elim!: dvdE)
  have lt: "unat q < 2 ^ 64" "unat p < 2 ^ 64" using unsigned_less [of q, where ?'a = nat] unsigned_less [of p, where ?'a = nat] by simp_all
  have ne: "c \<noteq> d" using cd assms(3) by (auto simp: word_unat_eq_iff)
  define e where "e = (if d \<le> c then c - d else 2 ^ 61 + c - d)"
  have qp: "unat (q - p) = 8 * e" using cd lt by (auto simp: unat_sub_if' e_def)
  have e: "1 \<le> e" "e < 2 ^ 61" using ne cd lt by (auto simp: e_def)
  have "\<not> unat (q + of_nat i - p) < 8" if "i < 8" for i
  proof -
    have "unat (q - p + of_nat i) = 8 * e + i"
      using e that qp by (subst unat_add_lem [THEN iffD1]) (auto simp: unat_of_nat64)
    then have "unat (q + of_nat i - p) = 8 * e + i" by (simp only: add_diff_eq diff_add_eq)
    then show ?thesis using e(1) by linarith
  qed
  then show ?thesis unfolding rd64_def by (intro arg_cong [where f = of_nat] le_val_cong) (simp add: wr64_rd8)
qed

text \<open>A store into a data frame leaves the address space as it is.\<close>
lemma write_data_frame:
  assumes wf: "pt_wf s r" and d: "data_frame s r f" and W: "writes_only s f s'"
  shows "pt_wf s' r" "TranslateInPml4 r v s' = TranslateInPml4 r v s" "data_frame s' r g = data_frame s r g"
    "page_at s' r w g = page_at s r w g"
proof -
  have "rd s' u j = rd s u j" if "u \<in> tables s r" "j < 512" for u j
    using W d that wf by (auto simp: writes_in_def data_frame_def pt_wf_def dest: used_frame)
  note R = root_cong [OF wf this]
  have u: "used_frames s' = used_frames s" and pm: "vm_pmm s' = vm_pmm s" using W by (simp_all add: writes_in_def used_frames_def)
  show "pt_wf s' r" using R(4) u pm wf by (simp add: pt_wf_def)
  show t: "TranslateInPml4 r v s' = TranslateInPml4 r v s" for v by (rule R(3))
  show df: "data_frame s' r g = data_frame s r g" for g using R(2) u by (simp add: data_frame_def)
  show "page_at s' r w g = page_at s r w g" by (simp add: page_at_def t df)
qed

lemma wr64_frame:
  assumes "f \<in> pmm_all_frames" "off + 8 \<le> 4096" shows "writes_only s f (wr64 (f + of_nat off) v s)"
  unfolding wr64_def by (rule wr_bytes_only [OF assms])

lemma frame_offset_aligned:
  assumes "f \<in> pmm_all_frames" "va AND 7 = 0"
  shows "(f + (va AND 0xFFF)) AND 7 = 0" "unat (va AND 0xFFF) + 8 \<le> 4096" "f \<noteq> 0 \<Longrightarrow> f + (va AND 0xFFF) \<noteq> 0"
proof -
  define i where "i = unat (va AND 0xFFF)"
  have i: "i < 4096" using page_offset_lt by (simp add: i_def)
  have m: "x AND 7 = take_bit 3 x" for x :: u64 by (simp add: take_bit_eq_mask mask_eq_exp_minus_1)
  have "va AND 0xFFF = take_bit 12 va" by (simp add: take_bit_eq_mask mask_eq_exp_minus_1)
  then have "take_bit 3 (va AND 0xFFF) = 0" using assms(2) by (simp add: m)
  moreover have "unat (take_bit 3 x) = unat x mod 8" for x :: u64
    by (simp only: unsigned_take_bit_eq take_bit_nat_def) simp
  ultimately have i8: "i mod 8 = 0" by (metis i_def unsigned_0)
  then show "unat (va AND 0xFFF) + 8 \<le> 4096" using i by (fold i_def) (auto elim!: dvdE simp: mod_eq_0_iff_dvd)
  have e: "f + (va AND 0xFFF) = f + of_nat i" by (simp add: i_def)
  have "lane (f + of_nat i) = 0" using frame_byte(2) [OF assms(1) i] i8 by simp
  then show "(f + (va AND 0xFFF)) AND 7 = 0" unfolding e m by (simp only: unsigned_eq_0_iff)
  show "f + (va AND 0xFFF) \<noteq> 0" if "f \<noteq> 0"
  proof
    assume "f + (va AND 0xFFF) = 0"
    then have "unat f + i = 0" using frame_byte(3) [OF assms(1) i] unfolding e by simp
    then have "unat f = 0" by simp
    then show False using that by (simp only: unsigned_eq_0_iff)
  qed
qed

section \<open>When the step succeeds\<close>

text \<open>Enough frames for a number of pages, each with three tables, and no huge page on their walks.\<close>
definition room :: "vmm \<Rightarrow> u64 \<Rightarrow> u64 list \<Rightarrow> bool" where
  "room s r vas \<longleftrightarrow> 4 * length vas \<le> card (pmm_frames (vm_pmm s)) \<and> (\<forall>va\<in>set vas. \<not> walk_huge s r va)"

lemma walk_huge_mono:
  assumes "\<And>q j. vpath (q @ [j]) \<Longrightarrow> huge_at s' r q j \<Longrightarrow> huge_at s r q j" "walk_huge s' r v"
  shows "walk_huge s r v"
  using assms(2) assms(1) [of "[]"] assms(1) [of "[pml4_idx v]"] assms(1) [of "[pml4_idx v, pdpt_idx v]"]
  by (auto simp: walk_huge_def)

lemma huge_at_cong:
  assumes "pt_wf s r" "\<And>u j. u \<in> tables s r \<Longrightarrow> j < 512 \<Longrightarrow> rd s' u j = rd s u j" "vpath (q @ [j])"
  shows "huge_at s' r q j = huge_at s r q j"
proof -
  have v: "vpath q" "j < 512" using assms(3) by (simp_all add: vpath_snoc)
  show ?thesis using root_cong(1) [OF assms(1,2) v(1)] assms(2) [OF tablesI [OF v(1)] v(2)]
    by (auto simp: huge_at_def split: option.splits)
qed

lemma room_write:
  assumes "pt_wf s r" "data_frame s r f" "writes_only s f s'" "room s r vas" shows "room s' r vas"
proof -
  have "rd s' u j = rd s u j" if "u \<in> tables s r" "j < 512" for u j
    using assms(1-3) that by (auto simp: writes_in_def data_frame_def pt_wf_def dest: used_frame)
  then have "walk_huge s' r v \<Longrightarrow> walk_huge s r v" for v
    using huge_at_cong [OF assms(1)] walk_huge_mono [of s' r s v] by blast
  then show ?thesis using assms(3,4) by (auto simp: room_def writes_in_def)
qed

lemma alloc_page_room:
  assumes "pt_wf s r" "room s r (va # vas)" "alloc_page s = (f, s1)" shows "f \<noteq> 0"
proof
  assume "f = 0"
  then have "pmm_frames (vm_pmm s) = {}" using assms(1,3) pmm.alloc_zero_iff [of "vm_pmm s"]
    by (auto simp: alloc_page_def pt_wf_def split: prod.splits)
  then show False using assms(2) by (simp add: room_def)
qed

lemma map_data_page_room:
  assumes wf: "pt_wf s r" and R: "room s r (va # vas)" and A: "alloc_page s = (f, s1)"
    and W: "writes_in s1 (insert f F) s2" and M: "MapPageInto r va f flags s2 = (b, s3)"
    and F: "F \<subseteq> Collect (data_frame s r)"
  shows "b" "room s3 r vas"
proof -
  have f0: "f \<noteq> 0" by (rule alloc_page_room [OF wf R A])
  have inv: "pmm_inv (vm_pmm s)" using wf by (simp add: pt_wf_def)
  have n: "4 + 4 * length vas \<le> card (pmm_frames (vm_pmm s))" and h: "\<not> walk_huge s r va"
    using R by (simp_all add: room_def)
  note P = alloc_page_frame [OF inv A f0] and B = alloc_write [OF wf A f0 W F]
  have sub: "f \<in> pmm_frames (vm_pmm s)" using P(1,2) f0 by (auto simp: used_frames_def)
  have c: "card (pmm_frames (vm_pmm s)) = card (pmm_frames (vm_pmm s2)) + 1"
    using W P(7) sub n by (simp add: writes_in_def card_Diff_singleton)
  have hg: "walk_huge s2 r v \<Longrightarrow> walk_huge s r v" for v
    using huge_at_cong [OF wf B(8)] walk_huge_mono [of s2 r s v] by blast
  have "3 \<le> card (pmm_frames (vm_pmm s2))" using n c by simp
  note V = MapPageInto_avail [OF B(1) this _ M]
  show "b" using V(1) hg h by blast
  have "\<not> walk_huge s3 r w" if "w \<in> set vas" for w
    using walk_huge_mono [OF V(3)] hg h R that by (fastforce simp: room_def)
  moreover have "4 * length vas \<le> card (pmm_frames (vm_pmm s3))" using V(2) hg h n c by fastforce
  ultimately show "room s3 r vas" by (simp add: room_def)
qed

end
