(* ===== verification/ThreadQueue.thy ===== *)
theory ThreadQueue
  imports NtPrelude
begin

text \<open>Thread and process control blocks (kernel/include/process.h) and the ready queues of
  kernel/ps/scheduler.cpp: three circular doubly-linked lists threaded through the thread
  objects, each with a sentinel.  Pointers are node identifiers (a sentinel or a thread), the
  store maps them to their KThread, and None is the null pointer.  The queue of each priority
  that the links represent is the locale ready_queues.\<close>

section \<open>Control blocks (process.h)\<close>

datatype ThreadState = READY | RUNNING | BLOCKED | TERMINATED

definition THREAD_PRIORITY_LOW :: u32 where "THREAD_PRIORITY_LOW = 0"
definition THREAD_PRIORITY_NORMAL :: u32 where "THREAD_PRIORITY_NORMAL = 1"
definition THREAD_PRIORITY_HIGH :: u32 where "THREAD_PRIORITY_HIGH = 2"
definition THREAD_PRIORITY_COUNT :: u32 where "THREAD_PRIORITY_COUNT = 3"

datatype node = Sen nat | Thr nat

record KThread =
  KernelStackPtr :: u64
  Tid :: u32
  State :: ThreadState
  QuantumLeft :: u32
  TFlags :: u32
  Priority :: u32
  Process :: "nat option"
  KernelStackBase :: u64
  KernelStackSize :: u64
  EntryFn :: u64
  EntryArg :: u64
  TName :: cstr
  Next :: "node option"
  Prev :: "node option"
  WaitNext :: "node option"
  SleepUntil :: u64
  SleepNext :: "node option"
  UserArg :: u64
  ExceptionHandler :: u64
  TebVa :: u64

record KProcess =
  Pid :: u32
  PFlags :: u32
  Cr3 :: u64
  UserHeapCursor :: u64
  PName :: cstr
  ExitStatus :: int
  UserFreeList :: "(u64 \<times> u32) list"
  thread_count :: u32
  exited :: bool
  exit_waiters :: "node option"
  PebVa :: u64
  NextTebVa :: u64
  ImageBase :: u64

text \<open>The static variables of scheduler.cpp and process.cpp, the stores of the objects they point
  to, the tick counter of the PIT and the processor registers a switch writes.\<close>
record ksys =
  thr :: "node \<Rightarrow> KThread"
  prc :: "nat \<Rightarrow> KProcess"
  s_current :: "node option"
  s_active :: bool
  s_quantum :: u32
  s_sleep_head :: "node option"
  s_proc_reg :: "nat list"
  s_thread_reg :: "node list"
  pit_ticks :: u64
  cpu_cr3 :: u64
  cpu_rsp0 :: u64
  cpu_gs :: u64

text \<open>An assignment through a thread pointer.\<close>
definition upd :: "node \<Rightarrow> (KThread \<Rightarrow> KThread) \<Rightarrow> 'a ksys_scheme \<Rightarrow> 'a ksys_scheme" where
  "upd n f s = s\<lparr>thr := (thr s)(n := f (thr s n))\<rparr>"

lemma upd_sel [simp]:
  "thr (upd n f s) m = (if m = n then f (thr s n) else thr s m)"
  "prc (upd n f s) = prc s" "s_current (upd n f s) = s_current s" "s_active (upd n f s) = s_active s"
  "s_quantum (upd n f s) = s_quantum s" "s_sleep_head (upd n f s) = s_sleep_head s"
  "s_proc_reg (upd n f s) = s_proc_reg s" "s_thread_reg (upd n f s) = s_thread_reg s"
  "pit_ticks (upd n f s) = pit_ticks s" "cpu_cr3 (upd n f s) = cpu_cr3 s"
  "cpu_rsp0 (upd n f s) = cpu_rsp0 s" "cpu_gs (upd n f s) = cpu_gs s" "more (upd n f s) = more s"
  by (simp_all add: upd_def)

section \<open>The queue operations\<close>

definition ClampPri :: "u32 \<Rightarrow> u32" where
  "ClampPri p = (if p < THREAD_PRIORITY_COUNT then p else THREAD_PRIORITY_NORMAL)"

definition queue_pri :: "'a ksys_scheme \<Rightarrow> node \<Rightarrow> nat" where
  "queue_pri s t = unat (ClampPri (Priority (thr s t)))"

text \<open>A sentinel's Prev is never null once Init has run; the None branch is the dereference of a
  null pointer.\<close>
definition QueuePushBack :: "node \<Rightarrow> 'a ksys_scheme \<Rightarrow> 'a ksys_scheme" where
  "QueuePushBack t s =
    (let sen = Sen (queue_pri s t);
         s = upd t (\<lambda>k. k\<lparr>Next := Some sen\<rparr>) s;
         s = upd t (\<lambda>k. k\<lparr>Prev := Prev (thr s sen)\<rparr>) s
     in case Prev (thr s sen) of
          None \<Rightarrow> s
        | Some l \<Rightarrow> upd sen (\<lambda>k. k\<lparr>Prev := Some t\<rparr>) (upd l (\<lambda>k. k\<lparr>Next := Some t\<rparr>) s))"

definition QueueRemove :: "node \<Rightarrow> 'a ksys_scheme \<Rightarrow> 'a ksys_scheme" where
  "QueueRemove t s =
    (case (Next (thr s t), Prev (thr s t)) of
       (Some n, Some p) \<Rightarrow>
         (let s = upd p (\<lambda>k. k\<lparr>Next := Some n\<rparr>) s;
              s = upd n (\<lambda>k. k\<lparr>Prev := Some p\<rparr>) s
          in upd t (\<lambda>k. k\<lparr>Next := None, Prev := None\<rparr>) s)
     | _ \<Rightarrow> s)"

text \<open>QueuePop scans the priorities from high to low.\<close>
fun QueuePop_from :: "nat \<Rightarrow> 'a ksys_scheme \<Rightarrow> node option \<times> 'a ksys_scheme" where
  "QueuePop_from 0 s = (None, s)"
| "QueuePop_from (Suc pri) s =
    (if Next (thr s (Sen pri)) \<noteq> Some (Sen pri)
     then (case Next (thr s (Sen pri)) of
             None \<Rightarrow> (None, s)
           | Some t \<Rightarrow> (Some t, QueueRemove t s))
     else QueuePop_from pri s)"

definition QueuePop :: "'a ksys_scheme \<Rightarrow> node option \<times> 'a ksys_scheme" where
  "QueuePop s = QueuePop_from (unat THREAD_PRIORITY_COUNT) s"

definition Sched_Init :: "'a ksys_scheme \<Rightarrow> 'a ksys_scheme" where
  "Sched_Init s = fold (\<lambda>i s. upd (Sen i) (\<lambda>k. k\<lparr>Next := Some (Sen i), Prev := Some (Sen i)\<rparr>) s)
     [0..<unat THREAD_PRIORITY_COUNT] s"

section \<open>The interface of the ready queues\<close>

text \<open>What the scheduler relies on: the operations act on one list of threads for each priority.\<close>

definition queued :: "(nat \<Rightarrow> nat list) \<Rightarrow> nat set" where
  "queued qs = (\<Union>p\<in>{..<3}. set (qs p))"

lemma lt_3: "(q :: nat) < 3 \<longleftrightarrow> q = 0 \<or> q = 1 \<or> q = 2"
  by auto

lemma queued_Un: "queued qs = set (qs 0) \<union> set (qs 1) \<union> set (qs 2)"
  by (auto simp: queued_def lt_3)

locale ready_queues =
  fixes push_back :: "node \<Rightarrow> 's \<Rightarrow> 's"
    and remove :: "node \<Rightarrow> 's \<Rightarrow> 's"
    and pop :: "'s \<Rightarrow> node option \<times> 's"
    and pri :: "'s \<Rightarrow> node \<Rightarrow> nat"
    and represents :: "'s \<Rightarrow> (nat \<Rightarrow> nat list) \<Rightarrow> bool"
  assumes pri_lt: "pri s n < 3"
    and push_back_repr: "represents s qs \<Longrightarrow> t \<notin> queued qs \<Longrightarrow>
      represents (push_back (Thr t) s) (qs(pri s (Thr t) := qs (pri s (Thr t)) @ [t]))"
    and remove_repr: "represents s qs \<Longrightarrow> represents (remove (Thr t) s) (\<lambda>p. removeAll t (qs p))"
    and pop_empty: "represents s qs \<Longrightarrow> queued qs = {} \<Longrightarrow> pop s = (None, s)"
    and pop_cons: "represents s qs \<Longrightarrow> p < 3 \<Longrightarrow> qs p = t # ts \<Longrightarrow>
      \<forall>q. p < q \<and> q < 3 \<longrightarrow> qs q = [] \<Longrightarrow>
      \<exists>s'. pop s = (Some (Thr t), s') \<and> represents s' (qs(p := ts))"
    and represents_distinct: "represents s qs \<Longrightarrow> p < 3 \<Longrightarrow> distinct (qs p)"
    and represents_disjoint: "represents s qs \<Longrightarrow> p < 3 \<Longrightarrow> q < 3 \<Longrightarrow> p \<noteq> q \<Longrightarrow> set (qs p) \<inter> set (qs q) = {}"
begin

text \<open>The queue that is served: the highest one that is not empty.\<close>
lemma top_queue:
  assumes "represents s qs" "queued qs \<noteq> {}"
  obtains p t ts where "p < 3" "qs p = t # ts" "\<forall>q. p < q \<and> q < 3 \<longrightarrow> qs q = []"
proof -
  consider "qs 2 \<noteq> []" | "qs 2 = []" "qs 1 \<noteq> []" | "qs 2 = []" "qs 1 = []" "qs 0 \<noteq> []"
    using assms(2) unfolding queued_Un by fastforce
  then show thesis
  proof cases
    case 1
    have "\<forall>q. 2 < q \<and> q < 3 \<longrightarrow> qs q = []" by auto
    then show thesis using that [of 2] 1 by (cases "qs 2") auto
  next
    case 2
    have "\<forall>q. 1 < q \<and> q < 3 \<longrightarrow> qs q = []" using 2(1) by (auto simp: lt_3)
    then show thesis using that [of 1] 2 by (cases "qs 1") auto
  next
    case 3
    have "\<forall>q. 0 < q \<and> q < 3 \<longrightarrow> qs q = []" using 3 by (auto simp: lt_3)
    then show thesis using that [of 0] 3 by (cases "qs 0") auto
  qed
qed

lemma pop_Some:
  assumes "represents s qs" "queued qs \<noteq> {}"
  obtains p t ts s' where "p < 3" "qs p = t # ts" "\<forall>q. p < q \<and> q < 3 \<longrightarrow> qs q = []"
    "pop s = (Some (Thr t), s')" "represents s' (qs(p := ts))"
proof -
  obtain p t ts where p: "p < 3" "qs p = t # ts" "\<forall>q. p < q \<and> q < 3 \<longrightarrow> qs q = []"
    by (rule top_queue [OF assms])
  obtain s' where "pop s = (Some (Thr t), s')" "represents s' (qs(p := ts))"
    using pop_cons [OF assms(1) p] by blast
  then show thesis using that p by blast
qed

lemma popped_not_queued:
  assumes "represents s qs" "p < 3" "qs p = t # ts"
  shows "t \<notin> queued (qs(p := ts))"
  using represents_distinct [OF assms(1,2)] represents_disjoint [OF assms(1,2)] assms(2,3)
  by (fastforce simp: queued_def split: if_splits)

text \<open>Putting the popped thread back at once rotates its queue.\<close>
lemma pop_push_rotates:
  assumes "represents s qs" "p < 3" "qs p = t # ts" "\<forall>q. p < q \<and> q < 3 \<longrightarrow> qs q = []"
    "pop s = (Some (Thr t), s')" "pri s' (Thr t) = p"
  shows "represents (push_back (Thr t) s') (qs(p := ts @ [t]))"
proof -
  obtain s'' where "pop s = (Some (Thr t), s'')" "represents s'' (qs(p := ts))"
    using pop_cons [OF assms(1-4)] by blast
  then have r: "represents s' (qs(p := ts))" using assms(5) by simp
  show ?thesis using push_back_repr [OF r popped_not_queued [OF assms(1-3)]] assms(6) by simp
qed

end

section \<open>The links represent lists\<close>

text \<open>links s a xs z: from node a through the threads xs to node z, Next forwards and Prev back.\<close>
fun links :: "'a ksys_scheme \<Rightarrow> node \<Rightarrow> nat list \<Rightarrow> node \<Rightarrow> bool" where
  "links s a [] z \<longleftrightarrow> Next (thr s a) = Some z \<and> Prev (thr s z) = Some a"
| "links s a (x # xs) z \<longleftrightarrow> Next (thr s a) = Some (Thr x) \<and> Prev (thr s (Thr x)) = Some a \<and> links s (Thr x) xs z"

definition repr_queues :: "'a ksys_scheme \<Rightarrow> (nat \<Rightarrow> nat list) \<Rightarrow> bool" where
  "repr_queues s qs \<longleftrightarrow> (\<forall>p<3. links s (Sen p) (qs p) (Sen p) \<and> distinct (qs p))
     \<and> (\<forall>p<3. \<forall>q<3. p \<noteq> q \<longrightarrow> set (qs p) \<inter> set (qs q) = {})
     \<and> (\<forall>t. t \<notin> queued qs \<longrightarrow> Next (thr s (Thr t)) = None \<and> Prev (thr s (Thr t)) = None)"

lemma links_append:
  "links s a (xs @ y # ys) z \<longleftrightarrow> links s a xs (Thr y) \<and> links s (Thr y) ys z"
  by (induction xs arbitrary: a) auto

lemma links_cong:
  assumes "\<And>n. n \<in> insert a (Thr ` set xs) \<Longrightarrow> Next (thr s' n) = Next (thr s n)"
    and "\<And>n. n \<in> insert z (Thr ` set xs) \<Longrightarrow> Prev (thr s' n) = Prev (thr s n)"
  shows "links s' a xs z = links s a xs z"
  using assms by (induction xs arbitrary: a) auto

text \<open>The last node of a chain, which is the Prev of its end.\<close>
definition last_node :: "node \<Rightarrow> nat list \<Rightarrow> node" where
  "last_node a xs = (if xs = [] then a else Thr (last xs))"

lemma links_last: "links s a xs z \<Longrightarrow> Prev (thr s z) = Some (last_node a xs) \<and> Next (thr s (last_node a xs)) = Some z"
  by (induction xs arbitrary: a) (auto simp: last_node_def split: if_splits)

lemma links_first: "links s a xs z \<Longrightarrow> Next (thr s a) = Some (case xs of [] \<Rightarrow> z | x # _ \<Rightarrow> Thr x)"
  by (cases xs) auto

text \<open>Redirecting the end of a chain.\<close>
lemma links_snoc:
  assumes "links s a xs z" "t \<notin> set xs" "distinct xs" "a \<noteq> Thr t" "a \<notin> Thr ` set xs" "z \<notin> Thr ` set xs"
    and "\<And>n. n \<noteq> last_node a xs \<Longrightarrow> n \<noteq> Thr t \<Longrightarrow> Next (thr s' n) = Next (thr s n)"
    and "Next (thr s' (last_node a xs)) = Some (Thr t)" "Prev (thr s' (Thr t)) = Some (last_node a xs)"
    and "\<And>n. n \<noteq> z \<Longrightarrow> n \<noteq> Thr t \<Longrightarrow> Prev (thr s' n) = Prev (thr s n)"
    and "Next (thr s' (Thr t)) = Some z" "Prev (thr s' z) = Some (Thr t)"
  shows "links s' a (xs @ [t]) z"
proof (cases xs rule: rev_cases)
  case Nil
  then show ?thesis using assms(8,9,11,12) by (simp add: last_node_def)
next
  case (snoc ys y)
  have l: "last_node a xs = Thr y" by (simp add: snoc last_node_def)
  have "links s a ys (Thr y)" using assms(1) by (simp add: snoc links_append)
  moreover have "links s' a ys (Thr y) = links s a ys (Thr y)"
  proof (rule links_cong)
    fix n
    show "Next (thr s' n) = Next (thr s n)" if "n \<in> insert a (Thr ` set ys)"
      by (rule assms(7)) (use that assms(2-5) in \<open>auto simp: l [unfolded snoc] snoc\<close>)
    show "Prev (thr s' n) = Prev (thr s n)" if "n \<in> insert (Thr y) (Thr ` set ys)"
      by (rule assms(10)) (use that assms(2,3,6) in \<open>auto simp: snoc\<close>)
  qed
  ultimately show ?thesis using assms(8,9,11,12) by (simp add: snoc links_append last_node_def)
qed

section \<open>The operations implement the interface\<close>

text \<open>The queue operations only write the links.\<close>
lemma QueuePushBack_fields [simp]:
  "State (thr (QueuePushBack t s) n) = State (thr s n)" "Priority (thr (QueuePushBack t s) n) = Priority (thr s n)"
  "Process (thr (QueuePushBack t s) n) = Process (thr s n)" "WaitNext (thr (QueuePushBack t s) n) = WaitNext (thr s n)"
  "SleepNext (thr (QueuePushBack t s) n) = SleepNext (thr s n)" "SleepUntil (thr (QueuePushBack t s) n) = SleepUntil (thr s n)"
  "KernelStackBase (thr (QueuePushBack t s) n) = KernelStackBase (thr s n)"
  "KernelStackSize (thr (QueuePushBack t s) n) = KernelStackSize (thr s n)" "TebVa (thr (QueuePushBack t s) n) = TebVa (thr s n)"
  "prc (QueuePushBack t s) = prc s" "s_current (QueuePushBack t s) = s_current s" "s_active (QueuePushBack t s) = s_active s"
  "s_quantum (QueuePushBack t s) = s_quantum s" "s_sleep_head (QueuePushBack t s) = s_sleep_head s"
  "s_proc_reg (QueuePushBack t s) = s_proc_reg s" "s_thread_reg (QueuePushBack t s) = s_thread_reg s"
  "pit_ticks (QueuePushBack t s) = pit_ticks s" "cpu_cr3 (QueuePushBack t s) = cpu_cr3 s"
  "cpu_rsp0 (QueuePushBack t s) = cpu_rsp0 s" "cpu_gs (QueuePushBack t s) = cpu_gs s"
  "ksys.more (QueuePushBack t s) = ksys.more s"
  by (simp_all add: QueuePushBack_def Let_def split: option.split)

lemma QueueRemove_fields [simp]:
  "State (thr (QueueRemove t s) n) = State (thr s n)" "Priority (thr (QueueRemove t s) n) = Priority (thr s n)"
  "Process (thr (QueueRemove t s) n) = Process (thr s n)" "WaitNext (thr (QueueRemove t s) n) = WaitNext (thr s n)"
  "SleepNext (thr (QueueRemove t s) n) = SleepNext (thr s n)" "SleepUntil (thr (QueueRemove t s) n) = SleepUntil (thr s n)"
  "KernelStackBase (thr (QueueRemove t s) n) = KernelStackBase (thr s n)"
  "KernelStackSize (thr (QueueRemove t s) n) = KernelStackSize (thr s n)" "TebVa (thr (QueueRemove t s) n) = TebVa (thr s n)"
  "prc (QueueRemove t s) = prc s" "s_current (QueueRemove t s) = s_current s" "s_active (QueueRemove t s) = s_active s"
  "s_quantum (QueueRemove t s) = s_quantum s" "s_sleep_head (QueueRemove t s) = s_sleep_head s"
  "s_proc_reg (QueueRemove t s) = s_proc_reg s" "s_thread_reg (QueueRemove t s) = s_thread_reg s"
  "pit_ticks (QueueRemove t s) = pit_ticks s" "cpu_cr3 (QueueRemove t s) = cpu_cr3 s"
  "cpu_rsp0 (QueueRemove t s) = cpu_rsp0 s" "cpu_gs (QueueRemove t s) = cpu_gs s"
  "ksys.more (QueueRemove t s) = ksys.more s"
  by (simp_all add: QueueRemove_def Let_def split: option.split)

lemma QueuePop_from_cases: "QueuePop_from k s = (None, s) \<or> (\<exists>t. QueuePop_from k s = (Some t, QueueRemove t s))"
  by (induction k) (auto split: option.splits)

lemma ClampPri_lt: "unat (ClampPri p) < 3"
  by (auto simp: ClampPri_def THREAD_PRIORITY_COUNT_def THREAD_PRIORITY_NORMAL_def word_less_nat_alt)

lemma queue_pri_lt: "queue_pri s t < 3"
  by (simp add: queue_pri_def ClampPri_lt)

lemma repr_cong:
  assumes "\<And>n. Next (thr s' n) = Next (thr s n)" "\<And>n. Prev (thr s' n) = Prev (thr s n)"
  shows "repr_queues s' qs = repr_queues s qs"
proof -
  have "links s' a xs z = links s a xs z" for a xs z by (rule links_cong) (simp_all add: assms)
  then show ?thesis by (simp add: repr_queues_def assms)
qed

lemma not_queued: "t \<notin> queued qs \<Longrightarrow> p < 3 \<Longrightarrow> t \<notin> set (qs p)"
  by (auto simp: queued_def)

lemma push_repr:
  assumes r: "repr_queues s qs" and t: "t \<notin> queued qs"
  shows "repr_queues (QueuePushBack (Thr t) s) (qs(queue_pri s (Thr t) := qs (queue_pri s (Thr t)) @ [t]))"
proof -
  let ?p = "queue_pri s (Thr t)" and ?s' = "QueuePushBack (Thr t) s"
  let ?l = "last_node (Sen ?p) (qs ?p)"
  have p: "?p < 3" by (rule queue_pri_lt)
  have L: "links s (Sen ?p) (qs ?p) (Sen ?p)" "distinct (qs ?p)" using r p by (auto simp: repr_queues_def)
  have ts: "t \<notin> set (qs ?p)" using t p by (rule not_queued)
  have lt: "?l \<noteq> Thr t" using ts by (metis last_in_set last_node_def node.distinct(1) node.inject(2))
  have nx: "Next (thr ?s' n) = (if n = ?l then Some (Thr t) else if n = Thr t then Some (Sen ?p) else Next (thr s n))"
    and pv: "Prev (thr ?s' n) = (if n = Sen ?p then Some (Thr t) else if n = Thr t then Some ?l else Prev (thr s n))" for n
    using links_last [OF L(1)] lt by (auto simp: QueuePushBack_def Let_def)
  have new: "links ?s' (Sen ?p) (qs ?p @ [t]) (Sen ?p)"
    by (rule links_snoc [OF L(1) ts L(2)]) (use lt in \<open>auto simp: nx pv\<close>)
  have lq: "last_node (Sen ?p) (qs ?p) \<noteq> Sen q" if "q \<noteq> ?p" for q
    using that by (auto simp: last_node_def)
  have other: "links ?s' (Sen q) (qs q) (Sen q)" if "q < 3" "q \<noteq> ?p" for q
  proof -
    have "links ?s' (Sen q) (qs q) (Sen q) = links s (Sen q) (qs q) (Sen q)"
    proof (rule links_cong)
      fix n
      have d: "set (qs q) \<inter> set (qs ?p) = {}" using r that p by (auto simp: repr_queues_def)
      have tq: "t \<notin> set (qs q)" using t that(1) by (rule not_queued)
      show "Next (thr ?s' n) = Next (thr s n)" if "n \<in> insert (Sen q) (Thr ` set (qs q))"
        using that d tq lq [OF \<open>q \<noteq> ?p\<close>] by (auto simp: nx last_node_def split: if_splits)
      show "Prev (thr ?s' n) = Prev (thr s n)" if "n \<in> insert (Sen q) (Thr ` set (qs q))"
        using that tq \<open>q \<noteq> ?p\<close> by (auto simp: pv)
    qed
    then show ?thesis using r that by (simp add: repr_queues_def)
  qed
  have qd: "queued (qs(?p := qs ?p @ [t])) = insert t (queued qs)"
    using p by (auto simp: queued_def split: if_splits)
  have free: "Next (thr ?s' (Thr u)) = None \<and> Prev (thr ?s' (Thr u)) = None" if "u \<notin> insert t (queued qs)" for u
  proof -
    have "Thr u \<noteq> ?l" using that not_queued [of u qs ?p] p by (auto simp: last_node_def)
    then show ?thesis using that r by (auto simp: nx pv repr_queues_def)
  qed
  have td: "t \<notin> set (qs q)" if "q < 3" for q using t that by (rule not_queued)
  show ?thesis
    unfolding repr_queues_def qd
  proof (intro conjI allI impI)
    let ?qs = "qs(?p := qs ?p @ [t])"
    fix q assume q: "q < (3::nat)"
    show "links ?s' (Sen q) (?qs q) (Sen q)" using new other [OF q] by simp
    show "distinct (?qs q)" using r q ts L(2) by (simp add: repr_queues_def)
    show "set (?qs q) \<inter> set (?qs q') = {}" if "q' < 3" "q \<noteq> q'" for q'
      using r q that td [OF q] td [OF that(1)] by (auto simp: repr_queues_def)
  next
    fix u assume "u \<notin> insert t (queued qs)"
    then show "Next (thr ?s' (Thr u)) = None" "Prev (thr ?s' (Thr u)) = None" using free by auto
  qed
qed

lemma remove_repr:
  assumes r: "repr_queues s qs"
  shows "repr_queues (QueueRemove (Thr t) s) (\<lambda>p. removeAll t (qs p))"
proof (cases "t \<in> queued qs")
  case False
  then have "Next (thr s (Thr t)) = None" using r by (simp add: repr_queues_def)
  then have e: "QueueRemove (Thr t) s = s" by (simp add: QueueRemove_def)
  have "removeAll t (qs p) = qs p" if "p < 3" for p
    using not_queued [OF False that] by (rule removeAll_id)
  moreover have "queued (\<lambda>p. removeAll t (qs p)) = queued qs" using calculation by (auto simp: queued_def)
  ultimately show ?thesis using r by (auto simp: e repr_queues_def)
next
  case True
  then obtain p where p: "p < 3" "t \<in> set (qs p)" by (auto simp: queued_def)
  have L: "links s (Sen p) (qs p) (Sen p)" "distinct (qs p)" using r p by (auto simp: repr_queues_def)
  obtain ys zs where q: "qs p = ys @ t # zs" using p(2) by (meson split_list)
  have d: "t \<notin> set ys" "t \<notin> set zs" "distinct ys" "distinct zs" "set ys \<inter> set zs = {}" using L(2) by (auto simp: q)
  have L1: "links s (Sen p) ys (Thr t)" and L2: "links s (Thr t) zs (Sen p)" using L(1) by (auto simp: q links_append)
  let ?b = "last_node (Sen p) ys" and ?a = "case zs of [] \<Rightarrow> Sen p | z # _ \<Rightarrow> Thr z"
  have nt: "Next (thr s (Thr t)) = Some ?a" "Prev (thr s (Thr t)) = Some ?b"
    using links_first [OF L2] links_last [OF L1] by auto
  let ?s' = "QueueRemove (Thr t) s"
  have lz: "ys \<noteq> [] \<Longrightarrow> last ys \<notin> set zs" using d(5) last_in_set [of ys] by blast
  have ba: "?b \<noteq> Thr t" "?a \<noteq> Thr t"
    using d by (auto simp: last_node_def split: list.splits)
  have nx: "Next (thr ?s' n) = (if n = Thr t then None else if n = ?b then Some ?a else Next (thr s n))"
    and pv: "Prev (thr ?s' n) = (if n = Thr t then None else if n = ?a then Some ?b else Prev (thr s n))" for n
    using nt ba by (auto simp: QueueRemove_def Let_def)
  have ra: "removeAll t (qs p) = ys @ zs" using d by (simp add: q)
  have new: "links ?s' (Sen p) (ys @ zs) (Sen p)"
  proof (cases zs)
    case Nil
    show ?thesis
    proof (cases ys rule: rev_cases)
      case (snoc xs x)
      have "links ?s' (Sen p) xs (Thr x) = links s (Sen p) xs (Thr x)"
        by (rule links_cong) (use d Nil snoc in \<open>auto simp: nx pv last_node_def\<close>)
      then show ?thesis using L1 Nil snoc ba by (simp add: links_append nx pv last_node_def)
    qed (use Nil in \<open>simp add: nx pv last_node_def\<close>)
  next
    case (Cons z zs')
    have "links ?s' (Thr z) zs' (Sen p) = links s (Thr z) zs' (Sen p)"
      by (rule links_cong) (use d Cons lz in \<open>auto simp: nx pv last_node_def split: if_splits\<close>)
    moreover have "links ?s' (Sen p) ys (Thr z)"
    proof (cases ys rule: rev_cases)
      case (snoc xs x)
      have "links ?s' (Sen p) xs (Thr x) = links s (Sen p) xs (Thr x)"
        by (rule links_cong) (use d Cons snoc in \<open>auto simp: nx pv last_node_def\<close>)
      then show ?thesis using L1 Cons snoc ba d by (auto simp: links_append nx pv last_node_def)
    qed (use Cons ba in \<open>simp add: nx pv last_node_def\<close>)
    ultimately show ?thesis using L2 Cons by (simp add: links_append)
  qed
  have oth: "removeAll t (qs q) = qs q" "links ?s' (Sen q) (qs q) (Sen q)" if "q < 3" "q \<noteq> p" for q
  proof -
    have dj: "set (qs q) \<inter> set (qs p) = {}" using r that p by (auto simp: repr_queues_def)
    then have tq: "t \<notin> set (qs q)" using p(2) by blast
    then show "removeAll t (qs q) = qs q" by (rule removeAll_id)
    have "links ?s' (Sen q) (qs q) (Sen q) = links s (Sen q) (qs q) (Sen q)"
    proof (rule links_cong)
      fix n assume n: "n \<in> insert (Sen q) (Thr ` set (qs q))"
      have "n \<noteq> Thr t" "n \<noteq> ?b" "n \<noteq> ?a"
        using n tq dj \<open>q \<noteq> p\<close> last_in_set [of ys] by (auto simp: q last_node_def split: list.splits if_splits)
      then show "Next (thr ?s' n) = Next (thr s n)" "Prev (thr ?s' n) = Prev (thr s n)" by (simp_all add: nx pv)
    qed
    then show "links ?s' (Sen q) (qs q) (Sen q)" using r that by (simp add: repr_queues_def)
  qed
  have qd: "queued (\<lambda>p. removeAll t (qs p)) = queued qs - {t}" by (auto simp: queued_def)
  have free: "Next (thr ?s' (Thr u)) = None \<and> Prev (thr ?s' (Thr u)) = None" if "u \<notin> queued qs - {t}" for u
  proof (cases "u = t")
    case False
    then have u: "u \<notin> queued qs" using that by simp
    then have "u \<notin> set ys" "u \<notin> set zs" using not_queued [OF u p(1)] by (auto simp: q)
    then have "Thr u \<noteq> ?b" "Thr u \<noteq> ?a" using last_in_set [of ys] by (auto simp: last_node_def split: list.splits)
    then show ?thesis using False u r by (auto simp: nx pv repr_queues_def)
  qed (simp add: nx pv)
  show ?thesis
    unfolding repr_queues_def qd
  proof (intro conjI allI impI)
    fix q assume q3: "q < (3::nat)"
    show "links ?s' (Sen q) (removeAll t (qs q)) (Sen q)" using new oth [OF q3] ra by (cases "q = p") auto
    show "distinct (removeAll t (qs q))" using r q3 by (simp add: repr_queues_def distinct_removeAll)
    show "set (removeAll t (qs q)) \<inter> set (removeAll t (qs q')) = {}" if "q' < 3" "q \<noteq> q'" for q'
      using r q3 that by (auto simp: repr_queues_def)
  next
    fix u assume "u \<notin> queued qs - {t}"
    then show "Next (thr ?s' (Thr u)) = None" "Prev (thr ?s' (Thr u)) = None" using free by auto
  qed
qed

lemma pop_from_high:
  assumes r: "repr_queues s qs" and p: "p < k" "k \<le> 3" "qs p = t # ts" "\<forall>q. p < q \<and> q < k \<longrightarrow> qs q = []"
  shows "QueuePop_from k s = (Some (Thr t), QueueRemove (Thr t) s)"
  using p
proof (induction k)
  case (Suc k)
  have first: "Next (thr s (Sen k)) = Some (case qs k of [] \<Rightarrow> Sen k | x # _ \<Rightarrow> Thr x)"
    using r Suc.prems(2) links_first [of s "Sen k" "qs k" "Sen k"] by (simp add: repr_queues_def)
  show ?case
  proof (cases "p = k")
    case True
    then show ?thesis using first Suc.prems(3) by simp
  next
    case False
    then have "qs k = []" using Suc.prems by simp
    then show ?thesis using first Suc False by simp
  qed
qed simp

lemma pop_from_none:
  assumes r: "repr_queues s qs" and "k \<le> 3" "\<forall>q<k. qs q = []"
  shows "QueuePop_from k s = (None, s)"
  using assms(2,3)
proof (induction k)
  case (Suc k)
  have k: "qs k = []" "k < 3" using Suc.prems by auto
  have "Next (thr s (Sen k)) = Some (Sen k)"
  proof -
    have "links s (Sen k) (qs k) (Sen k)" using r k(2) by (simp add: repr_queues_def)
    then show ?thesis using k(1) by simp
  qed
  then show ?case using Suc by simp
qed simp

lemma count_3: "unat THREAD_PRIORITY_COUNT = 3" by (simp add: THREAD_PRIORITY_COUNT_def)

interpretation rq: ready_queues QueuePushBack QueueRemove QueuePop queue_pri repr_queues
proof unfold_locales
  fix s :: "'a ksys_scheme" and qs :: "nat \<Rightarrow> nat list" and n :: node and t p q :: nat and ts
  show "queue_pri s n < 3" by (rule queue_pri_lt)
  assume r: "repr_queues s qs"
  show "repr_queues (QueuePushBack (Thr t) s) (qs(queue_pri s (Thr t) := qs (queue_pri s (Thr t)) @ [t]))"
    if "t \<notin> queued qs" using push_repr [OF r that] .
  show "repr_queues (QueueRemove (Thr t) s) (\<lambda>p. removeAll t (qs p))" by (rule remove_repr [OF r])
  show "QueuePop s = (None, s)" if "queued qs = {}"
    unfolding QueuePop_def count_3 by (rule pop_from_none [OF r]) (use that in \<open>auto simp: queued_def\<close>)
  assume p: "p < 3"
  show "distinct (qs p)" using r p by (simp add: repr_queues_def)
  show "set (qs p) \<inter> set (qs q) = {}" if "q < 3" "p \<noteq> q" using r p that by (simp add: repr_queues_def)
  assume c: "qs p = t # ts" "\<forall>q. p < q \<and> q < 3 \<longrightarrow> qs q = []"
  have e: "removeAll t (qs q) = (qs(p := ts)) q" if "q < 3" for q
  proof (cases "q = p")
    case True
    have "t \<notin> set ts" using r p c(1) unfolding repr_queues_def by (metis distinct.simps(2))
    then show ?thesis using True c(1) by simp
  next
    case False
    have "set (qs q) \<inter> set (qs p) = {}" using r p that False by (simp add: repr_queues_def)
    then have "t \<notin> set (qs q)" using c(1) by auto
    then show ?thesis using False by simp
  qed
  have "repr_queues (QueueRemove (Thr t) s) (qs(p := ts))"
  proof -
    have "queued (\<lambda>p. removeAll t (qs p)) = queued (qs(p := ts))"
      using e by (auto simp: queued_def simp del: set_removeAll fun_upd_apply)
    then show ?thesis using remove_repr [OF r, of t] unfolding repr_queues_def using e by simp
  qed
  then show "\<exists>s'. QueuePop s = (Some (Thr t), s') \<and> repr_queues s' (qs(p := ts))"
    unfolding QueuePop_def count_3 using pop_from_high [OF r p order_refl c] by blast
qed

lemma Sched_Init_repr:
  assumes "\<And>t. Next (thr s (Thr t)) = None \<and> Prev (thr s (Thr t)) = None"
  shows "repr_queues (Sched_Init s) (\<lambda>_. [])"
  using assms by (auto simp: repr_queues_def Sched_Init_def count_3 upt_rec lt_3 queued_def)

end
