(* ===== verification/Scheduler.thy ===== *)
theory Scheduler
  imports ThreadQueue
begin

text \<open>The scheduler, kernel/ps/scheduler.cpp: strict priorities with round robin inside each of
  them, a quantum of five ticks, blocking and unblocking, and the list of sleeping threads.  A
  switch sets the registers that belong to the next thread; the swap of stacks (switch.asm) is
  left out, so the code after Schedule in a caller runs when its thread is current again.
  Disabling interrupts makes each operation one step.\<close>

section \<open>Operations\<close>

definition QUANTUM_TICKS :: u32 where "QUANTUM_TICKS = 5"

definition CR3_MASK :: u64 where "CR3_MASK = 0x000FFFFFFFFFF000"

definition Sched_Start :: "node \<Rightarrow> 'a ksys_scheme \<Rightarrow> 'a ksys_scheme" where
  "Sched_Start main s =
    (let s = s\<lparr>s_current := Some main\<rparr>; s = upd main (\<lambda>k. k\<lparr>State := RUNNING\<rparr>) s
     in s\<lparr>s_quantum := QUANTUM_TICKS, s_active := True\<rparr>)"

definition AddThread :: "node \<Rightarrow> 'a ksys_scheme \<Rightarrow> 'a ksys_scheme" where
  "AddThread t s = QueuePushBack t (upd t (\<lambda>k. k\<lparr>State := READY\<rparr>) s)"

definition RemoveThread :: "node \<Rightarrow> 'a ksys_scheme \<Rightarrow> 'a ksys_scheme" where
  "RemoveThread t s = QueueRemove t s"

definition CurrentThread :: "'a ksys_scheme \<Rightarrow> node option" where "CurrentThread s = s_current s"
definition IsActive :: "'a ksys_scheme \<Rightarrow> bool" where "IsActive s = s_active s"

text \<open>The registers written when a thread becomes current.\<close>
definition load_thread :: "node \<Rightarrow> 'a ksys_scheme \<Rightarrow> 'a ksys_scheme" where
  "load_thread next s =
    (let s = (case Process (thr s next) of None \<Rightarrow> s
              | Some p \<Rightarrow> if Cr3 (prc s p) \<noteq> cpu_cr3 s AND CR3_MASK then s\<lparr>cpu_cr3 := Cr3 (prc s p)\<rparr> else s);
         s = s\<lparr>cpu_rsp0 := KernelStackBase (thr s next) + KernelStackSize (thr s next)\<rparr>
     in s\<lparr>cpu_gs := TebVa (thr s next)\<rparr>)"

definition ScheduleInternal :: "'a ksys_scheme \<Rightarrow> 'a ksys_scheme" where
  "ScheduleInternal s =
    (case s_current s of None \<Rightarrow> s | Some prev \<Rightarrow>
     if \<not> s_active s then s else
     case QueuePop s of (None, s) \<Rightarrow> s
     | (Some next, s) \<Rightarrow>
         if next = prev then (QueuePushBack next s)\<lparr>s_quantum := QUANTUM_TICKS\<rparr>
         else
           (let s = (if State (thr s prev) = RUNNING
                     then QueuePushBack prev (upd prev (\<lambda>k. k\<lparr>State := READY\<rparr>) s) else s);
                s = s\<lparr>s_current := Some next\<rparr>;
                s = upd next (\<lambda>k. k\<lparr>State := RUNNING\<rparr>) s;
                s = s\<lparr>s_quantum := QUANTUM_TICKS\<rparr>
            in load_thread next s))"

definition Schedule :: "'a ksys_scheme \<Rightarrow> 'a ksys_scheme" where
  "Schedule s = ScheduleInternal s"

definition BlockCurrentThread :: "'a ksys_scheme \<Rightarrow> 'a ksys_scheme" where
  "BlockCurrentThread s = (case s_current s of None \<Rightarrow> s | Some t \<Rightarrow> upd t (\<lambda>k. k\<lparr>State := BLOCKED\<rparr>) s)"

text \<open>The interrupt flag is not part of the state.  The code enables interrupts at the end of each UnblockThread, also inside a loop of
  its caller that had them off (NT\_RELEASE\_SEMAPHORE, ExitThread), so a tick may run between two of its calls; the loops are
  single steps here, and a tick is a step of its own.\<close>
definition UnblockThread :: "node \<Rightarrow> 'a ksys_scheme \<Rightarrow> 'a ksys_scheme" where
  "UnblockThread t s =
    (if State (thr s t) = TERMINATED then s
     else QueuePushBack t (upd t (\<lambda>k. k\<lparr>State := READY\<rparr>) s))"

text \<open>Sleeping: the deadline in ticks of 10 ms, rounded up.\<close>
definition sleep_ticks :: "u32 \<Rightarrow> u64" where
  "sleep_ticks ms = (let n = (ucast ms * 100 + 999) div 1000 in if n = 0 then 1 else n)"

definition Sleep :: "u32 \<Rightarrow> 'a ksys_scheme \<Rightarrow> 'a ksys_scheme" where
  "Sleep ms s =
    (if ms = 0 then s else
     case s_current s of None \<Rightarrow> s
     | Some t \<Rightarrow>
        (let s = upd t (\<lambda>k. k\<lparr>SleepUntil := pit_ticks s + sleep_ticks ms\<rparr>) s;
             s = upd t (\<lambda>k. k\<lparr>SleepNext := s_sleep_head s\<rparr>) s;
             s = s\<lparr>s_sleep_head := Some t\<rparr>;
             s = upd t (\<lambda>k. k\<lparr>State := BLOCKED\<rparr>) s
         in Schedule s))"

text \<open>The waker walks the list through a pointer to a link: None is the list head, Some n the
  SleepNext field of n.  The loop need not end on a list that is not well formed.\<close>
definition get_link :: "node option \<Rightarrow> 'a ksys_scheme \<Rightarrow> node option" where
  "get_link pp s = (case pp of None \<Rightarrow> s_sleep_head s | Some n \<Rightarrow> SleepNext (thr s n))"

definition set_link :: "node option \<Rightarrow> node option \<Rightarrow> 'a ksys_scheme \<Rightarrow> 'a ksys_scheme" where
  "set_link pp v s = (case pp of None \<Rightarrow> s\<lparr>s_sleep_head := v\<rparr> | Some n \<Rightarrow> upd n (\<lambda>k. k\<lparr>SleepNext := v\<rparr>) s)"

definition wake_one :: "node option \<Rightarrow> node \<Rightarrow> 'a ksys_scheme \<Rightarrow> 'a ksys_scheme" where
  "wake_one pp t s =
    (let s = set_link pp (SleepNext (thr s t)) s;
         s = upd t (\<lambda>k. k\<lparr>SleepNext := None, SleepUntil := 0\<rparr>) s;
         s = upd t (\<lambda>k. k\<lparr>State := READY\<rparr>) s
     in QueuePushBack t s)"

partial_function (option) wake_loop :: "u64 \<Rightarrow> node option \<Rightarrow> 'a ksys_scheme \<Rightarrow> 'a ksys_scheme option" where
  "wake_loop now pp s =
    (case get_link pp s of None \<Rightarrow> Some s
     | Some t \<Rightarrow> if SleepUntil (thr s t) \<le> now then wake_loop now pp (wake_one pp t s)
                else wake_loop now (Some t) s)"

definition WakeSleepers :: "'a ksys_scheme \<Rightarrow> 'a ksys_scheme option" where
  "WakeSleepers s = wake_loop (pit_ticks s) None s"

definition Tick :: "'a ksys_scheme \<Rightarrow> 'a ksys_scheme option" where
  "Tick s =
    (if \<not> s_active s \<or> s_current s = None then Some s else
     case WakeSleepers s of None \<Rightarrow> None
     | Some s \<Rightarrow> Some (if s_quantum s > 0
         then (let s = s\<lparr>s_quantum := s_quantum s - 1\<rparr>
               in if s_quantum s = 0 then ScheduleInternal s else s)
         else s))"

section \<open>One switch\<close>

lemma load_thread_sel [simp]:
  "thr (load_thread t s) = thr s" "prc (load_thread t s) = prc s" "s_current (load_thread t s) = s_current s"
  "s_active (load_thread t s) = s_active s" "s_quantum (load_thread t s) = s_quantum s"
  "s_sleep_head (load_thread t s) = s_sleep_head s" "pit_ticks (load_thread t s) = pit_ticks s"
  "cpu_gs (load_thread t s) = TebVa (thr s t)"
  "cpu_rsp0 (load_thread t s) = KernelStackBase (thr s t) + KernelStackSize (thr s t)"
  by (simp_all add: load_thread_def Let_def split: option.split)

text \<open>The scheduler is about to act: the links represent qs, thread c is current and not queued.\<close>
definition at_schedule :: "'a ksys_scheme \<Rightarrow> (nat \<Rightarrow> nat list) \<Rightarrow> nat \<Rightarrow> bool" where
  "at_schedule s qs c \<longleftrightarrow> repr_queues s qs \<and> s_active s \<and> s_current s = Some (Thr c) \<and> c \<notin> queued qs"

lemma repr_upd_State [simp]: "repr_queues (upd t (\<lambda>k. k\<lparr>State := v\<rparr>) s) qs = repr_queues s qs"
  by (rule repr_cong) auto

lemma repr_sel [simp]:
  "repr_queues (s\<lparr>s_quantum := v\<rparr>) qs = repr_queues s qs" "repr_queues (s\<lparr>s_current := w\<rparr>) qs = repr_queues s qs"
  "repr_queues (load_thread n s) qs = repr_queues s qs" "repr_queues (s\<lparr>s_sleep_head := w\<rparr>) qs = repr_queues s qs"
  by (rule repr_cong, simp, simp)+

lemma queue_pri_upd_State [simp]: "queue_pri (upd t (\<lambda>k. k\<lparr>State := v\<rparr>) s) n = queue_pri s n"
  by (simp add: queue_pri_def)

definition requeue :: "'a ksys_scheme \<Rightarrow> nat \<Rightarrow> (nat \<Rightarrow> nat list) \<Rightarrow> (nat \<Rightarrow> nat list)" where
  "requeue s c qs = (if State (thr s (Thr c)) = RUNNING
     then qs(queue_pri s (Thr c) := qs (queue_pri s (Thr c)) @ [c]) else qs)"

lemma ScheduleInternal_switch:
  assumes at: "at_schedule s qs c" and p: "p < 3" "qs p = t # ts" "\<forall>q. p < q \<and> q < 3 \<longrightarrow> qs q = []"
  defines "s' \<equiv> ScheduleInternal s"
  shows "at_schedule s' (requeue s c (qs(p := ts))) t"
    "State (thr s' n) = (if n = Thr t then RUNNING
       else if n = Thr c \<and> State (thr s (Thr c)) = RUNNING then READY else State (thr s n))"
    "Priority (thr s' n) = Priority (thr s n)" "s_quantum s' = QUANTUM_TICKS"
    "cpu_gs s' = TebVa (thr s (Thr t))"
    "cpu_rsp0 s' = KernelStackBase (thr s (Thr t)) + KernelStackSize (thr s (Thr t))"
    "Process (thr s (Thr t)) = Some pr \<Longrightarrow> Cr3 (prc s pr) AND CR3_MASK = Cr3 (prc s pr) \<Longrightarrow>
      cpu_cr3 s' AND CR3_MASK = Cr3 (prc s pr)"
    "s_sleep_head s' = s_sleep_head s" "SleepNext (thr s' n) = SleepNext (thr s n)"
    "WaitNext (thr s' n) = WaitNext (thr s n)"
    "cpu_cr3 s' = (case Process (thr s (Thr t)) of None \<Rightarrow> cpu_cr3 s
       | Some pr \<Rightarrow> if Cr3 (prc s pr) = cpu_cr3 s AND CR3_MASK then cpu_cr3 s else Cr3 (prc s pr))"
proof -
  have r: "repr_queues s qs" and c: "s_active s" "s_current s = Some (Thr c)" "c \<notin> queued qs"
    using at by (auto simp: at_schedule_def)
  obtain s1 where s1: "QueuePop s = (Some (Thr t), s1)" "repr_queues s1 (qs(p := ts))"
    using rq.pop_cons [OF r p] by blast
  then have rem: "s1 = QueueRemove (Thr t) s"
    using QueuePop_from_cases [of "unat THREAD_PRIORITY_COUNT" s] by (auto simp: QueuePop_def)
  have tq: "t \<in> queued qs" using p(1,2) by (auto simp: queued_def intro!: bexI [of _ p])
  have ct: "Thr t \<noteq> Thr c" using tq c(3) by auto
  have cq: "c \<notin> queued (qs(p := ts))" using c(3) not_queued [OF c(3) p(1)] p(2) by (auto simp: queued_def split: if_splits)
  have tq': "t \<notin> queued (qs(p := ts))" by (rule rq.popped_not_queued [OF r p(1,2)])
  let ?s2 = "if State (thr s1 (Thr c)) = RUNNING
      then QueuePushBack (Thr c) (upd (Thr c) (\<lambda>k. k\<lparr>State := READY\<rparr>) s1) else s1"
  have s': "s' = load_thread (Thr t) ((upd (Thr t) (\<lambda>k. k\<lparr>State := RUNNING\<rparr>) (?s2\<lparr>s_current := Some (Thr t)\<rparr>))
      \<lparr>s_quantum := QUANTUM_TICKS\<rparr>)"
    using c s1(1) ct by (simp add: s'_def ScheduleInternal_def Let_def)
  have "repr_queues ?s2 (requeue s c (qs(p := ts)))"
    using rq.push_back_repr [of "upd (Thr c) (\<lambda>k. k\<lparr>State := READY\<rparr>) s1" "qs(p := ts)" c] s1(2) cq
    by (auto simp: requeue_def rem queue_pri_def)
  then have "repr_queues s' (requeue s c (qs(p := ts)))" by (simp add: s')
  moreover have "t \<notin> queued (requeue s c (qs(p := ts)))"
    using tq' ct by (auto simp: requeue_def queued_def split: if_splits)
  ultimately show "at_schedule s' (requeue s c (qs(p := ts))) t"
    using c(1) by (auto simp: at_schedule_def s' rem)
  show "State (thr s' n) = (if n = Thr t then RUNNING
       else if n = Thr c \<and> State (thr s (Thr c)) = RUNNING then READY else State (thr s n))"
    using ct by (auto simp: s' rem)
  show "Priority (thr s' n) = Priority (thr s n)" "s_quantum s' = QUANTUM_TICKS"
    "cpu_gs s' = TebVa (thr s (Thr t))"
    "cpu_rsp0 s' = KernelStackBase (thr s (Thr t)) + KernelStackSize (thr s (Thr t))"
    "s_sleep_head s' = s_sleep_head s" "SleepNext (thr s' n) = SleepNext (thr s n)"
    "WaitNext (thr s' n) = WaitNext (thr s n)"
    using ct by (auto simp: s' rem)
  show "cpu_cr3 s' AND CR3_MASK = Cr3 (prc s pr)"
    if "Process (thr s (Thr t)) = Some pr" "Cr3 (prc s pr) AND CR3_MASK = Cr3 (prc s pr)"
    using that ct by (auto simp: s' rem load_thread_def Let_def)
  show "cpu_cr3 s' = (case Process (thr s (Thr t)) of None \<Rightarrow> cpu_cr3 s
       | Some pr \<Rightarrow> if Cr3 (prc s pr) = cpu_cr3 s AND CR3_MASK then cpu_cr3 s else Cr3 (prc s pr))"
    using ct by (auto simp: s' rem load_thread_def Let_def split: option.split)
qed

lemma ScheduleInternal_idle:
  assumes "at_schedule s qs c" "queued qs = {}"
  shows "ScheduleInternal s = s"
  using assms rq.pop_empty [of s qs] by (simp add: at_schedule_def ScheduleInternal_def)

section \<open>Round robin\<close>

text \<open>Thread c runs, xs wait at priority p, nothing waits above p and everyone here has priority p.\<close>
definition round_robin :: "'a ksys_scheme \<Rightarrow> nat \<Rightarrow> nat \<Rightarrow> nat list \<Rightarrow> bool" where
  "round_robin s p c xs \<longleftrightarrow> (\<exists>qs. at_schedule s qs c \<and> p < 3 \<and> qs p = xs \<and> (\<forall>q. p < q \<and> q < 3 \<longrightarrow> qs q = [])
     \<and> State (thr s (Thr c)) = RUNNING \<and> (\<forall>t\<in>set (c # xs). queue_pri s (Thr t) = p))"

lemma round_robin_step:
  assumes "round_robin s p c (x # xs)"
  shows "round_robin (ScheduleInternal s) p x (xs @ [c])"
proof -
  obtain qs where q: "at_schedule s qs c" "p < 3" "qs p = x # xs" "\<forall>q. p < q \<and> q < 3 \<longrightarrow> qs q = []"
    "State (thr s (Thr c)) = RUNNING" "\<forall>t\<in>set (c # x # xs). queue_pri s (Thr t) = p"
    using assms by (auto simp: round_robin_def)
  note S = ScheduleInternal_switch [OF q(1-4)]
  have pri: "queue_pri (ScheduleInternal s) n = queue_pri s n" for n by (simp add: queue_pri_def S(3))
  have "requeue s c (qs(p := xs)) = qs(p := xs @ [c])" using q(5,6) by (simp add: requeue_def)
  then show ?thesis unfolding round_robin_def using S(1,2) q(2,4,6) pri
    by (intro exI [of _ "qs(p := xs @ [c])"]) auto
qed

primrec schedules :: "nat \<Rightarrow> 'a ksys_scheme \<Rightarrow> 'a ksys_scheme" where
  "schedules 0 s = s"
| "schedules (Suc n) s = schedules n (ScheduleInternal s)"

lemma round_robin_run:
  "round_robin s p c xs \<Longrightarrow> k < length xs \<Longrightarrow>
   round_robin (schedules (Suc k) s) p (xs ! k) (drop (Suc k) xs @ c # take k xs)"
proof (induction k arbitrary: s c xs)
  case 0
  then show ?case using round_robin_step by (cases xs) auto
next
  case (Suc k)
  obtain y ys where xs: "xs = y # ys" using Suc.prems(2) by (cases xs) auto
  have "round_robin (ScheduleInternal s) p y (ys @ [c])" using round_robin_step Suc.prems(1) by (simp add: xs)
  from Suc.IH [OF this] show ?case using Suc.prems(2) by (simp add: xs nth_append)
qed

lemma round_robin_current: "round_robin s p c xs \<Longrightarrow> s_current s = Some (Thr c) \<and> State (thr s (Thr c)) = RUNNING"
  by (auto simp: round_robin_def at_schedule_def)

section \<open>The sleep list\<close>

text \<open>The list of sleeping threads that starts at a link.\<close>
fun sleepers :: "'a ksys_scheme \<Rightarrow> node option \<Rightarrow> nat list \<Rightarrow> bool" where
  "sleepers s l [] \<longleftrightarrow> l = None"
| "sleepers s l (t # ts) \<longleftrightarrow> l = Some (Thr t) \<and> sleepers s (SleepNext (thr s (Thr t))) ts"

lemma sleepers_cong:
  "(\<And>t. t \<in> set ts \<Longrightarrow> SleepNext (thr s' (Thr t)) = SleepNext (thr s (Thr t))) \<Longrightarrow> sleepers s' l ts = sleepers s l ts"
  by (induction ts arbitrary: l) auto

text \<open>The threads due at a time leave the list, in list order, and are appended to their queues.\<close>
definition due :: "'a ksys_scheme \<Rightarrow> u64 \<Rightarrow> nat \<Rightarrow> bool" where
  "due s now t \<longleftrightarrow> SleepUntil (thr s (Thr t)) \<le> now"

fun enqueue_all :: "(nat \<Rightarrow> nat) \<Rightarrow> nat list \<Rightarrow> (nat \<Rightarrow> nat list) \<Rightarrow> (nat \<Rightarrow> nat list)" where
  "enqueue_all pri [] qs = qs"
| "enqueue_all pri (t # ts) qs = enqueue_all pri ts (qs(pri t := qs (pri t) @ [t]))"

lemma wake_one_fields [simp]:
  "State (thr (wake_one pp t s) n) = (if n = t then READY else State (thr s n))"
  "SleepUntil (thr (wake_one pp t s) n) = (if n = t then 0 else SleepUntil (thr s n))"
  "Priority (thr (wake_one pp t s) n) = Priority (thr s n)"
  "s_current (wake_one pp t s) = s_current s" "s_active (wake_one pp t s) = s_active s"
  "s_quantum (wake_one pp t s) = s_quantum s" "pit_ticks (wake_one pp t s) = pit_ticks s"
  by (simp_all add: wake_one_def set_link_def Let_def split: option.split)

lemma wake_one_SleepNext:
  assumes "pp \<noteq> Some t"
  shows "get_link pp (wake_one pp t s) = SleepNext (thr s t)"
    "n \<noteq> t \<Longrightarrow> Some n \<noteq> pp \<Longrightarrow> SleepNext (thr (wake_one pp t s) n) = SleepNext (thr s n)"
    "pp \<noteq> None \<Longrightarrow> s_sleep_head (wake_one pp t s) = s_sleep_head s"
  using assms by (auto simp: wake_one_def set_link_def get_link_def Let_def split: option.split)

lemma wake_one_repr:
  assumes "repr_queues s qs" "t \<notin> queued qs"
  shows "repr_queues (wake_one pp (Thr t) s) (qs(queue_pri s (Thr t) := qs (queue_pri s (Thr t)) @ [t]))"
proof -
  let ?s = "upd (Thr t) (\<lambda>k. k\<lparr>State := READY\<rparr>)
     (upd (Thr t) (\<lambda>k. k\<lparr>SleepNext := None, SleepUntil := 0\<rparr>) (set_link pp (SleepNext (thr s (Thr t))) s))"
  have "repr_queues ?s qs = repr_queues s qs"
    by (rule repr_cong) (auto simp: set_link_def split: option.split)
  moreover have "queue_pri ?s (Thr t) = queue_pri s (Thr t)"
    by (auto simp: queue_pri_def set_link_def split: option.split)
  moreover have "wake_one pp (Thr t) s = QueuePushBack (Thr t) ?s" by (simp add: wake_one_def Let_def)
  ultimately show ?thesis using rq.push_back_repr [of ?s qs t] assms by simp
qed

text \<open>What the waker does with the part ts of the list behind link pp.\<close>
definition woken :: "u64 \<Rightarrow> node option \<Rightarrow> nat list \<Rightarrow> (nat \<Rightarrow> nat list) \<Rightarrow> 'a ksys_scheme \<Rightarrow> 'a ksys_scheme \<Rightarrow> bool" where
  "woken now pp ts qs s s' \<longleftrightarrow> sleepers s' (get_link pp s') (filter (\<lambda>t. \<not> due s now t) ts)
    \<and> repr_queues s' (enqueue_all (\<lambda>t. queue_pri s (Thr t)) (filter (due s now) ts) qs)
    \<and> (\<forall>n. State (thr s' n) = (if \<exists>t\<in>set ts. n = Thr t \<and> due s now t then READY else State (thr s n)))
    \<and> (\<forall>n. n \<notin> Thr ` set ts \<longrightarrow> Some n \<noteq> pp \<longrightarrow> SleepNext (thr s' n) = SleepNext (thr s n))
    \<and> (\<forall>n. n \<notin> Thr ` set ts \<longrightarrow> SleepUntil (thr s' n) = SleepUntil (thr s n))
    \<and> (pp \<noteq> None \<longrightarrow> s_sleep_head s' = s_sleep_head s)
    \<and> s_current s' = s_current s \<and> s_active s' = s_active s \<and> s_quantum s' = s_quantum s"

lemma wake_loop_spec:
  assumes "sleepers s (get_link pp s) ts" "distinct ts" "\<And>t. t \<in> set ts \<Longrightarrow> pp \<noteq> Some (Thr t)"
    and "repr_queues s qs" "set ts \<inter> queued qs = {}"
  shows "\<exists>s'. wake_loop now pp s = Some s' \<and> woken now pp ts qs s s'"
  using assms
proof (induction ts arbitrary: s pp qs)
  case Nil
  then show ?case by (subst wake_loop.simps) (simp add: woken_def)
next
  case (Cons t ts)
  have link: "get_link pp s = Some (Thr t)" and rest: "sleepers s (SleepNext (thr s (Thr t))) ts"
    using Cons.prems(1) by auto
  have pt: "pp \<noteq> Some (Thr t)" using Cons.prems(3) by simp
  have tn: "t \<notin> set ts" "distinct ts" using Cons.prems(2) by auto
  show ?case
  proof (cases "due s now t")
    case True
    let ?s1 = "wake_one pp (Thr t) s" and ?qs1 = "qs(queue_pri s (Thr t) := qs (queue_pri s (Thr t)) @ [t])"
    note W = wake_one_SleepNext [OF pt, where s = s]
    have tq: "t \<notin> queued qs" using Cons.prems(5) by auto
    have pp_ts: "Some (Thr u) \<noteq> pp" if "u \<in> set ts" for u using Cons.prems(3) that by auto
    have "sleepers ?s1 (SleepNext (thr s (Thr t))) ts = sleepers s (SleepNext (thr s (Thr t))) ts"
    proof (rule sleepers_cong)
      fix u assume u: "u \<in> set ts"
      then have "Thr u \<noteq> Thr t" using tn by auto
      then show "SleepNext (thr ?s1 (Thr u)) = SleepNext (thr s (Thr u))" using pp_ts [OF u] by (rule W(2))
    qed
    then have a: "sleepers ?s1 (get_link pp ?s1) ts" using rest W(1) by simp
    have b: "repr_queues ?s1 ?qs1" by (rule wake_one_repr [OF Cons.prems(4) tq])
    have q1: "queued ?qs1 = insert t (queued qs)"
      using queue_pri_lt [of s "Thr t"] by (auto simp: queued_def split: if_splits)
    have dj: "set ts \<inter> queued ?qs1 = {}" unfolding q1 using Cons.prems(5) tn by auto
    have d: "due ?s1 now u = due s now u" if "u \<in> set ts" for u using that tn by (auto simp: due_def)
    have pri: "queue_pri ?s1 n = queue_pri s n" for n by (simp add: queue_pri_def)
    obtain s' where s': "wake_loop now pp ?s1 = Some s'" "woken now pp ts ?qs1 ?s1 s'"
      using Cons.IH [OF a tn(2) _ b dj] Cons.prems(3) by (metis list.set_intros(2))
    have f: "filter (\<lambda>t. \<not> due ?s1 now t) ts = filter (\<lambda>t. \<not> due s now t) ts"
      "filter (due ?s1 now) ts = filter (due s now) ts" using d by (auto cong: filter_cong)
    have "(\<exists>u\<in>set ts. n = Thr u \<and> due ?s1 now u) = (\<exists>u\<in>set ts. n = Thr u \<and> due s now u)" for n
      using d by auto
    then have "woken now pp (t # ts) qs s s'"
      using s'(2) True W(2,3) unfolding woken_def f pri by auto
    moreover have "wake_loop now pp s = wake_loop now pp ?s1"
      using link True by (subst wake_loop.simps) (simp add: due_def)
    ultimately show ?thesis using s'(1) by auto
  next
    case False
    have n: "wake_loop now pp s = wake_loop now (Some (Thr t)) s"
      using link False by (subst wake_loop.simps) (simp add: due_def)
    have a: "sleepers s (get_link (Some (Thr t)) s) ts" using rest by (simp add: get_link_def)
    have dj: "set ts \<inter> queued qs = {}" using Cons.prems(5) by auto
    obtain s' where s': "wake_loop now (Some (Thr t)) s = Some s'" "woken now (Some (Thr t)) ts qs s s'"
      using Cons.IH [OF a tn(2) _ Cons.prems(4) dj] tn by auto
    have g: "get_link pp s' = get_link pp s"
    proof (cases pp)
      case None
      then show ?thesis using s'(2) by (simp add: get_link_def woken_def)
    next
      case (Some m)
      have "m \<notin> Thr ` set ts" "m \<noteq> Thr t" using Cons.prems(3) Some by auto
      then show ?thesis using s'(2) Some by (simp add: get_link_def woken_def)
    qed
    have "woken now pp (t # ts) qs s s'"
      using s'(2) link False g pt unfolding woken_def by (auto simp: get_link_def)
    then show ?thesis using s'(1) n by auto
  qed
qed

lemma wake_loop_cycle:
  assumes "wake_loop now pp s = Some s'"
  shows "\<not> (get_link pp s = Some t \<and> SleepNext (thr s t) = Some t \<and> now < SleepUntil (thr s t))"
proof (rule wake_loop.raw_induct [OF _ assms], goal_cases)
  case (1 wl now pp s s')
  show ?case
  proof
    assume c: "get_link pp s = Some t \<and> SleepNext (thr s t) = Some t \<and> now < SleepUntil (thr s t)"
    then have "\<not> SleepUntil (thr s t) \<le> now" by auto
    then have "wl now (Some t) s = Some s'" using 1(2) c by simp
    from 1(1) [OF this] show False using c by (simp add: get_link_def)
  qed
qed

section \<open>Correctness of the scheduler\<close>

definition kthread0 :: KThread where
  "kthread0 = \<lparr>KernelStackPtr = 0, Tid = 0, State = READY, QuantumLeft = 5, TFlags = 0, Priority = 1,
     Process = Some 0, KernelStackBase = 0x10000, KernelStackSize = 0x4000, EntryFn = 0, EntryArg = 0, TName = ''t'',
     Next = None, Prev = None, WaitNext = None, SleepUntil = 0, SleepNext = None, UserArg = 0,
     ExceptionHandler = 0, TebVa = 0\<rparr>"

definition kprocess0 :: KProcess where
  "kprocess0 = \<lparr>Pid = 0, PFlags = 0, Cr3 = 0x300000, UserHeapCursor = 0x500000000, PName = ''System'', ExitStatus = 0, UserFreeList = replicate 16 (0, 0),
     thread_count = 1, exited = False, exit_waiters = None, PebVa = 0, NextTebVa = 0, ImageBase = 0\<rparr>"

text \<open>A machine with thread 0 running and nothing queued; then with threads 1 and 2 ready.\<close>
definition ksys_idle :: ksys where
  "ksys_idle = Sched_Start (Thr 0) (Sched_Init \<lparr>thr = (\<lambda>_. kthread0), prc = (\<lambda>_. kprocess0), s_current = None, s_active = False,
     s_quantum = 5, s_sleep_head = None, s_proc_reg = [0], s_thread_reg = [], pit_ticks = 100,
     cpu_cr3 = 0x300000, cpu_rsp0 = 0, cpu_gs = 0\<rparr>)"

definition ksys_demo :: ksys where
  "ksys_demo = AddThread (Thr 2) (AddThread (Thr 1) ksys_idle)"

lemma AddThread_repr:
  assumes "repr_queues s qs" "t \<notin> queued qs"
  shows "repr_queues (AddThread (Thr t) s) (qs(queue_pri s (Thr t) := qs (queue_pri s (Thr t)) @ [t]))"
  using rq.push_back_repr [of "upd (Thr t) (\<lambda>k. k\<lparr>State := READY\<rparr>) s" qs t] assms by (simp add: AddThread_def)

lemma AddThread_sel [simp]:
  "Priority (thr (AddThread t s) n) = Priority (thr s n)" "s_current (AddThread t s) = s_current s"
  "s_active (AddThread t s) = s_active s" "State (thr (AddThread t s) n) = (if n = t then READY else State (thr s n))"
  "SleepNext (thr (AddThread t s) n) = SleepNext (thr s n)" "SleepUntil (thr (AddThread t s) n) = SleepUntil (thr s n)"
  "s_sleep_head (AddThread t s) = s_sleep_head s" "pit_ticks (AddThread t s) = pit_ticks s"
  "s_quantum (AddThread t s) = s_quantum s" "queue_pri (AddThread t s) n = queue_pri s n"
  "Process (thr (AddThread t s) n) = Process (thr s n)" "prc (AddThread t s) = prc s"
  by (simp_all add: AddThread_def queue_pri_def)

lemma Sched_Init_sel [simp]:
  "State (thr (Sched_Init s) n) = State (thr s n)" "Priority (thr (Sched_Init s) n) = Priority (thr s n)"
  "SleepNext (thr (Sched_Init s) n) = SleepNext (thr s n)" "SleepUntil (thr (Sched_Init s) n) = SleepUntil (thr s n)"
  "Next (thr (Sched_Init s) (Thr t)) = Next (thr s (Thr t))" "Prev (thr (Sched_Init s) (Thr t)) = Prev (thr s (Thr t))"
  "s_sleep_head (Sched_Init s) = s_sleep_head s" "pit_ticks (Sched_Init s) = pit_ticks s"
  "Process (thr (Sched_Init s) n) = Process (thr s n)" "prc (Sched_Init s) = prc s"
  "WaitNext (thr (Sched_Init s) n) = WaitNext (thr s n)"
  by (simp_all add: Sched_Init_def count_3 upt_rec)

lemma ksys_idle_repr: "repr_queues ksys_idle (\<lambda>_. [])"
proof -
  have "repr_queues (Sched_Start m s) qs = repr_queues s qs" for m and s :: "ksys" and qs
    by (rule repr_cong) (auto simp: Sched_Start_def Let_def)
  then show ?thesis unfolding ksys_idle_def by (simp add: Sched_Init_repr kthread0_def)
qed

lemma ksys_idle_sel [simp]:
  "s_current ksys_idle = Some (Thr 0)" "s_active ksys_idle" "State (thr ksys_idle n) = (if n = Thr 0 then RUNNING else READY)"
  "Priority (thr ksys_idle n) = 1" "s_sleep_head ksys_idle = None" "SleepNext (thr ksys_idle n) = None"
  "pit_ticks ksys_idle = 100" "s_quantum ksys_idle = 5" "Process (thr ksys_idle n) = Some 0" "WaitNext (thr ksys_idle n) = None"
  by (simp_all add: ksys_idle_def Sched_Start_def kthread0_def QUANTUM_TICKS_def Let_def)

lemma queue_pri_1: "Priority (thr s n) = 1 \<Longrightarrow> queue_pri s n = 1"
  by (simp add: queue_pri_def ClampPri_def THREAD_PRIORITY_COUNT_def)

lemma ksys_idle_at: "at_schedule ksys_idle (\<lambda>_. []) 0"
  by (simp add: at_schedule_def ksys_idle_repr queued_def)

definition demo_queues :: "nat \<Rightarrow> nat list" where "demo_queues = (\<lambda>_. [])(1 := [1, 2])"

lemma no_queues [simp]: "queued (\<lambda>_. []) = {}" by (simp add: queued_def)

lemma demo_queues_sel [simp]: "queued demo_queues = {1, 2}" "demo_queues 1 = [1, 2]" "demo_queues (Suc 0) = [1, 2]"
  "p \<noteq> 1 \<Longrightarrow> demo_queues p = []"
  by (auto simp: demo_queues_def queued_Un)

lemma ksys_demo_repr: "repr_queues ksys_demo demo_queues"
proof -
  have "repr_queues (AddThread (Thr 1) ksys_idle) ((\<lambda>_. [])(1 := [1]))"
    using AddThread_repr [OF ksys_idle_repr, of 1] by (simp add: queued_def queue_pri_1)
  from AddThread_repr [OF this, of 2] have "repr_queues ksys_demo (((\<lambda>_. [])(1 := [1]))(1 := [1, 2]))"
    by (simp add: queued_Un queue_pri_1 ksys_demo_def)
  then show ?thesis by (simp only: fun_upd_upd demo_queues_def)
qed

lemma ksys_demo_at: "at_schedule ksys_demo demo_queues 0"
  by (simp add: at_schedule_def ksys_demo_repr) (simp add: ksys_demo_def)

lemma ksys_demo_rr: "round_robin ksys_demo 1 0 [1, 2]"
  unfolding round_robin_def
  by (rule exI [of _ demo_queues]) (use ksys_demo_at in \<open>simp add: ksys_demo_def queue_pri_1\<close>)

text \<open>C5 (functional): a switch runs the head of the highest queue that is not empty; the previous
  thread goes to the tail of its own queue if it was still running and nowhere otherwise; the
  quantum is renewed, the GS base and the ring 0 stack are those of the next thread, CR3 is the
  root of its process - loaded when the frame in CR3 is another one, and left alone when it is that
  one or when the thread has no process - and the links stay well formed.\<close>
theorem schedule_picks_highest:
  assumes "at_schedule s qs c" "p < 3" "qs p = t # ts" "\<forall>q. p < q \<and> q < 3 \<longrightarrow> qs q = []"
  shows "at_schedule (ScheduleInternal s) (requeue s c (qs(p := ts))) t
    \<and> State (thr (ScheduleInternal s) (Thr t)) = RUNNING
    \<and> (State (thr s (Thr c)) = RUNNING \<longrightarrow> State (thr (ScheduleInternal s) (Thr c)) = READY)
    \<and> (\<forall>u. u \<noteq> t \<and> u \<noteq> c \<longrightarrow> State (thr (ScheduleInternal s) (Thr u)) = State (thr s (Thr u)))
    \<and> s_quantum (ScheduleInternal s) = QUANTUM_TICKS \<and> cpu_gs (ScheduleInternal s) = TebVa (thr s (Thr t))
    \<and> cpu_rsp0 (ScheduleInternal s) = KernelStackBase (thr s (Thr t)) + KernelStackSize (thr s (Thr t))
    \<and> cpu_cr3 (ScheduleInternal s) = (case Process (thr s (Thr t)) of None \<Rightarrow> cpu_cr3 s
        | Some pr \<Rightarrow> if Cr3 (prc s pr) = cpu_cr3 s AND CR3_MASK then cpu_cr3 s else Cr3 (prc s pr))"
proof -
  note S = ScheduleInternal_switch [OF assms]
  have "c \<notin> queued qs" "t \<in> queued qs"
    using assms(1-3) by (auto simp: at_schedule_def queued_def intro!: bexI [of _ p])
  then have "t \<noteq> c" by auto
  then show ?thesis using S(1,4,5,6,11) by (simp add: S(2))
qed

text \<open>The same with the ready threads in a process that has an address space of its own.\<close>
definition ksys_moved :: ksys where
  "ksys_moved = ksys_demo\<lparr>prc := \<lambda>_. kprocess0\<lparr>Cr3 := 0x400000\<rparr>, cpu_cr3 := 0x300000\<rparr>"

lemma schedule_picks_highest_witness:
  "s_current (ScheduleInternal ksys_moved) = Some (Thr 1) \<and> State (thr (ScheduleInternal ksys_moved) (Thr 0)) = READY
   \<and> cpu_cr3 (ScheduleInternal ksys_moved) = 0x400000"
proof -
  have sel: "s_active ksys_moved" "s_current ksys_moved = Some (Thr 0)" "thr ksys_moved = thr ksys_demo" "cpu_cr3 ksys_moved = 0x300000"
    "Process (thr ksys_demo n) = Some 0" "State (thr ksys_demo (Thr 0)) = RUNNING" "Cr3 (prc ksys_moved p) = 0x400000" for n p
    by (simp_all add: ksys_moved_def ksys_demo_def)
  have "repr_queues ksys_moved demo_queues = repr_queues ksys_demo demo_queues" by (rule repr_cong) (simp_all add: sel)
  then have at: "at_schedule ksys_moved demo_queues 0" using sel ksys_demo_repr by (simp add: at_schedule_def)
  show ?thesis
    using schedule_picks_highest [OF at, of 1 1 "[2]"] sel by (simp add: at_schedule_def CR3_MASK_def)
qed

text \<open>C40 (liveness): round robin is fair.  A thread waiting at place k of the queue that is served
  runs after k + 1 switches, and after one full round the first thread runs again.\<close>
theorem round_robin_fair:
  assumes "round_robin s p c xs"
  shows "(\<forall>k<length xs. s_current (schedules (Suc k) s) = Some (Thr (xs ! k)))
    \<and> (xs \<noteq> [] \<longrightarrow> s_current (schedules (Suc (length xs)) s) = Some (Thr c))"
proof -
  have one: "s_current (schedules (Suc k) s) = Some (Thr (xs ! k))" if "k < length xs" for k
    using round_robin_current [OF round_robin_run [OF assms that]] by simp
  have "s_current (schedules (Suc (length xs)) s) = Some (Thr c)" if "xs \<noteq> []"
  proof -
    obtain x ys where xs: "xs = x # ys" using \<open>xs \<noteq> []\<close> by (cases xs) auto
    have r: "round_robin (ScheduleInternal s) p x (ys @ [c])" using round_robin_step assms by (simp add: xs)
    show ?thesis using round_robin_current [OF round_robin_run [OF r, of "length ys"]] by (simp add: xs)
  qed
  then show ?thesis using one by blast
qed

lemma round_robin_fair_witness: "s_current (schedules 2 ksys_demo) = Some (Thr 2)"
  using round_robin_fair [OF ksys_demo_rr] by (auto simp: numeral_2_eq_2)

text \<open>C36 (functional): a tick wakes exactly the sleepers whose deadline has passed, in list order,
  each at the tail of its queue; the others stay in the sleep list in their order.\<close>
theorem wake_exactly_due:
  assumes "sleepers s (s_sleep_head s) ts" "distinct ts" "repr_queues s qs" "set ts \<inter> queued qs = {}"
  shows "\<exists>s'. WakeSleepers s = Some s'
    \<and> sleepers s' (s_sleep_head s') (filter (\<lambda>t. \<not> due s (pit_ticks s) t) ts)
    \<and> repr_queues s' (enqueue_all (\<lambda>t. queue_pri s (Thr t)) (filter (due s (pit_ticks s)) ts) qs)
    \<and> (\<forall>n. State (thr s' n) =
          (if \<exists>t\<in>set ts. n = Thr t \<and> due s (pit_ticks s) t then READY else State (thr s n)))"
proof -
  have "sleepers s (get_link None s) ts" using assms(1) by (simp add: get_link_def)
  from wake_loop_spec [OF this assms(2) _ assms(3,4), of "pit_ticks s"]
  show ?thesis by (auto simp: WakeSleepers_def woken_def get_link_def)
qed

lemma wake_exactly_due_witness:
  "\<exists>s'. WakeSleepers (ksys_idle\<lparr>s_sleep_head := Some (Thr 5)\<rparr>) = Some s' \<and> State (thr s' (Thr 5)) = READY
     \<and> s_sleep_head s' = None"
  using wake_exactly_due [of "ksys_idle\<lparr>s_sleep_head := Some (Thr 5)\<rparr>" "[5]" "\<lambda>_. []"] ksys_idle_repr
  by (auto simp: queued_def due_def ksys_idle_def kthread0_def Sched_Start_def Let_def)

text \<open>When the quantum runs out while no other thread is ready it is not renewed, and a
  tick with quantum 0 never preempts: a thread woken later by the same timer waits until the
  current thread gives up the processor by itself.\<close>
theorem idle_expiry_stops_preemption:
  assumes "at_schedule s qs c" "queued qs = {}" "s_sleep_head s = None" "s_quantum s = 1"
  shows "Tick s = Some (s\<lparr>s_quantum := 0\<rparr>)
    \<and> (s_quantum s1 = 0 \<longrightarrow> Tick s1 = Some s2 \<longrightarrow> s_current s1 = Some (Thr d) \<longrightarrow>
         sleepers s1 (s_sleep_head s1) ts \<longrightarrow> distinct ts \<longrightarrow> repr_queues s1 qs1 \<longrightarrow> set ts \<inter> queued qs1 = {} \<longrightarrow>
         s_current s2 = Some (Thr d) \<and> s_quantum s2 = 0)"
proof -
  have at: "at_schedule (s\<lparr>s_quantum := 0\<rparr>) qs c" using assms(1) by (simp add: at_schedule_def)
  have "WakeSleepers s = Some s" by (simp add: WakeSleepers_def wake_loop.simps get_link_def assms(3))
  then have t: "Tick s = Some (s\<lparr>s_quantum := 0\<rparr>)"
    using ScheduleInternal_idle [OF at assms(2)] assms by (simp add: Tick_def at_schedule_def Let_def)
  have "s_current s2 = Some (Thr d) \<and> s_quantum s2 = 0"
    if q: "s_quantum s1 = 0" "Tick s1 = Some s2" "s_current s1 = Some (Thr d)"
      "sleepers s1 (s_sleep_head s1) ts" "distinct ts" "repr_queues s1 qs1" "set ts \<inter> queued qs1 = {}"
  proof -
    have "sleepers s1 (get_link None s1) ts" using q(4) by (simp add: get_link_def)
    from wake_loop_spec [OF this q(5) _ q(6,7), of "pit_ticks s1"]
    obtain s' where "WakeSleepers s1 = Some s'" "s_current s' = Some (Thr d)" "s_quantum s' = 0"
      using q(1,3) by (auto simp: WakeSleepers_def woken_def)
    then show ?thesis using q(1-3) by (auto simp: Tick_def split: if_splits)
  qed
  then show ?thesis using t by blast
qed

lemma idle_expiry_stops_preemption_witness:
  "Tick (ksys_idle\<lparr>s_quantum := 1\<rparr>) = Some (ksys_idle\<lparr>s_quantum := 0\<rparr>)"
proof -
  have "at_schedule (ksys_idle\<lparr>s_quantum := 1\<rparr>) (\<lambda>_. []) 0" using ksys_idle_at by (simp add: at_schedule_def)
  from idle_expiry_stops_preemption [OF this no_queues, THEN conjunct1] show ?thesis by simp
qed

text \<open>With nothing else ready, Sleep returns at once with the caller still in the sleep
  list; a second Sleep links the thread to itself, and the next tick never returns.\<close>
theorem sleep_twice_hangs:
  assumes "at_schedule s qs c" "queued qs = {}" "ms \<noteq> 0" "ms' \<noteq> 0"
    and "pit_ticks s < pit_ticks s + sleep_ticks ms'"
  shows "s_current (Sleep ms s) = Some (Thr c) \<and> Tick (Sleep ms' (Sleep ms s)) = None"
proof -
  define f where "f m u = upd (Thr c) (\<lambda>k. k\<lparr>State := BLOCKED\<rparr>) ((upd (Thr c) (\<lambda>k. k\<lparr>SleepNext := s_sleep_head u\<rparr>)
      (upd (Thr c) (\<lambda>k. k\<lparr>SleepUntil := pit_ticks u + sleep_ticks m\<rparr>) u))\<lparr>s_sleep_head := Some (Thr c)\<rparr>)" for m and u :: "'a ksys_scheme"
  have at: "at_schedule (f m u) qs c" if "at_schedule u qs c" for m u
  proof -
    have "repr_queues (f m u) qs = repr_queues u qs" by (rule repr_cong) (auto simp: f_def)
    then show ?thesis using that by (simp add: at_schedule_def) (simp add: f_def)
  qed
  have S: "Sleep m u = f m u" if "at_schedule u qs c" "m \<noteq> 0" for m u
    using that ScheduleInternal_idle [OF at [OF that(1), of m] assms(2)]
    by (simp add: Sleep_def Schedule_def f_def at_schedule_def Let_def)
  let ?s1 = "f ms s" and ?s2 = "f ms' (f ms s)"
  have s1: "Sleep ms s = ?s1" "Sleep ms' ?s1 = ?s2" using S assms(1,3,4) at by auto
  have "wake_loop (pit_ticks ?s2) None ?s2 = None"
  proof (cases "wake_loop (pit_ticks ?s2) None ?s2")
    case (Some s')
    have "get_link None ?s2 = Some (Thr c)" "SleepNext (thr ?s2 (Thr c)) = Some (Thr c)"
      "pit_ticks ?s2 < SleepUntil (thr ?s2 (Thr c))"
      using assms(5) by (simp_all add: f_def get_link_def)
    then show ?thesis using wake_loop_cycle [OF Some] by blast
  qed
  then have "Tick ?s2 = None"
    using at [OF at [OF assms(1)]] by (simp add: Tick_def WakeSleepers_def at_schedule_def)
  moreover have "s_current ?s1 = Some (Thr c)" using at [OF assms(1)] by (simp add: at_schedule_def)
  ultimately show ?thesis by (simp only: s1)
qed

lemma sleep_twice_hangs_witness: "Tick (Sleep 10 (Sleep 20 ksys_idle)) = None"
  using sleep_twice_hangs [OF ksys_idle_at, of 20 10] by (simp add: queued_def sleep_ticks_def)

end
