(* ===== verification/KernelHeap.thy ===== *)
theory KernelHeap
  imports NtPrelude
begin

text \<open>The kernel heap, kernel/mm/heap.cpp: a bump allocator over one region that never gives
  memory back.  The static variables are the record kheap, together with the bytes of memory
  the module writes; sizes and addresses are 64-bit words, so every sum wraps as in the code.
  The result 0 is the null pointer.\<close>

section \<open>State and operations\<close>

record kheap =
  hp_base :: u64
  hp_size :: u64
  hp_used :: u64
  hp_mem :: "u64 \<Rightarrow> u8"

text \<open>The loop that clears the bytes p, p + 1, ..., p + n - 1.\<close>
definition zero_bytes :: "u64 \<Rightarrow> u64 \<Rightarrow> (u64 \<Rightarrow> u8) \<Rightarrow> (u64 \<Rightarrow> u8)" where
  "zero_bytes p n m = (\<lambda>a. if a - p < n then 0 else m a)"

definition Heap_Init :: "u64 \<Rightarrow> u64 \<Rightarrow> kheap \<Rightarrow> kheap" where
  "Heap_Init base sz h =
     h\<lparr>hp_base := base, hp_size := sz, hp_used := 0, hp_mem := zero_bytes base sz (hp_mem h)\<rparr>"

definition Heap_Alloc :: "u64 \<Rightarrow> u64 \<Rightarrow> kheap \<Rightarrow> u64 \<times> kheap" where
  "Heap_Alloc sz align h =
    (let cur = AlignUp (hp_base h + hp_used h) align - hp_base h in
     if cur + sz > hp_size h then (0, h)
     else (hp_base h + cur, h\<lparr>hp_used := cur + sz\<rparr>))"

definition Heap_AllocZeroed :: "u64 \<Rightarrow> u64 \<Rightarrow> kheap \<Rightarrow> u64 \<times> kheap" where
  "Heap_AllocZeroed sz align h =
    (let (p, h') = Heap_Alloc sz align h in
     if p \<noteq> 0 then (p, h'\<lparr>hp_mem := zero_bytes p sz (hp_mem h')\<rparr>) else (p, h'))"

definition Heap_Free :: "u64 \<Rightarrow> kheap \<Rightarrow> kheap" where
  "Heap_Free p h = h"

definition Heap_Used :: "kheap \<Rightarrow> u64" where "Heap_Used h = hp_used h"
definition Heap_Remaining :: "kheap \<Rightarrow> u64" where "Heap_Remaining h = hp_size h - hp_used h"

text \<open>The default alignment of the declarations in memory.h, used by operator new.\<close>
definition operator_new :: "u64 \<Rightarrow> kheap \<Rightarrow> u64 \<times> kheap" where
  "operator_new sz h = Heap_Alloc sz 16 h"

section \<open>The region invariant\<close>

text \<open>The region lies below the top page of the address space, so that rounding up inside it
  does not wrap.\<close>
definition heap_inv :: "kheap \<Rightarrow> bool" where
  "heap_inv h \<longleftrightarrow> 0 < unat (hp_base h) \<and> unat (hp_base h) + unat (hp_size h) < 2^63 \<and> hp_used h \<le> hp_size h"

text \<open>A request the kernel makes: a size below half the address space and an alignment that is a
  power of two of at most a page.\<close>
definition good_request :: "u64 \<Rightarrow> nat \<Rightarrow> bool" where
  "good_request sz k \<longleftrightarrow> unat sz < 2^62 \<and> k \<le> 12"

definition heap_top :: "kheap \<Rightarrow> nat" where
  "heap_top h = unat (hp_base h) + unat (hp_used h)"

lemma heap_top_word:
  assumes "heap_inv h" shows "unat (hp_base h + hp_used h) = heap_top h" "heap_top h < 2^63"
proof -
  have "unat (hp_used h) \<le> unat (hp_size h)" using assms by (simp add: heap_inv_def word_le_nat_alt)
  then have l: "heap_top h < 2^63" using assms by (simp add: heap_inv_def heap_top_def)
  then show "heap_top h < 2^63" .
  show "unat (hp_base h + hp_used h) = heap_top h"
    using l by (subst unat_add_lem [THEN iffD1]) (auto simp: heap_top_def)
qed

lemma pow2_page: "k \<le> 12 \<Longrightarrow> (2::nat)^k \<le> 4096"
  using power_increasing [of k 12 "2::nat"] by simp

lemma round_up_bounds:
  assumes "0 < (m::nat)"
  shows "n \<le> (n + m - 1) div m * m" "(n + m - 1) div m * m < n + m"
proof -
  have "(n + m - 1) div m * m + (n + m - 1) mod m = n + m - 1" by simp
  moreover have "(n + m - 1) mod m \<le> m - 1" using assms by (metis Suc_pred' less_Suc_eq_le mod_less_divisor)
  ultimately show "n \<le> (n + m - 1) div m * m" "(n + m - 1) div m * m < n + m" using assms by linarith+
qed

text \<open>The aligned address an allocation would use.\<close>
lemma Heap_cur:
  assumes "heap_inv h" "k \<le> 12"
  defines "a \<equiv> AlignUp (hp_base h + hp_used h) (2^k)"
  shows "heap_top h \<le> unat a" "unat a < heap_top h + 2^k" "2^k dvd unat a"
    "unat (a - hp_base h) = unat a - unat (hp_base h)" "unat (hp_base h) \<le> unat a"
proof -
  have k: "(2::nat)^k \<le> 4096" using assms(2) by (rule pow2_page)
  have a: "unat a = (heap_top h + 2^k - 1) div 2^k * 2^k"
    unfolding a_def using heap_top_word [OF assms(1)] k assms(2) by (subst unat_AlignUp) auto
  show b: "heap_top h \<le> unat a" "unat a < heap_top h + 2^k" unfolding a using round_up_bounds [of "2^k" "heap_top h"] by auto
  show "2^k dvd unat a" unfolding a by simp
  show "unat (hp_base h) \<le> unat a" using b(1) by (simp add: heap_top_def)
  then show "unat (a - hp_base h) = unat a - unat (hp_base h)" by (simp add: unat_sub word_le_nat_alt)
qed

lemma Heap_Alloc_cases:
  assumes "heap_inv h" "good_request sz k"
  defines "a \<equiv> AlignUp (hp_base h + hp_used h) (2^k)"
  shows "Heap_Alloc sz (2^k) h =
    (if unat a + unat sz > unat (hp_base h) + unat (hp_size h) then (0, h)
     else (a, h\<lparr>hp_used := a - hp_base h + sz\<rparr>))"
    and "unat a + unat sz \<le> unat (hp_base h) + unat (hp_size h) \<Longrightarrow>
      unat (a - hp_base h + sz) = unat a + unat sz - unat (hp_base h)"
proof -
  have k: "k \<le> 12" using assms(2) by (simp add: good_request_def)
  note c = Heap_cur [OF assms(1) k, folded a_def]
  have "unat (a - hp_base h) \<le> unat a" using c(4) by simp
  moreover have "unat sz < 2^62" using assms(2) by (simp add: good_request_def)
  ultimately have "unat (a - hp_base h) + unat sz < 2^64"
    using c(2) pow2_page [OF k] heap_top_word(2) [OF assms(1)] by simp
  then have s: "unat (a - hp_base h + sz) = unat (a - hp_base h) + unat sz"
    by (subst unat_add_lem [THEN iffD1]) auto
  then have "a - hp_base h + sz > hp_size h \<longleftrightarrow> unat a + unat sz > unat (hp_base h) + unat (hp_size h)"
    using c(4,5) by (simp only: word_less_nat_alt) linarith
  then show "Heap_Alloc sz (2^k) h =
    (if unat a + unat sz > unat (hp_base h) + unat (hp_size h) then (0, h)
     else (a, h\<lparr>hp_used := a - hp_base h + sz\<rparr>))"
    by (simp add: Heap_Alloc_def Let_def a_def)
  show "unat (a - hp_base h + sz) = unat a + unat sz - unat (hp_base h)" using s c(4,5) by simp
qed

lemma Heap_Alloc_ok:
  assumes "heap_inv h" "good_request sz k" "Heap_Alloc sz (2^k) h = (p, h')" "p \<noteq> 0"
  shows "2^k dvd unat p" "heap_top h \<le> unat p" "heap_top h' = unat p + unat sz"
    "unat p + unat sz \<le> unat (hp_base h) + unat (hp_size h)" "heap_inv h'"
    "hp_base h' = hp_base h" "hp_size h' = hp_size h" "hp_mem h' = hp_mem h"
proof -
  have k: "k \<le> 12" using assms(2) by (simp add: good_request_def)
  let ?a = "AlignUp (hp_base h + hp_used h) (2^k)"
  note c = Heap_cur [OF assms(1) k] and A = Heap_Alloc_cases [OF assms(1,2)]
  have r: "p = ?a" "h' = h\<lparr>hp_used := ?a - hp_base h + sz\<rparr>"
    and fit: "unat ?a + unat sz \<le> unat (hp_base h) + unat (hp_size h)"
    using assms(3,4) A(1) by (auto split: if_splits)
  show "2^k dvd unat p" "heap_top h \<le> unat p" using c r by auto
  show f: "unat p + unat sz \<le> unat (hp_base h) + unat (hp_size h)" using fit r by simp
  show "hp_base h' = hp_base h" "hp_size h' = hp_size h" "hp_mem h' = hp_mem h" using r by simp_all
  show "heap_top h' = unat p + unat sz" using r A(2) [OF fit] c(5) by (simp add: heap_top_def)
  show "heap_inv h'" using assms(1) r A(2) [OF fit] f by (simp add: heap_inv_def word_le_nat_alt)
qed

lemma Heap_Alloc_null:
  assumes "heap_inv h" "good_request sz k" "fst (Heap_Alloc sz (2^k) h) = 0"
  shows "snd (Heap_Alloc sz (2^k) h) = h"
    "unat (AlignUp (hp_base h + hp_used h) (2^k)) + unat sz > unat (hp_base h) + unat (hp_size h)"
proof -
  have k: "k \<le> 12" using assms(2) by (simp add: good_request_def)
  have "0 < unat (AlignUp (hp_base h + hp_used h) (2^k))"
    using Heap_cur(5) [OF assms(1) k] assms(1) by (simp add: heap_inv_def)
  then have "AlignUp (hp_base h + hp_used h) (2^k) \<noteq> 0" by auto
  then show "snd (Heap_Alloc sz (2^k) h) = h"
    "unat (AlignUp (hp_base h + hp_used h) (2^k)) + unat sz > unat (hp_base h) + unat (hp_size h)"
    using assms(3) Heap_Alloc_cases(1) [OF assms(1,2)] by (auto split: if_splits)
qed

lemma Heap_Alloc_inv [kinv]:
  "heap_inv h \<Longrightarrow> good_request sz k \<Longrightarrow> heap_inv (snd (Heap_Alloc sz (2^k) h))"
  using Heap_Alloc_ok(5) [of h sz k] Heap_Alloc_null(1) [of h sz k]
  by (cases "Heap_Alloc sz (2^k) h") fastforce

lemma Heap_AllocZeroed_inv [kinv]:
  "heap_inv h \<Longrightarrow> good_request sz k \<Longrightarrow> heap_inv (snd (Heap_AllocZeroed sz (2^k) h))"
  using Heap_Alloc_inv [of h sz k]
  by (cases "Heap_Alloc sz (2^k) h") (simp add: Heap_AllocZeroed_def heap_inv_def)

section \<open>Sequences of allocations\<close>

text \<open>The blocks (address, size) that a list of requests obtains, in order.\<close>
fun Heap_AllocSeq :: "(u64 \<times> nat) list \<Rightarrow> kheap \<Rightarrow> (u64 \<times> u64) list \<times> kheap" where
  "Heap_AllocSeq [] h = ([], h)"
| "Heap_AllocSeq ((sz, k) # rs) h =
    (let (p, h1) = Heap_Alloc sz (2^k) h; (bs, h2) = Heap_AllocSeq rs h1
     in (if p = 0 then bs else (p, sz) # bs, h2))"

text \<open>The blocks lie one after the other between two bounds.\<close>
fun blocks_between :: "nat \<Rightarrow> (u64 \<times> u64) list \<Rightarrow> nat \<Rightarrow> bool" where
  "blocks_between lo [] hi \<longleftrightarrow> lo \<le> hi"
| "blocks_between lo ((p, sz) # bs) hi \<longleftrightarrow> lo \<le> unat p \<and> blocks_between (unat p + unat sz) bs hi"

lemma Heap_AllocSeq_between:
  assumes "heap_inv h" "\<And>sz k. (sz, k) \<in> set rs \<Longrightarrow> good_request sz k"
  shows "blocks_between (heap_top h) (fst (Heap_AllocSeq rs h)) (unat (hp_base h) + unat (hp_size h))
    \<and> heap_inv (snd (Heap_AllocSeq rs h))"
  using assms
proof (induction rs h rule: Heap_AllocSeq.induct)
  case (1 h)
  then show ?case by (simp add: heap_inv_def heap_top_def word_le_nat_alt)
next
  case (2 sz k rs h)
  obtain p h1 where A: "Heap_Alloc sz (2^k) h = (p, h1)" by fastforce
  obtain bs h2 where B: "Heap_AllocSeq rs h1 = (bs, h2)" by fastforce
  have g: "good_request sz k" using 2 by simp
  have "heap_inv h1" using Heap_Alloc_inv [OF "2.prems"(1) g] A by simp
  then have IH: "blocks_between (heap_top h1) bs (unat (hp_base h1) + unat (hp_size h1)) \<and> heap_inv h2"
    using "2.IH" [OF A [symmetric] refl] "2.prems"(2) B by auto
  show ?case
  proof (cases "p = 0")
    case True
    then have "h1 = h" using Heap_Alloc_null(1) [OF "2.prems"(1) g] A by simp
    then show ?thesis using IH A B True by simp
  next
    case False
    then show ?thesis using IH A B Heap_Alloc_ok [OF "2.prems"(1) g A] by simp
  qed
qed

lemma blocks_between_le: "blocks_between lo bs hi \<Longrightarrow> lo \<le> hi"
  by (induction lo bs hi rule: blocks_between.induct) auto

lemma blocks_between_mem:
  "blocks_between lo bs hi \<Longrightarrow> (p, sz) \<in> set bs \<Longrightarrow> lo \<le> unat p \<and> unat p + unat sz \<le> hi"
proof (induction lo bs hi rule: blocks_between.induct)
  case (2 lo q s bs hi)
  then show ?case using blocks_between_le [of "unat q + unat s" bs hi] by auto
qed simp

lemma blocks_between_sorted:
  "blocks_between lo bs hi \<Longrightarrow> sorted_wrt (\<lambda>(p, s) (q, t). unat p + unat s \<le> unat q) bs"
proof (induction lo bs hi rule: blocks_between.induct)
  case (2 lo p s bs hi)
  then show ?case by (auto dest: blocks_between_mem)
qed simp

section \<open>Correctness of the heap\<close>

definition heap_demo :: kheap where
  "heap_demo = \<lparr>hp_base = 0x400000, hp_size = 0x1000, hp_used = 0x18, hp_mem = (\<lambda>_. 0xAA)\<rparr>"

lemma heap_demo_inv: "heap_inv heap_demo"
  by (simp add: heap_inv_def heap_demo_def)

text \<open>The blocks a sequence of requests obtains are pairwise disjoint and stay in
  the region of the heap, above everything handed out before.\<close>
theorem Heap_AllocSeq_disjoint:
  assumes "heap_inv h" "\<forall>(sz, k)\<in>set rs. good_request sz k"
  shows "sorted_wrt (\<lambda>(p, s) (q, t). unat p + unat s \<le> unat q) (fst (Heap_AllocSeq rs h))
    \<and> (\<forall>(p, s)\<in>set (fst (Heap_AllocSeq rs h)).
          heap_top h \<le> unat p \<and> unat p + unat s \<le> unat (hp_base h) + unat (hp_size h))
    \<and> heap_inv (snd (Heap_AllocSeq rs h))"
proof -
  have "blocks_between (heap_top h) (fst (Heap_AllocSeq rs h)) (unat (hp_base h) + unat (hp_size h))
    \<and> heap_inv (snd (Heap_AllocSeq rs h))"
    using assms by (intro Heap_AllocSeq_between) auto
  then show ?thesis by (auto dest: blocks_between_sorted blocks_between_mem)
qed

lemma Heap_AllocSeq_disjoint_witness:
  "Heap_AllocSeq [(24, 3), (100, 4), (0x1000, 4), (8, 12)] heap_demo =
     ([(0x400018, 24), (0x400030, 100)], heap_demo\<lparr>hp_used := 0x94\<rparr>)
   \<and> heap_inv (snd (Heap_AllocSeq [(24, 3), (100, 4), (0x1000, 4), (8, 12)] heap_demo))"
proof
  show "Heap_AllocSeq [(24, 3), (100, 4), (0x1000, 4), (8, 12)] heap_demo =
     ([(0x400018, 24), (0x400030, 100)], heap_demo\<lparr>hp_used := 0x94\<rparr>)"
    by (simp add: Heap_Alloc_def heap_demo_def AlignUp_def Let_def)
  show "heap_inv (snd (Heap_AllocSeq [(24, 3), (100, 4), (0x1000, 4), (8, 12)] heap_demo))"
    by (rule Heap_AllocSeq_disjoint [THEN conjunct2, THEN conjunct2, OF heap_demo_inv])
       (simp add: good_request_def)
qed

text \<open>AllocZeroed returns an aligned block of zero bytes and leaves every byte
  outside it alone; when it fails nothing changes.\<close>
theorem Heap_AllocZeroed_zero:
  assumes "heap_inv h" "good_request sz k" "Heap_AllocZeroed sz (2^k) h = (p, h')"
  shows "if p = 0 then h' = h
    else 2^k dvd unat p
      \<and> (\<forall>a. hp_mem h' a = (if unat p \<le> unat a \<and> unat a < unat p + unat sz then 0 else hp_mem h a))"
proof (cases "p = 0")
  case True
  then show ?thesis using assms Heap_Alloc_null(1) [OF assms(1,2)]
    by (auto simp: Heap_AllocZeroed_def split: prod.splits if_splits)
next
  case False
  then obtain h1 where A: "Heap_Alloc sz (2^k) h = (p, h1)" "h' = h1\<lparr>hp_mem := zero_bytes p sz (hp_mem h1)\<rparr>"
    using assms(3) by (auto simp: Heap_AllocZeroed_def split: prod.splits if_splits)
  note ok = Heap_Alloc_ok [OF assms(1,2) A(1) False]
  have fit: "unat p + unat sz < 2^64" using ok(4) assms(1) by (simp add: heap_inv_def)
  have "a - p < sz \<longleftrightarrow> unat p \<le> unat a \<and> unat a < unat p + unat sz" for a
  proof (cases "p \<le> a")
    case True
    then show ?thesis by (auto simp: word_less_nat_alt word_le_nat_alt unat_sub)
  next
    case False
    then have "unat a < unat p" by (simp add: word_le_nat_alt)
    moreover have "unat (a - p) = 2^64 + unat a - unat p"
      using False by (simp add: unat_sub_if' word_le_nat_alt)
    ultimately show ?thesis using fit by (simp add: word_less_nat_alt)
  qed
  then show ?thesis using False ok(1,8) A(2) by (simp add: zero_bytes_def)
qed

lemma Heap_AllocZeroed_zero_witness:
  "hp_mem (snd (Heap_AllocZeroed 8 (2^4) heap_demo)) 0x400020 = 0"
  using Heap_AllocZeroed_zero [OF heap_demo_inv, of 8 4 "fst (Heap_AllocZeroed 8 (2^4) heap_demo)"
      "snd (Heap_AllocZeroed 8 (2^4) heap_demo)"]
  by (simp add: good_request_def) (simp add: Heap_AllocZeroed_def Heap_Alloc_def heap_demo_def AlignUp_def)

text \<open>The size check adds at 64 bits, so a request within one block of 2 to the 64
  wraps past it: the call succeeds although the block does not fit, and moves the bump pointer
  back, so that memory already handed out is handed out again.\<close>
theorem Heap_Alloc_wraps:
  assumes "heap_inv h" "16 dvd unat (hp_base h)" "16 dvd unat (hp_used h)" "16 < unat (hp_used h)"
  shows "Heap_Alloc (16 - hp_used h) 16 h = (hp_base h + hp_used h, h\<lparr>hp_used := 16\<rparr>)
    \<and> unat (16 - hp_used h) > unat (hp_size h) \<and> heap_top (h\<lparr>hp_used := 16\<rparr>) < heap_top h"
proof -
  note t = heap_top_word [OF assms(1)]
  have d: "16 dvd heap_top h" using assms(2,3) by (simp add: heap_top_def)
  then obtain m where m: "heap_top h = 16 * m" by (rule dvdE)
  have "unat (AlignUp (hp_base h + hp_used h) (2^4)) = (16 * m + 15) div 16 * 16"
    using t m by (subst unat_AlignUp) auto
  then have "unat (AlignUp (hp_base h + hp_used h) 16) = unat (hp_base h + hp_used h)"
    using t m by simp
  then have a: "AlignUp (hp_base h + hp_used h) 16 = hp_base h + hp_used h" by (rule unsigned_word_eqI)
  have le: "unat (hp_used h) \<le> unat (hp_size h)" "unat (hp_size h) < 2^63"
    using assms(1) by (simp_all add: heap_inv_def word_le_nat_alt)
  then have "\<not> 16 > hp_size h" using assms(4) by (simp add: word_less_nat_alt)
  then have 1: "Heap_Alloc (16 - hp_used h) 16 h = (hp_base h + hp_used h, h\<lparr>hp_used := 16\<rparr>)"
    by (simp add: Heap_Alloc_def a Let_def)
  have "unat (16 - hp_used h) = 2^64 + 16 - unat (hp_used h)"
    using assms(4) by (simp add: unat_sub_if' word_le_nat_alt)
  then have "unat (16 - hp_used h) > unat (hp_size h)" using le by simp
  then show ?thesis using 1 assms(4) by (simp add: heap_top_def)
qed

lemma Heap_Alloc_wraps_witness:
  "fst (Heap_Alloc 8 16 (snd (Heap_Alloc (16 - 0x40) 16 (heap_demo\<lparr>hp_used := 0x40\<rparr>)))) = 0x400010"
proof -
  have "heap_inv (heap_demo\<lparr>hp_used := 0x40\<rparr>)" by (simp add: heap_inv_def heap_demo_def)
  from Heap_Alloc_wraps [OF this] show ?thesis
    by (simp add: heap_demo_def) (simp add: Heap_Alloc_def AlignUp_def)
qed

end
