(* ===== verification/SyncObjects.thy ===== *)
theory SyncObjects
  imports Scheduler KernelHeap
begin

text \<open>Synchronisation objects: events (kernel/sync/event.cpp), and the semaphores, mutants and
  process waits that kernel/syscall/syscall.cpp implements inside its handlers.  A handler that
  blocks ends with Schedule; the status it returns then reaches the caller when that thread is
  current again.  A system call always comes from a current thread; where the code would
  dereference a null current thread the model returns STATUS_UNSUCCESSFUL.\<close>

section \<open>State\<close>

record KEvent =
  signaled :: bool
  auto_reset :: bool
  waiters :: "node option"
  ev_name :: cstr

record KSema =
  sm_count :: int
  sm_max :: int
  sm_head :: "node option"
  sm_tail :: "node option"
  sm_in_use :: bool

record KMutant =
  mt_owner :: "node option"
  mt_depth :: u32
  mt_head :: "node option"
  mt_tail :: "node option"
  mt_in_use :: bool

text \<open>Event objects are named by their heap address.\<close>
record ksync = ksys +
  kh :: kheap
  evs :: "u64 \<Rightarrow> KEvent"
  s_events :: "u64 option list"
  s_semas :: "KSema list"
  s_mutants :: "KMutant list"
  s_proc_table :: "nat option list"

definition EVENT_TABLE_SIZE :: nat where "EVENT_TABLE_SIZE = 32"
definition SEMA_HANDLE_BASE :: u64 where "SEMA_HANDLE_BASE = 0x100"
definition SEMA_MAX :: nat where "SEMA_MAX = 8"
definition MUTANT_HANDLE_BASE :: u64 where "MUTANT_HANDLE_BASE = 0x200"
definition MUTANT_MAX :: nat where "MUTANT_MAX = 8"
definition PROC_HANDLE_BASE :: u64 where "PROC_HANDLE_BASE = 0x300"
definition PROC_TABLE_SIZE :: nat where "PROC_TABLE_SIZE = 8"

section \<open>Events (event.cpp)\<close>

definition EventInit :: "u64 \<Rightarrow> bool \<Rightarrow> bool \<Rightarrow> ksync \<Rightarrow> ksync" where
  "EventInit e ar init s = s\<lparr>evs := (evs s)(e := (evs s e)\<lparr>signaled := init, auto_reset := ar, waiters := None\<rparr>)\<rparr>"

definition upd_ev :: "u64 \<Rightarrow> (KEvent \<Rightarrow> KEvent) \<Rightarrow> ksync \<Rightarrow> ksync" where
  "upd_ev e f s = s\<lparr>evs := (evs s)(e := f (evs s e))\<rparr>"

definition EventSet :: "u64 \<Rightarrow> ksync \<Rightarrow> ksync" where
  "EventSet e s =
    (case waiters (evs s e) of
       Some t \<Rightarrow>
         (let s = upd_ev e (\<lambda>v. v\<lparr>waiters := WaitNext (thr s t)\<rparr>) s;
              s = upd t (\<lambda>k. k\<lparr>WaitNext := None\<rparr>) s;
              s = (if \<not> auto_reset (evs s e) then upd_ev e (\<lambda>v. v\<lparr>signaled := True\<rparr>) s else s);
              s = upd t (\<lambda>k. k\<lparr>State := READY\<rparr>) s
          in UnblockThread t s)
     | None \<Rightarrow> upd_ev e (\<lambda>v. v\<lparr>signaled := True\<rparr>) s)"

definition EventReset :: "u64 \<Rightarrow> ksync \<Rightarrow> ksync" where
  "EventReset e s = upd_ev e (\<lambda>v. v\<lparr>signaled := False\<rparr>) s"

definition EventWait :: "u64 \<Rightarrow> u32 \<Rightarrow> ksync \<Rightarrow> NTSTATUS \<times> ksync" where
  "EventWait e timeout_ms s =
    (if signaled (evs s e)
     then (STATUS_SUCCESS, if auto_reset (evs s e) then upd_ev e (\<lambda>v. v\<lparr>signaled := False\<rparr>) s else s)
     else if timeout_ms = 0 then (STATUS_TIMEOUT, s)
     else case s_current s of None \<Rightarrow> (STATUS_UNSUCCESSFUL, s)
     | Some t \<Rightarrow>
         (let s = upd t (\<lambda>k. k\<lparr>WaitNext := waiters (evs s e)\<rparr>) s;
              s = upd_ev e (\<lambda>v. v\<lparr>waiters := Some t\<rparr>) s;
              s = upd t (\<lambda>k. k\<lparr>State := BLOCKED\<rparr>) s
          in (STATUS_SUCCESS, Schedule s)))"

text \<open>sizeof(KEvent) is 64 and its alignment 8.\<close>
definition EventAlloc :: "bool \<Rightarrow> bool \<Rightarrow> ksync \<Rightarrow> u64 \<times> ksync" where
  "EventAlloc ar init s =
    (let (e, h) = Heap_AllocZeroed 64 8 (kh s); s = s\<lparr>kh := h\<rparr> in
     if e = 0 then (0, s)
     else (e, EventInit e ar init (upd_ev e (\<lambda>v. v\<lparr>ev_name := ''''\<rparr>) s)))"

section \<open>Event handlers (syscall.cpp)\<close>

fun find_free :: "'b option list \<Rightarrow> nat \<Rightarrow> nat option" where
  "find_free [] i = None"
| "find_free (x # xs) i = (if x = None then Some i else find_free xs (i + 1))"

definition NtCreateEvent :: "u64 \<Rightarrow> u64 \<Rightarrow> ksync \<Rightarrow> u64 \<times> ksync" where
  "NtCreateEvent a1 a2 s =
    (let (e, s) = EventAlloc (a1 \<noteq> 0) (a2 \<noteq> 0) s in
     if e = 0 then (0, s) else
     case find_free (s_events s) 0 of None \<Rightarrow> (0, s)
     | Some i \<Rightarrow> (of_nat (i + 1), s\<lparr>s_events := (s_events s)[i := Some e]\<rparr>))"

text \<open>The event a handle names: index a1 - 1, which wraps for handle 0.\<close>
definition event_of :: "u64 \<Rightarrow> ksync \<Rightarrow> u64 option" where
  "event_of a1 s = (let idx = unat (a1 - 1) in
     if idx \<ge> EVENT_TABLE_SIZE then None else s_events s ! idx)"

definition NtSetEvent :: "u64 \<Rightarrow> ksync \<Rightarrow> u64 \<times> ksync" where
  "NtSetEvent a1 s = (case event_of a1 s of None \<Rightarrow> (nt STATUS_INVALID_HANDLE, s)
     | Some e \<Rightarrow> (nt STATUS_SUCCESS, EventSet e s))"

definition NtResetEvent :: "u64 \<Rightarrow> ksync \<Rightarrow> u64 \<times> ksync" where
  "NtResetEvent a1 s = (case event_of a1 s of None \<Rightarrow> (nt STATUS_INVALID_HANDLE, s)
     | Some e \<Rightarrow> (nt STATUS_SUCCESS, EventReset e s))"

section \<open>FIFO wait queues of semaphores and mutants\<close>

definition wq_push :: "node \<Rightarrow> node option \<times> node option \<Rightarrow> 'a ksys_scheme \<Rightarrow> (node option \<times> node option) \<times> 'a ksys_scheme" where
  "wq_push cur q s =
    (let s = upd cur (\<lambda>k. k\<lparr>WaitNext := None\<rparr>) s in
     case q of (head, tail) \<Rightarrow>
       (case tail of Some lastn \<Rightarrow> ((head, Some cur), upd lastn (\<lambda>k. k\<lparr>WaitNext := Some cur\<rparr>) s)
        | None \<Rightarrow> ((Some cur, Some cur), s)))"

text \<open>Taking the head t of a queue.\<close>
definition wq_pop :: "node \<Rightarrow> node option \<times> node option \<Rightarrow> 'a ksys_scheme \<Rightarrow> (node option \<times> node option) \<times> 'a ksys_scheme" where
  "wq_pop t q s =
    (let head = WaitNext (thr s t); tail = (if head = None then None else snd q)
     in ((head, tail), upd t (\<lambda>k. k\<lparr>WaitNext := None\<rparr>) s))"

section \<open>Semaphores\<close>

text \<open>A signed 32-bit sum; in C++ its overflow is undefined, here it wraps as compiled.\<close>
definition i32_add :: "int \<Rightarrow> int \<Rightarrow> int" where
  "i32_add a b = sint (word_of_int (a + b) :: i32)"

fun find_unused :: "('b \<Rightarrow> bool) \<Rightarrow> 'b list \<Rightarrow> nat \<Rightarrow> nat option" where
  "find_unused p [] i = None"
| "find_unused p (x # xs) i = (if \<not> p x then Some i else find_unused p xs (i + 1))"

definition NtCreateSemaphore :: "u64 \<Rightarrow> u64 \<Rightarrow> ksync \<Rightarrow> u64 \<times> ksync" where
  "NtCreateSemaphore a1 a2 s =
    (let init = sint (ucast a1 :: i32); maxc = sint (ucast a2 :: i32) in
     if init < 0 \<or> maxc \<le> 0 \<or> init > maxc then (0, s) else
     case find_unused sm_in_use (s_semas s) 0 of None \<Rightarrow> (0, s)
     | Some i \<Rightarrow> (SEMA_HANDLE_BASE + of_nat i, s\<lparr>s_semas := (s_semas s)[i :=
         \<lparr>sm_count = init, sm_max = maxc, sm_head = None, sm_tail = None, sm_in_use = True\<rparr>]\<rparr>))"

text \<open>The waking loop: the permits left, the queue left and the state.\<close>
fun release_loop :: "nat \<Rightarrow> node option \<times> node option \<Rightarrow> 'a ksys_scheme \<Rightarrow> nat \<times> (node option \<times> node option) \<times> 'a ksys_scheme" where
  "release_loop 0 q s = (0, q, s)"
| "release_loop (Suc r) q s =
    (case fst q of None \<Rightarrow> (Suc r, q, s)
     | Some t \<Rightarrow> (let (q, s) = wq_pop t q s in release_loop r q (UnblockThread t s)))"

definition NtReleaseSemaphore :: "u64 \<Rightarrow> u64 \<Rightarrow> ksync \<Rightarrow> u64 \<times> ksync" where
  "NtReleaseSemaphore a1 a2 s =
    (let i = unat (a1 - SEMA_HANDLE_BASE) in
     if a1 < SEMA_HANDLE_BASE \<or> i \<ge> SEMA_MAX \<or> \<not> sm_in_use (s_semas s ! i) then (nt STATUS_INVALID_HANDLE, s) else
     let m = s_semas s ! i; rel0 = sint (ucast a2 :: i32); rel = (if rel0 \<le> 0 then 1 else nat rel0);
         (left, q, s) = release_loop rel (sm_head m, sm_tail m) s;
         total = i32_add (sm_count m) (int left);
         m = m\<lparr>sm_head := fst q, sm_tail := snd q, sm_count := (if total > sm_max m then sm_max m else total)\<rparr>
     in (nt STATUS_SUCCESS, s\<lparr>s_semas := (s_semas s)[i := m]\<rparr>))"

definition WaitSemaphore :: "u64 \<Rightarrow> u64 \<Rightarrow> ksync \<Rightarrow> u64 \<times> ksync" where
  "WaitSemaphore a1 a2 s =
    (let i = unat (a1 - SEMA_HANDLE_BASE) in
     if i \<ge> SEMA_MAX \<or> \<not> sm_in_use (s_semas s ! i) then (nt STATUS_INVALID_HANDLE, s) else
     let m = s_semas s ! i in
     if sm_count m > 0 then
       (nt STATUS_SUCCESS, s\<lparr>s_semas := (s_semas s)[i := m\<lparr>sm_count := sm_count m - 1\<rparr>]\<rparr>)
     else if a2 = 0 then (nt STATUS_TIMEOUT, s)
     else case s_current s of None \<Rightarrow> (nt STATUS_UNSUCCESSFUL, s)
     | Some cur \<Rightarrow>
         (let (q, s) = wq_push cur (sm_head m, sm_tail m) s;
              s = s\<lparr>s_semas := (s_semas s)[i := m\<lparr>sm_head := fst q, sm_tail := snd q\<rparr>]\<rparr>
          in (nt STATUS_SUCCESS, Schedule (BlockCurrentThread s))))"

section \<open>Mutants\<close>

definition NtCreateMutant :: "u64 \<Rightarrow> ksync \<Rightarrow> u64 \<times> ksync" where
  "NtCreateMutant a1 s =
    (case find_unused mt_in_use (s_mutants s) 0 of None \<Rightarrow> (0, s)
     | Some i \<Rightarrow> (MUTANT_HANDLE_BASE + of_nat i, s\<lparr>s_mutants := (s_mutants s)[i :=
         \<lparr>mt_owner = (if a1 \<noteq> 0 then s_current s else None), mt_depth = (if a1 \<noteq> 0 then 1 else 0),
          mt_head = None, mt_tail = None, mt_in_use = True\<rparr>]\<rparr>))"

definition WaitMutant :: "u64 \<Rightarrow> ksync \<Rightarrow> u64 \<times> ksync" where
  "WaitMutant a1 s =
    (let i = unat (a1 - MUTANT_HANDLE_BASE) in
     if i \<ge> MUTANT_MAX \<or> \<not> mt_in_use (s_mutants s ! i) then (nt STATUS_INVALID_HANDLE, s) else
     let m = s_mutants s ! i in
     if mt_owner m = None then
       (nt STATUS_SUCCESS, s\<lparr>s_mutants := (s_mutants s)[i := m\<lparr>mt_owner := s_current s, mt_depth := 1\<rparr>]\<rparr>)
     else if mt_owner m = s_current s then
       (nt STATUS_SUCCESS, s\<lparr>s_mutants := (s_mutants s)[i := m\<lparr>mt_depth := mt_depth m + 1\<rparr>]\<rparr>)
     else case s_current s of None \<Rightarrow> (nt STATUS_UNSUCCESSFUL, s)
     | Some cur \<Rightarrow>
         (let (q, s) = wq_push cur (mt_head m, mt_tail m) s;
              s = s\<lparr>s_mutants := (s_mutants s)[i := m\<lparr>mt_head := fst q, mt_tail := snd q\<rparr>]\<rparr>
          in (nt STATUS_SUCCESS, Schedule (BlockCurrentThread s))))"

definition NtReleaseMutant :: "u64 \<Rightarrow> ksync \<Rightarrow> u64 \<times> ksync" where
  "NtReleaseMutant a1 s =
    (let i = unat (a1 - MUTANT_HANDLE_BASE) in
     if a1 < MUTANT_HANDLE_BASE \<or> i \<ge> MUTANT_MAX \<or> \<not> mt_in_use (s_mutants s ! i) then (nt STATUS_INVALID_HANDLE, s) else
     let m = s_mutants s ! i in
     if mt_owner m \<noteq> s_current s then (nt STATUS_MUTANT_NOT_OWNED, s) else
     let m = m\<lparr>mt_depth := mt_depth m - 1\<rparr> in
     if mt_depth m = 0 then
       (case mt_head m of
          Some t \<Rightarrow>
            (let (q, s) = wq_pop t (mt_head m, mt_tail m) s;
                 m = m\<lparr>mt_head := fst q, mt_tail := snd q, mt_owner := Some t, mt_depth := 1\<rparr>;
                 s = s\<lparr>s_mutants := (s_mutants s)[i := m]\<rparr>
             in (nt STATUS_SUCCESS, UnblockThread t s))
        | None \<Rightarrow> (nt STATUS_SUCCESS, s\<lparr>s_mutants := (s_mutants s)[i := m\<lparr>mt_owner := None\<rparr>]\<rparr>))
     else (nt STATUS_SUCCESS, s\<lparr>s_mutants := (s_mutants s)[i := m]\<rparr>))"

section \<open>Waiting on any handle\<close>

definition upd_proc :: "nat \<Rightarrow> (KProcess \<Rightarrow> KProcess) \<Rightarrow> 'a ksys_scheme \<Rightarrow> 'a ksys_scheme" where
  "upd_proc p f s = s\<lparr>prc := (prc s)(p := f (prc s p))\<rparr>"

definition WaitProcess :: "u64 \<Rightarrow> u64 \<Rightarrow> ksync \<Rightarrow> u64 \<times> ksync" where
  "WaitProcess a1 a2 s =
    (let i = unat (a1 - PROC_HANDLE_BASE) in
     if i \<ge> PROC_TABLE_SIZE then (nt STATUS_INVALID_HANDLE, s) else
     case s_proc_table s ! i of None \<Rightarrow> (nt STATUS_INVALID_HANDLE, s)
     | Some p \<Rightarrow>
       if exited (prc s p) then (nt STATUS_SUCCESS, s)
       else if a2 = 0 then (nt STATUS_TIMEOUT, s)
       else case s_current s of None \<Rightarrow> (nt STATUS_UNSUCCESSFUL, s)
       | Some cur \<Rightarrow>
           (let s = upd cur (\<lambda>k. k\<lparr>WaitNext := exit_waiters (prc s p)\<rparr>) s;
                s = upd_proc p (\<lambda>q. q\<lparr>exit_waiters := Some cur\<rparr>) s
            in (nt STATUS_SUCCESS, Schedule (BlockCurrentThread s))))"

definition NtWaitForSingleObject :: "u64 \<Rightarrow> u64 \<Rightarrow> ksync \<Rightarrow> u64 \<times> ksync" where
  "NtWaitForSingleObject a1 a2 s =
    (if a1 \<ge> PROC_HANDLE_BASE then WaitProcess a1 a2 s
     else if a1 \<ge> MUTANT_HANDLE_BASE then WaitMutant a1 s
     else if a1 \<ge> SEMA_HANDLE_BASE then WaitSemaphore a1 a2 s
     else case event_of a1 s of None \<Rightarrow> (nt STATUS_INVALID_HANDLE, s)
     | Some e \<Rightarrow> (let (st, s) = EventWait e (ucast a2) s in (nt st, s)))"

section \<open>Process exit (process.cpp)\<close>

text \<open>Waking the threads that wait for an exit: the list may be of any length, so the loop is
  bounded by fuel only through its structure; it ends because every step clears a link.\<close>
partial_function (option) wake_waiters :: "node option \<Rightarrow> 'a ksys_scheme \<Rightarrow> 'a ksys_scheme option" where
  "wake_waiters w s =
    (case w of None \<Rightarrow> Some s
     | Some t \<Rightarrow> (let nxt = WaitNext (thr s t); s = upd t (\<lambda>k. k\<lparr>WaitNext := None\<rparr>) s
                 in wake_waiters nxt (UnblockThread t s)))"

definition exit_process :: "nat \<Rightarrow> 'a ksys_scheme \<Rightarrow> 'a ksys_scheme option" where
  "exit_process p s =
    (let w = exit_waiters (prc s p); s = upd_proc p (\<lambda>q. q\<lparr>exited := True, exit_waiters := None\<rparr>) s
     in wake_waiters w s)"

text \<open>The thread never runs again: the state after the switch is the result.\<close>
definition TerminateCurrentThread :: "'a ksys_scheme \<Rightarrow> 'a ksys_scheme option" where
  "TerminateCurrentThread s =
    (case s_current s of None \<Rightarrow> Some (Schedule s)
     | Some t \<Rightarrow>
        (let s = upd t (\<lambda>k. k\<lparr>State := TERMINATED\<rparr>) s in
         case Process (thr s t) of None \<Rightarrow> Some (Schedule s)
         | Some p \<Rightarrow>
            if thread_count (prc s p) > 0 then
              (let s = upd_proc p (\<lambda>q. q\<lparr>thread_count := thread_count q - 1\<rparr>) s in
               if thread_count (prc s p) = 0 then map_option Schedule (exit_process p s) else Some (Schedule s))
            else Some (Schedule s)))"

fun find_process :: "nat list \<Rightarrow> u32 \<Rightarrow> 'a ksys_scheme \<Rightarrow> nat option" where
  "find_process [] pid s = None"
| "find_process (p # ps) pid s = (if Pid (prc s p) = pid \<and> \<not> exited (prc s p) then Some p else find_process ps pid s)"

definition kill_thread :: "nat \<Rightarrow> node \<Rightarrow> 'a ksys_scheme \<Rightarrow> 'a ksys_scheme" where
  "kill_thread target t s =
    (if Process (thr s t) = Some target \<and> State (thr s t) \<noteq> TERMINATED
     then upd t (\<lambda>k. k\<lparr>State := TERMINATED\<rparr>) s else s)"

definition KillProcess :: "u32 \<Rightarrow> 'a ksys_scheme \<Rightarrow> (bool \<times> 'a ksys_scheme) option" where
  "KillProcess pid s =
    (case find_process (s_proc_reg s) pid s of None \<Rightarrow> Some (False, s)
     | Some p \<Rightarrow>
        (let s = fold (kill_thread p) (s_thread_reg s) s;
             s = upd_proc p (\<lambda>q. q\<lparr>thread_count := 0, ExitStatus := -1\<rparr>) s
         in map_option (Pair True) (exit_process p s)))"

section \<open>The interface of the wait queues\<close>

text \<open>A queue q of waiting threads in a state s: what the handlers rely on.  The queue has a
  front, a thread joins at the back, and the front leaves.\<close>
locale wait_queue =
  fixes push :: "node \<Rightarrow> 'q \<Rightarrow> 's \<Rightarrow> 'q \<times> 's"
    and front :: "'q \<Rightarrow> node option"
    and pop :: "node \<Rightarrow> 'q \<Rightarrow> 's \<Rightarrow> 'q \<times> 's"
    and waits :: "'s \<Rightarrow> 'q \<Rightarrow> nat list \<Rightarrow> bool"
  assumes front_waits: "waits s q ts \<Longrightarrow> front q = (case ts of [] \<Rightarrow> None | t # _ \<Rightarrow> Some (Thr t))"
    and push_waits: "waits s q ts \<Longrightarrow> t \<notin> set ts \<Longrightarrow> distinct ts \<Longrightarrow> push (Thr t) q s = (q', s') \<Longrightarrow> waits s' q' (ts @ [t])"
    and pop_waits: "waits s q (t # ts) \<Longrightarrow> distinct (t # ts) \<Longrightarrow> pop (Thr t) q s = (q', s') \<Longrightarrow> waits s' q' ts"
begin

lemma front_None: "waits s q ts \<Longrightarrow> front q = None \<longleftrightarrow> ts = []"
  using front_waits [of s q ts] by (simp split: list.splits)

text \<open>First come, first served: a thread that joins does not pass the ones in front of it.\<close>
lemma push_keeps_front:
  assumes "waits s q (t # ts)" "u \<notin> set (t # ts)" "distinct (t # ts)" "push (Thr u) q s = (q', s')"
  shows "front q' = front q"
proof -
  have "waits s' q' ((t # ts) @ [u])" by (rule push_waits) (use assms in auto)
  then show ?thesis using front_waits [OF assms(1)] front_waits [of s' q' "(t # ts) @ [u]"] by simp
qed

end

fun wchain :: "'a ksys_scheme \<Rightarrow> node option \<Rightarrow> nat list \<Rightarrow> bool" where
  "wchain s l [] \<longleftrightarrow> l = None"
| "wchain s l (t # ts) \<longleftrightarrow> l = Some (Thr t) \<and> wchain s (WaitNext (thr s (Thr t))) ts"

definition wq_repr :: "'a ksys_scheme \<Rightarrow> node option \<times> node option \<Rightarrow> nat list \<Rightarrow> bool" where
  "wq_repr s q ts \<longleftrightarrow> wchain s (fst q) ts \<and> snd q = (if ts = [] then None else Some (Thr (last ts)))"

lemma wchain_cong:
  "(\<And>t. t \<in> set ts \<Longrightarrow> WaitNext (thr s' (Thr t)) = WaitNext (thr s (Thr t))) \<Longrightarrow> wchain s' l ts = wchain s l ts"
  by (induction ts arbitrary: l) auto

lemma wchain_snoc:
  assumes "wchain s l ts" "ts \<noteq> []" "distinct ts" "t \<notin> set ts" "WaitNext (thr s (Thr t)) = None"
  shows "wchain (upd (Thr (last ts)) (\<lambda>k. k\<lparr>WaitNext := Some (Thr t)\<rparr>) s) l (ts @ [t])"
  using assms
proof (induction ts arbitrary: l)
  case (Cons u us)
  show ?case
  proof (cases "us = []")
    case True
    then show ?thesis using Cons.prems by auto
  next
    case False
    then have "u \<noteq> last us" using Cons.prems(3) last_in_set by force
    then show ?thesis using Cons False by auto
  qed
qed simp

interpretation wq: wait_queue wq_push fst wq_pop wq_repr
proof unfold_locales
  fix s :: "'a ksys_scheme" and q q' :: "node option \<times> node option" and ts :: "nat list" and t :: nat and s'
  show "fst q = (case ts of [] \<Rightarrow> None | t # _ \<Rightarrow> Some (Thr t))" if "wq_repr s q ts"
    using that by (auto simp: wq_repr_def split: list.split)
  show "wq_repr s' q' (ts @ [t])" if "wq_repr s q ts" "t \<notin> set ts" "distinct ts" "wq_push (Thr t) q s = (q', s')"
  proof -
    let ?s = "upd (Thr t) (\<lambda>k. k\<lparr>WaitNext := None\<rparr>) s"
    have "wchain ?s (fst q) ts = wchain s (fst q) ts" by (rule wchain_cong) (use that(2) in auto)
    then have c: "wchain ?s (fst q) ts" using that(1) by (simp add: wq_repr_def)
    show ?thesis
      using that wchain_snoc [OF c _ that(3,2)] by (auto simp: wq_repr_def wq_push_def Let_def split: prod.splits if_splits)
  qed
  show "wq_repr s' q' ts" if "wq_repr s q (t # ts)" "distinct (t # ts)" "wq_pop (Thr t) q s = (q', s')"
  proof -
    let ?s = "upd (Thr t) (\<lambda>k. k\<lparr>WaitNext := None\<rparr>) s"
    have "wchain ?s (WaitNext (thr s (Thr t))) ts = wchain s (WaitNext (thr s (Thr t))) ts"
      by (rule wchain_cong) (use that(2) in auto)
    then show ?thesis using that by (cases ts) (auto simp: wq_repr_def wq_pop_def Let_def)
  qed
qed

section \<open>Waking the front of a queue\<close>

definition alive :: "'a ksys_scheme \<Rightarrow> nat \<Rightarrow> bool" where
  "alive s t \<longleftrightarrow> State (thr s (Thr t)) \<noteq> TERMINATED"

text \<open>The threads ts were woken in order: the live ones joined their ready queues, and nothing else changed.\<close>
definition wakes :: "nat list \<Rightarrow> (nat \<Rightarrow> nat list) \<Rightarrow> 'a ksys_scheme \<Rightarrow> 'a ksys_scheme \<Rightarrow> bool" where
  "wakes ts qs s s' \<longleftrightarrow>
     repr_queues s' (enqueue_all (\<lambda>t. queue_pri s (Thr t)) (filter (alive s) ts) qs)
     \<and> (\<forall>n. State (thr s' n) = (if \<exists>t\<in>set ts. n = Thr t \<and> alive s t then READY else State (thr s n)))
     \<and> (\<forall>n. WaitNext (thr s' n) = (if n \<in> Thr ` set ts then None else WaitNext (thr s n)))
     \<and> (\<forall>n. Priority (thr s' n) = Priority (thr s n)) \<and> (\<forall>n. Process (thr s' n) = Process (thr s n))
     \<and> s_current s' = s_current s \<and> s_active s' = s_active s \<and> s_quantum s' = s_quantum s \<and> prc s' = prc s
     \<and> s_thread_reg s' = s_thread_reg s \<and> s_proc_reg s' = s_proc_reg s
     \<and> ksys.more s' = ksys.more s"

lemma UnblockThread_fields [simp]:
  "State (thr (UnblockThread t s) n) = (if n = t \<and> State (thr s t) \<noteq> TERMINATED then READY else State (thr s n))"
  "WaitNext (thr (UnblockThread t s) n) = WaitNext (thr s n)" "Priority (thr (UnblockThread t s) n) = Priority (thr s n)"
  "Process (thr (UnblockThread t s) n) = Process (thr s n)" "SleepNext (thr (UnblockThread t s) n) = SleepNext (thr s n)"
  "s_current (UnblockThread t s) = s_current s" "s_active (UnblockThread t s) = s_active s"
  "s_quantum (UnblockThread t s) = s_quantum s" "prc (UnblockThread t s) = prc s"
  "s_thread_reg (UnblockThread t s) = s_thread_reg s" "s_proc_reg (UnblockThread t s) = s_proc_reg s"
  "s_sleep_head (UnblockThread t s) = s_sleep_head s" "pit_ticks (UnblockThread t s) = pit_ticks s"
  "ksys.more (UnblockThread t s) = ksys.more s" "queue_pri (UnblockThread t s) n = queue_pri s n"
  by (simp_all add: UnblockThread_def queue_pri_def)

lemma UnblockThread_repr:
  assumes "repr_queues s qs" "t \<notin> queued qs"
  shows "repr_queues (UnblockThread (Thr t) s)
     (if alive s t then qs(queue_pri s (Thr t) := qs (queue_pri s (Thr t)) @ [t]) else qs)"
  using rq.push_back_repr [of "upd (Thr t) (\<lambda>k. k\<lparr>State := READY\<rparr>) s" qs t] assms
  by (simp add: UnblockThread_def alive_def)

lemma wakes_Nil [simp]: "wakes [] qs s s \<longleftrightarrow> repr_queues s qs"
  by (simp add: wakes_def)

text \<open>One thread leaves its wait list and is unblocked, then the rest follow.\<close>
lemma wakes_Cons:
  assumes w: "wakes ts qs' (UnblockThread (Thr t) (upd (Thr t) (\<lambda>k. k\<lparr>WaitNext := None\<rparr>) s)) s'"
    and qs': "qs' = (if alive s t then qs(queue_pri s (Thr t) := qs (queue_pri s (Thr t)) @ [t]) else qs)" and t: "t \<notin> set ts"
  shows "wakes (t # ts) qs s s'"
proof -
  let ?s1 = "UnblockThread (Thr t) (upd (Thr t) (\<lambda>k. k\<lparr>WaitNext := None\<rparr>) s)"
  have al: "alive ?s1 u = alive s u" if "u \<in> set ts" for u using that t by (auto simp: alive_def)
  have pri: "queue_pri ?s1 n = queue_pri s n" for n by (simp add: queue_pri_def)
  have f: "filter (alive ?s1) ts = filter (alive s) ts" by (rule filter_cong) (auto simp: al)
  have st: "State (thr s' n) = (if \<exists>u\<in>set (t # ts). n = Thr u \<and> alive s u then READY else State (thr s n))" for n
  proof -
    have e: "(\<exists>u\<in>set ts. n = Thr u \<and> alive ?s1 u) = (\<exists>u\<in>set ts. n = Thr u \<and> alive s u)" using al by blast
    have "State (thr s' n) = (if \<exists>u\<in>set ts. n = Thr u \<and> alive s u then READY else State (thr ?s1 n))"
      using w e unfolding wakes_def by metis
    then show ?thesis by (auto simp: alive_def)
  qed
  show ?thesis
    using w t unfolding wakes_def f pri qs' by (simp add: st) (auto simp: alive_def)
qed

lemma queued_push: "p < 3 \<Longrightarrow> queued (qs(p := qs p @ [t])) = insert t (queued qs)"
  by (auto simp: queued_def split: if_splits)

lemma release_loop_spec:
  assumes "wq_repr s q ts" "distinct ts" "repr_queues s qs" "set ts \<inter> queued qs = {}"
  shows "\<exists>q' s'. release_loop r q s = (r - length ts, q', s') \<and> wq_repr s' q' (drop r ts) \<and> wakes (take r ts) qs s s'"
  using assms
proof (induction r arbitrary: s q ts qs)
  case (Suc r)
  show ?case
  proof (cases ts)
    case Nil
    then have "fst q = None" using wq.front_waits [OF Suc.prems(1)] by simp
    then show ?thesis using Suc.prems Nil by simp
  next
    case (Cons t us)
    then have h: "fst q = Some (Thr t)" using wq.front_waits [OF Suc.prems(1)] by simp
    obtain q1 s1 where p: "wq_pop (Thr t) q s = (q1, s1)" by fastforce
    then have s1: "s1 = upd (Thr t) (\<lambda>k. k\<lparr>WaitNext := None\<rparr>) s" by (auto simp: wq_pop_def Let_def)
    have d: "t \<notin> set us" "distinct us" using Suc.prems(2) Cons by auto
    let ?s2 = "UnblockThread (Thr t) s1"
    let ?qs = "if alive s t then qs(queue_pri s (Thr t) := qs (queue_pri s (Thr t)) @ [t]) else qs"
    have "wq_repr s1 q1 us" by (rule wq.pop_waits [OF _ _ p]) (use Suc.prems Cons in auto)
    then have a: "wq_repr ?s2 q1 us" using wchain_cong [of us ?s2 s1] by (simp add: wq_repr_def)
    have tq: "t \<notin> queued qs" using Suc.prems(4) Cons by auto
    have "repr_queues s1 qs" using Suc.prems(3) unfolding s1 by (subst repr_cong) auto
    from UnblockThread_repr [OF this tq] have b: "repr_queues ?s2 ?qs"
      by (cases "alive s t") (simp_all add: alive_def s1 queue_pri_def)
    have c: "set us \<inter> queued ?qs = {}"
      using Suc.prems(4) Cons d queue_pri_lt [of s "Thr t"] by (auto simp: queued_push)
    obtain q' s' where r: "release_loop r q1 ?s2 = (r - length us, q', s')" "wq_repr s' q' (drop r us)"
      "wakes (take r us) ?qs ?s2 s'" using Suc.IH [OF a d(2) b c] by blast
    have "wakes (t # take r us) qs s s'"
      by (rule wakes_Cons [OF r(3) [unfolded s1] refl]) (use d(1) in \<open>auto dest: in_set_takeD\<close>)
    then show ?thesis using r p h Cons by simp
  qed
qed simp

lemma wake_waiters_spec:
  assumes "wchain s w ts" "distinct ts" "repr_queues s qs" "set ts \<inter> queued qs = {}"
  shows "\<exists>s'. wake_waiters w s = Some s' \<and> wakes ts qs s s'"
  using assms
proof (induction ts arbitrary: s w qs)
  case Nil
  then show ?case by (simp add: wake_waiters.simps)
next
  case (Cons t us)
  let ?s1 = "upd (Thr t) (\<lambda>k. k\<lparr>WaitNext := None\<rparr>) s"
  let ?s2 = "UnblockThread (Thr t) ?s1"
  let ?qs = "if alive s t then qs(queue_pri s (Thr t) := qs (queue_pri s (Thr t)) @ [t]) else qs"
  have d: "t \<notin> set us" "distinct us" and w: "w = Some (Thr t)" and tq: "t \<notin> queued qs" using Cons.prems by auto
  have "wchain ?s2 (WaitNext (thr s (Thr t))) us = wchain s (WaitNext (thr s (Thr t))) us"
    by (rule wchain_cong) (use d(1) in auto)
  then have a: "wchain ?s2 (WaitNext (thr s (Thr t))) us" using Cons.prems(1) by simp
  have "repr_queues ?s1 qs" using Cons.prems(3) by (subst repr_cong) auto
  from UnblockThread_repr [OF this tq] have b: "repr_queues ?s2 ?qs"
    by (cases "alive s t") (simp_all add: alive_def queue_pri_def)
  have c: "set us \<inter> queued ?qs = {}"
    using Cons.prems(4) d queue_pri_lt [of s "Thr t"] by (auto simp: queued_push)
  obtain s' where s': "wake_waiters (WaitNext (thr s (Thr t))) ?s2 = Some s'" "wakes us ?qs ?s2 s'"
    using Cons.IH [OF a d(2) b c] by blast
  have "wakes (t # us) qs s s'" by (rule wakes_Cons [OF s'(2) refl d(1)])
  then show ?case using s'(1) unfolding w by (subst wake_waiters.simps) (simp add: Let_def)
qed

section \<open>Semaphores keep their permits\<close>

lemma repr_sync [simp]:
  "repr_queues (s\<lparr>s_semas := v\<rparr>) qs = repr_queues s qs" "repr_queues (s\<lparr>s_mutants := v'\<rparr>) qs = repr_queues s qs"
  "repr_queues (upd_proc p f s) qs = repr_queues s qs" "repr_queues (upd_ev e g s) qs = repr_queues s qs"
  by (rule repr_cong, simp add: upd_proc_def upd_ev_def, simp add: upd_proc_def upd_ev_def)+

lemma wq_repr_cong:
  "(\<And>t. t \<in> set ts \<Longrightarrow> WaitNext (thr s' (Thr t)) = WaitNext (thr s (Thr t))) \<Longrightarrow> wq_repr s' q ts = wq_repr s q ts"
  using wchain_cong [of ts s' s "fst q"] by (simp add: wq_repr_def)

text \<open>Semaphore i with the threads ts waiting in order: the permits are within bounds, and no
  thread waits while there are any.\<close>
definition sema_inv :: "ksync \<Rightarrow> nat \<Rightarrow> nat list \<Rightarrow> bool" where
  "sema_inv s i ts \<longleftrightarrow> (let m = s_semas s ! i in i < SEMA_MAX \<and> length (s_semas s) = SEMA_MAX \<and> sm_in_use m
     \<and> 0 \<le> sm_count m \<and> sm_count m \<le> sm_max m \<and> sm_max m < 2 ^ 31 \<and> (0 < sm_count m \<longrightarrow> ts = [])
     \<and> wq_repr s (sm_head m, sm_tail m) ts \<and> distinct ts)"

definition sema_handle :: "nat \<Rightarrow> u64" where "sema_handle i = SEMA_HANDLE_BASE + of_nat i"

lemma handle_index:
  assumes "i < 8"
  shows "unat ((b + of_nat i :: u64) - b) = i"
proof -
  have "i mod 2 ^ 64 = i" using assms by simp
  then show ?thesis by (simp add: unat_of_nat)
qed

lemma sema_handle_ge: "i < 8 \<Longrightarrow> SEMA_HANDLE_BASE \<le> sema_handle i \<and> sema_handle i < MUTANT_HANDLE_BASE"
  by (auto simp: sema_handle_def SEMA_HANDLE_BASE_def MUTANT_HANDLE_BASE_def word_le_nat_alt word_less_nat_alt unat_word_ariths unat_of_nat)

lemma i32_add_small: "0 \<le> a + b \<Longrightarrow> a + b < 2 ^ 31 \<Longrightarrow> i32_add a b = a + b"
  unfolding i32_add_def by (subst signed_of_int) (auto intro!: signed_take_bit_int_eq_self)

section \<open>Blocking\<close>

lemma QueuePop_fields [simp]:
  "ksys.more (snd (QueuePop s)) = ksys.more s" "prc (snd (QueuePop s)) = prc s"
  using QueuePop_from_cases [of "unat THREAD_PRIORITY_COUNT" s] by (auto simp: QueuePop_def)

lemma load_thread_more [simp]: "ksys.more (load_thread t s) = ksys.more s"
  by (simp add: load_thread_def Let_def split: option.split)

lemma ScheduleInternal_more [simp]: "ksys.more (ScheduleInternal s) = ksys.more s" "prc (ScheduleInternal s) = prc s"
  using QueuePop_fields [of s]
  by (auto simp: ScheduleInternal_def Let_def simp del: QueuePop_fields split: option.split prod.split)

text \<open>A thread c that blocks leaves the processor to the ready thread of highest priority; when none
  is ready it goes on running, marked as blocked.\<close>
lemma block_and_schedule:
  assumes "at_schedule s qs c"
  defines "s' \<equiv> Schedule (BlockCurrentThread s)"
  shows "State (thr s' (Thr c)) = BLOCKED" "WaitNext (thr s' n) = WaitNext (thr s n)"
    "ksys.more s' = ksys.more s" "prc s' = prc s"
    "queued qs = {} \<Longrightarrow> s_current s' = Some (Thr c)"
    "queued qs \<noteq> {} \<Longrightarrow> \<exists>t\<in>queued qs. s_current s' = Some (Thr t)"
proof -
  let ?b = "BlockCurrentThread s"
  have b: "?b = upd (Thr c) (\<lambda>k. k\<lparr>State := BLOCKED\<rparr>) s" using assms(1) by (simp add: BlockCurrentThread_def at_schedule_def)
  have at: "at_schedule ?b qs c" using assms(1) by (simp add: b at_schedule_def)
  have st: "State (thr ?b (Thr c)) = BLOCKED" by (simp add: b)
  have "State (thr s' (Thr c)) = BLOCKED \<and> WaitNext (thr s' n) = WaitNext (thr s n)
    \<and> (if queued qs = {} then s_current s' = Some (Thr c) else \<exists>t\<in>queued qs. s_current s' = Some (Thr t))" for n
  proof (cases "queued qs = {}")
    case True
    then have "s' = ?b" using ScheduleInternal_idle [OF at] by (simp add: s'_def Schedule_def)
    then show ?thesis using True at by (simp add: st at_schedule_def) (simp add: b)
  next
    case False
    obtain p t ts where p: "p < 3" "qs p = t # ts" "\<forall>q. p < q \<and> q < 3 \<longrightarrow> qs q = []"
      by (rule rq.top_queue [of ?b qs]) (use at False in \<open>auto simp: at_schedule_def\<close>)
    note S = ScheduleInternal_switch [OF at p]
    have tq: "t \<in> queued qs" using p by (auto simp: queued_def intro!: bexI [of _ p])
    then have "t \<noteq> c" using at by (auto simp: at_schedule_def)
    then show ?thesis
      using S(1) tq False st unfolding s'_def Schedule_def S(2) S(10) by (auto simp: at_schedule_def b)
  qed
  then show "State (thr s' (Thr c)) = BLOCKED" "WaitNext (thr s' n) = WaitNext (thr s n)"
    "queued qs = {} \<Longrightarrow> s_current s' = Some (Thr c)" "queued qs \<noteq> {} \<Longrightarrow> \<exists>t\<in>queued qs. s_current s' = Some (Thr t)"
    by metis+
  show "ksys.more s' = ksys.more s" "prc s' = prc s" by (simp_all add: s'_def Schedule_def b)
qed

lemma sync_more:
  fixes s s' :: ksync
  assumes "ksys.more s' = ksys.more s"
  shows "s_semas s' = s_semas s" "s_mutants s' = s_mutants s" "evs s' = evs s" "s_proc_table s' = s_proc_table s"
    "s_events s' = s_events s" "kh s' = kh s"
  using assms by (cases s; cases s'; simp)+

lemma wq_push_fields:
  assumes "wq_push c q s = (q', s')"
  shows "s_current s' = s_current s" "State (thr s' n) = State (thr s n)" "Priority (thr s' n) = Priority (thr s n)"
    "ksys.more s' = ksys.more s" "prc s' = prc s" "s_active s' = s_active s" "repr_queues s' qs = repr_queues s qs"
proof -
  have *: "s_current s' = s_current s \<and> State (thr s' n) = State (thr s n) \<and> Priority (thr s' n) = Priority (thr s n)
    \<and> ksys.more s' = ksys.more s \<and> prc s' = prc s \<and> s_active s' = s_active s
    \<and> Next (thr s' n) = Next (thr s n) \<and> Prev (thr s' n) = Prev (thr s n)" for n
    using assms by (auto simp: wq_push_def Let_def split: prod.splits option.splits)
  then show "s_current s' = s_current s" "State (thr s' n) = State (thr s n)" "Priority (thr s' n) = Priority (thr s n)"
    "ksys.more s' = ksys.more s" "prc s' = prc s" "s_active s' = s_active s" by blast+
  show "repr_queues s' qs = repr_queues s qs" by (rule repr_cong) (use * in blast)+
qed

lemma sema_index: "i < 8 \<Longrightarrow> unat (sema_handle i - SEMA_HANDLE_BASE) = i"
  unfolding sema_handle_def by (rule handle_index)

lemma sema_handle_nlt: "i < 8 \<Longrightarrow> \<not> sema_handle i < SEMA_HANDLE_BASE"
  using sema_handle_ge by fastforce

section \<open>Correctness of the synchronisation objects\<close>

text \<open>C7 (functional): releasing r permits wakes the first r waiters, first come first served, each at
  the tail of its ready queue unless it has terminated; only the permits no waiter took are
  added to the count, which stays below its maximum.\<close>
theorem semaphore_release:
  assumes "sema_inv s i ts" "repr_queues s qs" "set ts \<inter> queued qs = {}"
    and "0 < r" "sm_count (s_semas s ! i) + int r < 2 ^ 31"
  shows "\<exists>s'. NtReleaseSemaphore (sema_handle i) (of_nat r) s = (nt STATUS_SUCCESS, s')
    \<and> repr_queues s' (enqueue_all (\<lambda>t. queue_pri s (Thr t)) (filter (alive s) (take r ts)) qs)
    \<and> sema_inv s' i (drop r ts)
    \<and> sm_count (s_semas s' ! i) = min (sm_max (s_semas s ! i)) (sm_count (s_semas s ! i) + int (r - length ts))
    \<and> (\<forall>t\<in>set (take r ts). alive s t \<longrightarrow> State (thr s' (Thr t)) = READY)"
proof -
  let ?m = "s_semas s ! i"
  have i: "i < SEMA_MAX" "i < 8" "length (s_semas s) = SEMA_MAX" and m: "sm_in_use ?m" "0 \<le> sm_count ?m"
    "sm_count ?m \<le> sm_max ?m" "sm_max ?m < 2 ^ 31" "0 < sm_count ?m \<Longrightarrow> ts = []"
    and w: "wq_repr s (sm_head ?m, sm_tail ?m) ts" "distinct ts"
    using assms(1) by (auto simp: sema_inv_def Let_def SEMA_MAX_def)
  obtain q' s1 where R: "release_loop r (sm_head ?m, sm_tail ?m) s = (r - length ts, q', s1)"
    "wq_repr s1 q' (drop r ts)" "wakes (take r ts) qs s s1"
    using release_loop_spec [OF w assms(2,3)] by blast
  have r: "sint (ucast (of_nat r :: u64) :: i32) = int r"
  proof -
    have "int r < 2 ^ 31" using assms(5) m(2) by simp
    then have "sint (word_of_int (int r) :: i32) = int r"
      by (subst signed_of_int) (auto intro!: signed_take_bit_int_eq_self)
    moreover have "(ucast (of_nat r :: u64) :: i32) = of_nat r"
      using assms(5) m(2) by (simp add: unsigned_of_nat take_bit_nat_eq_self)
    ultimately show ?thesis by simp
  qed
  let ?left = "int (r - length ts)"
  have add: "i32_add (sm_count ?m) ?left = sm_count ?m + ?left"
    by (rule i32_add_small) (use m(2) assms(5) in auto)
  let ?c = "if sm_count ?m + ?left > sm_max ?m then sm_max ?m else sm_count ?m + ?left"
  define m' where "m' = ?m\<lparr>sm_head := fst q', sm_tail := snd q', sm_count := ?c\<rparr>"
  have more: "ksys.more s1 = ksys.more s" using R(3) by (simp add: wakes_def)
  note M = sync_more [OF more]
  have N: "NtReleaseSemaphore (sema_handle i) (of_nat r) s = (nt STATUS_SUCCESS, s1\<lparr>s_semas := (s_semas s)[i := m']\<rparr>)"
    using i(1) m(1) assms(4) R(1) sema_handle_nlt [OF i(2)]
    by (simp add: NtReleaseSemaphore_def Let_def sema_index [OF i(2)] r add M m'_def)
  have e: "drop r ts = []" if "0 < sm_count ?m + ?left"
    using m(5) that by (cases "0 < sm_count ?m") auto
  have "sema_inv (s1\<lparr>s_semas := (s_semas s)[i := m']\<rparr>) i (drop r ts)"
    using i m(1-4) w(2) R(2) e by (auto simp: sema_inv_def m'_def wq_repr_cong [of _ "s1\<lparr>s_semas := _\<rparr>" s1])
  then show ?thesis unfolding N using i R(3) by (auto simp: wakes_def m'_def)
qed

lemma single_semaphore:
  assumes "i < 8"
  shows "NtWaitForSingleObject (sema_handle i) a2 s = WaitSemaphore (sema_handle i) a2 s"
proof -
  have "\<not> sema_handle i \<ge> MUTANT_HANDLE_BASE" "sema_handle i \<ge> SEMA_HANDLE_BASE"
    using sema_handle_ge [OF assms] by auto
  moreover have "MUTANT_HANDLE_BASE < PROC_HANDLE_BASE" by (simp add: MUTANT_HANDLE_BASE_def PROC_HANDLE_BASE_def)
  ultimately show ?thesis by (auto simp: NtWaitForSingleObject_def)
qed

text \<open>C6 (invariant): a wait takes a permit when there is one; otherwise the thread joins the end of
  the queue, is marked as blocked and another thread runs.  When no thread is ready the caller runs
  on, still queued, and is told it succeeded although it holds no permit.\<close>
theorem semaphore_wait:
  assumes "sema_inv s i ts" "at_schedule s qs c" "c \<notin> set ts" "a2 \<noteq> 0"
  shows "\<exists>s'. NtWaitForSingleObject (sema_handle i) a2 s = (nt STATUS_SUCCESS, s')
    \<and> (if 0 < sm_count (s_semas s ! i)
       then sema_inv s' i [] \<and> sm_count (s_semas s' ! i) = sm_count (s_semas s ! i) - 1 \<and> s_current s' = Some (Thr c)
       else sema_inv s' i (ts @ [c]) \<and> sm_count (s_semas s' ! i) = 0 \<and> State (thr s' (Thr c)) = BLOCKED
         \<and> (if queued qs = {} then s_current s' = Some (Thr c) else \<exists>t\<in>queued qs. s_current s' = Some (Thr t)))"
proof -
  let ?m = "s_semas s ! i"
  have i: "i < SEMA_MAX" "i < 8" "length (s_semas s) = SEMA_MAX" and m: "sm_in_use ?m" "0 \<le> sm_count ?m"
    "sm_count ?m \<le> sm_max ?m" "sm_max ?m < 2 ^ 31" "0 < sm_count ?m \<Longrightarrow> ts = []"
    and w: "wq_repr s (sm_head ?m, sm_tail ?m) ts" "distinct ts"
    using assms(1) by (auto simp: sema_inv_def Let_def SEMA_MAX_def)
  have cur: "s_current s = Some (Thr c)" using assms(2) by (simp add: at_schedule_def)
  note D = single_semaphore [OF i(2)] WaitSemaphore_def sema_index [OF i(2)]
  show ?thesis
  proof (cases "0 < sm_count ?m")
    case True
    let ?s = "s\<lparr>s_semas := (s_semas s)[i := ?m\<lparr>sm_count := sm_count ?m - 1\<rparr>]\<rparr>"
    have N: "NtWaitForSingleObject (sema_handle i) a2 s = (nt STATUS_SUCCESS, ?s)"
      using i(1) m(1) True by (simp add: D Let_def)
    have "sema_inv ?s i []" using i m w True by (auto simp: sema_inv_def wq_repr_cong [of _ ?s s])
    then show ?thesis using N True i cur by auto
  next
    case False
    then have c0: "sm_count ?m = 0" using m(2) by simp
    obtain q' s1 where P: "wq_push (Thr c) (sm_head ?m, sm_tail ?m) s = (q', s1)" by fastforce
    note F = wq_push_fields [OF P]
    have W: "wq_repr s1 q' (ts @ [c])" by (rule wq.push_waits [OF w(1) assms(3) w(2) P])
    let ?s2 = "s1\<lparr>s_semas := (s_semas s)[i := ?m\<lparr>sm_head := fst q', sm_tail := snd q'\<rparr>]\<rparr>"
    let ?s' = "Schedule (BlockCurrentThread ?s2)"
    have N: "NtWaitForSingleObject (sema_handle i) a2 s = (nt STATUS_SUCCESS, ?s')"
      using i(1) m(1) False assms(4) P cur sync_more [OF F(4)] by (simp add: D Let_def)
    have at: "at_schedule ?s2 qs c" using assms(2) F by (simp add: at_schedule_def)
    note B = block_and_schedule [OF at]
    have "wq_repr ?s' q' (ts @ [c])" using W by (subst wq_repr_cong [of _ _ s1]) (simp_all add: B(2))
    then have "sema_inv ?s' i (ts @ [c])" "sm_count (s_semas ?s' ! i) = 0"
      using i m w(2) c0 assms(3) by (auto simp: sema_inv_def sync_more [OF B(3)])
    then show ?thesis using N False B(1,5,6) by auto
  qed
qed

text \<open>Three threads, of which 0 runs, semaphores with one permit and mutants that 0 owns.\<close>
definition ksync_demo :: ksync where
  "ksync_demo = ksys.extend ksys_demo
     \<lparr>kh = heap_demo, evs = (\<lambda>_. \<lparr>signaled = False, auto_reset = True, waiters = None, ev_name = ''''\<rparr>),
      s_events = replicate 32 None,
      s_semas = replicate 8 \<lparr>sm_count = 1, sm_max = 2, sm_head = None, sm_tail = None, sm_in_use = True\<rparr>,
      s_mutants = replicate 8 \<lparr>mt_owner = Some (Thr 0), mt_depth = 1, mt_head = None, mt_tail = None, mt_in_use = True\<rparr>,
      s_proc_table = replicate 8 None\<rparr>"

lemma ksync_demo_sel [simp]:
  "thr ksync_demo = thr ksys_demo" "s_current ksync_demo = Some (Thr 0)" "s_active ksync_demo"
  "prc ksync_demo = prc ksys_demo" "s_thread_reg ksync_demo = s_thread_reg ksys_demo"
  "s_proc_reg ksync_demo = s_proc_reg ksys_demo"
  "s_semas ksync_demo = replicate 8 \<lparr>sm_count = 1, sm_max = 2, sm_head = None, sm_tail = None, sm_in_use = True\<rparr>"
  "s_mutants ksync_demo = replicate 8 \<lparr>mt_owner = Some (Thr 0), mt_depth = 1, mt_head = None, mt_tail = None, mt_in_use = True\<rparr>"
  by (simp_all add: ksync_demo_def ksys.defs) (simp_all add: ksys_demo_def)

lemma ksync_demo_pri [simp]: "queue_pri ksync_demo n = 1"
  by (rule queue_pri_1) (simp add: ksys_demo_def)

lemma links_thr: "thr s = thr s' \<Longrightarrow> links s a xs z = links s' a xs z"
  by (induction xs arbitrary: a) auto

lemma ksync_demo_at: "at_schedule ksync_demo demo_queues 0"
proof -
  have "repr_queues ksync_demo demo_queues = repr_queues ksys_demo demo_queues"
    by (simp add: repr_queues_def links_thr [of ksync_demo ksys_demo])
  then show ?thesis by (simp add: at_schedule_def ksys_demo_repr)
qed

lemma ksync_demo_sema: "sema_inv ksync_demo 0 []"
  by (simp add: sema_inv_def SEMA_MAX_def wq_repr_def)

lemma semaphore_release_witness:
  "\<exists>s'. NtReleaseSemaphore (sema_handle 0) 3 ksync_demo = (nt STATUS_SUCCESS, s') \<and> sm_count (s_semas s' ! 0) = 2"
  using semaphore_release [OF ksync_demo_sema, of demo_queues 3] ksync_demo_at by (auto simp: at_schedule_def)

lemma semaphore_wait_witness:
  "\<exists>s'. NtWaitForSingleObject (sema_handle 0) 100 ksync_demo = (nt STATUS_SUCCESS, s') \<and> sm_count (s_semas s' ! 0) = 0"
  using semaphore_wait [OF ksync_demo_sema ksync_demo_at, of 100] by auto

section \<open>Mutants\<close>

lemma UnblockThread_sync [simp]:
  fixes s :: ksync
  shows "s_semas (UnblockThread t s) = s_semas s" "s_mutants (UnblockThread t s) = s_mutants s"
    "evs (UnblockThread t s) = evs s" "s_proc_table (UnblockThread t s) = s_proc_table s" "s_events (UnblockThread t s) = s_events s"
  by (rule sync_more [of "UnblockThread t s" s], simp)+

lemma upd_sync [simp]:
  fixes s :: ksync
  shows "s_semas (upd t f s) = s_semas s" "s_mutants (upd t f s) = s_mutants s" "evs (upd t f s) = evs s"
    "s_proc_table (upd t f s) = s_proc_table s" "s_events (upd t f s) = s_events s"
  by (simp_all add: upd_def)

definition mutant_inv :: "ksync \<Rightarrow> nat \<Rightarrow> nat list \<Rightarrow> bool" where
  "mutant_inv s i ts \<longleftrightarrow> (let m = s_mutants s ! i in i < MUTANT_MAX \<and> length (s_mutants s) = MUTANT_MAX \<and> mt_in_use m
     \<and> wq_repr s (mt_head m, mt_tail m) ts \<and> distinct ts)"

definition mutant_handle :: "nat \<Rightarrow> u64" where "mutant_handle i = MUTANT_HANDLE_BASE + of_nat i"

lemma mutant_index: "i < 8 \<Longrightarrow> unat (mutant_handle i - MUTANT_HANDLE_BASE) = i"
  unfolding mutant_handle_def by (rule handle_index)

lemma mutant_handle_nlt: "i < 8 \<Longrightarrow> \<not> mutant_handle i < MUTANT_HANDLE_BASE"
  by (simp add: mutant_handle_def MUTANT_HANDLE_BASE_def word_less_nat_alt unat_word_ariths unat_of_nat)

text \<open>Only the owner releases a mutant; a nested acquisition is undone by one level; the
  last release hands it to the thread that waited longest, which becomes ready.  A waiter that was
  terminated in the meantime still becomes the owner, and then nobody can release the mutant.\<close>
theorem mutant_release:
  assumes "mutant_inv s i ts" "repr_queues s qs" "set ts \<inter> queued qs = {}"
  shows "\<exists>s'. NtReleaseMutant (mutant_handle i) s =
      (if mt_owner (s_mutants s ! i) = s_current s then (nt STATUS_SUCCESS, s') else (nt STATUS_MUTANT_NOT_OWNED, s))
    \<and> (if mt_depth (s_mutants s ! i) \<noteq> 1
       then s' = s\<lparr>s_mutants := (s_mutants s)[i := (s_mutants s ! i)\<lparr>mt_depth := mt_depth (s_mutants s ! i) - 1\<rparr>]\<rparr>
       else case ts of [] \<Rightarrow> mutant_inv s' i [] \<and> mt_owner (s_mutants s' ! i) = None \<and> repr_queues s' qs
         | t # us \<Rightarrow> mutant_inv s' i us \<and> mt_owner (s_mutants s' ! i) = Some (Thr t) \<and> mt_depth (s_mutants s' ! i) = 1
             \<and> repr_queues s' (if alive s t then qs(queue_pri s (Thr t) := qs (queue_pri s (Thr t)) @ [t]) else qs)
             \<and> State (thr s' (Thr t)) = (if alive s t then READY else TERMINATED))"
proof -
  let ?m = "s_mutants s ! i"
  have i: "i < MUTANT_MAX" "i < 8" "length (s_mutants s) = MUTANT_MAX" and m: "mt_in_use ?m"
    and w: "wq_repr s (mt_head ?m, mt_tail ?m) ts" "distinct ts"
    using assms(1) by (auto simp: mutant_inv_def Let_def MUTANT_MAX_def)
  note D = NtReleaseMutant_def mutant_index [OF i(2)] mutant_handle_nlt [OF i(2)] Let_def
  have h: "mt_head ?m = (case ts of [] \<Rightarrow> None | t # _ \<Rightarrow> Some (Thr t))" using wq.front_waits [OF w(1)] by simp
  have own: "\<exists>s'. NtReleaseMutant (mutant_handle i) s = (if mt_owner ?m = s_current s then (nt STATUS_SUCCESS, s')
      else (nt STATUS_MUTANT_NOT_OWNED, s)) \<and> P s'"
    if "mt_owner ?m = s_current s \<longrightarrow> NtReleaseMutant (mutant_handle i) s = (nt STATUS_SUCCESS, s')" "P s'" for P s'
    using that i m by (intro exI [of _ s']) (auto simp: D)
  show ?thesis
  proof (cases "mt_depth ?m = 1")
    case False
    then have "mt_depth ?m - 1 \<noteq> 0" by simp
    then show ?thesis using False i m
      by (intro own [where s' = "s\<lparr>s_mutants := (s_mutants s)[i := ?m\<lparr>mt_depth := mt_depth ?m - 1\<rparr>]\<rparr>"]) (auto simp: D)
  next
    case d: True
    show ?thesis
    proof (cases ts)
      case Nil
      let ?s = "s\<lparr>s_mutants := (s_mutants s)[i := ?m\<lparr>mt_depth := 0, mt_owner := None\<rparr>]\<rparr>"
      have "mutant_inv ?s i []" using i m w Nil by (auto simp: mutant_inv_def wq_repr_cong [of _ ?s s])
      then show ?thesis using d i m h Nil assms(2) by (intro own [where s' = ?s]) (auto simp: D)
    next
      case (Cons t us)
      obtain q' s1 where P: "wq_pop (Thr t) (mt_head ?m, mt_tail ?m) s = (q', s1)" by fastforce
      then have s1: "s1 = upd (Thr t) (\<lambda>k. k\<lparr>WaitNext := None\<rparr>) s" by (auto simp: wq_pop_def Let_def)
      have W: "wq_repr s1 q' us" by (rule wq.pop_waits [OF _ _ P]) (use w Cons in auto)
      let ?m' = "?m\<lparr>mt_head := fst q', mt_tail := snd q', mt_owner := Some (Thr t), mt_depth := 1\<rparr>"
      let ?s2 = "s1\<lparr>s_mutants := (s_mutants s)[i := ?m']\<rparr>"
      let ?s' = "UnblockThread (Thr t) ?s2"
      have "mutant_inv ?s' i us" using i m w(2) W Cons
        by (auto simp: mutant_inv_def wq_repr_cong [of _ ?s' s1])
      moreover have "repr_queues ?s2 qs" unfolding s1 using assms(2) by (subst repr_cong) auto
      moreover have "t \<notin> queued qs" using assms(3) Cons by auto
      ultimately show ?thesis using d i m h Cons P UnblockThread_repr [of ?s2 qs t]
        by (intro own [where s' = ?s'])
          (auto simp: D s1 alive_def queue_pri_def split: if_splits)
    qed
  qed
qed

lemma mutant_release_witness:
  "\<exists>s'. NtReleaseMutant (mutant_handle 0) ksync_demo = (nt STATUS_SUCCESS, s') \<and> mt_owner (s_mutants s' ! 0) = None"
  using mutant_release [of ksync_demo 0 "[]" demo_queues] ksync_demo_at
  by (auto simp: at_schedule_def mutant_inv_def MUTANT_MAX_def wq_repr_def)

section \<open>Events\<close>

text \<open>Setting an event wakes the waiter that came last, and makes it ready even if it was
  terminated while it waited: its state is overwritten before UnblockThread tests it.\<close>
theorem event_set_wakes_last:
  assumes "wchain s (waiters (evs s e)) (t # ts)" "distinct (t # ts)" "repr_queues s qs" "t \<notin> queued qs"
  shows "wchain (EventSet e s) (waiters (evs (EventSet e s) e)) ts
    \<and> repr_queues (EventSet e s) (qs(queue_pri s (Thr t) := qs (queue_pri s (Thr t)) @ [t]))
    \<and> State (thr (EventSet e s) (Thr t)) = READY
    \<and> signaled (evs (EventSet e s) e) = (signaled (evs s e) \<or> \<not> auto_reset (evs s e))"
proof -
  let ?s1 = "upd (Thr t) (\<lambda>k. k\<lparr>WaitNext := None\<rparr>) (upd_ev e (\<lambda>v. v\<lparr>waiters := WaitNext (thr s (Thr t))\<rparr>) s)"
  let ?s2 = "if \<not> auto_reset (evs s e) then upd_ev e (\<lambda>v. v\<lparr>signaled := True\<rparr>) ?s1 else ?s1"
  let ?s3 = "upd (Thr t) (\<lambda>k. k\<lparr>State := READY\<rparr>) ?s2"
  have S: "EventSet e s = UnblockThread (Thr t) ?s3"
    using assms(1) by (simp add: EventSet_def Let_def) (simp add: upd_ev_def upd_def)
  have thr: "thr ?s3 = thr (upd (Thr t) (\<lambda>k. k\<lparr>WaitNext := None, State := READY\<rparr>) s)"
    by (auto simp: upd_ev_def upd_def)
  have ev: "evs (EventSet e s) e = evs ?s2 e"
    by (simp add: S)
  have ev2: "evs ?s2 e = (evs s e)\<lparr>waiters := WaitNext (thr s (Thr t)), signaled := signaled (evs s e) \<or> \<not> auto_reset (evs s e)\<rparr>"
    by (auto simp: upd_ev_def upd_def)
  have "wchain (EventSet e s) (WaitNext (thr s (Thr t))) ts = wchain s (WaitNext (thr s (Thr t))) ts"
    by (rule wchain_cong) (use assms(2) in \<open>auto simp: S thr\<close>)
  moreover have "repr_queues ?s3 qs" using assms(3) by (subst repr_cong [of _ s]) (auto simp: thr)
  moreover have "State (thr ?s3 (Thr t)) = READY" by simp
  moreover have "queue_pri ?s3 (Thr t) = queue_pri s (Thr t)" by (simp add: queue_pri_def thr)
  ultimately show ?thesis
    using assms(1,4) UnblockThread_repr [of ?s3 qs t] unfolding ev ev2 by (auto simp: S alive_def simp del: upd_sel)
qed

lemma event_set_wakes_last_witness:
  "State (thr (EventSet 9 (upd (Thr 5) (\<lambda>k. k\<lparr>State := TERMINATED\<rparr>)
     (upd_ev 9 (\<lambda>v. v\<lparr>waiters := Some (Thr 5)\<rparr>) ksync_demo))) (Thr 5)) = READY"
proof -
  let ?s = "upd (Thr 5) (\<lambda>k. k\<lparr>State := TERMINATED\<rparr>) (upd_ev 9 (\<lambda>v. v\<lparr>waiters := Some (Thr 5)\<rparr>) ksync_demo)"
  have "WaitNext (thr ?s (Thr 5)) = None" by (simp add: upd_ev_def ksys_demo_def AddThread_def)
  moreover have "waiters (evs ?s 9) = Some (Thr 5)" by (simp add: upd_ev_def)
  moreover have "repr_queues ?s demo_queues" using ksync_demo_at by (simp add: at_schedule_def)
  ultimately show ?thesis using event_set_wakes_last [of ?s 9 5 "[]" demo_queues] by simp
qed

section \<open>The end of a process\<close>

lemma upd_proc_sel [simp]:
  "thr (upd_proc p f s) = thr s" "prc (upd_proc p f s) q = (if q = p then f (prc s p) else prc s q)"
  "s_current (upd_proc p f s) = s_current s" "s_active (upd_proc p f s) = s_active s"
  "s_thread_reg (upd_proc p f s) = s_thread_reg s" "s_proc_reg (upd_proc p f s) = s_proc_reg s"
  "ksys.more (upd_proc p f s) = ksys.more s" "queue_pri (upd_proc p f s) n = queue_pri s n"
  by (simp_all add: upd_proc_def queue_pri_def)

lemma repr_upd_proc [simp]: "repr_queues (upd_proc p f s) qs = repr_queues s qs"
  by (rule repr_cong) simp_all

lemma wchain_thr: "thr s = thr s' \<Longrightarrow> wchain s l ts = wchain s' l ts"
  by (rule wchain_cong) simp

lemma exit_process_spec:
  assumes "wchain s (exit_waiters (prc s p)) ts" "distinct ts" "repr_queues s qs" "set ts \<inter> queued qs = {}"
  shows "\<exists>s'. exit_process p s = Some s'
    \<and> wakes ts qs (upd_proc p (\<lambda>q. q\<lparr>exited := True, exit_waiters := None\<rparr>) s) s'"
proof -
  let ?s = "upd_proc p (\<lambda>q. q\<lparr>exited := True, exit_waiters := None\<rparr>) s"
  have "wchain ?s (exit_waiters (prc s p)) ts" using assms(1) wchain_thr [of ?s s] by simp
  from wake_waiters_spec [OF this assms(2) _ assms(4)] assms(3) show ?thesis
    by (simp add: exit_process_def Let_def)
qed

lemma kill_fold:
  assumes "s' = fold (kill_thread p) ns s"
  shows "State (thr s' n) = (if n \<in> set ns \<and> Process (thr s n) = Some p then TERMINATED else State (thr s n))"
    "Process (thr s' n) = Process (thr s n)" "Priority (thr s' n) = Priority (thr s n)"
    "WaitNext (thr s' n) = WaitNext (thr s n)" "Next (thr s' n) = Next (thr s n)" "Prev (thr s' n) = Prev (thr s n)"
    "prc s' = prc s" "s_current s' = s_current s" "s_active s' = s_active s" "ksys.more s' = ksys.more s"
proof -
  have "State (thr s' n) = (if n \<in> set ns \<and> Process (thr s n) = Some p then TERMINATED else State (thr s n))
    \<and> Process (thr s' n) = Process (thr s n) \<and> Priority (thr s' n) = Priority (thr s n)
    \<and> WaitNext (thr s' n) = WaitNext (thr s n) \<and> Next (thr s' n) = Next (thr s n) \<and> Prev (thr s' n) = Prev (thr s n)
    \<and> prc s' = prc s \<and> s_current s' = s_current s \<and> s_active s' = s_active s \<and> ksys.more s' = ksys.more s"
    unfolding assms by (induction ns arbitrary: s) (auto simp: kill_thread_def)
  then show "State (thr s' n) = (if n \<in> set ns \<and> Process (thr s n) = Some p then TERMINATED else State (thr s n))"
    "Process (thr s' n) = Process (thr s n)" "Priority (thr s' n) = Priority (thr s n)"
    "WaitNext (thr s' n) = WaitNext (thr s n)" "Next (thr s' n) = Next (thr s n)" "Prev (thr s' n) = Prev (thr s n)"
    "prc s' = prc s" "s_current s' = s_current s" "s_active s' = s_active s" "ksys.more s' = ksys.more s" by blast+
qed

text \<open>A registered thread of process p.\<close>
definition victim :: "'a ksys_scheme \<Rightarrow> nat \<Rightarrow> nat \<Rightarrow> bool" where
  "victim s p t \<longleftrightarrow> Thr t \<in> set (s_thread_reg s) \<and> Process (thr s (Thr t)) = Some p"

text \<open>Killing a process marks it and all its registered threads, wakes the threads
  that wait for its exit unless they are its own, and leaves the ready queues alone otherwise.\<close>
theorem kill_process:
  assumes "find_process (s_proc_reg s) pid s = Some p" "wchain s (exit_waiters (prc s p)) ts" "distinct ts"
    and "repr_queues s qs" "set ts \<inter> queued qs = {}"
  shows "\<exists>s'. KillProcess pid s = Some (True, s')
    \<and> exited (prc s' p) \<and> thread_count (prc s' p) = 0 \<and> ExitStatus (prc s' p) = -1 \<and> exit_waiters (prc s' p) = None
    \<and> (\<forall>t. victim s p t \<longrightarrow> State (thr s' (Thr t)) = TERMINATED)
    \<and> (\<forall>t\<in>set ts. alive s t \<longrightarrow> \<not> victim s p t \<longrightarrow> State (thr s' (Thr t)) = READY)
    \<and> repr_queues s' (enqueue_all (\<lambda>t. queue_pri s (Thr t)) (filter (\<lambda>t. alive s t \<and> \<not> victim s p t) ts) qs)
    \<and> s_current s' = s_current s \<and> s_active s' = s_active s"
proof -
  define k where "k = fold (kill_thread p) (s_thread_reg s) s"
  note K = kill_fold [OF k_def]
  define s1 where "s1 = upd_proc p (\<lambda>q. q\<lparr>thread_count := 0, ExitStatus := -1\<rparr>) k"
  have s1: "thr s1 = thr k" by (simp add: s1_def)
  have wc: "wchain s1 (exit_waiters (prc s1 p)) ts"
    using assms(2) by (subst wchain_cong [of _ _ s]) (simp_all add: s1_def K)
  have r: "repr_queues s1 qs" using assms(4) by (subst repr_cong [of _ s]) (simp_all add: s1_def K)
  obtain s' where E: "exit_process p s1 = Some s'"
    "wakes ts qs (upd_proc p (\<lambda>q. q\<lparr>exited := True, exit_waiters := None\<rparr>) s1) s'"
    using exit_process_spec [OF wc assms(3) r assms(5)] by blast
  let ?s2 = "upd_proc p (\<lambda>q. q\<lparr>exited := True, exit_waiters := None\<rparr>) s1"
  have al: "alive ?s2 t \<longleftrightarrow> alive s t \<and> \<not> victim s p t" for t
    by (auto simp: alive_def victim_def s1 K)
  have pri: "(\<lambda>t. queue_pri ?s2 (Thr t)) = (\<lambda>t. queue_pri s (Thr t))" by (rule ext) (simp add: queue_pri_def s1 K)
  have st: "State (thr s' (Thr t)) = (if t \<in> set ts \<and> alive s t \<and> \<not> victim s p t then READY
      else if victim s p t then TERMINATED else State (thr s (Thr t)))" for t
  proof -
    have "State (thr s' (Thr t)) = (if t \<in> set ts \<and> alive ?s2 t then READY else State (thr ?s2 (Thr t)))"
      using E(2) by (auto simp: wakes_def)
    then show ?thesis unfolding al by (auto simp: s1 K victim_def)
  qed
  have "KillProcess pid s = Some (True, s')"
    using assms(1) E(1) by (simp add: KillProcess_def s1_def k_def Let_def)
  moreover have "prc s' p = prc ?s2 p" "s_current s' = s_current s" "s_active s' = s_active s"
    using E(2) by (simp_all add: wakes_def s1_def K)
  moreover have "repr_queues s' (enqueue_all (\<lambda>t. queue_pri s (Thr t)) (filter (alive ?s2) ts) qs)"
    using E(2) unfolding wakes_def pri by blast
  moreover have "filter (alive ?s2) ts = filter (\<lambda>t. alive s t \<and> \<not> victim s p t) ts"
    by (rule filter_cong) (simp_all add: al)
  ultimately show ?thesis using st by (simp add: s1_def)
qed

text \<open>A killed thread that was ready stays in its queue, and the scheduler runs it again.\<close>
theorem killed_thread_runs:
  assumes "find_process (s_proc_reg s) pid s = Some p" "exit_waiters (prc s p) = None" "at_schedule s qs c"
    and "q < 3" "qs q = t # ts" "\<forall>r. q < r \<and> r < 3 \<longrightarrow> qs r = []" "victim s p t"
  shows "\<exists>s'. KillProcess pid s = Some (True, s') \<and> State (thr s' (Thr t)) = TERMINATED
    \<and> s_current (Schedule s') = Some (Thr t) \<and> State (thr (Schedule s') (Thr t)) = RUNNING"
proof -
  have at: "repr_queues s qs" "c \<notin> queued qs" "s_current s = Some (Thr c)" "s_active s"
    using assms(3) by (auto simp: at_schedule_def)
  obtain s' where K: "KillProcess pid s = Some (True, s')" "State (thr s' (Thr t)) = TERMINATED" "at_schedule s' qs c"
    using kill_process [OF assms(1) _ _ at(1), of "[]"] assms(2,7) at by (auto simp: at_schedule_def)
  note S = ScheduleInternal_switch [OF K(3) assms(4-6)]
  show ?thesis using K S(1) S(2) [of "Thr t"] by (auto simp: Schedule_def at_schedule_def)
qed

lemma find_demo: "find_process [0] 0 (ksys_demo\<lparr>s_proc_reg := v, s_thread_reg := w\<rparr>) = Some 0"
  "find_process [0] 0 (ksys_demo\<lparr>s_proc_reg := v\<rparr>) = Some 0"
  by (simp_all add: ksys_demo_def ksys_idle_def Sched_Start_def Let_def) (simp_all add: kprocess0_def)

lemma demo_exit [simp]: "exit_waiters (prc ksys_demo p) = None" "thread_count (prc ksys_demo p) = 1"
  by (simp_all add: ksys_demo_def ksys_idle_def Sched_Start_def Let_def) (simp_all add: kprocess0_def Sched_Init_def count_3 upt_rec)

lemma kill_process_witness:
  "\<exists>s'. KillProcess 0 (ksys_demo\<lparr>s_proc_reg := [0]\<rparr>) = Some (True, s') \<and> exited (prc s' 0)"
proof -
  let ?s = "ksys_demo\<lparr>s_proc_reg := [0]\<rparr>"
  have "repr_queues ?s demo_queues" using ksys_demo_repr by (subst repr_cong [of _ ksys_demo]) auto
  then show ?thesis using kill_process [of ?s 0 0 "[]" demo_queues] find_demo by (auto simp del: find_process.simps)
qed

lemma killed_thread_runs_witness:
  "\<exists>s'. KillProcess 0 (ksys_demo\<lparr>s_proc_reg := [0], s_thread_reg := [Thr 1]\<rparr>) = Some (True, s')
     \<and> s_current (Schedule s') = Some (Thr 1)"
proof -
  let ?s = "ksys_demo\<lparr>s_proc_reg := [0], s_thread_reg := [Thr 1]\<rparr>"
  have "repr_queues ?s demo_queues" using ksys_demo_repr by (subst repr_cong [of _ ksys_demo]) auto
  then have "at_schedule ?s demo_queues 0" using ksys_demo_at by (simp add: at_schedule_def)
  moreover have "victim ?s 0 1" by (simp add: victim_def ksys_demo_def)
  ultimately show ?thesis using killed_thread_runs [of ?s 0 0 demo_queues 0 1 1 "[2]"] find_demo by (auto simp del: find_process.simps)
qed

text \<open>When the last thread of a process ends, the process is marked as exited, every live
  waiter becomes ready, and the processor goes to the head of the highest ready queue; the thread
  that ended is in no queue.\<close>
theorem last_thread_exit:
  assumes "at_schedule s qs c" "Process (thr s (Thr c)) = Some p" "thread_count (prc s p) = 1"
    and "wchain s (exit_waiters (prc s p)) ts" "distinct ts" "set ts \<inter> insert c (queued qs) = {}"
    and "enqueue_all (\<lambda>t. queue_pri s (Thr t)) (filter (alive s) ts) qs = qs'" "queued qs' \<noteq> {}"
  shows "\<exists>s' t qs''. TerminateCurrentThread s = Some s' \<and> exited (prc s' p) \<and> State (thr s' (Thr c)) = TERMINATED
    \<and> t \<in> queued qs' \<and> at_schedule s' qs'' t \<and> c \<notin> insert t (queued qs'')"
proof -
  have at: "repr_queues s qs" "c \<notin> queued qs" "s_current s = Some (Thr c)" "s_active s"
    using assms(1) by (auto simp: at_schedule_def)
  let ?s1 = "upd_proc p (\<lambda>q. q\<lparr>thread_count := thread_count q - 1\<rparr>) (upd (Thr c) (\<lambda>k. k\<lparr>State := TERMINATED\<rparr>) s)"
  have "wchain ?s1 (exit_waiters (prc ?s1 p)) ts"
    using assms(4) by (subst wchain_cong [of _ _ s]) auto
  moreover have "repr_queues ?s1 qs" using at(1) by simp
  ultimately obtain s2 where E: "exit_process p ?s1 = Some s2"
    "wakes ts qs (upd_proc p (\<lambda>q. q\<lparr>exited := True, exit_waiters := None\<rparr>) ?s1) s2"
    using exit_process_spec [of ?s1 p ts qs] assms(5,6) by auto
  let ?s3 = "upd_proc p (\<lambda>q. q\<lparr>exited := True, exit_waiters := None\<rparr>) ?s1"
  have al: "filter (alive ?s3) ts = filter (alive s) ts"
    by (rule filter_cong) (use assms(6) in \<open>auto simp: alive_def\<close>)
  have T: "TerminateCurrentThread s = Some (Schedule s2)"
    using at(3) assms(2,3) E(1) by (simp add: TerminateCurrentThread_def Let_def)
  have "(\<lambda>t. queue_pri ?s3 (Thr t)) = (\<lambda>t. queue_pri s (Thr t))" by (rule ext) simp
  then have q2: "repr_queues s2 qs'" using E(2) assms(7) unfolding wakes_def al by metis
  have enq: "queued (enqueue_all pri us qs) \<subseteq> set us \<union> queued qs" for pri us qs
    by (induction us arbitrary: qs) (fastforce simp: queued_def split: if_splits)+
  have cq: "c \<notin> queued qs'" using enq assms(6,7) at(2) by fastforce
  have at2: "at_schedule s2 qs' c" using q2 cq E(2) at by (simp add: at_schedule_def wakes_def)
  obtain q t us where q: "q < 3" "qs' q = t # us" "\<forall>r. q < r \<and> r < 3 \<longrightarrow> qs' r = []"
    by (rule rq.top_queue [OF q2 assms(8)])
  have st: "State (thr s2 (Thr c)) = TERMINATED" using E(2) assms(6) by (auto simp: wakes_def)
  have tq: "t \<in> queued qs'" using q by (auto simp: queued_def intro!: bexI [of _ q])
  have "queued (qs'(q := us)) \<subseteq> queued qs'" using q by (auto simp: queued_def split: if_splits)
  moreover note S = ScheduleInternal_switch [OF at2 q]
  moreover have "exited (prc s2 p)" using E(2) by (simp add: wakes_def)
  ultimately show ?thesis using T tq cq st unfolding Schedule_def
    by (intro exI [of _ "ScheduleInternal s2"] exI [of _ t] exI [of _ "qs'(q := us)"]) (auto simp: requeue_def S(2))
qed

lemma last_thread_exit_witness:
  "\<exists>s'. TerminateCurrentThread ksys_demo = Some s' \<and> exited (prc s' 0)"
proof -
  have "Process (thr ksys_demo (Thr 0)) = Some 0" by (simp add: ksys_demo_def)
  from last_thread_exit [OF ksys_demo_at this, of "[]" demo_queues] show ?thesis by auto
qed

end
