(* ===== verification/ProcessCreate.thy ===== *)
theory ProcessCreate
  imports DataPages SyncObjects
begin

text \<open>Creation of processes and threads, kernel/ps/process.cpp: the process registries, kernel
  stacks with the frames that switch_context and IRETQ pop, the PEB of a process with its
  loader data and parameters, and the TEB of a user thread.  The state joins the scheduler and
  process objects (ksys), the kernel heap the objects are allocated from, and the virtual memory
  manager with the contents of memory.  A process or thread is named by its heap address.
  sizeof and alignof are the ones of the x86-64 ABI; the two assembly entry points are addresses
  chosen by the linker and part of the state.\<close>

section \<open>State\<close>

record psys =
  p_sys :: ksys
  p_heap :: kheap
  p_vmm :: vmm
  s_system_process :: "nat option"
  s_main_thread :: "node option"
  s_next_pid :: u32
  s_next_tid :: u32
  kernel_thread_entry :: u64
  user_thread_entry :: u64

definition SIZEOF_KPROCESS :: u64 where "SIZEOF_KPROCESS = 360"
definition SIZEOF_KTHREAD :: u64 where "SIZEOF_KTHREAD = 168"
definition ALIGNOF_OBJECT :: u64 where "ALIGNOF_OBJECT = 8"

definition SWITCH_FRAME_SIZE :: u64 where "SWITCH_FRAME_SIZE = 7 * 8"
definition IRETQ_FRAME_SIZE :: u64 where "IRETQ_FRAME_SIZE = 5 * 8"
definition USER_CS :: u64 where "USER_CS = 0x23"
definition USER_SS :: u64 where "USER_SS = 0x1B"
definition USER_FLAGS :: u64 where "USER_FLAGS = 0x202"
definition PEB_VA :: u64 where "PEB_VA = 0x7FFFE000000"
definition TEB_BASE :: u64 where "TEB_BASE = 0x7FFFE100000"
definition OS_MAJOR :: u32 where "OS_MAJOR = 10"
definition OS_MINOR :: u32 where "OS_MINOR = 0"
definition OS_BUILD :: u32 where "OS_BUILD = 26100"
definition LDR_VA :: u64 where "LDR_VA = PEB_VA + 0x1000"
definition LDR_ENTRY_OFF :: u64 where "LDR_ENTRY_OFF = 0x80"
definition LDR_BASENAME_OFF :: u64 where "LDR_BASENAME_OFF = 0x140"
definition LDR_FULLNAME_OFF :: u64 where "LDR_FULLNAME_OFF = 0x200"
definition PARAMS_VA :: u64 where "PARAMS_VA = PEB_VA + 0x2000"
definition HEAP_VA :: u64 where "HEAP_VA = PEB_VA + 0x3000"
definition PROC_REG_SIZE :: nat where "PROC_REG_SIZE = 32"
definition THREAD_REG_SIZE :: nat where "THREAD_REG_SIZE = 64"

abbreviation "USER_RW \<equiv> PTE_PRESENT OR PTE_WRITABLE OR PTE_USER"

text \<open>The store of zeroed objects: memory that AllocZeroed returns.\<close>
definition KThread0 :: KThread where
  "KThread0 = \<lparr>KernelStackPtr = 0, Tid = 0, State = READY, QuantumLeft = 0, TFlags = 0, Priority = 0,
     Process = None, KernelStackBase = 0, KernelStackSize = 0, EntryFn = 0, EntryArg = 0, TName = [],
     Next = None, Prev = None, WaitNext = None, SleepUntil = 0, SleepNext = None, UserArg = 0,
     ExceptionHandler = 0, TebVa = 0\<rparr>"

definition KProcess0 :: KProcess where
  "KProcess0 = \<lparr>Pid = 0, PFlags = 0, Cr3 = 0, UserHeapCursor = 0, PName = [], ExitStatus = 0,
     UserFreeList = replicate 16 (0, 0), thread_count = 0, exited = False, exit_waiters = None,
     PebVa = 0, NextTebVa = 0, ImageBase = 0\<rparr>"

definition set_proc :: "nat \<Rightarrow> (KProcess \<Rightarrow> KProcess) \<Rightarrow> psys \<Rightarrow> psys" where
  "set_proc p f s = s\<lparr>p_sys := upd_proc p f (p_sys s)\<rparr>"

definition set_thr :: "node \<Rightarrow> (KThread \<Rightarrow> KThread) \<Rightarrow> psys \<Rightarrow> psys" where
  "set_thr t f s = s\<lparr>p_sys := upd t f (p_sys s)\<rparr>"

abbreviation the_proc :: "psys \<Rightarrow> nat \<Rightarrow> KProcess" where "the_proc s p \<equiv> prc (p_sys s) p"
abbreviation the_thr :: "psys \<Rightarrow> node \<Rightarrow> KThread" where "the_thr s t \<equiv> thr (p_sys s) t"

text \<open>AllocZeroed of a control block: its address and the zeroed object, or null.\<close>
definition new_process :: "psys \<Rightarrow> nat option \<times> psys" where
  "new_process s = (let (a, h) = Heap_AllocZeroed SIZEOF_KPROCESS ALIGNOF_OBJECT (p_heap s);
       s = s\<lparr>p_heap := h\<rparr> in
     if a = 0 then (None, s) else (Some (unat a), set_proc (unat a) (\<lambda>_. KProcess0) s))"

definition new_thread :: "psys \<Rightarrow> node option \<times> psys" where
  "new_thread s = (let (a, h) = Heap_AllocZeroed SIZEOF_KTHREAD ALIGNOF_OBJECT (p_heap s);
       s = s\<lparr>p_heap := h\<rparr> in
     if a = 0 then (None, s) else (Some (Thr (unat a)), set_thr (Thr (unat a)) (\<lambda>_. KThread0) s))"

text \<open>The loop that copies a name into a 32-byte field of a zeroed object.\<close>
definition copy_name :: "cstr \<Rightarrow> cstr" where "copy_name n = take 31 n"

section \<open>Kernel stacks\<close>

fun alloc_rest :: "nat \<Rightarrow> vmm \<Rightarrow> bool \<times> vmm" where
  "alloc_rest 0 s = (True, s)"
| "alloc_rest (Suc n) s = (let (p, s) = alloc_page s in if p = 0 then (False, s) else alloc_rest n s)"

definition stack_pages :: "u64 \<Rightarrow> nat" where
  "stack_pages sz = unat ((sz + of_nat PAGE_SIZE - 1) div of_nat PAGE_SIZE)"

definition AllocStack :: "u64 \<Rightarrow> vmm \<Rightarrow> u64 \<times> vmm" where
  "AllocStack sz s = (let (base, s) = alloc_page s in
     if base = 0 then (0, s) else
     let (ok, s) = alloc_rest (stack_pages sz - 1) s in (if ok then base else 0, s))"

definition StackPoke :: "u64 \<Rightarrow> u32 \<Rightarrow> u64 \<Rightarrow> vmm \<Rightarrow> vmm" where
  "StackPoke stop slot val s = wr64 (stop - ucast slot * 8) val s"

definition poke_slots :: "u64 \<Rightarrow> u64 list \<Rightarrow> vmm \<Rightarrow> vmm" where
  "poke_slots stop vs s = fold (\<lambda>(i, v). StackPoke stop (of_nat i) v) (enumerate 1 vs) s"

section \<open>The PEB, the loader data and the process parameters\<close>

text \<open>A store of 8, 4 or 2 bytes at an offset, as the lambdas wq, wd and ww write them.\<close>
datatype poke = Q u64 u64 | D u64 u32 | W u64 u16

fun poke1 :: "u64 \<Rightarrow> poke \<Rightarrow> vmm \<Rightarrow> vmm" where
  "poke1 b (Q off v) s = wr64 (b + off) v s"
| "poke1 b (D off v) s = wr32 (b + off) v s"
| "poke1 b (W off v) s = wr16 (b + off) v s"

definition pokes :: "u64 \<Rightarrow> poke list \<Rightarrow> vmm \<Rightarrow> vmm" where
  "pokes b ps s = fold (poke1 b) ps s"

text \<open>A string stored as 16-bit characters.\<close>
definition wide :: "u64 \<Rightarrow> cstr \<Rightarrow> poke list" where
  "wide off cs = map (\<lambda>(i, c). W (off + 2 * of_nat i) (of_nat (of_char c))) (enumerate 0 cs)"

definition peb_fields :: "u64 \<Rightarrow> poke list" where
  "peb_fields image_base = [Q 0x010 image_base, Q 0x018 LDR_VA, D 0x118 OS_MAJOR, D 0x11C OS_MINOR,
     W 0x120 (ucast OS_BUILD), D 0x124 2]"

definition ldr_fields :: "u64 \<Rightarrow> cstr \<Rightarrow> poke list" where
  "ldr_fields image_base nm =
    (let E = LDR_ENTRY_OFF; entry_va = LDR_VA + E; nlen = (of_nat (length nm) :: u32) in
     [D 0x00 0x58, D 0x04 1,
      Q 0x10 (entry_va + 0x00), Q 0x18 (entry_va + 0x00),
      Q 0x20 (entry_va + 0x10), Q 0x28 (entry_va + 0x10),
      Q 0x30 (entry_va + 0x20), Q 0x38 (entry_va + 0x20),
      Q (E + 0x00) (LDR_VA + 0x10), Q (E + 0x08) (LDR_VA + 0x10),
      Q (E + 0x10) (LDR_VA + 0x20), Q (E + 0x18) (LDR_VA + 0x20),
      Q (E + 0x20) (LDR_VA + 0x30), Q (E + 0x28) (LDR_VA + 0x30),
      Q (E + 0x30) image_base, Q (E + 0x38) 0, D (E + 0x40) 0,
      W (E + 0x48) (ucast (nlen * 2)), W (E + 0x4A) (ucast (nlen * 2 + 2)),
      Q (E + 0x50) (LDR_VA + LDR_FULLNAME_OFF),
      W (E + 0x58) (ucast (nlen * 2)), W (E + 0x5A) (ucast (nlen * 2 + 2)),
      Q (E + 0x60) (LDR_VA + LDR_BASENAME_OFF)]
     @ wide LDR_BASENAME_OFF nm @ wide LDR_FULLNAME_OFF nm)"

text \<open>ImagePathName: the loop stops at 94 characters.\<close>
definition image_path :: "cstr \<Rightarrow> cstr" where
  "image_path nm = (let pre = ''C:'' @ [CHR 0x5C] @ ''Windows'' @ [CHR 0x5C] in pre @ take (94 - length pre) nm)"

definition params_fields :: "cstr \<Rightarrow> poke list" where
  "params_fields nm =
    (let path = image_path nm; pl = (of_nat (length path) :: u32); nlen = (of_nat (length nm) :: u32) in
     [D 0x00 (of_nat PAGE_SIZE), D 0x04 (of_nat PAGE_SIZE)] @ wide 0x100 path @
     [W 0x60 (ucast (pl * 2)), W 0x62 (ucast (pl * 2 + 2)), Q 0x68 (PARAMS_VA + 0x100)] @ wide 0x200 nm @
     [W 0x70 (ucast (nlen * 2)), W 0x72 (ucast (nlen * 2 + 2)), Q 0x78 (PARAMS_VA + 0x200)])"

text \<open>The four pages of SetupPeb; a page that cannot be allocated ends it, except the last.  The
  results of MapPageInto are not looked at.\<close>
definition SetupHeapPage :: "u64 \<Rightarrow> u64 \<Rightarrow> vmm \<Rightarrow> vmm" where
  "SetupHeapPage cr3 peb s =
    (let (hphys, s) = alloc_page s in
     if hphys = 0 then s else
     snd (MapPageInto cr3 HEAP_VA hphys USER_RW (wr64 (peb + 0x30) HEAP_VA (zero_page hphys s))))"

definition SetupParams :: "u64 \<Rightarrow> u64 \<Rightarrow> cstr \<Rightarrow> vmm \<Rightarrow> vmm" where
  "SetupParams cr3 peb nm s =
    (let (pphys, s) = alloc_page s in
     if pphys = 0 then s else
     let s = pokes pphys (params_fields nm) (zero_page pphys s);
         s = wr64 (peb + 0x20) PARAMS_VA s
     in SetupHeapPage cr3 peb (snd (MapPageInto cr3 PARAMS_VA pphys USER_RW s)))"

definition SetupLdr :: "u64 \<Rightarrow> u64 \<Rightarrow> u64 \<Rightarrow> cstr \<Rightarrow> vmm \<Rightarrow> vmm" where
  "SetupLdr cr3 peb image_base nm s =
    (let (lphys, s) = alloc_page s in
     if lphys = 0 then s else
     let s = pokes lphys (ldr_fields image_base nm) (zero_page lphys s)
     in SetupParams cr3 peb nm (snd (MapPageInto cr3 LDR_VA lphys USER_RW s)))"

definition SetupPeb :: "nat \<Rightarrow> psys \<Rightarrow> psys" where
  "SetupPeb p s =
    (let k = the_proc s p in
     if Cr3 k = 0 then s else
     let (phys, v) = alloc_page (p_vmm s) in
     if phys = 0 then s\<lparr>p_vmm := v\<rparr> else
     let v = pokes phys (peb_fields (ImageBase k)) (zero_page phys v);
         v = snd (MapPageInto (Cr3 k) PEB_VA phys USER_RW v);
         v = SetupLdr (Cr3 k) phys (ImageBase k) (PName k) v
     in set_proc p (\<lambda>k. k\<lparr>PebVa := PEB_VA, NextTebVa := TEB_BASE\<rparr>) (s\<lparr>p_vmm := v\<rparr>))"

definition teb_fields :: "KProcess \<Rightarrow> u32 \<Rightarrow> u64 \<Rightarrow> u64 \<Rightarrow> poke list" where
  "teb_fields k tid user_stack_top teb_va =
    [Q 0x08 user_stack_top, Q 0x30 teb_va, Q 0x40 (ucast (Pid k)), Q 0x48 (ucast tid), Q 0x60 (PebVa k),
     Q 0x58 (teb_va + 0x800)]"

definition SetupTeb :: "nat option \<Rightarrow> u32 \<Rightarrow> u64 \<Rightarrow> psys \<Rightarrow> u64 \<times> psys" where
  "SetupTeb proc tid user_stack_top s =
    (case proc of None \<Rightarrow> (0, s)
     | Some p \<Rightarrow>
       (let k = the_proc s p in
        if Cr3 k = 0 \<or> PebVa k = 0 then (0, s) else
        let teb_va = NextTebVa k;
            s = set_proc p (\<lambda>k. k\<lparr>NextTebVa := NextTebVa k + 0x2000\<rparr>) s;
            (phys, v) = alloc_page (p_vmm s) in
        if phys = 0 then (0, s\<lparr>p_vmm := v\<rparr>) else
        let v = pokes phys (teb_fields k tid user_stack_top teb_va) (zero_page phys v);
            v = snd (MapPageInto (Cr3 k) teb_va phys USER_RW v)
        in (teb_va, s\<lparr>p_vmm := v\<rparr>)))"

section \<open>Processes and threads\<close>

text \<open>ReadCr3 with the flag bits masked off; the register is the one the scheduler loads.\<close>
definition current_cr3 :: "psys \<Rightarrow> u64" where
  "current_cr3 s = cpu_cr3 (p_sys s) AND CR3_MASK"

definition register_process :: "nat \<Rightarrow> psys \<Rightarrow> psys" where
  "register_process p s = (if length (s_proc_reg (p_sys s)) < PROC_REG_SIZE
     then s\<lparr>p_sys := (p_sys s)\<lparr>s_proc_reg := s_proc_reg (p_sys s) @ [p]\<rparr>\<rparr> else s)"

definition register_thread :: "node \<Rightarrow> psys \<Rightarrow> psys" where
  "register_thread t s = (if length (s_thread_reg (p_sys s)) < THREAD_REG_SIZE
     then s\<lparr>p_sys := (p_sys s)\<lparr>s_thread_reg := s_thread_reg (p_sys s) @ [t]\<rparr>\<rparr> else s)"

text \<open>Two assertions: None when the kernel would halt.\<close>
definition PS_Init :: "psys \<Rightarrow> psys option" where
  "PS_Init s =
    (case new_process s of (None, _) \<Rightarrow> None | (Some p, s) \<Rightarrow>
      (let s = set_proc p (\<lambda>k. k\<lparr>Pid := s_next_pid s, Cr3 := current_cr3 s, PFlags := 0, PName := copy_name ''System''\<rparr>) s;
           s = s\<lparr>s_system_process := Some p, s_next_pid := s_next_pid s + 1\<rparr> in
       case new_thread s of (None, _) \<Rightarrow> None | (Some t, s) \<Rightarrow>
        (let s = set_thr t (\<lambda>k. k\<lparr>Tid := s_next_tid s, State := RUNNING, QuantumLeft := QUANTUM_TICKS,
                Process := Some p, KernelStackPtr := 0, TName := copy_name ''Main''\<rparr>) s;
             s = s\<lparr>s_main_thread := Some t, s_next_tid := s_next_tid s + 1\<rparr>;
             s = set_proc p (\<lambda>k. k\<lparr>thread_count := 1\<rparr>) s;
             s = s\<lparr>p_sys := Sched_Init (p_sys s)\<rparr>
         in Some (register_process p s))))"

definition CreateProcess :: "cstr option \<Rightarrow> u64 \<Rightarrow> psys \<Rightarrow> nat option \<times> psys" where
  "CreateProcess nm cr3 s =
    (case new_process s of (None, s) \<Rightarrow> (None, s) | (Some p, s) \<Rightarrow>
      (let s = set_proc p (\<lambda>k. k\<lparr>Pid := s_next_pid s, PFlags := 0,
              Cr3 := (if cr3 \<noteq> 0 then cr3 else current_cr3 s), UserHeapCursor := 0x500000000,
              PName := (case nm of None \<Rightarrow> PName k | Some n \<Rightarrow> copy_name n)\<rparr>) s;
           s = s\<lparr>s_next_pid := s_next_pid s + 1\<rparr>
       in (Some p, SetupPeb p (register_process p s))))"

definition DestroyProcess :: "nat option \<Rightarrow> psys \<Rightarrow> psys" where
  "DestroyProcess process s = s"

text \<open>The fields both kinds of thread share, and the count of the owning process.\<close>
definition init_thread :: "node \<Rightarrow> nat option \<Rightarrow> u64 \<Rightarrow> u64 \<Rightarrow> u64 \<Rightarrow> u64 \<Rightarrow> u64 \<Rightarrow> cstr option \<Rightarrow> psys \<Rightarrow> psys" where
  "init_thread t owner base sz ksp fn arg nm s =
    (let s = set_thr t (\<lambda>k. k\<lparr>Tid := s_next_tid s, State := READY, QuantumLeft := QUANTUM_TICKS,
           Priority := THREAD_PRIORITY_NORMAL, Process := owner\<rparr>) s;
         s = s\<lparr>s_next_tid := s_next_tid s + 1\<rparr>;
         s = (case owner of None \<Rightarrow> s | Some p \<Rightarrow> set_proc p (\<lambda>k. k\<lparr>thread_count := thread_count k + 1\<rparr>) s)
     in set_thr t (\<lambda>k. k\<lparr>KernelStackBase := base, KernelStackSize := sz, EntryFn := fn, EntryArg := arg,
          KernelStackPtr := ksp, Next := None, Prev := None,
          TName := (case nm of None \<Rightarrow> TName k | Some n \<Rightarrow> copy_name n)\<rparr>) s)"

definition owner_of :: "nat option \<Rightarrow> psys \<Rightarrow> nat option" where
  "owner_of process s = (case process of None \<Rightarrow> s_system_process s | Some p \<Rightarrow> Some p)"

definition CreateKernelThread :: "nat option \<Rightarrow> cstr option \<Rightarrow> u64 \<Rightarrow> u64 \<Rightarrow> u64 \<Rightarrow> psys \<Rightarrow> node option \<times> psys" where
  "CreateKernelThread process nm entry_fn arg sz s =
    (let (base, v) = AllocStack sz (p_vmm s); s = s\<lparr>p_vmm := v\<rparr> in
     if base = 0 then (None, s) else
     let stop = base + sz;
         s = s\<lparr>p_vmm := poke_slots stop [kernel_thread_entry s, 0, 0, 0, 0, 0, 0] (p_vmm s)\<rparr> in
     case new_thread s of (None, s) \<Rightarrow> (None, s)
     | (Some t, s) \<Rightarrow> (Some t, init_thread t (owner_of process s) base sz (stop - SWITCH_FRAME_SIZE) entry_fn arg nm s))"

definition CreateUserThread :: "nat option \<Rightarrow> cstr option \<Rightarrow> u64 \<Rightarrow> u64 \<Rightarrow> u64 \<Rightarrow> u64 \<Rightarrow> psys \<Rightarrow> node option \<times> psys" where
  "CreateUserThread process nm user_entry_va user_stack_va user_arg sz s =
    (let (base, v) = AllocStack sz (p_vmm s); s = s\<lparr>p_vmm := v\<rparr> in
     if base = 0 then (None, s) else
     let stop = base + sz;
         s = s\<lparr>p_vmm := poke_slots stop [USER_SS, user_stack_va, USER_FLAGS, USER_CS, user_entry_va, user_arg,
               user_thread_entry s, 0, 0, 0, 0, 0, 0] (p_vmm s)\<rparr> in
     case new_thread s of (None, s) \<Rightarrow> (None, s)
     | (Some t, s) \<Rightarrow>
       (let s = init_thread t (owner_of process s) base sz (stop - SWITCH_FRAME_SIZE - IRETQ_FRAME_SIZE - 8) 0 0 nm s;
            (teb, s) = SetupTeb (Process (the_thr s t)) (Tid (the_thr s t)) user_stack_va s;
            s = set_thr t (\<lambda>k. k\<lparr>TebVa := teb\<rparr>) s
        in (Some t, register_thread t s)))"

section \<open>Notification and the registries\<close>

definition IMAGE_BASE_VA :: u64 where "IMAGE_BASE_VA = PEB_VA + 0x10"
definition DLL_BASE_VA :: u64 where "DLL_BASE_VA = LDR_VA + LDR_ENTRY_OFF + 0x30"

text \<open>A 64-bit store through a user address, when it is mapped.\<close>
definition patch64 :: "u64 \<Rightarrow> u64 \<Rightarrow> u64 \<Rightarrow> vmm \<Rightarrow> vmm" where
  "patch64 cr3 va val s = (let ph = TranslateInPml4 cr3 va s in if ph \<noteq> 0 then wr64 ph val s else s)"

fun notify :: "nat list \<Rightarrow> u64 \<Rightarrow> u64 \<Rightarrow> psys \<Rightarrow> psys" where
  "notify [] cr3 image_base s = s"
| "notify (p # ps) cr3 image_base s =
    (if Cr3 (the_proc s p) \<noteq> cr3 \<or> PebVa (the_proc s p) = 0 then notify ps cr3 image_base s
     else let s = set_proc p (\<lambda>k. k\<lparr>ImageBase := image_base\<rparr>) s
          in s\<lparr>p_vmm := patch64 cr3 DLL_BASE_VA image_base (patch64 cr3 IMAGE_BASE_VA image_base (p_vmm s))\<rparr>)"

definition NotifyImageLoaded :: "u64 \<Rightarrow> u64 \<Rightarrow> psys \<Rightarrow> psys" where
  "NotifyImageLoaded cr3 image_base s = notify (s_proc_reg (p_sys s)) cr3 image_base s"

definition ProcessCount :: "psys \<Rightarrow> nat" where "ProcessCount s = length (s_proc_reg (p_sys s))"
definition ThreadCount :: "psys \<Rightarrow> nat" where "ThreadCount s = length (s_thread_reg (p_sys s))"

definition GetProcess :: "nat \<Rightarrow> psys \<Rightarrow> nat option" where
  "GetProcess i s = (if i < ProcessCount s then Some (s_proc_reg (p_sys s) ! i) else None)"

definition GetThread :: "nat \<Rightarrow> psys \<Rightarrow> node option" where
  "GetThread i s = (if i < ThreadCount s then Some (s_thread_reg (p_sys s) ! i) else None)"

text \<open>What kernel_thread_entry calls on a new thread's stack: the entry function of the current
  thread, a parameter, then the end of the thread.\<close>
definition KernelThreadEntry :: "(u64 \<Rightarrow> u64 \<Rightarrow> ksys \<Rightarrow> ksys) \<Rightarrow> ksys \<Rightarrow> ksys option" where
  "KernelThreadEntry call s =
    (let s = (case CurrentThread s of None \<Rightarrow> s
        | Some t \<Rightarrow> if EntryFn (thr s t) \<noteq> 0 then call (EntryFn (thr s t)) (EntryArg (thr s t)) s else s)
     in TerminateCurrentThread s)"

end
