(* ===== verification/PeLoader.thy ===== *)
theory PeLoader
  imports ProcessCreate "HOL-Library.Monad_Syntax"
begin

text \<open>The PE32+ loader, kernel/ldr/pe_loader.cpp: mapping of the header page and the sections,
  import resolution against the module registry, the registry and the catalog of DLLs.  An
  image is the memory from its pointer on, a function from 64-bit offsets to bytes: the code
  checks no offset it reads from the file against the size, and neither does the model.  Offsets
  and sizes are kept at the width the code computes them with.  The loops over import
  descriptors, thunks and strings have no bound: they are partial functions in the option monad,
  where None means that the loop does not end.\<close>

section \<open>State\<close>

type_synonym blob = "u64 \<Rightarrow> u8"

record Module =
  m_name :: cstr
  m_image_base :: u64
  m_pe_data :: blob
  m_pe_size :: u64

record CatalogEntry =
  c_name :: cstr
  c_data :: blob
  c_size :: u64
  c_base :: u64

record ldr =
  l_ps :: psys
  s_mods :: "Module list"
  s_catalog :: "CatalogEntry list"

definition IMAGE_AMD64 :: u16 where "IMAGE_AMD64 = 0x8664"
definition IMAGE_PE32PLUS :: u16 where "IMAGE_PE32PLUS = 0x020B"
definition MAX_MODULES :: nat where "MAX_MODULES = 64"
definition CATALOG_SIZE :: nat where "CATALOG_SIZE = 16"

definition NT_SUCCESS :: "NTSTATUS \<Rightarrow> bool" where "NT_SUCCESS st \<longleftrightarrow> 0 \<le> sint st"

definition SectionPteFlags :: "u32 \<Rightarrow> u64" where
  "SectionPteFlags chars = (let f = PTE_PRESENT OR PTE_USER in
     if chars AND 0x80000000 \<noteq> 0 then f OR PTE_WRITABLE else f)"

section \<open>Reading an image\<close>

definition ld16 :: "blob \<Rightarrow> u64 \<Rightarrow> u16" where "ld16 img a = of_nat (le_val 2 (\<lambda>i. img (a + of_nat i)))"
definition ld32 :: "blob \<Rightarrow> u64 \<Rightarrow> u32" where "ld32 img a = of_nat (le_val 4 (\<lambda>i. img (a + of_nat i)))"
definition ld64 :: "blob \<Rightarrow> u64 \<Rightarrow> u64" where "ld64 img a = of_nat (le_val 8 (\<lambda>i. img (a + of_nat i)))"

lemmas ld_defs = ld16_def ld32_def ld64_def le_val_def

definition e_lfanew :: "blob \<Rightarrow> u32" where "e_lfanew img = ld32 img 60"
definition pe_hdr :: "blob \<Rightarrow> u64" where "pe_hdr img = ucast (e_lfanew img)"
definition opt_hdr :: "blob \<Rightarrow> u64" where "opt_hdr img = pe_hdr img + 4 + 20"
definition num_sects :: "blob \<Rightarrow> nat" where "num_sects img = unat (ld16 img (pe_hdr img + 4 + 2))"
definition sect_hdrs :: "blob \<Rightarrow> u64" where "sect_hdrs img = opt_hdr img + ucast (ld16 img (pe_hdr img + 4 + 16))"
definition sect_hdr :: "blob \<Rightarrow> nat \<Rightarrow> u64" where "sect_hdr img s = sect_hdrs img + of_nat (s * 40)"

text \<open>The fields of section header s.\<close>
definition v_size :: "blob \<Rightarrow> nat \<Rightarrow> u32" where "v_size img s = ld32 img (sect_hdr img s + 8)"
definition v_rva :: "blob \<Rightarrow> nat \<Rightarrow> u32" where "v_rva img s = ld32 img (sect_hdr img s + 12)"
definition raw_size :: "blob \<Rightarrow> nat \<Rightarrow> u32" where "raw_size img s = ld32 img (sect_hdr img s + 16)"
definition raw_off :: "blob \<Rightarrow> nat \<Rightarrow> u32" where "raw_off img s = ld32 img (sect_hdr img s + 20)"
definition sect_chars :: "blob \<Rightarrow> nat \<Rightarrow> u32" where "sect_chars img s = ld32 img (sect_hdr img s + 36)"

text \<open>Two strings in memory: the loop ends at the first difference or the end of the first.\<close>
partial_function (option) streq_from :: "blob \<Rightarrow> blob \<Rightarrow> u64 \<Rightarrow> bool option" where
  "streq_from a b i = (if a i \<noteq> 0 \<and> a i = b i then streq_from a b (i + 1) else Some (a i = b i))"

definition streq :: "blob \<Rightarrow> blob \<Rightarrow> bool option" where "streq a b = streq_from a b 0"

text \<open>A string of the kernel as memory, and the string at an offset of an image.\<close>
definition cmem :: "cstr \<Rightarrow> blob" where
  "cmem s i = (if unat i < length s then of_nat (of_char (s ! unat i)) else 0)"

definition str_at :: "blob \<Rightarrow> u64 \<Rightarrow> blob" where "str_at img off i = img (off + i)"

text \<open>The walk over the section headers from number s on, n of them left.\<close>
fun rva_to_off_from :: "blob \<Rightarrow> nat \<Rightarrow> nat \<Rightarrow> u32 \<Rightarrow> u32" where
  "rva_to_off_from img s 0 rva = 0"
| "rva_to_off_from img s (Suc n) rva =
    (if v_rva img s \<le> rva \<and> rva < v_rva img s + v_size img s then raw_off img s + (rva - v_rva img s)
     else rva_to_off_from img (s + 1) n rva)"

definition rva_to_off :: "blob \<Rightarrow> u32 \<Rightarrow> u32" where
  "rva_to_off img rva = rva_to_off_from img 0 (num_sects img) rva"

section \<open>The module registry and the exports\<close>

definition RegisterModule :: "cstr \<Rightarrow> u64 \<Rightarrow> blob \<Rightarrow> u64 \<Rightarrow> ldr \<Rightarrow> ldr" where
  "RegisterModule nm base data sz s =
    (if length (s_mods s) \<ge> MAX_MODULES then s
     else s\<lparr>s_mods := s_mods s @ [\<lparr>m_name = take 31 nm, m_image_base = base, m_pe_data = data, m_pe_size = sz\<rparr>]\<rparr>)"

fun find_module :: "Module list \<Rightarrow> blob \<Rightarrow> Module option option" where
  "find_module [] nm = Some None"
| "find_module (m # ms) nm = do { e \<leftarrow> streq (cmem (m_name m)) nm; if e then Some (Some m) else find_module ms nm }"

definition FindModule :: "blob \<Rightarrow> ldr \<Rightarrow> Module option option" where
  "FindModule nm s = find_module (s_mods s) nm"

text \<open>The loop over the names from index i on, n of them left; 0 when none matches.\<close>
fun find_name :: "Module \<Rightarrow> blob \<Rightarrow> u64 \<Rightarrow> u64 \<Rightarrow> u64 \<Rightarrow> u64 \<Rightarrow> nat \<Rightarrow> u64 option" where
  "find_name m fname names ords funcs i 0 = Some 0"
| "find_name m fname names ords funcs i (Suc n) =
    (let img = m_pe_data m; name_off = rva_to_off img (ld32 img (names + 4 * i)) in
     if name_off = 0 then find_name m fname names ords funcs (i + 1) n
     else do {
       e \<leftarrow> streq (str_at img (ucast name_off)) fname;
       if e then Some (m_image_base m + ucast (ld32 img (funcs + 4 * ucast (ld16 img (ords + 2 * i)))))
       else find_name m fname names ords funcs (i + 1) n })"

definition FindExport :: "Module \<Rightarrow> blob \<Rightarrow> u64 option" where
  "FindExport m fname =
    (let img = m_pe_data m; exp_rva = ld32 img (opt_hdr img + 112) in
     if exp_rva = 0 then Some 0 else
     let exp_off = rva_to_off img exp_rva in
     if exp_off = 0 then Some 0 else
     let ed = ucast exp_off; num_names = ld32 img (ed + 24);
         fn_off = rva_to_off img (ld32 img (ed + 28)); nm_off = rva_to_off img (ld32 img (ed + 32));
         or_off = rva_to_off img (ld32 img (ed + 36)) in
     if fn_off = 0 \<or> nm_off = 0 \<or> or_off = 0 then Some 0
     else find_name m fname (ucast nm_off) (ucast or_off) (ucast fn_off) 0 (unat num_names))"

section \<open>Mapping the image\<close>

definition PatchIATSlot :: "u64 \<Rightarrow> u64 \<Rightarrow> u64 \<Rightarrow> vmm \<Rightarrow> bool \<times> vmm" where
  "PatchIATSlot pml4_phys iat_va func_va s =
    (let phys = TranslateInPml4 pml4_phys iat_va s in
     if phys = 0 then (False, s) else
     let page_off = iat_va AND 0xFFF
     in (True, wr64 phys func_va (wr64 (phys - page_off + page_off) func_va s)))"

text \<open>One page: allocate a frame, fill it, map it; a frame that cannot be mapped is given back.\<close>
definition map_filled :: "u64 \<Rightarrow> u64 \<Rightarrow> u64 \<Rightarrow> (u64 \<Rightarrow> vmm \<Rightarrow> vmm) \<Rightarrow> vmm \<Rightarrow> NTSTATUS \<times> vmm" where
  "map_filled pml4_phys va flags fill s =
    (let (phys, s) = alloc_page s in
     if phys = 0 then (STATUS_INSUFFICIENT_RESOURCES, s) else
     let (ok, s) = MapPageInto pml4_phys va phys flags (fill phys s) in
     if ok then (STATUS_SUCCESS, s)
     else (STATUS_INSUFFICIENT_RESOURCES, s\<lparr>vm_pmm := FreePage phys (vm_pmm s)\<rparr>))"

definition fill_header :: "blob \<Rightarrow> u64 \<Rightarrow> u64 \<Rightarrow> vmm \<Rightarrow> vmm" where
  "fill_header img pe_size phys s =
    (let hcopy = (if pe_size < of_nat PAGE_SIZE then pe_size else of_nat PAGE_SIZE)
     in wr_bytes phys PAGE_SIZE (\<lambda>i. if of_nat i < hcopy then img (of_nat i) else 0) s)"

text \<open>The number of bytes copied into page pg of section s, and the copy.  The sum of the raw
  offset and the raw size is a 32-bit sum.\<close>
definition page_file_off :: "blob \<Rightarrow> nat \<Rightarrow> nat \<Rightarrow> u64" where
  "page_file_off img s pg = ucast (raw_off img s) + of_nat (pg * PAGE_SIZE)"

definition copy_len :: "blob \<Rightarrow> u64 \<Rightarrow> nat \<Rightarrow> nat \<Rightarrow> u64" where
  "copy_len img pe_size s pg =
    (let file_off = page_file_off img s pg in
     if raw_off img s \<noteq> 0 \<and> raw_size img s \<noteq> 0 \<and> file_off < pe_size then
       (let copy = of_nat PAGE_SIZE;
            copy = (if file_off + copy > pe_size then pe_size - file_off else copy);
            sect_end = (ucast (raw_off img s + raw_size img s) :: u64)
        in if file_off \<ge> sect_end then 0 else copy)
     else 0)"

definition fill_section :: "blob \<Rightarrow> u64 \<Rightarrow> nat \<Rightarrow> nat \<Rightarrow> u64 \<Rightarrow> vmm \<Rightarrow> vmm" where
  "fill_section img pe_size s pg phys st =
     wr_bytes phys (unat (copy_len img pe_size s pg)) (\<lambda>i. img (page_file_off img s pg + of_nat i)) (zero_page phys st)"

fun map_pages :: "blob \<Rightarrow> u64 \<Rightarrow> u64 \<Rightarrow> u64 \<Rightarrow> nat \<Rightarrow> nat \<Rightarrow> nat \<Rightarrow> vmm \<Rightarrow> NTSTATUS \<times> vmm" where
  "map_pages img pe_size pml4 load_base s pg 0 st = (STATUS_SUCCESS, st)"
| "map_pages img pe_size pml4 load_base s pg (Suc n) st =
    (let va = load_base + ucast (v_rva img s) + of_nat (pg * PAGE_SIZE);
         (r, st) = map_filled pml4 va (SectionPteFlags (sect_chars img s)) (fill_section img pe_size s pg) st in
     if r \<noteq> STATUS_SUCCESS then (r, st) else map_pages img pe_size pml4 load_base s (pg + 1) n st)"

definition sect_pages :: "blob \<Rightarrow> nat \<Rightarrow> nat" where
  "sect_pages img s = unat ((v_size img s + 0xFFF) div 0x1000)"

fun map_sections :: "blob \<Rightarrow> u64 \<Rightarrow> u64 \<Rightarrow> u64 \<Rightarrow> nat \<Rightarrow> nat \<Rightarrow> vmm \<Rightarrow> NTSTATUS \<times> vmm" where
  "map_sections img pe_size pml4 load_base s 0 st = (STATUS_SUCCESS, st)"
| "map_sections img pe_size pml4 load_base s (Suc n) st =
    (if v_size img s = 0 \<or> v_rva img s = 0 then map_sections img pe_size pml4 load_base (s + 1) n st else
     let (r, st) = map_pages img pe_size pml4 load_base s 0 (sect_pages img s) st in
     if r \<noteq> STATUS_SUCCESS then (r, st) else map_sections img pe_size pml4 load_base (s + 1) n st)"

definition MapSections :: "blob \<Rightarrow> u64 \<Rightarrow> u64 \<Rightarrow> u64 \<Rightarrow> vmm \<Rightarrow> NTSTATUS \<times> vmm" where
  "MapSections img pe_size pml4 load_base st =
    (let (r, st) = map_filled pml4 load_base (PTE_PRESENT OR PTE_USER) (fill_header img pe_size) st in
     if r \<noteq> STATUS_SUCCESS then (r, st) else map_sections img pe_size pml4 load_base 0 (num_sects img) st)"

section \<open>Imports\<close>

text \<open>The loop over the thunks of one import descriptor.\<close>
partial_function (option) thunk_loop ::
  "blob \<Rightarrow> Module \<Rightarrow> u64 \<Rightarrow> u64 \<Rightarrow> u32 \<Rightarrow> u32 \<Rightarrow> u32 \<Rightarrow> vmm \<Rightarrow> (NTSTATUS \<times> vmm) option" where
  "thunk_loop img m pml4 load_base int_off iat_rva slot st =
    (let thunk = ld64 img (ucast int_off + ucast (slot * 8)) in
     if thunk = 0 then Some (STATUS_SUCCESS, st)
     else if bit thunk 63 then thunk_loop img m pml4 load_base int_off iat_rva (slot + 1) st
     else let ibn_off = rva_to_off img (ucast thunk) in
     if ibn_off = 0 then thunk_loop img m pml4 load_base int_off iat_rva (slot + 1) st
     else do {
       func_va \<leftarrow> FindExport m (str_at img (ucast ibn_off + 2));
       if func_va = 0 then Some (STATUS_NOT_FOUND, st)
       else (let (ok, st) = PatchIATSlot pml4 (load_base + ucast iat_rva + ucast (slot * 8)) func_va st in
             if \<not> ok then Some (STATUS_INSUFFICIENT_RESOURCES, st)
             else thunk_loop img m pml4 load_base int_off iat_rva (slot + 1) st) })"

text \<open>The loop over the import descriptors.\<close>
partial_function (option) descriptor_loop ::
  "blob \<Rightarrow> Module list \<Rightarrow> u64 \<Rightarrow> u64 \<Rightarrow> u32 \<Rightarrow> u32 \<Rightarrow> vmm \<Rightarrow> (NTSTATUS \<times> vmm) option" where
  "descriptor_loop img ms pml4 load_base imp_off idx st =
    (let d = ucast imp_off + ucast (idx * 20);
         int_rva = ld32 img (d + 0); dll_rva = ld32 img (d + 12); iat_rva = ld32 img (d + 16) in
     if dll_rva = 0 \<and> iat_rva = 0 then Some (STATUS_SUCCESS, st) else
     let dll_off = rva_to_off img dll_rva in
     if dll_off = 0 then descriptor_loop img ms pml4 load_base imp_off (idx + 1) st
     else do {
       found \<leftarrow> find_module ms (str_at img (ucast dll_off));
       case found of None \<Rightarrow> Some (STATUS_NOT_FOUND, st)
       | Some m \<Rightarrow>
         (let int_off = rva_to_off img (if int_rva \<noteq> 0 then int_rva else iat_rva) in
          if int_off = 0 then descriptor_loop img ms pml4 load_base imp_off (idx + 1) st
          else do {
            r \<leftarrow> thunk_loop img m pml4 load_base int_off iat_rva 0 st;
            if fst r \<noteq> STATUS_SUCCESS then Some r
            else descriptor_loop img ms pml4 load_base imp_off (idx + 1) (snd r) }) })"

definition ResolveImports :: "blob \<Rightarrow> Module list \<Rightarrow> u64 \<Rightarrow> u64 \<Rightarrow> vmm \<Rightarrow> (NTSTATUS \<times> vmm) option" where
  "ResolveImports img ms pml4 load_base st =
    (let imp_rva = ld32 img (opt_hdr img + 112 + 1 * 8) in
     if imp_rva = 0 then Some (STATUS_SUCCESS, st) else
     let imp_off = rva_to_off img imp_rva in
     if imp_off = 0 then Some (STATUS_INVALID_IMAGE_FORMAT, st)
     else descriptor_loop img ms pml4 load_base imp_off 0 st)"

section \<open>Loading\<close>

definition on_vmm :: "(vmm \<Rightarrow> vmm) \<Rightarrow> ldr \<Rightarrow> ldr" where
  "on_vmm f s = s\<lparr>l_ps := (l_ps s)\<lparr>p_vmm := f (p_vmm (l_ps s))\<rparr>\<rparr>"

text \<open>The status of a load and the value stored through entry\_out, if one is.\<close>
definition LoadPe :: "blob option \<Rightarrow> u64 \<Rightarrow> u64 \<Rightarrow> u64 \<Rightarrow> ldr \<Rightarrow> (NTSTATUS \<times> u64 option \<times> ldr) option" where
  "LoadPe pe_data pe_size pml4_phys load_base s =
    (case pe_data of None \<Rightarrow> Some (STATUS_INVALID_PARAMETER, None, s) | Some img \<Rightarrow>
     if pe_size < 64 then Some (STATUS_INVALID_PARAMETER, None, s)
     else if img 0 \<noteq> 0x4D \<or> img 1 \<noteq> 0x5A then Some (STATUS_INVALID_IMAGE_FORMAT, None, s)
     else let e = e_lfanew img in
     if img (ucast e) \<noteq> 0x50 \<or> img (ucast (e + 1)) \<noteq> 0x45 then Some (STATUS_INVALID_IMAGE_FORMAT, None, s)
     else if ld16 img (ucast e + 4) \<noteq> IMAGE_AMD64 then Some (STATUS_INVALID_IMAGE_FORMAT, None, s)
     else if ld16 img (opt_hdr img) \<noteq> IMAGE_PE32PLUS then Some (STATUS_INVALID_IMAGE_FORMAT, None, s)
     else let entry_rva = ld32 img (opt_hdr img + 16);
              (st, v) = MapSections img pe_size pml4_phys load_base (p_vmm (l_ps s));
              s = on_vmm (\<lambda>_. v) s in
     if \<not> NT_SUCCESS st then Some (st, None, s)
     else do {
       r \<leftarrow> ResolveImports img (s_mods s) pml4_phys load_base (p_vmm (l_ps s));
       let s = on_vmm (\<lambda>_. snd r) s in
       if \<not> NT_SUCCESS (fst r) then Some (fst r, None, s)
       else Some (STATUS_SUCCESS, Some (load_base + ucast entry_rva),
                  s\<lparr>l_ps := NotifyImageLoaded pml4_phys load_base (l_ps s)\<rparr>) })"

definition LoadAndRegister :: "cstr \<Rightarrow> blob option \<Rightarrow> u64 \<Rightarrow> u64 \<Rightarrow> u64 \<Rightarrow> ldr \<Rightarrow> (NTSTATUS \<times> u64 option \<times> ldr) option" where
  "LoadAndRegister nm pe_data pe_size pml4_phys load_base s = do {
     r \<leftarrow> LoadPe pe_data pe_size pml4_phys load_base s;
     case r of (st, entry, s) \<Rightarrow>
       Some (st, entry, case pe_data of
           None \<Rightarrow> s
         | Some img \<Rightarrow> if NT_SUCCESS st then RegisterModule nm load_base img pe_size s else s) }"

definition GetModuleBase :: "blob \<Rightarrow> ldr \<Rightarrow> u64 option" where
  "GetModuleBase nm s = map_option (\<lambda>m. case m of None \<Rightarrow> 0 | Some m \<Rightarrow> m_image_base m) (FindModule nm s)"

definition AddCatalog :: "cstr \<Rightarrow> blob \<Rightarrow> u64 \<Rightarrow> u64 \<Rightarrow> ldr \<Rightarrow> ldr" where
  "AddCatalog nm pe_data pe_size base s =
    (if length (s_catalog s) \<ge> CATALOG_SIZE then s
     else s\<lparr>s_catalog := s_catalog s @ [\<lparr>c_name = take 31 nm, c_data = pe_data, c_size = pe_size, c_base = base\<rparr>]\<rparr>)"

fun load_from :: "CatalogEntry list \<Rightarrow> cstr \<Rightarrow> u64 \<Rightarrow> ldr \<Rightarrow> (u64 \<times> ldr) option" where
  "load_from [] nm pml4_phys s = Some (0, s)"
| "load_from (c # cs) nm pml4_phys s = do {
     e \<leftarrow> streq (cmem (c_name c)) (cmem nm);
     if \<not> e then load_from cs nm pml4_phys s
     else do {
       r \<leftarrow> LoadAndRegister nm (Some (c_data c)) (c_size c) pml4_phys (c_base c) s;
       case r of (st, entry, s) \<Rightarrow> Some (if NT_SUCCESS st then c_base c else 0, s) } }"

definition LoadLibrary :: "cstr \<Rightarrow> u64 \<Rightarrow> ldr \<Rightarrow> (u64 \<times> ldr) option" where
  "LoadLibrary nm pml4_phys s = do {
     m \<leftarrow> FindModule (cmem nm) s;
     case m of Some m \<Rightarrow> Some (m_image_base m, s)
     | None \<Rightarrow> load_from (s_catalog s) nm pml4_phys s }"

section \<open>Strings\<close>

text \<open>A string of the kernel: no NUL before its end, and shorter than memory.\<close>
definition wf_cstr :: "cstr \<Rightarrow> bool" where
  "wf_cstr s \<longleftrightarrow> CHR 0x00 \<notin> set s \<and> length s < 2 ^ 64 - 1"

lemma char_byte_eq: "(of_nat (of_char c) :: u8) = of_nat (of_char d) \<longleftrightarrow> c = d"
proof -
  have "unat (of_nat (of_char c) :: u8) = of_char c" for c
    by (simp add: unsigned_of_nat take_bit_nat_eq_self)
  then show ?thesis by (metis of_char_eq_iff)
qed

lemma char_byte_zero: "(of_nat (of_char c) :: u8) = 0 \<longleftrightarrow> c = CHR 0x00"
  using char_byte_eq [of c "CHR 0x00"] by simp

lemma streq_from_cmem:
  assumes "wf_cstr a" "wf_cstr b" "take (unat i) a = take (unat i) b" "unat i \<le> length a" "unat i \<le> length b"
  shows "streq_from (cmem a) (cmem b) i = Some (a = b)"
  using assms(3-5)
proof (induction "length a - unat i" arbitrary: i)
  case 0
  then have "cmem a i = 0" "length a = unat i" by (simp_all add: cmem_def)
  moreover have "cmem b i = 0 \<longleftrightarrow> a = b"
  proof (cases "unat i < length b")
    case True
    then have "b ! unat i \<noteq> CHR 0x00" using assms(2) by (metis nth_mem wf_cstr_def)
    then show ?thesis using True calculation by (auto simp: cmem_def char_byte_zero)
  next
    case False
    then show ?thesis using 0 calculation by (simp add: cmem_def)
  qed
  ultimately show ?case by (subst streq_from.simps) auto
next
  case (Suc n)
  then have la: "unat i < length a" by simp
  have lt: "length a < 2 ^ 64 - 1" using assms(1) by (simp add: wf_cstr_def)
  have ai: "a ! unat i \<noteq> CHR 0x00" using assms(1) la by (metis nth_mem wf_cstr_def)
  have i1: "unat (i + 1) = unat i + 1" using la lt by (simp add: unat_word_ariths)
  show ?case
  proof (cases "unat i < length b \<and> a ! unat i = b ! unat i")
    case True
    then have "streq_from (cmem a) (cmem b) (i + 1) = Some (a = b)"
      using Suc la by (intro Suc(1)) (simp_all add: i1 take_Suc_conv_app_nth)
    then show ?thesis using True la ai by (subst streq_from.simps) (simp add: cmem_def char_byte_zero)
  next
    case False
    then have "cmem a i \<noteq> cmem b i" using la ai by (auto simp: cmem_def char_byte_eq char_byte_zero)
    moreover have "a \<noteq> b" using False la by auto
    ultimately show ?thesis by (subst streq_from.simps) simp
  qed
qed

lemma streq_cmem: "wf_cstr a \<Longrightarrow> wf_cstr b \<Longrightarrow> streq (cmem a) (cmem b) = Some (a = b)"
  by (simp add: streq_def streq_from_cmem)
end
