(* ===== verification/Vfs.thy ===== *)
theory Vfs
  imports NtPrelude
begin

text \<open>The virtual file system, kernel/io/vfs.cpp: read-only boot files that the bootloader left in
  memory, and a table of 16 writable nodes that can be saved to and restored from a firmware
  variable.  Memory and the firmware services are parameters.  The map from names to nodes that
  the table implements is the locale name_map.\<close>

section \<open>State\<close>

definition WNODE_MAX :: nat where "WNODE_MAX = 16"
definition WNODE_NAME_MAX :: nat where "WNODE_NAME_MAX = 64"
definition WNODE_DATA_MAX :: u32 where "WNODE_DATA_MAX = 2048"
definition NVRAM_MAGIC :: u32 where "NVRAM_MAGIC = 0x5346544E"

record WNode =
  wn_name :: cstr
  wn_used :: bool
  wn_is_dir :: bool
  wn_size :: u32
  wn_data :: "u8 list"

text \<open>The value-initialised node.\<close>
definition WNode0 :: WNode where
  "WNode0 = \<lparr>wn_name = '''', wn_used = False, wn_is_dir = False, wn_size = 0, wn_data = replicate (unat WNODE_DATA_MAX) 0\<rparr>"

record NVRAMHeader =
  nv_magic :: u32
  nv_count :: u32
  nv_nodes :: "WNode list"

record BootFile =
  bf_name :: cstr
  bf_phys_base :: u64
  bf_size :: u64

text \<open>The boot information: the boot files (boot_file_count of them) and the address of the runtime services.\<close>
record vfs =
  s_wnodes :: "WNode list"
  s_bi :: "BootFile list option"
  s_rt_va :: u64

section \<open>Names\<close>

definition lower :: "char \<Rightarrow> char" where
  "lower c = (if CHR ''A'' \<le> c \<and> c \<le> CHR ''Z'' then char_of (of_char c + 32 :: nat) else c)"

fun str_ieq :: "cstr \<Rightarrow> cstr \<Rightarrow> bool" where
  "str_ieq (x # xs) (y # ys) = (if lower x \<noteq> lower y then False else str_ieq xs ys)"
| "str_ieq xs ys = (xs = [] \<and> ys = [])"

definition vfs_str_copy :: "cstr \<Rightarrow> nat \<Rightarrow> cstr" where "vfs_str_copy s n = take (n - 1) s"

section \<open>Saving and restoring\<close>

text \<open>getVar and setVar stand for the firmware services (None is a null pointer): the status and the
  header read, and the status of a write to the variable store nv.\<close>
definition LoadNVRAM :: "(u64 \<times> NVRAMHeader) option \<Rightarrow> vfs \<Rightarrow> vfs" where
  "LoadNVRAM getVar s =
    (if s_rt_va s = 0 then s else
     case getVar of None \<Rightarrow> s
     | Some (status, hdr) \<Rightarrow>
        if status \<noteq> 0 \<or> nv_magic hdr \<noteq> NVRAM_MAGIC then s
        else (let count = (if nv_count hdr < of_nat WNODE_MAX then nv_count hdr else of_nat WNODE_MAX)
              in s\<lparr>s_wnodes := fold (\<lambda>i ns. ns[i := nv_nodes hdr ! i]) [0..<unat count] (s_wnodes s)\<rparr>))"

definition VFS_Init :: "(BootFile list \<times> u64) option \<Rightarrow> (u64 \<times> NVRAMHeader) option \<Rightarrow> vfs" where
  "VFS_Init bi getVar =
    LoadNVRAM getVar \<lparr>s_wnodes = replicate WNODE_MAX WNode0, s_bi = map_option fst bi,
       s_rt_va = (case bi of None \<Rightarrow> 0 | Some (_, rt) \<Rightarrow> rt)\<rparr>"

definition SaveNVRAM :: "(NVRAMHeader \<Rightarrow> 'nv \<Rightarrow> u64 \<times> 'nv) option \<Rightarrow> vfs \<Rightarrow> 'nv \<Rightarrow> 'nv" where
  "SaveNVRAM setVar s nv =
    (if s_rt_va s = 0 then nv else
     case setVar of None \<Rightarrow> nv
     | Some set_var \<Rightarrow> snd (set_var \<lparr>nv_magic = NVRAM_MAGIC, nv_count = of_nat WNODE_MAX,
         nv_nodes = map (\<lambda>i. s_wnodes s ! i) [0..<WNODE_MAX]\<rparr> nv))"

section \<open>Boot files\<close>

fun boot_find :: "BootFile list \<Rightarrow> nat \<Rightarrow> cstr \<Rightarrow> nat option" where
  "boot_find [] i name = None"
| "boot_find (f # fs) i name = (if str_ieq (bf_name f) name then Some i else boot_find fs (i + 1) name)"

text \<open>Handles are indices, -1 is the failure.\<close>
definition VFS_Open :: "cstr option \<Rightarrow> vfs \<Rightarrow> int" where
  "VFS_Open name s = (case (s_bi s, name) of
     (Some fs, Some n) \<Rightarrow> (case boot_find fs 0 n of Some i \<Rightarrow> int i | None \<Rightarrow> -1)
   | _ \<Rightarrow> -1)"

definition VFS_Close :: "int \<Rightarrow> vfs \<Rightarrow> vfs" where "VFS_Close h s = s"

text \<open>The result and the bytes stored in the buffer.\<close>
definition VFS_Read :: "(u64 \<Rightarrow> u8) \<Rightarrow> int \<Rightarrow> u64 \<Rightarrow> u64 \<Rightarrow> vfs \<Rightarrow> int \<times> u8 list" where
  "VFS_Read mem h offset len s =
    (case s_bi s of None \<Rightarrow> (-1, [])
     | Some fs \<Rightarrow>
        if h < 0 \<or> nat h \<ge> length fs then (-1, []) else
        let f = fs ! nat h in
        if offset \<ge> bf_size f then (0, []) else
        let avail = bf_size f - offset; len = (if len > avail then avail else len)
        in (uint len, map (\<lambda>i. mem (bf_phys_base f + offset + of_nat i)) [0..<unat len]))"

definition VFS_Size :: "int \<Rightarrow> vfs \<Rightarrow> int" where
  "VFS_Size h s = (case s_bi s of None \<Rightarrow> -1
     | Some fs \<Rightarrow> if h < 0 \<or> nat h \<ge> length fs then -1 else uint (bf_size (fs ! nat h)))"

text \<open>The address and size of a boot file.\<close>
definition VFS_GetData :: "cstr option \<Rightarrow> vfs \<Rightarrow> (u64 \<times> u64) option" where
  "VFS_GetData name s = (case (s_bi s, name) of
     (Some fs, Some n) \<Rightarrow> map_option (\<lambda>i. (bf_phys_base (fs ! i), bf_size (fs ! i))) (boot_find fs 0 n)
   | _ \<Rightarrow> None)"

definition VFS_FindFile :: "cstr option \<Rightarrow> vfs \<Rightarrow> u64 \<times> u64" where
  "VFS_FindFile name s = (case VFS_GetData name s of None \<Rightarrow> (0, 0) | Some p \<Rightarrow> p)"

definition VFS_ForEach :: "vfs \<Rightarrow> (cstr \<times> u64) list" where
  "VFS_ForEach s = (case s_bi s of None \<Rightarrow> [] | Some fs \<Rightarrow> map (\<lambda>f. (bf_name f, bf_size f)) fs)"

section \<open>Writable nodes\<close>

definition VFS_ForEachWritable :: "vfs \<Rightarrow> (cstr \<times> u32 \<times> bool) list" where
  "VFS_ForEachWritable s = map (\<lambda>n. (wn_name n, wn_size n, wn_is_dir n)) (filter wn_used (s_wnodes s))"

fun node_find :: "(WNode \<Rightarrow> bool) \<Rightarrow> WNode list \<Rightarrow> nat \<Rightarrow> nat option" where
  "node_find p [] i = None"
| "node_find p (n # ns) i = (if p n then Some i else node_find p ns (i + 1))"

definition named :: "cstr \<Rightarrow> WNode \<Rightarrow> bool" where
  "named name n \<longleftrightarrow> wn_used n \<and> str_ieq (wn_name n) name"

definition WFind :: "cstr \<Rightarrow> vfs \<Rightarrow> nat" where
  "WFind name s = (case node_find (named name) (s_wnodes s) 0 of Some i \<Rightarrow> i | None \<Rightarrow> WNODE_MAX)"

definition WFindOrCreate :: "cstr \<Rightarrow> bool \<Rightarrow> vfs \<Rightarrow> nat \<times> vfs" where
  "WFindOrCreate name is_dir s =
    (case node_find (named name) (s_wnodes s) 0 of Some i \<Rightarrow> (i, s)
     | None \<Rightarrow>
        case node_find (\<lambda>n. \<not> wn_used n) (s_wnodes s) 0 of
          Some i \<Rightarrow> (i, s\<lparr>s_wnodes := (s_wnodes s)[i := WNode0\<lparr>wn_used := True, wn_is_dir := is_dir,
                          wn_name := vfs_str_copy name WNODE_NAME_MAX\<rparr>]\<rparr>)
        | None \<Rightarrow> (WNODE_MAX, s))"

definition MkDir :: "cstr option \<Rightarrow> vfs \<Rightarrow> bool \<times> vfs" where
  "MkDir name s =
    (case name of None \<Rightarrow> (False, s) | Some n \<Rightarrow>
     if n = '''' then (False, s)
     else if WFind n s < WNODE_MAX then (False, s)
     else (let (i, s) = WFindOrCreate n True s in (i < WNODE_MAX, s)))"

definition VFS_Delete :: "cstr \<Rightarrow> vfs \<Rightarrow> bool \<times> vfs" where
  "VFS_Delete name s =
    (case node_find (named name) (s_wnodes s) 0 of
       Some i \<Rightarrow> (True, s\<lparr>s_wnodes := (s_wnodes s)[i := WNode0]\<rparr>)
     | None \<Rightarrow> (False, s))"

text \<open>The copying loop of WWrite; a byte beyond the array is lost (in C++ it overwrites what follows).\<close>
fun append_bytes :: "u8 list \<Rightarrow> WNode \<Rightarrow> WNode" where
  "append_bytes [] n = n"
| "append_bytes (b # bs) n = append_bytes bs (n\<lparr>wn_data := (wn_data n)[unat (wn_size n) := b], wn_size := wn_size n + 1\<rparr>)"

definition WWrite :: "nat \<Rightarrow> u8 list \<Rightarrow> u32 \<Rightarrow> vfs \<Rightarrow> u32 \<times> vfs" where
  "WWrite idx src len s =
    (if idx \<ge> WNODE_MAX \<or> \<not> wn_used (s_wnodes s ! idx) then (0, s) else
     let n = s_wnodes s ! idx; space = WNODE_DATA_MAX - wn_size n; len = (if len > space then space else len)
     in (len, s\<lparr>s_wnodes := (s_wnodes s)[idx := append_bytes (take (unat len) src) n]\<rparr>))"

definition WRead :: "nat \<Rightarrow> u64 \<Rightarrow> u32 \<Rightarrow> vfs \<Rightarrow> u32 \<times> u8 list" where
  "WRead idx offset len s =
    (if idx \<ge> WNODE_MAX \<or> \<not> wn_used (s_wnodes s ! idx) then (0, []) else
     let n = s_wnodes s ! idx in
     if offset \<ge> ucast (wn_size n) then (0, []) else
     let avail = wn_size n - ucast offset; len = (if len > avail then avail else len)
     in (len, map (\<lambda>i. wn_data n ! unat (ucast offset + of_nat i :: u32)) [0..<unat len]))"

definition WSize :: "nat \<Rightarrow> vfs \<Rightarrow> u32" where
  "WSize idx s = (if idx \<ge> WNODE_MAX \<or> \<not> wn_used (s_wnodes s ! idx) then 0 else wn_size (s_wnodes s ! idx))"

definition WIsDir :: "nat \<Rightarrow> vfs \<Rightarrow> bool" where
  "WIsDir idx s = (if idx \<ge> WNODE_MAX \<or> \<not> wn_used (s_wnodes s ! idx) then False else wn_is_dir (s_wnodes s ! idx))"

section \<open>The interface\<close>

text \<open>A finite map from names to slots: what the file calls of the kernel rely on.\<close>
locale name_map =
  fixes find :: "'n \<Rightarrow> 't \<Rightarrow> 'i option"
    and create :: "'n \<Rightarrow> 't \<Rightarrow> 'i option \<times> 't"
    and delete :: "'n \<Rightarrow> 't \<Rightarrow> bool \<times> 't"
    and same :: "'n \<Rightarrow> 'n \<Rightarrow> bool" and good :: "'n \<Rightarrow> bool" and inv :: "'t \<Rightarrow> bool"
  assumes same_refl: "same n n"
    and find_same: "inv t \<Longrightarrow> same n m \<Longrightarrow> find n t = find m t"
    and create_inv: "inv t \<Longrightarrow> good n \<Longrightarrow> inv (snd (create n t))"
    and delete_inv: "inv t \<Longrightarrow> inv (snd (delete n t))"
    and create_old: "inv t \<Longrightarrow> find n t = Some i \<Longrightarrow> create n t = (Some i, t)"
    and create_new: "inv t \<Longrightarrow> good n \<Longrightarrow> find n t = None \<Longrightarrow> create n t = (Some i, t') \<Longrightarrow>
      find m t' = (if same n m then Some i else find m t)"
    and create_full: "inv t \<Longrightarrow> create n t = (None, t') \<Longrightarrow> t' = t"
    and delete_result: "inv t \<Longrightarrow> fst (delete n t) \<longleftrightarrow> find n t \<noteq> None"
    and delete_find: "inv t \<Longrightarrow> find m (snd (delete n t)) = (if same n m then None else find m t)"
begin

text \<open>A created name is found until it is deleted, and deleting it brings back the map from before.\<close>
lemma create_found: "inv t \<Longrightarrow> good n \<Longrightarrow> create n t = (Some i, t') \<Longrightarrow> find n t' = Some i"
  using create_old [of t n] create_new [of t n i t' n] same_refl by (cases "find n t") auto

lemma create_delete:
  assumes "inv t" "good n" "find n t = None" "create n t = (Some i, t1)"
  shows "fst (delete n t1)" "find m (snd (delete n t1)) = find m t"
proof -
  have i: "inv t1" using create_inv [OF assms(1,2)] assms(4) by simp
  show "fst (delete n t1)" using delete_result [OF i] create_found [OF assms(1,2,4)] by simp
  show "find m (snd (delete n t1)) = find m t"
    using delete_find [OF i, of m n] create_new [OF assms] find_same [OF assms(1), of n m] assms(3) by auto
qed

end

section \<open>The node table implements the interface\<close>

lemma str_ieq_iff: "str_ieq xs ys \<longleftrightarrow> map lower xs = map lower ys"
  by (induction xs ys rule: str_ieq.induct) auto

lemma node_find_None: "node_find p ns i = None \<longleftrightarrow> (\<forall>n\<in>set ns. \<not> p n)"
  by (induction p ns i rule: node_find.induct) auto

lemma node_find_Some: "node_find p ns i = Some k \<Longrightarrow> i \<le> k \<and> k - i < length ns \<and> p (ns ! (k - i))"
proof (induction p ns i rule: node_find.induct)
  case (2 p n ns i)
  show ?case
  proof (cases "p n")
    case False
    then have "i + 1 \<le> k \<and> k - (i + 1) < length ns \<and> p (ns ! (k - (i + 1)))" using 2 by simp
    moreover have "k - i = Suc (k - (i + 1))" using calculation by arith
    ultimately show ?thesis by simp
  qed (use 2 in simp)
qed simp

lemma node_find_unique:
  assumes "i < length ns" "p (ns ! i)" "\<And>j. j < length ns \<Longrightarrow> p (ns ! j) \<Longrightarrow> j = i"
  shows "node_find p ns 0 = Some i"
proof (cases "node_find p ns 0")
  case None
  then show ?thesis using assms(1,2) by (auto simp: node_find_None)
next
  case (Some k)
  have "k < length ns" "p (ns ! k)" using node_find_Some [OF Some] by simp_all
  then have "k = i" using assms(3) by blast
  then show ?thesis using Some by simp
qed

text \<open>Sixteen nodes, whose names in use differ.\<close>
definition names_ok :: "vfs \<Rightarrow> bool" where
  "names_ok s \<longleftrightarrow> length (s_wnodes s) = WNODE_MAX \<and>
     (\<forall>i<WNODE_MAX. \<forall>j<WNODE_MAX. wn_used (s_wnodes s ! i) \<and> named (wn_name (s_wnodes s ! i)) (s_wnodes s ! j) \<longrightarrow> i = j)"

definition short_name :: "cstr \<Rightarrow> bool" where "short_name n \<longleftrightarrow> length n < WNODE_NAME_MAX"

definition find_slot :: "cstr \<Rightarrow> vfs \<Rightarrow> nat option" where
  "find_slot n s = (if WFind n s < WNODE_MAX then Some (WFind n s) else None)"

definition create_slot :: "bool \<Rightarrow> cstr \<Rightarrow> vfs \<Rightarrow> nat option \<times> vfs" where
  "create_slot d n s = (let (i, s) = WFindOrCreate n d s in (if i < WNODE_MAX then Some i else None, s))"

lemma named_iff: "named n w \<longleftrightarrow> wn_used w \<and> map lower (wn_name w) = map lower n"
  by (simp add: named_def str_ieq_iff)

lemma find_slot_node: "length (s_wnodes s) = WNODE_MAX \<Longrightarrow> find_slot n s = node_find (named n) (s_wnodes s) 0"
  using node_find_Some [of "named n" "s_wnodes s" 0] by (auto simp: find_slot_def WFind_def split: option.split)

lemma find_slot_iff:
  assumes "names_ok s"
  shows "find_slot n s = Some i \<longleftrightarrow> i < WNODE_MAX \<and> named n (s_wnodes s ! i)"
proof -
  have len: "length (s_wnodes s) = WNODE_MAX" using assms by (simp add: names_ok_def)
  show ?thesis
  proof
    assume "find_slot n s = Some i"
    then show "i < WNODE_MAX \<and> named n (s_wnodes s ! i)"
      using node_find_Some [of "named n" "s_wnodes s" 0 i] len by (simp add: find_slot_node)
  next
    assume i: "i < WNODE_MAX \<and> named n (s_wnodes s ! i)"
    have u: "j = i" if "j < WNODE_MAX" "named n (s_wnodes s ! j)" for j
    proof -
      have "wn_used (s_wnodes s ! i)" "named (wn_name (s_wnodes s ! i)) (s_wnodes s ! j)"
        using i that(2) by (simp_all add: named_iff)
      then show ?thesis using assms i that(1) unfolding names_ok_def by blast
    qed
    show "find_slot n s = Some i"
      unfolding find_slot_node [OF len] by (rule node_find_unique) (use i u len in auto)
  qed
qed

lemma find_slot_None:
  "names_ok s \<Longrightarrow> find_slot n s = None \<longleftrightarrow> (\<forall>i<WNODE_MAX. \<not> named n (s_wnodes s ! i))"
  using find_slot_iff [of s n] by (cases "find_slot n s") auto

definition new_node :: "cstr \<Rightarrow> bool \<Rightarrow> WNode" where
  "new_node n d = WNode0\<lparr>wn_used := True, wn_is_dir := d, wn_name := vfs_str_copy n WNODE_NAME_MAX\<rparr>"

lemma named_new_node: "short_name n \<Longrightarrow> named m (new_node n d) \<longleftrightarrow> map lower n = map lower m"
  by (simp add: named_iff new_node_def vfs_str_copy_def short_name_def)

lemma WNode0_unused [simp]: "\<not> named m WNode0" "\<not> wn_used WNode0" by (simp_all add: named_def WNode0_def)

lemma create_slot_cases:
  assumes "names_ok s"
  shows "find_slot n s = Some i \<Longrightarrow> create_slot d n s = (Some i, s)"
    "find_slot n s = None \<Longrightarrow> create_slot d n s = (None, s) \<or> (\<exists>i<WNODE_MAX. \<not> wn_used (s_wnodes s ! i) \<and>
       create_slot d n s = (Some i, s\<lparr>s_wnodes := (s_wnodes s)[i := new_node n d]\<rparr>))"
proof -
  have len: "length (s_wnodes s) = WNODE_MAX" using assms by (simp add: names_ok_def)
  show "create_slot d n s = (Some i, s)" if "find_slot n s = Some i"
    using that node_find_Some [of "named n" "s_wnodes s" 0 i] len
    by (simp add: find_slot_node create_slot_def WFindOrCreate_def)
  show "create_slot d n s = (None, s) \<or> (\<exists>i<WNODE_MAX. \<not> wn_used (s_wnodes s ! i) \<and>
       create_slot d n s = (Some i, s\<lparr>s_wnodes := (s_wnodes s)[i := new_node n d]\<rparr>))" if "find_slot n s = None"
    using that node_find_Some [of "\<lambda>n. \<not> wn_used n" "s_wnodes s" 0] len
    by (auto simp: find_slot_node create_slot_def WFindOrCreate_def new_node_def split: option.splits)
qed

text \<open>Replacing a node by one whose name nobody else has.\<close>
lemma names_ok_update:
  assumes "names_ok s" "i < WNODE_MAX" "\<And>j. j < WNODE_MAX \<Longrightarrow> j \<noteq> i \<Longrightarrow> wn_used w \<Longrightarrow> \<not> named (wn_name w) (s_wnodes s ! j)"
  shows "names_ok (s\<lparr>s_wnodes := (s_wnodes s)[i := w]\<rparr>)"
proof -
  have len: "length (s_wnodes s) = WNODE_MAX" using assms by (simp add: names_ok_def)
  have "j = k" if "j < WNODE_MAX" "k < WNODE_MAX" "wn_used ((s_wnodes s)[i := w] ! j)"
    "named (wn_name ((s_wnodes s)[i := w] ! j)) ((s_wnodes s)[i := w] ! k)" for j k
  proof (cases "j = i")
    case True
    then show ?thesis using that assms(2,3) len by (cases "k = i") auto
  next
    case False
    show ?thesis
    proof (cases "k = i")
      case True
      then have "wn_used w" "map lower (wn_name w) = map lower (wn_name (s_wnodes s ! j))" "wn_used (s_wnodes s ! j)"
        using that False assms(2) len by (auto simp: named_iff)
      then have "named (wn_name w) (s_wnodes s ! j)" by (simp add: named_iff)
      then show ?thesis using assms(3) [of j] that False \<open>wn_used w\<close> by simp
    next
      case False
      then show ?thesis using that \<open>j \<noteq> i\<close> assms(1,2) len unfolding names_ok_def by simp
    qed
  qed
  then show ?thesis using len unfolding names_ok_def by simp
qed

interpretation files: name_map find_slot "create_slot d" VFS_Delete "\<lambda>n m. map lower n = map lower m" short_name names_ok
proof unfold_locales
  fix s s' :: vfs and n m i
  show "map lower n = map lower n" by simp
  assume ok: "names_ok s"
  have len: "length (s_wnodes s) = WNODE_MAX" using ok by (simp add: names_ok_def)
  show "find_slot n s = find_slot m s" if "map lower n = map lower m"
  proof -
    have "named n = named m" using that by (auto simp: named_iff)
    then show ?thesis by (simp add: find_slot_node [OF len])
  qed
  show "create_slot d n s = (Some i, s)" if "find_slot n s = Some i" by (rule create_slot_cases(1) [OF ok that])
  show "s' = s" if "create_slot d n s = (None, s')"
  proof (cases "find_slot n s")
    case None
    then show ?thesis using create_slot_cases(2) [OF ok None, of d] that by auto
  next
    case (Some k)
    then show ?thesis using create_slot_cases(1) [OF ok Some, of d] that by simp
  qed
  have free: "\<not> named n (s_wnodes s ! j)" if "find_slot n s = None" "j < WNODE_MAX" for j
    using find_slot_None [OF ok] that by blast
  have upd: "names_ok (s\<lparr>s_wnodes := (s_wnodes s)[k := new_node n d]\<rparr>)"
    if "find_slot n s = None" "k < WNODE_MAX" "short_name n" for k
  proof (rule names_ok_update [OF ok that(2)])
    fix j assume "j < WNODE_MAX"
    then show "\<not> named (wn_name (new_node n d)) (s_wnodes s ! j)"
      using free [OF that(1)] that(3) by (simp add: new_node_def vfs_str_copy_def short_name_def)
  qed
  show "names_ok (snd (create_slot d n s))" if g: "short_name n"
  proof (cases "find_slot n s")
    case None
    then show ?thesis using create_slot_cases(2) [OF ok None, of d] upd [OF None _ g] ok by auto
  next
    case (Some k)
    then show ?thesis using create_slot_cases(1) [OF ok Some] ok by simp
  qed
  show "find_slot m s' = (if map lower n = map lower m then Some i else find_slot m s)"
    if g: "short_name n" and N: "find_slot n s = None" and C: "create_slot d n s = (Some i, s')"
  proof -
    have i: "i < WNODE_MAX" "\<not> wn_used (s_wnodes s ! i)" "s' = s\<lparr>s_wnodes := (s_wnodes s)[i := new_node n d]\<rparr>"
      using create_slot_cases(2) [OF ok N, of d] C by auto
    have ok': "names_ok (s\<lparr>s_wnodes := (s_wnodes s)[i := new_node n d]\<rparr>)" by (rule upd [OF N i(1) g])
    have "find_slot m s' = Some k \<longleftrightarrow> (if map lower n = map lower m then k = i else find_slot m s = Some k)" for k
    proof (cases "k = i")
      case True
      then show ?thesis unfolding i(3) using i(1,2) len by (simp add: find_slot_iff [OF ok'] find_slot_iff [OF ok] named_new_node [OF g]) (simp add: named_def)
    next
      case False
      have "named n = named m" if "map lower n = map lower m" using that by (auto simp: named_iff)
      then show ?thesis unfolding i(3) using False free [OF N] by (auto simp: find_slot_iff [OF ok'] find_slot_iff [OF ok])
    qed
    then show ?thesis by (metis (full_types) not_Some_eq)
  qed
  have D: "VFS_Delete n s = (case find_slot n s of Some k \<Rightarrow> (True, s\<lparr>s_wnodes := (s_wnodes s)[k := WNode0]\<rparr>) | None \<Rightarrow> (False, s))"
    by (simp add: VFS_Delete_def find_slot_node [OF len])
  have updel: "names_ok (s\<lparr>s_wnodes := (s_wnodes s)[k := WNode0]\<rparr>)" if "k < WNODE_MAX" for k
    by (rule names_ok_update [OF ok that]) (simp add: WNode0_def)
  have kl: "k < WNODE_MAX" if "find_slot n s = Some k" for k using that find_slot_iff [OF ok] by blast
  show "names_ok (snd (VFS_Delete n s))" unfolding D using updel kl ok by (auto split: option.split)
  show "fst (VFS_Delete n s) = (find_slot n s \<noteq> None)" unfolding D by (auto split: option.split)
  show "find_slot m (snd (VFS_Delete n s)) = (if map lower n = map lower m then None else find_slot m s)"
  proof (cases "find_slot n s")
    case None
    moreover have "named n = named m" if "map lower n = map lower m" using that by (auto simp: named_iff)
    ultimately show ?thesis unfolding D by (auto simp: find_slot_node [OF len])
  next
    case (Some k)
    let ?s = "s\<lparr>s_wnodes := (s_wnodes s)[k := WNode0]\<rparr>"
    have k: "k < WNODE_MAX" "named n (s_wnodes s ! k)" using find_slot_iff [OF ok] Some by auto
    have "find_slot m ?s = Some j \<longleftrightarrow> map lower n \<noteq> map lower m \<and> find_slot m s = Some j" for j
    proof (cases "j = k")
      case True
      then show ?thesis using k len by (auto simp: find_slot_iff [OF updel [OF k(1)]] find_slot_iff [OF ok] named_iff)
    next
      case False
      then have "j < WNODE_MAX \<Longrightarrow> \<not> named n (s_wnodes s ! j)" using find_slot_iff [OF ok, of n j] Some by auto
      then show ?thesis using False by (auto simp: find_slot_iff [OF updel [OF k(1)]] find_slot_iff [OF ok] named_iff)
    qed
    then show ?thesis unfolding D Some by (auto intro: option.expand) (metis not_Some_eq)+
  qed
qed

section \<open>The contents of a node\<close>

lemma ucast_32_64_32: "(ucast (ucast (w :: u32) :: u64) :: u32) = w"
  by (rule bit_word_eqI) (simp add: bit_simps)

definition contents :: "WNode \<Rightarrow> u8 list" where "contents n = take (unat (wn_size n)) (wn_data n)"

definition node_ok :: "WNode \<Rightarrow> bool" where
  "node_ok n \<longleftrightarrow> length (wn_data n) = 2048 \<and> wn_size n \<le> WNODE_DATA_MAX"

lemma append_bytes_spec:
  assumes "length (wn_data n) = 2048" "unat (wn_size n) + length bs \<le> 2048"
  shows "append_bytes bs n = n\<lparr>wn_data := take (unat (wn_size n)) (wn_data n) @ bs @ drop (unat (wn_size n) + length bs) (wn_data n),
     wn_size := wn_size n + of_nat (length bs)\<rparr>"
  using assms
proof (induction bs arbitrary: n)
  case Nil
  then show ?case by simp
next
  case (Cons b bs)
  let ?k = "unat (wn_size n)"
  let ?n = "n\<lparr>wn_data := (wn_data n)[?k := b], wn_size := wn_size n + 1\<rparr>"
  have k: "?k < 2048" using Cons.prems(2) by simp
  have s: "unat (wn_size n + 1) = ?k + 1" using k by (simp add: unat_word_ariths)
  have "append_bytes (b # bs) n = append_bytes bs ?n" by simp
  also have "\<dots> = ?n\<lparr>wn_data := take (?k + 1) ((wn_data n)[?k := b]) @ bs @ drop (?k + 1 + length bs) ((wn_data n)[?k := b]),
     wn_size := wn_size n + 1 + of_nat (length bs)\<rparr>"
    using Cons.IH [of ?n] Cons.prems s by simp
  also have "take (?k + 1) ((wn_data n)[?k := b]) = take ?k (wn_data n) @ [b]"
    using Cons.prems(1) k by (simp add: take_Suc_conv_app_nth)
  finally show ?case by (simp add: add.assoc)
qed

lemma contents_append:
  assumes "node_ok n" "unat (wn_size n) + length bs \<le> 2048"
  shows "node_ok (append_bytes bs n)" "contents (append_bytes bs n) = contents n @ bs"
    "unat (wn_size (append_bytes bs n)) = unat (wn_size n) + length bs"
proof -
  have l: "length (wn_data n) = 2048" using assms(1) by (simp add: node_ok_def)
  have u: "unat (wn_size n + of_nat (length bs)) = unat (wn_size n) + length bs"
    using assms(2) by (simp add: unat_word_ariths unat_of_nat)
  note A = append_bytes_spec [OF l assms(2)]
  show "unat (wn_size (append_bytes bs n)) = unat (wn_size n) + length bs" by (simp add: A u)
  show "node_ok (append_bytes bs n)" using assms(2) l by (simp add: A node_ok_def word_le_nat_alt u WNODE_DATA_MAX_def)
  show "contents (append_bytes bs n) = contents n @ bs" using l assms(2) by (simp add: contents_def A u)
qed

definition vfs_ok :: "vfs \<Rightarrow> bool" where
  "vfs_ok s \<longleftrightarrow> names_ok s \<and> (\<forall>n\<in>set (s_wnodes s). node_ok n)"

lemma vfs_ok_node: "vfs_ok s \<Longrightarrow> i < WNODE_MAX \<Longrightarrow> node_ok (s_wnodes s ! i)"
  by (auto simp: vfs_ok_def names_ok_def)

section \<open>Correctness of the file system\<close>

text \<open>A fresh file system with one boot file.\<close>
definition vfs_demo :: vfs where
  "vfs_demo = VFS_Init (Some ([\<lparr>bf_name = ''hello.exe'', bf_phys_base = 0x200000, bf_size = 3\<rparr>], 0x1000)) None"

lemma node_ok_WNode0 [simp]: "node_ok WNode0"
  by (simp add: node_ok_def WNode0_def WNODE_DATA_MAX_def)

lemma vfs_demo_sel [simp]: "s_wnodes vfs_demo = replicate WNODE_MAX WNode0" "s_rt_va vfs_demo = 0x1000"
  by (simp_all add: vfs_demo_def VFS_Init_def LoadNVRAM_def)

lemma vfs_demo_ok: "vfs_ok vfs_demo"
  by (simp add: vfs_ok_def names_ok_def)

text \<open>The table is a map from case-insensitive names to nodes: creating a short name that is not
  taken uses a free node and leaves every other name as it was, creating a taken one returns its
  node, and deleting forgets exactly that name.\<close>
theorem file_names:
  assumes "vfs_ok s" "length n < WNODE_NAME_MAX" "WFindOrCreate n d s = (i, s')" "i < WNODE_MAX"
  shows "(\<forall>m. find_slot m s' = (if map lower n = map lower m then Some i else find_slot m s))
    \<and> (find_slot n s = Some i \<longrightarrow> s' = s)
    \<and> fst (VFS_Delete n s') \<and> (\<forall>m. find_slot m (snd (VFS_Delete n s')) = (if map lower n = map lower m then None else find_slot m s))"
proof -
  have ok: "names_ok s" and g: "short_name n" using assms(1,2) by (auto simp: vfs_ok_def short_name_def)
  have C: "create_slot d n s = (Some i, s')" using assms(3,4) by (simp add: create_slot_def)
  have ok': "names_ok s'" using files.create_inv [OF ok g, of d] C by simp
  have f: "find_slot m s' = (if map lower n = map lower m then Some i else find_slot m s)" for m
  proof (cases "find_slot n s")
    case None
    then show ?thesis using files.create_new [OF ok g None C] by simp
  next
    case (Some j)
    then have "s' = s" "i = j" using files.create_old [OF ok Some, of d] C by auto
    then show ?thesis using Some files.find_same [OF ok, of n m] by auto
  qed
  moreover have "find_slot n s = Some i \<longrightarrow> s' = s" using files.create_old [OF ok, of n i d] C by auto
  moreover have "fst (VFS_Delete n s')" using files.delete_result [OF ok', of n] f [of n] by simp
  moreover have "find_slot m (snd (VFS_Delete n s')) = (if map lower n = map lower m then None else find_slot m s)" for m
    using files.delete_find [OF ok', of m n] f [of m] by simp
  ultimately show ?thesis by blast
qed

lemma file_names_witness: "find_slot ''READme'' (snd (WFindOrCreate ''readme'' False vfs_demo)) = Some 0"
proof -
  have r: "replicate WNODE_MAX WNode0 = WNode0 # replicate 15 WNode0" by (simp add: WNODE_MAX_def flip: replicate_Suc)
  have "node_find (\<lambda>n. \<not> wn_used n) (replicate WNODE_MAX WNode0) 0 = Some 0" unfolding r by simp
  moreover have "node_find (named ''readme'') (replicate WNODE_MAX WNode0) 0 = None" by (simp add: node_find_None)
  ultimately have "fst (WFindOrCreate ''readme'' False vfs_demo) = 0"
    by (simp add: WFindOrCreate_def)
  then show ?thesis
    using file_names [OF vfs_demo_ok, of "''readme''" False 0 "snd (WFindOrCreate ''readme'' False vfs_demo)"]
    by (simp add: WNODE_NAME_MAX_def WNODE_MAX_def prod_eq_iff) (simp add: lower_def char_of_def bit_0)
qed

lemma WWrite_spec:
  assumes "vfs_ok s" "i < WNODE_MAX" "wn_used (s_wnodes s ! i)" "length src < 2 ^ 32"
    and "WWrite i src (of_nat (length src)) s = (len, s')"
  shows "unat len = min (length src) (2048 - unat (WSize i s))
    \<and> contents (s_wnodes s' ! i) = contents (s_wnodes s ! i) @ take (unat len) src
    \<and> WRead i (ucast (WSize i s)) len s' = (len, take (unat len) src)
    \<and> (\<forall>j<WNODE_MAX. j \<noteq> i \<longrightarrow> s_wnodes s' ! j = s_wnodes s ! j) \<and> vfs_ok s'"
proof -
  let ?n = "s_wnodes s ! i"
  have n: "node_ok ?n" by (rule vfs_ok_node [OF assms(1,2)])
  have names: "names_ok s" and len16: "length (s_wnodes s) = WNODE_MAX" using assms(1) by (auto simp: vfs_ok_def names_ok_def)
  have sz: "unat (wn_size ?n) \<le> 2048" using n by (simp add: node_ok_def WNODE_DATA_MAX_def word_le_nat_alt)
  have sp: "unat (WNODE_DATA_MAX - wn_size ?n) = 2048 - unat (wn_size ?n)"
    using n by (simp add: node_ok_def unat_sub WNODE_DATA_MAX_def)
  have ls: "unat (of_nat (length src) :: u32) = length src" using assms(4) by (simp add: unat_of_nat)
  let ?bs = "take (unat len) src"
  let ?n' = "append_bytes ?bs ?n"
  have W: "len = (if of_nat (length src) > WNODE_DATA_MAX - wn_size ?n then WNODE_DATA_MAX - wn_size ?n else of_nat (length src))"
    "s' = s\<lparr>s_wnodes := (s_wnodes s)[i := ?n']\<rparr>"
    using assms(2,3,5) by (auto simp: WWrite_def Let_def)
  have len: "unat len = min (length src) (2048 - unat (wn_size ?n))"
    using W(1) sp ls by (auto simp: word_less_nat_alt)
  have bl: "length ?bs = unat len" using len by simp
  have fit: "unat (wn_size ?n) + length ?bs \<le> 2048" unfolding bl using len sz by simp
  note A = contents_append [OF n fit]
  have n': "s_wnodes s' ! i = ?n'" using W(2) assms(2) len16 by simp
  have nm: "wn_name ?n' = wn_name ?n" "wn_used ?n'"
    using append_bytes_spec [OF _ fit] n assms(3) by (simp_all add: node_ok_def)
  have uo: "unat (ucast (wn_size ?n) :: u64) = unat (wn_size ?n)" by (rule unat_ucast_32_64)
  have un: "unat (ucast (wn_size ?n') :: u64) = unat (wn_size ?n) + unat len" using A(3) bl by (simp add: unat_ucast_32_64)
  have "WRead i (ucast (wn_size ?n)) len s' = (len, ?bs)"
  proof (cases "len = 0")
    case True
    then show ?thesis using nm assms(2) un by (simp add: WRead_def n' Let_def word_le_nat_alt uo)
  next
    case False
    then have pos: "0 < unat len" by (simp add: unat_gt_0)
    have uc: "ucast (ucast (wn_size ?n) :: u64) = wn_size ?n" by (rule ucast_32_64_32)
    have av: "wn_size ?n' - wn_size ?n = len"
    proof -
      have "unat (wn_size ?n' - wn_size ?n) = unat len" using A(3) bl by (simp add: unat_sub word_le_nat_alt)
      then show ?thesis by (rule unsigned_word_eqI)
    qed
    have byte: "wn_data ?n' ! unat (wn_size ?n + of_nat k :: u32) = ?bs ! k" if "k < unat len" for k
    proof -
      have "unat (wn_size ?n + of_nat k :: u32) = unat (wn_size ?n) + k"
        using that fit bl by (simp add: unat_word_ariths unat_of_nat)
      moreover have "(contents ?n') ! (unat (wn_size ?n) + k) = ?bs ! k"
        using A(2) n fit that bl sz by (simp add: nth_append contents_def node_ok_def)
      moreover have "(contents ?n') ! (unat (wn_size ?n) + k) = wn_data ?n' ! (unat (wn_size ?n) + k)"
        using A(3) bl that by (simp add: contents_def)
      ultimately show ?thesis by simp
    qed
    have "map (\<lambda>k. wn_data ?n' ! unat (wn_size ?n + of_nat k :: u32)) [0..<unat len] = ?bs"
      by (rule nth_equalityI) (use bl byte in auto)
    then show ?thesis using assms(2) nm pos by (simp add: WRead_def n' Let_def word_le_nat_alt uo un uc av)
  qed
  moreover have "vfs_ok s'"
  proof -
    have "names_ok s'" unfolding W(2)
    proof (rule names_ok_update [OF names assms(2)])
      fix j assume "j < WNODE_MAX" "j \<noteq> i" "wn_used ?n'"
      then show "\<not> named (wn_name ?n') (s_wnodes s ! j)"
        using names assms(2,3) unfolding nm names_ok_def by blast
    qed
    then show ?thesis using assms(1) A(1) set_update_subset_insert [of "s_wnodes s" i ?n'] unfolding vfs_ok_def W(2) by auto
  qed
  moreover have "WSize i s = wn_size ?n" using assms(2,3) by (simp add: WSize_def)
  moreover have "contents (s_wnodes s' ! i) = contents ?n @ ?bs" unfolding n' by (rule A(2))
  moreover have "s_wnodes s' ! j = s_wnodes s ! j" if "j \<noteq> i" for j using W(2) that by simp
  ultimately show ?thesis using len by auto
qed

text \<open>A write appends to a node as many bytes as fit below 2048, and reading at the old end
  returns them; the other nodes and the well-formedness of the table are kept.\<close>
theorem file_write_read:
  assumes "vfs_ok s" "i < WNODE_MAX" "wn_used (s_wnodes s ! i)" "length src < 2 ^ 32"
    and "WWrite i src (of_nat (length src)) s = (len, s')"
  shows "unat len = min (length src) (2048 - unat (WSize i s))
    \<and> contents (s_wnodes s' ! i) = contents (s_wnodes s ! i) @ take (unat len) src
    \<and> WRead i (ucast (WSize i s)) len s' = (len, take (unat len) src)
    \<and> (\<forall>j<WNODE_MAX. j \<noteq> i \<longrightarrow> s_wnodes s' ! j = s_wnodes s ! j) \<and> vfs_ok s'"
  by (rule WWrite_spec [OF assms])

lemma vfs_with_file:
  "s_wnodes (snd (WFindOrCreate ''a'' False vfs_demo)) = new_node ''a'' False # replicate 15 WNode0"
  "vfs_ok (snd (WFindOrCreate ''a'' False vfs_demo))"
proof -
  let ?s = "snd (WFindOrCreate ''a'' False vfs_demo)"
  have r: "replicate WNODE_MAX WNode0 = WNode0 # replicate 15 WNode0" by (simp add: WNODE_MAX_def flip: replicate_Suc)
  have "node_find (\<lambda>n. \<not> wn_used n) (replicate WNODE_MAX WNode0) 0 = Some 0" unfolding r by simp
  moreover have "node_find (named ''a'') (replicate WNODE_MAX WNode0) 0 = None" by (simp add: node_find_None)
  ultimately show w: "s_wnodes ?s = new_node ''a'' False # replicate 15 WNode0"
    by (simp add: WFindOrCreate_def new_node_def) (simp add: r)
  have "names_ok ?s" using files.create_inv [of vfs_demo "''a''" False] vfs_demo_ok
    by (simp add: vfs_ok_def create_slot_def short_name_def WNODE_NAME_MAX_def split: prod.splits)
  moreover have "node_ok (new_node ''a'' False)" using node_ok_WNode0 by (simp add: new_node_def node_ok_def)
  ultimately show "vfs_ok ?s" by (auto simp: vfs_ok_def w)
qed

lemma file_write_read_witness:
  "\<exists>s'. WWrite 0 [1, 2, 3] 3 (snd (WFindOrCreate ''a'' False vfs_demo)) = (3, s') \<and> WRead 0 0 3 s' = (3, [1, 2, 3])"
proof -
  let ?s = "snd (WFindOrCreate ''a'' False vfs_demo)"
  note w = vfs_with_file(1) and ok = vfs_with_file(2)
  have z: "wn_size (new_node ''a'' False) = 0" "wn_used (new_node ''a'' False)" by (simp_all add: new_node_def WNode0_def)
  obtain len s' where W: "WWrite 0 [1, 2, 3] 3 ?s = (len, s')" by fastforce
  have "WSize 0 ?s = 0" by (simp add: WSize_def w z)
  then have "unat len = 3" "WRead 0 0 len s' = (len, [1, 2, 3])"
    using file_write_read [OF ok, of 0 "[1, 2, 3]" len s'] W by (auto simp: WNODE_MAX_def w z)
  moreover have "len = 3"
  proof (rule unsigned_word_eqI)
    show "unat len = unat (3 :: u32)" using \<open>unat len = 3\<close> by simp
  qed
  ultimately show ?thesis using W by blast
qed

section \<open>Persistence\<close>

lemma fold_update_prefix:
  assumes "k \<le> length xs" "length ns = length xs"
  shows "fold (\<lambda>i ns. ns[i := xs ! i]) [0..<k] ns = take k xs @ drop k ns"
  using assms
proof (induction k)
  case (Suc k)
  then have "fold (\<lambda>i ns. ns[i := xs ! i]) [0..<Suc k] ns = (take k xs @ drop k ns)[k := xs ! k]" by simp
  also have "\<dots> = take k xs @ (drop k ns)[0 := xs ! k]" using Suc.prems by (simp add: list_update_append)
  also have "(drop k ns)[0 := xs ! k] = xs ! k # drop (Suc k) ns" using Suc.prems
    by (metis Cons_nth_drop_Suc Suc_le_lessD list_update_code(2))
  finally show ?case using Suc.prems by (simp add: take_Suc_conv_app_nth)
qed simp

text \<open>When the firmware stores what it is given, saving the nodes and initialising the file
  system on the next boot brings every node back.\<close>
theorem nvram_roundtrip:
  assumes "\<forall>h nv. fst (set_var h nv) = 0 \<longrightarrow> get_var (snd (set_var h nv)) = (0, h)"
    and "\<forall>h nv. fst (set_var h nv) = 0" "s_rt_va s \<noteq> 0" "rt \<noteq> 0" "length (s_wnodes s) = WNODE_MAX"
  shows "s_wnodes (VFS_Init (Some (fs, rt)) (Some (get_var (SaveNVRAM (Some set_var) s nv)))) = s_wnodes s"
proof -
  let ?h = "\<lparr>nv_magic = NVRAM_MAGIC, nv_count = of_nat WNODE_MAX, nv_nodes = map (\<lambda>i. s_wnodes s ! i) [0..<WNODE_MAX]\<rparr>"
  have nodes: "map (\<lambda>i. s_wnodes s ! i) [0..<WNODE_MAX] = s_wnodes s" using assms(5) by (metis map_nth)
  have g: "get_var (SaveNVRAM (Some set_var) s nv) = (0, ?h)"
    using assms(1-3) by (simp add: SaveNVRAM_def)
  have c: "unat (of_nat WNODE_MAX :: u32) = WNODE_MAX" by (simp add: WNODE_MAX_def)
  have "fold (\<lambda>i ns. ns[i := s_wnodes s ! i]) [0..<WNODE_MAX] (replicate WNODE_MAX WNode0) = s_wnodes s"
    using fold_update_prefix [of WNODE_MAX "s_wnodes s" "replicate WNODE_MAX WNode0"] assms(5) by simp
  then show ?thesis using assms(4) c by (simp add: VFS_Init_def LoadNVRAM_def g nodes Let_def)
qed

lemma nvram_roundtrip_witness:
  "s_wnodes (VFS_Init (Some ([], 0x1000)) (Some (SaveNVRAM (Some (\<lambda>h nv. (0, (0, h)))) vfs_demo (1, undefined)))) = replicate WNODE_MAX WNode0"
  using nvram_roundtrip [of "\<lambda>h nv. (0, (0, h))" "\<lambda>nv. nv" vfs_demo "0x1000" "[]" "(1, undefined)"] by simp

text \<open>Sizes read from the variable are not checked: a node restored with a size above its capacity
  makes the remaining space wrap, and every later write to it is accepted in full, beyond the
  node's array.\<close>
theorem nvram_size_unchecked:
  assumes "s_rt_va s \<noteq> 0" "length (s_wnodes s) = WNODE_MAX" "nv_magic hdr = NVRAM_MAGIC" "nv_count hdr = of_nat WNODE_MAX"
    and "i < WNODE_MAX" "wn_used (nv_nodes hdr ! i)" "wn_size (nv_nodes hdr ! i) = 2049" "length (nv_nodes hdr) = WNODE_MAX"
  shows "fst (WWrite i src len (LoadNVRAM (Some (0, hdr)) s)) = len"
proof -
  have c: "unat (of_nat WNODE_MAX :: u32) = WNODE_MAX" by (simp add: WNODE_MAX_def)
  have "s_wnodes (LoadNVRAM (Some (0, hdr)) s) = nv_nodes hdr"
    using assms(1-4,8) c fold_update_prefix [of WNODE_MAX "nv_nodes hdr" "s_wnodes s"]
    by (simp add: LoadNVRAM_def Let_def)
  moreover have "\<not> (- 1 < len)" by (metis not_less word_order.extremum)
  ultimately show ?thesis using assms(5-7) by (simp add: WWrite_def WNODE_DATA_MAX_def Let_def)
qed

lemma nvram_size_unchecked_witness:
  "fst (WWrite 3 src 100000 (LoadNVRAM (Some (0, \<lparr>nv_magic = NVRAM_MAGIC, nv_count = of_nat WNODE_MAX,
     nv_nodes = replicate WNODE_MAX (WNode0\<lparr>wn_used := True, wn_size := 2049\<rparr>)\<rparr>)) vfs_demo)) = 100000"
  by (rule nvram_size_unchecked) (simp_all, simp_all add: WNODE_MAX_def)

end
