(* ===== verification/BootLoader.thy ===== *)
theory BootLoader
  imports PeLoader Vfs
begin

text \<open>The UEFI boot loader, boot/uefi/bootloader.cpp: it loads the kernel image into physical memory, builds page tables that map
  the first four gigabytes to themselves, chooses a screen mode, loads the programs of /boot, turns the memory map of the
  firmware into the one that the kernel reads, and leaves the boot services.  What the firmware answers - files, allocations,
  protocols, the memory map - is a parameter; a panic is None.  Console and serial output are left out.\<close>

section \<open>The boot information\<close>

text \<open>The whole of MicroNTBootInfo, over the part that the memory manager reads.\<close>
record BootInfo = MicroNTBootInfo +
  bi_kernel_phys_base :: u64
  bi_kernel_size :: u64
  bi_rsdp_phys :: u64
  bi_initrd_phys :: u64
  bi_initrd_size :: u64
  bi_fb_base :: u64
  bi_fb_width :: u32
  bi_fb_height :: u32
  bi_fb_stride :: u32
  bi_fb_format :: u32
  bi_efi_runtime_va :: u64
  bi_boot_files :: "BootFile list"

definition BOOT_FILES_MAX :: nat where "BOOT_FILES_MAX = 8"
definition BOOT_MEMORY_MAX :: nat where "BOOT_MEMORY_MAX = 256"

section \<open>The kernel image\<close>

definition PT_LOAD :: u32 where "PT_LOAD = 1"
definition EM_X86_64 :: u16 where "EM_X86_64 = 62"

definition e_entry :: "blob \<Rightarrow> u64" where "e_entry img = ld64 img 24"
definition e_phoff :: "blob \<Rightarrow> u64" where "e_phoff img = ld64 img 32"
definition e_phnum :: "blob \<Rightarrow> nat" where "e_phnum img = unat (ld16 img 56)"

record Elf64_Phdr =
  p_type :: u32
  p_offset :: u64
  p_paddr :: u64
  p_filesz :: u64
  p_memsz :: u64

definition phdr_at :: "blob \<Rightarrow> nat \<Rightarrow> Elf64_Phdr" where
  "phdr_at img i = (let a = e_phoff img + of_nat (i * 56) in
     \<lparr>p_type = ld32 img a, p_offset = ld64 img (a + 8), p_paddr = ld64 img (a + 24), p_filesz = ld64 img (a + 32), p_memsz = ld64 img (a + 40)\<rparr>)"

definition load_phdrs :: "blob \<Rightarrow> Elf64_Phdr list" where
  "load_phdrs img = filter (\<lambda>p. p_type p = PT_LOAD) (map (phdr_at img) [0..<e_phnum img])"

definition elf_ok :: "blob \<Rightarrow> bool" where
  "elf_ok img \<longleftrightarrow> img 0 = 0x7F \<and> img 1 = 0x45 \<and> img 2 = 0x4C \<and> img 3 = 0x46 \<and> img 4 = 2 \<and> ld16 img 18 = EM_X86_64"

definition widen :: "Elf64_Phdr \<Rightarrow> u64 \<times> u64 \<Rightarrow> u64 \<times> u64" where
  "widen p b = (case b of (loadBase, loadEnd) \<Rightarrow>
     (if p_paddr p < loadBase then p_paddr p else loadBase,
      let segEnd = p_paddr p + p_memsz p in if segEnd > loadEnd then segEnd else loadEnd))"

definition copy_segment :: "blob \<Rightarrow> u64 \<Rightarrow> u64 \<Rightarrow> Elf64_Phdr \<Rightarrow> vmm \<Rightarrow> vmm" where
  "copy_segment img physBase loadBase p v =
    (if p_filesz p = 0 then v else
     wr_bytes (physBase + (p_paddr p - loadBase)) (unat (p_filesz p)) (\<lambda>i. img (p_offset p + of_nat i)) v)"

text \<open>What AllocatePages answers: whether a number of pages is free at an address, and pages anywhere (None is an error).\<close>
record pages_fw =
  alloc_at :: "u64 \<Rightarrow> u64 \<Rightarrow> bool"
  alloc_any :: "u64 \<Rightarrow> u64 option"

text \<open>The base, the end, the entry and the memory.\<close>
definition LoadElf :: "pages_fw \<Rightarrow> blob \<Rightarrow> vmm \<Rightarrow> (u64 \<times> u64 \<times> u64 \<times> vmm) option" where
  "LoadElf fw img v =
    (if \<not> elf_ok img then None else
     let (loadBase, loadEnd) = fold widen (load_phdrs img) (- 1, 0) in
     if loadBase = - 1 then None else
     let loadBase = loadBase AND NOT 0xFFF; loadEnd = (loadEnd + 0xFFF) AND NOT 0xFFF;
         pages = (loadEnd - loadBase) div 4096 in
     case (if alloc_at fw loadBase pages then Some loadBase else alloc_any fw pages) of None \<Rightarrow> None
     | Some physBase \<Rightarrow>
         let v = wr_bytes physBase (unat (pages * 4096)) (\<lambda>_. 0) v;
             v = fold (copy_segment img physBase loadBase) (load_phdrs img) v
         in Some (physBase, physBase + pages * 4096, physBase + (e_entry img - loadBase), v))"

section \<open>Page tables\<close>

definition huge_table :: "u64 \<Rightarrow> u64 \<Rightarrow> vmm \<Rightarrow> vmm" where
  "huge_table pd first = fill_table pd (\<lambda>i. (i + first) * 0x200000 OR 0x83) [0..<512]"

definition build_tables :: "u64 \<Rightarrow> vmm \<Rightarrow> vmm" where
  "build_tables pt v =
    (let v = wr_bytes pt (6 * 4096) (\<lambda>_. 0) v;
         pdpt = pt + 4096; pd = (\<lambda>k. pt + 4096 * (2 + k));
         v = wr (entry_ptr pt 0) (pdpt OR 3) v;
         v = wr (entry_ptr pdpt 0) (pd 0 OR 3) v; v = wr (entry_ptr pdpt 1) (pd 1 OR 3) v;
         v = wr (entry_ptr pdpt 2) (pd 2 OR 3) v; v = wr (entry_ptr pdpt 3) (pd 3 OR 3) v
     in huge_table (pd 3) 1536 (huge_table (pd 2) 1024 (huge_table (pd 1) 512 (huge_table (pd 0) 0 v))))"

definition BuildPageTables :: "pages_fw \<Rightarrow> vmm \<Rightarrow> (u64 \<times> vmm) option" where
  "BuildPageTables fw v = map_option (\<lambda>pt. (pt, build_tables pt v)) (alloc_any fw 6)"

section \<open>ACPI\<close>

type_synonym efi_guid = "u32 \<times> u16 \<times> u16 \<times> u8 list"

definition acpi2 :: efi_guid where "acpi2 = (0x8868E871, 0xE4F1, 0x11D3, [0xBC, 0x22, 0x00, 0x80, 0xC7, 0x3C, 0x88, 0x81])"
definition acpi1 :: efi_guid where "acpi1 = (0xEB9D2D30, 0x2D88, 0x11D3, [0x9A, 0x16, 0x00, 0x90, 0x27, 0x3F, 0xC1, 0x4D])"

fun FindRsdp :: "(efi_guid \<times> u64) list \<Rightarrow> u64" where
  "FindRsdp [] = 0"
| "FindRsdp ((g, table) # ts) = (if g = acpi2 \<or> g = acpi1 then table else FindRsdp ts)"

section \<open>The memory map\<close>

record EFI_MEMORY_DESCRIPTOR =
  md_Type :: u32
  md_PhysicalStart :: u64
  md_NumberOfPages :: u64

definition boot_type :: "u32 \<Rightarrow> BootMemoryType" where
  "boot_type t =
    (if t = 7 \<or> t = 3 \<or> t = 4 then BOOT_MEM_AVAILABLE
     else if t = 1 \<or> t = 2 then BOOT_MEM_LOADER
     else if t = 9 then BOOT_MEM_ACPI
     else if t = 10 then BOOT_MEM_NVS
     else if t = 11 \<or> t = 12 then BOOT_MEM_MMIO
     else BOOT_MEM_RESERVED)"

definition boot_entry :: "EFI_MEMORY_DESCRIPTOR \<Rightarrow> BootMemoryEntry" where
  "boot_entry d = \<lparr>me_base = md_PhysicalStart d, me_length = md_NumberOfPages d * 4096, me_type = boot_type (md_Type d)\<rparr>"

definition FillMemoryMap :: "EFI_MEMORY_DESCRIPTOR list \<Rightarrow> 'a MicroNTBootInfo_scheme \<Rightarrow> 'a MicroNTBootInfo_scheme" where
  "FillMemoryMap map_ds bi =
    (let es = take BOOT_MEMORY_MAX (map boot_entry map_ds)
     in bi\<lparr>bi_memory_map := es, bi_memory_entry_count := of_nat (length es)\<rparr>)"

section \<open>The screen mode\<close>

record gop_mode =
  gm_width :: u32
  gm_height :: u32
  gm_stride :: u32
  gm_format :: u32

text \<open>The graphics protocol: the current mode and what is known of it, what QueryMode answers for each mode (None is an error or no
  information), and what the current mode is after SetMode (None is an error; the frame buffer may move).\<close>
record gop =
  gop_Mode :: u32
  gop_Info :: gop_mode
  gop_Base :: u64
  gop_Query :: "gop_mode option list"
  gop_Set :: "u32 \<Rightarrow> (gop_mode \<times> u64) option"

definition MAX_W :: u32 where "MAX_W = 1920"
definition MAX_H :: u32 where "MAX_H = 1200"
definition PixelBltOnly :: u32 where "PixelBltOnly = 3"

definition fits_screen :: "gop_mode \<Rightarrow> bool" where
  "fits_screen i \<longleftrightarrow> gm_width i \<le> MAX_W \<and> gm_height i \<le> MAX_H"

text \<open>The loop over the modes: the best mode and its number of pixels.\<close>
fun best_mode :: "u32 \<Rightarrow> gop_mode option list \<Rightarrow> u32 \<times> u32 \<Rightarrow> u32 \<times> u32" where
  "best_mode k [] b = b"
| "best_mode k (None # qs) b = best_mode (k + 1) qs b"
| "best_mode k (Some i # qs) (bestMode, bestPixels) =
    best_mode (k + 1) qs
      (if gm_format i = PixelBltOnly then (bestMode, bestPixels)
       else if fits_screen i \<and> gm_width i * gm_height i > bestPixels then (k, gm_width i * gm_height i)
       else (bestMode, bestPixels))"

definition set_mode :: "u32 \<Rightarrow> gop \<Rightarrow> gop" where
  "set_mode m g = (case gop_Set g m of None \<Rightarrow> g | Some (i, base) \<Rightarrow> g\<lparr>gop_Mode := m, gop_Info := i, gop_Base := base\<rparr>)"

definition SelectBestGopMode :: "gop \<Rightarrow> gop" where
  "SelectBestGopMode g =
    (let i = gop_Info g in
     if gm_width i \<ge> 640 \<and> gm_height i \<ge> 480 \<and> gm_width i \<le> MAX_W \<and> gm_height i \<le> MAX_H then g else
     let (bestMode, _) = best_mode 0 (gop_Query g) (gop_Mode g, 0)
     in if bestMode \<noteq> gop_Mode g then set_mode bestMode g else g)"

section \<open>The programs of /boot\<close>

text \<open>An entry of the directory, as Read returns it, and what opening it, allocating its size and reading it give: the buffer and
  the number of bytes read (None when one of the three fails).\<close>
record dir_entry =
  fi_Attribute :: u64
  fi_FileName :: "u16 list"
  fi_contents :: "(u64 \<times> u64) option"

definition lower16 :: "u16 \<Rightarrow> u16" where "lower16 e = (if 65 \<le> e \<and> e \<le> 90 then e + 32 else e)"

definition is_exe :: "u16 list \<Rightarrow> bool" where
  "is_exe fn \<longleftrightarrow> length fn \<ge> 4 \<and> map lower16 (drop (length fn - 4) fn) = [46, 101, 120, 101]"

definition is_kernel_name :: "u16 list \<Rightarrow> bool" where
  "is_kernel_name fn \<longleftrightarrow> length fn = 11 \<and> (fn ! 0 = 109 \<or> fn ! 0 = 77) \<and> (fn ! 1 = 105 \<or> fn ! 1 = 73)"

text \<open>The name as the string that it is read as: up to the first NUL.\<close>
definition ascii_name :: "u16 list \<Rightarrow> cstr" where
  "ascii_name fn = takeWhile (\<lambda>c. c \<noteq> CHR 0x00) (map (\<lambda>c. char_of (unat (c AND 0x7F))) (take 63 fn))"

fun load_boot_files :: "dir_entry list \<Rightarrow> BootFile list \<Rightarrow> BootFile list" where
  "load_boot_files [] fs = fs"
| "load_boot_files (d # ds) fs =
    (if fi_Attribute d AND 0x10 \<noteq> 0 then load_boot_files ds fs
     else if \<not> is_exe (fi_FileName d) then load_boot_files ds fs
     else if is_kernel_name (fi_FileName d) then load_boot_files ds fs
     else if length fs \<ge> BOOT_FILES_MAX then fs
     else case fi_contents d of None \<Rightarrow> load_boot_files ds fs
       | Some (fbuf, rdsz) \<Rightarrow>
           load_boot_files ds (fs @ [\<lparr>bf_name = ascii_name (fi_FileName d), bf_phys_base = fbuf, bf_size = rdsz\<rparr>]))"

section \<open>Leaving the boot services\<close>

text \<open>The firmware's answers at each attempt: what GetMemoryMap leaves in the buffer (the old map when it fails), its key, and
  whether ExitBootServices accepts the key.\<close>
type_synonym exit_fw = "nat \<Rightarrow> (EFI_MEMORY_DESCRIPTOR list \<times> u64) \<times> bool"

fun exit_loop :: "((EFI_MEMORY_DESCRIPTOR list \<times> u64) \<times> bool) list \<Rightarrow> 'a MicroNTBootInfo_scheme \<Rightarrow> 'a MicroNTBootInfo_scheme option" where
  "exit_loop [] bi = None"
| "exit_loop (((m, key), accepted) # as) bi =
    (let bi = FillMemoryMap m bi in if accepted then Some bi else exit_loop as bi)"

text \<open>At most five attempts; None is the panic.\<close>
definition ExitBoot :: "exit_fw \<Rightarrow> 'a MicroNTBootInfo_scheme \<Rightarrow> 'a MicroNTBootInfo_scheme option" where
  "ExitBoot fw bi = exit_loop (map fw [0..<5]) bi"

section \<open>EfiMain\<close>

text \<open>The initial RAM disk, when its file can be opened: the size that GetInfo leaves, the buffer of AllocatePool (None is an
  error) and the number of bytes that Read gives.\<close>
record initrd_file =
  ird_FileSize :: u64
  ird_pool :: "u64 option"
  ird_read :: u64

definition LoadInitrd :: "initrd_file option \<Rightarrow> u64 \<times> u64" where
  "LoadInitrd irfile =
    (case irfile of None \<Rightarrow> (0, 0)
     | Some f \<Rightarrow> if ird_FileSize f > 0 then (case ird_pool f of None \<Rightarrow> (0, 0) | Some initrdData \<Rightarrow> (initrdData, ird_read f)) else (0, 0))"

text \<open>What the firmware answers: HandleProtocol for the loaded image, the allocations of pages, the file of the kernel (None when it
  cannot be found, sized, allocated or read, each a panic), the RAM disk, the configuration tables, the allocation of the boot
  information, the graphics protocol, the directory of /boot, the allocation of the buffer of the memory map and the GetMemoryMap
  that fills it first, and the attempts to leave.\<close>
record efi =
  efi_image :: bool
  efi_pages :: "pages_fw \<times> pages_fw"
  efi_kernel :: "blob option"
  efi_initrd :: "initrd_file option"
  efi_info_pool :: bool
  efi_map_pool :: bool
  efi_map :: bool
  efi_tables :: "(efi_guid \<times> u64) list"
  efi_gop :: "gop option"
  efi_boot_dir :: "dir_entry list"
  efi_exit :: exit_fw

definition BootInfo0 :: BootInfo where
  "BootInfo0 = \<lparr>bi_magic = 0, bi_memory_entry_count = 0, bi_memory_map = [], bi_kernel_phys_base = 0, bi_kernel_size = 0,
    bi_rsdp_phys = 0, bi_initrd_phys = 0, bi_initrd_size = 0, bi_fb_base = 0, bi_fb_width = 0, bi_fb_height = 0, bi_fb_stride = 0,
    bi_fb_format = 0, bi_efi_runtime_va = 0, bi_boot_files = []\<rparr>"

definition screen_info :: "gop option \<Rightarrow> BootInfo \<Rightarrow> BootInfo" where
  "screen_info go bi =
    (case go of None \<Rightarrow> bi\<lparr>bi_fb_base := 0\<rparr>
     | Some g \<Rightarrow> let g = SelectBestGopMode g; i = gop_Info g in
         bi\<lparr>bi_fb_base := gop_Base g, bi_fb_width := gm_width i, bi_fb_height := gm_height i, bi_fb_stride := gm_stride i,
            bi_fb_format := gm_format i\<rparr>)"

text \<open>The boot information, the memory and the address that the kernel is entered at; None is a panic.  The allocation of the kernel
  and the one of the page tables answer separately.  The RAM disk is loaded and then forgotten, as in the code; what the firmware
  itself writes into its pool buffers is not part of the memory.\<close>
definition EfiMain :: "efi \<Rightarrow> vmm \<Rightarrow> (BootInfo \<times> u64 \<times> vmm) option" where
  "EfiMain fw v =
    (if \<not> efi_image fw then None else
     case efi_kernel fw of None \<Rightarrow> None | Some img \<Rightarrow>
     case LoadElf (fst (efi_pages fw)) img v of None \<Rightarrow> None | Some (kernBase, kernEnd, elf_entry, v) \<Rightarrow>
     let (initrdData, initrdSize) = LoadInitrd (efi_initrd fw);
         rsdp = FindRsdp (efi_tables fw) in
     case BuildPageTables (snd (efi_pages fw)) v of None \<Rightarrow> None | Some (pml4, v) \<Rightarrow>
     let v = v\<lparr>vm_cr3 := pml4\<rparr> in
     if \<not> efi_info_pool fw then None else
     let bi = BootInfo0\<lparr>bi_magic := BOOTINFO_MAGIC, bi_kernel_phys_base := kernBase, bi_kernel_size := kernEnd - kernBase,
           bi_rsdp_phys := rsdp, bi_initrd_phys := 0, bi_initrd_size := 0, bi_boot_files := []\<rparr>;
         bi = screen_info (efi_gop fw) bi;
         bi = bi\<lparr>bi_boot_files := load_boot_files (efi_boot_dir fw) (bi_boot_files bi)\<rparr>
     in if \<not> efi_map_pool fw \<or> \<not> efi_map fw then None else
        case ExitBoot (efi_exit fw) bi of None \<Rightarrow> None | Some bi \<Rightarrow>
        let entry = bi_kernel_phys_base bi in Some (bi, entry, v))"

end
