(* ===== verification/BootTables.thy ===== *)
theory BootTables
  imports BootLoader
begin

text \<open>The page tables that the boot loader builds (BuildPageTables of boot/uefi/bootloader.cpp) as the kernel's memory manager
  reads them: the entries of the six tables, the indices of an address below 4 GB, and the translation of every address.\<close>

section \<open>The first four gigabytes are mapped to themselves\<close>

abbreviation (input) table_of :: "u64 \<Rightarrow> nat \<Rightarrow> u64" where "table_of pt k \<equiv> pt + of_nat (4096 * k)"

text \<open>Six consecutive frames of the memory that the kernel manages.\<close>
definition table_frames :: "u64 \<Rightarrow> bool" where
  "table_frames pt \<longleftrightarrow> unat pt mod 4096 = 0 \<and> unat pt + 6 * 4096 \<le> 2 ^ 33"

lemma frameI: "unat x mod 4096 = 0 \<Longrightarrow> unat x < 2 ^ 33 \<Longrightarrow> x \<in> pmm_all_frames"
proof -
  assume a: "unat x mod 4096 = 0" "unat x < 2 ^ 33"
  then have "unat x div 4096 * 4096 = unat x" by auto
  then have "of_nat (unat x div 4096 * 4096) = x" by simp
  then have "x = frame_of (unat x div 4096)" by (simp only: frame_of_def PAGE_SIZE_def of_nat_mult)
  moreover have "unat x div 4096 < MAX_PAGES" using a(2) by (simp add: MAX_PAGES_val)
  ultimately show ?thesis unfolding pmm_all_frames_def by blast
qed

lemma table_of_frame:
  assumes "table_frames pt" "k < 6"
  shows "table_of pt k \<in> pmm_all_frames" "unat (table_of pt k) = unat pt + 4096 * k"
proof -
  have "unat (of_nat (4096 * k) :: u64) = 4096 * k" using assms(2) by (intro unat_of_nat64) simp
  then show u: "unat (table_of pt k) = unat pt + 4096 * k"
    using assms by (subst unat_add_lem [THEN iffD1]) (auto simp: table_frames_def)
  have "(unat pt + 4096 * k) mod 4096 = 0" using assms(1) by (simp add: table_frames_def)
  then have m: "unat (table_of pt k) mod 4096 = 0" by (simp only: u)
  have l: "unat (table_of pt k) < 2 ^ 33" unfolding u using assms by (simp add: table_frames_def)
  show "table_of pt k \<in> pmm_all_frames" by (rule frameI [OF m l])
qed

lemma table_of_inj:
  assumes "table_frames pt" "k < 6" "l < 6"
  shows "table_of pt k = table_of pt l \<longleftrightarrow> k = l"
proof
  assume "table_of pt k = table_of pt l"
  then have "unat pt + 4096 * k = unat pt + 4096 * l"
    using table_of_frame(2) [OF assms(1,2)] table_of_frame(2) [OF assms(1,3)] by metis
  then show "k = l" by simp
qed simp

lemma byte_zero: "(\<And>b. b < 8 \<Longrightarrow> byte_of b e = 0) \<Longrightarrow> e = 0"
proof (rule bit_word_eqI)
  fix n assume z: "\<And>b. b < 8 \<Longrightarrow> byte_of b e = 0" and n: "n < LENGTH(64)"
  have "bit (byte_of (n div 8) e) (n mod 8) = bit e n" by (simp add: bit_byte_of)
  then show "bit e n = bit 0 n" using z [of "n div 8"] n by simp
qed

lemma zero_tables:
  assumes "table_frames pt" "k < 6" "j < 512"
  shows "rd (wr_bytes pt (6 * 4096) (\<lambda>_. 0) v) (table_of pt k) j = 0"
proof (rule byte_zero)
  fix b :: nat assume b: "b < 8"
  have j: "unat j < 512" using assms(3) by (simp add: word_less_nat_alt)
  define i where "i = 8 * unat j + b"
  have i: "i < 4096" "i mod 8 = b" "(of_nat (i div 8) :: u64) = j" using b j by (simp_all add: i_def)
  have "4096 * k + i < 6 * 4096" using assms(2) i(1) by linarith
  moreover from this have "unat (table_of pt k + of_nat i - pt) = 4096 * k + i"
    using unat_of_nat64 [of "4096 * k + i"] by simp
  ultimately have "rd8 (wr_bytes pt (6 * 4096) (\<lambda>_. 0) v) (table_of pt k + of_nat i) = 0"
    by (subst rd8_wr_bytes) simp_all
  then show "byte_of b (rd (wr_bytes pt (6 * 4096) (\<lambda>_. 0) v) (table_of pt k) j) = 0"
    using rd8_frame [OF table_of_frame(1) [OF assms(1,2)] i(1)] i(2,3) by simp
qed

lemma rd_wr:
  assumes "t \<in> pmm_all_frames" "u \<in> pmm_all_frames" "i < 512" "j < 512"
  shows "rd (wr (entry_ptr t i) e v) u j = (if u = t \<and> j = i then e else rd v u j)"
  using entry_ptr_inj [OF assms(2,1,4,3)] by simp

lemma huge_table_rd:
  assumes "t \<in> pmm_all_frames" "u \<in> pmm_all_frames" "j < 512"
  shows "rd (huge_table t first v) u j = (if u = t then (j + first) * 0x200000 OR 0x83 else rd v u j)"
  unfolding huge_table_def by (rule fill_table_full [OF assms])

lemma build_tables_writes:
  assumes "T = (\<lambda>k. table_of pt k)"
  shows "build_tables pt v = huge_table (T 5) 1536 (huge_table (T 4) 1024 (huge_table (T 3) 512 (huge_table (T 2) 0
      (wr (entry_ptr (T 1) 3) (T 5 OR 3) (wr (entry_ptr (T 1) 2) (T 4 OR 3) (wr (entry_ptr (T 1) 1) (T 3 OR 3) (wr (entry_ptr (T 1) 0) (T 2 OR 3)
      (wr (entry_ptr (T 0) 0) (T 1 OR 3) (wr_bytes (T 0) (6 * 4096) (\<lambda>_. 0) v)))))))))"
proof -
  have t: "pt = T 0" "pt + 4096 = T 1" "pt + 4096 * (2 + 0) = T 2" "pt + 4096 * (2 + 1) = T 3" "pt + 4096 * (2 + 2) = T 4" "pt + 4096 * (2 + 3) = T 5"
    by (simp_all add: assms)
  show ?thesis unfolding build_tables_def Let_def t(2-6) unfolding t(1) by (rule refl)
qed

lemma build_tables_rd:
  fixes v
  assumes pt: "table_frames pt" and j: "j < 512"
  defines "s \<equiv> build_tables pt v"
  shows "rd s pt j = (if j = 0 then table_of pt 1 OR 3 else 0)"
    "rd s (table_of pt 1) j = (if j < 4 then table_of pt (2 + unat j) OR 3 else 0)"
    "m < 4 \<Longrightarrow> rd s (table_of pt (2 + m)) j = (j + of_nat (512 * m)) * 0x200000 OR 0x83"
proof -
  define T where "T = (\<lambda>k. table_of pt k)"
  have T: "T k \<in> pmm_all_frames" if "k < 6" for k unfolding T_def by (rule table_of_frame(1) [OF pt that])
  have I: "T k = T l \<longleftrightarrow> k = l" if "k < 6" "l < 6" for k l unfolding T_def by (rule table_of_inj [OF pt that])
  have Z: "rd (wr_bytes (T 0) (6 * 4096) (\<lambda>_. 0) v) (T k) j = 0" if "k < 6" for k
    using zero_tables [OF pt that j, of v] by (simp add: T_def)
  note s = build_tables_writes [OF T_def, of v, folded s_def]
  have ix: "(0 :: u64) < 512" "(1 :: u64) < 512" "(2 :: u64) < 512" "(3 :: u64) < 512" by simp_all
  have R: "rd s (T k) j = (if k = 5 then (j + 1536) * 0x200000 OR 0x83 else if k = 4 then (j + 1024) * 0x200000 OR 0x83
      else if k = 3 then (j + 512) * 0x200000 OR 0x83 else if k = 2 then (j + 0) * 0x200000 OR 0x83
      else if k = 1 \<and> j = 3 then T 5 OR 3 else if k = 1 \<and> j = 2 then T 4 OR 3 else if k = 1 \<and> j = 1 then T 3 OR 3
      else if k = 1 \<and> j = 0 then T 2 OR 3 else if k = 0 \<and> j = 0 then T 1 OR 3 else 0)" if "k < 6" for k
    unfolding s using that
    by (simp only: huge_table_rd [OF T T [OF that] j] rd_wr [OF T T [OF that] _ j] ix I Z [OF that])
  show "rd s pt j = (if j = 0 then table_of pt 1 OR 3 else 0)" using R [of 0] by (simp add: T_def)
  show "m < 4 \<Longrightarrow> rd s (table_of pt (2 + m)) j = (j + of_nat (512 * m)) * 0x200000 OR 0x83"
    using R [of "2 + m"] by (cases "m = 0"; cases "m = 1"; cases "m = 2"; cases "m = 3") (simp_all add: T_def)
  have E: "unat j = k \<longleftrightarrow> j = of_nat k" if "k < 4" for k using that by (auto simp: word_unat_eq_iff unat_of_nat64)
  have "unat j < 4 \<longleftrightarrow> unat j = 0 \<or> unat j = 1 \<or> unat j = 2 \<or> unat j = 3" by auto
  then have "unat j < 4 \<longleftrightarrow> j = 0 \<or> j = 1 \<or> j = 2 \<or> j = 3" using E [of 0] E [of 1] E [of 2] E [of 3] by simp
  then show "rd s (table_of pt 1) j = (if j < 4 then table_of pt (2 + unat j) OR 3 else 0)"
    using R [of 1] by (auto simp: T_def word_less_nat_alt)
qed

lemma pd_entry:
  fixes n :: u64
  assumes "n < 2048"
  defines "e \<equiv> n * 0x200000 OR 0x83"
  shows "present e" "huge e" "(e AND 0xFFFFFFFE00000) = push_bit 21 n"
proof -
  have n: "n * 0x200000 = push_bit 21 n" by (simp add: push_bit_eq_mult)
  have nb: "bit n k \<Longrightarrow> k < 11" for k
  proof -
    assume b: "bit n k"
    have "n = take_bit 11 n" using assms(1) by (simp add: word_less_nat_alt word_unat_eq_iff unsigned_take_bit_eq take_bit_nat_def)
    then show "k < 11" using b by (metis bit_take_bit_iff)
  qed
  have "(0x83 :: u64) = push_bit 7 1 OR mask 2" by (simp add: mask_eq_exp_minus_1 push_bit_eq_mult)
  moreover have "bit (push_bit 7 1 OR mask 2 :: u64) k \<longleftrightarrow> k = 0 \<or> k = 1 \<or> k = 7" for k
    by (simp only: bit_or_iff bit_push_bit_iff bit_1_iff bit_mask_iff possible_bit_word) auto
  ultimately have c: "bit (0x83 :: u64) k \<longleftrightarrow> k = 0 \<or> k = 1 \<or> k = 7" for k by (simp only:)
  have b: "bit e k \<longleftrightarrow> 21 \<le> k \<and> k < 32 \<and> bit n (k - 21) \<or> k = 0 \<or> k = 1 \<or> k = 7" for k
    unfolding e_def n bit_or_iff c bit_push_bit_iff possible_bit_word using nb [of "k - 21"] bit_imp_le_length [of n "k - 21"] by auto
  show "present e" "huge e" using b [of 0] b [of 7] by (simp_all add: present_bit huge_bit)
  have h: "0xFFFFFFFE00000 = push_bit 21 (mask 31 :: u64)" by (simp add: push_bit_eq_mult mask_eq_exp_minus_1)
  show "(e AND 0xFFFFFFFE00000) = push_bit 21 n"
  proof (rule bit_word_eqI)
    fix i assume "i < LENGTH(64)"
    have "bit n (i - 21) \<Longrightarrow> i - 21 < 11" by (rule nb)
    then show "bit (e AND 0xFFFFFFFE00000) i = bit (push_bit 21 n) i"
      by (auto simp: h bit_and_iff b bit_push_bit_iff bit_mask_iff)
  qed
qed

lemma idx_bits:
  "bit (pml4_idx v) n \<longleftrightarrow> n < 9 \<and> bit v (39 + n)" "bit (pdpt_idx v) n \<longleftrightarrow> n < 9 \<and> bit v (30 + n)"
  "bit (pd_idx v) n \<longleftrightarrow> n < 9 \<and> bit v (21 + n)"
proof -
  have "bit (0x1FF :: u64) n \<longleftrightarrow> n < 9" by (simp add: mask_eq_exp_minus_1 [of 9, where ?'a = u64, simplified, symmetric] bit_mask_iff) (auto dest: bit_imp_le_length)
  then show "bit (pml4_idx v) n \<longleftrightarrow> n < 9 \<and> bit v (39 + n)" "bit (pdpt_idx v) n \<longleftrightarrow> n < 9 \<and> bit v (30 + n)"
    "bit (pd_idx v) n \<longleftrightarrow> n < 9 \<and> bit v (21 + n)"
    by (auto simp: pml4_idx_def pdpt_idx_def pd_idx_def bit_and_iff bit_drop_bit_eq)
qed

lemma unat_lt64: "unat (w :: u64) < 2 ^ 64"
  using unsigned_less [of w, where ?'a = nat] by simp

lemma unat_drop: "unat (drop_bit k (a :: u64)) = unat a div 2 ^ k"
  by (subst unat_drop_bit_eq) (rule drop_bit_eq_div)

text \<open>The bits of an address below 4 GB in its indices.\<close>
lemma low_indices:
  assumes "unat a < 2 ^ 32"
  shows "pml4_idx a = 0" "pdpt_idx a < 4" "pd_idx a + of_nat (512 * unat (pdpt_idx a)) = drop_bit 21 a" "drop_bit 21 a < 2048"
proof -
  have hi: "\<not> bit a n" if "32 \<le> n" for n
  proof
    assume "bit a n"
    then have "bit (unat a) n" by (simp add: bit_unsigned_iff)
    then have "2 ^ n \<le> unat a" by (metis bit_iff_odd div_less even_zero not_le)
    moreover have "(2 :: nat) ^ 32 \<le> 2 ^ n" using that by (intro power_increasing) simp_all
    ultimately show False using assms by simp
  qed
  show "pml4_idx a = 0" by (rule bit_word_eqI) (use hi in \<open>auto simp: idx_bits\<close>)
  have "unat (drop_bit 21 a) = unat a div 2 ^ 21" by (rule unat_drop)
  then show "drop_bit 21 a < 2048" using assms by (simp add: word_less_nat_alt)
  have q: "unat (pdpt_idx a) = unat a div 2 ^ 30"
  proof -
    have "n < 9" if "bit a (30 + n)" for n using hi [of "30 + n"] that by (cases "n < 9") auto
    then have "pdpt_idx a = drop_bit 30 a" by (intro bit_word_eqI) (auto simp: idx_bits bit_drop_bit_eq)
    then show ?thesis by (simp only: unat_drop)
  qed
  then show "pdpt_idx a < 4" using assms by (simp add: word_less_nat_alt less_mult_imp_div_less)
  have d: "unat (pd_idx a) = unat a div 2 ^ 21 mod 512"
  proof -
    have "pd_idx a = take_bit 9 (drop_bit 21 a)" by (rule bit_word_eqI) (auto simp: idx_bits bit_drop_bit_eq bit_take_bit_iff)
    then show ?thesis by (simp add: unsigned_take_bit_eq unat_drop take_bit_nat_def del: drop_bit_numeral_minus_bit1)
  qed
  have e: "unat a div 2 ^ 21 mod 512 + 512 * (unat a div 2 ^ 30) = unat a div 2 ^ 21"
    using div_mult2_eq [of "unat a" "2 ^ 21" 512] by simp
  have "pd_idx a + of_nat (512 * unat (pdpt_idx a)) = of_nat (unat (pd_idx a) + 512 * unat (pdpt_idx a))" by simp
  also have "\<dots> = of_nat (unat (drop_bit 21 a))"
    unfolding d q e unat_drop by (rule refl)
  finally show "pd_idx a + of_nat (512 * unat (pdpt_idx a)) = drop_bit 21 a" by simp
qed

section \<open>The translation\<close>

lemma table_entry:
  assumes "f \<in> pmm_all_frames"
  shows "present (f OR 3)" "\<not> huge (f OR 3)" "(f OR 3) AND PTE_ADDR_MASK = f"
proof -
  have m: "(3 :: u64) = mask 2" by (simp add: mask_eq_exp_minus_1)
  have b: "bit (f OR 3) n \<longleftrightarrow> bit f n \<or> n < 2" for n by (auto simp: bit_or_iff m bit_mask_iff)
  show "present (f OR 3)" using b [of 0] by (simp add: present_bit)
  show "\<not> huge (f OR 3)" using b [of 7] frame_bits [OF assms, of 7] by (auto simp: huge_bit)
  show "(f OR 3) AND PTE_ADDR_MASK = f"
    by (rule bit_word_eqI) (use b frame_bits [OF assms] in \<open>force simp: bit_and_iff bit_ADDR_MASK\<close>)
qed

lemma frame_masked: "f \<in> pmm_all_frames \<Longrightarrow> f AND PTE_ADDR_MASK = f"
  by (rule bit_word_eqI) (auto simp: bit_and_iff bit_ADDR_MASK dest: frame_bits)

lemma split_offset: "(push_bit 21 (drop_bit 21 a)) OR (a AND 0x1FFFFF) = (a :: u64)"
proof -
  have m: "(0x1FFFFF :: u64) = mask 21" by (simp add: mask_eq_exp_minus_1)
  show ?thesis unfolding m by (rule bit_word_eqI) (auto simp: bit_or_iff bit_and_iff bit_mask_iff bit_push_bit_iff bit_drop_bit_eq)
qed

text \<open>Above 4 GB, below 256 TB, the walk stops at the first or at the second table.\<close>
lemma high_indices:
  assumes "2 ^ 32 \<le> unat a" "unat a < 2 ^ 48" "pml4_idx a = 0"
  shows "\<not> pdpt_idx a < 4"
proof
  assume l: "pdpt_idx a < 4"
  have p: "pml4_idx a = take_bit 9 (drop_bit 39 a)" "pdpt_idx a = take_bit 9 (drop_bit 30 a)"
    by (rule bit_word_eqI, auto simp: idx_bits bit_drop_bit_eq bit_take_bit_iff)+
  have "unat a div 2 ^ 39 mod 512 = 0" using assms(3) unfolding p(1)
    by (simp add: word_unat_eq_iff unsigned_take_bit_eq unat_drop take_bit_nat_def del: drop_bit_numeral_minus_bit1)
  moreover have "unat a div 2 ^ 39 < 512" using assms(2) by (simp add: less_mult_imp_div_less)
  ultimately have z: "unat a < 2 ^ 39" by (simp add: div_eq_0_iff)
  have "unat a div 2 ^ 30 mod 512 < 4" using l unfolding p(2)
    by (simp add: word_less_nat_alt unsigned_take_bit_eq unat_drop take_bit_nat_def del: drop_bit_numeral_minus_bit1)
  moreover have "unat a div 2 ^ 30 < 512" using z by (simp add: less_mult_imp_div_less)
  ultimately have "unat a div 2 ^ 30 < 4" by simp
  then have "unat a < 4 * 2 ^ 30" by (simp add: div_less_iff_less_mult)
  then show False using assms(1) by simp
qed

lemma V2P_large:
  assumes "rd s (s_pml4_phys s) (pml4_idx a) = e1" "present e1" "e1 AND PTE_ADDR_MASK = t"
    and "rd s t (pdpt_idx a) = e2" "present e2" "\<not> huge e2" "e2 AND PTE_ADDR_MASK = u"
    and "rd s u (pd_idx a) = e3" "present e3" "huge e3" "(e3 AND 0xFFFFFFFE00000) = f"
  shows "V2P a s = f OR (a AND 0x1FFFFF)"
  using assms by (simp add: V2P_def Let_def)

lemma V2P_unmapped1: "rd s (s_pml4_phys s) (pml4_idx a) = e1 \<Longrightarrow> \<not> present e1 \<Longrightarrow> V2P a s = 0"
  by (simp add: V2P_def Let_def)

lemma V2P_unmapped2:
  assumes "rd s (s_pml4_phys s) (pml4_idx a) = e1" "present e1" "e1 AND PTE_ADDR_MASK = t"
    and "rd s t (pdpt_idx a) = e2" "\<not> present e2"
  shows "V2P a s = 0"
  using assms by (simp add: V2P_def Let_def)

text \<open>Bits 48 to 63 of an address take no part in the walk.\<close>
lemma idx_low48: "pml4_idx (take_bit 48 a) = pml4_idx a" "pdpt_idx (take_bit 48 a) = pdpt_idx a"
    "pd_idx (take_bit 48 a) = pd_idx a" "pt_idx (take_bit 48 a) = pt_idx a"
    "take_bit 48 a AND 0xFFF = a AND 0xFFF" "take_bit 48 a AND 0x1FFFFF = a AND 0x1FFFFF"
    "take_bit 48 a AND 0x3FFFFFFF = a AND 0x3FFFFFFF"
proof -
  have m: "(0x1FF :: u64) = mask 9" "(0xFFF :: u64) = mask 12" "(0x1FFFFF :: u64) = mask 21" "(0x3FFFFFFF :: u64) = mask 30"
    by (simp_all add: mask_eq_exp_minus_1)
  show "pml4_idx (take_bit 48 a) = pml4_idx a" "pdpt_idx (take_bit 48 a) = pdpt_idx a"
    "pd_idx (take_bit 48 a) = pd_idx a" "pt_idx (take_bit 48 a) = pt_idx a"
    "take_bit 48 a AND 0xFFF = a AND 0xFFF" "take_bit 48 a AND 0x1FFFFF = a AND 0x1FFFFF"
    "take_bit 48 a AND 0x3FFFFFFF = a AND 0x3FFFFFFF"
    unfolding pml4_idx_def pdpt_idx_def pd_idx_def pt_idx_def m
    by (auto intro!: bit_word_eqI simp: bit_simps)
qed

lemma V2P_low48: "V2P (take_bit 48 a) s = V2P a s"
  by (simp only: V2P_def idx_low48)

lemma boot_translation:
  assumes "table_frames pt" "unat a < 2 ^ 48"
  shows "V2P a (VMM_Init (build_tables pt v\<lparr>vm_cr3 := pt\<rparr>)) = (if unat a < 2 ^ 32 then a else 0)"
proof -
  define s where "s = VMM_Init (build_tables pt v\<lparr>vm_cr3 := pt\<rparr>)"
  have f: "table_of pt k \<in> pmm_all_frames" if "k < 6" for k by (rule table_of_frame(1) [OF assms(1) that])
  have p0: "s_pml4_phys s = pt" using frame_masked [OF f [of 0]] by (simp add: s_def VMM_Init_def)
  have m: "rd s t j = rd (build_tables pt v) t j" for t j by (simp add: s_def VMM_Init_def)
  have lt: "pml4_idx a < 512" "pdpt_idx a < 512" "pd_idx a < 512" by simp_all
  note R = build_tables_rd [OF assms(1), where v = v, folded m]
  have e1: "rd s pt (pml4_idx a) = (if pml4_idx a = 0 then table_of pt 1 OR 3 else 0)" by (rule R(1) [OF lt(1)])
  have e2: "rd s (table_of pt 1) (pdpt_idx a) = (if pdpt_idx a < 4 then table_of pt (2 + unat (pdpt_idx a)) OR 3 else 0)"
    by (rule R(2) [OF lt(2)])
  show ?thesis
  proof (cases "unat a < 2 ^ 32")
    case True
    note I = low_indices [OF True]
    define m where "m = unat (pdpt_idx a)"
    have m4: "m < 4" using I(2) by (simp add: m_def word_less_nat_alt)
    have e3: "rd s (table_of pt (2 + m)) (pd_idx a) = drop_bit 21 a * 0x200000 OR 0x83"
      using R(3) [OF lt(3) m4] I(3) by (simp only: m_def)
    note E = pd_entry [OF I(4)]
    have x1: "present (table_of pt 1 OR 3)" "(table_of pt 1 OR 3) AND PTE_ADDR_MASK = table_of pt 1"
      using table_entry [OF f [of 1]] by simp_all
    have x2: "present (table_of pt (2 + m) OR 3)" "\<not> huge (table_of pt (2 + m) OR 3)"
        "(table_of pt (2 + m) OR 3) AND PTE_ADDR_MASK = table_of pt (2 + m)"
      using table_entry [OF f [of "2 + m"]] m4 by simp_all
    have "rd s (s_pml4_phys s) (pml4_idx a) = table_of pt 1 OR 3" unfolding p0 e1 using I(1) by simp
    moreover have "rd s (table_of pt 1) (pdpt_idx a) = table_of pt (2 + m) OR 3" unfolding e2 using I(2) by (simp add: m_def)
    ultimately have "V2P a s = push_bit 21 (drop_bit 21 a) OR (a AND 0x1FFFFF)"
      by (rule V2P_large [OF _ x1 _ x2 e3 E])
    then show ?thesis using True by (simp only: split_offset s_def if_True)
  next
    case False
    show ?thesis
    proof (cases "pml4_idx a = 0")
      case True
      have x1: "present (table_of pt 1 OR 3)" "(table_of pt 1 OR 3) AND PTE_ADDR_MASK = table_of pt 1"
        using table_entry [OF f [of 1]] by simp_all
      have "\<not> pdpt_idx a < 4" using high_indices [OF _ assms(2) True] False by simp
      then have "rd s (table_of pt 1) (pdpt_idx a) = 0" "\<not> present (0 :: u64)" unfolding e2 by simp_all
      moreover have "rd s (s_pml4_phys s) (pml4_idx a) = table_of pt 1 OR 3" unfolding p0 e1 using True by simp
      ultimately have "V2P a s = 0" using x1 by (intro V2P_unmapped2)
      then show ?thesis using False by (simp only: s_def if_False)
    next
      case n: False
      have "rd s (s_pml4_phys s) (pml4_idx a) = 0" "\<not> present (0 :: u64)" unfolding p0 e1 using n by simp_all
      then have "V2P a s = 0" by (rule V2P_unmapped1)
      then show ?thesis using False by (simp only: s_def if_False)
    qed
  qed
qed

lemma boot_translation_all:
  assumes "table_frames pt"
  shows "V2P a (VMM_Init (build_tables pt v\<lparr>vm_cr3 := pt\<rparr>)) = (if take_bit 48 a < 2 ^ 32 then take_bit 48 a else 0)"
proof -
  have "unat (take_bit 48 a) < 2 ^ 48" by (simp add: unsigned_take_bit_eq take_bit_nat_less_exp [of 48, simplified])
  note T = boot_translation [OF assms this, where v = v, unfolded V2P_low48]
  show ?thesis unfolding T word_less_nat_alt by simp
qed

end
