(* ===== verification/BootProps.thy ===== *)
theory BootProps
  imports BootTables PhysMem
begin

text \<open>What the boot loader hands to the kernel: the image in memory, the translation, the frames that the memory manager will give
  out, the screen mode, the boot files, and the memory map of the attempt that the firmware accepted.\<close>

section \<open>The kernel image in memory\<close>

definition covers :: "u64 \<Rightarrow> Elf64_Phdr \<Rightarrow> bool" where
  "covers a p \<longleftrightarrow> unat (a - p_paddr p) < unat (p_filesz p)"

text \<open>The byte of the loaded image at a physical address of the link: the last segment that has file contents there, or zero.\<close>
definition image_byte :: "blob \<Rightarrow> u64 \<Rightarrow> u8" where
  "image_byte img a = (case find (covers a) (rev (load_phdrs img)) of None \<Rightarrow> 0 | Some p \<Rightarrow> img (p_offset p + (a - p_paddr p)))"

definition link_base :: "blob \<Rightarrow> u64" where
  "link_base img = fst (fold widen (load_phdrs img) (- 1, 0)) AND NOT 0xFFF"

definition link_end :: "blob \<Rightarrow> u64" where
  "link_end img = (snd (fold widen (load_phdrs img) (- 1, 0)) + 0xFFF) AND NOT 0xFFF"

lemma find_append: "find P (xs @ ys) = (case find P xs of None \<Rightarrow> find P ys | Some x \<Rightarrow> Some x)"
  by (induction xs) simp_all

lemma rd8_copy_segment:
  "rd8 (copy_segment img base lb p v) (base + (a - lb)) =
    (if covers a p then img (p_offset p + (a - p_paddr p)) else rd8 v (base + (a - lb)))"
proof -
  have d: "base + (a - lb) - (base + (p_paddr p - lb)) = a - p_paddr p" by simp
  show ?thesis unfolding copy_segment_def covers_def by (simp add: rd8_wr_bytes [OF unat_lt64] d)
qed

lemma rd8_copy_segments:
  "rd8 (fold (copy_segment img base lb) ps v) (base + (a - lb)) =
    (case find (covers a) (rev ps) of None \<Rightarrow> rd8 v (base + (a - lb)) | Some p \<Rightarrow> img (p_offset p + (a - p_paddr p)))"
proof (induction ps arbitrary: v)
  case (Cons p ps)
  show ?case by (simp add: Cons.IH find_append rd8_copy_segment split: option.splits)
qed simp

lemma LoadElf_alt:
  "LoadElf fw img v =
    (if \<not> elf_ok img \<or> fst (fold widen (load_phdrs img) (- 1, 0)) = - 1 then None else
     case (if alloc_at fw (link_base img) ((link_end img - link_base img) div 4096) then Some (link_base img)
           else alloc_any fw ((link_end img - link_base img) div 4096)) of None \<Rightarrow> None
     | Some kb \<Rightarrow> Some (kb, kb + (link_end img - link_base img) div 4096 * 4096, kb + (e_entry img - link_base img),
         fold (copy_segment img kb (link_base img)) (load_phdrs img)
          (wr_bytes kb (unat ((link_end img - link_base img) div 4096 * 4096)) (\<lambda>_. 0) v)))"
  by (simp only: LoadElf_def link_base_def link_end_def Let_def case_prod_unfold if_distrib [where f = Not] split: if_split) blast

lemma LoadElf_image:
  assumes "LoadElf fw img v = Some (kb, ke, entry, v')"
  shows "unat (a - link_base img) < unat (ke - kb) \<Longrightarrow> rd8 v' (kb + (a - link_base img)) = image_byte img a"
    "ke - kb = (link_end img - link_base img) div 4096 * 4096" "entry = kb + (e_entry img - link_base img)"
    "(if alloc_at fw (link_base img) ((link_end img - link_base img) div 4096) then Some (link_base img)
       else alloc_any fw ((link_end img - link_base img) div 4096)) = Some kb"
    "v' = fold (copy_segment img kb (link_base img)) (load_phdrs img) (wr_bytes kb (unat (ke - kb)) (\<lambda>_. 0) v)"
proof -
  show k: "ke - kb = (link_end img - link_base img) div 4096 * 4096"
    and "entry = kb + (e_entry img - link_base img)"
    and "(if alloc_at fw (link_base img) ((link_end img - link_base img) div 4096) then Some (link_base img)
       else alloc_any fw ((link_end img - link_base img) div 4096)) = Some kb"
    and v': "v' = fold (copy_segment img kb (link_base img)) (load_phdrs img) (wr_bytes kb (unat (ke - kb)) (\<lambda>_. 0) v)"
    using assms by (auto simp: LoadElf_alt split: if_splits option.splits)
  assume a: "unat (a - link_base img) < unat (ke - kb)"
  show "rd8 v' (kb + (a - link_base img)) = image_byte img a"
    unfolding v' rd8_copy_segments image_byte_def using a by (simp add: rd8_wr_bytes [OF unat_lt64] split: option.splits)
qed

text \<open>A segment whose file contents fit in its memory and whose end does not wrap.\<close>
definition segment_ok :: "Elf64_Phdr \<Rightarrow> bool" where
  "segment_ok p \<longleftrightarrow> unat (p_filesz p) \<le> unat (p_memsz p) \<and> unat (p_paddr p) + unat (p_memsz p) < 2 ^ 63"

lemma fold_widen_all:
  "\<forall>p\<in>set ps. segment_ok p \<Longrightarrow>
    fst (fold widen ps b) \<le> fst b \<and> snd b \<le> snd (fold widen ps b)
    \<and> (\<forall>p\<in>set ps. fst (fold widen ps b) \<le> p_paddr p \<and> p_paddr p + p_memsz p \<le> snd (fold widen ps b))
    \<and> (unat (snd b) < 2 ^ 63 \<longrightarrow> unat (snd (fold widen ps b)) < 2 ^ 63)"
proof (induction ps arbitrary: b)
  case (Cons q ps)
  have q: "fst (widen q b) \<le> fst b" "snd b \<le> snd (widen q b)" "fst (widen q b) \<le> p_paddr q" "p_paddr q + p_memsz q \<le> snd (widen q b)"
    by (auto simp: widen_def Let_def split: prod.splits)
  have ok: "segment_ok q" "\<forall>p\<in>set ps. segment_ok p" using Cons.prems by simp_all
  have "unat (p_paddr q + p_memsz q) = unat (p_paddr q) + unat (p_memsz q)"
    using ok(1) by (subst unat_add_lem [THEN iffD1]) (simp_all add: segment_ok_def)
  then have "unat (snd b) < 2 ^ 63 \<Longrightarrow> unat (snd (widen q b)) < 2 ^ 63"
    using ok(1) by (auto simp: widen_def Let_def segment_ok_def split: prod.splits)
  then show ?case using Cons.IH [OF ok(2), of "widen q b"] q order_trans by auto
qed simp

lemma fold_widen:
  assumes "\<forall>p\<in>set ps. segment_ok p"
  shows "p \<in> set ps \<Longrightarrow> fst (fold widen ps b) \<le> p_paddr p" "p \<in> set ps \<Longrightarrow> p_paddr p + p_memsz p \<le> snd (fold widen ps b)"
    "unat (snd b) < 2 ^ 63 \<Longrightarrow> unat (snd (fold widen ps b)) < 2 ^ 63"
  using fold_widen_all [OF assms, of b] by auto

lemma page_bounds:
  fixes x :: u64
  shows "unat (x AND NOT 0xFFF) = unat x div 4096 * 4096" "unat x < 2 ^ 63 \<Longrightarrow> unat x \<le> unat ((x + 0xFFF) AND NOT 0xFFF)"
    "unat x < 2 ^ 63 \<Longrightarrow> unat ((x + 0xFFF) AND NOT 0xFFF) \<le> unat x + 0xFFF"
proof -
  have F: "(0xFFF :: u64) = mask 12" by (simp add: mask_eq_exp_minus_1)
  have D: "unat (y AND NOT 0xFFF) = unat y div 4096 * 4096" for y :: u64 unfolding F unat_and_not_mask by simp
  show "unat (x AND NOT 0xFFF) = unat x div 4096 * 4096" by (rule D)
  assume "unat x < 2 ^ 63"
  then have "unat (x + 0xFFF) = unat x + 0xFFF" by (subst unat_add_lem [THEN iffD1]) simp_all
  then show "unat x \<le> unat ((x + 0xFFF) AND NOT 0xFFF)" "unat ((x + 0xFFF) AND NOT 0xFFF) \<le> unat x + 0xFFF" unfolding D by simp_all
qed

lemma segment_inside:
  assumes "\<forall>p\<in>set (load_phdrs img). segment_ok p" "p \<in> set (load_phdrs img)" "covers a p"
  shows "unat (a - link_base img) < unat ((link_end img - link_base img) div 4096 * 4096)"
proof -
  let ?w = "fold widen (load_phdrs img) (- 1, 0)"
  note W = fold_widen [OF assms(1), where b = "(- 1, 0)"]
  have w: "fst ?w \<le> p_paddr p" "p_paddr p + p_memsz p \<le> snd ?w" using W(1,2) [OF assms(2)] by simp_all
  have top: "unat (snd ?w) < 2 ^ 63" using W(3) by simp
  have ok: "segment_ok p" using assms(1,2) by simp
  have e: "unat (p_paddr p + p_memsz p) = unat (p_paddr p) + unat (p_memsz p)"
    using ok by (subst unat_add_lem [THEN iffD1]) (simp_all add: segment_ok_def)
  have lb: "unat (link_base img) = unat (fst ?w) div 4096 * 4096" unfolding link_base_def by (rule page_bounds(1))
  have le: "unat (snd ?w) \<le> unat (link_end img)" unfolding link_end_def by (rule page_bounds(2) [OF top])
  have lb': "unat (link_base img) \<le> unat (p_paddr p)" using w(1) unfolding lb word_le_nat_alt by (meson div_times_less_eq_dividend le_trans)
  have sub: "unat (link_end img - link_base img) = unat (link_end img) - unat (link_base img)"
    using lb' le w(2) e by (intro unat_sub) (simp add: word_le_nat_alt)
  have m: "unat (link_end img) mod 4096 = 0" unfolding link_end_def page_bounds(1) by simp
  have "unat ((link_end img - link_base img) div 4096 * 4096) = unat (link_end img) - unat (link_base img)"
  proof -
    have "(unat (link_end img) - unat (link_base img)) mod 4096 = 0" using m lb by (simp add: mod_diff_eq [symmetric] dvd_imp_mod_0 dvd_eq_mod_eq_0 [symmetric])
    then have "(unat (link_end img) - unat (link_base img)) div 4096 * 4096 = unat (link_end img) - unat (link_base img)" by auto
    then show ?thesis using unat_lt64 [of "link_end img - link_base img"]
      by (simp add: unat_word_ariths unat_div sub)
  qed
  moreover have "unat (a - link_base img) < unat (link_end img) - unat (link_base img)"
  proof -
    define o' where "o' = unat (a - p_paddr p)"
    have o': "o' < unat (p_filesz p)" using assms(3) by (simp add: covers_def o'_def)
    have "a - link_base img = of_nat (o' + (unat (p_paddr p) - unat (link_base img)))"
      using lb' by (simp add: o'_def of_nat_diff)
    moreover have "o' + (unat (p_paddr p) - unat (link_base img)) < unat (link_end img) - unat (link_base img)"
      using o' ok lb' le w(2) e unfolding segment_ok_def word_le_nat_alt by linarith
    moreover from this have "unat (of_nat (o' + (unat (p_paddr p) - unat (link_base img))) :: u64) = o' + (unat (p_paddr p) - unat (link_base img))"
      using unat_lt64 [of "link_end img"] by (intro unat_of_nat64) simp
    ultimately show ?thesis by (simp only:)
  qed
  ultimately show ?thesis by simp
qed

lemma LoadElf_memory:
  assumes "LoadElf fw img v = Some (kb, ke, entry, v')" "\<forall>p\<in>set (load_phdrs img). segment_ok p"
  shows "rd8 v' x = (if unat (x - kb) < unat (ke - kb) then image_byte img (link_base img + (x - kb)) else rd8 v x)"
proof -
  note L = LoadElf_image [OF assms(1)]
  define a where "a = link_base img + (x - kb)"
  have x: "x = kb + (a - link_base img)" "a - link_base img = x - kb" by (simp_all add: a_def)
  show ?thesis
  proof (cases "unat (x - kb) < unat (ke - kb)")
    case True
    then have "rd8 v' (kb + (a - link_base img)) = image_byte img a" by (intro L(1)) (simp only: x(2))
    then have "rd8 v' x = image_byte img a" unfolding x(1) [symmetric] .
    then show ?thesis using True by (simp add: a_def)
  next
    case False
    have "\<not> covers a p" if "p \<in> set (load_phdrs img)" for p
      using segment_inside [OF assms(2) that, of a] False unfolding L(2) x(2) by blast
    then have "find (covers a) (rev (load_phdrs img)) = None" unfolding find_None_iff set_rev by blast
    then have "rd8 v' (kb + (a - link_base img)) = rd8 (wr_bytes kb (unat (ke - kb)) (\<lambda>_. 0) v) (kb + (a - link_base img))"
      unfolding L(5) rd8_copy_segments by simp
    then have "rd8 v' x = rd8 (wr_bytes kb (unat (ke - kb)) (\<lambda>_. 0) v) x" unfolding x(1) [symmetric] .
    then show ?thesis using False by (simp add: rd8_wr_bytes [OF unat_lt64])
  qed
qed

section \<open>The screen mode\<close>

definition mode_pixels :: "gop_mode \<Rightarrow> nat" where "mode_pixels i = unat (gm_width i) * unat (gm_height i)"

definition usable_mode :: "gop_mode \<Rightarrow> bool" where
  "usable_mode i \<longleftrightarrow> gm_format i \<noteq> PixelBltOnly \<and> fits_screen i"

lemma pixels_exact: "fits_screen i \<Longrightarrow> unat (gm_width i * gm_height i) = mode_pixels i"
proof -
  assume "fits_screen i"
  then have "unat (gm_width i) \<le> 1920" "unat (gm_height i) \<le> 1200" by (simp_all add: fits_screen_def MAX_W_def MAX_H_def word_le_nat_alt)
  then have "unat (gm_width i) * unat (gm_height i) \<le> 1920 * 1200" by (rule mult_le_mono)
  then show ?thesis by (subst unat_mult_lem [THEN iffD1]) (simp_all add: mode_pixels_def)
qed

text \<open>Either no mode has more pixels than the bound, or the result is the first of the modes with the most pixels.\<close>
lemma best_mode_spec:
  assumes "best_mode k qs (m0, p0) = (m, p)" "unat k + length qs < 2 ^ 32"
  shows "p0 \<le> p \<and> (\<forall>i. Some i \<in> set qs \<and> usable_mode i \<longrightarrow> mode_pixels i \<le> unat p)
    \<and> (m = m0 \<and> p = p0 \<or> (\<exists>n i. n < length qs \<and> m = k + of_nat n \<and> qs ! n = Some i \<and> usable_mode i \<and> mode_pixels i = unat p))"
  using assms
proof (induction qs arbitrary: k m0 p0)
  case (Cons q qs)
  have k: "unat (k + 1) = unat k + 1" using Cons.prems(2) by (subst unat_add_lem [THEN iffD1]) simp_all
  define b where "b \<longleftrightarrow> (\<exists>i. q = Some i \<and> gm_format i \<noteq> PixelBltOnly \<and> fits_screen i \<and> gm_width i * gm_height i > p0)"
  define m1 where "m1 = (if b then k else m0)"
  define p1 where "p1 = (if b then gm_width (the q) * gm_height (the q) else p0)"
  have e: "best_mode k (q # qs) (m0, p0) = best_mode (k + 1) qs (m1, p1)"
    by (cases q) (auto simp: b_def m1_def p1_def)
  have IH: "p1 \<le> p \<and> (\<forall>i. Some i \<in> set qs \<and> usable_mode i \<longrightarrow> mode_pixels i \<le> unat p)
    \<and> (m = m1 \<and> p = p1 \<or> (\<exists>n i. n < length qs \<and> m = k + 1 + of_nat n \<and> qs ! n = Some i \<and> usable_mode i \<and> mode_pixels i = unat p))"
    using Cons.prems(1) [unfolded e] by (rule Cons.IH) (use Cons.prems(2) k in simp)
  have a: "p0 \<le> p1" by (auto simp: p1_def b_def)
  have c: "q = Some i \<Longrightarrow> usable_mode i \<Longrightarrow> mode_pixels i \<le> unat p1" for i
    using pixels_exact [of i] by (auto simp: usable_mode_def p1_def b_def word_le_nat_alt not_less)
  have d: "m1 = m0 \<and> p1 = p0 \<or> m1 = k \<and> (\<exists>i. q = Some i \<and> usable_mode i \<and> mode_pixels i = unat p1)"
    using pixels_exact by (auto simp: m1_def p1_def b_def usable_mode_def)
  have p: "p0 \<le> p" "unat p1 \<le> unat p" using a IH by (auto simp: word_le_nat_alt)
  have all: "\<forall>i. Some i \<in> set (q # qs) \<and> usable_mode i \<longrightarrow> mode_pixels i \<le> unat p"
    using IH c p(2) by (force intro: order_trans)
  have "m = m0 \<and> p = p0 \<or> (\<exists>n i. n < length (q # qs) \<and> m = k + of_nat n \<and> (q # qs) ! n = Some i \<and> usable_mode i \<and> mode_pixels i = unat p)"
  proof (cases "m = m1 \<and> p = p1")
    case True
    then show ?thesis using d by (auto intro!: exI [of _ 0])
  next
    case False
    then obtain n i where "n < length qs" "m = k + 1 + of_nat n" "qs ! n = Some i" "usable_mode i" "mode_pixels i = unat p"
      using IH by blast
    then show ?thesis by (intro disjI2 exI [of _ "Suc n"] exI [of _ i]) (simp add: add.assoc)
  qed
  then show ?case using p(1) all by simp
qed simp

section \<open>The boot files\<close>

text \<open>What a directory entry adds.\<close>
definition boot_candidate :: "dir_entry \<Rightarrow> BootFile option" where
  "boot_candidate d =
    (if fi_Attribute d AND 0x10 = 0 \<and> is_exe (fi_FileName d) \<and> \<not> is_kernel_name (fi_FileName d)
     then map_option (\<lambda>(a, n). \<lparr>bf_name = ascii_name (fi_FileName d), bf_phys_base = a, bf_size = n\<rparr>) (fi_contents d) else None)"

lemma load_boot_files_take:
  "length fs \<le> BOOT_FILES_MAX \<Longrightarrow> load_boot_files ds fs = take BOOT_FILES_MAX (fs @ List.map_filter boot_candidate ds)"
proof (induction ds fs rule: load_boot_files.induct)
  case (2 d ds fs)
  then show ?case
    by (auto simp: map_filter_simps boot_candidate_def BOOT_FILES_MAX_def split: option.splits)
qed (simp add: map_filter_simps)

section \<open>The frames that the kernel gives out\<close>

abbreviation usable_type :: "u32 \<Rightarrow> bool" where "usable_type t \<equiv> t = 7 \<or> t = 3 \<or> t = 4"

text \<open>A descriptor as the firmware gives it: it starts at a page and ends in the address space.\<close>
definition descriptor_ok :: "EFI_MEMORY_DESCRIPTOR \<Rightarrow> bool" where
  "descriptor_ok d \<longleftrightarrow> unat (md_PhysicalStart d) mod 4096 = 0 \<and> unat (md_PhysicalStart d) + 4096 * unat (md_NumberOfPages d) < 2 ^ 64"

definition descriptor_page :: "EFI_MEMORY_DESCRIPTOR \<Rightarrow> nat \<Rightarrow> bool" where
  "descriptor_page d p \<longleftrightarrow> unat (md_PhysicalStart d) \<le> 4096 * p \<and> 4096 * p < unat (md_PhysicalStart d) + 4096 * unat (md_NumberOfPages d)"

lemma page_down:
  fixes x :: u64
  assumes "unat x mod 4096 = 0"
  shows "AlignDown x (of_nat PAGE_SIZE) = x" "AlignUp x (of_nat PAGE_SIZE) = x"
proof -
  obtain k where k: "unat x = 4096 * k" using assms by (auto elim: dvdE simp: dvd_eq_mod_eq_0 [symmetric])
  have "unat (AlignDown x 4096) = unat x" using k by (simp add: AlignDown_page)
  then show "AlignDown x (of_nat PAGE_SIZE) = x" by (simp add: word_unat_eq_iff PAGE_SIZE_def)
  have "unat x + 4095 < 2 ^ 64" using k unat_lt64 [of x] by simp
  then have "unat (AlignUp x 4096) = unat x" using k by (simp add: AlignUp_page)
  then show "AlignUp x (of_nat PAGE_SIZE) = x" by (simp add: word_unat_eq_iff PAGE_SIZE_def)
qed

lemma boot_entry_pages:
  assumes "descriptor_ok d"
  shows "set (entry_pages (boot_entry d)) = {p. p < MAX_PAGES \<and> descriptor_page d p}"
proof -
  have s: "unat (md_PhysicalStart d) mod 4096 = 0" "unat (md_PhysicalStart d) + 4096 * unat (md_NumberOfPages d) < 2 ^ 64"
    using assms by (simp_all add: descriptor_ok_def)
  have l: "unat (md_NumberOfPages d * 4096) = 4096 * unat (md_NumberOfPages d)"
    using s(2) by (subst unat_mult_lem [THEN iffD1]) simp_all
  have e: "unat (md_PhysicalStart d + md_NumberOfPages d * 4096) = unat (md_PhysicalStart d) + 4096 * unat (md_NumberOfPages d)"
    using s(2) l by (subst unat_add_lem [THEN iffD1]) simp_all
  have m: "unat (md_PhysicalStart d + md_NumberOfPages d * 4096) mod 4096 = 0" unfolding e using s(1) by simp
  have "entry_base (boot_entry d) = md_PhysicalStart d" "entry_end (boot_entry d) = md_PhysicalStart d + md_NumberOfPages d * 4096"
    unfolding entry_base_def entry_end_def by (simp_all only: boot_entry_def BootMemoryEntry.select_convs page_down [OF s(1)] page_down [OF m])
  then have "set (entry_pages (boot_entry d)) =
      {unat (md_PhysicalStart d) div 4096 ..< min MAX_PAGES ((unat (md_PhysicalStart d) + 4096 * unat (md_NumberOfPages d)) div 4096)}"
    by (simp only: entry_pages_def e PAGE_SIZE_def set_upt)
  moreover obtain k where k: "unat (md_PhysicalStart d) = 4096 * k" using s(1) by (auto elim: dvdE simp: dvd_eq_mod_eq_0 [symmetric])
  moreover have "(4096 * k + 4096 * n) div 4096 = k + n" "4096 * k div 4096 = k" for n
    using div_mult_self1_is_m [of 4096 "k + n"] by (simp_all add: distrib_left)
  ultimately have "set (entry_pages (boot_entry d)) = {k ..< min MAX_PAGES (k + unat (md_NumberOfPages d))}" by (simp only:)
  moreover have "p \<in> {k ..< min m (k + n)} \<longleftrightarrow> p < m \<and> 4096 * k \<le> 4096 * p \<and> 4096 * p < 4096 * k + 4096 * n" for p m n :: nat by auto
  ultimately show ?thesis unfolding descriptor_page_def k by blast
qed

lemma boot_free_frames:
  assumes "\<forall>d\<in>set ds. descriptor_ok d" "bi_magic b = BOOTINFO_MAGIC" "s_free_pages s = 0"
  shows "pmm_free (PMM_Init bm (Some (FillMemoryMap ds b)) s) =
    {p. p < MAX_PAGES \<and> (\<exists>d\<in>set (take BOOT_MEMORY_MAX ds). usable_type (md_Type d) \<and> descriptor_page d p)}
    - set (bitmap_pages bm) - {..<LOW_PAGES}"
proof -
  let ?b = "FillMemoryMap ds b"
  have m: "bi_magic ?b = BOOTINFO_MAGIC" using assms(2) by (simp add: FillMemoryMap_def Let_def)
  have n: "unat (of_nat (min (length ds) BOOT_MEMORY_MAX) :: u32) = min (length ds) BOOT_MEMORY_MAX"
    by (simp add: unat_of_nat take_bit_nat_def BOOT_MEMORY_MAX_def)
  have tk: "take (min (length ds) BOOT_MEMORY_MAX) ds = take BOOT_MEMORY_MAX ds" by (simp add: min_def)
  have a: "avail_entries ?b = filter (\<lambda>e. me_type e = BOOT_MEM_AVAILABLE) (map boot_entry (take BOOT_MEMORY_MAX ds))"
    by (simp add: avail_entries_def FillMemoryMap_def Let_def n take_map tk)
  have t: "boot_type x = BOOT_MEM_AVAILABLE \<longleftrightarrow> usable_type x" for x by (simp add: boot_type_def)
  have "set (concat (map entry_pages (avail_entries ?b))) =
      (\<Union>d\<in>{d\<in>set (take BOOT_MEMORY_MAX ds). usable_type (md_Type d)}. set (entry_pages (boot_entry d)))"
    by (auto simp: a boot_entry_def t)
  also have "\<dots> = {p. p < MAX_PAGES \<and> (\<exists>d\<in>set (take BOOT_MEMORY_MAX ds). usable_type (md_Type d) \<and> descriptor_page d p)}"
  proof -
    have "x \<in> set (entry_pages (boot_entry d)) \<longleftrightarrow> x < MAX_PAGES \<and> descriptor_page d x" if "d \<in> set (take BOOT_MEMORY_MAX ds)" for d x
      using boot_entry_pages [of d] assms(1) in_set_takeD [OF that] by simp
    then show ?thesis by blast
  qed
  finally show ?thesis using PMM_Init_spec(1) [OF m assms(3)] by simp
qed


section \<open>The hand-over\<close>

lemma exit_loop_accepted:
  assumes "exit_loop as bi = Some bi'"
  shows "\<exists>k<length as. snd (as ! k) \<and> (\<forall>j<k. \<not> snd (as ! j)) \<and> bi' = FillMemoryMap (fst (fst (as ! k))) bi"
  using assms
proof (induction as bi rule: exit_loop.induct)
  case (2 m key accepted as bi)
  show ?case
  proof (cases accepted)
    case False
    have F: "FillMemoryMap m' (FillMemoryMap m bi) = FillMemoryMap m' bi" for m' by (simp add: FillMemoryMap_def Let_def)
    obtain k where "k < length as" "snd (as ! k)" "\<forall>j<k. \<not> snd (as ! j)" "bi' = FillMemoryMap (fst (fst (as ! k))) bi"
      using 2 False by (auto simp: F)
    then show ?thesis using False by (intro exI [of _ "Suc k"]) (auto simp: less_Suc_eq_0_disj)
  qed (use 2(2) in auto)
qed simp

lemma ExitBoot_accepted:
  assumes "ExitBoot fw bi = Some bi'"
  shows "\<exists>k<5. snd (fw k) \<and> (\<forall>j<k. \<not> snd (fw j)) \<and> bi' = FillMemoryMap (fst (fst (fw k))) bi"
  using exit_loop_accepted [OF assms [unfolded ExitBoot_def]] by auto

lemma ExitBoot_panic: "ExitBoot fw bi = None \<longleftrightarrow> (\<forall>k<5. \<not> snd (fw k))"
proof -
  have "exit_loop as bi = None \<longleftrightarrow> (\<forall>a\<in>set as. \<not> snd a)" for as and bi :: "'a MicroNTBootInfo_scheme"
    by (induction as bi rule: exit_loop.induct) (auto simp: Let_def)
  then show ?thesis by (auto simp: ExitBoot_def)
qed

text \<open>The page tables are written outside the kernel image.\<close>
lemma fill_table_other:
  "(\<And>i. i \<in> set ns \<Longrightarrow> entry_ptr t (of_nat i) \<noteq> x) \<Longrightarrow> vm_mem (fill_table t f ns v) x = vm_mem v x"
  by (induction ns arbitrary: v) (auto simp: fill_table_def wr_def)

lemma build_tables_other:
  assumes "table_frames pt" "\<not> unat (a - pt) < 6 * 4096"
  shows "rd8 (build_tables pt v) a = rd8 v a"
proof -
  define T where "T = (\<lambda>k. table_of pt k)"
  have q: "qword a \<noteq> entry_ptr (T k) j" if "k < 6" "j < 512" for k j
  proof
    assume e: "qword a = entry_ptr (T k) j"
    have "a = qword a + take_bit 3 a" by (metis and_not_mask_push bits_ident add.commute)
    then have "a = pt + of_nat (4096 * k + 8 * unat j + lane a)" unfolding e by (simp add: entry_ptr_def T_def add.assoc)
    then have "a - pt = of_nat (4096 * k + 8 * unat j + lane a)" by (metis add_diff_cancel_left')
    moreover have l: "4096 * k + 8 * unat j + lane a < 6 * 4096"
      using that lane_lt [of a] by (simp add: word_less_nat_alt)
    moreover from l have "unat (of_nat (4096 * k + 8 * unat j + lane a) :: u64) = 4096 * k + 8 * unat j + lane a"
      by (intro unat_of_nat64) simp
    ultimately have "unat (a - pt) = 4096 * k + 8 * unat j + lane a" by (simp only:)
    then show False using assms(2) l by simp
  qed
  have w: "vm_mem (wr (entry_ptr (T k) j) e s) (qword a) = vm_mem s (qword a)" if "k < 6" "j < 512" for k j e s
    using q [OF that] by (simp add: wr_def)
  have h: "vm_mem (huge_table (T k) f s) (qword a) = vm_mem s (qword a)" if "k < 6" for k f s
    unfolding huge_table_def
  proof (rule fill_table_other)
    fix i assume "i \<in> set [0..<512]"
    then have "(of_nat i :: u64) < 512" by (simp add: word_less_nat_alt unat_of_nat64)
    then show "entry_ptr (T k) (of_nat i) \<noteq> qword a" using q [OF that] by metis
  qed
  have z: "rd8 (wr_bytes (T 0) (6 * 4096) (\<lambda>_. 0) v) a = rd8 v a" using assms(2) by (simp add: rd8_wr_bytes T_def)
  have ix: "(0 :: u64) < 512" "(1 :: u64) < 512" "(2 :: u64) < 512" "(3 :: u64) < 512" "(0 :: nat) < 6" "(1 :: nat) < 6" "(2 :: nat) < 6"
    "(3 :: nat) < 6" "(4 :: nat) < 6" "(5 :: nat) < 6"
    by simp_all
  have "vm_mem (build_tables pt v) (qword a) = vm_mem (wr_bytes (T 0) (6 * 4096) (\<lambda>_. 0) v) (qword a)"
    unfolding build_tables_writes [OF T_def] by (simp only: h w ix)
  then show ?thesis unfolding z [symmetric] by (simp only: rd8_def)
qed

lemma screen_info_sel:
  "bi_magic (screen_info go bi) = bi_magic bi" "bi_kernel_phys_base (screen_info go bi) = bi_kernel_phys_base bi"
  "bi_kernel_size (screen_info go bi) = bi_kernel_size bi" "bi_efi_runtime_va (screen_info go bi) = bi_efi_runtime_va bi"
  "bi_boot_files (screen_info go bi) = bi_boot_files bi"
  by (simp_all add: screen_info_def Let_def split: option.split)

lemma FillMemoryMap_sel:
  "bi_magic (FillMemoryMap ds bi) = bi_magic bi" "bi_kernel_phys_base (FillMemoryMap ds bi) = bi_kernel_phys_base bi"
  "bi_kernel_size (FillMemoryMap ds bi) = bi_kernel_size bi" "bi_efi_runtime_va (FillMemoryMap ds bi) = bi_efi_runtime_va bi"
  "bi_boot_files (FillMemoryMap ds bi) = bi_boot_files bi"
  by (simp_all add: FillMemoryMap_def Let_def)

lemma EfiMain_parts:
  assumes "EfiMain fw v = Some (bi, entry, v')" "efi_kernel fw = Some img" "alloc_any (snd (efi_pages fw)) 6 = Some pt"
  obtains ke e w bi0 where
    "LoadElf (fst (efi_pages fw)) img v = Some (bi_kernel_phys_base bi, bi_kernel_phys_base bi + bi_kernel_size bi, e, w)"
    "v' = (build_tables pt w)\<lparr>vm_cr3 := pt\<rparr>" "entry = bi_kernel_phys_base bi" "bi_magic bi = BOOTINFO_MAGIC"
    "bi_efi_runtime_va bi = 0" "bi_boot_files bi = load_boot_files (efi_boot_dir fw) []"
    "ExitBoot (efi_exit fw) bi0 = Some bi"
proof -
  obtain kb ke e w where l: "LoadElf (fst (efi_pages fw)) img v = Some (kb, ke, e, w)"
    using assms(1,2) by (auto simp: EfiMain_def split: option.splits if_splits)
  define bi0 where "bi0 = (screen_info (efi_gop fw) (BootInfo0\<lparr>bi_magic := BOOTINFO_MAGIC, bi_kernel_phys_base := kb,
      bi_kernel_size := ke - kb, bi_rsdp_phys := FindRsdp (efi_tables fw), bi_initrd_phys := 0, bi_initrd_size := 0,
      bi_boot_files := []\<rparr>))\<lparr>bi_boot_files := load_boot_files (efi_boot_dir fw) []\<rparr>"
  have x: "ExitBoot (efi_exit fw) bi0 = Some bi" "entry = bi_kernel_phys_base bi" "v' = (build_tables pt w)\<lparr>vm_cr3 := pt\<rparr>"
    using assms by (auto simp: EfiMain_def l BuildPageTables_def bi0_def Let_def screen_info_sel case_prod_unfold
        split: option.splits if_splits)
  obtain m where m: "bi = FillMemoryMap m bi0" using ExitBoot_accepted [OF x(1)] by blast
  have s: "bi_kernel_phys_base bi = kb" "bi_kernel_size bi = ke - kb" "bi_magic bi = BOOTINFO_MAGIC" "bi_efi_runtime_va bi = 0"
    "bi_boot_files bi = load_boot_files (efi_boot_dir fw) []"
    by (simp_all add: m bi0_def FillMemoryMap_sel screen_info_sel BootInfo0_def)
  show thesis by (rule that [of e w bi0]) (use l x s in \<open>simp_all\<close>)
qed

lemma boot_state:
  assumes "EfiMain fw v = Some (bi, entry, v')" "efi_kernel fw = Some img" "\<forall>p\<in>set (load_phdrs img). segment_ok p"
    and "alloc_any (snd (efi_pages fw)) 6 = Some pt" "table_frames pt"
    and "\<forall>x. unat (x - bi_kernel_phys_base bi) < unat (bi_kernel_size bi) \<longrightarrow> \<not> unat (x - pt) < 6 * 4096"
  shows "unat (x - entry) < unat (bi_kernel_size bi) \<Longrightarrow> rd8 v' x = image_byte img (link_base img + (x - entry))"
    "V2P a (VMM_Init v') = (if take_bit 48 a < 2 ^ 32 then take_bit 48 a else 0)"
    "bi_magic bi = BOOTINFO_MAGIC"
    "\<exists>k<5. snd (efi_exit fw k) \<and> (\<forall>j<k. \<not> snd (efi_exit fw j))
      \<and> bi_memory_map bi = take BOOT_MEMORY_MAX (map boot_entry (fst (fst (efi_exit fw k))))"
proof -
  obtain ke e w bi0 where p: "LoadElf (fst (efi_pages fw)) img v = Some (bi_kernel_phys_base bi, bi_kernel_phys_base bi + bi_kernel_size bi, e, w)"
    "v' = (build_tables pt w)\<lparr>vm_cr3 := pt\<rparr>" "entry = bi_kernel_phys_base bi" "bi_magic bi = BOOTINFO_MAGIC"
    "ExitBoot (efi_exit fw) bi0 = Some bi"
    by (rule EfiMain_parts [OF assms(1,2,4)])
  show "bi_magic bi = BOOTINFO_MAGIC" by (rule p(4))
  show "V2P a (VMM_Init v') = (if take_bit 48 a < 2 ^ 32 then take_bit 48 a else 0)"
    unfolding p(2) by (rule boot_translation_all [OF assms(5)])
  show "\<exists>k<5. snd (efi_exit fw k) \<and> (\<forall>j<k. \<not> snd (efi_exit fw j))
      \<and> bi_memory_map bi = take BOOT_MEMORY_MAX (map boot_entry (fst (fst (efi_exit fw k))))"
    using ExitBoot_accepted [OF p(5)] by (auto simp: FillMemoryMap_def Let_def)
  assume x: "unat (x - entry) < unat (bi_kernel_size bi)"
  have "rd8 w x = image_byte img (link_base img + (x - entry))"
    using LoadElf_memory [OF p(1) assms(3), of x] x by (simp add: p(3))
  moreover have "rd8 v' x = rd8 w x"
    using build_tables_other [OF assms(5), of x w] assms(6) x by (simp add: p(2,3) rd8_def)
  ultimately show "rd8 v' x = image_byte img (link_base img + (x - entry))" by simp
qed

text \<open>The boot loader never tells the kernel where the runtime services are.\<close>
lemma EfiMain_no_runtime:
  assumes "EfiMain fw v = Some (bi, entry, v')"
  shows "bi_efi_runtime_va bi = 0"
proof -
  obtain img pt where "efi_kernel fw = Some img" "alloc_any (snd (efi_pages fw)) 6 = Some pt"
    using assms by (auto simp: EfiMain_def BuildPageTables_def case_prod_unfold Let_def split: option.splits if_splits)
  then show ?thesis using assms by (metis EfiMain_parts)
qed

section \<open>Properties\<close>

text \<open>A kernel of one segment of 3 bytes at 2 MB, followed by zeros up to 0x201800.\<close>
definition demo_elf :: blob where
  "demo_elf = (\<lambda>_. 0)(0 := 0x7F, 1 := 0x45, 2 := 0x4C, 3 := 0x46, 4 := 2, 18 := 0x3E, 26 := 0x20, 32 := 0x40, 56 := 1,
     64 := 1, 73 := 0x10, 90 := 0x20, 96 := 3, 105 := 0x18, 0x1000 := 0xAA, 0x1001 := 0xBB, 0x1002 := 0xCC)"

lemma demo_elf_header: "e_entry demo_elf = 0x200000" "e_phoff demo_elf = 64" "e_phnum demo_elf = 1" "elf_ok demo_elf"
  by (simp_all add: e_entry_def e_phoff_def e_phnum_def elf_ok_def EM_X86_64_def) (simp_all add: ld_defs demo_elf_def upt_rec)

lemma demo_elf_phdrs:
  "load_phdrs demo_elf = [\<lparr>p_type = 1, p_offset = 0x1000, p_paddr = 0x200000, p_filesz = 3, p_memsz = 0x1800\<rparr>]"
proof -
  have "phdr_at demo_elf 0 = \<lparr>p_type = 1, p_offset = 0x1000, p_paddr = 0x200000, p_filesz = 3, p_memsz = 0x1800\<rparr>"
    by (simp add: phdr_at_def Let_def demo_elf_header) (simp add: ld_defs demo_elf_def upt_rec)
  then show ?thesis by (simp add: load_phdrs_def demo_elf_header PT_LOAD_def)
qed

text \<open>A firmware with free pages where the kernel wants them, the page tables at 1 MB, and a map key that is stale once.\<close>
definition demo_fw :: efi where
  "demo_fw = \<lparr>efi_image = True, efi_pages = (\<lparr>alloc_at = \<lambda>_ _. True, alloc_any = \<lambda>_. None\<rparr>, \<lparr>alloc_at = \<lambda>_ _. False, alloc_any = \<lambda>_. Some 0x100000\<rparr>),
     efi_kernel = Some demo_elf, efi_initrd = None, efi_info_pool = True, efi_map_pool = True, efi_map = True,
     efi_tables = [], efi_gop = None, efi_boot_dir = [],
     efi_exit = (\<lambda>k. (([\<lparr>md_Type = 2, md_PhysicalStart = 0x200000, md_NumberOfPages = 2\<rparr>,
       \<lparr>md_Type = 7, md_PhysicalStart = 0x202000, md_NumberOfPages = 4\<rparr>], of_nat k), k = 1))\<rparr>"

definition demo_vm :: vmm where
  "demo_vm = \<lparr>vm_pmm = pmm_demo, vm_mem = \<lambda>_. 0xCCCCCCCCCCCCCCCC, vm_cr3 = 0, s_pml4_phys = 0, s_kvirt_next = 0\<rparr>"

lemma demo_link: "link_base demo_elf = 0x200000" "link_end demo_elf = 0x202000"
  by (simp_all add: link_base_def link_end_def demo_elf_phdrs widen_def Let_def)

lemma demo_boot: "\<exists>bi v'. EfiMain demo_fw demo_vm = Some (bi, 0x200000, v') \<and> bi_kernel_phys_base bi = 0x200000 \<and> bi_kernel_size bi = 0x2000"
proof -
  have "\<exists>w. LoadElf (fst (efi_pages demo_fw)) demo_elf demo_vm = Some (0x200000, 0x202000, 0x200000, w)"
    by (simp add: LoadElf_alt demo_link demo_elf_phdrs demo_elf_header widen_def Let_def demo_fw_def)
  then obtain w where w: "LoadElf (fst (efi_pages demo_fw)) demo_elf demo_vm = Some (0x200000, 0x202000, 0x200000, w)" ..
  have k: "efi_kernel demo_fw = Some demo_elf" "alloc_any (snd (efi_pages demo_fw)) 6 = Some 0x100000" by (simp_all add: demo_fw_def)
  obtain bi entry v' where E: "EfiMain demo_fw demo_vm = Some (bi, entry, v')"
  proof -
    have "ExitBoot (efi_exit demo_fw) bi0 \<noteq> None" for bi0 :: BootInfo
      unfolding ExitBoot_panic by (auto simp: demo_fw_def intro: exI [of _ 1])
    moreover have "efi_image demo_fw" "efi_info_pool demo_fw" "efi_map_pool demo_fw" "efi_map demo_fw"
      by (simp_all add: demo_fw_def)
    ultimately have "EfiMain demo_fw demo_vm \<noteq> None"
      by (simp add: EfiMain_def k w BuildPageTables_def Let_def case_prod_unfold split: option.split)
    then show thesis using that by auto
  qed
  have "entry = bi_kernel_phys_base bi \<and> bi_kernel_phys_base bi = 0x200000 \<and> bi_kernel_phys_base bi + bi_kernel_size bi = 0x202000"
    by (rule EfiMain_parts [OF E k]) (use w in auto)
  then show ?thesis using E by (auto simp: algebra_simps)
qed

text \<open>C3 (safety): What the kernel is entered with: its image stands byte for byte where the program headers put it (the rest zero), at
  the address that it is entered at; the page tables, built afterwards, did not overwrite it; its memory manager translates every
  address below 4 GB to itself and every other address of the 48-bit space to nothing (0), the bits above these 48 being ignored, as
  the processor walks them; the memory map is the one of the first attempt whose key the firmware accepted.\<close>
theorem boot_handover:
  assumes "EfiMain fw v = Some (bi, entry, v')" "efi_kernel fw = Some img" "\<forall>p\<in>set (load_phdrs img). segment_ok p"
    and "alloc_any (snd (efi_pages fw)) 6 = Some pt" "table_frames pt"
    and "\<forall>x. unat (x - bi_kernel_phys_base bi) < unat (bi_kernel_size bi) \<longrightarrow> \<not> unat (x - pt) < 6 * 4096"
  shows "(\<forall>x. unat (x - entry) < unat (bi_kernel_size bi) \<longrightarrow> rd8 v' x = image_byte img (link_base img + (x - entry)))
    \<and> (\<forall>a. V2P a (VMM_Init v') = (if take_bit 48 a < 2 ^ 32 then take_bit 48 a else 0))
    \<and> (\<exists>k<5. snd (efi_exit fw k) \<and> (\<forall>j<k. \<not> snd (efi_exit fw j))
        \<and> bi_memory_map bi = take BOOT_MEMORY_MAX (map boot_entry (fst (fst (efi_exit fw k)))))"
  using boot_state [OF assms] by blast

lemma boot_handover_witness:
  "\<exists>bi v'. EfiMain demo_fw demo_vm = Some (bi, 0x200000, v') \<and> rd8 v' 0x200001 = 0xBB \<and> rd8 v' 0x201234 = 0
    \<and> V2P 0xB8000 (VMM_Init v') = 0xB8000 \<and> V2P 0x100000000 (VMM_Init v') = 0"
proof -
  obtain bi v' where E: "EfiMain demo_fw demo_vm = Some (bi, 0x200000, v')" and b: "bi_kernel_phys_base bi = 0x200000" "bi_kernel_size bi = 0x2000"
    using demo_boot by blast
  have k: "efi_kernel demo_fw = Some demo_elf" "alloc_any (snd (efi_pages demo_fw)) 6 = Some 0x100000" by (simp_all add: demo_fw_def)
  have ok: "\<forall>p\<in>set (load_phdrs demo_elf). segment_ok p" by (simp add: demo_elf_phdrs segment_ok_def)
  have f: "table_frames 0x100000" by (simp add: table_frames_def)
  have d: "\<forall>x. unat (x - bi_kernel_phys_base bi) < unat (bi_kernel_size bi) \<longrightarrow> \<not> unat (x - 0x100000) < 6 * 4096"
  proof (intro allI impI)
    fix x :: u64 assume "unat (x - bi_kernel_phys_base bi) < unat (bi_kernel_size bi)"
    then have l: "unat (x - 0x200000) < 0x2000" by (simp add: b)
    have "x - 0x100000 = of_nat (unat (x - 0x200000) + 0x100000)" by simp
    moreover have "unat (of_nat (unat (x - 0x200000) + 0x100000) :: u64) = unat (x - 0x200000) + 0x100000"
      using l by (intro unat_of_nat64) simp
    ultimately show "\<not> unat (x - 0x100000) < 6 * 4096" by simp
  qed
  note H = boot_handover [OF E k(1) ok k(2) f d]
  have "rd8 v' 0x200001 = image_byte demo_elf 0x200001" "rd8 v' 0x201234 = image_byte demo_elf 0x201234"
    using H by (simp_all add: b demo_link)
  then have "rd8 v' 0x200001 = 0xBB" "rd8 v' 0x201234 = 0"
    by (simp_all add: image_byte_def demo_elf_phdrs covers_def) (simp_all add: demo_elf_def)
  moreover have "V2P 0xB8000 (VMM_Init v') = 0xB8000" "V2P 0x100000000 (VMM_Init v') = 0"
    using H by (simp_all add: take_bit_eq_mod)
  ultimately show ?thesis using E by blast
qed

text \<open>C4 (safety): The frames that the kernel gives out after Init are exactly those that the firmware marks as conventional or boot
  services memory (in the first 256 descriptors), outside the bitmap and the low 2 MB; so, when descriptors do not overlap, no frame
  of the loader's memory - the kernel image, the page tables, the boot files - is ever given out.\<close>
theorem boot_memory_kept:
  assumes "\<forall>d\<in>set ds. descriptor_ok d" "bi_magic b = BOOTINFO_MAGIC" "s_free_pages s = 0"
    and "d \<in> set ds" "\<not> usable_type (md_Type d)" "descriptor_page d p"
    and "\<forall>e\<in>set ds. e \<noteq> d \<longrightarrow> \<not> descriptor_page e p"
  shows "p \<notin> pmm_free (PMM_Init bm (Some (FillMemoryMap ds b)) s)
    \<and> pmm_free (PMM_Init bm (Some (FillMemoryMap ds b)) s) =
      {p. p < MAX_PAGES \<and> (\<exists>d\<in>set (take BOOT_MEMORY_MAX ds). usable_type (md_Type d) \<and> descriptor_page d p)}
      - set (bitmap_pages bm) - {..<LOW_PAGES}"
  using boot_free_frames [OF assms(1-3), of bm] assms(4-) by (auto dest: in_set_takeD)

lemma boot_memory_kept_witness:
  "513 \<notin> pmm_free (PMM_Init 0x300000 (Some (FillMemoryMap
      [\<lparr>md_Type = 2, md_PhysicalStart = 0x200000, md_NumberOfPages = 2\<rparr>, \<lparr>md_Type = 7, md_PhysicalStart = 0x202000, md_NumberOfPages = 4\<rparr>]
      \<lparr>bi_magic = BOOTINFO_MAGIC, bi_memory_entry_count = 0, bi_memory_map = []\<rparr>))
     \<lparr>s_bitmap = (\<lambda>_. 0), s_total_pages = 0, s_free_pages = 0, s_search_hint = 0\<rparr>)"
  by (rule conjunct1 [OF boot_memory_kept [where d = "\<lparr>md_Type = 2, md_PhysicalStart = 0x200000, md_NumberOfPages = 2\<rparr>"]])
    (simp_all add: descriptor_ok_def descriptor_page_def)

end
