(* ===== verification/RingBuffer.thy ===== *)
theory RingBuffer
  imports NtPrelude
begin

text \<open>The ring buffer of the PS/2 drivers (Push and TryRead of kernel/hal/x64/keyboard.cpp and
  kernel/hal/x64/mouse.cpp): a static array of 2 to the k slots with 32-bit head and tail
  indices masked by the array size minus one; one slot stays empty, and a push to a full ring is
  dropped.  The bounded FIFO queue it implements is the locale bounded_fifo.\<close>

section \<open>The code\<close>

record 'a ring =
  r_slots :: "'a list"
  r_head :: u32
  r_tail :: u32

definition ring_push :: "u32 \<Rightarrow> 'a \<Rightarrow> 'a ring \<Rightarrow> 'a ring" where
  "ring_push m x r =
    (let next = (r_tail r + 1) AND m in
     if next = r_head r then r
     else r\<lparr>r_slots := (r_slots r)[unat (r_tail r) := x], r_tail := next\<rparr>)"

definition ring_try_read :: "u32 \<Rightarrow> 'a ring \<Rightarrow> ('a \<times> 'a ring) option" where
  "ring_try_read m r =
    (if r_head r = r_tail r then None
     else Some (r_slots r ! unat (r_head r), r\<lparr>r_head := (r_head r + 1) AND m\<rparr>))"

definition ring_clear :: "'a ring \<Rightarrow> 'a ring" where
  "ring_clear r = r\<lparr>r_head := 0, r_tail := 0\<rparr>"

section \<open>The bounded FIFO interface\<close>

locale bounded_fifo =
  fixes push :: "'a \<Rightarrow> 's \<Rightarrow> 's"
    and try_read :: "'s \<Rightarrow> ('a \<times> 's) option"
    and ok :: "'s \<Rightarrow> bool"
    and contents :: "'s \<Rightarrow> 'a list"
    and cap :: nat
  assumes push_ok: "ok q \<Longrightarrow> ok (push x q)"
    and push_contents: "ok q \<Longrightarrow>
      contents (push x q) = (if length (contents q) < cap then contents q @ [x] else contents q)"
    and read_empty: "ok q \<Longrightarrow> contents q = [] \<Longrightarrow> try_read q = None"
    and read_cons: "ok q \<Longrightarrow> contents q = x # xs \<Longrightarrow>
      \<exists>q'. try_read q = Some (x, q') \<and> ok q' \<and> contents q' = xs"
    and contents_cap: "ok q \<Longrightarrow> length (contents q) \<le> cap"
begin

lemma pushes_ok: "ok q \<Longrightarrow> ok (fold push xs q)"
  by (induction xs arbitrary: q) (auto intro: push_ok)

text \<open>The oldest elements are kept, the newest are dropped.\<close>
lemma pushes_contents: "ok q \<Longrightarrow> contents (fold push xs q) = take cap (contents q @ xs)"
proof (induction xs arbitrary: q)
  case Nil
  then show ?case using contents_cap by simp
next
  case (Cons x xs)
  have "contents (fold push (x # xs) q) = take cap (contents (push x q) @ xs)"
    using Cons push_ok by simp
  then show ?case using push_contents [OF Cons.prems, of x] contents_cap [OF Cons.prems]
    by (auto simp: take_Cons' Suc_diff_Suc)
qed

text \<open>Reading until the queue is empty, with the number of reads bounded.\<close>
fun read_n :: "nat \<Rightarrow> 's \<Rightarrow> 'a list \<times> 's" where
  "read_n 0 q = ([], q)"
| "read_n (Suc n) q = (case try_read q of None \<Rightarrow> ([], q)
    | Some (x, q') \<Rightarrow> (let (xs, q'') = read_n n q' in (x # xs, q'')))"

lemma read_n_contents:
  "ok q \<Longrightarrow> fst (read_n n q) = take n (contents q) \<and> ok (snd (read_n n q))
     \<and> contents (snd (read_n n q)) = drop n (contents q)"
proof (induction n arbitrary: q)
  case (Suc n)
  show ?case
  proof (cases "contents q")
    case Nil
    then show ?thesis using read_empty Suc.prems by simp
  next
    case (Cons x xs)
    then obtain q' where q': "try_read q = Some (x, q')" "ok q'" "contents q' = xs"
      using read_cons Suc.prems by blast
    then show ?thesis using Suc.IH [OF q'(2)] Cons by (simp split: prod.split) (metis fst_conv snd_conv)
  qed
qed simp

lemma push_then_read:
  assumes "ok q" "length (contents q) + length xs \<le> cap"
  shows "fst (read_n (length (contents q) + length xs) (fold push xs q)) = contents q @ xs"
  using assms read_n_contents [OF pushes_ok [OF assms(1)]] pushes_contents [OF assms(1)] by simp

end

section \<open>The ring implements the queue\<close>

definition ring_ok :: "nat \<Rightarrow> 'a ring \<Rightarrow> bool" where
  "ring_ok k r \<longleftrightarrow> length (r_slots r) = 2^k \<and> unat (r_head r) < 2^k \<and> unat (r_tail r) < 2^k"

definition ring_count :: "nat \<Rightarrow> 'a ring \<Rightarrow> nat" where
  "ring_count k r = (unat (r_tail r) + 2^k - unat (r_head r)) mod 2^k"

definition ring_contents :: "nat \<Rightarrow> 'a ring \<Rightarrow> 'a list" where
  "ring_contents k r = map (\<lambda>i. r_slots r ! ((unat (r_head r) + i) mod 2^k)) [0..<ring_count k r]"

lemma ring_next: "k < 32 \<Longrightarrow> unat i < 2^k \<Longrightarrow> unat ((i + 1) AND mask k :: u32) = (unat i + 1) mod 2^k"
proof -
  assume k: "k < 32" and i: "unat i < 2^k"
  have "(2::nat)^k < 2^32" using k by (intro power_strict_increasing) auto
  then have "unat i + 1 < 2^32" using i by linarith
  then have "unat (i + 1) = unat i + 1" by (subst unat_add_lem [THEN iffD1]) auto
  then show ?thesis by (simp add: take_bit_eq_mask [symmetric] unsigned_take_bit_eq take_bit_nat_def)
qed

lemma ring_count_lt: "ring_count k r < 2^k"
  by (simp add: ring_count_def)

lemma ring_empty_iff: "ring_ok k r \<Longrightarrow> ring_contents k r = [] \<longleftrightarrow> r_head r = r_tail r"
proof -
  assume ok: "ring_ok k r"
  have "(t + n - h) mod n = 0 \<longleftrightarrow> h = t" if "h < n" "t < n" for h t n :: nat
    using that by (cases "h \<le> t") (auto simp: mod_if)
  from this [of "unat (r_head r)" "2^k" "unat (r_tail r)"] show ?thesis
    using ok by (auto simp: ring_ok_def ring_contents_def ring_count_def word_unat_eq_iff)
qed

lemma ring_dist:
  "h < n \<Longrightarrow> t < (n :: nat) \<Longrightarrow> (t + n - h) mod n = (if h \<le> t then t - h else t + n - h)"
  by (auto simp: mod_if)

lemma ring_succ: "t < (n :: nat) \<Longrightarrow> (t + 1) mod n = (if t + 1 = n then 0 else t + 1)"
  by auto

lemma ring_add: "h < (n :: nat) \<Longrightarrow> i < n \<Longrightarrow> (h + i) mod n = (if h + i < n then h + i else h + i - n)"
  by (auto simp: mod_if)

lemma ring_arith:
  assumes "h < n" "t < (n :: nat)"
  shows "((t + 1) mod n = h) = ((t + n - h) mod n = n - 1)"
    "(t + 1) mod n \<noteq> h \<Longrightarrow> ((t + 1) mod n + n - h) mod n = (t + n - h) mod n + 1"
    "(h + (t + n - h) mod n) mod n = t"
    "h \<noteq> t \<Longrightarrow> (t + n - (h + 1) mod n) mod n + 1 = (t + n - h) mod n"
    "i < (t + n - h) mod n \<Longrightarrow> (h + i) mod n \<noteq> t"
proof -
  have s: "(t + 1) mod n < n" "(h + 1) mod n < n" using assms by auto
  show "((t + 1) mod n = h) = ((t + n - h) mod n = n - 1)"
    unfolding ring_dist [OF assms] ring_succ [OF assms(2)] using assms by auto
  show "((t + 1) mod n + n - h) mod n = (t + n - h) mod n + 1" if "(t + 1) mod n \<noteq> h"
    using that assms unfolding ring_dist [OF assms] ring_dist [OF assms(1) s(1)]
    unfolding ring_succ [OF assms(2)] by (auto split: if_splits)
  have d: "(t + n - h) mod n < n" using assms by simp
  show "(h + (t + n - h) mod n) mod n = t"
    unfolding ring_add [OF assms(1) d] unfolding ring_dist [OF assms] using assms by auto
  show "(t + n - (h + 1) mod n) mod n + 1 = (t + n - h) mod n" if "h \<noteq> t"
    using that assms unfolding ring_dist [OF assms] ring_dist [OF s(2) assms(2)]
    unfolding ring_succ [OF assms(1)] by (auto split: if_splits)
  show "(h + i) mod n \<noteq> t" if i: "i < (t + n - h) mod n"
  proof -
    have "i < n" using i d by simp
    then show ?thesis unfolding ring_add [OF assms(1) \<open>i < n\<close>]
      using i assms unfolding ring_dist [OF assms] by (auto split: if_splits)
  qed
qed

lemma ring_full_iff:
  assumes "k < 32" "ring_ok k r"
  shows "(r_tail r + 1) AND mask k = r_head r \<longleftrightarrow> ring_count k r = 2^k - 1"
proof -
  have "unat ((r_tail r + 1) AND mask k) = (unat (r_tail r) + 1) mod 2^k"
    using assms ring_next by (auto simp: ring_ok_def)
  then show ?thesis
    using ring_arith(1) [of "unat (r_head r)" "2^k" "unat (r_tail r)"] assms(2)
    by (simp add: word_unat_eq_iff ring_ok_def ring_count_def)
qed

lemma ring_push_contents:
  assumes "k < 32" "ring_ok k r"
  shows "ring_ok k (ring_push (mask k) x r) \<and> ring_contents k (ring_push (mask k) x r) =
    (if length (ring_contents k r) < 2^k - 1 then ring_contents k r @ [x] else ring_contents k r)"
proof (cases "(r_tail r + 1) AND mask k = r_head r")
  case True
  then have "ring_count k r = 2^k - 1" using ring_full_iff [OF assms] by simp
  then show ?thesis using True assms by (simp add: ring_push_def ring_contents_def)
next
  case False
  let ?n = "2^k :: nat" and ?h = "unat (r_head r)" and ?t = "unat (r_tail r)" and ?r = "ring_push (mask k) x r"
  have ok: "length (r_slots r) = ?n" "?h < ?n" "?t < ?n" using assms(2) by (auto simp: ring_ok_def)
  have nx: "unat ((r_tail r + 1) AND mask k) = (?t + 1) mod ?n" using ring_next [OF assms(1) ok(3)] .
  have lt: "ring_count k r < ?n - 1"
    using False ring_full_iff [OF assms] ring_count_lt [of k r] by linarith
  have r': "?r = r\<lparr>r_slots := (r_slots r)[?t := x], r_tail := (r_tail r + 1) AND mask k\<rparr>"
    using False by (simp add: ring_push_def)
  have "(?t + 1) mod ?n \<noteq> ?h" using False nx by (metis word_unat_eq_iff)
  then have c: "ring_count k ?r = ring_count k r + 1"
    using ring_arith(2) [OF ok(2,3)] by (simp add: r' ring_count_def nx)
  have last: "(?h + ring_count k r) mod ?n = ?t"
    unfolding ring_count_def by (rule ring_arith(3) [OF ok(2,3)])
  have old: "(r_slots r)[?t := x] ! ((?h + i) mod ?n) = r_slots r ! ((?h + i) mod ?n)" if "i < ring_count k r" for i
    using ring_arith(5) [OF ok(2,3), of i] that by (simp add: ring_count_def nth_list_update)
  have "ring_contents k ?r = ring_contents k r @ [x]"
    unfolding ring_contents_def c using old last ok by (simp add: r')
  moreover have "ring_ok k ?r" using ok nx by (simp add: ring_ok_def r')
  ultimately show ?thesis using lt by (simp add: ring_contents_def)
qed

lemma ring_read_contents:
  assumes "k < 32" "ring_ok k r" "ring_contents k r = x # xs"
  shows "\<exists>r'. ring_try_read (mask k) r = Some (x, r') \<and> ring_ok k r' \<and> ring_contents k r' = xs"
proof -
  let ?n = "2^k :: nat" and ?h = "unat (r_head r)" and ?t = "unat (r_tail r)"
  let ?r = "r\<lparr>r_head := (r_head r + 1) AND mask k\<rparr>"
  have ok: "length (r_slots r) = ?n" "?h < ?n" "?t < ?n" using assms(2) by (auto simp: ring_ok_def)
  have ne: "r_head r \<noteq> r_tail r" using ring_empty_iff [OF assms(2)] assms(3) by simp
  have nx: "unat ((r_head r + 1) AND mask k) = (?h + 1) mod ?n" using ring_next [OF assms(1) ok(2)] .
  have c: "ring_count k ?r + 1 = ring_count k r"
    using ring_arith(4) [OF ok(2,3)] ne nx by (simp add: ring_count_def word_unat_eq_iff)
  have "ring_contents k r = r_slots r ! (?h mod ?n) # ring_contents k ?r"
    unfolding ring_contents_def c [symmetric] Suc_eq_plus1 [symmetric] map_upt_Suc
    by (simp add: nx mod_add_left_eq)
  then show ?thesis
    using assms(3) ne ok nx by (simp add: ring_try_read_def ring_ok_def)
qed

end
