(* ===== verification/Mouse.thy ===== *)
theory Mouse
  imports RingBuffer
begin

text \<open>The PS/2 mouse driver, kernel/hal/x64/mouse.cpp: three-byte packets, the pointer position and
  a ring of 32 slots.  The bytes the interrupt handler reads from the ports and the framebuffer
  size are arguments; the controller of Init is a parameter (inb, outb).  Positions are
  integers: they start inside the screen and move by at most 128 before they are clamped, so
  the 32-bit sums of the code do not overflow.  Log output is left out.\<close>

section \<open>State\<close>

record Packet =
  DeltaX :: int
  DeltaY :: int
  BtnLeft :: bool
  BtnRight :: bool
  BtnMiddle :: bool

record mouse =
  ms_ring :: "Packet ring"
  s_packet :: "u8 list"
  s_packet_index :: nat
  s_x :: int
  s_y :: int
  s_ready :: bool
  s_cursor :: "(u32 \<times> u32) option"

text \<open>The field s\_cursor holds the arguments of the last call of VGA::MoveMouseCursor.\<close>

section \<open>The controller protocol\<close>

definition PS2_DATA :: u16 where "PS2_DATA = 0x60"
definition PS2_STATUS :: u16 where "PS2_STATUS = 0x64"
definition PS2_COMMAND :: u16 where "PS2_COMMAND = 0x64"

type_synonym 'h inb = "u16 \<Rightarrow> 'h \<Rightarrow> u8 \<times> 'h"
type_synonym 'h outb = "u16 \<Rightarrow> u8 \<Rightarrow> 'h \<Rightarrow> 'h"

text \<open>Polling loops with their bound of 100000 reads.\<close>
primrec poll :: "nat \<Rightarrow> (u8 \<Rightarrow> bool) \<Rightarrow> 'h inb \<Rightarrow> 'h \<Rightarrow> bool \<times> 'h" where
  "poll 0 p inb h = (False, h)"
| "poll (Suc n) p inb h = (let (v, h) = inb PS2_STATUS h in if p v then (True, h) else poll n p inb h)"

definition WaitInputClear :: "'h inb \<Rightarrow> 'h \<Rightarrow> bool \<times> 'h" where
  "WaitInputClear inb h = poll 100000 (\<lambda>v. v AND 0x02 = 0) inb h"

definition WaitOutputFull :: "'h inb \<Rightarrow> 'h \<Rightarrow> bool \<times> 'h" where
  "WaitOutputFull inb h = poll 100000 (\<lambda>v. v AND 0x01 \<noteq> 0) inb h"

definition WriteController :: "'h inb \<Rightarrow> 'h outb \<Rightarrow> u8 \<Rightarrow> 'h \<Rightarrow> bool \<times> 'h" where
  "WriteController inb outb command h =
    (let (b, h) = WaitInputClear inb h in if \<not> b then (False, h) else (True, outb PS2_COMMAND command h))"

definition WriteData :: "'h inb \<Rightarrow> 'h outb \<Rightarrow> u8 \<Rightarrow> 'h \<Rightarrow> bool \<times> 'h" where
  "WriteData inb outb v h =
    (let (b, h) = WaitInputClear inb h in if \<not> b then (False, h) else (True, outb PS2_DATA v h))"

definition ReadData :: "'h inb \<Rightarrow> 'h \<Rightarrow> u8 option \<times> 'h" where
  "ReadData inb h =
    (let (b, h) = WaitOutputFull inb h in if \<not> b then (None, h)
     else let (v, h) = inb PS2_DATA h in (Some v, h))"

definition WriteMouse :: "'h inb \<Rightarrow> 'h outb \<Rightarrow> u8 \<Rightarrow> 'h \<Rightarrow> bool \<times> 'h" where
  "WriteMouse inb outb command h =
    (let (b, h) = WriteController inb outb 0xD4 h in if \<not> b then (False, h) else
     let (b, h) = WriteData inb outb command h in if \<not> b then (False, h) else
     let (ack, h) = ReadData inb h in
     case ack of None \<Rightarrow> (False, h) | Some a \<Rightarrow> (a = 0xFA, h))"

text \<open>Draining stale bytes ends only when the controller reports an empty output buffer.\<close>
partial_function (option) drain :: "'h inb \<Rightarrow> 'h \<Rightarrow> 'h option" where
  "drain inb h =
    (case inb PS2_STATUS h of (v, h) \<Rightarrow>
       if v AND 0x01 \<noteq> 0 then (case inb PS2_DATA h of (_, h) \<Rightarrow> drain inb h) else Some h)"

definition Mouse_reset :: "mouse \<Rightarrow> mouse" where
  "Mouse_reset m = m\<lparr>ms_ring := ring_clear (ms_ring m), s_packet_index := 0, s_x := 1700, s_y := 560,
     s_ready := False\<rparr>"

definition Mouse_setup :: "'h inb \<Rightarrow> 'h outb \<Rightarrow> 'h \<Rightarrow> bool \<times> 'h" where
  "Mouse_setup inb outb h =
    (let (b, h) = WriteController inb outb 0xA8 h in if \<not> b then (False, h) else
     let (b, h) = WriteController inb outb 0x20 h in if \<not> b then (False, h) else
     let (c, h) = ReadData inb h in
     case c of None \<Rightarrow> (False, h) | Some config \<Rightarrow>
     let config = (config OR 0x02) AND NOT 0x20;
         (b, h) = WriteController inb outb 0x60 h in if \<not> b then (False, h) else
     let (b, h) = WriteData inb outb config h in if \<not> b then (False, h) else
     let (b, h) = WriteMouse inb outb 0xF6 h in if \<not> b then (False, h) else
     WriteMouse inb outb 0xF4 h)"

definition Mouse_Init :: "'h inb \<Rightarrow> 'h outb \<Rightarrow> mouse \<Rightarrow> 'h \<Rightarrow> (mouse \<times> 'h) option" where
  "Mouse_Init inb outb m h =
    (case drain inb h of None \<Rightarrow> None
     | Some h \<Rightarrow> (let (b, h) = Mouse_setup inb outb h in
         Some (if b then (Mouse_reset m)\<lparr>s_ready := True\<rparr> else Mouse_reset m, h)))"

section \<open>Packets\<close>

definition Mouse_Push :: "Packet \<Rightarrow> mouse \<Rightarrow> mouse" where
  "Mouse_Push p m = m\<lparr>ms_ring := ring_push 31 p (ms_ring m)\<rparr>"

text \<open>The largest position: the framebuffer less the cursor, or the default without one.\<close>
definition max_pos :: "(u32 \<times> u32) option \<Rightarrow> int \<times> int" where
  "max_pos fb = (case fb of None \<Rightarrow> (1896, 1048)
     | Some (w, h) \<Rightarrow> (if w > 24 then sint w - 24 else 0, if h > 32 then sint h - 32 else 0))"

definition clamp :: "int \<Rightarrow> int \<Rightarrow> int" where
  "clamp hi v = (let v = (if v < 0 then 0 else v) in if v > hi then hi else v)"

definition packet_of :: "u8 list \<Rightarrow> Packet" where
  "packet_of b = \<lparr>DeltaX = sint (b ! 1), DeltaY = sint (b ! 2), BtnLeft = (b ! 0 AND 0x01 \<noteq> 0),
     BtnRight = (b ! 0 AND 0x02 \<noteq> 0), BtnMiddle = (b ! 0 AND 0x04 \<noteq> 0)\<rparr>"

definition ApplyPacket :: "(u32 \<times> u32) option \<Rightarrow> mouse \<Rightarrow> mouse" where
  "ApplyPacket fb m =
    (let p = packet_of (s_packet m);
         (mx, my) = max_pos fb;
         x = clamp mx (s_x m + DeltaX p); y = clamp my (s_y m - DeltaY p);
         m = Mouse_Push p (m\<lparr>s_x := x, s_y := y\<rparr>)
     in m\<lparr>s_cursor := Some (of_int x, of_int y)\<rparr>)"

text \<open>One interrupt: the status byte, the data byte (read only when one is pending) and the
  framebuffer at that moment.\<close>
definition Mouse_HandleIrq :: "u8 \<Rightarrow> u8 \<Rightarrow> (u32 \<times> u32) option \<Rightarrow> mouse \<Rightarrow> mouse" where
  "Mouse_HandleIrq status data fb m =
    (if status AND 0x01 = 0 then m else
     if s_packet_index m = 0 \<and> data AND 0x08 = 0 then m else
     let m = m\<lparr>s_packet := (s_packet m)[s_packet_index m := data], s_packet_index := s_packet_index m + 1\<rparr> in
     if s_packet_index m = 3 then ApplyPacket fb (m\<lparr>s_packet_index := 0\<rparr>) else m)"

definition Mouse_IsReady :: "mouse \<Rightarrow> bool" where "Mouse_IsReady m = s_ready m"

definition Mouse_TryRead :: "mouse \<Rightarrow> (Packet \<times> mouse) option" where
  "Mouse_TryRead m = (case ring_try_read 31 (ms_ring m) of None \<Rightarrow> None
     | Some (p, r) \<Rightarrow> Some (p, m\<lparr>ms_ring := r\<rparr>))"

definition Mouse_CurrentPosition :: "mouse \<Rightarrow> (int \<times> int) option" where
  "Mouse_CurrentPosition m = (if \<not> s_ready m then None else Some (s_x m, s_y m))"

section \<open>The ring of the driver\<close>

definition ms_ok :: "mouse \<Rightarrow> bool" where
  "ms_ok m \<longleftrightarrow> ring_ok 5 (ms_ring m) \<and> length (s_packet m) = 3 \<and> s_packet_index m < 3"

definition ms_packets :: "mouse \<Rightarrow> Packet list" where "ms_packets m = ring_contents 5 (ms_ring m)"

lemma mask5: "(31 :: u32) = mask 5" by (simp add: mask_eq_exp_minus_1)

interpretation ms: bounded_fifo Mouse_Push Mouse_TryRead ms_ok ms_packets 31
proof unfold_locales
  fix q :: mouse and x xs
  assume ok: "ms_ok q"
  note r = ring_push_contents [of 5 "ms_ring q" x, folded mask5]
  show "ms_ok (Mouse_Push x q)" using r ok by (simp add: ms_ok_def Mouse_Push_def)
  show "ms_packets (Mouse_Push x q) = (if length (ms_packets q) < 31 then ms_packets q @ [x] else ms_packets q)"
    using r ok by (simp add: ms_ok_def ms_packets_def Mouse_Push_def)
  show "Mouse_TryRead q = None" if "ms_packets q = []"
    using that ring_empty_iff [of 5 "ms_ring q"] ok
    by (simp add: Mouse_TryRead_def ms_ok_def ms_packets_def ring_try_read_def)
  show "\<exists>q'. Mouse_TryRead q = Some (x, q') \<and> ms_ok q' \<and> ms_packets q' = xs" if "ms_packets q = x # xs"
    using that ring_read_contents [of 5 "ms_ring q" x xs, folded mask5] ok
    by (auto simp: Mouse_TryRead_def ms_ok_def ms_packets_def)
  show "length (ms_packets q) \<le> 31"
    using ring_count_lt [of 5 "ms_ring q"] by (simp add: ms_packets_def ring_contents_def)
qed

section \<open>The byte stream\<close>

text \<open>The packets in a stream of data bytes, given the bytes of the packet that has begun.  A packet
  starts at a byte with bit 3 set; other bytes are skipped until then.\<close>
fun parse :: "u8 list \<Rightarrow> u8 list \<Rightarrow> Packet list" where
  "parse pend [] = []"
| "parse pend (b # bs) =
    (if pend = [] \<and> b AND 0x08 = 0 then parse [] bs
     else if length pend = 2 then packet_of (pend @ [b]) # parse [] bs
     else parse (pend @ [b]) bs)"

definition pending :: "mouse \<Rightarrow> u8 list" where
  "pending m = take (s_packet_index m) (s_packet m)"

definition in_screen :: "(u32 \<times> u32) option \<Rightarrow> mouse \<Rightarrow> bool" where
  "in_screen fb m \<longleftrightarrow> 0 \<le> s_x m \<and> s_x m \<le> fst (max_pos fb) \<and> 0 \<le> s_y m \<and> s_y m \<le> snd (max_pos fb)"

lemma take_Suc_update: "i < length xs \<Longrightarrow> take (Suc i) (xs[i := x]) = take i xs @ [x]"
  by (simp add: take_Suc_conv_app_nth)

lemma ApplyPacket_ring:
  assumes "ms_ok m"
  shows "ms_ok (ApplyPacket fb m)" "pending (ApplyPacket fb m) = pending m"
    "ms_packets (ApplyPacket fb m) = take 31 (ms_packets m @ [packet_of (s_packet m)])"
proof -
  have eq: "ms_ok (m\<lparr>s_x := x, s_y := y\<rparr>)" "ms_packets (m\<lparr>s_x := x, s_y := y\<rparr>) = ms_packets m" for x y
    using assms by (simp_all add: ms_ok_def ms_packets_def)
  have cur: "ms_ok (m'\<lparr>s_cursor := c\<rparr>) = ms_ok m'" "ms_packets (m'\<lparr>s_cursor := c\<rparr>) = ms_packets m'" for m' c
    by (simp_all add: ms_ok_def ms_packets_def)
  show "ms_ok (ApplyPacket fb m)"
    using ms.push_ok [OF eq(1)] by (simp add: ApplyPacket_def Let_def cur split: prod.split)
  show "pending (ApplyPacket fb m) = pending m"
    by (simp add: ApplyPacket_def Let_def pending_def Mouse_Push_def split: prod.split)
  show "ms_packets (ApplyPacket fb m) = take 31 (ms_packets m @ [packet_of (s_packet m)])"
    using ms.push_contents [OF eq(1)] ms.contents_cap [OF assms] eq(2)
    by (auto simp: ApplyPacket_def Let_def cur split: prod.split)
qed

lemma Mouse_HandleIrq_step:
  assumes ok: "ms_ok m" and st: "status AND 0x01 \<noteq> 0"
    and m'_def: "m' = Mouse_HandleIrq status b fb m" and pd_def: "pd = pending m"
  shows "ms_ok m'"
    "pending m' = (if pd = [] \<and> b AND 0x08 = 0 then [] else if length pd = 2 then [] else pd @ [b])"
    "ms_packets m' = (if length pd = 2 then take 31 (ms_packets m @ [packet_of (pd @ [b])]) else ms_packets m)"
proof -
  let ?i = "s_packet_index m"
  have i: "?i < 3" "length (s_packet m) = 3" using ok by (simp_all add: ms_ok_def)
  have len: "length pd = ?i" using i by (simp add: pd_def pending_def)
  let ?m1 = "m\<lparr>s_packet := (s_packet m)[?i := b], s_packet_index := ?i + 1\<rparr>"
  let ?m2 = "m\<lparr>s_packet := (s_packet m)[?i := b], s_packet_index := 0\<rparr>"
  have ok2: "ms_ok ?m2" "ms_packets ?m2 = ms_packets m" "pending ?m2 = []"
    using ok by (simp_all add: ms_ok_def ms_packets_def pending_def)
  consider (skip) "?i = 0" "b AND 0x08 = 0" | (part) "\<not> (?i = 0 \<and> b AND 0x08 = 0)" "?i < 2"
    | (full) "?i = 2" using i by linarith
  then have "ms_ok m' \<and>
    pending m' = (if pd = [] \<and> b AND 0x08 = 0 then [] else if length pd = 2 then [] else pd @ [b]) \<and>
    ms_packets m' = (if length pd = 2 then take 31 (ms_packets m @ [packet_of (pd @ [b])]) else ms_packets m)"
  proof cases
    case skip
    then have "m' = m" using st by (simp add: m'_def Mouse_HandleIrq_def)
    then show ?thesis using skip len ok by (simp add: pd_def)
  next
    case part
    then have m': "m' = ?m1" using st by (auto simp: m'_def Mouse_HandleIrq_def Let_def)
    have "pending ?m1 = pd @ [b]" using i take_Suc_update [of ?i "s_packet m" b] by (simp add: pending_def pd_def)
    moreover have "ms_ok ?m1" "ms_packets ?m1 = ms_packets m" using ok part by (simp_all add: ms_ok_def ms_packets_def)
    ultimately show ?thesis using part len unfolding m' by auto
  next
    case full
    then have m': "m' = ApplyPacket fb ?m2" using st by (simp add: m'_def Mouse_HandleIrq_def Let_def)
    have "(s_packet m)[?i := b] = pd @ [b]"
      using take_Suc_update [of ?i "s_packet m" b] i full by (simp add: pending_def pd_def)
    then have "packet_of (s_packet ?m2) = packet_of (pd @ [b])" by simp
    then show ?thesis using ApplyPacket_ring [OF ok2(1), of fb] ok2 full len unfolding m' by auto
  qed
  then show "ms_ok m'"
    "pending m' = (if pd = [] \<and> b AND 0x08 = 0 then [] else if length pd = 2 then [] else pd @ [b])"
    "ms_packets m' = (if length pd = 2 then take 31 (ms_packets m @ [packet_of (pd @ [b])]) else ms_packets m)"
    by blast+
qed

type_synonym mouse_event = "u8 \<times> u8 \<times> (u32 \<times> u32) option"

definition mouse_irq :: "mouse_event \<Rightarrow> mouse \<Rightarrow> mouse" where
  "mouse_irq e m = (case e of (status, data, fb) \<Rightarrow> Mouse_HandleIrq status data fb m)"

definition data_bytes :: "mouse_event list \<Rightarrow> u8 list" where
  "data_bytes es = map (fst \<circ> snd) (filter (\<lambda>e. fst e AND 0x01 \<noteq> 0) es)"

section \<open>Correctness of the mouse driver\<close>

definition mouse_demo :: mouse where
  "mouse_demo = \<lparr>ms_ring = \<lparr>r_slots = replicate 32 \<lparr>DeltaX = 0, DeltaY = 0, BtnLeft = False, BtnRight = False, BtnMiddle = False\<rparr>,
     r_head = 30, r_tail = 30\<rparr>, s_packet = [0, 0, 0], s_packet_index = 0, s_x = 1700, s_y = 560,
     s_ready = True, s_cursor = None\<rparr>"

lemma mouse_demo_ok: "ms_ok mouse_demo" "ms_packets mouse_demo = []" "pending mouse_demo = []"
  by (simp_all add: ms_ok_def ms_packets_def pending_def mouse_demo_def ring_ok_def ring_contents_def ring_count_def)

text \<open>Whatever the interrupts deliver, the queued packets are those the byte stream
  contains, in order and after those already queued (the oldest 31 are kept); bytes that arrive
  out of synchronisation are skipped.\<close>
theorem mouse_stream:
  assumes "ms_ok m"
  shows "ms_ok (fold mouse_irq es m)
    \<and> ms_packets (fold mouse_irq es m) = take 31 (ms_packets m @ parse (pending m) (data_bytes es))"
  using assms
proof (induction es arbitrary: m)
  case Nil
  then show ?case using ms.contents_cap by (simp add: data_bytes_def)
next
  case (Cons e es)
  obtain st b fb where e: "e = (st, b, fb)" by (cases e) auto
  show ?case
  proof (cases "st AND 0x01 = 0")
    case True
    then show ?thesis using Cons by (simp add: e mouse_irq_def Mouse_HandleIrq_def data_bytes_def)
  next
    case False
    note S = Mouse_HandleIrq_step [OF Cons.prems False refl refl, of b fb]
    have d: "data_bytes (e # es) = b # data_bytes es" using False by (simp add: data_bytes_def e)
    have q: "mouse_irq e m = Mouse_HandleIrq st b fb m" by (simp add: e mouse_irq_def)
    show ?thesis
      using Cons.IH [OF S(1)] ms.contents_cap [OF Cons.prems]
      by (simp add: d q S(2,3) take_take_append del: take_append split: if_splits)
  qed
qed

lemma mouse_stream_witness:
  "map DeltaX (ms_packets (fold mouse_irq [(1, 0x00, None), (1, 0x09, None), (0, 0x55, None), (1, 0xFF, None),
      (1, 0x02, None), (1, 0x08, None)] mouse_demo)) = [-1]"
  using mouse_stream [OF mouse_demo_ok(1), of "[(1, 0x00, None), (1, 0x09, None), (0, 0x55, None), (1, 0xFF, None),
      (1, 0x02, None), (1, 0x08, None)]"]
  by (simp add: mouse_demo_ok(2,3) data_bytes_def packet_of_def)

text \<open>After every packet the pointer is inside the framebuffer, less the cursor size, it
  has moved by the packet's deltas where that stays inside, and it is drawn at its position.\<close>
theorem ApplyPacket_in_screen:
  assumes "fb = Some (w, h)" "unat w < 2^31" "unat h < 2^31"
  shows "in_screen fb (ApplyPacket fb m)
    \<and> s_cursor (ApplyPacket fb m) = Some (of_int (s_x (ApplyPacket fb m)), of_int (s_y (ApplyPacket fb m)))
    \<and> (0 \<le> s_x m + DeltaX (packet_of (s_packet m)) \<and> s_x m + DeltaX (packet_of (s_packet m)) \<le> int (unat w) - 24
        \<longrightarrow> s_x (ApplyPacket fb m) = s_x m + DeltaX (packet_of (s_packet m)))
    \<and> (0 \<le> s_y m - DeltaY (packet_of (s_packet m)) \<and> s_y m - DeltaY (packet_of (s_packet m)) \<le> int (unat h) - 32
        \<longrightarrow> s_y (ApplyPacket fb m) = s_y m - DeltaY (packet_of (s_packet m)))"
proof -
  have si: "sint v = int (unat v)" if "unat v < 2^31" for v :: u32
  proof -
    have "int (unat v) < int (2^31)" using that by (simp only: of_nat_less_iff)
    then have "uint v < 2^31" by simp
    moreover have "- (2^31) \<le> uint v" by (rule order_trans [OF _ uint_ge_0]) simp
    ultimately show ?thesis by (simp add: sint_uint signed_take_bit_int_eq_self)
  qed
  have mx: "max_pos fb = (if unat w > 24 then int (unat w) - 24 else 0, if unat h > 32 then int (unat h) - 32 else 0)"
    using assms si by (simp add: max_pos_def word_less_nat_alt)
  have c: "0 \<le> clamp hi v \<and> clamp hi v \<le> hi" if "0 \<le> hi" for hi v using that by (simp add: clamp_def)
  have sel: "s_x (ApplyPacket fb m) = clamp (fst (max_pos fb)) (s_x m + DeltaX (packet_of (s_packet m)))"
    "s_y (ApplyPacket fb m) = clamp (snd (max_pos fb)) (s_y m - DeltaY (packet_of (s_packet m)))"
    "s_cursor (ApplyPacket fb m) = Some (of_int (s_x (ApplyPacket fb m)), of_int (s_y (ApplyPacket fb m)))"
    by (simp_all add: ApplyPacket_def Mouse_Push_def Let_def split: prod.split)
  have big: "int k \<le> uint v" if "k < unat v" for k and v :: u32
  proof -
    have "int k < int (unat v)" using that by (simp only: of_nat_less_iff)
    then show ?thesis by simp
  qed
  have "0 \<le> fst (max_pos fb)" "0 \<le> snd (max_pos fb)" using big [of 24 w] big [of 32 h] by (auto simp: mx)
  then have "in_screen fb (ApplyPacket fb m)" unfolding in_screen_def sel by (intro conjI) (auto dest: c)
  moreover have small: "uint v \<le> int k" if "\<not> k < unat v" for k and v :: u32
  proof -
    have "int (unat v) \<le> int k" using that by (simp only: of_nat_le_iff not_less)
    then show ?thesis by simp
  qed
  have "int (unat w) - 24 \<le> fst (max_pos fb)" "int (unat h) - 32 \<le> snd (max_pos fb)"
    using small [of 24 w] small [of 32 h] by (auto simp: mx)
  moreover have "clamp hi v = v" if "0 \<le> v" "v \<le> hi" for hi v using that by (simp add: clamp_def)
  ultimately show ?thesis using sel(3) unfolding sel(1,2) by (meson order_trans)
qed

lemma ApplyPacket_in_screen_witness:
  "s_x (ApplyPacket (Some (1024, 768)) (mouse_demo\<lparr>s_packet := [0x08, 0x7F, 0x01]\<rparr>)) \<le> 1000"
  using ApplyPacket_in_screen [OF refl, of 1024 768 "mouse_demo\<lparr>s_packet := [0x08, 0x7F, 0x01]\<rparr>"]
  by (simp add: in_screen_def max_pos_def)

end
