(* ===== verification/Keyboard.thy ===== *)
theory Keyboard
  imports RingBuffer
begin

text \<open>The PS/2 keyboard driver, kernel/hal/x64/keyboard.cpp: scan codes of set 1 become
  characters in a ring of 128 slots.  The byte read from port 0x60 is an argument of the
  interrupt handler; the draining of stale bytes in Init has no effect on the state.\<close>

section \<open>The code\<close>

definition s_lo :: "char list" where
  "s_lo = [CHR 0x00, CHR 0x00] @ ''1234567890-='' @ [CHR 0x08, CHR 0x09]
     @ ''qwertyuiop[]'' @ [CHR 0x0A, CHR 0x00] @ ''as''
     @ ''dfghjkl;'' @ [CHR 0x27, CHR 0x60, CHR 0x00, CHR 0x5C] @ ''zxcv''
     @ ''bnm,./'' @ [CHR 0x00] @ ''*'' @ [CHR 0x00] @ '' '' @ replicate 6 (CHR 0x00)
     @ replicate 7 (CHR 0x00) @ ''789-456+1''
     @ ''230.'' @ replicate 12 (CHR 0x00) @ replicate 32 (CHR 0x00)"

definition s_hi :: "char list" where
  "s_hi = [CHR 0x00, CHR 0x00] @ ''!@#$%^&*()_+'' @ [CHR 0x08, CHR 0x09]
     @ ''QWERTYUIOP{}'' @ [CHR 0x0A, CHR 0x00] @ ''AS''
     @ ''DFGHJKL:'' @ [CHR 0x22, CHR 0x7E, CHR 0x00, CHR 0x7C] @ ''ZXCV''
     @ ''BNM<>?'' @ [CHR 0x00] @ ''*'' @ [CHR 0x00] @ '' '' @ replicate 6 (CHR 0x00)
     @ replicate 7 (CHR 0x00) @ ''789-456+1''
     @ ''230.'' @ replicate 12 (CHR 0x00) @ replicate 32 (CHR 0x00)"

definition KEY_UP :: char where "KEY_UP = CHR 0x10"
definition KEY_DOWN :: char where "KEY_DOWN = CHR 0x11"
definition KEY_LEFT :: char where "KEY_LEFT = CHR 0x12"
definition KEY_RIGHT :: char where "KEY_RIGHT = CHR 0x13"

record kbd =
  kb_ring :: "char ring"
  s_shift :: bool
  s_capslock :: bool
  s_ext :: bool

definition KB_Push :: "char \<Rightarrow> kbd \<Rightarrow> kbd" where
  "KB_Push c k = k\<lparr>kb_ring := ring_push 127 c (kb_ring k)\<rparr>"

definition KB_HandleIrq :: "u8 \<Rightarrow> kbd \<Rightarrow> kbd" where
  "KB_HandleIrq sc k =
    (if sc = 0xE0 then k\<lparr>s_ext := True\<rparr> else
     let released = (sc AND 0x80 \<noteq> 0); make = sc AND 0x7F in
     if s_ext k then
       (let k = k\<lparr>s_ext := False\<rparr> in
        if \<not> released then
          (if make = 0x48 then KB_Push KEY_UP k
           else if make = 0x50 then KB_Push KEY_DOWN k
           else if make = 0x4B then KB_Push KEY_LEFT k
           else if make = 0x4D then KB_Push KEY_RIGHT k else k)
        else k)
     else if make = 0x2A \<or> make = 0x36 then k\<lparr>s_shift := \<not> released\<rparr>
     else if make = 0x3A \<and> \<not> released then k\<lparr>s_capslock := \<not> s_capslock k\<rparr>
     else if released then k
     else
       (let lo = s_lo ! unat make;
            letter = (CHR ''a'' \<le> lo \<and> lo \<le> CHR ''z'');
            use_hi = (if letter then s_shift k \<noteq> s_capslock k else s_shift k);
            c = (if use_hi then s_hi ! unat make else s_lo ! unat make)
        in if c \<noteq> CHR 0x00 then KB_Push c k else k))"

definition KB_TryRead :: "kbd \<Rightarrow> (char \<times> kbd) option" where
  "KB_TryRead k = (case ring_try_read 127 (kb_ring k) of None \<Rightarrow> None
     | Some (c, r) \<Rightarrow> Some (c, k\<lparr>kb_ring := r\<rparr>))"

definition KB_Init :: "kbd \<Rightarrow> kbd" where
  "KB_Init k = k\<lparr>kb_ring := ring_clear (kb_ring k), s_shift := False, s_capslock := False, s_ext := False\<rparr>"

section \<open>The ring of the driver\<close>

definition kb_ok :: "kbd \<Rightarrow> bool" where "kb_ok k \<longleftrightarrow> ring_ok 7 (kb_ring k)"
definition kb_chars :: "kbd \<Rightarrow> char list" where "kb_chars k = ring_contents 7 (kb_ring k)"

lemma mask7: "(127 :: u32) = mask 7" by (simp add: mask_eq_exp_minus_1)

interpretation kb: bounded_fifo KB_Push KB_TryRead kb_ok kb_chars 127
proof unfold_locales
  fix q :: kbd and x xs
  assume ok: "kb_ok q"
  note r = ring_push_contents [of 7 "kb_ring q" x, folded mask7]
  show "kb_ok (KB_Push x q)" using r ok by (simp add: kb_ok_def KB_Push_def)
  show "kb_chars (KB_Push x q) = (if length (kb_chars q) < 127 then kb_chars q @ [x] else kb_chars q)"
    using r ok by (simp add: kb_ok_def kb_chars_def KB_Push_def)
  show "KB_TryRead q = None" if "kb_chars q = []"
    using that ring_empty_iff [of 7 "kb_ring q"] ok
    by (simp add: KB_TryRead_def kb_ok_def kb_chars_def ring_try_read_def)
  show "\<exists>q'. KB_TryRead q = Some (x, q') \<and> kb_ok q' \<and> kb_chars q' = xs" if "kb_chars q = x # xs"
    using that ring_read_contents [of 7 "kb_ring q" x xs, folded mask7] ok
    by (auto simp: KB_TryRead_def kb_ok_def kb_chars_def)
  show "length (kb_chars q) \<le> 127"
    using ring_count_lt [of 7 "kb_ring q"] by (simp add: kb_chars_def ring_contents_def)
qed

section \<open>The decoder\<close>

text \<open>The translation of one scan code, without the ring: the new modifier state (shift, caps lock,
  extended prefix) and the character, if any.\<close>

definition decode :: "u8 \<Rightarrow> bool \<times> bool \<times> bool \<Rightarrow> (bool \<times> bool \<times> bool) \<times> char list" where
  "decode sc st = (case st of (sh, caps, ext) \<Rightarrow>
     if sc = 0xE0 then ((sh, caps, True), [])
     else if ext then ((sh, caps, False),
        if sc = 0x48 then [KEY_UP] else if sc = 0x50 then [KEY_DOWN]
        else if sc = 0x4B then [KEY_LEFT] else if sc = 0x4D then [KEY_RIGHT] else [])
     else if sc = 0x2A \<or> sc = 0x36 then ((True, caps, False), [])
     else if sc = 0xAA \<or> sc = 0xB6 then ((False, caps, False), [])
     else if sc = 0x3A then ((sh, \<not> caps, False), [])
     else if sc AND 0x80 \<noteq> 0 then ((sh, caps, False), [])
     else
       (let lo = s_lo ! unat sc;
            c = (if (if CHR ''a'' \<le> lo \<and> lo \<le> CHR ''z'' then sh \<noteq> caps else sh) then s_hi ! unat sc else lo)
        in ((sh, caps, False), if c = CHR 0x00 then [] else [c])))"

fun decode_all :: "bool \<times> bool \<times> bool \<Rightarrow> u8 list \<Rightarrow> char list" where
  "decode_all st [] = []"
| "decode_all st (sc # scs) = snd (decode sc st) @ decode_all (fst (decode sc st)) scs"

definition kb_mods :: "kbd \<Rightarrow> bool \<times> bool \<times> bool" where
  "kb_mods k = (s_shift k, s_capslock k, s_ext k)"

lemma u8_split: "(sc AND 0x80) OR (sc AND 0x7F) = (sc :: u8)"
proof -
  have "(0x80 OR 0x7F :: u8) = - 1" by simp
  then have "sc AND (0x80 OR 0x7F) = sc" by (simp only: and.right_neutral)
  then show ?thesis by (simp only: bit.conj_disj_distrib)
qed

lemma and_80: "(sc :: u8) AND 0x80 \<noteq> 0 \<Longrightarrow> sc AND 0x80 = 0x80"
proof -
  assume "sc AND 0x80 \<noteq> 0"
  then show ?thesis using and_push_bit_1 [of sc 7] by (cases "bit sc 7") simp_all
qed

lemma released_iff:
  assumes "(sc :: u8) AND 0x80 \<noteq> 0"
  shows "sc = 0x80 OR (sc AND 0x7F)"
  using u8_split [of sc] and_80 [OF assms] by simp

lemma pressed_iff: "(sc :: u8) AND 0x80 = 0 \<Longrightarrow> sc AND 0x7F = sc"
  using u8_split [of sc] by simp

lemma released_make:
  assumes r: "(sc :: u8) AND 0x80 \<noteq> 0"
  shows "sc AND 0x7F = 0x2A \<longleftrightarrow> sc = 0xAA" "sc AND 0x7F = 0x36 \<longleftrightarrow> sc = 0xB6"
    "sc \<noteq> 0x2A" "sc \<noteq> 0x36" "sc \<noteq> 0x3A" "sc \<noteq> 0x48" "sc \<noteq> 0x50" "sc \<noteq> 0x4B" "sc \<noteq> 0x4D"
proof -
  note s = released_iff [OF r]
  show "sc AND 0x7F = 0x2A \<longleftrightarrow> sc = 0xAA" by (rule iffI, subst s, simp, simp)
  show "sc AND 0x7F = 0x36 \<longleftrightarrow> sc = 0xB6" by (rule iffI, subst s, simp, simp)
  show "sc \<noteq> 0x2A" "sc \<noteq> 0x36" "sc \<noteq> 0x3A" "sc \<noteq> 0x48" "sc \<noteq> 0x50" "sc \<noteq> 0x4B" "sc \<noteq> 0x4D"
    using r by auto
qed

lemma KB_HandleIrq_pressed:
  assumes "sc AND 0x80 = 0" "\<not> s_ext k" "sc \<noteq> 0x2A" "sc \<noteq> 0x36" "sc \<noteq> 0x3A"
  shows "KB_HandleIrq sc k = fold KB_Push (snd (decode sc (kb_mods k))) k"
    "fst (decode sc (kb_mods k)) = (s_shift k, s_capslock k, False)"
proof -
  have n: "sc \<noteq> 0xE0" "sc \<noteq> 0xAA" "sc \<noteq> 0xB6" using assms(1) by auto
  show "fst (decode sc (kb_mods k)) = (s_shift k, s_capslock k, False)"
    using assms n by (simp add: decode_def kb_mods_def Let_def)
  show "KB_HandleIrq sc k = fold KB_Push (snd (decode sc (kb_mods k))) k"
    unfolding KB_HandleIrq_def decode_def kb_mods_def pressed_iff [OF assms(1)] Let_def
    using assms n by (simp only: if_False if_True simp_thms prod.case snd_conv split: if_split) simp
qed

lemma KB_HandleIrq_decode:
  "KB_HandleIrq sc k = (case decode sc (kb_mods k) of ((sh, caps, ext), cs) \<Rightarrow>
     fold KB_Push cs (k\<lparr>s_shift := sh, s_capslock := caps, s_ext := ext\<rparr>))"
proof (cases "sc AND 0x80 = 0")
  case True
  have n: "sc \<noteq> 0xE0" "sc \<noteq> 0xAA" "sc \<noteq> 0xB6" using True by auto
  consider (e) "s_ext k" | (s) "\<not> s_ext k" "sc = 0x2A \<or> sc = 0x36 \<or> sc = 0x3A"
    | (p) "\<not> s_ext k" "sc \<noteq> 0x2A" "sc \<noteq> 0x36" "sc \<noteq> 0x3A" by blast
  then show ?thesis
  proof cases
    case e
    then show ?thesis using n True
      by (cases k) (simp add: KB_HandleIrq_def decode_def kb_mods_def pressed_iff [OF True] KB_Push_def Let_def)
  next
    case s
    then show ?thesis using s(2)
      by (elim disjE; cases k; simp add: KB_HandleIrq_def decode_def kb_mods_def)
  next
    case p
    have "k\<lparr>s_shift := s_shift k, s_capslock := s_capslock k, s_ext := False\<rparr> = k"
      using p(1) by (cases k) simp
    then show ?thesis using KB_HandleIrq_pressed [OF True p]
      by (cases "decode sc (kb_mods k)") simp
  qed
next
  case False
  note m = released_make [OF False]
  consider (ext) "sc = 0xE0" | (e) "sc \<noteq> 0xE0" "s_ext k" | (p) "sc \<noteq> 0xE0" "\<not> s_ext k" by blast
  then show ?thesis
  proof cases
    case p
    consider "sc AND 0x7F = 0x2A" | "sc AND 0x7F = 0x36" | "sc AND 0x7F \<noteq> 0x2A" "sc AND 0x7F \<noteq> 0x36" by blast
    then show ?thesis
    proof cases
      case 3
      then show ?thesis using False m p by (cases k) (simp add: KB_HandleIrq_def decode_def kb_mods_def Let_def)
    qed (use False m p in \<open>cases k, simp add: KB_HandleIrq_def decode_def kb_mods_def Let_def\<close>)+
  qed (use False m in \<open>cases k, simp add: KB_HandleIrq_def decode_def kb_mods_def Let_def\<close>)+
qed

lemma KB_Push_mods [simp]: "kb_mods (KB_Push c k) = kb_mods k"
  by (simp add: KB_Push_def kb_mods_def)

lemma fold_KB_Push_mods [simp]: "kb_mods (fold KB_Push cs k) = kb_mods k"
  by (induction cs arbitrary: k) auto

lemma KB_HandleIrq_step:
  assumes "kb_ok k"
  shows "kb_ok (KB_HandleIrq sc k)" "kb_mods (KB_HandleIrq sc k) = fst (decode sc (kb_mods k))"
    "kb_chars (KB_HandleIrq sc k) = take 127 (kb_chars k @ snd (decode sc (kb_mods k)))"
proof -
  obtain sh caps ext cs where d: "decode sc (kb_mods k) = ((sh, caps, ext), cs)" by (metis surj_pair)
  let ?k = "k\<lparr>s_shift := sh, s_capslock := caps, s_ext := ext\<rparr>"
  have ok: "kb_ok ?k" "kb_chars ?k = kb_chars k" "kb_mods ?k = (sh, caps, ext)"
    using assms by (simp_all add: kb_ok_def kb_chars_def kb_mods_def)
  have h: "KB_HandleIrq sc k = fold KB_Push cs ?k" by (simp add: KB_HandleIrq_decode d)
  show "kb_ok (KB_HandleIrq sc k)" unfolding h by (rule kb.pushes_ok [OF ok(1)])
  show "kb_mods (KB_HandleIrq sc k) = fst (decode sc (kb_mods k))" by (simp add: h d ok)
  show "kb_chars (KB_HandleIrq sc k) = take 127 (kb_chars k @ snd (decode sc (kb_mods k)))"
    unfolding h using kb.pushes_contents [OF ok(1)] by (simp add: d ok)
qed

section \<open>Correctness of the keyboard driver\<close>

definition kbd_demo :: kbd where
  "kbd_demo = KB_Init \<lparr>kb_ring = \<lparr>r_slots = replicate 128 (CHR 0x00), r_head = 3, r_tail = 9\<rparr>,
     s_shift = True, s_capslock = True, s_ext = True\<rparr>"

lemma kbd_demo_ok: "kb_ok kbd_demo" "kb_chars kbd_demo = []" "kb_mods kbd_demo = (False, False, False)"
  by (simp_all add: kb_ok_def kbd_demo_def KB_Init_def ring_clear_def ring_ok_def kb_chars_def
      ring_contents_def ring_count_def kb_mods_def)

text \<open>Whatever scan codes arrive, the characters that can be read are what the
  decoder makes of them, in order, after those already waiting; the oldest 127 are kept when
  the ring overflows.\<close>
theorem keyboard_stream:
  assumes "kb_ok k"
  shows "kb_ok (fold KB_HandleIrq scs k)
    \<and> kb_chars (fold KB_HandleIrq scs k) = take 127 (kb_chars k @ decode_all (kb_mods k) scs)
    \<and> fst (kb.read_n 127 (fold KB_HandleIrq scs k)) = take 127 (kb_chars k @ decode_all (kb_mods k) scs)"
proof -
  have "kb_ok (fold KB_HandleIrq scs k)
    \<and> kb_chars (fold KB_HandleIrq scs k) = take 127 (kb_chars k @ decode_all (kb_mods k) scs)"
    using assms
  proof (induction scs arbitrary: k)
    case Nil
    then show ?case using kb.contents_cap by simp
  next
    case (Cons sc scs)
    note H = KB_HandleIrq_step [OF Cons.prems, of sc]
    show ?case using Cons.IH [OF H(1)] by (simp add: H take_take_append del: take_append)
  qed
  then show ?thesis using kb.read_n_contents [of "fold KB_HandleIrq scs k" 127]
    by (simp del: take_append)
qed

lemma keyboard_stream_witness:
  "kb_chars (fold KB_HandleIrq [0x2A, 0x23, 0xA3, 0xAA, 0x17, 0xE0, 0x48, 0x3A, 0x1E, 0x02] kbd_demo) =
     [CHR ''H'', CHR ''i'', KEY_UP, CHR ''A'', CHR ''1'']"
  using keyboard_stream [OF kbd_demo_ok(1), of "[0x2A, 0x23, 0xA3, 0xAA, 0x17, 0xE0, 0x48, 0x3A, 0x1E, 0x02]"]
  by (simp add: kbd_demo_ok(2,3) decode_def s_lo_def s_hi_def less_eq_char_def)

end
