(* ===== verification/UserMemory.thy ===== *)
theory UserMemory
  imports ProcessCreate
begin

text \<open>Access of the system calls to user memory, kernel/syscall/syscall.cpp: a byte is read or
  written through the physical address that the page tables of the process give for it; buffers
  are copied byte by byte, or page run by page run in ReadUserBytes.  The lemmas show that the
  page runs are the bytes one by one, and that writing a mapped buffer changes these bytes only.\<close>

section \<open>Operations\<close>

definition ReadUserByte :: "u64 \<Rightarrow> u64 \<Rightarrow> vmm \<Rightarrow> u8" where
  "ReadUserByte pml4 va v = (let phys = TranslateInPml4 pml4 va v in if phys \<noteq> 0 then rd8 v phys else 0)"

definition WriteUserByte :: "u64 \<Rightarrow> u64 \<Rightarrow> u8 \<Rightarrow> vmm \<Rightarrow> bool \<times> vmm" where
  "WriteUserByte pml4 user_va val v =
    (let phys = TranslateInPml4 pml4 user_va v in if phys = 0 then (False, v) else (True, wr8 phys val v))"

text \<open>The loops that store bytes one after the other; a byte that is not mapped is lost.\<close>
fun write_user :: "u64 \<Rightarrow> u64 \<Rightarrow> u8 list \<Rightarrow> vmm \<Rightarrow> vmm" where
  "write_user pml4 va [] v = v"
| "write_user pml4 va (b # bs) v = write_user pml4 (va + 1) bs (snd (WriteUserByte pml4 va b v))"

definition WriteUserU64 :: "u64 \<Rightarrow> u64 \<Rightarrow> u64 \<Rightarrow> vmm \<Rightarrow> vmm" where
  "WriteUserU64 pml4 user_va x v = write_user pml4 user_va (map (\<lambda>i. ucast (drop_bit (i * 8) x)) [0..<8]) v"

definition WriteUserU32 :: "u64 \<Rightarrow> u64 \<Rightarrow> u32 \<Rightarrow> vmm \<Rightarrow> vmm" where
  "WriteUserU32 pml4 user_va x v = write_user pml4 user_va (map (\<lambda>i. ucast (drop_bit (i * 8) x)) [0..<4]) v"

text \<open>The current thread and its process, which most system calls ask for first.\<close>
definition current_thread :: "psys \<Rightarrow> (node \<times> nat) option" where
  "current_thread s = (case CurrentThread (p_sys s) of None \<Rightarrow> None
     | Some t \<Rightarrow> map_option (\<lambda>p. (t, p)) (Process (the_thr s t)))"

text \<open>ReadUserBytes: the bytes copied into the kernel buffer; each round copies up to the end of a page.\<close>
function read_runs :: "u64 \<Rightarrow> u64 \<Rightarrow> nat \<Rightarrow> nat \<Rightarrow> vmm \<Rightarrow> u8 list" where
  "read_runs pml4 user_va len copied v =
    (if copied < len then
       (let phys = TranslateInPml4 pml4 (user_va + of_nat copied) v in
        if phys = 0 then [] else
        let off = unat ((user_va + of_nat copied) AND 0xFFF);
            avail = PAGE_SIZE - off;
            n = (if len - copied < avail then len - copied else avail)
        in map (\<lambda>i. rd8 v (phys + of_nat i)) [0..<n] @ read_runs pml4 user_va len (copied + n) v)
     else [])"
  by pat_completeness auto
termination
proof (relation "measure (\<lambda>(pml4, user_va, len, copied, v). len - copied)", simp)
  fix pml4 user_va :: u64 and len copied phys off avail n :: nat and v :: vmm and ph :: u64
  assume "copied < len" "off = unat ((user_va + of_nat copied) AND 0xFFF)" "avail = PAGE_SIZE - off"
    "n = (if len - copied < avail then len - copied else avail)"
  then show "((pml4, user_va, len, copied + n, v), (pml4, user_va, len, copied, v))
      \<in> measure (\<lambda>(pml4, user_va, len, copied, v). len - copied)"
    using page_offset_lt [of "user_va + of_nat copied"] by (auto simp: PAGE_SIZE_def)
qed

declare read_runs.simps [simp del]

definition ReadUserBytes :: "u64 \<Rightarrow> nat \<Rightarrow> psys \<Rightarrow> u8 list" where
  "ReadUserBytes user_va len s =
    (case current_thread s of None \<Rightarrow> []
     | Some (t, p) \<Rightarrow> read_runs (Cr3 (the_proc s p)) user_va len 0 (p_vmm s))"

section \<open>Translation within a page\<close>

lemma low_or:
  fixes X a b :: u64
  assumes "\<And>n. n < 12 \<Longrightarrow> \<not> bit X n" "drop_bit 12 b = drop_bit 12 a" "12 \<le> k"
  shows "X OR (b AND mask k) = (X OR (a AND mask k AND NOT (mask 12))) + (b AND mask 12)"
proof -
  let ?Y = "X OR (a AND mask k AND NOT (mask 12))"
  have "?Y + (b AND mask 12) = ?Y OR (b AND mask 12)"
    by (rule disjunctive_add) (use assms(1) in \<open>auto simp: bit_simps\<close>)
  moreover have "bit b n = bit a n" if "12 \<le> n" for n
    using arg_cong [OF assms(2), of "\<lambda>x. bit x (n - 12)"] that by (simp add: bit_simps)
  then have "X OR (b AND mask k) = ?Y OR (b AND mask 12)"
    by (intro bit_word_eqI) (use assms(1,3) in \<open>auto simp: bit_simps not_less\<close>)
  ultimately show ?thesis by simp
qed

lemma idx_page: "drop_bit 12 b = drop_bit 12 (a :: u64) \<Longrightarrow>
    pml4_idx b = pml4_idx a \<and> pdpt_idx b = pdpt_idx a \<and> pd_idx b = pd_idx a \<and> pt_idx b = pt_idx a"
proof -
  assume e: "drop_bit 12 b = drop_bit 12 a"
  have "drop_bit (k + 12) b = drop_bit (k + 12) a" for k
    using arg_cong [OF e, of "drop_bit k"] by (simp add: drop_bit_drop_bit)
  from this [of 0] this [of 9] this [of 18] this [of 27] show ?thesis by (simp add: idx_take_bit)
qed

text \<open>A page is unmapped as a whole or has a base that its offsets are added to.\<close>
lemma translate_page:
  "(\<forall>b. drop_bit 12 b = drop_bit 12 a \<longrightarrow> TranslateInPml4 r b v = 0)
   \<or> (\<exists>Y. Y AND mask 12 = 0 \<and> (\<forall>b. drop_bit 12 b = drop_bit 12 a \<longrightarrow> TranslateInPml4 r b v = Y + (b AND mask 12)))"
proof -
  have Y: "\<exists>Y. Y AND mask 12 = 0 \<and> (\<forall>b. drop_bit 12 b = drop_bit 12 a \<longrightarrow> X OR (b AND mask k) = Y + (b AND mask 12))"
    if "\<And>n. n < 12 \<Longrightarrow> \<not> bit X n" "12 \<le> k" for X :: u64 and k
    using low_or [OF that(1) _ that(2), where a = a] that(1)
    by (intro exI [of _ "X OR (a AND mask k AND NOT (mask 12))"]) (auto intro!: bit_word_eqI simp: bit_simps)
  have m: "0xFFF = (mask 12 :: u64)" "0x1FFFFF = (mask 21 :: u64)" "0x3FFFFFFF = (mask 30 :: u64)"
    by (simp_all add: mask_eq_exp_minus_1)
  have b1: "\<not> bit (e AND PTE_ADDR_MASK) n" if "n < 12" for e n using that by (simp add: bit_and_iff bit_ADDR_MASK)
  have h: "0xFFFFFFFE00000 = push_bit 21 (mask 31 :: u64)" "0xFFFFFFC0000000 = push_bit 30 (mask 26 :: u64)"
    by (simp_all add: push_bit_eq_mult mask_eq_exp_minus_1)
  have b2: "\<not> bit (e AND 0xFFFFFFFE00000) n" "\<not> bit (e AND 0xFFFFFFC0000000) n" if "n < 12" for e :: u64 and n
    unfolding h using that by (simp_all add: bit_simps)
  note Y1 = Y [OF b1, of 12] and Y2 = Y [OF b2(1), of 21] and Y3 = Y [OF b2(2), of 30]
  define e1 where "e1 = rd v r (pml4_idx a)"
  define e2 where "e2 = rd v (e1 AND PTE_ADDR_MASK) (pdpt_idx a)"
  define e3 where "e3 = rd v (e2 AND PTE_ADDR_MASK) (pd_idx a)"
  define e4 where "e4 = rd v (e3 AND PTE_ADDR_MASK) (pt_idx a)"
  have T: "TranslateInPml4 r b v = (if \<not> present e1 \<or> huge e1 \<or> \<not> present e2 then 0
      else if huge e2 then (e2 AND 0xFFFFFFC0000000) OR (b AND mask 30)
      else if \<not> present e3 then 0 else if huge e3 then (e3 AND 0xFFFFFFFE00000) OR (b AND mask 21)
      else if \<not> present e4 then 0 else (e4 AND PTE_ADDR_MASK) OR (b AND mask 12))" if "drop_bit 12 b = drop_bit 12 a" for b
    using idx_page [OF that] by (simp add: TranslateInPml4_def Let_def e4_def e3_def e2_def e1_def m)
  consider "\<not> present e1 \<or> huge e1 \<or> \<not> present e2" | "\<not> huge e2" "\<not> present e3" | "\<not> huge e2" "present e3" "\<not> huge e3" "\<not> present e4"
    | "present e1" "\<not> huge e1" "present e2" "huge e2" | "present e1" "\<not> huge e1" "present e2" "\<not> huge e2" "present e3" "huge e3"
    | "present e1" "\<not> huge e1" "present e2" "\<not> huge e2" "present e3" "\<not> huge e3" "present e4" by blast
  then show ?thesis
  proof cases
    case 4 then show ?thesis using Y3 [of e2] T by (intro disjI2) simp
  next
    case 5 then show ?thesis using Y2 [of e3] T by (intro disjI2) simp
  next
    case 6 then show ?thesis using Y1 [of e4] T by (intro disjI2) simp
  qed (use T in \<open>simp_all\<close>)
qed

lemma page_offset_mask: "a AND 0xFFF = (a AND mask 12 :: u64)" by (simp add: mask_eq_exp_minus_1)

lemma page_split: "a = push_bit 12 (drop_bit 12 a) + (a AND mask 12 :: u64)"
  using bits_ident [of 12 a] by (simp add: take_bit_eq_mask)

lemma page_step:
  fixes a :: u64
  assumes "unat (a AND mask 12) + i < 4096"
  shows "drop_bit 12 (a + of_nat i) = drop_bit 12 a" "(a + of_nat i) AND mask 12 = (a AND mask 12) + of_nat i"
proof -
  let ?o = "(a AND mask 12) + of_nat i"
  have u: "unat ?o < 4096" using assms by (subst unat_add_lem [THEN iffD1]) (simp_all add: unat_of_nat64)
  then have "unat (drop_bit 12 ?o) = 0" by (subst unat_drop_bit_eq) (simp add: drop_bit_eq_div)
  then have d: "drop_bit 12 ?o = 0" by (simp only: unsigned_eq_0_iff)
  then have o: "?o AND mask 12 = ?o" "drop_bit 12 ?o = 0"
    by (simp_all flip: take_bit_eq_mask add: take_bit_eq_self_iff_drop_bit_eq_0)
  have hi: "bit ?o n \<Longrightarrow> n < 12" for n using o(1) by (metis bit_and_iff bit_mask_iff)
  have "a + of_nat i = push_bit 12 (drop_bit 12 a) + ?o" using page_split [of a] by (simp add: algebra_simps)
  also have "\<dots> = push_bit 12 (drop_bit 12 a) OR ?o"
  proof (rule disjunctive_add)
    show "\<not> bit (push_bit 12 (drop_bit 12 a)) n \<or> \<not> bit ?o n" for n
      using arg_cong [OF o(1), of "\<lambda>x. bit x n"] by (auto simp: bit_simps)
  qed
  finally have e: "a + of_nat i = push_bit 12 (drop_bit 12 a) OR ?o" .
  show "drop_bit 12 (a + of_nat i) = drop_bit 12 a" unfolding e using arg_cong [OF d, of "\<lambda>x. bit x _"]
    by (intro bit_word_eqI) (auto simp: bit_simps dest: bit_imp_le_length)
  show "(a + of_nat i) AND mask 12 = ?o" unfolding e by (intro bit_word_eqI) (auto simp: bit_simps dest: hi)
qed

lemma translate_step:
  assumes "TranslateInPml4 r a v \<noteq> 0" "unat (a AND 0xFFF) + i < 4096"
  shows "TranslateInPml4 r (a + of_nat i) v = TranslateInPml4 r a v + of_nat i" "TranslateInPml4 r (a + of_nat i) v \<noteq> 0"
proof -
  note P = page_step [OF assms(2) [unfolded page_offset_mask]]
  obtain Y where Y: "Y AND mask 12 = 0" "\<And>b. drop_bit 12 b = drop_bit 12 a \<Longrightarrow> TranslateInPml4 r b v = Y + (b AND mask 12)"
    using translate_page [of a r v] assms(1) by auto
  show e: "TranslateInPml4 r (a + of_nat i) v = TranslateInPml4 r a v + of_nat i" using Y(2) [of a] Y(2) [OF P(1)] P(2) by simp
  have "Y + x \<noteq> 0" if "x AND mask 12 = x" "Y + x = 0 \<Longrightarrow> False" for x using that by blast
  have or: "Y + x = Y OR x" if "x AND mask 12 = x" for x
  proof (rule disjunctive_add)
    show "\<not> bit Y n \<or> \<not> bit x n" for n
      using arg_cong [OF Y(1), of "\<lambda>z. bit z n"] arg_cong [OF that, of "\<lambda>z. bit z n"] by (auto simp: bit_simps)
  qed
  show "TranslateInPml4 r (a + of_nat i) v \<noteq> 0"
  proof (cases "i = 0")
    case False
    have "unat (a AND mask 12) + i < 4096" using assms(2) by (simp add: page_offset_mask)
    then have "unat ((a AND mask 12) + of_nat i) = unat (a AND mask 12) + i"
      by (subst unat_add_lem [THEN iffD1]) (simp_all add: unat_of_nat64)
    then have "(a + of_nat i) AND mask 12 \<noteq> 0" using False P(2) by (metis add_is_0 unsigned_0)
    moreover have "TranslateInPml4 r (a + of_nat i) v = Y OR ((a + of_nat i) AND mask 12)"
      using Y(2) [OF P(1)] or by simp
    ultimately show ?thesis by (simp add: or_eq_0_iff)
  qed (use assms(1) in simp)
qed

section \<open>Reading a buffer\<close>

lemma takeWhile_run:
  assumes "\<And>i. i < n \<Longrightarrow> P (k + i)" "n \<le> len - k"
  shows "takeWhile P [k..<len] = [k..<k + n] @ takeWhile P [k + n..<len]"
proof (cases "k \<le> len")
  case True
  then have "[k..<len] = [k..<k + n] @ [k + n..<len]" using assms(2) upt_add_eq_append [of k "k + n" "len - (k + n)"] by simp
  moreover have "\<forall>x\<in>set [k..<k + n]. P x" using assms(1) by (auto simp: le_iff_add)
  ultimately show ?thesis using takeWhile_append2 [of "[k..<k + n]" P "[k + n..<len]"] by metis
qed (use assms(2) in simp)

lemma read_runs_bytes:
  "read_runs r va len k v = map (\<lambda>i. ReadUserByte r (va + of_nat i) v) (takeWhile (\<lambda>i. TranslateInPml4 r (va + of_nat i) v \<noteq> 0) [k..<len])"
proof (induction r va len k v rule: read_runs.induct)
  case (1 r va len k v)
  let ?T = "\<lambda>i. TranslateInPml4 r (va + of_nat i) v" and ?off = "unat ((va + of_nat k) AND 0xFFF)"
  define n where "n = (if len - k < PAGE_SIZE - ?off then len - k else PAGE_SIZE - ?off)"
  show ?case
  proof (cases "k < len \<and> ?T k \<noteq> 0")
    case True
    then have IH: "read_runs r va len (k + n) v = map (\<lambda>i. ReadUserByte r (va + of_nat i) v) (takeWhile (\<lambda>i. ?T i \<noteq> 0) [k + n..<len])"
      using "1.IH" by (simp add: n_def Let_def)
    have t: "?T (k + i) = ?T k + of_nat i" "?T (k + i) \<noteq> 0" if "i < n" for i
      using translate_step [of r "va + of_nat k" v i] True that page_offset_lt [of "va + of_nat k"]
      by (simp_all add: n_def PAGE_SIZE_def add.assoc split: if_splits)
    have "takeWhile (\<lambda>i. ?T i \<noteq> 0) [k..<len] = [k..<k + n] @ takeWhile (\<lambda>i. ?T i \<noteq> 0) [k + n..<len]"
      by (rule takeWhile_run) (use t(2) in \<open>simp_all add: n_def\<close>)
    moreover have "map (\<lambda>i. rd8 v (?T k + of_nat i)) [0..<n] = map (\<lambda>i. ReadUserByte r (va + of_nat i) v) [k..<k + n]"
      by (rule nth_equalityI) (use t in \<open>simp_all add: ReadUserByte_def\<close>)
    ultimately show ?thesis using True IH by (subst read_runs.simps) (simp add: n_def Let_def)
  next
    case False
    then have "takeWhile (\<lambda>i. ?T i \<noteq> 0) [k..<len] = []" by (cases "k < len") (simp_all add: upt_conv_Cons)
    then show ?thesis using False by (subst read_runs.simps) (auto simp: Let_def)
  qed
qed

text \<open>The buffer a system call reads.  Copying page run by page run gives the bytes of
  the buffer one by one, each through its own translation, up to the first byte that is not
  mapped; no buffer, alignment or page table makes it differ.\<close>
theorem user_bytes_read:
  "ReadUserBytes va len s = (case current_thread s of None \<Rightarrow> []
     | Some (t, p) \<Rightarrow> map (\<lambda>i. ReadUserByte (Cr3 (the_proc s p)) (va + of_nat i) (p_vmm s))
         (takeWhile (\<lambda>i. TranslateInPml4 (Cr3 (the_proc s p)) (va + of_nat i) (p_vmm s) \<noteq> 0) [0..<len]))"
  by (simp add: ReadUserBytes_def read_runs_bytes split: option.split)

section \<open>Writing a buffer\<close>

text \<open>A buffer whose bytes lie on mapped data pages, at different physical addresses.\<close>
definition user_buf :: "vmm \<Rightarrow> u64 \<Rightarrow> u64 \<Rightarrow> nat \<Rightarrow> bool" where
  "user_buf v r va n \<longleftrightarrow> (\<forall>i<n. TranslateInPml4 r (va + of_nat i) v \<noteq> 0 \<and> (\<exists>f. page_at v r (va + of_nat i) f))
     \<and> inj_on (\<lambda>i. TranslateInPml4 r (va + of_nat i) v) {..<n}"

lemma same_page_refl [simp]: "same_page v v" by (simp add: same_page_def)

lemma wr8_frame:
  assumes "f \<in> pmm_all_frames" "off < 4096" shows "writes_only s f (wr8 (f + of_nat off) b s)"
  using wr_bytes_only [of f off 1 s "\<lambda>_. b"] assms by (simp add: wr_bytes_Suc wr_bytes_def)

lemma WriteUserByte_step:
  fixes b :: u8
  assumes "pt_wf v r" "page_at v r va f" "TranslateInPml4 r va v \<noteq> 0"
  defines "v' \<equiv> snd (WriteUserByte r va b v)"
  shows "pt_wf v' r" "TranslateInPml4 r w v' = TranslateInPml4 r w v" "page_at v' r w g = page_at v r w g"
    "rd8 v' a = (if a = TranslateInPml4 r va v then b else rd8 v a)" "vm_pmm v' = vm_pmm v"
proof -
  have T: "TranslateInPml4 r va v = f + (va AND 0xFFF)" and d: "data_frame v r f" using assms(2) by (auto simp: page_at_def)
  have f: "f \<in> pmm_all_frames" using d by (auto simp: data_frame_def dest: used_frame)
  have e: "v' = wr8 (f + of_nat (unat (va AND 0xFFF))) b v" using assms(3) T by (simp add: v'_def WriteUserByte_def Let_def)
  have W: "writes_only v f v'" unfolding e by (rule wr8_frame [OF f page_offset_lt])
  note D = write_data_frame [OF assms(1) d W]
  show "pt_wf v' r" "TranslateInPml4 r w v' = TranslateInPml4 r w v" "page_at v' r w g = page_at v r w g" by (rule D)+
  show "rd8 v' a = (if a = TranslateInPml4 r va v then b else rd8 v a)" "vm_pmm v' = vm_pmm v"
    unfolding e T by (simp_all add: rd8_wr8)
qed

lemma write_user_spec:
  assumes "pt_wf v r" "user_buf v r va (length bs)"
  shows "pt_wf (write_user r va bs v) r \<and> vm_pmm (write_user r va bs v) = vm_pmm v
    \<and> (\<forall>w. TranslateInPml4 r w (write_user r va bs v) = TranslateInPml4 r w v)
    \<and> (\<forall>w f. page_at (write_user r va bs v) r w f = page_at v r w f)
    \<and> (\<forall>i<length bs. rd8 (write_user r va bs v) (TranslateInPml4 r (va + of_nat i) v) = bs ! i)
    \<and> (\<forall>a. (\<forall>i<length bs. a \<noteq> TranslateInPml4 r (va + of_nat i) v) \<longrightarrow> rd8 (write_user r va bs v) a = rd8 v a)"
  using assms
proof (induction bs arbitrary: va v)
  case (Cons b bs)
  let ?T = "\<lambda>i. TranslateInPml4 r (va + of_nat i) v"
  define v1 where "v1 = snd (WriteUserByte r va b v)"
  have nz: "?T 0 \<noteq> 0" and B: "\<And>i. i < Suc (length bs) \<Longrightarrow> ?T i \<noteq> 0 \<and> (\<exists>f. page_at v r (va + of_nat i) f)"
    and inj: "inj_on ?T {..<Suc (length bs)}" using Cons.prems(2) by (auto simp: user_buf_def)
  obtain f where f: "page_at v r va f" using B [of 0] by auto
  note W = WriteUserByte_step [OF Cons.prems(1) f nz [simplified], where b = b, folded v1_def]
  have sh: "va + 1 + of_nat i = va + of_nat (Suc i)" for i by simp
  have "user_buf v1 r (va + 1) (length bs)"
    unfolding user_buf_def sh W(2) W(3) using B inj_onD [OF inj] by (auto simp: inj_on_def simp del: of_nat_Suc)
  note IH = Cons.IH [OF W(1) this, unfolded sh W(2)]
  have e: "write_user r va (b # bs) v = write_user r (va + 1) bs v1" by (simp add: v1_def)
  have ne: "?T 0 \<noteq> ?T (Suc i)" if "i < length bs" for i using inj_onD [OF inj, of 0 "Suc i"] that by auto
  have "rd8 (write_user r (va + 1) bs v1) (?T i) = (b # bs) ! i" if "i < length (b # bs)" for i
  proof (cases i)
    case 0
    then show ?thesis using IH ne W(4) [of "?T 0"] by simp
  next
    case (Suc j)
    then show ?thesis using IH that by (simp del: of_nat_Suc)
  qed
  moreover have "rd8 (write_user r (va + 1) bs v1) a = rd8 v a" if "\<forall>i<length (b # bs). a \<noteq> ?T i" for a
  proof -
    have "a \<noteq> ?T 0" "\<forall>i<length bs. a \<noteq> ?T (Suc i)" using that by auto
    then show ?thesis using IH W(4) [of a] by simp
  qed
  ultimately show ?case unfolding e using IH W by simp
qed simp

lemma byte_of_ucast: "(ucast (drop_bit (i * 8) x) :: u8) = byte_of i x" by (simp add: byte_of_def mult.commute)

lemma WriteUserU64_eq: "WriteUserU64 r va x = write_user r va (map (\<lambda>i. byte_of i x) [0..<8])"
  by (simp add: WriteUserU64_def byte_of_ucast fun_eq_iff)

text \<open>Reading the buffer back after it was written.\<close>
lemma read_written:
  assumes "pt_wf v r" "user_buf v r va (length bs)" "i < length bs"
  shows "ReadUserByte r (va + of_nat i) (write_user r va bs v) = bs ! i"
  using write_user_spec [OF assms(1,2)] assms(2,3) by (simp add: ReadUserByte_def user_buf_def)

section \<open>Buffers as lists\<close>

definition user_bytes :: "u64 \<Rightarrow> u64 \<Rightarrow> nat \<Rightarrow> vmm \<Rightarrow> u8 list" where
  "user_bytes r a n v = map (\<lambda>i. ReadUserByte r (a + of_nat i) v) [0..<n]"

lemma length_user_bytes [simp]: "length (user_bytes r a n v) = n" by (simp add: user_bytes_def)

lemma user_buf_part:
  assumes "user_buf v r a n" "off + k \<le> n" shows "user_buf v r (a + of_nat off) k"
proof -
  have e: "a + of_nat off + of_nat i = a + of_nat (off + i)" for i by simp
  have "inj_on (\<lambda>i. TranslateInPml4 r (a + of_nat (off + i)) v) {..<k}"
  proof (rule inj_onI)
    fix i j assume "i \<in> {..<k}" "j \<in> {..<k}"
      "TranslateInPml4 r (a + of_nat (off + i)) v = TranslateInPml4 r (a + of_nat (off + j)) v"
    then have "off + i = off + j" using assms by (intro inj_onD [of "\<lambda>i. TranslateInPml4 r (a + of_nat i) v" "{..<n}"]) (auto simp: user_buf_def)
    then show "i = j" by simp
  qed
  moreover have "TranslateInPml4 r (a + of_nat (off + i)) v \<noteq> 0 \<and> (\<exists>f. page_at v r (a + of_nat (off + i)) f)" if "i < k" for i
  proof -
    have "off + i < n" using that assms(2) by simp
    then show ?thesis using assms(1) unfolding user_buf_def by blast
  qed
  ultimately show ?thesis unfolding user_buf_def e by blast
qed

lemma user_bytes_write:
  assumes "pt_wf v r" "user_buf v r a n" "off + length bs \<le> n"
  defines "v' \<equiv> write_user r (a + of_nat off) bs v"
  shows "pt_wf v' r" "user_buf v' r a n"
    "user_bytes r a n v' = take off (user_bytes r a n v) @ bs @ drop (off + length bs) (user_bytes r a n v)"
proof -
  let ?T = "\<lambda>i. TranslateInPml4 r (a + of_nat i) v"
  have e: "a + of_nat off + of_nat i = a + of_nat (off + i)" for i by simp
  note W = write_user_spec [OF assms(1) user_buf_part [OF assms(2,3)], folded v'_def, unfolded e]
  show "pt_wf v' r" "user_buf v' r a n" using W assms(2) by (simp_all add: user_buf_def)
  have nz: "?T i \<noteq> 0" if "i < n" for i using assms(2) that by (simp add: user_buf_def)
  have ne: "?T i \<noteq> ?T j" if "i \<noteq> j" "i < n" "j < n" for i j
    using assms(2) that by (auto simp: user_buf_def inj_on_def)
  have byte: "rd8 v' (?T i) = (if off \<le> i \<and> i < off + length bs then bs ! (i - off) else rd8 v (?T i))" if i: "i < n" for i
  proof (cases "off \<le> i \<and> i < off + length bs")
    case True
    then have "rd8 v' (?T (off + (i - off))) = bs ! (i - off)" using W by (metis less_diff_conv2 add.commute)
    then show ?thesis using True by simp
  next
    case False
    have "\<forall>j<length bs. ?T i \<noteq> ?T (off + j)"
    proof (intro allI impI)
      fix j assume j: "j < length bs"
      have "i \<noteq> off + j" using False j by auto
      moreover have "off + j < n" using j assms(3) by simp
      ultimately show "?T i \<noteq> ?T (off + j)" using ne i by blast
    qed
    then show ?thesis using W False by auto
  qed
  show "user_bytes r a n v' = take off (user_bytes r a n v) @ bs @ drop (off + length bs) (user_bytes r a n v)"
  proof (rule nth_equalityI)
    fix i assume "i < length (user_bytes r a n v')"
    then have i: "i < n" by simp
    have "ReadUserByte r (a + of_nat i) v' = rd8 v' (?T i)" "ReadUserByte r (a + of_nat i) v = rd8 v (?T i)"
      using W nz [OF i] by (simp_all add: ReadUserByte_def)
    then show "user_bytes r a n v' ! i = (take off (user_bytes r a n v) @ bs @ drop (off + length bs) (user_bytes r a n v)) ! i"
      using byte [OF i] i assms(3) by (auto simp: user_bytes_def nth_append)
  qed (use assms(3) in simp)
qed

text \<open>A 64-bit store is the store of its eight bytes.\<close>
definition le_bytes :: "u64 \<Rightarrow> u8 list" where "le_bytes x = map (\<lambda>i. byte_of i x) [0..<8]"

lemma length_le_bytes [simp]: "length (le_bytes x) = 8" by (simp add: le_bytes_def)

lemma WriteUserU64_bytes: "WriteUserU64 r va x = write_user r va (le_bytes x)"
  by (simp add: WriteUserU64_eq le_bytes_def)

end
