(* ===== verification/DemoMachine.thy ===== *)
theory DemoMachine
  imports DataPages
begin

text \<open>The concrete machine of the cases of the process and loader theories: an empty address space
  and a few free frames.\<close>

text \<open>An empty root table in frame 768 and 24 free frames, 800 to 823.\<close>
definition vmm_roomy :: vmm where
  "vmm_roomy = \<lparr>vm_pmm = \<lparr>s_bitmap = (\<lambda>i. if i = 100 \<or> i = 101 \<or> i = 102 then 0 else 0xFF),
       s_total_pages = 25, s_free_pages = 24, s_search_hint = 768\<rparr>,
     vm_mem = (\<lambda>_. 0), vm_cr3 = 0x300000, s_pml4_phys = 0x300000, s_kvirt_next = 0xFFFFFF8000000000\<rparr>"

lemma vmm_roomy_test: "BitmapTest n (s_bitmap (vm_pmm vmm_roomy)) \<longleftrightarrow> \<not> (800 \<le> n \<and> n < 824)"
proof -
  have "bit (0xFF :: u8) (n mod 8)"
  proof -
    have "(0xFF :: u8) = mask 8" by (simp add: mask_eq_exp_minus_1)
    then show ?thesis by (simp only: bit_mask_iff) simp
  qed
  moreover have "n div 8 = 100 \<or> n div 8 = 101 \<or> n div 8 = 102 \<longleftrightarrow> 800 \<le> n \<and> n < 824" by auto
  ultimately show ?thesis by (auto simp: vmm_roomy_def BitmapTest_bit)
qed

lemma vmm_roomy_free: "pmm_free (vm_pmm vmm_roomy) = {800..<824}"
  by (auto simp: pmm_free_def vmm_roomy_test MAX_PAGES_val)

lemma vmm_roomy_frames: "card (pmm_frames (vm_pmm vmm_roomy)) = 24"
  by (simp add: card_pmm_frames vmm_roomy_free)

lemma vmm_roomy_wf: "pt_wf vmm_roomy 0x300000"
proof -
  have f: "0x300000 = frame_of 768" by (simp add: frame_of_def PAGE_SIZE_def)
  have inv: "pmm_inv (vm_pmm vmm_roomy)"
    by (simp add: pmm_inv_def vmm_roomy_free vmm_roomy_test) (simp add: vmm_roomy_def MAX_PAGES_val)
  have "frame_of 768 \<notin> pmm_frames (vm_pmm vmm_roomy)"
    by (auto simp: pmm_frames_def vmm_roomy_free frame_of_inj MAX_PAGES_val)
  then have u: "0x300000 \<in> used_frames vmm_roomy"
    using frame_of_zero [of 768] by (auto simp: used_frames_def f pmm_all_frames_def MAX_PAGES_val)
  have t: "table_at vmm_roomy 0x300000 p = Some t \<longleftrightarrow> p = [] \<and> t = 0x300000" for p t
    by (cases p) (auto simp: child_def vmm_roomy_def)
  show ?thesis using u inv by (auto simp: pt_wf_def tables_def t)
qed

lemma vmm_roomy_room: "4 * length vas \<le> 24 \<Longrightarrow> room vmm_roomy 0x300000 vas"
  by (simp add: room_def vmm_roomy_frames walk_huge_def huge_at_def child_def) (simp add: vmm_roomy_def)

end
