(* ===== verification/SysVirtual.thy ===== *)
theory SysVirtual
  imports UserMemory DemoMachine
begin

text \<open>The system calls on virtual memory, kernel/syscall/syscall.cpp: allocation from the heap of a
  process, protection and query, section objects with their views, and the creation of a thread,
  whose stack comes from the same heap.  A call gets its arguments and the state and returns the
  value the user sees and the new state; the section table is passed beside the process state.\<close>

section \<open>Operations\<close>

definition HEAP_MAX :: u64 where "HEAP_MAX = 0x580000000"

definition pages_of :: "u64 \<Rightarrow> u64" where
  "pages_of sz = (sz + of_nat PAGE_SIZE - 1) div of_nat PAGE_SIZE"

text \<open>Pages i, i + 1, ... of the range at va: allocated, zeroed and mapped for the user.\<close>
fun commit_pages :: "u64 \<Rightarrow> u64 \<Rightarrow> nat \<Rightarrow> nat \<Rightarrow> vmm \<Rightarrow> bool \<times> vmm" where
  "commit_pages pml4 va i 0 v = (True, v)"
| "commit_pages pml4 va i (Suc n) v =
    (let (phys, v) = alloc_page v in
     if phys = 0 then (False, v) else
     let (ok, v) = MapPageInto pml4 (va + of_nat (i * PAGE_SIZE)) phys USER_RW (zero_page phys v) in
     if ok then commit_pages pml4 va (i + 1) n v else (False, v))"

definition NtAllocVM :: "u64 \<Rightarrow> psys \<Rightarrow> u64 \<times> psys" where
  "NtAllocVM a1 s =
    (if a1 = 0 then (0, s) else
     let pages = pages_of a1 in
     case current_thread s of None \<Rightarrow> (0, s)
     | Some (t, p) \<Rightarrow>
       (let pml4 = Cr3 (the_proc s p); va = UserHeapCursor (the_proc s p) in
        if va + pages * of_nat PAGE_SIZE > HEAP_MAX then (0, s) else
        let s = set_proc p (\<lambda>k. k\<lparr>UserHeapCursor := UserHeapCursor k + pages * of_nat PAGE_SIZE\<rparr>) s;
            (ok, v) = commit_pages pml4 va 0 (unat pages) (p_vmm s)
        in (if ok then va else 0, s\<lparr>p_vmm := v\<rparr>)))"

definition NtFreeVM :: "psys \<Rightarrow> u64 \<times> psys" where
  "NtFreeVM s = (nt STATUS_SUCCESS, s)"

definition THREAD_STACK_SIZE :: u64 where "THREAD_STACK_SIZE = 4 * of_nat PAGE_SIZE"
definition KERNEL_STACK_SIZE :: u64 where "KERNEL_STACK_SIZE = 16384"

definition NtCreateThread :: "u64 \<Rightarrow> u64 \<Rightarrow> psys \<Rightarrow> u64 \<times> psys" where
  "NtCreateThread a1 a2 s =
    (case current_thread s of None \<Rightarrow> (0, s)
     | Some (t, p) \<Rightarrow>
       (let stack_va = UserHeapCursor (the_proc s p) in
        if stack_va + THREAD_STACK_SIZE > HEAP_MAX then (0, s) else
        let s = set_proc p (\<lambda>k. k\<lparr>UserHeapCursor := UserHeapCursor k + THREAD_STACK_SIZE\<rparr>) s;
            (ok, v) = commit_pages (Cr3 (the_proc s p)) stack_va 0 4 (p_vmm s);
            s = s\<lparr>p_vmm := v\<rparr> in
        if \<not> ok then (0, s) else
        case CreateUserThread (Some p) (Some ''uthread'') a1 (stack_va + THREAD_STACK_SIZE) a2 KERNEL_STACK_SIZE s of
          (None, s) \<Rightarrow> (0, s)
        | (Some u, s) \<Rightarrow> (ucast (Tid (the_thr s u)), s\<lparr>p_sys := AddThread u (p_sys s)\<rparr>)))"

fun protect_pages :: "u64 \<Rightarrow> u64 \<Rightarrow> u64 \<Rightarrow> nat \<Rightarrow> nat \<Rightarrow> vmm \<Rightarrow> vmm" where
  "protect_pages pml4 base flags i 0 v = v"
| "protect_pages pml4 base flags i (Suc n) v =
    protect_pages pml4 base flags (i + 1) n (snd (ProtectPageInto pml4 (base + of_nat (i * PAGE_SIZE)) flags v))"

definition protect_flags :: "u64 \<Rightarrow> u64" where
  "protect_flags a3 = (let flags = PTE_PRESENT OR PTE_USER in if a3 AND 0xCC \<noteq> 0 then flags OR PTE_WRITABLE else flags)"

definition NtProtectVM :: "u64 \<Rightarrow> u64 \<Rightarrow> u64 \<Rightarrow> psys \<Rightarrow> u64 \<times> psys" where
  "NtProtectVM a1 a2 a3 s =
    (case current_thread s of None \<Rightarrow> (nt STATUS_UNSUCCESSFUL, s)
     | Some (t, p) \<Rightarrow>
       (let base = a1 AND NOT 0xFFF;
            span = (a2 + (a1 AND 0xFFF) + of_nat PAGE_SIZE - 1) div of_nat PAGE_SIZE;
            span = (if span = 0 then 1 else span)
        in (nt STATUS_SUCCESS, s\<lparr>p_vmm := protect_pages (Cr3 (the_proc s p)) base (protect_flags a3) 0 (unat span) (p_vmm s)\<rparr>)))"

text \<open>MEMORY\_BASIC\_INFORMATION is cleared byte by byte and then filled in field by field.\<close>
definition query_vm :: "u64 \<Rightarrow> u64 \<Rightarrow> u64 \<Rightarrow> u64 \<Rightarrow> vmm \<Rightarrow> vmm" where
  "query_vm pml4 a2 va pte v =
    (let v = write_user pml4 a2 (replicate 48 0) v;
         v = WriteUserU64 pml4 (a2 + 0x00) va v;
         v = WriteUserU64 pml4 (a2 + 0x18) (of_nat PAGE_SIZE) v in
     if pte AND PTE_PRESENT \<noteq> 0 then
       (let v = WriteUserU64 pml4 (a2 + 0x08) va v;
            v = WriteUserU32 pml4 (a2 + 0x20) 0x1000 v;
            v = WriteUserU32 pml4 (a2 + 0x24) (if pte AND PTE_WRITABLE \<noteq> 0 then 0x04 else 0x02) v
        in WriteUserU32 pml4 (a2 + 0x28) 0x20000 v)
     else WriteUserU32 pml4 (a2 + 0x20) 0x10000 v)"

definition NtQueryVM :: "u64 \<Rightarrow> u64 \<Rightarrow> psys \<Rightarrow> u64 \<times> psys" where
  "NtQueryVM a1 a2 s =
    (case current_thread s of None \<Rightarrow> (nt STATUS_UNSUCCESSFUL, s)
     | Some (t, p) \<Rightarrow>
        if a2 = 0 then (nt STATUS_UNSUCCESSFUL, s) else
        let pml4 = Cr3 (the_proc s p); va = a1 AND NOT 0xFFF; pte = GetPteInto pml4 va (p_vmm s)
        in (nt STATUS_SUCCESS, s\<lparr>p_vmm := query_vm pml4 a2 va pte (p_vmm s)\<rparr>))"

section \<open>Sections\<close>

record KSection =
  sec_phys :: "u64 list"
  sec_pages :: nat
  sec_in_use :: bool

definition SECTION_MAX :: nat where "SECTION_MAX = 8"
definition SECTION_PAGES :: nat where "SECTION_PAGES = 32"

text \<open>The pages j, j + 1, ... of a section, page j filled with the bytes g j.\<close>
fun fill_frames :: "(nat \<Rightarrow> nat \<Rightarrow> u8) \<Rightarrow> nat \<Rightarrow> nat \<Rightarrow> u64 list \<Rightarrow> vmm \<Rightarrow> bool \<times> u64 list \<times> vmm" where
  "fill_frames g j 0 ph v = (True, ph, v)"
| "fill_frames g j (Suc n) ph v =
    (let (phys, v) = alloc_page v in
     if phys = 0 then (False, ph, v) else fill_frames g (j + 1) n (ph[j := phys]) (wr_bytes phys PAGE_SIZE (g j) v))"

text \<open>The first section that is not in use gets the pages.  The handle is its index plus one.\<close>
fun make_section :: "nat \<Rightarrow> (nat \<Rightarrow> nat \<Rightarrow> u8) \<Rightarrow> nat \<Rightarrow> KSection list \<Rightarrow> vmm \<Rightarrow> u64 \<times> KSection list \<times> vmm" where
  "make_section pages g i [] v = (0, [], v)"
| "make_section pages g i (x # xs) v =
    (if sec_in_use x then (let (h, xs, v) = make_section pages g (i + 1) xs v in (h, x # xs, v))
     else let (ok, ph, v) = fill_frames g 0 pages (sec_phys x) v
          in (if ok then of_nat (i + 1) else 0, \<lparr>sec_phys = ph, sec_pages = pages, sec_in_use = ok\<rparr> # xs, v))"

definition NtCreateSection :: "u64 \<Rightarrow> KSection list \<Rightarrow> vmm \<Rightarrow> u64 \<times> KSection list \<times> vmm" where
  "NtCreateSection a1 secs v =
    (let pages = pages_of a1 in
     if a1 = 0 \<or> pages > of_nat SECTION_PAGES then (0, secs, v)
     else make_section (unat pages) (\<lambda>_ _. 0) 0 secs v)"

text \<open>CreateSectionFromData: the bytes of the data, zeros after its end.\<close>
definition data_page :: "(u64 \<Rightarrow> u8) \<Rightarrow> u64 \<Rightarrow> nat \<Rightarrow> nat \<Rightarrow> u8" where
  "data_page data sz j k = (let off = of_nat (j * PAGE_SIZE) in if off + of_nat k < sz then data (off + of_nat k) else 0)"

definition CreateSectionFromData :: "(u64 \<Rightarrow> u8) \<Rightarrow> u64 \<Rightarrow> KSection list \<Rightarrow> vmm \<Rightarrow> u64 \<times> KSection list \<times> vmm" where
  "CreateSectionFromData data sz secs v =
    (let pages = pages_of sz in
     if sz = 0 \<or> pages > of_nat SECTION_PAGES then (0, secs, v)
     else make_section (unat pages) (data_page data sz) 0 secs v)"

fun map_frames :: "u64 \<Rightarrow> u64 \<Rightarrow> nat \<Rightarrow> u64 list \<Rightarrow> vmm \<Rightarrow> bool \<times> vmm" where
  "map_frames pml4 va i [] v = (True, v)"
| "map_frames pml4 va i (f # fs) v =
    (let (ok, v) = MapPageInto pml4 (va + of_nat (i * PAGE_SIZE)) f USER_RW v in
     if ok then map_frames pml4 va (i + 1) fs v else (False, v))"

definition NtMapView :: "u64 \<Rightarrow> KSection list \<Rightarrow> psys \<Rightarrow> u64 \<times> psys" where
  "NtMapView a1 secs s =
    (if a1 = 0 \<or> a1 > of_nat SECTION_MAX then (0, s) else
     let sec = secs ! unat (a1 - 1) in
     if \<not> sec_in_use sec then (0, s) else
     case current_thread s of None \<Rightarrow> (0, s)
     | Some (t, p) \<Rightarrow>
       (let va = UserHeapCursor (the_proc s p); sz = of_nat (sec_pages sec * PAGE_SIZE) in
        if va + sz > HEAP_MAX then (0, s) else
        let s = set_proc p (\<lambda>k. k\<lparr>UserHeapCursor := UserHeapCursor k + sz\<rparr>) s;
            (ok, v) = map_frames (Cr3 (the_proc s p)) va 0 (take (sec_pages sec) (sec_phys sec)) (p_vmm s)
        in (if ok then va else 0, s\<lparr>p_vmm := v\<rparr>)))"

fun unmap_pages :: "u64 \<Rightarrow> u64 \<Rightarrow> nat \<Rightarrow> nat \<Rightarrow> vmm \<Rightarrow> vmm" where
  "unmap_pages pml4 va j 0 v = v"
| "unmap_pages pml4 va j (Suc n) v = unmap_pages pml4 va (j + 1) n (UnmapPageFrom pml4 (va + of_nat (j * PAGE_SIZE)) v)"

definition NtUnmapView :: "u64 \<Rightarrow> KSection list \<Rightarrow> psys \<Rightarrow> u64 \<times> psys" where
  "NtUnmapView a1 secs s =
    (case current_thread s of None \<Rightarrow> (nt STATUS_INVALID_PARAMETER, s)
     | Some (t, p) \<Rightarrow>
       (let pml4 = Cr3 (the_proc s p); phys = TranslateInPml4 pml4 a1 (p_vmm s) in
        case find (\<lambda>sec. sec_in_use sec \<and> phys \<noteq> 0 \<and> phys = sec_phys sec ! 0) secs of
          Some sec \<Rightarrow> (nt STATUS_SUCCESS, s\<lparr>p_vmm := unmap_pages pml4 a1 0 (sec_pages sec) (p_vmm s)\<rparr>)
        | None \<Rightarrow> (nt STATUS_NOT_FOUND, s)))"

section \<open>Committing pages\<close>

lemma same_page_nat: "same_page v w \<longleftrightarrow> unat v div 4096 mod 2 ^ 36 = unat w div 4096 mod 2 ^ 36"
proof -
  have "unat (take_bit 36 (drop_bit 12 x)) = unat x div 4096 mod 2 ^ 36" for x :: u64
    by (subst unsigned_take_bit_eq, subst unat_drop_bit_eq) (simp add: take_bit_eq_mod drop_bit_eq_div)
  then show ?thesis by (simp add: same_page_def word_unat_eq_iff)
qed

lemma page_number: "unat (va + of_nat (j * 4096) :: u64) div 4096 mod 2 ^ 36 = (unat va div 4096 + j) mod 2 ^ 36"
proof -
  have e: "(2 :: nat) ^ 64 = 4096 * 2 ^ 52" by simp
  have "unat (va + of_nat (j * 4096)) = (unat va + j * 4096) mod 2 ^ 64"
    by (simp add: unat_word_ariths unat_of_nat mod_simps)
  then have "unat (va + of_nat (j * 4096)) div 4096 = (unat va + j * 4096) div 4096 mod 2 ^ 52"
    unfolding e by (simp only: mod_mult2_eq)
  also have "(unat va + j * 4096) div 4096 = unat va div 4096 + j" by simp
  finally show ?thesis using mod_mod_cancel [of "2 ^ 36" "2 ^ 52" "unat va div 4096 + j"] by (simp add: le_imp_power_dvd)
qed

lemma mod_shift:
  fixes m :: nat assumes "(a + j) mod m = (a + k) mod m" "j < m" "k < m" shows "j = k"
proof -
  have *: "x = y" if "(a + x) mod m = (a + y) mod m" "x \<le> y" "y < m" for x y
  proof (rule ccontr)
    assume "x \<noteq> y"
    have le: "a + x \<le> a + y" using that(2) by simp
    have "m dvd (a + y) - (a + x)" using that(1) by (subst mod_eq_dvd_iff_nat [OF le, symmetric]) (rule sym)
    then have "m dvd y - x" by simp
    then have "m \<le> y - x" using \<open>x \<noteq> y\<close> that(2) by (intro dvd_imp_le) simp_all
    then show False using that(3) by simp
  qed
  show ?thesis using *[of j k] *[of k j] assms by linarith
qed

lemma same_page_steps:
  assumes "j < 2 ^ 36" "k < 2 ^ 36" "same_page (va + of_nat (j * 4096)) (va + of_nat (k * 4096))" shows "j = k"
  by (rule mod_shift [OF assms(3) [unfolded same_page_nat page_number] assms(1,2)])

text \<open>What committing n pages from page i on does; in_range says that an address is on one of them.\<close>
definition in_range :: "u64 \<Rightarrow> u64 \<Rightarrow> nat \<Rightarrow> nat \<Rightarrow> bool" where
  "in_range w va i n \<longleftrightarrow> (\<exists>j\<ge>i. j < i + n \<and> same_page w (va + of_nat (j * PAGE_SIZE)))"

lemma in_range_0 [simp]: "\<not> in_range w va i 0" by (auto simp: in_range_def)

lemma in_range_Suc: "in_range w va i (Suc n) \<longleftrightarrow> same_page w (va + of_nat (i * PAGE_SIZE)) \<or> in_range w va (i + 1) n"
  unfolding in_range_def by (metis Suc_eq_plus1 Suc_leI add_Suc_right add_Suc_shift le_add1 le_eq_less_or_eq less_add_Suc1 Suc_leD)

definition committed :: "vmm \<Rightarrow> u64 \<Rightarrow> u64 \<Rightarrow> nat \<Rightarrow> nat \<Rightarrow> bool \<Rightarrow> vmm \<Rightarrow> bool" where
  "committed v r va i n ok v' \<longleftrightarrow> pt_wf v' r \<and> used_frames v \<subseteq> used_frames v'
     \<and> (\<forall>w. \<not> in_range w va i n \<longrightarrow> TranslateInPml4 r w v' = TranslateInPml4 r w v)
     \<and> (\<forall>w h. \<not> in_range w va i n \<longrightarrow> page_holds v r w h \<longrightarrow> page_holds v' r w h)
     \<and> (ok \<longrightarrow> (\<forall>j. i \<le> j \<longrightarrow> j < i + n \<longrightarrow> page_holds v' r (va + of_nat (j * PAGE_SIZE)) (\<lambda>_. 0)))"

lemma commit_pages_committed:
  assumes "pt_wf v r" "commit_pages r va i n v = (ok, v')" "i + n < 2 ^ 36"
  shows "committed v r va i n ok v'"
  using assms
proof (induction n arbitrary: i v)
  case (Suc n)
  let ?va = "va + of_nat (i * PAGE_SIZE)"
  obtain f v1 where A: "alloc_page v = (f, v1)" by fastforce
  show ?case
  proof (cases "f = 0")
    case True
    have "v1 = v" using alloc_page_none A True Suc.prems(1) by (simp add: pt_wf_def)
    then show ?thesis using Suc.prems A True by (auto simp: committed_def)
  next
    case False
    have inv: "pmm_inv (vm_pmm v)" using Suc.prems(1) by (simp add: pt_wf_def)
    have W: "writes_only v1 f (zero_page f v1)" using alloc_page_frame(1) [OF inv A False] by (rule zero_page_only)
    obtain b v3 where M: "MapPageInto r ?va f USER_RW (zero_page f v1) = (b, v3)" by fastforce
    have fl: "USER_RW AND PTE_ADDR_MASK = 0" by (simp add: PTE_PRESENT_def PTE_WRITABLE_def PTE_USER_def PTE_ADDR_MASK_def)
    note S = map_data_page [OF Suc.prems(1) A False W M fl] and H = map_data_page_holds [OF Suc.prems(1) A False W M fl]
    show ?thesis
    proof (cases b)
      case True
      then have C: "commit_pages r va (i + 1) n v3 = (ok, v')" using Suc.prems(2) A False M by simp
      have "committed v3 r va (i + 1) n ok v'" by (rule Suc.IH [OF S(1) C]) (use Suc.prems(3) in simp)
      note I = this [unfolded committed_def]
      have "\<not> in_range ?va va (i + 1) n"
      proof
        assume "in_range ?va va (i + 1) n"
        then obtain j where j: "j \<ge> i + 1" "j < i + 1 + n" "same_page (va + of_nat (i * 4096)) (va + of_nat (j * 4096))"
          by (auto simp: in_range_def PAGE_SIZE_def)
        have "i < 2 ^ 36" "j < 2 ^ 36" using j(1,2) Suc.prems(3) by simp_all
        then show False using same_page_steps [OF _ _ j(3)] j(1) by simp
      qed
      moreover have "page_holds v3 r ?va (\<lambda>_. 0)" by (rule H(1) [OF True]) (rule rd8_zero_page)
      ultimately have z: "page_holds v' r ?va (\<lambda>_. 0)" using I by blast
      have "page_holds v' r (va + of_nat (j * PAGE_SIZE)) (\<lambda>_. 0)" if "ok" "i \<le> j" "j < i + Suc n" for j
        using I z that by (cases "j = i") (auto simp: not_less_eq_eq)
      then show ?thesis using I S(2,4) H(2) unfolding committed_def in_range_Suc by (auto simp: True)
    next
      case b: False
      then have e: "ok = False" "v' = v3" using Suc.prems(2) A False M by auto
      show ?thesis unfolding committed_def in_range_Suc e using S(1,2,4) H(2) b by auto
    qed
  qed
qed (auto simp: committed_def)

text \<open>Every page takes a frame.\<close>
lemma commit_pages_frames:
  assumes "pt_wf v r" "commit_pages r va i n v = (True, v')" shows "n \<le> card (pmm_frames (vm_pmm v))"
  using assms
proof (induction n arbitrary: i v)
  case (Suc n)
  let ?va = "va + of_nat (i * PAGE_SIZE)"
  obtain f v1 where A: "alloc_page v = (f, v1)" by fastforce
  have f0: "f \<noteq> 0" using Suc.prems(2) A by auto
  have inv: "pmm_inv (vm_pmm v)" using Suc.prems(1) by (simp add: pt_wf_def)
  note F = alloc_page_frame [OF inv A f0]
  have W: "writes_only v1 f (zero_page f v1)" using F(1) by (rule zero_page_only)
  obtain b v3 where M: "MapPageInto r ?va f USER_RW (zero_page f v1) = (b, v3)" by fastforce
  have fl: "USER_RW AND PTE_ADDR_MASK = 0" by (simp add: PTE_PRESENT_def PTE_WRITABLE_def PTE_USER_def PTE_ADDR_MASK_def)
  note S = map_data_page [OF Suc.prems(1) A f0 W M fl]
  have C: "commit_pages r va (i + 1) n v3 = (True, v')" using Suc.prems(2) A f0 M by (simp split: if_splits)
  have fr: "pmm_frames (vm_pmm s) = pmm_all_frames - {0} - used_frames s" if "pmm_inv (vm_pmm s)" for s
    using pmm.frames_ok [OF that] pmm.frame_nonzero [OF that] by (auto simp: used_frames_def)
  have inv3: "pmm_inv (vm_pmm v3)" using S(1) by (simp add: pt_wf_def)
  have "f \<in> used_frames v3" using S(3) by (simp add: data_frame_def)
  then have "pmm_frames (vm_pmm v3) \<subset> pmm_frames (vm_pmm v)" unfolding fr [OF inv3] fr [OF inv] using S(2) F(1,2) f0 by blast
  then have "card (pmm_frames (vm_pmm v3)) < card (pmm_frames (vm_pmm v))"
    by (intro psubset_card_mono) (simp_all add: pmm_frames_def finite_pmm_free)
  then show ?case using Suc.IH [OF S(1) C] by simp
qed simp

section \<open>Allocation\<close>

lemma card_frames_small: "pmm_inv p \<Longrightarrow> card (pmm_frames p) < 2 ^ 36"
proof -
  assume "pmm_inv p"
  have "pmm_free p \<subseteq> {..<MAX_PAGES}" by (auto simp: pmm_free_def)
  then have "card (pmm_free p) \<le> MAX_PAGES" using card_mono [of "{..<MAX_PAGES}"] by force
  then show ?thesis using \<open>pmm_inv p\<close> by (simp add: card_pmm_frames MAX_PAGES_val)
qed

lemma set_proc_cursor [simp]: "the_proc (set_proc p f s) p = f (the_proc s p)" "p_vmm (set_proc p f s) = p_vmm s"
  "current_thread (set_proc p f s) = current_thread s"
  by (simp_all add: set_proc_def upd_proc_def current_thread_def CurrentThread_def split: option.split)

text \<open>C24 (functional): allocation from the heap of a process.  When NtAllocVM returns an address, it is
  the old cursor, and the cursor moves behind the pages of the request; each of these pages is
  mapped to memory that reads zero, and outside them every translation and the contents of every
  page are kept.\<close>
theorem heap_alloc:
  assumes "current_thread s = Some (t, p)" "pt_wf (p_vmm s) (Cr3 (the_proc s p))"
    and "NtAllocVM a1 s = (va, s')" "va \<noteq> 0"
  defines "r \<equiv> Cr3 (the_proc s p)" and "n \<equiv> unat (pages_of a1)"
  shows "va = UserHeapCursor (the_proc s p) \<and> UserHeapCursor (the_proc s' p) = va + pages_of a1 * of_nat PAGE_SIZE
    \<and> pt_wf (p_vmm s') r \<and> (\<forall>j<n. page_holds (p_vmm s') r (va + of_nat (j * PAGE_SIZE)) (\<lambda>_. 0))
    \<and> (\<forall>w. \<not> in_range w va 0 n \<longrightarrow> TranslateInPml4 r w (p_vmm s') = TranslateInPml4 r w (p_vmm s)
         \<and> (\<forall>h. page_holds (p_vmm s) r w h \<longrightarrow> page_holds (p_vmm s') r w h))"
proof -
  obtain ok v where C: "commit_pages r (UserHeapCursor (the_proc s p)) 0 n (p_vmm s) = (ok, v)" by fastforce
  have e: "ok" "va = UserHeapCursor (the_proc s p)"
      "s' = (set_proc p (\<lambda>k. k\<lparr>UserHeapCursor := UserHeapCursor k + pages_of a1 * of_nat PAGE_SIZE\<rparr>) s)\<lparr>p_vmm := v\<rparr>"
    using assms(1,3,4) C by (auto simp: NtAllocVM_def r_def n_def Let_def split: if_splits)
  have wf: "pt_wf (p_vmm s) r" using assms(2) by (simp add: r_def)
  have "n \<le> card (pmm_frames (vm_pmm (p_vmm s)))" using commit_pages_frames [OF wf] C e(1) by simp
  then have "0 + n < 2 ^ 36" using card_frames_small [of "vm_pmm (p_vmm s)"] wf by (simp add: pt_wf_def)
  from commit_pages_committed [OF wf C this] show ?thesis
    using e(1,2) by (simp add: e(3) committed_def)
qed

text \<open>A request just below 2 to the 64th passes the check, because the sum wraps; all of memory is
  then handed out before the loop fails, and the cursor has moved one page back, into the last
  allocation.\<close>
lemma heap_alloc_wraps:
  assumes "current_thread s = Some (t, p)" "pt_wf (p_vmm s) (Cr3 (the_proc s p))"
    and "0x1000 \<le> UserHeapCursor (the_proc s p)" "UserHeapCursor (the_proc s p) \<le> HEAP_MAX"
  defines "s' \<equiv> snd (NtAllocVM 0xFFFFFFFFFFFFF000 s)"
  shows "fst (NtAllocVM 0xFFFFFFFFFFFFF000 s) = 0" "UserHeapCursor (the_proc s' p) = UserHeapCursor (the_proc s p) - 0x1000"
proof -
  let ?c = "UserHeapCursor (the_proc s p)"
  have n: "pages_of 0xFFFFFFFFFFFFF000 = 0xFFFFFFFFFFFFF" by (simp add: pages_of_def PAGE_SIZE_def)
  obtain ok v where C: "commit_pages (Cr3 (the_proc s p)) ?c 0 0xFFFFFFFFFFFFF (p_vmm s) = (ok, v)" by fastforce
  have "\<not> ok"
    using commit_pages_frames [OF assms(2), of ?c 0 "0xFFFFFFFFFFFFF" v] C card_frames_small [of "vm_pmm (p_vmm s)"] assms(2)
    by (auto simp: pt_wf_def)
  have w: "?c + 0xFFFFFFFFFFFFF * of_nat PAGE_SIZE = ?c - 0x1000" by (simp add: PAGE_SIZE_def)
  have "?c - 0x1000 \<le> HEAP_MAX" using assms(3,4) word_sub_le [of "0x1000" ?c] by simp
  then have "\<not> (?c + 0xFFFFFFFFFFFFF * of_nat PAGE_SIZE > HEAP_MAX)" by (simp only: w not_less)
  then show "fst (NtAllocVM 0xFFFFFFFFFFFFF000 s) = 0" "UserHeapCursor (the_proc s' p) = ?c - 0x1000"
    using assms(1) C \<open>\<not> ok\<close> by (simp_all add: NtAllocVM_def n s'_def w Let_def)
qed

section \<open>Sections\<close>

text \<open>Mapping the frames of a section: page j of the view is the j-th frame.\<close>
lemma map_frames_spec:
  assumes "pt_wf v r" "\<forall>f\<in>set fs. data_frame v r f" "map_frames r va i fs v = (ok, v')" "i + length fs < 2 ^ 36"
  shows "pt_wf v' r \<and> (\<forall>g. data_frame v r g \<longrightarrow> data_frame v' r g)
    \<and> (\<forall>g a. data_frame v r g \<longrightarrow> a < 4096 \<longrightarrow> rd8 v' (g + of_nat a) = rd8 v (g + of_nat a))
    \<and> (\<forall>w g. page_at v r w g \<longrightarrow> \<not> in_range w va i (length fs) \<longrightarrow> page_at v' r w g)
    \<and> (ok \<longrightarrow> (\<forall>j<length fs. page_at v' r (va + of_nat ((i + j) * PAGE_SIZE)) (fs ! j)))"
  using assms
proof (induction fs arbitrary: i v)
  case (Cons f fs)
  let ?va = "va + of_nat (i * PAGE_SIZE)"
  have d: "data_frame v r f" using Cons.prems(2) by simp
  have fl: "USER_RW AND PTE_ADDR_MASK = 0" by (simp add: PTE_PRESENT_def PTE_WRITABLE_def PTE_USER_def PTE_ADDR_MASK_def)
  obtain b v1 where M: "MapPageInto r ?va f USER_RW v = (b, v1)" by fastforce
  note S = map_frame [OF Cons.prems(1) d M fl]
  have R: "rd8 v1 (g + of_nat a) = rd8 v (g + of_nat a)" if "data_frame v r g" "a < 4096" for g a
    using rd8_frame_cong [of g a v1 v] S(5) [OF that(1)] that by (auto simp: data_frame_def dest: used_frame)
  show ?case
  proof (cases b)
    case True
    then have C: "map_frames r va (i + 1) fs v1 = (ok, v')" using Cons.prems(3) M by simp
    have "\<forall>f\<in>set fs. data_frame v1 r f" using Cons.prems(2) S(4) by simp
    note I = Cons.IH [OF S(1) this C]
    have nr: "\<not> in_range ?va va (i + 1) (length fs)"
    proof
      assume "in_range ?va va (i + 1) (length fs)"
      then obtain j where j: "j \<ge> i + 1" "j < i + 1 + length fs" "same_page (va + of_nat (i * 4096)) (va + of_nat (j * 4096))"
        by (auto simp: in_range_def PAGE_SIZE_def)
      have "i < 2 ^ 36" "j < 2 ^ 36" using j(1,2) Cons.prems(4) by simp_all
      then show False using same_page_steps [OF _ _ j(3)] j(1) by simp
    qed
    have "page_at v' r ?va f" using I S(6) [OF True] nr Cons.prems(4) by simp
    then have "page_at v' r (va + of_nat ((i + j) * PAGE_SIZE)) ((f # fs) ! j)" if "ok" "j < length (f # fs)" for j
      using I that Cons.prems(4) by (cases j) (simp_all del: of_nat_mult of_nat_add of_nat_Suc)
    then show ?thesis using I S(4,7) R Cons.prems(4) in_range_Suc [of _ va i "length fs"] by simp
  next
    case False
    then have e: "ok = False" "v' = v1" using Cons.prems(3) M by auto
    show ?thesis unfolding e using S(1,4,7) R False by auto
  qed
qed auto

section \<open>When memory suffices\<close>

definition pages_at :: "u64 \<Rightarrow> nat \<Rightarrow> nat \<Rightarrow> u64 list" where
  "pages_at va i n = map (\<lambda>j. va + of_nat (j * PAGE_SIZE)) [i..<i + n]"

lemma pages_at_Suc: "pages_at va i (Suc n) = (va + of_nat (i * PAGE_SIZE)) # pages_at va (i + 1) n"
  by (simp add: pages_at_def upt_conv_Cons del: upt_Suc)

lemma user_rw_addr: "USER_RW AND PTE_ADDR_MASK = 0"
  by (simp add: PTE_PRESENT_def PTE_WRITABLE_def PTE_USER_def PTE_ADDR_MASK_def)

lemma commit_pages_room:
  assumes "pt_wf v r" "room v r (pages_at va i n @ vas)" "commit_pages r va i n v = (ok, v')"
  shows "ok \<and> room v' r vas"
  using assms
proof (induction n arbitrary: i v)
  case (Suc n)
  let ?va = "va + of_nat (i * PAGE_SIZE)"
  obtain f v1 where A: "alloc_page v = (f, v1)" by fastforce
  have R: "room v r (?va # pages_at va (i + 1) n @ vas)" using Suc.prems(2) by (simp add: pages_at_Suc)
  have f0: "f \<noteq> 0" by (rule alloc_page_room [OF Suc.prems(1) R A])
  have inv: "pmm_inv (vm_pmm v)" using Suc.prems(1) by (simp add: pt_wf_def)
  have W: "writes_only v1 f (zero_page f v1)" using alloc_page_frame(1) [OF inv A f0] by (rule zero_page_only)
  obtain b v3 where M: "MapPageInto r ?va f USER_RW (zero_page f v1) = (b, v3)" by fastforce
  note S = map_data_page [OF Suc.prems(1) A f0 W M user_rw_addr]
  note B = map_data_page_room [OF Suc.prems(1) R A W M empty_subsetI]
  have "commit_pages r va (i + 1) n v3 = (ok, v')" using Suc.prems(3) A f0 M B(1) by simp
  then show ?case by (rule Suc.IH [OF S(1) B(2)])
qed (simp add: pages_at_def)

lemma map_frames_room:
  assumes "pt_wf v r" "\<forall>f\<in>set fs. data_frame v r f" "room v r (pages_at va i (length fs) @ vas)" "map_frames r va i fs v = (ok, v')"
  shows "ok \<and> room v' r vas"
  using assms
proof (induction fs arbitrary: i v)
  case (Cons f fs)
  let ?va = "va + of_nat (i * PAGE_SIZE)" and ?ps = "pages_at va (i + 1) (length fs) @ vas"
  obtain b v1 where M: "MapPageInto r ?va f USER_RW v = (b, v1)" by fastforce
  have R: "room v r (?va # ?ps)" using Cons.prems(3) by (simp add: pages_at_Suc)
  have h: "\<not> walk_huge v r ?va" "3 \<le> card (pmm_frames (vm_pmm v))" using R by (auto simp: room_def)
  note V = MapPageInto_avail [OF Cons.prems(1) h(2,1) M]
  have "\<not> walk_huge v1 r w" if "w \<in> set ?ps" for w using walk_huge_mono [OF V(3)] R that unfolding room_def by (metis list.set_intros(2))
  then have R1: "room v1 r ?ps" using V(2) R by (simp add: room_def)
  have "data_frame v r f" using Cons.prems(2) by simp
  note S = map_frame [OF Cons.prems(1) this M user_rw_addr]
  show ?case using Cons.IH [OF S(1) _ R1] Cons.prems(2,4) S(4) V(1) M by simp
qed (simp add: pages_at_def)

text \<open>An allocation that fits the heap and the free memory succeeds.\<close>
lemma heap_alloc_succeeds:
  assumes "current_thread s = Some (t, p)" "pt_wf (p_vmm s) (Cr3 (the_proc s p))" "a1 \<noteq> 0"
    and "room (p_vmm s) (Cr3 (the_proc s p)) (pages_at (UserHeapCursor (the_proc s p)) 0 (unat (pages_of a1)))"
    and "UserHeapCursor (the_proc s p) + pages_of a1 * of_nat PAGE_SIZE \<le> HEAP_MAX"
  shows "fst (NtAllocVM a1 s) = UserHeapCursor (the_proc s p)"
proof -
  let ?c = "UserHeapCursor (the_proc s p)"
  obtain ok v where C: "commit_pages (Cr3 (the_proc s p)) ?c 0 (unat (pages_of a1)) (p_vmm s) = (ok, v)" by fastforce
  have "ok" using commit_pages_room [OF assms(2) _ C, of "[]"] assms(4) by simp
  moreover have "\<not> HEAP_MAX < ?c + pages_of a1 * of_nat PAGE_SIZE" using assms(5) by (simp only: not_less)
  ultimately show ?thesis using assms(1,3) C by (simp add: NtAllocVM_def Let_def)
qed

section \<open>Views of a section\<close>

text \<open>A section whose frames are data frames of the address space.\<close>
definition section_ok :: "vmm \<Rightarrow> u64 \<Rightarrow> KSection \<Rightarrow> bool" where
  "section_ok v r sec \<longleftrightarrow> sec_in_use sec \<and> sec_pages sec \<le> length (sec_phys sec) \<and> length (sec_phys sec) = SECTION_PAGES
     \<and> (\<forall>f\<in>set (take (sec_pages sec) (sec_phys sec)). data_frame v r f)"

lemma NtMapView_spec:
  assumes cur: "current_thread s = Some (t, p)" and wf: "pt_wf (p_vmm s) (Cr3 (the_proc s p))"
    and a1: "1 \<le> a1" "a1 \<le> of_nat SECTION_MAX" and ok: "section_ok (p_vmm s) (Cr3 (the_proc s p)) (secs ! unat (a1 - 1))"
    and M: "NtMapView a1 secs s = (va, s')" "va \<noteq> 0"
  defines "r \<equiv> Cr3 (the_proc s p)" and "sec \<equiv> secs ! unat (a1 - 1)"
  shows "va = UserHeapCursor (the_proc s p)" "UserHeapCursor (the_proc s' p) = va + of_nat (sec_pages sec * PAGE_SIZE)"
    "current_thread s' = Some (t, p)" "Cr3 (the_proc s' p) = r" "pt_wf (p_vmm s') r" "section_ok (p_vmm s') r sec"
    "j < sec_pages sec \<Longrightarrow> page_at (p_vmm s') r (va + of_nat (j * PAGE_SIZE)) (sec_phys sec ! j)"
    "page_at (p_vmm s) r w g \<Longrightarrow> \<not> in_range w va 0 (sec_pages sec) \<Longrightarrow> page_at (p_vmm s') r w g"
    "data_frame (p_vmm s) r g \<Longrightarrow> a < 4096 \<Longrightarrow> rd8 (p_vmm s') (g + of_nat a) = rd8 (p_vmm s) (g + of_nat a)"
proof -
  let ?fs = "take (sec_pages sec) (sec_phys sec)" and ?c = "UserHeapCursor (the_proc s p)"
  have S: "section_ok (p_vmm s) r sec" using ok by (simp add: r_def sec_def)
  obtain b v where F: "map_frames r ?c 0 ?fs (p_vmm s) = (b, v)" by fastforce
  have a0: "a1 \<noteq> 0" using a1(1) by auto
  have e: "b" "va = ?c" "s' = (set_proc p (\<lambda>k. k\<lparr>UserHeapCursor := UserHeapCursor k + of_nat (sec_pages sec * PAGE_SIZE)\<rparr>) s)\<lparr>p_vmm := v\<rparr>"
    using M cur F S a0 a1(2) by (auto simp: NtMapView_def section_ok_def Let_def not_less simp flip: r_def sec_def split: if_splits)
  have wf': "pt_wf (p_vmm s) r" using wf by (simp add: r_def)
  have D: "\<forall>f\<in>set ?fs. data_frame (p_vmm s) r f" using S by (simp add: section_ok_def)
  have n: "length ?fs = sec_pages sec" using S by (simp add: section_ok_def)
  have "0 + length ?fs < 2 ^ 36" using S by (simp add: section_ok_def SECTION_PAGES_def)
  note T = map_frames_spec [OF wf' D F this]
  show "va = ?c" "UserHeapCursor (the_proc s' p) = va + of_nat (sec_pages sec * PAGE_SIZE)" "Cr3 (the_proc s' p) = r"
    using e by (simp_all add: r_def)
  show "current_thread s' = Some (t, p)" using cur by (simp add: e(3) current_thread_def set_proc_def upd_proc_def CurrentThread_def split: option.splits)
  show "pt_wf (p_vmm s') r" using T by (simp add: e(3))
  show "section_ok (p_vmm s') r sec" using T S by (simp add: e(3) section_ok_def)
  show "page_at (p_vmm s') r (va + of_nat (j * PAGE_SIZE)) (sec_phys sec ! j)" if "j < sec_pages sec"
    using T e(1) that n by (simp add: e(3) flip: e(2))
  show "page_at (p_vmm s) r w g \<Longrightarrow> \<not> in_range w va 0 (sec_pages sec) \<Longrightarrow> page_at (p_vmm s') r w g"
    using T n by (simp add: e(3) flip: e(2))
  show "data_frame (p_vmm s) r g \<Longrightarrow> a < 4096 \<Longrightarrow> rd8 (p_vmm s') (g + of_nat a) = rd8 (p_vmm s) (g + of_nat a)"
    using T by (simp add: e(3))
qed

lemma page_base:
  assumes "va AND 0xFFF = (0 :: u64)" shows "(va + of_nat (j * 4096)) AND mask 12 = 0"
proof -
  have v: "va AND mask 12 = 0" using assms by (simp add: page_offset_mask)
  have "take_bit 12 (of_nat (j * 4096) :: u64) = 0" using take_bit_of_nat [of 12 "j * 4096", where ?'a = u64] by (simp add: take_bit_eq_mod)
  then have o: "of_nat (j * 4096) AND mask 12 = (0 :: u64)" by (simp only: take_bit_eq_mask)
  have "(va + of_nat (j * 4096)) AND mask 12 = ((va AND mask 12) + (of_nat (j * 4096) AND mask 12)) AND mask 12" by (rule mask_eqs(7) [symmetric])
  then show ?thesis by (simp only: v o) simp
qed

lemma view_address:
  assumes "va AND 0xFFF = 0" "\<And>j. j < n \<Longrightarrow> page_at v r (va + of_nat (j * PAGE_SIZE)) (fs ! j)" "k < n * 4096"
  shows "page_at v r (va + of_nat k) (fs ! (k div 4096))"
    "TranslateInPml4 r (va + of_nat k) v = fs ! (k div 4096) + of_nat (k mod 4096)"
proof -
  let ?b = "va + of_nat (k div 4096 * 4096)"
  have b: "?b AND mask 12 = 0" by (rule page_base [OF assms(1)])
  have "k = k div 4096 * 4096 + k mod 4096" by simp
  then have a: "va + of_nat k = ?b + of_nat (k mod 4096)" by (metis add.assoc of_nat_add)
  note P = page_step [of ?b "k mod 4096", folded a]
  have m: "unat (?b AND mask 12) + k mod 4096 < 4096" unfolding b by simp
  have "k div 4096 < n" using assms(3) by (simp add: less_mult_imp_div_less)
  then have pa: "page_at v r ?b (fs ! (k div 4096))" using assms(2) by (simp add: PAGE_SIZE_def)
  have sp: "same_page (va + of_nat k) ?b" using P(1) [OF m] by (simp add: same_page_def)
  then show "page_at v r (va + of_nat k) (fs ! (k div 4096))" using pa by (auto simp: page_at_def same_page_def)
  show "TranslateInPml4 r (va + of_nat k) v = fs ! (k div 4096) + of_nat (k mod 4096)"
    using pa sp P(2) [OF m] b by (simp add: page_at_def page_offset_mask)
qed

text \<open>C25 (functional): shared memory.  Mapping a section twice into a process gives two adjacent ranges of
  its heap; a byte stored through the first view is read through the second at the same offset,
  at every offset of the section, and the mapping itself does not change what the section holds.\<close>
theorem section_shared:
  assumes "current_thread s = Some (t, p)" "pt_wf (p_vmm s) (Cr3 (the_proc s p))" "UserHeapCursor (the_proc s p) AND 0xFFF = 0"
    and "1 \<le> a1" "a1 \<le> of_nat SECTION_MAX" "section_ok (p_vmm s) (Cr3 (the_proc s p)) (secs ! unat (a1 - 1))"
    and "NtMapView a1 secs s = (va1, s1)" "va1 \<noteq> 0" "NtMapView a1 secs s1 = (va2, s2)" "va2 \<noteq> 0"
  defines "r \<equiv> Cr3 (the_proc s p)" and "sec \<equiv> secs ! unat (a1 - 1)"
  shows "va2 = va1 + of_nat (sec_pages sec * PAGE_SIZE) \<and> pt_wf (p_vmm s2) r
    \<and> (\<forall>k < sec_pages sec * PAGE_SIZE. \<forall>b. ReadUserByte r (va2 + of_nat k) (p_vmm s2) = rd8 (p_vmm s) (sec_phys sec ! (k div 4096) + of_nat (k mod 4096))
         \<and> ReadUserByte r (va2 + of_nat k) (snd (WriteUserByte r (va1 + of_nat k) b (p_vmm s2))) = b)"
proof -
  note A = NtMapView_spec [OF assms(1,2,4-8), folded r_def sec_def]
  have wf1: "pt_wf (p_vmm s1) (Cr3 (the_proc s1 p))" and ok1: "section_ok (p_vmm s1) (Cr3 (the_proc s1 p)) sec" using A(4-6) by simp_all
  note B = NtMapView_spec [OF A(3) wf1 assms(4,5) ok1 [unfolded sec_def] assms(9,10), folded sec_def, unfolded A(4)]
  have n: "sec_pages sec \<le> 32" "sec_pages sec \<le> length (sec_phys sec)" and D: "\<forall>f\<in>set (take (sec_pages sec) (sec_phys sec)). data_frame (p_vmm s) r f"
    using assms(6) by (auto simp: section_ok_def SECTION_PAGES_def r_def sec_def)
  have va2: "va2 = va1 + of_nat (sec_pages sec * PAGE_SIZE)" using A(2) B(1) by simp
  have al: "va1 AND 0xFFF = 0" using assms(3) A(1) by simp
  have al2: "va2 AND 0xFFF = 0" using page_base [OF al] by (simp add: va2 PAGE_SIZE_def page_offset_mask)
  have nr: "\<not> in_range (va1 + of_nat (j * PAGE_SIZE)) va2 0 (sec_pages sec)" if "j < sec_pages sec" for j
  proof
    assume "in_range (va1 + of_nat (j * PAGE_SIZE)) va2 0 (sec_pages sec)"
    then obtain i where i: "i < sec_pages sec" "same_page (va1 + of_nat (j * 4096)) (va2 + of_nat (i * 4096))" by (auto simp: in_range_def PAGE_SIZE_def)
    have "va2 + of_nat (i * 4096) = va1 + of_nat ((sec_pages sec + i) * 4096)" by (simp add: va2 PAGE_SIZE_def algebra_simps)
    then have "same_page (va1 + of_nat (j * 4096)) (va1 + of_nat ((sec_pages sec + i) * 4096))" using i(2) by (simp only:)
    moreover have "j < 2 ^ 36" "sec_pages sec + i < 2 ^ 36" using i(1) n(1) that by simp_all
    ultimately have "j = sec_pages sec + i" using same_page_steps by blast
    then show False using that by simp
  qed
  have v1: "page_at (p_vmm s2) r (va1 + of_nat (j * PAGE_SIZE)) (sec_phys sec ! j)" if "j < sec_pages sec" for j
    by (rule B(8) [OF A(7) nr]) (rule that)+
  have byte: "ReadUserByte r (va2 + of_nat k) (p_vmm s2) = rd8 (p_vmm s) (sec_phys sec ! (k div 4096) + of_nat (k mod 4096))
      \<and> ReadUserByte r (va2 + of_nat k) (snd (WriteUserByte r (va1 + of_nat k) b (p_vmm s2))) = b" if k: "k < sec_pages sec * PAGE_SIZE" for k b
  proof -
    let ?f = "sec_phys sec ! (k div 4096)" and ?o = "of_nat (k mod 4096) :: u64"
    have k': "k < sec_pages sec * 4096" using k by (simp add: PAGE_SIZE_def)
    note V1 = view_address [OF al v1 k'] and V2 = view_address [OF al2 B(7) k']
    have "k div 4096 < sec_pages sec" using k' by (simp add: less_mult_imp_div_less)
    then have d: "data_frame (p_vmm s) r ?f" using D n(2) by (metis nth_take length_take min.absorb2 nth_mem)
    then have f: "?f \<in> pmm_all_frames" "?f \<noteq> 0" by (auto simp: data_frame_def used_frames_def)
    have u: "unat (?f + ?o) = unat ?f + k mod 4096" using frame_byte(3) [OF f(1), of "k mod 4096"] by simp
    have "unat ?f \<noteq> 0" using f(2) unsigned_eq_0_iff by blast
    then have nz: "?f + ?o \<noteq> 0" using u by (metis add_is_0 unsigned_0)
    have d1: "data_frame (p_vmm s1) r ?f" using A(7) [OF \<open>k div 4096 < sec_pages sec\<close>] by (simp add: page_at_def)
    have "rd8 (p_vmm s2) (?f + ?o) = rd8 (p_vmm s) (?f + ?o)"
      using A(9) [OF d, of "k mod 4096"] B(9) [OF d1, of "k mod 4096"] by simp
    moreover have T: "TranslateInPml4 r (va1 + of_nat k) (p_vmm s2) \<noteq> 0" using V1(2) nz by simp
    note W = WriteUserByte_step [OF B(5) V1(1) T, where b = b]
    ultimately show ?thesis using V1(2) V2(2) nz W(2,4) by (simp add: ReadUserByte_def)
  qed
  show ?thesis using va2 B(5) byte by blast
qed

section \<open>Cases\<close>

text \<open>A process with the empty address space and its heap at 0x500000000; frame 900 is a section.\<close>
definition vm_demo :: psys where
  "vm_demo = \<lparr>p_sys = ksys_idle\<lparr>prc := (\<lambda>_. KProcess0\<lparr>Cr3 := 0x300000, UserHeapCursor := 0x500000000\<rparr>),
       thr := (\<lambda>_. KThread0\<lparr>Process := Some 1\<rparr>), s_current := Some (Thr 0)\<rparr>,
     p_heap = \<lparr>hp_base = 0x200000, hp_size = 0x10000, hp_used = 0, hp_mem = (\<lambda>_. 0)\<rparr>, p_vmm = vmm_roomy,
     s_system_process = None, s_main_thread = None, s_next_pid = 1, s_next_tid = 1, kernel_thread_entry = 0, user_thread_entry = 0\<rparr>"

lemma vm_demo_sel: "p_vmm vm_demo = vmm_roomy" "current_thread vm_demo = Some (Thr 0, 1)"
  "Cr3 (the_proc vm_demo 1) = 0x300000" "UserHeapCursor (the_proc vm_demo 1) = 0x500000000"
  by (simp_all add: vm_demo_def current_thread_def CurrentThread_def)

lemma pages_of_3000: "pages_of 0x3000 = 3" by (simp add: pages_of_def PAGE_SIZE_def)

lemma vm_demo_wf: "pt_wf (p_vmm vm_demo) (Cr3 (the_proc vm_demo 1))"
  unfolding vm_demo_sel by (rule vmm_roomy_wf)

lemma vm_demo_alloc: "fst (NtAllocVM 0x3000 vm_demo) = 0x500000000"
proof -
  have R: "room (p_vmm vm_demo) (Cr3 (the_proc vm_demo 1)) (pages_at (UserHeapCursor (the_proc vm_demo 1)) 0 (unat (pages_of 0x3000)))"
    unfolding vm_demo_sel pages_of_3000 by (rule vmm_roomy_room) (simp add: pages_at_def)
  have "UserHeapCursor (the_proc vm_demo 1) + pages_of 0x3000 * of_nat PAGE_SIZE \<le> HEAP_MAX"
    unfolding vm_demo_sel pages_of_3000 by (simp add: HEAP_MAX_def PAGE_SIZE_def)
  from heap_alloc_succeeds [OF vm_demo_sel(2) vm_demo_wf _ R this] show ?thesis unfolding vm_demo_sel by simp
qed

lemma heap_alloc_witness: "page_holds (p_vmm (snd (NtAllocVM 0x3000 vm_demo))) 0x300000 0x500002000 (\<lambda>_. 0)"
proof -
  have A: "NtAllocVM 0x3000 vm_demo = (0x500000000, snd (NtAllocVM 0x3000 vm_demo))" using vm_demo_alloc by (metis prod.collapse)
  have "\<forall>j<unat (pages_of 0x3000). page_holds (p_vmm (snd (NtAllocVM 0x3000 vm_demo))) (Cr3 (the_proc vm_demo 1))
      (0x500000000 + of_nat (j * PAGE_SIZE)) (\<lambda>_. 0)"
    using heap_alloc [OF vm_demo_sel(2) vm_demo_wf A] by simp
  from this [rule_format, of 2] show ?thesis unfolding vm_demo_sel pages_of_3000 by (simp add: PAGE_SIZE_def)
qed

definition secs_demo :: "KSection list" where
  "secs_demo = \<lparr>sec_phys = frame_of 900 # replicate 31 0, sec_pages = 1, sec_in_use = True\<rparr> # replicate 7 \<lparr>sec_phys = replicate 32 0, sec_pages = 0, sec_in_use = False\<rparr>"

lemma vm_demo_section: "section_ok (p_vmm vm_demo) (Cr3 (the_proc vm_demo 1)) (secs_demo ! unat (1 - 1 :: u64))"
proof -
  have t: "table_at vmm_roomy 0x300000 p = Some t \<longleftrightarrow> p = [] \<and> t = 0x300000" for p t
    by (cases p) (auto simp: child_def vmm_roomy_def)
  have "frame_of 900 \<notin> pmm_frames (vm_pmm vmm_roomy)"
    by (auto simp: pmm_frames_def vmm_roomy_free frame_of_inj MAX_PAGES_val)
  then have "frame_of 900 \<in> used_frames vmm_roomy"
    using frame_of_zero [of 900] by (auto simp: used_frames_def pmm_all_frames_def MAX_PAGES_val)
  moreover have "frame_of 900 \<noteq> 0x300000" by (simp add: frame_of_def PAGE_SIZE_def)
  ultimately have "data_frame vmm_roomy 0x300000 (frame_of 900)" by (auto simp: data_frame_def tables_def t)
  then show ?thesis unfolding vm_demo_sel by (simp add: section_ok_def secs_demo_def SECTION_PAGES_def)
qed

text \<open>Mapping a one-page section succeeds while there is room for its page.\<close>
lemma NtMapView_succeeds:
  assumes "current_thread s = Some (t, p)" "pt_wf (p_vmm s) (Cr3 (the_proc s p))" "section_ok (p_vmm s) (Cr3 (the_proc s p)) (secs ! 0)"
    and "room (p_vmm s) (Cr3 (the_proc s p)) (pages_at (UserHeapCursor (the_proc s p)) 0 (sec_pages (secs ! 0)) @ vas)"
    and "UserHeapCursor (the_proc s p) + of_nat (sec_pages (secs ! 0) * PAGE_SIZE) \<le> HEAP_MAX"
  shows "fst (NtMapView 1 secs s) = UserHeapCursor (the_proc s p)" "room (p_vmm (snd (NtMapView 1 secs s))) (Cr3 (the_proc s p)) vas"
proof -
  let ?c = "UserHeapCursor (the_proc s p)" and ?fs = "take (sec_pages (secs ! 0)) (sec_phys (secs ! 0))"
  obtain ok v where C: "map_frames (Cr3 (the_proc s p)) ?c 0 ?fs (p_vmm s) = (ok, v)" by fastforce
  have l: "length ?fs = sec_pages (secs ! 0)" "sec_in_use (secs ! 0)" "\<forall>f\<in>set ?fs. data_frame (p_vmm s) (Cr3 (the_proc s p)) f"
    using assms(3) by (simp_all add: section_ok_def)
  have "ok \<and> room v (Cr3 (the_proc s p)) vas" by (rule map_frames_room [OF assms(2) l(3) _ C]) (use assms(4) l(1) in simp)
  moreover have "\<not> HEAP_MAX < ?c + of_nat (sec_pages (secs ! 0) * PAGE_SIZE)" using assms(5) by (simp only: not_less)
  ultimately show "fst (NtMapView 1 secs s) = ?c" "room (p_vmm (snd (NtMapView 1 secs s))) (Cr3 (the_proc s p)) vas"
    using assms(1) C l(2) by (simp_all add: NtMapView_def SECTION_MAX_def Let_def)
qed

lemma section_shared_witness:
  "\<exists>s1 s2. NtMapView 1 secs_demo vm_demo = (0x500000000, s1) \<and> NtMapView 1 secs_demo s1 = (0x500001000, s2)
     \<and> ReadUserByte 0x300000 0x500001010 (snd (WriteUserByte 0x300000 0x500000010 7 (p_vmm s2))) = 7"
proof -
  have n: "sec_pages (secs_demo ! 0) = 1" by (simp add: secs_demo_def)
  have u: "unat (1 - 1 :: u64) = 0" by simp
  have m: "1 \<le> (1 :: u64)" "1 \<le> (of_nat SECTION_MAX :: u64)" by (simp_all add: SECTION_MAX_def)
  have R: "room (p_vmm vm_demo) (Cr3 (the_proc vm_demo 1)) (pages_at (UserHeapCursor (the_proc vm_demo 1)) 0 (sec_pages (secs_demo ! 0)) @ [0x500001000])"
    unfolding vm_demo_sel n by (rule vmm_roomy_room) (simp add: pages_at_def)
  have H: "UserHeapCursor (the_proc vm_demo 1) + of_nat (sec_pages (secs_demo ! 0) * PAGE_SIZE) \<le> HEAP_MAX"
    unfolding vm_demo_sel n by (simp add: HEAP_MAX_def PAGE_SIZE_def)
  note A = NtMapView_succeeds [OF vm_demo_sel(2) vm_demo_wf vm_demo_section [unfolded u] R H]
  obtain s1 where s1: "NtMapView 1 secs_demo vm_demo = (0x500000000, s1)" using A(1) unfolding vm_demo_sel by (metis prod.collapse)
  have nz: "0x500000000 \<noteq> (0 :: u64)" by simp
  note S = NtMapView_spec [OF vm_demo_sel(2) vm_demo_wf m vm_demo_section s1 nz]
  have c1: "UserHeapCursor (the_proc s1 1) = 0x500001000" using S(2) unfolding u n by (simp add: PAGE_SIZE_def)
  have wf1: "pt_wf (p_vmm s1) (Cr3 (the_proc s1 1))" and ok1: "section_ok (p_vmm s1) (Cr3 (the_proc s1 1)) (secs_demo ! 0)" using S(4-6) unfolding u by simp_all
  have R1: "room (p_vmm s1) (Cr3 (the_proc s1 1)) (pages_at (UserHeapCursor (the_proc s1 1)) 0 (sec_pages (secs_demo ! 0)) @ [])"
    using A(2) S(4) unfolding c1 n s1 by (simp add: pages_at_def)
  have H1: "UserHeapCursor (the_proc s1 1) + of_nat (sec_pages (secs_demo ! 0) * PAGE_SIZE) \<le> HEAP_MAX"
    unfolding c1 n by (simp add: HEAP_MAX_def PAGE_SIZE_def)
  note B = NtMapView_succeeds [OF S(3) wf1 ok1 R1 H1]
  obtain s2 where s2: "NtMapView 1 secs_demo s1 = (0x500001000, s2)" using B(1) unfolding c1 by (metis prod.collapse)
  have al: "UserHeapCursor (the_proc vm_demo 1) AND 0xFFF = 0" unfolding vm_demo_sel by simp
  have "\<forall>k < sec_pages (secs_demo ! 0) * PAGE_SIZE. \<forall>b. ReadUserByte 0x300000 (0x500001000 + of_nat k)
      (snd (WriteUserByte 0x300000 (0x500000000 + of_nat k) b (p_vmm s2))) = b"
    using section_shared [OF vm_demo_sel(2) vm_demo_wf al m vm_demo_section s1 nz s2] unfolding u vm_demo_sel by simp
  from this [rule_format, of 16 7] show ?thesis using s1 s2 by (simp add: n PAGE_SIZE_def)
qed

end
