(* ===== verification/SysFiles.thy ===== *)
theory SysFiles
  imports SysVirtual Vfs
begin

text \<open>The file system calls, kernel/syscall/syscall.cpp: files over the VFS and its writable nodes,
  named pipes, the console as the file of every other handle, and the directory listing.  The
  state joins the process state, whose memory holds the boot files and the user buffers, with the
  VFS, the pipe table, the text on the screen and the milestones that the boot tests look for.\<close>

section \<open>State\<close>

record KPipe =
  kp_name :: cstr
  kp_data :: "u8 list"
  kp_size :: nat
  kp_used :: bool

record iosys =
  io_ps :: psys
  io_vfs :: vfs
  g_pipes :: "KPipe list"
  io_screen :: "u8 list"
  io_milestones :: "nat set"

definition PIPE_HANDLE_BASE :: u64 where "PIPE_HANDLE_BASE = 0x80"
definition PIPE_MAX :: nat where "PIPE_MAX = 4"
definition PIPE_DATA_MAX :: nat where "PIPE_DATA_MAX = 512"
definition WFILE_HANDLE_BASE :: u64 where "WFILE_HANDLE_BASE = 0x40"
definition WFILE_HANDLE_MAX :: u64 where "WFILE_HANDLE_MAX = 0x50"

abbreviation "io_vmm s \<equiv> p_vmm (io_ps s)"
abbreviation "set_vmm v s \<equiv> s\<lparr>io_ps := (io_ps s)\<lparr>p_vmm := v\<rparr>\<rparr>"

definition is_pipe :: "u64 \<Rightarrow> bool" where
  "is_pipe a1 \<longleftrightarrow> PIPE_HANDLE_BASE \<le> a1 \<and> a1 < PIPE_HANDLE_BASE + of_nat PIPE_MAX"

definition is_wfile :: "u64 \<Rightarrow> bool" where
  "is_wfile a1 \<longleftrightarrow> WFILE_HANDLE_BASE \<le> a1 \<and> a1 < WFILE_HANDLE_MAX"

text \<open>The string in a zeroed buffer that was filled with bytes.\<close>
definition cstr_of :: "u8 list \<Rightarrow> cstr" where
  "cstr_of bs = map (\<lambda>b. char_of (unat b)) (takeWhile (\<lambda>b. b \<noteq> 0) bs)"

text \<open>A length argument, cut to the size of the kernel buffer.\<close>
definition cut_len :: "nat \<Rightarrow> u64 \<Rightarrow> nat" where
  "cut_len m a = unat (if a > of_nat m then of_nat m else a)"

section \<open>Pipes\<close>

text \<open>The loop of the pipe branch: bytes are taken one by one from user memory until the request or the
  pipe is full.\<close>
fun pipe_push :: "(nat \<Rightarrow> u8) \<Rightarrow> nat \<Rightarrow> nat \<Rightarrow> KPipe \<Rightarrow> nat \<times> KPipe" where
  "pipe_push src written 0 kp = (written, kp)"
| "pipe_push src written (Suc n) kp =
    (if kp_size kp < PIPE_DATA_MAX
     then pipe_push src (written + 1) n (kp\<lparr>kp_data := (kp_data kp)[kp_size kp := src written], kp_size := kp_size kp + 1\<rparr>)
     else (written, kp))"

definition WritePipe :: "u64 \<Rightarrow> u64 \<Rightarrow> u64 \<Rightarrow> iosys \<Rightarrow> u64 \<times> iosys" where
  "WritePipe a1 a2 a3 s =
    (let i = unat (a1 - PIPE_HANDLE_BASE); kp = g_pipes s ! i in
     if \<not> kp_used kp then (0, s) else
     case current_thread (io_ps s) of None \<Rightarrow> (0, s)
     | Some (t, p) \<Rightarrow>
       (let pml4 = Cr3 (the_proc (io_ps s) p);
            (written, kp) = pipe_push (\<lambda>i. ReadUserByte pml4 (a2 + of_nat i) (io_vmm s)) 0 (cut_len 512 a3) kp
        in (of_nat written, s\<lparr>g_pipes := (g_pipes s)[i := kp]\<rparr>)))"

definition ReadPipe :: "u64 \<Rightarrow> u64 \<Rightarrow> u64 \<Rightarrow> nat \<Rightarrow> iosys \<Rightarrow> u64 \<times> iosys" where
  "ReadPipe a1 a2 a3 len s =
    (let kp = g_pipes s ! unat (a1 - PIPE_HANDLE_BASE) in
     if \<not> kp_used kp \<or> a3 \<ge> of_nat (kp_size kp) then (0, s) else
     let avail = kp_size kp - unat a3; len = (if len > avail then avail else len) in
     case current_thread (io_ps s) of None \<Rightarrow> (0, s)
     | Some (t, p) \<Rightarrow> (of_nat len,
         set_vmm (write_user (Cr3 (the_proc (io_ps s) p)) a2 (map (\<lambda>i. kp_data kp ! (unat a3 + i)) [0..<len]) (io_vmm s)) s))"

text \<open>The first pipe that is in use and has the name, or the first that is free, with its name set.\<close>
fun pipe_find :: "(KPipe \<Rightarrow> bool) \<Rightarrow> KPipe list \<Rightarrow> nat \<Rightarrow> nat option" where
  "pipe_find P [] i = None"
| "pipe_find P (kp # kps) i = (if P kp then Some i else pipe_find P kps (i + 1))"

definition NtCreateNamedPipe :: "u64 \<Rightarrow> u64 \<Rightarrow> iosys \<Rightarrow> u64 \<times> iosys" where
  "NtCreateNamedPipe a1 a2 s =
    (let kname = cstr_of (ReadUserBytes a1 (cut_len 31 a2) (io_ps s)) in
     case pipe_find (\<lambda>kp. kp_used kp \<and> take 31 (kp_name kp) = kname) (g_pipes s) 0 of
       Some i \<Rightarrow> (PIPE_HANDLE_BASE + of_nat i, s)
     | None \<Rightarrow>
       (case pipe_find (\<lambda>kp. \<not> kp_used kp) (g_pipes s) 0 of
          Some i \<Rightarrow> (PIPE_HANDLE_BASE + of_nat i,
            s\<lparr>g_pipes := (g_pipes s)[i := (g_pipes s ! i)\<lparr>kp_used := True, kp_size := 0, kp_name := kname\<rparr>]\<rparr>)
        | None \<Rightarrow> (0, s)))"

definition SetupTestPipe :: "cstr \<Rightarrow> u8 list \<Rightarrow> nat \<Rightarrow> iosys \<Rightarrow> iosys" where
  "SetupTestPipe nm data len s =
    (case pipe_find (\<lambda>kp. \<not> kp_used kp) (g_pipes s) 0 of None \<Rightarrow> s
     | Some i \<Rightarrow>
       (let kp = g_pipes s ! i; n = (if len > PIPE_DATA_MAX then PIPE_DATA_MAX else len) in
        s\<lparr>g_pipes := (g_pipes s)[i := kp\<lparr>kp_used := True, kp_size := n, kp_name := take 31 nm,
            kp_data := take n data @ drop n (kp_data kp)\<rparr>]\<rparr>))"

section \<open>Files\<close>

definition NtCreateFile :: "u64 \<Rightarrow> u64 \<Rightarrow> iosys \<Rightarrow> u64 \<times> iosys" where
  "NtCreateFile a1 a2 s =
    (let kpath = cstr_of (ReadUserBytes a1 (cut_len 127 a2) (io_ps s));
         h = VFS_Open (Some kpath) (io_vfs s) in
     if h \<ge> 0 then (of_int (h + 1), s) else
     let (idx, f) = WFindOrCreate kpath False (io_vfs s); s = s\<lparr>io_vfs := f\<rparr>
     in (if idx < WNODE_MAX then WFILE_HANDLE_BASE + of_nat idx else 0, s))"

text \<open>The bytes that are looked for in console output: the milestone n is the flag g\_m<n>\_ok.\<close>
definition starts :: "u8 list \<Rightarrow> nat \<Rightarrow> (nat \<times> char) list \<Rightarrow> bool" where
  "starts kbuf n cs \<longleftrightarrow> n \<le> length kbuf \<and> (\<forall>(i, c)\<in>set cs. kbuf ! i = of_nat (of_char c))"

definition milestones :: "u8 list \<Rightarrow> nat set" where
  "milestones k = {8}
     \<union> (if starts k 7 [(0, CHR ''M''), (1, CHR ''i''), (2, CHR ''c'')] then {9} else {})
     \<union> (if starts k 9 [(0, CHR ''T''), (1, CHR ''H''), (2, CHR ''R'')] then {13} else {})
     \<union> (if starts k 7 [(0, CHR ''M''), (3, CHR ''o''), (5, CHR ''y'')] then {14} else {})
     \<union> (if starts k 6 [(0, CHR ''M''), (1, CHR ''1''), (2, CHR ''5'')] then {15} else {})
     \<union> (if starts k 6 [(0, CHR ''M''), (1, CHR ''1''), (2, CHR ''6'')] then {16} else {})
     \<union> (if starts k 6 [(0, CHR ''M''), (1, CHR ''1''), (2, CHR ''7'')] then {17} else {})
     \<union> (if starts k 6 [(0, CHR ''M''), (1, CHR ''1''), (2, CHR ''8'')]
           \<or> starts k 7 [(0, CHR ''G''), (1, CHR ''o''), (2, CHR ''o''), (3, CHR ''d'')] then {18} else {})
     \<union> (if starts k 6 [(0, CHR ''S''), (1, CHR ''y''), (2, CHR ''s''), (3, CHR ''t'')] then {19} else {})
     \<union> (if starts k 3 [(0, CHR ''M''), (1, CHR ''2''), (2, CHR ''0'')] then {20} else {})
     \<union> (if starts k 3 [(0, CHR ''M''), (1, CHR ''2''), (2, CHR ''1'')] then {21} else {})
     \<union> (if starts k 3 [(0, CHR ''M''), (1, CHR ''2''), (2, CHR ''2'')] then {22} else {})"

definition WriteConsole :: "u64 \<Rightarrow> u64 \<Rightarrow> iosys \<Rightarrow> u64 \<times> iosys" where
  "WriteConsole a2 a3 s =
    (let kbuf = ReadUserBytes a2 (cut_len 512 a3) (io_ps s) in
     (nt STATUS_SUCCESS, if kbuf = [] then s
        else s\<lparr>io_screen := io_screen s @ kbuf, io_milestones := io_milestones s \<union> milestones kbuf\<rparr>))"

definition WriteWFile :: "u64 \<Rightarrow> u64 \<Rightarrow> u64 \<Rightarrow> iosys \<Rightarrow> u64 \<times> iosys" where
  "WriteWFile a1 a2 a3 s =
    (let widx = unat (a1 - WFILE_HANDLE_BASE) in
     case current_thread (io_ps s) of None \<Rightarrow> (0, s)
     | Some (t, p) \<Rightarrow>
       (let pml4 = Cr3 (the_proc (io_ps s) p); wlen = cut_len 2048 a3;
            wbuf = map (\<lambda>i. ReadUserByte pml4 (a2 + of_nat i) (io_vmm s)) [0..<wlen];
            (r, f) = WWrite widx wbuf (of_nat wlen) (io_vfs s)
        in (ucast r, s\<lparr>io_vfs := f\<rparr>)))"

definition NtWriteFile :: "u64 \<Rightarrow> u64 \<Rightarrow> u64 \<Rightarrow> iosys \<Rightarrow> u64 \<times> iosys" where
  "NtWriteFile a1 a2 a3 s =
    (if is_pipe a1 then WritePipe a1 a2 a3 s
     else if is_wfile a1 then WriteWFile a1 a2 a3 s
     else WriteConsole a2 a3 s)"

text \<open>The pipe branch of NtReadFile is the one of NtWriteFile, and the branch that reads a pipe comes after it.\<close>
definition NtReadFile :: "u64 \<Rightarrow> u64 \<Rightarrow> u64 \<Rightarrow> u64 \<Rightarrow> iosys \<Rightarrow> u64 \<times> iosys" where
  "NtReadFile a1 a2 a3 a4 s =
    (let len = cut_len 512 a4 in
     case current_thread (io_ps s) of None \<Rightarrow> (0, s)
     | Some (t, p) \<Rightarrow>
       (let pml4 = Cr3 (the_proc (io_ps s) p) in
        if is_pipe a1 then WritePipe a1 a2 a3 s
        else if is_pipe a1 then ReadPipe a1 a2 a3 len s
        else if is_wfile a1 then
          (let (got, rbuf) = WRead (unat (a1 - WFILE_HANDLE_BASE)) a3 (of_nat len) (io_vfs s)
           in (ucast got, set_vmm (write_user pml4 a2 (take (unat got) rbuf) (io_vmm s)) s))
        else
          (let h = sint (ucast (a1 - 1) :: i32);
               (got, kbuf) = VFS_Read (rd8 (io_vmm s)) h a3 (of_nat len) (io_vfs s)
           in if got \<le> 0 then (0, s)
              else (of_int got, set_vmm (write_user pml4 a2 (take (nat got) kbuf) (io_vmm s)) s))))"

definition NtCloseHandle :: "u64 \<Rightarrow> iosys \<Rightarrow> u64 \<times> iosys" where
  "NtCloseHandle a1 s = (nt STATUS_SUCCESS, s\<lparr>io_vfs := VFS_Close (sint (ucast (a1 - 1) :: i32)) (io_vfs s)\<rparr>)"

section \<open>The directory listing\<close>

text \<open>The cursor of the listing: the next position and the memory.\<close>
type_synonym dirpos = "u64 \<times> vmm"

definition put_byte :: "u64 \<Rightarrow> u8 \<Rightarrow> dirpos \<Rightarrow> dirpos" where
  "put_byte pml4 b = (\<lambda>(pos, v). (pos + 1, snd (WriteUserByte pml4 pos b v)))"

fun put_name :: "u64 \<Rightarrow> u64 \<Rightarrow> cstr \<Rightarrow> dirpos \<Rightarrow> dirpos" where
  "put_name pml4 stop [] d = d"
| "put_name pml4 stop (c # cs) d =
    (if fst d < stop then put_name pml4 stop cs (put_byte pml4 (of_nat (of_char c)) d) else d)"

definition put_file :: "u64 \<Rightarrow> u64 \<Rightarrow> cstr \<times> u64 \<Rightarrow> dirpos \<Rightarrow> dirpos" where
  "put_file pml4 stop f d =
    (let d = put_name pml4 stop (fst f) d in if fst d < stop then put_byte pml4 0 d else d)"

definition put_node :: "u64 \<Rightarrow> u64 \<Rightarrow> cstr \<times> u32 \<times> bool \<Rightarrow> dirpos \<Rightarrow> dirpos" where
  "put_node pml4 stop n d =
    (if fst d \<ge> stop - 4 then d else
     let d = (if snd (snd n)
       then put_byte pml4 (of_nat (of_char CHR '']'')) (put_name pml4 stop (fst n) (put_byte pml4 (of_nat (of_char CHR ''['')) d))
       else put_name pml4 stop (fst n) d)
     in put_byte pml4 0 d)"

definition NtQueryDir :: "u64 \<Rightarrow> u64 \<Rightarrow> iosys \<Rightarrow> u64 \<times> iosys" where
  "NtQueryDir a1 a2 s =
    (case current_thread (io_ps s) of None \<Rightarrow> (0, s)
     | Some (t, p) \<Rightarrow>
       (let pml4 = Cr3 (the_proc (io_ps s) p); buf_len = (of_nat (cut_len 2048 a2) :: u64);
            stop = a1 + buf_len - 1;
            d = fold (put_file pml4 stop) (VFS_ForEach (io_vfs s)) (a1, io_vmm s);
            d = fold (put_node pml4 stop) (VFS_ForEachWritable (io_vfs s)) d;
            d = (if fst d < stop then put_byte pml4 0 d else d)
        in (fst d - a1, set_vmm (snd d) s)))"

section \<open>Pipes: what the calls do\<close>

definition pipe_ok :: "KPipe \<Rightarrow> bool" where
  "pipe_ok kp \<longleftrightarrow> length (kp_data kp) = PIPE_DATA_MAX \<and> kp_size kp \<le> PIPE_DATA_MAX"

definition pipe_contents :: "KPipe \<Rightarrow> u8 list" where "pipe_contents kp = take (kp_size kp) (kp_data kp)"

lemma pipe_push_spec:
  assumes "pipe_ok kp" "pipe_push src k n kp = (w, kp')"
  shows "w = k + min n (PIPE_DATA_MAX - kp_size kp) \<and> pipe_ok kp' \<and> kp_used kp' = kp_used kp \<and> kp_name kp' = kp_name kp
    \<and> pipe_contents kp' = pipe_contents kp @ map src [k..<w]"
  using assms
proof (induction n arbitrary: k kp)
  case (Suc n)
  show ?case
  proof (cases "kp_size kp < PIPE_DATA_MAX")
    case True
    define kq where "kq = kp\<lparr>kp_data := (kp_data kp)[kp_size kp := src k], kp_size := kp_size kp + 1\<rparr>"
    have q: "pipe_ok kq" using Suc.prems(1) True by (simp add: pipe_ok_def kq_def)
    have "pipe_push src (k + 1) n kq = (w, kp')" using Suc.prems(2) True by (simp add: kq_def)
    note I = Suc.IH [OF q this]
    have "pipe_contents kq = pipe_contents kp @ [src k]"
      using Suc.prems(1) True by (simp add: pipe_contents_def kq_def pipe_ok_def take_Suc_conv_app_nth)
    moreover have "k < w" "[k..<w] = k # [k + 1..<w]" using I upt_conv_Cons [of k w] by auto
    ultimately show ?thesis using I True by (simp add: kq_def)
  next
    case False
    then show ?thesis using Suc.prems by (auto simp: pipe_ok_def)
  qed
qed auto

lemma is_pipe_index: "is_pipe a1 \<Longrightarrow> unat (a1 - PIPE_HANDLE_BASE) < PIPE_MAX"
  by (auto simp: is_pipe_def PIPE_HANDLE_BASE_def PIPE_MAX_def unat_sub word_less_nat_alt word_le_nat_alt)

lemma cut_le: "cut_len m a \<le> m \<or> 2 ^ 64 \<le> m"
  by (cases "m < 2 ^ 64") (auto simp: cut_len_def word_less_nat_alt unat_of_nat64 not_less)

text \<open>C38 (functional): the calls on a pipe.  NtReadFile on the handle of a pipe does exactly what
  NtWriteFile does: it appends the bytes of the user buffer, as many as the request (of the third
  argument) and the 512 bytes of the pipe allow, and returns their number.  The user memory is
  not written, so no call returns what a pipe holds.\<close>
theorem pipe_calls:
  assumes "is_pipe a1" "length (g_pipes s) = PIPE_MAX" "current_thread (io_ps s) = Some (t, p)"
  defines "i \<equiv> unat (a1 - PIPE_HANDLE_BASE)"
  assumes "kp_used (g_pipes s ! i)" "pipe_ok (g_pipes s ! i)"
  shows "NtReadFile a1 a2 a3 a4 s = NtWriteFile a1 a2 a3 s
    \<and> (\<exists>w kp'. NtWriteFile a1 a2 a3 s = (of_nat w, s\<lparr>g_pipes := (g_pipes s)[i := kp']\<rparr>)
         \<and> w = min (cut_len 512 a3) (PIPE_DATA_MAX - kp_size (g_pipes s ! i)) \<and> pipe_ok kp' \<and> kp_used kp'
         \<and> pipe_contents kp' = pipe_contents (g_pipes s ! i) @ map (\<lambda>j. ReadUserByte (Cr3 (the_proc (io_ps s) p)) (a2 + of_nat j) (io_vmm s)) [0..<w])"
proof -
  let ?src = "\<lambda>j. ReadUserByte (Cr3 (the_proc (io_ps s) p)) (a2 + of_nat j) (io_vmm s)"
  obtain w kp' where P: "pipe_push ?src 0 (cut_len 512 a3) (g_pipes s ! i) = (w, kp')" by fastforce
  have W: "WritePipe a1 a2 a3 s = (of_nat w, s\<lparr>g_pipes := (g_pipes s)[i := kp']\<rparr>)"
    using assms(3,5) P by (simp add: WritePipe_def Let_def flip: i_def)
  show ?thesis
    using pipe_push_spec [OF assms(6) P] assms(1,3,5) W by (auto simp: NtReadFile_def NtWriteFile_def)
qed

section \<open>Files: write, then read\<close>

lemma is_wfile_not_pipe: "is_wfile a1 \<Longrightarrow> \<not> is_pipe a1"
  by (auto simp: is_wfile_def is_pipe_def WFILE_HANDLE_BASE_def WFILE_HANDLE_MAX_def PIPE_HANDLE_BASE_def PIPE_MAX_def
      word_less_nat_alt word_le_nat_alt)

lemma is_wfile_index: "is_wfile a1 \<Longrightarrow> unat (a1 - WFILE_HANDLE_BASE) < WNODE_MAX"
  by (auto simp: is_wfile_def WFILE_HANDLE_BASE_def WFILE_HANDLE_MAX_def WNODE_MAX_def unat_sub word_less_nat_alt word_le_nat_alt)

lemma cut_of_nat: "n \<le> m \<Longrightarrow> m < 2 ^ 64 \<Longrightarrow> cut_len m (of_nat n) = n"
  by (auto simp: cut_len_def word_less_nat_alt unat_of_nat64)

text \<open>C26 (roundtrip): a file through the system calls.  Writing up to 512 bytes of user memory to the handle
  of a writable file that has room for them, and reading the file from its old end into a mapped
  buffer, gives back these bytes, and the process keeps its address space.\<close>
theorem file_syscall_roundtrip:
  assumes "vfs_ok (io_vfs s)" "current_thread (io_ps s) = Some (t, p)" "is_wfile h" "n \<le> 512"
  defines "r \<equiv> Cr3 (the_proc (io_ps s) p)" and "i \<equiv> unat (h - WFILE_HANDLE_BASE)"
  assumes "wn_used (s_wnodes (io_vfs s) ! i)" "unat (WSize i (io_vfs s)) + n \<le> 2048"
    and "pt_wf (io_vmm s) r" "user_buf (io_vmm s) r dst n"
    and "NtWriteFile h src (of_nat n) s = (w, s1)" "NtReadFile h dst (ucast (WSize i (io_vfs s))) (of_nat n) s1 = (g, s2)"
  shows "w = of_nat n \<and> g = of_nat n \<and> pt_wf (io_vmm s2) r
    \<and> (\<forall>v. TranslateInPml4 r v (io_vmm s2) = TranslateInPml4 r v (io_vmm s))
    \<and> (\<forall>j<n. ReadUserByte r (dst + of_nat j) (io_vmm s2) = ReadUserByte r (src + of_nat j) (io_vmm s))"
proof -
  let ?bs = "map (\<lambda>j. ReadUserByte r (src + of_nat j) (io_vmm s)) [0..<n]"
  have i: "i < WNODE_MAX" unfolding i_def by (rule is_wfile_index [OF assms(3)])
  have c: "cut_len 2048 (of_nat n) = n" "cut_len 512 (of_nat n) = n" using assms(4) by (simp_all add: cut_of_nat)
  obtain k f where F: "WWrite i ?bs (of_nat n) (io_vfs s) = (k, f)" by fastforce
  have l: "length ?bs = n" "length ?bs < 2 ^ 32" using assms(4) by simp_all
  note S = WWrite_spec [OF assms(1) i assms(7) l(2), unfolded l(1), OF F]
  have uk: "unat k = n" using S assms(8) by simp
  then have k: "k = of_nat n" by (metis of_nat_unat ucast_id)
  have W: "w = ucast k" "s1 = s\<lparr>io_vfs := f\<rparr>"
    using assms(11) F assms(2,3) is_wfile_not_pipe [OF assms(3)]
    by (simp_all add: NtWriteFile_def WriteWFile_def c(1) Let_def flip: i_def r_def)
  have Rd: "WRead i (ucast (WSize i (io_vfs s))) (of_nat n) f = (of_nat n, ?bs)" using S uk l(1) by (simp flip: k)
  have e: "g = ucast k" "s2 = set_vmm (write_user r dst ?bs (io_vmm s)) s1"
    using assms(12) assms(2,3) is_wfile_not_pipe [OF assms(3)] Rd uk
    by (auto simp: NtReadFile_def W(2) c(2) Let_def k simp flip: i_def r_def)
  have u: "user_buf (io_vmm s) r dst (length ?bs)" using assms(10) l(1) by simp
  note V = write_user_spec [OF assms(9) u]
  have "ReadUserByte r (dst + of_nat j) (io_vmm s2) = ?bs ! j" if "j < n" for j
    using read_written [OF assms(9) u, of j] that by (simp add: e(2))
  moreover have "(ucast k :: u64) = of_nat n" using uk by (metis of_nat_unat)
  ultimately show ?thesis using V by (simp add: W(1) e)
qed

section \<open>Cases\<close>

text \<open>A buffer on one mapped page.\<close>
lemma page_user_buf:
  assumes "page_at v r va f" "va AND 0xFFF = 0" "off + n \<le> 4096"
  shows "user_buf v r (va + of_nat off) n"
proof -
  have f: "f \<in> pmm_all_frames" "f \<noteq> 0" using assms(1) by (auto simp: page_at_def data_frame_def used_frames_def)
  have P: "\<And>j. j < 1 \<Longrightarrow> page_at v r (va + of_nat (j * PAGE_SIZE)) ([f] ! j)" using assms(1) by simp
  have V: "page_at v r (va + of_nat k) f" "TranslateInPml4 r (va + of_nat k) v = f + of_nat k" if "k < 4096" for k
    using view_address [OF assms(2) P, where n = 1 and k = k] that by simp_all
  have u: "unat (f + of_nat k) = unat f + k" if "k < 4096" for k using frame_byte(3) [OF f(1) that] .
  have "unat f \<noteq> 0" using f(2) unsigned_eq_0_iff by blast
  then have nz: "f + of_nat k \<noteq> 0" if "k < 4096" for k using u [OF that] by (metis add_is_0 unsigned_0)
  have T: "TranslateInPml4 r (va + of_nat off + of_nat i) v = f + of_nat (off + i)"
    "page_at v r (va + of_nat off + of_nat i) f" if "i < n" for i
    using V [of "off + i"] that assms(3) by (simp_all add: add.assoc)
  have "inj_on (\<lambda>i. TranslateInPml4 r (va + of_nat off + of_nat i) v) {..<n}"
  proof (rule inj_onI)
    fix i j assume "i \<in> {..<n}" "j \<in> {..<n}"
      "TranslateInPml4 r (va + of_nat off + of_nat i) v = TranslateInPml4 r (va + of_nat off + of_nat j) v"
    then have "f + of_nat (off + i) = f + of_nat (off + j)" "off + i < 4096" "off + j < 4096" using T assms(3) by simp_all
    then have "unat f + (off + i) = unat f + (off + j)" using u by metis
    then show "i = j" by simp
  qed
  then show ?thesis using T nz assms(3) by (auto simp: user_buf_def simp del: of_nat_add)
qed

text \<open>The process of vm\_demo with one page of heap that holds 1, 2, 3 at offset 0x100.\<close>
definition heap_page :: vmm where "heap_page = snd (commit_pages 0x300000 0x500000000 0 1 vmm_roomy)"

lemma heap_page_at: obtains f where "pt_wf heap_page 0x300000" "page_at heap_page 0x300000 0x500000000 f"
proof -
  obtain ok v where C: "commit_pages 0x300000 0x500000000 0 1 vmm_roomy = (ok, v)" by fastforce
  have R: "room vmm_roomy 0x300000 (pages_at 0x500000000 0 1 @ [])" by (rule vmm_roomy_room) (simp add: pages_at_def)
  have ok: "ok" using commit_pages_room [OF vmm_roomy_wf R C] by simp
  have "committed vmm_roomy 0x300000 0x500000000 0 1 ok v" by (rule commit_pages_committed [OF vmm_roomy_wf C]) simp
  then have "pt_wf v 0x300000" "page_holds v 0x300000 0x500000000 (\<lambda>_. 0)" using ok by (auto simp: committed_def)
  then show thesis using that C by (auto simp: heap_page_def page_holds_def)
qed

definition vmm_buf :: vmm where "vmm_buf = write_user 0x300000 0x500000100 [1, 2, 3] heap_page"

lemma vmm_buf_props: "pt_wf vmm_buf 0x300000" "user_buf vmm_buf 0x300000 0x500000000 3"
  "j < 3 \<Longrightarrow> ReadUserByte 0x300000 (0x500000100 + of_nat j) vmm_buf = [1, 2, 3] ! j"
proof -
  obtain f where f: "pt_wf heap_page 0x300000" "page_at heap_page 0x300000 0x500000000 f" by (rule heap_page_at)
  have a: "0x500000000 AND 0xFFF = (0 :: u64)" by simp
  have b: "user_buf heap_page 0x300000 0x500000100 (length [1, 2, 3 :: u8])"
    using page_user_buf [OF f(2) a, of 256 3] by (simp add: numeral_3_eq_3)
  note W = write_user_spec [OF f(1) b, folded vmm_buf_def]
  show "pt_wf vmm_buf 0x300000" using W by blast
  have "page_at vmm_buf 0x300000 0x500000000 f" using W f(2) by blast
  then show "user_buf vmm_buf 0x300000 0x500000000 3" using page_user_buf [OF _ a, of _ _ f 0 3] by simp
  show "j < 3 \<Longrightarrow> ReadUserByte 0x300000 (0x500000100 + of_nat j) vmm_buf = [1, 2, 3] ! j"
    using read_written [OF f(1) b, of j, folded vmm_buf_def] by simp
qed

definition pipe_demo :: KPipe where
  "pipe_demo = \<lparr>kp_name = ''p'', kp_data = replicate PIPE_DATA_MAX 7, kp_size = 511, kp_used = True\<rparr>"

definition io_demo :: iosys where
  "io_demo = \<lparr>io_ps = vm_demo\<lparr>p_vmm := vmm_buf\<rparr>, io_vfs = snd (WFindOrCreate ''a'' False vfs_demo),
     g_pipes = replicate PIPE_MAX pipe_demo, io_screen = [], io_milestones = {}\<rparr>"

lemma io_demo_thread: "current_thread (io_ps io_demo) = Some (Thr 0, 1)"
  using vm_demo_sel(2) by (simp add: io_demo_def current_thread_def split: option.splits)

lemma io_demo_sel: "io_vmm io_demo = vmm_buf" "Cr3 (the_proc (io_ps io_demo) 1) = 0x300000"
  using vm_demo_sel(3) by (simp_all add: io_demo_def)

lemma pipe_calls_witness:
  "\<exists>s'. NtReadFile 0x80 0x500000100 3 512 io_demo = (1, s') \<and> pipe_contents (g_pipes s' ! 0) = replicate 511 7 @ [1]"
proof -
  have P: "is_pipe 0x80" "length (g_pipes io_demo) = PIPE_MAX" "unat (0x80 - PIPE_HANDLE_BASE) = 0"
    by (simp_all add: is_pipe_def PIPE_HANDLE_BASE_def io_demo_def PIPE_MAX_def)
  have g: "g_pipes io_demo ! 0 = pipe_demo" by (simp add: io_demo_def PIPE_MAX_def)
  have ok: "kp_used pipe_demo" "pipe_ok pipe_demo" "kp_size pipe_demo = 511" "pipe_contents pipe_demo = replicate 511 7"
    by (simp_all add: pipe_demo_def pipe_ok_def pipe_contents_def PIPE_DATA_MAX_def)
  have m: "min (cut_len 512 3) (PIPE_DATA_MAX - 511) = 1" by (simp add: cut_len_def PIPE_DATA_MAX_def)
  have "\<exists>w kp'. NtReadFile 0x80 0x500000100 3 512 io_demo = (of_nat w, io_demo\<lparr>g_pipes := (g_pipes io_demo)[0 := kp']\<rparr>)
      \<and> w = 1 \<and> pipe_contents kp' = replicate 511 7 @ map (\<lambda>j. ReadUserByte 0x300000 (0x500000100 + of_nat j) vmm_buf) [0..<w]"
    using pipe_calls [OF P(1,2) io_demo_thread, unfolded P(3) g, OF ok(1,2), of "0x500000100" 3 512]
    unfolding ok(3,4) m io_demo_sel by metis
  then show ?thesis using vmm_buf_props(3) [of 0] P(2) by (auto simp: PIPE_MAX_def)
qed

lemma file_syscall_roundtrip_witness:
  "\<exists>s1 s2. NtWriteFile 0x40 0x500000100 3 io_demo = (3, s1) \<and> NtReadFile 0x40 0x500000000 0 3 s1 = (3, s2)
     \<and> ReadUserByte 0x300000 0x500000002 (io_vmm s2) = 3"
proof -
  obtain w s1 where W: "NtWriteFile 0x40 0x500000100 (of_nat 3) io_demo = (w, s1)" by fastforce
  obtain g s2 where G: "NtReadFile 0x40 0x500000000 0 (of_nat 3) s1 = (g, s2)" by fastforce
  have h: "is_wfile 0x40" "unat (0x40 - WFILE_HANDLE_BASE) = 0" by (simp_all add: is_wfile_def WFILE_HANDLE_BASE_def WFILE_HANDLE_MAX_def)
  have f: "io_vfs io_demo = snd (WFindOrCreate ''a'' False vfs_demo)" by (simp add: io_demo_def)
  have u: "wn_used (s_wnodes (io_vfs io_demo) ! 0)" "WSize 0 (io_vfs io_demo) = 0"
    unfolding f by (simp_all add: vfs_with_file(1) new_node_def WNode0_def WSize_def WNODE_MAX_def)
  have ok: "vfs_ok (io_vfs io_demo)" unfolding f by (rule vfs_with_file(2))
  have wf: "pt_wf (io_vmm io_demo) (Cr3 (the_proc (io_ps io_demo) 1))" "user_buf (io_vmm io_demo) (Cr3 (the_proc (io_ps io_demo) 1)) 0x500000000 3"
    unfolding io_demo_sel by (rule vmm_buf_props)+
  have "w = of_nat 3 \<and> g = of_nat 3 \<and> (\<forall>j<3. ReadUserByte 0x300000 (0x500000000 + of_nat j) (io_vmm s2) = ReadUserByte 0x300000 (0x500000100 + of_nat j) vmm_buf)"
    using file_syscall_roundtrip [OF ok io_demo_thread h(1), of 3, unfolded h(2), OF _ u(1) _ wf W] G u(2) unfolding io_demo_sel by simp
  then show ?thesis using W G vmm_buf_props(3) [of 2] by (auto dest: spec [of _ 2])
qed

section \<open>The directory listing: what the buffer holds\<close>

definition chars :: "cstr \<Rightarrow> u8 list" where "chars cs = map (\<lambda>c. of_nat (of_char c)) cs"

definition file_entry :: "cstr \<times> u64 \<Rightarrow> u8 list" where "file_entry f = chars (fst f) @ [0]"

definition node_entry :: "cstr \<times> u32 \<times> bool \<Rightarrow> u8 list" where
  "node_entry n = (if snd (snd n) then chars (''['' @ fst n @ '']'') else chars (fst n)) @ [0]"

definition listing :: "vfs \<Rightarrow> u8 list" where
  "listing f = concat (map file_entry (VFS_ForEach f)) @ concat (map node_entry (VFS_ForEachWritable f)) @ [0]"

text \<open>Bytes appended to the listing.\<close>
definition put_bytes :: "u64 \<Rightarrow> u8 list \<Rightarrow> dirpos \<Rightarrow> dirpos" where
  "put_bytes r bs d = (fst d + of_nat (length bs), write_user r (fst d) bs (snd d))"

lemma write_user_append: "write_user r va (xs @ ys) v = write_user r (va + of_nat (length xs)) ys (write_user r va xs v)"
  by (induction xs arbitrary: va v) (simp_all add: algebra_simps)

lemma put_bytes_append: "put_bytes r ys (put_bytes r xs d) = put_bytes r (xs @ ys) d"
  by (simp add: put_bytes_def write_user_append algebra_simps)

lemma put_byte_bytes: "put_byte r b d = put_bytes r [b] d"
  by (simp add: put_byte_def put_bytes_def split: prod.split)

lemma put_bytes_Nil [simp]: "put_bytes r [] d = d" by (simp add: put_bytes_def)

text \<open>The position stays below the end while the bytes fit.\<close>
definition fits :: "u64 \<Rightarrow> nat \<Rightarrow> dirpos \<Rightarrow> bool" where "fits stop n d \<longleftrightarrow> unat (fst d) + n \<le> unat stop"

lemma fits_put: "fits stop (length bs + n) d \<Longrightarrow> fits stop n (put_bytes r bs d)"
proof -
  assume "fits stop (length bs + n) d"
  then have f: "unat (fst d) + length bs + n \<le> unat stop" by (simp add: fits_def)
  moreover have "unat stop < 2 ^ 64" using unsigned_less [of stop, where ?'a = nat] by simp
  ultimately have "unat (fst d + of_nat (length bs)) = unat (fst d) + length bs"
    by (subst unat_add_lem [THEN iffD1]) (simp_all add: unat_of_nat64)
  then show ?thesis using f by (simp add: fits_def put_bytes_def)
qed

lemma fits_less: "fits stop (Suc n) d \<Longrightarrow> fst d < stop" by (simp add: fits_def word_less_nat_alt)
lemma fits_le: "fits stop n d \<Longrightarrow> m \<le> n \<Longrightarrow> fits stop m d" by (simp add: fits_def)

lemma put_name_fits: "fits stop (length cs) d \<Longrightarrow> put_name r stop cs d = put_bytes r (chars cs) d"
proof (induction cs arbitrary: d)
  case (Cons c cs)
  have "fits stop (length cs) (put_bytes r [of_nat (of_char c)] d)" using Cons.prems by (intro fits_put) simp
  from Cons.IH [OF this] show ?case using fits_less [of stop "length cs" d] Cons.prems
    by (simp add: put_byte_bytes put_bytes_append chars_def)
qed (simp add: chars_def)

lemma put_file_fits:
  assumes "fits stop (length (file_entry f)) d" shows "put_file r stop f d = put_bytes r (file_entry f) d"
proof -
  have l: "length (chars cs) = length cs" for cs by (simp add: chars_def)
  have "fits stop (length (fst f)) d" using assms by (rule fits_le) (simp add: file_entry_def l)
  moreover have "fst (put_bytes r (chars (fst f)) d) < stop"
    by (rule fits_less [where n = 0], rule fits_put) (use assms in \<open>simp add: file_entry_def l\<close>)
  ultimately show ?thesis by (simp add: put_file_def put_name_fits put_byte_bytes put_bytes_append file_entry_def Let_def)
qed

lemma put_node_fits:
  assumes "fits stop (length (node_entry n) + 4) d" shows "put_node r stop n d = put_bytes r (node_entry n) d"
proof -
  have l: "length (chars cs) = length cs" for cs by (simp add: chars_def)
  have "unat (stop - 4) = unat stop - 4" using assms by (simp add: fits_def unat_sub word_le_nat_alt)
  then have g: "\<not> fst d \<ge> stop - 4" using assms by (simp add: fits_def node_entry_def word_le_nat_alt split: if_splits)
  show ?thesis
  proof (cases "snd (snd n)")
    case True
    have "fits stop (length (fst n)) (put_bytes r [of_nat (of_char CHR ''['')] d)"
      by (rule fits_put, rule fits_le [OF assms]) (simp add: node_entry_def True l)
    then show ?thesis using g True
      by (simp add: put_node_def put_byte_bytes put_name_fits put_bytes_append node_entry_def chars_def Let_def)
  next
    case False
    have "fits stop (length (fst n)) d" by (rule fits_le [OF assms]) (simp add: node_entry_def False l)
    then show ?thesis using g False
      by (simp add: put_node_def put_byte_bytes put_name_fits put_bytes_append node_entry_def Let_def)
  qed
qed

lemma fold_put:
  assumes "\<And>x d. fits stop (length (g x) + m) d \<Longrightarrow> P x d = put_bytes r (g x) d"
    and "fits stop (length (concat (map g xs)) + m) d"
  shows "fold P xs d = put_bytes r (concat (map g xs)) d"
  using assms(2)
proof (induction xs arbitrary: d)
  case (Cons x xs)
  have "P x d = put_bytes r (g x) d" by (rule assms(1), rule fits_le [OF Cons.prems]) simp
  moreover have "fits stop (length (concat (map g xs)) + m) (put_bytes r (g x) d)"
    by (rule fits_put) (use Cons.prems in \<open>simp add: ac_simps\<close>)
  ultimately show ?case using Cons.IH by (simp add: put_bytes_append)
qed simp

text \<open>A directory listing that fits its buffer with four bytes to spare is the names of the
  boot files and of the used nodes in order, each ended by a NUL, directories in brackets, and a
  last NUL; the call writes these bytes and nothing else and returns their number.\<close>
theorem directory_listed:
  assumes "current_thread (io_ps s) = Some (t, p)" "length (listing (io_vfs s)) + 4 \<le> cut_len 2048 a2"
    and "unat a1 + cut_len 2048 a2 \<le> 2 ^ 64"
  shows "NtQueryDir a1 a2 s = (of_nat (length (listing (io_vfs s))),
    set_vmm (write_user (Cr3 (the_proc (io_ps s) p)) a1 (listing (io_vfs s)) (io_vmm s)) s)"
proof -
  let ?r = "Cr3 (the_proc (io_ps s) p)" and ?n = "cut_len 2048 a2" and ?d0 = "(a1, io_vmm s)"
  let ?F = "concat (map file_entry (VFS_ForEach (io_vfs s)))" and ?N = "concat (map node_entry (VFS_ForEachWritable (io_vfs s)))"
  define stop where "stop = a1 + of_nat ?n - 1"
  have n: "5 \<le> ?n" "?n < 2 ^ 64" using assms(2) cut_le [of 2048 a2] by (simp_all add: listing_def)
  have st: "unat stop = unat a1 + (?n - 1)"
  proof -
    have e: "stop = a1 + of_nat (?n - 1)" using n(1) by (simp add: stop_def of_nat_diff)
    have u: "unat (of_nat (?n - 1) :: u64) = ?n - 1" by (rule unat_of_nat64) (use n in simp)
    have "unat a1 + unat (of_nat (?n - 1) :: u64) < 2 ^ 64" unfolding u using assms(3) n by simp
    then show ?thesis unfolding e by (subst unat_add_lem [THEN iffD1]) (simp_all only: u, simp)
  qed
  have L: "length ?F + length ?N + 4 \<le> ?n - 1" using assms(2) n(1) by (simp add: listing_def)
  have f0: "fits stop (length ?F + (length ?N + 4)) ?d0" using L st by (simp add: fits_def)
  have "fold (put_file ?r stop) (VFS_ForEach (io_vfs s)) ?d0 = put_bytes ?r ?F ?d0"
    by (rule fold_put [where m = 0]) (auto intro: put_file_fits fits_le [OF f0])
  moreover have f1: "fits stop (length ?N + 4) (put_bytes ?r ?F ?d0)" by (rule fits_put [OF f0])
  moreover have "fold (put_node ?r stop) (VFS_ForEachWritable (io_vfs s)) (put_bytes ?r ?F ?d0) = put_bytes ?r (?F @ ?N) ?d0"
    using fold_put [where m = 4 and P = "put_node ?r stop" and g = node_entry, OF put_node_fits f1] by (simp add: put_bytes_append)
  moreover have "fst (put_bytes ?r (?F @ ?N) ?d0) < stop"
    by (rule fits_less [where n = 0], rule fits_put, rule fits_le [OF f0]) simp
  ultimately show ?thesis
    using assms(1) by (simp add: NtQueryDir_def put_byte_bytes put_bytes_append Let_def flip: stop_def)
      (simp add: put_bytes_def listing_def)
qed

text \<open>A directory whose name is cut at the end of the buffer: the bracket and the NUL are still stored, the
  NUL behind the last byte.\<close>
lemma directory_overruns:
  assumes "unat stop + 1 < 2 ^ 64" "fits stop 5 (pos, v)" "length cs = unat stop - unat pos"
  shows "fst (put_node r stop (cs, sz, True) (pos, v)) = stop + 2"
proof -
  have g: "\<not> pos \<ge> stop - 4" using assms(2) by (simp add: fits_def word_le_nat_alt unat_sub)
  have n: "put_name r stop cs' d = put_bytes r (take (unat stop - unat (fst d)) (chars cs')) d" if "unat (fst d) \<le> unat stop" for cs' d
    using that
  proof (induction cs' arbitrary: d)
    case (Cons c cs')
    show ?case
    proof (cases "fst d < stop")
      case True
      then have k: "unat (fst d) < unat stop" by (simp add: word_less_nat_alt)
      then have "fits stop 0 (put_bytes r [of_nat (of_char c)] d)" by (intro fits_put) (simp add: fits_def)
      moreover have "unat (fst d + 1) = unat (fst d) + 1" using k unsigned_less [of stop, where ?'a = nat]
        by (subst unat_add_lem [THEN iffD1]) simp_all
      moreover have "unat stop - unat (fst d) = Suc (unat stop - Suc (unat (fst d)))" using k by simp
      ultimately show ?thesis using Cons.IH [of "put_bytes r [of_nat (of_char c)] d"] True
        by (simp add: put_byte_bytes put_bytes_append chars_def fits_def) (simp add: put_bytes_def)
    next
      case False
      then show ?thesis using Cons.prems by (simp add: word_less_nat_alt)
    qed
  qed (simp add: chars_def)
  let ?d = "put_bytes r [of_nat (of_char CHR ''['')] (pos, v)"
  have p: "unat (pos + 1) = unat pos + 1" using assms(1,2) by (subst unat_add_lem [THEN iffD1]) (simp_all add: fits_def)
  then have d: "unat (fst ?d) \<le> unat stop" "unat stop - unat (fst ?d) = unat stop - unat pos - 1"
    using assms(2) by (simp_all add: fits_def put_bytes_def)
  have "of_nat (unat stop - unat pos - 1) = stop - pos - 1"
    using assms(2) by (simp add: fits_def of_nat_diff)
  moreover have "length (take (unat stop - unat (fst ?d)) (chars cs)) = unat stop - unat pos - 1"
    unfolding d(2) using assms(3) by (simp add: chars_def)
  ultimately have "fst (put_name r stop cs ?d) = stop" unfolding n [OF d(1)] by (simp add: put_bytes_def)
  then show ?thesis using g by (simp add: put_node_def put_byte_bytes Let_def) (simp add: put_bytes_def)
qed

lemma directory_listed_witness: "fst (NtQueryDir 0x500000000 100 io_demo) = 13"
proof -
  have f: "io_vfs io_demo = snd (WFindOrCreate ''a'' False vfs_demo)" by (simp add: io_demo_def)
  have "s_bi (io_vfs io_demo) = s_bi vfs_demo" unfolding f by (simp add: WFindOrCreate_def split: option.split)
  then have e: "VFS_ForEach (io_vfs io_demo) = [(''hello.exe'', 3)]"
    by (simp add: VFS_ForEach_def vfs_demo_def VFS_Init_def LoadNVRAM_def)
  have "VFS_ForEachWritable (io_vfs io_demo) = [(''a'', 0, False)]"
    unfolding f VFS_ForEachWritable_def vfs_with_file(1) by (simp add: new_node_def WNode0_def vfs_str_copy_def WNODE_NAME_MAX_def)
  then have l: "length (listing (io_vfs io_demo)) = 13"
    by (simp add: listing_def e file_entry_def node_entry_def chars_def)
  have c: "cut_len 2048 100 = 100" by (simp add: cut_len_def)
  show ?thesis using directory_listed [OF io_demo_thread, of 100 "0x500000000"] unfolding l c by simp
qed

end
