(* ===== verification/Decimal.thy ===== *)
theory Decimal
  imports NtPrelude
begin

text \<open>Decimal numbers as the kernel prints them: NT\_QUERY\_SYSINFO in kernel/syscall/syscall.cpp and CellNum in
  kernel/hal/x64/vga.cpp build the digits from the last to the first and turn them around.\<close>

text \<open>The digits, the last one first, as they are collected in tmp.\<close>
fun digits_rev :: "nat \<Rightarrow> cstr" where
  "digits_rev v = (if v = 0 then [] else char_of (48 + v mod 10) # digits_rev (v div 10))"

declare digits_rev.simps [simp del]

definition itoa :: "nat \<Rightarrow> cstr" where
  "itoa v = (if v = 0 then ''0'' else rev (digits_rev v))"

text \<open>The value of a string of digits.\<close>
definition digits_value :: "cstr \<Rightarrow> nat" where
  "digits_value cs = foldl (\<lambda>n c. n * 10 + (of_char c - 48)) 0 cs"


lemma digits_rev_ok:
  "digits_value (rev (digits_rev v)) = v \<and> (\<forall>c\<in>set (digits_rev v). (48 :: nat) \<le> of_char c \<and> of_char c \<le> (57 :: nat))"
proof (induction v rule: digits_rev.induct)
  case (1 v)
  show ?case
  proof (cases "v = 0")
    case False
    have "v mod 10 \<le> 9" using mod_less_divisor [of 10 v] by linarith
    then show ?thesis using "1.IH" [OF False] False
      by (subst (1 2) digits_rev.simps) (simp add: digits_value_def)
  qed (simp add: digits_rev.simps digits_value_def)
qed

lemma itoa_ok: "digits_value (itoa v) = v" "c \<in> set (itoa v) \<Longrightarrow> (48 :: nat) \<le> of_char c \<and> of_char c \<le> (57 :: nat)"
  using digits_rev_ok [of v] by (auto simp: itoa_def digits_value_def split: if_splits)

end
