(* ===== verification/SysQuery.thy ===== *)
theory SysQuery
  imports SysFiles PeLoader Decimal
begin

text \<open>The system calls that report and control, kernel/syscall/syscall.cpp: process and thread
  information, time, the system information strings with their decimal numbers, modules, thread
  priority and exception handlers, the lookup of a named event and the wait for several handles.\<close>

section \<open>Information\<close>

definition info_buffer :: "u64 \<Rightarrow> u64 \<Rightarrow> (u64 \<times> u64) list \<Rightarrow> vmm \<Rightarrow> vmm" where
  "info_buffer pml4 a2 fs v =
    fold (\<lambda>(off, x). WriteUserU64 pml4 (a2 + off) x) fs (write_user pml4 a2 (replicate 48 0) v)"

definition NtQueryProcessInfo :: "u64 \<Rightarrow> u64 \<Rightarrow> u64 \<Rightarrow> psys \<Rightarrow> u64 \<times> psys" where
  "NtQueryProcessInfo a1 a2 a3 s =
    (case current_thread s of None \<Rightarrow> (nt STATUS_UNSUCCESSFUL, s)
     | Some (t, p) \<Rightarrow>
        if a1 = 0 \<and> a3 \<ge> 48 then
          (nt STATUS_SUCCESS, s\<lparr>p_vmm := info_buffer (Cr3 (the_proc s p)) a2
             [(0x08, PebVa (the_proc s p)), (0x20, ucast (Pid (the_proc s p)))] (p_vmm s)\<rparr>)
        else (nt STATUS_INFO_LENGTH_MISMATCH, s))"

definition NtQueryThreadInfo :: "u64 \<Rightarrow> u64 \<Rightarrow> u64 \<Rightarrow> psys \<Rightarrow> u64 \<times> psys" where
  "NtQueryThreadInfo a1 a2 a3 s =
    (case current_thread s of None \<Rightarrow> (nt STATUS_UNSUCCESSFUL, s)
     | Some (t, p) \<Rightarrow>
        if a1 = 0 \<and> a3 \<ge> 48 then
          (nt STATUS_SUCCESS, s\<lparr>p_vmm := info_buffer (Cr3 (the_proc s p)) a2
             [(0x08, TebVa (the_thr s t)), (0x10, ucast (Pid (the_proc s p))), (0x18, ucast (Tid (the_thr s t)))] (p_vmm s)\<rparr>)
        else (nt STATUS_INFO_LENGTH_MISMATCH, s))"

definition NtQuerySystemTime :: "u64 \<Rightarrow> psys \<Rightarrow> u64 \<times> psys" where
  "NtQuerySystemTime a1 s =
    (case current_thread s of None \<Rightarrow> (nt STATUS_UNSUCCESSFUL, s)
     | Some (t, p) \<Rightarrow>
        if a1 = 0 then (nt STATUS_UNSUCCESSFUL, s)
        else (nt STATUS_SUCCESS, s\<lparr>p_vmm := WriteUserU64 (Cr3 (the_proc s p)) a1 (pit_ticks (p_sys s) * 100000) (p_vmm s)\<rparr>))"

definition NtQueryPerfCounter :: "u64 \<Rightarrow> u64 \<Rightarrow> psys \<Rightarrow> u64 \<times> psys" where
  "NtQueryPerfCounter a1 a2 s =
    (case current_thread s of None \<Rightarrow> (nt STATUS_UNSUCCESSFUL, s)
     | Some (t, p) \<Rightarrow>
        if a1 = 0 then (nt STATUS_UNSUCCESSFUL, s)
        else let pml4 = Cr3 (the_proc s p); v = WriteUserU64 pml4 a1 (pit_ticks (p_sys s)) (p_vmm s);
                 v = (if a2 \<noteq> 0 then WriteUserU64 pml4 a2 100 v else v)
             in (nt STATUS_SUCCESS, s\<lparr>p_vmm := v\<rparr>))"

section \<open>System information\<close>

text \<open>A 32-bit read of KUSER\_SHARED\_DATA in the address space of the caller.\<close>
definition shared32 :: "u64 \<Rightarrow> u64 \<Rightarrow> vmm \<Rightarrow> u32" where
  "shared32 pml4 off v = of_nat (le_val 4 (\<lambda>i. ReadUserByte pml4 (0x7FFE0000 + off + of_nat i) v))"

definition crlf :: cstr where "crlf = [CHR 0x0D, CHR 0x0A]"

definition version_text :: "u32 \<Rightarrow> u32 \<Rightarrow> u32 \<Rightarrow> cstr" where
  "version_text maj mn bld = ''MicroNT [Windows '' @ (if maj = 10 \<and> mn = 0 then ''11'' else ''NT'') @ ''] '' @
     itoa (unat maj) @ ''.'' @ itoa (unat mn) @ ''.'' @ itoa (unat bld) @ crlf"

definition memory_text :: "pmm \<Rightarrow> cstr" where
  "memory_text p = ''Memory: Free='' @ itoa (FreePages p * (PAGE_SIZE div 1024)) @
     '' KB Used='' @ itoa (UsedPages p * (PAGE_SIZE div 1024)) @
     '' KB Total='' @ itoa (TotalPages p * (PAGE_SIZE div 1024)) @
     '' KB Pages='' @ itoa (UsedPages p) @ ''/'' @ itoa (TotalPages p) @ crlf"

definition process_line :: "KProcess \<Rightarrow> cstr" where
  "process_line k = take 28 (PName k) @ '' ('' @ itoa (unat (Pid k)) @ '')'' @ [CHR 0x0A]"

text \<open>Lines are added while 64 bytes are left.\<close>
fun process_lines :: "nat \<Rightarrow> nat \<Rightarrow> KProcess list \<Rightarrow> cstr" where
  "process_lines maxlen n [] = []"
| "process_lines maxlen n (k # ks) =
    (if n + 64 < maxlen then process_line k @ process_lines maxlen (n + length (process_line k)) ks else [])"

definition NtQuerySysInfo :: "u64 \<Rightarrow> u64 \<Rightarrow> u64 \<Rightarrow> psys \<Rightarrow> u64 \<times> psys" where
  "NtQuerySysInfo a1 a2 a3 s =
    (case current_thread s of None \<Rightarrow> (0, s)
     | Some (t, p) \<Rightarrow>
       (let pml4 = Cr3 (the_proc s p); maxlen = cut_len 256 a3; v = p_vmm s in
        if a1 = 2 then
          (let ls = process_lines maxlen 0 (map (the_proc s) (s_proc_reg (p_sys s))); n = length ls;
               v = write_user pml4 a2 (chars ls) v;
               v = (if n < maxlen then snd (WriteUserByte pml4 (a2 + of_nat n) 0 v) else v)
           in (of_nat n, s\<lparr>p_vmm := v\<rparr>))
        else if a1 = 0 \<or> a1 = 1 then
          (let str = (if a1 = 0 then version_text (shared32 pml4 0x26C v) (shared32 pml4 0x270 v) (shared32 pml4 0x274 v)
                 else memory_text (vm_pmm v));
               len = (if length str > maxlen then maxlen else length str);
               v = write_user pml4 a2 (chars (take len str)) v;
               v = snd (WriteUserByte pml4 (a2 + of_nat len) 0 v)
           in (of_nat len, s\<lparr>p_vmm := v\<rparr>))
        else (0, s)))"

section \<open>Modules\<close>

definition NtGetModuleBase :: "u64 \<Rightarrow> u64 \<Rightarrow> ldr \<Rightarrow> u64 option" where
  "NtGetModuleBase a1 a2 s = GetModuleBase (cmem (cstr_of (ReadUserBytes a1 (cut_len 39 a2) (l_ps s)))) s"

definition NtLoadLibrary :: "u64 \<Rightarrow> u64 \<Rightarrow> ldr \<Rightarrow> (u64 \<times> ldr) option" where
  "NtLoadLibrary a1 a2 s =
    (case current_thread (l_ps s) of None \<Rightarrow> Some (0, s)
     | Some (t, p) \<Rightarrow> LoadLibrary (cstr_of (ReadUserBytes a1 (cut_len 39 a2) (l_ps s))) (Cr3 (the_proc (l_ps s) p)) s)"

section \<open>Threads\<close>

definition NtDelayExecution :: "u64 \<Rightarrow> psys \<Rightarrow> u64 \<times> psys" where
  "NtDelayExecution a1 s = (nt STATUS_SUCCESS, if a1 > 0 then s\<lparr>p_sys := Sleep (ucast a1) (p_sys s)\<rparr> else s)"

definition NtTerminateThread :: "psys \<Rightarrow> (u64 \<times> psys) option" where
  "NtTerminateThread s = map_option (\<lambda>k. (nt STATUS_SUCCESS, s\<lparr>p_sys := k\<rparr>)) (TerminateCurrentThread (p_sys s))"

definition NtSetThreadInfo :: "u64 \<Rightarrow> u64 \<Rightarrow> psys \<Rightarrow> u64 \<times> psys" where
  "NtSetThreadInfo a2 a3 s =
    (case CurrentThread (p_sys s) of None \<Rightarrow> (nt STATUS_NOT_FOUND, s)
     | Some t \<Rightarrow>
        if a2 = 0 then
          (let pri = (ucast a3 :: u32) in
           if pri \<ge> THREAD_PRIORITY_COUNT then (nt STATUS_INVALID_PARAMETER, s)
           else (nt STATUS_SUCCESS, set_thr t (\<lambda>k. k\<lparr>Priority := pri\<rparr>) s))
        else (nt STATUS_SUCCESS, s))"

definition NtSetExHandler :: "u64 \<Rightarrow> psys \<Rightarrow> u64 \<times> psys" where
  "NtSetExHandler a1 s =
    (case CurrentThread (p_sys s) of None \<Rightarrow> (nt STATUS_NOT_FOUND, s)
     | Some t \<Rightarrow> (nt STATUS_SUCCESS, set_thr t (\<lambda>k. k\<lparr>ExceptionHandler := a1\<rparr>) s))"

text \<open>The result and the pending exception address, when it is set.\<close>
definition NtRaiseException :: "u64 \<Rightarrow> psys \<Rightarrow> u64 \<times> u64 option" where
  "NtRaiseException a1 s =
    (case CurrentThread (p_sys s) of None \<Rightarrow> (nt STATUS_NOT_FOUND, None)
     | Some t \<Rightarrow>
        if ExceptionHandler (the_thr s t) = 0 then (nt STATUS_NOT_FOUND, None)
        else (a1, Some (ExceptionHandler (the_thr s t))))"

section \<open>Named events and waiting for several handles\<close>

text \<open>Character i of an array that ends with zeros.\<close>
definition char_at :: "cstr \<Rightarrow> nat \<Rightarrow> u8" where
  "char_at cs i = (if i < length cs then of_nat (of_char (cs ! i)) else 0)"

fun open_event :: "(nat \<Rightarrow> u8) \<Rightarrow> nat \<Rightarrow> (u64 \<Rightarrow> KEvent) \<Rightarrow> u64 option list \<Rightarrow> nat \<Rightarrow> u64" where
  "open_event oname olen ev [] i = 0"
| "open_event oname olen ev (e # es) i =
    (case e of None \<Rightarrow> open_event oname olen ev es (i + 1)
     | Some a \<Rightarrow>
        if ev_name (ev a) \<noteq> [] \<and> (\<forall>j<olen. char_at (ev_name (ev a)) j = oname j) \<and> char_at (ev_name (ev a)) olen = 0
        then of_nat (i + 1) else open_event oname olen ev es (i + 1))"

text \<open>The reads of the caller's memory are the argument rdb.\<close>
definition NtOpenEvent :: "(u64 \<Rightarrow> u8) \<Rightarrow> u64 \<Rightarrow> u64 \<Rightarrow> ksync \<Rightarrow> u64" where
  "NtOpenEvent rdb a1 a2 s =
    (case CurrentThread s of None \<Rightarrow> 0
     | Some t \<Rightarrow> if Process (thr s t) = None then 0
        else open_event (\<lambda>i. rdb (a1 + of_nat i)) (cut_len 47 a2) (evs s) (s_events s) 0)"

text \<open>One round of the poll: a handle of a process that has exited is acquired, and so is the handle 0;
  handles of events, semaphores and mutants are not looked at.\<close>
definition acquire :: "(nat \<Rightarrow> bool) \<Rightarrow> u64 \<Rightarrow> bool \<Rightarrow> bool" where
  "acquire gone h acq \<longleftrightarrow> acq \<or> (if h \<ge> PROC_HANDLE_BASE then unat (h - PROC_HANDLE_BASE) < PROC_TABLE_SIZE \<and> gone (unat (h - PROC_HANDLE_BASE))
     else h = 0)"

definition poll_round :: "(nat \<Rightarrow> bool) \<Rightarrow> u64 list \<Rightarrow> bool list \<Rightarrow> bool list" where
  "poll_round gone hs acq = map (\<lambda>(h, a). acquire gone h a) (zip hs acq)"

fun first_true :: "bool list \<Rightarrow> nat \<Rightarrow> nat" where
  "first_true [] i = i"
| "first_true (b # bs) i = (if b then i else first_true bs (i + 1))"

text \<open>env k says which process handles name an exited process, and the tick, at poll k; the sleep between
  two polls is what lets it change.  None: the wait does not end.\<close>
partial_function (option) poll_loop ::
  "(nat \<Rightarrow> (nat \<Rightarrow> bool) \<times> u64) \<Rightarrow> u64 list \<Rightarrow> bool \<Rightarrow> u64 \<Rightarrow> u64 \<Rightarrow> nat \<Rightarrow> bool list \<Rightarrow> u64 option" where
  "poll_loop env hs wall timeout deadline k acq =
    (let acq = poll_round (fst (env k)) hs acq; n = length (filter id acq) in
     if \<not> wall \<and> n > 0 then Some (of_nat (first_true acq 0))
     else if wall \<and> n = length hs then Some (nt STATUS_SUCCESS)
     else if timeout = 0 then Some (nt STATUS_TIMEOUT)
     else if deadline \<noteq> - 1 \<and> snd (env k) \<ge> deadline then Some (nt STATUS_TIMEOUT)
     else poll_loop env hs wall timeout deadline (k + 1) acq)"

definition NtWaitMulti :: "(nat \<Rightarrow> (nat \<Rightarrow> bool) \<times> u64) \<Rightarrow> u64 \<Rightarrow> u64 \<Rightarrow> u64 \<Rightarrow> u64 \<Rightarrow> psys \<Rightarrow> u64 option" where
  "NtWaitMulti env a1 a2 a3 a4 s =
    (let cnt = unat (ucast a1 :: u32) in
     if cnt = 0 \<or> cnt > 8 then Some (nt STATUS_INVALID_PARAMETER) else
     case current_thread s of None \<Rightarrow> Some (nt STATUS_INVALID_PARAMETER)
     | Some (t, p) \<Rightarrow>
       (let pml4 = Cr3 (the_proc s p);
            hs = map (\<lambda>i. of_nat (le_val 8 (\<lambda>b. ReadUserByte pml4 (a2 + of_nat (i * 8 + b)) (p_vmm s)))) [0..<cnt];
            deadline = (if a4 = - 1 then - 1 else pit_ticks (p_sys s) + a4 * 100 div 1000 + 1)
        in poll_loop env hs (a3 \<noteq> 0) a4 deadline 0 (replicate cnt False)))"

section \<open>Waiting for several handles\<close>

text \<open>Handle i has been acquired by poll j, and the poll at which the loop stops.\<close>
definition acquired :: "(nat \<Rightarrow> (nat \<Rightarrow> bool) \<times> u64) \<Rightarrow> u64 list \<Rightarrow> nat \<Rightarrow> nat \<Rightarrow> bool" where
  "acquired env hs j i \<longleftrightarrow> (\<exists>m\<le>j. acquire (fst (env m)) (hs ! i) False)"

definition enough :: "(nat \<Rightarrow> (nat \<Rightarrow> bool) \<times> u64) \<Rightarrow> u64 list \<Rightarrow> bool \<Rightarrow> nat \<Rightarrow> bool" where
  "enough env hs wall j \<longleftrightarrow> (if wall then (\<forall>i<length hs. acquired env hs j i) else (\<exists>i<length hs. acquired env hs j i))"

definition poll_stops :: "(nat \<Rightarrow> (nat \<Rightarrow> bool) \<times> u64) \<Rightarrow> u64 list \<Rightarrow> bool \<Rightarrow> u64 \<Rightarrow> u64 \<Rightarrow> nat \<Rightarrow> bool" where
  "poll_stops env hs wall timeout deadline j \<longleftrightarrow>
     enough env hs wall j \<or> timeout = 0 \<or> (deadline \<noteq> - 1 \<and> snd (env j) \<ge> deadline)"

definition poll_result :: "(nat \<Rightarrow> (nat \<Rightarrow> bool) \<times> u64) \<Rightarrow> u64 list \<Rightarrow> bool \<Rightarrow> nat \<Rightarrow> u64" where
  "poll_result env hs wall j =
     (if \<not> enough env hs wall j then nt STATUS_TIMEOUT else if wall then nt STATUS_SUCCESS
      else of_nat (LEAST i. i < length hs \<and> acquired env hs j i))"

abbreviation acq_list :: "(nat \<Rightarrow> (nat \<Rightarrow> bool) \<times> u64) \<Rightarrow> u64 list \<Rightarrow> nat \<Rightarrow> bool list" where
  "acq_list env hs j \<equiv> map (acquired env hs j) [0..<length hs]"

lemma acquire_or: "acquire g h a \<longleftrightarrow> a \<or> acquire g h False" by (auto simp: acquire_def)

lemma poll_round_start: "poll_round (fst (env 0)) hs (replicate (length hs) False) = acq_list env hs 0"
  by (rule nth_equalityI) (simp_all add: poll_round_def acquired_def)

lemma poll_round_next: "poll_round (fst (env (Suc j))) hs (acq_list env hs j) = acq_list env hs (Suc j)"
  by (rule nth_equalityI) (auto simp: poll_round_def acquired_def le_Suc_eq acquire_or [of _ _ "Ex _"])

lemma first_true_Least:
  assumes "\<exists>i<length bs. bs ! i" shows "first_true bs k = k + (LEAST i. i < length bs \<and> bs ! i)"
  using assms
proof (induction bs arbitrary: k)
  case (Cons b bs)
  show ?case
  proof (cases b)
    case True
    have "(LEAST i. i < length (b # bs) \<and> (b # bs) ! i) = 0" by (rule Least_equality) (use True in simp_all)
    then show ?thesis using True by simp
  next
    case False
    then have ex: "\<exists>i<length bs. bs ! i" using Cons.prems by (metis (no_types) length_Cons less_Suc_eq_0_disj nth_Cons_0 nth_Cons_Suc)
    then obtain i where "i < length bs" "bs ! i" by blast
    then have "(LEAST i. i < length (b # bs) \<and> (b # bs) ! i) = Suc (LEAST i. Suc i < length (b # bs) \<and> (b # bs) ! Suc i)"
      using False by (intro Least_Suc [of _ "Suc i"]) simp_all
    then show ?thesis using Cons.IH [OF ex] False by simp
  qed
qed simp

lemma count_acq: "(length (filter id (acq_list env hs j)) = length hs \<longleftrightarrow> (\<forall>i<length hs. acquired env hs j i))"
  "0 < length (filter id (acq_list env hs j)) \<longleftrightarrow> (\<exists>i<length hs. acquired env hs j i)"
proof -
  have "length (filter id xs) = length xs \<longleftrightarrow> (\<forall>x\<in>set xs. x)" for xs :: "bool list"
    by (metis filter_id_conv filter_True id_apply length_filter_less less_irrefl)
  from this [of "acq_list env hs j"] show "(length (filter id (acq_list env hs j)) = length hs \<longleftrightarrow> (\<forall>i<length hs. acquired env hs j i))"
    by auto
  show "0 < length (filter id (acq_list env hs j)) \<longleftrightarrow> (\<exists>i<length hs. acquired env hs j i)"
    by (auto simp: filter_empty_conv)
qed

text \<open>The loop at poll j, when the round of this poll gives the acquired handles.\<close>
lemma poll_loop_round:
  assumes "poll_round (fst (env j)) hs acq = acq_list env hs j"
  shows "poll_loop env hs wall timeout deadline j acq =
    (if poll_stops env hs wall timeout deadline j then Some (poll_result env hs wall j)
     else poll_loop env hs wall timeout deadline (Suc j) (acq_list env hs j))"
proof -
  have f: "first_true (acq_list env hs j) 0 = (LEAST i. i < length hs \<and> acquired env hs j i)"
    if "\<exists>i<length hs. acquired env hs j i"
    using first_true_Least [of "acq_list env hs j" 0] that by (simp cong: conj_cong)
  show ?thesis
    unfolding poll_loop.simps [of env hs wall timeout deadline j] assms Let_def count_acq
    by (auto simp: poll_stops_def poll_result_def enough_def f)
qed


text \<open>A wait that returns was stopped.\<close>
lemma poll_loop_stops:
  assumes "poll_loop env hs wall timeout deadline k acq = Some r"
  shows "poll_round (fst (env k)) hs acq = acq_list env hs k \<longrightarrow> (\<exists>j. poll_stops env hs wall timeout deadline j)"
proof (rule poll_loop.raw_induct [OF _ assms], goal_cases)
  case (1 pl env hs wall timeout deadline k acq r)
  show ?case
  proof
    assume a: "poll_round (fst (env k)) hs acq = acq_list env hs k"
    show "\<exists>j. poll_stops env hs wall timeout deadline j"
    proof (cases "poll_stops env hs wall timeout deadline k")
      case False
      then have "pl env hs wall timeout deadline (k + 1) (acq_list env hs k) = Some r"
        using 1(2) unfolding a Let_def count_acq by (auto simp: poll_stops_def enough_def split: if_splits)
      from 1(1) [OF this] show ?thesis using poll_round_next by simp
    qed blast
  qed
qed

lemma poll_loop_ends:
  "poll_loop env hs wall timeout deadline 0 (replicate (length hs) False) =
    (if \<exists>j. poll_stops env hs wall timeout deadline j
     then Some (poll_result env hs wall (LEAST j. poll_stops env hs wall timeout deadline j)) else None)"
proof -
  let ?S = "poll_stops env hs wall timeout deadline" and ?L = "poll_loop env hs wall timeout deadline"
  have run: "?L k acq = ?L (k + j) (acq_list env hs (k + j - 1))"
    if "poll_round (fst (env k)) hs acq = acq_list env hs k" "0 < j" "\<forall>i<j. \<not> ?S (k + i)" for k j acq
    using that
  proof (induction j arbitrary: k acq)
    case (Suc j)
    have s: "?L k acq = ?L (Suc k) (acq_list env hs k)" using poll_loop_round [OF Suc.prems(1)] Suc.prems(3) by auto
    show ?case
    proof (cases "j = 0")
      case False
      have "\<forall>i<j. \<not> ?S (Suc k + i)" using Suc.prems(3) by auto
      from Suc.IH [OF poll_round_next _ this] False show ?thesis by (simp add: s)
    qed (simp add: s)
  qed simp
  show ?thesis
  proof (cases "\<exists>j. ?S j")
    case True
    define K where "K = (LEAST j. ?S j)"
    have K: "?S K" "\<forall>i<K. \<not> ?S i" using True by (auto simp: K_def intro: LeastI dest: not_less_Least)
    show ?thesis
    proof (cases K)
      case 0
      then show ?thesis using poll_loop_round [OF poll_round_start [of env hs], of wall timeout deadline] K True by (simp flip: K_def)
    next
      case (Suc j)
      have "?L 0 (replicate (length hs) False) = ?L K (acq_list env hs j)" using run [OF poll_round_start, of K] K(2) Suc by simp
      then show ?thesis using poll_loop_round [OF poll_round_next [of env j hs], of wall timeout deadline] K True Suc by (simp flip: K_def)
    qed
  next
    case False
    then have "?L 0 (replicate (length hs) False) \<noteq> Some r" for r using poll_loop_stops poll_round_start by blast
    then show ?thesis using False by (auto intro: option.exhaust)
  qed
qed

text \<open>What the caller waits for, stated without the code's own tests: the handle 0 counts as signalled,
  and the eight handles 0x300 .. 0x307 when the process in that slot of the table is seen to
  have exited at some poll up to j; no other handle ever counts.\<close>
definition signalled_by :: "(nat \<Rightarrow> (nat \<Rightarrow> bool) \<times> u64) \<Rightarrow> nat \<Rightarrow> u64 \<Rightarrow> bool" where
  "signalled_by env j h \<longleftrightarrow> h = 0 \<or> (\<exists>k<8. h = 0x300 + of_nat k \<and> (\<exists>m\<le>j. fst (env m) k))"

definition wait_met :: "(nat \<Rightarrow> (nat \<Rightarrow> bool) \<times> u64) \<Rightarrow> u64 list \<Rightarrow> bool \<Rightarrow> nat \<Rightarrow> bool" where
  "wait_met env hs wall j \<longleftrightarrow> (if wall then \<forall>h\<in>set hs. signalled_by env j h else \<exists>h\<in>set hs. signalled_by env j h)"

text \<open>The wait ends at poll j at the latest: it is met, only a test was asked for, or a time was
  given and so many hundredths of a second have passed since tick t0.\<close>
definition wait_over :: "(nat \<Rightarrow> (nat \<Rightarrow> bool) \<times> u64) \<Rightarrow> u64 list \<Rightarrow> bool \<Rightarrow> u64 \<Rightarrow> nat \<Rightarrow> nat \<Rightarrow> bool" where
  "wait_over env hs wall ms t0 j \<longleftrightarrow> wait_met env hs wall j \<or> ms = 0
     \<or> (ms \<noteq> - 1 \<and> t0 + unat ms div 10 + 1 \<le> unat (snd (env j)))"

lemma upto8: "(\<exists>k<8. P k) \<longleftrightarrow> P 0 \<or> P 1 \<or> P 2 \<or> P 3 \<or> P 4 \<or> P 5 \<or> P 6 \<or> P (7 :: nat)"
  by (simp add: eval_nat_numeral less_Suc_eq) blast

lemma acquired_signalled: "acquired env hs j i \<longleftrightarrow> signalled_by env j (hs ! i)"
proof -
  have idx: "(h \<ge> 0x300 \<and> unat (h - 0x300) < 8 \<and> P (unat (h - 0x300))) \<longleftrightarrow> (\<exists>k<8. h = 0x300 + of_nat k \<and> P k)" for h :: u64 and P
  proof
    assume "h \<ge> 0x300 \<and> unat (h - 0x300) < 8 \<and> P (unat (h - 0x300))"
    then show "\<exists>k<8. h = 0x300 + of_nat k \<and> P k" by (intro exI [of _ "unat (h - 0x300)"]) simp
  next
    assume "\<exists>k<8. h = 0x300 + of_nat k \<and> P k"
    then obtain k where k: "k < 8" "h = 0x300 + of_nat k" "P k" by blast
    then have "unat (of_nat k :: u64) = k" by (simp add: unat_of_nat64)
    moreover have "unat h = 0x300 + k" using k(1) by (simp add: k(2) unat_word_ariths unat_of_nat64)
    ultimately show "h \<ge> 0x300 \<and> unat (h - 0x300) < 8 \<and> P (unat (h - 0x300))" using k by (simp add: word_le_nat_alt)
  qed
  have "acquire g h False \<longleftrightarrow> h = 0 \<or> (\<exists>k<8. h = 0x300 + of_nat k \<and> g k)" for g h
    using idx [of h g] by (auto simp: acquire_def PROC_HANDLE_BASE_def PROC_TABLE_SIZE_def)
  then show ?thesis unfolding acquired_def signalled_by_def by blast
qed

lemma enough_wait_met: "enough env hs wall j = wait_met env hs wall j"
  unfolding enough_def wait_met_def acquired_signalled by (metis (no_types) in_set_conv_nth)

text \<open>A word read back byte by byte from user memory.\<close>
lemma read_word:
  assumes "user_bytes r a 8 v = le_bytes x"
  shows "of_nat (le_val 8 (\<lambda>b. ReadUserByte r (a + of_nat b) v)) = x"
proof -
  have "ReadUserByte r (a + of_nat b) v = of_nat (unat x div 256 ^ b)" if "b < 8" for b
  proof -
    have "user_bytes r a 8 v ! b = le_bytes x ! b" by (simp add: assms)
    then show ?thesis using that by (simp add: user_bytes_def le_bytes_def byte_of_nat)
  qed
  then have "le_val 8 (\<lambda>b. ReadUserByte r (a + of_nat b) v) = le_val 8 (\<lambda>b. of_nat (unat x div 256 ^ b))"
    by (rule le_val_cong)
  also have "\<dots> = unat x" unfolding le_val_digits by (rule mod_less) (use unsigned_less [of x, where ?'a = nat] in simp)
  finally show ?thesis by simp
qed

lemma NtWaitMulti_loop:
  assumes "current_thread s = Some (t, p)" "1 \<le> length hs" "length hs \<le> 8"
    and "\<forall>i<length hs. user_bytes (Cr3 (the_proc s p)) (a2 + of_nat (8 * i)) 8 (p_vmm s) = le_bytes (hs ! i)"
  shows "NtWaitMulti env (of_nat (length hs)) a2 a3 a4 s = poll_loop env hs (a3 \<noteq> 0) a4
      (if a4 = - 1 then - 1 else pit_ticks (p_sys s) + a4 * 100 div 1000 + 1) 0 (replicate (length hs) False)"
proof -
  let ?r = "Cr3 (the_proc s p)"
  have "of_nat (le_val 8 (\<lambda>b. ReadUserByte ?r (a2 + of_nat (i * 8 + b)) (p_vmm s))) = hs ! i" if "i < length hs" for i
    using read_word [OF assms(4) [rule_format, OF that]] by (simp add: ac_simps)
  then have hs: "map (\<lambda>i. of_nat (le_val 8 (\<lambda>b. ReadUserByte ?r (a2 + of_nat (i * 8 + b)) (p_vmm s)))) [0..<length hs] = hs"
    by (intro nth_equalityI) simp_all
  have cnt: "unat (ucast (of_nat (length hs) :: u64) :: u32) = length hs" using assms(3)
    by (simp add: unsigned_ucast_eq take_bit_nat_eq_self unat_of_nat64)
  have "hs \<noteq> []" using assms(2) by auto
  then show ?thesis using assms(1-3) by (simp add: NtWaitMulti_def cnt hs Let_def del: of_nat_add)
qed

text \<open>C37 (termination): NtWaitForMultipleObjects on one to eight handles read from the caller's memory returns exactly
  when the wait is over at some poll, and then with the result of the first such poll: success when all
  handles were signalled, the index of the first signalled handle when one was enough, the timeout
  otherwise.  The time runs out a tenth of the milliseconds, and one, ticks after the call; without a time
  limit and when no handle ever counts as signalled the call does not return.\<close>
theorem multi_wait_ends:
  assumes "current_thread s = Some (t, p)" "1 \<le> length hs" "length hs \<le> 8"
    and "\<forall>i<length hs. user_bytes (Cr3 (the_proc s p)) (a2 + of_nat (8 * i)) 8 (p_vmm s) = le_bytes (hs ! i)"
    and "ms = - 1 \<or> unat ms < 2 ^ 50" "unat (pit_ticks (p_sys s)) < 2 ^ 62"
  shows "NtWaitMulti env (of_nat (length hs)) a2 (if wall then 1 else 0) ms s = Some r \<longleftrightarrow>
    (\<exists>j. wait_over env hs wall ms (unat (pit_ticks (p_sys s))) j
       \<and> (\<forall>i<j. \<not> wait_over env hs wall ms (unat (pit_ticks (p_sys s))) i)
       \<and> r = (if \<not> wait_met env hs wall j then nt STATUS_TIMEOUT else if wall then nt STATUS_SUCCESS
              else of_nat (LEAST i. i < length hs \<and> signalled_by env j (hs ! i))))"
proof -
  let ?t0 = "unat (pit_ticks (p_sys s))"
  let ?d = "if ms = - 1 then - 1 else pit_ticks (p_sys s) + ms * 100 div 1000 + 1"
  have d: "?d \<noteq> - 1 \<and> ?d \<le> snd (env j) \<longleftrightarrow> ms \<noteq> - 1 \<and> ?t0 + unat ms div 10 + 1 \<le> unat (snd (env j))" for j
  proof (cases "ms = - 1")
    case False
    then have m: "unat ms < 2 ^ 50" using assms(5) by simp
    then have "unat (ms * 100 div 1000) = unat ms div 10" by (simp add: unat_div unat_word_ariths)
    then have u: "unat (pit_ticks (p_sys s) + ms * 100 div 1000 + 1) = ?t0 + unat ms div 10 + 1"
      using m assms(6) by (simp add: unat_word_ariths)
    moreover have "pit_ticks (p_sys s) + ms * 100 div 1000 + 1 \<noteq> - 1"
    proof
      assume "pit_ticks (p_sys s) + ms * 100 div 1000 + 1 = - 1"
      then have "?t0 + unat ms div 10 + 1 = unat (- 1 :: u64)" using u by metis
      then show False using m assms(6) by (simp add: unsigned_minus_1_eq_mask mask_eq_exp_minus_1)
    qed
    ultimately show ?thesis using False by (simp add: word_le_nat_alt)
  qed simp
  have st: "poll_stops env hs wall ms ?d j = wait_over env hs wall ms ?t0 j" for j
    unfolding poll_stops_def wait_over_def enough_wait_met using d [of j] by blast
  have res: "poll_result env hs wall j = (if \<not> wait_met env hs wall j then nt STATUS_TIMEOUT else if wall then nt STATUS_SUCCESS
      else of_nat (LEAST i. i < length hs \<and> signalled_by env j (hs ! i)))" for j
    unfolding poll_result_def enough_wait_met acquired_signalled ..
  have first: "(\<exists>j. P j \<and> (\<forall>i<j. \<not> P i) \<and> Q j) \<longleftrightarrow> (\<exists>j. P j) \<and> Q (LEAST j. P j)" for P Q :: "nat \<Rightarrow> bool"
    by (metis LeastI not_less_Least linorder_neqE_nat)
  have "NtWaitMulti env (of_nat (length hs)) a2 (if wall then 1 else 0) ms s = poll_loop env hs wall ms ?d 0 (replicate (length hs) False)"
    unfolding NtWaitMulti_loop [OF assms(1-4)] by simp
  then show ?thesis unfolding poll_loop_ends st res [symmetric] first by auto
qed

text \<open>Handles of events, semaphores and mutants are never acquired: without a timeout the wait hangs, even
  when the object is signalled.\<close>
lemma multi_wait_hangs:
  assumes "hs \<noteq> []" "\<forall>h\<in>set hs. h \<noteq> 0 \<and> h < PROC_HANDLE_BASE" "timeout \<noteq> 0"
  shows "poll_loop env hs wall timeout (- 1) 0 (replicate (length hs) False) = None"
proof -
  have "\<not> acquired env hs j i" if "i < length hs" for i j
  proof -
    have "hs ! i \<noteq> 0 \<and> hs ! i < PROC_HANDLE_BASE" using assms(2) nth_mem [OF that] by blast
    then show ?thesis by (auto simp: acquired_def acquire_def not_le)
  qed
  then have "\<not> poll_stops env hs wall timeout (- 1) j" for j
    using assms(1,3) by (auto simp: poll_stops_def enough_def)
  then show ?thesis
    using poll_loop_stops [of env hs wall timeout "- 1" 0 "replicate (length hs) False"] poll_round_start [of env hs]
    by (meson not_None_eq)
qed

section \<open>Information about a process and its thread\<close>

lemma info_buffer_bytes:
  assumes "\<forall>(off, x)\<in>set fs. unat off + 8 \<le> 48" "pt_wf v r" "user_buf v r a 48"
  shows "pt_wf (info_buffer r a fs v) r \<and> user_buf (info_buffer r a fs v) r a 48
    \<and> user_bytes r a 48 (info_buffer r a fs v) =
        fold (\<lambda>(off, x) bs. take (unat off) bs @ le_bytes x @ drop (unat off + 8) bs) fs (replicate 48 0)"
  using assms(1)
proof (induction fs rule: rev_induct)
  case Nil
  note W = user_bytes_write [OF assms(2,3), of 0 "replicate 48 0"]
  show ?case using W by (simp add: info_buffer_def)
next
  case (snoc f fs)
  obtain off x where f: "f = (off, x)" by fastforce
  have o: "unat off + length (le_bytes x) \<le> 48" using snoc.prems f by simp
  have I: "pt_wf (info_buffer r a fs v) r" "user_buf (info_buffer r a fs v) r a 48"
    "user_bytes r a 48 (info_buffer r a fs v) = fold (\<lambda>(off, x) bs. take (unat off) bs @ le_bytes x @ drop (unat off + 8) bs) fs (replicate 48 0)"
    using snoc.IH snoc.prems by auto
  have e: "info_buffer r a (fs @ [f]) v = write_user r (a + of_nat (unat off)) (le_bytes x) (info_buffer r a fs v)"
    by (simp add: info_buffer_def f WriteUserU64_bytes)
  show ?case unfolding e using user_bytes_write [OF I(1,2) o] I(3) by (simp add: f)
qed

text \<open>The information a thread gets about itself.  With a mapped buffer of 48 bytes,
  ProcessBasicInformation holds the address of the PEB and the process number,
  ThreadBasicInformation the address of the TEB, the process and the thread number, each at its
  offset and all other bytes zero; another class or a shorter length is refused and nothing is
  written.\<close>
theorem information_calls:
  assumes "current_thread s = Some (t, p)" "pt_wf (p_vmm s) (Cr3 (the_proc s p))" "user_buf (p_vmm s) (Cr3 (the_proc s p)) a2 48"
  defines "r \<equiv> Cr3 (the_proc s p)" and "z \<equiv> \<lambda>n. replicate n (0 :: u8)" and "k \<equiv> the_proc s p"
  shows "(48 \<le> len \<longrightarrow> (\<exists>s1 s2. NtQueryProcessInfo 0 a2 len s = (nt STATUS_SUCCESS, s1) \<and> NtQueryThreadInfo 0 a2 len s = (nt STATUS_SUCCESS, s2)
      \<and> user_bytes r a2 48 (p_vmm s1) = z 8 @ le_bytes (PebVa k) @ z 16 @ le_bytes (ucast (Pid k)) @ z 8
      \<and> user_bytes r a2 48 (p_vmm s2) = z 8 @ le_bytes (TebVa (the_thr s t)) @ le_bytes (ucast (Pid k)) @ le_bytes (ucast (Tid (the_thr s t))) @ z 16))
    \<and> (len < 48 \<or> c \<noteq> 0 \<longrightarrow> NtQueryProcessInfo c a2 len s = (nt STATUS_INFO_LENGTH_MISMATCH, s)
      \<and> NtQueryThreadInfo c a2 len s = (nt STATUS_INFO_LENGTH_MISMATCH, s))"
proof -
  let ?P = "[(0x08, PebVa k), (0x20, ucast (Pid k))] :: (u64 \<times> u64) list"
  let ?T = "[(0x08, TebVa (the_thr s t)), (0x10, ucast (Pid k)), (0x18, ucast (Tid (the_thr s t)))] :: (u64 \<times> u64) list"
  have wf: "pt_wf (p_vmm s) r" and b: "user_buf (p_vmm s) r a2 48" using assms(2,3) by (simp_all add: r_def)
  have P: "user_bytes r a2 48 (info_buffer r a2 ?P (p_vmm s)) = z 8 @ le_bytes (PebVa k) @ z 16 @ le_bytes (ucast (Pid k)) @ z 8"
    using info_buffer_bytes [OF _ wf b, of ?P] by (simp add: z_def)
  have T: "user_bytes r a2 48 (info_buffer r a2 ?T (p_vmm s)) = z 8 @ le_bytes (TebVa (the_thr s t)) @ le_bytes (ucast (Pid k)) @ le_bytes (ucast (Tid (the_thr s t))) @ z 16"
    using info_buffer_bytes [OF _ wf b, of ?T] by (simp add: z_def)
  have "NtQueryProcessInfo 0 a2 len s = (nt STATUS_SUCCESS, s\<lparr>p_vmm := info_buffer r a2 ?P (p_vmm s)\<rparr>)"
    "NtQueryThreadInfo 0 a2 len s = (nt STATUS_SUCCESS, s\<lparr>p_vmm := info_buffer r a2 ?T (p_vmm s)\<rparr>)" if "48 \<le> len"
    using assms(1) that by (simp_all add: NtQueryProcessInfo_def NtQueryThreadInfo_def r_def k_def)
  moreover have "NtQueryProcessInfo c a2 len s = (nt STATUS_INFO_LENGTH_MISMATCH, s)"
    "NtQueryThreadInfo c a2 len s = (nt STATUS_INFO_LENGTH_MISMATCH, s)" if "len < 48 \<or> c \<noteq> 0"
    using assms(1) that by (auto simp: NtQueryProcessInfo_def NtQueryThreadInfo_def)
  ultimately show ?thesis using P T by auto
qed

definition info_demo :: psys where
  "info_demo = set_proc 1 (\<lambda>k. k\<lparr>PebVa := PEB_VA, Pid := 7\<rparr>) (vm_demo\<lparr>p_vmm := heap_page\<rparr>)"

lemma information_calls_witness:
  "\<exists>s1. NtQueryProcessInfo 0 0x500000000 48 info_demo = (nt STATUS_SUCCESS, s1)
     \<and> user_bytes 0x300000 0x500000000 48 (p_vmm s1) = replicate 8 0 @ le_bytes PEB_VA @ replicate 16 0 @ le_bytes 7 @ replicate 8 0"
proof -
  have c: "current_thread info_demo = Some (Thr 0, 1)"
    using vm_demo_sel(2) by (simp add: info_demo_def) (simp add: current_thread_def split: option.splits)
  have v: "p_vmm info_demo = heap_page" "Cr3 (the_proc info_demo 1) = 0x300000" "PebVa (the_proc info_demo 1) = PEB_VA" "Pid (the_proc info_demo 1) = 7"
    using vm_demo_sel(3) by (simp_all add: info_demo_def set_proc_def upd_proc_def)
  obtain f where f: "pt_wf heap_page 0x300000" "page_at heap_page 0x300000 0x500000000 f" by (rule heap_page_at)
  have b: "user_buf heap_page 0x300000 0x500000000 48" using page_user_buf [OF f(2), of 0 48] by simp
  have wf: "pt_wf (p_vmm info_demo) (Cr3 (the_proc info_demo 1))" "user_buf (p_vmm info_demo) (Cr3 (the_proc info_demo 1)) 0x500000000 48"
    unfolding v by (rule f(1), rule b)
  show ?thesis using information_calls [OF c wf, of 48 0] unfolding v by auto
qed

text \<open>A thread that waits without a limit for an event handle or the process of handle 0x303, which
  exits between the second and the third poll: the call returns the index 1.\<close>
lemma multi_wait_ends_witness:
  "\<exists>s. NtWaitMulti (\<lambda>j. (\<lambda>k. k = 3 \<and> 2 \<le> j, of_nat j)) 2 0x500000000 0 (- 1) s = Some 1"
proof -
  let ?env = "\<lambda>j. (\<lambda>k. k = (3 :: nat) \<and> 2 \<le> j, of_nat j :: u64)" and ?hs = "[0x20, 0x303 :: u64]" and ?a = "0x500000000 :: u64"
  obtain f where f: "pt_wf heap_page 0x300000" "page_at heap_page 0x300000 ?a f" by (rule heap_page_at)
  have b: "user_buf heap_page 0x300000 ?a 16" using page_user_buf [OF f(2), of 0 16] by simp
  let ?v = "write_user 0x300000 ?a (le_bytes 0x20 @ le_bytes 0x303) heap_page"
  have m: "user_bytes 0x300000 ?a 16 ?v = le_bytes 0x20 @ le_bytes 0x303"
    using user_bytes_write(3) [OF f(1) b, of 0 "le_bytes 0x20 @ le_bytes 0x303"] by simp
  have m2: "user_bytes 0x300000 ?a (8 + 8) ?v = user_bytes 0x300000 ?a 8 ?v @ user_bytes 0x300000 (?a + 8) 8 ?v"
    by (simp add: user_bytes_def upt_rec)
  then have h: "user_bytes 0x300000 ?a 8 ?v = le_bytes 0x20" "user_bytes 0x300000 (?a + 8) 8 ?v = le_bytes 0x303"
    using m by simp_all
  define s where "s = set_proc 1 (\<lambda>k. k\<lparr>PebVa := PEB_VA, Pid := 7\<rparr>) (vm_demo\<lparr>p_vmm := ?v\<rparr>)"
  have c: "current_thread s = Some (Thr 0, 1)"
    using vm_demo_sel(2) by (simp add: s_def) (simp add: current_thread_def split: option.splits)
  have v: "p_vmm s = ?v" "Cr3 (the_proc s 1) = 0x300000"
    using vm_demo_sel(3) by (simp_all add: s_def set_proc_def upd_proc_def)
  have h': "\<forall>i<length ?hs. user_bytes (Cr3 (the_proc s 1)) (?a + of_nat (8 * i)) 8 (p_vmm s) = le_bytes (?hs ! i)"
    using h unfolding v by (auto simp: less_Suc_eq)
  have ticks: "pit_ticks (p_sys s) = 100" by (simp add: s_def set_proc_def upd_proc_def vm_demo_def)
  have sg: "signalled_by ?env j 0x303 \<longleftrightarrow> 2 \<le> j" "\<not> signalled_by ?env j 0x20" for j
    unfolding signalled_by_def upto8 by auto
  have over: "wait_over ?env ?hs False (- 1) t0 j \<longleftrightarrow> 2 \<le> j" for t0 j by (simp add: wait_over_def wait_met_def sg)
  have least: "(LEAST i. i < length ?hs \<and> signalled_by ?env 2 (?hs ! i)) = 1"
  proof (rule Least_equality)
    show "1 \<le> i" if "i < length ?hs \<and> signalled_by ?env 2 (?hs ! i)" for i using that sg by (cases i) auto
  qed (simp add: sg)
  have "unat (pit_ticks (p_sys s)) < 2 ^ 62" using ticks by simp
  then have "NtWaitMulti ?env (of_nat (length ?hs)) ?a (if False then 1 else 0) (- 1) s = Some 1"
  proof (subst multi_wait_ends [OF c _ _ h'])
    have r: "(1 :: u64) = (if \<not> wait_met ?env ?hs False 2 then nt STATUS_TIMEOUT else if False then nt STATUS_SUCCESS
        else of_nat (LEAST i. i < length ?hs \<and> signalled_by ?env 2 (?hs ! i)))"
      unfolding least by (simp add: wait_met_def sg)
    show "\<exists>j. wait_over ?env ?hs False (- 1) (unat (pit_ticks (p_sys s))) j \<and> (\<forall>i<j. \<not> wait_over ?env ?hs False (- 1) (unat (pit_ticks (p_sys s))) i)
      \<and> 1 = (if \<not> wait_met ?env ?hs False j then nt STATUS_TIMEOUT else if False then nt STATUS_SUCCESS
        else of_nat (LEAST i. i < length ?hs \<and> signalled_by ?env j (?hs ! i)))"
      using r unfolding over by (intro exI [of _ 2]) auto
  qed simp_all
  then show ?thesis by auto
qed

end
