(* ===== verification/Framebuffer.thy ===== *)
theory Framebuffer
  imports FontTable "HOL-Library.Signed_Division"
begin

text \<open>The drawing primitives of kernel/hal/x64/vga.cpp over the linear frame buffer: colours, clipped
  rectangles, gradients, glyphs, ellipses, rounded shapes, alpha masks and the mouse cursor with the
  pixels it hides.  Coordinates are 32-bit words and wrap; a pixel address is computed the way the
  code computes it, part in 32 and part in 64 bits.  s_fb says whether a frame buffer is set and fbmem
  holds the pixel words counted from it.\<close>

section \<open>State\<close>

record Cell =
  c_ch :: u8
  c_attr :: u8

record vga =
  s_fb :: bool
  fbmem :: "u64 \<Rightarrow> u32"
  s_fb_w :: u32
  s_fb_h :: u32
  s_fb_stride :: u32
  s_fb_bgr :: bool
  s_cols :: u32
  s_rows :: u32
  s_row :: u32
  s_col :: u32
  s_cursor_visible :: bool
  s_mouse_visible :: bool
  s_mouse_x :: u32
  s_mouse_y :: u32
  s_mouse_backing :: "nat \<Rightarrow> u32"
  s_origin_x :: u32
  s_origin_y :: u32
  s_cells :: "nat \<Rightarrow> nat \<Rightarrow> Cell"

definition CHAR_W :: nat where "CHAR_W = 8"
definition CHAR_H :: nat where "CHAR_H = 16"

definition s_palette :: "u32 list" where
  "s_palette = [0x000000, 0x0000AA, 0x00AA00, 0x00AAAA,
     0xAA0000, 0xAA00AA, 0xAA5500, 0xAAAAAA,
     0x555555, 0x5555FF, 0x55FF55, 0x55FFFF,
     0xFF5555, 0xFF55FF, 0xFFFF55, 0xFFFFFF]"

section \<open>Colours\<close>

definition ToPixel :: "bool \<Rightarrow> u32 \<Rightarrow> u32" where
  "ToPixel bgr rgb =
    (let r = ucast (ucast (drop_bit 16 rgb) :: u8); g = ucast (ucast (drop_bit 8 rgb) :: u8); b = ucast (ucast rgb :: u8)
     in if bgr then b OR push_bit 8 g OR push_bit 16 r else r OR push_bit 8 g OR push_bit 16 b)"

definition FromPixel :: "bool \<Rightarrow> u32 \<Rightarrow> u32" where
  "FromPixel bgr px =
    (if bgr then
       (let b = px AND 0xFF; g = drop_bit 8 px AND 0xFF; r = drop_bit 16 px AND 0xFF
        in push_bit 16 r OR push_bit 8 g OR b)
     else
       (let r = px AND 0xFF; g = drop_bit 8 px AND 0xFF; b = drop_bit 16 px AND 0xFF
        in push_bit 16 r OR push_bit 8 g OR b))"

abbreviation topx :: "vga \<Rightarrow> u32 \<Rightarrow> u32" where "topx s \<equiv> ToPixel (s_fb_bgr s)"

definition AttrFg :: "vga \<Rightarrow> u8 \<Rightarrow> u32" where
  "AttrFg s attr = topx s (s_palette ! unat (attr AND 0x0F))"

definition AttrBg :: "vga \<Rightarrow> u8 \<Rightarrow> u32" where
  "AttrBg s attr = topx s (s_palette ! unat (drop_bit 4 attr AND 0x07))"

text \<open>The colour moved towards white by t / 255.\<close>
definition Lighten :: "u32 \<Rightarrow> u32 \<Rightarrow> u32" where
  "Lighten rgb t =
    (let r = drop_bit 16 rgb AND 0xFF; g = drop_bit 8 rgb AND 0xFF; b = rgb AND 0xFF;
         r = r + ((255 - r) * t) div 255; g = g + ((255 - g) * t) div 255; b = b + ((255 - b) * t) div 255
     in push_bit 16 r OR push_bit 8 g OR b)"

section \<open>Rectangles\<close>

text \<open>The address of column x of line y: the line start in 32 bits, the column added to the pointer.\<close>
definition line_at :: "vga \<Rightarrow> u32 \<Rightarrow> u32 \<Rightarrow> u64" where
  "line_at s y x = ucast (y * s_fb_stride s) + ucast x"

text \<open>The address of a pixel, all of it in 32 bits.\<close>
definition pix :: "vga \<Rightarrow> u32 \<Rightarrow> u32 \<Rightarrow> u64" where
  "pix s x y = ucast (y * s_fb_stride s + x)"

text \<open>A loop that stores pixels is the list of its stores, in order: address and pixel word.\<close>
definition puts :: "(u64 \<times> u32) list \<Rightarrow> vga \<Rightarrow> vga" where
  "puts ws s = s\<lparr>fbmem := fold (\<lambda>(i, px) m. m(i := px)) ws (fbmem s)\<rparr>"

definition FillRect :: "u32 \<Rightarrow> u32 \<Rightarrow> u32 \<Rightarrow> u32 \<Rightarrow> u32 \<Rightarrow> vga \<Rightarrow> vga" where
  "FillRect x y w h rgb s =
    (if \<not> s_fb s \<or> x \<ge> s_fb_w s \<or> y \<ge> s_fb_h s then s else
     let w = (if x + w > s_fb_w s then s_fb_w s - x else w);
         h = (if y + h > s_fb_h s then s_fb_h s - y else h);
         px = topx s rgb
     in puts [(line_at s (y + of_nat yy) x + of_nat xx, px). yy \<leftarrow> [0..<unat h], xx \<leftarrow> [0..<unat w]] s)"

definition RectOutline :: "u32 \<Rightarrow> u32 \<Rightarrow> u32 \<Rightarrow> u32 \<Rightarrow> u32 \<Rightarrow> u32 \<Rightarrow> vga \<Rightarrow> vga" where
  "RectOutline x y w h light dark s =
    (if w < 2 \<or> h < 2 then s else
     FillRect (x + w - 1) y 1 h dark (FillRect x (y + h - 1) w 1 dark
       (FillRect x y 1 h light (FillRect x y w 1 light s))))"

text \<open>One channel of a gradient line: int arithmetic, the division truncates towards 0.\<close>
definition mix :: "int \<Rightarrow> int \<Rightarrow> nat \<Rightarrow> nat \<Rightarrow> u32" where
  "mix t b yy h = of_int (t + ((b - t) * int yy) sdiv int h)"

definition channel :: "nat \<Rightarrow> u32 \<Rightarrow> int" where
  "channel n rgb = uint (drop_bit n rgb AND 0xFF)"

definition gradient :: "u32 \<Rightarrow> u32 \<Rightarrow> nat \<Rightarrow> nat \<Rightarrow> u32" where
  "gradient up down yy h =
    push_bit 16 (mix (channel 16 up) (channel 16 down) yy h)
    OR push_bit 8 (mix (channel 8 up) (channel 8 down) yy h)
    OR mix (channel 0 up) (channel 0 down) yy h"

definition FillVerticalGradient :: "u32 \<Rightarrow> u32 \<Rightarrow> u32 \<Rightarrow> u32 \<Rightarrow> u32 \<Rightarrow> u32 \<Rightarrow> vga \<Rightarrow> vga" where
  "FillVerticalGradient x y w h up down s =
    fold (\<lambda>yy. FillRect x (y + of_nat yy) w 1 (gradient up down yy (unat h))) [0..<unat h] s"

section \<open>Text\<close>

definition font_bit :: "u8 \<Rightarrow> nat \<Rightarrow> nat \<Rightarrow> bool" where
  "font_bit ch r c \<longleftrightarrow> s_font ch r AND drop_bit c 0x80 \<noteq> 0"

text \<open>The rows of a glyph until the bottom of the screen (the break of the loop).\<close>
definition glyph_rows :: "u32 \<Rightarrow> vga \<Rightarrow> nat list" where
  "glyph_rows py s = takeWhile (\<lambda>r. \<not> py + of_nat r \<ge> s_fb_h s) [0..<CHAR_H]"

text \<open>The stores of a glyph with its background; the pointer is 64 bits wide, the test against the width 32.\<close>
definition glyph_stores :: "vga \<Rightarrow> u32 \<Rightarrow> u32 \<Rightarrow> u8 \<Rightarrow> u32 \<Rightarrow> u32 \<Rightarrow> (u64 \<times> u32) list" where
  "glyph_stores s px py ch fg bg =
     [(line_at s (py + of_nat r) px + of_nat c, if font_bit ch r c then fg else bg).
      r \<leftarrow> glyph_rows py s, c \<leftarrow> [0..<CHAR_W], px + of_nat c < s_fb_w s]"

definition DrawGlyphAbs :: "u32 \<Rightarrow> u32 \<Rightarrow> u8 \<Rightarrow> u32 \<Rightarrow> u32 \<Rightarrow> vga \<Rightarrow> vga" where
  "DrawGlyphAbs px py ch fg bg s = (if \<not> s_fb s then s else puts (glyph_stores s px py ch fg bg) s)"

text \<open>A character as the byte the font is indexed with.\<close>
definition chr8 :: "char \<Rightarrow> u8" where "chr8 c = of_nat (of_char c)"

fun draw_text :: "(u32 \<Rightarrow> u8 \<Rightarrow> vga \<Rightarrow> vga) \<Rightarrow> u32 \<Rightarrow> nat \<Rightarrow> cstr \<Rightarrow> vga \<Rightarrow> vga" where
  "draw_text glyph x i [] s = s"
| "draw_text glyph x i (c # cs) s = draw_text glyph x (i + 1) cs (glyph (x + of_nat i * of_nat CHAR_W) (chr8 c) s)"

definition DrawTextAbs :: "u32 \<Rightarrow> u32 \<Rightarrow> cstr \<Rightarrow> u32 \<Rightarrow> u32 \<Rightarrow> vga \<Rightarrow> vga" where
  "DrawTextAbs x y txt fg bg s = draw_text (\<lambda>px ch s. DrawGlyphAbs px y ch (topx s fg) (topx s bg) s) x 0 txt s"

definition DrawGlyphTransparent :: "u32 \<Rightarrow> u32 \<Rightarrow> u8 \<Rightarrow> u32 \<Rightarrow> vga \<Rightarrow> vga" where
  "DrawGlyphTransparent px py ch fg s =
    (if \<not> s_fb s then s else
     let c = topx s fg in
     puts [(line_at s (py + of_nat r) px + of_nat cc, c).
           r \<leftarrow> glyph_rows py s, cc \<leftarrow> [0..<CHAR_W], font_bit ch r cc \<and> px + of_nat cc < s_fb_w s] s)"

definition DrawTextTransparent :: "u32 \<Rightarrow> u32 \<Rightarrow> cstr option \<Rightarrow> u32 \<Rightarrow> vga \<Rightarrow> vga" where
  "DrawTextTransparent x y txt fg s =
    (case txt of None \<Rightarrow> s | Some cs \<Rightarrow> draw_text (\<lambda>px ch. DrawGlyphTransparent px y ch fg) x 0 cs s)"

section \<open>Ellipses, rounded rectangles and masks\<close>

text \<open>The loops run over the box from (x0, y0) to (x1, y1) with both ends, in 64-bit arithmetic.\<close>
definition in_ellipse :: "u32 \<Rightarrow> u32 \<Rightarrow> u32 \<Rightarrow> u32 \<Rightarrow> u32 \<Rightarrow> u32 \<Rightarrow> bool" where
  "in_ellipse cx cy rx ry x y \<longleftrightarrow>
    (let dx = ucast x - ucast cx :: u64; dy = ucast y - ucast cy :: u64; rx = ucast rx; ry = ucast ry
     in dx * dx * ry * ry + dy * dy * rx * rx \<le> rx * rx * ry * ry)"

definition FillEllipse :: "u32 \<Rightarrow> u32 \<Rightarrow> u32 \<Rightarrow> u32 \<Rightarrow> u32 \<Rightarrow> vga \<Rightarrow> vga" where
  "FillEllipse cx cy rx ry rgb s =
    (if \<not> s_fb s \<or> rx = 0 \<or> ry = 0 then s else
     let px = topx s rgb;
         x0 = (if cx > rx then cx - rx else 0); y0 = (if cy > ry then cy - ry else 0);
         x1 = (if cx + rx < s_fb_w s then cx + rx else s_fb_w s - 1);
         y1 = (if cy + ry < s_fb_h s then cy + ry else s_fb_h s - 1)
     in puts [(pix s (of_nat x) (of_nat y), px).
              y \<leftarrow> [unat y0..<unat y1 + 1], x \<leftarrow> [unat x0..<unat x1 + 1],
              in_ellipse cx cy rx ry (of_nat x) (of_nat y)] s)"

text \<open>The loop of Isqrt, whose square wraps: None when it never ends.\<close>
partial_function (option) isqrt_loop :: "u32 \<Rightarrow> u32 \<Rightarrow> u32 option" where
  "isqrt_loop v r = (if (r + 1) * (r + 1) \<le> v then isqrt_loop v (r + 1) else Some r)"

definition Isqrt :: "u32 \<Rightarrow> u32 option" where "Isqrt v = isqrt_loop v 0"

definition round_inset :: "u32 \<Rightarrow> u32 \<Rightarrow> u32 \<Rightarrow> u32 option" where
  "round_inset r h row =
    (if row < r then (let dy = r - row in map_option (\<lambda>q. r - q) (Isqrt (r * r - dy * dy)))
     else if row \<ge> h - r then (let dy = row - (h - r) + 1 in map_option (\<lambda>q. r - q) (Isqrt (r * r - dy * dy)))
     else Some 0)"

fun round_rows :: "u32 \<Rightarrow> u32 \<Rightarrow> u32 \<Rightarrow> u32 \<Rightarrow> u32 \<Rightarrow> u32 \<Rightarrow> nat list \<Rightarrow> vga \<Rightarrow> vga option" where
  "round_rows x y w h r rgb [] s = Some s"
| "round_rows x y w h r rgb (row # rows) s =
    (case round_inset r h (of_nat row) of None \<Rightarrow> None
     | Some inset \<Rightarrow> round_rows x y w h r rgb rows (FillRect (x + inset) (y + of_nat row) (w - 2 * inset) 1 rgb s))"

definition FillRoundRect :: "u32 \<Rightarrow> u32 \<Rightarrow> u32 \<Rightarrow> u32 \<Rightarrow> u32 \<Rightarrow> u32 \<Rightarrow> vga \<Rightarrow> vga option" where
  "FillRoundRect x y w h r rgb s =
    (if w = 0 \<or> h = 0 then Some s else
     let r = (if r * 2 > w then w div 2 else r); r = (if r * 2 > h then h div 2 else r)
     in round_rows x y w h r rgb [0..<unat h] s)"

text \<open>One channel of a pixel under a mask of coverage al.\<close>
definition blend :: "u8 \<Rightarrow> u32 \<Rightarrow> u32 \<Rightarrow> u32" where
  "blend al src dst = (src * ucast al + dst * (255 - ucast al)) div 255"

definition blend_pixel :: "bool \<Rightarrow> u8 \<Rightarrow> u32 \<Rightarrow> u32 \<Rightarrow> u32" where
  "blend_pixel bgr al rgb old =
    (if al = 255 then ToPixel bgr rgb else
     let d = FromPixel bgr old;
         ch = (\<lambda>n. blend al (drop_bit n rgb AND 0xFF) (drop_bit n d AND 0xFF))
     in ToPixel bgr (push_bit 16 (ch 16) OR push_bit 8 (ch 8) OR ch 0))"

definition BlitGlyphAlpha :: "u32 \<Rightarrow> u32 \<Rightarrow> (nat \<Rightarrow> u8) option \<Rightarrow> nat \<Rightarrow> nat \<Rightarrow> u32 \<Rightarrow> vga \<Rightarrow> vga" where
  "BlitGlyphAlpha x y a gw gh rgb s =
    (case a of None \<Rightarrow> s | Some a \<Rightarrow>
     if \<not> s_fb s then s else
     fold (\<lambda>j s. fold (\<lambda>i s.
         let al = a (j * gw + i); p = pix s (x + of_nat i) (y + of_nat j) in
         if x + of_nat i \<ge> s_fb_w s \<or> al = 0 then s
         else puts [(p, blend_pixel (s_fb_bgr s) al rgb (fbmem s p))] s) [0..<gw] s)
       (takeWhile (\<lambda>j. \<not> y + of_nat j \<ge> s_fb_h s) [0..<gh]) s)"

section \<open>The mouse cursor\<close>

definition cursor_rows :: "string list" where
  "cursor_rows = [
    ''X...........'',
    ''XX..........'',
    ''XOX.........'',
    ''XOOX........'',
    ''XOOOX.......'',
    ''XOOOOX......'',
    ''XOOOOOX.....'',
    ''XOOOOOOX....'',
    ''XOOOOOOOX...'',
    ''XOOOOXXXX...'',
    ''XOOXOX......'',
    ''XOX..OX.....'',
    ''XX...OX.....'',
    ''X.....OX....'',
    ''......OX....'',
    ''.......X....'']"

definition DrawMouseCursor :: "u32 \<Rightarrow> u32 \<Rightarrow> vga \<Rightarrow> vga" where
  "DrawMouseCursor x y s =
    fold (\<lambda>r. fold (\<lambda>c s. let p = cursor_rows ! r ! c in
        if p = CHR ''.'' then s
        else FillRect (x + of_nat c * 2) (y + of_nat r * 2) 2 2 (if p = CHR ''X'' then 0x000000 else 0xFFFFFF) s)
      [0..<12]) [0..<16] s"

definition RestoreMouseCursor :: "vga \<Rightarrow> vga" where
  "RestoreMouseCursor s =
    (if \<not> s_fb s \<or> \<not> s_mouse_visible s then s else
     (puts [(pix s (s_mouse_x s + of_nat x) (s_mouse_y s + of_nat y), s_mouse_backing s (y * 24 + x)).
            y \<leftarrow> takeWhile (\<lambda>y. \<not> s_mouse_y s + of_nat y \<ge> s_fb_h s) [0..<32],
            x \<leftarrow> takeWhile (\<lambda>x. \<not> s_mouse_x s + of_nat x \<ge> s_fb_w s) [0..<24]] s)\<lparr>s_mouse_visible := False\<rparr>)"

definition SaveMouseCursor :: "u32 \<Rightarrow> u32 \<Rightarrow> vga \<Rightarrow> vga" where
  "SaveMouseCursor x0 y0 s =
    (if \<not> s_fb s then s else
     s\<lparr>s_mouse_backing := fold (\<lambda>(k, v) b. b(k := v))
         [(y * 24 + x, if x0 + of_nat x < s_fb_w s \<and> y0 + of_nat y < s_fb_h s
                       then fbmem s (pix s (x0 + of_nat x) (y0 + of_nat y)) else 0).
          y \<leftarrow> [0..<32], x \<leftarrow> [0..<24]] (s_mouse_backing s)\<rparr>)"

definition MoveMouseCursor :: "u32 \<Rightarrow> u32 \<Rightarrow> vga \<Rightarrow> vga" where
  "MoveMouseCursor x y s =
    (if \<not> s_fb s then s else
     let s = RestoreMouseCursor s;
         max_x = (if s_fb_w s > 24 then s_fb_w s - 24 else 0); max_y = (if s_fb_h s > 32 then s_fb_h s - 32 else 0);
         x = (if x > max_x then max_x else x); y = (if y > max_y then max_y else y);
         s = SaveMouseCursor x y (s\<lparr>s_mouse_x := x, s_mouse_y := y\<rparr>)
     in (DrawMouseCursor x y s)\<lparr>s_mouse_visible := True\<rparr>)"

section \<open>Stores\<close>

lemma puts_simps [simp]:
  "s_fb (puts ws s) = s_fb s" "s_fb_w (puts ws s) = s_fb_w s" "s_fb_h (puts ws s) = s_fb_h s"
  "s_fb_stride (puts ws s) = s_fb_stride s" "s_fb_bgr (puts ws s) = s_fb_bgr s" "s_cols (puts ws s) = s_cols s"
  "s_rows (puts ws s) = s_rows s" "s_row (puts ws s) = s_row s" "s_col (puts ws s) = s_col s"
  "s_cursor_visible (puts ws s) = s_cursor_visible s" "s_mouse_visible (puts ws s) = s_mouse_visible s"
  "s_mouse_x (puts ws s) = s_mouse_x s" "s_mouse_y (puts ws s) = s_mouse_y s"
  "s_mouse_backing (puts ws s) = s_mouse_backing s" "s_origin_x (puts ws s) = s_origin_x s"
  "s_origin_y (puts ws s) = s_origin_y s" "s_cells (puts ws s) = s_cells s"
  by (simp_all add: puts_def)

lemma puts_Nil [simp]: "puts [] s = s" by (simp add: puts_def)

lemma fold_upd_other:
  assumes "\<And>p. p \<in> set ws \<Longrightarrow> fst p \<noteq> i"
  shows "fold (\<lambda>(i, v) m. m(i := v)) ws m i = m i"
  using assms by (induction ws arbitrary: m) (auto simp: case_prod_beta)

lemma fold_upd_mem:
  assumes "(i, v) \<in> set ws" "\<And>p. p \<in> set ws \<Longrightarrow> fst p = i \<Longrightarrow> snd p = v"
  shows "fold (\<lambda>(i, v) m. m(i := v)) ws m i = v"
  using assms
proof (induction ws arbitrary: m)
  case (Cons p ws)
  show ?case
  proof (cases "\<exists>v'. (i, v') \<in> set ws")
    case True
    then obtain v' where v': "(i, v') \<in> set ws" by blast
    then have "v' = v" using Cons.prems(2) by force
    then show ?thesis using Cons.IH v' Cons.prems(2) by simp
  next
    case False
    then have p: "p = (i, v)" using Cons.prems(1) by auto
    have "fst q \<noteq> i" if "q \<in> set ws" for q using False that by (cases q) auto
    then have "fold (\<lambda>(i, v) m. m(i := v)) ws (m(i := v)) i = (m(i := v)) i" by (rule fold_upd_other)
    then show ?thesis by (simp add: p fun_upd_def)
  qed
qed simp

lemma puts_other: "(\<And>p. p \<in> set ws \<Longrightarrow> fst p \<noteq> i) \<Longrightarrow> fbmem (puts ws s) i = fbmem s i"
  by (simp add: puts_def fold_upd_other)

lemma puts_mem: "(i, v) \<in> set ws \<Longrightarrow> (\<And>p. p \<in> set ws \<Longrightarrow> fst p = i \<Longrightarrow> snd p = v) \<Longrightarrow> fbmem (puts ws s) i = v"
  by (simp add: puts_def fold_upd_mem)

text \<open>The stores of two nested loops.\<close>
lemma mem_loop: "p \<in> set [f r c. r \<leftarrow> rs, c \<leftarrow> cs, P r c] \<longleftrightarrow> (\<exists>r\<in>set rs. \<exists>c\<in>set cs. p = f r c \<and> P r c)"
  by auto

lemma mem_loop_all: "p \<in> set [f r c. r \<leftarrow> rs, c \<leftarrow> cs] \<longleftrightarrow> (\<exists>r\<in>set rs. \<exists>c\<in>set cs. p = f r c)"
  by auto

section \<open>Geometry\<close>

text \<open>The frame buffer the firmware describes: lines no shorter than the width, and all of it below 2^32
  pixels, so that the 32-bit addresses do not wrap.\<close>
definition fb_ok :: "vga \<Rightarrow> bool" where
  "fb_ok s \<longleftrightarrow> s_fb s \<and> s_fb_w s \<le> s_fb_stride s \<and> unat (s_fb_h s) * unat (s_fb_stride s) < 2 ^ 32"

abbreviation on_screen :: "vga \<Rightarrow> u32 \<Rightarrow> u32 \<Rightarrow> bool" where
  "on_screen s x y \<equiv> x < s_fb_w s \<and> y < s_fb_h s"

lemma pix_unat:
  assumes "fb_ok s" "on_screen s x y"
  shows "unat (pix s x y) = unat y * unat (s_fb_stride s) + unat x"
    and "unat y * unat (s_fb_stride s) + unat x < 2 ^ 32" "unat x < unat (s_fb_stride s)"
proof -
  show x: "unat x < unat (s_fb_stride s)" using assms by (simp add: fb_ok_def word_less_nat_alt word_le_nat_alt)
  have "Suc (unat y) * unat (s_fb_stride s) \<le> unat (s_fb_h s) * unat (s_fb_stride s)"
    using assms(2) by (intro mult_le_mono1) (simp add: word_less_nat_alt)
  then show l: "unat y * unat (s_fb_stride s) + unat x < 2 ^ 32" using assms(1) x by (simp add: fb_ok_def)
  have "unat (y * s_fb_stride s + x) = unat y * unat (s_fb_stride s) + unat x"
    using l by (simp add: unat_word_ariths mod_add_left_eq)
  then show "unat (pix s x y) = unat y * unat (s_fb_stride s) + unat x"
    by (simp add: pix_def unat_ucast_32_64)
qed

lemma line_at_pix:
  assumes "fb_ok s" "on_screen s x y"
  shows "line_at s y x = pix s x y"
proof (rule word_unat_eq_iff [THEN iffD2])
  note l = pix_unat [OF assms]
  have y: "unat (y * s_fb_stride s) = unat y * unat (s_fb_stride s)" using l(2) by (simp add: unat_word_ariths)
  show "unat (line_at s y x) = unat (pix s x y)"
    using l(2) by (simp add: line_at_def l(1) unat_word_ariths unat_ucast_32_64 y)
qed

lemma pix_inj:
  assumes "fb_ok s" "on_screen s x y" "on_screen s x' y'"
  shows "pix s x y = pix s x' y' \<longleftrightarrow> x = x' \<and> y = y'"
proof
  assume "pix s x y = pix s x' y'"
  then have e: "unat y * unat (s_fb_stride s) + unat x = unat y' * unat (s_fb_stride s) + unat x'"
    using pix_unat(1) [OF assms(1,2)] pix_unat(1) [OF assms(1,3)] by simp
  have m: "unat x < unat (s_fb_stride s)" "unat x' < unat (s_fb_stride s)"
    using pix_unat(3) assms by blast+
  have "unat x = unat x'" using arg_cong [OF e, of "\<lambda>n. n mod unat (s_fb_stride s)"] m by simp
  moreover have "unat y = unat y'" using arg_cong [OF e, of "\<lambda>n. n div unat (s_fb_stride s)"] m by simp
  ultimately show "x = x' \<and> y = y'" by (simp only: word_unat_eq_iff)
qed simp

abbreviation pixel :: "vga \<Rightarrow> u32 \<Rightarrow> u32 \<Rightarrow> u32" where "pixel s x y \<equiv> fbmem s (pix s x y)"


lemma u32_lt: "unat (x :: u32) < 2 ^ 32"
  using unsigned_less [of x, where ?'a = nat] by simp

lemma u32_add: "unat (x :: u32) + n < 2 ^ 32 \<Longrightarrow> unat (x + of_nat n) = unat x + n"
  by (simp add: unat_word_ariths unat_of_nat take_bit_nat_def)

lemma line_at_add:
  assumes "unat x + n < 2 ^ 32"
  shows "line_at s y x + of_nat n = line_at s y (x + of_nat n)"
proof -
  have "(ucast (x + of_nat n) :: u64) = ucast x + of_nat n"
    using assms by (intro word_unat_eq_iff [THEN iffD2])
      (simp add: unat_ucast_32_64 u32_add unat_word_ariths unat_of_nat take_bit_nat_def)
  then show ?thesis by (simp add: line_at_def)
qed

lemma pix_puts [simp]: "pix (puts ws s) = pix s"
  by (intro ext) (simp add: pix_def)

definition in_rect :: "u32 \<Rightarrow> u32 \<Rightarrow> nat \<Rightarrow> nat \<Rightarrow> u32 \<Rightarrow> u32 \<Rightarrow> bool" where
  "in_rect x y w h px py \<longleftrightarrow> unat x \<le> unat px \<and> unat px < unat x + w \<and> unat y \<le> unat py \<and> unat py < unat y + h"

text \<open>The coordinates of a rectangle do not wrap.\<close>
abbreviation no_wrap :: "u32 \<Rightarrow> u32 \<Rightarrow> bool" where "no_wrap a n \<equiv> unat a + unat n < 2 ^ 32"

lemma clip:
  assumes "x < W" "no_wrap x (w :: u32)"
  shows "unat (if x + w > W then W - x else w) = min (unat w) (unat W - unat x)"
proof -
  have "unat (x + w) = unat x + unat w" using assms(2) by (simp add: unat_word_ariths)
  moreover have "unat (W - x) = unat W - unat x" using assms(1) by (simp add: unat_sub order_less_imp_le)
  ultimately show ?thesis using assms(1) by (auto simp: word_less_nat_alt)
qed

lemma FillRect_writes:
  assumes "fb_ok s" "no_wrap x w" "no_wrap y h"
  obtains ws where "FillRect x y w h rgb s = puts ws s"
    "\<And>p. p \<in> set ws \<longleftrightarrow> (\<exists>X Y. p = (pix s X Y, topx s rgb) \<and> on_screen s X Y \<and> in_rect x y (unat w) (unat h) X Y)"
proof (cases "x \<ge> s_fb_w s \<or> y \<ge> s_fb_h s")
  case True
  then have "\<not> (on_screen s X Y \<and> in_rect x y (unat w) (unat h) X Y)" for X Y
    by (auto simp: in_rect_def word_less_nat_alt word_le_nat_alt)
  then show thesis using True by (intro that [of "[]"]) (auto simp: FillRect_def)
next
  case False
  define w' h' where "w' = min (unat w) (unat (s_fb_w s) - unat x)" and "h' = min (unat h) (unat (s_fb_h s) - unat y)"
  have x: "x < s_fb_w s" "y < s_fb_h s" using False by auto
  let ?ws = "[(line_at s (y + of_nat yy) x + of_nat xx, topx s rgb). yy \<leftarrow> [0..<h'], xx \<leftarrow> [0..<w']]"
  have 1: "FillRect x y w h rgb s = puts ?ws s"
    using x assms(1) by (simp add: FillRect_def Let_def clip [OF x(1) assms(2)] clip [OF x(2) assms(3)] w'_def h'_def fb_ok_def not_le)
  have wh: "w' \<le> unat (s_fb_w s) - unat x" "h' \<le> unat (s_fb_h s) - unat y" "unat x < unat (s_fb_w s)" "unat y < unat (s_fb_h s)"
    using x by (simp_all add: w'_def h'_def word_less_nat_alt)
  have ax: "unat (x + of_nat n) = unat x + n" if "n < w'" for n
    using that wh u32_lt [of "s_fb_w s"] by (intro u32_add) simp
  have ay: "unat (y + of_nat n) = unat y + n" if "n < h'" for n
    using that wh u32_lt [of "s_fb_h s"] by (intro u32_add) simp
  have os: "on_screen s (x + of_nat i) (y + of_nat j)" if "i < w'" "j < h'" for i j
    unfolding word_less_nat_alt ax [OF that(1)] ay [OF that(2)] using that wh by linarith
  have el: "line_at s (y + of_nat j) x + of_nat i = pix s (x + of_nat i) (y + of_nat j)" if "i < w'" "j < h'" for i j
  proof -
    have "unat x + i < 2 ^ 32" using that wh u32_lt [of "s_fb_w s"] by simp
    then show ?thesis using line_at_pix [OF assms(1) os [OF that]] by (simp add: line_at_add)
  qed
  have "p \<in> set ?ws \<longleftrightarrow> (\<exists>X Y. p = (pix s X Y, topx s rgb) \<and> on_screen s X Y \<and> in_rect x y (unat w) (unat h) X Y)" for p
  proof
    assume "p \<in> set ?ws"
    then obtain i j where ij: "i < w'" "j < h'" "p = (pix s (x + of_nat i) (y + of_nat j), topx s rgb)" by (auto simp: el)
    moreover have "in_rect x y (unat w) (unat h) (x + of_nat i) (y + of_nat j)"
      using ij by (simp add: in_rect_def ax ay w'_def h'_def)
    ultimately show "\<exists>X Y. p = (pix s X Y, topx s rgb) \<and> on_screen s X Y \<and> in_rect x y (unat w) (unat h) X Y"
      using os by blast
  next
    assume "\<exists>X Y. p = (pix s X Y, topx s rgb) \<and> on_screen s X Y \<and> in_rect x y (unat w) (unat h) X Y"
    then obtain X Y where p: "p = (pix s X Y, topx s rgb)" "on_screen s X Y" "in_rect x y (unat w) (unat h) X Y" by blast
    define i j where "i = unat X - unat x" and "j = unat Y - unat y"
    have ij: "i < w'" "j < h'" using p(2,3) by (auto simp: in_rect_def i_def j_def w'_def h'_def word_less_nat_alt)
    have "X = x + of_nat i" "Y = y + of_nat j"
      using p(3) ax [OF ij(1)] ay [OF ij(2)] by (simp_all add: word_unat_eq_iff in_rect_def i_def j_def)
    then show "p \<in> set ?ws" using ij p(1) el [OF ij] by force
  qed
  then show thesis by (rule that [OF 1])
qed

text \<open>C28 (functional): FillRect.  On a frame buffer the firmware can describe, and for a rectangle whose
  corners do not wrap around 2^32, exactly the pixels of the rectangle that are on the screen get the
  colour; every other pixel, and every address that is not a pixel of the screen (the padding of the
  lines, the memory around the buffer), keeps its value.\<close>
theorem FillRect_exact:
  assumes "fb_ok s" "no_wrap x w" "no_wrap y h"
  shows "(on_screen s X Y \<longrightarrow> pixel (FillRect x y w h rgb s) X Y =
      (if in_rect x y (unat w) (unat h) X Y then ToPixel (s_fb_bgr s) rgb else pixel s X Y))
    \<and> ((\<forall>X Y. on_screen s X Y \<longrightarrow> i \<noteq> pix s X Y) \<longrightarrow> fbmem (FillRect x y w h rgb s) i = fbmem s i)"
proof (intro conjI impI)
  obtain ws where ws: "FillRect x y w h rgb s = puts ws s"
    "\<And>p. p \<in> set ws \<longleftrightarrow> (\<exists>X Y. p = (pix s X Y, topx s rgb) \<and> on_screen s X Y \<and> in_rect x y (unat w) (unat h) X Y)"
    using FillRect_writes [OF assms, of rgb] by blast
  show "pixel (FillRect x y w h rgb s) X Y =
      (if in_rect x y (unat w) (unat h) X Y then ToPixel (s_fb_bgr s) rgb else pixel s X Y)" if o: "on_screen s X Y"
  proof (cases "in_rect x y (unat w) (unat h) X Y")
    case True
    then have "(pix s X Y, topx s rgb) \<in> set ws" using o ws(2) by blast
    moreover have "snd p = topx s rgb" if "p \<in> set ws" for p using that ws(2) by auto
    ultimately have "fbmem (puts ws s) (pix s X Y) = topx s rgb" by (rule puts_mem)
    then show ?thesis using True by (simp add: ws(1))
  next
    case False
    have "fst p \<noteq> pix s X Y" if "p \<in> set ws" for p
      using that False o pix_inj [OF assms(1) o] by (fastforce simp: ws(2))
    then show ?thesis using False by (simp add: ws(1) puts_other)
  qed
  show "fbmem (FillRect x y w h rgb s) i = fbmem s i" if "\<forall>X Y. on_screen s X Y \<longrightarrow> i \<noteq> pix s X Y"
    unfolding ws(1) by (rule puts_other) (use that ws(2) in force)
qed

text \<open>A screen for the witnesses: 64 by 48 pixels in lines of 80.\<close>
definition vga_demo :: vga where
  "vga_demo = \<lparr>s_fb = True, fbmem = \<lambda>i. 0, s_fb_w = 64, s_fb_h = 48, s_fb_stride = 80, s_fb_bgr = True,
     s_cols = 8, s_rows = 3, s_row = 1, s_col = 0, s_cursor_visible = False, s_mouse_visible = False,
     s_mouse_x = 0, s_mouse_y = 0, s_mouse_backing = \<lambda>i. 0, s_origin_x = 0, s_origin_y = 0,
     s_cells = \<lambda>r c. \<lparr>c_ch = 0, c_attr = 0\<rparr>\<rparr>"

lemma FillRect_exact_witness:
  "fb_ok vga_demo \<and> pixel (FillRect 60 40 10 2 0x0000FF vga_demo) 63 41 = 0x0000FF
   \<and> fbmem (FillRect 60 40 10 2 0x0000FF vga_demo) 3265 = 0"
proof -
  have ok: "fb_ok vga_demo" by (simp add: fb_ok_def vga_demo_def)
  have n: "no_wrap 60 (10 :: u32)" "no_wrap 40 (2 :: u32)" by simp_all
  have o: "on_screen vga_demo 63 41" by (simp add: vga_demo_def)
  have "3265 \<noteq> pix vga_demo X Y" if "on_screen vga_demo X Y" for X Y
  proof
    assume "3265 = pix vga_demo X Y"
    then have "unat Y * 80 + unat X = 3265" using pix_unat(1) [OF ok that] by (simp add: vga_demo_def)
    moreover have "unat X < 64" using that by (simp add: vga_demo_def word_less_nat_alt)
    ultimately show False by presburger
  qed
  then have "fbmem (FillRect 60 40 10 2 0x0000FF vga_demo) 3265 = fbmem vga_demo 3265"
    by (intro FillRect_exact [OF ok n, THEN conjunct2, rule_format]) blast
  moreover have "pixel (FillRect 60 40 10 2 0x0000FF vga_demo) 63 41 = ToPixel True 0x0000FF"
    using FillRect_exact [OF ok n, THEN conjunct1, rule_format, OF o, of "0x0000FF"] by (simp add: in_rect_def vga_demo_def)
  ultimately show ?thesis using ok by (simp add: vga_demo_def ToPixel_def)
qed

section \<open>Colours\<close>

lemma mask8: "(0xFF :: u32) = mask 8" by (simp add: mask_eq_exp_minus_1)
lemma mask24: "(0xFFFFFF :: u32) = mask 24" by (simp add: mask_eq_exp_minus_1)

lemma ucast_byte: "(ucast (ucast (w :: u32) :: u8) :: u32) = w AND 0xFF"
  unfolding mask8 by (rule bit_word_eqI) (auto simp: bit_simps)

text \<open>The three bytes of a colour, put together in one order or the other.\<close>
definition rgb_word :: "u32 \<Rightarrow> u32 \<Rightarrow> u32 \<Rightarrow> u32" where
  "rgb_word r g b = push_bit 16 (r AND 0xFF) OR push_bit 8 (g AND 0xFF) OR (b AND 0xFF)"

lemma ToPixel_bytes: "ToPixel bgr c =
    (if bgr then rgb_word (drop_bit 16 c) (drop_bit 8 c) c else rgb_word c (drop_bit 8 c) (drop_bit 16 c))"
  by (simp add: ToPixel_def rgb_word_def ucast_byte ac_simps)

lemma FromPixel_bytes: "FromPixel bgr c =
    (if bgr then rgb_word (drop_bit 16 c) (drop_bit 8 c) c else rgb_word c (drop_bit 8 c) (drop_bit 16 c))"
  by (simp add: FromPixel_def rgb_word_def)

lemma rgb_word_bytes:
  "rgb_word r g b AND 0xFF = b AND 0xFF"
  "drop_bit 8 (rgb_word r g b) AND 0xFF = g AND 0xFF"
  "drop_bit 16 (rgb_word r g b) AND 0xFF = r AND 0xFF"
  unfolding rgb_word_def mask8 by (rule bit_word_eqI, auto simp: bit_simps)+

lemma rgb_word_and: "rgb_word r g b = rgb_word (r AND 0xFF) (g AND 0xFF) (b AND 0xFF)"
  by (simp add: rgb_word_def and.assoc)

lemma rgb_word_self: "rgb_word (drop_bit 16 c) (drop_bit 8 c) c = c AND 0xFFFFFF"
  unfolding rgb_word_def mask8 mask24
  by (rule bit_word_eqI, rename_tac n, case_tac "n < 8", simp add: bit_simps)
    (case_tac "n < 16"; auto simp: bit_simps)

lemma rgb_word_of:
  "rgb_word (rgb_word r g b) (drop_bit 8 (rgb_word r g b)) (drop_bit 16 (rgb_word r g b)) = rgb_word b g r"
  by (subst rgb_word_and) (simp add: rgb_word_bytes rgb_word_and [symmetric])

text \<open>The two pixel formats.  FromPixel undoes ToPixel on the 24 bits of a colour, for both
  byte orders, and ToPixel undoes FromPixel on a pixel word without its reserved byte.\<close>
theorem colour_roundtrip:
  "FromPixel bgr (ToPixel bgr c) = c AND 0xFFFFFF \<and> ToPixel bgr (FromPixel bgr p) = p AND 0xFFFFFF"
  by (cases bgr)
    (simp_all only: ToPixel_bytes FromPixel_bytes if_True if_False rgb_word_self rgb_word_of and.assoc and.idem simp_thms)

lemma isqrt_step: "unat r < 65535 \<Longrightarrow> (r + 1) * (r + 1) \<le> v \<longleftrightarrow> (unat r + 1) * (unat r + 1) \<le> unat (v :: u32)"
proof -
  assume r: "unat r < 65535"
  have "unat (r + 1) = unat r + 1" using u32_add [of r 1] r by simp
  moreover have "(unat r + 1) * (unat r + 1) \<le> 65535 * 65535" using r by (intro mult_mono) simp_all
  ultimately have "unat ((r + 1) * (r + 1)) = (unat r + 1) * (unat r + 1)" by (simp only: unat_word_ariths) simp
  then show ?thesis by (simp only: word_le_nat_alt)
qed

lemma isqrt_loop_finds:
  assumes "n * n \<le> unat v" "unat v < (n + 1) * (n + 1)" "n < 65535" "k \<le> n"
  shows "isqrt_loop v (of_nat k) = Some (of_nat n)"
  using assms(4)
proof (induction rule: inc_induct)
  case base
  have "unat (of_nat n :: u32) = n" using assms(3) by (simp add: unat_of_nat take_bit_nat_def)
  then have "\<not> (of_nat n + 1) * (of_nat n + 1) \<le> v" using assms by (simp add: isqrt_step)
  then show ?case by (simp add: isqrt_loop.simps)
next
  case (step k)
  have k: "unat (of_nat k :: u32) = k" using step assms(3) by (simp add: unat_of_nat take_bit_nat_def)
  have "(k + 1) * (k + 1) \<le> n * n" using step by (intro mult_mono) simp_all
  then have "(of_nat k + 1) * (of_nat k + 1) \<le> v" using assms k step by (subst isqrt_step) simp_all
  then show ?case using step.IH by (subst isqrt_loop.simps) (simp add: add.commute)
qed

lemma isqrt_loop_stops:
  assumes "isqrt_loop v r = Some q"
  shows "v < (q + 1) * (q + 1)"
  by (rule isqrt_loop.raw_induct [where P = "\<lambda>v r q. v < (q + 1) * (q + 1)", OF _ assms])
    (auto split: if_splits)

lemma sqrt_exists: "\<exists>n :: nat. n * n \<le> m \<and> m < (n + 1) * (n + 1)"
proof (induction m)
  case (Suc m)
  then obtain n where n: "n * n \<le> m" "m < (n + 1) * (n + 1)" by blast
  show ?case
  proof (cases "Suc m < (n + 1) * (n + 1)")
    case False
    then show ?thesis using n by (intro exI [of _ "n + 1"]) simp
  next
    case True
    then show ?thesis using n by (intro exI [of _ n]) linarith
  qed
qed (auto intro: exI [of _ 0])

text \<open>The integer square root.  Below 65535^2 Isqrt returns the root rounded down; for
  the largest argument its loop never ends, since no 32-bit square exceeds it.\<close>
theorem Isqrt_floor:
  "(unat v < 65535 * 65535 \<longrightarrow> (\<exists>q. Isqrt v = Some q \<and> unat q * unat q \<le> unat v \<and> unat v < (unat q + 1) * (unat q + 1)))
   \<and> Isqrt (- 1) = None"
proof (intro conjI impI)
  assume v: "unat v < 65535 * 65535"
  obtain n where n: "n * n \<le> unat v" "unat v < (n + 1) * (n + 1)" using sqrt_exists by blast
  have "n < 65535" by (rule ccontr) (use n(1) v mult_mono [of 65535 n 65535 n] in simp)
  then show "\<exists>q. Isqrt v = Some q \<and> unat q * unat q \<le> unat v \<and> unat v < (unat q + 1) * (unat q + 1)"
    using n isqrt_loop_finds [OF n, of 0] by (intro exI [of _ "of_nat n"]) (simp add: Isqrt_def unat_of_nat take_bit_nat_def)
next
  show "Isqrt (- 1) = None"
  proof (cases "Isqrt (- 1 :: u32)")
    case (Some q)
    then have "(- 1 :: u32) < (q + 1) * (q + 1)" unfolding Isqrt_def by (rule isqrt_loop_stops)
    then show ?thesis by (meson not_less word_order.extremum)
  qed simp
qed

lemma Isqrt_floor_witness: "\<exists>q. Isqrt 169 = Some q \<and> unat q * unat q \<le> 169 \<and> 169 < (unat q + 1) * (unat q + 1)"
  using conjunct1 [OF Isqrt_floor [of 169]] by simp

section \<open>The mouse cursor\<close>

lemma puts_append: "puts bs (puts as s) = puts (as @ bs) s" by (simp add: puts_def)

lemma fb_ok_puts [simp]: "fb_ok (puts ws s) = fb_ok s" by (simp add: fb_ok_def)

text \<open>s' is s after stores to addresses in P only.\<close>
definition stores :: "(u64 \<Rightarrow> bool) \<Rightarrow> vga \<Rightarrow> vga \<Rightarrow> bool" where
  "stores P s s' \<longleftrightarrow> (\<exists>ws. s' = puts ws s \<and> (\<forall>p\<in>set ws. P (fst p)))"

lemma stores_refl [simp, intro]: "stores P s s" unfolding stores_def by (rule exI [of _ "[]"]) simp

lemma stores_trans: "stores P s s' \<Longrightarrow> stores P s' s'' \<Longrightarrow> stores P s s''"
  unfolding stores_def by (metis (no_types, lifting) puts_append set_append Un_iff)

lemma stores_fold:
  assumes "\<And>x ws. x \<in> set xs \<Longrightarrow> stores P (puts ws s) (f x (puts ws s))"
  shows "stores P s (fold f xs s)"
proof -
  have "stores P s (fold f xs t)" if "stores P s t" for t
    using assms that
  proof (induction xs arbitrary: t)
    case (Cons x xs)
    have "stores P s (f x t)"
      using Cons.prems by (auto simp: stores_def intro: stores_trans [OF Cons.prems(2)] dest: Cons.prems(1) [of x])
        (metis Cons.prems(1,2) list.set_intros(1) stores_def stores_trans)
    then show ?case using Cons by simp
  qed simp
  then show ?thesis by simp
qed

lemma stores_other: "stores P s s' \<Longrightarrow> \<not> P i \<Longrightarrow> fbmem s' i = fbmem s i"
  by (auto simp: stores_def intro: puts_other)

definition box :: "vga \<Rightarrow> u32 \<Rightarrow> u32 \<Rightarrow> nat \<Rightarrow> nat \<Rightarrow> u64 \<Rightarrow> bool" where
  "box s x y w h i \<longleftrightarrow> (\<exists>X Y. on_screen s X Y \<and> in_rect x y w h X Y \<and> i = pix s X Y)"

lemma box_puts [simp]: "box (puts ws s) = box s" by (intro ext) (simp add: box_def)

lemma FillRect_box:
  assumes "fb_ok s" "no_wrap x w" "no_wrap y h"
  shows "stores (box s x y (unat w) (unat h)) s (FillRect x y w h rgb s)"
proof -
  obtain ws where ws: "FillRect x y w h rgb s = puts ws s"
    "\<And>p. p \<in> set ws \<longleftrightarrow> (\<exists>X Y. p = (pix s X Y, topx s rgb) \<and> on_screen s X Y \<and> in_rect x y (unat w) (unat h) X Y)"
    using FillRect_writes [OF assms, of rgb] by blast
  have "box s x y (unat w) (unat h) (fst p)" if "p \<in> set ws" for p
    using that ws(2) [of p] unfolding box_def by (metis fst_conv)
  then show ?thesis using ws(1) unfolding stores_def by blast
qed

lemma box_mono:
  "box s x' y' w' h' i \<Longrightarrow> unat x \<le> unat x' \<Longrightarrow> unat x' + w' \<le> unat x + w \<Longrightarrow> unat y \<le> unat y' \<Longrightarrow>
   unat y' + h' \<le> unat y + h \<Longrightarrow> box s x y w h i"
  unfolding box_def in_rect_def by fastforce

lemma stores_mono: "stores P s s' \<Longrightarrow> (\<And>i. P i \<Longrightarrow> Q i) \<Longrightarrow> stores Q s s'"
  unfolding stores_def by blast

lemma rows_upt:
  assumes "unat c + n \<le> 2 ^ 32"
  shows "takeWhile (\<lambda>i. \<not> c + of_nat i \<ge> (H :: u32)) [0..<n] = [0..<min n (unat H - unat c)]"
proof -
  have a: "unat (c + of_nat i) = unat c + i" if "i < n" for i using that assms by (intro u32_add) simp
  have "takeWhile (\<lambda>i. \<not> c + of_nat i \<ge> H) [0..<n] = take (min n (unat H - unat c)) [0..<n]"
    by (rule takeWhile_eq_take_P_nth) (auto simp: not_le word_less_nat_alt word_le_nat_alt a)
  then show ?thesis by simp
qed

lemma DrawMouseCursor_box:
  assumes "fb_ok s" "unat x + 24 < 2 ^ 32" "unat y + 32 < 2 ^ 32"
  shows "stores (box s x y 24 32) s (DrawMouseCursor x y s)"
  unfolding DrawMouseCursor_def
proof (intro stores_fold)
  fix r c ws us assume rc: "r \<in> set [0..<16]" "c \<in> set [0..<12 :: nat]"
  have n: "unat (x + of_nat c * 2) = unat x + c * 2" "unat (y + of_nat r * 2) = unat y + r * 2"
    using u32_add [of x "c * 2"] u32_add [of y "r * 2"] rc assms by simp_all
  have "stores (box s (x + of_nat c * 2) (y + of_nat r * 2) 2 2) (puts us (puts ws s))
          (FillRect (x + of_nat c * 2) (y + of_nat r * 2) 2 2 rgb (puts us (puts ws s)))" for rgb
    using FillRect_box [of "puts us (puts ws s)" "x + of_nat c * 2" 2 "y + of_nat r * 2" 2 rgb] assms n rc by simp
  then have "stores (box s x y 24 32) (puts us (puts ws s))
          (FillRect (x + of_nat c * 2) (y + of_nat r * 2) 2 2 rgb (puts us (puts ws s)))" for rgb
    by (rule stores_mono) (erule box_mono, use n rc in auto)
  then show "stores (box s x y 24 32) (puts us (puts ws s))
     (let p = cursor_rows ! r ! c in if p = CHR ''.'' then puts us (puts ws s)
       else FillRect (x + of_nat c * 2) (y + of_nat r * 2) 2 2 (if p = CHR ''X'' then 0x000000 else 0xFFFFFF) (puts us (puts ws s)))"
    by (auto simp: Let_def)
qed


text \<open>Where the cursor can be: the position is clamped to the screen less 24 by 32.\<close>
definition cursor_x :: "vga \<Rightarrow> u32 \<Rightarrow> u32" where
  "cursor_x s x = min x (if s_fb_w s > 24 then s_fb_w s - 24 else 0)"

definition cursor_y :: "vga \<Rightarrow> u32 \<Rightarrow> u32" where
  "cursor_y s y = min y (if s_fb_h s > 32 then s_fb_h s - 32 else 0)"

lemma cursor_no_wrap:
  "unat (cursor_x s x) + 24 < 2 ^ 32" "unat (cursor_y s y) + 32 < 2 ^ 32"
proof -
  have "unat (cursor_x s x) = 0 \<or> unat (cursor_x s x) + 24 \<le> unat (s_fb_w s)"
    by (auto simp: cursor_x_def min_def word_le_nat_alt word_less_nat_alt unat_sub not_le)
  then show "unat (cursor_x s x) + 24 < 2 ^ 32" using u32_lt [of "s_fb_w s"] by auto
  have "unat (cursor_y s y) = 0 \<or> unat (cursor_y s y) + 32 \<le> unat (s_fb_h s)"
    by (auto simp: cursor_y_def min_def word_le_nat_alt word_less_nat_alt unat_sub not_le)
  then show "unat (cursor_y s y) + 32 < 2 ^ 32" using u32_lt [of "s_fb_h s"] by auto
qed

lemma SaveMouseCursor_backing:
  assumes "s_fb s" "i < 24" "j < 32"
  shows "s_mouse_backing (SaveMouseCursor x y s) (j * 24 + i) =
    (if on_screen s (x + of_nat i) (y + of_nat j) then pixel s (x + of_nat i) (y + of_nat j) else 0)"
proof -
  have k: "j' * 24 + i' = j * 24 + i \<longleftrightarrow> i' = i \<and> j' = j" if "i' < 24" for i' j' :: nat
    using that assms(2) by (metis add_right_cancel div_mult_self3 div_less add_0 mod_mult_self3 mod_less
        nat.distinct(1) not_less_zero zero_neq_numeral)
  let ?v = "\<lambda>x' y'. if on_screen s (x + of_nat x') (y + of_nat y') then pixel s (x + of_nat x') (y + of_nat y') else 0"
  let ?ws = "[(y' * 24 + x', ?v x' y'). y' \<leftarrow> [0..<32], x' \<leftarrow> [0..<24]]"
  have "(j * 24 + i, ?v i j) \<in> set ?ws"
  proof -
    have "i \<in> set [0..<24]" "j \<in> set [0..<32]" using assms(2,3) by simp_all
    then have "(j * 24 + i, ?v i j) \<in> (\<Union>y'\<in>set [0..<32]. (\<lambda>x'. (y' * 24 + x', ?v x' y')) ` set [0..<24])" by blast
    then show ?thesis by (simp only: set_concat set_map image_image)
  qed
  moreover have "snd p = ?v i j" if "p \<in> set ?ws" "fst p = j * 24 + i" for p
    using that by (auto simp: k)
  ultimately have "fold (\<lambda>(k, v) b. b(k := v)) ?ws (s_mouse_backing s) (j * 24 + i) = ?v i j" by (rule fold_upd_mem)
  then show ?thesis using assms(1) by (simp add: SaveMouseCursor_def)
qed

lemma SaveMouseCursor_frame: "SaveMouseCursor x y s = s\<lparr>s_mouse_backing := s_mouse_backing (SaveMouseCursor x y s)\<rparr>"
  by (simp add: SaveMouseCursor_def)


lemma pix_upd [simp]:
  "pix (s\<lparr>s_mouse_x := a\<rparr>) = pix s" "pix (s\<lparr>s_mouse_y := b\<rparr>) = pix s" "pix (s\<lparr>s_mouse_visible := v\<rparr>) = pix s"
  "pix (s\<lparr>s_mouse_backing := k\<rparr>) = pix s"
  by (auto simp: pix_def fun_eq_iff)

lemma RestoreMouseCursor_sel [simp]:
  "s_fb (RestoreMouseCursor s) = s_fb s" "s_fb_w (RestoreMouseCursor s) = s_fb_w s"
  "s_fb_h (RestoreMouseCursor s) = s_fb_h s" "s_fb_stride (RestoreMouseCursor s) = s_fb_stride s"
  "pix (RestoreMouseCursor s) = pix s" "fb_ok (RestoreMouseCursor s) = fb_ok s"
  by (auto simp: RestoreMouseCursor_def fb_ok_def)

lemma min_if: "(if x > m then m else x) = min x (m :: u32)"
  by (auto simp: min_def not_le dest: leD)

lemma MoveMouseCursor_form:
  fixes s x y
  defines "cx \<equiv> cursor_x s x" and "cy \<equiv> cursor_y s y" and "t \<equiv> MoveMouseCursor x y s" and "r \<equiv> RestoreMouseCursor s"
  assumes ok: "fb_ok s"
  shows "s_mouse_x t = cx" "s_mouse_y t = cy" "s_mouse_visible t" "s_fb t" "s_fb_w t = s_fb_w s"
    "s_fb_h t = s_fb_h s" "s_fb_stride t = s_fb_stride s" "fb_ok t"
    "\<And>i. \<not> box s cx cy 24 32 i \<Longrightarrow> fbmem t i = fbmem r i"
    "\<And>i j. i < 24 \<Longrightarrow> j < 32 \<Longrightarrow> on_screen s (cx + of_nat i) (cy + of_nat j) \<Longrightarrow>
       s_mouse_backing t (j * 24 + i) = pixel r (cx + of_nat i) (cy + of_nat j)"
proof -
  define u where "u = SaveMouseCursor cx cy (r\<lparr>s_mouse_x := cx, s_mouse_y := cy\<rparr>)"
  have fb: "s_fb s" using ok by (simp add: fb_ok_def)
  have c: "(if x > (if s_fb_w s > 24 then s_fb_w s - 24 else 0) then (if s_fb_w s > 24 then s_fb_w s - 24 else 0) else x) = cx"
    "(if y > (if s_fb_h s > 32 then s_fb_h s - 32 else 0) then (if s_fb_h s > 32 then s_fb_h s - 32 else 0) else y) = cy"
    unfolding cx_def cy_def cursor_x_def cursor_y_def by (rule min_if)+
  have t: "t = (DrawMouseCursor cx cy u)\<lparr>s_mouse_visible := True\<rparr>"
    using fb unfolding t_def MoveMouseCursor_def Let_def u_def r_def RestoreMouseCursor_sel c by simp
  have u: "u = r\<lparr>s_mouse_x := cx, s_mouse_y := cy, s_mouse_backing := s_mouse_backing u\<rparr>"
    unfolding u_def by (subst SaveMouseCursor_frame) simp
  have usel: "s_mouse_x u = cx" "s_mouse_y u = cy" "fbmem u = fbmem r" "s_fb u" "s_fb_w u = s_fb_w s" "s_fb_h u = s_fb_h s"
    "s_fb_stride u = s_fb_stride s" "pix u = pix s" "fb_ok u"
    using fb ok by (subst u, simp add: r_def fb_ok_def)+
  have ubox: "box u = box s" by (intro ext) (simp add: box_def usel)
  obtain ws where ws: "DrawMouseCursor cx cy u = puts ws u" "\<forall>p\<in>set ws. box s cx cy 24 32 (fst p)"
    using DrawMouseCursor_box [OF usel(9), of cx cy] cursor_no_wrap unfolding stores_def ubox cx_def cy_def by blast
  show "s_mouse_x t = cx" "s_mouse_y t = cy" "s_mouse_visible t" "s_fb t" "s_fb_w t = s_fb_w s"
    "s_fb_h t = s_fb_h s" "s_fb_stride t = s_fb_stride s" "fb_ok t"
    using usel by (simp_all add: t ws(1) fb_ok_def)
  show "fbmem t i = fbmem r i" if "\<not> box s cx cy 24 32 i" for i
    using that ws(2) by (auto simp: t ws(1) usel intro!: puts_other [THEN trans])
  show "s_mouse_backing t (j * 24 + i) = pixel r (cx + of_nat i) (cy + of_nat j)"
    if "i < 24" "j < 32" "on_screen s (cx + of_nat i) (cy + of_nat j)" for i j
    using that SaveMouseCursor_backing [of "r\<lparr>s_mouse_x := cx, s_mouse_y := cy\<rparr>" i j cx cy] fb
    by (simp add: t ws(1) [unfolded u_def r_def] u_def r_def)
qed

lemma RestoreMouseCursor_undoes:
  assumes ok: "fb_ok s"
  shows "fbmem (RestoreMouseCursor (MoveMouseCursor x y s)) = fbmem (RestoreMouseCursor s)"
proof
  fix a
  define cx cy t r where "cx = cursor_x s x" and "cy = cursor_y s y" and "t = MoveMouseCursor x y s" and "r = RestoreMouseCursor s"
  note f = MoveMouseCursor_form [where x = x and y = y, OF ok, folded cx_def cy_def t_def r_def]
  have nw: "unat cx + 24 < 2 ^ 32" "unat cy + 32 < 2 ^ 32" unfolding cx_def cy_def by (rule cursor_no_wrap)+
  have add: "unat (cx + of_nat i) = unat cx + i" "unat (cy + of_nat j) = unat cy + j" if "i < 24" "j < 32" for i j
    using that nw by (auto intro: u32_add)
  have pt: "pix t = pix s" by (intro ext) (simp add: pix_def f)
  let ?rows = "[0..<min 32 (unat (s_fb_h s) - unat cy)]" and ?cols = "[0..<min 24 (unat (s_fb_w s) - unat cx)]"
  let ?ws = "[(pix s (cx + of_nat i) (cy + of_nat j), s_mouse_backing t (j * 24 + i)). j \<leftarrow> ?rows, i \<leftarrow> ?cols]"
  have R: "fbmem (RestoreMouseCursor t) = fbmem (puts ?ws t)"
    using nw by (simp add: RestoreMouseCursor_def f pt rows_upt [unfolded not_le] not_le)
  have os: "on_screen s (cx + of_nat i) (cy + of_nat j)" if "i \<in> set ?cols" "j \<in> set ?rows" for i j
    using that by (auto simp: word_less_nat_alt add)
  have val: "snd p = fbmem r (fst p)" if "p \<in> set ?ws" for p
    using that f(10) [OF _ _ os] by (auto simp: r_def)
  show "fbmem (RestoreMouseCursor (MoveMouseCursor x y s)) a = fbmem (RestoreMouseCursor s) a"
  proof (cases "box s cx cy 24 32 a")
    case True
    then obtain X Y where XY: "on_screen s X Y" "in_rect cx cy 24 32 X Y" "a = pix s X Y" by (auto simp: box_def)
    define i j where "i = unat X - unat cx" and "j = unat Y - unat cy"
    have ij: "i \<in> set ?cols" "j \<in> set ?rows" using XY(1,2) by (auto simp: in_rect_def i_def j_def word_less_nat_alt)
    have "X = cx + of_nat i" "Y = cy + of_nat j"
      using XY(2) add [of i j] ij by (auto simp: word_unat_eq_iff in_rect_def i_def j_def)
    then have "(a, s_mouse_backing t (j * 24 + i)) \<in> (\<Union>j\<in>set ?rows. (\<lambda>i. (pix s (cx + of_nat i) (cy + of_nat j), s_mouse_backing t (j * 24 + i))) ` set ?cols)"
      using ij XY(3) by blast
    then have m: "(a, s_mouse_backing t (j * 24 + i)) \<in> set ?ws" by (simp only: set_concat set_map image_image)
    have "fbmem (puts ?ws t) a = s_mouse_backing t (j * 24 + i)"
      by (rule puts_mem [OF m]) (use val val [OF m] in auto)
    then show ?thesis using val [OF m] by (simp add: R [unfolded t_def] t_def r_def)
  next
    case False
    have "fst p \<noteq> a" if pin: "p \<in> set ?ws" for p
    proof
      assume "fst p = a"
      then obtain i j where "i \<in> set ?cols" "j \<in> set ?rows" "a = pix s (cx + of_nat i) (cy + of_nat j)"
        using pin unfolding set_concat set_map by fastforce
      then have "box s cx cy 24 32 a" using os [of i j] by (auto simp: box_def in_rect_def add intro!: exI)
      then show False using False by blast
    qed
    then have "fbmem (puts ?ws t) a = fbmem t a" by (rule puts_other)
    then show ?thesis using f(9) [OF False] by (simp add: R [unfolded t_def] t_def r_def)
  qed
qed


text \<open>C29 (roundtrip): the cursor leaves no trace.  However often the cursor has been moved, taking it off
  the screen gives exactly the memory that taking it off before the first move gives: the pixels under
  it are saved and put back, at every position and on every screen, also one smaller than the cursor.\<close>
theorem cursor_leaves_no_trace:
  assumes "fb_ok s"
  shows "fbmem (RestoreMouseCursor (fold (\<lambda>(x, y). MoveMouseCursor x y) moves s)) = fbmem (RestoreMouseCursor s)"
  using assms
proof (induction moves arbitrary: s)
  case (Cons m moves)
  obtain x y where m: "m = (x, y)" by (cases m)
  have "fb_ok (MoveMouseCursor x y s)" by (rule MoveMouseCursor_form(8) [OF Cons.prems])
  then show ?case using Cons.IH [of "MoveMouseCursor x y s"] RestoreMouseCursor_undoes [OF Cons.prems] by (simp add: m)
qed simp

lemma cursor_leaves_no_trace_witness:
  "fb_ok vga_demo \<and> fbmem (RestoreMouseCursor (MoveMouseCursor 63 2 (MoveMouseCursor 20 10 vga_demo))) = (\<lambda>i. 0)"
proof -
  have ok: "fb_ok vga_demo" by (simp add: fb_ok_def vga_demo_def)
  have "\<not> s_mouse_visible vga_demo" "fbmem vga_demo = (\<lambda>i. 0)" by (simp_all add: vga_demo_def)
  then have "fbmem (RestoreMouseCursor vga_demo) = (\<lambda>i. 0)" by (simp only: RestoreMouseCursor_def simp_thms if_True)
  then show ?thesis using cursor_leaves_no_trace [OF ok, of "[(20, 10), (63, 2)]"] ok by simp
qed

section \<open>Gradients and masks\<close>

lemma byte_and: "unat (w AND 0xFF :: u32) \<le> 255"
proof -
  have "w AND 0xFF \<le> 0xFF" by (rule word_and_le1)
  then show ?thesis by (simp add: word_le_nat_alt)
qed

lemma channel_bounds: "0 \<le> channel n c" "channel n c \<le> 255"
  using word_and_le1 [of "drop_bit n c" "0xFF"] by (simp_all add: channel_def word_le_def)

lemma mix_between:
  assumes "yy < h" "h < 2 ^ 22" "0 \<le> t" "t \<le> 255" "0 \<le> b" "b \<le> 255"
  shows "min t b \<le> uint (mix t b yy h)" "uint (mix t b yy h) \<le> max t b"
proof -
  define d where "d = ((b - t) * int yy) sdiv int h"
  have h: "0 < int h" using assms(1) by simp
  have "min 0 (b - t) \<le> d \<and> d \<le> max 0 (b - t)"
  proof (cases "t \<le> b")
    case True
    have "(b - t) * int yy \<le> (b - t) * int h" using True assms(1) by (intro mult_left_mono) simp_all
    then have "(b - t) * int yy div int h \<le> b - t" using h by (metis nonzero_mult_div_cancel_right order_less_irrefl zdiv_mono1)
    moreover have "0 \<le> (b - t) * int yy div int h" using True h by (simp add: pos_imp_zdiv_nonneg_iff)
    ultimately show ?thesis using True h by (simp add: d_def signed_divide_int_def sgn_if)
  next
    case False
    have "(t - b) * int yy \<le> (t - b) * int h" using False assms(1) by (intro mult_left_mono) simp_all
    then have "(t - b) * int yy div int h \<le> t - b" using h by (metis nonzero_mult_div_cancel_right order_less_irrefl zdiv_mono1)
    moreover have "0 \<le> (t - b) * int yy div int h" using False h by (simp add: pos_imp_zdiv_nonneg_iff)
    moreover have "\<bar>(b - t) * int yy\<bar> = (t - b) * int yy" using False by (simp add: abs_mult)
    ultimately show ?thesis using False h
      by (auto simp: d_def signed_divide_int_def sgn_if mult_less_0_iff)
  qed
  then have "min t b \<le> t + d \<and> t + d \<le> max t b" by auto
  moreover then have "uint (of_int (t + d) :: u32) = t + d"
    using assms(3-6) by (simp add: uint_word_of_int del: of_int_add) (rule mod_pos_pos_trivial; auto)
  ultimately show "min t b \<le> uint (mix t b yy h)" "uint (mix t b yy h) \<le> max t b"
    by (simp_all add: mix_def d_def)
qed

lemma mix_byte:
  assumes "yy < h" "h < 2 ^ 22" "0 \<le> t" "t \<le> 255" "0 \<le> b" "b \<le> 255"
  shows "mix t b yy h AND 0xFF = mix t b yy h"
proof -
  have "uint (mix t b yy h) < 2 ^ 8" using mix_between(2) [OF assms] assms(4,6) by simp
  then have "take_bit 8 (mix t b yy h) = mix t b yy h"
    by (intro word_uint_eq_iff [THEN iffD2]) (simp add: unsigned_take_bit_eq take_bit_int_eq_self)
  then show ?thesis by (simp add: mask8 take_bit_eq_mask [symmetric])
qed

text \<open>A gradient stays between its colours.  In every line of a gradient of less than four
  million lines, each of the three channels lies between those of the two colours, so no channel spills
  into the next, and the first line has the upper colour.\<close>
theorem gradient_between:
  assumes "yy < h" "h < 2 ^ 22" "n = 0 \<or> n = 8 \<or> n = 16"
  shows "min (channel n up) (channel n down) \<le> channel n (gradient up down yy h)"
    and "channel n (gradient up down yy h) \<le> max (channel n up) (channel n down)"
    and "gradient up down 0 h = up AND 0xFFFFFF"
proof -
  let ?m = "\<lambda>n yy. mix (channel n up) (channel n down) yy h"
  have m: "?m n yy AND 0xFF = ?m n yy" if "yy < h" for n yy
    by (rule mix_byte [OF that assms(2)]) (rule channel_bounds)+
  have g: "gradient up down yy h = rgb_word (?m 16 yy) (?m 8 yy) (?m 0 yy)" if "yy < h" for yy
    by (simp add: gradient_def rgb_word_def m [OF that])
  have "drop_bit n (gradient up down yy h) AND 0xFF = ?m n yy"
    using assms(3) rgb_word_bytes [of "?m 16 yy" "?m 8 yy" "?m 0 yy"] by (auto simp: g assms(1) m)
  then have c: "channel n (gradient up down yy h) = uint (?m n yy)" by (simp add: channel_def)
  show "min (channel n up) (channel n down) \<le> channel n (gradient up down yy h)"
    "channel n (gradient up down yy h) \<le> max (channel n up) (channel n down)"
    unfolding c by (rule mix_between [OF assms(1,2)], rule channel_bounds, rule channel_bounds, rule channel_bounds, rule channel_bounds)+
  have "?m n 0 = drop_bit n up AND 0xFF" for n by (simp add: mix_def channel_def)
  moreover have "0 < h" using assms(1) by simp
  ultimately show "gradient up down 0 h = up AND 0xFFFFFF"
    by (simp add: g rgb_word_and [symmetric] rgb_word_self)
qed

lemma gradient_between_witness: "channel 8 (gradient 0x8FCB5A 0x2C7A24 10 20) \<le> 203 \<and> 122 \<le> channel 8 (gradient 0x8FCB5A 0x2C7A24 10 20)"
  using gradient_between(1,2) [of 10 20 8 "0x8FCB5A" "0x2C7A24"] by (simp add: channel_def)

text \<open>The masks of the icons: a blended channel is the weighted mean of two bytes, a byte again; full
  coverage gives the colour and no coverage the old pixel.\<close>
lemma blend_unat:
  assumes "unat src \<le> 255" "unat dst \<le> 255"
  shows "unat (blend al src dst) = (unat src * unat al + unat dst * (255 - unat al)) div 255"
    and "unat src * unat al + unat dst * (255 - unat al) \<le> 255 * 255"
proof -
  have a: "unat (ucast al :: u32) = unat al" "unat al \<le> 255"
    using unsigned_less [of al, where ?'a = nat] by (simp_all add: unsigned_ucast_eq take_bit_nat_eq_self)
  show m: "unat src * unat al + unat dst * (255 - unat al) \<le> 255 * 255"
  proof -
    have "unat src * unat al + unat dst * (255 - unat al) \<le> 255 * unat al + 255 * (255 - unat al)"
      using assms by (intro add_mono mult_le_mono1)
    also have "\<dots> = 255 * 255" using a(2) by (simp add: diff_mult_distrib2)
    finally show ?thesis .
  qed
  have s: "unat (255 - ucast al :: u32) = 255 - unat al" using a by (simp add: unat_sub word_le_nat_alt)
  have p: "unat src * unat al \<le> 255 * 255" "unat dst * (255 - unat al) \<le> 255 * 255" using m by linarith+
  have "unat (src * ucast al + dst * (255 - ucast al)) = unat src * unat al + unat dst * (255 - unat al)"
    using m p by (simp add: unat_word_ariths s a)
  then show "unat (blend al src dst) = (unat src * unat al + unat dst * (255 - unat al)) div 255"
    by (simp add: blend_def unat_div_distrib)
qed

lemma blend_byte:
  assumes "unat src \<le> 255" "unat dst \<le> 255"
  shows "unat (blend al src dst) \<le> 255" "blend 255 src dst = src" "blend 0 src dst = dst"
  using div_le_mono [OF blend_unat(2) [OF assms, of al], of 255] blend_unat(1) [OF assms]
  by (simp_all add: word_unat_eq_iff)

end
