(* ===== verification/TextConsole.thy ===== *)
theory TextConsole
  imports Framebuffer Decimal
begin

text \<open>The text console of kernel/hal/x64/vga.cpp: the array of character cells, the cursor, scrolling between
  the header row and the status row, the output of the kernel and of user programs, the memory panel
  and the status bar.\<close>

section \<open>Cells\<close>

definition blank :: Cell where "blank = \<lparr>c_ch = 0x20, c_attr = 0x07\<rparr>"

definition set_cells :: "nat \<Rightarrow> nat \<Rightarrow> Cell \<Rightarrow> vga \<Rightarrow> vga" where
  "set_cells r c cell s = s\<lparr>s_cells := (s_cells s)(r := (s_cells s r)(c := cell))\<rparr>"

definition DrawChar :: "u32 \<Rightarrow> u32 \<Rightarrow> u8 \<Rightarrow> u32 \<Rightarrow> u32 \<Rightarrow> vga \<Rightarrow> vga" where
  "DrawChar cx cy ch fg bg s =
    (if \<not> s_fb s \<or> cx \<ge> s_cols s \<or> cy \<ge> s_rows s then s else
     puts (glyph_stores s (s_origin_x s + cx * of_nat CHAR_W) (s_origin_y s + cy * of_nat CHAR_H) ch fg bg) s)"

text \<open>The cell (r, c) drawn as the cell array has it.\<close>
definition draw_cell :: "u32 \<Rightarrow> u32 \<Rightarrow> vga \<Rightarrow> vga" where
  "draw_cell r c s =
    (let cell = s_cells s (unat r) (unat c) in DrawChar c r (c_ch cell) (AttrFg s (c_attr cell)) (AttrBg s (c_attr cell)) s)"

definition RedrawRow :: "u32 \<Rightarrow> vga \<Rightarrow> vga" where
  "RedrawRow r s = fold (\<lambda>c. draw_cell r (of_nat c)) [0..<unat (s_cols s)] s"

definition RedrawAll :: "vga \<Rightarrow> vga" where
  "RedrawAll s = fold (\<lambda>r s. RedrawRow (of_nat r) s) [0..<unat (s_rows s)] s"

definition SetCell :: "u32 \<Rightarrow> u32 \<Rightarrow> u8 \<Rightarrow> u8 \<Rightarrow> vga \<Rightarrow> vga" where
  "SetCell r c ch attr s =
    (if r \<ge> s_rows s \<or> c \<ge> s_cols s then s else
     DrawChar c r ch (AttrFg s attr) (AttrBg s attr) (set_cells (unat r) (unat c) \<lparr>c_ch = ch, c_attr = attr\<rparr> s))"

section \<open>The cursor\<close>

definition EraseCursor :: "vga \<Rightarrow> vga" where
  "EraseCursor s =
    (if \<not> s_cursor_visible s \<or> \<not> s_fb s then s else
     (if s_row s < s_rows s \<and> s_col s < s_cols s then draw_cell (s_row s) (s_col s) s else s)\<lparr>s_cursor_visible := False\<rparr>)"

definition DrawCursorShape :: "vga \<Rightarrow> vga" where
  "DrawCursorShape s =
    (if \<not> s_fb s \<or> s_row s \<ge> s_rows s \<or> s_col s \<ge> s_cols s then s else
     let px = s_origin_x s + s_col s * of_nat CHAR_W;
         py = s_origin_y s + s_row s * of_nat CHAR_H + of_nat CHAR_H - 2;
         color = topx s (s_palette ! 7)
     in (puts [(line_at s (py + of_nat r) px + of_nat c, color).
               r \<leftarrow> takeWhile (\<lambda>r. py + of_nat r < s_fb_h s) [0..<2], c \<leftarrow> [0..<CHAR_W]] s)
        \<lparr>s_cursor_visible := True\<rparr>)"

definition UpdateCursor :: "vga \<Rightarrow> vga" where "UpdateCursor s = DrawCursorShape (EraseCursor s)"

definition BlinkCursor :: "vga \<Rightarrow> vga" where
  "BlinkCursor s = (if s_cursor_visible s then EraseCursor s else DrawCursorShape s)"

section \<open>Scrolling and characters\<close>

definition copy_row :: "nat \<Rightarrow> vga \<Rightarrow> vga" where
  "copy_row r s = fold (\<lambda>c s. set_cells (r - 1) c (s_cells s r c) s) [0..<unat (s_cols s)] s"

definition clear_row :: "nat \<Rightarrow> Cell \<Rightarrow> vga \<Rightarrow> vga" where
  "clear_row r cell s = fold (\<lambda>c. set_cells r c cell) [0..<unat (s_cols s)] s"

definition Scroll :: "vga \<Rightarrow> vga" where
  "Scroll s =
    (let last = (if s_rows s > 2 then s_rows s - 2 else 1);
         s = fold copy_row [2..<unat last + 1] s;
         s = clear_row (unat last) blank s
     in (RedrawAll s)\<lparr>s_row := last\<rparr>)"

definition max_row :: "vga \<Rightarrow> u32" where
  "max_row s = (if s_rows s > 1 then s_rows s - 2 else 1)"

definition next_row :: "vga \<Rightarrow> vga" where
  "next_row s = (let s = s\<lparr>s_row := s_row s + 1\<rparr> in if s_row s > max_row s then Scroll s else s)"

definition PutChar :: "u8 \<Rightarrow> u8 \<Rightarrow> vga \<Rightarrow> vga" where
  "PutChar ch attr s =
    (let s = EraseCursor s in
     if ch = 8 then
       DrawCursorShape (if s_col s > 0
         then (let s = s\<lparr>s_col := s_col s - 1\<rparr> in SetCell (s_row s) (s_col s) 0x20 0x07 s) else s)
     else if ch = 13 then DrawCursorShape (s\<lparr>s_col := 0\<rparr>)
     else if ch = 10 then DrawCursorShape (next_row (s\<lparr>s_col := 0\<rparr>))
     else
       (let s = SetCell (s_row s) (s_col s) ch attr s;
            s = s\<lparr>s_col := s_col s + 1\<rparr>;
            s = (if s_col s \<ge> s_cols s then next_row (s\<lparr>s_col := 0\<rparr>) else s)
        in DrawCursorShape s))"

definition VGA_Print :: "u8 list \<Rightarrow> u8 \<Rightarrow> vga \<Rightarrow> vga" where
  "VGA_Print txt attr s = fold (\<lambda>ch. PutChar ch attr) txt s"

section \<open>Setting up\<close>

definition clip_cols :: "u32 \<Rightarrow> u32" where
  "clip_cols w = (let c = w div of_nat CHAR_W in if c > 256 then 256 else c)"

definition clip_rows :: "u32 \<Rightarrow> u32" where
  "clip_rows h = (let r = h div of_nat CHAR_H in if r > 64 then 64 else r)"

text \<open>base is 0 for no frame buffer; mem is what it holds.\<close>
definition SetFramebuffer :: "u64 \<Rightarrow> (u64 \<Rightarrow> u32) \<Rightarrow> u32 \<Rightarrow> u32 \<Rightarrow> u32 \<Rightarrow> u32 \<Rightarrow> vga \<Rightarrow> vga" where
  "SetFramebuffer base mem w h stride fmt s =
    s\<lparr>s_fb := base \<noteq> 0, fbmem := mem, s_fb_w := w, s_fb_h := h, s_fb_stride := stride, s_fb_bgr := fmt = 1,
      s_origin_x := 0, s_origin_y := 0, s_cols := clip_cols w, s_rows := clip_rows h\<rparr>"

record FramebufferInfo =
  fi_Width :: u32
  fi_Height :: u32
  fi_Stride :: u32
  fi_Format :: u32

definition GetFramebufferInfo :: "vga \<Rightarrow> FramebufferInfo option" where
  "GetFramebufferInfo s =
    (if \<not> s_fb s \<or> s_fb_w s = 0 \<or> s_fb_h s = 0 then None
     else Some \<lparr>fi_Width = s_fb_w s, fi_Height = s_fb_h s, fi_Stride = s_fb_stride s, fi_Format = if s_fb_bgr s then 1 else 0\<rparr>)"

definition clear_cells :: "nat \<Rightarrow> vga \<Rightarrow> vga" where
  "clear_cells from_row s = fold (\<lambda>r. clear_row r blank) [from_row..<unat (s_rows s)] s"

definition ResetTextSurface :: "u32 \<Rightarrow> u32 \<Rightarrow> u32 \<Rightarrow> u32 \<Rightarrow> vga \<Rightarrow> vga" where
  "ResetTextSurface x y w h s =
    (let cols = clip_cols w; rows = clip_rows h;
         s = s\<lparr>s_origin_x := x, s_origin_y := y, s_cols := if cols < 20 then 20 else cols, s_rows := if rows < 8 then 8 else rows\<rparr>
     in (clear_cells 0 s)\<lparr>s_row := 1, s_col := 0, s_cursor_visible := False\<rparr>)"

fun put_chars :: "(nat \<Rightarrow> u8 \<Rightarrow> vga \<Rightarrow> vga) \<Rightarrow> nat \<Rightarrow> u8 list \<Rightarrow> vga \<Rightarrow> vga" where
  "put_chars f i [] s = s"
| "put_chars f i (ch # cs) s = put_chars f (i + 1) cs (f i ch s)"

abbreviation bytes_of :: "cstr \<Rightarrow> u8 list" where "bytes_of \<equiv> map chr8"

definition header :: "u8 list" where "header = bytes_of ''*** MicroNT Kernel M28 ***''"

definition VGA_Init :: "vga \<Rightarrow> vga" where
  "VGA_Init s =
    (if \<not> s_fb s then s else
     let s = s\<lparr>s_origin_x := 0, s_origin_y := 0, s_cols := clip_cols (s_fb_w s), s_rows := clip_rows (s_fb_h s),
               s_cursor_visible := False, s_mouse_visible := False\<rparr>;
         black = topx s 0x000000;
         s = puts [(ucast (of_nat y * s_fb_stride s) + of_nat x, black). y \<leftarrow> [0..<unat (s_fb_h s)], x \<leftarrow> [0..<unat (s_fb_w s)]] s;
         s = clear_cells 0 s;
         hstart = (if s_cols s > of_nat (length header) then (s_cols s - of_nat (length header)) div 2 else 0);
         s = clear_row 0 \<lparr>c_ch = 0x20, c_attr = 0x1F\<rparr> s;
         s = put_chars (\<lambda>i ch. set_cells 0 (unat hstart + i) \<lparr>c_ch = ch, c_attr = 0x1F\<rparr>) 0 header s
     in (RedrawAll s)\<lparr>s_row := 1, s_col := 0\<rparr>)"

definition ClearScreen :: "vga \<Rightarrow> vga" where
  "ClearScreen s =
    (if \<not> s_fb s then s else
     let s = clear_cells 1 (EraseCursor s);
         s = fold (\<lambda>r s. fold (\<lambda>c. DrawChar (of_nat c) (of_nat r) 0x20 7 0) [0..<unat (s_cols s)] s) [1..<unat (s_rows s)] s
     in DrawCursorShape (s\<lparr>s_row := 1, s_col := 0\<rparr>))"

text \<open>A text written into a row from column 0, cut at the right edge.\<close>
definition writeln :: "u32 \<Rightarrow> cstr \<Rightarrow> u8 \<Rightarrow> vga \<Rightarrow> vga" where
  "writeln row txt attr s =
    put_chars (\<lambda>c ch. SetCell row (of_nat c) ch attr) 0 (take (unat (s_cols s)) (bytes_of txt)) s"

definition WriteWelcome :: "vga \<Rightarrow> vga" where
  "WriteWelcome s =
    (if \<not> s_fb s then s else
     let s = writeln 2 ''  MicroNT Microkernel  -  Build M28'' 0x0E s;
         s = writeln 3 ''  ==================================='' 0x0A s;
         s = writeln 4 ''  All systems online.  Ready for input.'' 0x0F s;
         s = writeln 5 ''  Commands: ver dir mem ps exec cat echo write clear pipe help exit'' 0x0B s
     in UpdateCursor (s\<lparr>s_row := 7, s_col := 0\<rparr>))"

section \<open>The memory panel\<close>

definition is_digit :: "u8 \<Rightarrow> bool" where "is_digit c \<longleftrightarrow> 48 \<le> c \<and> c \<le> 57"

text \<open>The number at the front of the text, and the rest.\<close>
fun ParseU64 :: "u8 list \<Rightarrow> u64 \<Rightarrow> u64 \<times> u8 list" where
  "ParseU64 [] v = (v, [])"
| "ParseU64 (c # cs) v = (if is_digit c then ParseU64 cs (v * 10 + (ucast c - 48)) else (v, c # cs))"

lemma ParseU64_length: "length (snd (ParseU64 cs v)) \<le> length cs"
  by (induction cs v rule: ParseU64.induct) auto

record meminfo =
  mi_free :: u64
  mi_used :: u64
  mi_total :: u64
  mi_used_pages :: u64
  mi_total_pages :: u64

text \<open>The text after the keyword, if it starts with it.\<close>
definition after_kw :: "cstr \<Rightarrow> u8 list \<Rightarrow> u8 list option" where
  "after_kw kw cs = (if take (length kw) cs = bytes_of kw then Some (drop (length kw) cs) else None)"

lemma after_kw_length: "after_kw kw cs = Some ds \<Longrightarrow> kw \<noteq> [] \<Longrightarrow> cs \<noteq> [] \<Longrightarrow> length ds < length cs"
  by (cases kw; cases cs) (auto simp: after_kw_def split: if_splits)

lemma dropWhile_length: "dropWhile P xs = y # ys \<Longrightarrow> length (y # ys) \<le> length xs"
  by (metis length_dropWhile_le)

text \<open>The rest of the text gets shorter in every round.\<close>
abbreviation scan_less :: "((u8 list \<times> meminfo) \<times> u8 list \<times> meminfo) set" where
  "scan_less \<equiv> measure (\<lambda>(buf, m). length buf)"

lemma kw_shrinks:
  assumes "dropWhile P buf = c # cs" "after_kw kw (c # cs) = Some ds" "x = ParseU64 ds v" "(w, es) = x" "kw \<noteq> []"
  shows "((es, m1), buf, m2) \<in> scan_less"
proof -
  have "length es \<le> length ds" using ParseU64_length [of ds v] by (simp add: assms(3,4) [symmetric])
  then show ?thesis using after_kw_length [OF assms(2,5)] dropWhile_length [OF assms(1)] by simp
qed

lemma kw_shrinks_tl:
  assumes "dropWhile P buf = c # cs" "after_kw kw (c # cs) = Some ds" "x = ParseU64 ds v" "(w, es) = x" "kw \<noteq> []"
    "y = ParseU64 (tl es) v'" "(w', fs) = y"
  shows "((fs, m1), buf, m2) \<in> scan_less"
proof -
  have "length fs \<le> length (tl es)" using ParseU64_length [of "tl es" v'] by (simp add: assms(6,7) [symmetric])
  then show ?thesis using kw_shrinks [OF assms(1-5)] by simp
qed

function mem_scan :: "u8 list \<Rightarrow> meminfo \<Rightarrow> meminfo" where
  "mem_scan buf m =
    (case dropWhile (\<lambda>c. c = 32 \<or> c = 9) buf of [] \<Rightarrow> m
     | c # cs \<Rightarrow>
       (case after_kw ''Free='' (c # cs) of Some ds \<Rightarrow> (let (v, es) = ParseU64 ds 0 in mem_scan es (m\<lparr>mi_free := v\<rparr>))
        | None \<Rightarrow>
       (case after_kw ''Used='' (c # cs) of Some ds \<Rightarrow> (let (v, es) = ParseU64 ds 0 in mem_scan es (m\<lparr>mi_used := v\<rparr>))
        | None \<Rightarrow>
       (case after_kw ''Total='' (c # cs) of Some ds \<Rightarrow> (let (v, es) = ParseU64 ds 0 in mem_scan es (m\<lparr>mi_total := v\<rparr>))
        | None \<Rightarrow>
       (case after_kw ''Pages='' (c # cs) of Some ds \<Rightarrow>
          (let (v, es) = ParseU64 ds 0; m = m\<lparr>mi_used_pages := v\<rparr> in
           if es \<noteq> [] \<and> hd es = 0x2F
           then (let (w, fs) = ParseU64 (tl es) 0 in mem_scan fs (m\<lparr>mi_total_pages := w\<rparr>))
           else mem_scan es m)
        | None \<Rightarrow> mem_scan cs m)))))"
  by pat_completeness auto
termination
proof (relation scan_less, goal_cases)
  case (2 buf m c cs)
  then show ?case using dropWhile_length [OF 2(1)] by simp
next
  case 3
  show ?case by (rule kw_shrinks_tl [OF 3(1,5,6,7) _ 3(10,11)]) simp
next
  case 4
  show ?case by (rule kw_shrinks [OF 4(1,5,6,7)]) simp
next
  case 5
  show ?case by (rule kw_shrinks [OF 5(1,4,5,6)]) simp
next
  case 6
  show ?case by (rule kw_shrinks [OF 6(1,3,4,5)]) simp
next
  case 7
  show ?case by (rule kw_shrinks [OF 7(1,2,3,4)]) simp
qed simp

declare mem_scan.simps [simp del]

definition text_start :: "cstr \<Rightarrow> u8 list \<Rightarrow> bool" where
  "text_start kw buf \<longleftrightarrow> take (length kw) buf = bytes_of kw"

text \<open>Text from column c on, cut at the right edge: the column after it.\<close>
fun text_at :: "u32 \<Rightarrow> u32 \<Rightarrow> u8 list \<Rightarrow> u8 \<Rightarrow> vga \<Rightarrow> u32 \<times> vga" where
  "text_at r c [] attr s = (c, s)"
| "text_at r c (ch # cs) attr s = (if c < s_cols s then text_at r (c + 1) cs attr (SetCell r c ch attr s) else (c, s))"

definition pad_row :: "u32 \<Rightarrow> u32 \<Rightarrow> vga \<Rightarrow> vga" where
  "pad_row r c s = fold (\<lambda>c. SetCell r (of_nat c) 0x20 0x07) [unat c..<unat (s_cols s)] s"

definition CellNum :: "u32 \<Rightarrow> u32 \<Rightarrow> u64 \<Rightarrow> u8 \<Rightarrow> vga \<Rightarrow> u32 \<times> vga" where
  "CellNum row col v attr s = text_at row col (bytes_of (itoa (unat v))) attr s"

definition advance :: "u32 \<Rightarrow> vga \<Rightarrow> vga" where
  "advance maxr s = (if s_row s > maxr then Scroll s else s)"

definition down :: "vga \<Rightarrow> vga" where "down s = s\<lparr>s_row := s_row s + 1\<rparr>"

definition mem_title :: "vga \<Rightarrow> vga" where
  "mem_title s = (let (c, s) = text_at (s_row s) 0 (bytes_of ''  Memory Map'') 0x0B s in down (pad_row (s_row s) c s))"

definition mem_bar :: "meminfo \<Rightarrow> vga \<Rightarrow> vga" where
  "mem_bar m s =
    (let bar_w = (if s_cols s > 24 then s_cols s - 22 else 10); row = s_row s;
         pct = (mi_used m * 100) div mi_total m;
         filled = ucast ((pct * ucast bar_w) div 100) :: u32;
         s = SetCell row 2 0x5B 0x0F (SetCell row 1 0x20 0x07 (SetCell row 0 0x20 0x07 s));
         s = fold (\<lambda>k. SetCell row (3 + of_nat k) 0x20 (if of_nat k < filled then 0xA0 else 0x80)) [0..<unat bar_w] s;
         s = SetCell row (4 + bar_w) 0x20 0x07 (SetCell row (3 + bar_w) 0x5D 0x0F s);
         (c, s) = CellNum row (5 + bar_w) pct 0x0F s;
         s = SetCell row c 0x25 0x07 s
     in down (pad_row row (c + 1) s))"

definition mem_detail :: "meminfo \<Rightarrow> vga \<Rightarrow> vga" where
  "mem_detail m s =
    (let row = s_row s;
         (c, s) = text_at row 0 (bytes_of ''  Used: '') 0x08 s; (c, s) = CellNum row c (mi_used m) 0x0F s;
         (c, s) = text_at row c (bytes_of '' KB   Free: '') 0x08 s; (c, s) = CellNum row c (mi_free m) 0x0A s;
         (c, s) = text_at row c (bytes_of '' KB   Total: '') 0x08 s; (c, s) = CellNum row c (mi_total m) 0x0B s;
         (c, s) = text_at row c (bytes_of '' KB'') 0x08 s
     in down (pad_row row c s))"

definition mem_pages :: "meminfo \<Rightarrow> vga \<Rightarrow> vga" where
  "mem_pages m s =
    (let row = s_row s; free = (if mi_used_pages m \<le> mi_total_pages m then mi_total_pages m - mi_used_pages m else 0);
         (c, s) = text_at row 0 (bytes_of ''  Pages: Used='') 0x08 s; (c, s) = CellNum row c (mi_used_pages m) 0x0F s;
         (c, s) = text_at row c (bytes_of ''  Free='') 0x08 s; (c, s) = CellNum row c free 0x0A s;
         (c, s) = text_at row c (bytes_of ''  Total='') 0x08 s; (c, s) = CellNum row c (mi_total_pages m) 0x0B s
     in down (pad_row row c s))"

definition no_mem :: meminfo where
  "no_mem = \<lparr>mi_free = 0, mi_used = 0, mi_total = 0, mi_used_pages = 0, mi_total_pages = 0\<rparr>"

text \<open>None: not a memory line, nothing drawn.\<close>
definition TryDrawMemBar :: "u8 list \<Rightarrow> vga \<Rightarrow> vga option" where
  "TryDrawMemBar buf s =
    (if \<not> text_start ''Memory:'' buf then None else
     let m = mem_scan (drop 7 buf) no_mem in
     if mi_total m = 0 then None else
     let maxr = max_row s;
         s = mem_title (advance maxr (EraseCursor s));
         s = mem_bar m (advance maxr s);
         s = mem_detail m (advance maxr s);
         s = (if mi_total_pages m > 0 then mem_pages m (advance maxr s) else s)
     in Some (DrawCursorShape (s\<lparr>s_col := 0\<rparr>)))"

section \<open>Output of user programs\<close>

definition ContentColor :: "u8 list \<Rightarrow> u8" where
  "ContentColor buf =
    (let n = length buf; e = drop (n - 4) buf; low = (\<lambda>c :: u8. c OR 32) in
     if n = 0 then 0x0F
     else if n \<ge> 3 \<and> buf ! 0 = 0x5B \<and> buf ! (n - 1) = 0x5D then 0x0E
     else if n \<ge> 4 \<and> e ! 0 = 0x2E \<and> low (e ! 1) = 0x65 \<and> low (e ! 2) = 0x78 \<and> low (e ! 3) = 0x65 then 0x0A
     else if n \<ge> 4 \<and> e ! 0 = 0x2E \<and> low (e ! 1) = 0x74 \<and> low (e ! 2) = 0x78 \<and> low (e ! 3) = 0x74 then 0x0E
     else if n \<ge> 4 \<and> e ! 0 = 0x2E \<and> (low (e ! 1) = 0x69 \<or> low (e ! 1) = 0x63) then 0x0B
     else if text_start ''Mic'' buf then 0x0D
     else if text_start ''Mem'' buf then 0x0B
     else if text_start ''Sys'' buf then 0x0B
     else if text_start ''Thr'' buf then 0x0B
     else if text_start ''OK'' buf then 0x0A
     else if n \<ge> 3 \<and> low (buf ! 0) = 0x65 \<and> low (buf ! 1) = 0x72 \<and> low (buf ! 2) = 0x72 then 0x0C
     else 0x0F)"

definition content :: "u8 list \<Rightarrow> u8 list" where
  "content buf = takeWhile (\<lambda>c. c \<noteq> 0 \<and> c \<noteq> 10 \<and> c \<noteq> 13) buf"

text \<open>The row is brought into the scrolling part before anything is written.\<close>
definition ready_row :: "vga \<Rightarrow> vga" where
  "ready_row s =
    (let s = EraseCursor s; maxr = max_row s;
         s = (if s_row s < 1 then s\<lparr>s_row := 1\<rparr> else s)
     in if s_row s > maxr then Scroll s else s)"

definition print_prompt :: "vga \<Rightarrow> vga" where
  "print_prompt s =
    (let row = s_row s;
         (col, s) = text_at row 0 (bytes_of ''[USER] '') 0x0B s;
         s = SetCell row (col + 1) 0x20 0x07 (SetCell row col 0x3E 0x0F s);
         s = pad_row row (col + 2) s
     in DrawCursorShape (s\<lparr>s_col := col + 2\<rparr>))"

definition print_line :: "u8 list \<Rightarrow> vga \<Rightarrow> vga" where
  "print_line txt s =
    (let maxr = max_row s;
         (col, s) = text_at (s_row s) 0 txt (ContentColor txt) s;
         s = down (pad_row (s_row s) col s);
         s = (if s_row s > maxr then Scroll s else s)
     in DrawCursorShape (s\<lparr>s_col := 0\<rparr>))"

definition PrintUser :: "u8 list \<Rightarrow> vga \<Rightarrow> vga" where
  "PrintUser buf s =
    (let s = ready_row s; txt = content buf in
     if txt = [] then DrawCursorShape s
     else if txt = bytes_of ''> '' then print_prompt s
     else case TryDrawMemBar txt s of Some s \<Rightarrow> s | None \<Rightarrow> print_line txt s)"

section \<open>The status bar\<close>

definition FmtU64 :: "nat \<Rightarrow> nat \<Rightarrow> u8 \<Rightarrow> u8 list" where
  "FmtU64 v width pad = (let ds = bytes_of (itoa v) in replicate (width - length ds) pad @ ds)"

text \<open>Bytes stored into an array from an index on.\<close>
fun store_at :: "nat \<Rightarrow> u8 list \<Rightarrow> u8 list \<Rightarrow> u8 list" where
  "store_at i [] a = a"
| "store_at i (x # xs) a = store_at (i + 1) xs (a[i := x])"

text \<open>The array up[20] with the uptime: the hours may run over the place of the first colon.\<close>
definition uptime :: "u64 \<Rightarrow> u8 list" where
  "uptime ticks =
    (let secs = unat ticks div 100; mins = secs div 60; secs = secs mod 60; hrs = mins div 60; mins = mins mod 60;
         up = bytes_of ''Up: '' @ replicate 16 0;
         up = store_at 4 (FmtU64 hrs 2 0x30) up;
         up = up[6 := 0x3A];
         up = store_at 7 (take 2 (FmtU64 mins 2 0x30)) up;
         up = up[9 := 0x3A];
         up = store_at 10 (take 2 (FmtU64 secs 2 0x30)) up
     in up[12 := 0])"

definition hints :: cstr where
  "hints = ''  Tab: complete   Up/Down: history   clear: reset screen   help: commands  ''"

definition UpdateStatusBar :: "u64 \<Rightarrow> vga \<Rightarrow> vga" where
  "UpdateStatusBar ticks s =
    (if \<not> s_fb s \<or> s_cols s < 20 then s else
     let up = take 12 (uptime ticks);
         upcol = (if s_cols s > 13 then s_cols s - 13 else 0);
         s = put_chars (\<lambda>i ch s. if upcol + of_nat i < s_cols s
                then set_cells 0 (unat (upcol + of_nat i)) \<lparr>c_ch = ch, c_attr = 0x1F\<rparr> s else s) 0 up s;
         s = RedrawRow 0 s;
         bot = s_rows s - 1;
         s = clear_row (unat bot) \<lparr>c_ch = 0x20, c_attr = 0x78\<rparr> s;
         s = put_chars (\<lambda>c ch. set_cells (unat bot) c \<lparr>c_ch = ch, c_attr = 0x78\<rparr>) 0 (take (unat (s_cols s)) (bytes_of hints)) s
     in RedrawRow bot s)"

end
