(* ===== verification/ConsoleRefine.thy ===== *)
theory ConsoleRefine
  imports TextConsole
begin

text \<open>The screen shows the text.  The pixels of the text surface are at every moment the picture of the cell
  array with the cursor, and the cells and the cursor follow an abstract terminal: the operations of
  the console refine it.\<close>

section \<open>The pixels of the text surface\<close>

text \<open>The surface lies within the screen and has room for a header, a text row and a status row.\<close>
definition surface_ok :: "vga \<Rightarrow> bool" where
  "surface_ok s \<longleftrightarrow> fb_ok s \<and> unat (s_origin_x s) + 8 * unat (s_cols s) \<le> unat (s_fb_w s)
     \<and> unat (s_origin_y s) + 16 * unat (s_rows s) \<le> unat (s_fb_h s) \<and> 3 \<le> unat (s_rows s) \<and> 1 \<le> unat (s_cols s)"

abbreviation ncols :: "vga \<Rightarrow> nat" where "ncols s \<equiv> unat (s_cols s)"
abbreviation nrows :: "vga \<Rightarrow> nat" where "nrows s \<equiv> unat (s_rows s)"

text \<open>Pixel (i, j) of cell (r, c).\<close>
definition tpix :: "vga \<Rightarrow> nat \<Rightarrow> nat \<Rightarrow> nat \<Rightarrow> nat \<Rightarrow> u64" where
  "tpix s r c i j = pix s (s_origin_x s + of_nat (8 * c + i)) (s_origin_y s + of_nat (16 * r + j))"

definition in_text :: "vga \<Rightarrow> nat \<Rightarrow> nat \<Rightarrow> nat \<Rightarrow> nat \<Rightarrow> bool" where
  "in_text s r c i j \<longleftrightarrow> r < nrows s \<and> c < ncols s \<and> i < 8 \<and> j < 16"

lemma tpix_puts [simp]: "tpix (puts ws s) = tpix s" "in_text (puts ws s) = in_text s"
  by (intro ext, simp add: tpix_def in_text_def)+

lemma surface_ok_puts [simp]: "surface_ok (puts ws s) = surface_ok s" by (simp add: surface_ok_def)

lemma text_coords:
  assumes "surface_ok s" "in_text s r c i j"
  shows "unat (s_origin_x s + of_nat (8 * c + i)) = unat (s_origin_x s) + (8 * c + i)"
    and "unat (s_origin_y s + of_nat (16 * r + j)) = unat (s_origin_y s) + (16 * r + j)"
    and "on_screen s (s_origin_x s + of_nat (8 * c + i)) (s_origin_y s + of_nat (16 * r + j))"
proof -
  have x: "unat (s_origin_x s) + (8 * c + i) < unat (s_fb_w s)"
    using assms by (simp add: surface_ok_def in_text_def)
  have y: "unat (s_origin_y s) + (16 * r + j) < unat (s_fb_h s)"
    using assms by (simp add: surface_ok_def in_text_def)
  show a: "unat (s_origin_x s + of_nat (8 * c + i)) = unat (s_origin_x s) + (8 * c + i)"
    by (rule u32_add) (use x u32_lt [of "s_fb_w s"] in linarith)
  show b: "unat (s_origin_y s + of_nat (16 * r + j)) = unat (s_origin_y s) + (16 * r + j)"
    by (rule u32_add) (use y u32_lt [of "s_fb_h s"] in linarith)
  show "on_screen s (s_origin_x s + of_nat (8 * c + i)) (s_origin_y s + of_nat (16 * r + j))"
    unfolding word_less_nat_alt a b using x y by blast
qed

lemma block_inj:
  fixes n :: nat
  assumes "n * c + i = n * c' + i'" "i < n" "i' < n"
  shows "c = c'" "i = i'"
  using arg_cong [OF assms(1), of "\<lambda>k. k div n"] arg_cong [OF assms(1), of "\<lambda>k. k mod n"] assms(2,3) by simp_all

lemma tpix_inj:
  assumes "surface_ok s" "in_text s r c i j" "in_text s r' c' i' j'"
  shows "tpix s r c i j = tpix s r' c' i' j' \<longleftrightarrow> r = r' \<and> c = c' \<and> i = i' \<and> j = j'"
proof
  note a = text_coords [OF assms(1,2)] and b = text_coords [OF assms(1,3)]
  have ok: "fb_ok s" using assms(1) by (simp add: surface_ok_def)
  assume "tpix s r c i j = tpix s r' c' i' j'"
  then have "unat (s_origin_x s + of_nat (8 * c + i)) = unat (s_origin_x s + of_nat (8 * c' + i'))"
    "unat (s_origin_y s + of_nat (16 * r + j)) = unat (s_origin_y s + of_nat (16 * r' + j'))"
    unfolding tpix_def pix_inj [OF ok a(3) b(3)] by simp_all
  then have "8 * c + i = 8 * c' + i'" "16 * r + j = 16 * r' + j'" unfolding a b by simp_all
  moreover have "i < 8" "i' < 8" "j < 16" "j' < 16" using assms(2,3) by (simp_all add: in_text_def)
  ultimately show "r = r' \<and> c = c' \<and> i = i' \<and> j = j'" using block_inj [of 8] block_inj [of 16] by metis
qed simp

text \<open>The stores of a block of a cell, as the loops over it compute their addresses.\<close>
lemma cell_address:
  assumes "surface_ok s" "in_text s r c i j"
  shows "line_at s (s_origin_y s + of_nat r * of_nat CHAR_H + of_nat j) (s_origin_x s + of_nat c * of_nat CHAR_W) + of_nat i
    = tpix s r c i j"
    and "s_origin_x s + of_nat c * of_nat CHAR_W + of_nat i < s_fb_w s"
    and "s_origin_y s + of_nat r * of_nat CHAR_H + of_nat j < s_fb_h s"
proof -
  have ok: "fb_ok s" using assms(1) by (simp add: surface_ok_def)
  have x: "s_origin_x s + of_nat c * of_nat CHAR_W + of_nat i = s_origin_x s + of_nat (8 * c + i)"
    and y: "s_origin_y s + of_nat r * of_nat CHAR_H + of_nat j = s_origin_y s + of_nat (16 * r + j)"
    by (simp_all add: CHAR_W_def CHAR_H_def ac_simps)
  note t = text_coords [OF assms]
  have "in_text s r c 0 j" using assms(2) by (simp add: in_text_def)
  then have "unat (s_origin_x s + of_nat c * of_nat CHAR_W) = unat (s_origin_x s) + 8 * c"
    using text_coords(1) [OF assms(1), of r c 0 j] by (simp add: CHAR_W_def ac_simps)
  then have "unat (s_origin_x s + of_nat c * of_nat CHAR_W) + i < 2 ^ 32"
    using t(1) u32_lt [of "s_origin_x s + of_nat (8 * c + i)"] by linarith
  then have "line_at s (s_origin_y s + of_nat r * of_nat CHAR_H + of_nat j) (s_origin_x s + of_nat c * of_nat CHAR_W) + of_nat i
     = line_at s (s_origin_y s + of_nat (16 * r + j)) (s_origin_x s + of_nat (8 * c + i))"
    unfolding y by (simp only: line_at_add x)
  also have "\<dots> = tpix s r c i j" unfolding tpix_def by (rule line_at_pix [OF ok t(3)])
  finally show "line_at s (s_origin_y s + of_nat r * of_nat CHAR_H + of_nat j) (s_origin_x s + of_nat c * of_nat CHAR_W) + of_nat i
    = tpix s r c i j" .
  show "s_origin_x s + of_nat c * of_nat CHAR_W + of_nat i < s_fb_w s"
    "s_origin_y s + of_nat r * of_nat CHAR_H + of_nat j < s_fb_h s"
    using t(3) by (simp_all only: x y)
qed

lemma DrawChar_puts:
  assumes "surface_ok s" "r < nrows s" "c < ncols s"
  obtains ws where "DrawChar (of_nat c) (of_nat r) ch fg bg s = puts ws s"
    "\<And>p. p \<in> set ws \<longleftrightarrow> (\<exists>i<8. \<exists>j<16. p = (tpix s r c i j, if font_bit ch j i then fg else bg))"
proof -
  have u: "unat (of_nat r :: u32) = r" "unat (of_nat c :: u32) = c"
    using assms(2,3) u32_lt [of "s_rows s"] u32_lt [of "s_cols s"] by (simp_all add: unat_of_nat take_bit_nat_eq_self)
  have t: "in_text s r c i j" if "i < 8" "j < 16" for i j using assms that by (simp add: in_text_def)
  let ?py = "s_origin_y s + of_nat r * of_nat CHAR_H" and ?px = "s_origin_x s + of_nat c * of_nat CHAR_W"
  have rows: "glyph_rows ?py s = [0..<16]"
    unfolding glyph_rows_def CHAR_H_def [symmetric] takeWhile_eq_all_conv
    using cell_address(3) [OF assms(1) t, of 0] by (auto simp: CHAR_H_def not_le)
  have fb: "s_fb s" using assms(1) by (simp add: surface_ok_def fb_ok_def)
  have "DrawChar (of_nat c) (of_nat r) ch fg bg s = puts (glyph_stores s ?px ?py ch fg bg) s"
    using assms u fb by (simp add: DrawChar_def word_le_nat_alt)
  moreover have "p \<in> set (glyph_stores s ?px ?py ch fg bg) \<longleftrightarrow>
      (\<exists>i<8. \<exists>j<16. p = (tpix s r c i j, if font_bit ch j i then fg else bg))" for p
  proof -
    have "p \<in> set (glyph_stores s ?px ?py ch fg bg) \<longleftrightarrow>
       (\<exists>j<16. \<exists>i<8. p = (line_at s (?py + of_nat j) ?px + of_nat i, if font_bit ch j i then fg else bg) \<and> ?px + of_nat i < s_fb_w s)"
      unfolding glyph_stores_def rows mem_loop CHAR_W_def by (simp only: set_upt atLeastLessThan_iff le0 simp_thms Bex_def)
    then show ?thesis using cell_address(1,2) [OF assms(1) t] by (metis (no_types, lifting))
  qed
  ultimately show thesis by (rule that)
qed

section \<open>Cells and their pictures\<close>

abbreviation lit :: "vga \<Rightarrow> nat \<Rightarrow> nat \<Rightarrow> nat \<Rightarrow> nat \<Rightarrow> u32" where
  "lit s r c i j \<equiv> fbmem s (tpix s r c i j)"

text \<open>The colour of pixel (i, j) in the picture of a cell.\<close>
definition glyph :: "vga \<Rightarrow> Cell \<Rightarrow> nat \<Rightarrow> nat \<Rightarrow> u32" where
  "glyph s cell i j = (if font_bit (c_ch cell) j i then AttrFg s (c_attr cell) else AttrBg s (c_attr cell))"

definition same_text :: "vga \<Rightarrow> vga \<Rightarrow> bool" where "same_text s s' \<longleftrightarrow> (\<exists>ws. s' = puts ws s)"

lemma same_text_refl [simp, intro]: "same_text s s" unfolding same_text_def by (rule exI [of _ "[]"]) simp

lemma same_text_trans: "same_text s s' \<Longrightarrow> same_text s' s'' \<Longrightarrow> same_text s s''"
  unfolding same_text_def by (metis puts_append)

lemma glyph_puts [simp]: "glyph (puts ws s) = glyph s"
  by (intro ext) (simp add: glyph_def AttrFg_def AttrBg_def)

lemma DrawChar_lit:
  assumes "surface_ok s" "r0 < nrows s" "c0 < ncols s"
  shows "same_text s (DrawChar (of_nat c0) (of_nat r0) ch fg bg s)"
    and "in_text s r c i j \<Longrightarrow> lit (DrawChar (of_nat c0) (of_nat r0) ch fg bg s) r c i j =
      (if r = r0 \<and> c = c0 then if font_bit ch j i then fg else bg else lit s r c i j)"
proof -
  obtain ws where ws: "DrawChar (of_nat c0) (of_nat r0) ch fg bg s = puts ws s"
    "\<And>p. p \<in> set ws \<longleftrightarrow> (\<exists>i<8. \<exists>j<16. p = (tpix s r0 c0 i j, if font_bit ch j i then fg else bg))"
    using DrawChar_puts [OF assms, of ch fg bg] by blast
  show "same_text s (DrawChar (of_nat c0) (of_nat r0) ch fg bg s)" by (auto simp: same_text_def ws(1))
  assume t: "in_text s r c i j"
  have inj: "tpix s r0 c0 i' j' = tpix s r c i j \<longleftrightarrow> r = r0 \<and> c = c0 \<and> i' = i \<and> j' = j" if "i' < 8" "j' < 16" for i' j'
    using tpix_inj [OF assms(1) _ t, of r0 c0 i' j'] that assms(2,3) by (auto simp: in_text_def)
  show "lit (DrawChar (of_nat c0) (of_nat r0) ch fg bg s) r c i j =
      (if r = r0 \<and> c = c0 then if font_bit ch j i then fg else bg else lit s r c i j)"
  proof (cases "r = r0 \<and> c = c0")
    case True
    have "(tpix s r c i j, if font_bit ch j i then fg else bg) \<in> set ws"
      unfolding ws(2) using t True unfolding in_text_def by blast
    moreover have "snd p = (if font_bit ch j i then fg else bg)" if pm: "p \<in> set ws" and pe: "fst p = tpix s r c i j" for p
    proof -
      obtain i' j' where ij: "i' < 8" "j' < 16" "p = (tpix s r0 c0 i' j', if font_bit ch j' i' then fg else bg)"
        using pm unfolding ws(2) by blast
      have "tpix s r0 c0 i' j' = tpix s r c i j" using pe unfolding ij(3) fst_conv .
      then have "i' = i" "j' = j" using inj [OF ij(1,2)] by blast+
      then show ?thesis unfolding ij(3) snd_conv by simp
    qed
    ultimately have "fbmem (puts ws s) (tpix s r c i j) = (if font_bit ch j i then fg else bg)" by (rule puts_mem)
    then show ?thesis using True by (simp add: ws(1))
  next
    case False
    have "fst p \<noteq> tpix s r c i j" if "p \<in> set ws" for p using that ws(2) inj False by fastforce
    then have "fbmem (puts ws s) (tpix s r c i j) = lit s r c i j" by (rule puts_other)
    then show ?thesis using False by (simp only: ws(1) tpix_puts if_False)
  qed
qed

lemma small_row: "r < nrows s \<Longrightarrow> unat (of_nat r :: u32) = r"
  using u32_lt [of "s_rows s"] by (simp add: unat_of_nat take_bit_nat_eq_self)
lemma small_col: "c < ncols s \<Longrightarrow> unat (of_nat c :: u32) = c"
  using u32_lt [of "s_cols s"] by (simp add: unat_of_nat take_bit_nat_eq_self)

lemma same_textD:
  assumes "same_text s s'"
  shows "s_cells s' = s_cells s" "s_cols s' = s_cols s" "s_rows s' = s_rows s" "s_row s' = s_row s" "s_col s' = s_col s"
    "s_cursor_visible s' = s_cursor_visible s" "surface_ok s' = surface_ok s" "tpix s' = tpix s" "in_text s' = in_text s"
    "glyph s' = glyph s" "s_fb s' = s_fb s"
  using assms by (auto simp: same_text_def)

lemma draw_cell_lit:
  assumes "surface_ok s" "r0 < nrows s" "c0 < ncols s"
  shows "same_text s (draw_cell (of_nat r0) (of_nat c0) s)"
    and "in_text s r c i j \<Longrightarrow> lit (draw_cell (of_nat r0) (of_nat c0) s) r c i j =
      (if r = r0 \<and> c = c0 then glyph s (s_cells s r c) i j else lit s r c i j)"
  using DrawChar_lit [OF assms] by (auto simp: draw_cell_def Let_def small_row [OF assms(2)] small_col [OF assms(3)] glyph_def)

lemma RedrawRow_lit:
  assumes "surface_ok s" "r0 < nrows s"
  shows "same_text s (RedrawRow (of_nat r0) s)"
    and "in_text s r c i j \<Longrightarrow> lit (RedrawRow (of_nat r0) s) r c i j =
      (if r = r0 then glyph s (s_cells s r c) i j else lit s r c i j)"
proof -
  define f where "f n = fold (\<lambda>c. draw_cell (of_nat r0) (of_nat c)) [0..<n] s" for n
  have S: "f (Suc n) = draw_cell (of_nat r0) (of_nat n) (f n)" for n by (simp add: f_def)
  have 1: "same_text s (f n) \<and> (in_text s r c i j \<longrightarrow> lit (f n) r c i j =
      (if r = r0 \<and> c < n then glyph s (s_cells s r c) i j else lit s r c i j))" if "n \<le> ncols s" for n
    using that
  proof (induction n)
    case 0
    show ?case by (simp add: f_def)
  next
    case (Suc n)
    then have st: "same_text s (f n)" by simp
    note d = same_textD [OF st]
    have "same_text (f n) (draw_cell (of_nat r0) (of_nat n) (f n))"
      "in_text (f n) r c i j \<Longrightarrow> lit (draw_cell (of_nat r0) (of_nat n) (f n)) r c i j =
      (if r = r0 \<and> c = n then glyph (f n) (s_cells (f n) r c) i j else lit (f n) r c i j)"
      using draw_cell_lit [of "f n" r0 n] assms Suc.prems by (simp_all add: d)
    then show ?case using Suc same_text_trans [OF st] by (auto simp: S d less_Suc_eq)
  qed
  have "RedrawRow (of_nat r0) s = f (ncols s)" by (simp add: RedrawRow_def f_def)
  then show "same_text s (RedrawRow (of_nat r0) s)"
    "in_text s r c i j \<Longrightarrow> lit (RedrawRow (of_nat r0) s) r c i j =
      (if r = r0 then glyph s (s_cells s r c) i j else lit s r c i j)"
    using 1 [OF order.refl] by (auto simp: in_text_def)
qed

lemma RedrawAll_lit:
  assumes "surface_ok s"
  shows "same_text s (RedrawAll s)"
    and "in_text s r c i j \<Longrightarrow> lit (RedrawAll s) r c i j = glyph s (s_cells s r c) i j"
proof -
  define f where "f n = fold (\<lambda>r s. RedrawRow (of_nat r) s) [0..<n] s" for n
  have S: "f (Suc n) = RedrawRow (of_nat n) (f n)" for n by (simp add: f_def)
  have 1: "same_text s (f n) \<and> (in_text s r c i j \<longrightarrow> lit (f n) r c i j =
      (if r < n then glyph s (s_cells s r c) i j else lit s r c i j))" if "n \<le> nrows s" for n
    using that
  proof (induction n)
    case 0
    show ?case by (simp add: f_def)
  next
    case (Suc n)
    then have st: "same_text s (f n)" by simp
    note d = same_textD [OF st]
    have "same_text (f n) (RedrawRow (of_nat n) (f n))"
      "in_text (f n) r c i j \<Longrightarrow> lit (RedrawRow (of_nat n) (f n)) r c i j =
      (if r = n then glyph (f n) (s_cells (f n) r c) i j else lit (f n) r c i j)"
      using RedrawRow_lit [of "f n" n] assms Suc.prems by (simp_all add: d)
    then show ?case using Suc same_text_trans [OF st] by (auto simp: S d less_Suc_eq)
  qed
  have "RedrawAll s = f (nrows s)" by (simp add: RedrawAll_def f_def)
  then show "same_text s (RedrawAll s)"
    "in_text s r c i j \<Longrightarrow> lit (RedrawAll s) r c i j = glyph s (s_cells s r c) i j"
    using 1 [OF order.refl] by (auto simp: in_text_def)
qed

section \<open>Clean and shown\<close>

text \<open>Every pixel shows its cell, without a cursor.\<close>
definition clean :: "vga \<Rightarrow> bool" where
  "clean s \<longleftrightarrow> surface_ok s \<and> (\<forall>r c i j. in_text s r c i j \<longrightarrow> lit s r c i j = glyph s (s_cells s r c) i j)"

text \<open>The same with the cursor, two pixel rows in light gray at the bottom of its cell.\<close>
definition picture :: "vga \<Rightarrow> nat \<Rightarrow> nat \<Rightarrow> nat \<Rightarrow> nat \<Rightarrow> u32" where
  "picture s r c i j =
    (if s_cursor_visible s \<and> r = unat (s_row s) \<and> c = unat (s_col s) \<and> 14 \<le> j then topx s (s_palette ! 7)
     else glyph s (s_cells s r c) i j)"

definition shown :: "vga \<Rightarrow> bool" where
  "shown s \<longleftrightarrow> surface_ok s \<and> (\<forall>r c i j. in_text s r c i j \<longrightarrow> lit s r c i j = picture s r c i j)"

lemma clean_shown: "clean s \<Longrightarrow> \<not> s_cursor_visible s \<Longrightarrow> shown s"
  by (auto simp: clean_def shown_def picture_def)

lemma cursor_cell:
  assumes "s_row s < s_rows s" "s_col s < s_cols s"
  shows "of_nat (unat (s_row s)) = s_row s" "of_nat (unat (s_col s)) = s_col s" "unat (s_row s) < nrows s" "unat (s_col s) < ncols s"
  using assms by (simp_all add: word_less_nat_alt)

text \<open>Fields that no picture depends on.\<close>
lemma frame_upd [simp]:
  "tpix (s\<lparr>s_cursor_visible := v\<rparr>) = tpix s" "tpix (s\<lparr>s_row := r\<rparr>) = tpix s" "tpix (s\<lparr>s_col := c\<rparr>) = tpix s"
  "tpix (s\<lparr>s_cells := k\<rparr>) = tpix s"
  "in_text (s\<lparr>s_cursor_visible := v\<rparr>) = in_text s" "in_text (s\<lparr>s_row := r\<rparr>) = in_text s" "in_text (s\<lparr>s_col := c\<rparr>) = in_text s"
  "in_text (s\<lparr>s_cells := k\<rparr>) = in_text s"
  "glyph (s\<lparr>s_cursor_visible := v\<rparr>) = glyph s" "glyph (s\<lparr>s_row := r\<rparr>) = glyph s" "glyph (s\<lparr>s_col := c\<rparr>) = glyph s"
  "glyph (s\<lparr>s_cells := k\<rparr>) = glyph s"
  "surface_ok (s\<lparr>s_cursor_visible := v\<rparr>) = surface_ok s" "surface_ok (s\<lparr>s_row := r\<rparr>) = surface_ok s"
  "surface_ok (s\<lparr>s_col := c\<rparr>) = surface_ok s" "surface_ok (s\<lparr>s_cells := k\<rparr>) = surface_ok s"
  by (auto simp: tpix_def pix_def in_text_def glyph_def AttrFg_def AttrBg_def surface_ok_def fb_ok_def fun_eq_iff)

lemma clean_upd [simp]:
  "clean (s\<lparr>s_cursor_visible := v\<rparr>) = clean s" "clean (s\<lparr>s_row := r\<rparr>) = clean s" "clean (s\<lparr>s_col := c\<rparr>) = clean s"
  by (simp_all add: clean_def)

lemma EraseCursor_clean:
  assumes "shown s" "s_row s < s_rows s" "s_col s < s_cols s"
  shows "clean (EraseCursor s)"
    and "\<exists>ws. EraseCursor s = (puts ws s)\<lparr>s_cursor_visible := False\<rparr>"
proof -
  note k = cursor_cell [OF assms(2,3)]
  have ok: "surface_ok s" "s_fb s" using assms(1) by (simp_all add: shown_def surface_ok_def fb_ok_def)
  show "\<exists>ws. EraseCursor s = (puts ws s)\<lparr>s_cursor_visible := False\<rparr>"
  proof (cases "s_cursor_visible s")
    case True
    have "same_text s (draw_cell (s_row s) (s_col s) s)" using draw_cell_lit(1) [OF ok(1) k(3,4)] by (simp add: k)
    then show ?thesis using True ok assms(2,3) by (auto simp: EraseCursor_def same_text_def)
  next
    case False
    then have "EraseCursor s = (puts [] s)\<lparr>s_cursor_visible := False\<rparr>" by (simp add: EraseCursor_def)
    then show ?thesis by blast
  qed
  show "clean (EraseCursor s)"
  proof (cases "s_cursor_visible s")
    case True
    define t where "t = draw_cell (s_row s) (s_col s) s"
    have t: "EraseCursor s = t\<lparr>s_cursor_visible := False\<rparr>" using True ok assms(2,3) by (simp add: EraseCursor_def t_def)
    have st: "same_text s t" using draw_cell_lit(1) [OF ok(1) k(3,4)] by (simp add: k t_def)
    note d = same_textD [OF st]
    have "lit t r c i j = glyph s (s_cells s r c) i j" if "in_text s r c i j" for r c i j
      using draw_cell_lit(2) [OF ok(1) k(3,4) that] that assms(1) by (auto simp: k t_def [symmetric] d shown_def picture_def)
    then show ?thesis using ok by (simp add: t clean_def d)
  next
    case False
    then show ?thesis using assms(1) by (simp add: EraseCursor_def clean_def shown_def picture_def)
  qed
qed

lemma DrawCursorShape_shown:
  assumes "clean s" "s_row s < s_rows s" "s_col s < s_cols s"
  shows "shown (DrawCursorShape s)"
    and "\<exists>ws. DrawCursorShape s = (puts ws s)\<lparr>s_cursor_visible := True\<rparr>"
proof -
  note k = cursor_cell [OF assms(2,3)]
  define R C where "R = unat (s_row s)" and "C = unat (s_col s)"
  have ok: "surface_ok s" "s_fb s" using assms(1) by (simp_all add: clean_def surface_ok_def fb_ok_def)
  have it: "in_text s R C i j" if "i < 8" "j < 16" for i j using k that by (simp add: in_text_def R_def C_def)
  have KR: "of_nat R = s_row s" "of_nat C = s_col s" by (simp_all add: R_def C_def k)
  note addr = cell_address [OF ok(1) it, unfolded KR]
  let ?py = "s_origin_y s + s_row s * of_nat CHAR_H" and ?px = "s_origin_x s + s_col s * of_nat CHAR_W"
  let ?col = "topx s (s_palette ! 7)"
  have y: "?py + of_nat CHAR_H - 2 + of_nat j = ?py + of_nat (14 + j)" for j by (simp add: CHAR_H_def)
  have rows: "takeWhile (\<lambda>r. ?py + of_nat CHAR_H - 2 + of_nat r < s_fb_h s) [0..<2] = [0..<2]"
    unfolding takeWhile_eq_all_conv y
  proof
    fix r assume "r \<in> set [0..<2 :: nat]"
    then show "?py + of_nat (14 + r) < s_fb_h s" using addr(3) [of 0 "14 + r"] by simp
  qed
  let ?ws = "[(line_at s (?py + of_nat (14 + r)) ?px + of_nat c, ?col). r \<leftarrow> [0..<2], c \<leftarrow> [0..<CHAR_W]]"
  have D: "DrawCursorShape s = (puts ?ws s)\<lparr>s_cursor_visible := True\<rparr>"
  proof -
    have "\<not> (\<not> s_fb s \<or> s_row s \<ge> s_rows s \<or> s_col s \<ge> s_cols s)" using assms(2,3) ok by auto
    then show ?thesis unfolding DrawCursorShape_def Let_def unfolding rows unfolding y by (simp only: if_False if_True)
  qed
  then show "\<exists>ws. DrawCursorShape s = (puts ws s)\<lparr>s_cursor_visible := True\<rparr>" by blast
  have mem: "p \<in> set ?ws \<longleftrightarrow> (\<exists>j<2. \<exists>i<8. p = (tpix s R C i (14 + j), ?col))" for p
  proof -
    have a2: "line_at s (?py + of_nat (14 + j)) ?px + of_nat i = tpix s R C i (14 + j)" if "j < 2" "i < 8" for i j
      using addr(1) [of i "14 + j"] that by simp
    show ?thesis unfolding mem_loop_all CHAR_W_def set_upt Bex_def atLeastLessThan_iff using a2 [folded CHAR_W_def, unfolded CHAR_W_def]
      by (metis (no_types, lifting) le0)
  qed
  have inj: "tpix s R C i' j' = tpix s r c i j \<longleftrightarrow> r = R \<and> c = C \<and> i' = i \<and> j' = j"
    if "in_text s r c i j" "i' < 8" "j' < 16" for r c i j i' j'
    using tpix_inj [OF ok(1) it [OF that(2,3)] that(1)] by auto
  have "lit (puts ?ws s) r c i j = (if r = R \<and> c = C \<and> 14 \<le> j then ?col else glyph s (s_cells s r c) i j)"
    if t: "in_text s r c i j" for r c i j
  proof (cases "r = R \<and> c = C \<and> 14 \<le> j")
    case True
    then have "(tpix s r c i j, ?col) \<in> set ?ws"
      unfolding mem using t by (intro exI [of _ "j - 14"] conjI exI [of _ i]) (auto simp: in_text_def)
    moreover have "snd p = ?col" if "p \<in> set ?ws" for p using that unfolding mem by auto
    ultimately have "fbmem (puts ?ws s) (tpix s r c i j) = ?col" by (rule puts_mem)
    then show ?thesis using True by (simp only: tpix_puts simp_thms if_True)
  next
    case False
    have "fst p \<noteq> tpix s r c i j" if "p \<in> set ?ws" for p
      using that inj [OF t] False unfolding mem by force
    then have "fbmem (puts ?ws s) (tpix s r c i j) = lit s r c i j" by (rule puts_other)
    then show ?thesis using False assms(1) t by (simp only: tpix_puts if_False clean_def)
  qed
  then show "shown (DrawCursorShape s)"
    using ok unfolding D shown_def by (simp add: picture_def R_def C_def)
qed

section \<open>Cells under the operations\<close>

lemma set_cells_sel [simp]:
  "s_cells (set_cells r c cell s) = (s_cells s)(r := (s_cells s r)(c := cell))"
  "s_rows (set_cells r c cell s) = s_rows s" "s_cols (set_cells r c cell s) = s_cols s" "s_row (set_cells r c cell s) = s_row s"
  "s_col (set_cells r c cell s) = s_col s" "s_cursor_visible (set_cells r c cell s) = s_cursor_visible s"
  "fbmem (set_cells r c cell s) = fbmem s" "tpix (set_cells r c cell s) = tpix s" "in_text (set_cells r c cell s) = in_text s"
  "glyph (set_cells r c cell s) = glyph s" "surface_ok (set_cells r c cell s) = surface_ok s"
  by (simp_all add: set_cells_def)

text \<open>What a step changes beside pixels and cells: nothing.\<close>
definition only_cells :: "vga \<Rightarrow> (nat \<Rightarrow> nat \<Rightarrow> Cell) \<Rightarrow> vga \<Rightarrow> bool" where
  "only_cells s k s' \<longleftrightarrow> s' = s\<lparr>s_cells := k\<rparr>"

lemma clear_row_cells:
  "clear_row r cell s = s\<lparr>s_cells := (s_cells s)(r := \<lambda>c. if c < ncols s then cell else s_cells s r c)\<rparr>"
proof -
  have "fold (\<lambda>c. set_cells r c cell) [0..<n] s = s\<lparr>s_cells := (s_cells s)(r := \<lambda>c. if c < n then cell else s_cells s r c)\<rparr>" for n
    by (induction n) (auto simp: set_cells_def fun_eq_iff less_Suc_eq)
  then show ?thesis by (simp add: clear_row_def)
qed

lemma copy_row_cells:
  assumes "0 < r"
  shows "copy_row r s = s\<lparr>s_cells := (s_cells s)(r - 1 := \<lambda>c. if c < ncols s then s_cells s r c else s_cells s (r - 1) c)\<rparr>"
proof -
  have "fold (\<lambda>c s. set_cells (r - 1) c (s_cells s r c) s) [0..<n] s
      = s\<lparr>s_cells := (s_cells s)(r - 1 := \<lambda>c. if c < n then s_cells s r c else s_cells s (r - 1) c)\<rparr>" for n
    using assms by (induction n) (auto simp: set_cells_def fun_eq_iff less_Suc_eq)
  then show ?thesis by (simp add: copy_row_def)
qed

lemma copy_rows_cells:
  assumes "1 \<le> m"
  shows "fold copy_row [2..<m + 1] s =
    s\<lparr>s_cells := \<lambda>r c. if 1 \<le> r \<and> r < m \<and> c < ncols s then s_cells s (r + 1) c else s_cells s r c\<rparr>"
  using assms
proof (induction m rule: dec_induct)
  case base
  have "(\<lambda>r c. if 1 \<le> r \<and> r < 1 \<and> c < ncols s then s_cells s (r + 1) c else s_cells s r c) = s_cells s"
    by (auto simp: fun_eq_iff)
  then show ?case by simp
next
  case (step n)
  then have "[2..<Suc n + 1] = [2..<n + 1] @ [n + 1]" by simp
  then show ?case using step by (auto simp: copy_row_cells fun_eq_iff less_Suc_eq)
qed

definition scrolled :: "nat \<Rightarrow> nat \<Rightarrow> (nat \<Rightarrow> nat \<Rightarrow> Cell) \<Rightarrow> nat \<Rightarrow> nat \<Rightarrow> Cell" where
  "scrolled m n k r c = (if c < n \<and> 1 \<le> r \<and> r < m then k (r + 1) c else if c < n \<and> r = m then blank else k r c)"

lemma last_row:
  assumes "surface_ok s"
  shows "unat (max_row s) = nrows s - 2" "(if s_rows s > 2 then s_rows s - 2 else 1) = max_row s"
    "1 \<le> unat (max_row s)" "unat (max_row s) < nrows s"
proof -
  have 3: "3 \<le> nrows s" using assms by (simp add: surface_ok_def)
  then have "s_rows s > 2" "s_rows s > 1" by (simp_all add: word_less_nat_alt)
  then show "unat (max_row s) = nrows s - 2" "(if s_rows s > 2 then s_rows s - 2 else 1) = max_row s"
    "1 \<le> unat (max_row s)" "unat (max_row s) < nrows s"
    using 3 by (simp_all add: max_row_def unat_sub word_le_nat_alt)
qed

lemma Scroll_clean:
  assumes "surface_ok s"
  shows "clean (Scroll s)" "s_cells (Scroll s) = scrolled (unat (max_row s)) (ncols s) (s_cells s)"
    "s_row (Scroll s) = max_row s" "s_col (Scroll s) = s_col s" "s_rows (Scroll s) = s_rows s" "s_cols (Scroll s) = s_cols s"
    "s_cursor_visible (Scroll s) = s_cursor_visible s"
proof -
  note l = last_row [OF assms]
  define t where "t = s\<lparr>s_cells := scrolled (unat (max_row s)) (ncols s) (s_cells s)\<rparr>"
  have "Scroll s = (RedrawAll t)\<lparr>s_row := max_row s\<rparr>"
    unfolding Scroll_def Let_def l(2) copy_rows_cells [OF l(3)] clear_row_cells t_def
    by (rule arg_cong [where f = "\<lambda>t. (RedrawAll t)\<lparr>s_row := max_row s\<rparr>"]) (auto simp: scrolled_def fun_eq_iff)
  moreover have "surface_ok t" using assms by (simp add: t_def)
  note R = RedrawAll_lit [OF this] and d = same_textD [OF RedrawAll_lit(1) [OF this]]
  ultimately show "clean (Scroll s)" "s_cells (Scroll s) = scrolled (unat (max_row s)) (ncols s) (s_cells s)"
    "s_row (Scroll s) = max_row s" "s_col (Scroll s) = s_col s" "s_rows (Scroll s) = s_rows s" "s_cols (Scroll s) = s_cols s"
    "s_cursor_visible (Scroll s) = s_cursor_visible s"
    using R(2) assms by (simp_all add: clean_def d t_def)
qed

lemma SetCell_clean:
  assumes "clean s"
  shows "clean (SetCell r c ch attr s)"
    and "s_cells (SetCell r c ch attr s) = (if r < s_rows s \<and> c < s_cols s
      then (s_cells s)(unat r := (s_cells s (unat r))(unat c := \<lparr>c_ch = ch, c_attr = attr\<rparr>)) else s_cells s)"
    and "s_row (SetCell r c ch attr s) = s_row s" "s_col (SetCell r c ch attr s) = s_col s"
    "s_rows (SetCell r c ch attr s) = s_rows s" "s_cols (SetCell r c ch attr s) = s_cols s"
    "s_cursor_visible (SetCell r c ch attr s) = s_cursor_visible s"
proof -
  have ok: "surface_ok s" using assms by (simp add: clean_def)
  have "clean (SetCell r c ch attr s)
    \<and> s_cells (SetCell r c ch attr s) = (if r < s_rows s \<and> c < s_cols s
      then (s_cells s)(unat r := (s_cells s (unat r))(unat c := \<lparr>c_ch = ch, c_attr = attr\<rparr>)) else s_cells s)
    \<and> s_row (SetCell r c ch attr s) = s_row s \<and> s_col (SetCell r c ch attr s) = s_col s
    \<and> s_rows (SetCell r c ch attr s) = s_rows s \<and> s_cols (SetCell r c ch attr s) = s_cols s
    \<and> s_cursor_visible (SetCell r c ch attr s) = s_cursor_visible s"
  proof (cases "r < s_rows s \<and> c < s_cols s")
    case True
    define t where "t = set_cells (unat r) (unat c) \<lparr>c_ch = ch, c_attr = attr\<rparr> s"
    define D where "D = DrawChar c r ch (AttrFg s attr) (AttrBg s attr) t"
    have S: "SetCell r c ch attr s = D" using True by (auto simp: SetCell_def t_def D_def not_le)
    have rc: "unat r < nrows s" "unat c < ncols s" using True by (simp_all add: word_less_nat_alt)
    have st: "same_text t D"
      using DrawChar_lit(1) [of t "unat r" "unat c" ch "AttrFg s attr" "AttrBg s attr"] ok rc by (simp add: t_def D_def)
    note d = same_textD [OF st]
    have L: "lit D r' c' i j = (if r' = unat r \<and> c' = unat c then if font_bit ch j i then AttrFg s attr else AttrBg s attr
        else lit t r' c' i j)" if "in_text s r' c' i j" for r' c' i j
      using DrawChar_lit(2) [of t "unat r" "unat c" r' c' i j ch "AttrFg s attr" "AttrBg s attr"] ok rc that
      unfolding D_def by (simp add: t_def)
    have "lit D r' c' i j = glyph D (s_cells D r' c') i j" if "in_text D r' c' i j" for r' c' i j
      using L that assms by (simp add: d t_def clean_def glyph_def)
    then show ?thesis using True ok by (simp add: S clean_def d t_def)
  next
    case False
    then have "SetCell r c ch attr s = s" by (auto simp: SetCell_def not_le)
    then show ?thesis using False assms by auto
  qed
  then show "clean (SetCell r c ch attr s)"
    "s_cells (SetCell r c ch attr s) = (if r < s_rows s \<and> c < s_cols s
      then (s_cells s)(unat r := (s_cells s (unat r))(unat c := \<lparr>c_ch = ch, c_attr = attr\<rparr>)) else s_cells s)"
    "s_row (SetCell r c ch attr s) = s_row s" "s_col (SetCell r c ch attr s) = s_col s"
    "s_rows (SetCell r c ch attr s) = s_rows s" "s_cols (SetCell r c ch attr s) = s_cols s"
    "s_cursor_visible (SetCell r c ch attr s) = s_cursor_visible s" by blast+
qed

section \<open>The abstract terminal\<close>

record tty =
  tt_cells :: "nat \<Rightarrow> nat \<Rightarrow> Cell"
  tt_row :: nat
  tt_col :: nat

definition tty_of :: "vga \<Rightarrow> tty" where
  "tty_of s = \<lparr>tt_cells = s_cells s, tt_row = unat (s_row s), tt_col = unat (s_col s)\<rparr>"

text \<open>Rows 1 to rows - 2 scroll; row 0 is the header and the last row the status bar.\<close>
definition tt_newline :: "nat \<Rightarrow> nat \<Rightarrow> tty \<Rightarrow> tty" where
  "tt_newline rows cols t =
    (if tt_row t < rows - 2 then t\<lparr>tt_row := tt_row t + 1, tt_col := 0\<rparr>
     else t\<lparr>tt_cells := scrolled (rows - 2) cols (tt_cells t), tt_row := rows - 2, tt_col := 0\<rparr>)"

definition tt_set :: "nat \<Rightarrow> nat \<Rightarrow> Cell \<Rightarrow> tty \<Rightarrow> tty" where
  "tt_set r c cell t = t\<lparr>tt_cells := (tt_cells t)(r := (tt_cells t r)(c := cell))\<rparr>"

definition tt_put :: "nat \<Rightarrow> nat \<Rightarrow> u8 \<Rightarrow> u8 \<Rightarrow> tty \<Rightarrow> tty" where
  "tt_put rows cols ch attr t =
    (if ch = 8 then if tt_col t = 0 then t else tt_set (tt_row t) (tt_col t - 1) blank (t\<lparr>tt_col := tt_col t - 1\<rparr>)
     else if ch = 13 then t\<lparr>tt_col := 0\<rparr>
     else if ch = 10 then tt_newline rows cols t
     else let t = tt_set (tt_row t) (tt_col t) \<lparr>c_ch = ch, c_attr = attr\<rparr> t
          in if tt_col t + 1 < cols then t\<lparr>tt_col := tt_col t + 1\<rparr> else tt_newline rows cols t)"

text \<open>The screen shows the cells and the cursor is in the scrolling part.\<close>
definition console_ok :: "vga \<Rightarrow> bool" where
  "console_ok s \<longleftrightarrow> shown s \<and> 1 \<le> unat (s_row s) \<and> unat (s_row s) \<le> nrows s - 2 \<and> unat (s_col s) < ncols s"

text \<open>Between erasing and drawing the cursor: no cursor on the screen.\<close>
definition ready :: "nat \<Rightarrow> nat \<Rightarrow> vga \<Rightarrow> tty \<Rightarrow> bool" where
  "ready rows cols s t \<longleftrightarrow> clean s \<and> nrows s = rows \<and> ncols s = cols \<and> tty_of s = t \<and> 3 \<le> rows \<and> 1 \<le> cols
     \<and> 1 \<le> tt_row t \<and> tt_row t \<le> rows - 2 \<and> tt_col t < cols"

lemma ready_facts:
  assumes "ready rows cols s t"
  shows "s_row s < s_rows s" "s_col s < s_cols s" "surface_ok s" "unat (max_row s) = rows - 2"
    "tt_row t = unat (s_row s)" "tt_col t = unat (s_col s)" "tt_cells t = s_cells s"
  using assms last_row(1) [of s]
  by (auto simp: ready_def tty_of_def word_less_nat_alt clean_def)

lemma EraseCursor_ready:
  assumes "console_ok s"
  shows "ready (nrows s) (ncols s) (EraseCursor s) (tty_of s)"
proof -
  have p: "s_row s < s_rows s" "s_col s < s_cols s" "shown s" "3 \<le> nrows s"
    using assms by (auto simp: console_ok_def word_less_nat_alt shown_def surface_ok_def)
  obtain ws where "EraseCursor s = (puts ws s)\<lparr>s_cursor_visible := False\<rparr>" using EraseCursor_clean(2) [OF p(3,1,2)] by blast
  then show ?thesis using EraseCursor_clean(1) [OF p(3,1,2)] assms p(4) by (simp add: ready_def console_ok_def tty_of_def)
qed

lemma DrawCursorShape_ready:
  assumes "ready rows cols s t"
  shows "console_ok (DrawCursorShape s)" "tty_of (DrawCursorShape s) = t" "s_cursor_visible (DrawCursorShape s)"
    "nrows (DrawCursorShape s) = rows" "ncols (DrawCursorShape s) = cols"
proof -
  have c: "clean s" using assms by (simp add: ready_def)
  note f = ready_facts [OF assms]
  obtain ws where "DrawCursorShape s = (puts ws s)\<lparr>s_cursor_visible := True\<rparr>" using DrawCursorShape_shown(2) [OF c f(1,2)] by blast
  then show "console_ok (DrawCursorShape s)" "tty_of (DrawCursorShape s) = t" "s_cursor_visible (DrawCursorShape s)"
    "nrows (DrawCursorShape s) = rows" "ncols (DrawCursorShape s) = cols"
    using DrawCursorShape_shown(1) [OF c f(1,2)] assms by (auto simp: ready_def console_ok_def tty_of_def)
qed

lemma max_row_upd [simp]: "max_row (s\<lparr>s_row := r\<rparr>) = max_row s" "max_row (s\<lparr>s_col := c\<rparr>) = max_row s"
  by (simp_all add: max_row_def)

lemma next_row_ready:
  assumes "ready rows cols s t"
  shows "ready rows cols (next_row (s\<lparr>s_col := 0\<rparr>)) (tt_newline rows cols t)"
proof -
  note f = ready_facts [OF assms]
  have r: "unat (s_row s + 1) = unat (s_row s) + 1" using u32_add [of "s_row s" 1] f(1) u32_lt [of "s_rows s"] by (simp add: word_less_nat_alt)
  have gt: "s_row s + 1 > max_row s \<longleftrightarrow> rows - 2 < unat (s_row s) + 1" by (simp add: word_less_nat_alt r f(4))
  define u where "u = s\<lparr>s_col := 0, s_row := s_row s + 1\<rparr>"
  have N: "next_row (s\<lparr>s_col := 0\<rparr>) = (if rows - 2 < unat (s_row s) + 1 then Scroll u else u)"
    by (simp add: next_row_def Let_def gt u_def)
  show ?thesis
  proof (cases "rows - 2 < unat (s_row s) + 1")
    case True
    have "surface_ok u" using f(3) by (simp add: u_def)
    note S = Scroll_clean [OF this]
    have m: "max_row u = max_row s" by (simp add: u_def)
    show ?thesis using True assms f S by (auto simp: N ready_def tt_newline_def tty_of_def m u_def)
  next
    case False
    then show ?thesis using assms f by (auto simp: N ready_def tt_newline_def tty_of_def u_def r)
  qed
qed

lemma SetCell_ready:
  assumes "ready rows cols s t" "unat r < rows" "unat c < cols"
  shows "ready rows cols (SetCell r c ch attr s) (tt_set (unat r) (unat c) \<lparr>c_ch = ch, c_attr = attr\<rparr> t)"
  using assms SetCell_clean [of s r c ch attr] by (auto simp: ready_def tty_of_def tt_set_def word_less_nat_alt)

lemma col_ready:
  assumes "ready rows cols s t" "unat c < cols"
  shows "ready rows cols (s\<lparr>s_col := c\<rparr>) (t\<lparr>tt_col := unat c\<rparr>)"
  using assms by (auto simp: ready_def tty_of_def)

lemma PutChar_step:
  assumes "console_ok s"
  shows "console_ok (PutChar ch attr s)" "tty_of (PutChar ch attr s) = tt_put (nrows s) (ncols s) ch attr (tty_of s)"
    "s_cursor_visible (PutChar ch attr s)" "nrows (PutChar ch attr s) = nrows s" "ncols (PutChar ch attr s) = ncols s"
proof -
  define u rows cols t where "u = EraseCursor s" and "rows = nrows s" and "cols = ncols s" and "t = tty_of s"
  have R: "ready rows cols u t" using EraseCursor_ready [OF assms] by (simp add: u_def rows_def cols_def t_def)
  note f = ready_facts [OF R]
  have c1: "unat (s_col u + 1) = unat (s_col u) + 1" using u32_add [of "s_col u" 1] f(2) u32_lt [of "s_cols u"] by (simp add: word_less_nat_alt)
  have col: "unat (s_col u) < cols" "unat (s_row u) < rows" using R f by (auto simp: ready_def)
  obtain v where v: "PutChar ch attr s = DrawCursorShape v" "ready rows cols v (tt_put rows cols ch attr t)"
  proof -
    consider "ch = 8" "s_col u = 0" | "ch = 8" "s_col u > 0" | "ch = 13" | "ch = 10" | "ch \<noteq> 8" "ch \<noteq> 13" "ch \<noteq> 10"
      by (cases "s_col u = 0") (auto simp: word_gt_0)
    then show thesis
    proof cases
      case 1
      then show thesis using R f by (intro that [of u]) (simp_all add: PutChar_def u_def [symmetric] tt_put_def)
    next
      case 2
      then have d: "unat (s_col u - 1) = unat (s_col u) - 1" by (simp add: unat_minus_one word_gt_0)
      have pos: "0 < unat (s_col u)" using 2 by (simp add: word_less_nat_alt)
      let ?w = "u\<lparr>s_col := s_col u - 1\<rparr>"
      have W: "ready rows cols ?w (t\<lparr>tt_col := tt_col t - 1\<rparr>)" using col_ready [OF R, of "s_col u - 1"] col(1) by (simp add: d f(6))
      have "ready rows cols (SetCell (s_row u) (s_col u - 1) 0x20 7 ?w)
         (tt_set (tt_row t) (tt_col t - 1) blank (t\<lparr>tt_col := tt_col t - 1\<rparr>))"
        using SetCell_ready [OF W, of "s_row u" "s_col u - 1" "0x20" 7] col by (simp add: d f blank_def)
      then show thesis using 2 pos f
        by (intro that [of "SetCell (s_row u) (s_col u - 1) 0x20 7 ?w"]) (simp_all add: PutChar_def u_def [symmetric] tt_put_def)
    next
      case 3
      then show thesis using col_ready [OF R, of 0] col(1)
        by (intro that [of "u\<lparr>s_col := 0\<rparr>"]) (simp_all add: PutChar_def u_def [symmetric] tt_put_def)
    next
      case 4
      then show thesis using next_row_ready [OF R]
        by (intro that [of "next_row (u\<lparr>s_col := 0\<rparr>)"]) (simp_all add: PutChar_def u_def [symmetric] tt_put_def)
    next
      case 5
      let ?w = "SetCell (s_row u) (s_col u) ch attr u" and ?t = "tt_set (tt_row t) (tt_col t) \<lparr>c_ch = ch, c_attr = attr\<rparr> t"
      have W: "ready rows cols ?w ?t" using SetCell_ready [OF R, of "s_row u" "s_col u"] col by (simp add: f)
      have wcol: "s_col ?w = s_col u" "s_cols ?w = s_cols u" using SetCell_clean [of u] R by (simp_all add: ready_def)
      have ncols: "ncols u = cols" using R by (simp add: ready_def)
      have tcol: "tt_col ?t = unat (s_col u)" by (simp add: tt_set_def f)
      have ge: "s_col u + 1 \<ge> s_cols u \<longleftrightarrow> \<not> unat (s_col u) + 1 < cols" by (simp add: word_le_nat_alt c1 ncols not_less)
      show thesis
      proof (cases "unat (s_col u) + 1 < cols")
        case True
        have "ready rows cols (?w\<lparr>s_col := s_col u + 1\<rparr>) (?t\<lparr>tt_col := tt_col ?t + 1\<rparr>)"
          using col_ready [OF W, of "s_col u + 1"] True by (simp add: c1 tcol)
        then show thesis using 5 True ge
          by (intro that [of "?w\<lparr>s_col := s_col u + 1\<rparr>"]) (simp_all add: PutChar_def u_def [symmetric] tt_put_def Let_def wcol tcol)
      next
        case False
        have up: "?w\<lparr>s_col := s_col u + 1, s_col := 0\<rparr> = ?w\<lparr>s_col := 0\<rparr>" by simp
        show thesis using 5 False ge next_row_ready [OF W]
          by (intro that [of "next_row (?w\<lparr>s_col := 0\<rparr>)"]) (simp_all add: PutChar_def u_def [symmetric] tt_put_def Let_def wcol tcol up)
      qed
    qed
  qed
  show "console_ok (PutChar ch attr s)" "tty_of (PutChar ch attr s) = tt_put (nrows s) (ncols s) ch attr (tty_of s)"
    "s_cursor_visible (PutChar ch attr s)" "nrows (PutChar ch attr s) = nrows s" "ncols (PutChar ch attr s) = ncols s"
    using DrawCursorShape_ready [OF v(2)] by (simp_all add: v(1) rows_def cols_def t_def)
qed

text \<open>The pixels of a console whose cursor is on.\<close>
lemma console_pixels:
  assumes "console_ok s" "in_text s r c i j"
  shows "lit s r c i j = (if s_cursor_visible s \<and> r = unat (s_row s) \<and> c = unat (s_col s) \<and> 14 \<le> j
    then topx s (s_palette ! 7) else glyph s (s_cells s r c) i j)"
  using assms by (simp add: console_ok_def shown_def picture_def)

lemma VGA_Print_steps:
  assumes "console_ok s"
  shows "console_ok (VGA_Print bs attr s)
    \<and> tty_of (VGA_Print bs attr s) = fold (\<lambda>ch. tt_put (nrows s) (ncols s) ch attr) bs (tty_of s)
    \<and> nrows (VGA_Print bs attr s) = nrows s \<and> ncols (VGA_Print bs attr s) = ncols s
    \<and> (bs \<noteq> [] \<or> s_cursor_visible s \<longrightarrow> s_cursor_visible (VGA_Print bs attr s))"
  using assms
proof (induction bs arbitrary: s)
  case (Cons ch bs)
  then show ?case using PutChar_step [OF Cons.prems, of ch attr] Cons.IH [of "PutChar ch attr s"] by (simp add: VGA_Print_def)
qed (simp add: VGA_Print_def)

text \<open>C19 (refinement): the text console.  While every pixel of the text surface shows its cell and the
  cursor its place, printing any bytes does to the cells and the cursor what the abstract terminal does
  with them - backspace, carriage return, new line, wrapping at the last column and scrolling between
  the header and the status row.  Afterwards the cursor is on, and every pixel of the surface is again
  the one of its cell, or of the cursor's bar in the last two lines of the cell under it.  The mouse
  pointer, which draws over the surface on its own, is not part of the statement.\<close>
theorem console_refines_terminal:
  assumes "console_ok s"
  shows "console_ok (VGA_Print bs attr s)
    \<and> tty_of (VGA_Print bs attr s) = fold (\<lambda>ch. tt_put (nrows s) (ncols s) ch attr) bs (tty_of s)
    \<and> (bs \<noteq> [] \<longrightarrow> s_cursor_visible (VGA_Print bs attr s)
        \<and> (\<forall>r<nrows s. \<forall>c<ncols s. \<forall>i<8. \<forall>j<16. let t = VGA_Print bs attr s in
             lit t r c i j = (if r = unat (s_row t) \<and> c = unat (s_col t) \<and> 14 \<le> j then topx t (s_palette ! 7)
               else glyph t (s_cells t r c) i j)))"
  using VGA_Print_steps [OF assms, of bs attr] console_pixels [of "VGA_Print bs attr s"]
  by (simp add: in_text_def Let_def)

section \<open>Starting the console\<close>

lemma put_chars_inv:
  assumes "\<And>i ch s. P s \<Longrightarrow> P (f i ch s)" "P s"
  shows "P (put_chars f i cs s)"
  using assms(2) by (induction cs arbitrary: i s) (simp_all add: assms(1))

lemma fold_inv:
  assumes "\<And>x s. P s \<Longrightarrow> P (f x s)" "P s"
  shows "P (fold f xs s)"
  using assms(2) by (induction xs arbitrary: s) (simp_all add: assms(1))

lemma clip_unat:
  "unat (clip_cols w) = min (unat w div 8) 256" "unat (clip_rows h) = min (unat h div 16) 64"
  by (auto simp: clip_cols_def clip_rows_def CHAR_W_def CHAR_H_def Let_def unat_div_distrib word_less_nat_alt min_def)

text \<open>The state RedrawAll starts from: only cells differ.\<close>
definition same_frame :: "vga \<Rightarrow> vga \<Rightarrow> bool" where
  "same_frame s s' \<longleftrightarrow> surface_ok s' \<and> s_rows s' = s_rows s \<and> s_cols s' = s_cols s \<and> s_cursor_visible s' = s_cursor_visible s"

lemma same_frame_set_cells [simp]: "same_frame s (set_cells r c cell t) = same_frame s t"
  by (simp add: same_frame_def)

lemma same_frame_clear_row: "same_frame s t \<Longrightarrow> same_frame s (clear_row r cell t)"
  unfolding clear_row_def by (rule fold_inv) simp_all

lemma same_frame_clear_cells: "same_frame s t \<Longrightarrow> same_frame s (clear_cells k t)"
  unfolding clear_cells_def by (rule fold_inv) (simp_all add: same_frame_clear_row)

lemma RedrawAll_console:
  assumes "same_frame s t" "\<not> s_cursor_visible s"
  defines "u \<equiv> (RedrawAll t)\<lparr>s_row := 1, s_col := 0\<rparr>"
  shows "console_ok u \<and> s_row u = 1 \<and> s_col u = 0 \<and> s_rows u = s_rows s \<and> s_cols u = s_cols s"
proof -
  have ok: "surface_ok t" using assms(1) by (simp add: same_frame_def)
  note d = same_textD [OF RedrawAll_lit(1) [OF ok]]
  have "clean (RedrawAll t)" using ok RedrawAll_lit(2) [OF ok] by (simp add: clean_def d)
  then have "shown u"
    using assms unfolding u_def by (intro clean_shown) (simp_all add: d same_frame_def)
  then show ?thesis using ok assms(1) by (auto simp: console_ok_def d surface_ok_def u_def same_frame_def)
qed

lemma VGA_Init_console:
  assumes "fb_ok s" "8 \<le> unat (s_fb_w s)" "48 \<le> unat (s_fb_h s)"
  shows "console_ok (VGA_Init s) \<and> s_row (VGA_Init s) = 1 \<and> s_col (VGA_Init s) = 0
    \<and> s_rows (VGA_Init s) = clip_rows (s_fb_h s) \<and> s_cols (VGA_Init s) = clip_cols (s_fb_w s)"
proof -
  let ?s0 = "s\<lparr>s_origin_x := 0, s_origin_y := 0, s_cols := clip_cols (s_fb_w s), s_rows := clip_rows (s_fb_h s),
               s_cursor_visible := False, s_mouse_visible := False\<rparr>"
  have fb: "s_fb s" using assms(1) by (simp add: fb_ok_def)
  have "3 \<le> unat (s_fb_h s) div 16" "1 \<le> unat (s_fb_w s) div 8" using assms(2,3) by linarith+
  then have ok: "surface_ok ?s0" using assms(1) by (auto simp: surface_ok_def fb_ok_def clip_unat)
  then have 0: "same_frame ?s0 (puts ws ?s0)" for ws by (simp add: same_frame_def)
  have hd: "same_frame ?s0 (put_chars (\<lambda>i ch. set_cells 0 (k i) \<lparr>c_ch = ch, c_attr = 0x1F\<rparr>) 0 header t)"
    if "same_frame ?s0 t" for k t by (rule put_chars_inv [where P = "same_frame ?s0"]) (simp_all add: that)
  show ?thesis
    unfolding VGA_Init_def Let_def using fb
    using RedrawAll_console [OF hd [OF same_frame_clear_row [OF same_frame_clear_cells [OF 0]]]] by simp
qed

lemma console_refines_terminal_witness:
  "console_ok (VGA_Print (bytes_of ''Hi'') 0x0F (VGA_Init vga_demo))
   \<and> tt_cells (tty_of (VGA_Print (bytes_of ''Hi'') 0x0F (VGA_Init vga_demo))) 1 1 = \<lparr>c_ch = 0x69, c_attr = 0x0F\<rparr>
   \<and> s_cursor_visible (VGA_Print (bytes_of ''Hi'') 0x0F (VGA_Init vga_demo))"
proof -
  have I: "console_ok (VGA_Init vga_demo)" "s_row (VGA_Init vga_demo) = 1" "s_col (VGA_Init vga_demo) = 0"
    "s_rows (VGA_Init vga_demo) = clip_rows 48" "s_cols (VGA_Init vga_demo) = clip_cols 64"
    using VGA_Init_console [of vga_demo] by (simp_all add: fb_ok_def vga_demo_def)
  have rc: "nrows (VGA_Init vga_demo) = 3" "ncols (VGA_Init vga_demo) = 8" by (simp_all add: I clip_unat)
  show ?thesis using console_refines_terminal [OF I(1), of "bytes_of ''Hi''" "0x0F"] rc I(1-3)
    by (simp add: tt_put_def tt_set_def Let_def chr8_def tty_of_def)
qed

section \<open>Lines of user programs\<close>

text \<open>The text bs in row r from column c on, cut at the right edge.\<close>
definition tt_text :: "nat \<Rightarrow> nat \<Rightarrow> nat \<Rightarrow> u8 list \<Rightarrow> u8 \<Rightarrow> tty \<Rightarrow> tty" where
  "tt_text cols r c bs attr t = t\<lparr>tt_cells := (tt_cells t)(r := \<lambda>x. if c \<le> x \<and> x < c + length bs \<and> x < cols
     then \<lparr>c_ch = bs ! (x - c), c_attr = attr\<rparr> else tt_cells t r x)\<rparr>"

lemma tt_text_none: "(\<And>x. \<not> (c \<le> x \<and> x < c + length bs \<and> x < cols)) \<Longrightarrow> tt_text cols r c bs attr t = t"
  by (auto simp: tt_text_def fun_eq_iff intro!: tty.equality)

lemma tt_set_text:
  "c < cols \<Longrightarrow> tt_text cols r (c + 1) bs attr (tt_set r c \<lparr>c_ch = b, c_attr = attr\<rparr> t) = tt_text cols r c (b # bs) attr t"
  by (auto simp: tt_text_def tt_set_def fun_eq_iff nth_Cons' Suc_le_eq less_Suc_eq_le le_less_Suc_eq intro!: tty.equality)

lemma text_at_ready:
  assumes "ready rows cols s t" "unat r < rows" "unat c \<le> cols"
  shows "ready rows cols (snd (text_at r c bs attr s)) (tt_text cols (unat r) (unat c) bs attr t)
    \<and> unat (fst (text_at r c bs attr s)) = min cols (unat c + length bs)"
  using assms
proof (induction bs arbitrary: c s t)
  case Nil
  then show ?case by (simp add: tt_text_none)
next
  case (Cons b bs)
  have cols: "ncols s = cols" using Cons.prems by (simp add: ready_def)
  show ?case
  proof (cases "unat c < cols")
    case True
    have c1: "unat (c + 1) = unat c + 1"
      using u32_add [of c 1] True cols u32_lt [of "s_cols s"] by simp
    have "ready rows cols (SetCell r c b attr s) (tt_set (unat r) (unat c) \<lparr>c_ch = b, c_attr = attr\<rparr> t)"
      by (rule SetCell_ready [OF Cons.prems(1,2) True])
    note IH = Cons.IH [OF this Cons.prems(2), of "c + 1"]
    have "tt_text cols (unat r) (Suc (unat c)) bs attr (tt_set (unat r) (unat c) \<lparr>c_ch = b, c_attr = attr\<rparr> t)
        = tt_text cols (unat r) (unat c) (b # bs) attr t" using tt_set_text [OF True] by simp
    then show ?thesis using IH True cols by (simp add: word_less_nat_alt c1)
  next
    case False
    then have "tt_text cols (unat r) (unat c) (b # bs) attr t = t" by (intro tt_text_none) simp
    then show ?thesis using False Cons.prems cols by (simp add: word_less_nat_alt)
  qed
qed

definition tt_pad :: "nat \<Rightarrow> nat \<Rightarrow> nat \<Rightarrow> tty \<Rightarrow> tty" where
  "tt_pad cols r c t = t\<lparr>tt_cells := (tt_cells t)(r := \<lambda>x. if c \<le> x \<and> x < cols then blank else tt_cells t r x)\<rparr>"

lemma pad_row_ready:
  assumes "ready rows cols s t" "unat r < rows"
  shows "ready rows cols (pad_row r c s) (tt_pad cols (unat r) (unat c) t)"
proof -
  have cols: "ncols s = cols" using assms by (simp add: ready_def)
  have "ready rows cols (fold (\<lambda>c. SetCell r (of_nat c) 0x20 7) [unat c..<n] s) (tt_pad n (unat r) (unat c) t)" if "n \<le> cols" for n
    using that
  proof (induction n)
    case 0
    have "tt_pad 0 (unat r) (unat c) t = t" by (auto simp: tt_pad_def fun_eq_iff intro!: tty.equality)
    then show ?case using assms(1) by simp
  next
    case (Suc n)
    show ?case
    proof (cases "unat c \<le> n")
      case True
      have n: "unat (of_nat n :: u32) = n" using Suc.prems cols by (intro small_col [of n s]) simp
      have "ready rows cols (SetCell r (of_nat n) 0x20 7 (fold (\<lambda>c. SetCell r (of_nat c) 0x20 7) [unat c..<n] s))
         (tt_set (unat r) n blank (tt_pad n (unat r) (unat c) t))"
        using SetCell_ready [OF Suc.IH assms(2), of "of_nat n" "0x20" 7] Suc.prems by (simp add: n blank_def)
      moreover have "tt_set (unat r) n blank (tt_pad n (unat r) (unat c) t) = tt_pad (Suc n) (unat r) (unat c) t"
        using True by (auto simp: tt_set_def tt_pad_def fun_eq_iff less_Suc_eq intro!: tty.equality)
      ultimately show ?thesis using True by simp
    next
      case False
      then have "tt_pad (Suc n) (unat r) (unat c) t = t" by (auto simp: tt_pad_def fun_eq_iff intro!: tty.equality)
      then show ?thesis using False assms(1) by simp
    qed
  qed
  from this [of cols] show ?thesis by (simp add: pad_row_def cols)
qed

lemma ready_row_ready: "console_ok s \<Longrightarrow> ready (nrows s) (ncols s) (ready_row s) (tty_of s)"
proof -
  assume c: "console_ok s"
  note R = EraseCursor_ready [OF c]
  note f = ready_facts [OF R]
  have "1 \<le> unat (s_row (EraseCursor s))" "unat (s_row (EraseCursor s)) \<le> unat (max_row (EraseCursor s))"
    using R f by (simp_all add: ready_def)
  then have "ready_row s = EraseCursor s" by (simp add: ready_row_def Let_def word_less_nat_alt not_less)
  then show ?thesis using R by simp
qed

lemma down_ready:
  assumes "ready rows cols s t"
  shows "ready rows cols ((if s_row (down s) > max_row s then Scroll (down s) else down s)\<lparr>s_col := 0\<rparr>) (tt_newline rows cols t)"
proof -
  note f = ready_facts [OF assms]
  have r: "unat (s_row s + 1) = unat (s_row s) + 1" using u32_add [of "s_row s" 1] f(1) u32_lt [of "s_rows s"] by (simp add: word_less_nat_alt)
  have gt: "s_row (down s) > max_row s \<longleftrightarrow> rows - 2 < unat (s_row s) + 1" by (simp add: down_def word_less_nat_alt r f(4))
  have ok: "surface_ok (down s)" and m: "max_row (down s) = max_row s" using f(3) by (simp_all add: down_def)
  show ?thesis
  proof (cases "rows - 2 < unat (s_row s) + 1")
    case True
    then show ?thesis using assms f Scroll_clean [OF ok] by (auto simp: gt ready_def tt_newline_def tty_of_def m) (auto simp: down_def)
  next
    case False
    then show ?thesis using assms f unfolding gt by (auto simp: ready_def tt_newline_def tty_of_def down_def r)
  qed
qed

text \<open>A line of a user program.  PrintUser writes an ordinary line - not empty, not the
  prompt and not a memory line - into the row of the cursor from column 0 on, in the colour its text
  asks for, cut at the right edge and filled up with blanks, and goes to the next row, scrolling at the
  last one; the screen shows exactly that.\<close>
theorem user_line_printed:
  assumes "console_ok s" "content buf \<noteq> []" "content buf \<noteq> bytes_of ''> ''" "\<not> text_start ''Memory:'' (content buf)"
  defines "bs \<equiv> content buf"
  shows "console_ok (PrintUser buf s) \<and> tty_of (PrintUser buf s) = tt_newline (nrows s) (ncols s)
      (let r = tt_row (tty_of s) in tt_pad (ncols s) r (min (ncols s) (length bs)) (tt_text (ncols s) r 0 bs (ContentColor bs) (tty_of s)))"
proof -
  define u t rows cols where "u = ready_row s" and "t = tty_of s" and "rows = nrows s" and "cols = ncols s"
  have R: "ready rows cols u t" using ready_row_ready [OF assms(1)] by (simp add: u_def t_def rows_def cols_def)
  note f = ready_facts [OF R]
  define a where "a = text_at (s_row u) 0 bs (ContentColor bs) u"
  have row: "unat (s_row u) < rows" using R f(5) by (auto simp: ready_def)
  have A: "ready rows cols (snd a) (tt_text cols (tt_row t) 0 bs (ContentColor bs) t)" "unat (fst a) = min cols (length bs)"
    using text_at_ready [OF R row, of 0 bs "ContentColor bs"] by (simp_all add: a_def f)
  have ar: "s_row (snd a) = s_row u" using A(1) f(5) ready_facts(5) [OF A(1)] by (simp add: tt_text_def word_unat_eq_iff)
  define p where "p = pad_row (s_row u) (fst a) (snd a)"
  have P: "ready rows cols p (tt_pad cols (tt_row t) (min cols (length bs)) (tt_text cols (tt_row t) 0 bs (ContentColor bs) t))"
    using pad_row_ready [OF A(1), of "s_row u" "fst a"] row by (simp add: p_def A(2) f)
  have mx: "max_row p = max_row u" using ready_facts(4) [OF P] f(4) by (simp add: word_unat_eq_iff)
  note N = down_ready [OF P, unfolded mx]
  have "PrintUser buf s = DrawCursorShape ((if s_row (down p) > max_row u then Scroll (down p) else down p)\<lparr>s_col := 0\<rparr>)"
    using assms(2-4) by (simp add: PrintUser_def u_def [symmetric] bs_def [symmetric] TryDrawMemBar_def print_line_def Let_def
      a_def [symmetric] case_prod_beta p_def [symmetric] ar)
  then show "console_ok (PrintUser buf s) \<and> tty_of (PrintUser buf s) = tt_newline (nrows s) (ncols s)
      (let r = tt_row (tty_of s) in tt_pad (ncols s) r (min (ncols s) (length bs)) (tt_text (ncols s) r 0 bs (ContentColor bs) (tty_of s)))"
    using DrawCursorShape_ready [OF N] by (simp_all add: t_def rows_def cols_def Let_def)
qed


lemma user_line_printed_witness:
  "console_ok (PrintUser (bytes_of ''OK'' @ [13, 10]) (VGA_Init vga_demo))
   \<and> tt_cells (tty_of (PrintUser (bytes_of ''OK'' @ [13, 10]) (VGA_Init vga_demo))) 1 1 = blank"
proof -
  have I: "console_ok (VGA_Init vga_demo)" "s_row (VGA_Init vga_demo) = 1" "s_col (VGA_Init vga_demo) = 0"
    "s_rows (VGA_Init vga_demo) = clip_rows 48" "s_cols (VGA_Init vga_demo) = clip_cols 64"
    using VGA_Init_console [of vga_demo] by (simp_all add: fb_ok_def vga_demo_def)
  have rc: "nrows (VGA_Init vga_demo) = 3" "ncols (VGA_Init vga_demo) = 8" by (simp_all add: I clip_unat)
  let ?b = "bytes_of ''OK'' @ [13, 10]"
  have c: "content ?b = bytes_of ''OK''" by (simp add: content_def chr8_def)
  have h: "content ?b \<noteq> []" "content ?b \<noteq> bytes_of ''> ''" "\<not> text_start ''Memory:'' (content ?b)"
    unfolding c by (simp_all add: chr8_def text_start_def)
  show ?thesis using user_line_printed [OF I(1) h] rc I(2,3)
    unfolding c by (simp add: tt_newline_def tt_text_def tt_pad_def tty_of_def scrolled_def)
qed

section \<open>The uptime\<close>

lemma sixteen: "replicate 16 x = [x, x, x, x, x, x, x, x, x, x, x, x, x, x, x, x]" by (simp add: eval_nat_numeral)

text \<open>From 100 hours on the third digit is overwritten by the colon: the bar shows 10 hours.\<close>
lemma uptime_hours_cut: "take 12 (uptime (100 * 360000)) = bytes_of ''Up: 10:00:00''"
  by (simp add: uptime_def FmtU64_def itoa_def digits_rev.simps chr8_def sixteen)

lemma uptime_shown: "take 12 (uptime (99 * 360000 + 59 * 6000 + 7 * 100)) = bytes_of ''Up: 99:59:07''"
  by (simp add: uptime_def FmtU64_def itoa_def digits_rev.simps chr8_def sixteen)

end
