(* ===== verification/Interrupts.thy ===== *)
theory Interrupts
  imports Mouse Keyboard SysQuery ConsoleRefine
begin

text \<open>Interrupts and protection: the descriptor tables of kernel/hal/x64/gdt.cpp and idt.cpp, the interrupt controller of pic.cpp,
  the table of handlers of irq.cpp, the dispatch of exceptions and interrupts, and the registers that SYSCALL::Init of
  kernel/syscall/syscall.cpp sets.  How the processor reads a descriptor is written as decoding functions; port access is a
  parameter as in Mouse.  Diagnostic output and spinlocks are left out.\<close>

section \<open>Segment descriptors\<close>

record GdtEntry =
  LimitLow :: u16
  BaseLow :: u16
  BaseMiddle :: u8
  Access :: u8
  Granularity :: u8
  BaseHigh :: u8

record GdtEntry16 =
  Low :: GdtEntry
  BaseUpper :: u32
  TssReserved :: u32

record Tss64 =
  Rsp0 :: u64
  IoMapBase :: u16

record DescPointer =
  dp_Limit :: u16
  dp_Base :: u64

text \<open>The packed table, the task state, what the assembly entry reads, and the operand of lgdt.\<close>
record gdt =
  gdt_entries :: "GdtEntry list"
  tss_desc :: GdtEntry16
  s_tss :: Tss64
  g_kernel_rsp0 :: u64
  s_gdt_ptr :: DescPointer

definition SIZEOF_TSS64 :: u64 where "SIZEOF_TSS64 = 104"
definition SIZEOF_GDT_TABLE :: u64 where "SIZEOF_GDT_TABLE = 56"
definition KERNEL_STACK_BYTES :: u64 where "KERNEL_STACK_BYTES = 16384"

definition SetEntry :: "u32 \<Rightarrow> u32 \<Rightarrow> u8 \<Rightarrow> u8 \<Rightarrow> GdtEntry" where
  "SetEntry base limit access granularity =
    \<lparr>LimitLow = ucast (limit AND 0xFFFF), BaseLow = ucast (base AND 0xFFFF), BaseMiddle = ucast (drop_bit 16 base AND 0xFF),
     Access = access, Granularity = ucast (drop_bit 16 limit AND 0x0F) OR (granularity AND 0xF0), BaseHigh = ucast (drop_bit 24 base AND 0xFF)\<rparr>"

definition tss_descriptor :: "u64 \<Rightarrow> GdtEntry16" where
  "tss_descriptor tss_base =
    (let tss_size = ucast (SIZEOF_TSS64 - 1) :: u32
     in \<lparr>Low = \<lparr>LimitLow = ucast (tss_size AND 0xFFFF), BaseLow = ucast (tss_base AND 0xFFFF), BaseMiddle = ucast (drop_bit 16 tss_base AND 0xFF),
            Access = 0x89, Granularity = ucast (drop_bit 16 tss_size AND 0x0F), BaseHigh = ucast (drop_bit 24 tss_base AND 0xFF)\<rparr>,
         BaseUpper = ucast (drop_bit 32 tss_base AND 0xFFFFFFFF), TssReserved = 0\<rparr>)"

text \<open>The addresses are those of s\_tss, the end of s\_kernel\_stack and s\_gdt\_table.\<close>
definition GdtInit :: "u64 \<Rightarrow> u64 \<Rightarrow> u64 \<Rightarrow> gdt" where
  "GdtInit tss stack table =
    (let rsp0 = stack + KERNEL_STACK_BYTES
     in \<lparr>gdt_entries = [SetEntry 0 0 0 0, SetEntry 0 0xFFFFF 0x9A 0xAF, SetEntry 0 0xFFFFF 0x92 0xAF, SetEntry 0 0xFFFFF 0xF2 0xAF,
            SetEntry 0 0xFFFFF 0xFA 0xAF],
         tss_desc = tss_descriptor tss, s_tss = \<lparr>Rsp0 = rsp0, IoMapBase = ucast SIZEOF_TSS64\<rparr>, g_kernel_rsp0 = rsp0,
         s_gdt_ptr = \<lparr>dp_Limit = ucast (SIZEOF_GDT_TABLE - 1), dp_Base = table\<rparr>\<rparr>)"

definition SetTSSRsp0 :: "u64 \<Rightarrow> gdt \<Rightarrow> gdt" where
  "SetTSSRsp0 rsp0 g = g\<lparr>s_tss := (s_tss g)\<lparr>Rsp0 := rsp0\<rparr>, g_kernel_rsp0 := rsp0\<rparr>"

text \<open>What the processor reads from a descriptor.\<close>
definition desc_base :: "GdtEntry \<Rightarrow> u32" where
  "desc_base e = push_bit 24 (ucast (BaseHigh e)) OR push_bit 16 (ucast (BaseMiddle e)) OR ucast (BaseLow e)"
definition desc_limit :: "GdtEntry \<Rightarrow> u32" where
  "desc_limit e = push_bit 16 (ucast (Granularity e AND 0x0F)) OR ucast (LimitLow e)"
definition desc_dpl :: "GdtEntry \<Rightarrow> u8" where "desc_dpl e = drop_bit 5 (Access e) AND 3"
definition desc_present :: "GdtEntry \<Rightarrow> bool" where "desc_present e \<longleftrightarrow> bit (Access e) 7"
definition desc_code :: "GdtEntry \<Rightarrow> bool" where "desc_code e \<longleftrightarrow> bit (Access e) 4 \<and> bit (Access e) 3"
definition desc_data :: "GdtEntry \<Rightarrow> bool" where "desc_data e \<longleftrightarrow> bit (Access e) 4 \<and> \<not> bit (Access e) 3 \<and> bit (Access e) 1"
definition desc_long :: "GdtEntry \<Rightarrow> bool" where "desc_long e \<longleftrightarrow> bit (Granularity e) 5"
definition tss_base :: "GdtEntry16 \<Rightarrow> u64" where "tss_base d = push_bit 32 (ucast (BaseUpper d)) OR ucast (desc_base (Low d))"

text \<open>The entry that a selector names, below the task descriptor.\<close>
definition gdt_sel :: "u64 \<Rightarrow> gdt \<Rightarrow> GdtEntry" where "gdt_sel sel g = gdt_entries g ! (unat sel div 8)"

section \<open>Model-specific registers of SYSCALL\<close>

definition MSR_EFER :: u32 where "MSR_EFER = 0xC0000080"
definition MSR_STAR :: u32 where "MSR_STAR = 0xC0000081"
definition MSR_LSTAR :: u32 where "MSR_LSTAR = 0xC0000082"
definition MSR_SFMASK :: u32 where "MSR_SFMASK = 0xC0000084"

definition SYSCALL_Init :: "u64 \<Rightarrow> (u32 \<Rightarrow> u64) \<Rightarrow> (u32 \<Rightarrow> u64)" where
  "SYSCALL_Init syscall_entry m =
    (let m = m(MSR_EFER := m MSR_EFER OR 1);
         m = m(MSR_STAR := push_bit 48 0x10 OR push_bit 32 0x08);
         m = m(MSR_LSTAR := syscall_entry)
     in m(MSR_SFMASK := push_bit 9 1 OR push_bit 8 1 OR push_bit 10 1))"

text \<open>The selectors that SYSCALL and SYSRET load.\<close>
definition syscall_cs :: "(u32 \<Rightarrow> u64) \<Rightarrow> u64" where "syscall_cs m = drop_bit 32 (m MSR_STAR) AND 0xFFFC"
definition syscall_ss :: "(u32 \<Rightarrow> u64) \<Rightarrow> u64" where "syscall_ss m = (drop_bit 32 (m MSR_STAR) AND 0xFFFF) + 8"
definition sysret_cs :: "(u32 \<Rightarrow> u64) \<Rightarrow> u64" where "sysret_cs m = ((drop_bit 48 (m MSR_STAR) AND 0xFFFF) + 16) OR 3"
definition sysret_ss :: "(u32 \<Rightarrow> u64) \<Rightarrow> u64" where "sysret_ss m = ((drop_bit 48 (m MSR_STAR) AND 0xFFFF) + 8) OR 3"

section \<open>Interrupt gates\<close>

record IdtEntry =
  OffsetLow :: u16
  Selector :: u16
  Ist :: u8
  TypeAttr :: u8
  OffsetMiddle :: u16
  OffsetHigh :: u32
  IdtReserved :: u32

definition SetGate :: "u8 \<Rightarrow> u64 \<Rightarrow> u8 \<Rightarrow> (u8 \<Rightarrow> IdtEntry) \<Rightarrow> (u8 \<Rightarrow> IdtEntry)" where
  "SetGate n addr type_attr idt =
    idt(n := \<lparr>OffsetLow = ucast (addr AND 0xFFFF), Selector = 0x08, Ist = 0, TypeAttr = type_attr,
      OffsetMiddle = ucast (drop_bit 16 addr AND 0xFFFF), OffsetHigh = ucast (drop_bit 32 addr AND 0xFFFFFFFF), IdtReserved = 0\<rparr>)"

definition INT_GATE :: u8 where "INT_GATE = 0x8E"

text \<open>The 48 stubs are assembly.\<close>
definition IdtInit :: "u64 list \<Rightarrow> u64 \<Rightarrow> (u8 \<Rightarrow> IdtEntry) \<Rightarrow> (u8 \<Rightarrow> IdtEntry) \<times> DescPointer" where
  "IdtInit s_isrs table idt =
    (fold (\<lambda>i. SetGate (of_nat i) (s_isrs ! i) INT_GATE) [0..<48] idt, \<lparr>dp_Limit = 256 * 16 - 1, dp_Base = table\<rparr>)"

definition gate_offset :: "IdtEntry \<Rightarrow> u64" where
  "gate_offset e = push_bit 32 (ucast (OffsetHigh e)) OR push_bit 16 (ucast (OffsetMiddle e)) OR ucast (OffsetLow e)"
definition gate_dpl :: "IdtEntry \<Rightarrow> u8" where "gate_dpl e = drop_bit 5 (TypeAttr e) AND 3"

section \<open>The interrupt controller\<close>

definition PIC1_CMD :: u16 where "PIC1_CMD = 0x20"
definition PIC1_DATA :: u16 where "PIC1_DATA = 0x21"
definition PIC2_CMD :: u16 where "PIC2_CMD = 0xA0"
definition PIC2_DATA :: u16 where "PIC2_DATA = 0xA1"
definition ICW1_ICW4 :: u8 where "ICW1_ICW4 = 0x01"
definition ICW1_INIT :: u8 where "ICW1_INIT = 0x10"
definition ICW4_8086 :: u8 where "ICW4_8086 = 0x01"
definition IRQ0_VECTOR :: u8 where "IRQ0_VECTOR = 0x20"
definition IRQ8_VECTOR :: u8 where "IRQ8_VECTOR = 0x28"

definition IoWait :: "'h outb \<Rightarrow> 'h \<Rightarrow> 'h" where "IoWait outb = outb 0x80 0"

definition PicInit :: "'h outb \<Rightarrow> 'h \<Rightarrow> 'h" where
  "PicInit outb h =
    (let h = IoWait outb (outb PIC1_CMD (ICW1_INIT OR ICW1_ICW4) h);
         h = IoWait outb (outb PIC2_CMD (ICW1_INIT OR ICW1_ICW4) h);
         h = IoWait outb (outb PIC1_DATA IRQ0_VECTOR h);
         h = IoWait outb (outb PIC2_DATA IRQ8_VECTOR h);
         h = IoWait outb (outb PIC1_DATA 0x04 h);
         h = IoWait outb (outb PIC2_DATA 0x02 h);
         h = IoWait outb (outb PIC1_DATA ICW4_8086 h);
         h = IoWait outb (outb PIC2_DATA ICW4_8086 h);
         h = outb PIC1_DATA 0xFB h
     in outb PIC2_DATA 0xFF h)"

definition PicSendEoi :: "'h outb \<Rightarrow> u8 \<Rightarrow> 'h \<Rightarrow> 'h" where
  "PicSendEoi outb irq h = outb PIC1_CMD 0x20 (if irq \<ge> 8 then outb PIC2_CMD 0x20 h else h)"

definition PicSetMask :: "'h inb \<Rightarrow> 'h outb \<Rightarrow> u8 \<Rightarrow> bool \<Rightarrow> 'h \<Rightarrow> 'h" where
  "PicSetMask inb outb irq masked h =
    (let port = (if irq < 8 then PIC1_DATA else PIC2_DATA);
         b = push_bit (unat (irq AND 7)) 1;
         (val, h) = inb port h
     in outb port (if masked then val OR b else val AND NOT b) h)"

section \<open>Interrupt lines and exceptions\<close>

text \<open>What the interrupt handlers work on: processes and memory, the flag of a delivered fault, the screen, the drivers, and the devices.\<close>
record 'h kmachine =
  km_ps :: psys
  g_seh_delivered :: u32
  km_vga :: vga
  km_kbd :: kbd
  km_mouse :: mouse
  km_kuser :: u64
  km_hz :: u32
  km_dev :: 'h

text \<open>A handler; None is not returning.\<close>
type_synonym 'h handler = "u8 \<Rightarrow> 'h kmachine \<Rightarrow> 'h kmachine option"

text \<open>s\_handlers: a null entry is None.\<close>
type_synonym 'h irq_table = "'h handler option list"

definition IRQ_LINES :: nat where "IRQ_LINES = 16"

text \<open>It only logs.\<close>
definition DefaultHandler :: "'h handler" where "DefaultHandler irq m = Some m"

definition IrqInit :: "'h irq_table \<Rightarrow> 'h irq_table" where
  "IrqInit tab = fold (\<lambda>i tab. tab[i := Some DefaultHandler]) [0..<16] tab"

definition IrqRegister :: "u8 \<Rightarrow> 'h handler option \<Rightarrow> 'h irq_table \<Rightarrow> 'h irq_table" where
  "IrqRegister irq handler tab =
    (if irq \<ge> 16 then tab else tab[unat irq := Some (case handler of Some f \<Rightarrow> f | None \<Rightarrow> DefaultHandler)])"

definition IrqUnregister :: "u8 \<Rightarrow> 'h irq_table \<Rightarrow> 'h irq_table" where
  "IrqUnregister irq tab = (if irq \<ge> 16 then tab else tab[unat irq := Some DefaultHandler])"

text \<open>The end of interrupt is sent before the handler runs; calling a null entry does not return.\<close>
definition IrqDispatch :: "'h outb \<Rightarrow> 'h irq_table \<Rightarrow> u8 \<Rightarrow> 'h kmachine \<Rightarrow> 'h kmachine option" where
  "IrqDispatch outb tab irq m =
    (if irq \<ge> 16 then Some m else
     let m = m\<lparr>km_dev := PicSendEoi outb irq (km_dev m)\<rparr>
     in case tab ! unat irq of None \<Rightarrow> None | Some f \<Rightarrow> f irq m)"

definition ExceptionName :: "u64 \<Rightarrow> string" where
  "ExceptionName v =
    (if v < 20 then
       [''Divide Error'', ''Debug'', ''NMI'', ''Breakpoint'', ''Overflow'', ''Bound Range'', ''Invalid Opcode'', ''No Math Coprocessor'',
        ''Double Fault'', ''Coprocessor Segment'', ''Invalid TSS'', ''Segment Not Present'', ''Stack Fault'', ''General Protection'',
        ''Page Fault'', ''Reserved'', ''Math Fault'', ''Alignment Check'', ''Machine Check'', ''SIMD FP''] ! unat v
     else ''Exception'')"

definition ExceptionStatus :: "u64 \<Rightarrow> u64" where
  "ExceptionStatus vec =
    (if vec = 0 then 0xC0000094 else if vec = 6 then 0xC000001D else if vec = 13 then 0xC0000005 else if vec = 14 then 0xC0000005
     else 0xC0000096)"

text \<open>What the stubs of interrupts.asm push.\<close>
record InterruptFrame =
  fr_r15 :: u64
  fr_r14 :: u64
  fr_r13 :: u64
  fr_r12 :: u64
  fr_r11 :: u64
  fr_r10 :: u64
  fr_r9 :: u64
  fr_r8 :: u64
  fr_rbp :: u64
  fr_rsi :: u64
  fr_rdi :: u64
  fr_rdx :: u64
  fr_rcx :: u64
  fr_rbx :: u64
  fr_rax :: u64
  Vector :: u64
  ErrorCode :: u64
  Rip :: u64
  Cs :: u64
  Rflags :: u64
  Rsp :: u64
  Ss :: u64

definition DeliverUserException :: "InterruptFrame \<Rightarrow> u64 \<Rightarrow> 'h kmachine \<Rightarrow> (InterruptFrame \<times> 'h kmachine) option" where
  "DeliverUserException frame code m =
    (if Cs frame AND 3 \<noteq> 3 then None else
     case CurrentThread (p_sys (km_ps m)) of None \<Rightarrow> None
     | Some t \<Rightarrow>
       if ExceptionHandler (the_thr (km_ps m) t) = 0 then None else
       let handler = ExceptionHandler (the_thr (km_ps m) t);
           m = m\<lparr>km_ps := set_thr t (\<lambda>k. k\<lparr>ExceptionHandler := 0\<rparr>) (km_ps m)\<rparr>;
           frame = frame\<lparr>fr_rdi := code\<rparr>;
           frame = frame\<lparr>fr_rsi := Rip frame\<rparr>;
           frame = frame\<lparr>Rip := handler\<rparr>
       in Some (frame, m\<lparr>g_seh_delivered := 1\<rparr>))"

text \<open>Return to the interrupted code, a stop by KernelPanic, or a handler that does not return.\<close>
datatype 'h after = Resume InterruptFrame "'h kmachine" | Panic | Hang

definition InterruptDispatch :: "'h outb \<Rightarrow> 'h irq_table \<Rightarrow> u64 \<Rightarrow> InterruptFrame \<Rightarrow> 'h kmachine \<Rightarrow> 'h after" where
  "InterruptDispatch outb tab cr2 frame m =
    (let vec = Vector frame in
     if vec < 32 then
       (if vec = 14 then
          if HandlePageFault cr2 (ucast (ErrorCode frame)) then Resume frame m else
          case DeliverUserException frame (ExceptionStatus vec) m of Some (frame, m) \<Rightarrow> Resume frame m | None \<Rightarrow> Panic
        else
          case DeliverUserException frame (ExceptionStatus vec) m of Some (frame, m) \<Rightarrow> Resume frame m | None \<Rightarrow> Panic)
     else if vec < 48 then
       (case IrqDispatch outb tab (ucast (vec - 32)) m of Some m \<Rightarrow> Resume frame m | None \<Rightarrow> Hang)
     else Resume frame m)"

text \<open>The handlers of lines 1 and 12 read their ports; the mouse reads its data only when the status has bit 0 set.\<close>
definition KB_Handler :: "'h inb \<Rightarrow> 'h handler" where
  "KB_Handler inb irq m =
    (let (sc, h) = inb 0x60 (km_dev m) in Some (m\<lparr>km_kbd := KB_HandleIrq sc (km_kbd m), km_dev := h\<rparr>))"

definition screen_of :: "vga \<Rightarrow> (u32 \<times> u32) option" where
  "screen_of s = (if s_fb s then Some (s_fb_w s, s_fb_h s) else None)"

definition Mouse_Handler :: "'h inb \<Rightarrow> 'h handler" where
  "Mouse_Handler inb irq m =
    (let (status, h) = inb PS2_STATUS (km_dev m);
         (data, h) = (if status AND 0x01 = 0 then (0, h) else inb PS2_DATA h)
     in Some (m\<lparr>km_mouse := Mouse_HandleIrq status data (screen_of (km_vga m)) (km_mouse m), km_dev := h\<rparr>))"

section \<open>Descriptors and gates read back\<close>

lemma ucast_and_mask_join:
  "push_bit 32 (ucast (ucast (drop_bit 32 a AND 0xFFFFFFFF :: u64) :: u32)) OR push_bit 16 (ucast (ucast (drop_bit 16 a AND 0xFFFF) :: u16))
    OR ucast (ucast (a AND 0xFFFF) :: u16) = (a :: u64)"
proof -
  have M: "(0xFFFFFFFF :: u64) = mask 32" "(0xFFFF :: u64) = mask 16" by (simp_all add: mask_eq_exp_minus_1)
  show ?thesis unfolding M
    by (rule bit_word_eqI, case_tac "n < 32") (auto simp: bit_or_iff bit_push_bit_iff bit_ucast_iff bit_drop_bit_eq bit_and_iff bit_mask_iff)
qed

lemma gate_offset_SetGate: "gate_offset (SetGate n a ta idt n) = a" "gate_dpl (SetGate n a ta idt n) = drop_bit 5 ta AND 3"
  "Selector (SetGate n a ta idt n) = 8"
  using ucast_and_mask_join [of a] by (simp_all add: gate_offset_def gate_dpl_def SetGate_def)

lemma fold_SetGate:
  "fold (\<lambda>i. SetGate (of_nat i) (isrs ! i) ta) [0..<n] idt v = (if unat v < n then SetGate v (isrs ! unat v) ta idt v else idt v)" if "n \<le> 256"
  using that
proof (induction n)
  case (Suc n)
  have u: "unat (of_nat n :: u8) = n" using Suc.prems by (simp add: unat_of_nat)
  have e: "v = of_nat n \<longleftrightarrow> unat v = n" by (simp only: word_unat_eq_iff u)
  have s: "SetGate (of_nat n) a ta f v = (if v = of_nat n then SetGate v a ta g v else f v)" for a f g by (simp add: SetGate_def)
  show ?case using Suc e by (auto simp: s [where g = idt] less_Suc_eq)
qed simp

lemma IdtInit_gate:
  assumes "unat v < 48"
  shows "gate_offset (fst (IdtInit isrs base idt) v) = isrs ! unat v" "gate_dpl (fst (IdtInit isrs base idt) v) = 0"
    "Selector (fst (IdtInit isrs base idt) v) = 8"
  using assms gate_offset_SetGate [of v "isrs ! unat v" INT_GATE idt] by (simp_all add: IdtInit_def fold_SetGate INT_GATE_def)

lemma SetEntry_read:
  "desc_base (SetEntry b l a g) = b" "l < 2 ^ 20 \<Longrightarrow> desc_limit (SetEntry b l a g) = l" "Access (SetEntry b l a g) = a"
proof -
  have M: "(0xFFFF :: u32) = mask 16" "(0xFF :: u32) = mask 8" "(0x0F :: u32) = mask 4" "(0x0F :: u8) = mask 4" "(0xF0 :: u8) = NOT (mask 4)"
    by (simp_all add: mask_eq_exp_minus_1)
  show "desc_base (SetEntry b l a g) = b" unfolding desc_base_def SetEntry_def GdtEntry.simps M
    by (rule bit_word_eqI, case_tac "n < 16", simp_all add: bit_or_iff bit_push_bit_iff bit_ucast_iff bit_drop_bit_eq bit_and_iff bit_mask_iff)
       (case_tac "n < 24", auto)
  assume "l < 2 ^ 20"
  then have "take_bit 20 (unat l) = unat l" by (simp add: take_bit_nat_eq_self word_less_nat_alt)
  then have "take_bit 20 l = l" by (simp add: word_unat_eq_iff unsigned_take_bit_eq)
  then have h: "bit l n \<Longrightarrow> n < 20" for n by (metis bit_take_bit_iff)
  show "desc_limit (SetEntry b l a g) = l" unfolding desc_limit_def SetEntry_def GdtEntry.simps M
    by (rule bit_word_eqI, case_tac "n < 16")
       (auto simp: bit_or_iff bit_push_bit_iff bit_ucast_iff bit_drop_bit_eq bit_and_iff bit_mask_iff bit_not_iff dest: h)
qed (simp add: SetEntry_def)

lemma tss_descriptor_base: "tss_base (tss_descriptor a) = a"
proof -
  have M: "(0xFFFFFFFF :: u64) = mask 32" "(0xFFFF :: u64) = mask 16" "(0xFF :: u64) = mask 8" by (simp_all add: mask_eq_exp_minus_1)
  show ?thesis unfolding tss_base_def tss_descriptor_def desc_base_def Let_def GdtEntry.simps GdtEntry16.simps M
    by (rule bit_word_eqI, case_tac "n < 16", simp_all add: bit_or_iff bit_push_bit_iff bit_ucast_iff bit_drop_bit_eq bit_and_iff bit_mask_iff)
       (case_tac "n < 24"; case_tac "n < 32"; auto)
qed

lemma PicSetMask_bit:
  assumes "n < 8"
  shows "bit (if masked then val OR push_bit (unat (irq AND 7 :: u8)) 1 else val AND NOT (push_bit (unat (irq AND 7)) 1) :: u8) n
    = (if n = unat irq mod 8 then masked else bit val n)"
proof -
  have M: "(7 :: u8) = mask 3" by (simp add: mask_eq_exp_minus_1)
  have "unat (irq AND 7 :: u8) = unat irq mod 8" unfolding M take_bit_eq_mask [symmetric] unsigned_take_bit_eq by (simp add: take_bit_nat_def)
  then show ?thesis using assms by (auto simp: bit_or_iff bit_and_iff bit_not_iff bit_push_bit_iff bit_exp_iff)
qed

section \<open>Handlers and lines\<close>

lemma fold_fill:
  "length (fold (\<lambda>i tab. tab[i := x]) [0..<n] tab) = length tab"
  "i < length tab \<Longrightarrow> fold (\<lambda>i tab. tab[i := x]) [0..<n] tab ! i = (if i < n then x else tab ! i)"
proof (induction n)
  case (Suc n)
  show l: "length (fold (\<lambda>i tab. tab[i := x]) [0..<Suc n] tab) = length tab" using Suc(1) by simp
  show "i < length tab \<Longrightarrow> fold (\<lambda>i tab. tab[i := x]) [0..<Suc n] tab ! i = (if i < Suc n then x else tab ! i)"
    using Suc by (auto simp: nth_list_update less_Suc_eq)
qed simp_all

text \<open>A table without null entries whose handlers return.\<close>
definition irq_ok :: "'h irq_table \<Rightarrow> bool" where
  "irq_ok tab \<longleftrightarrow> length tab = 16 \<and> (\<forall>i<16. \<exists>f. tab ! i = Some f \<and> (\<forall>irq m. f irq m \<noteq> None))"

lemma IrqInit_ok: "length tab = 16 \<Longrightarrow> irq_ok (IrqInit tab)"
  unfolding irq_ok_def IrqInit_def using fold_fill [where x = "Some DefaultHandler" and n = 16 and tab = tab] by (simp add: DefaultHandler_def)

lemma irq_ok_update: "irq_ok tab \<Longrightarrow> (\<And>irq m. f irq m \<noteq> None) \<Longrightarrow> irq_ok (tab[i := Some f])"
  unfolding irq_ok_def by (elim conjE, intro conjI allI impI, simp, case_tac "ia = i") auto

lemma IrqRegister_ok: "irq_ok tab \<Longrightarrow> (\<And>g irq m. f = Some g \<Longrightarrow> g irq m \<noteq> None) \<Longrightarrow> irq_ok (IrqRegister irq f tab)"
  unfolding IrqRegister_def by (cases f) (auto simp: DefaultHandler_def intro: irq_ok_update)

lemma IrqUnregister_ok: "irq_ok tab \<Longrightarrow> irq_ok (IrqUnregister irq tab)"
  unfolding IrqUnregister_def by (auto simp: DefaultHandler_def intro: irq_ok_update)

lemma interrupt_returns:
  assumes "irq_ok tab" "32 \<le> Vector f"
  shows "\<exists>m'. InterruptDispatch outb tab cr2 f m = Resume f m'"
proof -
  have l: "\<not> Vector f < 32" using assms(2) by simp
  have "\<exists>m'. IrqDispatch outb tab irq m = Some m'" for irq
    using assms(1) by (auto simp: irq_ok_def IrqDispatch_def Let_def word_le_nat_alt not_le split: option.splits)
  then show ?thesis unfolding InterruptDispatch_def Let_def if_not_P [OF l] by (metis option.simps(5))
qed

text \<open>A selector of privilege dpl that the processor accepts for a flat segment: it lies inside the table whose limit lgdt was
  given, its requested privilege and the one of its descriptor are dpl, the descriptor is present, starts at 0 and covers
  0xFFFFF pages, and it is 64-bit code or writable data.\<close>
definition flat_segment :: "bool \<Rightarrow> u8 \<Rightarrow> u64 \<Rightarrow> gdt \<Rightarrow> bool" where
  "flat_segment code dpl sel g \<longleftrightarrow>
    (let e = gdt_sel sel g in
     sel AND 3 = ucast dpl \<and> 0 < unat sel div 8 \<and> unat sel div 8 < length (gdt_entries g)
     \<and> 8 * (unat sel div 8) + 7 \<le> unat (dp_Limit (s_gdt_ptr g))
     \<and> desc_present e \<and> desc_dpl e = dpl \<and> desc_base e = 0 \<and> desc_limit e = 0xFFFFF \<and> bit (Granularity e) 7
     \<and> (if code then desc_code e \<and> desc_long e \<and> \<not> bit (Granularity e) 6 else desc_data e))"

text \<open>A task descriptor, at selector 0x28, that ltr accepts for a task state of 104 bytes.\<close>
definition task_segment :: "u64 \<Rightarrow> gdt \<Rightarrow> bool" where
  "task_segment tss g \<longleftrightarrow>
    (let d = tss_desc g in
     tss_base d = tss \<and> desc_limit (Low d) = 103 \<and> \<not> bit (Granularity (Low d)) 7 \<and> desc_present (Low d)
     \<and> desc_dpl (Low d) = 0 \<and> Access (Low d) AND 0x1F = 9 \<and> TssReserved d = 0
     \<and> 8 * length (gdt_entries g) = 0x28 \<and> 0x28 + 15 \<le> unat (dp_Limit (s_gdt_ptr g)))"

text \<open>An interrupt gate that enters handler at privilege 0 through a selector, without a stack of its own.\<close>
definition int_gate :: "u64 \<Rightarrow> IdtEntry \<Rightarrow> bool" where
  "int_gate handler e \<longleftrightarrow> gate_offset e = handler \<and> bit (TypeAttr e) 7 \<and> TypeAttr e AND 0x1F = 0x0E \<and> gate_dpl e = 0
     \<and> Ist e AND 7 = 0 \<and> IdtReserved e = 0"

lemma GdtInit_segments:
  "flat_segment True 0 0x08 (GdtInit tss stack table)" "flat_segment False 0 0x10 (GdtInit tss stack table)"
  "flat_segment True 3 USER_CS (GdtInit tss stack table)" "flat_segment False 3 USER_SS (GdtInit tss stack table)"
proof -
  have e: "gdt_sel 0x08 (GdtInit tss stack table) = SetEntry 0 0xFFFFF 0x9A 0xAF" "gdt_sel 0x10 (GdtInit tss stack table) = SetEntry 0 0xFFFFF 0x92 0xAF"
    "gdt_sel USER_SS (GdtInit tss stack table) = SetEntry 0 0xFFFFF 0xF2 0xAF" "gdt_sel USER_CS (GdtInit tss stack table) = SetEntry 0 0xFFFFF 0xFA 0xAF"
    by (simp_all add: gdt_sel_def GdtInit_def USER_CS_def USER_SS_def Let_def)
  have l: "length (gdt_entries (GdtInit tss stack table)) = 5" "unat (dp_Limit (s_gdt_ptr (GdtInit tss stack table))) = 55"
    by (simp_all add: GdtInit_def Let_def SIZEOF_GDT_TABLE_def)
  have d: "desc_present (SetEntry 0 0xFFFFF a 0xAF) = bit a 7" "desc_code (SetEntry 0 0xFFFFF a 0xAF) = (bit a 4 \<and> bit a 3)"
    "desc_data (SetEntry 0 0xFFFFF a 0xAF) = (bit a 4 \<and> \<not> bit a 3 \<and> bit a 1)" "desc_dpl (SetEntry 0 0xFFFFF a 0xAF) = drop_bit 5 a AND 3"
    "Granularity (SetEntry 0 0xFFFFF a 0xAF) = 0xAF" "desc_long (SetEntry 0 0xFFFFF a 0xAF)" for a
    by (simp_all add: desc_present_def desc_code_def desc_data_def desc_dpl_def desc_long_def SetEntry_def) 
  note d = d SetEntry_read(1) SetEntry_read(2) [of "0xFFFFF", simplified]
  show "flat_segment True 0 0x08 (GdtInit tss stack table)" "flat_segment False 0 0x10 (GdtInit tss stack table)"
    "flat_segment True 3 USER_CS (GdtInit tss stack table)" "flat_segment False 3 USER_SS (GdtInit tss stack table)"
    by (simp_all add: flat_segment_def Let_def e l d) (simp_all add: USER_CS_def USER_SS_def drop_bit_eq_div)
qed

lemma GdtInit_task: "task_segment tss (GdtInit tss stack table)"
  using tss_descriptor_base [of tss]
  by (simp add: task_segment_def GdtInit_def Let_def SIZEOF_GDT_TABLE_def)
     (simp add: tss_descriptor_def Let_def SIZEOF_TSS64_def desc_limit_def desc_present_def desc_dpl_def drop_bit_eq_div)

text \<open>The switches of threads after GdtInit change the ring 0 stack and nothing else.\<close>
lemma fold_SetTSSRsp0:
  "gdt_entries (fold SetTSSRsp0 rs g) = gdt_entries g" "tss_desc (fold SetTSSRsp0 rs g) = tss_desc g"
  "s_gdt_ptr (fold SetTSSRsp0 rs g) = s_gdt_ptr g"
  "Rsp0 (s_tss (fold SetTSSRsp0 rs g)) = last (Rsp0 (s_tss g) # rs)"
  "g_kernel_rsp0 (fold SetTSSRsp0 rs g) = last (g_kernel_rsp0 g # rs)"
  by (induction rs arbitrary: g) (simp_all add: SetTSSRsp0_def)

lemma GdtInit_stack: "Rsp0 (s_tss (GdtInit tss stack table)) = stack + 16384" "g_kernel_rsp0 (GdtInit tss stack table) = stack + 16384"
  by (simp_all add: GdtInit_def Let_def KERNEL_STACK_BYTES_def)

lemma segments_kept:
  "flat_segment code dpl sel (fold SetTSSRsp0 rs g) = flat_segment code dpl sel g"
  "task_segment tss (fold SetTSSRsp0 rs g) = task_segment tss g"
  by (simp_all add: flat_segment_def task_segment_def gdt_sel_def fold_SetTSSRsp0)

lemma IdtInit_int_gate:
  assumes "unat v < 48"
  shows "int_gate (isrs ! unat v) (fst (IdtInit isrs base idt) v)"
proof -
  have "fst (IdtInit isrs base idt) v = SetGate v (isrs ! unat v) INT_GATE idt v"
    using assms by (simp add: IdtInit_def fold_SetGate)
  moreover have "TypeAttr (SetGate v a INT_GATE idt v) = 0x8E" "Ist (SetGate v a INT_GATE idt v) = 0"
    "IdtReserved (SetGate v a INT_GATE idt v) = 0" for a by (simp_all add: SetGate_def INT_GATE_def)
  ultimately show ?thesis using gate_offset_SetGate [of v "isrs ! unat v" INT_GATE idt]
    by (simp add: int_gate_def INT_GATE_def)
qed

lemma SYSCALL_Init_selectors:
  "sysret_cs (SYSCALL_Init entry m0) = USER_CS" "sysret_ss (SYSCALL_Init entry m0) = USER_SS"
  "syscall_cs (SYSCALL_Init entry m0) = 0x08" "syscall_ss (SYSCALL_Init entry m0) = 0x10"
  "bit (SYSCALL_Init entry m0 MSR_SFMASK) 9" "bit (SYSCALL_Init entry m0 MSR_EFER) 0" "SYSCALL_Init entry m0 MSR_LSTAR = entry"
proof -
  have s: "SYSCALL_Init entry m0 MSR_STAR = 0x10000800000000" "SYSCALL_Init entry m0 MSR_SFMASK = 0x700"
    "SYSCALL_Init entry m0 MSR_EFER = m0 MSR_EFER OR 1"
    by (simp_all add: SYSCALL_Init_def MSR_EFER_def MSR_STAR_def MSR_LSTAR_def MSR_SFMASK_def push_bit_eq_mult)
  have c: "(drop_bit 48 (0x10000800000000 :: u64) AND 0xFFFF) + 16 OR 3 = USER_CS" "(drop_bit 48 (0x10000800000000 :: u64) AND 0xFFFF) + 8 OR 3 = USER_SS"
    "drop_bit 32 (0x10000800000000 :: u64) AND 0xFFFC = 8" "(drop_bit 32 (0x10000800000000 :: u64) AND 0xFFFF) + 8 = 0x10" "bit (0x700 :: u64) 9"
    by code_simp+
  show "sysret_cs (SYSCALL_Init entry m0) = USER_CS" "sysret_ss (SYSCALL_Init entry m0) = USER_SS"
    "syscall_cs (SYSCALL_Init entry m0) = 0x08" "syscall_ss (SYSCALL_Init entry m0) = 0x10" "bit (SYSCALL_Init entry m0 MSR_SFMASK) 9"
    by (simp_all only: s c sysret_cs_def sysret_ss_def syscall_cs_def syscall_ss_def)
  show "bit (SYSCALL_Init entry m0 MSR_EFER) 0" by (simp add: s bit_or_iff)
  show "SYSCALL_Init entry m0 MSR_LSTAR = entry" by (simp add: SYSCALL_Init_def MSR_LSTAR_def MSR_SFMASK_def)
qed

section \<open>Properties\<close>

text \<open>C10 (safety): every way between the rings, after GdtInit, IdtInit, SYSCALL::Init and any sequence of thread switches.  Each of the
  48 vectors has a present interrupt gate of privilege 0 to its own stub, through a selector of flat present 64-bit code of ring 0;
  SYSCALL enters code and stack segments of ring 0 at the given entry with interrupts off, SYSRET returns to code and data of ring 3,
  which are the selectors in the first frame of a user thread; the task descriptor decodes to the task state, wherever it lies, and
  that state and the variable that the system call entry reads hold the stack of the last switch.\<close>
theorem ring_selectors:
  fixes tss stack "table" entry rs isrs base idt m0 v
  assumes "unat (v :: u8) < 48"
  defines "g \<equiv> fold SetTSSRsp0 rs (GdtInit tss stack table)" and "m \<equiv> SYSCALL_Init entry m0" and "e \<equiv> fst (IdtInit isrs base idt) v"
  shows "int_gate (isrs ! unat v) e \<and> flat_segment True 0 (ucast (Selector e)) g
    \<and> flat_segment True 0 (syscall_cs m) g \<and> flat_segment False 0 (syscall_ss m) g
    \<and> bit (m MSR_EFER) 0 \<and> m MSR_LSTAR = entry \<and> bit (m MSR_SFMASK) 9
    \<and> flat_segment True 3 (sysret_cs m) g \<and> flat_segment False 3 (sysret_ss m) g
    \<and> sysret_cs m = USER_CS \<and> sysret_ss m = USER_SS
    \<and> task_segment tss g \<and> Rsp0 (s_tss g) = last ((stack + 16384) # rs) \<and> g_kernel_rsp0 g = Rsp0 (s_tss g)"
proof -
  have "ucast (Selector e) = (0x08 :: u64)" unfolding e_def by (simp add: IdtInit_gate(3) [OF assms(1)])
  then show ?thesis
    using IdtInit_int_gate [OF assms(1), of isrs base idt] GdtInit_segments [of tss stack "table"] GdtInit_task [of tss stack "table"]
    by (simp add: e_def m_def g_def SYSCALL_Init_selectors segments_kept fold_SetTSSRsp0 GdtInit_stack)
qed

lemma ring_selectors_witness:
  "int_gate 0x20E070 (fst (IdtInit (map (\<lambda>i. 0x20E000 + 8 * of_nat i) [0..<48]) 0x250000 (\<lambda>_. \<lparr>OffsetLow = 0, Selector = 0, Ist = 0, TypeAttr = 0, OffsetMiddle = 0, OffsetHigh = 0, IdtReserved = 0\<rparr>)) 14)
   \<and> Rsp0 (s_tss (fold SetTSSRsp0 [0x300000, 0x308000] (GdtInit 0x260000 0x270000 0x280000))) = 0x308000"
  using ring_selectors [where v = 14 and isrs = "map (\<lambda>i. 0x20E000 + 8 * of_nat i) [0..<48]" and rs = "[0x300000, 0x308000]"] by auto

text \<open>C11 (error): a fault in a program.  When a thread has registered a handler with NT\_SET\_EX\_HANDLER, a fault of its user code resumes at
  the handler, with the status of the fault in RDI and the address of the fault in RSI, once: the next fault stops the machine, and so
  does every fault of the kernel.\<close>
theorem user_exception_once:
  assumes "CurrentThread (p_sys s) = Some t" "h \<noteq> 0" "km_ps m = snd (NtSetExHandler h s)" "Vector f < 32" "Cs f AND 3 = 3"
  shows "\<exists>m'. InterruptDispatch outb tab cr f m = Resume (f\<lparr>fr_rdi := ExceptionStatus (Vector f), fr_rsi := Rip f, Rip := h\<rparr>) m'
    \<and> (\<forall>g. Vector g < 32 \<longrightarrow> InterruptDispatch outb tab cr g m' = Panic)
    \<and> (\<forall>g. Vector g < 32 \<and> Cs g AND 3 \<noteq> 3 \<longrightarrow> InterruptDispatch outb tab cr g m = Panic)"
proof -
  have m: "km_ps m = set_thr t (\<lambda>k. k\<lparr>ExceptionHandler := h\<rparr>) s" using assms(1,3) by (simp add: NtSetExHandler_def)
  have c: "CurrentThread (p_sys (km_ps m)) = Some t" "ExceptionHandler (the_thr (km_ps m) t) = h"
    using assms(1) by (simp_all add: m CurrentThread_def set_thr_def)
  define m' where "m' = m\<lparr>km_ps := set_thr t (\<lambda>k. k\<lparr>ExceptionHandler := 0\<rparr>) (km_ps m), g_seh_delivered := 1\<rparr>"
  have n: "CurrentThread (p_sys (km_ps m')) = Some t" "ExceptionHandler (the_thr (km_ps m') t) = 0"
    using c(1) by (simp_all add: m'_def CurrentThread_def set_thr_def)
  have D: "InterruptDispatch outb tab cr g k = (case DeliverUserException g (ExceptionStatus (Vector g)) k of Some (f, k) \<Rightarrow> Resume f k | None \<Rightarrow> Panic)"
    if "Vector g < 32" for g k using that by (simp add: InterruptDispatch_def HandlePageFault_def Let_def)
  have 1: "DeliverUserException f (ExceptionStatus (Vector f)) m = Some (f\<lparr>fr_rdi := ExceptionStatus (Vector f), fr_rsi := Rip f, Rip := h\<rparr>, m')"
    using c assms(2,5) by (simp add: DeliverUserException_def m'_def Let_def)
  have 2: "DeliverUserException g e m' = None" for g e using n by (simp add: DeliverUserException_def)
  have 3: "Cs g AND 3 \<noteq> 3 \<Longrightarrow> DeliverUserException g e m = None" for g e by (simp add: DeliverUserException_def)
  show ?thesis by (rule exI [of _ m']) (simp add: D 1 2 3 assms(4))
qed

definition fault_demo :: InterruptFrame where
  "fault_demo = \<lparr>fr_r15 = 0, fr_r14 = 0, fr_r13 = 0, fr_r12 = 0, fr_r11 = 0, fr_r10 = 0, fr_r9 = 0, fr_r8 = 0, fr_rbp = 0, fr_rsi = 0,
     fr_rdi = 0, fr_rdx = 0, fr_rcx = 0, fr_rbx = 0, fr_rax = 0, Vector = 0, ErrorCode = 0, Rip = 0x401000, Cs = 0x23, Rflags = 0x202,
     Rsp = 0x600000, Ss = 0x1B\<rparr>"

lemma user_exception_once_witness:
  "\<exists>m'. InterruptDispatch (\<lambda>p v h. h) [] 0 fault_demo
      \<lparr>km_ps = snd (NtSetExHandler 0x402000 vm_demo), g_seh_delivered = 0, km_vga = vga_demo, km_kbd = kbd_demo, km_mouse = mouse_demo,
       km_kuser = 0, km_hz = 100, km_dev = ()\<rparr>
    = Resume (fault_demo\<lparr>fr_rdi := 0xC0000094, fr_rsi := 0x401000, Rip := 0x402000\<rparr>) m'"
proof -
  have c: "CurrentThread (p_sys vm_demo) = Some (Thr 0)" by (simp add: vm_demo_def CurrentThread_def)
  have f: "Vector fault_demo < 32" "Cs fault_demo AND 3 = 3" "Rip fault_demo = 0x401000" "ExceptionStatus (Vector fault_demo) = 0xC0000094"
    by (simp_all add: fault_demo_def ExceptionStatus_def)
  from user_exception_once [OF c _ _ f(1,2), where h = "0x402000" and
      m = "\<lparr>km_ps = snd (NtSetExHandler 0x402000 vm_demo), g_seh_delivered = 0, km_vga = vga_demo, km_kbd = kbd_demo, km_mouse = mouse_demo,
       km_kuser = 0, km_hz = 100, km_dev = ()\<rparr>" and outb = "\<lambda>p v h. h" and tab = "[]" and cr = 0]
  show ?thesis by (auto simp: f)
qed

end
