(* ===== verification/SharedPage.thy ===== *)
theory SharedPage
  imports BootTables AddressSpaces
begin

text \<open>The shared user page over the boot loader's tables: MapSharedUserData of kernel/mm/virtual\_memory.cpp splits the 2 MB page
  around 0x7FFE0000 into 4 KB pages and replaces one of them.  The tables stay a tree and every other address keeps its
  translation.\<close>

section \<open>The tables before and after\<close>

definition boot_layout :: "vmm \<Rightarrow> u64 \<Rightarrow> bool" where
  "boot_layout s pt \<longleftrightarrow> table_frames pt \<and> s_pml4_phys s = pt
     \<and> (\<forall>j<512. rd s pt j = (if j = 0 then table_of pt 1 OR 3 else 0)
        \<and> rd s (table_of pt 1) j = (if j < 4 then table_of pt (2 + unat j) OR 3 else 0)
        \<and> (\<forall>m<4. rd s (table_of pt (2 + m)) j = (j + of_nat (512 * m)) * 0x200000 OR 0x83))"

lemma boot_layout_start:
  assumes "table_frames pt"
  shows "boot_layout (VMM_Init (build_tables pt v\<lparr>vm_cr3 := pt\<rparr>)) pt"
  using build_tables_rd [OF assms] frame_masked [OF table_of_frame(1) [OF assms, of 0]] assms
  by (auto simp: boot_layout_def VMM_Init_def)

text \<open>Entry j of the table that replaces the large page.\<close>
definition split_entry :: "u64 \<Rightarrow> u64 \<Rightarrow> u64" where
  "split_entry phys j = (if j = 480 then (phys AND PTE_ADDR_MASK) OR PTE_PRESENT OR PTE_USER
     else (0x7FE00000 + j * 4096) OR PTE_PRESENT OR PTE_WRITABLE)"

definition shared_layout :: "vmm \<Rightarrow> u64 \<Rightarrow> u64 \<Rightarrow> u64 \<Rightarrow> bool" where
  "shared_layout s pt f phys \<longleftrightarrow> table_frames pt \<and> s_pml4_phys s = pt \<and> f \<in> pmm_all_frames \<and> (\<forall>k<6. f \<noteq> table_of pt k)
     \<and> (\<forall>j<512. rd s pt j = (if j = 0 then (table_of pt 1 OR 3) OR PTE_USER else 0)
        \<and> rd s (table_of pt 1) j = (if j = 1 then (table_of pt 3 OR 3) OR PTE_USER else if j < 4 then table_of pt (2 + unat j) OR 3 else 0)
        \<and> (\<forall>m<4. rd s (table_of pt (2 + m)) j = (if m = 1 \<and> j = 511 then f OR PTE_PRESENT OR PTE_WRITABLE OR PTE_USER
             else (j + of_nat (512 * m)) * 0x200000 OR 0x83))
        \<and> rd s f j = split_entry phys j)"

lemma shared_layoutD:
  assumes "shared_layout s pt f phys" "j < 512"
  shows "rd s pt j = (if j = 0 then (table_of pt 1 OR 3) OR PTE_USER else 0)"
    "rd s (table_of pt 1) j = (if j = 1 then (table_of pt 3 OR 3) OR PTE_USER else if j < 4 then table_of pt (2 + unat j) OR 3 else 0)"
    "m < 4 \<Longrightarrow> rd s (table_of pt (2 + m)) j = (if m = 1 \<and> j = 511 then f OR PTE_PRESENT OR PTE_WRITABLE OR PTE_USER
             else (j + of_nat (512 * m)) * 0x200000 OR 0x83)"
    "rd s f j = split_entry phys j"
proof -
  note S = assms(1) [unfolded shared_layout_def, THEN conjunct2, THEN conjunct2, THEN conjunct2, THEN conjunct2, rule_format, OF assms(2)]
  show "rd s pt j = (if j = 0 then (table_of pt 1 OR 3) OR PTE_USER else 0)" by (rule conjunct1 [OF S])
  note S = conjunct2 [OF S]
  show "rd s (table_of pt 1) j = (if j = 1 then (table_of pt 3 OR 3) OR PTE_USER else if j < 4 then table_of pt (2 + unat j) OR 3 else 0)"
    by (rule conjunct1 [OF S])
  note S = conjunct2 [OF S]
  show "m < 4 \<Longrightarrow> rd s (table_of pt (2 + m)) j = (if m = 1 \<and> j = 511 then f OR PTE_PRESENT OR PTE_WRITABLE OR PTE_USER
             else (j + of_nat (512 * m)) * 0x200000 OR 0x83)"
    by (rule conjunct1 [OF S, rule_format])
  show "rd s f j = split_entry phys j" by (rule conjunct2 [OF S])
qed

lemma shared_indices: "pml4_idx SHARED_USER_VA = 0" "pdpt_idx SHARED_USER_VA = 1" "pd_idx SHARED_USER_VA = 511" "pt_idx SHARED_USER_VA = 480"
  by code_simp+

lemma MapSharedUserData_layout:
  assumes L: "boot_layout s pt" and A: "AllocPage (vm_pmm s) = (f, pm)" "f \<noteq> 0" and f: "f \<in> pmm_all_frames" "\<forall>k<6. f \<noteq> table_of pt k"
  obtains s' where "MapSharedUserData phys s = (True, s')" "shared_layout s' pt f phys" "vm_pmm s' = pm"
    "\<And>u j. u \<in> pmm_all_frames \<Longrightarrow> u \<noteq> f \<Longrightarrow> \<forall>k<6. u \<noteq> table_of pt k \<Longrightarrow> j < 512 \<Longrightarrow> rd s' u j = rd s u j"
proof -
  define T where "T = (\<lambda>k. table_of pt k)"
  have tf: "table_frames pt" and p0: "s_pml4_phys s = pt" using L by (simp_all add: boot_layout_def)
  have Tf: "T k \<in> pmm_all_frames" if "k < 6" for k unfolding T_def by (rule table_of_frame(1) [OF tf that])
  have I: "T k = T l \<longleftrightarrow> k = l" if "k < 6" "l < 6" for k l unfolding T_def by (rule table_of_inj [OF tf that])
  have fT: "f \<noteq> T k" "T k \<noteq> f" if "k < 6" for k using f(2) that by (auto simp: T_def)
  have pt: "pt = T 0" by (simp add: T_def)
  have R: "rd s (T 0) j = (if j = 0 then T 1 OR 3 else 0)" "rd s (T 1) j = (if j < 4 then T (2 + unat j) OR 3 else 0)"
    "m < 4 \<Longrightarrow> rd s (T (2 + m)) j = (j + of_nat (512 * m)) * 0x200000 OR 0x83" if "j < 512" for j m
    using L that by (simp_all add: boot_layout_def T_def)
  define s1 where "s1 = wr (entry_ptr (T 0) 0) ((T 1 OR 3) OR PTE_USER) s"
  define s2 where "s2 = wr (entry_ptr (T 1) 1) ((T 3 OR 3) OR PTE_USER) s1"
  define s3 where "s3 = fill_table f (\<lambda>i. (0x7FE00000 + i * of_nat PAGE_SIZE) OR PTE_PRESENT OR PTE_WRITABLE) [0..<512] (s2\<lparr>vm_pmm := pm\<rparr>)"
  define s4 where "s4 = wr (entry_ptr f 480) ((phys AND PTE_ADDR_MASK) OR PTE_PRESENT OR PTE_USER) s3"
  define s5 where "s5 = wr (entry_ptr (T 3) 511) (f OR PTE_PRESENT OR PTE_WRITABLE OR PTE_USER) s4"
  have ix: "(0 :: u64) < 512" "(1 :: u64) < 512" "(511 :: u64) < 512" "(480 :: u64) < 512" by simp_all
  have r1: "rd s1 u j = (if u = T 0 \<and> j = 0 then (T 1 OR 3) OR PTE_USER else rd s u j)" if "u \<in> pmm_all_frames" "j < 512" for u j
    unfolding s1_def using Tf [of 0] that ix(1) by (intro rd_wr) simp_all
  have r2: "rd s2 u j = (if u = T 1 \<and> j = 1 then (T 3 OR 3) OR PTE_USER else rd s1 u j)" if "u \<in> pmm_all_frames" "j < 512" for u j
    unfolding s2_def using Tf [of 1] that ix(2) by (intro rd_wr) simp_all
  have r3: "rd s3 u j = (if u = f then (0x7FE00000 + j * 4096) OR PTE_PRESENT OR PTE_WRITABLE else rd s2 u j)" if "u \<in> pmm_all_frames" "j < 512" for u j
    unfolding s3_def by (simp add: fill_table_full [OF f(1) that] PAGE_SIZE_def)
  have r4: "rd s4 u j = (if u = f \<and> j = 480 then (phys AND PTE_ADDR_MASK) OR PTE_PRESENT OR PTE_USER else rd s3 u j)" if "u \<in> pmm_all_frames" "j < 512" for u j
    unfolding s4_def using f(1) that ix(4) by (intro rd_wr) simp_all
  have r5: "rd s5 u j = (if u = T 3 \<and> j = 511 then f OR PTE_PRESENT OR PTE_WRITABLE OR PTE_USER else rd s4 u j)" if "u \<in> pmm_all_frames" "j < 512" for u j
    unfolding s5_def using Tf [of 3] that ix(3) by (intro rd_wr) simp_all
  have e1: "rd s (T 0) 0 = T 1 OR 3" using R(1) [OF ix(1)] by simp
  have e2: "rd s1 (T 1) 1 = T 3 OR 3" using r1 [OF Tf ix(2), of 1] R(2) [OF ix(2)] I [of 1 0] by simp
  have "rd s1 (T 3) 511 = rd s (T 3) 511" using r1 [OF Tf ix(3), of 3] I [of 3 0] by simp
  then have "rd s2 (T 3) 511 = rd s (T 3) 511" using r2 [OF Tf ix(3), of 3] I [of 3 1] by simp
  also have "\<dots> = 1023 * 0x200000 OR 0x83"
  proof -
    have "rd s (T (2 + 1)) 511 = (511 + of_nat (512 * 1)) * 0x200000 OR 0x83" by (rule R(3) [OF ix(3)]) simp
    moreover have "(2 :: nat) + 1 = 3" "(511 + of_nat (512 * 1) :: u64) = 1023" by simp_all
    ultimately show ?thesis by (simp only:)
  qed
  finally have e3: "rd s2 (T 3) 511 = 1023 * 0x200000 OR 0x83" .
  have b: "present (1023 * 0x200000 OR 0x83 :: u64)" "huge (1023 * 0x200000 OR 0x83 :: u64)" "(1023 * 0x200000 OR 0x83 :: u64) AND 0xFFFFFFFE00000 = 0x7FE00000"
    by code_simp+
  note E1 = table_entry [OF Tf [of 1]] note E3 = table_entry [OF Tf [of 3]]
  have A2: "AllocPage (vm_pmm s2) = (f, pm)" using A(1) by (simp add: s2_def s1_def)
  have M: "MapSharedUserData phys s = (True, s5)"
    by (simp only: MapSharedUserData_def Let_def shared_indices p0 pt e1 E1(1,3) s1_def [symmetric] e2 E3(1,3) s2_def [symmetric] e3 b A2 A(2)
        s3_def [symmetric] s4_def [symmetric] s5_def [symmetric] prod.case if_False if_True not_True_eq_False not_False_eq_True simp_thms)
  have ne: "T k \<noteq> T l" if "k \<noteq> l" "k < 6" "l < 6" for k l using I [OF that(2,3)] that(1) by simp
  have q0: "rd s5 (T 0) j = (if j = 0 then (T 1 OR 3) OR PTE_USER else 0)" if j: "j < 512" for j
    by (simp add: r5 [OF Tf j] r4 [OF Tf j] r3 [OF Tf j] r2 [OF Tf j] r1 [OF Tf j] R(1) [OF j] ne fT)
  have q1: "rd s5 (T 1) j = (if j = 1 then (T 3 OR 3) OR PTE_USER else if j < 4 then T (2 + unat j) OR 3 else 0)" if j: "j < 512" for j
    using ne [of 1 0] ne [of 1 3] fT(2) [of 1]
    by (simp only: r5 [OF Tf j] r4 [OF Tf j] r3 [OF Tf j] r2 [OF Tf j] r1 [OF Tf j] R(2) [OF j]) simp
  have q2: "rd s5 (T (2 + m)) j = (if m = 1 \<and> j = 511 then f OR PTE_PRESENT OR PTE_WRITABLE OR PTE_USER else (j + of_nat (512 * m)) * 0x200000 OR 0x83)"
    if m: "m < 4" and j: "j < 512" for m j
  proof -
    have m6: "2 + m < 6" using m by simp
    have "T (2 + m) = T 3 \<longleftrightarrow> m = 1" using I [OF m6, of 3] by auto
    then show ?thesis using ne [OF _ m6, of 0] ne [OF _ m6, of 1] fT(2) [OF m6]
      by (simp only: r5 [OF Tf [OF m6] j] r4 [OF Tf [OF m6] j] r3 [OF Tf [OF m6] j] r2 [OF Tf [OF m6] j] r1 [OF Tf [OF m6] j] R(3) [OF j m]) simp
  qed
  have q3: "rd s5 f j = split_entry phys j" if j: "j < 512" for j
    by (simp add: r5 [OF f(1) j] r4 [OF f(1) j] r3 [OF f(1) j] fT split_entry_def)
  have "s_pml4_phys s5 = pt" using p0 by (simp add: s5_def s4_def s3_def s2_def s1_def)
  then have "shared_layout s5 pt f phys"
    unfolding shared_layout_def using tf f q0 q1 q2 q3 by (simp add: T_def)
  moreover have "rd s5 u j = rd s u j" if u: "u \<in> pmm_all_frames" "u \<noteq> f" "\<forall>k<6. u \<noteq> table_of pt k" "j < 512" for u j
  proof -
    have "u \<noteq> T k" if "k < 6" for k using u(3) that by (simp add: T_def)
    then show ?thesis using u(2) by (simp add: r5 [OF u(1,4)] r4 [OF u(1,4)] r3 [OF u(1,4)] r2 [OF u(1,4)] r1 [OF u(1,4)])
  qed
  ultimately show thesis using that M by (simp add: s5_def s4_def s3_def)
qed


section \<open>The translations\<close>

lemma if_cases: "present a \<Longrightarrow> present b \<Longrightarrow> present (if c then a else b)" by simp
lemma if_cases2: "a AND m = (x :: u64) \<Longrightarrow> b AND m = y \<Longrightarrow> (if c then a else b) AND m = (if c then x else y)" by simp

lemma split_entry_frame:
  assumes "phys \<in> pmm_all_frames" "j < 512"
  shows "present (split_entry phys j)"
    "split_entry phys j AND PTE_ADDR_MASK = (if j = 480 then phys else 0x7FE00000 + j * 4096)"
proof -
  have j: "unat j < 512" using assms(2) by (simp add: word_less_nat_alt)
  have m: "unat (j * 4096) = unat j * 4096" using j by (subst unat_mult_lem [THEN iffD1]) simp_all
  have u: "unat (0x7FE00000 + j * 4096) = 0x7FE00000 + unat j * 4096"
    using j by (subst unat_add_lem [THEN iffD1]) (simp_all add: m)
  have "(0x7FE00000 + unat j * 4096) mod 4096 = 0" by presburger
  then have g: "0x7FE00000 + j * 4096 \<in> pmm_all_frames" using j by (intro frameI) (simp_all only: u, simp)
  have w: "PTE_PRESENT OR PTE_WRITABLE = 3" by (simp add: PTE_PRESENT_def PTE_WRITABLE_def)
  have P: "present (phys OR PTE_PRESENT OR PTE_USER)" "(phys OR PTE_PRESENT OR PTE_USER) AND PTE_ADDR_MASK = phys"
  proof -
    have b: "bit (phys OR PTE_PRESENT OR PTE_USER) n \<longleftrightarrow> bit phys n \<or> n = 0 \<or> n = 2" for n
    proof -
      have u: "(PTE_USER :: u64) = push_bit 2 1" by (simp add: PTE_USER_def push_bit_eq_mult)
      have "bit PTE_USER n \<longleftrightarrow> n = 2" unfolding u bit_push_bit_iff possible_bit_word bit_1_iff by auto
      then show ?thesis by (auto simp: bit_or_iff PTE_PRESENT_def bit_1_iff)
    qed
    show "present (phys OR PTE_PRESENT OR PTE_USER)" using b [of 0] by (simp add: present_bit)
    show "(phys OR PTE_PRESENT OR PTE_USER) AND PTE_ADDR_MASK = phys"
      by (rule bit_word_eqI) (use b frame_bits [OF assms(1)] in \<open>force simp: bit_and_iff bit_ADDR_MASK\<close>)
  qed
  have e: "split_entry phys j = (if j = 480 then phys OR PTE_PRESENT OR PTE_USER else (0x7FE00000 + j * 4096) OR 3)"
    by (simp only: split_entry_def frame_masked [OF assms(1)] or.assoc w)
  show "present (split_entry phys j)" unfolding e using P(1) table_entry(1) [OF g] by (rule if_cases)
  show "split_entry phys j AND PTE_ADDR_MASK = (if j = 480 then phys else 0x7FE00000 + j * 4096)"
    unfolding e using P(2) table_entry(3) [OF g] by (rule if_cases2)
qed

lemma user_entry:
  assumes "t \<in> pmm_all_frames"
  shows "present ((t OR 3) OR PTE_USER)" "\<not> huge ((t OR 3) OR PTE_USER)" "((t OR 3) OR PTE_USER) AND PTE_ADDR_MASK = t"
proof -
  have e: "(t OR 3) OR PTE_USER = t OR PTE_PRESENT OR PTE_WRITABLE OR PTE_USER"
    by (simp add: or.assoc PTE_PRESENT_def PTE_WRITABLE_def PTE_USER_def)
  show "present ((t OR 3) OR PTE_USER)" "\<not> huge ((t OR 3) OR PTE_USER)" "((t OR 3) OR PTE_USER) AND PTE_ADDR_MASK = t"
    unfolding e by (rule link_entry [OF assms])+
qed

lemma page_entry_huge: "m < 4 \<Longrightarrow> j < 512 \<Longrightarrow> huge ((j + of_nat (512 * m)) * 0x200000 OR 0x83)"
proof (rule pd_entry(2))
  assume a: "m < 4" "j < 512"
  have "unat (of_nat (512 * m) :: u64) = 512 * m" using a(1) by (intro unat_of_nat64) simp
  then have "unat (j + of_nat (512 * m)) \<le> unat j + 512 * m" by (simp only: unat_word_ariths) simp
  then show "j + of_nat (512 * m) < 2048" using a by (simp add: word_less_nat_alt)
qed

lemma shared_layout_tables:
  assumes "shared_layout s pt f phys" "phys \<in> pmm_all_frames" "vpath p"
  shows "table_at s pt p = (if p = [] then Some pt else if p = [0] then Some (table_of pt 1)
    else if \<exists>j<4. p = [0, j] then Some (table_of pt (2 + unat (p ! 1))) else if p = [0, 1, 511] then Some f else None)"
proof -
  note S = assms(1) [unfolded shared_layout_def]
  have Tf: "table_of pt k \<in> pmm_all_frames" if "k < 6" for k using S that table_of_frame(1) by blast
  have c0: "child s pt j = (if j = 0 then Some (table_of pt 1) else None)" if "j < 512" for j
    using S that user_entry [OF Tf [of 1]] by (simp add: child_def)
  have c1: "child s (table_of pt 1) j = (if j < 4 then Some (table_of pt (2 + unat j)) else None)" if j: "j < 512" for j
  proof (cases "j < 4")
    case True
    then have u: "2 + unat j < 6" by (simp add: word_less_nat_alt)
    have "unat j = 1 \<longleftrightarrow> j = 1" by (auto simp: word_unat_eq_iff)
    then show ?thesis using S j True user_entry [OF Tf [of 3]] table_entry [OF Tf [OF u]] by (auto simp: child_def numeral_3_eq_3)
  qed (use S j in \<open>auto simp: child_def\<close>)
  have c2: "child s (table_of pt (2 + m)) j = (if m = 1 \<and> j = 511 then Some f else None)" if m: "m < 4" and j: "j < 512" for m j
  proof (cases "m = 1 \<and> j = 511")
    case True
    have e: "rd s (table_of pt (2 + m)) j = f OR PTE_PRESENT OR PTE_WRITABLE OR PTE_USER"
      using shared_layoutD(3) [OF assms(1) j m] unfolding if_P [OF True] .
    have "f \<in> pmm_all_frames" using S by blast
    from link_entry [OF this] show ?thesis by (simp only: child_def Let_def e if_P [OF True] simp_thms if_True)
  next
    case False
    then have "rd s (table_of pt (2 + m)) j = (j + of_nat (512 * m)) * 0x200000 OR 0x83"
      using shared_layoutD(3) [OF assms(1) j m] by (simp only: if_False)
    then show ?thesis using False page_entry_huge [OF m j] by (simp only: child_def Let_def if_False simp_thms)
  qed
  have l: "length p \<le> 3" "\<forall>i\<in>set p. i < 512" using assms(3) by (simp_all add: vpath_def)
  consider "p = []" | i where "p = [i]" | i j where "p = [i, j]" | i j k where "p = [i, j, k]"
    using l(1) by (cases p; cases "tl p"; cases "tl (tl p)") (auto simp: le_Suc_eq)
  then show ?thesis
  proof cases
    case (2 i)
    then show ?thesis using l(2) c0 [of i] by simp
  next
    case (3 i j)
    then show ?thesis using l(2) c0 [of i] c1 [of j] by auto
  next
    case (4 i j k)
    show ?thesis
    proof (cases "i = 0 \<and> j < 4")
      case True
      then have u: "unat j < 4" by (simp add: word_less_nat_alt)
      have "unat j = 1 \<longleftrightarrow> j = 1" by (auto simp: word_unat_eq_iff)
      then show ?thesis using 4 l(2) True c0 [of i] c1 [of j] c2 [OF u, of k] by auto
    next
      case False
      then show ?thesis using 4 l(2) c0 [of i] c1 [of j] by auto
    qed
  qed simp
qed

lemma shared_layout_root:
  assumes "shared_layout s pt f phys" "phys \<in> pmm_all_frames" "pmm_inv (vm_pmm s)"
    and "f \<in> used_frames s" "\<forall>k<6. table_of pt k \<in> used_frames s"
  shows "root_ok s pt"
proof -
  note S = assms(1) [unfolded shared_layout_def]
  note T = shared_layout_tables [OF assms(1,2)]
  have I: "table_of pt k = table_of pt l \<longleftrightarrow> k = l" if "k < 6" "l < 6" for k l using S table_of_inj that by blast
  have fT: "f \<noteq> table_of pt k" if "k < 6" for k using S that by blast
  have u4: "2 + unat j < 6" if "j < 4" for j :: u64 using that by (simp add: word_less_nat_alt)
  define nr where "nr = (\<lambda>p. if p = [] then 0 else if p = [0] then 1 else if p = [0 :: u64, 1, 511] then 6 else 2 + unat (p ! 1))"
  define tb where "tb = (\<lambda>n. if n = 6 then f else table_of pt n)"
  define path where "path = (\<lambda>n. if n = 0 then [] else if n = 1 then [0] else if n = 6 then [0, 1, 511] else [0 :: u64, of_nat (n - 2)])"
  have u4': "unat j < 4" if "j < 4" for j :: u64 using that by (simp add: word_less_nat_alt)
  have K: "t = tb (nr p) \<and> nr p \<le> 6 \<and> p = path (nr p)"
    if "vpath p" "table_at s pt p = Some t" for p t
    using that(2) T [OF that(1)] by (auto simp: nr_def tb_def path_def split: if_splits dest: u4')
  have "tb m = tb n \<longleftrightarrow> m = n" if "m \<le> 6" "n \<le> 6" for m n
    using I [of m n] fT [of m] fT [of n] that by (auto simp: tb_def)
  then have inj: "p = q" if "vpath p" "vpath q" "table_at s pt p = Some t" "table_at s pt q = Some t" for p q t
    using K [OF that(1,3)] K [OF that(2,4)] by metis
  have "tables s pt \<subseteq> used_frames s"
  proof
    fix t assume "t \<in> tables s pt"
    then obtain p where p: "vpath p" "table_at s pt p = Some t" by (auto simp: tables_def)
    have "tb n \<in> used_frames s" if "n \<le> 6" for n using assms(4,5) that by (auto simp: tb_def)
    then show "t \<in> used_frames s" using K [OF p] by blast
  qed
  then have w: "pt_wf s pt" using assms(3) inj by (auto simp: pt_wf_def)
  have "\<not> (present (rd s pt i) \<and> huge (rd s pt i))" if "i < 512" for i
  proof -
    have "table_of pt 1 \<in> pmm_all_frames" using S table_of_frame(1) [of pt 1] by simp
    then show ?thesis using user_entry(2) shared_layoutD(1) [OF assms(1) that] by (cases "i = 0") simp_all
  qed
  then show ?thesis using w by (simp add: root_ok_def)
qed

lemma and_not_or_and: "(x AND NOT m) OR (x AND m) = (x :: u64)"
  by (rule bit_word_eqI) (auto simp: bit_or_iff bit_and_iff bit_not_iff)

lemma V2P_small:
  assumes "rd s (s_pml4_phys s) (pml4_idx a) = e1" "present e1" "e1 AND PTE_ADDR_MASK = t"
    and "rd s t (pdpt_idx a) = e2" "present e2" "\<not> huge e2" "e2 AND PTE_ADDR_MASK = u"
    and "rd s u (pd_idx a) = e3" "present e3" "\<not> huge e3" "e3 AND PTE_ADDR_MASK = w"
    and "rd s w (pt_idx a) = e4" "present e4" "e4 AND PTE_ADDR_MASK = f"
  shows "V2P a s = f OR (a AND 0xFFF)"
  using assms by (simp add: V2P_def Let_def)

text \<open>An address in the page that was split.\<close>
lemma split_address:
  fixes a :: u64
  assumes "unat a < 2 ^ 32" "pdpt_idx a = 1" "pd_idx a = 511"
  shows "(0x7FE00000 + pt_idx a * 4096) OR (a AND 0xFFF) = a" "pt_idx a = 480 \<longleftrightarrow> unat a div 4096 = 0x7FFE0"
    "unat a div 2 ^ 21 = 1023"
proof -
  have d: "drop_bit 21 a = 1023" using low_indices(3) [OF assms(1)] assms(2,3) by simp
  have q: "unat a div 2 ^ 21 = 1023" using arg_cong [OF d, of unat] by (simp only: unat_drop) simp
  then show "unat a div 2 ^ 21 = 1023" .
  have "pt_idx a = take_bit 9 (drop_bit 12 a)"
  proof -
    have "(0x1FF :: u64) = mask 9" by (simp add: mask_eq_exp_minus_1)
    then show ?thesis by (simp only: pt_idx_def take_bit_eq_mask)
  qed
  then have u: "unat (pt_idx a) = unat a div 4096 mod 512"
    by (simp only: unsigned_take_bit_eq unat_drop take_bit_nat_def) simp
  have s: "unat a div 4096 = 1023 * 512 + unat a div 4096 mod 512"
    using q div_mult2_eq [of "unat a" 4096 512] div_mult_mod_eq [of "unat a div 4096" 512] by simp
  have "pt_idx a = 480 \<longleftrightarrow> unat (pt_idx a) = 480" by (simp add: word_unat_eq_iff)
  then show "pt_idx a = 480 \<longleftrightarrow> unat a div 4096 = 0x7FFE0" unfolding u using s by auto
  have l: "unat (pt_idx a) < 512" by (simp add: u)
  have m: "unat (pt_idx a * 4096) = unat (pt_idx a) * 4096" using l by (subst unat_mult_lem [THEN iffD1]) simp_all
  have "unat (0x7FE00000 + pt_idx a * 4096) = 0x7FE00000 + unat (pt_idx a) * 4096"
    using l by (subst unat_add_lem [THEN iffD1]) (simp_all add: m)
  also have "\<dots> = unat a div 4096 * 4096" unfolding u using s by simp
  also have "\<dots> = unat (a AND NOT 0xFFF)"
  proof -
    have F: "(0xFFF :: u64) = mask 12" by (simp add: mask_eq_exp_minus_1)
    show ?thesis unfolding F unat_and_not_mask by simp
  qed
  finally have x: "0x7FE00000 + pt_idx a * 4096 = a AND NOT 0xFFF" by (simp add: word_unat_eq_iff)
  show "(0x7FE00000 + pt_idx a * 4096) OR (a AND 0xFFF) = a" unfolding x by (rule and_not_or_and)
qed

lemma num1023: "(1023 :: u64) = 511 + 512" by simp

lemma shared_layout_V2P:
  assumes L: "shared_layout s pt f phys" and p: "phys \<in> pmm_all_frames" and a: "unat a < 2 ^ 48"
  shows "V2P a s = (if unat a < 2 ^ 32 then (if unat a div 4096 = 0x7FFE0 then phys OR (a AND 0xFFF) else a) else 0)"
proof -
  note S = L [unfolded shared_layout_def]
  have Tf: "table_of pt k \<in> pmm_all_frames" if "k < 6" for k using S that table_of_frame(1) by blast
  have p0: "s_pml4_phys s = pt" using S by blast
  note lt = idx_lt(1) [of a] idx_lt(2) [of a] idx_lt(3) [of a] idx_lt(4) [of a]
  note e1 = shared_layoutD(1) [OF L lt(1)] note e2 = shared_layoutD(2) [OF L lt(2)]
  have T1: "table_of pt 1 \<in> pmm_all_frames" by (rule Tf) simp
  note x1 = user_entry [OF T1]
  show ?thesis
  proof (cases "unat a < 2 ^ 32")
    case True
    note I = low_indices [OF True]
    define m where "m = unat (pdpt_idx a)"
    have m4: "m < 4" using I(2) by (simp add: m_def word_less_nat_alt)
    have m1: "m = 1 \<longleftrightarrow> pdpt_idx a = 1" by (auto simp: m_def word_unat_eq_iff)
    define e where "e = (if m = 1 then (table_of pt 3 OR 3) OR PTE_USER else table_of pt (2 + m) OR 3)"
    have r1: "rd s (s_pml4_phys s) (pml4_idx a) = (table_of pt 1 OR 3) OR PTE_USER" unfolding p0 using e1 I(1) by simp
    have r2: "rd s (table_of pt 1) (pdpt_idx a) = e" unfolding e2 e_def m1 using I(2) by (simp add: m_def)
    have x2: "present e" "\<not> huge e" "e AND PTE_ADDR_MASK = table_of pt (2 + m)"
    proof -
      have "present e \<and> \<not> huge e \<and> e AND PTE_ADDR_MASK = table_of pt (2 + m)"
      proof (cases "m = 1")
        case True
        have "(2 :: nat) + 1 = 3" by simp
        then show ?thesis unfolding e_def if_P [OF True] True using user_entry [OF Tf [of 3]] by (simp only:) simp
      next
        case False
        show ?thesis unfolding e_def if_not_P [OF False] using table_entry [OF Tf [of "2 + m"]] m4 by simp
      qed
      then show "present e" "\<not> huge e" "e AND PTE_ADDR_MASK = table_of pt (2 + m)" by simp_all
    qed
    note e3 = shared_layoutD(3) [OF L lt(3) m4]
    show ?thesis
    proof (cases "m = 1 \<and> pd_idx a = 511")
      case split: True
      have fF: "f \<in> pmm_all_frames" using S by blast
      note A = split_address [OF True m1 [THEN iffD1, OF conjunct1 [OF split]] conjunct2 [OF split]]
      have "V2P a s = (if pt_idx a = 480 then phys else 0x7FE00000 + pt_idx a * 4096) OR (a AND 0xFFF)"
        by (rule V2P_small [OF r1 x1(1,3) r2 x2 e3 [unfolded if_P [OF split]] link_entry [OF fF]
              shared_layoutD(4) [OF L lt(4)] split_entry_frame [OF p lt(4)]])
      then show ?thesis using True A by simp
    next
      case False
      have e3': "rd s (table_of pt (2 + m)) (pd_idx a) = drop_bit 21 a * 0x200000 OR 0x83"
        using e3 unfolding if_not_P [OF False] using I(3) by (simp only: m_def)
      have "V2P a s = push_bit 21 (drop_bit 21 a) OR (a AND 0x1FFFFF)"
        by (rule V2P_large [OF r1 x1(1,3) r2 x2 e3' pd_entry [OF I(4)]])
      moreover have "unat a div 4096 \<noteq> 0x7FFE0"
      proof
        assume z: "unat a div 4096 = 0x7FFE0"
        have "unat a div 2 ^ 21 = unat a div 4096 div 512" using div_mult2_eq [of "unat a" 4096 512] by simp
        then have "unat a div 2 ^ 21 = 1023" unfolding z by simp
        then have "unat (drop_bit 21 a) = 1023" by (simp only: unat_drop)
        then have d: "drop_bit 21 a = 1023" by (simp add: word_unat_eq_iff)
        have "pd_idx a = 511" by (simp add: pd_idx_def d)
        moreover have "of_nat (512 * m) = (512 :: u64)"
          using I(3) [folded m_def] unfolding d calculation by (simp only: num1023 add_left_cancel)
        then have "512 * m = 512" using unat_of_nat64 [of "512 * m"] m4 by simp
        ultimately show False using False by simp
      qed
      ultimately show ?thesis using True by (simp only: split_offset if_True if_False simp_thms)
    qed
  next
    case False
    have "V2P a s = 0"
    proof (cases "pml4_idx a = 0")
      case True
      have "\<not> pdpt_idx a < 4" using high_indices [OF _ a True] False by simp
      then have "rd s (table_of pt 1) (pdpt_idx a) = 0" "\<not> present (0 :: u64)" unfolding e2 by auto
      moreover have "rd s (s_pml4_phys s) (pml4_idx a) = (table_of pt 1 OR 3) OR PTE_USER" unfolding p0 using e1 True by simp
      ultimately show ?thesis using x1 by (intro V2P_unmapped2)
    next
      case n: False
      then have "rd s (s_pml4_phys s) (pml4_idx a) = 0" "\<not> present (0 :: u64)" unfolding p0 using e1 by simp_all
      then show ?thesis by (rule V2P_unmapped1)
    qed
    then show ?thesis using False by simp
  qed
qed

end
