(* ===== verification/ProcessProps.thy ===== *)
theory ProcessProps
  imports ProcessCreate DemoMachine
begin

text \<open>Correctness of process and thread creation (kernel/ps/process.cpp): the environment block
  of a new process as the process reads it, the stack frame of a new user thread, the frames a
  kernel stack takes, and the image base a load records.\<close>

section \<open>Reading back stores at offsets of a page\<close>

text \<open>Stores and an 8-byte read at offsets that do not overlap.\<close>
lemma rd64_wr_bytes_other:
  assumes "unat q + 8 \<le> unat p \<or> unat p + n \<le> unat q" "unat q < 2 ^ 32" "unat p < 2 ^ 32" "n \<le> 8"
  shows "rd64 (wr_bytes (b + p) n g s) (b + q) = rd64 s (b + q)"
proof -
  have "\<not> unat (b + q + of_nat i - (b + p)) < n" if "i < 8" for i
  proof -
    have e: "b + q + of_nat i - (b + p) = q + of_nat i - p" by simp
    have qi: "unat (q + of_nat i) = unat q + i" using assms(2) that
      by (subst unat_add_lem [THEN iffD1]) (auto simp: unat_of_nat64)
    show ?thesis using assms that unfolding e by (auto simp: unat_sub_if' qi)
  qed
  then show ?thesis unfolding rd64_def
    using assms(4) by (intro arg_cong [where f = of_nat] le_val_cong) (simp add: rd8_wr_bytes)
qed

fun poke_off :: "poke \<Rightarrow> u64" where "poke_off (Q off v) = off" | "poke_off (D off v) = off" | "poke_off (W off v) = off"
fun poke_len :: "poke \<Rightarrow> nat" where "poke_len (Q off v) = 8" | "poke_len (D off v) = 4" | "poke_len (W off v) = 2"

text \<open>A poke that does not touch the 8 bytes at offset q, and lies inside a page.\<close>
definition clear_of :: "u64 \<Rightarrow> poke \<Rightarrow> bool" where
  "clear_of q p \<longleftrightarrow> unat q + 8 \<le> unat (poke_off p) \<or> unat (poke_off p) + poke_len p \<le> unat q"

definition in_page :: "poke \<Rightarrow> bool" where "in_page p \<longleftrightarrow> unat (poke_off p) + poke_len p \<le> 4096"

lemma poke1_bytes: "\<exists>g. poke1 b p s = wr_bytes (b + poke_off p) (poke_len p) g s"
  by (cases p) (auto simp: wr64_def wr32_def wr16_def)

lemma poke_len_le: "poke_len p \<le> 8" by (cases p) auto

lemma pokes_simps [simp]: "pokes b [] s = s" "pokes b (p # ps) s = pokes b ps (poke1 b p s)"
  "pokes b (ps @ qs) s = pokes b qs (pokes b ps s)"
  by (simp_all add: pokes_def)

lemma rd64_pokes_clear:
  assumes "unat q < 4096" "\<And>p. p \<in> set ps \<Longrightarrow> clear_of q p \<and> in_page p"
  shows "rd64 (pokes b ps s) (b + q) = rd64 s (b + q)"
  using assms(2)
proof (induction ps arbitrary: s)
  case (Cons p ps)
  obtain g where g: "poke1 b p s = wr_bytes (b + poke_off p) (poke_len p) g s" using poke1_bytes by blast
  have "clear_of q p" "in_page p" using Cons.prems [of p] by auto
  then have "rd64 (poke1 b p s) (b + q) = rd64 s (b + q)" unfolding g
    using assms(1) poke_len_le [of p] by (intro rd64_wr_bytes_other) (auto simp: clear_of_def in_page_def)
  then show ?case using Cons by simp
qed simp

lemma rd64_pokes:
  assumes "ps = xs @ Q q v # ys" "unat q < 4096" "\<And>p. p \<in> set ys \<Longrightarrow> clear_of q p \<and> in_page p"
  shows "rd64 (pokes b ps s) (b + q) = v"
  using rd64_pokes_clear [OF assms(2,3)] by (simp add: assms(1) rd64_wr64)

lemma pokes_only:
  assumes "f \<in> pmm_all_frames" "\<And>p. p \<in> set ps \<Longrightarrow> in_page p"
  shows "writes_only s f (pokes f ps s)"
  using assms(2)
proof (induction ps arbitrary: s)
  case (Cons p ps)
  obtain g where g: "poke1 f p s = wr_bytes (f + poke_off p) (poke_len p) g s" using poke1_bytes by blast
  have "unat (poke_off p) + poke_len p \<le> 4096" using Cons.prems [of p] by (simp add: in_page_def)
  from wr_bytes_only [OF assms(1) this] have "writes_only s f (poke1 f p s)" by (simp add: g)
  then show ?case using Cons by (auto intro: writes_in_trans)
qed simp

lemma wide_poke:
  assumes "p \<in> set (wide off cs)" "unat off + 2 * length cs \<le> 4096"
  shows "\<exists>i<length cs. unat (poke_off p) = unat off + 2 * i \<and> poke_len p = 2"
proof -
  obtain i c where p: "p = W (off + 2 * of_nat i) (of_nat (of_char c))" and i: "i < length cs"
    using assms(1) by (auto simp: wide_def in_set_enumerate_eq)
  have "unat (2 * of_nat i :: u64) = 2 * i" using i assms(2)
    by (subst unat_mult_lem [THEN iffD1]) (auto simp: unat_of_nat64)
  then have "unat (off + 2 * of_nat i) = unat off + 2 * i" using i assms(2)
    by (subst unat_add_lem [THEN iffD1]) auto
  then show ?thesis using i by (auto simp: p)
qed

lemma wide_ok:
  assumes "unat off + 2 * length cs \<le> 4096" "unat q + 8 \<le> unat off \<or> unat off + 2 * length cs \<le> unat q" "p \<in> set (wide off cs)"
  shows "clear_of q p" "in_page p"
proof -
  obtain i where i: "i < length cs" "unat (poke_off p) = unat off + 2 * i" "poke_len p = 2"
    using wide_poke [OF assms(3,1)] by blast
  have l: "2 * i + 2 \<le> 2 * length cs" using i(1) by simp
  show "clear_of q p" using assms(2) i(2,3) l by (auto simp: clear_of_def)
  show "in_page p" using assms(1) i(2,3) l by (simp add: in_page_def)
qed

lemma rd64_frame_cong:
  assumes "f \<in> pmm_all_frames" "unat q + 8 \<le> 4096" "\<And>j. j < 512 \<Longrightarrow> rd s' f j = rd s f j"
  shows "rd64 s' (f + q) = rd64 s (f + q)"
proof -
  have "rd8 s' (f + q + of_nat i) = rd8 s (f + q + of_nat i)" if "i < 8" for i
  proof -
    have "f + q + of_nat i = f + of_nat (unat q + i)" by (simp add: add.assoc)
    then show ?thesis using rd8_frame_cong [OF assms(1) _ assms(3), of "unat q + i"] assms(2) that by (simp add: add.assoc)
  qed
  then show ?thesis unfolding rd64_def by (intro arg_cong [where f = of_nat] le_val_cong) simp
qed

section \<open>The bytes of a page\<close>

text \<open>The contents of a page as chunks: an offset and the bytes from there on; every other byte is zero.  Little-endian numbers, and
  strings of 16-bit characters.\<close>
definition num_bytes :: "nat \<Rightarrow> nat \<Rightarrow> u8 list" where
  "num_bytes k v = map (\<lambda>i. of_nat (v div 256 ^ i)) [0..<k]"

definition wide_bytes :: "cstr \<Rightarrow> u8 list" where
  "wide_bytes cs = concat (map (\<lambda>c. [of_nat (of_char c), 0]) cs)"

definition holds_chunks :: "(nat \<Rightarrow> u8) \<Rightarrow> (nat \<times> u8 list) list \<Rightarrow> bool" where
  "holds_chunks g cs \<longleftrightarrow> (\<forall>(off, bs)\<in>set cs. \<forall>i<length bs. g (off + i) = bs ! i)
     \<and> (\<forall>n<4096. (\<forall>(off, bs)\<in>set cs. n < off \<or> off + length bs \<le> n) \<longrightarrow> g n = 0)"

lemma num_bytes_sel [simp]: "length (num_bytes k v) = k" "i < k \<Longrightarrow> num_bytes k v ! i = of_nat (v div 256 ^ i)"
  by (simp_all add: num_bytes_def)

lemma wide_bytes_simps [simp]: "wide_bytes [] = []" "wide_bytes (c # cs) = of_nat (of_char c) # 0 # wide_bytes cs"
  "length (wide_bytes cs) = 2 * length cs"
  by (simp_all add: wide_bytes_def) (induction cs; simp add: wide_bytes_def)

text \<open>The byte at offset n after a list of stores, from the byte before.\<close>
fun poke_val :: "poke \<Rightarrow> nat" where "poke_val (Q off v) = unat v" | "poke_val (D off v) = unat v" | "poke_val (W off v) = unat v"

definition pokes_byte :: "poke list \<Rightarrow> nat \<Rightarrow> u8 \<Rightarrow> u8" where
  "pokes_byte ps n old = fold (\<lambda>p old. if unat (poke_off p) \<le> n \<and> n < unat (poke_off p) + poke_len p
     then of_nat (poke_val p div 256 ^ (n - unat (poke_off p))) else old) ps old"

lemma pokes_byte_simps [simp]: "pokes_byte [] n old = old" "pokes_byte (ps @ qs) n old = pokes_byte qs n (pokes_byte ps n old)"
  "pokes_byte (p # ps) n old = pokes_byte ps n (if unat (poke_off p) \<le> n \<and> n < unat (poke_off p) + poke_len p
     then of_nat (poke_val p div 256 ^ (n - unat (poke_off p))) else old)"
  by (simp_all add: pokes_byte_def)

lemma unat_ucast_16_64: "unat (ucast (w :: u16) :: u64) = unat w"
  using unsigned_less [of w, where ?'a = nat] by (simp add: unsigned_ucast_eq take_bit_nat_eq_self)

lemma rd8_pokes:
  assumes "list_all in_page ps" "n < 4096"
  shows "rd8 (pokes b ps s) (b + of_nat n) = pokes_byte ps n (rd8 s (b + of_nat n))"
  using assms(1)
proof (induction ps arbitrary: s)
  case (Cons p ps)
  have ip: "unat (poke_off p) + poke_len p \<le> 4096" using Cons.prems by (simp add: in_page_def)
  have e: "poke1 b p s = wr_bytes (b + poke_off p) (poke_len p) (\<lambda>i. of_nat (poke_val p div 256 ^ i)) s"
    by (cases p) (simp_all add: wr64_def wr32_def wr16_def byte_of_nat unat_ucast_32_64 unat_ucast_16_64)
  have d: "b + of_nat n - (b + poke_off p) = of_nat n - poke_off p" by simp
  have u: "unat (of_nat n :: u64) = n" using assms(2) by (simp add: unat_of_nat64)
  have "unat (of_nat n - poke_off p) = (if unat (poke_off p) \<le> n then n - unat (poke_off p) else n + 2 ^ 64 - unat (poke_off p))"
    using u by (simp add: unat_sub_if')
  moreover have "unat (poke_off p) < 2 ^ 64" "poke_len p \<le> 8" using unsigned_less [of "poke_off p", where ?'a = nat] poke_len_le [of p] by simp_all
  ultimately have "rd8 (poke1 b p s) (b + of_nat n) = (if unat (poke_off p) \<le> n \<and> n < unat (poke_off p) + poke_len p
     then of_nat (poke_val p div 256 ^ (n - unat (poke_off p))) else rd8 s (b + of_nat n))"
    unfolding e using ip by (subst rd8_wr_bytes) (auto simp: d)
  then show ?case using Cons by simp
qed simp

text \<open>A list of stores that amounts to one chunk.\<close>
definition writes_chunk :: "poke list \<Rightarrow> nat \<times> u8 list \<Rightarrow> bool" where
  "writes_chunk ps c \<longleftrightarrow> (\<forall>n old. pokes_byte ps n old = (if fst c \<le> n \<and> n < fst c + length (snd c) then snd c ! (n - fst c) else old))"

definition apart :: "nat \<times> u8 list \<Rightarrow> nat \<times> u8 list \<Rightarrow> bool" where
  "apart c d \<longleftrightarrow> fst c + length (snd c) \<le> fst d \<or> fst d + length (snd d) \<le> fst c"

lemma writes_chunk_1: "writes_chunk [p] (unat (poke_off p), num_bytes (poke_len p) (poke_val p))"
  by (auto simp: writes_chunk_def)

lemma writes_chunk_wide:
  assumes "unat off + 2 * length cs \<le> 4096"
  shows "writes_chunk (wide off cs) (unat off, wide_bytes cs)"
proof -
  have "pokes_byte (map (\<lambda>(i, c). W (off + 2 * of_nat i) (of_nat (of_char c))) (enumerate k cs)) n old =
      (if unat off + 2 * k \<le> n \<and> n < unat off + 2 * k + 2 * length cs then wide_bytes cs ! (n - (unat off + 2 * k)) else old)"
    if "unat off + 2 * k + 2 * length cs \<le> 4096" for k n old
    using that
  proof (induction cs arbitrary: k old)
    case (Cons c cs)
    have "unat (2 * of_nat k :: u64) = 2 * k" using Cons.prems by (subst unat_mult_lem [THEN iffD1]) (auto simp: unat_of_nat64)
    then have o: "unat (off + 2 * of_nat k) = unat off + 2 * k" using Cons.prems by (subst unat_add_lem [THEN iffD1]) auto
    have c: "(of_char c :: nat) < 256" by simp
    then have v: "unat (of_nat (of_char c) :: u16) = of_char c" by (simp add: unat_of_nat) (rule mod_less, use c in linarith)
    define m where "m = n - (unat off + 2 * k)"
    have IH: "pokes_byte (map (\<lambda>(i, c). W (off + 2 * of_nat i) (of_nat (of_char c))) (enumerate (Suc k) cs)) n x =
      (if unat off + 2 * Suc k \<le> n \<and> n < unat off + 2 * Suc k + 2 * length cs then wide_bytes cs ! (n - (unat off + 2 * Suc k)) else x)" for x
      by (rule Cons.IH) (use Cons.prems in simp)
    consider "n < unat off + 2 * k" | "n = unat off + 2 * k" | "n = unat off + 2 * k + 1" | "unat off + 2 * k + 2 \<le> n" by linarith
    then show ?case
    proof cases
      case 4
      then obtain j where "n = unat off + 2 * k + 2 + j" using le_Suc_ex by blast
      then show ?thesis using IH o by (simp del: of_nat_Suc)
    qed (use IH o v c in \<open>simp_all del: of_nat_Suc\<close>)
  qed auto
  from this [of 0] show ?thesis using assms unfolding writes_chunk_def wide_def fst_conv snd_conv wide_bytes_simps
    by (simp only: mult_0_right add_0_right simp_thms)
qed

lemma pokes_holds:
  assumes "list_all2 writes_chunk pss cs" "sorted_wrt apart cs"
  shows "holds_chunks (\<lambda>n. pokes_byte (concat pss) n 0) cs"
proof -
  have "(\<forall>(off, bs)\<in>set cs. \<forall>i<length bs. pokes_byte (concat pss) (off + i) old = bs ! i)
     \<and> (\<forall>n. (\<forall>(off, bs)\<in>set cs. n < off \<or> off + length bs \<le> n) \<longrightarrow> pokes_byte (concat pss) n old = old)" for old
    using assms
  proof (induction pss cs arbitrary: old rule: list_all2_induct)
    case (Cons ps pss c cs)
    obtain o1 bs1 where c: "c = (o1, bs1)" by (cases c)
    have w: "pokes_byte ps n x = (if o1 \<le> n \<and> n < o1 + length bs1 then bs1 ! (n - o1) else x)" for n x
      using Cons.hyps(1) by (simp add: writes_chunk_def c)
    note IH = Cons.IH [OF Cons.prems [unfolded sorted_wrt.simps, THEN conjunct2]]
    have "pokes_byte (concat (ps # pss)) (o1 + i) old = bs1 ! i" if i: "i < length bs1" for i
    proof -
      have "\<forall>(off, bs)\<in>set cs. o1 + i < off \<or> off + length bs \<le> o1 + i" using Cons.prems i by (fastforce simp: c apart_def)
      then show ?thesis using IH [of "pokes_byte ps (o1 + i) old"] i w by simp
    qed
    moreover have "pokes_byte (concat (ps # pss)) n old = old"
      if "\<forall>(off, bs)\<in>set (c # cs). n < off \<or> off + length bs \<le> n" for n
    proof -
      have "\<forall>(off, bs)\<in>set cs. n < off \<or> off + length bs \<le> n" "\<not> (o1 \<le> n \<and> n < o1 + length bs1)" using that by (auto simp: c)
      moreover from this(2) have "pokes_byte ps n old = old" unfolding w by (rule if_not_P)
      ultimately show ?thesis using IH [of old] by simp
    qed
    moreover have "\<forall>(off, bs)\<in>set cs. \<forall>i<length bs. pokes_byte (concat (ps # pss)) (off + i) old = bs ! i"
      using IH by fastforce
    ultimately show ?case by (simp add: c)
  qed simp
  then show ?thesis by (auto simp: holds_chunks_def)
qed


section \<open>The pages of SetupPeb\<close>

lemma USER_RW_addr: "USER_RW AND PTE_ADDR_MASK = 0"
  by (simp add: PTE_ADDR_MASK_def PTE_PRESENT_def PTE_USER_def PTE_WRITABLE_def)

text \<open>One page: allocated, zeroed and filled; stores xs into the frame p of an earlier page; mapped.\<close>
lemma env_page:
  assumes wf: "pt_wf v r" and R: "room v r (va # vas)" and A: "alloc_page v = (f, v1)"
    and ps: "list_all in_page ps" and xs: "list_all in_page xs" "xs = [] \<or> data_frame v r p"
  defines "w \<equiv> pokes f ps (zero_page f v1)"
  defines "v' \<equiv> snd (MapPageInto r va f USER_RW (pokes p xs w))"
  shows "f \<noteq> 0" "pt_wf v' r" "room v' r vas" "page_at v' r va f"
    "page_at v r u d \<Longrightarrow> \<not> same_page u va \<Longrightarrow> page_at v' r u d"
    "unat q + 8 \<le> 4096 \<Longrightarrow> rd64 v' (f + q) = rd64 w (f + q)"
    "data_frame v r d \<Longrightarrow> xs = [] \<or> d \<noteq> p \<Longrightarrow> unat q + 8 \<le> 4096 \<Longrightarrow> rd64 v' (d + q) = rd64 v (d + q)"
    "xs \<noteq> [] \<Longrightarrow> unat q + 8 \<le> 4096 \<Longrightarrow> list_all (clear_of q) xs \<Longrightarrow> rd64 v' (p + q) = rd64 v (p + q)"
    "xs = zs @ [Q e x] \<Longrightarrow> unat e + 8 \<le> 4096 \<Longrightarrow> rd64 v' (p + e) = x"
    "\<not> same_page u va \<Longrightarrow> TranslateInPml4 r u v' = TranslateInPml4 r u v"
    "data_frame v r d \<Longrightarrow> d \<noteq> f"
    "n < 4096 \<Longrightarrow> rd8 v' (f + of_nat n) = pokes_byte ps n 0"
    "n < 4096 \<Longrightarrow> data_frame v r d \<Longrightarrow> xs = [] \<or> d \<noteq> p \<Longrightarrow> rd8 v' (d + of_nat n) = rd8 v (d + of_nat n)"
    "n < 4096 \<Longrightarrow> xs \<noteq> [] \<Longrightarrow> rd8 v' (p + of_nat n) = pokes_byte xs n (rd8 v (p + of_nat n))"
proof -
  show f0: "f \<noteq> 0" by (rule alloc_page_room [OF wf R A])
  have inv: "pmm_inv (vm_pmm v)" using wf by (simp add: pt_wf_def)
  note P = alloc_page_frame [OF inv A f0]
  let ?F = "if xs = [] then {} else {p}"
  let ?v2 = "pokes p xs w"
  have F: "?F \<subseteq> Collect (data_frame v r)" using xs(2) by auto
  have psx: "\<And>x. x \<in> set ps \<Longrightarrow> in_page x" and xsx: "\<And>x. x \<in> set xs \<Longrightarrow> in_page x"
    using ps xs(1) by (simp_all add: list_all_iff)
  have fp: "p \<in> pmm_all_frames \<and> p \<noteq> f" if "xs \<noteq> []"
    using xs(2) that P(2) by (auto simp: data_frame_def dest: used_frame)
  have w: "writes_only v1 f w" unfolding w_def
    by (rule writes_in_trans [OF zero_page_only [OF P(1)] pokes_only [OF P(1) psx]])
  have W: "writes_in v1 (insert f ?F) ?v2"
  proof (cases "xs = []")
    case False
    then have "writes_only w p ?v2" using pokes_only [of p xs w] fp xsx by blast
    then show ?thesis using writes_in_trans [OF writes_in_mono [OF w] writes_in_mono] by auto
  qed (use w in simp)
  obtain b v3 where M: "MapPageInto r va f USER_RW ?v2 = (b, v3)" by fastforce
  then have v': "v' = v3" by (simp add: v'_def)
  note B = map_data_page_room [OF wf R A W M F]
  note S = map_data_page_in [OF wf A f0 W M USER_RW_addr F]
  note D = alloc_write_data(4,5) [OF wf A f0 W F]
  show "data_frame v r d \<Longrightarrow> d \<noteq> f" by (rule D(2))
  show "pt_wf v' r" "room v' r vas" "page_at v' r va f" using S(1,8) B by (simp_all add: v')
  show "page_at v r u d \<Longrightarrow> \<not> same_page u va \<Longrightarrow> page_at v' r u d" using S(9) by (simp add: v')
  show "\<not> same_page u va \<Longrightarrow> TranslateInPml4 r u v' = TranslateInPml4 r u v" using S(4) by (simp add: v')
  have wf2: "rd ?v2 f j = rd w f j" if "j < 512" for j
    using pokes_only [of p xs w] fp xsx that P(1) by (cases "xs = []") (auto simp: writes_in_def)
  show "rd64 v' (f + q) = rd64 w (f + q)" if "unat q + 8 \<le> 4096"
    by (rule rd64_frame_cong [OF P(1) that]) (use S(7) wf2 in \<open>simp add: v'\<close>)
  show "rd64 v' (d + q) = rd64 v (d + q)" if "data_frame v r d" "xs = [] \<or> d \<noteq> p" "unat q + 8 \<le> 4096"
    by (rule rd64_frame_cong) (use that S(6) D in \<open>auto simp: v' data_frame_def dest: used_frame\<close>)
  have pv: "rd64 v' (p + q) = rd64 ?v2 (p + q)" if "xs \<noteq> []" "unat q + 8 \<le> 4096" for q
    by (rule rd64_frame_cong) (use that fp S(6) [of p] xs(2) in \<open>auto simp: v'\<close>)
  have pw: "rd64 w (p + q) = rd64 v (p + q)" if "xs \<noteq> []" "unat q + 8 \<le> 4096" for q
    by (rule rd64_frame_cong) (use that fp w P(5) in \<open>auto simp: writes_in_def\<close>)
  show "rd64 v' (p + q) = rd64 v (p + q)" if "xs \<noteq> []" "unat q + 8 \<le> 4096" "list_all (clear_of q) xs"
    using rd64_pokes_clear [of q xs p w] pv pw that xsx by (simp add: list_all_iff)
  show "rd64 v' (p + e) = x" if "xs = zs @ [Q e x]" "unat e + 8 \<le> 4096"
    using pv [of e] that rd64_pokes [of xs zs e x "[]" p w] by simp
  show "rd8 v' (f + of_nat n) = pokes_byte ps n 0" if n: "n < 4096"
  proof -
    have "rd8 v' (f + of_nat n) = rd8 w (f + of_nat n)"
      by (rule rd8_frame_cong [OF P(1) n]) (use S(7) wf2 in \<open>simp add: v'\<close>)
    then show ?thesis unfolding w_def by (simp add: rd8_pokes [OF ps n] rd8_zero_page [OF n])
  qed
  show "rd8 v' (d + of_nat n) = rd8 v (d + of_nat n)" if "n < 4096" "data_frame v r d" "xs = [] \<or> d \<noteq> p"
    by (rule rd8_frame_cong) (use that S(6) D in \<open>auto simp: v' data_frame_def dest: used_frame\<close>)
  show "rd8 v' (p + of_nat n) = pokes_byte xs n (rd8 v (p + of_nat n))" if n: "n < 4096" and x: "xs \<noteq> []"
  proof -
    have fr: "p \<in> pmm_all_frames" using fp x by blast
    have "rd8 v' (p + of_nat n) = rd8 ?v2 (p + of_nat n)"
      by (rule rd8_frame_cong [OF fr n]) (use x S(6) [of p] xs(2) in \<open>auto simp: v'\<close>)
    moreover have "rd8 w (p + of_nat n) = rd8 v (p + of_nat n)"
      by (rule rd8_frame_cong [OF fr n]) (use x fp w P(5) in \<open>auto simp: writes_in_def\<close>)
    ultimately show ?thesis by (simp add: rd8_pokes [OF xs(1) n])
  qed
qed

definition ENV_VAS :: "u64 list" where "ENV_VAS = [PEB_VA, LDR_VA, PARAMS_VA, HEAP_VA]"

lemma env_pages_differ:
  "\<not> same_page PEB_VA LDR_VA" "\<not> same_page PEB_VA PARAMS_VA" "\<not> same_page PEB_VA HEAP_VA"
  "\<not> same_page LDR_VA PARAMS_VA" "\<not> same_page LDR_VA HEAP_VA" "\<not> same_page PARAMS_VA HEAP_VA"
  by (simp_all add: same_page_def take_bit_eq_mask mask_eq_exp_minus_1 drop_bit_eq_div
      PEB_VA_def LDR_VA_def PARAMS_VA_def HEAP_VA_def)

lemma peb_fields_in_page: "x \<in> set (peb_fields ib) \<Longrightarrow> in_page x"
  by (auto simp: peb_fields_def in_page_def)

lemma ldr_fields_in_page:
  assumes "length nm \<le> 31" "x \<in> set (ldr_fields ib nm)" shows "in_page x"
proof -
  have "in_page x" if "x \<in> set (wide LDR_BASENAME_OFF nm)"
    by (rule wide_ok(2) [of _ nm 0, OF _ _ that]) (use assms(1) in \<open>simp_all add: LDR_BASENAME_OFF_def\<close>)
  moreover have "in_page x" if "x \<in> set (wide LDR_FULLNAME_OFF nm)"
    by (rule wide_ok(2) [of _ nm 0, OF _ _ that]) (use assms(1) in \<open>simp_all add: LDR_FULLNAME_OFF_def\<close>)
  ultimately show ?thesis using assms(2)
    by (auto simp: ldr_fields_def in_page_def LDR_ENTRY_OFF_def Let_def)
qed

lemma image_path_length: "length nm \<le> 31 \<Longrightarrow> length (image_path nm) = 11 + length nm"
  by (simp add: image_path_def Let_def)

lemma params_fields_in_page:
  assumes "length nm \<le> 31" "x \<in> set (params_fields nm)" shows "in_page x"
proof -
  have "in_page x" if "x \<in> set (wide 0x100 (image_path nm))"
    by (rule wide_ok(2) [of _ "image_path nm" 0, OF _ _ that]) (use assms(1) in \<open>simp_all add: image_path_length\<close>)
  moreover have "in_page x" if "x \<in> set (wide 0x200 nm)"
    by (rule wide_ok(2) [of _ nm 0, OF _ _ that]) (use assms(1) in simp_all)
  ultimately show ?thesis using assms(2) by (auto simp: params_fields_def in_page_def Let_def)
qed

section \<open>Reading through the address space\<close>

text \<open>A 64-bit load of the process at a user address.\<close>
definition uread64 :: "vmm \<Rightarrow> u64 \<Rightarrow> u64 \<Rightarrow> u64" where
  "uread64 v r va = rd64 v (TranslateInPml4 r va v)"

lemma page_offset_plus:
  assumes "va AND 0xFFF = 0" "unat q < 4096"
  shows "same_page (va + q) va" "(va + q) AND 0xFFF = q"
proof -
  have m: "0xFFF = (mask 12 :: u64)" by (simp add: mask_eq_exp_minus_1)
  have tq: "take_bit 12 q = q" using assms(2) by (simp add: take_bit_word_eq_self word_unat_eq_iff unsigned_take_bit_eq take_bit_nat_eq_self)
  have tv: "take_bit 12 va = 0" using assms(1) by (simp add: m take_bit_eq_mask)
  have va: "\<not> bit va n" if "n < 12" for n
    using that bit_take_bit_iff [of 12 va n] tv by simp
  have q: "\<not> bit q n" if "12 \<le> n" for n
    using that bit_take_bit_iff [of 12 q n] tq by auto
  have "\<not> bit va n \<or> \<not> bit q n" for n using va q by (cases "n < 12") auto
  then have e: "va + q = va OR q" by (simp add: disjunctive_add)
  show "(va + q) AND 0xFFF = q" unfolding e m
  proof (rule bit_word_eqI)
    fix n show "bit ((va OR q) AND mask 12) n = bit q n"
      using va [of n] q [of n] by (cases "n < 12") (auto simp: bit_simps)
  qed
  have "drop_bit 12 (va OR q) = drop_bit 12 va"
    by (rule bit_word_eqI) (use q in \<open>auto simp: bit_simps\<close>)
  then show "same_page (va + q) va" unfolding same_page_def e by simp
qed

lemma page_read:
  assumes "page_at v r va f" "va AND 0xFFF = 0" "unat q + 8 \<le> 4096"
  shows "uread64 v r (va + q) = rd64 v (f + q)"
  using assms page_offset_plus [of va q] by (simp add: uread64_def page_at_def)

lemma env_vas_aligned: "PEB_VA AND 0xFFF = 0" "LDR_VA AND 0xFFF = 0" "PARAMS_VA AND 0xFFF = 0" "HEAP_VA AND 0xFFF = 0"
  "TEB_BASE AND 0xFFF = 0"
  by (simp_all add: PEB_VA_def LDR_VA_def PARAMS_VA_def HEAP_VA_def TEB_BASE_def)

section \<open>The environment block\<close>

text \<open>What the process reads: the PEB, the circular loader lists with the entry of the main image,
  and the parameters.\<close>
definition env_ok :: "vmm \<Rightarrow> u64 \<Rightarrow> u64 \<Rightarrow> bool" where
  "env_ok v r base \<longleftrightarrow>
     uread64 v r (PEB_VA + 0x10) = base \<and> uread64 v r (PEB_VA + 0x18) = LDR_VA
     \<and> uread64 v r (PEB_VA + 0x20) = PARAMS_VA \<and> uread64 v r (PEB_VA + 0x30) = HEAP_VA
     \<and> (\<forall>k \<in> {0x00, 0x10, 0x20}. uread64 v r (LDR_VA + 0x10 + k) = LDR_VA + 0x80 + k
          \<and> uread64 v r (LDR_VA + 0x80 + k) = LDR_VA + 0x10 + k)
     \<and> uread64 v r (LDR_VA + 0xB0) = base
     \<and> uread64 v r (PARAMS_VA + 0x68) = PARAMS_VA + 0x100 \<and> uread64 v r (PARAMS_VA + 0x78) = PARAMS_VA + 0x200"

text \<open>The pages of the environment are four different data frames.\<close>
definition env_pages :: "vmm \<Rightarrow> u64 \<Rightarrow> u64 \<Rightarrow> u64 \<Rightarrow> u64 \<Rightarrow> u64 \<Rightarrow> bool" where
  "env_pages v r f1 f2 f3 f4 \<longleftrightarrow> page_at v r PEB_VA f1 \<and> page_at v r LDR_VA f2 \<and> page_at v r PARAMS_VA f3
     \<and> page_at v r HEAP_VA f4 \<and> distinct [f1, f2, f3, f4]"

text \<open>The PEB: image base, loader data, parameters, heap, version 10.0.26100 on platform 2 (NT).\<close>
definition peb_page :: "u64 \<Rightarrow> (nat \<times> u8 list) list" where
  "peb_page base = [(0x010, num_bytes 8 (unat base)), (0x018, num_bytes 8 0x7FFFE001000), (0x118, num_bytes 4 10), (0x11C, num_bytes 4 0),
     (0x120, num_bytes 2 26100), (0x124, num_bytes 4 2), (0x020, num_bytes 8 0x7FFFE002000), (0x030, num_bytes 8 0x7FFFE003000)]"

text \<open>The loader data: its length and flag, the heads of the three circular lists and the entry of the image in them, the base, entry
  point and size, the full and the base name as counted strings with their buffers.\<close>
definition ldr_page :: "u64 \<Rightarrow> cstr \<Rightarrow> (nat \<times> u8 list) list" where
  "ldr_page base nm =
    [(0x00, num_bytes 4 0x58), (0x04, num_bytes 4 1),
     (0x10, num_bytes 8 0x7FFFE001080), (0x18, num_bytes 8 0x7FFFE001080), (0x20, num_bytes 8 0x7FFFE001090), (0x28, num_bytes 8 0x7FFFE001090),
     (0x30, num_bytes 8 0x7FFFE0010A0), (0x38, num_bytes 8 0x7FFFE0010A0),
     (0x80, num_bytes 8 0x7FFFE001010), (0x88, num_bytes 8 0x7FFFE001010), (0x90, num_bytes 8 0x7FFFE001020), (0x98, num_bytes 8 0x7FFFE001020),
     (0xA0, num_bytes 8 0x7FFFE001030), (0xA8, num_bytes 8 0x7FFFE001030),
     (0xB0, num_bytes 8 (unat base)), (0xB8, num_bytes 8 0), (0xC0, num_bytes 4 0),
     (0xC8, num_bytes 2 (2 * length nm)), (0xCA, num_bytes 2 (2 * length nm + 2)), (0xD0, num_bytes 8 0x7FFFE001200),
     (0xD8, num_bytes 2 (2 * length nm)), (0xDA, num_bytes 2 (2 * length nm + 2)), (0xE0, num_bytes 8 0x7FFFE001140),
     (0x140, wide_bytes nm), (0x200, wide_bytes nm)]"

text \<open>The parameters: sizes, the path of the image below C:\\Windows and the command line as counted strings with their buffers.\<close>
definition params_page :: "cstr \<Rightarrow> (nat \<times> u8 list) list" where
  "params_page nm = (let path = ''C:'' @ [CHR 0x5C] @ ''Windows'' @ [CHR 0x5C] @ nm in
    [(0x00, num_bytes 4 4096), (0x04, num_bytes 4 4096), (0x100, wide_bytes path),
     (0x60, num_bytes 2 (2 * length path)), (0x62, num_bytes 2 (2 * length path + 2)), (0x68, num_bytes 8 0x7FFFE002100),
     (0x200, wide_bytes nm), (0x70, num_bytes 2 (2 * length nm)), (0x72, num_bytes 2 (2 * length nm + 2)), (0x78, num_bytes 8 0x7FFFE002200)])"

lemma writes_chunk_val:
  "unat off = k \<Longrightarrow> unat a = m \<Longrightarrow> writes_chunk [Q off a] (k, num_bytes 8 m)"
  "unat off = k \<Longrightarrow> unat b = m \<Longrightarrow> writes_chunk [D off b] (k, num_bytes 4 m)"
  "unat off = k \<Longrightarrow> unat c = m \<Longrightarrow> writes_chunk [W off c] (k, num_bytes 2 m)"
  using writes_chunk_1 [of "Q off a"] writes_chunk_1 [of "D off b"] writes_chunk_1 [of "W off c"] by auto

lemma twice_length:
  assumes "k \<le> 100"
  shows "unat (ucast ((of_nat k :: u32) * 2) :: u16) = 2 * k" "unat (ucast ((of_nat k :: u32) * 2 + 2) :: u16) = 2 * k + 2"
proof -
  have e: "(of_nat k :: u32) * 2 = of_nat (2 * k)" "(of_nat k :: u32) * 2 + 2 = of_nat (2 * k + 2)" by (simp_all add: mult.commute)
  have n: "unat (ucast (of_nat n :: u32) :: u16) = n" if "n \<le> 202" for n
    using that by (simp add: unsigned_ucast_eq unat_of_nat take_bit_nat_def)
  show "unat (ucast ((of_nat k :: u32) * 2) :: u16) = 2 * k" unfolding e(1) by (rule n) (use assms in simp)
  show "unat (ucast ((of_nat k :: u32) * 2 + 2) :: u16) = 2 * k + 2" unfolding e(2) by (rule n) (use assms in simp)
qed

lemma peb_chunks: "holds_chunks (\<lambda>n. pokes_byte (peb_fields ib @ [Q 0x20 PARAMS_VA, Q 0x30 HEAP_VA]) n 0) (peb_page ib)"
proof -
  let ?pss = "map (\<lambda>p. [p]) (peb_fields ib @ [Q 0x20 PARAMS_VA, Q 0x30 HEAP_VA])"
  have "list_all2 writes_chunk ?pss (peb_page ib)"
    by (simp add: peb_fields_def peb_page_def writes_chunk_val LDR_VA_def PARAMS_VA_def HEAP_VA_def PEB_VA_def OS_MAJOR_def OS_MINOR_def OS_BUILD_def)
  from pokes_holds [OF this] show ?thesis by (simp add: peb_page_def apart_def)
qed

lemma ldr_chunks:
  assumes "length nm \<le> 31"
  shows "holds_chunks (\<lambda>n. pokes_byte (ldr_fields ib nm) n 0) (ldr_page ib nm)"
proof -
  let ?pss = "map (\<lambda>p. [p]) (take 23 (ldr_fields ib nm)) @ [wide LDR_BASENAME_OFF nm, wide LDR_FULLNAME_OFF nm]"
  have w: "writes_chunk (wide LDR_BASENAME_OFF nm) (0x140, wide_bytes nm)" "writes_chunk (wide LDR_FULLNAME_OFF nm) (0x200, wide_bytes nm)"
    using writes_chunk_wide [of LDR_BASENAME_OFF nm] writes_chunk_wide [of LDR_FULLNAME_OFF nm] assms
    by (simp_all add: LDR_BASENAME_OFF_def LDR_FULLNAME_OFF_def)
  have "list_all2 writes_chunk ?pss (ldr_page ib nm)"
    using assms by (simp add: ldr_fields_def ldr_page_def Let_def w)
      (simp add: writes_chunk_val twice_length LDR_VA_def PEB_VA_def LDR_ENTRY_OFF_def LDR_FULLNAME_OFF_def LDR_BASENAME_OFF_def)
  moreover have "sorted_wrt apart (ldr_page ib nm)" using assms by (simp add: ldr_page_def apart_def)
  moreover have "concat ?pss = ldr_fields ib nm" by (simp add: ldr_fields_def Let_def)
  ultimately show ?thesis using pokes_holds by fastforce
qed

lemma params_chunks:
  assumes "length nm \<le> 31"
  shows "holds_chunks (\<lambda>n. pokes_byte (params_fields nm) n 0) (params_page nm)"
proof -
  let ?path = "''C:'' @ [CHR 0x5C] @ ''Windows'' @ [CHR 0x5C] @ nm"
  have p: "image_path nm = ?path" "length ?path \<le> 100" using assms by (simp_all add: image_path_def Let_def)
  let ?pss = "[[D 0x00 (of_nat PAGE_SIZE)], [D 0x04 (of_nat PAGE_SIZE)], wide 0x100 ?path,
     [W 0x60 (ucast ((of_nat (length ?path) :: u32) * 2))], [W 0x62 (ucast ((of_nat (length ?path) :: u32) * 2 + 2))], [Q 0x68 (PARAMS_VA + 0x100)],
     wide 0x200 nm, [W 0x70 (ucast ((of_nat (length nm) :: u32) * 2))], [W 0x72 (ucast ((of_nat (length nm) :: u32) * 2 + 2))], [Q 0x78 (PARAMS_VA + 0x200)]]"
  have w: "writes_chunk (wide 0x100 ?path) (0x100, wide_bytes ?path)" "writes_chunk (wide 0x200 nm) (0x200, wide_bytes nm)"
    using writes_chunk_wide [of "0x100" ?path] writes_chunk_wide [of "0x200" nm] assms by simp_all
  have "list_all2 writes_chunk ?pss (params_page nm)"
    unfolding params_page_def Let_def list_all2_Cons list_all2_Nil
    by (intro conjI w writes_chunk_val twice_length p(2) TrueI) (use assms in \<open>simp_all add: PARAMS_VA_def PEB_VA_def PAGE_SIZE_def\<close>)
  moreover have "sorted_wrt apart (params_page nm)" using assms by (simp add: params_page_def apart_def Let_def)
  moreover have "concat ?pss = params_fields nm" unfolding params_fields_def p(1) Let_def by simp
  ultimately show ?thesis using pokes_holds by fastforce
qed

text \<open>The whole environment, byte by byte: the four pages are mapped and hold the chunks above, the heap page zeros.\<close>
definition env_bytes :: "vmm \<Rightarrow> u64 \<Rightarrow> u64 \<Rightarrow> cstr \<Rightarrow> bool" where
  "env_bytes v r base nm \<longleftrightarrow>
    (\<forall>(va, cs) \<in> {(PEB_VA, peb_page base), (LDR_VA, ldr_page base nm), (PARAMS_VA, params_page nm), (HEAP_VA, [])}.
       (\<forall>n<4096. TranslateInPml4 r (va + of_nat n) v \<noteq> 0)
       \<and> holds_chunks (\<lambda>n. rd8 v (TranslateInPml4 r (va + of_nat n) v)) cs)"

lemma page_chunks:
  assumes "page_at v r va f" "va AND 0xFFF = 0" "\<And>n. n < 4096 \<Longrightarrow> rd8 v (f + of_nat n) = g n"
    and "holds_chunks g cs" "\<forall>(off, bs)\<in>set cs. off + length bs \<le> 4096"
  shows "(\<forall>n<4096. TranslateInPml4 r (va + of_nat n) v \<noteq> 0) \<and> holds_chunks (\<lambda>n. rd8 v (TranslateInPml4 r (va + of_nat n) v)) cs"
proof -
  have f: "f \<in> pmm_all_frames" "f \<noteq> 0" using assms(1) by (auto simp: page_at_def data_frame_def dest: used_frame)
  have t: "TranslateInPml4 r (va + of_nat n) v = f + of_nat n" if "n < 4096" for n
  proof -
    have "unat (of_nat n :: u64) < 4096" using that by (simp add: unat_of_nat64)
    from page_offset_plus [OF assms(2) this] show ?thesis using assms(1) by (simp add: page_at_def)
  qed
  have "f + of_nat n \<noteq> 0" if "n < 4096" for n
  proof -
    have "unat (f + of_nat n) = unat f + n" by (rule frame_byte(3) [OF f(1) that])
    then show ?thesis using f(2) by (metis add_eq_0_iff_both_eq_0 unat_eq_0 unat_0)
  qed
  moreover have g: "rd8 v (TranslateInPml4 r (va + of_nat n) v) = g n" if "n < 4096" for n using t [OF that] assms(3) [OF that] by simp
  have "holds_chunks (\<lambda>n. rd8 v (TranslateInPml4 r (va + of_nat n) v)) cs"
    unfolding holds_chunks_def
  proof (intro conjI ballI allI impI)
    fix c assume c: "c \<in> set cs"
    obtain off bs where cc: "c = (off, bs)" by (cases c)
    have "off + i < 4096" if "i < length bs" for i using assms(5) c that cc by fastforce
    then show "case c of (off, bs) \<Rightarrow> \<forall>i<length bs. rd8 v (TranslateInPml4 r (va + of_nat (off + i)) v) = bs ! i"
      using g assms(4) c unfolding cc holds_chunks_def by fastforce
  next
    fix n assume "n < 4096" "\<forall>(off, bs)\<in>set cs. n < off \<or> off + length bs \<le> n"
    then show "rd8 v (TranslateInPml4 r (va + of_nat n) v) = 0" using g assms(4) unfolding holds_chunks_def by simp
  qed
  ultimately show ?thesis using t by simp
qed

lemma peb_values:
  "rd64 (pokes f (peb_fields ib) s) (f + 0x10) = ib" "rd64 (pokes f (peb_fields ib) s) (f + 0x18) = LDR_VA"
proof -
  show "rd64 (pokes f (peb_fields ib) s) (f + 0x10) = ib"
    by (rule rd64_pokes [of _ "[]" _ _ "drop 1 (peb_fields ib)"]) (auto simp: peb_fields_def clear_of_def in_page_def)
  show "rd64 (pokes f (peb_fields ib) s) (f + 0x18) = LDR_VA"
    by (rule rd64_pokes [of _ "take 1 (peb_fields ib)" _ _ "drop 2 (peb_fields ib)"]) (auto simp: peb_fields_def clear_of_def in_page_def)
qed

lemma ldr_value:
  assumes "length nm \<le> 31" "i < 23" "ldr_fields ib nm ! i = Q q v" "unat q < 0x100"
    and "\<And>p. p \<in> set (drop (Suc i) (take 23 (ldr_fields ib nm))) \<Longrightarrow> clear_of q p"
  shows "rd64 (pokes f (ldr_fields ib nm) s) (f + q) = v"
proof (rule rd64_pokes)
  have l: "ldr_fields ib nm = take 23 (ldr_fields ib nm) @ wide LDR_BASENAME_OFF nm @ wide LDR_FULLNAME_OFF nm"
    and n: "length (ldr_fields ib nm) \<ge> 23" by (simp_all add: ldr_fields_def Let_def)
  show e: "ldr_fields ib nm = take i (ldr_fields ib nm) @ Q q v # drop (Suc i) (ldr_fields ib nm)"
    using id_take_nth_drop [of i "ldr_fields ib nm"] n assms(2,3) by simp
  show "unat q < 4096" using assms(4) by simp
  fix p assume p: "p \<in> set (drop (Suc i) (ldr_fields ib nm))"
  have d: "drop (Suc i) (ldr_fields ib nm) = drop (Suc i) (take 23 (ldr_fields ib nm)) @ wide LDR_BASENAME_OFF nm @ wide LDR_FULLNAME_OFF nm"
    using arg_cong [OF l, of "drop (Suc i)"] assms(2) n by simp
  have w1: "clear_of q p" if "p \<in> set (wide LDR_BASENAME_OFF nm)"
    by (rule wide_ok(1) [OF _ _ that]) (use assms(1,4) in \<open>simp_all add: LDR_BASENAME_OFF_def\<close>)
  have w2: "clear_of q p" if "p \<in> set (wide LDR_FULLNAME_OFF nm)"
    by (rule wide_ok(1) [OF _ _ that]) (use assms(1,4) in \<open>simp_all add: LDR_FULLNAME_OFF_def\<close>)
  have "clear_of q p" using p assms(5) w1 w2 unfolding d by auto
  moreover have "in_page p" using ldr_fields_in_page [OF assms(1)] p by (auto dest: in_set_dropD)
  ultimately show "clear_of q p \<and> in_page p" by simp
qed

lemma ldr_values:
  assumes "length nm \<le> 31"
  shows "rd64 (pokes f (ldr_fields ib nm) s) (f + 0x10) = LDR_VA + 0x80"
    "rd64 (pokes f (ldr_fields ib nm) s) (f + 0x20) = LDR_VA + 0x90"
    "rd64 (pokes f (ldr_fields ib nm) s) (f + 0x30) = LDR_VA + 0xA0"
    "rd64 (pokes f (ldr_fields ib nm) s) (f + 0x80) = LDR_VA + 0x10"
    "rd64 (pokes f (ldr_fields ib nm) s) (f + 0x90) = LDR_VA + 0x20"
    "rd64 (pokes f (ldr_fields ib nm) s) (f + 0xA0) = LDR_VA + 0x30"
    "rd64 (pokes f (ldr_fields ib nm) s) (f + 0xB0) = ib"
  by (rule ldr_value [OF assms, of 2 _ "0x10"] ldr_value [OF assms, of 4 _ "0x20"] ldr_value [OF assms, of 6 _ "0x30"]
      ldr_value [OF assms, of 8 _ "0x80"] ldr_value [OF assms, of 10 _ "0x90"] ldr_value [OF assms, of 12 _ "0xA0"]
      ldr_value [OF assms, of 14 _ "0xB0"];
      auto simp: ldr_fields_def LDR_ENTRY_OFF_def clear_of_def Let_def)+

lemma page_at_data: "page_at v r w f \<Longrightarrow> data_frame v r f" by (simp add: page_at_def)

lemma params_values:
  assumes "length nm \<le> 31"
  shows "rd64 (pokes f (params_fields nm) s) (f + 0x68) = PARAMS_VA + 0x100"
    "rd64 (pokes f (params_fields nm) s) (f + 0x78) = PARAMS_VA + 0x200"
proof -
  define ys where "ys = wide 0x200 nm @ [W 0x70 (ucast ((of_nat (length nm) :: u32) * 2)),
    W 0x72 (ucast ((of_nat (length nm) :: u32) * 2 + 2)), Q 0x78 (PARAMS_VA + 0x200)]"
  obtain xs where e: "params_fields nm = xs @ Q 0x68 (PARAMS_VA + 0x100) # ys"
  proof
    show "params_fields nm = ([D 0x00 (of_nat PAGE_SIZE), D 0x04 (of_nat PAGE_SIZE)] @ wide 0x100 (image_path nm)
      @ [W 0x60 (ucast ((of_nat (length (image_path nm)) :: u32) * 2)), W 0x62 (ucast ((of_nat (length (image_path nm)) :: u32) * 2 + 2))])
      @ Q 0x68 (PARAMS_VA + 0x100) # ys"
      by (simp add: params_fields_def ys_def Let_def)
  qed
  have "clear_of 0x68 x \<and> in_page x" if "x \<in> set ys" for x
  proof -
    have "clear_of 0x68 x" if "x \<in> set (wide 0x200 nm)"
      by (rule wide_ok(1) [OF _ _ that]) (use assms in simp_all)
    then show ?thesis using params_fields_in_page [OF assms, of x] that by (auto simp: e ys_def clear_of_def)
  qed
  from rd64_pokes [OF e _ this] show "rd64 (pokes f (params_fields nm) s) (f + 0x68) = PARAMS_VA + 0x100" by simp
  have "params_fields nm = butlast (params_fields nm) @ Q 0x78 (PARAMS_VA + 0x200) # []"
    by (simp add: params_fields_def Let_def butlast_append)
  from rd64_pokes [OF this] show "rd64 (pokes f (params_fields nm) s) (f + 0x78) = PARAMS_VA + 0x200" by simp
qed

lemma fields_in_page: "list_all in_page (peb_fields ib)"
  "length nm \<le> 31 \<Longrightarrow> list_all in_page (ldr_fields ib nm)" "length nm \<le> 31 \<Longrightarrow> list_all in_page (params_fields nm)"
  using peb_fields_in_page ldr_fields_in_page params_fields_in_page by (auto simp: list_all_iff)

text \<open>The whole of SetupPeb after the first frame p was allocated.\<close>
lemma SetupPeb_pages:
  fixes ib :: u64
  assumes wf: "pt_wf v r" and R: "room v r ENV_VAS" and A: "alloc_page v = (p, v1)" and len: "length nm \<le> 31"
  defines "v2 \<equiv> snd (MapPageInto r PEB_VA p USER_RW (pokes p (peb_fields ib) (zero_page p v1)))"
  defines "v' \<equiv> SetupLdr r p ib nm v2"
  shows "p \<noteq> 0" "pt_wf v' r" "\<exists>f2 f3 f4. env_pages v' r p f2 f3 f4" "env_ok v' r ib"
    "(\<And>va. va \<in> set ENV_VAS \<Longrightarrow> \<not> same_page u va) \<Longrightarrow> TranslateInPml4 r u v' = TranslateInPml4 r u v"
    "env_bytes v' r ib nm"
proof -
  note ne = env_pages_differ
  have x: "list_all in_page [Q 0x20 PARAMS_VA]" "list_all in_page [Q 0x30 HEAP_VA]" by (simp_all add: in_page_def)
  note nil = list.pred_inject(1)
  note E1 = env_page [OF wf R [unfolded ENV_VAS_def] A fields_in_page(1) [of ib] nil disjI1 [OF refl], simplified pokes_simps, folded v2_def]
  obtain f2 v3 where A2: "alloc_page v2 = (f2, v3)" by fastforce
  define v4 where "v4 = snd (MapPageInto r LDR_VA f2 USER_RW (pokes f2 (ldr_fields ib nm) (zero_page f2 v3)))"
  note E2 = env_page [OF E1(2,3) A2 fields_in_page(2) [OF len, of ib] nil disjI1 [OF refl], simplified pokes_simps, folded v4_def]
  obtain f3 v5 where A3: "alloc_page v4 = (f3, v5)" by fastforce
  define v6 where "v6 = snd (MapPageInto r PARAMS_VA f3 USER_RW (pokes p [Q 0x20 PARAMS_VA] (pokes f3 (params_fields nm) (zero_page f3 v5))))"
  have p4: "page_at v4 r PEB_VA p" "page_at v4 r LDR_VA f2" using E2(4) E2(5) [OF E1(4)] ne by simp_all
  note D4 = p4 [THEN page_at_data]
  note E3 = env_page [OF E2(2,3) A3 fields_in_page(3) [OF len] x(1) disjI2 [OF D4(1)], folded v6_def]
  obtain f4 v7 where A4: "alloc_page v6 = (f4, v7)" by fastforce
  define v8 where "v8 = snd (MapPageInto r HEAP_VA f4 USER_RW (pokes p [Q 0x30 HEAP_VA] (pokes f4 [] (zero_page f4 v7))))"
  have p6: "page_at v6 r PEB_VA p" "page_at v6 r LDR_VA f2" "page_at v6 r PARAMS_VA f3"
    using E3(4) E3(5) [OF p4(1)] E3(5) [OF p4(2)] ne by simp_all
  note D6 = p6 [THEN page_at_data]
  note E4 = env_page [OF E3(2,3) A4 nil x(2) disjI2 [OF D6(1)], folded v8_def]
  have "v' = SetupParams r p nm v4" using E2(1) by (simp add: v'_def SetupLdr_def A2 v4_def Let_def)
  also have "\<dots> = SetupHeapPage r p v6" using E3(1) by (simp add: SetupParams_def A3 v6_def Let_def)
  also have "\<dots> = v8" using E4(1) by (simp add: SetupHeapPage_def A4 v8_def)
  finally have v': "v' = v8" .
  show "p \<noteq> 0" "pt_wf v' r" unfolding v' by (rule E1(1) E4(2))+
  have pg: "page_at v' r PEB_VA p" "page_at v' r LDR_VA f2" "page_at v' r PARAMS_VA f3" "page_at v' r HEAP_VA f4"
    unfolding v' using E4(4) E4(5) [OF p6(1)] E4(5) [OF p6(2)] E4(5) [OF p6(3)] ne by simp_all
  have d: "f2 \<noteq> p" "f3 \<noteq> p" "f3 \<noteq> f2" "f4 \<noteq> p" "f4 \<noteq> f2" "f4 \<noteq> f3"
    using E2(11) [OF E1(4) [THEN page_at_data]] E3(11) [OF D4(1)] E3(11) [OF D4(2)] E4(11) [OF D6(1)] E4(11) [OF D6(2)] E4(11) [OF D6(3)]
    by auto
  show "\<exists>f2 f3 f4. env_pages v' r p f2 f3 f4" using pg d unfolding env_pages_def by (intro exI [of _ f2] exI [of _ f3] exI [of _ f4]) auto
  show "TranslateInPml4 r u v' = TranslateInPml4 r u v" if "\<And>va. va \<in> set ENV_VAS \<Longrightarrow> \<not> same_page u va"
    unfolding v' using that [of PEB_VA] that [of LDR_VA] that [of PARAMS_VA] that [of HEAP_VA] E1(10) E2(10) E3(10) E4(10) by (simp add: ENV_VAS_def)
  have P2: "rd64 v2 (p + 0x10) = ib" "rd64 v2 (p + 0x18) = LDR_VA" using E1(6) peb_values by simp_all
  have P4: "rd64 v4 (p + q) = rd64 v2 (p + q)" if "unat q + 8 \<le> 4096" for q
    using E2(7) [OF E1(4) [THEN page_at_data]] that by simp
  have P6: "rd64 v6 (p + 0x10) = ib" "rd64 v6 (p + 0x18) = LDR_VA" "rd64 v6 (p + 0x20) = PARAMS_VA"
    using E3(8) [of "0x10"] E3(8) [of "0x18"] E3(9) [of "[]" "0x20" PARAMS_VA] P2 P4 by (simp_all add: clear_of_def)
  have P8: "rd64 v' (p + 0x10) = ib" "rd64 v' (p + 0x18) = LDR_VA" "rd64 v' (p + 0x20) = PARAMS_VA" "rd64 v' (p + 0x30) = HEAP_VA"
    unfolding v' using E4(8) [of "0x10"] E4(8) [of "0x18"] E4(8) [of "0x20"] E4(9) [of "[]" "0x30" HEAP_VA] P6 by (simp_all add: clear_of_def)
  have L: "rd64 v' (f2 + q) = rd64 (pokes f2 (ldr_fields ib nm) (zero_page f2 v3)) (f2 + q)" if "unat q + 8 \<le> 4096" for q
    unfolding v' using E4(7) [OF D6(2)] E3(7) [OF D4(2)] E2(6) that d by simp
  have A: "rd64 v' (f3 + q) = rd64 (pokes f3 (params_fields nm) (zero_page f3 v5)) (f3 + q)" if "unat q + 8 \<le> 4096" for q
    unfolding v' using E4(7) [OF D6(3)] E3(6) that d by simp
  have B1: "rd8 v' (p + of_nat n) = pokes_byte (peb_fields ib @ [Q 0x20 PARAMS_VA, Q 0x30 HEAP_VA]) n 0" if "n < 4096" for n
    unfolding v' using E4(14) E3(14) E2(13) [OF that E1(4) [THEN page_at_data]] E1(12) that by simp
  have B2: "rd8 v' (f2 + of_nat n) = pokes_byte (ldr_fields ib nm) n 0" if "n < 4096" for n
    unfolding v' using E4(13) [OF that D6(2)] E3(13) [OF that D4(2)] E2(12) [OF that] d by simp
  have B3: "rd8 v' (f3 + of_nat n) = pokes_byte (params_fields nm) n 0" if "n < 4096" for n
    unfolding v' using E4(13) [OF that D6(3)] E3(12) [OF that] d by simp
  have B4: "rd8 v' (f4 + of_nat n) = 0" if "n < 4096" for n unfolding v' using E4(12) [OF that] by simp
  show "env_bytes v' r ib nm" unfolding env_bytes_def
    using page_chunks [OF pg(1) env_vas_aligned(1) B1 peb_chunks] page_chunks [OF pg(2) env_vas_aligned(2) B2 ldr_chunks [OF len]]
      page_chunks [OF pg(3) env_vas_aligned(3) B3 params_chunks [OF len]] page_chunks [OF pg(4) env_vas_aligned(4) B4, of "[]"] len
    by (simp add: peb_page_def ldr_page_def params_page_def Let_def) (simp add: holds_chunks_def)
  note rl = page_read [OF pg(2) env_vas_aligned(2)]
  show "env_ok v' r ib" unfolding env_ok_def
    using page_read [OF pg(1) env_vas_aligned(1)] P8 page_read [OF pg(3) env_vas_aligned(3)] A params_values [OF len]
      rl [of "0x10"] rl [of "0x20"] rl [of "0x30"] rl [of "0x80"] rl [of "0x90"] rl [of "0xA0"] rl [of "0xB0"] L ldr_values [OF len]
    by (simp add: add.assoc)
qed

section \<open>Creating a process and recording its image\<close>

lemma set_proc_sel [simp]: "p_vmm (set_proc p f s) = p_vmm s" "the_proc (set_proc p f s) q = (if q = p then f (the_proc s p) else the_proc s q)"
  "s_next_pid (set_proc p f s) = s_next_pid s" "s_proc_reg (p_sys (set_proc p f s)) = s_proc_reg (p_sys s)"
  by (simp_all add: set_proc_def)

lemma register_process_sel [simp]: "p_vmm (register_process p s) = p_vmm s" "the_proc (register_process p s) = the_proc s"
  "s_next_pid (register_process p s) = s_next_pid s"
  by (simp_all add: register_process_def)

lemma new_process_sel:
  assumes "new_process s = (Some p, s')"
  shows "p_vmm s' = p_vmm s" "the_proc s' p = KProcess0" "s_next_pid s' = s_next_pid s" "s_proc_reg (p_sys s') = s_proc_reg (p_sys s)"
  using assms by (auto simp: new_process_def set_proc_def Let_def split: prod.splits if_splits)

lemma CreateProcess_env:
  assumes "CreateProcess nm cr3 s = (Some p, s')" "cr3 \<noteq> 0"
    and "pt_wf (p_vmm s) cr3" "room (p_vmm s) cr3 ENV_VAS"
  shows "pt_wf (p_vmm s') cr3 \<and> (\<exists>f1 f2 f3 f4. env_pages (p_vmm s') cr3 f1 f2 f3 f4)
    \<and> s_proc_reg (p_sys s') = s_proc_reg (p_sys (register_process p s)) \<and> env_ok (p_vmm s') cr3 0
    \<and> env_bytes (p_vmm s') cr3 0 (case nm of None \<Rightarrow> [] | Some n \<Rightarrow> take 31 n)
    \<and> Pid (the_proc s' p) = s_next_pid s \<and> s_next_pid s' = s_next_pid s + 1
    \<and> Cr3 (the_proc s' p) = cr3 \<and> PebVa (the_proc s' p) = PEB_VA \<and> NextTebVa (the_proc s' p) = TEB_BASE
    \<and> (\<forall>u. (\<forall>va\<in>set ENV_VAS. \<not> same_page u va) \<longrightarrow> TranslateInPml4 cr3 u (p_vmm s') = TranslateInPml4 cr3 u (p_vmm s))"
proof -
  obtain s1 where N: "new_process s = (Some p, s1)" using assms(1)
    by (auto simp: CreateProcess_def split: prod.splits option.splits)
  note n = new_process_sel [OF N]
  define k where "k = KProcess0\<lparr>Pid := s_next_pid s, PFlags := 0, Cr3 := cr3, UserHeapCursor := 0x500000000,
    PName := (case nm of None \<Rightarrow> PName KProcess0 | Some n \<Rightarrow> copy_name n)\<rparr>"
  define s2 where "s2 = register_process p ((set_proc p (\<lambda>k. k\<lparr>Pid := s_next_pid s1, PFlags := 0,
              Cr3 := (if cr3 \<noteq> 0 then cr3 else current_cr3 s1), UserHeapCursor := 0x500000000,
              PName := (case nm of None \<Rightarrow> PName k | Some n \<Rightarrow> copy_name n)\<rparr>) s1)\<lparr>s_next_pid := s_next_pid s1 + 1\<rparr>)"
  have s': "s' = SetupPeb p s2" using assms(1) N by (simp add: CreateProcess_def s2_def)
  have k2: "the_proc s2 p = k" "p_vmm s2 = p_vmm s" "s_next_pid s2 = s_next_pid s + 1"
    "s_proc_reg (p_sys s2) = s_proc_reg (p_sys (register_process p s))"
    using assms(2) n by (simp_all add: s2_def k_def register_process_def split: option.split)
  have k: "Cr3 k = cr3" "ImageBase k = 0" "length (PName k) \<le> 31"
    by (auto simp: k_def KProcess0_def copy_name_def split: option.splits)
  obtain f v1 where A: "alloc_page (p_vmm s) = (f, v1)" by fastforce
  have kn: "PName k = (case nm of None \<Rightarrow> [] | Some n \<Rightarrow> take 31 n)"
    by (simp add: k_def KProcess0_def copy_name_def split: option.split)
  note E = SetupPeb_pages(2,3,4,5,6) [OF assms(3,4) A k(3), where ib = 0] SetupPeb_pages(1) [OF assms(3,4) A k(3)]
  show ?thesis
    using E assms(2) k2(3,4) kn by (auto simp: s' SetupPeb_def k2(1,2) k A Let_def) (simp_all add: k_def)
qed

text \<open>C17 (functional): a new process in a well-formed address space, with frames for its environment.  The
  process gets the next number, and through its own tables it reads, byte for byte, the PEB with
  its image base (still 0), the loader data with three circular lists of one entry that holds the
  name, the parameters with the image path and the command line as counted 16-bit strings (the name
  cut at 31 characters), and a page of zeros as heap.  No other address changes its translation.\<close>
theorem process_environment:
  assumes "CreateProcess nm cr3 s = (Some p, s')" "cr3 \<noteq> 0"
    and "pt_wf (p_vmm s) cr3" "room (p_vmm s) cr3 ENV_VAS"
  shows "pt_wf (p_vmm s') cr3 \<and> env_ok (p_vmm s') cr3 0
    \<and> env_bytes (p_vmm s') cr3 0 (case nm of None \<Rightarrow> [] | Some n \<Rightarrow> take 31 n)
    \<and> Pid (the_proc s' p) = s_next_pid s \<and> s_next_pid s' = s_next_pid s + 1
    \<and> Cr3 (the_proc s' p) = cr3 \<and> PebVa (the_proc s' p) = PEB_VA \<and> NextTebVa (the_proc s' p) = TEB_BASE
    \<and> (\<forall>u. (\<forall>va\<in>set ENV_VAS. \<not> same_page u va) \<longrightarrow> TranslateInPml4 cr3 u (p_vmm s') = TranslateInPml4 cr3 u (p_vmm s))"
  using CreateProcess_env [OF assms] by blast

text \<open>A store of the image base into the two places.\<close>
lemma env_store:
  assumes wf: "pt_wf v r" and P: "env_pages v r f1 f2 f3 f4" and E: "env_ok v r b0"
  shows "env_ok (patch64 r DLL_BASE_VA base (patch64 r IMAGE_BASE_VA base v)) r base"
    "pt_wf (patch64 r DLL_BASE_VA base (patch64 r IMAGE_BASE_VA base v)) r"
    "env_pages (patch64 r DLL_BASE_VA base (patch64 r IMAGE_BASE_VA base v)) r f1 f2 f3 f4"
proof -
  have pg: "page_at v r PEB_VA f1" "page_at v r LDR_VA f2" "page_at v r PARAMS_VA f3" "page_at v r HEAP_VA f4"
    and d: "distinct [f1, f2, f3, f4]" using P by (simp_all add: env_pages_def)
  have fr: "f1 \<in> pmm_all_frames" "f1 \<noteq> 0" "f2 \<in> pmm_all_frames" "f2 \<noteq> 0" "f3 \<in> pmm_all_frames"
    using pg by (auto simp: page_at_def data_frame_def dest: used_frame)
  define v1 where "v1 = wr64 (f1 + 0x10) base v"
  define v2 where "v2 = wr64 (f2 + 0xB0) base v1"
  have t: "TranslateInPml4 r IMAGE_BASE_VA v = f1 + 0x10" "TranslateInPml4 r DLL_BASE_VA v = f2 + 0xB0"
    using page_offset_plus [OF env_vas_aligned(1), of "0x10"] page_offset_plus [OF env_vas_aligned(2), of "0xB0"] pg
    by (simp_all add: page_at_def IMAGE_BASE_VA_def DLL_BASE_VA_def LDR_ENTRY_OFF_def add.assoc)
  have "unat (f1 + 0x10) = unat f1 + 0x10" "unat (f2 + 0xB0) = unat f2 + 0xB0"
    using frame_byte(3) [OF fr(1), of "0x10"] frame_byte(3) [OF fr(3), of "0xB0"] by simp_all
  then have nz: "f1 + 0x10 \<noteq> 0" "f2 + 0xB0 \<noteq> 0" by auto
  have w1: "writes_only v f1 v1" using wr64_frame [OF fr(1), of "0x10"] by (simp add: v1_def)
  note D1 = write_data_frame [OF wf page_at_data [OF pg(1)] w1]
  have w2: "writes_only v1 f2 v2" using wr64_frame [OF fr(3), of "0xB0"] by (simp add: v2_def)
  have dd: "data_frame v1 r f2" using page_at_data [OF pg(2)] D1(3) by simp
  note D2 = write_data_frame [OF D1(1) dd w2]
  have e: "patch64 r DLL_BASE_VA base (patch64 r IMAGE_BASE_VA base v) = v2"
    using t nz D1(2) by (simp add: patch64_def v1_def v2_def)
  have pg2: "page_at v2 r PEB_VA f1" "page_at v2 r LDR_VA f2" "page_at v2 r PARAMS_VA f3" "page_at v2 r HEAP_VA f4"
    using pg by (simp_all add: D2(4) D1(4))
  show "pt_wf (patch64 r DLL_BASE_VA base (patch64 r IMAGE_BASE_VA base v)) r" unfolding e by (rule D2(1))
  show "env_pages (patch64 r DLL_BASE_VA base (patch64 r IMAGE_BASE_VA base v)) r f1 f2 f3 f4"
    unfolding e using pg2 d by (simp add: env_pages_def)
  have r1: "rd64 v2 (f1 + q) = (if q = 0x10 then base else rd64 v (f1 + q))"
    if "q = 0x10 \<or> unat q + 8 \<le> 0x10 \<or> 0x18 \<le> unat q" "unat q + 8 \<le> 4096" for q
  proof -
    have "rd64 v2 (f1 + q) = rd64 v1 (f1 + q)"
      by (rule rd64_frame_cong [OF fr(1) that(2)]) (use w2 d fr in \<open>auto simp: writes_in_def\<close>)
    then show ?thesis using rd64_wr_bytes_other [of q "0x10" 8 f1 _ v] that by (auto simp: v1_def rd64_wr64) (simp_all add: wr64_def)
  qed
  have r2: "rd64 v2 (f2 + q) = (if q = 0xB0 then base else rd64 v (f2 + q))"
    if "q = 0xB0 \<or> unat q + 8 \<le> 0xB0" "unat q + 8 \<le> 4096" for q
  proof -
    have "rd64 v1 (f2 + q) = rd64 v (f2 + q)"
      by (rule rd64_frame_cong [OF fr(3) that(2)]) (use w1 d fr in \<open>auto simp: writes_in_def\<close>)
    then show ?thesis using rd64_wr_bytes_other [of q "0xB0" 8 f2 _ v1] that by (auto simp: v2_def rd64_wr64) (simp_all add: wr64_def)
  qed
  have r3: "rd64 v2 (f3 + q) = rd64 v (f3 + q)" if "unat q + 8 \<le> 4096" for q
    by (rule rd64_frame_cong [OF fr(5) that]) (use w1 w2 d fr in \<open>auto simp: writes_in_def\<close>)
  note rp = page_read [OF pg(1) env_vas_aligned(1)] page_read [OF pg2(1) env_vas_aligned(1)] page_read [OF pg(2) env_vas_aligned(2)]
    page_read [OF pg2(2) env_vas_aligned(2)] page_read [OF pg(3) env_vas_aligned(3)] page_read [OF pg2(3) env_vas_aligned(3)]
  show "env_ok (patch64 r DLL_BASE_VA base (patch64 r IMAGE_BASE_VA base v)) r base"
    unfolding e using E by (simp add: env_ok_def add.assoc rp r1 r2 r3)
qed

text \<open>A kernel heap, one system process, and an empty address space in frame 768.\<close>
definition psys_demo :: psys where
  "psys_demo = \<lparr>p_sys = ksys_idle\<lparr>s_proc_reg := []\<rparr>, p_heap = \<lparr>hp_base = 0x200000, hp_size = 0x10000, hp_used = 0, hp_mem = (\<lambda>_. 0)\<rparr>,
     p_vmm = vmm_roomy, s_system_process = Some 0, s_main_thread = Some (Thr 0), s_next_pid = 1, s_next_tid = 1,
     kernel_thread_entry = 0x100000, user_thread_entry = 0x100040\<rparr>"

lemma psys_demo_heap: "Heap_AllocZeroed SIZEOF_KPROCESS ALIGNOF_OBJECT (p_heap psys_demo) =
    (0x200000, (p_heap psys_demo)\<lparr>hp_used := 360, hp_mem := zero_bytes 0x200000 360 (\<lambda>_. 0)\<rparr>)"
  by (simp add: psys_demo_def Heap_AllocZeroed_def Heap_Alloc_def AlignUp_def SIZEOF_KPROCESS_def ALIGNOF_OBJECT_def Let_def)

lemma psys_demo_vmm: "p_vmm psys_demo = vmm_roomy" "s_next_pid psys_demo = 1" "s_proc_reg (p_sys psys_demo) = []"
  by (simp_all add: psys_demo_def)

lemma psys_demo_create: "fst (CreateProcess (Some nm) cr3 psys_demo) = Some 0x200000"
  by (simp add: CreateProcess_def new_process_def psys_demo_heap Let_def)

lemma process_environment_witness:
  "uread64 (p_vmm (snd (CreateProcess (Some ''csrss'') 0x300000 psys_demo))) 0x300000 0x7FFFE000018 = 0x7FFFE001000
   \<and> Pid (the_proc (snd (CreateProcess (Some ''csrss'') 0x300000 psys_demo)) 0x200000) = 1
   \<and> rd8 (p_vmm (snd (CreateProcess (Some ''csrss'') 0x300000 psys_demo)))
       (TranslateInPml4 0x300000 0x7FFFE002202 (p_vmm (snd (CreateProcess (Some ''csrss'') 0x300000 psys_demo)))) = 115"
proof -
  obtain s' where C: "CreateProcess (Some ''csrss'') 0x300000 psys_demo = (Some 0x200000, s')"
    using psys_demo_create [of "''csrss''" "0x300000"] by (metis prod.collapse)
  have R: "room (p_vmm psys_demo) 0x300000 ENV_VAS" by (simp add: psys_demo_vmm vmm_roomy_room ENV_VAS_def)
  have E: "env_ok (p_vmm s') 0x300000 0 \<and> env_bytes (p_vmm s') 0x300000 0 ''csrss'' \<and> Pid (the_proc s' 0x200000) = 1"
    using process_environment [OF C _ _ R] vmm_roomy_wf by (simp add: psys_demo_vmm)
  then have H: "holds_chunks (\<lambda>n. rd8 (p_vmm s') (TranslateInPml4 0x300000 (PARAMS_VA + of_nat n) (p_vmm s'))) (params_page ''csrss'')"
    by (simp add: env_bytes_def)
  have "(0x200, wide_bytes ''csrss'') \<in> set (params_page ''csrss'')" by (simp add: params_page_def Let_def)
  with H have "\<forall>i<length (wide_bytes ''csrss''). rd8 (p_vmm s') (TranslateInPml4 0x300000 (PARAMS_VA + of_nat (0x200 + i)) (p_vmm s')) = wide_bytes ''csrss'' ! i"
    unfolding holds_chunks_def by fastforce
  from this [rule_format, of 2] have "rd8 (p_vmm s') (TranslateInPml4 0x300000 0x7FFFE002202 (p_vmm s')) = 115"
    by (simp add: PARAMS_VA_def PEB_VA_def)
  then show ?thesis using E by (simp add: C env_ok_def PEB_VA_def LDR_VA_def)
qed

text \<open>Registered processes with an address space and an environment: the first is the one a load reports to.\<close>
lemma NotifyImageLoaded_find:
  assumes "find (\<lambda>p. Cr3 (the_proc s p) = r \<and> PebVa (the_proc s p) \<noteq> 0) (s_proc_reg (p_sys s)) = Some p"
  shows "NotifyImageLoaded r base s = (set_proc p (\<lambda>k. k\<lparr>ImageBase := base\<rparr>) s)\<lparr>p_vmm :=
    patch64 r DLL_BASE_VA base (patch64 r IMAGE_BASE_VA base (p_vmm s))\<rparr>"
proof -
  have "find (\<lambda>p. Cr3 (the_proc s p) = r \<and> PebVa (the_proc s p) \<noteq> 0) ps = Some p \<Longrightarrow>
    notify ps r base s = (set_proc p (\<lambda>k. k\<lparr>ImageBase := base\<rparr>) s)\<lparr>p_vmm :=
      patch64 r DLL_BASE_VA base (patch64 r IMAGE_BASE_VA base (p_vmm s))\<rparr>" for ps
    by (induction ps) (auto simp: Let_def split: if_splits)
  then show ?thesis using assms by (simp add: NotifyImageLoaded_def)
qed

text \<open>The image base a load reports.  After any sequence of loads into an address space
  with an environment, the PEB, the loader entry and the process object hold the base of the last
  image - also when that was a DLL loaded into a running program.\<close>
theorem image_base_recorded:
  assumes "pt_wf (p_vmm s) r" "env_pages (p_vmm s) r f1 f2 f3 f4" "env_ok (p_vmm s) r b0"
    and "find (\<lambda>p. Cr3 (the_proc s p) = r \<and> PebVa (the_proc s p) \<noteq> 0) (s_proc_reg (p_sys s)) = Some p"
    and "bases \<noteq> []"
  shows "env_ok (p_vmm (fold (NotifyImageLoaded r) bases s)) r (List.last bases)
    \<and> ImageBase (the_proc (fold (NotifyImageLoaded r) bases s) p) = List.last bases"
  using assms
proof (induction bases arbitrary: s b0)
  case (Cons b bs)
  let ?s = "NotifyImageLoaded r b s"
  note N = NotifyImageLoaded_find [OF Cons.prems(4), of b] and E = env_store [OF Cons.prems(1-3), of b]
  have f: "find (\<lambda>p. Cr3 (the_proc ?s p) = r \<and> PebVa (the_proc ?s p) \<noteq> 0) (s_proc_reg (p_sys ?s)) = Some p"
  proof -
    have "(\<lambda>p. Cr3 (the_proc ?s p) = r \<and> PebVa (the_proc ?s p) \<noteq> 0) = (\<lambda>p. Cr3 (the_proc s p) = r \<and> PebVa (the_proc s p) \<noteq> 0)"
      by (rule ext) (simp add: N)
    moreover have "s_proc_reg (p_sys ?s) = s_proc_reg (p_sys s)" by (simp add: N)
    ultimately show ?thesis using Cons.prems(4) by simp
  qed
  show ?case
  proof (cases "bs = []")
    case True then show ?thesis using E(1) by (simp add: N)
  next
    case False
    then show ?thesis using Cons.IH [OF _ _ _ f False] E by (simp add: N)
  qed
qed simp

lemma image_base_recorded_witness:
  "\<exists>s. CreateProcess (Some ''app'') 0x300000 psys_demo = (Some 0x200000, s)
    \<and> uread64 (p_vmm (NotifyImageLoaded 0x300000 0x500000 (NotifyImageLoaded 0x300000 0x400000 s))) 0x300000 0x7FFFE000010 = 0x500000"
proof -
  obtain s' where C: "CreateProcess (Some ''app'') 0x300000 psys_demo = (Some 0x200000, s')"
    using psys_demo_create [of "''app''" "0x300000"] by (metis prod.collapse)
  have R: "room (p_vmm psys_demo) 0x300000 ENV_VAS" by (simp add: psys_demo_vmm vmm_roomy_room ENV_VAS_def)
  have E: "pt_wf (p_vmm s') 0x300000" "\<exists>f1 f2 f3 f4. env_pages (p_vmm s') 0x300000 f1 f2 f3 f4" "env_ok (p_vmm s') 0x300000 0"
    "s_proc_reg (p_sys s') = [0x200000]" "Cr3 (the_proc s' 0x200000) = 0x300000" "PebVa (the_proc s' 0x200000) \<noteq> 0"
    using CreateProcess_env [OF C _ _ R] vmm_roomy_wf
    by (simp_all add: psys_demo_vmm register_process_def PROC_REG_SIZE_def PEB_VA_def)
  then obtain f1 f2 f3 f4 where P: "env_pages (p_vmm s') 0x300000 f1 f2 f3 f4" by blast
  have "env_ok (p_vmm (fold (NotifyImageLoaded 0x300000) [0x400000, 0x500000] s')) 0x300000 (List.last [0x400000, 0x500000])"
    using image_base_recorded [OF E(1) P E(3), of "0x200000" "[0x400000, 0x500000]"] E(4-6) by simp
  then show ?thesis using C by (simp add: env_ok_def PEB_VA_def)
qed

section \<open>Kernel stacks\<close>

lemma alloc_page_Min:
  assumes "pmm_inv (vm_pmm s)" "pmm_free (vm_pmm s) \<noteq> {}"
  obtains s' where "alloc_page s = (frame_of (Min (pmm_free (vm_pmm s))), s')" "frame_of (Min (pmm_free (vm_pmm s))) \<noteq> 0"
    "pmm_inv (vm_pmm s')" "pmm_free (vm_pmm s') = pmm_free (vm_pmm s) - {Min (pmm_free (vm_pmm s))}" "vm_mem s' = vm_mem s"
proof -
  let ?p = "vm_pmm s"
  note A = AllocPage_Min [OF assms] AllocPage_inv [OF assms(1)]
  have "Min (pmm_free ?p) \<in> pmm_free ?p" using assms(2) by simp
  then have "frame_of (Min (pmm_free ?p)) \<in> pmm_frames ?p" by (simp add: pmm_frames_def)
  then have nz: "frame_of (Min (pmm_free ?p)) \<noteq> 0" using pmm.frame_nonzero [OF assms(1)] by auto
  have fr: "pmm_free (snd (AllocPage ?p)) = pmm_free ?p - {Min (pmm_free ?p)}" unfolding A(1) by (auto simp: pmm_free_def)
  show thesis
    by (rule that [of "s\<lparr>vm_pmm := snd (AllocPage ?p)\<rparr>"]) (use A nz fr in \<open>simp_all add: alloc_page_def\<close>)
qed

abbreviation free_list :: "vmm \<Rightarrow> nat list" where "free_list s \<equiv> sorted_list_of_set (pmm_free (vm_pmm s))"

lemma free_list_Min:
  assumes "pmm_free (vm_pmm s) \<noteq> {}"
  shows "free_list s = Min (pmm_free (vm_pmm s)) # sorted_list_of_set (pmm_free (vm_pmm s) - {Min (pmm_free (vm_pmm s))})"
  using assms sorted_list_of_set_nonempty [OF finite_pmm_free] by simp

lemma alloc_rest_spec:
  assumes "pmm_inv (vm_pmm s)" "alloc_rest n s = (ok, s')"
  shows "pmm_inv (vm_pmm s') \<and> vm_mem s' = vm_mem s \<and> ok = (n \<le> length (free_list s)) \<and> (ok \<longrightarrow> free_list s' = drop n (free_list s))"
  using assms
proof (induction n arbitrary: s)
  case (Suc n)
  show ?case
  proof (cases "pmm_free (vm_pmm s) = {}")
    case True
    then have "alloc_page s = (0, s)" using AllocPage_empty [OF Suc.prems(1)] by (simp add: alloc_page_def)
    then show ?thesis using Suc.prems True by auto
  next
    case False
    obtain s1 where s1: "alloc_page s = (frame_of (Min (pmm_free (vm_pmm s))), s1)" "frame_of (Min (pmm_free (vm_pmm s))) \<noteq> 0"
      "pmm_inv (vm_pmm s1)" "pmm_free (vm_pmm s1) = pmm_free (vm_pmm s) - {Min (pmm_free (vm_pmm s))}" "vm_mem s1 = vm_mem s"
      using alloc_page_Min [OF Suc.prems(1) False] by blast
    have "alloc_rest n s1 = (ok, s')" using Suc.prems(2) s1(1,2) by simp
    from Suc.IH [OF s1(3) this] show ?thesis using free_list_Min [OF False] s1(4,5) by simp
  qed
qed auto

text \<open>The first n elements of a sorted list are consecutive exactly when the last one is.\<close>
lemma consecutive_prefix:
  fixes L :: "nat list"
  assumes "sorted L" "distinct L" "0 < n" "n \<le> length L"
  shows "(\<forall>i<n. L ! 0 + i \<in> set (take n L)) \<longleftrightarrow> L ! (n - 1) = L ! 0 + (n - 1)"
proof -
  have gap: "L ! i + (j - i) \<le> L ! j" if "i \<le> j" "j < n" for i j
    using that
  proof (induction j)
    case (Suc j)
    show ?case
    proof (cases "i = Suc j")
      case False
      then have "L ! i + (j - i) \<le> L ! j" using Suc by simp
      moreover have "L ! j \<le> L ! Suc j" using assms(1,4) Suc.prems by (intro sorted_nth_mono) simp_all
      moreover have "L ! j \<noteq> L ! Suc j" using assms(2,4) Suc.prems by (simp add: nth_eq_iff_index_eq)
      ultimately show ?thesis using Suc.prems False by simp
    qed simp
  qed simp
  show ?thesis
  proof
    assume "\<forall>i<n. L ! 0 + i \<in> set (take n L)"
    then have "L ! 0 + (n - 1) \<in> set (take n L)" using assms(3) by (blast intro: diff_less zero_less_one)
    then obtain k where "k < n" "L ! k = L ! 0 + (n - 1)" using assms(4) by (auto simp: in_set_conv_nth)
    then have sub: "{L ! 0 + i | i. i < n} \<subseteq> set (take n L)" using \<open>\<forall>i<n. L ! 0 + i \<in> set (take n L)\<close> by auto
    have c: "card {L ! 0 + i | i. i < n} = n"
    proof -
      have "{L ! 0 + i | i. i < n} = (\<lambda>i. L ! 0 + i) ` {..<n}" by auto
      then show ?thesis by (simp add: card_image)
    qed
    have "card (set (take n L)) = n" using assms(2,4) by (simp add: distinct_card)
    then have "set (take n L) = {L ! 0 + i | i. i < n}" using card_subset_eq [OF _ sub] c by simp
    moreover have "L ! (n - 1) \<in> set (take n L)"
      using nth_mem [of "n - 1" "take n L"] nth_take [of "n - 1" n L] assms(3,4) by simp
    ultimately obtain i where "L ! (n - 1) = L ! 0 + i" "i < n" by blast
    then have "L ! (n - 1) \<le> L ! 0 + (n - 1)" by simp
    then show "L ! (n - 1) = L ! 0 + (n - 1)" using gap [of 0 "n - 1"] assms(3) by simp
  next
    assume e: "L ! (n - 1) = L ! 0 + (n - 1)"
    show "\<forall>i<n. L ! 0 + i \<in> set (take n L)"
    proof (intro allI impI)
      fix i assume i: "i < n"
      have "L ! 0 + (i - 0) \<le> L ! i" "L ! i + (n - 1 - i) \<le> L ! (n - 1)"
        using gap [of 0 i] gap [of i "n - 1"] i by auto
      then have "L ! i = L ! 0 + i" using e i by arith
      then show "L ! 0 + i \<in> set (take n L)" using i assms(4) by (auto simp: in_set_conv_nth intro!: exI [of _ i])
    qed
  qed
qed

lemma AllocStack_spec:
  assumes "pmm_inv (vm_pmm s)" "AllocStack sz s = (base, s')"
  defines "n \<equiv> max 1 (stack_pages sz)"
  shows "pmm_inv (vm_pmm s') \<and> vm_mem s' = vm_mem s
    \<and> (if length (free_list s) < n then base = 0
       else base = frame_of (free_list s ! 0) \<and> base \<noteq> 0 \<and> free_list s' = drop n (free_list s)
         \<and> ((\<forall>i<n. free_list s ! 0 + i \<in> set (take n (free_list s))) \<longleftrightarrow> free_list s ! (n - 1) = free_list s ! 0 + (n - 1)))"
proof (cases "pmm_free (vm_pmm s) = {}")
  case True
  then have "alloc_page s = (0, s)" using AllocPage_empty [OF assms(1)] by (simp add: alloc_page_def)
  then show ?thesis using assms True by (auto simp: AllocStack_def n_def)
next
  case False
  let ?L = "free_list s"
  obtain s1 where s1: "alloc_page s = (frame_of (Min (pmm_free (vm_pmm s))), s1)" "frame_of (Min (pmm_free (vm_pmm s))) \<noteq> 0"
    "pmm_inv (vm_pmm s1)" "pmm_free (vm_pmm s1) = pmm_free (vm_pmm s) - {Min (pmm_free (vm_pmm s))}" "vm_mem s1 = vm_mem s"
    using alloc_page_Min [OF assms(1) False] by blast
  obtain ok s2 where R: "alloc_rest (stack_pages sz - 1) s1 = (ok, s2)" by fastforce
  have L: "?L = Min (pmm_free (vm_pmm s)) # free_list s1" using free_list_Min [OF False] s1(4) by simp
  have r: "s' = s2" "base = (if ok then frame_of (?L ! 0) else 0)" using assms(2) s1(1,2) R L by (auto simp: AllocStack_def)
  note A = alloc_rest_spec [OF s1(3) R]
  have n: "n = Suc (stack_pages sz - 1)" by (auto simp: n_def)
  have iff: "(\<forall>i<n. ?L ! 0 + i \<in> set (take n ?L)) \<longleftrightarrow> ?L ! (n - 1) = ?L ! 0 + (n - 1)" if "n \<le> length ?L"
    by (rule consecutive_prefix) (use that n in simp_all)
  show ?thesis using A r s1(2,5) L iff by (auto simp: n)
qed

text \<open>The frames of a kernel stack.  AllocStack takes the lowest free frames one by one and
  returns the first, or 0 when they do not suffice; memory is not written.  The stack that begins
  at the first frame lies in frames that were taken exactly when the free frames happen to be
  consecutive: the code does not check that.\<close>
theorem stack_frames:
  assumes "pmm_inv (vm_pmm s)" "AllocStack sz s = (base, s')"
  defines "n \<equiv> max 1 (stack_pages sz)"
  shows "pmm_inv (vm_pmm s') \<and> vm_mem s' = vm_mem s
    \<and> (if length (free_list s) < n then base = 0
       else base = frame_of (free_list s ! 0) \<and> base \<noteq> 0 \<and> free_list s' = drop n (free_list s)
         \<and> ((\<forall>i<n. free_list s ! 0 + i \<in> set (take n (free_list s))) \<longleftrightarrow> free_list s ! (n - 1) = free_list s ! 0 + (n - 1)))"
  unfolding n_def by (rule AllocStack_spec [OF assms(1,2)])

text \<open>With frame 801 in use, a stack of four pages at frame 800 runs over it.\<close>
definition vmm_gap :: vmm where "vmm_gap = vmm_roomy\<lparr>vm_pmm := TakePage 801 (vm_pmm vmm_roomy)\<rparr>"

lemma vmm_gap_free: "pmm_inv (vm_pmm vmm_gap)" "free_list vmm_gap = 800 # [802..<824]"
proof -
  have m: "801 \<in> pmm_free (vm_pmm vmm_roomy)" by (simp add: vmm_roomy_free)
  have inv: "pmm_inv (vm_pmm vmm_roomy)" using vmm_roomy_wf by (simp add: pt_wf_def)
  have "pmm_inv ((TakePage 801 (vm_pmm vmm_roomy))\<lparr>s_search_hint := 768\<rparr>)"
    by (rule TakePage_inv [OF inv m]) (simp_all add: vmm_roomy_test MAX_PAGES_val)
  moreover have "(TakePage 801 (vm_pmm vmm_roomy))\<lparr>s_search_hint := 768\<rparr> = TakePage 801 (vm_pmm vmm_roomy)"
    by (simp add: TakePage_def vmm_roomy_def)
  ultimately show "pmm_inv (vm_pmm vmm_gap)" by (simp add: vmm_gap_def)
  have "pmm_free (vm_pmm vmm_gap) = set (800 # [802..<824])"
    unfolding list.set set_upt by (auto simp: vmm_gap_def pmm_free_TakePage vmm_roomy_free)
  then show "free_list vmm_gap = 800 # [802..<824]"
    by (simp only: sorted_list_of_set_sort_remdups) (simp add: sort_upt)
qed

lemma stack_frames_witness:
  "fst (AllocStack 0x4000 vmm_gap) = frame_of 800
   \<and> \<not> (\<forall>i<4. free_list vmm_gap ! 0 + i \<in> set (take 4 (free_list vmm_gap)))"
proof -
  obtain base s' where A: "AllocStack 0x4000 vmm_gap = (base, s')" by fastforce
  have n: "max 1 (stack_pages 0x4000) = 4" by (simp add: stack_pages_def PAGE_SIZE_def)
  show ?thesis using stack_frames [OF vmm_gap_free(1) A] unfolding n vmm_gap_free(2) by (simp add: A)
qed

section \<open>The first frame of a user thread\<close>

lemma slot_address:
  fixes stop :: u64
  assumes "i \<le> 512" shows "stop - ucast (of_nat i :: u32) * 8 = (stop - 4096) + of_nat (4096 - 8 * i)"
proof -
  have "unat (of_nat i :: u32) = i" using assms by (simp add: unat_of_nat)
  then have "(ucast (of_nat i :: u32) :: u64) = of_nat i"
    using assms unat_of_nat64 [of i] by (simp add: word_unat_eq_iff unat_ucast_32_64)
  moreover have "(of_nat (4096 - 8 * i) :: u64) = 4096 - of_nat i * 8" using assms by (simp add: of_nat_diff)
  moreover have "stop - x * 8 = (stop - 4096) + (4096 - x * 8)" for x :: u64 by simp
  ultimately show ?thesis by metis
qed

lemma poke_slots_snoc: "poke_slots stop (vs @ [x]) s = StackPoke stop (of_nat (length vs + 1)) x (poke_slots stop vs s)"
  by (simp add: poke_slots_def enumerate_append_eq)

lemma poke_slots_read:
  assumes "length vs \<le> 512" "k < length vs"
  shows "rd64 (poke_slots stop vs s) ((stop - 4096) + of_nat (4096 - 8 * (k + 1))) = vs ! k"
  using assms
proof (induction vs rule: rev_induct)
  case (snoc x vs)
  let ?n = "length vs" and ?b = "stop - 4096"
  have p: "poke_slots stop (vs @ [x]) s = wr64 (?b + of_nat (4096 - 8 * (?n + 1))) x (poke_slots stop vs s)"
    using slot_address [of "?n + 1" stop] snoc.prems(1) by (simp only: poke_slots_snoc StackPoke_def length_append_singleton Suc_eq_plus1)
  have u: "unat (of_nat (4096 - 8 * (j + 1)) :: u64) = 4096 - 8 * (j + 1)" for j by (rule unat_of_nat64) simp
  show ?case
  proof (cases "k = ?n")
    case True
    then show ?thesis by (simp only: p rd64_wr64) simp
  next
    case False
    then have k: "k < ?n" using snoc.prems by simp
    have "rd64 (wr64 (?b + of_nat (4096 - 8 * (?n + 1))) x (poke_slots stop vs s)) (?b + of_nat (4096 - 8 * (k + 1)))
      = rd64 (poke_slots stop vs s) (?b + of_nat (4096 - 8 * (k + 1)))"
      unfolding wr64_def by (rule rd64_wr_bytes_other) (use k snoc.prems in \<open>simp_all only: u, auto\<close>)
    then show ?thesis using snoc k by (simp only: p) (simp add: nth_append)
  qed
qed simp

lemma poke_slots_only:
  assumes "stop - 4096 \<in> pmm_all_frames" "length vs \<le> 512"
  shows "writes_only s (stop - 4096) (poke_slots stop vs s)"
  using assms(2)
proof (induction vs rule: rev_induct)
  case (snoc x vs)
  let ?m = "4096 - 8 * (length vs + 1)"
  have "StackPoke stop (of_nat (length vs + 1)) x (poke_slots stop vs s) =
      wr64 ((stop - 4096) + of_nat ?m) x (poke_slots stop vs s)"
    using slot_address [of "length vs + 1" stop] snoc.prems by (simp only: StackPoke_def length_append_singleton Suc_eq_plus1)
  moreover have "writes_only (poke_slots stop vs s) (stop - 4096) (wr64 ((stop - 4096) + of_nat ?m) x (poke_slots stop vs s))"
    by (rule wr64_frame [OF assms(1)]) (use snoc.prems in simp)
  ultimately show ?case using snoc by (auto simp: poke_slots_snoc intro: writes_in_trans)
qed (simp add: poke_slots_def)

lemma set_thr_sel [simp]: "p_vmm (set_thr t f s) = p_vmm s" "the_proc (set_thr t f s) = the_proc s"
  "the_thr (set_thr t f s) u = (if u = t then f (the_thr s t) else the_thr s u)" "s_next_tid (set_thr t f s) = s_next_tid s"
  by (simp_all add: set_thr_def)

lemma set_proc_thr [simp]: "the_thr (set_proc p f s) = the_thr s" "s_next_tid (set_proc p f s) = s_next_tid s"
  by (simp_all add: set_proc_def)

lemma new_thread_sel:
  assumes "new_thread s = (Some t, s')"
  shows "p_vmm s' = p_vmm s" "the_proc s' = the_proc s" "the_thr s' t = KThread0" "s_next_tid s' = s_next_tid s"
    "s_system_process s' = s_system_process s"
  using assms by (auto simp: new_thread_def set_thr_def Let_def split: prod.splits if_splits)

lemma init_thread_sel:
  defines "s' k base sz ksp fn arg nm s t \<equiv> init_thread t (Some k) base sz ksp fn arg nm s"
  shows "p_vmm (s' k base sz ksp fn arg nm s t) = p_vmm s"
    "the_proc (s' k base sz ksp fn arg nm s t) p = (if p = k then (the_proc s p)\<lparr>thread_count := thread_count (the_proc s p) + 1\<rparr> else the_proc s p)"
    "KernelStackPtr (the_thr (s' k base sz ksp fn arg nm s t) t) = ksp" "State (the_thr (s' k base sz ksp fn arg nm s t) t) = READY"
    "Process (the_thr (s' k base sz ksp fn arg nm s t) t) = Some k" "Tid (the_thr (s' k base sz ksp fn arg nm s t) t) = s_next_tid s"
  by (simp_all add: s'_def init_thread_def Let_def)

text \<open>SetupTeb keeps the entries of every data frame, and the thread store.\<close>
lemma SetupTeb_keeps:
  assumes "pt_wf (p_vmm s) (Cr3 (the_proc s p))" "data_frame (p_vmm s) (Cr3 (the_proc s p)) g" "SetupTeb (Some p) tid ust s = (teb, s')"
  shows "j < 512 \<Longrightarrow> rd (p_vmm s') g j = rd (p_vmm s) g j" "p_sys s' = p_sys s \<or> p_sys s' = upd_proc p (\<lambda>k. k\<lparr>NextTebVa := NextTebVa k + 0x2000\<rparr>) (p_sys s)"
    "the_thr s' = the_thr s" "thread_count (the_proc s' q) = thread_count (the_proc s q)"
proof -
  let ?k = "the_proc s p" and ?v = "p_vmm s"
  obtain f v1 where A: "alloc_page ?v = (f, v1)" by fastforce
  define v2 where "v2 = pokes f (teb_fields ?k tid ust (NextTebVa ?k)) (zero_page f v1)"
  define v3 where "v3 = snd (MapPageInto (Cr3 ?k) (NextTebVa ?k) f USER_RW v2)"
  have e: "s' = (if Cr3 ?k = 0 \<or> PebVa ?k = 0 then s else
      (set_proc p (\<lambda>k. k\<lparr>NextTebVa := NextTebVa k + 0x2000\<rparr>) s)\<lparr>p_vmm := if f = 0 then v1 else v3\<rparr>)"
    using assms(3) A by (auto simp: SetupTeb_def v3_def v2_def Let_def split: if_splits)
  show "p_sys s' = p_sys s \<or> p_sys s' = upd_proc p (\<lambda>k. k\<lparr>NextTebVa := NextTebVa k + 0x2000\<rparr>) (p_sys s)"
    unfolding e by (simp add: set_proc_def)
  show "the_thr s' = the_thr s" "thread_count (the_proc s' q) = thread_count (the_proc s q)" unfolding e by simp_all
  have inv: "pmm_inv (vm_pmm ?v)" using assms(1) by (simp add: pt_wf_def)
  have "rd v3 g j = rd ?v g j" if f0: "f \<noteq> 0" and j: "j < 512" for j
  proof -
    note P = alloc_page_frame [OF inv A f0]
    have "writes_only v1 f v2" unfolding v2_def
      by (rule writes_in_trans [OF zero_page_only [OF P(1)] pokes_only [OF P(1)]]) (auto simp: teb_fields_def in_page_def)
    from map_data_page(6) [OF assms(1) A f0 this prod.collapse [symmetric] USER_RW_addr assms(2) j]
    show ?thesis by (simp add: v3_def)
  qed
  moreover have "v1 = ?v" if "f = 0" using alloc_page_none [OF inv] A that by blast
  ultimately show "j < 512 \<Longrightarrow> rd (p_vmm s') g j = rd (p_vmm s) g j" by (auto simp: e)
qed

text \<open>C18 (functional): a new user thread of a process.  When the highest page of its kernel stack is one
  of the frames the stack took, the saved stack pointer points at the thirteen words that the
  context switch and IRETQ pop: six zero registers, the trampoline, the argument, and the entry
  with user code and stack selectors, interrupts enabled and the user stack; setting up the TEB
  does not disturb them.  The thread is ready and counted by its process.\<close>
theorem user_thread_frame:
  assumes C: "CreateUserThread (Some p) nm entry ustack arg sz s = (Some t, s')"
    and wf: "pt_wf (p_vmm s) (Cr3 (the_proc s p))"
    and A: "AllocStack sz (p_vmm s) = (base, v1)" "base + sz - 4096 \<in> pmm_frames (vm_pmm (p_vmm s)) - pmm_frames (vm_pmm v1)"
  shows "State (the_thr s' t) = READY \<and> Process (the_thr s' t) = Some p \<and> KernelStackPtr (the_thr s' t) = base + sz - 104
    \<and> thread_count (the_proc s' p) = thread_count (the_proc s p) + 1
    \<and> (\<forall>i<13. rd64 (p_vmm s') (base + sz - 104 + 8 * of_nat i) =
         [0, 0, 0, 0, 0, 0, user_thread_entry s, arg, entry, USER_CS, USER_FLAGS, ustack, USER_SS] ! i)"
proof -
  let ?r = "Cr3 (the_proc s p)" and ?g = "base + sz - 4096"
  let ?vs = "[USER_SS, ustack, USER_FLAGS, USER_CS, entry, arg, user_thread_entry s, 0, 0, 0, 0, 0, 0]"
  define v2 where "v2 = poke_slots (base + sz) ?vs v1"
  have inv: "pmm_inv (vm_pmm (p_vmm s))" using wf by (simp add: pt_wf_def)
  note F = AllocStack_spec [OF inv A(1)]
  have b0: "base \<noteq> 0" using C A(1) by (auto simp: CreateUserThread_def)
  obtain s1 where N: "new_thread (s\<lparr>p_vmm := v2\<rparr>) = (Some t, s1)"
    using C A(1) b0 by (auto simp: CreateUserThread_def v2_def Let_def split: prod.splits option.splits)
  define s2 where "s2 = init_thread t (Some p) base sz (base + sz - SWITCH_FRAME_SIZE - IRETQ_FRAME_SIZE - 8) 0 0 nm s1"
  obtain teb s3 where T: "SetupTeb (Some p) (s_next_tid s1) ustack s2 = (teb, s3)" by fastforce
  note I = init_thread_sel [where t = t and k = p, of base sz "base + sz - SWITCH_FRAME_SIZE - IRETQ_FRAME_SIZE - 8" 0 0 nm s1, folded s2_def] and n = new_thread_sel [OF N]
  have s': "s' = register_thread t (set_thr t (\<lambda>k. k\<lparr>TebVa := teb\<rparr>) s3)"
    using C A(1) b0 N T I(5,6) by (simp add: CreateUserThread_def v2_def s2_def owner_of_def Let_def)
  have v: "p_vmm s2 = v2" "?r = Cr3 (the_proc s2 p)" using I(1,2) n by simp_all
  have g: "?g \<in> pmm_all_frames" "?g \<notin> used_frames (p_vmm s)" "?g \<noteq> 0"
    using A(2) pmm.frames_ok [OF inv] pmm.frame_nonzero [OF inv] by (auto simp: used_frames_def)
  have sub: "pmm_frames (vm_pmm v1) \<subseteq> pmm_frames (vm_pmm (p_vmm s))"
  proof -
    have "free_list v1 = drop (max 1 (stack_pages sz)) (free_list (p_vmm s))" using F b0 by (simp split: if_splits)
    then have "set (free_list v1) \<subseteq> set (free_list (p_vmm s))" using set_drop_subset by metis
    then show ?thesis by (auto simp: pmm_frames_def)
  qed
  have u: "used_frames (p_vmm s) \<subseteq> used_frames v1" "?g \<in> used_frames v1" using sub A(2) g by (auto simp: used_frames_def)
  note R = root_cong_used [OF wf, of v1]
  have w1: "pt_wf v1 ?r" "tables v1 ?r = tables (p_vmm s) ?r" using R(2,4) F u(1) by simp_all
  have d1: "data_frame v1 ?r ?g" using u(2) g(2) w1(2) wf by (auto simp: data_frame_def pt_wf_def)
  have w2: "writes_only v1 ?g v2" unfolding v2_def by (rule poke_slots_only) (use g in simp_all)
  note D = write_data_frame [OF w1(1) d1 w2]
  have T2: "pt_wf (p_vmm s2) (Cr3 (the_proc s2 p))" "data_frame (p_vmm s2) (Cr3 (the_proc s2 p)) ?g" using D(1,3) d1 v by simp_all
  note K = SetupTeb_keeps [OF T2 T]
  have val: "rd64 (p_vmm s') (base + sz - 104 + 8 * of_nat i) = rev ?vs ! i" if i: "i < 13" for i
  proof -
    have e: "base + sz - 104 + 8 * of_nat i = ?g + of_nat (4096 - 8 * ((12 - i) + 1))"
      using i by (simp add: of_nat_diff)
    have "rd64 (p_vmm s') (?g + of_nat (4096 - 8 * ((12 - i) + 1))) = rd64 v2 (?g + of_nat (4096 - 8 * ((12 - i) + 1)))"
    proof (rule rd64_frame_cong [OF g(1)])
      have "unat (of_nat (4096 - 8 * ((12 - i) + 1)) :: u64) = 4096 - 8 * ((12 - i) + 1)" by (rule unat_of_nat64) simp
      then show "unat (of_nat (4096 - 8 * ((12 - i) + 1)) :: u64) + 8 \<le> 4096" by (simp only:) simp
      show "rd (p_vmm s') ?g j = rd v2 ?g j" if "j < 512" for j using K(1) v that by (simp add: s' register_thread_def)
    qed
    also have "\<dots> = ?vs ! (12 - i)" unfolding v2_def by (rule poke_slots_read) simp_all
    also have "\<dots> = rev ?vs ! i"
    proof -
      have "length ?vs = 13" "12 - i = 13 - Suc i" by simp_all
      then show ?thesis using rev_nth [of i ?vs] i by metis
    qed
    finally show ?thesis by (simp only: e)
  qed
  show ?thesis
    using val K(3,4) I(2-5) n(2) by (simp add: s' register_thread_def SWITCH_FRAME_SIZE_def IRETQ_FRAME_SIZE_def s2_def)
qed

text \<open>The fourth case: a process with the roomy address space; its stack is frames 800 to 803.\<close>
definition psys_user :: psys where
  "psys_user = set_proc 1 (\<lambda>k. k\<lparr>Cr3 := 0x300000\<rparr>) psys_demo"

lemma psys_user_sel: "p_vmm psys_user = vmm_roomy" "Cr3 (the_proc psys_user 1) = 0x300000" "p_heap psys_user = p_heap psys_demo"
  by (simp_all add: psys_user_def set_proc_def upd_proc_def psys_demo_vmm)

lemma psys_user_heap: "fst (Heap_AllocZeroed SIZEOF_KTHREAD ALIGNOF_OBJECT (p_heap psys_demo)) = 0x200000"
  by (simp add: psys_demo_def Heap_AllocZeroed_def Heap_Alloc_def AlignUp_def SIZEOF_KTHREAD_def ALIGNOF_OBJECT_def Let_def)

lemma vmm_roomy_stack:
  obtains v1 where "AllocStack 0x4000 vmm_roomy = (frame_of 800, v1)" "frame_of 803 \<in> pmm_frames (vm_pmm vmm_roomy) - pmm_frames (vm_pmm v1)"
proof -
  obtain base v1 where A: "AllocStack 0x4000 vmm_roomy = (base, v1)" by fastforce
  have inv: "pmm_inv (vm_pmm vmm_roomy)" using vmm_roomy_wf by (simp add: pt_wf_def)
  have n: "max 1 (stack_pages 0x4000) = 4" by (simp add: stack_pages_def PAGE_SIZE_def)
  have f: "free_list vmm_roomy = [800..<824]" by (simp add: vmm_roomy_free)
  have S: "base = frame_of 800" "free_list v1 = drop 4 [800..<824]" 
    using AllocStack_spec [OF inv A] unfolding n f by simp_all
  have "pmm_free (vm_pmm v1) = {804..<824}"
    using arg_cong [OF S(2), of set] by (simp only: drop_upt set_upt set_sorted_list_of_set [OF finite_pmm_free]) simp
  then have "frame_of 803 \<notin> pmm_frames (vm_pmm v1)"
    by (auto simp: pmm_frames_def frame_of_inj MAX_PAGES_val)
  moreover have "frame_of 803 \<in> pmm_frames (vm_pmm vmm_roomy)" by (simp add: pmm_frames_def vmm_roomy_free)
  ultimately show thesis using that A S(1) by blast
qed

lemma user_thread_frame_witness:
  "\<exists>t. fst (CreateUserThread (Some 1) None 0x401000 0x700000 5 0x4000 psys_user) = Some t
     \<and> rd64 (p_vmm (snd (CreateUserThread (Some 1) None 0x401000 0x700000 5 0x4000 psys_user))) 0x323FD8 = 0x401000"
proof -
  obtain v1 where A: "AllocStack 0x4000 vmm_roomy = (frame_of 800, v1)"
    and F: "frame_of 803 \<in> pmm_frames (vm_pmm vmm_roomy) - pmm_frames (vm_pmm v1)" by (rule vmm_roomy_stack)
  obtain r s' where C: "CreateUserThread (Some 1) None 0x401000 0x700000 5 0x4000 psys_user = (r, s')" by fastforce
  have b: "frame_of 800 = 0x320000" "frame_of 803 = 0x323000" by (simp_all add: frame_of_def PAGE_SIZE_def)
  obtain h where H: "Heap_AllocZeroed SIZEOF_KTHREAD ALIGNOF_OBJECT (p_heap psys_demo) = (0x200000, h)"
    using psys_user_heap by (metis prod.collapse)
  have "r \<noteq> None" using C A by (auto simp: CreateUserThread_def psys_user_sel b new_thread_def H Let_def split: prod.splits)
  then obtain t where t: "r = Some t" by blast
  have wf: "pt_wf (p_vmm psys_user) (Cr3 (the_proc psys_user 1))" unfolding psys_user_sel by (rule vmm_roomy_wf)
  have A': "AllocStack 0x4000 (p_vmm psys_user) = (0x320000, v1)" using A by (simp add: psys_user_sel b)
  have "0x320000 + 0x4000 - 4096 \<in> pmm_frames (vm_pmm (p_vmm psys_user)) - pmm_frames (vm_pmm v1)"
    using F by (simp add: psys_user_sel b)
  from user_thread_frame [OF C [unfolded t] wf A' this]
  have "\<forall>i<13. rd64 (p_vmm s') (0x323F98 + 8 * of_nat i) =
     [0, 0, 0, 0, 0, 0, user_thread_entry psys_user, 5, 0x401000, USER_CS, USER_FLAGS, 0x700000, USER_SS] ! i" by simp
  from this [rule_format, of 8] show ?thesis using C t by simp
qed

end
