(* ===== verification/SharedTime.thy ===== *)
theory SharedTime
  imports SharedPage ProcessProps SysQuery
begin

text \<open>KUSER\_SHARED\_DATA, kernel/core/shareduserdata.cpp: the page at 0x7FFE0000 that every process reads, its identity fields, and
  the time fields that the timer writes while processes read them.\<close>

section \<open>Definitions\<close>

definition OFF_TickCountMultiplier :: u64 where "OFF_TickCountMultiplier = 0x004"
definition OFF_InterruptTime :: u64 where "OFF_InterruptTime = 0x008"
definition OFF_SystemTime :: u64 where "OFF_SystemTime = 0x014"
definition OFF_NtSystemRoot :: u64 where "OFF_NtSystemRoot = 0x030"
definition OFF_NtProductType :: u64 where "OFF_NtProductType = 0x264"
definition OFF_ProductTypeIsValid :: u64 where "OFF_ProductTypeIsValid = 0x268"
definition OFF_NtMajorVersion :: u64 where "OFF_NtMajorVersion = 0x26C"
definition OFF_NtMinorVersion :: u64 where "OFF_NtMinorVersion = 0x270"
definition OFF_NtBuildNumber :: u64 where "OFF_NtBuildNumber = 0x274"
definition OFF_TickCount :: u64 where "OFF_TickCount = 0x320"

definition WIN_MAJOR :: u32 where "WIN_MAJOR = 10"
definition WIN_MINOR :: u32 where "WIN_MINOR = 0"
definition WIN_BUILD :: u32 where "WIN_BUILD = 26100"

text \<open>A 64-bit time at an offset, written by three stores in this order: High2Time, LowPart, High1Time.\<close>
definition WriteSystemTime :: "u64 \<Rightarrow> u64 \<Rightarrow> poke list" where
  "WriteSystemTime off v = [D (off + 8) (ucast (drop_bit 32 v)), D (off + 0) (ucast (v AND 0xFFFFFFFF)), D (off + 4) (ucast (drop_bit 32 v))]"

definition tick_stores :: "u64 \<Rightarrow> poke list" where
  "tick_stores ticks =
    (let time100ns = ticks * 100000
     in WriteSystemTime OFF_InterruptTime time100ns @ WriteSystemTime OFF_SystemTime time100ns @ WriteSystemTime OFF_TickCount ticks)"

text \<open>The page is 0 until Init has run.\<close>
definition KUSER_Tick :: "u64 \<Rightarrow> u64 \<Rightarrow> vmm \<Rightarrow> vmm" where
  "KUSER_Tick ticks page v = (if page = 0 then v else pokes page (tick_stores ticks) v)"

definition identity_stores :: "poke list" where
  "identity_stores =
    [D OFF_TickCountMultiplier 0x0A000000, D OFF_NtProductType 1, D OFF_ProductTypeIsValid 1,
     D OFF_NtMajorVersion WIN_MAJOR, D OFF_NtMinorVersion WIN_MINOR, D OFF_NtBuildNumber WIN_BUILD]
    @ wide OFF_NtSystemRoot (''C:'' @ [CHR 0x5C] @ ''Windows'')"

text \<open>The new page and state; a failure to map the page is only logged.\<close>
definition KUSER_Init :: "u64 \<Rightarrow> u64 \<Rightarrow> vmm \<Rightarrow> u64 \<times> vmm" where
  "KUSER_Init ticks page v =
    (let (phys, v) = alloc_page v in
     if phys = 0 then (page, v) else
     let page = phys; v = zero_page phys v;
         v = pokes page identity_stores v;
         v = KUSER_Tick ticks page v;
         (ok, v) = MapSharedUserData phys v
     in (page, v))"

definition MajorVersion :: u32 where "MajorVersion = WIN_MAJOR"
definition MinorVersion :: u32 where "MinorVersion = WIN_MINOR"
definition BuildNumber :: u32 where "BuildNumber = WIN_BUILD"

section \<open>Reading the fields back\<close>

definition rd32 :: "vmm \<Rightarrow> u64 \<Rightarrow> u32" where
  "rd32 s a = of_nat (le_val 4 (\<lambda>i. rd8 s (a + of_nat i)))"

lemma rd32_wr32: "rd32 (wr32 p v s) p = v"
proof -
  have v: "unat (ucast v :: u64) = unat v" using unsigned_less [of v, where ?'a = nat] by (simp add: unsigned_ucast_eq take_bit_nat_eq_self)
  have "le_val 4 (\<lambda>i. rd8 (wr32 p v s) (p + of_nat i)) = le_val 4 (\<lambda>i. of_nat (unat v div 256 ^ i))"
    by (rule le_val_cong) (simp add: wr32_def rd8_wr_bytes unat_of_nat64 byte_of_nat v)
  also have "\<dots> = unat v" unfolding le_val_digits by (rule mod_less) (use unsigned_less [of v, where ?'a = nat] in simp)
  finally show ?thesis by (simp add: rd32_def)
qed

text \<open>A store that does not touch the n bytes at offset q.\<close>
definition apart :: "nat \<Rightarrow> nat \<Rightarrow> poke \<Rightarrow> bool" where
  "apart q n p \<longleftrightarrow> (q + n \<le> unat (poke_off p) \<or> unat (poke_off p) + poke_len p \<le> q) \<and> in_page p"

lemma rd8_pokes_apart:
  assumes "q < 4096" "\<forall>p\<in>set ps. apart q 1 p"
  shows "rd8 (pokes b ps s) (b + of_nat q) = rd8 s (b + of_nat q)"
  using assms(2)
proof (induction ps arbitrary: s)
  case (Cons p ps)
  obtain g where g: "poke1 b p s = wr_bytes (b + poke_off p) (poke_len p) g s" using poke1_bytes by blast
  have q: "unat (of_nat q :: u64) = q" using assms(1) by (intro unat_of_nat64) simp
  have e: "b + of_nat q - (b + poke_off p) = of_nat q - poke_off p" by simp
  have a: "q + 1 \<le> unat (poke_off p) \<or> unat (poke_off p) + poke_len p \<le> q" "unat (poke_off p) + poke_len p \<le> 4096"
    using Cons.prems by (simp_all add: apart_def in_page_def)
  have "\<not> unat (of_nat q - poke_off p) < poke_len p" using a assms(1) by (auto simp: unat_sub_if' q)
  then have "rd8 (poke1 b p s) (b + of_nat q) = rd8 s (b + of_nat q)"
    using poke_len_le [of p] by (simp add: g rd8_wr_bytes e)
  then show ?case using Cons by simp
qed simp

lemma rd32_pokes:
  assumes "ps = xs @ D q v # ys" "unat q + 4 \<le> 4096" "\<forall>p\<in>set ys. apart (unat q) 4 p"
  shows "rd32 (pokes b ps s) (b + q) = v"
proof -
  have "rd8 (pokes b ys (wr32 (b + q) v t)) (b + q + of_nat i) = rd8 (wr32 (b + q) v t) (b + q + of_nat i)" if "i < 4" for i t
  proof -
    have "\<forall>p\<in>set ys. apart (unat q + i) 1 p" using assms(3) that by (auto simp: apart_def)
    from rd8_pokes_apart [OF _ this, of b "wr32 (b + q) v t"] show ?thesis using assms(2) that by (simp add: add.assoc)
  qed
  then have "rd32 (pokes b ys (wr32 (b + q) v t)) (b + q) = rd32 (wr32 (b + q) v t) (b + q)" for t
    unfolding rd32_def by (intro arg_cong [where f = of_nat] le_val_cong) blast
  then show ?thesis by (simp add: assms(1) rd32_wr32)
qed

section \<open>Init over the boot loader's tables\<close>

lemma frame_offset_or: "f \<in> pmm_all_frames \<Longrightarrow> i < 4096 \<Longrightarrow> f OR of_nat i = f + of_nat i"
proof -
  assume f: "f \<in> pmm_all_frames" and i: "i < 4096"
  have "f AND of_nat i = 0"
  proof (rule bit_word_eqI)
    fix n
    have "bit (of_nat i :: u64) n \<Longrightarrow> n < 12"
    proof -
      assume "bit (of_nat i :: u64) n"
      then have "bit i n" by (simp add: bit_simps)
      then have "2 ^ n \<le> i" by (metis bit_iff_odd div_less even_zero not_le)
      then have "(2 :: nat) ^ n < 2 ^ 12" using i by simp
      then show "n < 12" by (rule power_less_imp_less_exp [rotated]) simp
    qed
    then show "bit (f AND of_nat i) n = bit 0 n" using frame_bits [OF f, of n] by (auto simp: bit_and_iff)
  qed
  then show ?thesis by (rule disjunctive_add_eq_or [symmetric])
qed

lemma time_stores_in_page: "\<forall>p\<in>set (tick_stores t). in_page p" "\<forall>p\<in>set identity_stores. in_page p"
  by (simp_all add: tick_stores_def WriteSystemTime_def identity_stores_def in_page_def wide_def OFF_InterruptTime_def OFF_SystemTime_def
      OFF_TickCount_def OFF_TickCountMultiplier_def OFF_NtSystemRoot_def OFF_NtProductType_def OFF_ProductTypeIsValid_def OFF_NtMajorVersion_def
      OFF_NtMinorVersion_def OFF_NtBuildNumber_def Let_def)

lemmas off_defs = OFF_InterruptTime_def OFF_SystemTime_def OFF_TickCount_def OFF_TickCountMultiplier_def OFF_NtSystemRoot_def OFF_NtProductType_def
  OFF_ProductTypeIsValid_def OFF_NtMajorVersion_def OFF_NtMinorVersion_def OFF_NtBuildNumber_def

text \<open>The fields after Init, before the page is mapped.\<close>
lemma identity_fields:
  defines "w t p v \<equiv> pokes p (tick_stores t) (pokes p identity_stores v)"
  shows "rd32 (w t p v) (p + OFF_NtMajorVersion) = 10" "rd32 (w t p v) (p + OFF_NtMinorVersion) = 0"
    "rd32 (w t p v) (p + OFF_NtBuildNumber) = 26100" "rd32 (w t p v) (p + OFF_TickCountMultiplier) = 0x0A000000"
    "rd32 (w t p v) (p + OFF_TickCount) = ucast (t AND 0xFFFFFFFF)"
proof -
  have W: "w t p v = pokes p (identity_stores @ tick_stores t) v" by (simp add: w_def)
  note D = apart_def in_page_def wide_def tick_stores_def WriteSystemTime_def Let_def off_defs identity_stores_def
  show "rd32 (w t p v) (p + OFF_NtMajorVersion) = 10" unfolding W
    by (rule rd32_pokes [of _ "take 3 identity_stores" _ _ "drop 4 identity_stores @ tick_stores t"]) (simp_all add: D WIN_MAJOR_def)
  show "rd32 (w t p v) (p + OFF_NtMinorVersion) = 0" unfolding W
    by (rule rd32_pokes [of _ "take 4 identity_stores" _ _ "drop 5 identity_stores @ tick_stores t"]) (simp_all add: D WIN_MINOR_def)
  show "rd32 (w t p v) (p + OFF_NtBuildNumber) = 26100" unfolding W
    by (rule rd32_pokes [of _ "take 5 identity_stores" _ _ "drop 6 identity_stores @ tick_stores t"]) (simp_all add: D WIN_BUILD_def)
  show "rd32 (w t p v) (p + OFF_TickCountMultiplier) = 0x0A000000" unfolding W
    by (rule rd32_pokes [of _ "[]" _ _ "drop 1 identity_stores @ tick_stores t"]) (simp_all add: D)
  show "rd32 (w t p v) (p + OFF_TickCount) = ucast (t AND 0xFFFFFFFF)" unfolding W
    by (rule rd32_pokes [of _ "identity_stores @ take 7 (tick_stores t)" _ _ "drop 8 (tick_stores t)"]) (simp_all add: D)
qed

lemma KUSER_Init_state:
  assumes L: "boot_layout s pt" and inv: "pmm_inv (vm_pmm s)" and u: "\<forall>k<6. table_of pt k \<in> used_frames s"
    and c: "2 \<le> card (pmm_free (vm_pmm s))" and K: "KUSER_Init ticks p0 s = (page, s')"
  shows "root_ok s' pt" "s_pml4_phys s' = pt" "page \<in> used_frames s'" "page \<in> pmm_all_frames" "page \<noteq> 0"
    "unat a < 2 ^ 48 \<Longrightarrow> V2P a s' = (if unat a < 2 ^ 32 then (if unat a div 4096 = 0x7FFE0 then page OR (a AND 0xFFF) else a) else 0)"
    "\<exists>v. \<forall>i<4096. rd8 s' (page + of_nat i) = rd8 (pokes page (tick_stores ticks) (pokes page identity_stores v)) (page + of_nat i)"
    "pmm_inv (vm_pmm s')" "card (pmm_frames (vm_pmm s')) = card (pmm_free (vm_pmm s)) - 2"
proof -
  obtain f1 s1 where a1: "alloc_page s = (f1, s1)" by fastforce
  have cf: "card (pmm_frames (vm_pmm s)) \<ge> 2" using c by (simp add: card_pmm_frames)
  have n1: "f1 \<noteq> 0"
  proof
    assume "f1 = 0"
    then have "pmm_frames (vm_pmm s) = {}" using inv a1 pmm.alloc_zero_iff [of "vm_pmm s"] by (auto simp: alloc_page_def split: prod.splits)
    then show False using cf by simp
  qed
  note A1 = alloc_page_frame [OF inv a1 n1]
  define z where "z = zero_page f1 s1"
  define w where "w = pokes f1 (tick_stores ticks) (pokes f1 identity_stores z)"
  have wo: "writes_only s1 f1 w"
  proof -
    have "writes_only z f1 (pokes f1 identity_stores z)" by (rule pokes_only [OF A1(1)]) (use time_stores_in_page in blast)
    moreover have "writes_only (pokes f1 identity_stores z) f1 w" unfolding w_def
      by (rule pokes_only [OF A1(1)]) (use time_stores_in_page in blast)
    moreover have "writes_only s1 f1 z" unfolding z_def by (rule zero_page_only [OF A1(1)])
    ultimately show ?thesis by (blast intro: writes_in_trans)
  qed
  have wp: "vm_pmm w = vm_pmm s1" using wo by (simp add: writes_in_def)
  have inv1: "pmm_inv (vm_pmm s1)" by (rule A1(3))
  obtain f pm where a2: "AllocPage (vm_pmm w) = (f, pm)" by fastforce
  have "f1 \<in> pmm_frames (vm_pmm s)" using A1(1,2) n1 by (auto simp: used_frames_def)
  then have "card (pmm_frames (vm_pmm s1)) \<ge> 1" using cf A1(7) by simp
  then have n2: "f \<noteq> 0" using inv1 a2 pmm.alloc_zero_iff [of "vm_pmm s1"] by (auto simp: wp)
  have f: "f \<in> pmm_frames (vm_pmm s1)" "pmm_frames pm = pmm_frames (vm_pmm s1) - {f}" "f \<in> pmm_all_frames"
    using pmm.alloc_nonzero [OF inv1] a2 n2 pmm.frames_ok [OF inv1] by (auto simp: wp)
  have invp: "pmm_inv pm" using pmm.alloc_inv [OF inv1] a2 by (simp add: wp)
  have tu: "table_of pt k \<in> used_frames s1" "table_of pt k \<noteq> f1" "table_of pt k \<noteq> f" "table_of pt k \<in> pmm_all_frames" if "k < 6" for k
  proof -
    have t: "table_of pt k \<in> used_frames s" using u that by blast
    then show "table_of pt k \<in> used_frames s1" "table_of pt k \<noteq> f1" using A1(2,4) by auto
    then show "table_of pt k \<noteq> f" using f(1) by (auto simp: used_frames_def)
    show "table_of pt k \<in> pmm_all_frames" using t by (auto simp: used_frames_def)
  qed
  have rw: "rd w (table_of pt k) j = rd s (table_of pt k) j" if "k < 6" "j < 512" for k j
    using wo tu(2,4) [OF that(1)] that(2) A1(5) by (simp add: writes_in_def)
  have sp: "s_pml4_phys w = pt"
  proof -
    have "s_pml4_phys (pokes b ps v) = s_pml4_phys v" for b ps v
    proof (induction ps arbitrary: v)
      case (Cons p ps)
      obtain g where "poke1 b p v = wr_bytes (b + poke_off p) (poke_len p) g v" using poke1_bytes by blast
      then show ?case using Cons by simp
    qed simp
    moreover have "s_pml4_phys s1 = s_pml4_phys s" by (subst A1(6)) simp
    ultimately show ?thesis using L by (simp add: w_def z_def zero_page_def boot_layout_def)
  qed
  have Lw: "boot_layout w pt"
  proof -
    have "table_of pt 0 = pt" by simp
    then have "rd w pt j = rd s pt j" if "j < 512" for j using rw [of 0 j] that by simp
    moreover have "rd w (table_of pt 1) j = rd s (table_of pt 1) j" if "j < 512" for j using rw [of 1 j] that by simp
    moreover have "rd w (table_of pt (2 + m)) j = rd s (table_of pt (2 + m)) j" if "m < 4" "j < 512" for m j using rw [of "2 + m" j] that by simp
    ultimately show ?thesis using L sp unfolding boot_layout_def by (metis (no_types, lifting))
  qed
  have fT: "\<forall>k<6. f \<noteq> table_of pt k" using tu(3) by blast
  obtain s2 where M: "MapSharedUserData f1 w = (True, s2)" "shared_layout s2 pt f f1" "vm_pmm s2 = pm"
    and other: "\<And>u j. u \<in> pmm_all_frames \<Longrightarrow> u \<noteq> f \<Longrightarrow> \<forall>k<6. u \<noteq> table_of pt k \<Longrightarrow> j < 512 \<Longrightarrow> rd s2 u j = rd w u j"
    by (rule MapSharedUserData_layout [OF Lw a2 n2 f(3) fT]) blast
  have "KUSER_Init ticks p0 s = (f1, s2)"
    using n1 M(1) by (simp add: KUSER_Init_def a1 z_def w_def KUSER_Tick_def Let_def)
  then have e: "page = f1" "s' = s2" using K by simp_all
  have used: "used_frames s2 = insert f (used_frames s1)" using f n2 M(3) by (auto simp: used_frames_def)
  show "root_ok s' pt" unfolding e
    by (rule shared_layout_root [OF M(2) A1(1)]) (use invp M(3) used tu(1) in auto)
  show "s_pml4_phys s' = pt" using M(2) by (simp add: e shared_layout_def)
  show "page \<in> used_frames s'" "page \<in> pmm_all_frames" "page \<noteq> 0" using used A1(1,4) n1 by (auto simp: e)
  show "unat a < 2 ^ 48 \<Longrightarrow> V2P a s' = (if unat a < 2 ^ 32 then (if unat a div 4096 = 0x7FFE0 then page OR (a AND 0xFFF) else a) else 0)"
    unfolding e by (rule shared_layout_V2P [OF M(2) A1(1)])
  have "f1 \<noteq> f" using A1(4) f(1) by (auto simp: used_frames_def)
  moreover have "\<forall>k<6. f1 \<noteq> table_of pt k" using tu(2) by metis
  ultimately have "rd s2 f1 j = rd w f1 j" if "j < 512" for j using other [OF A1(1)] that by blast
  then have "rd8 s2 (f1 + of_nat i) = rd8 w (f1 + of_nat i)" if "i < 4096" for i
    using frame_byte(4) [OF A1(1) that] by (simp add: rd8_frame [OF A1(1) that])
  then show "\<exists>v. \<forall>i<4096. rd8 s' (page + of_nat i) = rd8 (pokes page (tick_stores ticks) (pokes page identity_stores v)) (page + of_nat i)"
    unfolding e w_def by blast
  show "pmm_inv (vm_pmm s')" using invp M(3) by (simp add: e)
  show "card (pmm_frames (vm_pmm s')) = card (pmm_free (vm_pmm s)) - 2"
    using M(3) f(1,2) A1(7) \<open>f1 \<in> pmm_frames (vm_pmm s)\<close> by (simp add: e card_pmm_frames [symmetric])
qed

section \<open>What a process reads\<close>

lemma shared_offset: "i < 4096 \<Longrightarrow> (0x7FFE0000 + i :: nat) mod 4096 = i"
proof -
  have "(0x7FFE0000 :: nat) = 524256 * 4096" by simp
  then show "i < 4096 \<Longrightarrow> (0x7FFE0000 + i :: nat) mod 4096 = i" by (simp only: mod_mult_self3 mod_less)
qed

lemma shared_address:
  assumes "i < 4096"
  defines "va \<equiv> 0x7FFE0000 + of_nat i :: u64"
  shows "unat va = 0x7FFE0000 + i" "unat va div 4096 = 0x7FFE0" "va AND 0xFFF = of_nat i" "pml4_idx va = 0" "pdpt_idx va < 4"
proof -
  have "unat (of_nat i :: u64) = i" using assms(1) by (intro unat_of_nat64) simp
  then show u: "unat va = 0x7FFE0000 + i" unfolding va_def using assms(1) by (subst unat_add_lem [THEN iffD1]) simp_all
  show "unat va div 4096 = 0x7FFE0" unfolding u using assms(1) by simp
  have F: "(0xFFF :: u64) = mask 12" by (simp add: mask_eq_exp_minus_1)
  have "unat (va AND 0xFFF) = (0x7FFE0000 + i) mod 4096"
    unfolding F take_bit_eq_mask [symmetric] unsigned_take_bit_eq u take_bit_nat_def by simp
  then have "unat (va AND 0xFFF) = i" by (simp only: shared_offset [OF assms(1)])
  then have "(of_nat (unat (va AND 0xFFF)) :: u64) = of_nat i" by (rule arg_cong)
  then show "va AND 0xFFF = of_nat i" by simp
  have "unat va < 2 ^ 32" unfolding u using assms(1) by simp
  then show "pml4_idx va = 0" "pdpt_idx va < 4" by (rule low_indices)+
qed

lemma process_reads_shared:
  assumes R: "root_ok s' pt" "s_pml4_phys s' = pt" and P: "page \<in> used_frames s'" "page \<in> pmm_all_frames" "page \<noteq> 0"
    and V: "\<And>a. unat a < 2 ^ 48 \<Longrightarrow> V2P a s' = (if unat a < 2 ^ 32 then (if unat a div 4096 = 0x7FFE0 then page OR (a AND 0xFFF) else a) else 0)"
    and C: "CreateUserPml4 s' = (n, s2)" "n \<noteq> 0" and o': "unat q + 4 \<le> 4096"
  shows "shared32 n q s2 = rd32 s' (page + q)"
proof -
  have root: "root_ok s' (s_pml4_phys s')" using R by simp
  have B: "ReadUserByte n (0x7FFE0000 + of_nat i) s2 = rd8 s' (page + of_nat i)" if i: "i < 4096" for i
  proof -
    let ?a = "0x7FFE0000 + of_nat i :: u64"
    note A = shared_address [OF i]
    have "\<not> (present (rd s' pt (pml4_idx ?a)) \<and> huge (rd s' pt (pml4_idx ?a)))" using R(1) idx_lt(1) by (auto simp: root_ok_def)
    then have "TranslateInPml4 pt ?a s' = V2P ?a s'" using V2P_Translate R(2) by metis
    also have "\<dots> = page + of_nat i" using V [of ?a] A(1,2,3) i by (simp add: frame_offset_or [OF P(2) i])
    finally have "TranslateInPml4 n ?a s2 = page + of_nat i"
      using CreateUserPml4_tree(3) [OF root C, of ?a] A(4,5) R(2) by simp
    moreover have "page + of_nat i \<noteq> 0" using frame_byte(3) [OF P(2) i] P(3) by (auto simp: unat_eq_zero)
    moreover have "rd s2 page j = rd s' page j" if "j < 512" for j
    proof (rule CreateUserPml4_mem [OF root C], goal_cases)
      case (1 d)
      show ?case by (rule 1(8) [OF P(1) that])
    qed
    then have "rd8 s2 (page + of_nat i) = rd8 s' (page + of_nat i)"
      using frame_byte(4) [OF P(2) i] by (simp add: rd8_frame [OF P(2) i])
    ultimately show ?thesis by (simp add: ReadUserByte_def Let_def)
  qed
  have "ReadUserByte n (0x7FFE0000 + q + of_nat i) s2 = rd8 s' (page + q + of_nat i)" if "i < 4" for i
  proof -
    have "(of_nat (unat q + i) :: u64) = q + of_nat i" by simp
    then show ?thesis using B [of "unat q + i"] o' that by (simp add: add.assoc)
  qed
  then show ?thesis unfolding shared32_def rd32_def by (intro arg_cong [where f = of_nat] le_val_cong) blast
qed

section \<open>A clock that is read while it is written\<close>

datatype clock_reader = Idle | GotHigh1 u32 | GotLow u32 u32 | GotAll u32 u32 u32

text \<open>The fields of one time, the stores of the writer that are still to come, the values that it has begun to write, the last one
  first, and how far a reader is.\<close>
record clock =
  c_mem :: "u64 \<Rightarrow> u32"
  c_pend :: "poke list"
  c_vals :: "u64 list"
  c_rd :: clock_reader

text \<open>One store or one load at a time.  The writer starts a new, not smaller, value when the last one is complete; a reader loads
  High1Time, LowPart and High2Time.\<close>
inductive clock_step :: "u64 \<Rightarrow> clock \<Rightarrow> clock \<Rightarrow> bool" for off :: u64 where
  clock_start: "c_pend s = [] \<Longrightarrow> hd (c_vals s) \<le> v \<Longrightarrow> clock_step off s (s\<lparr>c_pend := WriteSystemTime off v, c_vals := v # c_vals s\<rparr>)"
| clock_store: "c_pend s = D a x # ps \<Longrightarrow> clock_step off s (s\<lparr>c_mem := (c_mem s)(a := x), c_pend := ps\<rparr>)"
| clock_high1: "clock_step off s (s\<lparr>c_rd := GotHigh1 (c_mem s (off + 4))\<rparr>)"
| clock_low: "c_rd s = GotHigh1 h \<Longrightarrow> clock_step off s (s\<lparr>c_rd := GotLow h (c_mem s (off + 0))\<rparr>)"
| clock_high2: "c_rd s = GotLow h l \<Longrightarrow> clock_step off s (s\<lparr>c_rd := GotAll h l (c_mem s (off + 8))\<rparr>)"

definition clock0 :: clock where "clock0 = \<lparr>c_mem = (\<lambda>_. 0), c_pend = [], c_vals = [0], c_rd = Idle\<rparr>"

abbreviation hi32 :: "u64 \<Rightarrow> u32" where "hi32 v \<equiv> ucast (drop_bit 32 v)"
abbreviation lo32 :: "u64 \<Rightarrow> u32" where "lo32 v \<equiv> ucast (v AND 0xFFFFFFFF)"

lemma hi32_mono: "v \<le> w \<Longrightarrow> hi32 v \<le> hi32 w"
proof -
  have u: "unat (hi32 v) = unat v div 2 ^ 32" for v
  proof -
    have "unat v div 2 ^ 32 < 2 ^ 32" using unat_lt64 [of v] by (simp add: less_mult_imp_div_less)
    then show ?thesis by (simp only: unsigned_ucast_eq unat_drop take_bit_nat_def) simp
  qed
  assume "v \<le> w"
  then show ?thesis by (simp add: word_le_nat_alt u div_le_mono)
qed

lemma join32: "hi32 w = h \<Longrightarrow> lo32 w = l \<Longrightarrow> push_bit 32 (ucast h) OR ucast l = w"
proof -
  have M: "(0xFFFFFFFF :: u64) = mask 32" by (simp add: mask_eq_exp_minus_1)
  assume "hi32 w = h" "lo32 w = l"
  then show ?thesis unfolding M
    by (auto intro!: bit_word_eqI simp: bit_or_iff bit_push_bit_iff bit_ucast_iff bit_drop_bit_eq bit_and_iff bit_mask_iff)
qed

text \<open>The fields belong to the last value, or, as far as its stores are still to come, to the one before.\<close>
definition clock_mem_ok :: "u64 \<Rightarrow> clock \<Rightarrow> bool" where
  "clock_mem_ok off s \<longleftrightarrow> (\<exists>u v k. v = hd (c_vals s) \<and> u \<in> set (c_vals s) \<and> v \<in> set (c_vals s) \<and> u \<le> v \<and> k \<le> 3
     \<and> c_pend s = drop k (WriteSystemTime off v)
     \<and> c_mem s (off + 8) = hi32 (if k \<ge> 1 then v else u) \<and> c_mem s (off + 0) = lo32 (if k \<ge> 2 then v else u)
     \<and> c_mem s (off + 4) = hi32 (if k \<ge> 3 then v else u))"

fun clock_rd_ok :: "u64 \<Rightarrow> clock \<Rightarrow> clock_reader \<Rightarrow> bool" where
  "clock_rd_ok off s Idle = True"
| "clock_rd_ok off s (GotHigh1 h) = (h \<le> c_mem s (off + 4))"
| "clock_rd_ok off s (GotLow h l) = (\<exists>w\<in>set (c_vals s). l = lo32 w \<and> h \<le> hi32 w \<and> hi32 w \<le> c_mem s (off + 8))"
| "clock_rd_ok off s (GotAll h l h') = (\<exists>w\<in>set (c_vals s). l = lo32 w \<and> h \<le> hi32 w \<and> hi32 w \<le> h')"

lemma clock_mem_okI:
  "v = hd (c_vals s) \<Longrightarrow> u \<in> set (c_vals s) \<Longrightarrow> v \<in> set (c_vals s) \<Longrightarrow> u \<le> v \<Longrightarrow> k \<le> 3 \<Longrightarrow> c_pend s = drop k (WriteSystemTime off v) \<Longrightarrow>
   c_mem s (off + 8) = hi32 (if k \<ge> 1 then v else u) \<Longrightarrow> c_mem s (off + 0) = lo32 (if k \<ge> 2 then v else u) \<Longrightarrow>
   c_mem s (off + 4) = hi32 (if k \<ge> 3 then v else u) \<Longrightarrow> clock_mem_ok off s"
  unfolding clock_mem_ok_def by blast

lemma store_cases:
  assumes "D a x # ps = drop k (WriteSystemTime off v)"
  shows "k = 0 \<and> a = off + 8 \<and> x = hi32 v \<and> ps = drop (Suc k) (WriteSystemTime off v)
    \<or> k = 1 \<and> a = off + 0 \<and> x = lo32 v \<and> ps = drop (Suc k) (WriteSystemTime off v)
    \<or> k = 2 \<and> a = off + 4 \<and> x = hi32 v \<and> ps = drop (Suc k) (WriteSystemTime off v)"
proof -
  have "k < 3" using assms by (cases "k < 3") (simp_all add: WriteSystemTime_def)
  then have "k = 0 \<or> k = 1 \<or> k = 2" by auto
  then show ?thesis using assms by (auto simp: WriteSystemTime_def)
qed

lemma other_off: "(off :: u64) + 8 \<noteq> off" "off \<noteq> off + 8" "off + 4 \<noteq> off" "off \<noteq> off + 4" "off + 8 \<noteq> off + 4" "off + 4 \<noteq> off + 8"
  by simp_all

lemma clock_inv_step:
  assumes "clock_step off s s'" "clock_mem_ok off s" "clock_rd_ok off s (c_rd s)"
  shows "clock_mem_ok off s' \<and> clock_rd_ok off s' (c_rd s')"
proof -
  obtain u v k where m: "v = hd (c_vals s)" "u \<in> set (c_vals s)" "v \<in> set (c_vals s)" "u \<le> v" "k \<le> 3"
     "c_pend s = drop k (WriteSystemTime off v)"
     "c_mem s (off + 8) = hi32 (if k \<ge> 1 then v else u)" "c_mem s (off + 0) = lo32 (if k \<ge> 2 then v else u)"
     "c_mem s (off + 4) = hi32 (if k \<ge> 3 then v else u)"
    using assms(2) unfolding clock_mem_ok_def by blast
  have uv: "hi32 u \<le> hi32 v" by (rule hi32_mono [OF m(4)])
  have k: "k = 0 \<or> k = 1 \<or> k = 2 \<or> k = 3" using m(5) by auto
  note W = WriteSystemTime_def
  show ?thesis using assms(1)
  proof (cases rule: clock_step.cases)
    case (clock_start w)
    have "k = 3" using clock_start(2) m(6) k by (auto simp: W)
    then have "clock_mem_ok off s'" 
      by (intro clock_mem_okI [of w s' v 0]) (use clock_start m \<open>k = 3\<close> in simp_all)
    moreover have "clock_rd_ok off s' (c_rd s)" using assms(3) clock_start(1) by (cases "c_rd s") auto
    ultimately show ?thesis using clock_start(1) by simp
  next
    case (clock_store a x ps)
    have p: "D a x # ps = drop k (WriteSystemTime off v)" using clock_store(2) m(6) by simp
    have "clock_mem_ok off s' \<and> (\<forall>r. clock_rd_ok off s r \<longrightarrow> clock_rd_ok off s' r)"
      using store_cases [OF p]
    proof (elim disjE conjE, goal_cases)
      case 1
      show ?case
        by (intro conjI clock_mem_okI [of v s' u "Suc k" off] allI) (use clock_store(1) m 1 uv in \<open>simp_all add: other_off\<close>, case_tac r, auto simp: other_off)
    next
      case 2
      show ?case
        by (intro conjI clock_mem_okI [of v s' u "Suc k" off] allI) (use clock_store(1) m 2 uv in \<open>simp_all add: other_off\<close>, case_tac r, auto simp: other_off)
    next
      case 3
      show ?case
        by (intro conjI clock_mem_okI [of v s' u "Suc k" off] allI) (use clock_store(1) m 3 uv in \<open>simp_all add: other_off\<close>, case_tac r, auto simp: other_off)
    qed
    then have "clock_mem_ok off s'" "clock_rd_ok off s' (c_rd s)" using assms(3) by auto
    then show ?thesis using clock_store(1) by simp
  next
    case clock_high1
    then show ?thesis using assms(2) by (simp add: clock_mem_ok_def)
  next
    case (clock_low h)
    have "\<exists>w\<in>set (c_vals s). c_mem s (off + 0) = lo32 w \<and> h \<le> hi32 w \<and> hi32 w \<le> c_mem s (off + 8)"
      by (rule bexI [of _ "if k \<ge> 2 then v else u"]) (use assms(3) clock_low(2) m uv k in auto)
    then show ?thesis using assms(2) clock_low(1) by (simp add: clock_mem_ok_def)
  next
    case (clock_high2 h l)
    then show ?thesis using assms(2,3) by (auto simp: clock_mem_ok_def)
  qed
qed

section \<open>Properties\<close>

lemma KUSER_Init_fields:
  assumes "root_ok s' pt" "s_pml4_phys s' = pt" "page \<in> used_frames s'" "page \<in> pmm_all_frames" "page \<noteq> 0"
    and V: "\<And>a. unat a < 2 ^ 48 \<Longrightarrow> V2P a s' = (if unat a < 2 ^ 32 then (if unat a div 4096 = 0x7FFE0 then page OR (a AND 0xFFF) else a) else 0)"
    and E: "\<forall>i<4096. rd8 s' (page + of_nat i) = rd8 (pokes page (tick_stores ticks) (pokes page identity_stores v)) (page + of_nat i)"
    and C: "CreateUserPml4 s' = (n, s2)" "n \<noteq> 0"
  shows "shared32 n OFF_NtMajorVersion s2 = 10" "shared32 n OFF_NtMinorVersion s2 = 0" "shared32 n OFF_NtBuildNumber s2 = 26100"
    "shared32 n OFF_TickCount s2 = ucast (ticks AND 0xFFFFFFFF)"
proof -
  have "shared32 n q s2 = rd32 (pokes page (tick_stores ticks) (pokes page identity_stores v)) (page + q)" if q: "unat q + 4 \<le> 4096" for q
  proof -
    have N: "rd8 s' (page + q + of_nat i) = rd8 (pokes page (tick_stores ticks) (pokes page identity_stores v)) (page + q + of_nat i)" if "i < 4" for i
      using E [rule_format, of "unat q + i"] q that by (simp add: add.assoc)
    have "shared32 n q s2 = rd32 s' (page + q)" by (rule process_reads_shared [OF assms(1-5) _ C q]) (rule V)
    also have "\<dots> = rd32 (pokes page (tick_stores ticks) (pokes page identity_stores v)) (page + q)"
      unfolding rd32_def by (intro arg_cong [where f = of_nat] le_val_cong N)
    finally show ?thesis .
  qed
  moreover have q_lt: "unat OFF_NtMajorVersion + 4 \<le> 4096" "unat OFF_NtMinorVersion + 4 \<le> 4096" "unat OFF_NtBuildNumber + 4 \<le> 4096"
    "unat OFF_TickCount + 4 \<le> 4096" by (simp_all add: off_defs)
  ultimately show "shared32 n OFF_NtMajorVersion s2 = 10" "shared32 n OFF_NtMinorVersion s2 = 0" "shared32 n OFF_NtBuildNumber s2 = 26100"
    "shared32 n OFF_TickCount s2 = ucast (ticks AND 0xFFFFFFFF)"
    by (simp_all only: q_lt identity_fields)
qed

text \<open>C8 (functional): the shared user page is in every process.  After Init over the boot loader's page tables, a process whose address
  space is created then reads Windows version 10.0 build 26100 and the current tick count at 0x7FFE0000.\<close>
theorem shared_data_everywhere:
  assumes "boot_layout s pt" "pmm_inv (vm_pmm s)" "\<forall>k<6. table_of pt k \<in> used_frames s" "2 \<le> card (pmm_free (vm_pmm s))"
    "KUSER_Init ticks 0 s = (page, s')" "CreateUserPml4 s' = (n, s2)" "n \<noteq> 0"
  shows "map (\<lambda>q. shared32 n q s2) [OFF_NtMajorVersion, OFF_NtMinorVersion, OFF_NtBuildNumber, OFF_TickCount]
    = [10, 0, 26100, ucast (ticks AND 0xFFFFFFFF)]"
proof -
  note I = KUSER_Init_state [OF assms(1-5)]
  obtain v where v: "\<forall>i<4096. rd8 s' (page + of_nat i) = rd8 (pokes page (tick_stores ticks) (pokes page identity_stores v)) (page + of_nat i)"
    using I(7) by blast
  have "shared32 n OFF_NtMajorVersion s2 = 10" "shared32 n OFF_NtMinorVersion s2 = 0" "shared32 n OFF_NtBuildNumber s2 = 26100"
    "shared32 n OFF_TickCount s2 = ucast (ticks AND 0xFFFFFFFF)"
    by (rule KUSER_Init_fields [OF I(1-5) _ v assms(6,7)], erule I(6))+
  then show ?thesis by simp
qed

lemma build_tables_pmm: "vm_pmm (build_tables pt v) = vm_pmm v"
proof -
  have "vm_pmm (huge_table t n v) = vm_pmm v" for t n v
  proof -
    have "vm_pmm (fill_table t f xs v) = vm_pmm v" for f xs
      by (induction xs arbitrary: v) (simp_all add: fill_table_def)
    then show ?thesis by (simp add: huge_table_def)
  qed
  then show ?thesis by (simp add: build_tables_def Let_def)
qed

lemma shared_data_everywhere_witness:
  "\<exists>page s' n s2. KUSER_Init 7 0 (VMM_Init (build_tables 0x100000 vmm_roomy\<lparr>vm_cr3 := 0x100000\<rparr>)) = (page, s')
     \<and> CreateUserPml4 s' = (n, s2) \<and> map (\<lambda>q. shared32 n q s2) [OFF_NtMajorVersion, OFF_NtMinorVersion, OFF_NtBuildNumber, OFF_TickCount]
    = [10, 0, 26100, 7]"
proof -
  let ?s = "VMM_Init (build_tables 0x100000 vmm_roomy\<lparr>vm_cr3 := 0x100000\<rparr>)"
  have p: "vm_pmm ?s = vm_pmm vmm_roomy" by (simp add: VMM_Init_def build_tables_pmm)
  have tf: "table_frames 0x100000" by (simp add: table_frames_def)
  have L: "boot_layout ?s 0x100000" by (rule boot_layout_start [OF tf])
  have inv: "pmm_inv (vm_pmm ?s)" using vmm_roomy_wf by (simp add: p pt_wf_def)
  have u: "\<forall>k<6. table_of 0x100000 k \<in> used_frames ?s"
  proof (intro allI impI)
    fix k :: nat assume k: "k < 6"
    have "table_of 0x100000 k = frame_of (256 + k)" by (simp add: frame_of_def PAGE_SIZE_def algebra_simps)
    moreover have "frame_of (256 + k) \<notin> pmm_frames (vm_pmm vmm_roomy)" using k
      by (auto simp: pmm_frames_def vmm_roomy_free frame_of_inj MAX_PAGES_val)
    ultimately show "table_of 0x100000 k \<in> used_frames ?s" using table_of_frame(1) [OF tf k] k
      by (auto simp: used_frames_def p frame_of_zero MAX_PAGES_val)
  qed
  have c: "2 \<le> card (pmm_free (vm_pmm ?s))" by (simp add: p vmm_roomy_free)
  obtain page s' where K: "KUSER_Init 7 0 ?s = (page, s')" by fastforce
  note I = KUSER_Init_state [OF L inv u c K]
  obtain n s2 where C: "CreateUserPml4 s' = (n, s2)" by fastforce
  have "n \<noteq> 0" using CreateUserPml4_nonzero [of s'] C I(8,9) by (simp add: p vmm_roomy_free)
  from shared_data_everywhere [OF L inv u c K C this] show ?thesis using K C by auto
qed

text \<open>C9 (safety): no torn clock.  A process that reads High1Time, LowPart and High2Time while the timer writes, with the stores of the
  kernel and the loads in any order, and finds both high parts equal, has a value that the kernel wrote as a whole.\<close>
theorem clock_read_whole:
  assumes "(clock_step off)\<^sup>*\<^sup>* clock0 s" "c_rd s = GotAll h l h"
  shows "push_bit 32 (ucast h) OR ucast l \<in> set (c_vals s)"
proof -
  have "clock_mem_ok off s \<and> clock_rd_ok off s (c_rd s)" using assms(1)
  proof (induction rule: rtranclp_induct)
    case base
    have "clock_mem_ok off clock0" by (rule clock_mem_okI [of 0 _ 0 3]) (simp_all add: clock0_def WriteSystemTime_def)
    then show ?case by (simp add: clock0_def)
  next
    case (step y z)
    then show ?case using clock_inv_step by blast
  qed
  then show ?thesis using assms(2) join32 by fastforce
qed

lemma clock_read_whole_witness:
  "\<exists>s. (clock_step 0x320)\<^sup>*\<^sup>* clock0 s \<and> c_rd s = GotAll 1 7 1 \<and> 0x100000007 \<in> set (c_vals s)"
proof -
  note I = converse_rtranclp_into_rtranclp
  have "\<exists>s. (clock_step 0x320)\<^sup>*\<^sup>* clock0 s \<and> c_rd s = GotAll 1 7 1"
    apply (intro exI conjI)
     apply (rule I, rule clock_start [where v = "0x100000007"], simp add: clock0_def, simp add: clock0_def)
     apply (rule I, rule clock_store, simp add: WriteSystemTime_def, rule I, rule clock_store, simp, rule I, rule clock_store, simp)
     apply (rule I, rule clock_high1, rule I, rule clock_low, simp, rule I, rule clock_high2, simp, rule rtranclp.rtrancl_refl)
    apply simp
    done
  then obtain s where "(clock_step 0x320)\<^sup>*\<^sup>* clock0 s" "c_rd s = GotAll 1 7 1" by blast
  from clock_read_whole [OF this] this show ?thesis by (intro exI [of _ s]) simp
qed

end
