(* ===== verification/Timer.thy ===== *)
theory Timer
  imports Interrupts SharedTime
begin

text \<open>The timer, kernel/hal/x64/pit.cpp: the divisor of the 8254, the handler of interrupt line 0, which drives the shared user page, the
  cursor, the status bar and the scheduler, and the busy wait.  The variable s\_ms\_per\_tick is written and never read; it is left
  out.\<close>

section \<open>Definitions\<close>

definition PIT_CHAN0 :: u16 where "PIT_CHAN0 = 0x40"
definition PIT_CMD :: u16 where "PIT_CMD = 0x43"
definition PIT_CMD_CHAN0_RATE :: u8 where "PIT_CMD_CHAN0_RATE = 0x34"
definition PIT_BASE_HZ :: u32 where "PIT_BASE_HZ = 1193182"

definition TimerHandler :: "'h handler" where
  "TimerHandler irq m =
    (let ps = (km_ps m)\<lparr>p_sys := (p_sys (km_ps m))\<lparr>pit_ticks := pit_ticks (p_sys (km_ps m)) + 1\<rparr>\<rparr>;
         ticks = pit_ticks (p_sys ps);
         ps = ps\<lparr>p_vmm := KUSER_Tick ticks (km_kuser m) (p_vmm ps)\<rparr>;
         g = (if ticks mod 50 = 0 then BlinkCursor (km_vga m) else km_vga m);
         g = (if ticks mod 100 = 0 then UpdateStatusBar ticks g else g)
     in case Tick (p_sys ps) of None \<Rightarrow> None
        | Some s \<Rightarrow> Some (m\<lparr>km_ps := ps\<lparr>p_sys := s\<rparr>, km_vga := g\<rparr>))"

definition PitInit :: "'h inb \<Rightarrow> 'h outb \<Rightarrow> u32 \<Rightarrow> 'h irq_table \<Rightarrow> 'h kmachine \<Rightarrow> 'h irq_table \<times> 'h kmachine" where
  "PitInit inb outb hz tab m =
    (let hz = (if hz = 0 then 100 else hz);
         m = m\<lparr>km_hz := hz\<rparr>;
         divisor = PIT_BASE_HZ div hz;
         divisor = (if divisor > 0xFFFF then 0xFFFF else divisor);
         divisor = (if divisor < 1 then 1 else divisor);
         h = outb PIT_CMD PIT_CMD_CHAN0_RATE (km_dev m);
         h = outb PIT_CHAN0 (ucast (divisor AND 0xFF)) h;
         h = outb PIT_CHAN0 (ucast (drop_bit 8 divisor)) h;
         tab = IrqRegister 0 (Some TimerHandler) tab;
         h = PicSetMask inb outb 0 False h
     in (tab, m\<lparr>km_dev := h\<rparr>))"

definition PitTicks :: "'h kmachine \<Rightarrow> u64" where "PitTicks m = pit_ticks (p_sys (km_ps m))"

definition ticks_needed :: "u32 \<Rightarrow> u32 \<Rightarrow> u64" where
  "ticks_needed hz ms = (let n = (ucast ms * ucast hz + 999) div 1000 in if n = 0 then 1 else n)"

text \<open>The value of s\_ticks at read i is f i; the result counts the reads.\<close>
partial_function (option) wait_ticks :: "(nat \<Rightarrow> u64) \<Rightarrow> u64 \<Rightarrow> u64 \<Rightarrow> nat \<Rightarrow> nat option" where
  "wait_ticks f start need i = (if f i - start < need then wait_ticks f start need (Suc i) else Some i)"

text \<open>Before PitInit it spins a number of rounds and reads nothing.\<close>
definition PitSleep :: "u32 \<Rightarrow> u32 \<Rightarrow> (nat \<Rightarrow> u64) \<Rightarrow> nat option" where
  "PitSleep hz ms f = (if hz = 0 then Some 0 else wait_ticks f (f 0) (ticks_needed hz ms) 1)"

section \<open>The divisor\<close>

lemma divisor_bounds:
  assumes "hz \<noteq> 0"
  defines "d \<equiv> (let divisor = PIT_BASE_HZ div hz; divisor = (if divisor > 0xFFFF then 0xFFFF else divisor) in if divisor < 1 then 1 else divisor)"
  shows "1 \<le> unat d" "unat d \<le> 65535" "unat hz \<le> 18 \<Longrightarrow> unat d = 65535"
    "19 \<le> unat hz \<Longrightarrow> unat hz \<le> 1193182 \<Longrightarrow> unat hz * unat d \<le> 1193182 \<and> 1193182 < unat hz * (unat d + 1)"
proof -
  define q where "q = PIT_BASE_HZ div hz"
  define n where "n = unat hz"
  have n: "n \<noteq> 0" using assms(1) by (simp add: n_def unat_eq_zero)
  have q: "unat q = 1193182 div n" by (simp add: q_def n_def unat_div PIT_BASE_HZ_def)
  have d: "unat d = (if 1193182 div n > 65535 then 65535 else if 1193182 div n < 1 then 1 else 1193182 div n)"
    unfolding d_def q_def [symmetric] Let_def by (simp add: word_less_nat_alt q)
  show "1 \<le> unat d" "unat d \<le> 65535" unfolding d by auto
  show "unat hz \<le> 18 \<Longrightarrow> unat d = 65535"
  proof -
    assume "unat hz \<le> 18"
    then have "1193182 div 18 \<le> 1193182 div n" using n by (intro div_le_mono2) (simp_all add: n_def)
    then show ?thesis unfolding d by simp
  qed
  assume h: "19 \<le> unat hz" "unat hz \<le> 1193182"
  have "1193182 div n \<le> 1193182 div 19" using h by (intro div_le_mono2) (simp_all add: n_def)
  moreover have "1193182 div n \<ge> 1" using h n by (simp add: n_def Suc_le_eq div_greater_zero_iff)
  ultimately have e: "unat d = 1193182 div n" unfolding d by simp
  have "n * (1193182 div n) + 1193182 mod n = 1193182" "1193182 mod n < n" using n by simp_all
  then show "unat hz * unat d \<le> 1193182 \<and> 1193182 < unat hz * (unat d + 1)" unfolding e n_def [symmetric] distrib_left mult_1_right by linarith
qed

lemma word_bytes16:
  assumes "unat d \<le> 65535" shows "unat (ucast (d AND 0xFF :: u32) :: u8) + 256 * unat (ucast (drop_bit 8 d) :: u8) = unat d"
proof -
  have M: "(0xFF :: u32) = mask 8" by (simp add: mask_eq_exp_minus_1)
  have a: "unat (ucast (d AND 0xFF) :: u8) = unat d mod 256"
    unfolding M take_bit_eq_mask [symmetric] by (simp add: unsigned_ucast_eq unsigned_take_bit_eq take_bit_nat_def)
  have l: "unat d div 256 < 256" using assms by (simp add: less_mult_imp_div_less)
  have "unat (drop_bit 8 d) = unat d div 256" by (subst unat_drop_bit_eq) (simp add: drop_bit_eq_div)
  with l have "unat (ucast (drop_bit 8 d) :: u8) = unat d div 256"
    by (simp only: unsigned_ucast_eq take_bit_nat_def) simp
  with a show ?thesis by simp
qed

section \<open>The busy wait\<close>

lemma wait_ticks_ends:
  assumes "f j - start \<ge> need" "i \<le> j" "\<forall>k. i \<le> k \<and> k < j \<longrightarrow> f k - start < need"
  shows "wait_ticks f start need i = Some j"
  using assms(2,3)
proof (induction "j - i" arbitrary: i)
  case 0
  then have "\<not> f i - start < need" using assms(1) by (simp add: not_less)
  then show ?case using 0 by (subst wait_ticks.simps) simp
next
  case (Suc n)
  then have "wait_ticks f start need (Suc i) = Some j" by auto
  then show ?case using Suc by (subst wait_ticks.simps) simp
qed

text \<open>The number of ticks is the time rounded up, at least one; nothing wraps.\<close>
lemma ticks_needed_val: "unat (ticks_needed hz ms) = max 1 ((unat ms * unat hz + 999) div 1000)"
proof -
  have "unat ms * unat hz \<le> (2 ^ 32 - 1) * (2 ^ 32 - 1)"
    using unsigned_less [of ms, where ?'a = nat] unsigned_less [of hz, where ?'a = nat] by (intro mult_le_mono) simp_all
  then have b: "unat ms * unat hz + 999 < 2 ^ 64" by simp
  have u: "unat (ucast x :: u64) = unat x" for x :: u32
    using unsigned_less [of x, where ?'a = nat] by (simp add: unsigned_ucast_eq take_bit_nat_eq_self)
  have "unat (ucast ms * ucast hz :: u64) = unat ms * unat hz" using b by (subst unat_mult_lem [THEN iffD1]) (simp_all add: u)
  then have "unat (ucast ms * ucast hz + 999 :: u64) = unat ms * unat hz + 999" using b by (subst unat_add_lem [THEN iffD1]) simp_all
  then have n: "unat ((ucast ms * ucast hz + 999) div 1000 :: u64) = (unat ms * unat hz + 999) div 1000" by (simp add: unat_div)
  show ?thesis unfolding ticks_needed_def Let_def by (auto simp: n unat_eq_zero [symmetric])
qed

section \<open>One tick\<close>

lemma KUSER_Tick_count:
  assumes "page \<noteq> 0" shows "rd32 (KUSER_Tick t page v) (page + OFF_TickCount) = ucast (t AND 0xFFFFFFFF)"
  unfolding KUSER_Tick_def if_not_P [OF assms]
  by (rule rd32_pokes [of _ "take 7 (tick_stores t)" _ _ "drop 8 (tick_stores t)"])
     (simp_all add: apart_def in_page_def tick_stores_def WriteSystemTime_def Let_def off_defs)

text \<open>What the handler changes: the counter, the page, the screen at every fiftieth tick, and what the scheduler does.\<close>
lemma TimerHandler_parts:
  assumes "TimerHandler irq m = Some m'"
  defines "t \<equiv> pit_ticks (p_sys (km_ps m)) + 1"
  shows "Tick ((p_sys (km_ps m))\<lparr>pit_ticks := t\<rparr>) = Some (p_sys (km_ps m'))"
    "p_vmm (km_ps m') = KUSER_Tick t (km_kuser m) (p_vmm (km_ps m))"
    "t mod 50 \<noteq> 0 \<Longrightarrow> km_vga m' = km_vga m"
    "km_dev m' = km_dev m" "km_kuser m' = km_kuser m" "km_hz m' = km_hz m"
proof -
  have z: "t mod 100 = 0 \<Longrightarrow> t mod 50 = 0"
  proof -
    assume "t mod 100 = 0"
    then have "unat (t mod 100) = 0" by simp
    then have "unat t mod 100 = 0" by (simp add: unat_mod)
    then have "unat t mod 50 = 0" by presburger
    then have "unat (t mod 50) = 0" by (simp add: unat_mod)
    then show ?thesis by (simp add: unat_eq_zero)
  qed
  show "Tick ((p_sys (km_ps m))\<lparr>pit_ticks := t\<rparr>) = Some (p_sys (km_ps m'))"
    "p_vmm (km_ps m') = KUSER_Tick t (km_kuser m) (p_vmm (km_ps m))"
    "t mod 50 \<noteq> 0 \<Longrightarrow> km_vga m' = km_vga m"
    "km_dev m' = km_dev m" "km_kuser m' = km_kuser m" "km_hz m' = km_hz m"
    using assms(1) z by (auto simp: TimerHandler_def Let_def t_def split: option.splits if_splits)
qed

section \<open>Properties\<close>

text \<open>C13 (bounds): the timer frequency.  PitInit gives the 8254 the command byte and a divisor between 1 and 65535, low byte first, and enables line
  0 only; for 19 Hz to 1193182 Hz the rate is the one asked for up to the rounding of the divisor, and below 19 Hz the divisor is
  65535, so that the timer runs at 18.2 Hz although the driver counts with the frequency asked for.\<close>
theorem pit_divisor:
  assumes "hz \<noteq> 0"
  shows "\<exists>lo hi. let d = unat lo + 256 * unat hi; m' = snd (PitInit (\<lambda>p h. (pic_mask, h)) (\<lambda>p v h. h @ [(p, v)]) hz tab m)
    in km_dev m' = km_dev m @ [(PIT_CMD, 0x34), (PIT_CHAN0, lo), (PIT_CHAN0, hi), (PIC1_DATA, pic_mask AND NOT 1)]
     \<and> km_hz m' = hz \<and> 1 \<le> d \<and> d \<le> 65535 \<and> (unat hz \<le> 18 \<longrightarrow> d = 65535)
     \<and> (19 \<le> unat hz \<and> unat hz \<le> 1193182 \<longrightarrow> unat hz * d \<le> 1193182 \<and> 1193182 < unat hz * (d + 1))"
proof -
  define d where "d = (let divisor = PIT_BASE_HZ div hz; divisor = (if divisor > 0xFFFF then 0xFFFF else divisor) in if divisor < 1 then 1 else divisor)"
  note B = divisor_bounds [OF assms, folded d_def]
  have P: "snd (PitInit (\<lambda>p h. (pic_mask, h)) (\<lambda>p v h. h @ [(p, v)]) hz tab m) = m\<lparr>km_hz := hz,
      km_dev := km_dev m @ [(PIT_CMD, 0x34), (PIT_CHAN0, ucast (d AND 0xFF)), (PIT_CHAN0, ucast (drop_bit 8 d)), (PIC1_DATA, pic_mask AND NOT 1)]\<rparr>"
    using assms by (simp add: PitInit_def PicSetMask_def PIT_CMD_CHAN0_RATE_def d_def Let_def)
  show ?thesis
    by (rule exI [of _ "ucast (d AND 0xFF)"], rule exI [of _ "ucast (drop_bit 8 d)"])
       (simp only: Let_def P word_bytes16 [OF B(2)], use B in simp)
qed

text \<open>C14 (termination): sleeping.  While the timer ticks, one tick at a time, the busy wait of PitSleep ends, and it ends at the first read that sees
  the number of ticks that is the time rounded up.\<close>
theorem pit_sleep_ends:
  assumes "hz \<noteq> 0" "\<forall>i. f i = f 0 + of_nat (c i)" "c 0 = 0" "\<forall>i. c i \<le> c (Suc i) \<and> c (Suc i) \<le> Suc (c i)" "\<forall>n. \<exists>i. n < c i"
  shows "\<exists>j. PitSleep hz ms f = Some j \<and> c j = max 1 ((unat ms * unat hz + 999) div 1000) \<and> (\<forall>i<j. c i < c j)"
proof -
  define n where "n = max 1 ((unat ms * unat hz + 999) div 1000)"
  define j where "j = (LEAST j. n \<le> c j)"
  have ex: "\<exists>j. n \<le> c j" using assms(5) less_imp_le by blast
  have j: "n \<le> c j" unfolding j_def by (rule LeastI_ex [OF ex])
  have l: "c i < n" if "i < j" for i using not_less_Least [of i "\<lambda>j. n \<le> c j"] that by (simp add: j_def)
  have n0: "0 < n" by (simp add: n_def)
  have j0: "j \<noteq> 0" using j n0 assms(3) by (cases "j = 0") simp_all
  then obtain k where k: "j = Suc k" by (cases j) auto
  have cj: "c j = n" using j l [of k] assms(4) k by (metis Suc_leI le_antisym le_trans lessI)
  have nb: "n < 2 ^ 64" using ticks_needed_val [of hz ms] unat_lt64 [of "ticks_needed hz ms"] by (simp only: n_def)
  have u: "unat (f i - f 0) = c i" if "i \<le> j" for i
  proof -
    have "c i < 2 ^ 64" using l [of i] cj nb that by (cases "i = j") auto
    moreover have "f i - f 0 = of_nat (c i)" by (subst assms(2) [rule_format, of i]) simp
    ultimately show ?thesis by (simp add: unat_of_nat64)
  qed
  have T: "unat (ticks_needed hz ms) = n" by (simp only: ticks_needed_val n_def)
  have "wait_ticks f (f 0) (ticks_needed hz ms) 1 = Some j"
    by (rule wait_ticks_ends) (use j0 l u cj in \<open>auto simp: word_le_nat_alt word_less_nat_alt T\<close>)
  then show ?thesis using assms(1) cj l by (intro exI [of _ j]) (simp add: PitSleep_def n_def)
qed

lemma pit_divisor_witness:
  "\<exists>lo hi. unat lo + 256 * unat hi = 11931 \<and> km_dev (snd (PitInit (\<lambda>p h. (0xFB, h)) (\<lambda>p v h. h @ [(p, v)]) 100 []
      \<lparr>km_ps = vm_demo, g_seh_delivered = 0, km_vga = vga_demo, km_kbd = kbd_demo, km_mouse = mouse_demo, km_kuser = 0, km_hz = 0, km_dev = []\<rparr>))
     = [(PIT_CMD, 0x34), (PIT_CHAN0, lo), (PIT_CHAN0, hi), (PIC1_DATA, 0xFA)]"
proof -
  let ?m = "\<lparr>km_ps = vm_demo, g_seh_delivered = 0, km_vga = vga_demo, km_kbd = kbd_demo, km_mouse = mouse_demo, km_kuser = 0, km_hz = 0, km_dev = []\<rparr>"
  have "(100 :: u32) \<noteq> 0" by simp
  from pit_divisor [OF this, where pic_mask = "0xFB" and tab = "[]" and m = ?m] obtain lo hi :: u8 where
    h: "km_dev (snd (PitInit (\<lambda>p h. (0xFB, h)) (\<lambda>p v h. h @ [(p, v)]) 100 [] ?m))
      = [(PIT_CMD, 0x34), (PIT_CHAN0, lo), (PIT_CHAN0, hi), (PIC1_DATA, 0xFB AND NOT 1)]"
    "100 * (unat lo + 256 * unat hi) \<le> 1193182" "1193182 < 100 * (unat lo + 256 * unat hi + 1)"
    by (auto simp: Let_def)
  have "d = 11931" if "100 * d \<le> 1193182" "1193182 < 100 * (d + 1)" for d :: nat using that by arith
  then have "unat lo + 256 * unat hi = 11931" using h(2,3) by blast
  then show ?thesis using h(1) by auto
qed

lemma pit_sleep_ends_witness:
  "\<exists>j. PitSleep 100 25 (\<lambda>i. 7 + of_nat (i div 2)) = Some j \<and> j div 2 = 3"
proof -
  have "\<exists>i. n < i div 2" for n :: nat by (rule exI [of _ "2 * n + 2"]) simp
  moreover have "Suc i div 2 \<le> Suc (i div 2)" for i by presburger
  ultimately show ?thesis
    using pit_sleep_ends [of 100 "\<lambda>i. 7 + of_nat (i div 2)" "\<lambda>i. i div 2" 25] by auto
qed

end
