(* ===== verification/LineEditor.thy ===== *)
theory LineEditor
  imports ConsoleRefine
begin

text \<open>The line editor of NT\_READ\_LINE, kernel/syscall/syscall.cpp: typed characters, backspace, completion of
  command names, and a ring of sixteen earlier lines, with every character echoed to the text console.  The
  characters that KB::TryRead delivers are a list; Sched::Sleep between them is left out.  One refinement shows
  that the ring is a bounded list of lines, the other that the screen shows the line that the caller gets.\<close>

section \<open>History\<close>

definition HIST_N :: nat where "HIST_N = 16"
definition HIST_MAX :: nat where "HIST_MAX = 256"

text \<open>s\_hist, row after row.\<close>
record history =
  s_hist :: "nat \<Rightarrow> u8"
  s_hist_count :: u32
  s_hist_head :: u32

definition History0 :: history where "History0 = \<lparr>s_hist = \<lambda>i. 0, s_hist_count = 0, s_hist_head = 0\<rparr>"

text \<open>The slot of the entry back steps ago.\<close>
definition hist_slot :: "u32 \<Rightarrow> history \<Rightarrow> nat" where
  "hist_slot back h = unat ((s_hist_head h + of_nat HIST_N - back) mod of_nat HIST_N)"

definition hist_char :: "nat \<Rightarrow> history \<Rightarrow> nat \<Rightarrow> u8" where
  "hist_char slot h i = s_hist h (slot * HIST_MAX + i)"

definition hist_store :: "nat \<Rightarrow> nat \<Rightarrow> u8 \<Rightarrow> history \<Rightarrow> history" where
  "hist_store slot i ch h = h\<lparr>s_hist := (s_hist h)(slot * HIST_MAX + i := ch)\<rparr>"

definition same_entry :: "(nat \<Rightarrow> u8) \<Rightarrow> nat \<Rightarrow> history \<Rightarrow> bool" where
  "same_entry buf len h = list_all (\<lambda>i. hist_char (hist_slot 1 h) h i = (if i < len then buf i else 0)) [0..<len + 1]"

definition HistAdd :: "(nat \<Rightarrow> u8) \<Rightarrow> nat \<Rightarrow> history \<Rightarrow> history" where
  "HistAdd buf len h =
    (if len = 0 then h
     else if s_hist_count h > 0 \<and> same_entry buf len h then h
     else let n = (if len < HIST_MAX - 1 then len else HIST_MAX - 1);
              head = unat (s_hist_head h);
              h = fold (\<lambda>i. hist_store head i (buf i)) [0..<n] h;
              h = hist_store head n 0 h
          in h\<lparr>s_hist_head := (s_hist_head h + 1) mod of_nat HIST_N,
               s_hist_count := (if s_hist_count h < of_nat HIST_N then s_hist_count h + 1 else s_hist_count h)\<rparr>)"

definition HistGet :: "u32 \<Rightarrow> history \<Rightarrow> (nat \<Rightarrow> u8) option" where
  "HistGet back h = (if back = 0 \<or> back > s_hist_count h then None else Some (hist_char (hist_slot back h) h))"

section \<open>Completion\<close>

definition tab_words :: "cstr list" where
  "tab_words = [''ver'', ''dir'', ''mem'', ''ps'', ''exec'', ''cat'', ''echo'', ''write'', ''help'', ''exit'', ''clear'', ''pipe'']"

text \<open>Character i of a literal, whose last one is NUL.\<close>
definition lit_char :: "cstr \<Rightarrow> nat \<Rightarrow> u8" where
  "lit_char cs i = (if i < length cs then chr8 (cs ! i) else 0)"

definition completes :: "(nat \<Rightarrow> u8) \<Rightarrow> nat \<Rightarrow> cstr \<Rightarrow> bool" where
  "completes buf n cmd \<longleftrightarrow> list_all (\<lambda>j. lit_char cmd j = buf j) [0..<n] \<and> lit_char cmd n \<noteq> 0"

fun tab_loop :: "(nat \<Rightarrow> u8) \<Rightarrow> nat \<Rightarrow> cstr option \<Rightarrow> cstr list \<Rightarrow> cstr option" where
  "tab_loop buf n found [] = found"
| "tab_loop buf n found (cmd # cmds) =
    (if \<not> completes buf n cmd then tab_loop buf n found cmds
     else if found \<noteq> None then None
     else tab_loop buf n (Some cmd) cmds)"

definition TabComplete :: "(nat \<Rightarrow> u8) \<Rightarrow> nat \<Rightarrow> cstr option" where
  "TabComplete buf n = tab_loop buf n None tab_words"

section \<open>The loop\<close>

definition LINE_KEY_UP :: u8 where "LINE_KEY_UP = 0x10"
definition LINE_KEY_DOWN :: u8 where "LINE_KEY_DOWN = 0x11"

text \<open>The locals of the handler and the screen; hist\_pos stays between 0 and the number of entries.\<close>
record editor =
  linebuf :: "nat \<Rightarrow> u8"
  ln :: nat
  hist_pos :: int
  ed_vga :: vga

definition put_key :: "u8 \<Rightarrow> editor \<Rightarrow> editor" where
  "put_key ch e = e\<lparr>linebuf := (linebuf e)(ln e := ch), ln := ln e + 1, ed_vga := PutChar ch 0x0F (ed_vga e)\<rparr>"

definition rub_key :: "editor \<Rightarrow> editor" where
  "rub_key e = e\<lparr>ln := ln e - 1, ed_vga := PutChar 8 0x0F (ed_vga e)\<rparr>"

text \<open>The loop that puts the rest of a completed word: while (comp[n] and n below maxlen).\<close>
fun put_rest :: "nat \<Rightarrow> u8 list \<Rightarrow> editor \<Rightarrow> editor" where
  "put_rest maxlen [] e = e"
| "put_rest maxlen (ch # cs) e = (if ln e < maxlen then put_rest maxlen cs (put_key ch e) else e)"

text \<open>The characters of a row up to its NUL.\<close>
definition row_text :: "(nat \<Rightarrow> u8) \<Rightarrow> u8 list" where
  "row_text f = map f (takeWhile (\<lambda>i. f i \<noteq> 0) [0..<HIST_MAX])"

definition browse :: "nat \<Rightarrow> history \<Rightarrow> u8 \<Rightarrow> editor \<Rightarrow> editor" where
  "browse maxlen h ch e =
    (let new_pos = hist_pos e + (if ch = LINE_KEY_UP then 1 else - 1);
         new_pos = (if new_pos < 0 then 0 else new_pos);
         entry = (if new_pos = 0 then None else HistGet (word_of_int new_pos) h) in
     if new_pos = 0 \<or> entry \<noteq> None then
       (let e = (rub_key ^^ ln e) e;
            e = (case entry of None \<Rightarrow> e | Some f \<Rightarrow> put_rest maxlen (row_text f) e)
        in e\<lparr>hist_pos := new_pos\<rparr>)
     else e)"

text \<open>A character other than Enter.\<close>
definition edit_key :: "nat \<Rightarrow> history \<Rightarrow> u8 \<Rightarrow> editor \<Rightarrow> editor" where
  "edit_key maxlen h ch e =
    (if ch = 8 then if ln e > 0 then rub_key e else e
     else if ch = 9 then
       (case TabComplete (linebuf e) (ln e) of None \<Rightarrow> e
        | Some w \<Rightarrow> put_rest maxlen (drop (ln e) (bytes_of w)) e)
     else if ch = LINE_KEY_UP \<or> ch = LINE_KEY_DOWN then browse maxlen h ch e
     else put_key ch e)"

text \<open>None is waiting for a character; the result has the characters that are left.\<close>
fun edit_loop :: "nat \<Rightarrow> history \<Rightarrow> u8 list \<Rightarrow> editor \<Rightarrow> (u8 list \<times> editor) option" where
  "edit_loop maxlen h [] e = (if ln e < maxlen then None else Some ([], e))"
| "edit_loop maxlen h (ch # ks) e =
    (if \<not> ln e < maxlen then Some (ch # ks, e)
     else if ch = 10 \<or> ch = 13 then Some (ks, e\<lparr>ed_vga := PutChar 10 0x07 (ed_vga e)\<rparr>)
     else edit_loop maxlen h ks (edit_key maxlen h ch e))"

definition line_max :: "u64 \<Rightarrow> nat" where "line_max a2 = (if a2 > 1 then unat (a2 - 1) else 0)"

text \<open>The editor from the prompt to the line in the history: the line, the characters left, the history and the screen.\<close>
definition EditLine :: "u64 \<Rightarrow> u8 list \<Rightarrow> history \<Rightarrow> vga \<Rightarrow> ((nat \<Rightarrow> u8) \<times> nat \<times> u8 list \<times> history \<times> vga) option" where
  "EditLine a2 ks h s =
    (case edit_loop (line_max a2) h ks \<lparr>linebuf = \<lambda>i. 0, ln = 0, hist_pos = 0, ed_vga = UpdateCursor s\<rparr> of
       None \<Rightarrow> None
     | Some (ks, e) \<Rightarrow>
         (let buf = (linebuf e)(ln e := 0) in Some (buf, ln e, ks, HistAdd buf (ln e) h, ed_vga e)))"

section \<open>The history is a bounded list\<close>

text \<open>Every entry ends in its row.\<close>
definition history_ok :: "history \<Rightarrow> bool" where
  "history_ok h \<longleftrightarrow> unat (s_hist_head h) < HIST_N \<and> unat (s_hist_count h) \<le> HIST_N
     \<and> (\<forall>k. 1 \<le> k \<and> k \<le> unat (s_hist_count h) \<longrightarrow> (\<exists>i<HIST_MAX. hist_char (hist_slot (of_nat k) h) h i = 0))"

text \<open>The entries, the last one first.\<close>
definition hist_lines :: "history \<Rightarrow> u8 list list" where
  "hist_lines h = map (\<lambda>k. row_text (hist_char (hist_slot (of_nat (k + 1)) h) h)) [0..<unat (s_hist_count h)]"

text \<open>What the caller sees: a line that is not empty and not the last one again is put first, cut to a row, and the oldest leaves.\<close>
definition hist_push :: "u8 list \<Rightarrow> u8 list list \<Rightarrow> u8 list list" where
  "hist_push l ls = (if l = [] \<or> (ls \<noteq> [] \<and> hd ls = l) then ls else take HIST_N (take (HIST_MAX - 1) l # ls))"

lemma upto_first:
  assumes "m < n" "\<not> P m" "\<And>i. i < m \<Longrightarrow> P i"
  shows "takeWhile P [0..<n] = [0..<m]"
proof -
  have "[0..<n] = [0..<m] @ [m..<n]" using upt_add_eq_append [of 0 m "n - m"] assms(1) by simp
  then have e: "[0..<n] = [0..<m] @ m # [Suc m..<n]" using assms(1) by (simp add: upt_conv_Cons)
  have "takeWhile P ([0..<m] @ m # ys) = [0..<m]" for ys using assms(2,3) by (subst takeWhile_append2) simp_all
  then show ?thesis unfolding e .
qed

lemma row_text_eq: "m < HIST_MAX \<Longrightarrow> f m = 0 \<Longrightarrow> (\<And>i. i < m \<Longrightarrow> f i \<noteq> 0) \<Longrightarrow> row_text f = map f [0..<m]"
  by (simp add: row_text_def upto_first)

lemma row_text_ends:
  assumes "i < HIST_MAX" "f i = 0"
  obtains m where "m < HIST_MAX" "f m = 0" "\<And>i. i < m \<Longrightarrow> f i \<noteq> 0" "row_text f = map f [0..<m]"
proof -
  define m where "m = (LEAST i. f i = 0)"
  have "f m = 0" "m \<le> i" using assms(2) by (auto simp: m_def intro: LeastI Least_le)
  moreover have "f j \<noteq> 0" if "j < m" for j using that not_less_Least unfolding m_def by blast
  ultimately show thesis using that [of m] row_text_eq [of m f] assms(1) by simp
qed

lemma row_text_line:
  assumes "\<exists>i<HIST_MAX. f i = 0" "\<And>i. i < len \<Longrightarrow> buf i \<noteq> 0"
  shows "row_text f = map buf [0..<len] \<longleftrightarrow> list_all (\<lambda>i. f i = (if i < len then buf i else 0)) [0..<len + 1]"
proof -
  obtain m where m: "m < HIST_MAX" "f m = 0" "\<And>i. i < m \<Longrightarrow> f i \<noteq> 0" "row_text f = map f [0..<m]"
    using assms(1) row_text_ends by blast
  show ?thesis
  proof
    assume e: "row_text f = map buf [0..<len]"
    have "m = len" using arg_cong [OF e, of length] m(4) by simp
    moreover have "f i = buf i" if "i < len" for i
      using arg_cong [OF e, of "\<lambda>l. l ! i"] that m(4) \<open>m = len\<close> by simp
    ultimately show "list_all (\<lambda>i. f i = (if i < len then buf i else 0)) [0..<len + 1]"
      using m(2) by (auto simp: list_all_iff less_Suc_eq)
  next
    assume a: "list_all (\<lambda>i. f i = (if i < len then buf i else 0)) [0..<len + 1]"
    then have f: "f i = (if i < len then buf i else 0)" if "i \<le> len" for i using that by (auto simp: list_all_iff)
    have "m = len"
    proof (rule antisym)
      show "m \<le> len" using m(3) [of len] f [of len] by (auto intro: leI)
      show "len \<le> m" using m(2) f [of m] assms(2) [of m] by (auto intro: leI)
    qed
    then show "row_text f = map buf [0..<len]" using m(4) f by simp
  qed
qed

lemma hist_slot_nat:
  assumes "unat (s_hist_head h) < HIST_N" "k \<le> HIST_N"
  shows "hist_slot (of_nat k) h = (unat (s_hist_head h) + HIST_N - k) mod HIST_N"
proof -
  have "s_hist_head h + of_nat HIST_N - of_nat k = of_nat (unat (s_hist_head h) + HIST_N - k)"
    using assms by (simp add: of_nat_diff)
  moreover have "unat (of_nat n :: u32) = n" if "n < 100" for n using that by (simp add: unat_of_nat take_bit_nat_eq_self)
  then have "unat (of_nat (unat (s_hist_head h) + HIST_N - k) :: u32) = unat (s_hist_head h) + HIST_N - k"
    using assms(1) by (simp only: HIST_N_def)
  ultimately have "unat (s_hist_head h + of_nat HIST_N - of_nat k) = unat (s_hist_head h) + HIST_N - k" by (simp only:)
  then show ?thesis by (simp add: hist_slot_def unat_mod HIST_N_def)
qed

lemma hist_slot_less: "hist_slot k h < HIST_N"
  by (simp add: hist_slot_def unat_mod HIST_N_def)

lemma store_row:
  "s_hist (fold (\<lambda>i. hist_store r i (buf i)) [0..<n] h) a =
    (if r * HIST_MAX \<le> a \<and> a < r * HIST_MAX + n then buf (a - r * HIST_MAX) else s_hist h a)"
  by (induction n) (auto simp: hist_store_def)

lemma store_frame [simp]:
  "s_hist_count (hist_store r i ch h) = s_hist_count h" "s_hist_head (hist_store r i ch h) = s_hist_head h"
  "s_hist_count (fold (\<lambda>i. hist_store r i (buf i)) is h) = s_hist_count h"
  "s_hist_head (fold (\<lambda>i. hist_store r i (buf i)) is h) = s_hist_head h"
proof -
  show "s_hist_count (hist_store r i ch h) = s_hist_count h" "s_hist_head (hist_store r i ch h) = s_hist_head h" for i ch h
    by (simp_all add: hist_store_def)
  then show "s_hist_count (fold (\<lambda>i. hist_store r i (buf i)) is h) = s_hist_count h"
    "s_hist_head (fold (\<lambda>i. hist_store r i (buf i)) is h) = s_hist_head h"
    by (induction "is" arbitrary: h) simp_all
qed

lemma slot_step:
  fixes H :: nat
  assumes "H < 16" "2 \<le> k" "k \<le> 16"
  shows "((H + 1) mod 16 + 16 - k) mod 16 = (H + 16 - (k - 1)) mod 16" "((H + 1) mod 16 + 16 - k) mod 16 \<noteq> H"
proof -
  have "(H + 1) mod 16 = (if H = 15 then 0 else H + 1)" using assms(1) by auto
  moreover have "a mod 16 = (if a < 16 then a else a - 16)" if "a < 32" for a :: nat using that by (auto simp: mod_if)
  ultimately show "((H + 1) mod 16 + 16 - k) mod 16 = (H + 16 - (k - 1)) mod 16" "((H + 1) mod 16 + 16 - k) mod 16 \<noteq> H"
    using assms by auto
qed

lemma flat_index: "i < 256 \<Longrightarrow> j < 256 \<Longrightarrow> r * 256 + i = r' * 256 + j \<longleftrightarrow> r = r' \<and> i = j" for i :: nat
proof (intro iffI conjI)
  assume ij: "i < 256" "j < 256" and e: "r * 256 + i = r' * 256 + j"
  have "(r * 256 + i) div 256 = r" "(r' * 256 + j) div 256 = r'" using ij by simp_all
  then show "r = r'" using e by simp
  then show "i = j" using e by simp
qed simp

lemma HistAdd_stored:
  fixes h buf len
  defines "h' \<equiv> HistAdd buf len h" and "n \<equiv> min len (HIST_MAX - 1)" and "H \<equiv> unat (s_hist_head h)"
  assumes ok: "history_ok h" and new: "len \<noteq> 0" "\<not> (s_hist_count h > 0 \<and> same_entry buf len h)"
  shows "unat (s_hist_head h') = (H + 1) mod HIST_N" "unat (s_hist_count h') = min (unat (s_hist_count h) + 1) HIST_N"
    "\<And>r i. r < HIST_N \<Longrightarrow> i < HIST_MAX \<Longrightarrow> hist_char r h' i =
      (if r \<noteq> H then hist_char r h i else if i < n then buf i else if i = n then 0 else hist_char r h i)"
proof -
  have H: "H < 16" and C: "unat (s_hist_count h) \<le> 16" using ok by (simp_all add: history_ok_def HIST_N_def H_def)
  define u where "u = hist_store H n 0 (fold (\<lambda>i. hist_store H i (buf i)) [0..<n] h)"
  have h': "h' = u\<lparr>s_hist_head := (s_hist_head h + 1) mod of_nat HIST_N,
      s_hist_count := (if s_hist_count h < of_nat HIST_N then s_hist_count h + 1 else s_hist_count h)\<rparr>"
    using new by (auto simp: h'_def HistAdd_def Let_def u_def n_def H_def min_def)
  have "unat (s_hist_head h + 1) = H + 1" using u32_add [of "s_hist_head h" 1] H by (simp add: H_def)
  then show "unat (s_hist_head h') = (H + 1) mod HIST_N" by (simp add: h' unat_mod HIST_N_def)
  have "unat (s_hist_count h + 1) = unat (s_hist_count h) + 1" using u32_add [of "s_hist_count h" 1] C by simp
  then show "unat (s_hist_count h') = min (unat (s_hist_count h) + 1) HIST_N"
    using C by (auto simp: h' HIST_N_def word_less_nat_alt)
  fix r i assume ri: "r < HIST_N" "i < HIST_MAX"
  have row: "r' * HIST_MAX \<le> r * HIST_MAX + i \<and> r * HIST_MAX + i < r' * HIST_MAX + j \<longleftrightarrow> r = r' \<and> i < j" if "j \<le> HIST_MAX" for r' j
    using ri(2) that by (cases r r' rule: linorder_cases) (auto simp: HIST_MAX_def)
  have eq: "r * HIST_MAX + i = r' * HIST_MAX + j \<longleftrightarrow> r = r' \<and> i = j" if "j < HIST_MAX" for r' j
    using flat_index [of i j r r'] ri(2) that by (simp add: HIST_MAX_def)
  have n: "n < HIST_MAX" by (simp add: n_def HIST_MAX_def)
  have "hist_char r h' i = s_hist u (r * HIST_MAX + i)" by (simp add: h' hist_char_def)
  also have "\<dots> = (if r = H \<and> i = n then 0 else s_hist (fold (\<lambda>i. hist_store H i (buf i)) [0..<n] h) (r * HIST_MAX + i))"
    using eq [OF n, of H] by (simp add: u_def hist_store_def)
  also have "\<dots> = (if r \<noteq> H then hist_char r h i else if i < n then buf i else if i = n then 0 else hist_char r h i)"
    unfolding store_row using row [of n H] n by (auto simp: hist_char_def)
  finally show "hist_char r h' i = (if r \<noteq> H then hist_char r h i else if i < n then buf i else if i = n then 0 else hist_char r h i)" .
qed

lemma HistGet_line:
  assumes "k < 2 ^ 32"
  shows "HistGet (of_nat k) h = None \<longleftrightarrow> k = 0 \<or> k > length (hist_lines h)"
    and "HistGet (of_nat k) h = Some f \<Longrightarrow> 1 \<le> k \<and> k \<le> length (hist_lines h) \<and> row_text f = hist_lines h ! (k - 1)"
proof -
  have k: "unat (of_nat k :: u32) = k" using assms by (simp add: unat_of_nat take_bit_nat_eq_self)
  have z: "(of_nat k :: u32) = 0 \<longleftrightarrow> k = 0" by (metis k unat_0 unat_eq_zero)
  have l: "length (hist_lines h) = unat (s_hist_count h)" by (simp add: hist_lines_def)
  show "HistGet (of_nat k) h = None \<longleftrightarrow> k = 0 \<or> k > length (hist_lines h)"
    by (simp add: HistGet_def z word_less_nat_alt k l)
  assume f: "HistGet (of_nat k) h = Some f"
  then have "1 \<le> k" "k \<le> unat (s_hist_count h)" "f = hist_char (hist_slot (of_nat k) h) h"
    by (auto simp: HistGet_def z word_less_nat_alt k split: if_splits)
  moreover from this(1) obtain j where "k = Suc j" by (cases k) auto
  ultimately show "1 \<le> k \<and> k \<le> length (hist_lines h) \<and> row_text f = hist_lines h ! (k - 1)"
    unfolding l by (simp add: hist_lines_def)
qed

lemma HistAdd_refines:
  assumes ok: "history_ok h" and buf: "\<And>i. i < len \<Longrightarrow> buf i \<noteq> 0"
  shows "history_ok (HistAdd buf len h)" "hist_lines (HistAdd buf len h) = hist_push (map buf [0..<len]) (hist_lines h)"
proof -
  define C H h' where "C = unat (s_hist_count h)" and "H = unat (s_hist_head h)" and "h' = HistAdd buf len h"
  have CH: "C \<le> 16" "H < 16" using ok by (simp_all add: history_ok_def HIST_N_def C_def H_def)
  have len_C: "length (hist_lines h) = C" by (simp add: hist_lines_def C_def)
  have same: "s_hist_count h > 0 \<and> same_entry buf len h \<longleftrightarrow> hist_lines h \<noteq> [] \<and> hd (hist_lines h) = map buf [0..<len]"
  proof (cases "C = 0")
    case False
    have row: "\<exists>i<HIST_MAX. hist_char (hist_slot 1 h) h i = 0" using ok False by (force simp: history_ok_def C_def)
    have "hist_lines h \<noteq> []" "hd (hist_lines h) = row_text (hist_char (hist_slot 1 h) h)"
      using False by (simp_all add: hist_lines_def C_def hd_map)
    moreover have "s_hist_count h > 0" using False by (simp add: C_def word_less_nat_alt)
    ultimately show ?thesis using row_text_line [OF row, of len buf] buf by (simp add: same_entry_def)
  qed (simp add: len_C [unfolded length_0_conv] hist_lines_def C_def word_less_nat_alt)
  have "history_ok h' \<and> hist_lines h' = hist_push (map buf [0..<len]) (hist_lines h)"
  proof (cases "len = 0 \<or> s_hist_count h > 0 \<and> same_entry buf len h")
    case True
    then have "h' = h" by (auto simp: h'_def HistAdd_def)
    then show ?thesis using ok True same by (auto simp: hist_push_def)
  next
    case False
    then have new: "len \<noteq> 0" "\<not> (s_hist_count h > 0 \<and> same_entry buf len h)" by auto
    note f = HistAdd_stored [OF ok new, folded h'_def, folded H_def, folded C_def]
    define n where "n = min len (HIST_MAX - 1)"
    have slot: "hist_slot (of_nat k) h' = (if k = 1 then H else hist_slot (of_nat (k - 1)) h)" "hist_slot (of_nat k) h' = H \<longleftrightarrow> k = 1"
      if "1 \<le> k" "k \<le> 16" for k
    proof -
      have 1: "hist_slot (of_nat k) h' = ((H + 1) mod 16 + 16 - k) mod 16"
        using hist_slot_nat [of h' k] that(2) by (simp add: f HIST_N_def)
      have 2: "hist_slot (of_nat (k - 1)) h = (H + 16 - (k - 1)) mod 16"
        using hist_slot_nat [of h "k - 1"] that CH by (simp add: HIST_N_def H_def)
      have "((H + 1) mod 16 + 16 - 1) mod 16 = H" using CH(2) by (cases "H = 15") simp_all
      then show "hist_slot (of_nat k) h' = (if k = 1 then H else hist_slot (of_nat (k - 1)) h)" "hist_slot (of_nat k) h' = H \<longleftrightarrow> k = 1"
        unfolding 1 2 using slot_step [OF CH(2), of k] that by (cases "k = 1"; simp)+
    qed
    have first: "row_text (hist_char H h') = take (HIST_MAX - 1) (map buf [0..<len])" "\<exists>i<HIST_MAX. hist_char H h' i = 0"
    proof -
      have c: "hist_char H h' i = (if i < n then buf i else 0)" if "i \<le> n" for i
        using f(3) [of H i] that CH(2) by (auto simp: HIST_N_def HIST_MAX_def n_def)
      have "row_text (hist_char H h') = map (hist_char H h') [0..<n]"
        by (rule row_text_eq) (use c buf in \<open>auto simp: n_def HIST_MAX_def\<close>)
      also have "\<dots> = map buf [0..<n]" using c by simp
      finally show "row_text (hist_char H h') = take (HIST_MAX - 1) (map buf [0..<len])"
        by (cases "HIST_MAX - 1 \<le> len") (simp_all add: n_def take_map min_def)
      show "\<exists>i<HIST_MAX. hist_char H h' i = 0" using c [of n] by (intro exI [of _ n]) (simp add: n_def HIST_MAX_def)
    qed
    have rest: "row_text (hist_char (hist_slot (of_nat k) h') h') = row_text (hist_char (hist_slot (of_nat (k - 1)) h) h)"
      "(\<exists>i<HIST_MAX. hist_char (hist_slot (of_nat k) h') h' i = 0) = (\<exists>i<HIST_MAX. hist_char (hist_slot (of_nat (k - 1)) h) h i = 0)"
      if "2 \<le> k" "k \<le> 16" for k
    proof -
      have s: "hist_slot (of_nat k) h' = hist_slot (of_nat (k - 1)) h" "hist_slot (of_nat (k - 1)) h \<noteq> H"
        using slot [of k] that by auto
      have c: "hist_char (hist_slot (of_nat k) h') h' i = hist_char (hist_slot (of_nat (k - 1)) h) h i" if "i < HIST_MAX" for i
        unfolding s(1) using f(3) [OF hist_slot_less that] s(2) by simp
      show "(\<exists>i<HIST_MAX. hist_char (hist_slot (of_nat k) h') h' i = 0) = (\<exists>i<HIST_MAX. hist_char (hist_slot (of_nat (k - 1)) h) h i = 0)"
        using c by auto
      have "takeWhile (\<lambda>i. hist_char (hist_slot (of_nat k) h') h' i \<noteq> 0) [0..<HIST_MAX]
          = takeWhile (\<lambda>i. hist_char (hist_slot (of_nat (k - 1)) h) h i \<noteq> 0) [0..<HIST_MAX]"
        using c by (intro takeWhile_cong) simp_all
      then show "row_text (hist_char (hist_slot (of_nat k) h') h') = row_text (hist_char (hist_slot (of_nat (k - 1)) h) h)"
        unfolding row_text_def using c by (auto dest!: set_takeWhileD)
    qed
    have s1: "hist_slot (of_nat 1) h' = H" using slot(1) [of 1] by simp
    have ok': "history_ok h'"
      unfolding history_ok_def f(1,2)
    proof (intro conjI allI impI)
      fix k assume k: "1 \<le> k \<and> k \<le> min (C + 1) HIST_N"
      show "\<exists>i<HIST_MAX. hist_char (hist_slot (of_nat k) h') h' i = 0"
      proof (cases "k = 1")
        case True
        then show ?thesis using first(2) s1 by simp
      next
        case False
        then have k': "2 \<le> k" "k \<le> 16" "1 \<le> k - 1 \<and> k - 1 \<le> unat (s_hist_count h)" using k by (auto simp: C_def HIST_N_def)
        then show ?thesis unfolding rest(2) [OF k'(1,2)] using ok unfolding history_ok_def by blast
      qed
    qed (simp_all add: HIST_N_def)
    have e: "min (C + 1) 16 = Suc (min C 15)" by simp
    have "hist_lines h' = map (\<lambda>k. row_text (hist_char (hist_slot (of_nat (k + 1)) h') h')) [0..<Suc (min C 15)]"
      unfolding hist_lines_def f(2) HIST_N_def e by (rule refl)
    also have "[0..<Suc (min C 15)] = 0 # map Suc [0..<min C 15]" by (subst upt_conv_Cons) (simp_all add: map_Suc_upt)
    also have "map (\<lambda>k. row_text (hist_char (hist_slot (of_nat (k + 1)) h') h')) (0 # map Suc [0..<min C 15])
        = row_text (hist_char H h') # map (\<lambda>k. row_text (hist_char (hist_slot (of_nat (k + 2)) h') h')) [0..<min C 15]"
      using s1 by simp
    also have "map (\<lambda>k. row_text (hist_char (hist_slot (of_nat (k + 2)) h') h')) [0..<min C 15]
        = map (\<lambda>k. row_text (hist_char (hist_slot (of_nat (k + 1)) h) h)) [0..<min C 15]"
    proof (rule map_cong [OF refl])
      fix k assume "k \<in> set [0..<min C 15]"
      then show "row_text (hist_char (hist_slot (of_nat (k + 2)) h') h') = row_text (hist_char (hist_slot (of_nat (k + 1)) h) h)"
        using rest(1) [of "k + 2"] by simp
    qed
    also have "\<dots> = take 15 (hist_lines h)" by (cases "15 \<le> C") (simp_all add: hist_lines_def C_def [symmetric] take_map min_def)
    finally show ?thesis
      using ok' False same by (auto simp: hist_push_def first(1) HIST_N_def)
  qed
  then show "history_ok (HistAdd buf len h)" "hist_lines (HistAdd buf len h) = hist_push (map buf [0..<len]) (hist_lines h)"
    by (simp_all add: h'_def)
qed

section \<open>The line on the screen\<close>

definition ed_line :: "editor \<Rightarrow> u8 list" where "ed_line e = map (linebuf e) [0..<ln e]"

lemma length_ed_line [simp]: "length (ed_line e) = ln e" by (simp add: ed_line_def)

text \<open>The terminal t with a line typed at its cursor.\<close>
definition tt_line :: "nat \<Rightarrow> u8 list \<Rightarrow> tty \<Rightarrow> tty" where
  "tt_line cols l t = (tt_text cols (tt_row t) (tt_col t) l 0x0F t)\<lparr>tt_col := tt_col t + length l\<rparr>"

text \<open>There is room for the line, and nothing to the right of the cursor.\<close>
definition room_for :: "nat \<Rightarrow> nat \<Rightarrow> tty \<Rightarrow> bool" where
  "room_for cols maxlen t \<longleftrightarrow> tt_col t + maxlen < cols \<and> (\<forall>c. tt_col t \<le> c \<longrightarrow> c < cols \<longrightarrow> tt_cells t (tt_row t) c = blank)"

abbreviation "controls \<equiv> {0, 8, 10, 13 :: u8}"

definition echoed :: "nat \<Rightarrow> nat \<Rightarrow> nat \<Rightarrow> tty \<Rightarrow> editor \<Rightarrow> bool" where
  "echoed rows cols maxlen t e \<longleftrightarrow> console_ok (ed_vga e) \<and> nrows (ed_vga e) = rows \<and> ncols (ed_vga e) = cols
     \<and> tty_of (ed_vga e) = tt_line cols (ed_line e) t \<and> ln e \<le> maxlen \<and> set (ed_line e) \<inter> controls = {}"

lemma put_key_sel [simp]:
  "ln (put_key ch e) = ln e + 1" "ed_line (put_key ch e) = ed_line e @ [ch]" "hist_pos (put_key ch e) = hist_pos e"
  by (simp_all add: put_key_def ed_line_def)

lemma rub_key_sel [simp]: "hist_pos (rub_key e) = hist_pos e" "linebuf (rub_key e) = linebuf e" "ln (rub_key e) = ln e - 1"
  by (simp_all add: rub_key_def)

lemma rub_key_line: "ln e > 0 \<Longrightarrow> ed_line (rub_key e) = butlast (ed_line e)"
  by (cases "ln e") (simp_all add: ed_line_def)

lemma tt_line_snoc:
  assumes "tt_col t + length l < cols"
  shows "tt_line cols (l @ [ch]) t = (tt_set (tt_row t) (tt_col t + length l) \<lparr>c_ch = ch, c_attr = 0x0F\<rparr> (tt_line cols l t))\<lparr>tt_col := tt_col t + length l + 1\<rparr>"
  using assms by (auto simp: tt_line_def tt_text_def tt_set_def fun_eq_iff nth_append intro!: tty.equality)

lemma put_key_echoed:
  assumes E: "echoed rows cols maxlen t e" and R: "room_for cols maxlen t" and "ln e < maxlen" "ch \<notin> controls"
  shows "echoed rows cols maxlen t (put_key ch e)"
proof -
  note P = PutChar_step [of "ed_vga e" ch "0x0F"]
  have e: "console_ok (ed_vga e)" "nrows (ed_vga e) = rows" "ncols (ed_vga e) = cols" "tty_of (ed_vga e) = tt_line cols (ed_line e) t"
    using E by (simp_all add: echoed_def)
  have l: "tt_col t + length (ed_line e) < cols" "tt_col t + ln e + 1 < cols" using R assms(3) by (simp_all add: room_for_def)
  have "tt_put rows cols ch 0x0F (tt_line cols (ed_line e) t) = tt_line cols (ed_line e @ [ch]) t"
    unfolding tt_line_snoc [OF l(1)] using assms(4) l(2)
    by (simp add: tt_put_def Let_def) (simp add: tt_line_def tt_text_def tt_set_def)
  then show ?thesis
    using P e E assms(3,4) by (simp add: echoed_def put_key_def ed_line_def)
qed

lemma rub_key_echoed:
  assumes E: "echoed rows cols maxlen t e" and R: "room_for cols maxlen t" and "ln e > 0"
  shows "echoed rows cols maxlen t (rub_key e)"
proof -
  note P = PutChar_step [of "ed_vga e" 8 "0x0F"]
  have e: "console_ok (ed_vga e)" "nrows (ed_vga e) = rows" "ncols (ed_vga e) = cols" "tty_of (ed_vga e) = tt_line cols (ed_line e) t" "ln e \<le> maxlen"
    "set (ed_line e) \<inter> controls = {}"
    using E by (simp_all add: echoed_def)
  obtain l ch where l: "ed_line e = l @ [ch]" "length l + 1 = ln e"
    using assms(3) length_ed_line [of e] by (cases "ed_line e" rule: rev_cases) auto
  have c: "tt_col t + length l < cols" "tt_cells t (tt_row t) (tt_col t + length l) = blank"
    using R e(5) l(2) by (auto simp: room_for_def)
  have "tt_put rows cols 8 0x0F (tt_line cols (ed_line e) t) = tt_line cols l t"
    unfolding l(1) using c by (auto simp: tt_put_def tt_line_def tt_text_def tt_set_def fun_eq_iff nth_append intro!: tty.equality)
  moreover have "ed_line (rub_key e) = l" using rub_key_line [OF assms(3)] l(1) by simp
  ultimately show ?thesis
    using P e l(1) by (auto simp: echoed_def rub_key_def)
qed

lemma put_rest_echoed:
  assumes "echoed rows cols maxlen t e" "room_for cols maxlen t" "set cs \<inter> controls = {}"
  shows "echoed rows cols maxlen t (put_rest maxlen cs e) \<and> ed_line (put_rest maxlen cs e) = take maxlen (ed_line e @ cs)
    \<and> hist_pos (put_rest maxlen cs e) = hist_pos e"
  using assms(1,3)
proof (induction cs arbitrary: e)
  case Nil
  then show ?case by (simp add: echoed_def)
next
  case (Cons ch cs)
  show ?case
  proof (cases "ln e < maxlen")
    case True
    then have "echoed rows cols maxlen t (put_key ch e)" using Cons.prems assms(2) by (intro put_key_echoed) auto
    then show ?thesis using Cons.IH [of "put_key ch e"] Cons.prems(2) True by simp
  next
    case False
    then have "ln e = maxlen" using Cons.prems(1) by (simp add: echoed_def)
    then show ?thesis using Cons.prems(1) False by simp
  qed
qed

lemma rub_all_echoed:
  assumes "echoed rows cols maxlen t e" "room_for cols maxlen t"
  shows "echoed rows cols maxlen t ((rub_key ^^ ln e) e) \<and> ed_line ((rub_key ^^ ln e) e) = [] \<and> hist_pos ((rub_key ^^ ln e) e) = hist_pos e"
proof -
  have "k \<le> ln e \<Longrightarrow> echoed rows cols maxlen t ((rub_key ^^ k) e) \<and> ln ((rub_key ^^ k) e) = ln e - k \<and> hist_pos ((rub_key ^^ k) e) = hist_pos e" for k
    by (induction k) (use assms rub_key_echoed [OF _ assms(2)] in auto)
  from this [of "ln e"] show ?thesis by (simp add: ed_line_def)
qed

section \<open>The reference editor\<close>

text \<open>A line and the place in the list of earlier lines, without buffers and without a screen.\<close>
definition completion :: "u8 list \<Rightarrow> u8 list option" where
  "completion l = (case filter (\<lambda>w. length l < length w \<and> take (length l) w = l) (map bytes_of tab_words) of
     [w] \<Rightarrow> Some w | _ \<Rightarrow> None)"

definition line_key :: "nat \<Rightarrow> u8 list list \<Rightarrow> u8 \<Rightarrow> u8 list \<times> nat \<Rightarrow> u8 list \<times> nat" where
  "line_key maxlen ls ch p = (case p of (l, pos) \<Rightarrow>
     if ch = 8 then (butlast l, pos)
     else if ch = 9 then (case completion l of None \<Rightarrow> (l, pos) | Some w \<Rightarrow> (take maxlen w, pos))
     else if ch = LINE_KEY_UP then if pos < length ls then (take maxlen (ls ! pos), pos + 1) else (l, pos)
     else if ch = LINE_KEY_DOWN then if pos \<le> 1 then ([], 0) else (take maxlen (ls ! (pos - 2)), pos - 1)
     else (l @ [ch], pos))"

fun line_loop :: "nat \<Rightarrow> u8 list list \<Rightarrow> u8 list \<Rightarrow> u8 list \<times> nat \<Rightarrow> (u8 list \<times> u8 list) option" where
  "line_loop maxlen ls [] p = (if length (fst p) < maxlen then None else Some ([], fst p))"
| "line_loop maxlen ls (ch # ks) p =
    (if \<not> length (fst p) < maxlen then Some (ch # ks, fst p)
     else if ch = 10 \<or> ch = 13 then Some (ks, fst p)
     else line_loop maxlen ls ks (line_key maxlen ls ch p))"

lemma tab_words_plain: "\<forall>w\<in>set tab_words. \<forall>c\<in>set w. chr8 c \<notin> controls"
  by (simp add: tab_words_def chr8_def)

lemma completes_line:
  assumes w: "w \<in> set tab_words" and l: "0 \<notin> set (map buf [0..<n])"
  shows "completes buf n w \<longleftrightarrow> n < length w \<and> take n (bytes_of w) = map buf [0..<n]"
proof -
  have nz: "lit_char w i = 0 \<longleftrightarrow> \<not> i < length w" for i
    using tab_words_plain w by (auto simp: lit_char_def)
  have "completes buf n w \<longleftrightarrow> n < length w \<and> (\<forall>j<n. lit_char w j = buf j)"
    by (auto simp: completes_def list_all_iff nz)
  also have "\<dots> \<longleftrightarrow> n < length w \<and> take n (bytes_of w) = map buf [0..<n]"
    by (auto simp: list_eq_iff_nth_eq lit_char_def)
  finally show ?thesis .
qed

lemma tab_loop_filter:
  "tab_loop buf n found ws = (case found of
     None \<Rightarrow> (case filter (completes buf n) ws of [w] \<Rightarrow> Some w | _ \<Rightarrow> None)
   | Some f \<Rightarrow> if filter (completes buf n) ws = [] then Some f else None)"
  by (induction ws arbitrary: found) (auto split: option.splits list.splits)

lemma TabComplete_completion:
  assumes "0 \<notin> set (ed_line e)"
  shows "map_option bytes_of (TabComplete (linebuf e) (ln e)) = completion (ed_line e)"
proof -
  have c: "filter (completes (linebuf e) (ln e)) tab_words
      = filter (\<lambda>w. ln e < length (bytes_of w) \<and> take (ln e) (bytes_of w) = ed_line e) tab_words"
    by (rule filter_cong [OF refl]) (use completes_line [of _ "linebuf e" "ln e"] assms in \<open>auto simp: ed_line_def\<close>)
  have f: "filter (\<lambda>w. length (ed_line e) < length w \<and> take (length (ed_line e)) w = ed_line e) (map bytes_of tab_words)
      = map bytes_of (filter (completes (linebuf e) (ln e)) tab_words)"
    unfolding c filter_map by (simp add: o_def)
  show ?thesis
    unfolding completion_def f TabComplete_def tab_loop_filter by (auto split: list.splits)
qed

lemma completion_some:
  assumes "completion l = Some w"
  shows "take (length l) w = l" "set w \<inter> controls = {}"
proof -
  have "filter (\<lambda>w. length l < length w \<and> take (length l) w = l) (map bytes_of tab_words) = [w]"
    using assms by (auto simp: completion_def split: list.splits)
  then have "w \<in> set (filter (\<lambda>w. length l < length w \<and> take (length l) w = l) (map bytes_of tab_words))"
    by (simp only: list.set insert_iff simp_thms)
  then show "take (length l) w = l" "set w \<inter> controls = {}" using tab_words_plain by auto
qed

text \<open>The editor at the line and place of the reference.\<close>
definition at_line :: "history \<Rightarrow> editor \<Rightarrow> u8 list \<times> nat \<Rightarrow> bool" where
  "at_line h e p \<longleftrightarrow> ed_line e = fst p \<and> hist_pos e = int (snd p) \<and> snd p \<le> length (hist_lines h)"

definition hist_plain :: "history \<Rightarrow> bool" where
  "hist_plain h \<longleftrightarrow> (\<forall>l\<in>set (hist_lines h). set l \<inter> controls = {})"

lemma browse_line:
  assumes E: "echoed rows cols maxlen t e" and R: "room_for cols maxlen t" and A: "at_line h e (l, pos)"
    and H: "history_ok h" "hist_plain h" and ch: "ch = LINE_KEY_UP \<or> ch = LINE_KEY_DOWN"
  shows "echoed rows cols maxlen t (browse maxlen h ch e) \<and> at_line h (browse maxlen h ch e) (line_key maxlen (hist_lines h) ch (l, pos))"
proof -
  define k where "k = (if ch = LINE_KEY_UP then pos + 1 else pos - 1)"
  have pos: "hist_pos e = int pos" "pos \<le> length (hist_lines h)" "length (hist_lines h) \<le> 16" "ed_line e = l"
    using A H(1) by (simp_all add: at_line_def hist_lines_def history_ok_def HIST_N_def)
  have k': "(if hist_pos e + (if ch = LINE_KEY_UP then 1 else - 1) < 0 then 0 else hist_pos e + (if ch = LINE_KEY_UP then 1 else - 1)) = int k"
    using pos(1) by (auto simp: k_def)
  have kb: "k < 2 ^ 32" using pos(2,3) by (auto simp: k_def)
  note G = HistGet_line [OF kb, of h]
  define e0 where "e0 = (rub_key ^^ ln e) e"
  have e0: "echoed rows cols maxlen t e0" "ed_line e0 = []" "hist_pos e0 = hist_pos e"
    using rub_all_echoed [OF E R] by (simp_all add: e0_def)
  have upd: "echoed rows cols maxlen t (u\<lparr>hist_pos := x\<rparr>) = echoed rows cols maxlen t u" "ed_line (u\<lparr>hist_pos := x\<rparr>) = ed_line u" for u x
    by (simp_all add: echoed_def ed_line_def)
  have key: "line_key maxlen (hist_lines h) ch (l, pos) =
      (if k = 0 then ([], 0) else if k > length (hist_lines h) then (l, pos) else (take maxlen (hist_lines h ! (k - 1)), k))"
    using ch pos(2) by (auto simp: line_key_def k_def LINE_KEY_UP_def LINE_KEY_DOWN_def diff_Suc split: nat.splits)
  consider "k = 0" | f where "k \<noteq> 0" "HistGet (of_nat k) h = Some f" | "k \<noteq> 0" "HistGet (of_nat k) h = None" by blast
  then show ?thesis
  proof cases
    case 1
    then have "browse maxlen h ch e = e0\<lparr>hist_pos := 0\<rparr>" by (simp add: browse_def Let_def k' e0_def)
    then show ?thesis using e0 1 key by (simp add: at_line_def upd)
  next
    case 2
    have f: "1 \<le> k" "k \<le> length (hist_lines h)" "row_text f = hist_lines h ! (k - 1)" using G(2) [OF 2(2)] by auto
    have b: "browse maxlen h ch e = (put_rest maxlen (row_text f) e0)\<lparr>hist_pos := int k\<rparr>"
      using 2 by (simp add: browse_def Let_def k' e0_def)
    have "row_text f \<in> set (hist_lines h)" using f by simp
    then have "set (row_text f) \<inter> controls = {}" using H(2) by (simp add: hist_plain_def)
    then show ?thesis
      using put_rest_echoed [OF e0(1) R, of "row_text f"] f 2(1) unfolding b key by (simp add: upd at_line_def e0(2))
  next
    case 3
    then have "browse maxlen h ch e = e" by (simp add: browse_def Let_def k')
    then show ?thesis using E A G(1) 3 key by (simp add: at_line_def)
  qed
qed

lemma edit_key_line:
  assumes E: "echoed rows cols maxlen t e" and R: "room_for cols maxlen t" and A: "at_line h e p"
    and H: "history_ok h" "hist_plain h" and ch: "ch \<notin> {0, 10, 13}" and room: "ln e < maxlen"
  shows "echoed rows cols maxlen t (edit_key maxlen h ch e) \<and> at_line h (edit_key maxlen h ch e) (line_key maxlen (hist_lines h) ch p)"
proof -
  obtain l pos where p: "p = (l, pos)" by (cases p)
  have l: "ed_line e = l" "length l = ln e" "0 \<notin> set l" using A E p by (auto simp: at_line_def echoed_def)
  consider "ch = 8" | "ch = 9" | "ch = LINE_KEY_UP \<or> ch = LINE_KEY_DOWN" | "ch \<notin> {8, 9, LINE_KEY_UP, LINE_KEY_DOWN}" by blast
  then show ?thesis
  proof cases
    case 1
    then show ?thesis
      using rub_key_echoed [OF E R] rub_key_line [of e] E A l
      by (cases "ln e") (auto simp: edit_key_def line_key_def p at_line_def)
  next
    case 2
    have c: "map_option bytes_of (TabComplete (linebuf e) (ln e)) = completion l" using TabComplete_completion [of e] l by simp
    show ?thesis
    proof (cases "TabComplete (linebuf e) (ln e)")
      case None
      then show ?thesis using c E A 2 by (simp add: edit_key_def line_key_def p)
    next
      case (Some w)
      then have w: "completion l = Some (bytes_of w)" using c by simp
      note cs = completion_some [OF w]
      have d: "set (drop (ln e) (bytes_of w)) \<inter> controls = {}" using cs(2) set_drop_subset by fast
      have "ed_line e @ drop (ln e) (bytes_of w) = bytes_of w" using append_take_drop_id [of "ln e" "bytes_of w"] cs(1) unfolding l(1,2) by simp
      then show ?thesis
        using put_rest_echoed [OF E R d] A w 2 Some by (simp add: edit_key_def line_key_def p at_line_def)
    qed
  next
    case 3
    then have "edit_key maxlen h ch e = browse maxlen h ch e" by (auto simp: edit_key_def LINE_KEY_UP_def LINE_KEY_DOWN_def)
    then show ?thesis using browse_line [OF E R A [unfolded p] H 3] by (simp add: p)
  next
    case 4
    then show ?thesis
      using put_key_echoed [OF E R room, of ch] A ch by (simp add: edit_key_def line_key_def p at_line_def)
  qed
qed

lemma ed_line_vga: "ed_line (e\<lparr>ed_vga := v\<rparr>) = ed_line e" by (simp add: ed_line_def)

lemma edit_loop_line:
  assumes "room_for cols maxlen t" "history_ok h" "hist_plain h"
    and "echoed rows cols maxlen t e" "at_line h e p" "0 \<notin> set ks"
  shows "(case line_loop maxlen (hist_lines h) ks p of None \<Rightarrow> edit_loop maxlen h ks e = None
    | Some (ks', l) \<Rightarrow> \<exists>e'. edit_loop maxlen h ks e = Some (ks', e') \<and> ed_line e' = l \<and> ln e' \<le> maxlen
        \<and> set l \<inter> controls = {} \<and> console_ok (ed_vga e')
        \<and> tty_of (ed_vga e') = (if length l < maxlen then tt_newline rows cols (tt_line cols l t) else tt_line cols l t))"
  using assms(4-6)
proof (induction ks arbitrary: e p)
  case Nil
  have l: "ed_line e = fst p" "length (fst p) = ln e" using Nil.prems(2) length_ed_line [of e] by (auto simp: at_line_def simp del: length_ed_line)
  then show ?case using Nil.prems by (auto simp: at_line_def echoed_def)
next
  case (Cons ch ks)
  have l: "ed_line e = fst p" "length (fst p) = ln e" using Cons.prems(2) length_ed_line [of e] by (auto simp: at_line_def simp del: length_ed_line)
  show ?case
  proof (cases "ln e < maxlen")
    case True
    show ?thesis
    proof (cases "ch = 10 \<or> ch = 13")
      case enter: True
      show ?thesis
        using PutChar_step(1,2) [of "ed_vga e" 10 "0x07"] Cons.prems(1) enter True l
        by (auto simp: echoed_def tt_put_def ed_line_vga)
    next
      case False
      then have S: "echoed rows cols maxlen t (edit_key maxlen h ch e)" "at_line h (edit_key maxlen h ch e) (line_key maxlen (hist_lines h) ch p)"
        using edit_key_line [OF Cons.prems(1) assms(1) Cons.prems(2) assms(2,3) _ True, of ch] Cons.prems(3) by auto
      have eq: "edit_loop maxlen h (ch # ks) e = edit_loop maxlen h ks (edit_key maxlen h ch e)"
        "line_loop maxlen (hist_lines h) (ch # ks) p = line_loop maxlen (hist_lines h) ks (line_key maxlen (hist_lines h) ch p)"
        using True False l(2) by simp_all
      have nz: "0 \<notin> set ks" using Cons.prems(3) by simp
      show ?thesis unfolding eq by (rule Cons.IH [OF S nz])
    qed
  next
    case False
    then show ?thesis using Cons.prems(1) l by (auto simp: echoed_def)
  qed
qed

lemma edit_loop_returns: "10 \<in> set ks \<or> 13 \<in> set ks \<Longrightarrow> edit_loop maxlen h ks e \<noteq> None"
  by (induction ks arbitrary: e) auto

section \<open>Properties\<close>

text \<open>C30 (refinement): the history ring.  HistAdd of a line without NUL does to the sixteen rows, their count and the
  next slot what pushing the line, cut to 255 characters, on a list of at most sixteen does, with an empty line
  and a repetition of the last one left out; and HistGet gives the entries of that list.\<close>
theorem history_refines:
  assumes "history_ok h" "\<And>i. i < len \<Longrightarrow> buf i \<noteq> 0"
  shows "history_ok (HistAdd buf len h)
    \<and> hist_lines (HistAdd buf len h) = hist_push (map buf [0..<len]) (hist_lines h)
    \<and> (\<forall>k. k < 2 ^ 32 \<longrightarrow> map_option row_text (HistGet (of_nat k) (HistAdd buf len h)) =
         (let ls = hist_push (map buf [0..<len]) (hist_lines h) in if k = 0 \<or> k > length ls then None else Some (ls ! (k - 1))))"
proof -
  note R = HistAdd_refines [where h = h and len = len and buf = buf, OF assms]
  have "map_option row_text (HistGet (of_nat k) (HistAdd buf len h)) =
      (let ls = hist_push (map buf [0..<len]) (hist_lines h) in if k = 0 \<or> k > length ls then None else Some (ls ! (k - 1)))"
    if "k < 2 ^ 32" for k
    using HistGet_line [OF that, of "HistAdd buf len h"]
    by (cases "HistGet (of_nat k) (HistAdd buf len h)") (auto simp: R Let_def)
  then show ?thesis using R by blast
qed

lemma UpdateCursor_ready:
  assumes "console_ok s"
  shows "console_ok (UpdateCursor s)" "tty_of (UpdateCursor s) = tty_of s" "nrows (UpdateCursor s) = nrows s" "ncols (UpdateCursor s) = ncols s"
  unfolding UpdateCursor_def using DrawCursorShape_ready [OF EraseCursor_ready [OF assms]] by simp_all

lemma EditLine_edits:
  assumes "console_ok s" "history_ok h" "hist_plain h" "0 \<notin> set ks" "room_for (ncols s) (line_max a2) (tty_of s)"
  shows "case line_loop (line_max a2) (hist_lines h) ks ([], 0) of None \<Rightarrow> EditLine a2 ks h s = None
    | Some (ks', l) \<Rightarrow> \<exists>buf h' s'. EditLine a2 ks h s = Some (buf, length l, ks', h', s')
        \<and> map buf [0..<length l] = l \<and> buf (length l) = 0 \<and> length l \<le> line_max a2
        \<and> history_ok h' \<and> hist_lines h' = hist_push l (hist_lines h) \<and> console_ok s'
        \<and> tty_of s' = (if length l < line_max a2 then tt_newline (nrows s) (ncols s) (tt_line (ncols s) l (tty_of s))
            else tt_line (ncols s) l (tty_of s))"
proof -
  define e where "e = \<lparr>linebuf = \<lambda>i. 0, ln = 0, hist_pos = 0, ed_vga = UpdateCursor s\<rparr>"
  have "tt_line (ncols s) [] (tty_of s) = tty_of s" by (simp add: tt_line_def tt_text_none)
  then have E: "echoed (nrows s) (ncols s) (line_max a2) (tty_of s) e"
    using UpdateCursor_ready [OF assms(1)] by (simp add: echoed_def e_def ed_line_def)
  have A: "at_line h e ([], 0)" by (simp add: at_line_def e_def ed_line_def)
  note L = edit_loop_line [OF assms(5,2,3) E A assms(4)]
  show ?thesis
  proof (cases "line_loop (line_max a2) (hist_lines h) ks ([], 0)")
    case None
    then show ?thesis using L by (simp add: EditLine_def e_def [symmetric])
  next
    case (Some r)
    obtain ks' l where r: "r = (ks', l)" by (cases r)
    obtain e' where e': "edit_loop (line_max a2) h ks e = Some (ks', e')" "ed_line e' = l" "ln e' \<le> line_max a2" "set l \<inter> controls = {}"
      "console_ok (ed_vga e')" "tty_of (ed_vga e') = (if length l < line_max a2
         then tt_newline (nrows s) (ncols s) (tt_line (ncols s) l (tty_of s)) else tt_line (ncols s) l (tty_of s))"
      using L Some r by auto
    define buf where "buf = (linebuf e')(ln e' := 0)"
    have l: "length l = ln e'" "map buf [0..<ln e'] = l" using e'(2) by (auto simp: ed_line_def buf_def)
    have nz: "buf i \<noteq> 0" if "i < ln e'" for i
    proof -
      have "buf i \<in> set l" using that l(2) by (metis nth_map nth_mem l(1) nth_upt add_0 length_upt diff_zero)
      then show ?thesis using e'(4) by auto
    qed
    show ?thesis
      unfolding Some r option.case prod.case using e'(1,3,5,6) HistAdd_refines [where h = h and len = "ln e'" and buf = buf, OF assms(2) nz] l
      by (intro exI [of _ buf] exI [of _ "HistAdd buf (ln e') h"] exI [of _ "ed_vga e'"])
        (simp add: EditLine_def e_def [symmetric] buf_def [symmetric], simp add: buf_def)
  qed
qed

text \<open>C21 (equivalence): the line editor and the reference.  With room on the row of the prompt and no NUL
  typed, the editor - its buffer, the ring and the echo on the screen - waits for more exactly when the reference
  editor on lists does, and else gives the line of the reference, closed by a NUL, leaves the same characters unread,
  puts the line in the history, and the screen shows at the prompt exactly that line, followed by a new line unless the
  buffer was full.\<close>
theorem line_edited:
  assumes "console_ok s" "history_ok h" "hist_plain h" "0 \<notin> set ks" "room_for (ncols s) (line_max a2) (tty_of s)"
  shows "case line_loop (line_max a2) (hist_lines h) ks ([], 0) of None \<Rightarrow> EditLine a2 ks h s = None
    | Some (ks', l) \<Rightarrow> \<exists>buf h' s'. EditLine a2 ks h s = Some (buf, length l, ks', h', s')
        \<and> map buf [0..<length l] = l \<and> buf (length l) = 0 \<and> length l \<le> line_max a2
        \<and> history_ok h' \<and> hist_lines h' = hist_push l (hist_lines h) \<and> console_ok s'
        \<and> tty_of s' = (if length l < line_max a2 then tt_newline (nrows s) (ncols s) (tt_line (ncols s) l (tty_of s))
            else tt_line (ncols s) l (tty_of s))"
  by (rule EditLine_edits [OF assms])

definition term_demo :: vga where "term_demo = PutChar 10 0x07 (VGA_Init vga_demo)"

lemma term_demo_ok:
  "console_ok term_demo" "nrows term_demo = 3" "ncols term_demo = 8" "room_for 8 4 (tty_of term_demo)"
proof -
  have I: "console_ok (VGA_Init vga_demo)" "s_row (VGA_Init vga_demo) = 1" "s_col (VGA_Init vga_demo) = 0"
    "s_rows (VGA_Init vga_demo) = clip_rows 48" "s_cols (VGA_Init vga_demo) = clip_cols 64"
    using VGA_Init_console [of vga_demo] by (simp_all add: fb_ok_def vga_demo_def)
  have rc: "nrows (VGA_Init vga_demo) = 3" "ncols (VGA_Init vga_demo) = 8" by (simp_all add: I clip_unat)
  note P = PutChar_step [OF I(1), of 10 "0x07", folded term_demo_def]
  show "console_ok term_demo" "nrows term_demo = 3" "ncols term_demo = 8" using P rc by simp_all
  have "tty_of term_demo = tt_newline 3 8 (tty_of (VGA_Init vga_demo))" using P(2) rc by (simp add: tt_put_def)
  then show "room_for 8 4 (tty_of term_demo)"
    by (simp add: room_for_def tt_newline_def tty_of_def I scrolled_def)
qed

lemma History0_ok: "history_ok History0" "hist_lines History0 = []" "hist_plain History0"
  by (simp_all add: history_ok_def History0_def HIST_N_def hist_lines_def hist_plain_def)

text \<open>p, x, backspace, s and Enter.\<close>
lemma line_edited_witness:
  "console_ok term_demo \<and> (\<exists>buf h s. EditLine 5 [0x70, 0x78, 8, 0x73, 13] History0 term_demo = Some (buf, 2, [], h, s)
     \<and> map buf [0..<2] = [0x70, 0x73] \<and> hist_lines h = [[0x70, 0x73]])"
proof -
  have m: "line_max 5 = 4" by (simp add: line_max_def)
  have "line_loop 4 [] [0x70, 0x78, 8, 0x73, 13] ([], 0) = Some ([], [0x70, 0x73])"
    by (simp add: line_key_def LINE_KEY_UP_def LINE_KEY_DOWN_def)
  then show ?thesis
    using line_edited [OF term_demo_ok(1) History0_ok(1,3), of "[0x70, 0x78, 8, 0x73, 13]" 5] term_demo_ok
    by (auto simp: m History0_ok hist_push_def HIST_N_def HIST_MAX_def upt_rec)
qed

lemma history_refines_witness:
  "hist_lines (HistAdd (\<lambda>i. 0x61) 3 (HistAdd (\<lambda>i. 0x61) 2 (HistAdd (\<lambda>i. 0x61) 2 History0))) = [[0x61, 0x61, 0x61], [0x61, 0x61]]"
proof -
  have "history_ok (HistAdd (\<lambda>i. 0x61) 2 History0) \<and> hist_lines (HistAdd (\<lambda>i. 0x61) 2 History0) = [[0x61, 0x61]]"
    using history_refines [OF History0_ok(1), of 2 "\<lambda>i. 0x61"]
    by (simp add: History0_ok hist_push_def HIST_N_def HIST_MAX_def upt_rec)
  then have "history_ok (HistAdd (\<lambda>i. 0x61) 2 (HistAdd (\<lambda>i. 0x61) 2 History0))
      \<and> hist_lines (HistAdd (\<lambda>i. 0x61) 2 (HistAdd (\<lambda>i. 0x61) 2 History0)) = [[0x61, 0x61]]"
    using history_refines [of "HistAdd (\<lambda>i. 0x61) 2 History0" 2 "\<lambda>i. 0x61"]
    by (simp add: hist_push_def upt_rec)
  then show ?thesis
    using history_refines [of "HistAdd (\<lambda>i. 0x61) 2 (HistAdd (\<lambda>i. 0x61) 2 History0)" 3 "\<lambda>i. 0x61"]
    by (simp add: hist_push_def HIST_N_def HIST_MAX_def upt_rec)
qed

text \<open>Left and Right are typed as characters, and Down on the current draft erases what was typed.\<close>
lemma arrow_typed: "line_key m ls 0x12 (l, pos) = (l @ [0x12], pos)" "line_key m ls 0x13 (l, pos) = (l @ [0x13], pos)"
  by (simp_all add: line_key_def LINE_KEY_UP_def LINE_KEY_DOWN_def)

lemma down_erases: "line_key m ls LINE_KEY_DOWN (l, 0) = ([], 0)"
  by (simp add: line_key_def LINE_KEY_UP_def LINE_KEY_DOWN_def)

end
