(* ===== verification/ShellCommands.thy ===== *)
theory ShellCommands
  imports LineEditor SysQuery
begin

text \<open>NT\_READ\_LINE of kernel/syscall/syscall.cpp around its line editor: the queue of prepared commands, the commands
  that the kernel carries out itself - the process table, killing, starting programs, directories, saving - and the line
  handed to the caller; and the system calls that start a program or map a file.  The state joins the loader, whose process
  state holds memory, processes and threads, with the file system, the firmware variables, the screen and the statics of
  the editor.\<close>

section \<open>State\<close>

record 'nv cmdsys =
  cs_ldr :: ldr
  cs_vfs :: vfs
  cs_nv :: 'nv
  cs_vga :: vga
  cs_hist :: history
  cs_cmds :: "cstr list"
  cs_idx :: nat
  cs_procs :: "nat option list"

abbreviation "cs_ps s \<equiv> l_ps (cs_ldr s)"
abbreviation "cs_vmm s \<equiv> p_vmm (cs_ps s)"
abbreviation "set_cs_ps f s \<equiv> s\<lparr>cs_ldr := (cs_ldr s)\<lparr>l_ps := f (cs_ps s)\<rparr>\<rparr>"
abbreviation "set_cs_vmm v s \<equiv> set_cs_ps (\<lambda>p. p\<lparr>p_vmm := v\<rparr>) s"

text \<open>SetCommands keeps eight commands at most.\<close>
definition SetCommands :: "cstr list \<Rightarrow> 'nv cmdsys \<Rightarrow> 'nv cmdsys" where
  "SetCommands cmds s = s\<lparr>cs_idx := 0, cs_cmds := take 8 cmds\<rparr>"

section \<open>Printing\<close>

definition puts_at :: "u8 \<Rightarrow> u8 list \<Rightarrow> vga \<Rightarrow> vga" where
  "puts_at color bs s = fold (\<lambda>ch. PutChar ch color) bs s"

definition kprint :: "cstr \<Rightarrow> u8 \<Rightarrow> vga \<Rightarrow> vga" where
  "kprint cs color s = PutChar 10 0x07 (puts_at color (bytes_of cs) s)"

abbreviation "say cs color s \<equiv> s\<lparr>cs_vga := kprint cs color (cs_vga s)\<rparr>"

definition pfmt :: "nat \<Rightarrow> nat \<Rightarrow> cstr" where
  "pfmt v width = replicate (width - length (itoa v)) (CHR '' '') @ itoa v"

definition HEAP_BASE :: u64 where "HEAP_BASE = 0x500000000"

definition ps_name :: "cstr \<Rightarrow> vga \<Rightarrow> vga" where
  "ps_name nm s = (let n = take 20 nm in puts_at 0x07 (replicate (20 - length n) 0x20) (puts_at 0x0F (bytes_of n) s))"

definition ps_state :: "KProcess \<Rightarrow> cstr \<times> u8" where
  "ps_state k = (if exited k then (''EXITED   '', 0x08) else if thread_count k > 0 then (''RUNNING  '', 0x0A) else (''READY    '', 0x0E))"

definition heap_kb :: "KProcess \<Rightarrow> u64" where
  "heap_kb k = (if UserHeapCursor k > HEAP_BASE then (UserHeapCursor k - HEAP_BASE) div 1024 else 0)"

definition ps_row :: "KProcess \<Rightarrow> vga \<Rightarrow> vga" where
  "ps_row k s =
    (let s = puts_at 0x0A (bytes_of (pfmt (unat (Pid k)) 5)) s;
         s = PutChar 0x20 0x07 (PutChar 0x20 0x07 s);
         s = ps_name (PName k) s;
         s = PutChar 0x20 0x07 s;
         s = puts_at (snd (ps_state k)) (bytes_of (fst (ps_state k))) s;
         s = puts_at 0x0E (bytes_of (pfmt (unat (thread_count k)) 4)) s;
         s = puts_at 0x0B (bytes_of (pfmt (unat (heap_kb k)) 8)) s
     in PutChar 10 0x07 s)"

definition DrawPsTable :: "psys \<Rightarrow> vga \<Rightarrow> vga" where
  "DrawPsTable ps s =
    (let s = puts_at 0x0B (bytes_of ''   PID  Name                 State     Thds  Heap KB'') s;
         s = PutChar 10 0x07 s;
         s = puts_at 0x08 (bytes_of ''   -------------------------------------------------------'') s;
         s = PutChar 10 0x07 s
     in fold (\<lambda>i s. case GetProcess i ps of None \<Rightarrow> s | Some p \<Rightarrow> ps_row (the_proc ps p) s) [0..<ProcessCount ps] s)"

section \<open>Commands\<close>

text \<open>kstrcmp of the line with a literal.\<close>
definition begins :: "u8 list \<Rightarrow> cstr \<Rightarrow> bool" where "begins l cs \<longleftrightarrow> take (length cs) l = bytes_of cs"

definition parse_pid :: "u8 list \<Rightarrow> u32" where
  "parse_pid l = foldl (\<lambda>pid ch. pid * 10 + ucast (ch - 0x30)) 0 (takeWhile (\<lambda>ch. 0x30 \<le> ch \<and> ch \<le> 0x39) l)"

definition KillCommand :: "u8 list \<Rightarrow> 'nv cmdsys \<Rightarrow> 'nv cmdsys option" where
  "KillCommand l s = do {
     (ok, k) \<leftarrow> KillProcess (parse_pid (drop 5 l)) (p_sys (cs_ps s));
     let s = set_cs_ps (\<lambda>p. p\<lparr>p_sys := k\<rparr>) s;
     Some (if ok then say ''Process killed.'' 0x0A s else say ''PID not found or already exited.'' 0x0C s) }"

text \<open>The file at an address of identity-mapped memory, as it is when it is loaded.\<close>
definition file_at :: "u64 \<Rightarrow> 'nv cmdsys \<Rightarrow> blob option" where
  "file_at a s = (if a = 0 then None else Some (\<lambda>i. rd8 (cs_vmm s) (a + i)))"

text \<open>The file name in the line: at most 63 characters after the command.\<close>
definition name_arg :: "nat \<Rightarrow> u8 list \<Rightarrow> cstr" where "name_arg k l = cstr_of (take 63 (drop k l))"

text \<open>A new address space and the process in it.\<close>
definition spawn :: "cstr \<Rightarrow> 'nv cmdsys \<Rightarrow> u64 \<times> nat option \<times> 'nv cmdsys" where
  "spawn nm s =
    (let (ccr3, v) = CreateUserPml4 (cs_vmm s); s = set_cs_vmm v s in
     if ccr3 = 0 then (0, None, s) else
     let (cp, ps) = CreateProcess (Some nm) ccr3 (cs_ps s) in (ccr3, cp, set_cs_ps (\<lambda>_. ps) s))"

text \<open>The stack pages of the commands: the loop stops at the first page that cannot be had, and does not look at
  the result of the mapping.\<close>
fun command_stack :: "u64 \<Rightarrow> u64 \<Rightarrow> nat \<Rightarrow> nat \<Rightarrow> vmm \<Rightarrow> vmm" where
  "command_stack cr3 stk i 0 v = v"
| "command_stack cr3 stk i (Suc n) v =
    (let (pp, v) = alloc_page v in
     if pp = 0 then v else
     command_stack cr3 stk (i + 1) n (snd (MapPageInto cr3 (stk + of_nat (i * PAGE_SIZE)) pp USER_RW (zero_page pp v))))"

text \<open>The thread of a started program, made ready.\<close>
definition start_thread :: "nat \<Rightarrow> cstr \<Rightarrow> u64 \<Rightarrow> u64 \<Rightarrow> cstr \<Rightarrow> 'nv cmdsys \<Rightarrow> 'nv cmdsys" where
  "start_thread p nm entry stk_top msg s =
    (case CreateUserThread (Some p) (Some nm) entry stk_top 0 KERNEL_STACK_SIZE (cs_ps s) of
       (None, ps) \<Rightarrow> say ''Thread creation failed.'' 0x0C (set_cs_ps (\<lambda>_. ps) s)
     | (Some t, ps) \<Rightarrow> say msg 0x0A (set_cs_ps (\<lambda>_. ps\<lparr>p_sys := AddThread t (p_sys ps)\<rparr>) s))"

definition BgCommand :: "u8 list \<Rightarrow> 'nv cmdsys \<Rightarrow> 'nv cmdsys option" where
  "BgCommand l s =
    (let bgname = name_arg 3 l; (fdata, fsize) = VFS_FindFile (Some bgname) (cs_vfs s) in
     if fdata = 0 \<or> fsize = 0 then Some (say ''File not found.'' 0x0C s) else
     let (ccr3, cp, s) = spawn bgname s in
     case cp of None \<Rightarrow> Some (say ''Process creation failed.'' 0x0C s)
     | Some p \<Rightarrow> do {
         (st, entry, ld) \<leftarrow> LoadPe (file_at fdata s) fsize ccr3 HEAP_BASE (cs_ldr s);
         let s = s\<lparr>cs_ldr := ld\<rparr>; entry_va = (case entry of None \<Rightarrow> 0 | Some e \<Rightarrow> e);
             stk = HEAP_BASE + 0x100000
         in Some (if entry_va = 0 then say ''PE load failed.'' 0x0C s
              else start_thread p bgname entry_va (stk + 4 * of_nat PAGE_SIZE) ''Background process started.''
                (set_cs_vmm (command_stack ccr3 stk 0 4 (cs_vmm s)) s)) })"

text \<open>An image that is part of the kernel: its bytes, its size and its base.\<close>
type_synonym kernel_dll = "blob option \<times> u64 \<times> u64"

definition WinexecCommand :: "kernel_dll \<Rightarrow> u8 list \<Rightarrow> 'nv cmdsys \<Rightarrow> 'nv cmdsys option" where
  "WinexecCommand k32 l s =
    (let wname = name_arg 8 l; (fd, fsz) = VFS_FindFile (Some wname) (cs_vfs s) in
     if fd = 0 \<or> fsz < 64 then Some (say ''File not found.'' 0x0C s) else
     let img = (\<lambda>i. rd8 (cs_vmm s) (fd + i)); e_lf = ld32 img 0x3C; base = ld64 img (ucast e_lf + 4 + 20 + 24);
         (ccr3, cp, s) = spawn wname s in
     case cp of None \<Rightarrow> Some (say ''Process creation failed.'' 0x0C s)
     | Some p \<Rightarrow> do {
         (_, _, ld) \<leftarrow> LoadAndRegister ''kernel32.dll'' (fst k32) (fst (snd k32)) ccr3 (snd (snd k32)) (cs_ldr s);
         let s = s\<lparr>cs_ldr := ld\<rparr>;
         (st, entry, ld) \<leftarrow> LoadPe (file_at fd s) fsz ccr3 base (cs_ldr s);
         let s = s\<lparr>cs_ldr := ld\<rparr>; entry_va = (case entry of None \<Rightarrow> 0 | Some e \<Rightarrow> e); stk = base + 0x1000000
         in Some (if \<not> NT_SUCCESS st \<or> entry_va = 0 then say ''PE load failed.'' 0x0C s
              else start_thread p wname entry_va (stk + 4 * of_nat PAGE_SIZE) ''Launched.''
                (set_cs_vmm (command_stack ccr3 stk 0 4 (cs_vmm s)) s)) })"

definition MkdirCommand :: "u8 list \<Rightarrow> 'nv cmdsys \<Rightarrow> 'nv cmdsys" where
  "MkdirCommand l s =
    (let (ok, f) = MkDir (Some (cstr_of (drop 6 l))) (cs_vfs s); s = s\<lparr>cs_vfs := f\<rparr>
     in if ok then say ''Directory created.'' 0x0A s else say ''Already exists or table full.'' 0x0C s)"

definition RmCommand :: "u8 list \<Rightarrow> 'nv cmdsys \<Rightarrow> 'nv cmdsys" where
  "RmCommand l s =
    (let (ok, f) = VFS_Delete (cstr_of (drop 3 l)) (cs_vfs s); s = s\<lparr>cs_vfs := f\<rparr>
     in if ok then say ''Deleted.'' 0x0A s else say ''Not found.'' 0x0C s)"

type_synonym 'nv set_var = "(NVRAMHeader \<Rightarrow> 'nv \<Rightarrow> u64 \<times> 'nv) option"

definition save_vfs :: "'nv set_var \<Rightarrow> 'nv cmdsys \<Rightarrow> 'nv cmdsys" where
  "save_vfs set_var s = s\<lparr>cs_nv := SaveNVRAM set_var (cs_vfs s) (cs_nv s)\<rparr>"

text \<open>What a line does in the kernel: Inr is a command of the kernel, after which the caller gets an empty
  line, Inl a line for the caller.\<close>
definition RunLine :: "'nv set_var \<Rightarrow> kernel_dll \<Rightarrow> u8 list \<Rightarrow> 'nv cmdsys \<Rightarrow> ('nv cmdsys + 'nv cmdsys) option" where
  "RunLine set_var k32 l s =
    (let n = length l in
     if n = 2 \<and> begins l ''ps'' then Some (Inr (s\<lparr>cs_vga := DrawPsTable (cs_ps s) (PutChar 10 0x07 (cs_vga s))\<rparr>))
     else if n > 5 \<and> begins l ''kill '' then map_option Inr (KillCommand l s)
     else if n > 3 \<and> begins l ''bg '' then map_option Inr (BgCommand l s)
     else if n > 8 \<and> begins l ''winexec '' then map_option Inr (WinexecCommand k32 l s)
     else if n > 6 \<and> begins l ''mkdir '' then Some (Inr (MkdirCommand l s))
     else if n > 3 \<and> begins l ''rm '' then Some (Inr (RmCommand l s))
     else if n = 4 \<and> begins l ''save'' then Some (Inr (say ''VFS saved to NVRAM.'' 0x0A (save_vfs set_var s)))
     else Some (Inl (if n \<ge> 4 \<and> begins l ''exit'' then save_vfs set_var s else s)))"

text \<open>The result, the characters left unread, and the state; None while the handler waits or does not return.  With a2 = 0 and
  a prepared command the length wraps and the copying runs over the end of the command: None, too.\<close>
definition NtReadLine :: "'nv set_var \<Rightarrow> kernel_dll \<Rightarrow> u64 \<Rightarrow> u64 \<Rightarrow> u8 list \<Rightarrow> 'nv cmdsys \<Rightarrow> (u64 \<times> u8 list \<times> 'nv cmdsys) option" where
  "NtReadLine set_var k32 a1 a2 ks s =
    (case current_thread (cs_ps s) of None \<Rightarrow> Some (0, ks, s)
     | Some (t, p) \<Rightarrow>
       let pml4 = Cr3 (the_proc (cs_ps s) p); give = (\<lambda>bs s. set_cs_vmm (write_user pml4 a1 bs (cs_vmm s)) s) in
       if cs_idx s < length (cs_cmds s) then
         if a2 = 0 then None else
         (let cmd = cs_cmds s ! cs_idx s; s = s\<lparr>cs_idx := cs_idx s + 1\<rparr>;
              len = (if of_nat (length cmd) \<ge> a2 then a2 - 1 else of_nat (length cmd))
          in Some (len, ks, give (map chr8 (take (unat len) cmd) @ [0]) s))
       else do {
         (buf, n, ks, h, v) \<leftarrow> EditLine a2 ks (cs_hist s) (cs_vga s);
         r \<leftarrow> RunLine set_var k32 (map buf [0..<n]) (s\<lparr>cs_hist := h, cs_vga := v\<rparr>);
         Some (case r of Inr s \<Rightarrow> (0, ks, give [0] s)
           | Inl s \<Rightarrow> (of_nat n, ks, give (map buf [0..<n + 1]) s)) })"

section \<open>Programs and files\<close>

definition NtCreateFileSection :: "u64 \<Rightarrow> u64 \<Rightarrow> KSection list \<Rightarrow> 'nv cmdsys \<Rightarrow> u64 \<times> KSection list \<times> 'nv cmdsys" where
  "NtCreateFileSection a1 a2 secs s =
    (let nlen = (if a2 < 63 then unat a2 else 63);
         name = cstr_of (ReadUserBytes a1 nlen (cs_ps s)); (fdata, fsz) = VFS_FindFile (Some name) (cs_vfs s) in
     if fdata = 0 \<or> fsz = 0 then (0, secs, s) else
     let (h, secs, v) = CreateSectionFromData (\<lambda>i. rd8 (cs_vmm s) (fdata + i)) fsz secs (cs_vmm s)
     in (h, secs, set_cs_vmm v s))"

text \<open>The preferred base of an image, or the fallback.\<close>
definition child_base :: "blob \<Rightarrow> u64 \<Rightarrow> u64" where
  "child_base img fsize =
    (let lfanew = ld32 img 60;
         b = (if fsize \<ge> 64 \<and> ucast (lfanew + 4 + 20 + 32) \<le> fsize \<and> img (ucast lfanew) = 0x50 \<and> img (ucast (lfanew + 1)) = 0x45
              then ld64 img (ucast lfanew + 4 + 20 + 24) else 0)
     in if b = 0 then 0x500000000 else b)"

fun free_slot :: "nat option list \<Rightarrow> nat \<Rightarrow> nat option" where
  "free_slot [] i = None"
| "free_slot (p # ps) i = (if p = None then Some i else free_slot ps (i + 1))"

definition NtCreateProcess :: "kernel_dll \<Rightarrow> u64 \<Rightarrow> u64 \<Rightarrow> 'nv cmdsys \<Rightarrow> (u64 \<times> 'nv cmdsys) option" where
  "NtCreateProcess ntdll a1 a2 s =
    (case current_thread (cs_ps s) of None \<Rightarrow> Some (0, s)
     | Some (t, p) \<Rightarrow>
       let cr3 = Cr3 (the_proc (cs_ps s) p); flen = unat (if a2 > 63 then 63 else a2);
           fname = cstr_of (map (\<lambda>i. ReadUserByte cr3 (a1 + of_nat i) (cs_vmm s)) [0..<flen]);
           (fdata, fsize) = VFS_FindFile (Some fname) (cs_vfs s) in
       if fdata = 0 \<or> fsize = 0 then Some (0, s) else
       let (ccr3, cp, s) = spawn fname s in
       case cp of None \<Rightarrow> Some (0, s)
       | Some q \<Rightarrow> do {
           (_, _, ld) \<leftarrow> LoadAndRegister ''ntdll.dll'' (fst ntdll) (fst (snd ntdll)) ccr3 (snd (snd ntdll)) (cs_ldr s);
           let s = s\<lparr>cs_ldr := ld\<rparr>; let img = (\<lambda>i. rd8 (cs_vmm s) (fdata + i)); let image_base = child_base img fsize;
           (st, entry, ld) \<leftarrow> LoadPe (Some img) fsize ccr3 image_base (cs_ldr s);
           let s = s\<lparr>cs_ldr := ld\<rparr>;
           if \<not> NT_SUCCESS st then Some (0, s) else
           let stack_base = image_base + 0x100000; (ok, v) = commit_pages ccr3 stack_base 0 4 (cs_vmm s); s = set_cs_vmm v s in
           if \<not> ok then Some (0, s) else
           (case CreateUserThread (Some q) (Some fname) (case entry of None \<Rightarrow> 0 | Some e \<Rightarrow> e) (stack_base + 4 * of_nat PAGE_SIZE) 0
                   KERNEL_STACK_SIZE (cs_ps s) of
              (None, ps) \<Rightarrow> Some (0, set_cs_ps (\<lambda>_. ps) s)
            | (Some t2, ps) \<Rightarrow>
                let s = set_cs_ps (\<lambda>_. ps\<lparr>p_sys := AddThread t2 (p_sys ps)\<rparr>) s in
                (case free_slot (cs_procs s) 0 of None \<Rightarrow> Some (0, s)
                 | Some i \<Rightarrow> Some (PROC_HANDLE_BASE + of_nat i, s\<lparr>cs_procs := (cs_procs s)[i := Some q]\<rparr>))) })"

text \<open>NT\_VGA\_CLEAR and the calls of the boot tests, which only set a flag.\<close>
definition NtVgaClear :: "'nv cmdsys \<Rightarrow> u64 \<times> 'nv cmdsys" where
  "NtVgaClear s = (nt STATUS_SUCCESS, s\<lparr>cs_vga := ClearScreen (cs_vga s)\<rparr>)"

section \<open>The number that ps shows\<close>

lemma digit_chr8: "(48 :: nat) \<le> of_char c \<Longrightarrow> of_char c \<le> (57 :: nat) \<Longrightarrow>
    0x30 \<le> chr8 c \<and> chr8 c \<le> 0x39 \<and> ucast (chr8 c - 0x30) = (of_nat (of_char c - 48) :: u32)"
proof -
  assume c: "(48 :: nat) \<le> of_char c" "of_char c \<le> (57 :: nat)"
  then have u: "unat (chr8 c) = of_char c" by (simp add: chr8_def unat_of_nat take_bit_nat_eq_self)
  have "unat (chr8 c - 0x30) = of_char c - 48" using u c by (simp add: unat_sub word_le_nat_alt)
  then have "ucast (chr8 c - 0x30) = (of_nat (of_char c - 48) :: u32)" by (metis of_nat_unat)
  then show ?thesis using u c by (simp add: word_le_nat_alt)
qed

lemma parse_pid_digits:
  assumes "\<forall>c\<in>set cs. (48 :: nat) \<le> of_char c \<and> of_char c \<le> (57 :: nat)"
  shows "parse_pid (bytes_of cs) = of_nat (digits_value cs)"
proof -
  have t: "takeWhile (\<lambda>ch. 0x30 \<le> ch \<and> ch \<le> 0x39) (bytes_of cs) = bytes_of cs"
    using assms digit_chr8 by (auto simp: takeWhile_eq_all_conv)
  have "foldl (\<lambda>pid ch. pid * 10 + ucast (ch - 0x30)) (of_nat n :: u32) (bytes_of cs) =
      of_nat (foldl (\<lambda>n c. n * 10 + (of_char c - 48)) n cs)" for n
    using assms
  proof (induction cs arbitrary: n)
    case (Cons c cs)
    have "ucast (chr8 c - 0x30) = (of_nat (of_char c - 48) :: u32)" using digit_chr8 [of c] Cons.prems by simp
    then have "(of_nat n :: u32) * 10 + ucast (chr8 c - 0x30) = of_nat (n * 10 + (of_char c - 48))"
      by (simp only: of_nat_add of_nat_mult of_nat_numeral)
    moreover have d: "\<forall>c\<in>set cs. (48 :: nat) \<le> of_char c \<and> of_char c \<le> (57 :: nat)" using Cons.prems by simp
    ultimately show ?case using Cons.IH [OF d, of "n * 10 + (of_char c - 48)"] by (simp only: list.map foldl.simps)
  qed simp
  from this [of 0] show ?thesis by (simp add: parse_pid_def t digits_value_def)
qed

definition kernel_line :: "u8 list \<Rightarrow> bool" where
  "kernel_line l \<longleftrightarrow> l = bytes_of ''ps'' \<or> l = bytes_of ''save''
     \<or> (\<exists>c\<in>set [''kill '', ''bg '', ''winexec '', ''mkdir '', ''rm '']. length c < length l \<and> begins l c)"

lemma RunLine_own: "\<not> kernel_line l \<Longrightarrow>
    RunLine set_var k32 l s = Some (Inl (if length l \<ge> 4 \<and> begins l ''exit'' then save_vfs set_var s else s))"
  by (auto simp: kernel_line_def RunLine_def begins_def Let_def)

text \<open>The number in the process table is the one to kill with.  A line of kill and the PID that ps
  prints, without its leading blanks, kills exactly the process with that PID, tells whether it was there, and gives
  the caller an empty line.\<close>
theorem kill_shown_pid:
  "RunLine set_var k32 (bytes_of (''kill '' @ dropWhile (\<lambda>c. c = CHR '' '') (pfmt (unat pid) 5))) s =
    map_option (\<lambda>(ok, k). Inr ((if ok then say ''Process killed.'' 0x0A else say ''PID not found or already exited.'' 0x0C)
        (set_cs_ps (\<lambda>p. p\<lparr>p_sys := k\<rparr>) s))) (KillProcess pid (p_sys (cs_ps s)))"
proof -
  have d: "\<forall>c\<in>set (itoa (unat pid)). (48 :: nat) \<le> of_char c \<and> of_char c \<le> (57 :: nat)" using itoa_ok(2) by blast
  have ne: "itoa (unat pid) \<noteq> []" by (auto simp: itoa_def digits_rev.simps)
  then obtain c cs where c: "itoa (unat pid) = c # cs" by (cases "itoa (unat pid)") auto
  moreover have "c \<noteq> CHR '' ''" using d c by auto
  ultimately have w: "dropWhile (\<lambda>c. c = CHR '' '') (pfmt (unat pid) 5) = itoa (unat pid)"
    by (simp add: pfmt_def dropWhile_append)
  let ?l = "bytes_of (''kill '' @ itoa (unat pid))"
  have "parse_pid (drop 5 ?l) = pid" using parse_pid_digits [OF d] by (simp add: itoa_ok(1))
  moreover have "RunLine set_var k32 ?l s = map_option Inr (KillCommand ?l s)"
    using ne by (simp add: RunLine_def begins_def Let_def chr8_def)
  ultimately show ?thesis
    unfolding w by (cases "KillProcess pid (p_sys (cs_ps s))") (auto simp: KillCommand_def Let_def)
qed

section \<open>From the keys to the caller\<close>

text \<open>C20 (functional): a typed line reaches the caller.  With no prepared command left and room on the screen, when the
  reference editor finishes a line that is no command of the kernel, NtReadLine returns its length, the caller's buffer
  holds the line and its NUL, the line is in the history, it stands on the screen, and the characters after it are
  left for the next call.\<close>
theorem line_delivered:
  assumes "current_thread (cs_ps s) = Some (t, p)" "length (cs_cmds s) \<le> cs_idx s"
    and "console_ok (cs_vga s)" "history_ok (cs_hist s)" "hist_plain (cs_hist s)" "0 \<notin> set ks"
    and "room_for (ncols (cs_vga s)) (line_max a2) (tty_of (cs_vga s))"
    and "line_loop (line_max a2) (hist_lines (cs_hist s)) ks ([], 0) = Some (ks', l)" "\<not> kernel_line l"
  defines "r \<equiv> Cr3 (the_proc (cs_ps s) p)"
  assumes "pt_wf (cs_vmm s) r" "user_buf (cs_vmm s) r a1 (length l + 1)"
  shows "\<exists>s'. NtReadLine set_var k32 a1 a2 ks s = Some (of_nat (length l), ks', s')
    \<and> user_bytes r a1 (length l + 1) (cs_vmm s') = l @ [0] \<and> pt_wf (cs_vmm s') r
    \<and> hist_lines (cs_hist s') = hist_push l (hist_lines (cs_hist s)) \<and> console_ok (cs_vga s')
    \<and> tty_of (cs_vga s') = (let typed = tt_line (ncols (cs_vga s)) l (tty_of (cs_vga s)) in
        if length l < line_max a2 then tt_newline (nrows (cs_vga s)) (ncols (cs_vga s)) typed else typed)"
proof -
  let ?s = "cs_vga s" and ?h = "cs_hist s"
  obtain buf h' v where E: "EditLine a2 ks ?h ?s = Some (buf, length l, ks', h', v)" "map buf [0..<length l] = l" "buf (length l) = 0"
    "hist_lines h' = hist_push l (hist_lines ?h)" "console_ok v" "tty_of v = (if length l < line_max a2
       then tt_newline (nrows ?s) (ncols ?s) (tt_line (ncols ?s) l (tty_of ?s)) else tt_line (ncols ?s) l (tty_of ?s))"
    using EditLine_edits [OF assms(3-7)] assms(8) by auto
  have b: "map buf [0..<length l + 1] = l @ [0]" using E(2,3) by simp
  define s1 where "s1 = s\<lparr>cs_hist := h', cs_vga := v\<rparr>"
  define s2 where "s2 = (if length l \<ge> 4 \<and> begins l ''exit'' then save_vfs set_var s1 else s1)"
  have s2: "cs_ps s2 = cs_ps s" "cs_hist s2 = h'" "cs_vga s2 = v" by (simp_all add: s2_def s1_def save_vfs_def)
  define s' where "s' = set_cs_vmm (write_user r a1 (l @ [0]) (cs_vmm s2)) s2"
  have N: "NtReadLine set_var k32 a1 a2 ks s = Some (of_nat (length l), ks', s')"
    using assms(1,2) RunLine_own [OF assms(9), of set_var k32 s1] E(1) b
    by (simp add: NtReadLine_def r_def E(2) s'_def s1_def [symmetric] s2_def [symmetric] Let_def)
  have v': "cs_vmm s' = write_user r (a1 + of_nat 0) (l @ [0]) (cs_vmm s)" by (simp add: s'_def s2)
  have u: "0 + length (l @ [0]) \<le> length l + 1" by simp
  note W = user_bytes_write [OF assms(11,12) u, folded v']
  show ?thesis
    using N W E(4-6) by (intro exI [of _ s']) (simp add: s'_def s2 Let_def)
qed

definition cmd_demo :: "unit cmdsys" where
  "cmd_demo = \<lparr>cs_ldr = \<lparr>l_ps = io_ps io_demo, s_mods = [], s_catalog = []\<rparr>, cs_vfs = io_vfs io_demo, cs_nv = (), cs_vga = term_demo,
     cs_hist = History0, cs_cmds = [''ver''], cs_idx = 1, cs_procs = replicate PROC_TABLE_SIZE None\<rparr>"

text \<open>h, x, backspace, i, Enter, and a character for the next call.\<close>
lemma line_delivered_witness:
  "\<exists>s'. NtReadLine None (None, 0, 0) 0x500000000 5 [0x68, 0x78, 8, 0x69, 13, 0x7A] cmd_demo = Some (2, [0x7A], s')
     \<and> user_bytes 0x300000 0x500000000 3 (cs_vmm s') = [0x68, 0x69, 0]"
proof -
  have c: "cs_vga cmd_demo = term_demo" "cs_hist cmd_demo = History0" "cs_ps cmd_demo = io_ps io_demo" "length (cs_cmds cmd_demo) \<le> cs_idx cmd_demo"
    by (simp_all add: cmd_demo_def)
  have m: "line_max 5 = 4" by (simp add: line_max_def)
  have L: "line_loop 4 [] [0x68, 0x78, 8, 0x69, 13, 0x7A] ([], 0) = Some ([0x7A], [0x68, 0x69])"
    by (simp add: line_key_def LINE_KEY_UP_def LINE_KEY_DOWN_def)
  have k: "\<not> kernel_line [0x68, 0x69]" by (simp add: kernel_line_def begins_def chr8_def)
  have t: "current_thread (cs_ps cmd_demo) = Some (Thr 0, 1)" using io_demo_thread by (simp add: c)
  have w: "pt_wf (cs_vmm cmd_demo) (Cr3 (the_proc (cs_ps cmd_demo) 1))"
    "user_buf (cs_vmm cmd_demo) (Cr3 (the_proc (cs_ps cmd_demo) 1)) 0x500000000 (length [0x68, 0x69 :: u8] + 1)"
    using vmm_buf_props(1,2) io_demo_sel by (simp_all add: c numeral_3_eq_3)
  have r: "room_for (ncols (cs_vga cmd_demo)) (line_max 5) (tty_of (cs_vga cmd_demo))" by (simp add: c m term_demo_ok)
  have "0 \<notin> set [0x68, 0x78, 8, 0x69, 13, 0x7A :: u8]" by simp
  note D = line_delivered [OF t c(4) _ _ _ this r _ k w, of "[0x7A]" None "(None, 0, 0)"]
  show ?thesis
    using D L io_demo_sel(2) by (simp add: c m term_demo_ok History0_ok numeral_3_eq_3) blast
qed

text \<open>The heap of a started process begins where bg puts its image.\<close>
lemma heap_at_image:
  assumes "spawn nm s = (ccr3, Some p, s')"
  shows "UserHeapCursor (the_proc (cs_ps s') p) = HEAP_BASE"
proof -
  obtain ps where C: "CreateProcess (Some nm) ccr3 (cs_ps (set_cs_vmm (snd (CreateUserPml4 (cs_vmm s))) s)) = (Some p, ps)" "cs_ps s' = ps"
    using assms by (auto simp: spawn_def Let_def split: prod.splits if_splits)
  have P: "UserHeapCursor (the_proc (SetupPeb p u) p) = UserHeapCursor (the_proc u p)" for u
    by (simp add: SetupPeb_def Let_def set_proc_def upd_proc_def split: prod.split)
  have R: "the_proc (register_process p u) = the_proc u" for u by (simp add: register_process_def)
  obtain u where "ps = SetupPeb p (register_process p u)" "UserHeapCursor (the_proc u p) = HEAP_BASE"
    using C(1) by (auto simp: CreateProcess_def set_proc_def upd_proc_def HEAP_BASE_def Let_def split: prod.splits option.splits)
  then show ?thesis using C(2) P R by simp
qed

end
