(* ===== verification/SystemCalls.thy ===== *)
theory SystemCalls
  imports ShellCommands
begin

text \<open>KiSystemCall of kernel/syscall/syscall.cpp: the numbers of the system calls, the state that all of them share, and the dispatch of
  a call to its handler; and the way back to user code, where kernel/syscall/syscall\_entry.asm looks for a pending exception.\<close>

section \<open>The numbers\<close>

definition NT_TEST_SYSCALL :: u64 where "NT_TEST_SYSCALL = 0"
definition NT_TERMINATE_THREAD :: u64 where "NT_TERMINATE_THREAD = 1"
definition NT_WRITE_CONSOLE :: u64 where "NT_WRITE_CONSOLE = 2"
definition NT_TEST_PE :: u64 where "NT_TEST_PE = 3"
definition NT_WRITE_FILE :: u64 where "NT_WRITE_FILE = 4"
definition NT_READ_LINE :: u64 where "NT_READ_LINE = 5"
definition NT_CREATE_FILE :: u64 where "NT_CREATE_FILE = 6"
definition NT_READ_FILE :: u64 where "NT_READ_FILE = 7"
definition NT_CLOSE_HANDLE :: u64 where "NT_CLOSE_HANDLE = 8"
definition NT_QUERY_DIR :: u64 where "NT_QUERY_DIR = 9"
definition NT_ALLOC_VM :: u64 where "NT_ALLOC_VM = 10"
definition NT_FREE_VM :: u64 where "NT_FREE_VM = 11"
definition NT_CREATE_EVENT :: u64 where "NT_CREATE_EVENT = 12"
definition NT_SET_EVENT :: u64 where "NT_SET_EVENT = 13"
definition NT_WAIT_SINGLE :: u64 where "NT_WAIT_SINGLE = 14"
definition NT_RESET_EVENT :: u64 where "NT_RESET_EVENT = 15"
definition NT_CREATE_THREAD :: u64 where "NT_CREATE_THREAD = 16"
definition NT_DELAY_EXECUTION :: u64 where "NT_DELAY_EXECUTION = 17"
definition NT_QUERY_SYSINFO :: u64 where "NT_QUERY_SYSINFO = 18"
definition NT_SET_THREAD_INFO :: u64 where "NT_SET_THREAD_INFO = 19"
definition NT_CREATE_SECTION :: u64 where "NT_CREATE_SECTION = 20"
definition NT_MAP_VIEW :: u64 where "NT_MAP_VIEW = 21"
definition NT_UNMAP_VIEW :: u64 where "NT_UNMAP_VIEW = 22"
definition NT_SET_EX_HANDLER :: u64 where "NT_SET_EX_HANDLER = 23"
definition NT_RAISE_EXCEPTION :: u64 where "NT_RAISE_EXCEPTION = 24"
definition NT_CREATE_SEMAPHORE :: u64 where "NT_CREATE_SEMAPHORE = 25"
definition NT_RELEASE_SEMAPHORE :: u64 where "NT_RELEASE_SEMAPHORE = 26"
definition NT_CREATE_MUTANT :: u64 where "NT_CREATE_MUTANT = 27"
definition NT_RELEASE_MUTANT :: u64 where "NT_RELEASE_MUTANT = 28"
definition NT_CREATE_PROCESS :: u64 where "NT_CREATE_PROCESS = 29"
definition NT_WAIT_MULTI :: u64 where "NT_WAIT_MULTI = 30"
definition NT_OPEN_EVENT :: u64 where "NT_OPEN_EVENT = 31"
definition NT_VGA_CLEAR :: u64 where "NT_VGA_CLEAR = 32"
definition NT_CREATE_NAMED_PIPE :: u64 where "NT_CREATE_NAMED_PIPE = 33"
definition NT_QUERY_PROCESS_INFO :: u64 where "NT_QUERY_PROCESS_INFO = 34"
definition NT_QUERY_THREAD_INFO :: u64 where "NT_QUERY_THREAD_INFO = 35"
definition NT_QUERY_SYSTEM_TIME :: u64 where "NT_QUERY_SYSTEM_TIME = 36"
definition NT_QUERY_PERF_COUNTER :: u64 where "NT_QUERY_PERF_COUNTER = 37"
definition NT_CREATE_FILE_SECTION :: u64 where "NT_CREATE_FILE_SECTION = 38"
definition NT_PROTECT_VM :: u64 where "NT_PROTECT_VM = 39"
definition NT_QUERY_VM :: u64 where "NT_QUERY_VM = 40"
definition NT_GET_MODULE_BASE :: u64 where "NT_GET_MODULE_BASE = 41"
definition NT_LOAD_LIBRARY :: u64 where "NT_LOAD_LIBRARY = 42"

lemmas nt_numbers = NT_TEST_SYSCALL_def NT_TERMINATE_THREAD_def NT_WRITE_CONSOLE_def NT_TEST_PE_def NT_WRITE_FILE_def NT_READ_LINE_def
  NT_CREATE_FILE_def NT_READ_FILE_def NT_CLOSE_HANDLE_def NT_QUERY_DIR_def NT_ALLOC_VM_def NT_FREE_VM_def NT_CREATE_EVENT_def
  NT_SET_EVENT_def NT_WAIT_SINGLE_def NT_RESET_EVENT_def NT_CREATE_THREAD_def NT_DELAY_EXECUTION_def NT_QUERY_SYSINFO_def
  NT_SET_THREAD_INFO_def NT_CREATE_SECTION_def NT_MAP_VIEW_def NT_UNMAP_VIEW_def NT_SET_EX_HANDLER_def NT_RAISE_EXCEPTION_def
  NT_CREATE_SEMAPHORE_def NT_RELEASE_SEMAPHORE_def NT_CREATE_MUTANT_def NT_RELEASE_MUTANT_def NT_CREATE_PROCESS_def NT_WAIT_MULTI_def
  NT_OPEN_EVENT_def NT_VGA_CLEAR_def NT_CREATE_NAMED_PIPE_def NT_QUERY_PROCESS_INFO_def NT_QUERY_THREAD_INFO_def NT_QUERY_SYSTEM_TIME_def
  NT_QUERY_PERF_COUNTER_def NT_CREATE_FILE_SECTION_def NT_PROTECT_VM_def NT_QUERY_VM_def NT_GET_MODULE_BASE_def NT_LOAD_LIBRARY_def

definition STATUS_INVALID_SYSTEM_SERVICE :: NTSTATUS where "STATUS_INVALID_SYSTEM_SERVICE = 0xC000001C"

section \<open>The state of the system calls\<close>

text \<open>The flags g\_m6 to g\_m22 are a set of numbers, g\_m7\_pe\_ok, which holds a value, apart; keys are the characters that the keyboard
  will deliver.\<close>
record 'nv kstate =
  ks_cmd :: "'nv cmdsys"
  ks_evs :: "u64 \<Rightarrow> KEvent"
  ks_events :: "u64 option list"
  ks_semas :: "KSema list"
  ks_mutants :: "KMutant list"
  ks_secs :: "KSection list"
  ks_pipes :: "KPipe list"
  ks_flags :: "nat set"
  g_m7_pe_ok :: u32
  g_pending_exception_va :: u64
  ks_keys :: "u8 list"

abbreviation "ks_ps s \<equiv> cs_ps (ks_cmd s)"
abbreviation "set_ks_ps p s \<equiv> s\<lparr>ks_cmd := set_cs_ps (\<lambda>_. p) (ks_cmd s)\<rparr>"

text \<open>A handler over a part of the state.\<close>
definition on_ps :: "(psys \<Rightarrow> 'r \<times> psys) \<Rightarrow> 'nv kstate \<Rightarrow> 'r \<times> 'nv kstate" where
  "on_ps f s = (let (r, p) = f (ks_ps s) in (r, set_ks_ps p s))"

definition sync_of :: "'nv kstate \<Rightarrow> ksync" where
  "sync_of s = ksys.extend (p_sys (ks_ps s))
     (ksync.fields (p_heap (ks_ps s)) (ks_evs s) (ks_events s) (ks_semas s) (ks_mutants s) (cs_procs (ks_cmd s)))"

definition put_sync :: "ksync \<Rightarrow> 'nv kstate \<Rightarrow> 'nv kstate" where
  "put_sync k s = s\<lparr>ks_cmd := (set_cs_ps (\<lambda>p. p\<lparr>p_sys := ksys.truncate k, p_heap := kh k\<rparr>) (ks_cmd s))\<lparr>cs_procs := s_proc_table k\<rparr>,
     ks_evs := evs k, ks_events := s_events k, ks_semas := s_semas k, ks_mutants := s_mutants k\<rparr>"

definition on_sync :: "(ksync \<Rightarrow> 'r \<times> ksync) \<Rightarrow> 'nv kstate \<Rightarrow> 'r \<times> 'nv kstate" where
  "on_sync f s = (let (r, k) = f (sync_of s) in (r, put_sync k s))"

text \<open>What a console write adds to the screen text is printed by VGA::PrintUser.\<close>
definition on_io :: "(iosys \<Rightarrow> 'r \<times> iosys) \<Rightarrow> 'nv kstate \<Rightarrow> 'r \<times> 'nv kstate" where
  "on_io f s =
    (let (r, x) = f \<lparr>io_ps = ks_ps s, io_vfs = cs_vfs (ks_cmd s), g_pipes = ks_pipes s, io_screen = [], io_milestones = ks_flags s\<rparr>;
         c = (set_cs_ps (\<lambda>_. io_ps x) (ks_cmd s))\<lparr>cs_vfs := io_vfs x\<rparr>;
         c = (if io_screen x = [] then c else c\<lparr>cs_vga := PrintUser (io_screen x) (cs_vga c)\<rparr>)
     in (r, s\<lparr>ks_cmd := c, ks_pipes := g_pipes x, ks_flags := io_milestones x\<rparr>))"

definition on_cmd :: "('nv cmdsys \<Rightarrow> 'r \<times> 'nv cmdsys) \<Rightarrow> 'nv kstate \<Rightarrow> 'r \<times> 'nv kstate" where
  "on_cmd f s = (let (r, c) = f (ks_cmd s) in (r, s\<lparr>ks_cmd := c\<rparr>))"

section \<open>The handlers without a theory of their own\<close>

definition NtTestSyscall :: "'nv kstate \<Rightarrow> u64 \<times> 'nv kstate" where
  "NtTestSyscall s = (nt STATUS_SUCCESS, s\<lparr>ks_flags := insert 6 (ks_flags s)\<rparr>)"

definition NtTestPe :: "u64 \<Rightarrow> 'nv kstate \<Rightarrow> u64 \<times> 'nv kstate" where
  "NtTestPe a1 s = (nt STATUS_SUCCESS, s\<lparr>g_m7_pe_ok := ucast a1\<rparr>)"

text \<open>The flags of the boot tests that these calls set: 11 for an allocation, 12 for a successful wait on an event.\<close>
definition alloc_call :: "u64 \<Rightarrow> 'nv kstate \<Rightarrow> u64 \<times> 'nv kstate" where
  "alloc_call a1 s = (let (r, s) = on_ps (NtAllocVM a1) s in (r, if r \<noteq> 0 then s\<lparr>ks_flags := insert 11 (ks_flags s)\<rparr> else s))"

definition wait_call :: "u64 \<Rightarrow> u64 \<Rightarrow> 'nv kstate \<Rightarrow> u64 \<times> 'nv kstate" where
  "wait_call a1 a2 s =
    (let k = sync_of s; (r, s) = on_sync (NtWaitForSingleObject a1 a2) s
     in (r, if a1 < SEMA_HANDLE_BASE \<and> event_of a1 k \<noteq> None \<and> NT_SUCCESS (ucast r) then s\<lparr>ks_flags := insert 12 (ks_flags s)\<rparr> else s))"

definition raise_call :: "u64 \<Rightarrow> 'nv kstate \<Rightarrow> u64 \<times> 'nv kstate" where
  "raise_call a1 s =
    (case NtRaiseException a1 (ks_ps s) of (r, None) \<Rightarrow> (r, s) | (r, Some va) \<Rightarrow> (r, s\<lparr>g_pending_exception_va := va\<rparr>))"

section \<open>The dispatch\<close>

text \<open>The firmware variables, kernel32 and ntdll are what the handlers need of them; env is what other threads do while
  NT\_WAIT\_MULTI sleeps.  None: the handler does not return.\<close>
definition KiSystemCall :: "'nv set_var \<Rightarrow> kernel_dll \<Rightarrow> kernel_dll \<Rightarrow> (nat \<Rightarrow> (nat \<Rightarrow> bool) \<times> u64) \<Rightarrow>
    u64 \<Rightarrow> u64 \<Rightarrow> u64 \<Rightarrow> u64 \<Rightarrow> u64 \<Rightarrow> 'nv kstate \<Rightarrow> (u64 \<times> 'nv kstate) option" where
  "KiSystemCall set_var k32 ntdll env number a1 a2 a3 a4 s =
    (if number = NT_TEST_SYSCALL then Some (NtTestSyscall s)
     else if number = NT_TEST_PE then Some (NtTestPe a1 s)
     else if number = NT_READ_LINE then
       map_option (\<lambda>(r, ks, c). (r, s\<lparr>ks_cmd := c, ks_keys := ks\<rparr>)) (NtReadLine set_var k32 a1 a2 (ks_keys s) (ks_cmd s))
     else if number = NT_WRITE_FILE then Some (on_io (NtWriteFile a1 a2 a3) s)
     else if number = NT_WRITE_CONSOLE then Some (nt STATUS_SUCCESS, s)
     else if number = NT_CREATE_EVENT then Some (on_sync (NtCreateEvent a1 a2) s)
     else if number = NT_SET_EVENT then Some (on_sync (NtSetEvent a1) s)
     else if number = NT_WAIT_SINGLE then Some (wait_call a1 a2 s)
     else if number = NT_RESET_EVENT then Some (on_sync (NtResetEvent a1) s)
     else if number = NT_CREATE_THREAD then Some (on_ps (NtCreateThread a1 a2) s)
     else if number = NT_QUERY_SYSINFO then Some (on_ps (NtQuerySysInfo a1 a2 a3) s)
     else if number = NT_QUERY_PROCESS_INFO then Some (on_ps (NtQueryProcessInfo a1 a2 a3) s)
     else if number = NT_QUERY_THREAD_INFO then Some (on_ps (NtQueryThreadInfo a1 a2 a3) s)
     else if number = NT_QUERY_SYSTEM_TIME then Some (on_ps (NtQuerySystemTime a1) s)
     else if number = NT_QUERY_PERF_COUNTER then Some (on_ps (NtQueryPerfCounter a1 a2) s)
     else if number = NT_PROTECT_VM then Some (on_ps (NtProtectVM a1 a2 a3) s)
     else if number = NT_QUERY_VM then Some (on_ps (NtQueryVM a1 a2) s)
     else if number = NT_GET_MODULE_BASE then map_option (\<lambda>r. (r, s)) (NtGetModuleBase a1 a2 (cs_ldr (ks_cmd s)))
     else if number = NT_LOAD_LIBRARY then
       map_option (\<lambda>(r, l). (r, s\<lparr>ks_cmd := (ks_cmd s)\<lparr>cs_ldr := l\<rparr>\<rparr>)) (NtLoadLibrary a1 a2 (cs_ldr (ks_cmd s)))
     else if number = NT_DELAY_EXECUTION then Some (on_ps (NtDelayExecution a1) s)
     else if number = NT_ALLOC_VM then Some (alloc_call a1 s)
     else if number = NT_FREE_VM then Some (on_ps NtFreeVM s)
     else if number = NT_TERMINATE_THREAD then map_option (\<lambda>(r, p). (r, set_ks_ps p s)) (NtTerminateThread (ks_ps s))
     else if number = NT_CREATE_FILE then Some (on_io (NtCreateFile a1 a2) s)
     else if number = NT_READ_FILE then Some (on_io (NtReadFile a1 a2 a3 a4) s)
     else if number = NT_CLOSE_HANDLE then Some (on_io (NtCloseHandle a1) s)
     else if number = NT_QUERY_DIR then Some (on_io (NtQueryDir a1 a2) s)
     else if number = NT_SET_THREAD_INFO then Some (on_ps (NtSetThreadInfo a2 a3) s)
     else if number = NT_CREATE_SECTION then
       (let (r, secs, v) = NtCreateSection a1 (ks_secs s) (p_vmm (ks_ps s)) in Some (r, (set_ks_ps ((ks_ps s)\<lparr>p_vmm := v\<rparr>) s)\<lparr>ks_secs := secs\<rparr>))
     else if number = NT_CREATE_FILE_SECTION then
       (let (r, secs, c) = NtCreateFileSection a1 a2 (ks_secs s) (ks_cmd s) in Some (r, s\<lparr>ks_cmd := c, ks_secs := secs\<rparr>))
     else if number = NT_MAP_VIEW then Some (on_ps (NtMapView a1 (ks_secs s)) s)
     else if number = NT_UNMAP_VIEW then Some (on_ps (NtUnmapView a1 (ks_secs s)) s)
     else if number = NT_SET_EX_HANDLER then Some (on_ps (NtSetExHandler a1) s)
     else if number = NT_CREATE_SEMAPHORE then Some (on_sync (NtCreateSemaphore a1 a2) s)
     else if number = NT_RELEASE_SEMAPHORE then Some (on_sync (NtReleaseSemaphore a1 a2) s)
     else if number = NT_CREATE_MUTANT then Some (on_sync (NtCreateMutant a1) s)
     else if number = NT_RELEASE_MUTANT then Some (on_sync (NtReleaseMutant a1) s)
     else if number = NT_CREATE_PROCESS then map_option (\<lambda>(r, c). (r, s\<lparr>ks_cmd := c\<rparr>)) (NtCreateProcess ntdll a1 a2 (ks_cmd s))
     else if number = NT_WAIT_MULTI then map_option (\<lambda>r. (r, s)) (NtWaitMulti env a1 a2 a3 a4 (ks_ps s))
     else if number = NT_CREATE_NAMED_PIPE then Some (on_io (NtCreateNamedPipe a1 a2) s)
     else if number = NT_VGA_CLEAR then Some (on_cmd NtVgaClear s)
     else if number = NT_OPEN_EVENT then
       Some (NtOpenEvent (\<lambda>a. case current_thread (ks_ps s) of None \<Rightarrow> 0
         | Some (t, p) \<Rightarrow> ReadUserByte (Cr3 (the_proc (ks_ps s) p)) a (p_vmm (ks_ps s))) a1 a2 (sync_of s), s)
     else if number = NT_RAISE_EXCEPTION then Some (raise_call a1 s)
     else Some (nt STATUS_INVALID_SYSTEM_SERVICE, s))"

text \<open>Where the caller continues: at the pending exception handler, which is then forgotten, or after its SYSCALL.\<close>
definition syscall_exit :: "u64 \<Rightarrow> 'nv kstate \<Rightarrow> u64 \<times> 'nv kstate" where
  "syscall_exit user_rip s =
    (if g_pending_exception_va s = 0 then (user_rip, s) else (g_pending_exception_va s, s\<lparr>g_pending_exception_va := 0\<rparr>))"

section \<open>Properties\<close>

text \<open>An unknown call.  A number above 42 is answered with STATUS\_INVALID\_SYSTEM\_SERVICE and changes nothing.\<close>
theorem unknown_system_call:
  assumes "42 < number"
  shows "KiSystemCall set_var k32 ntdll env number a1 a2 a3 a4 s = Some (nt STATUS_INVALID_SYSTEM_SERVICE, s)"
  using assms by (auto simp: KiSystemCall_def nt_numbers)

definition kstate_demo :: "unit kstate" where
  "kstate_demo = \<lparr>ks_cmd = cmd_demo, ks_evs = (\<lambda>_. \<lparr>signaled = False, auto_reset = False, waiters = None, ev_name = []\<rparr>),
     ks_events = replicate EVENT_TABLE_SIZE None, ks_semas = [], ks_mutants = [], ks_secs = [], ks_pipes = [], ks_flags = {}, g_m7_pe_ok = 0,
     g_pending_exception_va = 0, ks_keys = []\<rparr>"

lemma unknown_system_call_witness:
  "KiSystemCall None (None, 0, 0) (None, 0, 0) (\<lambda>_. (\<lambda>_. False, 0)) 43 1 2 3 4 kstate_demo = Some (nt STATUS_INVALID_SYSTEM_SERVICE, kstate_demo)"
  by (rule unknown_system_call) simp

lemma KiSystemCall_cases:
  "KiSystemCall set_var k32 ntdll env NT_SET_EX_HANDLER a1 a2 a3 a4 s = Some (on_ps (NtSetExHandler a1) s)"
  "KiSystemCall set_var k32 ntdll env NT_RAISE_EXCEPTION a1 a2 a3 a4 s = Some (raise_call a1 s)"
  by (simp_all add: KiSystemCall_def nt_numbers)

lemma raise_after_set:
  assumes "CurrentThread (p_sys (ks_ps s)) = Some t" "h \<noteq> 0"
  defines "s1 \<equiv> snd (on_ps (NtSetExHandler h) s)"
  shows "on_ps (NtSetExHandler h) s = (nt STATUS_SUCCESS, s1)" "raise_call code s1 = (code, s1\<lparr>g_pending_exception_va := h\<rparr>)"
proof -
  have s1: "s1 = set_ks_ps (set_thr t (\<lambda>k. k\<lparr>ExceptionHandler := h\<rparr>) (ks_ps s)) s"
    using assms(1) by (simp add: s1_def on_ps_def NtSetExHandler_def)
  show "on_ps (NtSetExHandler h) s = (nt STATUS_SUCCESS, s1)" using assms(1) by (simp add: s1_def on_ps_def NtSetExHandler_def)
  have "CurrentThread (p_sys (ks_ps s1)) = Some t" "ExceptionHandler (the_thr (ks_ps s1) t) = h"
    using assms(1) by (simp_all add: s1 CurrentThread_def set_thr_def)
  then show "raise_call code s1 = (code, s1\<lparr>g_pending_exception_va := h\<rparr>)" using assms(2) by (simp add: raise_call_def NtRaiseException_def)
qed

lemma handler_pending:
  "on_ps f s = (r, s') \<Longrightarrow> g_pending_exception_va s' = g_pending_exception_va s"
  "on_sync g s = (r, s') \<Longrightarrow> g_pending_exception_va s' = g_pending_exception_va s"
  "on_io i s = (r, s') \<Longrightarrow> g_pending_exception_va s' = g_pending_exception_va s"
  "on_cmd c s = (r, s') \<Longrightarrow> g_pending_exception_va s' = g_pending_exception_va s"
  "alloc_call a1 s = (x, s') \<Longrightarrow> g_pending_exception_va s' = g_pending_exception_va s"
  "wait_call a1 a2 s = (x, s') \<Longrightarrow> g_pending_exception_va s' = g_pending_exception_va s"
  by (auto simp: on_ps_def on_sync_def put_sync_def on_io_def on_cmd_def alloc_call_def wait_call_def Let_def
      split: prod.splits if_splits)

text \<open>Only NT\_RAISE\_EXCEPTION leaves a pending handler behind.\<close>
lemma KiSystemCall_pending:
  assumes "KiSystemCall set_var k32 ntdll env number a1 a2 a3 a4 s = Some (r, s')" "number \<noteq> NT_RAISE_EXCEPTION"
  shows "g_pending_exception_va s' = g_pending_exception_va s"
  using assms unfolding KiSystemCall_def NtTestSyscall_def NtTestPe_def Let_def
  by (simp split: if_splits option.splits prod.splits) (auto dest: handler_pending)


text \<open>A whole system call as its caller sees it: the value in RAX and the address where user code continues.  The arguments are the
  address after the SYSCALL, the number and the four registers.\<close>
type_synonym sys_args = "u64 \<times> u64 \<times> u64 \<times> u64 \<times> u64 \<times> u64"

definition system_call :: "'nv set_var \<Rightarrow> kernel_dll \<Rightarrow> kernel_dll \<Rightarrow> (nat \<Rightarrow> (nat \<Rightarrow> bool) \<times> u64) \<Rightarrow>
    sys_args \<Rightarrow> 'nv kstate \<Rightarrow> ((u64 \<times> u64) \<times> 'nv kstate) option" where
  "system_call set_var k32 ntdll env args s =
    (case args of (user_rip, number, a1, a2, a3, a4) \<Rightarrow>
     case KiSystemCall set_var k32 ntdll env number a1 a2 a3 a4 s of None \<Rightarrow> None
     | Some (r, s) \<Rightarrow> let (rip, s) = syscall_exit user_rip s in Some ((r, rip), s))"

text \<open>One call after the other, each from its own place; the places where they continue.\<close>
fun system_calls :: "'nv set_var \<Rightarrow> kernel_dll \<Rightarrow> kernel_dll \<Rightarrow> (nat \<Rightarrow> (nat \<Rightarrow> bool) \<times> u64) \<Rightarrow>
    sys_args list \<Rightarrow> 'nv kstate \<Rightarrow> (u64 list \<times> 'nv kstate) option" where
  "system_calls set_var k32 ntdll env [] s = Some ([], s)"
| "system_calls set_var k32 ntdll env (c # cs) s =
    (case system_call set_var k32 ntdll env c s of None \<Rightarrow> None
     | Some ((r, rip), s) \<Rightarrow> map_option (\<lambda>(rips, s). (rip # rips, s)) (system_calls set_var k32 ntdll env cs s))"

lemma system_call_returns:
  assumes "system_call set_var k32 ntdll env (user_rip, number, a1, a2, a3, a4) s = Some ((r, rip), s')"
    and "number \<noteq> NT_RAISE_EXCEPTION" "g_pending_exception_va s = 0"
  shows "rip = user_rip \<and> g_pending_exception_va s' = 0"
proof -
  obtain s1 where K: "KiSystemCall set_var k32 ntdll env number a1 a2 a3 a4 s = Some (r, s1)"
    and X: "syscall_exit user_rip s1 = (rip, s')"
    using assms(1) by (auto simp: system_call_def split: option.splits prod.splits)
  have "g_pending_exception_va s1 = 0" using KiSystemCall_pending [OF K assms(2)] assms(3) by simp
  then show ?thesis using X by (simp add: syscall_exit_def)
qed

lemma system_calls_return:
  assumes "system_calls set_var k32 ntdll env cs s = Some (rips, s')"
    and "\<forall>c\<in>set cs. fst (snd c) \<noteq> NT_RAISE_EXCEPTION" "g_pending_exception_va s = 0"
  shows "rips = map fst cs"
  using assms
proof (induction cs arbitrary: s rips)
  case (Cons c cs)
  obtain user_rip number a1 a2 a3 a4 where c: "c = (user_rip, number, a1, a2, a3, a4)" by (cases c)
  obtain r rip s1 rs where S: "system_call set_var k32 ntdll env c s = Some ((r, rip), s1)"
    and R: "system_calls set_var k32 ntdll env cs s1 = Some (rs, s')" "rips = rip # rs"
    using Cons.prems(1) by (auto split: option.splits)
  have n: "number \<noteq> NT_RAISE_EXCEPTION" using Cons.prems(2) c by simp
  note K = system_call_returns [OF S [unfolded c] n Cons.prems(3)]
  have "rs = map fst cs" by (rule Cons.IH [OF R(1)]) (use Cons.prems(2) K in auto)
  then show ?case using R(2) K c by simp
qed simp

text \<open>C12 (functional): a raised exception.  When no exception is pending, NT\_SET\_EX\_HANDLER returns to its caller, and
  NT\_RAISE\_EXCEPTION continues at the handler with the code in RAX and not after its SYSCALL, once: every system call in any later
  sequence of calls without another NT\_RAISE\_EXCEPTION returns to its own caller.\<close>
theorem raised_exception_delivered:
  assumes "CurrentThread (p_sys (ks_ps s)) = Some t" "h \<noteq> 0" "g_pending_exception_va s = 0"
  shows "\<exists>s1 s2. system_call set_var k32 ntdll env (rip1, NT_SET_EX_HANDLER, h, a2, a3, a4) s = Some ((nt STATUS_SUCCESS, rip1), s1)
    \<and> system_call set_var k32 ntdll env (rip2, NT_RAISE_EXCEPTION, code, b2, b3, b4) s1 = Some ((code, h), s2)
    \<and> (\<forall>cs rips s3. (\<forall>c\<in>set cs. fst (snd c) \<noteq> NT_RAISE_EXCEPTION) \<longrightarrow> system_calls set_var k32 ntdll env cs s2 = Some (rips, s3) \<longrightarrow>
        rips = map fst cs)"
proof -
  obtain r s1 where e: "on_ps (NtSetExHandler h) s = (r, s1)" by fastforce
  have r: "r = nt STATUS_SUCCESS" "raise_call code s1 = (code, s1\<lparr>g_pending_exception_va := h\<rparr>)"
    using raise_after_set [OF assms(1,2)] by (simp_all add: e)
  have p: "g_pending_exception_va s1 = 0" using handler_pending(1) [OF e] assms(3) by simp
  have "system_call set_var k32 ntdll env (rip1, NT_SET_EX_HANDLER, h, a2, a3, a4) s = Some ((nt STATUS_SUCCESS, rip1), s1)"
    by (simp add: system_call_def KiSystemCall_cases e r syscall_exit_def p)
  moreover have "system_call set_var k32 ntdll env (rip2, NT_RAISE_EXCEPTION, code, b2, b3, b4) s1
      = Some ((code, h), s1\<lparr>g_pending_exception_va := 0\<rparr>)"
    using assms(2) by (simp add: system_call_def KiSystemCall_cases r syscall_exit_def)
  ultimately show ?thesis using system_calls_return [of set_var k32 ntdll env _ "s1\<lparr>g_pending_exception_va := 0\<rparr>"] by fastforce
qed

lemma raised_exception_delivered_witness:
  "\<exists>s1 s2. system_call None (None, 0, 0) (None, 0, 0) (\<lambda>_. (\<lambda>_. False, 0)) (0x401002, NT_SET_EX_HANDLER, 0x402000, 0, 0, 0) kstate_demo
      = Some ((nt STATUS_SUCCESS, 0x401002), s1)
    \<and> system_call None (None, 0, 0) (None, 0, 0) (\<lambda>_. (\<lambda>_. False, 0)) (0x401010, NT_RAISE_EXCEPTION, 0xE0000001, 0, 0, 0) s1
      = Some ((0xE0000001, 0x402000), s2)
    \<and> (\<exists>s3. system_calls None (None, 0, 0) (None, 0, 0) (\<lambda>_. (\<lambda>_. False, 0))
         [(0x402008, NT_TEST_SYSCALL, 0, 0, 0, 0), (0x402010, NT_TEST_PE, 1, 0, 0, 0)] s2 = Some ([0x402008, 0x402010], s3))"
proof -
  have c: "CurrentThread (p_sys (ks_ps kstate_demo)) = Some (Thr 0)"
    by (simp add: kstate_demo_def cmd_demo_def io_demo_def vm_demo_def CurrentThread_def)
  have p: "g_pending_exception_va kstate_demo = 0" by (simp add: kstate_demo_def)
  let ?cs = "[(0x402008, NT_TEST_SYSCALL, 0, 0, 0, 0), (0x402010, NT_TEST_PE, 1, 0, 0, 0)] :: sys_args list"
  have "KiSystemCall set_var k32 ntdll env NT_TEST_SYSCALL a1 a2 a3 a4 s = Some (NtTestSyscall s)"
    "KiSystemCall set_var k32 ntdll env NT_TEST_PE a1 a2 a3 a4 s = Some (NtTestPe a1 s)" for set_var k32 ntdll env a1 a2 a3 a4 and s :: "unit kstate"
    by (simp_all add: KiSystemCall_def nt_numbers)
  then have "\<exists>rips s3. system_calls None (None, 0, 0) (None, 0, 0) (\<lambda>_. (\<lambda>_. False, 0)) ?cs s2 = Some (rips, s3)" for s2 :: "unit kstate"
    by (simp add: system_call_def NtTestSyscall_def NtTestPe_def case_prod_unfold Let_def)
  moreover have "\<forall>c\<in>set ?cs. fst (snd c) \<noteq> NT_RAISE_EXCEPTION" by (simp add: nt_numbers)
  ultimately show ?thesis
    using raised_exception_delivered [OF c, of "0x402000" None "(None, 0, 0)" "(None, 0, 0)" "\<lambda>_. (\<lambda>_. False, 0)" "0x401002" 0 0 0
        "0x401010" "0xE0000001" 0 0 0] p by fastforce
qed

text \<open>The pending address belongs to no thread: after a switch in between, the next thread that leaves a system call goes to the handler of
  the thread that raised.\<close>
lemma exception_misdelivered:
  assumes "CurrentThread (p_sys (ks_ps s)) = Some t" "h \<noteq> 0"
    "KiSystemCall set_var k32 ntdll env NT_RAISE_EXCEPTION code a2 a3 a4 (snd (on_ps (NtSetExHandler h) s)) = Some (r, s2)"
  shows "fst (syscall_exit rip (snd (on_ps (\<lambda>p. ((), p\<lparr>p_sys := Schedule (p_sys p)\<rparr>)) s2))) = h"
  using raise_after_set [OF assms(1,2)] assms(2,3) by (auto simp: KiSystemCall_cases syscall_exit_def on_ps_def Let_def)

end
