(* ===== verification/HandleTable.thy ===== *)
theory HandleTable
  imports NtPrelude
begin

text \<open>The handle table of the object manager (struct HandleTable of kernel/include/object.h and
  its methods in kernel/ob/object_manager.cpp): 256 entries, a handle is eight times the index
  plus one.  The map from handles to objects it implements is the locale handle_map.\<close>

section \<open>The code\<close>

definition OB_HANDLE_TABLE_SIZE :: nat where "OB_HANDLE_TABLE_SIZE = 256"
definition INVALID_HANDLE :: u64 where "INVALID_HANDLE = - 1"

text \<open>An entry whose object is the null pointer is free.\<close>
record HandleEntry =
  he_object :: u64
  GrantedAccess :: u32

definition index_to_handle :: "nat \<Rightarrow> u64" where
  "index_to_handle i = (of_nat i + 1) * 8"

definition handle_to_index :: "u64 \<Rightarrow> nat" where
  "handle_to_index h = unat (h div 8 - 1)"

definition handle_valid :: "u64 \<Rightarrow> bool" where
  "handle_valid h =
    (if h = 0 \<or> h = INVALID_HANDLE then False
     else if h mod 8 \<noteq> 0 then False
     else (let idx = unat (h div 8) in idx \<ge> 1 \<and> idx \<le> OB_HANDLE_TABLE_SIZE))"

fun HandleTable_Alloc_loop :: "nat \<Rightarrow> u64 \<Rightarrow> u32 \<Rightarrow> HandleEntry list \<Rightarrow> u64 \<times> HandleEntry list" where
  "HandleTable_Alloc_loop i obj acc [] = (INVALID_HANDLE, [])"
| "HandleTable_Alloc_loop i obj acc (e # es) =
    (if he_object e = 0 then (index_to_handle i, e\<lparr>he_object := obj, GrantedAccess := acc\<rparr> # es)
     else (let (h, es) = HandleTable_Alloc_loop (i + 1) obj acc es in (h, e # es)))"

definition HandleTable_Alloc :: "u64 \<Rightarrow> u32 \<Rightarrow> HandleEntry list \<Rightarrow> u64 \<times> HandleEntry list" where
  "HandleTable_Alloc obj acc es = HandleTable_Alloc_loop 0 obj acc es"

definition HandleTable_Free :: "u64 \<Rightarrow> HandleEntry list \<Rightarrow> NTSTATUS \<times> HandleEntry list" where
  "HandleTable_Free h es =
    (if \<not> handle_valid h then (STATUS_INVALID_HANDLE, es) else
     let idx = handle_to_index h in
     if he_object (es ! idx) = 0 then (STATUS_INVALID_HANDLE, es)
     else (STATUS_SUCCESS, es[idx := (es ! idx)\<lparr>he_object := 0, GrantedAccess := 0\<rparr>]))"

definition HandleTable_Lookup :: "u64 \<Rightarrow> HandleEntry list \<Rightarrow> HandleEntry option" where
  "HandleTable_Lookup h es =
    (if \<not> handle_valid h then None else
     let idx = handle_to_index h in
     if he_object (es ! idx) = 0 then None else Some (es ! idx))"

definition HandleTable_Init :: "HandleEntry list" where
  "HandleTable_Init = replicate OB_HANDLE_TABLE_SIZE \<lparr>he_object = 0, GrantedAccess = 0\<rparr>"

section \<open>The interface\<close>

text \<open>A table of open handles: what the object manager relies on.\<close>
locale handle_map =
  fixes alloc :: "'o \<Rightarrow> 'a \<Rightarrow> 't \<Rightarrow> 'h \<times> 't"
    and free :: "'h \<Rightarrow> 't \<Rightarrow> 'r \<times> 't"
    and lookup :: "'h \<Rightarrow> 't \<Rightarrow> ('o \<times> 'a) option"
    and bad :: 'h and ok :: 'r
    and inv :: "'t \<Rightarrow> bool" and is_obj :: "'o \<Rightarrow> bool"
  assumes alloc_inv: "inv t \<Longrightarrow> alloc x a t = (h, t') \<Longrightarrow> inv t'"
    and free_inv: "inv t \<Longrightarrow> free h t = (r, t') \<Longrightarrow> inv t'"
    and alloc_bad: "inv t \<Longrightarrow> alloc x a t = (bad, t') \<Longrightarrow> t' = t"
    and alloc_fresh: "inv t \<Longrightarrow> alloc x a t = (h, t') \<Longrightarrow> h \<noteq> bad \<Longrightarrow> lookup h t = None"
    and alloc_lookup: "inv t \<Longrightarrow> is_obj x \<Longrightarrow> alloc x a t = (h, t') \<Longrightarrow> h \<noteq> bad \<Longrightarrow>
      lookup k t' = (if k = h then Some (x, a) else lookup k t)"
    and free_ok: "inv t \<Longrightarrow> lookup h t \<noteq> None \<Longrightarrow> \<exists>t'. free h t = (ok, t')"
    and free_bad: "inv t \<Longrightarrow> lookup h t = None \<Longrightarrow> snd (free h t) = t \<and> fst (free h t) \<noteq> ok"
    and free_lookup: "inv t \<Longrightarrow> free h t = (ok, t') \<Longrightarrow> lookup k t' = (if k = h then None else lookup k t)"
begin

text \<open>Opening and closing a handle leaves every other handle as it was.\<close>
lemma alloc_free:
  assumes "inv t" "is_obj x" "alloc x a t = (h, t1)" "h \<noteq> bad" "free h t1 = (r, t2)"
  shows "r = ok" "lookup k t2 = lookup k t"
proof -
  have i: "inv t1" using alloc_inv assms(1,3) .
  have "lookup h t1 \<noteq> None" using alloc_lookup [OF assms(1-4), of h] by simp
  then show r: "r = ok" using free_ok [OF i] assms(5) by fastforce
  show "lookup k t2 = lookup k t"
    using free_lookup [OF i, of h t2 k] alloc_lookup [OF assms(1-4), of k] alloc_fresh [OF assms(1,3,4)] assms(5) r
    by auto
qed

text \<open>The handles of one object, and how the operations change them.\<close>
definition handles_of :: "'t \<Rightarrow> 'o \<Rightarrow> 'h set" where
  "handles_of t x = {h. \<exists>a. lookup h t = Some (x, a)}"

lemma handles_of_alloc:
  assumes "inv t" "is_obj x" "alloc x a t = (h, t')" "h \<noteq> bad"
  shows "handles_of t' y = (if y = x then insert h (handles_of t x) else handles_of t y)" "h \<notin> handles_of t y"
  using alloc_lookup [OF assms] alloc_fresh [OF assms(1,3,4)] by (auto simp: handles_of_def)

lemma handles_of_free:
  assumes "inv t" "free h t = (ok, t')"
  shows "handles_of t' y = handles_of t y - {h}"
  using free_lookup [OF assms] by (auto simp: handles_of_def)

end

section \<open>The table implements the interface\<close>

definition table_ok :: "HandleEntry list \<Rightarrow> bool" where
  "table_ok es \<longleftrightarrow> length es = OB_HANDLE_TABLE_SIZE"

definition handle_entry :: "u64 \<Rightarrow> HandleEntry list \<Rightarrow> (u64 \<times> u32) option" where
  "handle_entry h es = map_option (\<lambda>e. (he_object e, GrantedAccess e)) (HandleTable_Lookup h es)"

lemma unat_index_to_handle: "i < 256 \<Longrightarrow> unat (index_to_handle i) = (i + 1) * 8"
proof -
  assume i: "i < 256"
  have "index_to_handle i = of_nat ((i + 1) * 8)" by (simp add: index_to_handle_def)
  then show ?thesis using i by (simp only: unat_of_nat) simp
qed

lemma handle_valid_iff: "handle_valid h \<longleftrightarrow> (\<exists>i<256. h = index_to_handle i)"
proof
  assume v: "handle_valid h"
  then have "unat (h mod 8) = 0" by (auto simp: handle_valid_def split: if_splits)
  then have m: "unat h mod 8 = 0" by (simp add: unat_mod)
  have "1 \<le> unat h div 8" "unat h div 8 \<le> 256"
    using v by (auto simp: handle_valid_def OB_HANDLE_TABLE_SIZE_def Let_def unat_div split: if_splits)
  note m = m this
  let ?i = "unat h div 8 - 1"
  have "?i < 256" using m by simp
  moreover have "unat h = (?i + 1) * 8" using m div_mult_mod_eq [of "unat h" 8] by simp
  ultimately have "h = index_to_handle ?i" by (metis unat_index_to_handle unsigned_word_eqI)
  then show "\<exists>i<256. h = index_to_handle i" using \<open>?i < 256\<close> by blast
next
  assume "\<exists>i<256. h = index_to_handle i"
  then obtain i where i: "i < 256" "h = index_to_handle i" by blast
  have u: "unat h = (i + 1) * 8" using unat_index_to_handle i by simp
  have n: "h \<noteq> 0" "h \<noteq> INVALID_HANDLE"
  proof -
    show "h \<noteq> 0" using u by auto
    show "h \<noteq> INVALID_HANDLE"
    proof
      assume "h = INVALID_HANDLE"
      then have "unat h = mask 64" unfolding INVALID_HANDLE_def by (simp only: unsigned_minus_1_eq_mask len_num0 len_num1 len_bit0 len_bit1) simp
      then have "unat h = 2 ^ 64 - 1" by (simp add: mask_eq_exp_minus_1)
      then show False using u i by simp
    qed
  qed
  moreover have "h mod 8 = 0" using u by (simp add: unat_mod_distrib unat_eq_zero flip: unat_eq_zero)
  ultimately show "handle_valid h" using u i by (simp add: handle_valid_def OB_HANDLE_TABLE_SIZE_def Let_def unat_div)
qed

lemma handle_to_index: "i < 256 \<Longrightarrow> handle_to_index (index_to_handle i) = i"
proof -
  assume i: "i < 256"
  have d: "unat (index_to_handle i div 8) = i + 1" using unat_index_to_handle [OF i] by (simp add: unat_div)
  then have "1 \<le> index_to_handle i div 8" by (simp add: word_le_nat_alt)
  then show ?thesis using d by (simp add: handle_to_index_def unat_sub)
qed

lemma index_to_handle_inj: "i < 256 \<Longrightarrow> j < 256 \<Longrightarrow> index_to_handle i = index_to_handle j \<longleftrightarrow> i = j"
  using handle_to_index by metis

lemma handle_entry_index:
  "i < 256 \<Longrightarrow> handle_entry (index_to_handle i) es =
     (if he_object (es ! i) = 0 then None else Some (he_object (es ! i), GrantedAccess (es ! i)))"
  using handle_valid_iff by (auto simp: handle_entry_def HandleTable_Lookup_def handle_to_index Let_def)

lemma handle_entry_invalid: "\<not> handle_valid h \<Longrightarrow> handle_entry h es = None"
  by (simp add: handle_entry_def HandleTable_Lookup_def)

text \<open>The first free entry is taken.\<close>
lemma Alloc_loop_spec:
  assumes "HandleTable_Alloc_loop i obj acc es = (h, es')"
  shows "(h = INVALID_HANDLE \<and> es' = es \<and> (\<forall>e\<in>set es. he_object e \<noteq> 0))
    \<or> (\<exists>k<length es. h = index_to_handle (i + k) \<and> he_object (es ! k) = 0
         \<and> es' = es[k := (es ! k)\<lparr>he_object := obj, GrantedAccess := acc\<rparr>] \<and> (\<forall>j<k. he_object (es ! j) \<noteq> 0))"
  using assms
proof (induction i obj acc es arbitrary: h es' rule: HandleTable_Alloc_loop.induct)
  case (2 i obj acc e es)
  show ?case
  proof (cases "he_object e = 0")
    case True
    then show ?thesis using 2(2) by (intro disjI2 exI [of _ 0]) auto
  next
    case False
    obtain h1 es1 where L: "HandleTable_Alloc_loop (i + 1) obj acc es = (h1, es1)" by fastforce
    have r: "h = h1" "es' = e # es1" using 2(2) False L by auto
    from 2(1) [OF False L] show ?thesis
    proof
      assume "h1 = INVALID_HANDLE \<and> es1 = es \<and> (\<forall>e\<in>set es. he_object e \<noteq> 0)"
      then show ?thesis using r False by simp
    next
      assume "\<exists>k<length es. h1 = index_to_handle (i + 1 + k) \<and> he_object (es ! k) = 0
         \<and> es1 = es[k := (es ! k)\<lparr>he_object := obj, GrantedAccess := acc\<rparr>] \<and> (\<forall>j<k. he_object (es ! j) \<noteq> 0)"
      then obtain k where k: "k < length es" "h1 = index_to_handle (i + 1 + k)" "he_object (es ! k) = 0"
         "es1 = es[k := (es ! k)\<lparr>he_object := obj, GrantedAccess := acc\<rparr>]" "\<forall>j<k. he_object (es ! j) \<noteq> 0" by blast
      show ?thesis using r False k by (intro disjI2 exI [of _ "Suc k"]) (auto simp: nth_Cons split: nat.splits)
    qed
  qed
qed simp

lemma Alloc_cases:
  assumes "table_ok es" "HandleTable_Alloc obj acc es = (h, es')"
  shows "(h = INVALID_HANDLE \<and> es' = es) \<or> (\<exists>k<256. h = index_to_handle k \<and> he_object (es ! k) = 0
    \<and> es' = es[k := (es ! k)\<lparr>he_object := obj, GrantedAccess := acc\<rparr>])"
  using Alloc_loop_spec [of 0 obj acc es h es'] assms
  by (auto simp: HandleTable_Alloc_def table_ok_def OB_HANDLE_TABLE_SIZE_def)

lemma not_invalid: "k < 256 \<Longrightarrow> index_to_handle k \<noteq> INVALID_HANDLE"
  using handle_valid_iff [of INVALID_HANDLE] by (auto simp: handle_valid_def)

lemma Free_cases:
  assumes "table_ok es"
  shows "handle_entry h es = None \<Longrightarrow> HandleTable_Free h es = (STATUS_INVALID_HANDLE, es)"
    "handle_entry h es \<noteq> None \<Longrightarrow> \<exists>k<256. h = index_to_handle k \<and>
       HandleTable_Free h es = (STATUS_SUCCESS, es[k := (es ! k)\<lparr>he_object := 0, GrantedAccess := 0\<rparr>])"
  by (auto simp: handle_entry_def HandleTable_Lookup_def HandleTable_Free_def Let_def handle_valid_iff handle_to_index
      split: if_splits)

lemma handle_entry_update:
  assumes "table_ok es" "k < 256"
  shows "handle_entry h (es[k := e]) =
    (if h = index_to_handle k then (if he_object e = 0 then None else Some (he_object e, GrantedAccess e))
     else handle_entry h es)"
proof (cases "handle_valid h")
  case True
  then obtain i where "i < 256" "h = index_to_handle i" using handle_valid_iff by blast
  then show ?thesis using assms
    by (auto simp: handle_entry_index index_to_handle_inj table_ok_def OB_HANDLE_TABLE_SIZE_def nth_list_update)
next
  case False
  then have "h \<noteq> index_to_handle k" using handle_valid_iff assms(2) by blast
  then show ?thesis using False by (simp add: handle_entry_invalid)
qed

interpretation ht: handle_map HandleTable_Alloc HandleTable_Free handle_entry INVALID_HANDLE STATUS_SUCCESS table_ok "\<lambda>x. x \<noteq> 0"
proof unfold_locales
  fix t t' :: "HandleEntry list" and x a h k r
  assume t: "table_ok t"
  show "t' = t" if "HandleTable_Alloc x a t = (INVALID_HANDLE, t')"
    using Alloc_cases [OF t that] not_invalid by metis
  show "table_ok t'" if "HandleTable_Alloc x a t = (h, t')"
    using Alloc_cases [OF t that] t by (auto simp: table_ok_def)
  show "handle_entry h t = None" if "HandleTable_Alloc x a t = (h, t')" "h \<noteq> INVALID_HANDLE"
    using Alloc_cases [OF t that(1)] that(2) by (auto simp: handle_entry_index)
  show "handle_entry k t' = (if k = h then Some (x, a) else handle_entry k t)"
    if "x \<noteq> 0" "HandleTable_Alloc x a t = (h, t')" "h \<noteq> INVALID_HANDLE"
    using Alloc_cases [OF t that(2)] that(1,3) by (auto simp: handle_entry_update [OF t])
  show "table_ok t'" if "HandleTable_Free h t = (r, t')"
    using Free_cases [OF t, of h] that t by (cases "handle_entry h t") (auto simp: table_ok_def)
  show "\<exists>t'. HandleTable_Free h t = (STATUS_SUCCESS, t')" if "handle_entry h t \<noteq> None"
    using Free_cases(2) [OF t that] by blast
  show "snd (HandleTable_Free h t) = t \<and> fst (HandleTable_Free h t) \<noteq> STATUS_SUCCESS" if "handle_entry h t = None"
    using Free_cases(1) [OF t that] by (simp add: STATUS_INVALID_HANDLE_def STATUS_SUCCESS_def)
  show "handle_entry k t' = (if k = h then None else handle_entry k t)" if "HandleTable_Free h t = (STATUS_SUCCESS, t')"
  proof -
    have "handle_entry h t \<noteq> None"
      using Free_cases(1) [OF t, of h] that by (auto simp: STATUS_INVALID_HANDLE_def STATUS_SUCCESS_def simp del: not_None_eq)
    then show ?thesis using Free_cases(2) [OF t] that by (fastforce simp: handle_entry_update [OF t])
  qed
qed

lemma HandleTable_Init_ok: "table_ok HandleTable_Init" "handle_entry h HandleTable_Init = None"
  by (auto simp: table_ok_def HandleTable_Init_def handle_entry_def HandleTable_Lookup_def handle_valid_iff
      handle_to_index Let_def OB_HANDLE_TABLE_SIZE_def)

end
