(* ===== verification/ObjectManager.thy ===== *)
theory ObjectManager
  imports HandleTable KernelHeap
begin

text \<open>The object manager, kernel/ob/object_manager.cpp: the type registry, reference-counted
  objects behind a header, the kernel handle table and the namespace.  Objects are named by the
  address of their body, which lies 96 bytes (the size of ObjectHeader) above the header.  The
  type destructors are code of the clients: their calls are recorded in order.  Out-parameters
  are results (the callers pass addresses of locals); a null C string is None, a type is its
  index in the registry.  The counts are 32-bit words, read signed; their increments wrap as on the
  machine.  The spinlocks make each operation one step.\<close>

section \<open>Strings\<close>

fun str_eq :: "cstr \<Rightarrow> cstr \<Rightarrow> bool" where
  "str_eq [] [] = True"
| "str_eq (x # xs) (y # ys) = (if x = y then str_eq xs ys else False)"
| "str_eq _ _ = False"

definition str_copy :: "cstr \<Rightarrow> nat \<Rightarrow> cstr" where "str_copy src n = take (n - 1) src"

lemma str_eq_iff [simp]: "str_eq xs ys \<longleftrightarrow> xs = ys"
  by (induction xs ys rule: str_eq.induct) auto

section \<open>State (object.h)\<close>

definition OB_MAGIC :: u32 where "OB_MAGIC = 0x4E544F42"
definition MAX_TYPES :: nat where "MAX_TYPES = 32"
definition OB_NAMESPACE_SIZE :: nat where "OB_NAMESPACE_SIZE = 128"
definition HEADER_SIZE :: u64 where "HEADER_SIZE = 96"

record ObType =
  ot_name :: cstr
  BodySize :: u64
  OnClose :: u64
  ot_index :: nat

record ObjectHeader =
  Magic :: u32
  oType :: "nat option"
  RefCount :: i32
  HandleCount :: i32
  oFlags :: u32
  oName :: cstr

record NamespaceEntry =
  ns_path :: cstr
  ns_object :: u64

record obmgr =
  s_types :: "ObType list"
  s_type_count :: nat
  s_ktable :: "HandleEntry list"
  s_namespace :: "NamespaceEntry list"
  hdrs :: "u64 \<Rightarrow> ObjectHeader"
  ob_heap :: kheap
  close_calls :: "(u64 \<times> u64) list"

definition GetHeader :: "u64 \<Rightarrow> u64" where
  "GetHeader object = (if object = 0 then 0 else object - HEADER_SIZE)"

text \<open>The null and magic tests every operation makes on a header.\<close>
definition is_object :: "u64 \<Rightarrow> obmgr \<Rightarrow> bool" where
  "is_object object s \<longleftrightarrow> object \<noteq> 0 \<and> Magic (hdrs s (GetHeader object)) = OB_MAGIC"

definition upd_hdr :: "u64 \<Rightarrow> (ObjectHeader \<Rightarrow> ObjectHeader) \<Rightarrow> obmgr \<Rightarrow> obmgr" where
  "upd_hdr object f s = s\<lparr>hdrs := (hdrs s)(GetHeader object := f (hdrs s (GetHeader object)))\<rparr>"

section \<open>Types\<close>

definition OB_Init :: "obmgr \<Rightarrow> obmgr" where
  "OB_Init s = s\<lparr>s_ktable := HandleTable_Init,
     s_namespace := replicate OB_NAMESPACE_SIZE \<lparr>ns_path = '''', ns_object = 0\<rparr>, s_type_count := 0\<rparr>"

fun find_type :: "ObType list \<Rightarrow> nat \<Rightarrow> cstr \<Rightarrow> nat option" where
  "find_type [] i name = None"
| "find_type (t # ts) i name = (if str_eq (ot_name t) name then Some i else find_type ts (i + 1) name)"

definition CreateType :: "cstr option \<Rightarrow> u64 \<Rightarrow> u64 \<Rightarrow> obmgr \<Rightarrow> NTSTATUS \<times> nat option \<times> obmgr" where
  "CreateType name body_size on_close s =
    (case name of None \<Rightarrow> (STATUS_INVALID_PARAMETER, None, s) | Some name \<Rightarrow>
     case find_type (take (s_type_count s) (s_types s)) 0 name of
       Some i \<Rightarrow> (STATUS_SUCCESS, Some i, s)
     | None \<Rightarrow>
       if s_type_count s \<ge> MAX_TYPES then (STATUS_INSUFFICIENT_RESOURCES, None, s)
       else (let i = s_type_count s in
         (STATUS_SUCCESS, Some i, s\<lparr>s_types := (s_types s)[i :=
            \<lparr>ot_name = str_copy name 32, BodySize = body_size, OnClose = on_close, ot_index = i + 1\<rparr>],
            s_type_count := i + 1\<rparr>)))"

definition LookupType :: "cstr option \<Rightarrow> obmgr \<Rightarrow> nat option" where
  "LookupType name s = (case name of None \<Rightarrow> None
     | Some name \<Rightarrow> find_type (take (s_type_count s) (s_types s)) 0 name)"

section \<open>The namespace\<close>

fun ns_find :: "(NamespaceEntry \<Rightarrow> bool) \<Rightarrow> NamespaceEntry list \<Rightarrow> nat \<Rightarrow> nat option" where
  "ns_find p [] i = None"
| "ns_find p (e # es) i = (if p e then Some i else ns_find p es (i + 1))"

definition InsertObjectByName :: "u64 \<Rightarrow> cstr option \<Rightarrow> obmgr \<Rightarrow> NTSTATUS \<times> obmgr" where
  "InsertObjectByName object path s =
    (case path of None \<Rightarrow> (STATUS_INVALID_PARAMETER, s) | Some path \<Rightarrow>
     if object = 0 \<or> take 1 path \<noteq> [CHR 0x5C] then (STATUS_INVALID_PARAMETER, s)
     else if length path \<ge> 128 then (STATUS_INVALID_PARAMETER, s)
     else case ns_find (\<lambda>e. ns_object e \<noteq> 0 \<and> str_eq (ns_path e) path) (s_namespace s) 0 of
       Some i \<Rightarrow> (STATUS_ALREADY_EXISTS, s)
     | None \<Rightarrow>
       case ns_find (\<lambda>e. ns_object e = 0) (s_namespace s) 0 of
         Some i \<Rightarrow> (STATUS_SUCCESS, s\<lparr>s_namespace := (s_namespace s)[i :=
            \<lparr>ns_path = str_copy path 128, ns_object = object\<rparr>]\<rparr>)
       | None \<Rightarrow> (STATUS_INSUFFICIENT_RESOURCES, s))"

definition RemoveObjectByName :: "cstr \<Rightarrow> obmgr \<Rightarrow> obmgr" where
  "RemoveObjectByName path s =
    (case ns_find (\<lambda>e. ns_object e \<noteq> 0 \<and> str_eq (ns_path e) path) (s_namespace s) 0 of
       Some i \<Rightarrow> s\<lparr>s_namespace := (s_namespace s)[i := \<lparr>ns_path = '''', ns_object = 0\<rparr>]\<rparr>
     | None \<Rightarrow> s)"

section \<open>Objects\<close>

definition AllocateObject :: "nat option \<Rightarrow> cstr option \<Rightarrow> obmgr \<Rightarrow> u64 \<times> obmgr" where
  "AllocateObject type path s =
    (case type of None \<Rightarrow> (0, s) | Some t \<Rightarrow>
     let (h, heap) = Heap_AllocZeroed (HEADER_SIZE + BodySize (s_types s ! t)) 8 (ob_heap s);
         s = s\<lparr>ob_heap := heap\<rparr> in
     if h = 0 then (0, s) else
     let s = s\<lparr>hdrs := (hdrs s)(h := \<lparr>Magic = OB_MAGIC, oType = Some t, RefCount = 1, HandleCount = 0, oFlags = 0,
               oName = (case path of None \<Rightarrow> '''' | Some p \<Rightarrow> str_copy p 64)\<rparr>)\<rparr>;
         body = h + HEADER_SIZE in
     (body, case path of None \<Rightarrow> s
        | Some p \<Rightarrow> if p \<noteq> '''' then snd (InsertObjectByName body path s) else s))"

definition AllocateObjectRaw :: "u64 \<Rightarrow> cstr option \<Rightarrow> obmgr \<Rightarrow> u64 \<times> obmgr" where
  "AllocateObjectRaw body_size name s =
    (let (h, heap) = Heap_AllocZeroed (HEADER_SIZE + body_size) 8 (ob_heap s);
         s = s\<lparr>ob_heap := heap\<rparr> in
     if h = 0 then (0, s) else
     (h + HEADER_SIZE, s\<lparr>hdrs := (hdrs s)(h := \<lparr>Magic = OB_MAGIC, oType = None, RefCount = 1, HandleCount = 0, oFlags = 0,
         oName = (case name of None \<Rightarrow> '''' | Some p \<Rightarrow> str_copy p 64)\<rparr>)\<rparr>))"

definition ReferenceObject :: "u64 \<Rightarrow> obmgr \<Rightarrow> obmgr" where
  "ReferenceObject object s =
    (if \<not> is_object object s then s else upd_hdr object (\<lambda>h. h\<lparr>RefCount := RefCount h + 1\<rparr>) s)"

text \<open>The destructor of a type is called with the body.  The call is recorded; what the destructor does
  is not: its effects, and operations on objects that it may call back, are left out.\<close>
definition call_on_close :: "u64 \<Rightarrow> obmgr \<Rightarrow> obmgr" where
  "call_on_close object s =
    (case oType (hdrs s (GetHeader object)) of None \<Rightarrow> s
     | Some t \<Rightarrow> if OnClose (s_types s ! t) \<noteq> 0
         then s\<lparr>close_calls := close_calls s @ [(OnClose (s_types s ! t), object)]\<rparr> else s)"

definition DereferenceObject :: "u64 \<Rightarrow> obmgr \<Rightarrow> obmgr" where
  "DereferenceObject object s =
    (if \<not> is_object object s then s else
     let s = upd_hdr object (\<lambda>h. h\<lparr>RefCount := RefCount h - 1\<rparr>) s;
         hdr = hdrs s (GetHeader object) in
     if sint (RefCount hdr) \<le> 0
     then (let s = (if oName hdr \<noteq> '''' then RemoveObjectByName (oName hdr) s else s);
               s = call_on_close object s
           in upd_hdr object (\<lambda>h. h\<lparr>Magic := 0\<rparr>) s)
     else s)"

section \<open>Handles\<close>

definition InsertObject :: "u64 \<Rightarrow> u32 \<Rightarrow> obmgr \<Rightarrow> NTSTATUS \<times> u64 option \<times> obmgr" where
  "InsertObject object access s =
    (if \<not> is_object object s then (STATUS_INVALID_PARAMETER, None, s) else
     let (h, t) = HandleTable_Alloc object access (s_ktable s) in
     if h = INVALID_HANDLE then (STATUS_INSUFFICIENT_RESOURCES, None, s\<lparr>s_ktable := t\<rparr>)
     else (STATUS_SUCCESS, Some h, upd_hdr object (\<lambda>d. d\<lparr>HandleCount := HandleCount d + 1, RefCount := RefCount d + 1\<rparr>)
            (s\<lparr>s_ktable := t\<rparr>)))"

definition CloseHandle :: "u64 \<Rightarrow> obmgr \<Rightarrow> NTSTATUS \<times> obmgr" where
  "CloseHandle h s =
    (case HandleTable_Lookup h (s_ktable s) of None \<Rightarrow> (STATUS_INVALID_HANDLE, s)
     | Some e \<Rightarrow>
        let object = he_object e; (st, t) = HandleTable_Free h (s_ktable s); s = s\<lparr>s_ktable := t\<rparr> in
        if st \<noteq> STATUS_SUCCESS then (st, s)
        else (STATUS_SUCCESS, if is_object object s
          then DereferenceObject object (upd_hdr object (\<lambda>d. d\<lparr>HandleCount := HandleCount d - 1\<rparr>) s) else s))"

definition ReferenceObjectByHandle :: "u64 \<Rightarrow> nat option \<Rightarrow> obmgr \<Rightarrow> NTSTATUS \<times> u64 option \<times> obmgr" where
  "ReferenceObjectByHandle h expected_type s =
    (case HandleTable_Lookup h (s_ktable s) of None \<Rightarrow> (STATUS_INVALID_HANDLE, None, s)
     | Some e \<Rightarrow>
        if \<not> is_object (he_object e) s then (STATUS_INVALID_HANDLE, None, s)
        else if expected_type \<noteq> None \<and> oType (hdrs s (GetHeader (he_object e))) \<noteq> expected_type
        then (STATUS_OBJECT_TYPE_MISMATCH, None, s)
        else (STATUS_SUCCESS, Some (he_object e), ReferenceObject (he_object e) s))"

text \<open>The lookup passes over entries whose object is dead.\<close>
definition LookupObjectByName :: "cstr option \<Rightarrow> nat option \<Rightarrow> obmgr \<Rightarrow> NTSTATUS \<times> u64 option \<times> obmgr" where
  "LookupObjectByName path expected_type s =
    (case path of None \<Rightarrow> (STATUS_INVALID_PARAMETER, None, s) | Some path \<Rightarrow>
     case ns_find (\<lambda>e. ns_object e \<noteq> 0 \<and> str_eq (ns_path e) path \<and> is_object (ns_object e) s) (s_namespace s) 0 of
       None \<Rightarrow> (STATUS_OBJECT_NAME_NOT_FOUND, None, s)
     | Some i \<Rightarrow>
        let object = ns_object (s_namespace s ! i) in
        if expected_type \<noteq> None \<and> oType (hdrs s (GetHeader object)) \<noteq> expected_type
        then (STATUS_OBJECT_TYPE_MISMATCH, None, s)
        else (STATUS_SUCCESS, Some object, ReferenceObject object s))"

definition DumpStats :: "obmgr \<Rightarrow> nat \<times> nat \<times> nat" where
  "DumpStats s = (s_type_count s, length (filter (\<lambda>e. he_object e \<noteq> 0) (s_ktable s)),
     length (filter (\<lambda>e. ns_object e \<noteq> 0) (s_namespace s)))"

section \<open>The invariant\<close>

text \<open>refs counts the references that clients hold besides the open handles.  The counts are 32-bit
  and the increments unchecked: with at most 256 handles they do not overflow while clients hold
  at most max_refs references to one object.\<close>
definition max_refs :: nat where "max_refs = 2 ^ 31 - 257"

definition open_handles :: "obmgr \<Rightarrow> u64 \<Rightarrow> u64 set" where
  "open_handles s b = ht.handles_of (s_ktable s) b"

definition counted :: "(u64 \<Rightarrow> nat) \<Rightarrow> obmgr \<Rightarrow> u64 \<Rightarrow> bool" where
  "counted refs s b \<longleftrightarrow> (let h = hdrs s (GetHeader b); n = card (open_handles s b) in
     RefCount h = word_of_nat (n + refs b) \<and> HandleCount h = word_of_nat n \<and> 0 < n + refs b)"

definition ob_inv :: "(u64 \<Rightarrow> nat) \<Rightarrow> obmgr \<Rightarrow> bool" where
  "ob_inv refs s \<longleftrightarrow> table_ok (s_ktable s) \<and> heap_inv (ob_heap s) \<and> (\<forall>b. refs b \<le> max_refs)
     \<and> (\<forall>b. is_object b s \<longrightarrow> counted refs s b \<and> unat b \<le> heap_top (ob_heap s))
     \<and> (\<forall>b. open_handles s b \<noteq> {} \<or> 0 < refs b \<longrightarrow> is_object b s)
     \<and> (\<forall>b\<in>snd ` set (close_calls s). \<not> is_object b s \<and> unat b \<le> heap_top (ob_heap s))
     \<and> distinct (map snd (close_calls s))"

lemma GetHeader_inj: "a \<noteq> 0 \<Longrightarrow> b \<noteq> 0 \<Longrightarrow> GetHeader a = GetHeader b \<longleftrightarrow> a = b"
  by (simp add: GetHeader_def)

lemma upd_hdr_sel [simp]:
  "s_ktable (upd_hdr b f s) = s_ktable s" "s_types (upd_hdr b f s) = s_types s"
  "ob_heap (upd_hdr b f s) = ob_heap s" "close_calls (upd_hdr b f s) = close_calls s"
  "s_namespace (upd_hdr b f s) = s_namespace s" "open_handles (upd_hdr b f s) c = open_handles s c"
  "hdrs (upd_hdr b f s) (GetHeader b) = f (hdrs s (GetHeader b))"
  "a \<noteq> GetHeader b \<Longrightarrow> hdrs (upd_hdr b f s) a = hdrs s a"
  by (simp_all add: upd_hdr_def open_handles_def)

lemma is_object_upd:
  "b \<noteq> 0 \<Longrightarrow> is_object c (upd_hdr b f s) = (if c = b then Magic (f (hdrs s (GetHeader b))) = OB_MAGIC else is_object c s)"
  by (auto simp: is_object_def GetHeader_inj)

lemma is_object_same: "(\<And>h. Magic (f h) = Magic h) \<Longrightarrow> is_object c (upd_hdr b f s) = is_object c s"
  by (cases "GetHeader c = GetHeader b") (auto simp: is_object_def upd_hdr_def)

lemma counted_upd:
  "b \<noteq> 0 \<Longrightarrow> c \<noteq> 0 \<Longrightarrow> c \<noteq> b \<Longrightarrow> counted refs (upd_hdr b f s) c = counted refs s c"
  by (simp add: counted_def GetHeader_inj)

text \<open>The namespace is separate from what the invariant speaks about.\<close>
definition same_objects :: "obmgr \<Rightarrow> obmgr \<Rightarrow> bool" where
  "same_objects s s' \<longleftrightarrow> s_ktable s' = s_ktable s \<and> hdrs s' = hdrs s \<and> ob_heap s' = ob_heap s \<and> close_calls s' = close_calls s"

lemma ob_inv_same: "same_objects s s' \<Longrightarrow> ob_inv refs s' = ob_inv refs s"
  by (auto simp: same_objects_def ob_inv_def counted_def open_handles_def is_object_def)

lemma same_objects_intros:
  "same_objects s s" "same_objects s (snd (InsertObjectByName b p s))" "same_objects s (RemoveObjectByName q s)"
  "same_objects s (snd (snd (CreateType n sz f s)))"
  by (auto simp: same_objects_def InsertObjectByName_def RemoveObjectByName_def CreateType_def Let_def split: option.split)

lemma open_handles_bound: "open_handles s b \<subseteq> index_to_handle ` {..<256}"
  using handle_valid_iff handle_entry_invalid by (fastforce simp: open_handles_def ht.handles_of_def)

lemma finite_open_handles: "finite (open_handles s b)"
  using open_handles_bound by (rule finite_subset) simp

lemma card_open_handles: "card (open_handles s b) \<le> 256"
proof -
  have "card (open_handles s b) \<le> card (index_to_handle ` {..<256})" by (rule card_mono [OF _ open_handles_bound]) simp
  also have "\<dots> \<le> card {..<256::nat}" by (rule card_image_le) simp
  finally show ?thesis by simp
qed

lemma max_refs_pos: "Suc 0 \<le> max_refs" by (simp add: max_refs_def)

lemma sint_count: "n < 2 ^ 31 \<Longrightarrow> sint (word_of_nat n :: i32) = int n"
  by (simp add: signed_of_nat signed_take_bit_int_eq_self)

lemma counts_fit: "r \<le> max_refs \<Longrightarrow> card (open_handles s b) + r < 2 ^ 31"
  using card_open_handles [of s b] by (simp add: max_refs_def)

section \<open>The operations keep the invariant\<close>

lemma ReferenceObject_inv:
  assumes "ob_inv refs s" "is_object b s" "refs b < max_refs"
  shows "ob_inv (refs(b := refs b + 1)) (ReferenceObject b s)"
proof -
  let ?s = "upd_hdr b (\<lambda>h. h\<lparr>RefCount := RefCount h + 1\<rparr>) s"
  have b: "b \<noteq> 0" using assms(2) by (simp add: is_object_def)
  have live: "is_object c ?s = is_object c s" for c
    using assms(2) b by (auto simp: is_object_upd) (simp add: is_object_def)
  have "counted (refs(b := refs b + 1)) ?s c" if "is_object c s" for c
  proof (cases "c = b")
    case True
    have "counted refs s b" using assms by (simp add: ob_inv_def)
    then show ?thesis using True by (simp add: counted_def Let_def)
  next
    case False
    have "counted refs s c" "c \<noteq> 0" using assms(1) that by (auto simp: ob_inv_def is_object_def)
    then show ?thesis using False counted_upd [OF b _ False] by (simp add: counted_def)
  qed
  then show ?thesis using assms b unfolding ob_inv_def by (auto simp: ReferenceObject_def live)
qed

lemma InsertObject_inv:
  assumes "ob_inv refs s" "InsertObject b acc s = (st, h, s')"
  shows "ob_inv refs s'"
proof (cases "is_object b s")
  case False
  then show ?thesis using assms by (simp add: InsertObject_def)
next
  case True
  obtain k t where A: "HandleTable_Alloc b acc (s_ktable s) = (k, t)" by fastforce
  have b: "b \<noteq> 0" using True by (simp add: is_object_def)
  have ok: "table_ok (s_ktable s)" using assms(1) by (simp add: ob_inv_def)
  show ?thesis
  proof (cases "k = INVALID_HANDLE")
    case bad: True
    then have "t = s_ktable s" using ht.alloc_bad [OF ok] A by simp
    then show ?thesis using assms True A bad by (simp add: InsertObject_def)
  next
    case good: False
    let ?s = "upd_hdr b (\<lambda>d. d\<lparr>HandleCount := HandleCount d + 1, RefCount := RefCount d + 1\<rparr>) (s\<lparr>s_ktable := t\<rparr>)"
    have s': "s' = ?s" using assms(2) True A good by (simp add: InsertObject_def)
    note H = ht.handles_of_alloc [OF ok b A good]
    have oh: "open_handles ?s c = (if c = b then insert k (open_handles s b) else open_handles s c)" for c
      using H(1) by (simp add: open_handles_def)
    have live: "is_object c ?s = is_object c s" for c
      using True b by (auto simp: is_object_upd) (auto simp: is_object_def)
    have cd: "card (insert k (open_handles s b)) = Suc (card (open_handles s b))"
      using H(2) finite_open_handles by (simp add: open_handles_def)
    have "counted refs ?s c" if "is_object c s" for c
    proof (cases "c = b")
      case True
      have "counted refs s b" using assms(1) \<open>is_object b s\<close> by (simp add: ob_inv_def)
      then show ?thesis using True unfolding counted_def oh by (simp add: cd Let_def)
    next
      case False
      have "counted refs s c" "c \<noteq> 0" using assms(1) that by (auto simp: ob_inv_def is_object_def)
      then show ?thesis using False b unfolding counted_def oh by (simp add: GetHeader_inj)
    qed
    moreover have "table_ok t" using ht.alloc_inv [OF ok A] .
    ultimately show ?thesis using assms(1) True unfolding s' ob_inv_def live oh by (simp add: open_handles_def)
  qed
qed

text \<open>Giving up one reference: the count is one too high before.\<close>
lemma DereferenceObject_inv:
  assumes "table_ok (s_ktable s)" "heap_inv (ob_heap s)" "is_object b s" "unat b \<le> heap_top (ob_heap s)"
    and "HandleCount (hdrs s (GetHeader b)) = word_of_nat (card (open_handles s b))"
    and "RefCount (hdrs s (GetHeader b)) = word_of_nat (card (open_handles s b) + refs b + 1)"
    and "\<And>c. is_object c s \<Longrightarrow> c \<noteq> b \<Longrightarrow> counted refs s c \<and> unat c \<le> heap_top (ob_heap s)"
    and "\<And>c. open_handles s c \<noteq> {} \<or> 0 < refs c \<Longrightarrow> is_object c s"
    and "\<forall>c\<in>snd ` set (close_calls s). \<not> is_object c s \<and> unat c \<le> heap_top (ob_heap s)" "distinct (map snd (close_calls s))"
    and "\<And>c. refs c \<le> max_refs"
  shows "ob_inv refs (DereferenceObject b s)"
proof -
  have b: "b \<noteq> 0" using assms(3) by (simp add: is_object_def)
  have mag: "Magic (hdrs s (GetHeader b)) = OB_MAGIC" using assms(3) by (simp add: is_object_def)
  let ?s1 = "upd_hdr b (\<lambda>h. h\<lparr>RefCount := RefCount h - 1\<rparr>) s"
  let ?r = "card (open_handles s b) + refs b"
  have ref: "RefCount (hdrs s (GetHeader b)) - 1 = word_of_nat ?r" using assms(6) by simp
  have sref: "sint (word_of_nat ?r :: i32) = int ?r" by (rule sint_count [OF counts_fit [OF assms(11)]])
  have cn: "counted refs ?s1 c" if "is_object c s" "c \<noteq> b" for c
    using assms(7) [OF that] counted_upd [OF b _ that(2)] that(1) by (simp add: is_object_def)
  show ?thesis
  proof (cases "?r = 0")
    case False
    then have "\<not> sint (word_of_nat ?r :: i32) \<le> 0" unfolding sref by linarith
    then have "DereferenceObject b s = ?s1" using assms(3) by (simp add: DereferenceObject_def ref)
    moreover have "is_object c ?s1 = is_object c s" for c by (simp add: is_object_same)
    moreover have "counted refs ?s1 b" using assms(5) False ref unfolding counted_def Let_def neq0_conv [symmetric] by (simp del: neq0_conv of_nat_add)
    then have "counted refs ?s1 c \<and> unat c \<le> heap_top (ob_heap s)" if "is_object c s" for c
      using cn that assms(4,7) by (cases "c = b") auto
    ultimately show ?thesis using assms(1-3,8-11) unfolding ob_inv_def by auto
  next
    case True
    define s2 where "s2 = (if oName (hdrs s (GetHeader b)) \<noteq> '''' then RemoveObjectByName (oName (hdrs s (GetHeader b))) ?s1 else ?s1)"
    define s3 where "s3 = call_on_close b s2"
    have "sint (word_of_nat ?r :: i32) \<le> 0" unfolding sref using True by simp
    then have D: "DereferenceObject b s = upd_hdr b (\<lambda>h. h\<lparr>Magic := 0\<rparr>) s3"
      using assms(3) by (simp add: DereferenceObject_def s2_def s3_def ref Let_def)
    have same: "same_objects ?s1 s2" by (simp add: s2_def same_objects_intros)
    have f: "s_ktable s3 = s_ktable s" "hdrs s3 = hdrs ?s1" "ob_heap s3 = ob_heap s"
      and cc: "close_calls s3 = close_calls s \<or> (\<exists>f. close_calls s3 = close_calls s @ [(f, b)])"
      using same by (auto simp: s3_def call_on_close_def same_objects_def split: option.split)
    let ?s' = "upd_hdr b (\<lambda>h. h\<lparr>Magic := 0\<rparr>) s3"
    have "is_object c s3 = is_object c ?s1" for c by (simp add: is_object_def f)
    then have "is_object c s3 = is_object c s" for c by (simp add: is_object_same)
    then have live: "is_object c ?s' = (is_object c s \<and> c \<noteq> b)" for c
      using b by (simp add: is_object_upd OB_MAGIC_def)
    have oh: "open_handles ?s' c = open_handles s c" for c by (simp add: open_handles_def f)
    have none: "open_handles s b = {}" "refs b = 0" using True finite_open_handles [of s b] by simp_all
    have "counted refs ?s' c" if "is_object c s" "c \<noteq> b" for c
    proof -
      have c: "c \<noteq> 0" using that(1) by (simp add: is_object_def)
      have "hdrs ?s' (GetHeader c) = hdrs ?s1 (GetHeader c)" using b c that(2) by (simp add: GetHeader_inj f)
      then show ?thesis using cn [OF that] by (simp add: counted_def open_handles_def f)
    qed
    moreover have "open_handles s c \<noteq> {} \<or> 0 < refs c \<Longrightarrow> is_object c s \<and> c \<noteq> b" for c using assms(8) none by auto
    moreover have "b \<notin> snd ` set (close_calls s)" using assms(3,9) by blast
    ultimately show ?thesis using assms(1,2,4,7,9-11) cc unfolding D ob_inv_def live oh
      by (auto simp: f)
  qed
qed

lemma Dereference_client_inv:
  assumes "ob_inv refs s" "0 < refs b"
  shows "ob_inv (refs(b := refs b - 1)) (DereferenceObject b s)"
proof -
  have b: "is_object b s" "counted refs s b" using assms by (auto simp: ob_inv_def)
  have mx: "\<And>c. refs c \<le> max_refs" using assms(1) by (simp add: ob_inv_def)
  then have mb: "(refs(b := refs b - 1)) c \<le> max_refs" for c using mx [of c] mx [of b] diff_le_self [of "refs b" 1] le_trans by (metis fun_upd_apply)
  show ?thesis
  proof (rule DereferenceObject_inv)
    show "HandleCount (hdrs s (GetHeader b)) = word_of_nat (card (open_handles s b))"
      "RefCount (hdrs s (GetHeader b)) = word_of_nat (card (open_handles s b) + (refs(b := refs b - 1)) b + 1)"
      using b(2) assms(2) by (simp_all add: counted_def Let_def flip: of_nat_Suc)
    show "(refs(b := refs b - 1)) c \<le> max_refs" for c by (rule mb)
    show "counted (refs(b := refs b - 1)) s c \<and> unat c \<le> heap_top (ob_heap s)" if "is_object c s" "c \<noteq> b" for c
      using assms(1) that by (simp add: ob_inv_def counted_def)
    show "is_object c s" if "open_handles s c \<noteq> {} \<or> 0 < (refs(b := refs b - 1)) c" for c
      using assms that by (auto simp: ob_inv_def split: if_splits)
  qed (use assms b in \<open>auto simp: ob_inv_def\<close>)
qed

lemma CloseHandle_inv:
  assumes "ob_inv refs s"
  shows "ob_inv refs (snd (CloseHandle h s))"
proof (cases "HandleTable_Lookup h (s_ktable s)")
  case None
  then show ?thesis using assms by (simp add: CloseHandle_def)
next
  case (Some e)
  let ?b = "he_object e"
  have ok: "table_ok (s_ktable s)" using assms by (simp add: ob_inv_def)
  have he: "handle_entry h (s_ktable s) = Some (?b, GrantedAccess e)" using Some by (simp add: handle_entry_def)
  then obtain t where F: "HandleTable_Free h (s_ktable s) = (STATUS_SUCCESS, t)" using ht.free_ok [OF ok] by blast
  have hb: "h \<in> open_handles s ?b" using he by (auto simp: open_handles_def ht.handles_of_def)
  then have b: "is_object ?b s" "counted refs s ?b" using assms by (auto simp: ob_inv_def)
  let ?s = "upd_hdr ?b (\<lambda>d. d\<lparr>HandleCount := HandleCount d - 1\<rparr>) (s\<lparr>s_ktable := t\<rparr>)"
  have C: "snd (CloseHandle h s) = DereferenceObject ?b ?s"
    using Some F b(1) by (simp add: CloseHandle_def is_object_def Let_def)
  have b0: "?b \<noteq> 0" using b(1) by (simp add: is_object_def)
  have oh: "open_handles ?s c = open_handles s c - {h}" for c
    using ht.handles_of_free [OF ok F] by (simp add: open_handles_def)
  have oc: "h \<notin> open_handles s c" if "c \<noteq> ?b" for c
    using he that by (auto simp: open_handles_def ht.handles_of_def)
  have live: "is_object c ?s = is_object c s" for c
    using b(1) b0 by (auto simp: is_object_upd) (auto simp: is_object_def)
  have cd: "card (open_handles s ?b) = Suc (card (open_handles s ?b - {h}))"
    using card.remove [OF finite_open_handles hb] .
  show ?thesis unfolding C
  proof (rule DereferenceObject_inv)
    show "table_ok (s_ktable ?s)" using ht.free_inv [OF ok F] by simp
    show "counted refs ?s c \<and> unat c \<le> heap_top (ob_heap ?s)" if "is_object c ?s" "c \<noteq> ?b" for c
    proof -
      have "is_object c s" using that(1) unfolding live .
      then have "counted refs s c" "unat c \<le> heap_top (ob_heap s)" "c \<noteq> 0"
        using assms by (auto simp: ob_inv_def is_object_def)
      then show ?thesis using that(2) b0 oc [OF that(2)] unfolding counted_def oh by (simp add: GetHeader_inj)
    qed
    show "is_object c ?s" if "open_handles ?s c \<noteq> {} \<or> 0 < refs c" for c
      using that assms unfolding oh live by (auto simp: ob_inv_def)
    show "HandleCount (hdrs ?s (GetHeader ?b)) = word_of_nat (card (open_handles ?s ?b))"
      "RefCount (hdrs ?s (GetHeader ?b)) = word_of_nat (card (open_handles ?s ?b) + refs ?b + 1)"
      using b(2) unfolding oh by (simp_all add: counted_def cd Let_def)
  qed (use assms b live in \<open>auto simp: ob_inv_def\<close>)
qed

text \<open>Allocation hands out a body that no object, handle or destructor call has used.\<close>
lemma fresh_inv:
  assumes inv: "ob_inv refs s" and A: "Heap_AllocZeroed (HEADER_SIZE + sz) 8 (ob_heap s) = (h, hp')" "h \<noteq> 0" "sz < 2 ^ 32"
    and hdr: "Magic d = OB_MAGIC" "RefCount d = 1" "HandleCount d = 0"
  shows "ob_inv (refs(h + HEADER_SIZE := 1)) (s\<lparr>ob_heap := hp', hdrs := (hdrs s)(h := d)\<rparr>)"
    "h + HEADER_SIZE \<noteq> 0" "\<not> is_object (h + HEADER_SIZE) s"
proof -
  let ?b = "h + HEADER_SIZE" and ?s = "s\<lparr>ob_heap := hp', hdrs := (hdrs s)(h := d)\<rparr>"
  have hi: "heap_inv (ob_heap s)" using inv by (simp add: ob_inv_def)
  have size: "unat (HEADER_SIZE + sz) = 96 + unat sz"
    using assms(4) by (simp add: HEADER_SIZE_def word_less_nat_alt unat_word_ariths)
  have g: "good_request (HEADER_SIZE + sz) 3" using assms(4) by (simp add: good_request_def size word_less_nat_alt)
  obtain h1 where A1: "Heap_Alloc (HEADER_SIZE + sz) (2 ^ 3) (ob_heap s) = (h, h1)"
    and hp': "hp' = h1\<lparr>hp_mem := zero_bytes h (HEADER_SIZE + sz) (hp_mem h1)\<rparr>"
    using A(1,2) by (auto simp: Heap_AllocZeroed_def split: prod.splits if_splits)
  note O = Heap_Alloc_ok [OF hi g A1 A(2)]
  have top: "heap_top hp' = unat h + 96 + unat sz" "heap_inv hp'"
    using O(3,5) by (simp_all add: hp' heap_top_def heap_inv_def size)
  have "unat h < 2 ^ 63" using O(4) hi by (simp add: heap_inv_def)
  then have ub: "unat ?b = unat h + 96" by (simp add: HEADER_SIZE_def unat_word_ariths)
  then show b0: "?b \<noteq> 0" by auto
  have hb: "GetHeader ?b = h" using b0 by (simp add: GetHeader_def)
  have big: "heap_top (ob_heap s) < unat ?b" using O(2) ub by simp
  then show nb: "\<not> is_object ?b s" using inv by (auto simp: ob_inv_def)
  have live: "is_object c ?s = (c = ?b \<or> is_object c s)" for c
    using b0 hb hdr(1) GetHeader_inj [OF _ b0, of c] by (auto simp: is_object_def)
  have none: "open_handles s ?b = {}" "refs ?b = 0" using inv nb by (auto simp: ob_inv_def)
  have oh: "open_handles ?s c = open_handles s c" for c by (simp add: open_handles_def)
  have "counted (refs(?b := 1)) ?s c \<and> unat c \<le> heap_top hp'" if "is_object c ?s" for c
  proof (cases "c = ?b")
    case True
    have "counted (refs(?b := 1)) ?s ?b" using none hdr unfolding counted_def hb oh by simp
    then show ?thesis using True ub top by simp
  next
    case False
    then have c: "is_object c s" using that live by simp
    then have "GetHeader c \<noteq> h" using False hb GetHeader_inj [OF _ b0, of c] by (auto simp: is_object_def)
    moreover have "counted refs s c" "unat c \<le> heap_top (ob_heap s)" using inv c by (auto simp: ob_inv_def)
    ultimately show ?thesis using False big ub top unfolding counted_def oh by simp
  qed
  moreover have "\<not> is_object c ?s \<and> unat c \<le> heap_top hp'" if "c \<in> snd ` set (close_calls s)" for c
    using inv that big ub top by (auto simp: ob_inv_def live)
  ultimately show "ob_inv (refs(?b := 1)) ?s"
    using inv top max_refs_pos unfolding ob_inv_def oh by (auto simp: live)
qed

lemma heap_fail:
  assumes "ob_inv refs s" "Heap_AllocZeroed (HEADER_SIZE + sz) 8 (ob_heap s) = (0, hp')" "sz < 2 ^ 32"
  shows "hp' = ob_heap s"
proof -
  have "good_request (HEADER_SIZE + sz) 3"
    using assms(3) by (simp add: good_request_def HEADER_SIZE_def word_less_nat_alt unat_word_ariths)
  then show ?thesis using assms Heap_Alloc_null(1) [of "ob_heap s" "HEADER_SIZE + sz" 3]
    by (auto simp: ob_inv_def Heap_AllocZeroed_def split: prod.splits if_splits)
qed

lemma AllocateObject_inv:
  assumes "ob_inv refs s" "BodySize (s_types s ! t) < 2 ^ 32" "AllocateObject (Some t) path s = (b, s')"
  shows "ob_inv (if b = 0 then refs else refs(b := 1)) s'" "b \<noteq> 0 \<Longrightarrow> \<not> is_object b s"
proof -
  obtain h hp' where A: "Heap_AllocZeroed (HEADER_SIZE + BodySize (s_types s ! t)) 8 (ob_heap s) = (h, hp')" by fastforce
  have "ob_inv (if b = 0 then refs else refs(b := 1)) s' \<and> (b \<noteq> 0 \<longrightarrow> \<not> is_object b s)"
  proof (cases "h = 0")
    case True
    then have "hp' = ob_heap s" using heap_fail [OF assms(1)] A assms(2) by simp
    then show ?thesis using assms(1,3) A True by (auto simp: AllocateObject_def Let_def)
  next
    case False
    let ?d = "\<lparr>Magic = OB_MAGIC, oType = Some t, RefCount = 1, HandleCount = 0, oFlags = 0,
               oName = (case path of None \<Rightarrow> '''' | Some p \<Rightarrow> str_copy p 64)\<rparr>"
    let ?s = "s\<lparr>ob_heap := hp', hdrs := (hdrs s)(h := ?d)\<rparr>"
    note F = fresh_inv [OF assms(1) A False assms(2), of ?d]
    have "b = h + HEADER_SIZE" "same_objects ?s s'"
      using assms(3) A False by (auto simp: AllocateObject_def Let_def same_objects_intros split: option.splits if_splits)
    then show ?thesis using F ob_inv_same [of ?s s'] by simp
  qed
  then show "ob_inv (if b = 0 then refs else refs(b := 1)) s'" "b \<noteq> 0 \<Longrightarrow> \<not> is_object b s" by auto
qed

lemma AllocateObjectRaw_inv:
  assumes "ob_inv refs s" "sz < 2 ^ 32" "AllocateObjectRaw sz name s = (b, s')"
  shows "ob_inv (if b = 0 then refs else refs(b := 1)) s'"
proof -
  obtain h hp' where A: "Heap_AllocZeroed (HEADER_SIZE + sz) 8 (ob_heap s) = (h, hp')" by fastforce
  show ?thesis
  proof (cases "h = 0")
    case True
    then have "hp' = ob_heap s" using heap_fail [OF assms(1)] A assms(2) by simp
    then show ?thesis using assms(1,3) A True by (auto simp: AllocateObjectRaw_def Let_def)
  next
    case False
    let ?d = "\<lparr>Magic = OB_MAGIC, oType = None, RefCount = 1, HandleCount = 0, oFlags = 0,
               oName = (case name of None \<Rightarrow> '''' | Some p \<Rightarrow> str_copy p 64)\<rparr>"
    show ?thesis using assms(3) A False fresh_inv [OF assms(1) A False assms(2), of ?d]
      by (auto simp: AllocateObjectRaw_def Let_def)
  qed
qed

lemma DereferenceObject_ktable: "s_ktable (DereferenceObject b s) = s_ktable s"
  by (simp add: DereferenceObject_def RemoveObjectByName_def call_on_close_def Let_def split: option.split)

section \<open>What clients can do\<close>

text \<open>A step of a client that owns the references counted in the first component: it creates
  objects, opens and closes handles (of any value), looks objects up, and gives up only
  references it owns.  It takes a reference only while fewer than max_refs are held to the object.\<close>
inductive ob_step :: "(u64 \<Rightarrow> nat) \<times> obmgr \<Rightarrow> (u64 \<Rightarrow> nat) \<times> obmgr \<Rightarrow> bool" where
  new_type: "CreateType name sz f s = (st, ty, s') \<Longrightarrow> ob_step (r, s) (r, s')"
| new_object: "BodySize (s_types s ! t) < 2 ^ 32 \<Longrightarrow> AllocateObject (Some t) path s = (b, s') \<Longrightarrow>
    ob_step (r, s) (if b = 0 then r else r(b := 1), s')"
| new_raw: "sz < 2 ^ 32 \<Longrightarrow> AllocateObjectRaw sz name s = (b, s') \<Longrightarrow>
    ob_step (r, s) (if b = 0 then r else r(b := 1), s')"
| open_handle: "InsertObject b acc s = (st, h, s') \<Longrightarrow> ob_step (r, s) (r, s')"
| close_handle: "CloseHandle h s = (st, s') \<Longrightarrow> ob_step (r, s) (r, s')"
| by_handle: "ReferenceObjectByHandle h ty s = (st, ob, s') \<Longrightarrow> \<forall>b. ob = Some b \<longrightarrow> r b < max_refs \<Longrightarrow>
    ob_step (r, s) (case ob of None \<Rightarrow> r | Some b \<Rightarrow> r(b := r b + 1), s')"
| by_name: "LookupObjectByName p ty s = (st, ob, s') \<Longrightarrow> \<forall>b. ob = Some b \<longrightarrow> r b < max_refs \<Longrightarrow>
    ob_step (r, s) (case ob of None \<Rightarrow> r | Some b \<Rightarrow> r(b := r b + 1), s')"
| reference: "0 < r b \<Longrightarrow> r b < max_refs \<Longrightarrow> ob_step (r, s) (r(b := r b + 1), ReferenceObject b s)"
| dereference: "0 < r b \<Longrightarrow> ob_step (r, s) (r(b := r b - 1), DereferenceObject b s)"
| add_name: "InsertObjectByName b p s = (st, s') \<Longrightarrow> ob_step (r, s) (r, s')"
| remove_name: "ob_step (r, s) (r, RemoveObjectByName q s)"

lemma ns_find_Some: "ns_find p es i = Some k \<Longrightarrow> i \<le> k \<and> k - i < length es \<and> p (es ! (k - i)) \<and> (\<forall>j<k - i. \<not> p (es ! j))"
proof (induction p es i rule: ns_find.induct)
  case (2 p e es i)
  show ?case
  proof (cases "p e")
    case False
    then have "i + 1 \<le> k \<and> k - (i + 1) < length es \<and> p (es ! (k - (i + 1))) \<and> (\<forall>j<k - (i + 1). \<not> p (es ! j))"
      using 2 by simp
    moreover have "k - i = Suc (k - (i + 1))" using calculation by arith
    ultimately show ?thesis using False by (auto simp: less_Suc_eq_0_disj)
  qed (use 2 in simp)
qed simp

lemma ob_step_inv [kinv]:
  assumes "ob_step x y" "ob_inv (fst x) (snd x)"
  shows "ob_inv (fst y) (snd y)"
  using assms
proof (induction rule: ob_step.induct)
  case (new_type name sz f s st ty s' r)
  then have "same_objects s s'" using same_objects_intros(4) [of s name sz f] by simp
  then show ?case using new_type ob_inv_same by simp
next
  case (new_object s t path b s' r)
  then show ?case using AllocateObject_inv(1) by simp
next
  case (new_raw sz name s b s' r)
  then show ?case using AllocateObjectRaw_inv by simp
next
  case (open_handle b acc s st h s' r)
  then show ?case using InsertObject_inv by simp
next
  case (close_handle h s st s' r)
  then show ?case using CloseHandle_inv [of r s h] by simp
next
  case (by_handle h ty s st ob s' r)
  then show ?case using ReferenceObject_inv
    by (auto simp: ReferenceObjectByHandle_def Let_def split: option.splits if_splits)
next
  case (by_name p ty s st ob s' r)
  then show ?case using ReferenceObject_inv ns_find_Some
    by (fastforce simp: LookupObjectByName_def Let_def split: option.splits if_splits)
next
  case (reference r b s)
  then have "is_object b s" by (simp add: ob_inv_def)
  then show ?case using reference ReferenceObject_inv [of r s b] by (simp del: fun_upd_apply)
next
  case (dereference r b s)
  then show ?case using Dereference_client_inv [of r s b] by (simp del: fun_upd_apply)
next
  case (add_name b p s st s' r)
  then have "same_objects s s'" using same_objects_intros(2) [of s b p] by simp
  then show ?case using add_name ob_inv_same by simp
next
  case (remove_name r s q)
  then show ?case using ob_inv_same [OF same_objects_intros(3)] by simp
qed

lemma ob_steps_inv: "ob_step\<^sup>*\<^sup>* x y \<Longrightarrow> ob_inv (fst x) (snd x) \<Longrightarrow> ob_inv (fst y) (snd y)"
  by (induction rule: rtranclp_induct) (auto intro: ob_step_inv)

section \<open>Correctness of the object manager\<close>

text \<open>A manager right after Init, with one registered type.\<close>
definition ob_demo :: obmgr where
  "ob_demo = snd (snd (CreateType (Some ''Event'') 32 0x1000 (OB_Init
     \<lparr>s_types = replicate 32 \<lparr>ot_name = '''', BodySize = 0, OnClose = 0, ot_index = 0\<rparr>, s_type_count = 0,
      s_ktable = [], s_namespace = [], hdrs = (\<lambda>_. \<lparr>Magic = 0, oType = None, RefCount = 0, HandleCount = 0, oFlags = 0, oName = ''''\<rparr>),
      ob_heap = heap_demo, close_calls = []\<rparr>)))"

lemma ob_demo_sel [simp]:
  "s_ktable ob_demo = HandleTable_Init" "ob_heap ob_demo = heap_demo" "close_calls ob_demo = []"
  "s_namespace ob_demo = replicate 128 \<lparr>ns_path = '''', ns_object = 0\<rparr>"
  "Magic (hdrs ob_demo a) = 0" "s_types ob_demo ! 0 = \<lparr>ot_name = ''Event'', BodySize = 32, OnClose = 0x1000, ot_index = 1\<rparr>"
  by (simp_all add: ob_demo_def CreateType_def OB_Init_def MAX_TYPES_def OB_NAMESPACE_SIZE_def str_copy_def)

lemma ob_demo_inv: "ob_inv (\<lambda>_. 0) ob_demo"
  using HandleTable_Init_ok heap_demo_inv
  by (simp add: ob_inv_def is_object_def open_handles_def ht.handles_of_def OB_MAGIC_def)

text \<open>Closing the last handle of an object nobody references destroys it: its name
  leaves the namespace, the destructor of its type is called with its body, and the handle is free.\<close>
theorem close_last_handle:
  assumes "ob_inv r s" "open_handles s b = {h}" "r b = 0"
    and "oType (hdrs s (GetHeader b)) = Some t" "OnClose (s_types s ! t) \<noteq> 0"
  shows "\<exists>s'. CloseHandle h s = (STATUS_SUCCESS, s') \<and> \<not> is_object b s' \<and> HandleTable_Lookup h (s_ktable s') = None
    \<and> close_calls s' = close_calls s @ [(OnClose (s_types s ! t), b)]"
proof -
  have ok: "table_ok (s_ktable s)" using assms(1) by (simp add: ob_inv_def)
  obtain a where he: "handle_entry h (s_ktable s) = Some (b, a)"
    using assms(2) by (auto simp: open_handles_def ht.handles_of_def)
  then obtain e where e: "HandleTable_Lookup h (s_ktable s) = Some e" "he_object e = b" by (auto simp: handle_entry_def)
  obtain t' where F: "HandleTable_Free h (s_ktable s) = (STATUS_SUCCESS, t')" using ht.free_ok [OF ok] he by blast
  have b: "is_object b s" "counted r s b" using assms(1,2) by (auto simp: ob_inv_def)
  have cnt: "RefCount (hdrs s (GetHeader b)) - 1 = 0" using b(2) assms(2,3) by (simp add: counted_def Let_def)
  let ?s = "upd_hdr b (\<lambda>d. d\<lparr>HandleCount := HandleCount d - 1\<rparr>) (s\<lparr>s_ktable := t'\<rparr>)"
  have C: "CloseHandle h s = (STATUS_SUCCESS, DereferenceObject b ?s)"
    using e F b(1) by (simp add: CloseHandle_def is_object_def Let_def)
  let ?s1 = "upd_hdr b (\<lambda>d. d\<lparr>RefCount := RefCount d - 1\<rparr>) ?s"
  let ?s2 = "if oName (hdrs ?s1 (GetHeader b)) \<noteq> '''' then RemoveObjectByName (oName (hdrs ?s1 (GetHeader b))) ?s1 else ?s1"
  have D: "DereferenceObject b ?s = upd_hdr b (\<lambda>d. d\<lparr>Magic := 0\<rparr>) (call_on_close b ?s2)"
    using b(1) cnt by (simp add: DereferenceObject_def is_object_same Let_def) (simp add: is_object_def)
  have same: "same_objects ?s1 ?s2" by (simp add: same_objects_intros)
  have ty: "s_types ?s2 = s_types s" by (simp add: RemoveObjectByName_def split: option.split)
  have call: "call_on_close b ?s2 = ?s2\<lparr>close_calls := close_calls s @ [(OnClose (s_types s ! t), b)]\<rparr>"
    using same assms(4,5) ty by (auto simp: call_on_close_def same_objects_def)
  have "b \<noteq> 0" using b(1) by (simp add: is_object_def)
  moreover have "HandleTable_Lookup h t' = None"
    using ht.free_lookup [OF ok F, of h] by (simp add: handle_entry_def)
  ultimately show ?thesis unfolding C D call using same
    by (auto simp: is_object_upd OB_MAGIC_def same_objects_def)
qed

text \<open>A handle that InsertObject returns designates the object: looking it up yields the object
  and one more reference, and a second handle never replaces the first.\<close>
theorem open_handle_roundtrip:
  assumes "ob_inv r s" "InsertObject b acc s = (st, Some h, s')"
  shows "st = STATUS_SUCCESS \<and> is_object b s'
    \<and> ReferenceObjectByHandle h None s' = (STATUS_SUCCESS, Some b, ReferenceObject b s')
    \<and> (\<forall>k e. HandleTable_Lookup k (s_ktable s) = Some e \<longrightarrow> k \<noteq> h \<and> HandleTable_Lookup k (s_ktable s') = Some e)"
proof -
  have obj: "is_object b s" using assms(2) by (auto simp: InsertObject_def split: if_splits)
  obtain k t where A: "HandleTable_Alloc b acc (s_ktable s) = (k, t)" by fastforce
  have ok: "table_ok (s_ktable s)" using assms(1) by (simp add: ob_inv_def)
  have k: "k = h" "k \<noteq> INVALID_HANDLE" "st = STATUS_SUCCESS"
    and s': "s' = upd_hdr b (\<lambda>d. d\<lparr>HandleCount := HandleCount d + 1, RefCount := RefCount d + 1\<rparr>) (s\<lparr>s_ktable := t\<rparr>)"
    using assms(2) obj A by (auto simp: InsertObject_def split: if_splits)
  have b0: "b \<noteq> 0" using obj by (simp add: is_object_def)
  note L = ht.alloc_lookup [OF ok b0 A k(2)]
  have obj': "is_object b s'" using obj unfolding s' by (simp add: is_object_same) (simp add: is_object_def)
  obtain e where e: "HandleTable_Lookup h (s_ktable s') = Some e" "he_object e = b"
    using L [of h] k(1) by (auto simp: s' handle_entry_def)
  have "ReferenceObjectByHandle h None s' = (STATUS_SUCCESS, Some b, ReferenceObject b s')"
    using e obj' by (simp add: ReferenceObjectByHandle_def Let_def)
  moreover have "j \<noteq> h \<and> HandleTable_Lookup j (s_ktable s') = Some e'" if e': "HandleTable_Lookup j (s_ktable s) = Some e'" for j e'
  proof -
    have "handle_entry h (s_ktable s) = None" using ht.alloc_fresh [OF ok A k(2)] k(1) by simp
    then have "j \<noteq> h" using e' by (auto simp: handle_entry_def)
    then have "handle_entry j (s_ktable s') = handle_entry j (s_ktable s)" using L [of j] k(1) by (simp add: s')
    then have "map_option (\<lambda>e. (he_object e, GrantedAccess e)) (HandleTable_Lookup j (s_ktable s')) = Some (he_object e', GrantedAccess e')"
      using e' by (simp add: handle_entry_def)
    then show ?thesis using \<open>j \<noteq> h\<close> by auto
  qed
  ultimately show ?thesis using obj' k(3) by blast
qed

lemma ob_demo_object:
  "\<exists>b s'. AllocateObject (Some 0) None ob_demo = (b, s') \<and> ob_inv ((\<lambda>_. 0)(b := 1)) s' \<and> is_object b s'
    \<and> s_ktable s' = HandleTable_Init"
proof -
  obtain b s' where A: "AllocateObject (Some 0) None ob_demo = (b, s')" by fastforce
  have b: "b \<noteq> 0" "s_ktable s' = HandleTable_Init" using A
    by (auto simp: AllocateObject_def Heap_AllocZeroed_def Heap_Alloc_def heap_demo_def AlignUp_def HEADER_SIZE_def Let_def)
  have "ob_inv ((\<lambda>_. 0)(b := 1)) s'" using AllocateObject_inv(1) [OF ob_demo_inv _ A] b by simp
  then show ?thesis using A b by (auto simp: ob_inv_def)
qed

lemma first_handle: "HandleTable_Alloc b a HandleTable_Init = (8, HandleTable_Init[0 := \<lparr>he_object = b, GrantedAccess = a\<rparr>])"
proof -
  let ?e = "\<lparr>he_object = 0, GrantedAccess = 0\<rparr>"
  have "replicate 256 ?e = ?e # replicate 255 ?e" by (simp flip: replicate_Suc)
  then show ?thesis by (simp add: HandleTable_Alloc_def HandleTable_Init_def OB_HANDLE_TABLE_SIZE_def index_to_handle_def)
qed

text \<open>The demonstration object with one open handle and no other reference.\<close>
lemma ob_demo_handle:
  "\<exists>b s. ob_inv (\<lambda>_. 0) s \<and> open_handles s b = {8} \<and> oType (hdrs s (GetHeader b)) = Some 0 \<and> OnClose (s_types s ! 0) \<noteq> 0"
proof -
  obtain b s where A: "AllocateObject (Some 0) None ob_demo = (b, s)" by fastforce
  have b: "b \<noteq> 0" "s_ktable s = HandleTable_Init" "oType (hdrs s (GetHeader b)) = Some 0" "s_types s = s_types ob_demo" using A
    by (auto simp: AllocateObject_def Heap_AllocZeroed_def Heap_Alloc_def heap_demo_def AlignUp_def HEADER_SIZE_def GetHeader_def Let_def)
  have i: "ob_inv ((\<lambda>_. 0)(b := 1)) s" using AllocateObject_inv(1) [OF ob_demo_inv _ A] b by simp
  then have live: "is_object b s" by (simp add: ob_inv_def)
  obtain s' where I: "InsertObject b 1 s = (STATUS_SUCCESS, Some 8, s')" and t: "s_ktable s' = HandleTable_Init[0 := \<lparr>he_object = b, GrantedAccess = 1\<rparr>]"
    and h: "oType (hdrs s' (GetHeader b)) = Some 0" "s_types s' = s_types ob_demo"
    using live b by (simp add: InsertObject_def first_handle INVALID_HANDLE_def)
  have "ob_inv ((\<lambda>_. 0)(b := 1)) s'" by (rule InsertObject_inv [OF i I])
  then have i': "ob_inv (((\<lambda>_. 0)(b := 1))(b := 0)) (DereferenceObject b s')"
    using Dereference_client_inv [of "(\<lambda>_. 0)(b := 1)" s' b] by simp
  have c: "counted ((\<lambda>_. 0)(b := 1)) s' b" "is_object b s'" using \<open>ob_inv ((\<lambda>_. 0)(b := 1)) s'\<close> by (auto simp: ob_inv_def)
  have o: "open_handles s' b = {8}"
    using handle_entry_update [OF HandleTable_Init_ok(1), of 0] HandleTable_Init_ok(2) b(1)
    by (auto simp: open_handles_def ht.handles_of_def t index_to_handle_def)
  then have "DereferenceObject b s' = upd_hdr b (\<lambda>h. h\<lparr>RefCount := RefCount h - 1\<rparr>) s'"
    using c by (simp add: DereferenceObject_def counted_def Let_def)
  moreover have "((\<lambda>_. 0)(b := 1))(b := 0) = (\<lambda>_. 0 :: nat)" by (rule ext) simp
  ultimately have "ob_inv (\<lambda>_. 0) (upd_hdr b (\<lambda>h. h\<lparr>RefCount := RefCount h - 1\<rparr>) s')" using i' by simp
  moreover have "OnClose (s_types s' ! 0) \<noteq> 0" by (simp add: h)
  ultimately show ?thesis using o h(1)
    by (intro exI [of _ b] exI [of _ "upd_hdr b (\<lambda>h. h\<lparr>RefCount := RefCount h - 1\<rparr>) s'"]) simp
qed

lemma close_last_handle_witness:
  "\<exists>b s s'. is_object b s \<and> CloseHandle 8 s = (STATUS_SUCCESS, s') \<and> \<not> is_object b s'"
proof -
  obtain b s where s: "ob_inv (\<lambda>_. 0) s" "open_handles s b = {8}" "oType (hdrs s (GetHeader b)) = Some 0" "OnClose (s_types s ! 0) \<noteq> 0"
    using ob_demo_handle by blast
  have "is_object b s" using s(1,2) by (auto simp: ob_inv_def)
  then show ?thesis using close_last_handle [OF s(1,2) refl s(3,4)] by blast
qed

lemma open_handle_roundtrip_witness:
  "\<exists>b s h s'. InsertObject b 1 s = (STATUS_SUCCESS, Some h, s') \<and> fst (ReferenceObjectByHandle h None s') = STATUS_SUCCESS"
proof -
  obtain b s where s: "ob_inv ((\<lambda>_. 0)(b := 1)) s" "is_object b s" "s_ktable s = HandleTable_Init"
    using ob_demo_object by blast
  obtain s' where I: "InsertObject b 1 s = (STATUS_SUCCESS, Some 8, s')"
    using s by (simp add: InsertObject_def first_handle INVALID_HANDLE_def)
  have "fst (ReferenceObjectByHandle 8 None s') = STATUS_SUCCESS" using open_handle_roundtrip [OF s(1) I] by simp
  then show ?thesis using I by blast
qed

text \<open>C34 (safety): whatever clients do that give up only references they own, and hold at most max_refs (2^31 - 257) of
  them to one object, every open handle and every reference designates a live object, the 32-bit counts of an
  object read as signed numbers are those of its handles and references, an object nobody refers to is dead,
  and no destructor runs twice for one object.\<close>
theorem objects_live:
  assumes "ob_inv r s" "ob_step\<^sup>*\<^sup>* (r, s) (r', s')"
  shows "(\<forall>h e. HandleTable_Lookup h (s_ktable s') = Some e \<longrightarrow> is_object (he_object e) s')
    \<and> (\<forall>b. 0 < r' b \<longrightarrow> is_object b s')
    \<and> (\<forall>b. is_object b s' \<longrightarrow> sint (HandleCount (hdrs s' (GetHeader b))) = int (card (open_handles s' b))
          \<and> sint (RefCount (hdrs s' (GetHeader b))) = int (card (open_handles s' b)) + int (r' b)
          \<and> (open_handles s' b \<noteq> {} \<or> 0 < r' b))
    \<and> distinct (map snd (close_calls s'))"
proof -
  have inv: "ob_inv r' s'" using ob_steps_inv [OF assms(2)] assms(1) by simp
  have "is_object (he_object e) s'" if "HandleTable_Lookup h (s_ktable s') = Some e" for h e
  proof -
    have "h \<in> open_handles s' (he_object e)" using that by (simp add: open_handles_def ht.handles_of_def handle_entry_def)
    then show ?thesis using inv by (auto simp: ob_inv_def)
  qed
  moreover have "sint (HandleCount (hdrs s' (GetHeader b))) = int (card (open_handles s' b))
      \<and> sint (RefCount (hdrs s' (GetHeader b))) = int (card (open_handles s' b)) + int (r' b)
      \<and> (open_handles s' b \<noteq> {} \<or> 0 < r' b)" if "is_object b s'" for b
  proof -
    have c: "counted r' s' b" "r' b \<le> max_refs" using inv that by (auto simp: ob_inv_def)
    have f: "card (open_handles s' b) + r' b < 2 ^ 31" using counts_fit [OF c(2)] .
    then have g: "card (open_handles s' b) < 2 ^ 31" by (rule le_less_trans [OF le_add1])
    show ?thesis using c(1) sint_count [OF f] sint_count [OF g] by (auto simp: counted_def Let_def)
  qed
  ultimately show ?thesis using inv by (auto simp: ob_inv_def)
qed

text \<open>A run that creates an object, opens a handle, takes a reference through it and closes the handle.\<close>
lemma objects_live_witness:
  "\<exists>b s3 s4. sint (RefCount (hdrs s3 (GetHeader b))) = int (card (open_handles s3 b)) + 2 \<and> 8 \<in> open_handles s3 b
    \<and> CloseHandle 8 s3 = (STATUS_SUCCESS, s4) \<and> is_object b s4
    \<and> sint (RefCount (hdrs s4 (GetHeader b))) = int (card (open_handles s4 b)) + 2 \<and> 8 \<notin> open_handles s4 b"
proof -
  obtain b s1 where A: "AllocateObject (Some 0) None ob_demo = (b, s1)" "ob_inv ((\<lambda>_. 0)(b := 1)) s1" "is_object b s1"
    "s_ktable s1 = HandleTable_Init" using ob_demo_object by blast
  have b0: "b \<noteq> 0" using A(3) by (simp add: is_object_def)
  obtain s2 where I: "InsertObject b 1 s1 = (STATUS_SUCCESS, Some 8, s2)"
    and t2: "s_ktable s2 = HandleTable_Init[0 := \<lparr>he_object = b, GrantedAccess = 1\<rparr>]" and o2: "is_object b s2"
    using A(3,4) by (simp add: InsertObject_def first_handle INVALID_HANDLE_def is_object_same) (simp add: is_object_def)
  have e8: "handle_entry 8 (s_ktable s2) = Some (b, 1)"
    using handle_entry_update [OF HandleTable_Init_ok(1), of 0] b0 by (simp add: t2 index_to_handle_def)
  then have L2: "HandleTable_Lookup 8 (s_ktable s2) = Some \<lparr>he_object = b, GrantedAccess = 1\<rparr>"
    by (cases "HandleTable_Lookup 8 (s_ktable s2)") (auto simp: handle_entry_def)
  have R: "ReferenceObjectByHandle 8 None s2 = (STATUS_SUCCESS, Some b, ReferenceObject b s2)"
    using o2 by (simp add: ReferenceObjectByHandle_def L2 Let_def)
  let ?s3 = "ReferenceObject b s2" and ?r1 = "(\<lambda>_. 0)(b := 1 :: nat)" and ?r2 = "(\<lambda>_. 0)(b := 2 :: nat)"
  have k3: "s_ktable ?s3 = s_ktable s2" using o2 by (simp add: ReferenceObject_def)
  have h3: "8 \<in> open_handles ?s3 b" using e8 by (auto simp: open_handles_def ht.handles_of_def k3)
  have st1: "ob_step (\<lambda>_. 0, ob_demo) (?r1, s1)" using new_object [OF _ A(1), of "\<lambda>_. 0"] b0 by simp
  have st2: "ob_step (?r1, s1) (?r1, s2)" by (rule open_handle [OF I])
  have st3: "ob_step (?r1, s2) (?r2, ?s3)" using by_handle [OF R, of ?r1] by (simp add: max_refs_def flip: numeral_2_eq_2)
  have st4: "ob_step (?r2, ?s3) (?r2, snd (CloseHandle 8 ?s3))" by (rule close_handle [of _ _ "fst (CloseHandle 8 ?s3)"]) simp
  have run3: "ob_step\<^sup>*\<^sup>* (\<lambda>_. 0, ob_demo) (?r2, ?s3)" 
    by (rule converse_rtranclp_into_rtranclp [OF st1 converse_rtranclp_into_rtranclp [OF st2 r_into_rtranclp [of ob_step, OF st3]]])
  note P3 = objects_live [OF ob_demo_inv run3]
  note P4 = objects_live [OF ob_demo_inv rtranclp.rtrancl_into_rtrancl [OF run3 st4]]
  have ok: "table_ok (s_ktable ?s3)" using ob_steps_inv [OF run3] ob_demo_inv by (simp add: ob_inv_def)
  obtain t where F: "HandleTable_Free 8 (s_ktable ?s3) = (STATUS_SUCCESS, t)" using ht.free_ok [OF ok] e8 unfolding k3 by blast
  have C: "CloseHandle 8 ?s3 = (STATUS_SUCCESS, snd (CloseHandle 8 ?s3))"
    using F L2 by (simp add: CloseHandle_def k3 Let_def)
  have "s_ktable (snd (CloseHandle 8 ?s3)) = t"
    using F L2 by (simp add: CloseHandle_def k3 DereferenceObject_ktable Let_def)
  then have "8 \<notin> open_handles (snd (CloseHandle 8 ?s3)) b"
    using ht.handles_of_free [OF ok F, of b] by (simp add: open_handles_def)
  moreover have "is_object b ?s3" "is_object b (snd (CloseHandle 8 ?s3))" using P3 P4 by auto
  ultimately show ?thesis using P3 P4 C h3 by (intro exI [of _ b] exI [of _ ?s3] exI [of _ "snd (CloseHandle 8 ?s3)"]) simp
qed

text \<open>Without the bound the count overflows: two more references to an object with 2^31 - 1 of them,
  and the next dereference destroys it although the others are still held.\<close>
theorem reference_overflow:
  assumes "is_object b s" "RefCount (hdrs s (GetHeader b)) = 0x7FFFFFFF"
  shows "\<not> is_object b (DereferenceObject b (ReferenceObject b (ReferenceObject b s)))"
proof -
  let ?f = "\<lambda>h. h\<lparr>RefCount := RefCount h + 1\<rparr>"
  let ?s = "upd_hdr b ?f (upd_hdr b ?f s)"
  have R: "ReferenceObject b (ReferenceObject b s) = ?s" "is_object b ?s"
    using assms(1) by (simp_all add: ReferenceObject_def is_object_same)
  then show ?thesis using assms
    by (simp add: DereferenceObject_def Let_def) (simp add: is_object_def OB_MAGIC_def)
qed

lemma reference_overflow_witness:
  "\<exists>b s. is_object b s \<and> \<not> is_object b (DereferenceObject b (ReferenceObject b (ReferenceObject b s)))"
proof -
  obtain b s where b: "is_object b s" using ob_demo_object by blast
  let ?s = "upd_hdr b (\<lambda>h. h\<lparr>RefCount := 0x7FFFFFFF\<rparr>) s"
  have "is_object b ?s" using b by (simp add: is_object_same)
  then show ?thesis using reference_overflow [of b ?s] by auto
qed

lemma ns_find_None: "ns_find p es i = None \<longleftrightarrow> (\<forall>e\<in>set es. \<not> p e)"
  by (induction p es i rule: ns_find.induct) auto

lemma ns_find_unique:
  assumes "i < length es" "p (es ! i)" "\<forall>j<length es. p (es ! j) \<longrightarrow> j = i"
  shows "ns_find p es 0 = Some i"
proof (cases "ns_find p es 0")
  case None
  then show ?thesis using assms(1,2) by (auto simp: ns_find_None)
next
  case (Some k)
  have "k < length es" "p (es ! k)" using ns_find_Some [OF Some] by simp_all
  then have "k = i" using assms(3) by blast
  then show ?thesis using Some by simp
qed

text \<open>The only entry for path p is entry i.\<close>
definition only_entry :: "obmgr \<Rightarrow> cstr \<Rightarrow> nat \<Rightarrow> bool" where
  "only_entry s p i \<longleftrightarrow> i < length (s_namespace s) \<and> ns_path (s_namespace s ! i) = p \<and> ns_object (s_namespace s ! i) \<noteq> 0
     \<and> (\<forall>j<length (s_namespace s). ns_object (s_namespace s ! j) \<noteq> 0 \<and> ns_path (s_namespace s ! j) = p \<longrightarrow> j = i)"

text \<open>Creating a second object under a taken name succeeds without registering it, but keeps the
  name in its header: when that object dies it removes the name of the first one, which then
  cannot be found although it is alive.\<close>
theorem duplicate_name_lost:
  assumes "ob_inv r s" "only_entry s p i" "is_object (ns_object (s_namespace s ! i)) s"
    and "take 1 p = [CHR 0x5C]" "length p < 64" "BodySize (s_types s ! t) < 2 ^ 32"
    and "AllocateObject (Some t) (Some p) s = (b, s')" "b \<noteq> 0"
  shows "fst (LookupObjectByName (Some p) None s') = STATUS_SUCCESS
    \<and> is_object (ns_object (s_namespace s ! i)) (DereferenceObject b s')
    \<and> fst (LookupObjectByName (Some p) None (DereferenceObject b s')) = STATUS_OBJECT_NAME_NOT_FOUND"
proof -
  let ?es = "s_namespace s" and ?b1 = "ns_object (s_namespace s ! i)"
  have p0: "p \<noteq> ''''" and e: "str_copy p 64 = p" using assms(4,5) by (auto simp: str_copy_def)
  have find: "ns_find (\<lambda>e. ns_object e \<noteq> 0 \<and> str_eq (ns_path e) p) ?es 0 = Some i"
    by (rule ns_find_unique) (use assms(2) in \<open>auto simp: only_entry_def\<close>)
  obtain h hp' where A: "Heap_AllocZeroed (HEADER_SIZE + BodySize (s_types s ! t)) 8 (ob_heap s) = (h, hp')" by fastforce
  let ?d = "\<lparr>Magic = OB_MAGIC, oType = Some t, RefCount = 1, HandleCount = 0, oFlags = 0, oName = p\<rparr>"
  have h0: "h \<noteq> 0"
  proof
    assume "h = 0"
    then show False using assms(7,8) A by (simp add: AllocateObject_def)
  qed
  have "snd (InsertObjectByName (h + HEADER_SIZE) (Some p) (s\<lparr>ob_heap := hp', hdrs := (hdrs s)(h := ?d)\<rparr>))
      = s\<lparr>ob_heap := hp', hdrs := (hdrs s)(h := ?d)\<rparr>"
    using find by (simp add: InsertObjectByName_def)
  then have "AllocateObject (Some t) (Some p) s = (h + HEADER_SIZE, s\<lparr>ob_heap := hp', hdrs := (hdrs s)(h := ?d)\<rparr>)"
    using A h0 p0 by (simp add: AllocateObject_def e)
  then have h: "b = h + HEADER_SIZE" and s': "s' = s\<lparr>ob_heap := hp', hdrs := (hdrs s)(h := ?d)\<rparr>" using assms(7) by auto
  then have ns: "s_namespace s' = ?es" and hd: "hdrs s' = (hdrs s)(h := ?d)" by simp_all
  have gb: "GetHeader b = h" using h assms(8) by (simp add: GetHeader_def)
  then have hb: "hdrs s' (GetHeader b) = ?d" using hd by simp
  have nb: "\<not> is_object b s" using AllocateObject_inv(2) [OF assms(1,6,7,8)] .
  have live1: "is_object ?b1 s'" "?b1 \<noteq> b"
    using assms(3) nb by (auto simp: is_object_def hd)
  have liveb: "is_object b s'" using assms(8) by (simp add: is_object_def gb hd)
  have find': "ns_find (\<lambda>e. ns_object e \<noteq> 0 \<and> str_eq (ns_path e) p \<and> is_object (ns_object e) s') ?es 0 = Some i"
    by (rule ns_find_unique) (use assms(2) live1 in \<open>auto simp: only_entry_def\<close>)
  let ?s1 = "upd_hdr b (\<lambda>h. h\<lparr>RefCount := RefCount h - 1\<rparr>) s'"
  let ?s2 = "?s1\<lparr>s_namespace := ?es[i := \<lparr>ns_path = '''', ns_object = 0\<rparr>]\<rparr>"
  have D: "DereferenceObject b s' = upd_hdr b (\<lambda>h. h\<lparr>Magic := 0\<rparr>) (call_on_close b ?s2)"
    using liveb find p0 hb ns by (simp add: DereferenceObject_def RemoveObjectByName_def Let_def)
  have n2: "s_namespace (DereferenceObject b s') = ?es[i := \<lparr>ns_path = '''', ns_object = 0\<rparr>]"
    unfolding D by (simp add: call_on_close_def split: option.split)
  have none: "ns_find (\<lambda>e. ns_object e \<noteq> 0 \<and> str_eq (ns_path e) p \<and> is_object (ns_object e) s'') (?es[i := \<lparr>ns_path = '''', ns_object = 0\<rparr>]) 0 = None" for s''
  proof -
    have "\<not> (ns_object (?es[i := \<lparr>ns_path = '''', ns_object = 0\<rparr>] ! j) \<noteq> 0 \<and> ns_path (?es[i := \<lparr>ns_path = '''', ns_object = 0\<rparr>] ! j) = p)"
      if "j < length ?es" for j
    proof (cases "j = i")
      case False
      then have "\<not> (ns_object (?es ! j) \<noteq> 0 \<and> ns_path (?es ! j) = p)"
        using assms(2) that unfolding only_entry_def by blast
      then show ?thesis using False by simp
    qed (use that in simp)
    then show ?thesis unfolding ns_find_None all_set_conv_all_nth length_list_update str_eq_iff by blast
  qed
  have "is_object ?b1 (call_on_close b ?s2) = is_object ?b1 ?s1"
    by (simp add: is_object_def call_on_close_def split: option.split)
  then have "is_object ?b1 (DereferenceObject b s')"
    unfolding D using live1 assms(8) by (simp add: is_object_upd is_object_same)
  then show ?thesis using find' none by (simp add: LookupObjectByName_def ns n2 Let_def)
qed


lemma duplicate_name_lost_witness:
  "\<exists>b s' b2 s''. AllocateObject (Some 0) (Some [CHR 0x5C, CHR ''a'']) ob_demo = (b, s')
    \<and> AllocateObject (Some 0) (Some [CHR 0x5C, CHR ''a'']) s' = (b2, s'') \<and> is_object b (DereferenceObject b2 s'')
    \<and> fst (LookupObjectByName (Some [CHR 0x5C, CHR ''a'']) None (DereferenceObject b2 s'')) = STATUS_OBJECT_NAME_NOT_FOUND"
proof -
  let ?p = "[CHR 0x5C, CHR ''a'']"
  have ns: "s_namespace ob_demo = \<lparr>ns_path = '''', ns_object = 0\<rparr> # replicate 127 \<lparr>ns_path = '''', ns_object = 0\<rparr>"
    by (simp flip: replicate_Suc)
  obtain b s' where A: "AllocateObject (Some 0) (Some ?p) ob_demo = (b, s')" by fastforce
  have f: "ns_find (\<lambda>e. ns_object e \<noteq> 0 \<and> str_eq (ns_path e) ?p) (s_namespace ob_demo) 0 = None"
    by (simp add: ns_find_None)
  have b: "b = 0x400018 + 96" "s_namespace s' = (s_namespace ob_demo)[0 := \<lparr>ns_path = ?p, ns_object = b\<rparr>]"
    "s_types s' = s_types ob_demo" "ob_heap s' = snd (Heap_AllocZeroed 128 8 heap_demo)" using A f
    by (auto simp: AllocateObject_def InsertObjectByName_def str_copy_def Heap_AllocZeroed_def Heap_Alloc_def heap_demo_def
        AlignUp_def HEADER_SIZE_def Let_def ns simp del: ob_demo_sel(4))
  have i: "ob_inv ((\<lambda>_. 0)(b := 1)) s'" using AllocateObject_inv(1) [OF ob_demo_inv _ A] b by simp
  then have live: "is_object b s'" by (simp add: ob_inv_def)
  have o: "only_entry s' ?p 0" using b by (auto simp: only_entry_def nth_list_update)
  have o0: "ns_object (s_namespace s' ! 0) = b" using b by simp
  obtain b2 s'' where A2: "AllocateObject (Some 0) (Some ?p) s' = (b2, s'')" by fastforce
  have "b2 \<noteq> 0" using A2 b(3,4)
    by (auto simp: AllocateObject_def Heap_AllocZeroed_def Heap_Alloc_def heap_demo_def AlignUp_def HEADER_SIZE_def Let_def)
  then show ?thesis using duplicate_name_lost [OF i o _ _ _ _ A2] live A A2 b(3) by (auto simp: o0)
qed

end
