(* ===== verification/KernelBoot.thy ===== *)
theory KernelBoot
  imports Timer SystemCalls ObjectManager
begin

text \<open>The first half of kernel\_main, kernel/core/kernel\_main.cpp: the order in which interrupts, memory, objects, processes and files are
  started, and the tests that run in between; and SelfTestFileSection of kernel/syscall/syscall.cpp.  An assertion that fails stops the
  machine: None.  Log output, the serial port, the display adapter and the parts of the session, which have their own theories, are left
  out.\<close>

section \<open>Interrupts\<close>

text \<open>KB::Init drains the controller after it has reset its variables.\<close>
definition KB_start :: "'h inb \<Rightarrow> kbd \<Rightarrow> 'h \<Rightarrow> (kbd \<times> 'h) option" where
  "KB_start inb k h = map_option (\<lambda>h. (KB_Init k, h)) (drain inb h)"

text \<open>Steps 3 and M2, up to the timer.  The gates, the descriptors and the machine registers are written apart.\<close>
definition start_interrupts :: "'h inb \<Rightarrow> 'h outb \<Rightarrow> 'h irq_table \<Rightarrow> 'h kmachine \<Rightarrow> ('h irq_table \<times> 'h kmachine) option" where
  "start_interrupts inb outb tab m =
    (let m = m\<lparr>km_dev := PicInit outb (km_dev m)\<rparr>; tab = IrqInit tab in
     case KB_start inb (km_kbd m) (km_dev m) of None \<Rightarrow> None
     | Some (k, h) \<Rightarrow>
       let tab = IrqRegister 1 (Some (KB_Handler inb)) tab; h = PicSetMask inb outb 1 False h;
           tab = IrqRegister 12 (Some (Mouse_Handler inb)) tab in
       case Mouse_Init inb outb (km_mouse m) h of None \<Rightarrow> None
       | Some (mo, h) \<Rightarrow>
         let h = PicSetMask inb outb 12 False h
         in Some (PitInit inb outb 100 tab (m\<lparr>km_kbd := k, km_mouse := mo, km_dev := h\<rparr>)))"

section \<open>Memory\<close>

definition HEAP_PAGES :: nat where "HEAP_PAGES = 1024"

text \<open>Steps 4 to 6.\<close>
definition start_memory :: "u64 \<Rightarrow> MicroNTBootInfo option \<Rightarrow> psys \<Rightarrow> psys option" where
  "start_memory bm_start bi s =
    (let pm = PMM_Init bm_start bi (vm_pmm (p_vmm s));
         (heap_base, pm) = AllocPages HEAP_PAGES pm in
     if heap_base = 0 then None else
     Some (s\<lparr>p_heap := Heap_Init heap_base (of_nat (HEAP_PAGES * PAGE_SIZE)) (p_heap s), p_vmm := VMM_Init ((p_vmm s)\<lparr>vm_pmm := pm\<rparr>)\<rparr>))"

definition SENTINEL :: u64 where "SENTINEL = 0xDEADBEEFCAFE0001"

text \<open>The test M3.  A store through a virtual address is one at the physical address that it translates to.\<close>
definition M3_test :: "vmm \<Rightarrow> vmm option" where
  "M3_test v =
    (let (test_phys, v) = alloc_page v in
     if test_phys = 0 then None else
     let (test_va, v) = AllocKernelVA 1 v;
         (mapped, v) = MapPage test_va test_phys (PTE_PRESENT OR PTE_WRITABLE) v in
     if \<not> mapped then None else
     let resolved = V2P test_va v in
     if resolved \<noteq> test_phys then None else
     let v = wr64 (V2P test_va v) SENTINEL v;
         readback = rd64 v (V2P test_va v) in
     if readback \<noteq> SENTINEL then None else
     let v = UnmapPage test_va v
     in Some (v\<lparr>vm_pmm := FreePage test_phys (vm_pmm v)\<rparr>))"

text \<open>The test of protection: whether the page was writable before, is read-only after, and a free address has no entry; nothing is
  asserted.\<close>
definition VM_test :: "vmm \<Rightarrow> (bool \<times> bool \<times> bool) option \<times> vmm" where
  "VM_test v =
    (let (cr3, v) = CreateUserPml4 v; va = 0x650000000; (ph, v) = alloc_page v in
     if cr3 = 0 \<or> ph = 0 then (None, v) else
     let v = snd (MapPageInto cr3 va ph (PTE_PRESENT OR PTE_WRITABLE OR PTE_USER) v);
         rw_before = (GetPteInto cr3 va v AND PTE_WRITABLE \<noteq> 0);
         v = snd (ProtectPageInto cr3 va PTE_USER v);
         after = GetPteInto cr3 va v;
         ro_after = (after AND PTE_PRESENT \<noteq> 0 \<and> after AND PTE_WRITABLE = 0);
         free_ok = (GetPteInto cr3 0x999000000 v = 0)
     in (Some (rw_before, ro_after, free_ok), v))"

section \<open>Objects\<close>

definition GENERIC_ALL :: u32 where "GENERIC_ALL = 0x10000000"
definition TEST_PATH :: cstr where "TEST_PATH = [CHR 0x5C] @ ''OB'' @ [CHR 0x5C] @ ''Test''"

text \<open>A 64-bit field at the start of an object on the heap.\<close>
definition store_value :: "u64 \<Rightarrow> u64 \<Rightarrow> obmgr \<Rightarrow> obmgr" where
  "store_value obj v s = s\<lparr>ob_heap := (ob_heap s)\<lparr>hp_mem := (\<lambda>a. if unat (a - obj) < 8 then byte_of (unat (a - obj)) v else hp_mem (ob_heap s) a)\<rparr>\<rparr>"
definition load_value :: "u64 \<Rightarrow> obmgr \<Rightarrow> u64" where
  "load_value obj s = of_nat (le_val 8 (\<lambda>i. hp_mem (ob_heap s) (obj + of_nat i)))"

text \<open>The test M4.\<close>
definition M4_test :: "obmgr \<Rightarrow> obmgr option" where
  "M4_test s =
    (let (st, test_type, s) = CreateType (Some ''TestObject'') 8 0 s in
     if \<not> (NT_SUCCESS st \<and> test_type \<noteq> None) then None else
     let (obj, s) = AllocateObject test_type (Some TEST_PATH) s in
     if obj = 0 then None else
     let s = store_value obj 0xABCD1234 s;
         (st, h, s) = InsertObject obj GENERIC_ALL s in
     case h of None \<Rightarrow> None | Some h \<Rightarrow>
     if \<not> (NT_SUCCESS st \<and> h \<noteq> 0 \<and> h \<noteq> INVALID_HANDLE) then None else
     let (st, looked_up, s) = ReferenceObjectByHandle h test_type s in
     if \<not> (NT_SUCCESS st \<and> looked_up = Some obj) then None else
     if load_value obj s \<noteq> 0xABCD1234 then None else
     let s = DereferenceObject obj s;
         (st, by_name, s) = LookupObjectByName (Some TEST_PATH) test_type s in
     if \<not> (NT_SUCCESS st \<and> by_name = Some obj) then None else
     let s = DereferenceObject obj s;
         (st, s) = InsertObjectByName obj (Some TEST_PATH) s in
     if st \<noteq> STATUS_ALREADY_EXISTS then None else
     let (st, s) = CloseHandle h s in
     if \<not> NT_SUCCESS st then None else
     let (st, looked_up, s) = ReferenceObjectByHandle h None s in
     if st \<noteq> STATUS_INVALID_HANDLE then None else Some s)"

section \<open>Files and sections\<close>

fun map_section :: "u64 \<Rightarrow> u64 \<Rightarrow> nat \<Rightarrow> u64 list \<Rightarrow> vmm \<Rightarrow> bool \<times> vmm" where
  "map_section cr3 va j [] v = (True, v)"
| "map_section cr3 va j (f # fs) v =
    (let (ok, v) = MapPageInto cr3 (va + of_nat (j * PAGE_SIZE)) f (PTE_PRESENT OR PTE_USER) v
     in if ok then map_section cr3 va (j + 1) fs v else (False, v))"

definition is_MZ :: "vmm \<Rightarrow> u64 \<Rightarrow> bool" where "is_MZ v a \<longleftrightarrow> rd8 v a = 0x4D \<and> rd8 v (a + 1) = 0x5A"

definition SelfTestFileSection :: "'nv kstate \<Rightarrow> bool \<times> 'nv kstate" where
  "SelfTestFileSection s =
    (let (data, sz) = VFS_FindFile (Some ''hello3.exe'') (cs_vfs (ks_cmd s)) in
     if data = 0 \<or> sz < 2 then (True, s) else
     let v = p_vmm (ks_ps s);
         (h, secs, v) = CreateSectionFromData (\<lambda>i. rd8 v (data + i)) sz (ks_secs s) v;
         s = (set_ks_ps ((ks_ps s)\<lparr>p_vmm := v\<rparr>) s)\<lparr>ks_secs := secs\<rparr> in
     if h = 0 then (False, s) else
     let sec = secs ! unat (h - 1);
         pages = take (sec_pages sec) (sec_phys sec);
         copy_ok = is_MZ v (sec_phys sec ! 0);
         (cr3, v) = CreateUserPml4 v;
         va = 0x600000000;
         (mapped, v) = (if cr3 \<noteq> 0 then map_section cr3 va 0 pages v else (False, v));
         phys = TranslateInPml4 cr3 va v;
         map_ok = (mapped \<and> phys \<noteq> 0 \<and> is_MZ v phys);
         v = v\<lparr>vm_pmm := fold FreePage pages (vm_pmm v)\<rparr>
     in (copy_ok \<and> map_ok, (set_ks_ps ((ks_ps s)\<lparr>p_vmm := v\<rparr>) s)\<lparr>ks_secs := secs[unat (h - 1) := sec\<lparr>sec_in_use := False\<rparr>]\<rparr>))"

section \<open>The order\<close>

text \<open>Everything that the kernel has after the first eleven steps.\<close>
record 'nv kernel =
  kn_ks :: "'nv kstate"
  kn_ob :: obmgr
  kn_kuser :: u64

abbreviation "kn_vmm k \<equiv> p_vmm (ks_ps (kn_ks k))"
abbreviation "set_kn_ps p k \<equiv> k\<lparr>kn_ks := set_ks_ps p (kn_ks k)\<rparr>"
abbreviation "set_kn_vmm v k \<equiv> set_kn_ps ((ks_ps (kn_ks k))\<lparr>p_vmm := v\<rparr>) k"

text \<open>Steps 4 to 11; the object manager works on the kernel heap, and the boot information gives the file system its files.\<close>
definition start_kernel :: "u64 \<Rightarrow> MicroNTBootInfo option \<Rightarrow> (BootFile list \<times> u64) option \<Rightarrow> (u64 \<times> NVRAMHeader) option \<Rightarrow>
    'nv kernel \<Rightarrow> 'nv kernel option" where
  "start_kernel bm_start bi files getVar k = do {
     ps \<leftarrow> start_memory bm_start bi (ks_ps (kn_ks k));
     let k = set_kn_ps ps k;
     v \<leftarrow> M3_test (kn_vmm k);
     let (page, v) = KUSER_Init (pit_ticks (p_sys ps)) (kn_kuser k) v;
     let k = (set_kn_vmm v k)\<lparr>kn_kuser := page\<rparr>;
     ob \<leftarrow> M4_test (OB_Init ((kn_ob k)\<lparr>ob_heap := p_heap (ks_ps (kn_ks k))\<rparr>));
     let k = (set_kn_ps ((ks_ps (kn_ks k))\<lparr>p_heap := ob_heap ob\<rparr>) k)\<lparr>kn_ob := ob\<rparr>;
     ps \<leftarrow> PS_Init (ks_ps (kn_ks k));
     let k = set_kn_ps ps k;
     let k = k\<lparr>kn_ks := (kn_ks k)\<lparr>ks_cmd := (ks_cmd (kn_ks k))\<lparr>cs_vfs := VFS_Init files getVar\<rparr>\<rparr>\<rparr>;
     let k = k\<lparr>kn_ks := snd (SelfTestFileSection (kn_ks k))\<rparr>;
     Some (set_kn_vmm (snd (VM_test (kn_vmm k))) k) }"

section \<open>Properties\<close>

lemma load_store_value: "load_value obj (store_value obj v s) = v"
proof -
  have "le_val 8 (\<lambda>i. hp_mem (ob_heap (store_value obj v s)) (obj + of_nat i)) = le_val 8 (\<lambda>i. of_nat (unat v div 256 ^ i))"
    by (rule le_val_cong) (simp add: store_value_def unat_of_nat64 byte_of_nat)
  also have "\<dots> = unat v" unfolding le_val_digits by (rule mod_less) (use unat_lt64 [of v] in simp)
  finally show ?thesis by (simp add: load_value_def)
qed

lemma ns_find_replicate: "\<not> p x \<Longrightarrow> ns_find p (replicate n x) i = None"
  by (induction n arbitrary: i) simp_all

lemma reference_dereference:
  assumes "is_object ob s" "0 < sint (RefCount (hdrs s (GetHeader ob)))" shows "DereferenceObject ob (ReferenceObject ob s) = s"
proof -
  have "is_object ob (ReferenceObject ob s)" using assms(1) by (simp add: ReferenceObject_def is_object_def upd_hdr_def)
  moreover have "upd_hdr ob (\<lambda>h. h\<lparr>RefCount := RefCount h - 1\<rparr>) (ReferenceObject ob s) = s"
    using assms(1) by (simp add: ReferenceObject_def upd_hdr_def)
  ultimately show ?thesis using assms(2) by (simp add: DereferenceObject_def)
qed

text \<open>The self-test of the object manager.  On an object manager that has just been initialised the test M4 - create a type and a named object,
  find it by its handle and by its name, be refused a second object of that name, close the handle, be refused the closed handle - passes
  whenever the heap has room for the object.\<close>
theorem M4_passes:
  assumes "Heap_AllocZeroed 104 8 (ob_heap s) = (h, heap)" "h \<noteq> 0" "h + 96 \<noteq> 0" "s_types s \<noteq> []"
  shows "\<exists>s'. M4_test (OB_Init s) = Some s'"
proof -
  obtain T Ts where ty: "s_types s = T # Ts" using assms(4) by (cases "s_types s") auto
  define o' where "o' = h + 96"
  have o0: "o' \<noteq> 0" "GetHeader o' = h" using assms(3) by (simp_all add: o'_def GetHeader_def HEADER_SIZE_def)
  have k: "replicate 256 x = x # replicate 255 x" "replicate 128 x = x # replicate 127 x" for x :: 'b
  proof -
    have "(256 :: nat) = Suc 255" "(128 :: nat) = Suc 127" by simp_all
    then show "replicate 256 x = x # replicate 255 x" "replicate 128 x = x # replicate 127 x" by (simp_all only: replicate_Suc)
  qed
  define s1 where "s1 = snd (snd (CreateType (Some ''TestObject'') 8 0 (OB_Init s)))"
  have 1: "CreateType (Some ''TestObject'') 8 0 (OB_Init s) = (STATUS_SUCCESS, Some 0, s1)"
    by (simp add: s1_def CreateType_def OB_Init_def MAX_TYPES_def)
  have s1: "s_types s1 ! 0 = \<lparr>ot_name = str_copy ''TestObject'' 32, BodySize = 8, OnClose = 0, ot_index = 1\<rparr>" "ob_heap s1 = ob_heap s"
    "s_namespace s1 = replicate 128 \<lparr>ns_path = '''', ns_object = 0\<rparr>" "s_ktable s1 = HandleTable_Init"
    by (simp_all add: s1_def CreateType_def OB_Init_def MAX_TYPES_def ty OB_NAMESPACE_SIZE_def)
  define s2 where "s2 = snd (AllocateObject (Some 0) (Some TEST_PATH) s1)"
  have 2: "AllocateObject (Some 0) (Some TEST_PATH) s1 = (o', s2)"
    using assms by (simp add: s2_def AllocateObject_def s1 HEADER_SIZE_def o'_def Let_def)
  have tp: "TEST_PATH \<noteq> ''''" "take 1 TEST_PATH = [CHR 0x5C]" "length TEST_PATH < 128" "str_copy TEST_PATH 128 = TEST_PATH" "str_copy TEST_PATH 64 = TEST_PATH"
    "str_eq TEST_PATH TEST_PATH"
    by (simp_all add: TEST_PATH_def str_copy_def)
  have s2: "s_namespace s2 = \<lparr>ns_path = TEST_PATH, ns_object = o'\<rparr> # replicate 127 \<lparr>ns_path = '''', ns_object = 0\<rparr>" "s_ktable s2 = HandleTable_Init"
    "hdrs s2 h = \<lparr>Magic = OB_MAGIC, oType = Some 0, RefCount = 1, HandleCount = 0, oFlags = 0, oName = TEST_PATH\<rparr>"
    using assms tp by (simp_all add: s2_def AllocateObject_def s1 HEADER_SIZE_def o'_def InsertObjectByName_def k ns_find_replicate Let_def GetHeader_def)
  define s3 where "s3 = store_value o' 0xABCD1234 s2"
  have s3: "s_namespace s3 = s_namespace s2" "s_ktable s3 = s_ktable s2" "hdrs s3 = hdrs s2" "load_value o' s3 = 0xABCD1234"
    by (simp_all add: s3_def load_store_value) (simp_all add: store_value_def)
  define s4 where "s4 = snd (snd (InsertObject o' GENERIC_ALL s3))"
  have e: "HandleTable_Init = \<lparr>he_object = 0, GrantedAccess = 0\<rparr> # replicate 255 \<lparr>he_object = 0, GrantedAccess = 0\<rparr>"
    by (simp add: HandleTable_Init_def OB_HANDLE_TABLE_SIZE_def k)
  have obj: "is_object o' s3" using o0 by (simp add: is_object_def s3 s2)
  have 4: "InsertObject o' GENERIC_ALL s3 = (STATUS_SUCCESS, Some 8, s4)"
    using obj by (simp add: s4_def InsertObject_def s3 s2 e HandleTable_Alloc_def index_to_handle_def INVALID_HANDLE_def)
  have s4: "s_namespace s4 = s_namespace s2" "s_ktable s4 = \<lparr>he_object = o', GrantedAccess = GENERIC_ALL\<rparr> # replicate 255 \<lparr>he_object = 0, GrantedAccess = 0\<rparr>"
    "hdrs s4 h = \<lparr>Magic = OB_MAGIC, oType = Some 0, RefCount = 2, HandleCount = 1, oFlags = 0, oName = TEST_PATH\<rparr>" "load_value o' s4 = 0xABCD1234"
    using obj s3(4) o0 by (simp_all add: s4_def InsertObject_def s3 s2 e HandleTable_Alloc_def index_to_handle_def INVALID_HANDLE_def upd_hdr_def load_value_def)
  have hv: "handle_valid 8" "handle_to_index 8 = 0" by (simp_all add: handle_valid_def INVALID_HANDLE_def OB_HANDLE_TABLE_SIZE_def handle_to_index_def)
  have L: "HandleTable_Lookup 8 (s_ktable s4) = Some \<lparr>he_object = o', GrantedAccess = GENERIC_ALL\<rparr>"
    using o0 by (simp add: HandleTable_Lookup_def hv s4)
  have ob4: "is_object o' s4" using o0 by (simp add: is_object_def s4)
  note R = reference_dereference [OF ob4]
  have 5: "ReferenceObjectByHandle 8 (Some 0) s4 = (STATUS_SUCCESS, Some o', ReferenceObject o' s4)" "load_value o' (ReferenceObject o' s4) = 0xABCD1234"
    using ob4 o0 s4(4) by (simp_all only: ReferenceObjectByHandle_def L option.case HandleEntry.simps s4(3)) (simp_all add: ReferenceObject_def upd_hdr_def load_value_def s4)
  have 6: "LookupObjectByName (Some TEST_PATH) (Some 0) s4 = (STATUS_SUCCESS, Some o', ReferenceObject o' s4)"
    using ob4 o0 by (simp add: LookupObjectByName_def s4 s2)
  have 7: "InsertObjectByName o' (Some TEST_PATH) s4 = (STATUS_ALREADY_EXISTS, s4)"
    using o0 tp by (simp add: InsertObjectByName_def s4 s2)
  obtain s5 where 8: "CloseHandle 8 s4 = (STATUS_SUCCESS, s5)"
    "s_ktable s5 = \<lparr>he_object = 0, GrantedAccess = 0\<rparr> # replicate 255 \<lparr>he_object = 0, GrantedAccess = 0\<rparr>"
    using o0 by (simp add: CloseHandle_def L [unfolded s4(2)] HandleTable_Free_def hv s4 DereferenceObject_def upd_hdr_def is_object_def Let_def)
  have 9: "ReferenceObjectByHandle 8 None s5 = (STATUS_INVALID_HANDLE, None, s5)"
    by (simp add: ReferenceObjectByHandle_def HandleTable_Lookup_def hv 8(2))
  have n: "NT_SUCCESS STATUS_SUCCESS" "(8 :: u64) \<noteq> 0" "(8 :: u64) \<noteq> INVALID_HANDLE"
    by (simp_all add: NT_SUCCESS_def STATUS_SUCCESS_def INVALID_HANDLE_def)
  have "M4_test (OB_Init s) = Some s5"
    by (simp add: M4_test_def 1 2 o0 s3_def [symmetric] 4 n 5 R 6 7 8(1) 9 s4)
  then show ?thesis by blast
qed

lemma M4_passes_witness: "\<exists>s'. M4_test (OB_Init ob_demo) = Some s'"
proof (rule M4_passes [of _ "fst (Heap_AllocZeroed 104 8 heap_demo)" "snd (Heap_AllocZeroed 104 8 heap_demo)"])
  show "Heap_AllocZeroed 104 8 (ob_heap ob_demo) = (fst (Heap_AllocZeroed 104 8 heap_demo), snd (Heap_AllocZeroed 104 8 heap_demo))" by simp
  have "fst (Heap_AllocZeroed 104 8 heap_demo) = 0x400018" by (simp add: Heap_AllocZeroed_def Heap_Alloc_def heap_demo_def AlignUp_def)
  then show "fst (Heap_AllocZeroed 104 8 heap_demo) \<noteq> 0" "fst (Heap_AllocZeroed 104 8 heap_demo) + 96 \<noteq> 0" by simp_all
  show "s_types ob_demo \<noteq> []" by (simp add: ob_demo_def CreateType_def OB_Init_def MAX_TYPES_def)
qed

end
