(* ===== verification/SessionParts.thy ===== *)
theory SessionParts
  imports Scheduler
begin

text \<open>The parts of an interactive session that the session manager starts one after the other
  (kernel/sm/*.cpp and the session half of kernel/win32k/*.cpp): client/server runtime, window
  station and desktops, logon, profile, registry, services, application identity, explorer, shell
  surface, input routing, window manager, display target and theme.  Each operation checks what the
  earlier parts left ready, so it is a partial update: None is the return value false, and nothing
  has been written then.  A pointer to text is an optional string (None is nullptr), a process or
  thread pointer an optional node of the scheduler's state.  The log output is left out.\<close>

type_synonym text_ptr = "cstr option"

section \<open>Client/server runtime and graphics (csrss.cpp, compositor.cpp)\<close>

record Win32Session =
  w32_SessionId :: u32
  w32_RuntimeReady :: bool
  w32_ConsoleReady :: bool

record SessionGraphics =
  gfx_SessionId :: u32
  gfx_Win32Attached :: bool

definition CreateWin32Session :: "u32 \<Rightarrow> Win32Session \<Rightarrow> Win32Session option" where
  "CreateWin32Session sid s = Some (s\<lparr>w32_SessionId := sid, w32_RuntimeReady := True, w32_ConsoleReady := False\<rparr>)"

definition StartConsoleRuntime :: "Win32Session \<Rightarrow> Win32Session option" where
  "StartConsoleRuntime s = (if \<not> w32_RuntimeReady s then None else Some (s\<lparr>w32_ConsoleReady := True\<rparr>))"

text \<open>The first argument is the flag s\_initialized, which WIN32K::Init sets.\<close>
definition AttachSession :: "bool \<Rightarrow> Win32Session \<Rightarrow> SessionGraphics \<Rightarrow> SessionGraphics option" where
  "AttachSession initialized s g = (if \<not> initialized \<or> \<not> w32_RuntimeReady s then None
     else Some (g\<lparr>gfx_SessionId := w32_SessionId s, gfx_Win32Attached := True\<rparr>))"

section \<open>Window station and desktops (winsta.cpp)\<close>

datatype DesktopKind = SecureLogon | ShellDesk

record Desktop =
  dt_SessionId :: u32
  dt_Kind :: DesktopKind
  dt_Name :: text_ptr
  dt_Active :: bool

record WindowStation =
  ws_SessionId :: u32
  ws_Ready :: bool

definition CreateInteractiveWindowStation :: "u32 \<Rightarrow> WindowStation \<Rightarrow> WindowStation option" where
  "CreateInteractiveWindowStation sid s = Some (s\<lparr>ws_SessionId := sid, ws_Ready := True\<rparr>)"

definition CreateDesktop :: "WindowStation \<Rightarrow> DesktopKind \<Rightarrow> text_ptr \<Rightarrow> Desktop \<Rightarrow> Desktop option" where
  "CreateDesktop station kind name d = (if \<not> ws_Ready station \<or> name = None then None
     else Some (d\<lparr>dt_SessionId := ws_SessionId station, dt_Kind := kind, dt_Name := name, dt_Active := False\<rparr>))"

definition SwitchDesktop :: "Desktop \<Rightarrow> Desktop option" where
  "SwitchDesktop d = (if dt_Name d = None then None else Some (d\<lparr>dt_Active := True\<rparr>))"

section \<open>Logon (winlogon.cpp)\<close>

datatype LogonState = LogonCreated | WaitingForCredentials | Authenticated | UserinitAllowed

record LogonSession =
  lo_SessionId :: u32
  lo_State :: LogonState

definition CreateLogonSession :: "Desktop \<Rightarrow> LogonSession \<Rightarrow> (LogonSession \<times> Desktop) option" where
  "CreateLogonSession secure l = (case SwitchDesktop secure of None \<Rightarrow> None
     | Some d \<Rightarrow> Some (l\<lparr>lo_SessionId := dt_SessionId d, lo_State := WaitingForCredentials\<rparr>, d))"

definition AcceptAutoLogon :: "LogonSession \<Rightarrow> LogonSession option" where
  "AcceptAutoLogon l = (if lo_State l \<noteq> WaitingForCredentials then None
     else Some (l\<lparr>lo_State := Authenticated\<rparr>))"

definition AllowUserinit :: "LogonSession \<Rightarrow> LogonSession option" where
  "AllowUserinit l = (if lo_State l \<noteq> Authenticated then None else Some (l\<lparr>lo_State := UserinitAllowed\<rparr>))"

section \<open>Profile, services and application identity (profile.cpp, services.cpp, appmodel.cpp)\<close>

record UserProfile =
  pf_SessionId :: u32
  pf_UserName :: text_ptr
  pf_HomeDirectory :: text_ptr
  pf_HiveLoaded :: bool
  pf_EnvironmentReady :: bool

definition LoadUserProfile :: "u32 \<Rightarrow> text_ptr \<Rightarrow> UserProfile \<Rightarrow> UserProfile option" where
  "LoadUserProfile sid user p = Some (p\<lparr>pf_SessionId := sid,
     pf_UserName := (case user of None \<Rightarrow> Some ''DefaultUser'' | Some u \<Rightarrow> Some u),
     pf_HomeDirectory := Some ([CHR 0x5C] @ ''Users'' @ [CHR 0x5C] @ ''DefaultUser''),
     pf_HiveLoaded := True, pf_EnvironmentReady := False\<rparr>)"

definition ApplyEnvironment :: "UserProfile \<Rightarrow> UserProfile option" where
  "ApplyEnvironment p = (if \<not> pf_HiveLoaded p then None else Some (p\<lparr>pf_EnvironmentReady := True\<rparr>))"

record ServiceControlPlane =
  sv_SessionId :: u32
  sv_ControlPlaneReady :: bool
  sv_CoreServicesStarted :: bool

definition StartControlPlane :: "u32 \<Rightarrow> ServiceControlPlane \<Rightarrow> ServiceControlPlane option" where
  "StartControlPlane sid s =
     Some (s\<lparr>sv_SessionId := sid, sv_ControlPlaneReady := True, sv_CoreServicesStarted := False\<rparr>)"

definition StartCoreServices :: "ServiceControlPlane \<Rightarrow> ServiceControlPlane option" where
  "StartCoreServices s = (if \<not> sv_ControlPlaneReady s then None else Some (s\<lparr>sv_CoreServicesStarted := True\<rparr>))"

record AppIdentity =
  ai_SessionId :: u32
  ai_AppId :: text_ptr
  ai_ImageName :: text_ptr
  ai_Registered :: bool

definition RegisterShellApp :: "u32 \<Rightarrow> text_ptr \<Rightarrow> AppIdentity \<Rightarrow> AppIdentity option" where
  "RegisterShellApp sid img a = (if sid = 0 \<or> img = None then None
     else Some (a\<lparr>ai_SessionId := sid, ai_AppId := Some ''MicroNT.Desktop.Explorer'', ai_ImageName := img,
       ai_Registered := True\<rparr>))"

definition ActivateShellApp :: "AppIdentity \<Rightarrow> AppIdentity option" where
  "ActivateShellApp a = (if \<not> ai_Registered a then None else Some a)"

section \<open>Registry (registry.cpp)\<close>

definition WINLOGON_KEY :: cstr where
  "WINLOGON_KEY = (let b = [CHR 0x5C] in b @ ''Registry'' @ b @ ''Machine'' @ b @ ''Software'' @ b @
     ''Microsoft'' @ b @ ''Windows NT'' @ b @ ''CurrentVersion'' @ b @ ''Winlogon'')"

text \<open>The values as (key, name, data).\<close>
definition SYSTEM_VALUES :: "(cstr \<times> cstr \<times> cstr) list" where
  "SYSTEM_VALUES = [(WINLOGON_KEY, ''Shell'', ''explorer.exe''), (WINLOGON_KEY, ''Userinit'', ''userinit.exe'')]"

fun chars_eq :: "cstr \<Rightarrow> cstr \<Rightarrow> bool" where
  "chars_eq (x # xs) (y # ys) = (if x \<noteq> y then False else chars_eq xs ys)"
| "chars_eq [] [] = True"
| "chars_eq _ _ = False"

text \<open>StrEq, and the same StringEquals of shellplaces.cpp and shellcommands.cpp.\<close>
definition StrEq :: "text_ptr \<Rightarrow> text_ptr \<Rightarrow> bool" where
  "StrEq a b = (case (a, b) of (Some x, Some y) \<Rightarrow> chars_eq x y | _ \<Rightarrow> False)"

fun query_values :: "(cstr \<times> cstr \<times> cstr) list \<Rightarrow> text_ptr \<Rightarrow> text_ptr \<Rightarrow> text_ptr" where
  "query_values [] key name = None"
| "query_values ((k, n, d) # vs) key name =
     (if StrEq (Some k) key \<and> StrEq (Some n) name then Some d else query_values vs key name)"

text \<open>The first argument is the flag s\_system\_hive\_loaded, which LoadSystemHive sets.\<close>
definition QueryString :: "bool \<Rightarrow> text_ptr \<Rightarrow> text_ptr \<Rightarrow> text_ptr" where
  "QueryString loaded key name = (if \<not> loaded then None else query_values SYSTEM_VALUES key name)"

lemma chars_eq_iff [simp]: "chars_eq a b \<longleftrightarrow> a = b"
  by (induction a b rule: chars_eq.induct) auto

lemma StrEq_Some [simp]: "StrEq (Some a) (Some b) \<longleftrightarrow> a = b"
  by (simp add: StrEq_def)

lemma StrEq_None [simp]: "\<not> StrEq None b" "\<not> StrEq a None"
  by (auto simp: StrEq_def split: option.splits)

lemma QueryString_Shell: "QueryString loaded (Some WINLOGON_KEY) (Some ''Shell'') = (if loaded then Some ''explorer.exe'' else None)"
  by (simp add: QueryString_def SYSTEM_VALUES_def)

lemma QueryString_Userinit: "QueryString loaded (Some WINLOGON_KEY) (Some ''Userinit'') = (if loaded then Some ''userinit.exe'' else None)"
  by (simp add: QueryString_def SYSTEM_VALUES_def)

section \<open>Explorer, shell surface and input routing (explorer.cpp, shellhost.cpp, inputhost.cpp)\<close>

record Shell =
  sh_SessionId :: u32
  sh_Process :: "nat option"
  sh_Thread :: "nat option"
  sh_Registered :: bool

definition RegisterShell :: "u32 \<Rightarrow> nat option \<Rightarrow> nat option \<Rightarrow> Shell \<Rightarrow> Shell option" where
  "RegisterShell sid p t s = (if p = None \<or> t = None then None
     else Some (s\<lparr>sh_SessionId := sid, sh_Process := p, sh_Thread := t, sh_Registered := True\<rparr>))"

text \<open>StartShellThread puts the shell's thread in the scheduler's ready queue.\<close>
definition StartShellThread :: "Shell \<Rightarrow> ksys \<Rightarrow> ksys option" where
  "StartShellThread s k = (if \<not> sh_Registered s then None else
     case sh_Thread s of None \<Rightarrow> None | Some t \<Rightarrow> Some (AddThread (Thr t) k))"

record ShellSurface =
  sf_SessionId :: u32
  sf_TaskbarReady :: bool
  sf_StartSurfaceReady :: bool
  sf_TrayReady :: bool
  sf_BoundToExplorer :: bool

definition CreateShellSurface :: "Desktop \<Rightarrow> ShellSurface \<Rightarrow> ShellSurface option" where
  "CreateShellSurface d s = (if dt_SessionId d = 0 then None
     else Some (s\<lparr>sf_SessionId := dt_SessionId d, sf_TaskbarReady := True, sf_StartSurfaceReady := True,
       sf_TrayReady := True, sf_BoundToExplorer := False\<rparr>))"

definition BindExplorer :: "Shell \<Rightarrow> ShellSurface \<Rightarrow> ShellSurface option" where
  "BindExplorer sh s = (if \<not> sh_Registered sh \<or> sh_SessionId sh \<noteq> sf_SessionId s then None
     else Some (s\<lparr>sf_BoundToExplorer := True\<rparr>))"

definition ComposeDesktop :: "ShellSurface \<Rightarrow> ShellSurface option" where
  "ComposeDesktop s = (if \<not> sf_TaskbarReady s \<or> \<not> sf_StartSurfaceReady s \<or> \<not> sf_TrayReady s \<or>
     \<not> sf_BoundToExplorer s then None else Some s)"

record InputDesktop =
  in_SessionId :: u32
  in_AttachedToDesktop :: bool
  in_FocusedShellSurface :: bool
  in_CursorVisible :: bool

definition AttachDesktop :: "Desktop \<Rightarrow> InputDesktop \<Rightarrow> InputDesktop option" where
  "AttachDesktop d i = (if dt_SessionId d = 0 then None
     else Some (i\<lparr>in_SessionId := dt_SessionId d, in_AttachedToDesktop := True,
       in_FocusedShellSurface := False, in_CursorVisible := False\<rparr>))"

definition FocusShellSurface :: "ShellSurface \<Rightarrow> InputDesktop \<Rightarrow> InputDesktop option" where
  "FocusShellSurface s i = (if \<not> in_AttachedToDesktop i \<or> sf_SessionId s \<noteq> in_SessionId i \<or>
     \<not> sf_BoundToExplorer s then None else Some (i\<lparr>in_FocusedShellSurface := True\<rparr>))"

definition ShowCursor :: "InputDesktop \<Rightarrow> InputDesktop option" where
  "ShowCursor i = (if \<not> in_FocusedShellSurface i then None else Some (i\<lparr>in_CursorVisible := True\<rparr>))"

section \<open>Window manager (windowmgr.cpp)\<close>

datatype WindowKind = WkDesktop | WkShell | WkTaskbar

record Window =
  wi_Id :: u32
  wi_Kind :: WindowKind
  wi_Title :: text_ptr
  wi_Visible :: bool
  wi_Foreground :: bool

record DesktopScene =
  sc_SessionId :: u32
  sc_Windows :: "Window list"
  sc_WindowCount :: u32
  sc_ZOrderReady :: bool

definition MakeSceneWindow :: "u32 \<Rightarrow> WindowKind \<Rightarrow> cstr \<Rightarrow> Window" where
  "MakeSceneWindow sid kind title =
    \<lparr>wi_Id = sid, wi_Kind = kind, wi_Title = Some title, wi_Visible = True, wi_Foreground = False\<rparr>"

definition scene_push :: "Window \<Rightarrow> DesktopScene \<Rightarrow> DesktopScene" where
  "scene_push w s = s\<lparr>sc_Windows := (sc_Windows s)[unat (sc_WindowCount s) := w],
     sc_WindowCount := sc_WindowCount s + 1\<rparr>"

definition CreateDesktopScene :: "Desktop \<Rightarrow> DesktopScene \<Rightarrow> DesktopScene option" where
  "CreateDesktopScene d s = (if dt_SessionId d = 0 then None else
     let s = s\<lparr>sc_SessionId := dt_SessionId d, sc_WindowCount := 0, sc_ZOrderReady := False\<rparr>
     in Some (scene_push (MakeSceneWindow 1 WkDesktop ''Progman'') s))"

definition AttachShellSurface :: "ShellSurface \<Rightarrow> DesktopScene \<Rightarrow> DesktopScene option" where
  "AttachShellSurface f s = (if sf_SessionId f \<noteq> sc_SessionId s \<or> \<not> sf_BoundToExplorer f then None else
     if sc_WindowCount s + 2 > 4 then None else
     let s = scene_push (MakeSceneWindow 2 WkShell ''explorer.exe'') s;
         s = scene_push (MakeSceneWindow 3 WkTaskbar ''Shell_TrayWnd'') s
     in Some (s\<lparr>sc_ZOrderReady := True\<rparr>))"

text \<open>The flags are written before the search is known to fail, so the scene is returned with the
  result.\<close>
definition SetForegroundWindow :: "u32 \<Rightarrow> DesktopScene \<Rightarrow> bool \<times> DesktopScene" where
  "SetForegroundWindow sid s = (if \<not> sc_ZOrderReady s then (False, s) else
     let n = unat (sc_WindowCount s);
         ws = map (\<lambda>w. w\<lparr>wi_Foreground := (wi_Id w = sid)\<rparr>) (take n (sc_Windows s));
         s = s\<lparr>sc_Windows := ws @ drop n (sc_Windows s)\<rparr>
     in (\<exists>w\<in>set ws. wi_Foreground w, s))"

section \<open>Display target and theme (displaycfg.cpp, uxtheme.cpp)\<close>

record DisplayMode =
  dm_Width :: u32
  dm_Height :: u32
  dm_Stride :: u32
  dm_Format :: u32
  dm_FullHd :: bool

record DisplayTarget =
  tg_SessionId :: u32
  tg_Mode :: DisplayMode
  tg_Attached :: bool
  tg_MetricsReady :: bool

text \<open>VGA::GetFramebufferInfo of the display driver: width, height, stride and format, or None
  when there is no framebuffer or a side of it is 0.\<close>
type_synonym framebuffer = "(u32 \<times> u32 \<times> u32 \<times> u32) option"

definition QueryPrimaryMode :: "framebuffer \<Rightarrow> DisplayMode \<Rightarrow> DisplayMode option" where
  "QueryPrimaryMode fb m = (case fb of None \<Rightarrow> None | Some (w, h, st, f) \<Rightarrow>
     Some (m\<lparr>dm_Width := w, dm_Height := h, dm_Stride := st, dm_Format := f, dm_FullHd := (w = 1920 \<and> h = 1080)\<rparr>))"

definition AttachSessionTarget :: "u32 \<Rightarrow> DisplayMode \<Rightarrow> DisplayTarget \<Rightarrow> DisplayTarget option" where
  "AttachSessionTarget sid m t = (if sid = 0 \<or> dm_Width m = 0 \<or> dm_Height m = 0 then None
     else Some (t\<lparr>tg_SessionId := sid, tg_Mode := m, tg_Attached := True, tg_MetricsReady := False\<rparr>))"

definition ApplyDesktopMetrics :: "DisplayTarget \<Rightarrow> DisplayTarget option" where
  "ApplyDesktopMetrics t = (if \<not> tg_Attached t then None else Some (t\<lparr>tg_MetricsReady := True\<rparr>))"

record Theme =
  th_Name :: text_ptr
  th_WallpaperTop :: u32
  th_WallpaperBottom :: u32
  th_TaskbarTop :: u32
  th_TaskbarBottom :: u32
  th_StartTop :: u32
  th_StartBottom :: u32
  th_WindowFrame :: u32
  th_WindowTitleTop :: u32
  th_WindowTitleBottom :: u32
  th_Accent :: u32
  th_DarkMode :: bool
  th_HighResolutionMetrics :: bool

definition LoadDefaultTheme :: "Theme \<Rightarrow> Theme option" where
  "LoadDefaultTheme t = Some (t\<lparr>th_Name := Some ''MicroNT XP.11 Fusion'', th_WallpaperTop := 0x4F9BEE,
     th_WallpaperBottom := 0xCDEBFF, th_TaskbarTop := 0x4C93F0, th_TaskbarBottom := 0x16409E,
     th_StartTop := 0x8FD15A, th_StartBottom := 0x2C8B1E, th_WindowFrame := 0xF3F3F3,
     th_WindowTitleTop := 0x4090F4, th_WindowTitleBottom := 0x1B5BD0, th_Accent := 0x0078D4,
     th_DarkMode := False, th_HighResolutionMetrics := True\<rparr>)"

end
