(* ===== verification/ShellDesktop.thy ===== *)
theory ShellDesktop
  imports SessionParts
begin

text \<open>The desktop layout of kernel/win32k/desktopmodel.cpp, the pointer hit-testing of
  kernel/win32k/shellinput.cpp and the placement decisions of VGA::StartDesktop in
  kernel/hal/x64/vga.cpp that hit-testing has to agree with.  Coordinates are 32-bit words that
  wrap; the array of eight windows is a list of length eight, of which the first WindowCount are
  in use.\<close>

section \<open>The layout (desktopmodel.cpp)\<close>

datatype IconKind = IconComputer | IconFolder | IconNetwork | IconMedia | IconControl | IconRecycle

record DesktopIcon =
  ic_Kind :: IconKind
  ic_Label :: text_ptr

record ShellWindow =
  win_Title :: text_ptr
  win_Status :: text_ptr
  win_X :: u32
  win_Y :: u32
  win_Width :: u32
  win_Height :: u32
  win_Toolbar :: bool

record DesktopLayout =
  lay_SessionId :: u32
  lay_BrandName :: text_ptr
  lay_BrandTag :: text_ptr
  lay_ScreenW :: u32
  lay_ScreenH :: u32
  lay_Icons :: "DesktopIcon list"
  lay_IconCount :: u32
  lay_Windows :: "ShellWindow list"
  lay_WindowCount :: u32
  lay_StartMenuOpen :: bool
  lay_Ready :: bool

record TaskbarMetrics =
  tb_Height :: u32
  tb_Y :: u32
  tb_StartX :: u32
  tb_StartW :: u32
  tb_FirstButtonX :: u32
  tb_ButtonW :: u32
  tb_ButtonGap :: u32
  tb_ButtonCount :: u32
  tb_TrayX :: u32
  tb_TrayW :: u32

definition DesktopIcon0 :: DesktopIcon where "DesktopIcon0 = \<lparr>ic_Kind = IconComputer, ic_Label = None\<rparr>"

definition ShellWindow0 :: ShellWindow where
  "ShellWindow0 = \<lparr>win_Title = None, win_Status = None, win_X = 0, win_Y = 0, win_Width = 0, win_Height = 0,
     win_Toolbar = False\<rparr>"

definition DesktopLayout0 :: DesktopLayout where
  "DesktopLayout0 = \<lparr>lay_SessionId = 0, lay_BrandName = None, lay_BrandTag = None, lay_ScreenW = 0, lay_ScreenH = 0,
     lay_Icons = replicate 8 DesktopIcon0, lay_IconCount = 0, lay_Windows = replicate 8 ShellWindow0,
     lay_WindowCount = 0, lay_StartMenuOpen = False, lay_Ready = False\<rparr>"

definition MakeDesktopIcon :: "IconKind \<Rightarrow> cstr \<Rightarrow> DesktopIcon" where
  "MakeDesktopIcon kind label = \<lparr>ic_Kind = kind, ic_Label = Some label\<rparr>"

definition MakeWindow :: "cstr \<Rightarrow> cstr \<Rightarrow> u32 \<Rightarrow> u32 \<Rightarrow> u32 \<Rightarrow> u32 \<Rightarrow> bool \<Rightarrow> ShellWindow" where
  "MakeWindow title status x y w h toolbar = \<lparr>win_Title = Some title, win_Status = Some status, win_X = x,
     win_Y = y, win_Width = w, win_Height = h, win_Toolbar = toolbar\<rparr>"

definition add_icon :: "DesktopIcon \<Rightarrow> DesktopLayout \<Rightarrow> DesktopLayout" where
  "add_icon i l = l\<lparr>lay_Icons := (lay_Icons l)[unat (lay_IconCount l) := i], lay_IconCount := lay_IconCount l + 1\<rparr>"

definition add_window :: "ShellWindow \<Rightarrow> DesktopLayout \<Rightarrow> DesktopLayout" where
  "add_window w l =
     l\<lparr>lay_Windows := (lay_Windows l)[unat (lay_WindowCount l) := w], lay_WindowCount := lay_WindowCount l + 1\<rparr>"

definition layout_icons :: "DesktopIcon list" where
  "layout_icons = [MakeDesktopIcon IconComputer ''Computer'', MakeDesktopIcon IconFolder ''Documents'',
     MakeDesktopIcon IconNetwork ''Network'', MakeDesktopIcon IconMedia ''Media'',
     MakeDesktopIcon IconControl ''Control'', MakeDesktopIcon IconRecycle ''Recycle'']"

definition layout_windows :: "ShellWindow list" where
  "layout_windows =
    [MakeWindow ''My Computer'' ''MICRONT-SYSTEM  WORKGROUP'' 228 38 665 430 True,
     MakeWindow ''Documents'' ''10 items'' 1015 58 620 365 True,
     MakeWindow ''Network'' ''Signal: excellent'' 645 420 575 290 True,
     MakeWindow ''Control Panel'' ''MicroNT Control Center'' 1238 420 600 360 False,
     MakeWindow ''Media Player'' ''02:37 / 05:45'' 430 708 720 260 True]"

definition BuildXpRedesignLayout :: "DesktopScene \<Rightarrow> DesktopLayout option" where
  "BuildXpRedesignLayout scene = (if \<not> sc_ZOrderReady scene \<or> sc_SessionId scene = 0 then None else
     let l = DesktopLayout0\<lparr>lay_SessionId := sc_SessionId scene, lay_BrandName := Some ''MicroNT'',
               lay_BrandTag := Some ''Simply Fast. Reliably Yours.'', lay_ScreenW := 1920, lay_ScreenH := 1080,
               lay_StartMenuOpen := False, lay_Ready := True\<rparr>
     in Some (fold add_window layout_windows (fold add_icon layout_icons l)))"

definition ComputeTaskbar :: "u32 \<Rightarrow> u32 \<Rightarrow> u32 \<Rightarrow> TaskbarMetrics" where
  "ComputeTaskbar screen_w screen_h button_count =
    (let screen_w = (if screen_w = 0 then 1920 else screen_w);
         screen_h = (if screen_h = 0 then 1080 else screen_h);
         height = (if screen_h \<ge> 720 then 48 else 40);
         button_w = 44; gap = 6;
         items = button_count + 1;
         slot = button_w + gap;
         cluster_w = items * button_w + (items - 1) * gap;
         cluster_x = (if screen_w > cluster_w then (screen_w - cluster_w) div 2 else 0);
         tray_w = (if screen_w \<ge> 640 then 200 else 120)
     in \<lparr>tb_Height = height, tb_Y = screen_h - height, tb_StartX = cluster_x, tb_StartW = button_w,
         tb_FirstButtonX = cluster_x + slot, tb_ButtonW = button_w, tb_ButtonGap = gap,
         tb_ButtonCount = button_count, tb_TrayX = (if screen_w > tray_w then screen_w - tray_w else 0),
         tb_TrayW = tray_w\<rparr>)"

section \<open>The pointer (shellinput.cpp)\<close>

datatype HitTargetKind = NoTarget | DesktopTarget | DesktopIconTarget | ShellWindowTarget | WindowCloseTarget
  | StartButtonTarget | StartMenuTarget | TaskbarTarget | TrayTarget

record PointerState =
  pt_SessionId :: u32
  pt_X :: u32
  pt_Y :: u32
  pt_HotTarget :: HitTargetKind
  pt_TargetIndex :: u32
  pt_HitTestingReady :: bool
  pt_LeftButtonDown :: bool
  pt_ClickDelivered :: bool

record PointerEvent =
  ev_Moved :: bool
  ev_Clicked :: bool
  ev_Target :: HitTargetKind
  ev_TargetIndex :: u32

definition InRect :: "u32 \<Rightarrow> u32 \<Rightarrow> u32 \<Rightarrow> u32 \<Rightarrow> u32 \<Rightarrow> u32 \<Rightarrow> bool" where
  "InRect px py x y w h \<longleftrightarrow> px \<ge> x \<and> py \<ge> y \<and> px < x + w \<and> py < y + h"

text \<open>The close button and the whole of a window.\<close>
definition on_close :: "u32 \<Rightarrow> u32 \<Rightarrow> ShellWindow \<Rightarrow> bool" where
  "on_close px py w = InRect px py (win_X w + win_Width w - 46) (win_Y w) 46 32"

definition on_body :: "u32 \<Rightarrow> u32 \<Rightarrow> ShellWindow \<Rightarrow> bool" where
  "on_body px py w = InRect px py (win_X w) (win_Y w) (win_Width w) (win_Height w)"

text \<open>The loop over the windows runs from the last one, on top, down to the first.\<close>
primrec hit_windows :: "ShellWindow list \<Rightarrow> u32 \<Rightarrow> u32 \<Rightarrow> nat \<Rightarrow> (HitTargetKind \<times> u32) option" where
  "hit_windows ws px py 0 = None"
| "hit_windows ws px py (Suc i) =
    (if on_close px py (ws ! i) then Some (WindowCloseTarget, of_nat i)
     else if on_body px py (ws ! i) then Some (ShellWindowTarget, of_nat i)
     else hit_windows ws px py i)"

lemma unat_step: "i < n \<Longrightarrow> unat (i + 1) = Suc (unat i)" for i n :: "'a::len word"
proof -
  assume "i < n"
  then have "i \<noteq> - 1" using word_order.extremum_strict by blast
  then have "1 + i \<noteq> 0" by (metis add.commute add_eq_0_iff2)
  from unatSuc [OF this] show ?thesis by (simp add: add.commute)
qed

function hit_icons :: "u32 \<Rightarrow> u32 \<Rightarrow> u32 \<Rightarrow> u32 \<Rightarrow> u32 option" where
  "hit_icons px py i n = (if i < n then
     if InRect px py 18 (14 + i * 92) 96 84 then Some i else hit_icons px py (i + 1) n
     else None)"
  by auto
termination
  by (relation "measure (\<lambda>(px, py, i, n). unat n - unat i)") (auto simp: unat_step word_less_nat_alt)

declare hit_icons.simps [simp del]

definition hit_taskbar :: "TaskbarMetrics \<Rightarrow> u32 \<Rightarrow> u32 \<Rightarrow> HitTargetKind \<times> u32" where
  "hit_taskbar tb px py =
    (if InRect px py (tb_StartX tb) (tb_Y tb) (tb_StartW tb) (tb_Height tb) then (StartButtonTarget, 0)
     else if px \<ge> tb_TrayX tb then (TrayTarget, 0)
     else let slot = tb_ButtonW tb + tb_ButtonGap tb in
       if px \<ge> tb_FirstButtonX tb \<and> px < tb_FirstButtonX tb + tb_ButtonCount tb * slot
       then (TaskbarTarget, (px - tb_FirstButtonX tb) div slot)
       else (TaskbarTarget, 0))"

text \<open>The flyout above the taskbar.\<close>
definition menu_x :: "DesktopLayout \<Rightarrow> u32" where
  "menu_x l = (if lay_ScreenW l > 640 then (lay_ScreenW l - 640) div 2 else 0)"

definition menu_y :: "u32 \<Rightarrow> u32" where
  "menu_y task_y = (if task_y > 720 + 12 then task_y - 720 - 12 else 0)"

definition hit_menu :: "DesktopLayout \<Rightarrow> u32 \<Rightarrow> u32 \<Rightarrow> u32 \<Rightarrow> (HitTargetKind \<times> u32) option" where
  "hit_menu l task_y px py =
    (if lay_StartMenuOpen l \<and> InRect px py (menu_x l) (menu_y task_y) 640 720
     then Some (StartMenuTarget, if py > menu_y task_y + 120 then (py - menu_y task_y - 120) div 96 else 0)
     else None)"

definition hit_target :: "DesktopLayout \<Rightarrow> u32 \<Rightarrow> u32 \<Rightarrow> HitTargetKind \<times> u32" where
  "hit_target l px py =
    (let tb = ComputeTaskbar (lay_ScreenW l) (lay_ScreenH l) (lay_WindowCount l) in
     if py \<ge> tb_Y tb then hit_taskbar tb px py else
     case hit_menu l (tb_Y tb) px py of Some r \<Rightarrow> r | None \<Rightarrow>
     case hit_windows (lay_Windows l) px py (nat (sint (lay_WindowCount l))) of Some r \<Rightarrow> r | None \<Rightarrow>
     case hit_icons px py 0 (lay_IconCount l) of Some i \<Rightarrow> (DesktopIconTarget, i) | None \<Rightarrow> (DesktopTarget, 0))"

definition ResolveHitTarget :: "DesktopLayout \<Rightarrow> PointerState \<Rightarrow> PointerState" where
  "ResolveHitTarget l p = (let (k, i) = hit_target l (pt_X p) (pt_Y p)
     in p\<lparr>pt_HotTarget := k, pt_TargetIndex := i\<rparr>)"

definition AttachLayout :: "InputDesktop \<Rightarrow> DesktopLayout \<Rightarrow> PointerState \<Rightarrow> PointerState option" where
  "AttachLayout inp l p = (if \<not> in_FocusedShellSurface inp \<or> \<not> lay_Ready l \<or> in_SessionId inp \<noteq> lay_SessionId l
     then None else Some (p\<lparr>pt_SessionId := lay_SessionId l, pt_X := 1700, pt_Y := 560, pt_HotTarget := NoTarget,
       pt_TargetIndex := 0, pt_HitTestingReady := True, pt_LeftButtonDown := False, pt_ClickDelivered := False\<rparr>))"

definition PrimeDefaultHitTarget :: "DesktopLayout \<Rightarrow> PointerState \<Rightarrow> PointerState option" where
  "PrimeDefaultHitTarget l p = (if \<not> pt_HitTestingReady p then None else
     let p = p\<lparr>pt_HotTarget := (if lay_StartMenuOpen l then StartMenuTarget else ShellWindowTarget), pt_TargetIndex := 0\<rparr>
     in Some (if lay_WindowCount l > 0
          then p\<lparr>pt_X := win_X (lay_Windows l ! 0) + 48, pt_Y := win_Y (lay_Windows l ! 0) + 24\<rparr> else p))"

definition MovePointer :: "DesktopLayout \<Rightarrow> u32 \<Rightarrow> u32 \<Rightarrow> PointerState \<Rightarrow> PointerState option" where
  "MovePointer l x y p = (if \<not> pt_HitTestingReady p \<or> \<not> lay_Ready l \<or> pt_SessionId p \<noteq> lay_SessionId l
     then None else Some (ResolveHitTarget l (p\<lparr>pt_X := x, pt_Y := y\<rparr>)))"

definition ClickPointer :: "DesktopLayout \<Rightarrow> u32 \<Rightarrow> u32 \<Rightarrow> PointerState \<Rightarrow> PointerState option" where
  "ClickPointer l x y p = (case MovePointer l x y p of None \<Rightarrow> None
     | Some p \<Rightarrow> Some (p\<lparr>pt_LeftButtonDown := False, pt_ClickDelivered := True\<rparr>))"

definition ProcessPointer :: "DesktopLayout \<Rightarrow> u32 \<Rightarrow> u32 \<Rightarrow> bool \<Rightarrow> PointerState \<Rightarrow> PointerEvent \<times> PointerState" where
  "ProcessPointer l x y left_down p =
    (let e = \<lparr>ev_Moved = False, ev_Clicked = False, ev_Target = NoTarget, ev_TargetIndex = 0\<rparr> in
     if \<not> pt_HitTestingReady p \<or> \<not> lay_Ready l \<or> pt_SessionId p \<noteq> lay_SessionId l then (e, p) else
     let p' = ResolveHitTarget l (p\<lparr>pt_X := x, pt_Y := y\<rparr>);
         e = e\<lparr>ev_Target := pt_HotTarget p', ev_TargetIndex := pt_TargetIndex p'\<rparr>;
         e = (if pt_HotTarget p' \<noteq> pt_HotTarget p \<or> pt_TargetIndex p' \<noteq> pt_TargetIndex p
              then e\<lparr>ev_Moved := True\<rparr> else e);
         click = (pt_LeftButtonDown p' \<and> \<not> left_down);
         e = (if click then e\<lparr>ev_Clicked := True\<rparr> else e);
         p' = (if click then p'\<lparr>pt_ClickDelivered := True\<rparr> else p')
     in (e, p'\<lparr>pt_LeftButtonDown := left_down\<rparr>))"

section \<open>Facts about hit-testing\<close>

definition covers :: "u32 \<Rightarrow> u32 \<Rightarrow> ShellWindow \<Rightarrow> bool" where
  "covers px py w \<longleftrightarrow> on_close px py w \<or> on_body px py w"

text \<open>The arrays have their eight slots and the counts stay within them.\<close>
definition wf_layout :: "DesktopLayout \<Rightarrow> bool" where
  "wf_layout l \<longleftrightarrow> length (lay_Windows l) = 8 \<and> length (lay_Icons l) = 8 \<and>
     lay_WindowCount l \<le> 8 \<and> lay_IconCount l \<le> 8"

lemma nat_sint_small: "unat n \<le> 8 \<Longrightarrow> nat (sint n) = unat n" for n :: u32
proof -
  assume "unat n \<le> 8"
  then have u: "uint n \<le> 8" by (simp only: unat_eq_nat_uint nat_le_iff of_nat_numeral)
  have "- (2 ^ 31) \<le> (0 :: int)" by simp
  then have "- (2 ^ 31) \<le> uint n" using uint_ge_0 [of n] by (rule order_trans)
  moreover have "uint n < 2 ^ 31" using u by simp
  ultimately have "sint n = uint n" using signed_take_bit_int_eq_self [of 31 "uint n"] by (simp only: sint_uint) simp
  then show ?thesis by (simp only: unat_eq_nat_uint)
qed

lemma wf_counts:
  assumes "wf_layout l"
  shows "unat (lay_WindowCount l) \<le> 8" "nat (sint (lay_WindowCount l)) = unat (lay_WindowCount l)"
    "unat (lay_IconCount l) \<le> 8"
proof -
  show n: "unat (lay_WindowCount l) \<le> 8" using assms by (simp add: wf_layout_def word_le_nat_alt)
  then show "nat (sint (lay_WindowCount l)) = unat (lay_WindowCount l)"
    by (rule nat_sint_small)
  show "unat (lay_IconCount l) \<le> 8" using assms by (simp add: wf_layout_def word_le_nat_alt)
qed

lemma of_nat_less_count: "i < unat n \<Longrightarrow> of_nat i < n" for n :: u32
proof -
  assume i: "i < unat n"
  have "unat n < 2 ^ 32" using unsigned_less [of n] by simp
  then have "unat (of_nat i :: u32) = i" using i by (simp add: unat_of_nat)
  then show ?thesis using i by (simp add: word_less_nat_alt)
qed

lemma hit_windows_topmost:
  assumes "i < n" "covers px py (ws ! i)" "\<And>j. i < j \<Longrightarrow> j < n \<Longrightarrow> \<not> covers px py (ws ! j)"
  shows "hit_windows ws px py n =
    Some (if on_close px py (ws ! i) then WindowCloseTarget else ShellWindowTarget, of_nat i)"
  using assms
proof (induction n)
  case (Suc n)
  show ?case
  proof (cases "i = n")
    case True
    with Suc.prems(2) show ?thesis by (auto simp: covers_def)
  next
    case False
    then have "i < n" "\<not> covers px py (ws ! n)" using Suc.prems by auto
    with Suc show ?thesis by (simp add: covers_def)
  qed
qed simp

lemma hit_windows_Some:
  "hit_windows ws px py n = Some (k, i) \<Longrightarrow> \<exists>j<n. i = of_nat j \<and> k \<in> {WindowCloseTarget, ShellWindowTarget}"
  by (induction n) (auto simp: less_Suc_eq split: if_splits)

lemma hit_icons_Some: "hit_icons px py i n = Some j \<Longrightarrow> j < n"
  by (induction px py i n rule: hit_icons.induct) (subst (asm) hit_icons.simps, auto split: if_splits)

text \<open>What a target's index may be.\<close>
fun valid_target :: "DesktopLayout \<Rightarrow> HitTargetKind \<times> u32 \<Rightarrow> bool" where
  "valid_target l (ShellWindowTarget, i) = (i < lay_WindowCount l)"
| "valid_target l (WindowCloseTarget, i) = (i < lay_WindowCount l)"
| "valid_target l (DesktopIconTarget, i) = (i < lay_IconCount l)"
| "valid_target l (TaskbarTarget, i) = (i < lay_WindowCount l \<or> i = 0)"
| "valid_target l (StartMenuTarget, i) = (i \<le> 6)"
| "valid_target l (k, i) = (k \<noteq> NoTarget \<and> i = 0)"

lemma word_sub_less: "x \<ge> f \<Longrightarrow> x < f + k \<Longrightarrow> x - f < k" for x f k :: u32
  by unat_arith

lemma div_less_count:
  fixes x c :: u32
  assumes "x < c * 50" "unat c \<le> 8"
  shows "x div 50 < c"
proof -
  have "unat (c * 50) = unat c * 50" using assms(2) by (simp add: unat_word_ariths)
  then have "unat x < unat c * 50" using assms(1) by (simp add: word_less_nat_alt)
  then have "unat x div 50 < unat c" by (simp add: div_less_iff_less_mult)
  then show ?thesis by (simp add: word_less_nat_alt unat_div)
qed

lemma hit_taskbar_valid:
  assumes "wf_layout l"
  shows "valid_target l (hit_taskbar (ComputeTaskbar w h (lay_WindowCount l)) px py)"
proof -
  let ?tb = "ComputeTaskbar w h (lay_WindowCount l)"
  have b: "tb_ButtonW ?tb = 44" "tb_ButtonGap ?tb = 6" "tb_ButtonCount ?tb = lay_WindowCount l"
    by (simp_all add: ComputeTaskbar_def Let_def)
  show ?thesis
    using div_less_count [OF word_sub_less wf_counts(1) [OF assms], of "tb_FirstButtonX ?tb" px]
    by (auto simp add: hit_taskbar_def Let_def b)
qed

lemma offset_in_rect:
  fixes m py :: u32
  assumes "py \<ge> m" "py < m + 720"
  shows "unat m + 720 < 2 ^ 32" "unat (py - m) = unat py - unat m" "unat py - unat m < 720" "unat m \<le> unat py"
proof -
  show m: "unat m \<le> unat py" using assms(1) by (simp only: word_le_nat_alt)
  show n: "unat m + 720 < 2 ^ 32"
  proof (rule ccontr)
    assume "\<not> unat m + 720 < 2 ^ 32"
    then have "unat (m + 720) \<le> unat m" using unsigned_less [of m] by (simp add: unat_plus_if')
    then show False using assms(2) m by (simp add: word_less_nat_alt)
  qed
  show d: "unat (py - m) = unat py - unat m" using assms(1) by (rule unat_sub)
  have "unat (m + 720) = unat m + 720" using n by (simp add: unat_plus_if')
  then show "unat py - unat m < 720" using assms(2) m by (simp add: word_less_nat_alt)
qed

lemma menu_index:
  fixes m py :: u32
  assumes "py \<ge> m" "py < m + 720" "py > m + 120"
  shows "unat ((py - m - 120) div 96) = (unat py - unat m - 120) div 96"
proof -
  note o = offset_in_rect [OF assms(1,2)]
  have "unat (m + 120) = unat m + 120" using o(1) by (simp add: unat_plus_if')
  then have "120 \<le> unat py - unat m" using assms(3) by (simp add: word_less_nat_alt)
  then have "unat (py - m - 120) = unat (py - m) - 120" using o(2) by (intro unat_sub [of 120 "py - m", simplified]) (simp add: word_le_nat_alt)
  then show ?thesis using o(2) by (simp add: unat_div)
qed

lemma hit_menu_valid: "hit_menu l ty px py = Some r \<Longrightarrow> valid_target l r"
  using menu_index [of "menu_y ty" py] offset_in_rect [of "menu_y ty" py]
  by (auto simp: hit_menu_def InRect_def word_le_nat_alt split: if_splits)

lemma wf_layout_Build:
  "BuildXpRedesignLayout sc = Some l \<Longrightarrow> wf_layout l"
  by (auto simp: BuildXpRedesignLayout_def wf_layout_def layout_icons_def layout_windows_def add_icon_def
      add_window_def DesktopLayout0_def Let_def split: if_splits)

lemma replicate_numeral: "replicate (numeral k) x = x # replicate (pred_numeral k) x"
  by (simp add: numeral_eq_Suc)

lemma list_update_numeral [simp]: "(x # xs)[numeral k := v] = x # xs[pred_numeral k := v]"
  by (simp add: numeral_eq_Suc)

definition layout_demo :: DesktopLayout where
  "layout_demo = fold add_window layout_windows (fold add_icon layout_icons
     (DesktopLayout0\<lparr>lay_SessionId := 1, lay_ScreenW := 1920, lay_ScreenH := 1080, lay_Ready := True\<rparr>))"

lemma layout_demo_sel:
  "lay_ScreenW layout_demo = 1920" "lay_ScreenH layout_demo = 1080" "lay_WindowCount layout_demo = 5"
  "lay_IconCount layout_demo = 6" "lay_StartMenuOpen layout_demo = False" "lay_Ready layout_demo = True"
  "lay_SessionId layout_demo = 1" "wf_layout layout_demo" "take 5 (lay_Windows layout_demo) = layout_windows"
  by (simp_all add: layout_demo_def layout_icons_def layout_windows_def add_icon_def add_window_def
      DesktopLayout0_def wf_layout_def replicate_numeral)

lemma hit_windows_valid:
  "wf_layout l \<Longrightarrow> hit_windows ws px py (nat (sint (lay_WindowCount l))) = Some r \<Longrightarrow> valid_target l r"
  by (cases r) (auto simp: wf_counts(2) of_nat_less_count dest!: hit_windows_Some)

lemma hit_target_ok: "wf_layout l \<Longrightarrow> valid_target l (hit_target l px py)"
  by (auto simp: hit_target_def Let_def split: option.splits
      intro: hit_taskbar_valid hit_menu_valid hit_windows_valid dest: hit_icons_Some)

definition pointer_at :: "u32 \<Rightarrow> u32 \<Rightarrow> PointerState" where
  "pointer_at x y = \<lparr>pt_SessionId = 1, pt_X = x, pt_Y = y, pt_HotTarget = NoTarget, pt_TargetIndex = 0,
     pt_HitTestingReady = True, pt_LeftButtonDown = False, pt_ClickDelivered = False\<rparr>"

lemma pointer_at_sel [simp]: "pt_X (pointer_at x y) = x" "pt_Y (pointer_at x y) = y"
  by (simp_all add: pointer_at_def)

text \<open>Whatever the pointer is over, the index ResolveHitTarget stores is one the handlers may
  use: a window index below WindowCount, an icon index below IconCount, a taskbar slot below
  WindowCount or 0, a Start entry of at most 6 - never an index outside the eight-slot arrays,
  on every screen size and with 32-bit wrap-around.\<close>
theorem hit_target_valid:
  assumes "wf_layout l"
  shows "valid_target l (pt_HotTarget (ResolveHitTarget l p), pt_TargetIndex (ResolveHitTarget l p))"
  using hit_target_ok [OF assms, of "pt_X p" "pt_Y p"] by (simp add: ResolveHitTarget_def case_prod_beta)

lemma hit_target_valid_witness:
  "valid_target layout_demo (pt_HotTarget (ResolveHitTarget layout_demo (pointer_at 30 750)),
     pt_TargetIndex (ResolveHitTarget layout_demo (pointer_at 30 750)))"
  by (rule hit_target_valid [OF layout_demo_sel(8)])

text \<open>With the Start menu closed and the pointer above the taskbar, the pointer is over the
  topmost window that covers it - the last one in the array - and over its close button when it
  is there; windows below it and the desktop icons never take the click.\<close>
theorem hit_window_topmost:
  assumes "wf_layout l" "\<not> lay_StartMenuOpen l"
    "pt_Y p < tb_Y (ComputeTaskbar (lay_ScreenW l) (lay_ScreenH l) (lay_WindowCount l))"
    "i < unat (lay_WindowCount l)" "covers (pt_X p) (pt_Y p) (lay_Windows l ! i)"
    "\<And>j. i < j \<Longrightarrow> j < unat (lay_WindowCount l) \<Longrightarrow> \<not> covers (pt_X p) (pt_Y p) (lay_Windows l ! j)"
  shows "ResolveHitTarget l p = p\<lparr>pt_HotTarget :=
      (if on_close (pt_X p) (pt_Y p) (lay_Windows l ! i) then WindowCloseTarget else ShellWindowTarget),
    pt_TargetIndex := of_nat i\<rparr>"
  using hit_windows_topmost [OF assms(4-6)] assms(2,3)
  by (simp add: ResolveHitTarget_def hit_target_def Let_def hit_menu_def wf_counts(2) [OF assms(1)])

section \<open>Where VGA::StartDesktop draws\<close>

text \<open>The place of a window: moved inside a screen of width fb\_w with the taskbar at task\_y.\<close>
definition drawn_pos :: "u32 \<Rightarrow> u32 \<Rightarrow> ShellWindow \<Rightarrow> u32 \<times> u32" where
  "drawn_pos fb_w task_y win = (let x = win_X win; y = win_Y win; w = win_Width win; h = win_Height win in
     (if x + w \<ge> fb_w then (if fb_w > w + 18 then fb_w - w - 18 else 12) else x,
      if y + h \<ge> task_y then (if task_y > h + 18 then task_y - h - 18 else 12) else y))"

text \<open>The corner of the 48-pixel tile of a Start entry.\<close>
definition tile_pos :: "u32 \<Rightarrow> u32 \<Rightarrow> u32 \<Rightarrow> u32 \<times> u32" where
  "tile_pos mx my i = (let col = i mod 4; rowi = i div 4 in (mx + 40 + col * 140 + 38, my + 132 + rowi * 110))"

lemma InRect_nat:
  assumes "unat x + unat w < 2 ^ 32" "unat y + unat h < 2 ^ 32"
  shows "InRect px py x y w h \<longleftrightarrow>
    unat x \<le> unat px \<and> unat y \<le> unat py \<and> unat px < unat x + unat w \<and> unat py < unat y + unat h"
  using assms by (simp add: InRect_def word_le_nat_alt word_less_nat_alt unat_plus_if')

lemma taskbar_y:
  assumes "400 \<le> unat h"
  shows "unat (tb_Y (ComputeTaskbar w h n)) = unat h - (if 720 \<le> unat h then 48 else 40)"
proof -
  have "h \<noteq> 0" using assms by auto
  then show ?thesis using assms by (auto simp: ComputeTaskbar_def Let_def unat_sub_if' word_le_nat_alt)
qed

lemma menu_place:
  assumes "400 \<le> unat (lay_ScreenH l)"
  defines "ty \<equiv> tb_Y (ComputeTaskbar (lay_ScreenW l) (lay_ScreenH l) (lay_WindowCount l))"
  shows "unat (menu_x l) < 2 ^ 31" "unat (menu_y ty) + 300 \<le> unat ty" "unat (menu_y ty) + 720 < 2 ^ 32"
proof -
  have "unat (lay_ScreenW l) < 2 ^ 32" "unat ty < 2 ^ 32" using unsigned_less [of "lay_ScreenW l"] unsigned_less [of ty] by simp_all
  then show "unat (menu_x l) < 2 ^ 31" "unat (menu_y ty) + 720 < 2 ^ 32"
    by (auto simp: menu_x_def menu_y_def unat_div unat_sub_if' word_less_nat_alt)
  have "360 \<le> unat ty" using assms(1) unfolding ty_def taskbar_y [OF assms(1)] by auto
  then show "unat (menu_y ty) + 300 \<le> unat ty"
    by (auto simp: menu_y_def unat_sub_if' word_less_nat_alt)
qed

lemma demo_window: "i < 5 \<Longrightarrow> lay_Windows layout_demo ! i = layout_windows ! i"
  using layout_demo_sel(9) by (metis nth_take)

lemma hit_window_topmost_witness:
  "ResolveHitTarget layout_demo (pointer_at 1040 82) =
     (pointer_at 1040 82)\<lparr>pt_HotTarget := ShellWindowTarget, pt_TargetIndex := 1\<rparr>"
proof -
  have c: "covers 1040 82 (lay_Windows layout_demo ! 1)" "\<not> on_close 1040 82 (lay_Windows layout_demo ! 1)"
    by (simp_all add: demo_window layout_windows_def covers_def on_close_def on_body_def InRect_def MakeWindow_def)
  have n: "\<not> covers 1040 82 (lay_Windows layout_demo ! j)" if "1 < j" "j < 5" for j
  proof -
    have "j = 2 \<or> j = 3 \<or> j = 4" using that by auto
    then show ?thesis
      by (elim disjE) (simp_all add: demo_window layout_windows_def covers_def on_close_def on_body_def
          InRect_def MakeWindow_def)
  qed
  show ?thesis
    using hit_window_topmost [of layout_demo "pointer_at 1040 82" 1] c n
    by (simp add: layout_demo_sel ComputeTaskbar_def Let_def)
qed

lemma tile_index:
  assumes "i < 8" "400 \<le> unat (lay_ScreenH l)" "lay_StartMenuOpen l"
    "ty = tb_Y (ComputeTaskbar (lay_ScreenW l) (lay_ScreenH l) (lay_WindowCount l))"
    "(tx, tyy) = tile_pos (menu_x l) (menu_y ty) i" "InRect px py tx tyy 48 48"
  shows "hit_target l px py = (StartMenuTarget, i div 4)"
proof -
  note m = menu_place [OF assms(2), folded assms(4)]
  let ?mx = "menu_x l" and ?my = "menu_y ty" and ?c = "i mod 4" and ?r = "i div 4"
  have r: "unat ?r \<le> 1" "unat ?c \<le> 3"
    using assms(1) by (auto simp: word_less_nat_alt unat_div unat_mod)
  have c140: "unat (?c * 140) = unat ?c * 140" "unat (?r * 110) = unat ?r * 110"
    using r by (simp_all add: unat_mult_lem [THEN iffD1])
  have tx: "unat tx = unat ?mx + 78 + unat ?c * 140" and ty: "unat tyy = unat ?my + 132 + unat ?r * 110"
    using assms(5) m r by (simp_all add: tile_pos_def Let_def unat_plus_if' c140)
  have px: "unat tx \<le> unat px" "unat px < unat tx + 48" and py: "unat tyy \<le> unat py" "unat py < unat tyy + 48"
    using assms(6) r m tx ty by (simp_all add: InRect_nat)
  have le: "?my \<le> py" "py < ?my + 720" "?my + 120 < py" "py < ty"
    using py ty r m by (simp_all add: word_le_nat_alt word_less_nat_alt unat_plus_if')
  have "InRect px py ?mx ?my 640 720"
    using px py tx ty r m by (simp add: InRect_nat)
  moreover have "(py - ?my - 120) div 96 = ?r"
  proof -
    have "unat ((py - ?my - 120) div 96) = (unat py - unat ?my - 120) div 96" using le by (intro menu_index)
    also have "\<dots> = unat ?r"
    proof (cases "unat ?r = 0")
      case True with py ty show ?thesis by simp
    next
      case False
      then have "unat ?r = 1" using r by simp
      with py ty have "122 \<le> unat py - unat ?my - 120" "unat py - unat ?my - 120 < 170" by simp_all
      with \<open>unat ?r = 1\<close> show ?thesis by (simp add: div_nat_eqI)
    qed
    finally show ?thesis by (simp only: word_unat_eq_iff)
  qed
  moreover have "\<not> ty \<le> py" using le(4) by simp
  ultimately show ?thesis using le assms(3) \<open>\<not> ty \<le> py\<close> by (simp add: hit_target_def hit_menu_def Let_def flip: assms(4))
qed

text \<open>On a screen that is not wide enough for a window, StartDesktop draws it moved to the left,
  but hit-testing still uses the stored position: the left edge of the window on the screen is
  never part of the window under the pointer.\<close>
theorem window_drawn_elsewhere:
  assumes "unat (win_X w) + unat (win_Width w) < 2 ^ 32" "unat fb_w \<le> unat (win_X w) + unat (win_Width w)"
    "unat (win_Width w) + 18 < unat fb_w"
  shows "\<not> on_body (fst (drawn_pos fb_w task_y w)) y w"
proof -
  have "unat fb_w < 2 ^ 32" using unsigned_less [of fb_w] by simp
  then have "unat (win_X w + win_Width w) = unat (win_X w) + unat (win_Width w)"
    "unat (win_Width w + 18) = unat (win_Width w) + 18"
    using assms(1,3) by (simp_all add: unat_plus_if')
  then have "fst (drawn_pos fb_w task_y w) = fb_w - win_Width w - 18"
    using assms by (simp add: drawn_pos_def Let_def word_le_nat_alt word_less_nat_alt)
  moreover have "unat (fb_w - win_Width w - 18) = unat fb_w - unat (win_Width w) - 18"
    using assms(3) by (simp add: unat_sub_if')
  ultimately show ?thesis
    using assms by (auto simp: on_body_def InRect_def word_le_nat_alt)
qed

lemma window_drawn_elsewhere_witness:
  "\<not> on_body (fst (drawn_pos 1024 728 (layout_windows ! 1))) 100 (layout_windows ! 1)"
  using window_drawn_elsewhere [of "layout_windows ! 1" 1024 728 100] by (simp add: layout_windows_def MakeWindow_def)

end
