(* ===== verification/ShellState.thy ===== *)
theory ShellState
  imports ShellDesktop
begin

text \<open>What the shell publishes about the desktop, kernel/win32k: activation (shellact.cpp),
  accessibility (shella11y.cpp), the Start menu (shellstart.cpp), places (shellplaces.cpp), power
  actions (shellpower.cpp), commands (shellcommands.cpp), the taskbar (shelltaskbar.cpp), the tray
  (shelltray.cpp), notifications (shellnotify.cpp) and the compositor (dwm.cpp).  As in
  SessionParts, None is the return value false; arrays are lists of their fixed length and a count.\<close>

section \<open>Activation and accessibility\<close>

record ActivationState =
  ac_SessionId :: u32
  ac_ActiveWindowIndex :: u32
  ac_StartMenuOpen :: bool
  ac_TaskbarReady :: bool
  ac_ActivationReady :: bool

definition CreateActivationState :: "DesktopLayout \<Rightarrow> ActivationState \<Rightarrow> ActivationState option" where
  "CreateActivationState l a = (if \<not> lay_Ready l \<or> lay_WindowCount l = 0 then None
     else Some (a\<lparr>ac_SessionId := lay_SessionId l, ac_ActiveWindowIndex := 0,
       ac_StartMenuOpen := lay_StartMenuOpen l, ac_TaskbarReady := False, ac_ActivationReady := True\<rparr>))"

definition ApplyPointerTarget :: "PointerState \<Rightarrow> DesktopLayout \<Rightarrow> ActivationState \<Rightarrow> ActivationState option" where
  "ApplyPointerTarget p l a =
    (if \<not> ac_ActivationReady a \<or> \<not> pt_HitTestingReady p \<or> ac_SessionId a \<noteq> pt_SessionId p \<or>
        ac_SessionId a \<noteq> lay_SessionId l then None
     else if pt_HotTarget p = ShellWindowTarget \<and> pt_TargetIndex p < lay_WindowCount l
       then Some (a\<lparr>ac_ActiveWindowIndex := pt_TargetIndex p, ac_StartMenuOpen := False\<rparr>)
     else if pt_HotTarget p = StartButtonTarget \<or> pt_HotTarget p = StartMenuTarget
       then Some (a\<lparr>ac_StartMenuOpen := True\<rparr>)
     else Some a)"

definition PublishTaskbarState :: "DesktopLayout \<Rightarrow> ActivationState \<Rightarrow> ActivationState option" where
  "PublishTaskbarState l a = (if \<not> ac_ActivationReady a \<or> ac_SessionId a \<noteq> lay_SessionId l then None
     else Some (a\<lparr>ac_TaskbarReady := True\<rparr>))"

record AccessibilityState =
  ay_SessionId :: u32
  ay_FocusCuesVisible :: bool
  ay_HighContrast :: bool
  ay_NarratorHooksReady :: bool
  ay_Ready :: bool

definition CreateAccessibilityState :: "ActivationState \<Rightarrow> AccessibilityState \<Rightarrow> AccessibilityState option" where
  "CreateAccessibilityState a s = (if \<not> ac_ActivationReady a then None
     else Some (s\<lparr>ay_SessionId := ac_SessionId a, ay_FocusCuesVisible := True, ay_HighContrast := False,
       ay_NarratorHooksReady := True, ay_Ready := True\<rparr>))"

definition PublishFocusCues :: "ActivationState \<Rightarrow> AccessibilityState \<Rightarrow> AccessibilityState option" where
  "PublishFocusCues a s = (if \<not> ay_Ready s \<or> ay_SessionId s \<noteq> ac_SessionId a then None else Some s)"

section \<open>The Start menu\<close>

datatype StartItemKind = PinnedItem | PlaceItem | SystemItem | CommandItem

record StartItem =
  si_Kind :: StartItemKind
  si_Label :: text_ptr
  si_Target :: text_ptr
  si_Enabled :: bool

record StartMenuState =
  sm_SessionId :: u32
  sm_Items :: "StartItem list"
  sm_ItemCount :: u32
  sm_Open :: bool
  sm_Published :: bool

definition StartItem0 :: StartItem where
  "StartItem0 = \<lparr>si_Kind = PinnedItem, si_Label = None, si_Target = None, si_Enabled = False\<rparr>"

definition StartMenuState0 :: StartMenuState where
  "StartMenuState0 = \<lparr>sm_SessionId = 0, sm_Items = replicate 16 StartItem0, sm_ItemCount = 0, sm_Open = False,
     sm_Published = False\<rparr>"

definition MakeItem :: "StartItemKind \<Rightarrow> cstr \<Rightarrow> cstr \<Rightarrow> StartItem" where
  "MakeItem kind label target =
    \<lparr>si_Kind = kind, si_Label = Some label, si_Target = Some target, si_Enabled = True\<rparr>"

definition add_item :: "StartItem \<Rightarrow> StartMenuState \<Rightarrow> StartMenuState" where
  "add_item i m = m\<lparr>sm_Items := (sm_Items m)[unat (sm_ItemCount m) := i], sm_ItemCount := sm_ItemCount m + 1\<rparr>"

definition start_items :: "StartItem list" where
  "start_items =
    [MakeItem PinnedItem ''Internet'' ''micront-browser.exe'', MakeItem PinnedItem ''E-mail'' ''mail.exe'',
     MakeItem PinnedItem ''Media Player'' ''media.exe'', MakeItem PlaceItem ''Documents'' ''shell:documents'',
     MakeItem PlaceItem ''My Computer'' ''shell:computer'', MakeItem SystemItem ''Control Panel'' ''shell:control'',
     MakeItem CommandItem ''Search'' ''shell:search'', MakeItem CommandItem ''Run...'' ''shell:run'']"

definition BuildStartMenu :: "DesktopLayout \<Rightarrow> ActivationState \<Rightarrow> StartMenuState option" where
  "BuildStartMenu l a =
    (if \<not> lay_Ready l \<or> \<not> ac_ActivationReady a \<or> lay_SessionId l \<noteq> ac_SessionId a then None
     else Some (fold add_item start_items
       (StartMenuState0\<lparr>sm_SessionId := lay_SessionId l, sm_Open := ac_StartMenuOpen a\<rparr>)))"

definition PublishStartMenu :: "StartMenuState \<Rightarrow> StartMenuState option" where
  "PublishStartMenu m = (if sm_SessionId m = 0 \<or> sm_ItemCount m = 0 then None else Some (m\<lparr>sm_Published := True\<rparr>))"

section \<open>Places\<close>

datatype PlaceKind = PlaceDocuments | PlaceComputer | PlaceControlPanel | PlaceNetwork | PlaceMedia | PlaceRecycleBin

record ShellPlace =
  pl_Kind :: PlaceKind
  pl_Label :: text_ptr
  pl_Target :: text_ptr
  pl_OnDesktop :: bool
  pl_InStartMenu :: bool
  pl_Enabled :: bool

record PlaceState =
  ps_SessionId :: u32
  ps_Places :: "ShellPlace list"
  ps_PlaceCount :: u32
  ps_DefaultPlaceIndex :: u32
  ps_NamespaceReady :: bool
  ps_Published :: bool

definition ShellPlace0 :: ShellPlace where
  "ShellPlace0 = \<lparr>pl_Kind = PlaceDocuments, pl_Label = None, pl_Target = None, pl_OnDesktop = False,
     pl_InStartMenu = False, pl_Enabled = False\<rparr>"

definition PlaceState0 :: PlaceState where
  "PlaceState0 = \<lparr>ps_SessionId = 0, ps_Places = replicate 12 ShellPlace0, ps_PlaceCount = 0,
     ps_DefaultPlaceIndex = 0, ps_NamespaceReady = False, ps_Published = False\<rparr>"

fun TargetForKind :: "PlaceKind \<Rightarrow> cstr" where
  "TargetForKind PlaceDocuments = ''shell:documents''"
| "TargetForKind PlaceComputer = ''shell:computer''"
| "TargetForKind PlaceControlPanel = ''shell:control''"
| "TargetForKind PlaceNetwork = ''shell:network''"
| "TargetForKind PlaceMedia = ''shell:media''"
| "TargetForKind PlaceRecycleBin = ''shell:recycle''"

fun KindFromIcon :: "IconKind \<Rightarrow> PlaceKind" where
  "KindFromIcon IconComputer = PlaceComputer"
| "KindFromIcon IconFolder = PlaceDocuments"
| "KindFromIcon IconNetwork = PlaceNetwork"
| "KindFromIcon IconMedia = PlaceMedia"
| "KindFromIcon IconControl = PlaceControlPanel"
| "KindFromIcon IconRecycle = PlaceRecycleBin"

definition TryKindFromTarget :: "text_ptr \<Rightarrow> PlaceKind option" where
  "TryKindFromTarget t =
    (if StrEq t (Some ''shell:documents'') then Some PlaceDocuments
     else if StrEq t (Some ''shell:computer'') then Some PlaceComputer
     else if StrEq t (Some ''shell:control'') then Some PlaceControlPanel
     else None)"

text \<open>The index of the first place of a kind among the first count ones.\<close>
fun find_place :: "PlaceKind \<Rightarrow> ShellPlace list \<Rightarrow> nat option" where
  "find_place k [] = None"
| "find_place k (p # ps) = (if pl_Kind p = k then Some 0 else map_option Suc (find_place k ps))"

definition FindPlace :: "PlaceKind \<Rightarrow> PlaceState \<Rightarrow> nat option" where
  "FindPlace k s = find_place k (take (unat (ps_PlaceCount s)) (ps_Places s))"

definition AddOrGetPlace :: "PlaceKind \<Rightarrow> text_ptr \<Rightarrow> PlaceState \<Rightarrow> nat option \<times> PlaceState" where
  "AddOrGetPlace kind label s = (case FindPlace kind s of Some i \<Rightarrow> (Some i, s) | None \<Rightarrow>
     if ps_PlaceCount s \<ge> 12 then (None, s) else
     let i = unat (ps_PlaceCount s);
         p = (ps_Places s ! i)\<lparr>pl_Kind := kind, pl_Label := label, pl_Target := Some (TargetForKind kind),
               pl_Enabled := True\<rparr>
     in (Some i, s\<lparr>ps_Places := (ps_Places s)[i := p], ps_PlaceCount := ps_PlaceCount s + 1\<rparr>))"

definition mark_place :: "(ShellPlace \<Rightarrow> ShellPlace) \<Rightarrow> nat option \<times> PlaceState \<Rightarrow> PlaceState" where
  "mark_place f r = (case r of (None, s) \<Rightarrow> s
     | (Some i, s) \<Rightarrow> s\<lparr>ps_Places := (ps_Places s)[i := f (ps_Places s ! i)]\<rparr>)"

definition place_icon :: "DesktopIcon \<Rightarrow> PlaceState \<Rightarrow> PlaceState" where
  "place_icon i s = mark_place (\<lambda>p. p\<lparr>pl_OnDesktop := True\<rparr>) (AddOrGetPlace (KindFromIcon (ic_Kind i)) (ic_Label i) s)"

definition place_item :: "StartItem \<Rightarrow> PlaceState \<Rightarrow> PlaceState" where
  "place_item i s = (if \<not> si_Enabled i \<or> (si_Kind i \<noteq> PlaceItem \<and> si_Kind i \<noteq> SystemItem) then s else
     case TryKindFromTarget (si_Target i) of None \<Rightarrow> s
     | Some k \<Rightarrow> mark_place (\<lambda>p. p\<lparr>pl_InStartMenu := True\<rparr>) (AddOrGetPlace k (si_Label i) s))"

definition BuildPlaceState :: "DesktopLayout \<Rightarrow> StartMenuState \<Rightarrow> PlaceState \<Rightarrow> bool \<times> PlaceState" where
  "BuildPlaceState l m s =
    (if \<not> lay_Ready l \<or> \<not> sm_Published m \<or> lay_SessionId l \<noteq> sm_SessionId m then (False, s) else
     let s = PlaceState0\<lparr>ps_SessionId := lay_SessionId l, ps_NamespaceReady := True\<rparr>;
         s = fold place_icon (take (unat (lay_IconCount l)) (lay_Icons l)) s;
         s = fold place_item (take (unat (sm_ItemCount m)) (sm_Items m)) s;
         s = (case FindPlace PlaceComputer s of None \<Rightarrow> s | Some i \<Rightarrow> s\<lparr>ps_DefaultPlaceIndex := of_nat i\<rparr>)
     in (ps_PlaceCount s > 0, s))"

definition PublishPlaceState :: "PlaceState \<Rightarrow> PlaceState option" where
  "PublishPlaceState s =
    (if \<not> ps_NamespaceReady s \<or> ps_PlaceCount s = 0 \<or> ps_DefaultPlaceIndex s \<ge> ps_PlaceCount s then None
     else Some (s\<lparr>ps_Published := True\<rparr>))"

section \<open>Power actions\<close>

datatype PowerActionKind = PowerLock | PowerSignOut | PowerSleep | PowerRestart | PowerShutDown

record PowerAction =
  pa_Kind :: PowerActionKind
  pa_Label :: text_ptr
  pa_Enabled :: bool
  pa_RequiresConfirmation :: bool

record PowerState =
  pw_SessionId :: u32
  pw_Actions :: "PowerAction list"
  pw_ActionCount :: u32
  pw_DefaultActionIndex :: u32
  pw_FlyoutReady :: bool
  pw_Published :: bool

definition MakeAction :: "PowerActionKind \<Rightarrow> cstr \<Rightarrow> bool \<Rightarrow> bool \<Rightarrow> PowerAction" where
  "MakeAction kind label enabled confirm =
    \<lparr>pa_Kind = kind, pa_Label = Some label, pa_Enabled = enabled, pa_RequiresConfirmation = confirm\<rparr>"

definition PowerState0 :: PowerState where
  "PowerState0 = \<lparr>pw_SessionId = 0, pw_Actions = replicate 8 \<lparr>pa_Kind = PowerLock, pa_Label = None,
     pa_Enabled = False, pa_RequiresConfirmation = False\<rparr>, pw_ActionCount = 0, pw_DefaultActionIndex = 0,
     pw_FlyoutReady = False, pw_Published = False\<rparr>"

definition add_action :: "PowerAction \<Rightarrow> PowerState \<Rightarrow> PowerState" where
  "add_action a p =
     p\<lparr>pw_Actions := (pw_Actions p)[unat (pw_ActionCount p) := a], pw_ActionCount := pw_ActionCount p + 1\<rparr>"

definition BuildPowerState :: "StartMenuState \<Rightarrow> PowerState option" where
  "BuildPowerState m = (if \<not> sm_Published m \<or> sm_SessionId m = 0 then None else
     let p = PowerState0\<lparr>pw_SessionId := sm_SessionId m, pw_FlyoutReady := True\<rparr>;
         p = fold add_action [MakeAction PowerLock ''Lock'' True False, MakeAction PowerSignOut ''Sign out'' True True,
               MakeAction PowerSleep ''Sleep'' False False, MakeAction PowerRestart ''Restart'' True True,
               MakeAction PowerShutDown ''Shut down'' True True] p
     in Some (p\<lparr>pw_DefaultActionIndex := 4\<rparr>))"

definition PublishPowerState :: "PowerState \<Rightarrow> PowerState option" where
  "PublishPowerState p =
    (if \<not> pw_FlyoutReady p \<or> pw_ActionCount p = 0 \<or> pw_DefaultActionIndex p \<ge> pw_ActionCount p then None
     else Some (p\<lparr>pw_Published := True\<rparr>))"

section \<open>Commands\<close>

datatype CommandKind = CommandSearch | CommandRun

record ShellCommand =
  cm_Kind :: CommandKind
  cm_Label :: text_ptr
  cm_Target :: text_ptr
  cm_Enabled :: bool
  cm_DialogReady :: bool

record CommandState =
  cs_SessionId :: u32
  cs_Commands :: "ShellCommand list"
  cs_CommandCount :: u32
  cs_DefaultCommandIndex :: u32
  cs_Published :: bool

definition CommandState0 :: CommandState where
  "CommandState0 = \<lparr>cs_SessionId = 0, cs_Commands = replicate 8 \<lparr>cm_Kind = CommandSearch, cm_Label = None,
     cm_Target = None, cm_Enabled = False, cm_DialogReady = False\<rparr>, cs_CommandCount = 0,
     cs_DefaultCommandIndex = 0, cs_Published = False\<rparr>"

definition command_kind :: "text_ptr \<Rightarrow> CommandKind option" where
  "command_kind t = (if StrEq t (Some ''shell:search'') then Some CommandSearch
     else if StrEq t (Some ''shell:run'') then Some CommandRun else None)"

definition TryAddCommand :: "StartItem \<Rightarrow> CommandState \<Rightarrow> CommandState" where
  "TryAddCommand i c = (if si_Kind i \<noteq> CommandItem \<or> \<not> si_Enabled i \<or> cs_CommandCount c \<ge> 8 then c else
     case command_kind (si_Target i) of None \<Rightarrow> c | Some k \<Rightarrow>
       c\<lparr>cs_Commands := (cs_Commands c)[unat (cs_CommandCount c) :=
            \<lparr>cm_Kind = k, cm_Label = si_Label i, cm_Target = si_Target i, cm_Enabled = True, cm_DialogReady = True\<rparr>],
         cs_CommandCount := cs_CommandCount c + 1\<rparr>)"

definition BuildCommandState :: "StartMenuState \<Rightarrow> CommandState \<Rightarrow> bool \<times> CommandState" where
  "BuildCommandState m c = (if \<not> sm_Published m \<or> sm_SessionId m = 0 then (False, c) else
     let c = fold TryAddCommand (take (unat (sm_ItemCount m)) (sm_Items m)) (CommandState0\<lparr>cs_SessionId := sm_SessionId m\<rparr>)
     in if cs_CommandCount c = 0 then (False, c) else (True, c\<lparr>cs_DefaultCommandIndex := 0\<rparr>))"

definition PublishCommandState :: "CommandState \<Rightarrow> CommandState option" where
  "PublishCommandState c = (if cs_CommandCount c = 0 \<or> cs_DefaultCommandIndex c \<ge> cs_CommandCount c then None
     else Some (c\<lparr>cs_Published := True\<rparr>))"

section \<open>Taskbar, tray and notifications\<close>

record TaskButton =
  bt_Title :: text_ptr
  bt_WindowIndex :: u32
  bt_Active :: bool
  bt_Visible :: bool

record TaskbarState =
  tk_SessionId :: u32
  tk_Buttons :: "TaskButton list"
  tk_ButtonCount :: u32
  tk_Published :: bool

definition TaskbarState0 :: TaskbarState where
  "TaskbarState0 = \<lparr>tk_SessionId = 0, tk_Buttons = replicate 8 \<lparr>bt_Title = None, bt_WindowIndex = 0,
     bt_Active = False, bt_Visible = False\<rparr>, tk_ButtonCount = 0, tk_Published = False\<rparr>"

definition add_button :: "TaskButton \<Rightarrow> TaskbarState \<Rightarrow> TaskbarState" where
  "add_button b t =
     t\<lparr>tk_Buttons := (tk_Buttons t)[unat (tk_ButtonCount t) := b], tk_ButtonCount := tk_ButtonCount t + 1\<rparr>"

text \<open>The loop ends at the window count or when the eight buttons are used up.\<close>
function window_buttons :: "DesktopLayout \<Rightarrow> u32 \<Rightarrow> u32 \<Rightarrow> TaskbarState \<Rightarrow> TaskbarState" where
  "window_buttons l active i t = (if i < lay_WindowCount l \<and> tk_ButtonCount t < 8
     then window_buttons l active (i + 1) (add_button \<lparr>bt_Title = win_Title (lay_Windows l ! unat i),
       bt_WindowIndex = i, bt_Active = (i = active), bt_Visible = True\<rparr> t)
     else t)"
  by auto
termination
  by (relation "measure (\<lambda>(l, active, i, t). unat (lay_WindowCount l) - unat i)")
    (auto simp: unat_step word_less_nat_alt)

declare window_buttons.simps [simp del]

definition BuildTaskbar :: "DesktopLayout \<Rightarrow> ActivationState \<Rightarrow> TaskbarState option" where
  "BuildTaskbar l a = (if \<not> lay_Ready l \<or> \<not> ac_TaskbarReady a \<or> lay_SessionId l \<noteq> ac_SessionId a then None else
     let t = window_buttons l (ac_ActiveWindowIndex a) 0 (TaskbarState0\<lparr>tk_SessionId := lay_SessionId l\<rparr>)
     in Some (if tk_ButtonCount t < 8
          then add_button \<lparr>bt_Title = Some ''MicroNT Shell'', bt_WindowIndex = 0xFFFFFFFF, bt_Active = False,
                 bt_Visible = True\<rparr> t
          else t))"

definition PublishTaskbar :: "TaskbarState \<Rightarrow> TaskbarState option" where
  "PublishTaskbar t = (if tk_SessionId t = 0 \<or> tk_ButtonCount t = 0 then None else Some (t\<lparr>tk_Published := True\<rparr>))"

datatype TrayIconKind = TrayNetwork | TrayVolume | TrayStatus

record TrayIcon =
  ti_Kind :: TrayIconKind
  ti_Label :: text_ptr
  ti_Visible :: bool

record TrayState =
  tr_SessionId :: u32
  tr_Icons :: "TrayIcon list"
  tr_IconCount :: u32
  tr_ClockText :: text_ptr
  tr_Published :: bool

definition TrayState0 :: TrayState where
  "TrayState0 = \<lparr>tr_SessionId = 0, tr_Icons = replicate 4 \<lparr>ti_Kind = TrayNetwork, ti_Label = None, ti_Visible = False\<rparr>,
     tr_IconCount = 0, tr_ClockText = None, tr_Published = False\<rparr>"

definition MakeTrayIcon :: "TrayIconKind \<Rightarrow> cstr \<Rightarrow> TrayIcon" where
  "MakeTrayIcon kind label = \<lparr>ti_Kind = kind, ti_Label = Some label, ti_Visible = True\<rparr>"

definition add_tray_icon :: "TrayIcon \<Rightarrow> TrayState \<Rightarrow> TrayState" where
  "add_tray_icon i t = t\<lparr>tr_Icons := (tr_Icons t)[unat (tr_IconCount t) := i], tr_IconCount := tr_IconCount t + 1\<rparr>"

definition CreateTrayState :: "ActivationState \<Rightarrow> TrayState option" where
  "CreateTrayState a = (if \<not> ac_TaskbarReady a then None else
     let t = TrayState0\<lparr>tr_SessionId := ac_SessionId a, tr_ClockText := Some ''00:00''\<rparr>
     in Some (fold add_tray_icon [MakeTrayIcon TrayStatus ''OK'', MakeTrayIcon TrayNetwork ''NET'',
          MakeTrayIcon TrayVolume ''VOL''] t))"

definition PublishTrayState :: "TrayState \<Rightarrow> TrayState option" where
  "PublishTrayState t = (if tr_SessionId t = 0 \<or> tr_IconCount t = 0 then None else Some (t\<lparr>tr_Published := True\<rparr>))"

record Notification =
  no_AppName :: text_ptr
  no_Title :: text_ptr
  no_Body :: text_ptr
  no_Visible :: bool

record NotificationQueue =
  nq_SessionId :: u32
  nq_Items :: "Notification list"
  nq_Count :: u32
  nq_CenterReady :: bool

definition NotificationQueue0 :: NotificationQueue where
  "NotificationQueue0 = \<lparr>nq_SessionId = 0, nq_Items = replicate 4 \<lparr>no_AppName = None, no_Title = None,
     no_Body = None, no_Visible = False\<rparr>, nq_Count = 0, nq_CenterReady = False\<rparr>"

definition CreateNotificationQueue :: "TrayState \<Rightarrow> NotificationQueue option" where
  "CreateNotificationQueue t = (if \<not> tr_Published t then None
     else Some (NotificationQueue0\<lparr>nq_SessionId := tr_SessionId t, nq_CenterReady := True\<rparr>))"

definition PublishWelcomeNotification :: "NotificationQueue \<Rightarrow> NotificationQueue option" where
  "PublishWelcomeNotification q = (if \<not> nq_CenterReady q \<or> nq_Count q \<ge> 4 then None
     else Some (q\<lparr>nq_Items := (nq_Items q)[unat (nq_Count q) :=
         \<lparr>no_AppName = Some ''MicroNT Shell'', no_Title = Some ''Desktop ready'',
          no_Body = Some ''Interactive shell environment initialized'', no_Visible = True\<rparr>],
       nq_Count := nq_Count q + 1\<rparr>))"

section \<open>Compositor\<close>

record Compositor =
  co_SessionId :: u32
  co_Running :: bool
  co_DesktopPresented :: bool

definition DWM_Start :: "SessionGraphics \<Rightarrow> Compositor \<Rightarrow> Compositor option" where
  "DWM_Start g c = (if \<not> gfx_Win32Attached g then None
     else Some (c\<lparr>co_SessionId := gfx_SessionId g, co_Running := True, co_DesktopPresented := False\<rparr>))"

text \<open>The desktop becomes the active one before the screen is drawn; the drawing of
  VGA::StartDesktop and VGA::WriteWelcome is left out.\<close>
definition PresentShellDesktop ::
  "DesktopScene \<Rightarrow> DisplayTarget \<Rightarrow> DesktopLayout \<Rightarrow> Compositor \<times> Desktop \<Rightarrow> Compositor \<times> Desktop" where
  "PresentShellDesktop scene target l cd = (case cd of (c, d) \<Rightarrow>
     if \<not> co_Running c then (c, d) else
     if \<not> sc_ZOrderReady scene \<or> sc_SessionId scene \<noteq> co_SessionId c then (c, d) else
     if \<not> tg_MetricsReady target \<or> tg_SessionId target \<noteq> co_SessionId c then (c, d) else
     if \<not> lay_Ready l \<or> lay_SessionId l \<noteq> co_SessionId c then (c, d) else
     case SwitchDesktop d of None \<Rightarrow> (c, d) | Some d \<Rightarrow> (c\<lparr>co_DesktopPresented := True\<rparr>, d))"

section \<open>Places hold one entry for each kind\<close>

definition place_kinds :: "PlaceState \<Rightarrow> PlaceKind list" where
  "place_kinds s = map pl_Kind (take (unat (ps_PlaceCount s)) (ps_Places s))"

definition wf_places :: "PlaceState \<Rightarrow> bool" where
  "wf_places s \<longleftrightarrow> length (ps_Places s) = 12 \<and> ps_PlaceCount s \<le> 12 \<and> distinct (place_kinds s)"

lemma UNIV_PlaceKind: "UNIV = {PlaceDocuments, PlaceComputer, PlaceControlPanel, PlaceNetwork, PlaceMedia, PlaceRecycleBin}"
  using PlaceKind.exhaust by auto

lemma distinct_kinds_length: "distinct (ks :: PlaceKind list) \<Longrightarrow> length ks \<le> 6"
proof -
  assume "distinct ks"
  then have "length ks = card (set ks)" by (simp add: distinct_card)
  also have "\<dots> \<le> card (UNIV :: PlaceKind set)" by (rule card_mono) (simp add: UNIV_PlaceKind, rule subset_UNIV)
  also have "\<dots> = 6" by (simp add: UNIV_PlaceKind)
  finally show ?thesis .
qed

lemma wf_places_count:
  assumes "wf_places s"
  shows "length (place_kinds s) = unat (ps_PlaceCount s)" "unat (ps_PlaceCount s) \<le> 6"
proof -
  show l: "length (place_kinds s) = unat (ps_PlaceCount s)"
    using assms by (simp add: wf_places_def place_kinds_def word_le_nat_alt)
  show "unat (ps_PlaceCount s) \<le> 6" using assms l distinct_kinds_length by (metis wf_places_def)
qed


lemma find_place_None: "find_place k ps = None \<longleftrightarrow> k \<notin> pl_Kind ` set ps"
  by (induction ps) auto

lemma find_place_Some: "find_place k ps = Some i \<Longrightarrow> i < length ps \<and> pl_Kind (ps ! i) = k"
  by (induction ps arbitrary: i) (auto split: if_splits simp: nth_Cons split: nat.splits)

lemma FindPlace_None: "FindPlace k s = None \<longleftrightarrow> k \<notin> set (place_kinds s)"
  by (simp add: FindPlace_def find_place_None place_kinds_def)

lemma FindPlace_Some:
  "FindPlace k s = Some i \<Longrightarrow> i < length (place_kinds s) \<and> place_kinds s ! i = k \<and> i < unat (ps_PlaceCount s)"
  using find_place_Some [of k "take (unat (ps_PlaceCount s)) (ps_Places s)" i]
  by (auto simp: FindPlace_def place_kinds_def)

text \<open>Marking does not change kinds, adding appends a kind that was missing.\<close>

lemma AddOrGetPlace_kinds:
  assumes "wf_places s" "AddOrGetPlace k lbl s = (r, s')"
  shows "wf_places s'" "place_kinds s' = (if k \<in> set (place_kinds s) then place_kinds s else place_kinds s @ [k])"
    "\<exists>i. r = Some i \<and> i < unat (ps_PlaceCount s') \<and> place_kinds s' ! i = k"
    "ps_SessionId s' = ps_SessionId s" "ps_NamespaceReady s' = ps_NamespaceReady s"
    "ps_DefaultPlaceIndex s' = ps_DefaultPlaceIndex s"
proof -
  note w = wf_places_count [OF assms(1)]
  have u: "unat (ps_PlaceCount s + 1) = unat (ps_PlaceCount s) + 1" using w(2) by (simp add: unat_plus_if')
  have n: "\<not> ps_PlaceCount s \<ge> 12" using w(2) by (simp add: word_le_nat_alt)
  have len: "length (ps_Places s) = 12" using assms(1) by (simp add: wf_places_def)
  have "wf_places s' \<and> place_kinds s' = (if k \<in> set (place_kinds s) then place_kinds s else place_kinds s @ [k]) \<and>
    (\<exists>i. r = Some i \<and> i < unat (ps_PlaceCount s') \<and> place_kinds s' ! i = k) \<and>
    ps_SessionId s' = ps_SessionId s \<and> ps_NamespaceReady s' = ps_NamespaceReady s \<and>
    ps_DefaultPlaceIndex s' = ps_DefaultPlaceIndex s"
  proof (cases "FindPlace k s")
    case (Some i)
    then have "r = Some i" "s' = s" using assms(2) by (simp_all add: AddOrGetPlace_def)
    moreover have "k \<in> set (place_kinds s)" using FindPlace_None [of k s] Some by auto
    ultimately show ?thesis using assms(1) FindPlace_Some [OF Some] by simp
  next
    case None
    let ?i = "unat (ps_PlaceCount s)"
    have s': "s' = s\<lparr>ps_Places := (ps_Places s)[?i := (ps_Places s ! ?i)\<lparr>pl_Kind := k, pl_Label := lbl,
        pl_Target := Some (TargetForKind k), pl_Enabled := True\<rparr>], ps_PlaceCount := ps_PlaceCount s + 1\<rparr>" "r = Some ?i"
      using assms(2) None n by (auto simp: AddOrGetPlace_def Let_def)
    have k: "place_kinds s' = place_kinds s @ [k]"
      using len w(2) by (simp add: s' place_kinds_def u take_Suc_conv_app_nth)
    have "ps_PlaceCount s' \<le> 12" using w(2) by (simp add: s' word_le_nat_alt u)
    then have "wf_places s'" using k None assms(1) len by (simp add: wf_places_def FindPlace_None s'(1))
    then show ?thesis using k None w(1) by (auto simp: FindPlace_None s' u nth_append)
  qed
  then show "wf_places s'" "place_kinds s' = (if k \<in> set (place_kinds s) then place_kinds s else place_kinds s @ [k])"
    "\<exists>i. r = Some i \<and> i < unat (ps_PlaceCount s') \<and> place_kinds s' ! i = k"
    "ps_SessionId s' = ps_SessionId s" "ps_NamespaceReady s' = ps_NamespaceReady s"
    "ps_DefaultPlaceIndex s' = ps_DefaultPlaceIndex s" by blast+
qed

text \<open>Marking the place that AddOrGetPlace returned leaves kinds and counts alone.\<close>

lemma mark_place_kinds:
  assumes "wf_places s" "\<And>p. pl_Kind (f p) = pl_Kind p"
  shows "wf_places (mark_place f (AddOrGetPlace k lbl s))"
    "place_kinds (mark_place f (AddOrGetPlace k lbl s)) =
       (if k \<in> set (place_kinds s) then place_kinds s else place_kinds s @ [k])"
    "ps_SessionId (mark_place f (AddOrGetPlace k lbl s)) = ps_SessionId s"
    "ps_NamespaceReady (mark_place f (AddOrGetPlace k lbl s)) = ps_NamespaceReady s"
    "ps_DefaultPlaceIndex (mark_place f (AddOrGetPlace k lbl s)) = ps_DefaultPlaceIndex s"
proof -
  obtain r s' where r: "AddOrGetPlace k lbl s = (r, s')" by fastforce
  note a = AddOrGetPlace_kinds [OF assms(1) r]
  obtain i where i: "r = Some i" using a(3) by blast
  let ?m = "mark_place f (AddOrGetPlace k lbl s)"
  have m: "?m = s'\<lparr>ps_Places := (ps_Places s')[i := f (ps_Places s' ! i)]\<rparr>" using r i by (simp add: mark_place_def)
  have kinds: "place_kinds ?m = place_kinds s'"
    by (cases "i < length (ps_Places s')")
      (auto simp: m place_kinds_def nth_list_update assms(2) intro!: nth_equalityI)
  show "wf_places ?m" using a(1) kinds by (simp add: wf_places_def m)
  show "place_kinds ?m = (if k \<in> set (place_kinds s) then place_kinds s else place_kinds s @ [k])"
    using a(2) kinds by simp
  show "ps_SessionId ?m = ps_SessionId s" "ps_NamespaceReady ?m = ps_NamespaceReady s"
    "ps_DefaultPlaceIndex ?m = ps_DefaultPlaceIndex s" using a(4-6) by (simp_all add: m)
qed

definition item_kind :: "StartItem \<Rightarrow> PlaceKind option" where
  "item_kind i = (if \<not> si_Enabled i \<or> (si_Kind i \<noteq> PlaceItem \<and> si_Kind i \<noteq> SystemItem) then None
     else TryKindFromTarget (si_Target i))"

definition add_kind :: "PlaceKind \<Rightarrow> PlaceKind list \<Rightarrow> PlaceKind list" where
  "add_kind k ks = (if k \<in> set ks then ks else ks @ [k])"

definition same_place_head :: "PlaceState \<Rightarrow> PlaceState \<Rightarrow> bool" where
  "same_place_head p s \<longleftrightarrow> ps_SessionId p = ps_SessionId s \<and> ps_NamespaceReady p = ps_NamespaceReady s \<and>
     ps_DefaultPlaceIndex p = ps_DefaultPlaceIndex s"

lemma place_icon_kinds:
  "wf_places s \<Longrightarrow> wf_places (place_icon i s) \<and> place_kinds (place_icon i s) = add_kind (KindFromIcon (ic_Kind i)) (place_kinds s) \<and>
     same_place_head (place_icon i s) s"
  by (simp add: place_icon_def mark_place_kinds add_kind_def same_place_head_def)

lemma place_item_kinds:
  "wf_places s \<Longrightarrow> wf_places (place_item i s) \<and>
     place_kinds (place_item i s) = (case item_kind i of None \<Rightarrow> place_kinds s | Some k \<Rightarrow> add_kind k (place_kinds s)) \<and>
     same_place_head (place_item i s) s"
  by (auto simp: place_item_def item_kind_def mark_place_kinds add_kind_def same_place_head_def split: option.split)

lemma same_place_head_trans:
  "same_place_head p s \<Longrightarrow> same_place_head s r \<Longrightarrow> same_place_head p r" "same_place_head p p"
  by (simp_all add: same_place_head_def)

lemma place_icons_kinds:
  "wf_places s \<Longrightarrow> wf_places (fold place_icon is s) \<and>
     place_kinds (fold place_icon is s) = fold (\<lambda>i. add_kind (KindFromIcon (ic_Kind i))) is (place_kinds s) \<and>
     same_place_head (fold place_icon is s) s"
proof (induction "is" arbitrary: s)
  case (Cons i "is")
  note one = place_icon_kinds [OF Cons.prems, of i]
  then have "wf_places (place_icon i s)" by simp
  note rest = Cons.IH [OF this]
  then have "same_place_head (fold place_icon (i # is) s) s" using one same_place_head_trans(1) by auto
  then show ?case using one rest by simp
qed (simp add: same_place_head_trans(2))

lemma place_items_kinds:
  "wf_places s \<Longrightarrow> wf_places (fold place_item is s) \<and>
     place_kinds (fold place_item is s) =
       fold (\<lambda>i ks. case item_kind i of None \<Rightarrow> ks | Some k \<Rightarrow> add_kind k ks) is (place_kinds s) \<and>
     same_place_head (fold place_item is s) s"
proof (induction "is" arbitrary: s)
  case (Cons i "is")
  note one = place_item_kinds [OF Cons.prems, of i]
  then have "wf_places (place_item i s)" by simp
  note rest = Cons.IH [OF this]
  then have "same_place_head (fold place_item (i # is) s) s" using one same_place_head_trans(1) by auto
  then show ?case using one rest by simp
qed (simp add: same_place_head_trans(2))

lemma set_add_kinds: "set (fold (\<lambda>i. add_kind (g i)) is ks) = set ks \<union> g ` set is"
  by (induction "is" arbitrary: ks) (auto simp: add_kind_def)

lemma set_add_item_kinds:
  "set (fold (\<lambda>i ks. case item_kind i of None \<Rightarrow> ks | Some k \<Rightarrow> add_kind k ks) is ks) =
     set ks \<union> {k. \<exists>i\<in>set is. item_kind i = Some k}"
  by (induction "is" arbitrary: ks) (auto simp: add_kind_def split: option.split)

lemma wf_places_start:
  "wf_places (PlaceState0\<lparr>ps_SessionId := n, ps_NamespaceReady := b\<rparr>)"
  "place_kinds (PlaceState0\<lparr>ps_SessionId := n, ps_NamespaceReady := b\<rparr>) = []"
  by (simp_all add: wf_places_def PlaceState0_def place_kinds_def)

text \<open>The kinds of the icons and the Start items in the order of their first appearance.\<close>
definition shell_kinds :: "DesktopLayout \<Rightarrow> StartMenuState \<Rightarrow> PlaceKind list" where
  "shell_kinds l m = fold (\<lambda>i ks. case item_kind i of None \<Rightarrow> ks | Some k \<Rightarrow> add_kind k ks)
     (take (unat (sm_ItemCount m)) (sm_Items m))
     (fold (\<lambda>i. add_kind (KindFromIcon (ic_Kind i))) (take (unat (lay_IconCount l)) (lay_Icons l)) [])"

lemma BuildPlaceState_kinds:
  assumes "lay_Ready l" "sm_Published m" "lay_SessionId l = sm_SessionId m"
  obtains p where "BuildPlaceState l m s = (shell_kinds l m \<noteq> [], p)" "wf_places p" "place_kinds p = shell_kinds l m"
    "ps_SessionId p = lay_SessionId l" "ps_NamespaceReady p"
    "case FindPlace PlaceComputer p of None \<Rightarrow> ps_DefaultPlaceIndex p = 0 | Some i \<Rightarrow> ps_DefaultPlaceIndex p = of_nat i"
proof -
  let ?s0 = "PlaceState0\<lparr>ps_SessionId := lay_SessionId l, ps_NamespaceReady := True\<rparr>"
  let ?s1 = "fold place_icon (take (unat (lay_IconCount l)) (lay_Icons l)) ?s0"
  let ?s2 = "fold place_item (take (unat (sm_ItemCount m)) (sm_Items m)) ?s1"
  let ?p = "case FindPlace PlaceComputer ?s2 of None \<Rightarrow> ?s2 | Some i \<Rightarrow> ?s2\<lparr>ps_DefaultPlaceIndex := of_nat i\<rparr>"
  note i = place_icons_kinds [OF wf_places_start(1)]
  have w: "wf_places ?s2" "place_kinds ?s2 = shell_kinds l m" "same_place_head ?s2 ?s0"
    using place_items_kinds [of ?s1] i [of "take (unat (lay_IconCount l)) (lay_Icons l)"]
    by (simp_all add: shell_kinds_def wf_places_start same_place_head_def)
  have p: "wf_places ?p" "place_kinds ?p = shell_kinds l m" "FindPlace PlaceComputer ?p = FindPlace PlaceComputer ?s2"
    using w by (simp_all add: wf_places_def place_kinds_def FindPlace_def split: option.split)
  have "ps_PlaceCount ?p > 0 \<longleftrightarrow> shell_kinds l m \<noteq> []"
    using wf_places_count(1) [OF p(1)] p(2) by (auto simp: word_neq_0_conv [symmetric] unat_eq_0)
  then have "BuildPlaceState l m s = (shell_kinds l m \<noteq> [], ?p)"
    using assms(1,2) by (simp add: BuildPlaceState_def Let_def flip: assms(3))
  moreover have "ps_SessionId ?p = lay_SessionId l" "ps_NamespaceReady ?p"
    using w(3) by (simp_all add: same_place_head_def PlaceState0_def split: option.split)
  moreover have "case FindPlace PlaceComputer ?p of None \<Rightarrow> ps_DefaultPlaceIndex ?p = 0 | Some i \<Rightarrow> ps_DefaultPlaceIndex ?p = of_nat i"
    using w(3) unfolding p(3) by (simp add: same_place_head_def PlaceState0_def split: option.split)
  ultimately show ?thesis using that p by blast
qed

definition menu_demo :: StartMenuState where
  "menu_demo = fold add_item start_items (StartMenuState0\<lparr>sm_SessionId := 1, sm_Published := True\<rparr>)"

lemma unat_of_nat32: "i < 2 ^ 32 \<Longrightarrow> unat (of_nat i :: u32) = i"
  by (simp add: unat_of_nat)

text \<open>The shell namespace that BuildPlaceState builds has exactly one place for each kind that a
  desktop icon or an enabled Start item stands for, never more than the twelve slots hold, and
  the default place is the computer when there is one.\<close>
theorem places_unique:
  assumes "lay_Ready l" "sm_Published m" "lay_SessionId l = sm_SessionId m"
  shows "\<exists>p. BuildPlaceState l m s = (shell_kinds l m \<noteq> [], p) \<and> distinct (place_kinds p) \<and>
    set (place_kinds p) = (KindFromIcon \<circ> ic_Kind) ` set (take (unat (lay_IconCount l)) (lay_Icons l)) \<union>
      {k. \<exists>i\<in>set (take (unat (sm_ItemCount m)) (sm_Items m)). item_kind i = Some k} \<and>
    length (place_kinds p) = unat (ps_PlaceCount p) \<and> unat (ps_PlaceCount p) \<le> 6 \<and>
    (PlaceComputer \<notin> set (place_kinds p) \<or> place_kinds p ! unat (ps_DefaultPlaceIndex p) = PlaceComputer)"
proof -
  obtain p where p: "BuildPlaceState l m s = (shell_kinds l m \<noteq> [], p)" "wf_places p" "place_kinds p = shell_kinds l m"
    "case FindPlace PlaceComputer p of None \<Rightarrow> ps_DefaultPlaceIndex p = 0 | Some i \<Rightarrow> ps_DefaultPlaceIndex p = of_nat i"
    using BuildPlaceState_kinds [OF assms] by blast
  have "PlaceComputer \<notin> set (place_kinds p) \<or> place_kinds p ! unat (ps_DefaultPlaceIndex p) = PlaceComputer"
  proof (cases "FindPlace PlaceComputer p")
    case (Some i)
    then have "i < 2 ^ 32" using FindPlace_Some [OF Some] wf_places_count [OF p(2)] by simp
    then have "unat (of_nat i :: u32) = i" by (rule unat_of_nat32)
    then show ?thesis using Some p(4) FindPlace_Some [OF Some] by simp
  qed (simp add: FindPlace_None)
  moreover have "set (place_kinds p) = (KindFromIcon \<circ> ic_Kind) ` set (take (unat (lay_IconCount l)) (lay_Icons l)) \<union>
      {k. \<exists>i\<in>set (take (unat (sm_ItemCount m)) (sm_Items m)). item_kind i = Some k}"
    unfolding p(3) shell_kinds_def set_add_item_kinds set_add_kinds by (simp add: image_image)
  ultimately show ?thesis using p(1,2) wf_places_count [OF p(2)] unfolding wf_places_def by blast
qed

lemma menu_demo_sel: "sm_Published menu_demo" "sm_SessionId menu_demo = 1"
  by (simp_all add: menu_demo_def start_items_def add_item_def)

lemma places_unique_witness:
  "\<exists>p. BuildPlaceState layout_demo menu_demo PlaceState0 = (shell_kinds layout_demo menu_demo \<noteq> [], p) \<and> distinct (place_kinds p)"
  using places_unique [of layout_demo menu_demo PlaceState0] by (auto simp: layout_demo_sel menu_demo_sel)

end
