(* ===== verification/SessionManager.thy ===== *)
theory SessionManager
  imports ShellState Mouse "HOL-Library.Monad_Syntax"
begin

text \<open>The session manager, kernel/sm/session\_manager.cpp: the bootstrap of the interactive session, a
  chain of steps each of which must succeed (a failing KASSERT panics: None), and the pump that
  turns mouse packets into window and Start menu operations.  The log output and the drawing are
  left out; VGA::MoveMouseCursor is the field s\_cursor of the mouse driver.\<close>

section \<open>State\<close>

record SystemSession =
  sys_SessionId :: u32
  sys_ServicesReady :: bool
  sys_CoreServicesStarted :: bool

record InteractiveSession =
  is_SessionId :: u32
  is_ShellProcess :: "nat option"
  is_ShellThread :: "nat option"

text \<open>The static variables of the file, and those of other files the calls reach: the flags of
  REGISTRY and WIN32K, the framebuffer, the mouse driver and the scheduler.\<close>
record smgr =
  s_system :: SystemSession
  s_services :: ServiceControlPlane
  s_interactive :: InteractiveSession
  s_win32 :: Win32Session
  s_graphics :: SessionGraphics
  s_winsta :: WindowStation
  s_secure_desktop :: Desktop
  s_shell_desktop :: Desktop
  s_compositor :: Compositor
  s_shell :: Shell
  s_shell_surface :: ShellSurface
  s_input_desktop :: InputDesktop
  s_desktop_scene :: DesktopScene
  s_desktop_layout :: DesktopLayout
  s_display_mode :: DisplayMode
  s_display_target :: DisplayTarget
  s_theme :: Theme
  s_pointer_state :: PointerState
  s_activation_state :: ActivationState
  s_accessibility_state :: AccessibilityState
  s_command_state :: CommandState
  s_tray_state :: TrayState
  s_notification_queue :: NotificationQueue
  s_start_menu :: StartMenuState
  s_place_state :: PlaceState
  s_power_state :: PowerState
  s_taskbar_state :: TaskbarState
  s_logon :: LogonSession
  s_profile :: UserProfile
  s_shell_app :: AppIdentity
  s_next_session_id :: u32
  s_dragging :: bool
  s_drag_win :: u32
  s_drag_off_x :: i32
  s_drag_off_y :: i32
  s_system_hive_loaded :: bool
  s_initialized :: bool
  g_framebuffer :: framebuffer
  g_mouse :: mouse
  g_sched :: ksys

section \<open>The steps of the bootstrap\<close>

definition SmssCreateSystemSession :: "smgr \<Rightarrow> smgr option" where
  "SmssCreateSystemSession s = do {
     v \<leftarrow> StartControlPlane 0 (s_services s);
     v \<leftarrow> StartCoreServices v;
     Some (s\<lparr>s_services := v, s_system := (s_system s)\<lparr>sys_SessionId := 0,
       sys_ServicesReady := sv_ControlPlaneReady v, sys_CoreServicesStarted := sv_CoreServicesStarted v\<rparr>\<rparr>) }"

definition SmssCreateSession :: "smgr \<Rightarrow> smgr option" where
  "SmssCreateSession s = Some (s\<lparr>s_interactive := \<lparr>is_SessionId = s_next_session_id s, is_ShellProcess = None,
     is_ShellThread = None\<rparr>, s_next_session_id := s_next_session_id s + 1\<rparr>)"

abbreviation session_id :: "smgr \<Rightarrow> u32" where "session_id s \<equiv> is_SessionId (s_interactive s)"

definition CsrssStart :: "smgr \<Rightarrow> smgr option" where
  "CsrssStart s = do {
     w \<leftarrow> CreateWin32Session (session_id s) (s_win32 s);
     w \<leftarrow> StartConsoleRuntime w;
     Some (s\<lparr>s_win32 := w\<rparr>) }"

definition GraphicsStart :: "smgr \<Rightarrow> smgr option" where
  "GraphicsStart s = do {
     g \<leftarrow> AttachSession (s_initialized s) (s_win32 s) (s_graphics s);
     Some (s\<lparr>s_graphics := g\<rparr>) }"

definition DesktopsStart :: "smgr \<Rightarrow> smgr option" where
  "DesktopsStart s = do {
     st \<leftarrow> CreateInteractiveWindowStation (session_id s) (s_winsta s);
     d1 \<leftarrow> CreateDesktop st SecureLogon (Some ''Winlogon'') (s_secure_desktop s);
     d2 \<leftarrow> CreateDesktop st ShellDesk (Some ''Default'') (s_shell_desktop s);
     Some (s\<lparr>s_winsta := st, s_secure_desktop := d1, s_shell_desktop := d2\<rparr>) }"

definition WinlogonStart :: "smgr \<Rightarrow> smgr option" where
  "WinlogonStart s = do {
     (l, d) \<leftarrow> CreateLogonSession (s_secure_desktop s) (s_logon s);
     l \<leftarrow> AcceptAutoLogon l;
     l \<leftarrow> AllowUserinit l;
     Some (s\<lparr>s_logon := l, s_secure_desktop := d\<rparr>) }"

text \<open>USERINIT::PrepareInteractiveUser asserts that the profile is the session's and is ready.\<close>
definition PrepareInteractiveUser :: "u32 \<Rightarrow> UserProfile \<Rightarrow> UserProfile option" where
  "PrepareInteractiveUser sid p = (if pf_SessionId p \<noteq> sid \<or> \<not> pf_EnvironmentReady p then None else Some p)"

definition UserinitStart :: "smgr \<Rightarrow> smgr option" where
  "UserinitStart s = do {
     p \<leftarrow> LoadUserProfile (session_id s) (Some ''DefaultUser'') (s_profile s);
     p \<leftarrow> ApplyEnvironment p;
     p \<leftarrow> PrepareInteractiveUser (session_id s) p;
     Some (s\<lparr>s_profile := p\<rparr>) }"

definition CompositorStart :: "smgr \<Rightarrow> smgr option" where
  "CompositorStart s = do {
     c \<leftarrow> DWM_Start (s_graphics s) (s_compositor s);
     Some (s\<lparr>s_compositor := c\<rparr>) }"

definition DisplayConfigStart :: "smgr \<Rightarrow> smgr option" where
  "DisplayConfigStart s = do {
     m \<leftarrow> QueryPrimaryMode (g_framebuffer s) (s_display_mode s);
     t \<leftarrow> AttachSessionTarget (session_id s) m (s_display_target s);
     t \<leftarrow> ApplyDesktopMetrics t;
     Some (s\<lparr>s_display_mode := m, s_display_target := t\<rparr>) }"

text \<open>USERINIT::LaunchShell asserts that the application is registered for the session; loading the
  images and creating the process and thread is the argument launch, which gets the process name
  and the scheduler's state and returns the process, the thread and the new state, or None when
  one of the assertions of that code fails.\<close>
type_synonym launcher = "cstr \<Rightarrow> ksys \<Rightarrow> (nat \<times> nat \<times> ksys) option"

definition ExplorerStart :: "launcher \<Rightarrow> smgr \<Rightarrow> smgr option" where
  "ExplorerStart launch s =
    (let shell_name = QueryString (s_system_hive_loaded s) (Some WINLOGON_KEY) (Some ''Shell'');
         image_name = (case shell_name of None \<Rightarrow> ''explorer.exe'' | Some n \<Rightarrow> n) in
     do {
       a \<leftarrow> RegisterShellApp (session_id s) (Some image_name) (s_shell_app s);
       a \<leftarrow> ActivateShellApp a;
       (p, t, k) \<leftarrow> (if \<not> ai_Registered a \<or> ai_SessionId a \<noteq> session_id s then None else launch image_name (g_sched s));
       sh \<leftarrow> RegisterShell (session_id s) (Some p) (Some t) (s_shell s);
       Some (s\<lparr>s_shell_app := a, g_sched := k, s_shell := sh,
         s_interactive := (s_interactive s)\<lparr>is_ShellProcess := Some p, is_ShellThread := Some t\<rparr>\<rparr>) })"

definition ThemeStart :: "smgr \<Rightarrow> smgr option" where
  "ThemeStart s = do { t \<leftarrow> LoadDefaultTheme (s_theme s); Some (s\<lparr>s_theme := t\<rparr>) }"

definition ShellHostStart :: "smgr \<Rightarrow> smgr option" where
  "ShellHostStart s = do {
     f \<leftarrow> CreateShellSurface (s_shell_desktop s) (s_shell_surface s);
     f \<leftarrow> BindExplorer (s_shell s) f;
     f \<leftarrow> ComposeDesktop f;
     Some (s\<lparr>s_shell_surface := f\<rparr>) }"

definition WindowManagerStart :: "smgr \<Rightarrow> smgr option" where
  "WindowManagerStart s = do {
     sc \<leftarrow> CreateDesktopScene (s_shell_desktop s) (s_desktop_scene s);
     sc \<leftarrow> AttachShellSurface (s_shell_surface s) sc;
     sc \<leftarrow> (case SetForegroundWindow 2 sc of (ok, sc) \<Rightarrow> if ok then Some sc else None);
     Some (s\<lparr>s_desktop_scene := sc\<rparr>) }"

definition DesktopModelStart :: "smgr \<Rightarrow> smgr option" where
  "DesktopModelStart s = do {
     l \<leftarrow> BuildXpRedesignLayout (s_desktop_scene s);
     Some (s\<lparr>s_desktop_layout := (if tg_MetricsReady (s_display_target s)
       then l\<lparr>lay_ScreenW := dm_Width (tg_Mode (s_display_target s)),
              lay_ScreenH := dm_Height (tg_Mode (s_display_target s))\<rparr> else l)\<rparr>) }"

definition PresentDesktop :: "smgr \<Rightarrow> smgr" where
  "PresentDesktop s = (let (c, d) = PresentShellDesktop (s_desktop_scene s) (s_display_target s)
       (s_desktop_layout s) (s_compositor s, s_shell_desktop s)
     in s\<lparr>s_compositor := c, s_shell_desktop := d\<rparr>)"

definition InputHostStart :: "smgr \<Rightarrow> smgr option" where
  "InputHostStart s = do {
     i \<leftarrow> AttachDesktop (s_shell_desktop s) (s_input_desktop s);
     i \<leftarrow> FocusShellSurface (s_shell_surface s) i;
     i \<leftarrow> ShowCursor i;
     Some (s\<lparr>s_input_desktop := i\<rparr>) }"

definition ShellInputStart :: "smgr \<Rightarrow> smgr option" where
  "ShellInputStart s = do {
     p \<leftarrow> AttachLayout (s_input_desktop s) (s_desktop_layout s) (s_pointer_state s);
     p \<leftarrow> PrimeDefaultHitTarget (s_desktop_layout s) p;
     p \<leftarrow> ClickPointer (s_desktop_layout s) 1040 82 p;
     Some (s\<lparr>s_pointer_state := p\<rparr>) }"

definition ShellActivationStart :: "smgr \<Rightarrow> smgr option" where
  "ShellActivationStart s = do {
     a \<leftarrow> CreateActivationState (s_desktop_layout s) (s_activation_state s);
     a \<leftarrow> ApplyPointerTarget (s_pointer_state s) (s_desktop_layout s) a;
     a \<leftarrow> PublishTaskbarState (s_desktop_layout s) a;
     Some (s\<lparr>s_activation_state := a\<rparr>) }"

definition ShellAccessibilityStart :: "smgr \<Rightarrow> smgr option" where
  "ShellAccessibilityStart s = do {
     y \<leftarrow> CreateAccessibilityState (s_activation_state s) (s_accessibility_state s);
     y \<leftarrow> PublishFocusCues (s_activation_state s) y;
     Some (s\<lparr>s_accessibility_state := y\<rparr>) }"

definition ShellStartMenuStart :: "smgr \<Rightarrow> smgr option" where
  "ShellStartMenuStart s = do {
     m \<leftarrow> BuildStartMenu (s_desktop_layout s) (s_activation_state s);
     m \<leftarrow> PublishStartMenu m;
     Some (s\<lparr>s_start_menu := m\<rparr>) }"

definition ShellPlacesStart :: "smgr \<Rightarrow> smgr option" where
  "ShellPlacesStart s = do {
     p \<leftarrow> (case BuildPlaceState (s_desktop_layout s) (s_start_menu s) (s_place_state s) of
       (ok, p) \<Rightarrow> if ok then Some p else None);
     p \<leftarrow> PublishPlaceState p;
     Some (s\<lparr>s_place_state := p\<rparr>) }"

definition ShellPowerStart :: "smgr \<Rightarrow> smgr option" where
  "ShellPowerStart s = do {
     p \<leftarrow> BuildPowerState (s_start_menu s);
     p \<leftarrow> PublishPowerState p;
     Some (s\<lparr>s_power_state := p\<rparr>) }"

definition ShellCommandsStart :: "smgr \<Rightarrow> smgr option" where
  "ShellCommandsStart s = do {
     c \<leftarrow> (case BuildCommandState (s_start_menu s) (s_command_state s) of
       (ok, c) \<Rightarrow> if ok then Some c else None);
     c \<leftarrow> PublishCommandState c;
     Some (s\<lparr>s_command_state := c\<rparr>) }"

definition ShellTaskbarStart :: "smgr \<Rightarrow> smgr option" where
  "ShellTaskbarStart s = do {
     t \<leftarrow> BuildTaskbar (s_desktop_layout s) (s_activation_state s);
     t \<leftarrow> PublishTaskbar t;
     Some (s\<lparr>s_taskbar_state := t\<rparr>) }"

definition ShellTrayStart :: "smgr \<Rightarrow> smgr option" where
  "ShellTrayStart s = do {
     t \<leftarrow> CreateTrayState (s_activation_state s);
     t \<leftarrow> PublishTrayState t;
     Some (s\<lparr>s_tray_state := t\<rparr>) }"

definition ShellNotificationsStart :: "smgr \<Rightarrow> smgr option" where
  "ShellNotificationsStart s = do {
     q \<leftarrow> CreateNotificationQueue (s_tray_state s);
     q \<leftarrow> PublishWelcomeNotification q;
     Some (s\<lparr>s_notification_queue := q\<rparr>) }"

definition ShellThreadStart :: "smgr \<Rightarrow> smgr option" where
  "ShellThreadStart s = do { k \<leftarrow> StartShellThread (s_shell s) (g_sched s); Some (s\<lparr>g_sched := k\<rparr>) }"

definition StartInteractiveSession :: "launcher \<Rightarrow> smgr \<Rightarrow> smgr option" where
  "StartInteractiveSession launch s = do {
     s \<leftarrow> SmssCreateSession s;
     s \<leftarrow> CsrssStart s;
     s \<leftarrow> GraphicsStart s;
     s \<leftarrow> DesktopsStart s;
     s \<leftarrow> WinlogonStart s;
     s \<leftarrow> UserinitStart s;
     s \<leftarrow> CompositorStart s;
     s \<leftarrow> DisplayConfigStart s;
     s \<leftarrow> ExplorerStart launch s;
     s \<leftarrow> ThemeStart s;
     s \<leftarrow> ShellHostStart s;
     s \<leftarrow> WindowManagerStart s;
     s \<leftarrow> DesktopModelStart s;
     s \<leftarrow> Some (PresentDesktop s);
     s \<leftarrow> InputHostStart s;
     s \<leftarrow> ShellInputStart s;
     s \<leftarrow> ShellActivationStart s;
     s \<leftarrow> ShellAccessibilityStart s;
     s \<leftarrow> ShellStartMenuStart s;
     s \<leftarrow> ShellPlacesStart s;
     s \<leftarrow> ShellPowerStart s;
     s \<leftarrow> ShellCommandsStart s;
     s \<leftarrow> ShellTaskbarStart s;
     s \<leftarrow> ShellTrayStart s;
     s \<leftarrow> ShellNotificationsStart s;
     ShellThreadStart s }"

section \<open>SM::Init\<close>

text \<open>Value-initialised structs.\<close>

definition ServiceControlPlane0 :: ServiceControlPlane where
  "ServiceControlPlane0 = \<lparr>sv_SessionId = 0, sv_ControlPlaneReady = False, sv_CoreServicesStarted = False\<rparr>"

definition Desktop0 :: Desktop where
  "Desktop0 = \<lparr>dt_SessionId = 0, dt_Kind = SecureLogon, dt_Name = None, dt_Active = False\<rparr>"

definition Shell0 :: Shell where
  "Shell0 = \<lparr>sh_SessionId = 0, sh_Process = None, sh_Thread = None, sh_Registered = False\<rparr>"

definition ShellSurface0 :: ShellSurface where
  "ShellSurface0 = \<lparr>sf_SessionId = 0, sf_TaskbarReady = False, sf_StartSurfaceReady = False, sf_TrayReady = False,
     sf_BoundToExplorer = False\<rparr>"

definition InputDesktop0 :: InputDesktop where
  "InputDesktop0 = \<lparr>in_SessionId = 0, in_AttachedToDesktop = False, in_FocusedShellSurface = False,
     in_CursorVisible = False\<rparr>"

definition DesktopScene0 :: DesktopScene where
  "DesktopScene0 = \<lparr>sc_SessionId = 0, sc_Windows = replicate 4 \<lparr>wi_Id = 0, wi_Kind = WkDesktop, wi_Title = None,
     wi_Visible = False, wi_Foreground = False\<rparr>, sc_WindowCount = 0, sc_ZOrderReady = False\<rparr>"

definition DisplayMode0 :: DisplayMode where
  "DisplayMode0 = \<lparr>dm_Width = 0, dm_Height = 0, dm_Stride = 0, dm_Format = 0, dm_FullHd = False\<rparr>"

definition Theme0 :: Theme where
  "Theme0 = \<lparr>th_Name = None, th_WallpaperTop = 0, th_WallpaperBottom = 0, th_TaskbarTop = 0, th_TaskbarBottom = 0,
     th_StartTop = 0, th_StartBottom = 0, th_WindowFrame = 0, th_WindowTitleTop = 0, th_WindowTitleBottom = 0,
     th_Accent = 0, th_DarkMode = False, th_HighResolutionMetrics = False\<rparr>"

definition PointerState0 :: PointerState where
  "PointerState0 = \<lparr>pt_SessionId = 0, pt_X = 0, pt_Y = 0, pt_HotTarget = NoTarget, pt_TargetIndex = 0,
     pt_HitTestingReady = False, pt_LeftButtonDown = False, pt_ClickDelivered = False\<rparr>"

definition SM_Init :: "smgr \<Rightarrow> smgr option" where
  "SM_Init s = SmssCreateSystemSession (s\<lparr>
     s_system := \<lparr>sys_SessionId = 0, sys_ServicesReady = False, sys_CoreServicesStarted = False\<rparr>,
     s_services := ServiceControlPlane0,
     s_interactive := \<lparr>is_SessionId = 0, is_ShellProcess = None, is_ShellThread = None\<rparr>,
     s_win32 := \<lparr>w32_SessionId = 0, w32_RuntimeReady = False, w32_ConsoleReady = False\<rparr>,
     s_graphics := \<lparr>gfx_SessionId = 0, gfx_Win32Attached = False\<rparr>,
     s_winsta := \<lparr>ws_SessionId = 0, ws_Ready = False\<rparr>,
     s_secure_desktop := Desktop0, s_shell_desktop := Desktop0,
     s_compositor := \<lparr>co_SessionId = 0, co_Running = False, co_DesktopPresented = False\<rparr>,
     s_shell := Shell0, s_shell_surface := ShellSurface0, s_input_desktop := InputDesktop0,
     s_desktop_scene := DesktopScene0, s_desktop_layout := DesktopLayout0,
     s_display_mode := DisplayMode0,
     s_display_target := \<lparr>tg_SessionId = 0, tg_Mode = DisplayMode0, tg_Attached = False, tg_MetricsReady = False\<rparr>,
     s_theme := Theme0, s_pointer_state := PointerState0,
     s_activation_state := \<lparr>ac_SessionId = 0, ac_ActiveWindowIndex = 0, ac_StartMenuOpen = False,
       ac_TaskbarReady = False, ac_ActivationReady = False\<rparr>,
     s_accessibility_state := \<lparr>ay_SessionId = 0, ay_FocusCuesVisible = False, ay_HighContrast = False,
       ay_NarratorHooksReady = False, ay_Ready = False\<rparr>,
     s_command_state := CommandState0, s_tray_state := TrayState0, s_notification_queue := NotificationQueue0,
     s_start_menu := StartMenuState0, s_place_state := PlaceState0, s_power_state := PowerState0,
     s_taskbar_state := TaskbarState0,
     s_logon := \<lparr>lo_SessionId = 0, lo_State = LogonCreated\<rparr>,
     s_profile := \<lparr>pf_SessionId = 0, pf_UserName = None, pf_HomeDirectory = None, pf_HiveLoaded = False,
       pf_EnvironmentReady = False\<rparr>,
     s_shell_app := \<lparr>ai_SessionId = 0, ai_AppId = None, ai_ImageName = None, ai_Registered = False\<rparr>,
     s_next_session_id := 1\<rparr>)"

section \<open>Windows and the Start menu\<close>

text \<open>RepaintDesktop: compose again and put the cursor back where the pointer is.\<close>
definition RepaintDesktop :: "smgr \<Rightarrow> smgr" where
  "RepaintDesktop s = (let s = PresentDesktop s
     in s\<lparr>g_mouse := (g_mouse s)\<lparr>s_cursor := Some (pt_X (s_pointer_state s), pt_Y (s_pointer_state s))\<rparr>\<rparr>)"

definition SetStartMenu :: "bool \<Rightarrow> smgr \<Rightarrow> smgr" where
  "SetStartMenu b s = s\<lparr>s_desktop_layout := (s_desktop_layout s)\<lparr>lay_StartMenuOpen := b\<rparr>,
     s_activation_state := (s_activation_state s)\<lparr>ac_StartMenuOpen := b\<rparr>,
     s_start_menu := (s_start_menu s)\<lparr>sm_Open := b\<rparr>\<rparr>"

text \<open>The loop of the three window operations: slots i to n - 1 move down by one.\<close>
function shift_down :: "u32 \<Rightarrow> u32 \<Rightarrow> ShellWindow list \<Rightarrow> ShellWindow list" where
  "shift_down i n ws = (if i < n then shift_down (i + 1) n (ws[unat (i - 1) := ws ! unat i]) else ws)"
  by auto
termination
  by (relation "measure (\<lambda>(i, n, ws). unat n - unat i)") (auto simp: unat_step word_less_nat_alt)

declare shift_down.simps [simp del]

definition upd_layout :: "(DesktopLayout \<Rightarrow> DesktopLayout) \<Rightarrow> smgr \<Rightarrow> smgr" where
  "upd_layout f s = s\<lparr>s_desktop_layout := f (s_desktop_layout s)\<rparr>"

definition drop_oldest :: "DesktopLayout \<Rightarrow> DesktopLayout" where
  "drop_oldest l = (if lay_WindowCount l \<ge> 8
     then l\<lparr>lay_Windows := shift_down 1 (lay_WindowCount l) (lay_Windows l), lay_WindowCount := lay_WindowCount l - 1\<rparr>
     else l)"

definition new_window :: "text_ptr \<Rightarrow> u32 \<Rightarrow> ShellWindow" where
  "new_window title i = (let cascade = i * 28 in
     \<lparr>win_Title = (case title of None \<Rightarrow> Some ''Window'' | Some t \<Rightarrow> Some t),
      win_Status = Some ''MicroNT window'', win_X = 320 + cascade, win_Y = 140 + cascade,
      win_Width = 560, win_Height = 360, win_Toolbar = True\<rparr>)"

definition open_window :: "text_ptr \<Rightarrow> DesktopLayout \<Rightarrow> DesktopLayout" where
  "open_window title l = (let l = drop_oldest l; i = lay_WindowCount l
     in l\<lparr>lay_Windows := (lay_Windows l)[unat i := new_window title i], lay_WindowCount := i + 1\<rparr>)"

definition OpenWindow :: "text_ptr \<Rightarrow> smgr \<Rightarrow> smgr" where
  "OpenWindow title = upd_layout (open_window title)"

definition close_window :: "u32 \<Rightarrow> DesktopLayout \<Rightarrow> DesktopLayout" where
  "close_window idx l = (if idx \<ge> lay_WindowCount l then l
     else l\<lparr>lay_Windows := shift_down (idx + 1) (lay_WindowCount l) (lay_Windows l),
            lay_WindowCount := lay_WindowCount l - 1\<rparr>)"

definition CloseWindow :: "u32 \<Rightarrow> smgr \<Rightarrow> smgr" where
  "CloseWindow idx = upd_layout (close_window idx)"

definition focus_window :: "u32 \<Rightarrow> DesktopLayout \<Rightarrow> DesktopLayout" where
  "focus_window idx l = (if idx + 1 \<ge> lay_WindowCount l then l
     else let w = lay_Windows l ! unat idx;
              ws = shift_down (idx + 1) (lay_WindowCount l) (lay_Windows l)
          in l\<lparr>lay_Windows := ws[unat (lay_WindowCount l - 1) := w]\<rparr>)"

definition FocusWindow :: "u32 \<Rightarrow> smgr \<Rightarrow> smgr" where
  "FocusWindow idx = upd_layout (focus_window idx)"

definition ToggleStartMenu :: "smgr \<Rightarrow> smgr" where
  "ToggleStartMenu s = RepaintDesktop (SetStartMenu (\<not> lay_StartMenuOpen (s_desktop_layout s)) s)"

definition kStartApps :: "cstr list" where
  "kStartApps = [''Edge'', ''Files'', ''Settings'', ''Store'', ''Photos'', ''Mail'', ''Notepad'', ''Terminal'']"

fun HandleShellClick :: "HitTargetKind \<Rightarrow> u32 \<Rightarrow> smgr \<Rightarrow> smgr" where
  "HandleShellClick StartButtonTarget i s = ToggleStartMenu s"
| "HandleShellClick StartMenuTarget i s = RepaintDesktop (SetStartMenu False
     (OpenWindow (Some (kStartApps ! unat (if i < 8 then i else 0))) s))"
| "HandleShellClick DesktopIconTarget i s = RepaintDesktop
     (if i < lay_IconCount (s_desktop_layout s) then OpenWindow (ic_Label (lay_Icons (s_desktop_layout s) ! unat i)) s else s)"
| "HandleShellClick WindowCloseTarget i s = RepaintDesktop (CloseWindow i s)"
| "HandleShellClick ShellWindowTarget i s = RepaintDesktop (FocusWindow i s)"
| "HandleShellClick TaskbarTarget i s = RepaintDesktop (FocusWindow i s)"
| "HandleShellClick _ i s = s"

section \<open>The pump\<close>

definition move_window :: "u32 \<Rightarrow> i32 \<Rightarrow> i32 \<Rightarrow> DesktopLayout \<Rightarrow> DesktopLayout" where
  "move_window i nx ny l = l\<lparr>lay_Windows := (lay_Windows l)[unat i := (lay_Windows l ! unat i)\<lparr>
     win_X := (if sint nx > 0 then nx else 0), win_Y := (if sint ny > 0 then ny else 0)\<rparr>]\<rparr>"

definition begin_drag :: "u32 \<Rightarrow> i32 \<Rightarrow> i32 \<Rightarrow> smgr \<Rightarrow> smgr" where
  "begin_drag i mx my s =
    (let s = FocusWindow i s;
         d = lay_WindowCount (s_desktop_layout s) - 1;
         w = lay_Windows (s_desktop_layout s) ! unat d
     in RepaintDesktop (s\<lparr>s_drag_win := d, s_drag_off_x := mx - win_X w, s_drag_off_y := my - win_Y w,
          s_dragging := True\<rparr>))"

text \<open>One packet with the left button's state and the cursor position of that moment.\<close>
definition pump_packet :: "bool \<Rightarrow> i32 \<Rightarrow> i32 \<Rightarrow> smgr \<Rightarrow> smgr" where
  "pump_packet left mx my s =
    (let prev_down = pt_LeftButtonDown (s_pointer_state s);
         (e, p) = ProcessPointer (s_desktop_layout s) mx my left (s_pointer_state s);
         s = s\<lparr>s_pointer_state := p\<rparr>;
         l = s_desktop_layout s; i = pt_TargetIndex p
     in if s_dragging s then
          if left \<and> s_drag_win s < lay_WindowCount l
          then RepaintDesktop (upd_layout (move_window (s_drag_win s) (mx - s_drag_off_x s) (my - s_drag_off_y s)) s)
          else RepaintDesktop (s\<lparr>s_dragging := False\<rparr>)
        else if \<not> prev_down \<and> left \<and> pt_HotTarget p = ShellWindowTarget \<and> i < lay_WindowCount l \<and>
            my < win_Y (lay_Windows l ! unat i) + 32
        then begin_drag i mx my s
        else if ev_Clicked e then HandleShellClick (ev_Target e) (ev_TargetIndex e) s
        else s)"

text \<open>The loop ends when the driver has no packet left, or no position yet.\<close>
partial_function (option) pump_loop :: "bool \<Rightarrow> smgr \<Rightarrow> (bool \<times> smgr) option" where
  "pump_loop changed s = (case Mouse_TryRead (g_mouse s) of None \<Rightarrow> Some (changed, s)
     | Some (packet, m) \<Rightarrow> (case Mouse_CurrentPosition m of None \<Rightarrow> Some (changed, s\<lparr>g_mouse := m\<rparr>)
       | Some (mx, my) \<Rightarrow> pump_loop True
           (pump_packet (BtnLeft packet) (of_int mx) (of_int my) (s\<lparr>g_mouse := m\<rparr>))))"

definition PumpInteractiveInput :: "smgr \<Rightarrow> (bool \<times> smgr) option" where
  "PumpInteractiveInput s =
    (if \<not> pt_HitTestingReady (s_pointer_state s) \<or> \<not> lay_Ready (s_desktop_layout s) then Some (False, s)
     else pump_loop False s)"

section \<open>The bootstrap succeeds\<close>

text \<open>The bootstrap in four phases.\<close>

definition boot_logon :: "smgr \<Rightarrow> smgr option" where
  "boot_logon s =
    do { s \<leftarrow> SmssCreateSession s; s \<leftarrow> CsrssStart s; s \<leftarrow> GraphicsStart s; s \<leftarrow> DesktopsStart s;
      s \<leftarrow> WinlogonStart s; s \<leftarrow> UserinitStart s; s \<leftarrow> CompositorStart s; DisplayConfigStart s }"

definition boot_shell :: "launcher \<Rightarrow> smgr \<Rightarrow> smgr option" where
  "boot_shell launch s =
    do { s \<leftarrow> ExplorerStart launch s; s \<leftarrow> ThemeStart s; s \<leftarrow> ShellHostStart s; WindowManagerStart s }"

definition boot_desktop :: "smgr \<Rightarrow> smgr option" where
  "boot_desktop s =
    do { s \<leftarrow> DesktopModelStart s; s \<leftarrow> Some (PresentDesktop s); s \<leftarrow> InputHostStart s; ShellInputStart s }"

definition boot_publish :: "smgr \<Rightarrow> smgr option" where
  "boot_publish s =
    do { s \<leftarrow> ShellActivationStart s; s \<leftarrow> ShellAccessibilityStart s; s \<leftarrow> ShellStartMenuStart s;
      s \<leftarrow> ShellPlacesStart s; s \<leftarrow> ShellPowerStart s; s \<leftarrow> ShellCommandsStart s; s \<leftarrow> ShellTaskbarStart s;
      s \<leftarrow> ShellTrayStart s; s \<leftarrow> ShellNotificationsStart s; ShellThreadStart s }"

lemma StartInteractiveSession_phases:
  "StartInteractiveSession launch s = do { s \<leftarrow> boot_logon s; s \<leftarrow> boot_shell launch s; s \<leftarrow> boot_desktop s; boot_publish s }"
  by (simp add: StartInteractiveSession_def boot_logon_def boot_shell_def boot_desktop_def boot_publish_def Option.bind_assoc)

lemmas boot_defs = boot_logon_def boot_shell_def boot_desktop_def boot_publish_def SmssCreateSession_def CsrssStart_def CreateWin32Session_def StartConsoleRuntime_def
  GraphicsStart_def AttachSession_def DesktopsStart_def CreateInteractiveWindowStation_def CreateDesktop_def
  WinlogonStart_def CreateLogonSession_def SwitchDesktop_def AcceptAutoLogon_def AllowUserinit_def
  UserinitStart_def LoadUserProfile_def ApplyEnvironment_def PrepareInteractiveUser_def CompositorStart_def
  DWM_Start_def DisplayConfigStart_def QueryPrimaryMode_def AttachSessionTarget_def ApplyDesktopMetrics_def

lemmas desktop_defs = boot_shell_def RegisterShellApp_def ActivateShellApp_def RegisterShell_def ThemeStart_def LoadDefaultTheme_def
  ShellHostStart_def CreateShellSurface_def BindExplorer_def ComposeDesktop_def WindowManagerStart_def
  CreateDesktopScene_def AttachShellSurface_def scene_push_def SetForegroundWindow_def MakeSceneWindow_def

text \<open>What every component agrees on after the first half, with the session's number n.\<close>
definition logged_on :: "u32 \<Rightarrow> smgr \<Rightarrow> bool" where
  "logged_on n s \<longleftrightarrow> session_id s = n \<and> w32_SessionId (s_win32 s) = n \<and> w32_ConsoleReady (s_win32 s) \<and>
     gfx_SessionId (s_graphics s) = n \<and> lo_SessionId (s_logon s) = n \<and> lo_State (s_logon s) = UserinitAllowed \<and>
     pf_SessionId (s_profile s) = n \<and> pf_EnvironmentReady (s_profile s) \<and> dt_Active (s_secure_desktop s) \<and>
     dt_SessionId (s_shell_desktop s) = n \<and> dt_Name (s_shell_desktop s) = Some ''Default'' \<and>
     co_SessionId (s_compositor s) = n \<and> co_Running (s_compositor s) \<and>
     tg_SessionId (s_display_target s) = n \<and> tg_MetricsReady (s_display_target s)"

lemma logon_phase: 
  assumes "s_initialized s" "s_next_session_id s = n" "n \<noteq> 0" "g_framebuffer s = Some (w, h, st, f)" "w \<noteq> 0" "h \<noteq> 0"
  shows "\<exists>s'. boot_logon s = Some s' \<and>
    logged_on n s' \<and> s_desktop_scene s' = s_desktop_scene s \<and> g_sched s' = g_sched s \<and> s_next_session_id s' = n + 1 \<and>
    s_system_hive_loaded s' = s_system_hive_loaded s \<and>
    dm_Width (tg_Mode (s_display_target s')) = w \<and> dm_Height (tg_Mode (s_display_target s')) = h"
  using assms by (simp add: boot_defs logged_on_def)

definition shell_ready :: "u32 \<Rightarrow> nat \<Rightarrow> nat \<Rightarrow> smgr \<Rightarrow> bool" where
  "shell_ready n p t s \<longleftrightarrow> is_ShellProcess (s_interactive s) = Some p \<and> is_ShellThread (s_interactive s) = Some t \<and>
    sh_Registered (s_shell s) \<and> sh_Thread (s_shell s) = Some t \<and>
    sf_SessionId (s_shell_surface s) = n \<and> sf_BoundToExplorer (s_shell_surface s) \<and>
    sc_SessionId (s_desktop_scene s) = n \<and> sc_ZOrderReady (s_desktop_scene s) \<and>
    sc_WindowCount (s_desktop_scene s) = 3 \<and> map wi_Foreground (take 3 (sc_Windows (s_desktop_scene s))) = [False, True, False]"

lemma shell_phase:
  assumes "logged_on n s" "n \<noteq> 0" "length (sc_Windows (s_desktop_scene s)) = 4"
    "launch (case QueryString (s_system_hive_loaded s) (Some WINLOGON_KEY) (Some ''Shell'') of None \<Rightarrow> ''explorer.exe'' | Some n \<Rightarrow> n) (g_sched s)
      = Some (p, t, k)"
  shows "\<exists>s'. boot_shell launch s = Some s' \<and>
    logged_on n s' \<and> shell_ready n p t s' \<and> g_sched s' = k \<and> s_display_target s' = s_display_target s \<and>
    s_next_session_id s' = s_next_session_id s"
proof -
  obtain w0 w1 w2 w3 where ws: "sc_Windows (s_desktop_scene s) = [w0, w1, w2, w3]"
    using assms(3) by (auto simp: length_Suc_conv numeral_eq_Suc)
  show ?thesis
    using assms(1,2,4) by (simp add: desktop_defs ExplorerStart_def Let_def logged_on_def shell_ready_def ws)
qed

lemma Build_layout:
  assumes "sc_ZOrderReady sc" "sc_SessionId sc = n" "n \<noteq> 0"
  shows "\<exists>l. BuildXpRedesignLayout sc = Some l \<and> wf_layout l \<and> lay_Ready l \<and> lay_SessionId l = n \<and>
    \<not> lay_StartMenuOpen l \<and> lay_WindowCount l = 5 \<and> lay_IconCount l = 6 \<and>
    take 6 (lay_Icons l) = layout_icons \<and> take 5 (lay_Windows l) = layout_windows"
proof -
  obtain l where l: "BuildXpRedesignLayout sc = Some l" using assms by (simp add: BuildXpRedesignLayout_def Let_def)
  then have "wf_layout l" by (rule wf_layout_Build)
  with l show ?thesis using assms
    by (auto simp: BuildXpRedesignLayout_def Let_def add_icon_def add_window_def layout_icons_def layout_windows_def
        DesktopLayout0_def replicate_numeral)
qed

definition desktop_ready :: "u32 \<Rightarrow> smgr \<Rightarrow> bool" where
  "desktop_ready n s \<longleftrightarrow> (let l = s_desktop_layout s; p = s_pointer_state s in
    wf_layout l \<and> lay_Ready l \<and> lay_SessionId l = n \<and> \<not> lay_StartMenuOpen l \<and> lay_WindowCount l = 5 \<and>
    lay_IconCount l = 6 \<and> take 6 (lay_Icons l) = layout_icons \<and> take 5 (lay_Windows l) = layout_windows \<and>
    lay_ScreenW l = dm_Width (tg_Mode (s_display_target s)) \<and> lay_ScreenH l = dm_Height (tg_Mode (s_display_target s)) \<and>
    co_DesktopPresented (s_compositor s) \<and> dt_Active (s_shell_desktop s) \<and>
    in_SessionId (s_input_desktop s) = n \<and> in_CursorVisible (s_input_desktop s) \<and>
    pt_SessionId p = n \<and> pt_HitTestingReady p \<and> \<not> pt_LeftButtonDown p)"

lemma desktop_phase:
  assumes "logged_on n s" "shell_ready n p t s" "n \<noteq> 0"
  shows "\<exists>s'. boot_desktop s = Some s' \<and>
    logged_on n s' \<and> shell_ready n p t s' \<and> desktop_ready n s' \<and> g_sched s' = g_sched s \<and>
    s_next_session_id s' = s_next_session_id s \<and> s_display_target s' = s_display_target s"
proof -
  obtain l where l: "BuildXpRedesignLayout (s_desktop_scene s) = Some l" "wf_layout l" "lay_Ready l" "lay_SessionId l = n"
    "\<not> lay_StartMenuOpen l" "lay_WindowCount l = 5" "lay_IconCount l = 6" "take 6 (lay_Icons l) = layout_icons"
    "take 5 (lay_Windows l) = layout_windows"
    using Build_layout [of "s_desktop_scene s" n] assms by (auto simp: shell_ready_def)
  then have w: "wf_layout (l\<lparr>lay_ScreenW := a, lay_ScreenH := b\<rparr>)" for a b by (simp add: wf_layout_def)
  show ?thesis
    using assms l w by (simp add: boot_desktop_def DesktopModelStart_def PresentDesktop_def PresentShellDesktop_def SwitchDesktop_def
        InputHostStart_def AttachDesktop_def FocusShellSurface_def ShowCursor_def ShellInputStart_def AttachLayout_def
        PrimeDefaultHitTarget_def ClickPointer_def MovePointer_def ResolveHitTarget_def desktop_ready_def logged_on_def
        shell_ready_def Let_def case_prod_beta)
qed

lemma BuildStartMenu_items:
  assumes "lay_Ready l" "ac_ActivationReady a" "lay_SessionId l = ac_SessionId a"
  shows "\<exists>m. BuildStartMenu l a = Some m \<and> sm_SessionId m = ac_SessionId a \<and> sm_ItemCount m = 8 \<and>
    take 8 (sm_Items m) = start_items \<and> sm_Open m = ac_StartMenuOpen a"
  using assms by (simp add: BuildStartMenu_def start_items_def add_item_def StartMenuState0_def replicate_numeral)

definition shell_published :: "u32 \<Rightarrow> smgr \<Rightarrow> bool" where
  "shell_published n s \<longleftrightarrow>
    ac_SessionId (s_activation_state s) = n \<and> ac_TaskbarReady (s_activation_state s) \<and>
    ay_SessionId (s_accessibility_state s) = n \<and> ay_Ready (s_accessibility_state s) \<and>
    sm_SessionId (s_start_menu s) = n \<and> sm_Published (s_start_menu s) \<and>
    ps_SessionId (s_place_state s) = n \<and> ps_Published (s_place_state s) \<and> ps_PlaceCount (s_place_state s) = 6 \<and>
    pw_SessionId (s_power_state s) = n \<and> pw_Published (s_power_state s) \<and>
    cs_SessionId (s_command_state s) = n \<and> cs_Published (s_command_state s) \<and> cs_CommandCount (s_command_state s) = 2 \<and>
    tk_SessionId (s_taskbar_state s) = n \<and> tk_Published (s_taskbar_state s) \<and> tk_ButtonCount (s_taskbar_state s) = 6 \<and>
    tr_SessionId (s_tray_state s) = n \<and> tr_Published (s_tray_state s) \<and>
    nq_SessionId (s_notification_queue s) = n \<and> nq_Count (s_notification_queue s) = 1"

lemma activation_phase:
  assumes "desktop_ready n s" "n \<noteq> 0"
  obtains a y where "do { s \<leftarrow> ShellActivationStart s; ShellAccessibilityStart s } =
      Some (s\<lparr>s_activation_state := a, s_accessibility_state := y\<rparr>)"
    "ac_SessionId a = n" "ac_TaskbarReady a" "ac_ActivationReady a" "ay_SessionId y = n" "ay_Ready y"
proof -
  let ?l = "s_desktop_layout s"
  obtain a0 where a0: "CreateActivationState ?l (s_activation_state s) = Some a0" "ac_SessionId a0 = n" "ac_ActivationReady a0"
    using assms by (auto simp: CreateActivationState_def desktop_ready_def Let_def)
  obtain a1 where a1: "ApplyPointerTarget (s_pointer_state s) ?l a0 = Some a1" "ac_SessionId a1 = n" "ac_ActivationReady a1"
  proof (cases "ApplyPointerTarget (s_pointer_state s) ?l a0")
    case None
    then show ?thesis using assms a0 by (auto simp: ApplyPointerTarget_def desktop_ready_def Let_def split: if_splits)
  next
    case (Some a1)
    then have "ac_SessionId a1 = n" "ac_ActivationReady a1"
      using a0 by (auto simp: ApplyPointerTarget_def split: if_splits)
    with Some that show ?thesis by blast
  qed
  have a2: "PublishTaskbarState ?l a1 = Some (a1\<lparr>ac_TaskbarReady := True\<rparr>)"
    using assms a1 by (simp add: PublishTaskbarState_def desktop_ready_def Let_def)
  define y where "y = (s_accessibility_state s)\<lparr>ay_SessionId := n, ay_FocusCuesVisible := True, ay_HighContrast := False,
       ay_NarratorHooksReady := True, ay_Ready := True\<rparr>"
  have "do { s \<leftarrow> ShellActivationStart s; ShellAccessibilityStart s } =
      Some (s\<lparr>s_activation_state := a1\<lparr>ac_TaskbarReady := True\<rparr>, s_accessibility_state := y\<rparr>)"
    using a0 a1 a2 by (simp add: ShellActivationStart_def ShellAccessibilityStart_def CreateAccessibilityState_def
        PublishFocusCues_def y_def)
  then show ?thesis by (rule that) (simp_all add: a1 y_def)
qed

lemma menu_published:
  assumes "desktop_ready n s" "n \<noteq> 0" "ac_ActivationReady (s_activation_state s)" "ac_SessionId (s_activation_state s) = n"
  obtains m where "ShellStartMenuStart s = Some (s\<lparr>s_start_menu := m\<rparr>)" "sm_SessionId m = n" "sm_Published m"
    "sm_ItemCount m = 8" "take 8 (sm_Items m) = start_items"
proof -
  obtain m where m: "BuildStartMenu (s_desktop_layout s) (s_activation_state s) = Some m" "sm_SessionId m = n"
    "sm_ItemCount m = 8" "take 8 (sm_Items m) = start_items"
    using BuildStartMenu_items [of "s_desktop_layout s" "s_activation_state s"] assms
    by (auto simp: desktop_ready_def Let_def)
  have "ShellStartMenuStart s = Some (s\<lparr>s_start_menu := m\<lparr>sm_Published := True\<rparr>\<rparr>)"
    using m assms(2) by (simp add: ShellStartMenuStart_def PublishStartMenu_def)
  then show ?thesis by (rule that) (simp_all add: m)
qed

lemma places_published:
  assumes "desktop_ready n s" "sm_SessionId (s_start_menu s) = n" "sm_Published (s_start_menu s)"
    "sm_ItemCount (s_start_menu s) = 8" "take 8 (sm_Items (s_start_menu s)) = start_items"
  obtains p where "ShellPlacesStart s = Some (s\<lparr>s_place_state := p\<rparr>)" "ps_SessionId p = n" "ps_Published p"
    "ps_PlaceCount p = 6"
proof -
  have k: "shell_kinds (s_desktop_layout s) (s_start_menu s) =
      [PlaceComputer, PlaceDocuments, PlaceNetwork, PlaceMedia, PlaceControlPanel, PlaceRecycleBin]"
    using assms by (simp add: shell_kinds_def desktop_ready_def Let_def layout_icons_def start_items_def MakeDesktopIcon_def
        MakeItem_def item_kind_def TryKindFromTarget_def add_kind_def)
  have "lay_Ready (s_desktop_layout s)" "lay_SessionId (s_desktop_layout s) = sm_SessionId (s_start_menu s)"
    using assms by (simp_all add: desktop_ready_def Let_def)
  then obtain p where p: "BuildPlaceState (s_desktop_layout s) (s_start_menu s) (s_place_state s) = (True, p)" "wf_places p"
    "place_kinds p = shell_kinds (s_desktop_layout s) (s_start_menu s)" "ps_SessionId p = sm_SessionId (s_start_menu s)"
    "ps_NamespaceReady p"
    "case FindPlace PlaceComputer p of None \<Rightarrow> ps_DefaultPlaceIndex p = 0 | Some i \<Rightarrow> ps_DefaultPlaceIndex p = of_nat i"
    using BuildPlaceState_kinds [of "s_desktop_layout s" "s_start_menu s" "s_place_state s"] assms(3) unfolding k by auto
  have n: "unat (ps_PlaceCount p) = 6" using wf_places_count(1) [OF p(2)] p(3) k by simp
  then have c: "ps_PlaceCount p = 6" by (metis of_nat_numeral of_nat_unat ucast_id)
  have "ps_DefaultPlaceIndex p < ps_PlaceCount p"
  proof (cases "FindPlace PlaceComputer p")
    case (Some i)
    then show ?thesis using p(6) FindPlace_Some [OF Some] by (simp add: of_nat_less_count)
  qed (use p(6) c in simp)
  then have "ShellPlacesStart s = Some (s\<lparr>s_place_state := p\<lparr>ps_Published := True\<rparr>\<rparr>)"
    using c p(1,5) by (simp add: ShellPlacesStart_def PublishPlaceState_def)
  then show ?thesis by (rule that) (simp_all add: p c assms)
qed

lemma power_published:
  assumes "sm_SessionId (s_start_menu s) = n" "sm_Published (s_start_menu s)" "n \<noteq> 0"
  obtains p where "ShellPowerStart s = Some (s\<lparr>s_power_state := p\<rparr>)" "pw_SessionId p = n" "pw_Published p"
  using assms by (simp add: ShellPowerStart_def BuildPowerState_def PublishPowerState_def Let_def add_action_def PowerState0_def)

lemma commands_published:
  assumes "sm_SessionId (s_start_menu s) = n" "sm_Published (s_start_menu s)" "n \<noteq> 0"
    "sm_ItemCount (s_start_menu s) = 8" "take 8 (sm_Items (s_start_menu s)) = start_items"
  obtains c where "ShellCommandsStart s = Some (s\<lparr>s_command_state := c\<rparr>)" "cs_SessionId c = n" "cs_Published c"
    "cs_CommandCount c = 2"
proof -
  define c where "c = fold TryAddCommand start_items (CommandState0\<lparr>cs_SessionId := n\<rparr>)"
  have c: "cs_SessionId c = n" "cs_CommandCount c = 2"
    by (simp_all add: c_def start_items_def MakeItem_def TryAddCommand_def command_kind_def CommandState0_def word_le_nat_alt)
  have "BuildCommandState (s_start_menu s) (s_command_state s) = (True, c\<lparr>cs_DefaultCommandIndex := 0\<rparr>)"
    using assms c by (simp add: BuildCommandState_def Let_def flip: c_def)
  then have "ShellCommandsStart s = Some (s\<lparr>s_command_state := c\<lparr>cs_DefaultCommandIndex := 0, cs_Published := True\<rparr>\<rparr>)"
    using c by (simp add: ShellCommandsStart_def PublishCommandState_def)
  then show ?thesis by (rule that) (simp_all add: c)
qed

lemma taskbar_published:
  assumes "desktop_ready n s" "n \<noteq> 0" "ac_TaskbarReady (s_activation_state s)" "ac_SessionId (s_activation_state s) = n"
  obtains t where "ShellTaskbarStart s = Some (s\<lparr>s_taskbar_state := t\<rparr>)" "tk_SessionId t = n" "tk_Published t"
    "tk_ButtonCount t = 6"
  using assms by (simp add: ShellTaskbarStart_def BuildTaskbar_def PublishTaskbar_def desktop_ready_def Let_def
      window_buttons.simps add_button_def TaskbarState0_def)

lemma tray_published:
  assumes "n \<noteq> 0" "ac_TaskbarReady (s_activation_state s)" "ac_SessionId (s_activation_state s) = n"
  obtains t q where "do { s \<leftarrow> ShellTrayStart s; ShellNotificationsStart s } =
      Some (s\<lparr>s_tray_state := t, s_notification_queue := q\<rparr>)" "tr_SessionId t = n" "tr_Published t"
    "nq_SessionId q = n" "nq_Count q = 1"
  using assms by (simp add: ShellTrayStart_def CreateTrayState_def PublishTrayState_def ShellNotificationsStart_def
      CreateNotificationQueue_def PublishWelcomeNotification_def add_tray_icon_def TrayState0_def NotificationQueue0_def)

definition shell_image :: "smgr \<Rightarrow> cstr" where
  "shell_image s = (case QueryString (s_system_hive_loaded s) (Some WINLOGON_KEY) (Some ''Shell'') of
     None \<Rightarrow> ''explorer.exe'' | Some n \<Rightarrow> n)"

lemma publish_phase:
  assumes "desktop_ready n s" "logged_on n s" "shell_ready n p t s" "n \<noteq> 0"
  shows "\<exists>s'. boot_publish s = Some s' \<and>
    desktop_ready n s' \<and> logged_on n s' \<and> shell_ready n p t s' \<and> shell_published n s' \<and>
    g_sched s' = AddThread (Thr t) (g_sched s)"
proof -
  obtain a y where 1: "do { s \<leftarrow> ShellActivationStart s; ShellAccessibilityStart s } =
      Some (s\<lparr>s_activation_state := a, s_accessibility_state := y\<rparr>)"
    and a: "ac_SessionId a = n" "ac_TaskbarReady a" "ac_ActivationReady a" "ay_SessionId y = n" "ay_Ready y"
    using activation_phase [OF assms(1,4)] .
  let ?s1 = "s\<lparr>s_activation_state := a, s_accessibility_state := y\<rparr>"
  have d1: "desktop_ready n ?s1" using assms(1) by (simp add: desktop_ready_def)
  obtain m where 2: "ShellStartMenuStart ?s1 = Some (?s1\<lparr>s_start_menu := m\<rparr>)"
    and m: "sm_SessionId m = n" "sm_Published m" "sm_ItemCount m = 8" "take 8 (sm_Items m) = start_items"
    by (rule menu_published [OF d1 assms(4)]) (simp_all add: a)
  let ?s2 = "?s1\<lparr>s_start_menu := m\<rparr>"
  have d2: "desktop_ready n ?s2" using d1 by (simp add: desktop_ready_def)
  obtain pl where 3: "ShellPlacesStart ?s2 = Some (?s2\<lparr>s_place_state := pl\<rparr>)"
    and pl: "ps_SessionId pl = n" "ps_Published pl" "ps_PlaceCount pl = 6"
    by (rule places_published [OF d2]) (simp_all add: m)
  let ?s3 = "?s2\<lparr>s_place_state := pl\<rparr>"
  obtain pw where 4: "ShellPowerStart ?s3 = Some (?s3\<lparr>s_power_state := pw\<rparr>)" and pw: "pw_SessionId pw = n" "pw_Published pw"
    by (rule power_published [of ?s3 n]) (simp_all add: m assms(4))
  let ?s4 = "?s3\<lparr>s_power_state := pw\<rparr>"
  obtain c where 5: "ShellCommandsStart ?s4 = Some (?s4\<lparr>s_command_state := c\<rparr>)"
    and c: "cs_SessionId c = n" "cs_Published c" "cs_CommandCount c = 2"
    by (rule commands_published [of ?s4 n]) (simp_all add: m assms(4))
  let ?s5 = "?s4\<lparr>s_command_state := c\<rparr>"
  have d5: "desktop_ready n ?s5" using d1 by (simp add: desktop_ready_def)
  obtain tk where 6: "ShellTaskbarStart ?s5 = Some (?s5\<lparr>s_taskbar_state := tk\<rparr>)"
    and tk: "tk_SessionId tk = n" "tk_Published tk" "tk_ButtonCount tk = 6"
    by (rule taskbar_published [OF d5 assms(4)]) (simp_all add: a)
  let ?s6 = "?s5\<lparr>s_taskbar_state := tk\<rparr>"
  obtain tr q where 7: "do { s \<leftarrow> ShellTrayStart ?s6; ShellNotificationsStart s } =
      Some (?s6\<lparr>s_tray_state := tr, s_notification_queue := q\<rparr>)"
    and tr: "tr_SessionId tr = n" "tr_Published tr" "nq_SessionId q = n" "nq_Count q = 1"
    by (rule tray_published [OF assms(4), of ?s6]) (simp_all add: a)
  let ?s7 = "?s6\<lparr>s_tray_state := tr, s_notification_queue := q\<rparr>"
  let ?s8 = "?s7\<lparr>g_sched := AddThread (Thr t) (g_sched s)\<rparr>"
  have 8: "ShellThreadStart ?s7 = Some ?s8"
    using assms(3) by (simp add: ShellThreadStart_def StartShellThread_def shell_ready_def)
  have "boot_publish s = Some ?s8"
    unfolding boot_publish_def using 1 2 3 4 5 6 7 8 by (simp add: Option.bind_eq_Some_conv) (metis option.inject)
  moreover have "shell_published n ?s8" by (simp add: shell_published_def a m pl pw c tk tr)
  moreover have "desktop_ready n ?s8" "logged_on n ?s8" "shell_ready n p t ?s8"
    using assms(1-3) by (simp_all add: desktop_ready_def logged_on_def shell_ready_def)
  ultimately show ?thesis by (intro exI [of _ ?s8]) simp
qed

text \<open>With the graphics subsystem initialised, a framebuffer and a shell image that can be
  launched, no assertion of the bootstrap fails: the session ends logged on, the shell registered
  and bound, the desktop composed and presented, every part of the shell published, all of them
  under the one session number, and the shell's thread in the scheduler's ready queue.\<close>
theorem session_bootstrap:
  assumes "s_initialized s" "s_next_session_id s = n" "n \<noteq> 0" "g_framebuffer s = Some (w, h, st, f)" "w \<noteq> 0" "h \<noteq> 0"
    "length (sc_Windows (s_desktop_scene s)) = 4" "launch (shell_image s) (g_sched s) = Some (p, t, k)"
  shows "\<exists>s'. StartInteractiveSession launch s = Some s' \<and> logged_on n s' \<and> shell_ready n p t s' \<and>
    desktop_ready n s' \<and> shell_published n s' \<and> g_sched s' = AddThread (Thr t) k"
proof -
  obtain s1 where 1: "boot_logon s = Some s1"
    and l1: "logged_on n s1" "s_desktop_scene s1 = s_desktop_scene s" "g_sched s1 = g_sched s"
      "s_system_hive_loaded s1 = s_system_hive_loaded s"
    using logon_phase [OF assms(1-6)] by blast
  obtain s2 where 2: "boot_shell launch s1 = Some s2"
    and l2: "logged_on n s2" "shell_ready n p t s2" "g_sched s2 = k"
    using shell_phase [OF l1(1) assms(3), of launch p t k] assms(7,8) l1 by (auto simp: shell_image_def)
  obtain s3 where 3: "boot_desktop s2 = Some s3"
    and l3: "logged_on n s3" "shell_ready n p t s3" "desktop_ready n s3" "g_sched s3 = k"
    using desktop_phase [OF l2(1,2) assms(3)] l2(3) by auto
  obtain s4 where 4: "boot_publish s3 = Some s4"
    and l4: "desktop_ready n s4" "logged_on n s4" "shell_ready n p t s4" "shell_published n s4" "g_sched s4 = AddThread (Thr t) k"
    using publish_phase [OF l3(3,1,2) assms(3)] l3(4) by auto
  have "StartInteractiveSession launch s = Some s4"
    by (simp add: StartInteractiveSession_phases 1 2 3 4)
  with l4 show ?thesis by blast
qed

text \<open>The statics as the kernel starts with them, a 1920 by 1080 framebuffer and WIN32K initialised.\<close>
definition smgr_demo :: smgr where
  "smgr_demo = \<lparr>
     s_system = \<lparr>sys_SessionId = 0, sys_ServicesReady = False, sys_CoreServicesStarted = False\<rparr>,
     s_services = ServiceControlPlane0,
     s_interactive = \<lparr>is_SessionId = 0, is_ShellProcess = None, is_ShellThread = None\<rparr>,
     s_win32 = \<lparr>w32_SessionId = 0, w32_RuntimeReady = False, w32_ConsoleReady = False\<rparr>,
     s_graphics = \<lparr>gfx_SessionId = 0, gfx_Win32Attached = False\<rparr>,
     s_winsta = \<lparr>ws_SessionId = 0, ws_Ready = False\<rparr>,
     s_secure_desktop = Desktop0, s_shell_desktop = Desktop0,
     s_compositor = \<lparr>co_SessionId = 0, co_Running = False, co_DesktopPresented = False\<rparr>,
     s_shell = Shell0, s_shell_surface = ShellSurface0, s_input_desktop = InputDesktop0,
     s_desktop_scene = DesktopScene0, s_desktop_layout = layout_demo,
     s_display_mode = DisplayMode0,
     s_display_target = \<lparr>tg_SessionId = 0, tg_Mode = DisplayMode0, tg_Attached = False, tg_MetricsReady = False\<rparr>,
     s_theme = Theme0, s_pointer_state = pointer_at 1700 560,
     s_activation_state = \<lparr>ac_SessionId = 0, ac_ActiveWindowIndex = 0, ac_StartMenuOpen = False,
       ac_TaskbarReady = False, ac_ActivationReady = False\<rparr>,
     s_accessibility_state = \<lparr>ay_SessionId = 0, ay_FocusCuesVisible = False, ay_HighContrast = False,
       ay_NarratorHooksReady = False, ay_Ready = False\<rparr>,
     s_command_state = CommandState0, s_tray_state = TrayState0, s_notification_queue = NotificationQueue0,
     s_start_menu = StartMenuState0, s_place_state = PlaceState0, s_power_state = PowerState0,
     s_taskbar_state = TaskbarState0,
     s_logon = \<lparr>lo_SessionId = 0, lo_State = LogonCreated\<rparr>,
     s_profile = \<lparr>pf_SessionId = 0, pf_UserName = None, pf_HomeDirectory = None, pf_HiveLoaded = False,
       pf_EnvironmentReady = False\<rparr>,
     s_shell_app = \<lparr>ai_SessionId = 0, ai_AppId = None, ai_ImageName = None, ai_Registered = False\<rparr>,
     s_next_session_id = 1, s_dragging = False, s_drag_win = 0, s_drag_off_x = 0, s_drag_off_y = 0,
     s_system_hive_loaded = True, s_initialized = True, g_framebuffer = Some (1920, 1080, 1920, 0),
     g_mouse = mouse_demo\<lparr>s_ready := True\<rparr>, g_sched = ksys_idle\<rparr>"

definition launch_demo :: launcher where
  "launch_demo name k = (if name = ''explorer.exe'' then Some (4, 3, k) else None)"

lemma session_bootstrap_witness:
  "\<exists>s'. StartInteractiveSession launch_demo smgr_demo = Some s' \<and> shell_published 1 s' \<and>
     g_sched s' = AddThread (Thr 3) ksys_idle"
proof -
  have "launch_demo (shell_image smgr_demo) (g_sched smgr_demo) = Some (4, 3, ksys_idle)"
    by (simp add: shell_image_def launch_demo_def QueryString_Shell) (simp add: smgr_demo_def)
  then have "\<exists>s'. StartInteractiveSession launch_demo smgr_demo = Some s' \<and> logged_on 1 s' \<and> shell_ready 1 4 3 s' \<and>
      desktop_ready 1 s' \<and> shell_published 1 s' \<and> g_sched s' = AddThread (Thr 3) ksys_idle"
    by (intro session_bootstrap [where w = 1920 and h = 1080 and st = 1920 and f = 0])
      (simp_all add: smgr_demo_def DesktopScene0_def)
  then show ?thesis by blast
qed

end
