(* ===== verification/KernelMain.thy ===== *)
theory KernelMain
  imports KernelBoot SessionManager
begin

text \<open>The second half of kernel\_main, kernel/core/kernel\_main.cpp: the test programs M5 to DISKEXE that the kernel runs on itself before it
  is ready, the wait after them, and the loop of the desktop.  The main thread waits for a flag by calling Schedule: what the other
  threads and the interrupts do until that call returns is an argument, and may depend on state of its own, the extension 'x.  The bytes
  of the programs that are part of the kernel (kernel/ldr/*\_pe.h) and the addresses of the thread functions are the record boot\_code.
  An assertion that fails stops the machine: None.\<close>

record ('nv) kmain = "'nv kernel" +
  bt_done :: u32
  bt_waiter :: bool
  bt_seh :: bool

record boot_code =
  bc_ntdll :: kernel_dll
  bc_shell :: kernel_dll
  bc_hello :: kernel_dll
  bc_hello2 :: kernel_dll
  bc_hello3_base :: u64
  bc_hello4 :: kernel_dll
  bc_hello5 :: kernel_dll
  bc_hello6 :: kernel_dll
  bc_hello7 :: kernel_dll
  bc_hello8 :: kernel_dll
  bc_hello9 :: kernel_dll
  bc_hello10 :: kernel_dll
  bc_wintest :: kernel_dll
  bc_kernel32 :: kernel_dll
  bc_win32test :: kernel_dll
  bc_extra :: kernel_dll
  bc_test_fn :: u64
  bc_args :: "u64 \<times> u64 \<times> u64"
  bc_waiter_fn :: u64
  bc_setter_fn :: u64
  bc_m12_ev :: u64

section \<open>Waiting\<close>

type_synonym ('nv, 'x) others = "('nv, 'x) kmain_scheme \<Rightarrow> ('nv, 'x) kmain_scheme"

abbreviation "kn_ps k \<equiv> ks_ps (kn_ks k)"
abbreviation "kn_cmd k \<equiv> ks_cmd (kn_ks k)"
abbreviation "set_kn_cmd c k \<equiv> k\<lparr>kn_ks := (kn_ks k)\<lparr>ks_cmd := c\<rparr>\<rparr>"

text \<open>One call of Schedule by the main thread.\<close>
definition yield_main :: "('nv, 'x) others \<Rightarrow> ('nv, 'x) kmain_scheme \<Rightarrow> ('nv, 'x) kmain_scheme" where
  "yield_main others k = others (set_kn_ps ((kn_ps k)\<lparr>p_sys := Schedule (p_sys (kn_ps k))\<rparr>) k)"

partial_function (option) wait_for :: "('nv, 'x) others \<Rightarrow> (('nv, 'x) kmain_scheme \<Rightarrow> bool) \<Rightarrow> ('nv, 'x) kmain_scheme \<Rightarrow> ('nv, 'x) kmain_scheme option" where
  "wait_for others cnd k = (if cnd k then Some k else wait_for others cnd (yield_main others k))"

definition wait_flag :: "('nv, 'x) others \<Rightarrow> nat \<Rightarrow> ('nv, 'x) kmain_scheme \<Rightarrow> ('nv, 'x) kmain_scheme option" where
  "wait_flag others n k = wait_for others (\<lambda>k. n \<in> ks_flags (kn_ks k)) k"

definition clear_flags :: "nat set \<Rightarrow> ('nv, 'x) kmain_scheme \<Rightarrow> ('nv, 'x) kmain_scheme" where
  "clear_flags ns k = k\<lparr>kn_ks := (kn_ks k)\<lparr>ks_flags := ks_flags (kn_ks k) - ns\<rparr>\<rparr>"

section \<open>The parts of a test program\<close>

definition boot_process :: "cstr \<Rightarrow> ('nv, 'x) kmain_scheme \<Rightarrow> (u64 \<times> nat \<times> ('nv, 'x) kmain_scheme) option" where
  "boot_process nm k =
    (let (cr3, v) = CreateUserPml4 (kn_vmm k); k = set_kn_vmm v k in
     if cr3 = 0 then None else
     case CreateProcess (Some nm) cr3 (kn_ps k) of (None, ps) \<Rightarrow> None | (Some p, ps) \<Rightarrow> Some (cr3, p, set_kn_ps ps k))"

definition boot_stack :: "u64 \<Rightarrow> u64 \<Rightarrow> ('nv, 'x) kmain_scheme \<Rightarrow> ('nv, 'x) kmain_scheme option" where
  "boot_stack cr3 va k =
    (let (stk_phys, v) = alloc_page (kn_vmm k) in
     if stk_phys = 0 then None else
     let (mapped, v) = MapPageInto cr3 va stk_phys USER_RW (zero_page stk_phys v)
     in if mapped then Some (set_kn_vmm v k) else None)"

definition boot_dll :: "cstr \<Rightarrow> kernel_dll \<Rightarrow> u64 \<Rightarrow> ('nv, 'x) kmain_scheme \<Rightarrow> ('nv, 'x) kmain_scheme option" where
  "boot_dll nm d cr3 k = do {
     (st, e, l) \<leftarrow> LoadAndRegister nm (fst d) (fst (snd d)) cr3 (snd (snd d)) (cs_ldr (kn_cmd k));
     if NT_SUCCESS st then Some (set_kn_cmd ((kn_cmd k)\<lparr>cs_ldr := l\<rparr>) k) else None }"

definition boot_exe :: "kernel_dll \<Rightarrow> u64 \<Rightarrow> ('nv, 'x) kmain_scheme \<Rightarrow> (u64 \<times> ('nv, 'x) kmain_scheme) option" where
  "boot_exe d cr3 k = do {
     (st, e, l) \<leftarrow> LoadPe (fst d) (fst (snd d)) cr3 (snd (snd d)) (cs_ldr (kn_cmd k));
     if NT_SUCCESS st then Some (case e of None \<Rightarrow> 0 | Some a \<Rightarrow> a, set_kn_cmd ((kn_cmd k)\<lparr>cs_ldr := l\<rparr>) k) else None }"

definition boot_thread :: "nat \<Rightarrow> cstr \<Rightarrow> u64 \<Rightarrow> u64 \<Rightarrow> ('nv, 'x) kmain_scheme \<Rightarrow> (node \<times> ('nv, 'x) kmain_scheme) option" where
  "boot_thread p nm entry stack_top k =
    (case CreateUserThread (Some p) (Some nm) entry stack_top 0 KERNEL_STACK_SIZE (kn_ps k) of (None, ps) \<Rightarrow> None
     | (Some t, ps) \<Rightarrow> Some (t, set_kn_ps ps k))"

definition add_thread :: "node \<Rightarrow> ('nv, 'x) kmain_scheme \<Rightarrow> ('nv, 'x) kmain_scheme" where
  "add_thread t k = set_kn_ps ((kn_ps k)\<lparr>p_sys := AddThread t (p_sys (kn_ps k))\<rparr>) k"

text \<open>A program with at most one DLL: process, DLL, image, stack and thread, in this order.\<close>
definition boot_program :: "cstr \<Rightarrow> cstr \<Rightarrow> (cstr \<times> kernel_dll) option \<Rightarrow> (('nv, 'x) kmain_scheme \<Rightarrow> kernel_dll) \<Rightarrow> u64 \<Rightarrow>
    ('nv, 'x) kmain_scheme \<Rightarrow> (node \<times> ('nv, 'x) kmain_scheme) option" where
  "boot_program nm tname dll exe stack_va k = do {
     (cr3, p, k) \<leftarrow> boot_process nm k;
     k \<leftarrow> (case dll of None \<Rightarrow> Some k | Some (n, d) \<Rightarrow> boot_dll n d cr3 k);
     (entry, k) \<leftarrow> boot_exe (exe k) cr3 k;
     k \<leftarrow> boot_stack cr3 stack_va k;
     boot_thread p tname entry (stack_va + of_nat PAGE_SIZE) k }"

abbreviation "with_ntdll c \<equiv> Some (''ntdll.dll'', bc_ntdll c)"

section \<open>M5 to M8\<close>

text \<open>What a thread of M5 does after its iterations.\<close>
definition M5_thread_end :: "('nv, 'x) kmain_scheme \<Rightarrow> ('nv, 'x) kmain_scheme" where
  "M5_thread_end k = k\<lparr>bt_done := bt_done k + 1\<rparr>"

definition M5_test :: "('nv, 'x) others \<Rightarrow> boot_code \<Rightarrow> ('nv, 'x) kmain_scheme \<Rightarrow> ('nv, 'x) kmain_scheme option" where
  "M5_test others c k =
    (let sys = s_system_process (kn_ps k); (a, b, d) = bc_args c;
         (ta, ps) = CreateKernelThread sys (Some ''ThreadA'') (bc_test_fn c) a KERNEL_STACK_SIZE (kn_ps k);
         (tb, ps) = CreateKernelThread sys (Some ''ThreadB'') (bc_test_fn c) b KERNEL_STACK_SIZE ps;
         (tc, ps) = CreateKernelThread sys (Some ''ThreadC'') (bc_test_fn c) d KERNEL_STACK_SIZE ps in
     case (ta, tb, tc, s_main_thread ps) of (Some ta, Some tb, Some tc, Some main) \<Rightarrow>
       wait_for others (\<lambda>k. \<not> bt_done k < 3)
         (set_kn_ps (ps\<lparr>p_sys := AddThread tc (AddThread tb (AddThread ta (Sched_Start main (p_sys ps))))\<rparr>) k)
     | _ \<Rightarrow> None)"

definition USER_CODE :: "u8 list" where
  "USER_CODE = [0x31, 0xC0, 0xBF, 0x2A, 0x00, 0x00, 0x00, 0x0F, 0x05, 0xFF, 0xC0, 0x31, 0xFF, 0x0F, 0x05, 0xEB, 0xFE]"

text \<open>A page of code and a page of stack, for a program of a few instructions; code must be mapped before stack.\<close>
definition code_pages :: "u8 list \<Rightarrow> ('nv, 'x) kmain_scheme \<Rightarrow> (u64 \<times> u64 \<times> ('nv, 'x) kmain_scheme) option" where
  "code_pages code k =
    (let (code_phys, v) = alloc_page (kn_vmm k); (stack_phys, v) = alloc_page v in
     if code_phys = 0 \<or> stack_phys = 0 then None else
     Some (code_phys, stack_phys,
       set_kn_vmm (wr_bytes code_phys (length code) (\<lambda>i. code ! i) (zero_page stack_phys (zero_page code_phys v))) k))"

definition map_code :: "u64 \<Rightarrow> u64 \<Rightarrow> u64 \<Rightarrow> u64 \<Rightarrow> u64 \<Rightarrow> ('nv, 'x) kmain_scheme \<Rightarrow> ('nv, 'x) kmain_scheme option" where
  "map_code cr3 code_va code_phys stack_va stack_phys k =
    (let (ok, v) = MapPageInto cr3 code_va code_phys (PTE_PRESENT OR PTE_USER) (kn_vmm k) in
     if \<not> ok then None else
     let (ok, v) = MapPageInto cr3 stack_va stack_phys USER_RW v
     in if ok then Some (set_kn_vmm v k) else None)"

definition M6_test :: "('nv, 'x) others \<Rightarrow> ('nv, 'x) kmain_scheme \<Rightarrow> ('nv, 'x) kmain_scheme option" where
  "M6_test others k = do {
     (code_phys, stack_phys, k) \<leftarrow> code_pages USER_CODE k;
     (cr3, p, k) \<leftarrow> boot_process ''UserTest'' k;
     k \<leftarrow> map_code cr3 0x200001000 code_phys 0x200002000 stack_phys k;
     (t, k) \<leftarrow> boot_thread p ''UserTest0'' 0x200001000 (0x200002000 + of_nat PAGE_SIZE) k;
     wait_flag others 6 (add_thread t k) }"

definition M7_test :: "('nv, 'x) others \<Rightarrow> boot_code \<Rightarrow> ('nv, 'x) kmain_scheme \<Rightarrow> ('nv, 'x) kmain_scheme option" where
  "M7_test others c k = do {
     (cr3, p, k) \<leftarrow> boot_process ''hello.exe'' k;
     k \<leftarrow> boot_stack cr3 0x1000100000 k;
     (entry, k) \<leftarrow> boot_exe (bc_hello c) cr3 k;
     (t, k) \<leftarrow> boot_thread p ''hello.exe!main'' entry (0x1000100000 + of_nat PAGE_SIZE) k;
     k \<leftarrow> wait_for others (\<lambda>k. g_m7_pe_ok (kn_ks k) \<noteq> 0) (add_thread t k);
     if g_m7_pe_ok (kn_ks k) = 0x4D37 then Some k else None }"

definition M8_test :: "('nv, 'x) others \<Rightarrow> boot_code \<Rightarrow> ('nv, 'x) kmain_scheme \<Rightarrow> ('nv, 'x) kmain_scheme option" where
  "M8_test others c k = do {
     (t, k) \<leftarrow> boot_program ''hello2.exe'' ''hello2.exe!main'' (with_ntdll c) (\<lambda>_. bc_hello2 c) 0x8000100000 k;
     wait_flag others 8 (add_thread t k) }"

section \<open>M9 to M17\<close>

definition set_commands :: "cstr list \<Rightarrow> ('nv, 'x) kmain_scheme \<Rightarrow> ('nv, 'x) kmain_scheme" where
  "set_commands cmds k = set_kn_cmd (SetCommands cmds (kn_cmd k)) k"

definition M9_test :: "('nv, 'x) others \<Rightarrow> boot_code \<Rightarrow> ('nv, 'x) kmain_scheme \<Rightarrow> ('nv, 'x) kmain_scheme option" where
  "M9_test others c k = do {
     (t, k) \<leftarrow> boot_program ''shell.exe'' ''shell.exe!main'' (with_ntdll c) (\<lambda>_. bc_shell c) 0x9000100000
       (set_commands [''ver'', ''exit''] k);
     wait_flag others 9 (add_thread t k) }"

text \<open>The image of a file that the boot loader has read.\<close>
definition disk_image :: "u64 \<Rightarrow> ('nv, 'x) kmain_scheme \<Rightarrow> blob" where
  "disk_image a k = (\<lambda>i. rd8 (kn_vmm k) (a + i))"

definition M10_test :: "('nv, 'x) others \<Rightarrow> boot_code \<Rightarrow> ('nv, 'x) kmain_scheme \<Rightarrow> ('nv, 'x) kmain_scheme option" where
  "M10_test others c k =
    (let (fdata, fsize) = VFS_FindFile (Some ''hello3.exe'') (cs_vfs (kn_cmd k)) in
     if fdata = 0 \<or> fsize = 0 then Some k else do {
       (t, k) \<leftarrow> boot_program ''hello3.exe'' ''hello3.exe!main'' (with_ntdll c)
         (\<lambda>k. (Some (disk_image fdata k), fsize, bc_hello3_base c)) 0xA000100000 (clear_flags {8} k);
       wait_flag others 8 (add_thread t k) })"

definition M11_test :: "('nv, 'x) others \<Rightarrow> boot_code \<Rightarrow> ('nv, 'x) kmain_scheme \<Rightarrow> ('nv, 'x) kmain_scheme option" where
  "M11_test others c k = do {
     (t, k) \<leftarrow> boot_program ''hello4.exe'' ''hello4.exe!main'' (with_ntdll c) (\<lambda>_. bc_hello4 c) 0xB000100000 (clear_flags {8} k);
     wait_flag others 11 (add_thread t k) }"

text \<open>The two threads of M12 and their static event: the waiter before and after it blocks, and the setter after its sleep.\<close>
definition M12_waiter_begin :: "boot_code \<Rightarrow> ('nv, 'x) kmain_scheme \<Rightarrow> ('nv, 'x) kmain_scheme" where
  "M12_waiter_begin c k = k\<lparr>kn_ks := snd (on_sync (EventWait (bc_m12_ev c) 0xFFFFFFFF) (kn_ks k))\<rparr>"

definition end_thread :: "('nv, 'x) kmain_scheme \<Rightarrow> ('nv, 'x) kmain_scheme option" where
  "end_thread k = map_option (\<lambda>y. set_kn_ps ((kn_ps k)\<lparr>p_sys := y\<rparr>) k) (TerminateCurrentThread (p_sys (kn_ps k)))"

definition M12_waiter_end :: "('nv, 'x) kmain_scheme \<Rightarrow> ('nv, 'x) kmain_scheme option" where
  "M12_waiter_end k = end_thread (k\<lparr>bt_waiter := True\<rparr>)"

definition M12_setter_end :: "boot_code \<Rightarrow> ('nv, 'x) kmain_scheme \<Rightarrow> ('nv, 'x) kmain_scheme option" where
  "M12_setter_end c k = end_thread (k\<lparr>kn_ks := snd (on_sync (\<lambda>s. ((), EventSet (bc_m12_ev c) s)) (kn_ks k))\<rparr>)"

definition M12_kernel :: "('nv, 'x) others \<Rightarrow> boot_code \<Rightarrow> ('nv, 'x) kmain_scheme \<Rightarrow> ('nv, 'x) kmain_scheme option" where
  "M12_kernel others c k =
    (let k = k\<lparr>kn_ks := snd (on_sync (\<lambda>s. ((), EventInit (bc_m12_ev c) False False s)) (kn_ks k))\<rparr>;
         sys = s_system_process (kn_ps k);
         (tw, ps) = CreateKernelThread sys (Some ''M12Waiter'') (bc_waiter_fn c) 0 KERNEL_STACK_SIZE (kn_ps k);
         (ts, ps) = CreateKernelThread sys (Some ''M12Setter'') (bc_setter_fn c) 0 KERNEL_STACK_SIZE ps in
     case (tw, ts) of (Some tw, Some ts) \<Rightarrow> wait_for others bt_waiter (add_thread ts (add_thread tw (set_kn_ps ps k)))
     | _ \<Rightarrow> None)"

definition M12_test :: "('nv, 'x) others \<Rightarrow> boot_code \<Rightarrow> ('nv, 'x) kmain_scheme \<Rightarrow> ('nv, 'x) kmain_scheme option" where
  "M12_test others c k = do {
     k \<leftarrow> M12_kernel others c k;
     (t, k) \<leftarrow> boot_program ''hello5.exe'' ''hello5.exe!main'' (with_ntdll c) (\<lambda>_. bc_hello5 c) 0xC000100000 (clear_flags {8, 12} k);
     k \<leftarrow> wait_flag others 8 (add_thread t k);
     if 12 \<in> ks_flags (kn_ks k) then Some k else None }"

definition M13_test :: "('nv, 'x) others \<Rightarrow> boot_code \<Rightarrow> ('nv, 'x) kmain_scheme \<Rightarrow> ('nv, 'x) kmain_scheme option" where
  "M13_test others c k = do {
     (t, k) \<leftarrow> boot_program ''hello6.exe'' ''hello6.exe!main'' (with_ntdll c) (\<lambda>_. bc_hello6 c) 0xD000100000 (clear_flags {8, 13} k);
     wait_flag others 13 (add_thread t k) }"

definition M14_test :: "('nv, 'x) others \<Rightarrow> boot_code \<Rightarrow> ('nv, 'x) kmain_scheme \<Rightarrow> ('nv, 'x) kmain_scheme option" where
  "M14_test others c k = do {
     (t, k) \<leftarrow> boot_program ''hello7.exe'' ''hello7.exe!main'' (with_ntdll c) (\<lambda>_. bc_hello7 c) 0xE000100000 (clear_flags {8, 14} k);
     wait_flag others 14 (add_thread t k) }"

definition M15_test :: "('nv, 'x) others \<Rightarrow> boot_code \<Rightarrow> ('nv, 'x) kmain_scheme \<Rightarrow> ('nv, 'x) kmain_scheme option" where
  "M15_test others c k = do {
     (t, k) \<leftarrow> boot_program ''hello8.exe'' ''hello8.exe!main'' (with_ntdll c) (\<lambda>_. bc_hello8 c) 0xF000100000 (clear_flags {8, 15} k);
     let k = set_kn_ps (set_thr t (\<lambda>th. th\<lparr>Priority := THREAD_PRIORITY_HIGH\<rparr>) (kn_ps k)) k;
     wait_flag others 15 (add_thread t k) }"

definition M16_test :: "('nv, 'x) others \<Rightarrow> boot_code \<Rightarrow> ('nv, 'x) kmain_scheme \<Rightarrow> ('nv, 'x) kmain_scheme option" where
  "M16_test others c k = do {
     (t, k) \<leftarrow> boot_program ''hello9.exe'' ''hello9.exe!main'' (with_ntdll c) (\<lambda>_. bc_hello9 c) 0x10000100000 (clear_flags {8, 16} k);
     wait_flag others 16 (add_thread t k) }"

definition M17_test :: "('nv, 'x) others \<Rightarrow> boot_code \<Rightarrow> ('nv, 'x) kmain_scheme \<Rightarrow> ('nv, 'x) kmain_scheme option" where
  "M17_test others c k = do {
     (t, k) \<leftarrow> boot_program ''hello10.exe'' ''hello10.exe!main'' (with_ntdll c) (\<lambda>_. bc_hello10 c) 0x12000100000 (clear_flags {8, 17} k);
     wait_flag others 17 (add_thread t k) }"

section \<open>The shells, M18 to M21\<close>

definition M18_test :: "('nv, 'x) others \<Rightarrow> boot_code \<Rightarrow> ('nv, 'x) kmain_scheme \<Rightarrow> ('nv, 'x) kmain_scheme option" where
  "M18_test others c k = do {
     (t, k) \<leftarrow> boot_program ''shell2.exe'' ''shell2.exe!main'' (with_ntdll c) (\<lambda>_. bc_shell c) 0x9000100000
       (set_commands [''dir'', ''exec m17child.exe'', ''exit''] (clear_flags {8, 18} k));
     wait_flag others 18 (add_thread t k) }"

definition M19_test :: "('nv, 'x) others \<Rightarrow> boot_code \<Rightarrow> ('nv, 'x) kmain_scheme \<Rightarrow> ('nv, 'x) kmain_scheme option" where
  "M19_test others c k = do {
     (t, k) \<leftarrow> boot_program ''shell3.exe'' ''shell3.exe!main'' (with_ntdll c) (\<lambda>_. bc_shell c) 0x9000100000
       (set_commands [''ps'', ''exec m17child.exe'', ''exit''] (clear_flags {8, 19} k));
     wait_flag others 19 (add_thread t k) }"

definition M20_test :: "('nv, 'x) others \<Rightarrow> boot_code \<Rightarrow> ('nv, 'x) kmain_scheme \<Rightarrow> ('nv, 'x) kmain_scheme option" where
  "M20_test others c k = do {
     (t, k) \<leftarrow> boot_program ''shell4.exe'' ''shell4.exe!main'' (with_ntdll c) (\<lambda>_. bc_shell c) 0x9000200000
       (set_commands [''echo M20 PASS'', ''cat m17child.exe'', ''clear'', ''exit''] (clear_flags {8, 20} k));
     wait_flag others 20 (add_thread t k) }"

definition M21_test :: "('nv, 'x) others \<Rightarrow> boot_code \<Rightarrow> ('nv, 'x) kmain_scheme \<Rightarrow> ('nv, 'x) kmain_scheme option" where
  "M21_test others c k = do {
     (t, k) \<leftarrow> boot_program ''shell5.exe'' ''shell5.exe!main'' (with_ntdll c) (\<lambda>_. bc_shell c) 0x9000300000
       (set_commands [''write test.txt M21 OK'', ''cat test.txt'', ''dir'', ''exit''] (clear_flags {8, 21} k));
     wait_flag others 21 (add_thread t k) }"

section \<open>M22\<close>

definition M22_DATA :: "u8 list" where "M22_DATA = [0x4D, 0x32, 0x32, 0x20, 0x4F, 0x4B, 0x0A]"

text \<open>The preferred base of an image on disk.\<close>
definition disk_base :: "blob \<Rightarrow> u64" where "disk_base img = ld64 img (ucast (ld32 img 0x3C) + 4 + 20 + 24)"

text \<open>The shared page, with the message in it, read-only for the user.\<close>
definition shared_page :: "u64 \<Rightarrow> u64 \<Rightarrow> ('nv, 'x) kmain_scheme \<Rightarrow> ('nv, 'x) kmain_scheme option" where
  "shared_page cr3 va k =
    (let (shared_phys, v) = alloc_page (kn_vmm k) in
     if shared_phys = 0 then None else
     let v = wr_bytes shared_phys 7 (\<lambda>i. M22_DATA ! i) (zero_page shared_phys v);
         (mapped, v) = MapPageInto cr3 va shared_phys (PTE_PRESENT OR PTE_USER) v
     in if mapped then Some (set_kn_vmm v k) else None)"

definition M22_test :: "('nv, 'x) others \<Rightarrow> ('nv, 'x) kmain_scheme \<Rightarrow> ('nv, 'x) kmain_scheme option" where
  "M22_test others k =
    (let k = clear_flags {8, 22} k;
         k = k\<lparr>kn_ks := snd (on_io (\<lambda>x. ((), SetupTestPipe ''ipc'' M22_DATA 7 x)) (kn_ks k))\<rparr>;
         (bin, sz) = VFS_FindFile (Some ''consumer.exe'') (cs_vfs (kn_cmd k)) in
     if bin = 0 then None else
     let base = disk_base (disk_image bin k) in do {
       (cr3, p, k) \<leftarrow> boot_process ''consumer.exe'' k;
       (entry, k) \<leftarrow> boot_exe (Some (disk_image bin k), sz, base) cr3 k;
       k \<leftarrow> shared_page cr3 0x11000002000 k;
       k \<leftarrow> boot_stack cr3 0x11000100000 k;
       (t, k) \<leftarrow> boot_thread p ''consumer.exe!main'' entry (0x11000100000 + of_nat PAGE_SIZE) k;
       wait_flag others 22 (add_thread t k) })"

section \<open>Exceptions and Windows programs\<close>

definition SEH_CODE_VA :: u64 where "SEH_CODE_VA = 0x300001000"
definition SEH_STK_VA :: u64 where "SEH_STK_VA = 0x300002000"

text \<open>The program that emit writes: the call that sets the handler, UD2 and the handler itself; the address of the handler, which is known
  only at the end, is patched in at imm\_off.\<close>
definition seh_head :: "u8 list" where "seh_head = [0xB8, 23, 0, 0, 0] @ [0x48, 0xBF]"
definition seh_middle :: "u8 list" where "seh_middle = [0x0F, 0x05] @ [0x0F, 0x0B] @ [0xEB, 0xFE]"
definition seh_tail :: "u8 list" where "seh_tail = [0xB8, 1, 0, 0, 0] @ [0x31, 0xFF] @ [0x0F, 0x05] @ [0xEB, 0xFE]"

definition seh_handler_off :: nat where "seh_handler_off = length (seh_head @ replicate 8 0 @ seh_middle)"

definition seh_prog :: "u8 list" where
  "seh_prog =
    (let prog = seh_head @ replicate 8 0 @ seh_middle @ seh_tail; imm_off = length seh_head;
         handler_va = SEH_CODE_VA + of_nat seh_handler_off
     in fold (\<lambda>i p. p[imm_off + i := ucast (drop_bit (i * 8) handler_va)]) [0..<8] prog)"

definition SEH_test :: "('nv, 'x) others \<Rightarrow> ('nv, 'x) kmain_scheme \<Rightarrow> ('nv, 'x) kmain_scheme option" where
  "SEH_test others k = do {
     (code_phys, stack_phys, k) \<leftarrow> code_pages seh_prog (k\<lparr>bt_seh := False\<rparr>);
     (cr3, p, k) \<leftarrow> boot_process ''sehtest.exe'' k;
     k \<leftarrow> map_code cr3 SEH_CODE_VA code_phys SEH_STK_VA stack_phys k;
     (t, k) \<leftarrow> boot_thread p ''sehtest'' SEH_CODE_VA (SEH_STK_VA + of_nat PAGE_SIZE) k;
     wait_for others bt_seh (add_thread t k) }"

definition WINPE_test :: "('nv, 'x) others \<Rightarrow> boot_code \<Rightarrow> ('nv, 'x) kmain_scheme \<Rightarrow> ('nv, 'x) kmain_scheme option" where
  "WINPE_test others c k = do {
     (t, k) \<leftarrow> boot_program ''wintest.exe'' ''wintest.exe!Entry'' None (\<lambda>_. bc_wintest c) 0x141000000 (clear_flags {8} k);
     wait_flag others 8 (add_thread t k) }"

definition add_catalog :: "cstr \<Rightarrow> kernel_dll \<Rightarrow> ('nv, 'x) kmain_scheme \<Rightarrow> ('nv, 'x) kmain_scheme" where
  "add_catalog nm d k =
    (case fst d of None \<Rightarrow> k
     | Some img \<Rightarrow> set_kn_cmd ((kn_cmd k)\<lparr>cs_ldr := AddCatalog nm img (fst (snd d)) (snd (snd d)) (cs_ldr (kn_cmd k))\<rparr>) k)"

definition WIN32_test :: "('nv, 'x) others \<Rightarrow> boot_code \<Rightarrow> ('nv, 'x) kmain_scheme \<Rightarrow> ('nv, 'x) kmain_scheme option" where
  "WIN32_test others c k = do {
     (cr3, p, k) \<leftarrow> boot_process ''win32test.exe'' (clear_flags {8} k);
     let k = add_catalog ''extra.dll'' (bc_extra c) (add_catalog ''kernel32.dll'' (bc_kernel32 c) k);
     k \<leftarrow> boot_dll ''kernel32.dll'' (bc_kernel32 c) cr3 k;
     (entry, k) \<leftarrow> boot_exe (bc_win32test c) cr3 k;
     k \<leftarrow> boot_stack cr3 0x142000000 k;
     (t, k) \<leftarrow> boot_thread p ''win32test.exe!Entry'' entry (0x142000000 + of_nat PAGE_SIZE) k;
     wait_flag others 8 (add_thread t k) }"

definition DISKEXE_test :: "('nv, 'x) others \<Rightarrow> boot_code \<Rightarrow> ('nv, 'x) kmain_scheme \<Rightarrow> ('nv, 'x) kmain_scheme option" where
  "DISKEXE_test others c k =
    (let k = clear_flags {8} k; (wbin, wsz) = VFS_FindFile (Some ''winapp.exe'') (cs_vfs (kn_cmd k)) in
     if wbin = 0 \<or> wsz \<le> 64 then Some k else
     let base = disk_base (disk_image wbin k) in do {
       (t, k) \<leftarrow> boot_program ''winapp.exe'' ''winapp.exe!Entry'' (Some (''kernel32.dll'', bc_kernel32 c))
         (\<lambda>k. (Some (disk_image wbin k), wsz, base)) 0x141000000 k;
       wait_flag others 8 (add_thread t k) })"

section \<open>The whole sequence\<close>

definition DRAIN :: nat where "DRAIN = 2000"

definition boot_tests :: "('nv, 'x) others \<Rightarrow> boot_code \<Rightarrow> ('nv, 'x) kmain_scheme \<Rightarrow> ('nv, 'x) kmain_scheme option" where
  "boot_tests others c k = do {
     k \<leftarrow> M5_test others c k; k \<leftarrow> M6_test others k; k \<leftarrow> M7_test others c k; k \<leftarrow> M8_test others c k; k \<leftarrow> M9_test others c k;
     k \<leftarrow> M10_test others c k; k \<leftarrow> M11_test others c k; k \<leftarrow> M12_test others c k; k \<leftarrow> M13_test others c k; k \<leftarrow> M14_test others c k;
     k \<leftarrow> M15_test others c k; k \<leftarrow> M16_test others c k; k \<leftarrow> M17_test others c k; k \<leftarrow> M18_test others c k; k \<leftarrow> M19_test others c k;
     k \<leftarrow> M20_test others c k; k \<leftarrow> M21_test others c k; k \<leftarrow> M22_test others k; k \<leftarrow> SEH_test others k; k \<leftarrow> WINPE_test others c k;
     k \<leftarrow> WIN32_test others c k; k \<leftarrow> DISKEXE_test others c k;
     Some ((yield_main others ^^ DRAIN) k) }"

section \<open>The loop of the desktop\<close>

text \<open>One turn: input, a flush of the screen when something changed or the last one is 15 ticks old, and the other threads.  The flush
  changes nothing of the kernel's own state: a turn says whether there was one.  The state is the session manager's.\<close>
definition idle_turn :: "(smgr \<Rightarrow> smgr) \<Rightarrow> u64 \<times> smgr \<Rightarrow> (bool \<times> u64 \<times> smgr) option" where
  "idle_turn others s = do {
     (changed, d) \<leftarrow> PumpInteractiveInput (snd s);
     let now = pit_ticks (g_sched d);
     let present = (changed \<or> now - fst s \<ge> 15);
     Some (present, if present then now else fst s, others (d\<lparr>g_sched := Schedule (g_sched d)\<rparr>)) }"

text \<open>The first n turns, and how many of them flushed the screen.\<close>
fun idle_run :: "(smgr \<Rightarrow> smgr) \<Rightarrow> nat \<Rightarrow> u64 \<times> smgr \<Rightarrow> (nat \<times> u64 \<times> smgr) option" where
  "idle_run others 0 s = Some (0, s)"
| "idle_run others (Suc n) s = do {
     (present, s) \<leftarrow> idle_turn others s;
     (frames, s) \<leftarrow> idle_run others n s;
     Some (if present then frames + 1 else frames, s) }"

definition interactive :: "launcher \<Rightarrow> (smgr \<Rightarrow> smgr) \<Rightarrow> nat \<Rightarrow> smgr \<Rightarrow> (nat \<times> u64 \<times> smgr) option" where
  "interactive launch others n s = do { s \<leftarrow> StartInteractiveSession launch s; (frames, r) \<leftarrow> idle_run others n (0, s); Some (frames + 1, r) }"

section \<open>Properties\<close>

lemma wait_for_at:
  assumes "P ((yield_main others ^^ n) k)" "\<And>m. m < n \<Longrightarrow> \<not> P ((yield_main others ^^ m) k)"
  shows "wait_for others P k = Some ((yield_main others ^^ n) k)"
  using assms
proof (induction n arbitrary: k)
  case 0
  then show ?case by (subst wait_for.simps) simp
next
  case (Suc n)
  have "wait_for others P (yield_main others k) = Some ((yield_main others ^^ n) (yield_main others k))"
  proof (rule Suc.IH)
    show "P ((yield_main others ^^ n) (yield_main others k))" using Suc.prems(1) by (simp add: funpow_swap1)
    show "\<not> P ((yield_main others ^^ m) (yield_main others k))" if "m < n" for m
      using Suc.prems(2) [of "Suc m"] that by (simp add: funpow_swap1)
  qed
  moreover have "\<not> P k" using Suc.prems(2) [of 0] by simp
  ultimately show ?case by (subst wait_for.simps) (simp add: funpow_swap1)
qed

lemma wait_for_Some:
  assumes "wait_for others P k = Some k'" shows "\<exists>n. P ((yield_main others ^^ n) k)"
proof (rule wait_for.raw_induct [where P = "\<lambda>others P k r. \<exists>n. P ((yield_main others ^^ n) k)", OF _ assms], goal_cases)
  case (1 w others P k r)
  show ?case
  proof (cases "P k")
    case True
    then show ?thesis by (intro exI [of _ 0]) simp
  next
    case False
    then have "w others P (yield_main others k) = Some r" using 1(2) by simp
    from 1(1) [OF this] obtain n where "P ((yield_main others ^^ n) (yield_main others k))" by blast
    then show ?thesis by (intro exI [of _ "Suc n"]) (simp add: funpow_swap1)
  qed
qed

text \<open>Waiting for a flag.  A wait of kernel\_main ends exactly when some number of calls of Schedule brings the flag, and then
  in the state after the least such number: it asks before the first call, and calls Schedule no more often than it must.\<close>
theorem wait_for_least:
  "wait_for others P k =
    (if \<exists>n. P ((yield_main others ^^ n) k) then Some ((yield_main others ^^ (LEAST n. P ((yield_main others ^^ n) k))) k) else None)"
proof (cases "\<exists>n. P ((yield_main others ^^ n) k)")
  case True
  then show ?thesis using wait_for_at [where P = P, OF LeastI_ex [OF True]] not_less_Least by (smt (verit))
next
  case False
  then show ?thesis using wait_for_Some [of others P k] by (cases "wait_for others P k") auto
qed

lemma quiet_turn:
  assumes "Mouse_TryRead (g_mouse d) = None"
  shows "idle_turn others (lp, d) =
    (let now = pit_ticks (g_sched d); present = (now - lp \<ge> 15)
     in Some (present, if present then now else lp, others (d\<lparr>g_sched := Schedule (g_sched d)\<rparr>)))"
proof -
  have "PumpInteractiveInput d = Some (False, d)"
    using assms by (simp add: PumpInteractiveInput_def pump_loop.simps)
  then show ?thesis by (simp add: idle_turn_def Let_def)
qed

lemma QueuePop_ticks: "pit_ticks (snd (QueuePop_from n s)) = pit_ticks s"
  by (induction n) (auto split: option.split)

lemma Schedule_ticks: "pit_ticks (Schedule s) = pit_ticks s"
proof -
  obtain t s' where q: "QueuePop s = (t, s')" by fastforce
  have "pit_ticks s' = pit_ticks s" using QueuePop_ticks [of "unat THREAD_PRIORITY_COUNT" s] q by (simp add: QueuePop_def)
  then show ?thesis using q by (simp add: Schedule_def ScheduleInternal_def Let_def upd_def split: option.split)
qed

text \<open>C33 (bounds): the cost of an idle desktop.  While no mouse packet arrives, the screen is flushed at most once in 15 ticks of the timer:
  frames times 15 is at most the time from the last flush before the turns to the last one of them.\<close>
theorem idle_frames:
  assumes "Mouse_TryRead (g_mouse d) = None" "lp \<le> pit_ticks (g_sched d)"
    "\<And>d. Mouse_TryRead (g_mouse d) = None \<Longrightarrow>
      Mouse_TryRead (g_mouse (others d)) = None \<and> pit_ticks (g_sched d) \<le> pit_ticks (g_sched (others d))"
  shows "\<exists>frames lp' d'. idle_run others n (lp, d) = Some (frames, lp', d') \<and> unat lp + 15 * frames \<le> unat lp' \<and> lp' \<le> pit_ticks (g_sched d')"
  using assms(1,2)
proof (induction n arbitrary: lp d)
  case 0
  then show ?case by simp
next
  case (Suc n)
  define now where "now = pit_ticks (g_sched d)"
  define p where "p \<longleftrightarrow> now - lp \<ge> 15"
  define lq where "lq = (if p then now else lp)"
  define e where "e = others (d\<lparr>g_sched := Schedule (g_sched d)\<rparr>)"
  have t: "idle_turn others (lp, d) = Some (p, lq, e)"
    using Suc.prems(1) by (simp add: quiet_turn Let_def now_def p_def lq_def e_def)
  have "Mouse_TryRead (g_mouse (d\<lparr>g_sched := Schedule (g_sched d)\<rparr>)) = None" using Suc.prems(1) by simp
  from assms(3) [OF this] have e: "Mouse_TryRead (g_mouse e) = None" "now \<le> pit_ticks (g_sched e)"
    by (simp_all add: e_def now_def Schedule_ticks)
  have le: "lp \<le> now" using Suc.prems(2) by (simp add: now_def)
  then have "lq \<le> pit_ticks (g_sched e)" using e(2) by (auto simp: lq_def)
  from Suc.IH [OF e(1) this] obtain f lr d' where r: "idle_run others n (lq, e) = Some (f, lr, d')"
    "unat lq + 15 * f \<le> unat lr" "lr \<le> pit_ticks (g_sched d')" by blast
  have "unat lp + (if p then 15 else 0) \<le> unat lq"
    using le by (auto simp: lq_def p_def word_le_nat_alt unat_sub)
  then show ?case using r by (auto simp: t)
qed

lemma idle_frames_witness:
  "\<exists>frames lp' d'. idle_run id 5 (0, smgr_demo) = Some (frames, lp', d') \<and> unat (0 :: u64) + 15 * frames \<le> unat lp' \<and> lp' \<le> pit_ticks (g_sched d')"
proof (rule idle_frames)
  show "Mouse_TryRead (g_mouse smgr_demo) = None" by (simp add: smgr_demo_def mouse_demo_def Mouse_TryRead_def ring_try_read_def)
qed simp_all

lemma seh_prog_bytes:
  "seh_prog = [0xB8, 23, 0, 0, 0, 0x48, 0xBF, 0x15, 0x10, 0, 0, 3, 0, 0, 0, 0x0F, 0x05, 0x0F, 0x0B, 0xEB, 0xFE,
     0xB8, 1, 0, 0, 0, 0x31, 0xFF, 0x0F, 0x05, 0xEB, 0xFE]"
proof -
  have u: "[0..<8] = [0, 1, 2, 3, 4, 5, 6, 7]" by (simp add: upt_rec)
  have r: "replicate 8 0 = [0, 0, 0, 0, 0, 0, 0, 0 :: u8]" by (simp add: numeral_eq_Suc)
  show ?thesis by (simp add: seh_prog_def seh_head_def seh_middle_def seh_tail_def seh_handler_off_def SEH_CODE_VA_def Let_def u r)
qed

text \<open>The program of the exception test.  It fills the array of 32 bytes that it is built in and no more, the operand of its MOV
  is the address of the handler, and the handler's instructions begin there.\<close>
theorem seh_program:
  "length seh_prog = 32 \<and> le_val 8 (\<lambda>i. seh_prog ! (length seh_head + i)) = unat (SEH_CODE_VA + of_nat seh_handler_off)
    \<and> take (length seh_head) seh_prog = seh_head \<and> drop seh_handler_off seh_prog = seh_tail"
proof -
  have "[0..<8] = [0, 1, 2, 3, 4, 5, 6, 7]" by (simp add: upt_rec)
  then show ?thesis by (simp add: seh_prog_bytes seh_head_def seh_middle_def seh_tail_def seh_handler_off_def SEH_CODE_VA_def le_val_def)
qed

end
