(* ===== verification/DebugLog.thy ===== *)
theory DebugLog
  imports Decimal Mouse "HOL-Library.Monad_Syntax"
begin

text \<open>The serial port kernel/hal/x64/serial.cpp, the formatter of the debug log kernel/core/debug.cpp, the serial console
  kernel/io/console.cpp, the panic screen kernel/core/panic.cpp and the CPUID strings of kernel/hal/x64/cpu.cpp.  The formatter is a
  function from the format and the arguments to the characters that it sends; None where the C++ code has undefined behaviour: an argument
  of another type than the format says, a number wider than its buffer, a format that ends in the middle of a directive.\<close>

section \<open>The serial port\<close>

definition COM1_PORT :: u16 where "COM1_PORT = 0x3F8"
definition DEFAULT_BAUD :: u32 where "DEFAULT_BAUD = 115200"

text \<open>None: the division by zero faults.\<close>
definition Serial_Init :: "'h outb \<Rightarrow> u16 \<Rightarrow> u32 \<Rightarrow> 'h \<Rightarrow> (bool \<times> 'h) option" where
  "Serial_Init outb port baud h =
    (if baud = 0 then None else
     let divisor = ucast (115200 div baud) :: u16;
         h = outb (port + 1) 0x00 h; h = outb (port + 3) 0x80 h;
         h = outb (port + 0) (ucast (divisor AND 0xFF)) h; h = outb (port + 1) (ucast (drop_bit 8 divisor)) h;
         h = outb (port + 3) 0x03 h; h = outb (port + 2) 0xC7 h; h = outb (port + 4) 0x0B h
     in Some (True, h))"

definition TxReady :: "'h inb \<Rightarrow> u16 \<Rightarrow> 'h \<Rightarrow> bool \<times> 'h" where
  "TxReady inb port h = (let (v, h) = inb (port + 5) h in (v AND 0x20 \<noteq> 0, h))"

primrec wait_tx :: "nat \<Rightarrow> 'h inb \<Rightarrow> u16 \<Rightarrow> 'h \<Rightarrow> 'h" where
  "wait_tx 0 inb port h = h"
| "wait_tx (Suc n) inb port h = (let (r, h) = TxReady inb port h in if r then h else wait_tx n inb port h)"

text \<open>At most a million reads of the status; the character is written in any case.\<close>
definition Serial_PutChar :: "'h inb \<Rightarrow> 'h outb \<Rightarrow> u16 \<Rightarrow> char \<Rightarrow> 'h \<Rightarrow> 'h" where
  "Serial_PutChar inb outb port c h = outb port (of_nat (of_char c)) (wait_tx 1000000 inb port h)"

partial_function (option) Serial_GetChar :: "'h inb \<Rightarrow> u16 \<Rightarrow> 'h \<Rightarrow> (char \<times> 'h) option" where
  "Serial_GetChar inb port h =
    (let (v, h) = inb (port + 5) h in
     if v AND 1 = 0 then Serial_GetChar inb port h else let (c, h) = inb port h in Some (char_of (unat c), h))"

definition send :: "'h inb \<Rightarrow> 'h outb \<Rightarrow> u16 \<Rightarrow> cstr \<Rightarrow> 'h \<Rightarrow> 'h" where
  "send inb outb port cs h = fold (Serial_PutChar inb outb port) cs h"

definition NL :: char where "NL = CHR 0x0A"
definition CR :: char where "CR = CHR 0x0D"

text \<open>What is sent for a character of a text: a line end is two characters.\<close>
definition with_cr :: "char \<Rightarrow> cstr" where "with_cr c = (if c = NL then [CR, NL] else [c])"

definition Serial_Print :: "'h inb \<Rightarrow> 'h outb \<Rightarrow> u16 \<Rightarrow> cstr \<Rightarrow> 'h \<Rightarrow> 'h" where
  "Serial_Print inb outb port s h = send inb outb port (concat (map with_cr s)) h"

section \<open>Numbers\<close>

definition digit_char :: "bool \<Rightarrow> nat \<Rightarrow> char" where
  "digit_char upper d = (if upper then ''0123456789ABCDEF'' ! d else ''0123456789abcdef'' ! d)"

text \<open>The digits of a number, the last one first; the callers' bases are 10 and 16.\<close>
fun base_digits :: "bool \<Rightarrow> nat \<Rightarrow> nat \<Rightarrow> cstr" where
  "base_digits upper base v = (if v = 0 \<or> base \<le> 1 then [] else digit_char upper (v mod base) # base_digits upper base (v div base))"

declare base_digits.simps [simp del]

text \<open>The characters of a number in a buffer of 64.\<close>
definition print_u64 :: "u64 \<Rightarrow> nat \<Rightarrow> bool \<Rightarrow> nat \<Rightarrow> char \<Rightarrow> cstr option" where
  "print_u64 v base upper width pad =
    (let buf = (if v = 0 then ''0'' else base_digits upper base (unat v)); buf = buf @ replicate (width - length buf) pad
     in if 64 < length buf then None else Some (rev buf))"

definition print_i64 :: "u64 \<Rightarrow> nat \<Rightarrow> char \<Rightarrow> cstr option" where
  "print_i64 v width pad =
    (if v <s 0 then map_option (\<lambda>s. CHR ''-'' # s) (print_u64 (- v) 10 False width pad) else print_u64 v 10 False width pad)"

section \<open>The formatter\<close>

text \<open>An argument as it is passed: an int, a 64-bit number or pointer, or a string, None for the null pointer.\<close>
datatype va_arg = VA32 u32 | VA64 u64 | VAStr "cstr option"

fun take_width :: "cstr \<Rightarrow> nat \<Rightarrow> nat \<times> cstr" where
  "take_width [] n = (n, [])"
| "take_width (c # cs) n =
    (if (48 :: nat) \<le> of_char c \<and> of_char c \<le> (57 :: nat) then take_width cs (n * 10 + (of_char c - 48)) else (n, c # cs))"

definition take_flag :: "cstr \<Rightarrow> char \<times> cstr" where
  "take_flag cs = (case cs of c # cs' \<Rightarrow> if c = CHR ''0'' then (CHR ''0'', cs') else (CHR '' '', cs) | [] \<Rightarrow> (CHR '' '', cs))"

definition take_ll :: "cstr \<Rightarrow> bool \<times> cstr" where
  "take_ll cs = (case cs of c # cs' \<Rightarrow> if c \<noteq> CHR ''l'' then (False, cs) else
     (case cs' of d # cs'' \<Rightarrow> if d = CHR ''l'' then (True, cs'') else (False, cs') | [] \<Rightarrow> (False, cs')) | [] \<Rightarrow> (False, cs))"

text \<open>An argument of the width that the directive asks for, extended to 64 bits with or without its sign.\<close>
fun va_num :: "bool \<Rightarrow> bool \<Rightarrow> va_arg list \<Rightarrow> (u64 \<times> va_arg list) option" where
  "va_num sg ll (VA64 v # as) = (if ll then Some (v, as) else None)"
| "va_num sg ll (VA32 v # as) = (if ll then None else Some (if sg then scast v else ucast v, as))"
| "va_num sg ll as = None"

text \<open>One conversion: the characters sent for it and the arguments left.\<close>
definition convert :: "char \<Rightarrow> bool \<Rightarrow> nat \<Rightarrow> char \<Rightarrow> va_arg list \<Rightarrow> (cstr \<times> va_arg list) option" where
  "convert c ll width pad as =
    (if c = CHR ''d'' then do { (v, as) \<leftarrow> va_num True ll as; s \<leftarrow> print_i64 v width pad; Some (s, as) }
     else if c = CHR ''u'' then do { (v, as) \<leftarrow> va_num False ll as; s \<leftarrow> print_u64 v 10 False width pad; Some (s, as) }
     else if c = CHR ''x'' then do { (v, as) \<leftarrow> va_num False ll as; s \<leftarrow> print_u64 v 16 False width pad; Some (s, as) }
     else if c = CHR ''X'' then do { (v, as) \<leftarrow> va_num False ll as; s \<leftarrow> print_u64 v 16 True width pad; Some (s, as) }
     else if c = CHR ''p'' then do { (v, as) \<leftarrow> va_num False True as; s \<leftarrow> print_u64 v 16 False 16 (CHR ''0''); Some (''0x'' @ s, as) }
     else if c = CHR ''s'' then
       (case as of VAStr s # as \<Rightarrow> Some (case s of None \<Rightarrow> ''(null)'' | Some s \<Rightarrow> s, as) | _ \<Rightarrow> None)
     else if c = CHR ''c'' then do { (v, as) \<leftarrow> va_num False False as; Some ([char_of (unat v mod 256)], as) }
     else if c = CHR ''%'' then Some (''%'', as)
     else Some ([CHR ''%'', c], as))"

text \<open>The parts of a directive after its percent sign: pad, width, long long and the rest.\<close>
definition directive :: "cstr \<Rightarrow> char \<times> nat \<times> bool \<times> cstr" where
  "directive cs = (let (pad, cs) = take_flag cs; (width, cs) = take_width cs 0; (ll, cs) = take_ll cs in (pad, width, ll, cs))"

lemma take_width_length: "length (snd (take_width cs n)) \<le> length cs"
  by (induction cs n rule: take_width.induct) auto

lemma directive_length: "directive cs = (pad, width, ll, cs') \<Longrightarrow> length cs' \<le> length cs"
proof -
  assume d: "directive cs = (pad, width, ll, cs')"
  obtain p as where f: "take_flag cs = (p, as)" by fastforce
  obtain w bs where w: "take_width as 0 = (w, bs)" by fastforce
  have "length as \<le> length cs" using f by (auto simp: take_flag_def split: list.splits if_splits)
  moreover have "length bs \<le> length as" using take_width_length [of as 0] w by simp
  moreover have "length (snd (take_ll bs)) \<le> length bs" by (auto simp: take_ll_def split: list.split)
  ultimately show ?thesis using d f w by (auto simp: directive_def Let_def split: prod.splits)
qed

text \<open>The whole format.\<close>
function printf :: "cstr \<Rightarrow> va_arg list \<Rightarrow> cstr option" where
  "printf [] as = Some []"
| "printf (c # cs) as =
    (if c \<noteq> CHR ''%'' then map_option ((@) (with_cr c)) (printf cs as)
     else case directive cs of (pad, width, ll, rest) \<Rightarrow>
       if rest = [] \<or> 2 ^ 31 \<le> width then None else do {
         (s, as) \<leftarrow> convert (hd rest) ll width pad as;
         t \<leftarrow> printf (tl rest) as;
         Some (s @ t) })"
  by pat_completeness auto
termination
  by (relation "measure (\<lambda>(f, as). length f)") (auto dest!: directive_length [OF sym])

definition Debug_PutChar :: "'h inb \<Rightarrow> 'h outb \<Rightarrow> u16 \<Rightarrow> char \<Rightarrow> 'h \<Rightarrow> 'h" where
  "Debug_PutChar inb outb s_port c h = send inb outb s_port (with_cr c) h"

definition Debug_Print :: "'h inb \<Rightarrow> 'h outb \<Rightarrow> u16 \<Rightarrow> cstr \<Rightarrow> 'h \<Rightarrow> 'h" where
  "Debug_Print inb outb s_port s h = fold (Debug_PutChar inb outb s_port) s h"

definition Printf :: "'h inb \<Rightarrow> 'h outb \<Rightarrow> u16 \<Rightarrow> cstr \<Rightarrow> va_arg list \<Rightarrow> 'h \<Rightarrow> 'h option" where
  "Printf inb outb s_port fmt as h = map_option (\<lambda>s. send inb outb s_port s h) (printf fmt as)"

section \<open>Panic\<close>

definition RULE :: cstr where "RULE = replicate 55 (CHR ''='') @ [NL]"

text \<open>What the panic screen sends before the machine is halted with interrupts off.\<close>
definition KernelPanic :: "cstr option \<Rightarrow> cstr option" where
  "KernelPanic msg = do {
     a \<leftarrow> printf [NL] []; b \<leftarrow> printf RULE []; c \<leftarrow> printf (''  MicroNT KERNEL PANIC'' @ [NL]) []; d \<leftarrow> printf RULE [];
     e \<leftarrow> printf (''  %s'' @ [NL]) [VAStr msg]; f \<leftarrow> printf RULE []; g \<leftarrow> printf (''System halted.'' @ [NL]) [];
     Some (a @ b @ c @ d @ e @ f @ g) }"

section \<open>The serial console\<close>

definition Console_WriteChar :: "'h inb \<Rightarrow> 'h outb \<Rightarrow> char \<Rightarrow> 'h \<Rightarrow> 'h" where
  "Console_WriteChar inb outb c h = send inb outb COM1_PORT (with_cr c) h"

definition Console_Write :: "'h inb \<Rightarrow> 'h outb \<Rightarrow> cstr \<Rightarrow> nat \<Rightarrow> 'h \<Rightarrow> 'h" where
  "Console_Write inb outb buf len h = fold (Console_WriteChar inb outb) (take len buf) h"

text \<open>The caller's buffer is a function of the index.\<close>
partial_function (option) read_loop :: "'h inb \<Rightarrow> u64 \<Rightarrow> (u64 \<Rightarrow> char) \<Rightarrow> u64 \<Rightarrow> 'h \<Rightarrow> ((u64 \<Rightarrow> char) \<times> u64 \<times> 'h) option" where
  "read_loop inb max_len buf n h =
    (if \<not> n < max_len - 1 then Some (buf, n, h) else do {
       (c, h) \<leftarrow> Serial_GetChar inb COM1_PORT h;
       if c = CR \<or> c = NL then Some (buf(n := NL), n + 1, h)
       else read_loop inb max_len (buf(n := c)) (n + 1) h })"

definition Console_Read :: "'h inb \<Rightarrow> u64 \<Rightarrow> (u64 \<Rightarrow> char) \<Rightarrow> 'h \<Rightarrow> (u64 \<times> (u64 \<Rightarrow> char) \<times> 'h) option" where
  "Console_Read inb max_len buf h = do { (buf, n, h) \<leftarrow> read_loop inb max_len buf 0 h; Some (n, buf(n := CHR 0x00), h) }"

section \<open>Processor strings\<close>

text \<open>The four result registers of CPUID, EAX to EDX, for a leaf.\<close>
type_synonym cpuid = "u32 \<Rightarrow> u32 \<times> u32 \<times> u32 \<times> u32"

definition reg_chars :: "u32 \<Rightarrow> cstr" where
  "reg_chars r = map (\<lambda>i. char_of (unat (drop_bit (8 * i) r) mod 256)) [0..<4]"

definition cpu_vendor :: "cpuid \<Rightarrow> cstr" where
  "cpu_vendor cpuid = (case cpuid 0 of (a, b, c, d) \<Rightarrow> reg_chars b @ reg_chars d @ reg_chars c)"

definition cpu_brand :: "cpuid \<Rightarrow> cstr" where
  "cpu_brand cpuid = concat (map (\<lambda>i. case cpuid (0x80000002 + of_nat i) of (a, b, c, d) \<Rightarrow>
     reg_chars a @ reg_chars b @ reg_chars c @ reg_chars d) [0..<3])"

section \<open>Numbers read back\<close>

definition digit_of :: "char \<Rightarrow> nat" where
  "digit_of c = (let n = of_char c in if n \<le> 57 then n - 48 else if n \<le> 70 then n - 55 else n - 87)"

definition log_value :: "nat \<Rightarrow> cstr \<Rightarrow> nat" where "log_value base s = foldl (\<lambda>n c. n * base + digit_of c) 0 s"

lemma digit_of_char: "d < 16 \<Longrightarrow> digit_of (digit_char up d) = d"
proof -
  assume "d < 16"
  then have "d \<in> {0, 1, 2, 3, 4, 5, 6, 7, 8, 9, 10, 11, 12, 13, 14, 15}" by (simp only: insert_iff empty_iff) presburger
  then show ?thesis by (auto simp: digit_of_def digit_char_def Let_def)
qed

lemma base_digits_value: "1 < base \<Longrightarrow> base \<le> 16 \<Longrightarrow> log_value base (rev (base_digits up base v)) = v"
proof (induction up base v rule: base_digits.induct)
  case (1 up base v)
  have "v mod base < 16" using 1(2,3) by (simp add: less_le_trans [OF mod_less_divisor])
  then show ?case using 1 by (subst base_digits.simps) (auto simp: log_value_def digit_of_char)
qed

lemma base_digits_length: "1 < base \<Longrightarrow> v < base ^ k \<Longrightarrow> length (base_digits up base v) \<le> k"
proof (induction k arbitrary: v)
  case 0
  then show ?case by (subst base_digits.simps) simp
next
  case (Suc k)
  then have "v div base < base ^ k" by (simp add: less_mult_imp_div_less mult.commute)
  then show ?case using Suc.IH [of "v div base"] Suc.prems by (subst base_digits.simps) simp
qed

text \<open>A number of the log, padded with zeros: it never overruns the buffer of 64 characters when the width does not, has at least the width
  asked for, and reads back as the number that was printed.\<close>
theorem log_number_roundtrip:
  assumes "base = 10 \<or> base = 16" "w \<le> 64"
  shows "\<exists>s. print_u64 v base up w (CHR ''0'') = Some s \<and> w \<le> length s \<and> log_value base s = unat v"
proof -
  define ds where "ds = (if v = 0 then ''0'' else base_digits up base (unat v))"
  have v: "unat v < 2 ^ 64" using unsigned_less [where 'a = nat, of v] by simp
  have "unat v < base ^ 64"
    using assms(1) v by (elim disjE) (simp_all add: order_less_le_trans)
  then have l: "length ds \<le> 64" using base_digits_length [of base "unat v" 64 up] assms(1) by (auto simp: ds_def)
  have val: "log_value base (rev ds) = unat v"
    using base_digits_value [of base up "unat v"] assms(1) by (auto simp: ds_def log_value_def digit_of_def)
  have z: "log_value base (replicate n (CHR ''0'') @ t) = log_value base t" for n t
    by (induction n) (simp_all add: log_value_def digit_of_def)
  define s where "s = rev (ds @ replicate (w - length ds) (CHR ''0''))"
  have "print_u64 v base up w (CHR ''0'') = Some s"
    using l assms(2) by (simp add: print_u64_def Let_def ds_def [symmetric] s_def)
  moreover have "w \<le> length s" by (simp add: s_def)
  moreover have "log_value base s = unat v" using val z by (simp add: s_def)
  ultimately show ?thesis by blast
qed

lemma log_number_roundtrip_witness:
  "\<exists>s. print_u64 0x1BADB002 16 False 16 (CHR ''0'') = Some s \<and> 16 \<le> length s \<and> log_value 16 s = unat (0x1BADB002 :: u64)"
  by (rule log_number_roundtrip) simp_all

text \<open>The sign stands before the padding, which does not count it.\<close>
lemma negative_padded: "printf ''%5d'' [VA32 (- 5)] = Some ''-    5''"
proof -
  have "base_digits False 10 5 = ''5''" by (simp add: base_digits.simps [of _ _ 5] base_digits.simps [of _ _ 0] digit_char_def)
  moreover have "directive ''5d'' = (CHR '' '', 5, False, ''d'')" by (simp add: directive_def take_flag_def take_ll_def)
  moreover have "replicate 4 c = [c, c, c, c]" for c :: char by (simp add: numeral_eq_Suc)
  ultimately show ?thesis by (simp add: convert_def print_i64_def print_u64_def word_sless_alt)
qed

section \<open>Reading a line\<close>

lemma read_loop_spec:
  assumes "\<And>h. \<exists>r. Serial_GetChar inb COM1_PORT h = Some r"
  shows "n \<le> max_len - 1 \<Longrightarrow> \<exists>buf' m h'. read_loop inb max_len buf n h = Some (buf', m, h') \<and> n \<le> m \<and> m \<le> max_len - 1 \<and>
    (\<forall>i. i < n \<or> m \<le> i \<longrightarrow> buf' i = buf i)"
proof (induction "unat (max_len - 1) - unat n" arbitrary: n buf h rule: less_induct)
  case less
  show ?case
  proof (cases "n < max_len - 1")
    case False
    then show ?thesis using less.prems by (subst read_loop.simps) auto
  next
    case True
    obtain c h1 where g: "Serial_GetChar inb COM1_PORT h = Some (c, h1)" using assms by fastforce
    have "unat n + 1 < 2 ^ 64" using True unsigned_less [where 'a = nat, of "max_len - 1"] by (simp add: word_less_nat_alt)
    then have u: "unat (n + 1) = unat n + 1" by (subst unat_add_lem [THEN iffD1]) simp_all
    have n1: "n + 1 \<le> max_len - 1" "n < n + 1" using True u by (simp_all add: word_le_nat_alt word_less_nat_alt)
    show ?thesis
    proof (cases "c = CR \<or> c = NL")
      case True
      then have "read_loop inb max_len buf n h = Some (buf(n := NL), n + 1, h1)"
        using \<open>n < max_len - 1\<close> g by (subst read_loop.simps) auto
      then show ?thesis using n1 by (auto simp: not_less)
    next
      case False
      then have e: "read_loop inb max_len buf n h = read_loop inb max_len (buf(n := c)) (n + 1) h1"
        using \<open>n < max_len - 1\<close> g by (subst read_loop.simps) auto
      have "unat (max_len - 1) - unat (n + 1) < unat (max_len - 1) - unat n" using True u by (simp add: word_less_nat_alt)
      from less.hyps [OF this n1(1), of "buf(n := c)" h1] obtain b m h2 where
        "read_loop inb max_len (buf(n := c)) (n + 1) h1 = Some (b, m, h2)" "n + 1 \<le> m" "m \<le> max_len - 1"
        "\<forall>i. i < n + 1 \<or> m \<le> i \<longrightarrow> b i = (buf(n := c)) i" by blast
      then show ?thesis using n1 e by (auto simp: fun_upd_def)
    qed
  qed
qed

text \<open>A line of the serial console: while the port delivers characters, Read returns, with fewer characters than the buffer has and a NUL after
  them, and it writes nowhere else.\<close>
theorem console_read_inside:
  assumes "\<And>h. \<exists>r. Serial_GetChar inb COM1_PORT h = Some r" "max_len \<noteq> 0"
  shows "\<exists>n buf' h'. Console_Read inb max_len buf h = Some (n, buf', h') \<and> n < max_len \<and> buf' n = CHR 0x00 \<and> (\<forall>i > n. buf' i = buf i)"
proof -
  obtain b m h' where r: "read_loop inb max_len buf 0 h = Some (b, m, h')" "m \<le> max_len - 1" "\<forall>i. i < 0 \<or> m \<le> i \<longrightarrow> b i = buf i"
    using read_loop_spec [OF assms(1), of 0 max_len buf h] by auto
  have "0 < unat max_len" using assms(2) by (simp add: unat_gt_0)
  then have "max_len - 1 < max_len" using assms(2) by (simp add: word_less_nat_alt unat_minus_one)
  then have "m < max_len" using r(2) by (rule le_less_trans [rotated])
  then show ?thesis using r(1,3) by (auto simp: Console_Read_def)
qed

text \<open>With a buffer of no characters the bound wraps, and the character is stored all the same.\<close>
lemma read_into_nothing:
  assumes "Serial_GetChar inb COM1_PORT h = Some (NL, h')"
  shows "Console_Read inb 0 buf h = Some (1, buf(0 := NL, 1 := CHR 0x00), h')"
  using assms by (simp add: Console_Read_def read_loop.simps word_gt_0)

end
