(* ===== verification/SvgaDisplay.thy ===== *)
theory SvgaDisplay
  imports TextConsole
begin

text \<open>The VMware SVGA II display driver, kernel/hal/x64/vmsvga.cpp: the search on the PCI bus, the index and value registers, the mode, and
  the command ring through which a flush of the screen is asked for.  The 32-bit ports are parameters over a device state; the ring in
  device memory is a function of the index of a 32-bit word, of which the device itself only moves the word STOP.  Log output is left
  out.\<close>

section \<open>Ports\<close>

type_synonym 'h ind = "u16 \<Rightarrow> 'h \<Rightarrow> u32 \<times> 'h"
type_synonym 'h outd = "u16 \<Rightarrow> u32 \<Rightarrow> 'h \<Rightarrow> 'h"

definition PCI_CONFIG_ADDR :: u16 where "PCI_CONFIG_ADDR = 0xCF8"
definition PCI_CONFIG_DATA :: u16 where "PCI_CONFIG_DATA = 0xCFC"

definition pci_addr :: "u8 \<Rightarrow> u8 \<Rightarrow> u8 \<Rightarrow> u8 \<Rightarrow> u32" where
  "pci_addr bus slot func off =
    0x80000000 OR push_bit 16 (ucast bus) OR push_bit 11 (ucast slot) OR push_bit 8 (ucast func) OR (ucast off AND 0xFC)"

definition PciRead32 :: "'h ind \<Rightarrow> 'h outd \<Rightarrow> u8 \<Rightarrow> u8 \<Rightarrow> u8 \<Rightarrow> u8 \<Rightarrow> 'h \<Rightarrow> u32 \<times> 'h" where
  "PciRead32 ind outd bus slot func off h = ind PCI_CONFIG_DATA (outd PCI_CONFIG_ADDR (pci_addr bus slot func off) h)"

definition PciWrite32 :: "'h outd \<Rightarrow> u8 \<Rightarrow> u8 \<Rightarrow> u8 \<Rightarrow> u8 \<Rightarrow> u32 \<Rightarrow> 'h \<Rightarrow> 'h" where
  "PciWrite32 outd bus slot func off v h = outd PCI_CONFIG_DATA v (outd PCI_CONFIG_ADDR (pci_addr bus slot func off) h)"

definition VMW_VENDOR :: u16 where "VMW_VENDOR = 0x15AD"
definition VMW_SVGA2 :: u16 where "VMW_SVGA2 = 0x0405"
definition SVGA_INDEX_PORT :: u16 where "SVGA_INDEX_PORT = 0"
definition SVGA_VALUE_PORT :: u16 where "SVGA_VALUE_PORT = 1"

definition SVGA_REG_ID :: u32 where "SVGA_REG_ID = 0"
definition SVGA_REG_ENABLE :: u32 where "SVGA_REG_ENABLE = 1"
definition SVGA_REG_WIDTH :: u32 where "SVGA_REG_WIDTH = 2"
definition SVGA_REG_HEIGHT :: u32 where "SVGA_REG_HEIGHT = 3"
definition SVGA_REG_MAX_WIDTH :: u32 where "SVGA_REG_MAX_WIDTH = 4"
definition SVGA_REG_MAX_HEIGHT :: u32 where "SVGA_REG_MAX_HEIGHT = 5"
definition SVGA_REG_BITS_PER_PIXEL :: u32 where "SVGA_REG_BITS_PER_PIXEL = 7"
definition SVGA_REG_BYTES_PER_LINE :: u32 where "SVGA_REG_BYTES_PER_LINE = 12"
definition SVGA_REG_FB_START :: u32 where "SVGA_REG_FB_START = 13"
definition SVGA_REG_FB_OFFSET :: u32 where "SVGA_REG_FB_OFFSET = 14"
definition SVGA_REG_VRAM_SIZE :: u32 where "SVGA_REG_VRAM_SIZE = 15"
definition SVGA_REG_FIFO_SIZE :: u32 where "SVGA_REG_FIFO_SIZE = 19"
definition SVGA_REG_CONFIG_DONE :: u32 where "SVGA_REG_CONFIG_DONE = 20"
definition SVGA_REG_SYNC :: u32 where "SVGA_REG_SYNC = 21"

definition SVGA_ID_2 :: u32 where "SVGA_ID_2 = 0x90000002"
definition SVGA_ID_1 :: u32 where "SVGA_ID_1 = 0x90000001"
definition SVGA_ID_0 :: u32 where "SVGA_ID_0 = 0x90000000"

definition SVGA_FIFO_MIN :: u32 where "SVGA_FIFO_MIN = 0"
definition SVGA_FIFO_MAX :: u32 where "SVGA_FIFO_MAX = 1"
definition SVGA_FIFO_NEXT_CMD :: u32 where "SVGA_FIFO_NEXT_CMD = 2"
definition SVGA_FIFO_STOP :: u32 where "SVGA_FIFO_STOP = 3"
definition SVGA_CMD_UPDATE :: u32 where "SVGA_CMD_UPDATE = 1"

section \<open>The driver\<close>

text \<open>sv\_fifo is the address of the ring, 0 for none, and sv\_ring its words.\<close>
record svga =
  sv_present :: bool
  sv_io_base :: u16
  sv_fifo :: u64
  sv_ring :: "u32 \<Rightarrow> u32"
  sv_fifo_size :: u32
  sv_width :: u32
  sv_height :: u32

definition RegRead :: "'h ind \<Rightarrow> 'h outd \<Rightarrow> u32 \<Rightarrow> svga \<Rightarrow> 'h \<Rightarrow> u32 \<times> 'h" where
  "RegRead ind outd i s h = ind (sv_io_base s + SVGA_VALUE_PORT) (outd (sv_io_base s + SVGA_INDEX_PORT) i h)"

definition RegWrite :: "'h outd \<Rightarrow> u32 \<Rightarrow> u32 \<Rightarrow> svga \<Rightarrow> 'h \<Rightarrow> 'h" where
  "RegWrite outd i v s h = outd (sv_io_base s + SVGA_VALUE_PORT) v (outd (sv_io_base s + SVGA_INDEX_PORT) i h)"

text \<open>The functions of a slot from func on: a slot whose function 0 is missing is skipped, a missing function above it is not the end.\<close>
primrec find_func :: "'h ind \<Rightarrow> 'h outd \<Rightarrow> u8 \<Rightarrow> u8 \<Rightarrow> nat \<Rightarrow> 'h \<Rightarrow> u8 option \<times> 'h" where
  "find_func ind outd bus slot 0 h = (None, h)"
| "find_func ind outd bus slot (Suc n) h =
    (let func = 8 - of_nat (Suc n); (id, h) = PciRead32 ind outd bus slot func 0x00 h;
         vendor = ucast (id AND 0xFFFF); device = ucast (drop_bit 16 id) :: u16 in
     if vendor = 0xFFFF then (if func = 0 then (None, h) else find_func ind outd bus slot n h)
     else if vendor = VMW_VENDOR \<and> device = VMW_SVGA2 then (Some func, h)
     else find_func ind outd bus slot n h)"

fun find_slot :: "'h ind \<Rightarrow> 'h outd \<Rightarrow> (u8 \<times> u8) list \<Rightarrow> 'h \<Rightarrow> (u8 \<times> u8 \<times> u8) option \<times> 'h" where
  "find_slot ind outd [] h = (None, h)"
| "find_slot ind outd ((bus, slot) # bs) h =
    (let (f, h) = find_func ind outd bus slot 8 h
     in case f of None \<Rightarrow> find_slot ind outd bs h | Some func \<Rightarrow> (Some (bus, slot, func), h))"

definition FindDevice :: "'h ind \<Rightarrow> 'h outd \<Rightarrow> 'h \<Rightarrow> (u8 \<times> u8 \<times> u8) option \<times> 'h" where
  "FindDevice ind outd h = find_slot ind outd (concat (map (\<lambda>b. map (\<lambda>s. (of_nat b, of_nat s)) [0..<32]) [0..<256])) h"

text \<open>The highest version that the device keeps.\<close>
fun negotiate :: "'h ind \<Rightarrow> 'h outd \<Rightarrow> u32 list \<Rightarrow> svga \<Rightarrow> 'h \<Rightarrow> bool \<times> 'h" where
  "negotiate ind outd [] s h = (False, h)"
| "negotiate ind outd (v # vs) s h =
    (let (id, h) = RegRead ind outd SVGA_REG_ID s (RegWrite outd SVGA_REG_ID v s h)
     in if id = v then (True, h) else negotiate ind outd vs s h)"

text \<open>ring is what the words of the device's ring hold at this time.\<close>
definition SVGA_Init :: "'h ind \<Rightarrow> 'h outd \<Rightarrow> (u32 \<Rightarrow> u32) \<Rightarrow> svga \<Rightarrow> 'h \<Rightarrow> bool \<times> svga \<times> 'h" where
  "SVGA_Init ind outd ring s h =
    (let s = s\<lparr>sv_present := False\<rparr>; (dev, h) = FindDevice ind outd h in
     case dev of None \<Rightarrow> (False, s, h) | Some (bus, slot, func) \<Rightarrow>
     let (bar0, h) = PciRead32 ind outd bus slot func 0x10 h; (bar2, h) = PciRead32 ind outd bus slot func 0x18 h in
     if bar0 AND 0x1 = 0 then (False, s, h) else
     let s = s\<lparr>sv_io_base := ucast (bar0 AND 0xFFFC)\<rparr>; fifo_phys = ucast (bar2 AND 0xFFFFFFF0);
         (cmd, h) = PciRead32 ind outd bus slot func 0x04 h; h = PciWrite32 outd bus slot func 0x04 (cmd OR 0x7) h;
         (ok, h) = negotiate ind outd [SVGA_ID_2, SVGA_ID_1, SVGA_ID_0] s h in
     if \<not> ok then (False, s, h) else
     let (max_w, h) = RegRead ind outd SVGA_REG_MAX_WIDTH s h; (max_h, h) = RegRead ind outd SVGA_REG_MAX_HEIGHT s h;
         (vram, h) = RegRead ind outd SVGA_REG_VRAM_SIZE s h; (sz, h) = RegRead ind outd SVGA_REG_FIFO_SIZE s h
     in (True, s\<lparr>sv_fifo_size := sz, sv_fifo := fifo_phys, sv_ring := ring, sv_present := True\<rparr>, h))"

definition IsPresent :: "svga \<Rightarrow> bool" where "IsPresent s = sv_present s"

definition FifoInit :: "'h outd \<Rightarrow> svga \<Rightarrow> 'h \<Rightarrow> svga \<times> 'h" where
  "FifoInit outd s h =
    (if sv_fifo s = 0 then (s, h) else
     (s\<lparr>sv_ring := (sv_ring s)(SVGA_FIFO_MIN := 16, SVGA_FIFO_MAX := sv_fifo_size s, SVGA_FIFO_NEXT_CMD := 16, SVGA_FIFO_STOP := 16)\<rparr>,
      RegWrite outd SVGA_REG_CONFIG_DONE 1 s h))"

definition FifoPush :: "u32 \<Rightarrow> svga \<Rightarrow> svga" where
  "FifoPush v s =
    (if sv_fifo s = 0 then s else
     let next = sv_ring s SVGA_FIFO_NEXT_CMD; r = (sv_ring s)(next div 4 := v); next = next + 4;
         next = (if next \<ge> r SVGA_FIFO_MAX then r SVGA_FIFO_MIN else next)
     in s\<lparr>sv_ring := r(SVGA_FIFO_NEXT_CMD := next)\<rparr>)"

text \<open>mem is what the new frame buffer holds.\<close>
definition SetMode :: "'h ind \<Rightarrow> 'h outd \<Rightarrow> (u64 \<Rightarrow> u32) \<Rightarrow> u32 \<Rightarrow> u32 \<Rightarrow> svga \<Rightarrow> vga \<Rightarrow> 'h \<Rightarrow> bool \<times> svga \<times> vga \<times> 'h" where
  "SetMode ind outd mem width height s g h =
    (if \<not> sv_present s then (False, s, g, h) else
     let h = RegWrite outd SVGA_REG_ENABLE 0 s h; h = RegWrite outd SVGA_REG_WIDTH width s h; h = RegWrite outd SVGA_REG_HEIGHT height s h;
         h = RegWrite outd SVGA_REG_BITS_PER_PIXEL 32 s h; h = RegWrite outd SVGA_REG_ENABLE 1 s h;
         (fb_phys, h) = RegRead ind outd SVGA_REG_FB_START s h; (fb_offset, h) = RegRead ind outd SVGA_REG_FB_OFFSET s h;
         (pitch, h) = RegRead ind outd SVGA_REG_BYTES_PER_LINE s h in
     if fb_phys = 0 \<or> pitch = 0 then (False, s, g, h) else
     let (s, h) = FifoInit outd s h
     in (True, s\<lparr>sv_width := width, sv_height := height\<rparr>,
         SetFramebuffer (ucast fb_phys + ucast fb_offset) mem width height (pitch div 4) 1 g, h))"

definition Present :: "'h outd \<Rightarrow> svga \<Rightarrow> 'h \<Rightarrow> svga \<times> 'h" where
  "Present outd s h =
    (if \<not> sv_present s \<or> sv_fifo s = 0 \<or> sv_width s = 0 then (s, h) else
     let s = fold FifoPush [SVGA_CMD_UPDATE, 0, 0, sv_width s, sv_height s] s
     in (s, RegWrite outd SVGA_REG_SYNC 1 s h))"

section \<open>The ring\<close>

text \<open>The data words of the ring: from word 4 to the end that the device has given.\<close>
definition ring_size :: "svga \<Rightarrow> nat" where "ring_size s = unat (sv_ring s SVGA_FIFO_MAX) div 4 - 4"
definition ring_pos :: "svga \<Rightarrow> nat" where "ring_pos s = unat (sv_ring s SVGA_FIFO_NEXT_CMD) div 4 - 4"
definition ring_word :: "svga \<Rightarrow> nat \<Rightarrow> u32" where "ring_word s i = sv_ring s (of_nat (4 + i))"

text \<open>The ring after FifoInit, when the device gives it at least one word of data and a size in whole words.\<close>
definition ring_ready :: "svga \<Rightarrow> bool" where
  "ring_ready s \<longleftrightarrow> sv_fifo s \<noteq> 0 \<and> sv_ring s SVGA_FIFO_MIN = 16 \<and> 4 dvd unat (sv_ring s SVGA_FIFO_MAX) \<and> 16 < unat (sv_ring s SVGA_FIFO_MAX)
    \<and> 4 dvd unat (sv_ring s SVGA_FIFO_NEXT_CMD) \<and> 16 \<le> unat (sv_ring s SVGA_FIFO_NEXT_CMD)
    \<and> unat (sv_ring s SVGA_FIFO_NEXT_CMD) < unat (sv_ring s SVGA_FIFO_MAX)"

lemmas svga_slots = SVGA_FIFO_MIN_def SVGA_FIFO_MAX_def SVGA_FIFO_NEXT_CMD_def SVGA_FIFO_STOP_def

lemma FifoInit_ready:
  assumes "sv_fifo s \<noteq> 0" "4 dvd unat (sv_fifo_size s)" "16 < unat (sv_fifo_size s)"
  shows "ring_ready (fst (FifoInit outd s h))"
  using assms by (simp add: ring_ready_def FifoInit_def svga_slots)

lemma FifoPush_ring:
  assumes "ring_ready s" "s' = FifoPush v s"
  shows "ring_ready s'" "ring_size s' = ring_size s" "ring_pos s' = (ring_pos s + 1) mod ring_size s"
    "i < ring_size s \<Longrightarrow> ring_word s' i = (if i = ring_pos s then v else ring_word s i)"
    "sv_ring s' SVGA_FIFO_STOP = sv_ring s SVGA_FIFO_STOP"
proof -
  define r where "r = sv_ring s"
  define m where "m = unat (r 1)"
  define n where "n = unat (r 2)"
  have f: "sv_fifo s \<noteq> 0" "r 0 = 16" using assms(1) by (simp_all add: ring_ready_def r_def svga_slots)
  obtain M N where M: "m = 4 * M" "n = 4 * N" "4 \<le> N" "N < M"
    using assms(1) by (auto simp: ring_ready_def m_def n_def r_def svga_slots elim!: dvdE)
  have ml: "m < 2 ^ 32" unfolding m_def using unsigned_less [of "r 1"] by simp
  have Nl: "N < 2 ^ 30" "M < 2 ^ 30 + 1" using M ml by simp_all
  have q: "r 2 div 4 = of_nat N"
  proof -
    have "unat (r 2 div 4) = unat (r 2) div 4" by (simp add: unat_div)
    also have "\<dots> = N" using M(2) by (simp add: n_def)
    also have "\<dots> = unat (of_nat N :: u32)" using Nl by (simp add: unat_of_nat take_bit_nat_eq_self)
    finally show ?thesis by (rule word_unat_eq_iff [THEN iffD2])
  qed
  have ne: "of_nat N \<noteq> (0 :: u32)" "of_nat N \<noteq> (1 :: u32)" "of_nat N \<noteq> (2 :: u32)" "of_nat N \<noteq> (3 :: u32)"
    using M(3) Nl by (auto simp: word_unat_eq_iff unat_of_nat take_bit_nat_eq_self)
  have plus: "unat (r 2 + 4) = 4 * N + 4"
    using M ml by (subst unat_add_lem [THEN iffD1]) (simp_all add: n_def m_def)
  define nx where "nx = (if r 2 + 4 \<ge> r 1 then r 0 else r 2 + 4)"
  have nx: "unat nx = (if N + 1 = M then 16 else 4 * (N + 1))"
    using M plus by (auto simp: nx_def word_le_nat_alt m_def n_def f)
  have s': "sv_ring s' = r(of_nat N := v, 2 := nx)" "sv_fifo s' = sv_fifo s"
    using f ne by (simp_all add: assms(2) FifoPush_def svga_slots Let_def r_def [symmetric] q nx_def)
  show "ring_ready s'" using assms(1) M nx f ne ml
    by (auto simp: ring_ready_def s' svga_slots r_def [symmetric] m_def [symmetric] n_def [symmetric])
  have sz: "ring_size s = M - 4" "ring_pos s = N - 4"
    using M by (simp_all add: ring_size_def ring_pos_def svga_slots r_def [symmetric] m_def [symmetric] n_def [symmetric])
  show sz': "ring_size s' = ring_size s" using ne by (simp add: ring_size_def s' svga_slots r_def)
  have "ring_pos s' = (if N + 1 = M then 0 else N + 1 - 4)" using nx by (simp add: ring_pos_def s' svga_slots)
  moreover have "M - 4 = Suc (N - 4)" if "N + 1 = M" using M that by simp
  ultimately show "ring_pos s' = (ring_pos s + 1) mod ring_size s" using M by (auto simp: sz)
  have w: "(of_nat (4 + i) :: u32) \<noteq> 2" "of_nat (4 + i) = (of_nat N :: u32) \<longleftrightarrow> i = N - 4" if "i < M - 4" for i
    using that M Nl by (auto simp: word_unat_eq_iff unat_of_nat take_bit_nat_eq_self simp del: of_nat_add)
  show "i < ring_size s \<Longrightarrow> ring_word s' i = (if i = ring_pos s then v else ring_word s i)"
    using w [of i] by (simp add: sz ring_word_def s' r_def del: of_nat_add)
  show "sv_ring s' SVGA_FIFO_STOP = sv_ring s SVGA_FIFO_STOP" using ne by (simp add: s' svga_slots r_def)
qed

lemma ring_pos_less: "ring_ready s \<Longrightarrow> ring_pos s < ring_size s"
  by (auto simp: ring_ready_def ring_pos_def ring_size_def elim!: dvdE)

lemma rot_inj: "\<lbrakk>(p + k) mod z = (p + l) mod z; k < l; l < z\<rbrakk> \<Longrightarrow> False" for z :: nat
  using mod_eq_dvd_iff_nat [of "p + k" "p + l" z] by (auto dest: dvd_imp_le)

text \<open>A command of at most the size of the ring stands at the next words of the ring, and nothing else has changed.\<close>
lemma fold_FifoPush:
  assumes "ring_ready s" "length vs \<le> ring_size s" "s' = fold FifoPush vs s"
  shows "ring_ready s' \<and> ring_size s' = ring_size s \<and> ring_pos s' = (ring_pos s + length vs) mod ring_size s \<and>
    (\<forall>k<length vs. ring_word s' ((ring_pos s + k) mod ring_size s) = vs ! k) \<and>
    (\<forall>i<ring_size s. (\<forall>k<length vs. i \<noteq> (ring_pos s + k) mod ring_size s) \<longrightarrow> ring_word s' i = ring_word s i)"
  using assms
proof (induction vs arbitrary: s' rule: rev_induct)
  case Nil
  then show ?case using ring_pos_less [of s] by simp
next
  case (snoc v vs)
  define z where "z = ring_size s"
  define p where "p = ring_pos s"
  define t where "t = fold FifoPush vs s"
  have IH: "ring_ready t" "ring_size t = z" "ring_pos t = (p + length vs) mod z" "\<forall>k<length vs. ring_word t ((p + k) mod z) = vs ! k"
    "\<forall>i<z. (\<forall>k<length vs. i \<noteq> (p + k) mod z) \<longrightarrow> ring_word t i = ring_word s i"
    using snoc.IH [OF snoc.prems(1) _ t_def] snoc.prems(2) by (auto simp: z_def p_def)
  have s': "s' = FifoPush v t" using snoc.prems(3) by (simp add: t_def)
  note P = FifoPush_ring [OF IH(1) s']
  have z: "0 < z" "length vs < z" using ring_pos_less [OF snoc.prems(1)] snoc.prems(2) by (simp_all add: z_def)
  have inj: "(p + k) mod z \<noteq> (p + length vs) mod z" if "k < length vs" for k using rot_inj [of p k z "length vs"] that z by blast
  have lt: "(p + k) mod z < z" for k using z by simp
  have w: "ring_word s' ((p + k) mod z) = (if k = length vs then v else vs ! k)" if "k < Suc (length vs)" for k
    using P(4) [of "(p + k) mod z"] IH inj lt that by (auto simp: less_Suc_eq)
  moreover have "ring_word s' i = ring_word s i" if "i < z" "\<forall>k<Suc (length vs). i \<noteq> (p + k) mod z" for i
    using P(4) [of i] IH(2,3,5) that by (auto simp: less_Suc_eq)
  moreover have "ring_pos s' = (p + Suc (length vs)) mod z" using P(3) IH(2,3) by (simp add: mod_Suc_eq)
  ultimately show ?case using P(1,2) IH(2) by (simp add: z_def p_def nth_append less_Suc_eq_le le_less)
qed

text \<open>C32 (bounds): a flush of the screen.  When the ring of the device has room for a command, Present puts UPDATE with the whole screen into
  the next five words of the ring, around its end if need be, keeps the position inside the ring and writes no other word of it - whether
  or not the device has read what stood there.\<close>
theorem present_command:
  assumes "ring_ready s" "sv_present s" "sv_width s \<noteq> 0" "5 \<le> ring_size s"
  shows "\<exists>s'. Present outd s h = (s', RegWrite outd SVGA_REG_SYNC 1 s h) \<and> ring_ready s' \<and>
    map (\<lambda>k. ring_word s' ((ring_pos s + k) mod ring_size s)) [0..<5] = [SVGA_CMD_UPDATE, 0, 0, sv_width s, sv_height s] \<and>
    ring_pos s' = (ring_pos s + 5) mod ring_size s \<and>
    (\<forall>i<ring_size s. (\<forall>k<5. i \<noteq> (ring_pos s + k) mod ring_size s) \<longrightarrow> ring_word s' i = ring_word s i)"
proof -
  define vs where "vs = [SVGA_CMD_UPDATE, 0, 0, sv_width s, sv_height s]"
  define s' where "s' = fold FifoPush vs s"
  have l: "length vs = 5" by (simp add: vs_def)
  note F = fold_FifoPush [OF assms(1) _ s'_def, unfolded l, OF assms(4)]
  have io: "sv_io_base (FifoPush v t) = sv_io_base t" for v t by (simp add: FifoPush_def Let_def)
  have "sv_io_base (fold FifoPush ws t) = sv_io_base t" for ws t by (induction ws arbitrary: t) (simp_all add: io)
  then have "RegWrite outd SVGA_REG_SYNC 1 s' h = RegWrite outd SVGA_REG_SYNC 1 s h" by (simp add: RegWrite_def s'_def)
  moreover have "Present outd s h = (s', RegWrite outd SVGA_REG_SYNC 1 s' h)"
    using assms by (simp add: Present_def ring_ready_def s'_def vs_def Let_def)
  moreover have "map (\<lambda>k. ring_word s' ((ring_pos s + k) mod ring_size s)) [0..<5] = [SVGA_CMD_UPDATE, 0, 0, sv_width s, sv_height s]"
  proof -
    have "map (\<lambda>k. ring_word s' ((ring_pos s + k) mod ring_size s)) [0..<5] = map ((!) vs) [0..<5]"
      using F by (intro map_cong refl) auto
    also have "\<dots> = vs" using map_nth [of vs] l by simp
    finally show ?thesis by (simp only: vs_def)
  qed
  ultimately show ?thesis using F by (intro exI [of _ s'] conjI) (simp only:, blast+)
qed

definition svga_demo :: svga where
  "svga_demo = \<lparr>sv_present = True, sv_io_base = 0xC010, sv_fifo = 0xF0800000, sv_ring = (\<lambda>_. 0)(0 := 16, 1 := 64, 2 := 56, 3 := 16),
     sv_fifo_size = 64, sv_width = 1024, sv_height = 768\<rparr>"

lemma present_command_witness:
  "\<exists>s'. Present (\<lambda>p v l. (p, v) # l) svga_demo [] = (s', [(0xC011, 1), (0xC010, 21)]) \<and>
    map (\<lambda>k. ring_word s' ((10 + k) mod 12)) [0..<5] = [1, 0, 0, 1024, 768]"
proof -
  have r: "ring_ready svga_demo" "ring_size svga_demo = 12" "ring_pos svga_demo = 10"
    by (simp_all add: ring_ready_def ring_size_def ring_pos_def svga_demo_def svga_slots)
  have d: "sv_present svga_demo" "sv_width svga_demo = 1024" "sv_height svga_demo = 768" "sv_io_base svga_demo = 0xC010"
    by (simp_all add: svga_demo_def)
  from present_command [OF r(1) d(1), of "\<lambda>p v l. (p, v) # l" "[]"] show ?thesis
    by (auto simp: r d RegWrite_def SVGA_REG_SYNC_def SVGA_VALUE_PORT_def SVGA_INDEX_PORT_def SVGA_CMD_UPDATE_def simp del: upt_Suc upt_rec_numeral)
qed

end
