(* ===== verification/Kernel32.thy ===== *)
theory Kernel32
  imports PeLoader
begin

text \<open>The DLL user/kernel32/kernel32.cpp: the Win32 functions that programs import, over the system calls of the kernel.  The SYSCALL
  instruction, the memory of the process and the address in GS are parameters: what the kernel does with a call is the subject of the
  theories of the system calls.  GetProcAddress looks a name up in the exports of a mapped DLL, where the kernel's loader looks it up in
  the file.\<close>

section \<open>The environment of a program\<close>

text \<open>A system call with its number and four arguments, a view of memory, a 32-bit store and the address of the TEB.\<close>
record 's user_env =
  ue_syscall :: "u64 \<Rightarrow> u64 \<Rightarrow> u64 \<Rightarrow> u64 \<Rightarrow> u64 \<Rightarrow> 's \<Rightarrow> u64 \<times> 's"
  ue_mem :: "'s \<Rightarrow> u64 \<Rightarrow> u8"
  ue_store32 :: "u64 \<Rightarrow> u32 \<Rightarrow> 's \<Rightarrow> 's"
  ue_gs :: u64

definition sc :: "'s user_env \<Rightarrow> u64 \<Rightarrow> u64 \<Rightarrow> u64 \<Rightarrow> u64 \<Rightarrow> 's \<Rightarrow> u64 \<times> 's" where
  "sc e n a1 a2 a3 s = ue_syscall e n a1 a2 a3 0 s"

definition sc4 :: "'s user_env \<Rightarrow> u64 \<Rightarrow> u64 \<Rightarrow> u64 \<Rightarrow> u64 \<Rightarrow> u64 \<Rightarrow> 's \<Rightarrow> u64 \<times> 's" where
  "sc4 e n a1 a2 a3 a4 s = ue_syscall e n a1 a2 a3 a4 s"

definition peb :: "'s user_env \<Rightarrow> 's \<Rightarrow> u64" where "peb e s = ld64 (ue_mem e s) (ue_gs e + 0x60)"

text \<open>An optional result through a pointer.\<close>
definition store_out :: "'s user_env \<Rightarrow> u64 \<Rightarrow> u64 \<Rightarrow> 's \<Rightarrow> 's" where
  "store_out e p v s = (if p \<noteq> 0 then ue_store32 e p (ucast v) s else s)"

section \<open>Files and the process\<close>

definition GetStdHandle :: "u32 \<Rightarrow> u64" where "GetStdHandle nStdHandle = 1"

definition WriteFile :: "'s user_env \<Rightarrow> u64 \<Rightarrow> u64 \<Rightarrow> u32 \<Rightarrow> u64 \<Rightarrow> 's \<Rightarrow> int \<times> 's" where
  "WriteFile e hFile buf len written s = (let (n, s) = sc e 4 hFile buf (ucast len) s in (1, store_out e written n s))"

text \<open>The call after which the program only loops.\<close>
definition ExitProcess :: "'s user_env \<Rightarrow> u32 \<Rightarrow> 's \<Rightarrow> 's" where "ExitProcess e code s = snd (sc e 1 (ucast code) 0 0 s)"

definition GetLastError :: "'s user_env \<Rightarrow> 's \<Rightarrow> u32" where "GetLastError e s = ld32 (ue_mem e s) (ue_gs e + 0x68)"
definition SetLastError :: "'s user_env \<Rightarrow> u32 \<Rightarrow> 's \<Rightarrow> 's" where "SetLastError e code s = ue_store32 e (ue_gs e + 0x68) code s"
definition GetCurrentProcessId :: "'s user_env \<Rightarrow> 's \<Rightarrow> u32" where
  "GetCurrentProcessId e s = ucast (ld64 (ue_mem e s) (ue_gs e + 0x40))"
definition GetCurrentThreadId :: "'s user_env \<Rightarrow> 's \<Rightarrow> u32" where
  "GetCurrentThreadId e s = ucast (ld64 (ue_mem e s) (ue_gs e + 0x48))"

definition GetTickCount :: "'s user_env \<Rightarrow> 's \<Rightarrow> u32" where
  "GetTickCount e s =
    (let k = 0x7FFE0000; lo = ucast (ld32 (ue_mem e s) (k + 0x320)) :: u64; mul = ucast (ld32 (ue_mem e s) (k + 0x004))
     in ucast (drop_bit 24 (lo * mul)))"

definition GetProcessHeap :: "'s user_env \<Rightarrow> 's \<Rightarrow> u64" where "GetProcessHeap e s = ld64 (ue_mem e s) (peb e s + 0x30)"

definition HeapAlloc :: "'s user_env \<Rightarrow> u64 \<Rightarrow> u32 \<Rightarrow> u64 \<Rightarrow> 's \<Rightarrow> u64 \<times> 's" where
  "HeapAlloc e hHeap flags bytes s = sc e 10 (if bytes = 0 then 1 else bytes) 0 0 s"

definition HeapFree :: "u64 \<Rightarrow> u32 \<Rightarrow> u64 \<Rightarrow> int" where "HeapFree hHeap flags m = 1"

definition GetModuleHandleW :: "'s user_env \<Rightarrow> u64 \<Rightarrow> 's \<Rightarrow> u64" where
  "GetModuleHandleW e name s = (if name \<noteq> 0 then 0 else ld64 (ue_mem e s) (peb e s + 0x10))"

definition GetCommandLineW :: "'s user_env \<Rightarrow> 's \<Rightarrow> u64" where
  "GetCommandLineW e s =
    (let params = ld64 (ue_mem e s) (peb e s + 0x20) in if params = 0 then 0 else ld64 (ue_mem e s) (params + 0x78))"

text \<open>The length of a string; the count wraps and the loop need not end.\<close>
partial_function (option) a_strlen_from :: "blob \<Rightarrow> u64 \<Rightarrow> u32 \<Rightarrow> u32 option" where
  "a_strlen_from m p n = (if m (p + ucast n) \<noteq> 0 then a_strlen_from m p (n + 1) else Some n)"

definition a_strlen :: "blob \<Rightarrow> u64 \<Rightarrow> u32 option" where "a_strlen m p = a_strlen_from m p 0"

definition CreateFileA :: "'s user_env \<Rightarrow> u64 \<Rightarrow> 's \<Rightarrow> (u64 \<times> 's) option" where
  "CreateFileA e name s = do {
     n \<leftarrow> a_strlen (ue_mem e s) name;
     let (h, s) = sc e 6 name (ucast n) 0 s;
     Some (if 0 <s h then h else - 1, s) }"

definition ReadFile :: "'s user_env \<Rightarrow> u64 \<Rightarrow> u64 \<Rightarrow> u32 \<Rightarrow> u64 \<Rightarrow> 's \<Rightarrow> int \<times> 's" where
  "ReadFile e hFile buf len read s = (let (n, s) = sc4 e 7 hFile buf 0 (ucast len) s in (1, store_out e read n s))"

definition K32_CloseHandle :: "'s user_env \<Rightarrow> u64 \<Rightarrow> 's \<Rightarrow> int \<times> 's" where
  "K32_CloseHandle e hObject s = (1, snd (sc e 8 hObject 0 0 s))"

section \<open>Dynamic linking\<close>

definition GetModuleHandleA :: "'s user_env \<Rightarrow> u64 \<Rightarrow> 's \<Rightarrow> (u64 \<times> 's) option" where
  "GetModuleHandleA e name s =
    (if name = 0 then Some (ld64 (ue_mem e s) (peb e s + 0x10), s)
     else do { n \<leftarrow> a_strlen (ue_mem e s) name; Some (sc e 41 name (ucast n) 0 s) })"

definition LoadLibraryA :: "'s user_env \<Rightarrow> u64 \<Rightarrow> 's \<Rightarrow> (u64 \<times> 's) option" where
  "LoadLibraryA e name s = do { n \<leftarrow> a_strlen (ue_mem e s) name; Some (sc e 42 name (ucast n) 0 s) }"

text \<open>The loop over the names from index i on, n of them left.\<close>
fun proc_loop :: "blob \<Rightarrow> u64 \<Rightarrow> u64 \<Rightarrow> u64 \<Rightarrow> u64 \<Rightarrow> u64 \<Rightarrow> u64 \<Rightarrow> nat \<Rightarrow> u64 option" where
  "proc_loop m base proc names ords funcs i 0 = Some 0"
| "proc_loop m base proc names ords funcs i (Suc n) = do {
     eq \<leftarrow> streq (str_at m (base + ucast (ld32 m (names + 4 * i)))) (str_at m proc);
     if eq then Some (base + ucast (ld32 m (funcs + 4 * ucast (ld16 m (ords + 2 * i)))))
     else proc_loop m base proc names ords funcs (i + 1) n }"

text \<open>None only when a name or proc does not end.\<close>
definition GetProcAddress :: "blob \<Rightarrow> u64 \<Rightarrow> u64 \<Rightarrow> u64 option" where
  "GetProcAddress m base proc =
    (if base = 0 \<or> proc = 0 then Some 0 else
     let e_lf = ld32 m (base + 0x3C); opt = base + ucast e_lf + 24; exp_rva = ld32 m (opt + 112) in
     if exp_rva = 0 then Some 0 else
     let ed = base + ucast exp_rva; num_names = ld32 m (ed + 24); funcs = base + ucast (ld32 m (ed + 28));
         names = base + ucast (ld32 m (ed + 32)); ords = base + ucast (ld32 m (ed + 36))
     in proc_loop m base proc names ords funcs 0 (unat num_names))"

section \<open>Names looked up in the file and in memory\<close>

text \<open>The relative addresses lo to hi - 1 of the image are its bytes from raw on in the file, and memory holds them at base.\<close>
definition mapped_range :: "blob \<Rightarrow> u64 \<Rightarrow> blob \<Rightarrow> nat \<Rightarrow> nat \<Rightarrow> nat \<Rightarrow> bool" where
  "mapped_range m base img lo hi raw \<longleftrightarrow> 0 < raw \<and> hi < 2 ^ 32 \<and> raw + (hi - lo) < 2 ^ 32 \<and>
    (\<forall>r. lo \<le> r \<and> r < hi \<longrightarrow> rva_to_off img (of_nat r) = of_nat (raw + (r - lo)) \<and> m (base + of_nat r) = img (of_nat (raw + (r - lo))))"

text \<open>The headers up to the first data directory are in memory, too.\<close>
definition mapped_header :: "blob \<Rightarrow> u64 \<Rightarrow> blob \<Rightarrow> bool" where
  "mapped_header m base img \<longleftrightarrow> (\<forall>a. a < unat (e_lfanew img) + 140 \<or> a < 64 \<longrightarrow> m (base + of_nat a) = img (of_nat a))"

text \<open>The export directory, its three tables and its names, each name to its end, lie in the range.\<close>
definition exports_inside :: "blob \<Rightarrow> nat \<Rightarrow> nat \<Rightarrow> nat \<Rightarrow> bool" where
  "exports_inside img lo hi raw \<longleftrightarrow>
    (let at = (\<lambda>r. of_nat (raw + (r - lo)) :: u64); exp = unat (ld32 img (opt_hdr img + 112)); n = unat (ld32 img (at exp + 24));
         fn = unat (ld32 img (at exp + 28)); nm = unat (ld32 img (at exp + 32)); od = unat (ld32 img (at exp + 36)) in
     exp \<noteq> 0 \<longrightarrow> lo \<le> exp \<and> exp + 40 \<le> hi \<and> lo \<le> fn \<and> fn < hi \<and> lo \<le> nm \<and> nm < hi \<and> nm + 4 * n \<le> hi \<and> lo \<le> od \<and> od < hi \<and> od + 2 * n \<le> hi \<and>
     (\<forall>i<n. fn + 4 * unat (ld16 img (at (od + 2 * i))) + 4 \<le> hi \<and> lo \<le> unat (ld32 img (at (nm + 4 * i))) \<and>
        (\<exists>z. unat (ld32 img (at (nm + 4 * i))) + z < hi \<and> img (at (unat (ld32 img (at (nm + 4 * i))) + z)) = 0)))"

lemma streq_from_agree:
  assumes "\<And>j. j \<le> z \<Longrightarrow> a (of_nat j) = b (of_nat j)" "a (of_nat z) = 0" "i \<le> z" "z < 2 ^ 64"
  shows "streq_from a f (of_nat i) = streq_from b f (of_nat i)"
  using assms(3)
proof (induction "z - i" arbitrary: i)
  case 0
  then have "a (of_nat i) = 0" "b (of_nat i) = 0" using assms(1) [of i] assms(2) by simp_all
  then show ?case by (simp add: streq_from.simps)
next
  case (Suc k)
  have "streq_from a f (of_nat (i + 1)) = streq_from b f (of_nat (i + 1))" using Suc by (intro Suc.hyps(1)) simp_all
  then show ?case using assms(1) [OF Suc.prems] by (subst (1 2) streq_from.simps) (simp add: add.commute)
qed

lemma mapped_at:
  assumes "mapped_range m base img lo hi raw" "lo \<le> r" "r < hi"
  shows "rva_to_off img (of_nat r) = of_nat (raw + (r - lo))" "m (base + of_nat r) = img (of_nat (raw + (r - lo)))"
  using assms unfolding mapped_range_def by blast+

lemma ld_mapped:
  assumes M: "mapped_range m base img lo hi raw" and r: "lo \<le> r"
  shows "r + 4 \<le> hi \<Longrightarrow> ld32 m (base + of_nat r) = ld32 img (of_nat (raw + (r - lo)))"
    "r + 2 \<le> hi \<Longrightarrow> ld16 m (base + of_nat r) = ld16 img (of_nat (raw + (r - lo)))"
proof -
  have b: "m (base + of_nat r + of_nat i) = img (of_nat (raw + (r - lo)) + of_nat i)" if "r + i < hi" for i
  proof -
    have "m (base + of_nat (r + i)) = img (of_nat (raw + (r + i - lo)))" by (rule mapped_at(2) [OF M]) (use r that in simp_all)
    then show ?thesis using r by (simp add: algebra_simps)
  qed
  show "r + 4 \<le> hi \<Longrightarrow> ld32 m (base + of_nat r) = ld32 img (of_nat (raw + (r - lo)))"
    unfolding ld32_def by (rule arg_cong [where f = of_nat], rule le_val_cong, rule b) simp
  show "r + 2 \<le> hi \<Longrightarrow> ld16 m (base + of_nat r) = ld16 img (of_nat (raw + (r - lo)))"
    unfolding ld16_def by (rule arg_cong [where f = of_nat], rule le_val_cong, rule b) simp
qed

lemma ucast_nat: "ucast (w :: u32) = (of_nat (unat w) :: u64)" "ucast (v :: u16) = (of_nat (unat v) :: u64)"
  by simp_all

lemma off_mapped:
  assumes "mapped_range m base img lo hi raw" "lo \<le> unat w" "unat w < hi"
  shows "rva_to_off img w \<noteq> 0" "ucast (rva_to_off img w) = (of_nat (raw + (unat w - lo)) :: u64)"
proof -
  have o: "rva_to_off img w = of_nat (raw + (unat w - lo))"
    using mapped_at(1) [OF assms] by simp
  have l: "raw + (unat w - lo) < 2 ^ 32" "0 < raw" using assms by (auto simp: mapped_range_def)
  then have u: "unat (rva_to_off img w) = raw + (unat w - lo)" unfolding o by (simp add: unat_of_nat take_bit_nat_eq_self del: of_nat_add)
  show "rva_to_off img w \<noteq> 0" using u l by auto
  show "ucast (rva_to_off img w) = (of_nat (raw + (unat w - lo)) :: u64)" by (simp only: ucast_nat u)
qed

lemma loops_agree:
  assumes M: "mapped_range m base img lo hi raw" and md: "md = \<lparr>m_name = nm0, m_image_base = base, m_pe_data = img, m_pe_size = sz\<rparr>"
    and b: "lo \<le> nm" "nm + 4 * n \<le> hi" "lo \<le> od" "od + 2 * n \<le> hi" "lo \<le> fn"
    and each: "\<And>i. i < n \<Longrightarrow> fn + 4 * unat (ld16 img (of_nat (raw + (od + 2 * i - lo)))) + 4 \<le> hi \<and> lo \<le> unat (ld32 img (of_nat (raw + (nm + 4 * i - lo)))) \<and>
        (\<exists>z. unat (ld32 img (of_nat (raw + (nm + 4 * i - lo)))) + z < hi \<and>
          img (of_nat (raw + (unat (ld32 img (of_nat (raw + (nm + 4 * i - lo)))) + z - lo))) = 0)"
  shows "i + k = n \<Longrightarrow> proc_loop m base proc (base + of_nat nm) (base + of_nat od) (base + of_nat fn) (of_nat i) k =
    find_name md (str_at m proc) (of_nat (raw + (nm - lo))) (of_nat (raw + (od - lo))) (of_nat (raw + (fn - lo))) (of_nat i) k"
proof (induction k arbitrary: i)
  case 0
  then show ?case by simp
next
  case (Suc k)
  have i: "i < n" using Suc.prems by simp
  define w where "w = ld32 img (of_nat (raw + (nm + 4 * i - lo)))"
  define o' where "o' = unat (ld16 img (of_nat (raw + (od + 2 * i - lo))))"
  have e: "fn + 4 * o' + 4 \<le> hi" "lo \<le> unat w" using each [OF i] by (simp_all add: w_def o'_def)
  obtain z where z: "unat w + z < hi" "img (of_nat (raw + (unat w + z - lo))) = 0" using each [OF i] by (auto simp: w_def)
  have A: "base + of_nat nm + 4 * of_nat i = base + of_nat (nm + 4 * i)" "base + of_nat od + 2 * of_nat i = base + of_nat (od + 2 * i)"
    "base + of_nat fn + 4 * of_nat o' = base + of_nat (fn + 4 * o')" by (simp_all add: algebra_simps)
  have B: "of_nat (raw + (nm - lo)) + 4 * of_nat i = (of_nat (raw + (nm + 4 * i - lo)) :: u64)"
    "of_nat (raw + (od - lo)) + 2 * of_nat i = (of_nat (raw + (od + 2 * i - lo)) :: u64)"
    "of_nat (raw + (fn - lo)) + 4 * of_nat o' = (of_nat (raw + (fn + 4 * o' - lo)) :: u64)"
    using b by (simp_all add: algebra_simps)
  have W: "ld32 m (base + of_nat (nm + 4 * i)) = w" unfolding w_def by (rule ld_mapped(1) [OF M]) (use b i in simp_all)
  have O: "ld16 m (base + of_nat (od + 2 * i)) = ld16 img (of_nat (raw + (od + 2 * i - lo)))"
    by (rule ld_mapped(2) [OF M]) (use b i in simp_all)
  have F: "ld32 m (base + of_nat (fn + 4 * o')) = ld32 img (of_nat (raw + (fn + 4 * o' - lo)))"
    by (rule ld_mapped(1) [OF M]) (use b e in simp_all)
  note off = off_mapped [OF M e(2)]
  have wh: "unat w < hi" using z(1) by simp
  have S: "streq (str_at m (base + of_nat (unat w))) f = streq (str_at img (of_nat (raw + (unat w - lo)))) f" for f
  proof -
    have "streq_from (str_at m (base + of_nat (unat w))) f (of_nat 0) = streq_from (str_at img (of_nat (raw + (unat w - lo)))) f (of_nat 0)"
    proof (rule streq_from_agree [of z])
      have eq: "str_at m (base + of_nat (unat w)) (of_nat j) = str_at img (of_nat (raw + (unat w - lo))) (of_nat j) \<and>
          str_at img (of_nat (raw + (unat w - lo))) (of_nat j) = img (of_nat (raw + (unat w + j - lo)))" if "j \<le> z" for j
      proof -
        have "m (base + of_nat (unat w + j)) = img (of_nat (raw + (unat w + j - lo)))"
          by (rule mapped_at(2) [OF M]) (use e(2) z(1) that in simp_all)
        moreover have "of_nat (raw + (unat w + j - lo)) = (of_nat (raw + (unat w - lo)) + of_nat j :: u64)" using e(2) by simp
        moreover have "base + of_nat (unat w + j) = base + of_nat (unat w) + of_nat j" by simp
        ultimately show ?thesis unfolding str_at_def by (simp only:)
      qed
      then show "str_at m (base + of_nat (unat w)) (of_nat j) = str_at img (of_nat (raw + (unat w - lo))) (of_nat j)" if "j \<le> z" for j
        using that by blast
      show "str_at m (base + of_nat (unat w)) (of_nat z) = 0" using eq [of z] z(2) by simp
      show "z < 2 ^ 64" using z(1) M by (simp add: mapped_range_def)
    qed simp
    then show ?thesis by (simp add: streq_def)
  qed
  have IH: "proc_loop m base proc (base + of_nat nm) (base + of_nat od) (base + of_nat fn) (of_nat i + 1) k =
      find_name md (str_at m proc) (of_nat (raw + (nm - lo))) (of_nat (raw + (od - lo))) (of_nat (raw + (fn - lo))) (of_nat i + 1) k"
    using Suc.IH [of "i + 1"] Suc.prems by (simp add: add.commute)
  show ?case
    unfolding proc_loop.simps find_name.simps Let_def A(1,2) B(1,2) md Module.simps W O w_def [symmetric]
    unfolding off(2) [OF wh]
    unfolding ucast_nat o'_def [symmetric] A(3) B(3) F S if_not_P [OF off(1) [OF wh]] IH [unfolded md] ..
qed

text \<open>C31 (equivalence): dynamic and static linking.  When a DLL stands in memory as its file describes it and its export tables lie in one
  section, GetProcAddress finds for every name the address that the kernel's loader writes into an import table for it - null for a name
  that the DLL does not have.\<close>
theorem GetProcAddress_agrees:
  assumes "mapped_header m base img" "mapped_range m base img lo hi raw" "exports_inside img lo hi raw" "base \<noteq> 0" "proc \<noteq> 0"
  shows "GetProcAddress m base proc = FindExport \<lparr>m_name = nm0, m_image_base = base, m_pe_data = img, m_pe_size = sz\<rparr> (str_at m proc)"
proof -
  define el where "el = unat (e_lfanew img)"
  define exp where "exp = ld32 img (opt_hdr img + 112)"
  have hd: "ld32 m (base + of_nat a) = ld32 img (of_nat a)" if "a + 4 \<le> el + 140 \<or> a + 4 \<le> 64" for a
    unfolding ld32_def
  proof (rule arg_cong [where f = of_nat], rule le_val_cong)
    fix i :: nat assume "i < 4"
    then have "a + i < unat (e_lfanew img) + 140 \<or> a + i < 64" using that by (auto simp: el_def)
    then have "m (base + of_nat (a + i)) = img (of_nat (a + i))" using assms(1) unfolding mapped_header_def by blast
    then show "m (base + of_nat a + of_nat i) = img (of_nat a + of_nat i)" by (simp add: add.assoc)
  qed
  have e1: "ld32 m (base + 0x3C) = e_lfanew img" using hd [of 60] by (simp add: e_lfanew_def)
  have e2: "ld32 m (base + ucast (e_lfanew img) + 24 + 112) = exp"
    using hd [of "el + 136"] by (simp add: el_def exp_def opt_hdr_def pe_hdr_def add.assoc)
  show ?thesis
  proof (cases "exp = 0")
    case True
    then show ?thesis unfolding GetProcAddress_def FindExport_def Let_def e1 e2 using assms(4,5) by (simp add: exp_def [symmetric])
  next
    case False
    let ?at = "\<lambda>r. of_nat (raw + (r - lo)) :: u64"
    define x where "x = unat exp"
    define n where "n = unat (ld32 img (?at x + 24))"
    define fn where "fn = ld32 img (?at x + 28)"
    define nm where "nm = ld32 img (?at x + 32)"
    define od where "od = ld32 img (?at x + 36)"
    have x0: "x \<noteq> 0" using False by (simp add: x_def unat_eq_zero)
    note E = assms(3) [unfolded exports_inside_def Let_def, folded exp_def, folded x_def, folded n_def fn_def nm_def od_def,
        rule_format, OF x0]
    note M = assms(2)
    have Es: "lo \<le> x" "x + 40 \<le> hi" "unat nm + 4 * n \<le> hi" "unat od + 2 * n \<le> hi" using E by blast+
    have X: "ld32 m (base + ucast exp + of_nat c) = ld32 img (?at x + of_nat c)" if "c + 4 \<le> 40" for c
    proof -
      have "ld32 m (base + of_nat (x + c)) = ld32 img (of_nat (raw + (x + c - lo)))"
        by (rule ld_mapped(1) [OF M]) (use Es that in auto)
      moreover have "of_nat (raw + (x + c - lo)) = ?at x + of_nat c" using Es by simp
      moreover have "base + of_nat (x + c) = base + ucast exp + of_nat c" by (simp add: x_def add.assoc)
      ultimately show ?thesis by (simp only:)
    qed
    have xs: "ld32 m (base + ucast exp + 24) = ld32 img (?at x + 24)" "ld32 m (base + ucast exp + 28) = fn"
      "ld32 m (base + ucast exp + 32) = nm" "ld32 m (base + ucast exp + 36) = od"
      using X [of 24] X [of 28] X [of 32] X [of 36] by (simp_all add: fn_def nm_def od_def)
    have xh: "lo \<le> unat exp" "unat exp < hi" using Es by (simp_all add: x_def)
    have fh: "lo \<le> unat fn" "unat fn < hi" "lo \<le> unat nm" "unat nm < hi" "lo \<le> unat od" "unat od < hi" using E by blast+
    note o1 = off_mapped [OF M xh]
    note o2 = off_mapped [OF M fh(1,2)] off_mapped [OF M fh(3,4)] off_mapped [OF M fh(5,6)]
    have L: "proc_loop m base proc (base + of_nat (unat nm)) (base + of_nat (unat od)) (base + of_nat (unat fn)) (of_nat 0) n =
      find_name \<lparr>m_name = nm0, m_image_base = base, m_pe_data = img, m_pe_size = sz\<rparr> (str_at m proc) (?at (unat nm)) (?at (unat od)) (?at (unat fn)) (of_nat 0) n"
    proof (rule loops_agree [OF M refl fh(3) Es(3) fh(5) Es(4) fh(1)])
      show "0 + n = n" by simp
    qed (use E in blast)
    have "GetProcAddress m base proc = proc_loop m base proc (base + ucast nm) (base + ucast od) (base + ucast fn) 0 n"
      unfolding GetProcAddress_def Let_def e1 e2 xs n_def [symmetric] using assms(4,5) False by simp
    moreover have found: "\<not> (rva_to_off img fn = 0 \<or> rva_to_off img nm = 0 \<or> rva_to_off img od = 0)" using o2 by blast
    moreover have "FindExport \<lparr>m_name = nm0, m_image_base = base, m_pe_data = img, m_pe_size = sz\<rparr> (str_at m proc) =
      find_name \<lparr>m_name = nm0, m_image_base = base, m_pe_data = img, m_pe_size = sz\<rparr> (str_at m proc) (?at (unat nm)) (?at (unat od)) (?at (unat fn)) 0 n"
      unfolding FindExport_def Let_def Module.simps exp_def [symmetric] if_not_P [OF False] if_not_P [OF o1(1)] o1(2) x_def [symmetric]
        fn_def [symmetric] nm_def [symmetric] od_def [symmetric] n_def [symmetric] if_not_P [OF found] o2 ..
    ultimately show ?thesis using L by (simp only: ucast_nat semiring_1_class.of_nat_0)
  qed
qed

text \<open>A DLL with one export, f, whose section of 56 bytes is at 0x1000 in memory and at 256 in the file.\<close>
definition dll_demo :: blob where
  "dll_demo a = (if a = 60 then 64 else if a = 70 then 1 else if a = 84 then 116 else if a = 201 then 16 else if a = 212 then 56 else if a = 217 then 16 else if a = 225 then 1 else if a = 280 then 1 else if a = 284 then 40 else if a = 285 then 16 else if a = 288 then 44 else if a = 289 then 16 else if a = 292 then 48 else if a = 293 then 16 else if a = 297 then 16 else if a = 300 then 52 else if a = 301 then 16 else if a = 308 then 102 else 0)"

definition proc_demo :: blob where
  "proc_demo a = (let d = unat (a - 0x180000000) in if d < 256 then dll_demo (a - 0x180000000)
     else if 4096 \<le> d \<and> d < 4152 then dll_demo (of_nat (256 + (d - 4096))) else if a = 0x5000 then 102 else 0)"

lemma dll_demo_fields:
  "e_lfanew dll_demo = 64" "ld32 dll_demo (opt_hdr dll_demo + 112) = 0x1000" "num_sects dll_demo = 1"
  "v_rva dll_demo 0 = 0x1000" "v_size dll_demo 0 = 56" "raw_off dll_demo 0 = 256"
proof -
  have u: "[0..<4] = [0, 1, 2, 3]" "[0..<2] = [0, 1]" by (simp_all add: upt_rec)
  show e: "e_lfanew dll_demo = 64" by (simp add: e_lfanew_def ld16_def ld32_def le_val_def u dll_demo_def)
  have p: "pe_hdr dll_demo = 64" by (simp add: pe_hdr_def e)
  then have o: "opt_hdr dll_demo = 88" by (simp add: opt_hdr_def)
  show "ld32 dll_demo (opt_hdr dll_demo + 112) = 0x1000" by (simp add: o ld16_def ld32_def le_val_def u dll_demo_def)
  show "num_sects dll_demo = 1" by (simp add: num_sects_def p ld16_def ld32_def le_val_def u dll_demo_def)
  have "sect_hdr dll_demo 0 = 204" by (simp add: sect_hdr_def sect_hdrs_def o p ld16_def ld32_def le_val_def u dll_demo_def)
  then show "v_rva dll_demo 0 = 0x1000" "v_size dll_demo 0 = 56" "raw_off dll_demo 0 = 256"
    by (simp_all add: v_rva_def v_size_def raw_off_def ld16_def ld32_def le_val_def u dll_demo_def)
qed

lemma dll_demo_exports:
  "ld32 dll_demo 280 = 1" "ld32 dll_demo 284 = 0x1028" "ld32 dll_demo 288 = 0x102C" "ld32 dll_demo 292 = 0x1030"
  "ld32 dll_demo 300 = 0x1034" "ld16 dll_demo 304 = 0" "dll_demo 309 = 0"
proof -
  have u: "[0..<4] = [0, 1, 2, 3]" "[0..<2] = [0, 1]" by (simp_all add: upt_rec)
  show "ld32 dll_demo 280 = 1" "ld32 dll_demo 284 = 0x1028" "ld32 dll_demo 288 = 0x102C" "ld32 dll_demo 292 = 0x1030"
    "ld32 dll_demo 300 = 0x1034" "ld16 dll_demo 304 = 0" "dll_demo 309 = 0" by (simp_all add: ld16_def ld32_def le_val_def u dll_demo_def)
qed

lemma GetProcAddress_agrees_witness:
  "GetProcAddress proc_demo 0x180000000 0x5000 =
    FindExport \<lparr>m_name = ''demo.dll'', m_image_base = 0x180000000, m_pe_data = dll_demo, m_pe_size = 312\<rparr> (str_at proc_demo 0x5000)"
proof (rule GetProcAddress_agrees)
  show "mapped_header proc_demo 0x180000000 dll_demo"
    unfolding mapped_header_def dll_demo_fields by (auto simp: proc_demo_def unat_of_nat take_bit_nat_eq_self Let_def)
  show "mapped_range proc_demo 0x180000000 dll_demo 4096 4152 256"
    unfolding mapped_range_def
  proof (intro conjI allI impI)
    fix r :: nat assume r: "4096 \<le> r \<and> r < 4152"
    then have u: "unat (of_nat r :: u32) = r" "unat (of_nat r :: u64) = r" by (simp_all add: unat_of_nat take_bit_nat_eq_self)
    have "v_rva dll_demo 0 \<le> of_nat r \<and> of_nat r < v_rva dll_demo 0 + v_size dll_demo 0"
      using r by (simp add: dll_demo_fields word_le_nat_alt word_less_nat_alt u)
    then show "rva_to_off dll_demo (of_nat r) = of_nat (256 + (r - 4096))"
      using r by (simp add: rva_to_off_def dll_demo_fields)
    show "proc_demo (0x180000000 + of_nat r) = dll_demo (of_nat (256 + (r - 4096)))"
      using r by (simp add: proc_demo_def u Let_def)
  qed simp_all
  show "exports_inside dll_demo 4096 4152 256"
    unfolding exports_inside_def dll_demo_fields
    by (simp add: dll_demo_exports Let_def exI [of _ 1])
qed simp_all

end
