(* ===== verification/MemPanel.thy ===== *)
theory MemPanel
  imports SysQuery ConsoleRefine
begin

text \<open>The memory line crosses three components: NtQuerySystemInformation prints the page counters of the
  physical memory manager, the shell writes the text to the console, and the console reads the numbers
  back to draw its panel.\<close>

lemma chr8_unat: "unat (chr8 c) = of_char c"
proof -
  have "of_char c < (256 :: nat)" by (rule nat_of_char_less_256)
  then show ?thesis by (simp add: chr8_def unat_of_nat take_bit_nat_eq_self)
qed

lemma chr8_digit: "is_digit (chr8 c) \<longleftrightarrow> 48 \<le> (of_char c :: nat) \<and> (of_char c :: nat) \<le> 57"
  by (simp add: is_digit_def word_le_nat_alt chr8_unat)

lemma chr8_value: "48 \<le> (of_char c :: nat) \<Longrightarrow> (ucast (chr8 c) - 48 :: u64) = of_nat (of_char c - 48)"
proof -
  have "(ucast (chr8 c) :: u64) = of_nat (of_char c)"
    by (simp add: chr8_unat [symmetric] unsigned_ucast_eq word_unat_eq_iff unat_of_nat take_bit_nat_def)
  moreover assume "48 \<le> (of_char c :: nat)"
  ultimately show ?thesis by (simp add: of_nat_diff)
qed

lemma ParseU64_digits:
  assumes "\<And>c. c \<in> set ds \<Longrightarrow> (48 :: nat) \<le> of_char c \<and> (of_char c :: nat) \<le> 57" "rest = [] \<or> \<not> is_digit (hd rest)"
  shows "ParseU64 (bytes_of ds @ rest) (of_nat v) = (of_nat (foldl (\<lambda>n c. n * 10 + (of_char c - 48)) v ds), rest)"
  using assms(1)
proof (induction ds arbitrary: v)
  case Nil
  show ?case using assms(2) by (cases rest) auto
next
  case (Cons c ds)
  then have c: "48 \<le> (of_char c :: nat)" "(of_char c :: nat) \<le> 57" by auto
  have e: "of_nat v * 10 + (ucast (chr8 c) - 48) = (of_nat (v * 10 + (of_char c - 48)) :: u64)"
    unfolding chr8_value [OF c(1)] by simp
  have "ParseU64 (bytes_of (c # ds) @ rest) (of_nat v) = ParseU64 (bytes_of ds @ rest) (of_nat v * 10 + (ucast (chr8 c) - 48))"
    using c by (simp add: chr8_digit)
  then show ?case unfolding e using Cons.IH [of "v * 10 + (of_char c - 48)"] Cons.prems by simp
qed

text \<open>A printed number is read back, modulo 2^64.\<close>
lemma ParseU64_itoa:
  assumes "rest = [] \<or> \<not> is_digit (hd rest)"
  shows "ParseU64 (bytes_of (itoa n) @ rest) 0 = (of_nat n, rest)"
  using ParseU64_digits [of "itoa n" rest 0] itoa_ok(2) [of _ n] itoa_ok(1) [of n] assms by (simp add: digits_value_def)

lemma not_digit: "\<not> is_digit (chr8 CHR '' '')" "\<not> is_digit (chr8 CHR ''/'')" by (simp_all add: is_digit_def chr8_def)

lemma content_ends:
  assumes "\<And>c. c \<in> set cs \<Longrightarrow> c \<noteq> CHR 0x00 \<and> c \<noteq> CHR 0x0A \<and> c \<noteq> CHR 0x0D"
  shows "content (bytes_of cs @ 13 # rest) = bytes_of cs"
proof -
  have "chr8 c \<noteq> 0 \<and> chr8 c \<noteq> 10 \<and> chr8 c \<noteq> 13" if "c \<in> set cs" for c
  proof -
    have "(of_char c :: nat) \<noteq> 0 \<and> (of_char c :: nat) \<noteq> 10 \<and> (of_char c :: nat) \<noteq> 13"
      using assms [OF that] of_char_eq_iff [where ?'a = nat, of c "CHR 0x00"] of_char_eq_iff [where ?'a = nat, of c "CHR 0x0A"]
        of_char_eq_iff [where ?'a = nat, of c "CHR 0x0D"] by simp
    then show ?thesis by (simp add: word_unat_eq_iff chr8_unat)
  qed
  then show ?thesis unfolding content_def by (subst takeWhile_append2) auto
qed


lemma after_kw_simps [simp]: "after_kw [] cs = Some cs"
  "after_kw (k # kw) (c # cs) = (if c = chr8 k then after_kw kw cs else None)"
  by (auto simp: after_kw_def)

text \<open>A character that starts no keyword is skipped.\<close>
lemma mem_scan_skip:
  "c \<noteq> 32 \<Longrightarrow> c \<noteq> 9 \<Longrightarrow> c \<notin> {chr8 CHR ''F'', chr8 CHR ''U'', chr8 CHR ''T'', chr8 CHR ''P''} \<Longrightarrow> mem_scan (c # cs) m = mem_scan cs m"
  by (subst mem_scan.simps) simp

lemma mem_scan_space: "mem_scan (32 # cs) m = mem_scan cs m"
  by (subst (1 2) mem_scan.simps) simp

lemma chr8_eval: "chr8 c = of_nat (of_char c)" by (simp add: chr8_def)

lemma mem_scan_free: "rest = [] \<or> \<not> is_digit (hd rest) \<Longrightarrow>
    mem_scan (bytes_of ''Free='' @ bytes_of (itoa n) @ rest) m = mem_scan rest (m\<lparr>mi_free := of_nat n\<rparr>)"
  by (subst mem_scan.simps) (simp add: ParseU64_itoa chr8_eval)

lemma mem_scan_used: "rest = [] \<or> \<not> is_digit (hd rest) \<Longrightarrow>
    mem_scan (bytes_of ''Used='' @ bytes_of (itoa n) @ rest) m = mem_scan rest (m\<lparr>mi_used := of_nat n\<rparr>)"
  by (subst mem_scan.simps) (simp add: ParseU64_itoa chr8_eval)

lemma mem_scan_total: "rest = [] \<or> \<not> is_digit (hd rest) \<Longrightarrow>
    mem_scan (bytes_of ''Total='' @ bytes_of (itoa n) @ rest) m = mem_scan rest (m\<lparr>mi_total := of_nat n\<rparr>)"
  by (subst mem_scan.simps) (simp add: ParseU64_itoa chr8_eval)

lemma mem_scan_pages:
    "mem_scan (bytes_of ''Pages='' @ bytes_of (itoa a) @ chr8 CHR ''/'' # bytes_of (itoa b)) m
     = m\<lparr>mi_used_pages := of_nat a, mi_total_pages := of_nat b\<rparr>"
proof -
  have 1: "ParseU64 (bytes_of (itoa a) @ chr8 CHR ''/'' # bytes_of (itoa b)) 0 = (of_nat a, chr8 CHR ''/'' # bytes_of (itoa b))"
    by (rule ParseU64_itoa) (simp add: not_digit)
  have 2: "ParseU64 (bytes_of (itoa b)) 0 = (of_nat b, [])" using ParseU64_itoa [of "[]" b] by simp
  have 3: "mem_scan [] m' = m'" for m' by (subst mem_scan.simps) simp
  show ?thesis by (subst mem_scan.simps) (use 1 2 in \<open>simp add: chr8_eval 3\<close>)
qed

text \<open>The memory panel.  The console reads from the line that NtQuerySystemInformation prints
  exactly the counters of the physical memory manager it was printed from: the three sizes in
  kilobytes and the two page counts, as 64-bit numbers.\<close>
theorem memory_line_parsed:
  "text_start ''Memory:'' (content (bytes_of (memory_text p)))
   \<and> mem_scan (drop 7 (content (bytes_of (memory_text p)))) no_mem =
     \<lparr>mi_free = of_nat (FreePages p * 4), mi_used = of_nat (UsedPages p * 4), mi_total = of_nat (TotalPages p * 4),
      mi_used_pages = of_nat (UsedPages p), mi_total_pages = of_nat (TotalPages p)\<rparr>"
proof -
  define cs where "cs = ''Memory: Free='' @ itoa (FreePages p * 4) @ '' KB Used='' @ itoa (UsedPages p * 4) @
     '' KB Total='' @ itoa (TotalPages p * 4) @ '' KB Pages='' @ itoa (UsedPages p) @ ''/'' @ itoa (TotalPages p)"
  have dig: "c \<noteq> CHR 0x00 \<and> c \<noteq> CHR 0x0A \<and> c \<noteq> CHR 0x0D" if "c \<in> set (itoa n)" for c n
    using itoa_ok(2) [OF that] by auto
  have m: "memory_text p = cs @ [CHR 0x0D, CHR 0x0A]"
    by (simp add: memory_text_def cs_def crlf_def PAGE_SIZE_def)
  have "content (bytes_of cs @ 13 # [10]) = bytes_of cs"
    by (rule content_ends) (auto simp: cs_def dest: dig)
  then have t: "content (bytes_of (memory_text p)) = bytes_of cs" by (simp add: m chr8_eval)
  have d: "drop 7 (bytes_of cs) = 32 # bytes_of ''Free='' @ bytes_of (itoa (FreePages p * 4)) @
      32 # chr8 CHR ''K'' # chr8 CHR ''B'' # 32 # bytes_of ''Used='' @ bytes_of (itoa (UsedPages p * 4)) @
      32 # chr8 CHR ''K'' # chr8 CHR ''B'' # 32 # bytes_of ''Total='' @ bytes_of (itoa (TotalPages p * 4)) @
      32 # chr8 CHR ''K'' # chr8 CHR ''B'' # 32 # bytes_of ''Pages='' @ bytes_of (itoa (UsedPages p)) @ chr8 CHR ''/'' # bytes_of (itoa (TotalPages p))"
    by (simp add: cs_def chr8_eval)
  have kb: "mem_scan (chr8 CHR ''K'' # chr8 CHR ''B'' # 32 # rest) m = mem_scan rest m" for rest m
    by (simp add: mem_scan_space mem_scan_skip chr8_eval)
  have nd: "\<not> is_digit (hd (32 # rest))" for rest by (simp add: is_digit_def)
  have "mem_scan (drop 7 (bytes_of cs)) no_mem =
     \<lparr>mi_free = of_nat (FreePages p * 4), mi_used = of_nat (UsedPages p * 4), mi_total = of_nat (TotalPages p * 4),
      mi_used_pages = of_nat (UsedPages p), mi_total_pages = of_nat (TotalPages p)\<rparr>"
    unfolding d mem_scan_space mem_scan_free [OF disjI2 [OF nd]] kb mem_scan_used [OF disjI2 [OF nd]]
      mem_scan_total [OF disjI2 [OF nd]] mem_scan_pages by (simp add: no_mem_def)
  moreover have "text_start ''Memory:'' (bytes_of cs)" by (simp add: text_start_def cs_def)
  ultimately show ?thesis by (simp add: t)
qed

end
