(* ===== verification/DesktopPaint.thy ===== *)
theory DesktopPaint
  imports TextConsole ShellDesktop "HOL-Library.Monad_Syntax"
begin

text \<open>The painting of the shell desktop in kernel/hal/x64/vga.cpp: wallpaper, icons, windows, taskbar, Start
  flyout and terminal window.  The drawing of rounded shapes may not return, so the painting is in the
  option monad.  masks holds the coverage masks of desktop_icons.h, 44 by 44 bytes for each kind of icon.\<close>

type_synonym masks = "nat \<Rightarrow> nat \<Rightarrow> u8"

text \<open>A text that the code tests for null before it reads it: null counts as the empty text.\<close>
definition text_of :: "text_ptr \<Rightarrow> cstr" where "text_of t = (case t of None \<Rightarrow> [] | Some cs \<Rightarrow> cs)"

text \<open>DrawTextAbs of a pointer that is not tested: None is the fault of reading through null.\<close>
definition DrawTextAbs_ptr :: "u32 \<Rightarrow> u32 \<Rightarrow> text_ptr \<Rightarrow> u32 \<Rightarrow> u32 \<Rightarrow> vga \<Rightarrow> vga option" where
  "DrawTextAbs_ptr x y t fg bg s = map_option (\<lambda>cs. DrawTextAbs x y cs fg bg s) t"

definition DrawWinLogo :: "u32 \<Rightarrow> u32 \<Rightarrow> u32 \<Rightarrow> u32 \<Rightarrow> u32 \<Rightarrow> vga \<Rightarrow> vga" where
  "DrawWinLogo x y cell gap color s =
    FillRect (x + cell + gap) (y + cell + gap) cell cell color
      (FillRect x (y + cell + gap) cell cell color
        (FillRect (x + cell + gap) y cell cell color (FillRect x y cell cell color s)))"

definition DrawAppTile :: "u32 \<Rightarrow> u32 \<Rightarrow> u32 \<Rightarrow> u32 \<Rightarrow> char \<Rightarrow> u32 \<Rightarrow> vga \<Rightarrow> vga" where
  "DrawAppTile x y sz badge letter bg s =
    (let s = FillRect x y sz sz bg s; inset = sz div 6;
         s = FillRect (x + inset) (y + inset) (sz - 2 * inset) (sz - 2 * inset) badge s
     in DrawTextAbs (x + sz div 2 - 4) (y + sz div 2 - 8) [letter] 0xFFFFFF badge s)"

section \<open>Icons\<close>

definition s_icon_tile :: "u32 list" where
  "s_icon_tile = [0x2F6FD0, 0xF2B431, 0x16A085, 0xE0552B, 0x5B6CC4, 0x8AA0B4]"

definition DrawShellIcon :: "masks \<Rightarrow> u32 \<Rightarrow> u32 \<Rightarrow> nat \<Rightarrow> text_ptr \<Rightarrow> vga \<Rightarrow> vga option" where
  "DrawShellIcon masks x y kind label s =
    (let kind = (if kind \<ge> 6 then 0 else kind); tile = s_icon_tile ! kind; tw = 60; th = 60;
         tx = x + (96 - tw) div 2; ty = y + 2 in do {
      s \<leftarrow> FillRoundRect (tx + 2) (ty + 4) tw th 13 0x12243C s;
      s \<leftarrow> FillRoundRect tx ty tw th 13 tile s;
      s \<leftarrow> FillRoundRect (tx + 3) (ty + 3) (tw - 6) ((th * 44) div 100) 10 (Lighten tile 90) s;
      let gx = tx + (tw - 44) div 2; gy = ty + (th - 44) div 2;
          s = BlitGlyphAlpha gx gy (Some (masks kind)) 44 44 0xFFFFFF s;
          text_w = of_nat (length (text_of label)) * of_nat CHAR_W;
          lx = (if text_w < 96 then x + (96 - text_w) div 2 else x); ly = y + 68;
          s = DrawTextTransparent (lx + 1) (ly + 1) label 0x0A1A30 s
      in Some (DrawTextTransparent lx ly label 0xFFFFFF s) })"

definition icon_kind :: "IconKind \<Rightarrow> nat" where
  "icon_kind k = (case k of IconComputer \<Rightarrow> 0 | IconFolder \<Rightarrow> 1 | IconNetwork \<Rightarrow> 2 | IconMedia \<Rightarrow> 3
     | IconControl \<Rightarrow> 4 | IconRecycle \<Rightarrow> 5)"

section \<open>Windows\<close>

definition DrawWinControls :: "u32 \<Rightarrow> u32 \<Rightarrow> u32 \<Rightarrow> u32 \<Rightarrow> u32 \<Rightarrow> vga \<Rightarrow> vga" where
  "DrawWinControls x y w th ink s =
    (let cw = 46; mid = y + th div 2;
         s = FillRect (x + w - 3 * cw + cw div 2 - 5) mid 11 1 ink s;
         s = RectOutline (x + w - 2 * cw + cw div 2 - 5) (mid - 5) 11 11 ink ink s
     in DrawTextTransparent (x + w - cw + cw div 2 - 4) (mid - 8) (Some ''x'') ink s)"

definition DrawLunaTitle :: "u32 \<Rightarrow> u32 \<Rightarrow> u32 \<Rightarrow> u32 \<Rightarrow> text_ptr \<Rightarrow> vga \<Rightarrow> vga" where
  "DrawLunaTitle x y w th title s =
    (let s = FillVerticalGradient (x + 1) (y + 1) (w - 2) (th - 1) 0x4090F4 0x1B5BD0 s;
         s = FillVerticalGradient (x + 1) (y + 1) (w - 2) (th div 3) 0x8FC0FF 0x4A9AF6 s;
         s = DrawTextTransparent (x + 14) (y + (th - 16) div 2) title 0xFFFFFF s;
         s = DrawWinControls x y w th 0xFFFFFF s
     in FillRect x (y + th) w 1 0x12407F s)"

definition panel_toolbar :: "u32 \<Rightarrow> u32 \<Rightarrow> u32 \<Rightarrow> text_ptr \<Rightarrow> vga \<Rightarrow> vga option" where
  "panel_toolbar x cy w title s =
    (let s = FillRect (x + 1) cy (w - 2) 36 0xF7F7F7 s;
         s = FillRect (x + 1) (cy + 36) (w - 2) 1 0xE6E6E6 s;
         s = DrawTextAbs (x + 14) (cy + 12) ''<  >'' 0x4A4A4A 0xF7F7F7 s;
         s = FillRect (x + 70) (cy + 6) (w - 230) 24 0xFFFFFF s;
         s = RectOutline (x + 70) (cy + 6) (w - 230) 24 0xCFCFCF 0xCFCFCF s in do {
      s \<leftarrow> DrawTextAbs_ptr (x + 82) (cy + 11) title 0x3A3A3A 0xFFFFFF s;
      let s = FillRect (x + w - 150) (cy + 6) 138 24 0xFFFFFF s;
          s = RectOutline (x + w - 150) (cy + 6) 138 24 0xCFCFCF 0xCFCFCF s
      in Some (DrawTextAbs (x + w - 138) (cy + 11) ''Search'' 0x9A9A9A 0xFFFFFF s) })"

definition panel_drive :: "u32 \<Rightarrow> u32 \<Rightarrow> nat \<Rightarrow> vga \<Rightarrow> vga" where
  "panel_drive px cy i s =
    (let ix = px + of_nat (i mod 2) * 200; iy = cy + 48 + of_nat (i div 2) * 76;
         s = FillRect ix (iy + 6) 42 28 0xD7DEE8 s;
         s = RectOutline ix (iy + 6) 42 28 0xBFC8D4 0xBFC8D4 s;
         dn = (if i = 0 then ''System (C:)'' else if i = 1 then ''Data (D:)'' else if i = 2 then ''DVD (E:)'' else ''USB (F:)'');
         s = DrawTextAbs (ix + 54) iy dn 0x2A2A2A 0xF3F3F3 s;
         s = FillRect (ix + 54) (iy + 24) 130 6 0xE2E2E2 s
     in FillRect (ix + 54) (iy + 24) (70 + of_nat i * 10) 6 0x0078D4 s)"

definition DrawPanelWindow :: "u32 \<Rightarrow> u32 \<Rightarrow> u32 \<Rightarrow> u32 \<Rightarrow> text_ptr \<Rightarrow> bool \<Rightarrow> text_ptr \<Rightarrow> vga \<Rightarrow> vga option" where
  "DrawPanelWindow x y w h title toolbar status s =
    (let surface = 0xF3F3F3; border = 0xDADADA; navbg = 0xEAEAEA; accent = 0x0078D4; th = 32;
         s = FillRect (x + 6) (y + 9) w h 0x0E2348 s;
         s = FillRect x y w h surface s;
         s = RectOutline x y w h border border s;
         s = DrawLunaTitle x y w th title s;
         cy = y + th + 1 in do {
      s \<leftarrow> (if toolbar then panel_toolbar x cy w title s else Some s);
      let cy = (if toolbar then cy + 37 else cy);
         nav_h = h - (cy - y) - 34;
         s = FillRect (x + 8) (cy + 8) 168 nav_h navbg s;
         s = DrawTextAbs (x + 20) (cy + 20) ''Home'' accent navbg s;
         s = DrawTextAbs (x + 20) (cy + 48) ''Gallery'' 0x3A3A3A navbg s;
         s = DrawTextAbs (x + 20) (cy + 84) ''This PC'' 0x3A3A3A navbg s;
         s = DrawTextAbs (x + 20) (cy + 112) ''Network'' 0x3A3A3A navbg s;
         px = x + 200;
         s = DrawTextAbs px (cy + 16) ''Devices and drives'' 0x5A5A5A surface s;
         s = fold (panel_drive px cy) [0..<4] s;
         s = FillRect (x + 1) (y + h - 26) (w - 2) 25 0xECECEC s
      in DrawTextAbs_ptr (x + 12) (y + h - 19) status 0x5A5A5A 0xECECEC s })"

section \<open>The parts of the desktop\<close>

definition wallpaper_hill :: "vga \<Rightarrow> u32" where "wallpaper_hill s = (s_fb_h s * 62) div 100"

definition paint_wallpaper :: "Theme \<Rightarrow> vga \<Rightarrow> vga" where
  "paint_wallpaper theme s =
    (let w = s_fb_w s; h = s_fb_h s; hill_y = wallpaper_hill s;
         s = FillVerticalGradient 0 0 w hill_y (th_WallpaperTop theme) (th_WallpaperBottom theme) s;
         bx0 = (w * 64) div 100; by0 = (h * 20) div 100;
         s = FillEllipse bx0 by0 (w div 8) (h div 16) 0x7FC0FF s;
         s = FillEllipse bx0 by0 (w div 13) (h div 26) 0xBEE3FF s;
         s = FillEllipse (w div 6) (h div 6) (w div 11) (h div 40) 0xFFFFFF s;
         s = FillEllipse (w div 4) (h div 6 - 14) (w div 14) (h div 34) 0xF2FAFF s;
         s = FillEllipse ((w * 82) div 100) (h div 4) (w div 12) (h div 40) 0xFFFFFF s;
         s = FillVerticalGradient 0 hill_y w (h - hill_y) 0x8FCB5A 0x2C7A24 s;
         s = FillEllipse (w div 2) (hill_y + (h - hill_y) div 2) ((w * 70) div 100) (h - hill_y) 0x7FC04A s;
         s = FillEllipse ((w * 22) div 100) (hill_y + 30) ((w * 28) div 100) ((h - hill_y) div 2) 0xA6DC6E s
     in FillRect 0 hill_y w 2 0xE9F6D4 s)"

fun paint_icons :: "masks \<Rightarrow> nat \<Rightarrow> DesktopIcon list \<Rightarrow> vga \<Rightarrow> vga option" where
  "paint_icons masks i [] s = Some s"
| "paint_icons masks i (icon # icons) s = do {
     s \<leftarrow> DrawShellIcon masks 18 (14 + of_nat i * 92) (icon_kind (ic_Kind icon)) (ic_Label icon) s;
     paint_icons masks (i + 1) icons s }"

definition paint_window :: "u32 \<Rightarrow> ShellWindow \<Rightarrow> vga \<Rightarrow> vga option" where
  "paint_window task_y win s =
    (let (x, y) = drawn_pos (s_fb_w s) task_y win
     in DrawPanelWindow x y (win_Width win) (win_Height win) (win_Title win) (win_Toolbar win) (win_Status win) s)"

fun paint_windows :: "u32 \<Rightarrow> ShellWindow list \<Rightarrow> vga \<Rightarrow> vga option" where
  "paint_windows task_y [] s = Some s"
| "paint_windows task_y (win # wins) s = do { s \<leftarrow> paint_window task_y win s; paint_windows task_y wins s }"

definition s_badge :: "u32 list" where
  "s_badge = [0x0078D4, 0xCA5010, 0x107C10, 0x8764B8, 0xC30052, 0x0099BC]"

definition paint_start_button :: "Theme \<Rightarrow> TaskbarMetrics \<Rightarrow> vga \<Rightarrow> vga option" where
  "paint_start_button theme tb s =
    (let task_y = tb_Y tb; task_h = tb_Height tb; pill_w = tb_StartW tb; pill_h = task_h - 10;
         px = tb_StartX tb; py = task_y + 5 in do {
      s \<leftarrow> FillRoundRect px py pill_w pill_h (pill_h div 2) (th_StartBottom theme) s;
      s \<leftarrow> FillRoundRect (px + 2) (py + 2) (pill_w - 4) (pill_h div 2) (pill_h div 3) (Lighten (th_StartTop theme) 60) s;
      let logo_dim = 2 * 8 + 3; lx = px + (pill_w - logo_dim) div 2; ly = task_y + (task_h - logo_dim) div 2
      in Some (DrawWinLogo lx ly 8 3 0xFFFFFF s) })"

text \<open>The letter on a button: nothing for an empty title.\<close>
definition badge_letter :: "text_ptr \<Rightarrow> cstr" where
  "badge_letter title = (case title of None \<Rightarrow> ''?'' | Some cs \<Rightarrow> take 1 cs)"

definition paint_button :: "Theme \<Rightarrow> TaskbarMetrics \<Rightarrow> nat \<Rightarrow> ShellWindow \<Rightarrow> vga \<Rightarrow> vga option" where
  "paint_button theme tb i win s =
    (let task_y = tb_Y tb; task_h = tb_Height tb; slot = tb_ButtonW tb + tb_ButtonGap tb;
         tile = (if task_h \<ge> 44 then 36 else 28); tile_y = task_y + (task_h - tile) div 2;
         bx = tb_FirstButtonX tb + of_nat i * slot; tx = bx + (tb_ButtonW tb - tile) div 2;
         badge = s_badge ! (i mod 6) in do {
      s \<leftarrow> (if i = 0 then FillRoundRect (bx + 2) (task_y + 4) (tb_ButtonW tb - 4) (task_h - 8) 6 (Lighten (th_TaskbarTop theme) 40) s
            else Some s);
      s \<leftarrow> FillRoundRect tx tile_y tile tile 8 badge s;
      s \<leftarrow> FillRoundRect (tx + 2) (tile_y + 2) (tile - 4) (tile div 2) 6 (Lighten badge 80) s;
      let s = DrawTextTransparent (tx + tile div 2 - 4) (tile_y + tile div 2 - 8) (Some (badge_letter (win_Title win))) 0xFFFFFF s
      in Some (if i = 0 then FillRect (bx + tb_ButtonW tb div 2 - 9) (task_y + task_h - 4) 18 3 0xFFE27A s else s) })"

fun paint_buttons :: "Theme \<Rightarrow> TaskbarMetrics \<Rightarrow> nat \<Rightarrow> ShellWindow list \<Rightarrow> vga \<Rightarrow> vga option" where
  "paint_buttons theme tb i [] s = Some s"
| "paint_buttons theme tb i (win # wins) s = do { s \<leftarrow> paint_button theme tb i win s; paint_buttons theme tb (i + 1) wins s }"

definition paint_taskbar :: "Theme \<Rightarrow> TaskbarMetrics \<Rightarrow> ShellWindow list \<Rightarrow> vga \<Rightarrow> vga option" where
  "paint_taskbar theme tb wins s =
    (let task_y = tb_Y tb; task_h = tb_Height tb; w = s_fb_w s;
         s = FillVerticalGradient 0 task_y w task_h (th_TaskbarTop theme) (th_TaskbarBottom theme) s;
         s = FillRect 0 task_y w 1 (Lighten (th_TaskbarTop theme) 80) s;
         s = FillVerticalGradient 0 (task_y + 1) w (task_h div 3) (Lighten (th_TaskbarTop theme) 60) (th_TaskbarTop theme) s;
         s = FillRect 0 (task_y + task_h - 1) w 1 0x0A2A78 s in do {
      s \<leftarrow> paint_start_button theme tb s;
      s \<leftarrow> paint_buttons theme tb 0 wins s;
      let ty = task_y + (task_h - 16) div 2;
          s = DrawTextAbs (tb_TrayX tb + 24) ty ''^  NET  VOL'' 0xC8C8C8 (th_TaskbarBottom theme) s
      in Some (DrawTextAbs (tb_TrayX tb + tb_TrayW tb - 84) ty ''12:00 PM'' 0xFFFFFF (th_TaskbarBottom theme) s) })"

definition pinned :: "cstr list" where
  "pinned = [''Edge'', ''Files'', ''Settings'', ''Store'', ''Photos'', ''Mail'', ''Notepad'', ''Terminal'']"

definition paint_tile :: "u32 \<Rightarrow> u32 \<Rightarrow> nat \<Rightarrow> vga \<Rightarrow> vga" where
  "paint_tile mx my i s =
    (let col = of_nat (i mod 4); rowi = of_nat (i div 4); gx = mx + 40 + col * 140; gy = my + 132 + rowi * 110;
         badge = s_badge ! (i mod 6);
         s = DrawAppTile (gx + 38) gy 48 badge (hd (pinned ! i)) 0x2B2B2B s
     in DrawTextAbs (gx + 30) (gy + 56) (pinned ! i) 0xD8D8D8 0x2B2B2B s)"

definition paint_menu :: "u32 \<Rightarrow> vga \<Rightarrow> vga" where
  "paint_menu task_y s =
    (let menu_w = 640; menu_h = 720;
         mx = (if s_fb_w s > menu_w then (s_fb_w s - menu_w) div 2 else 0);
         my = (if task_y > menu_h + 12 then task_y - menu_h - 12 else 0);
         s = FillRect mx my menu_w menu_h 0x2B2B2B s;
         s = RectOutline mx my menu_w menu_h 0x3A3A3A 0x141414 s;
         s = FillRect (mx + 40) (my + 36) (menu_w - 80) 40 0x3A3A3A s;
         s = RectOutline (mx + 40) (my + 36) (menu_w - 80) 40 0x4A4A4A 0x202020 s;
         s = DrawTextAbs (mx + 56) (my + 48) ''Search for apps and settings'' 0x9A9A9A 0x3A3A3A s;
         s = DrawTextAbs (mx + 40) (my + 104) ''Pinned'' 0xE8E8E8 0x2B2B2B s;
         s = fold (paint_tile mx my) [0..<8] s;
         s = FillRect mx (my + menu_h - 56) menu_w 56 0x242424 s;
         s = FillEllipse (mx + 56) (my + menu_h - 28) 14 14 0x0078D4 s;
         s = DrawTextAbs (mx + 84) (my + menu_h - 34) ''MicroNT User'' 0xE8E8E8 0x242424 s
     in DrawTextAbs (mx + menu_w - 60) (my + menu_h - 34) ''(power)'' 0xC8C8C8 0x242424 s)"

section \<open>The terminal window and the whole desktop\<close>

definition win_geometry :: "vga \<Rightarrow> u32 \<times> u32 \<times> u32 \<times> u32" where
  "win_geometry s =
    (let win_x = (if s_fb_w s \<ge> 1280 then 210 else 96); win_y = (if s_fb_h s \<ge> 900 then 540 else 360);
         win_w = (if s_fb_w s \<ge> 1280 then 760 else s_fb_w s - win_x - 24); win_h = (if s_fb_h s \<ge> 900 then 360 else 290)
     in (win_x, win_y, win_w, win_h))"

definition paint_terminal :: "Theme \<Rightarrow> vga \<Rightarrow> vga" where
  "paint_terminal theme s =
    (let (win_x, win_y, win_w, win_h) = win_geometry s;
         s = FillRect (win_x + 6) (win_y + 9) win_w win_h 0x0E2348 s;
         s = FillRect win_x win_y win_w win_h (th_WindowFrame theme) s;
         s = RectOutline win_x win_y win_w win_h 0xDADADA 0xDADADA s;
         s = DrawLunaTitle win_x win_y win_w 32 (Some ''MicroNT Terminal'') s;
         client_x = win_x + 8; client_y = win_y + 40;
         client_w = (if win_w > 16 then win_w - 16 else win_w); client_h = (if win_h > 80 then win_h - 80 else win_h);
         s = FillRect client_x client_y client_w client_h 0x0C0C0C s;
         s = RectOutline (client_x - 1) (client_y - 1) (client_w + 2) (client_h + 2) 0xDADADA 0xDADADA s;
         s = FillRect (win_x + 8) (win_y + win_h - 28) (win_w - 16) 20 (th_WindowFrame theme) s
     in ResetTextSurface client_x client_y client_w client_h s)"

definition shell_header :: "u8 list" where "shell_header = bytes_of ''*** MicroNT Shell - XP . 11 Fusion ***''"

definition paint_header :: "vga \<Rightarrow> vga" where
  "paint_header s =
    (let hlen = of_nat (length shell_header); hstart = (if s_cols s > hlen then (s_cols s - hlen) div 2 else 0);
         s = clear_row 0 \<lparr>c_ch = 0x20, c_attr = 0x1F\<rparr> s
     in RedrawAll (put_chars (\<lambda>i ch s. if hstart + of_nat i < s_cols s
          then set_cells 0 (unat (hstart + of_nat i)) \<lparr>c_ch = ch, c_attr = 0x1F\<rparr> s else s) 0 shell_header s))"

definition StartDesktop :: "masks \<Rightarrow> Theme \<Rightarrow> DesktopLayout \<Rightarrow> vga \<Rightarrow> vga option" where
  "StartDesktop masks theme layout s =
    (if \<not> s_fb s then Some s else
     let s = paint_wallpaper theme (s\<lparr>s_mouse_visible := False\<rparr>); h1 = wallpaper_hill s;
         tb = ComputeTaskbar (s_fb_w s) (s_fb_h s) (lay_WindowCount layout);
         wins = take (unat (lay_WindowCount layout)) (lay_Windows layout) in do {
      s \<leftarrow> paint_icons masks 0 (take (unat (lay_IconCount layout)) (lay_Icons layout)) s;
      s \<leftarrow> paint_windows (tb_Y tb) wins s;
      s \<leftarrow> paint_taskbar theme tb wins s;
      let s = (if lay_StartMenuOpen layout then paint_menu (tb_Y tb) s else s);
          (win_x, win_y, win_w, win_h) = win_geometry s;
          s = paint_header (paint_terminal theme s);
          s = DrawTextAbs (win_x + 12) (win_y + win_h - 23) ''Ready   MicroNT desktop session'' 0x000000 (th_WindowFrame theme) s
      in Some (MoveMouseCursor (if s_fb_w s > 240 then s_fb_w s - 220 else win_x + win_w - 82)
                 (if h1 > 140 then h1 - 120 else win_y + 74) s) })"

end
