(* ===== verification/PaintInside.thy ===== *)
theory PaintInside
  imports DesktopPaint
begin

text \<open>Painting the desktop stays on the screen and comes to an end.  Every primitive changes pixels of the
  screen only, under a condition on its sizes; the conditions are followed through the painting.\<close>

section \<open>Steps that stay on the screen\<close>

definition vis :: "vga \<Rightarrow> u64 \<Rightarrow> bool" where "vis s i \<longleftrightarrow> (\<exists>X Y. on_screen s X Y \<and> i = pix s X Y)"

lemma visI: "on_screen s X Y \<Longrightarrow> vis s (pix s X Y)" by (auto simp: vis_def)

text \<open>t comes from s by steps that keep the geometry and store to pixels of the screen only.\<close>
definition inside :: "vga \<Rightarrow> vga \<Rightarrow> bool" where
  "inside s t \<longleftrightarrow> s_fb t = s_fb s \<and> s_fb_w t = s_fb_w s \<and> s_fb_h t = s_fb_h s \<and> s_fb_stride t = s_fb_stride s
     \<and> (\<forall>i. \<not> vis s i \<longrightarrow> fbmem t i = fbmem s i)"

definition screen_ok :: "vga \<Rightarrow> bool" where
  "screen_ok s \<longleftrightarrow> fb_ok s \<and> 640 \<le> unat (s_fb_w s) \<and> unat (s_fb_w s) \<le> 32768 \<and> 480 \<le> unat (s_fb_h s) \<and> unat (s_fb_h s) \<le> 32768"

lemma inside_refl [simp, intro]: "inside s s" by (simp add: inside_def)

lemma insideD:
  assumes "inside s t"
  shows "s_fb t = s_fb s" "s_fb_w t = s_fb_w s" "s_fb_h t = s_fb_h s" "s_fb_stride t = s_fb_stride s"
    "pix t = pix s" "vis t = vis s" "fb_ok t = fb_ok s" "screen_ok t = screen_ok s"
  using assms by (auto simp: inside_def pix_def vis_def fb_ok_def screen_ok_def fun_eq_iff)

lemma inside_trans: "inside s t \<Longrightarrow> inside t u \<Longrightarrow> inside s u"
  using insideD(6) [of s t] by (auto simp: inside_def)

lemma inside_puts:
  assumes "\<And>p. p \<in> set ws \<Longrightarrow> vis s (fst p)"
  shows "inside s (puts ws s)"
  using assms by (auto simp: inside_def intro!: puts_other)

lemma inside_fold: "inside s t \<Longrightarrow> (\<And>x t. x \<in> set xs \<Longrightarrow> inside s t \<Longrightarrow> inside s (f x t)) \<Longrightarrow> inside s (fold f xs t)"
  by (induction xs arbitrary: t) auto

text \<open>A size that cannot carry a clipped rectangle over 2^32.\<close>
abbreviation fits :: "u32 \<Rightarrow> bool" where "fits n \<equiv> unat n \<le> 2 ^ 31"

lemma FillRect_inside:
  assumes "screen_ok s" "inside s t" "fits w" "fits h"
  shows "inside s (FillRect x y w h rgb t)"
proof -
  have ok: "screen_ok t" using assms by (simp add: insideD)
  have "inside t (FillRect x y w h rgb t)"
  proof (cases "x < s_fb_w t \<and> y < s_fb_h t")
    case True
    then have "no_wrap x w" "no_wrap y h" using ok assms(3,4) by (auto simp: screen_ok_def word_less_nat_alt)
    moreover have "fb_ok t" using ok by (simp add: screen_ok_def)
    ultimately obtain ws where "FillRect x y w h rgb t = puts ws t"
      "\<And>p. p \<in> set ws \<longleftrightarrow> (\<exists>X Y. p = (pix t X Y, topx t rgb) \<and> on_screen t X Y \<and> in_rect x y (unat w) (unat h) X Y)"
      using FillRect_writes [of t x w y h rgb] by blast
    then show ?thesis by (auto intro!: inside_puts visI)
  next
    case False
    then have "FillRect x y w h rgb t = t" by (auto simp: FillRect_def not_less)
    then show ?thesis by simp
  qed
  then show ?thesis by (rule inside_trans [OF assms(2)])
qed

lemma RectOutline_inside:
  assumes "screen_ok s" "inside s t" "fits w" "fits h"
  shows "inside s (RectOutline x y w h light dark t)"
  using assms by (auto simp: RectOutline_def intro!: FillRect_inside)

lemma Gradient_inside:
  assumes "screen_ok s" "inside s t" "fits w"
  shows "inside s (FillVerticalGradient x y w h a b t)"
  unfolding FillVerticalGradient_def by (rule inside_fold [OF assms(2)]) (auto intro!: FillRect_inside assms)

lemma Ellipse_inside:
  assumes "screen_ok s" "inside s t"
  shows "inside s (FillEllipse cx cy rx ry rgb t)"
proof -
  have ok: "screen_ok t" using assms by (simp add: insideD)
  have pos: "0 < unat (s_fb_w t)" "0 < unat (s_fb_h t)" using ok by (simp_all add: screen_ok_def)
  have below: "of_nat k < W" if "k \<in> set [a..<unat (if c < W then c else W - 1) + 1]" "0 < unat W" for k a and c W :: u32
  proof -
    have "unat (if c < W then c else W - 1) < unat W"
      using that(2) by (auto simp: word_less_nat_alt unat_sub word_le_nat_alt)
    then have "k < unat W" using that(1) by auto
    then show ?thesis using u32_lt [of W] by (simp add: word_less_nat_alt unat_of_nat take_bit_nat_eq_self)
  qed
  have "inside t (FillEllipse cx cy rx ry rgb t)"
  proof (cases "\<not> s_fb t \<or> rx = 0 \<or> ry = 0")
    case False
    show ?thesis
      unfolding FillEllipse_def Let_def if_not_P [OF False] by (intro inside_puts) (clarsimp simp only: mem_loop fst_conv, intro visI conjI below [OF _ pos(1)] below [OF _ pos(2)])
  qed (simp add: FillEllipse_def)
  then show ?thesis by (rule inside_trans [OF assms(2)])
qed

lemma takeWhile_mem: "x \<in> set (takeWhile P xs) \<Longrightarrow> P x" by (rule set_takeWhileD [THEN conjunct2])

lemma glyph_line:
  assumes "fb_ok s" "unat px \<le> 2 ^ 31" "c < 8" "px + of_nat c < s_fb_w s" "\<not> py + of_nat r \<ge> s_fb_h s"
  shows "vis s (line_at s (py + of_nat r) px + of_nat c)"
proof -
  have "unat px + c < 2 ^ 32" using assms(2,3) by simp
  moreover have o: "on_screen s (px + of_nat c) (py + of_nat r)" using assms(4,5) by simp
  ultimately show ?thesis
    using line_at_pix [OF assms(1) o] unfolding vis_def by (intro exI conjI) (auto simp: line_at_add o)
qed

lemma glyph_stores_vis:
  assumes "fb_ok s" "unat px \<le> 2 ^ 31" "p \<in> set (glyph_stores s px py ch fg bg)"
  shows "vis s (fst p)"
proof -
  obtain r c where rc: "r \<in> set (glyph_rows py s)" "c < 8" "px + of_nat c < s_fb_w s" "fst p = line_at s (py + of_nat r) px + of_nat c"
    using assms(3) by (auto simp: glyph_stores_def CHAR_W_def)
  then show ?thesis using glyph_line [OF assms(1,2) rc(2,3)] takeWhile_mem [OF rc(1) [unfolded glyph_rows_def]] by simp
qed

lemma inside_steps:
  assumes "inside s t" "inside t u"
  shows "inside s u"
  by (rule inside_trans [OF assms])

lemma draw_text_inside:
  assumes "inside s t" "unat x + 8 * (i + length cs) \<le> 2 ^ 31"
    "\<And>px ch u. inside s u \<Longrightarrow> unat px \<le> 2 ^ 31 \<Longrightarrow> inside s (g px ch u)"
  shows "inside s (draw_text g x i cs t)"
  using assms(1,2)
proof (induction cs arbitrary: i t)
  case (Cons c cs)
  have "unat (x + of_nat (i * 8)) = unat x + i * 8" using Cons.prems(2) by (intro u32_add) simp
  then have "inside s (g (x + of_nat i * of_nat CHAR_W) (chr8 c) t)"
    using Cons.prems by (intro assms(3)) (simp_all add: CHAR_W_def)
  then show ?case using Cons.IH Cons.prems(2) by simp
qed simp

lemma DrawGlyphAbs_inside:
  assumes "screen_ok s" "inside s t" "unat px \<le> 2 ^ 31"
  shows "inside s (DrawGlyphAbs px py ch fg bg t)"
proof -
  have "fb_ok t" using assms(1,2) by (simp add: insideD screen_ok_def)
  then have "inside t (puts (glyph_stores t px py ch fg bg) t)" using glyph_stores_vis assms(3) by (intro inside_puts) blast
  then show ?thesis using assms(2) by (simp add: DrawGlyphAbs_def inside_steps)
qed

lemma DrawTextAbs_inside:
  assumes "screen_ok s" "inside s t" "unat x + 8 * length cs \<le> 2 ^ 31"
  shows "inside s (DrawTextAbs x y cs fg bg t)"
  unfolding DrawTextAbs_def by (rule draw_text_inside) (use assms in \<open>auto intro: DrawGlyphAbs_inside\<close>)

lemma DrawGlyphTransparent_inside:
  assumes "screen_ok s" "inside s t" "unat px \<le> 2 ^ 31"
  shows "inside s (DrawGlyphTransparent px py ch fg t)"
proof (cases "s_fb t")
  case True
  have ok: "fb_ok t" using assms(1,2) by (simp add: insideD screen_ok_def)
  have "inside t (DrawGlyphTransparent px py ch fg t)"
    unfolding DrawGlyphTransparent_def Let_def using True
  proof (simp only: simp_thms if_False, intro inside_puts)
    fix p assume "p \<in> set [(line_at t (py + of_nat r) px + of_nat cc, topx t fg).
           r \<leftarrow> glyph_rows py t, cc \<leftarrow> [0..<CHAR_W], font_bit ch r cc \<and> px + of_nat cc < s_fb_w t]"
    then obtain r c where rc: "r \<in> set (glyph_rows py t)" "c < 8" "px + of_nat c < s_fb_w t"
      "p = (line_at t (py + of_nat r) px + of_nat c, topx t fg)" unfolding mem_loop CHAR_W_def by auto
    show "vis t (fst p)"
      unfolding rc(4) fst_conv by (rule glyph_line [OF ok assms(3) rc(2,3) takeWhile_mem [OF rc(1) [unfolded glyph_rows_def]]])
  qed
  then show ?thesis by (rule inside_trans [OF assms(2)])
qed (simp add: DrawGlyphTransparent_def assms)

lemma DrawTextTransparent_inside:
  assumes "screen_ok s" "inside s t" "unat x + 8 * length (text_of cs) \<le> 2 ^ 31"
  shows "inside s (DrawTextTransparent x y cs fg t)"
proof (cases cs)
  case (Some ds)
  then show ?thesis using assms unfolding DrawTextTransparent_def
    by (simp add: text_of_def) (rule draw_text_inside; auto intro: DrawGlyphTransparent_inside)
qed (simp add: DrawTextTransparent_def assms)

lemma Blit_inside:
  assumes "screen_ok s" "inside s t"
  shows "inside s (BlitGlyphAlpha x y a gw gh rgb t)"
proof (cases a)
  case (Some m)
  show ?thesis
  proof (cases "s_fb t")
    case True
    have "inside s (fold (\<lambda>j s. fold (\<lambda>i s.
         let al = m (j * gw + i); p = pix s (x + of_nat i) (y + of_nat j) in
         if x + of_nat i \<ge> s_fb_w s \<or> al = 0 then s
         else puts [(p, blend_pixel (s_fb_bgr s) al rgb (fbmem s p))] s) [0..<gw] s)
       (takeWhile (\<lambda>j. \<not> y + of_nat j \<ge> s_fb_h t) [0..<gh]) t)"
    proof (rule inside_fold [OF assms(2)], rule inside_fold, assumption, goal_cases)
      case (1 j u i v)
      have "on_screen v (x + of_nat i) (y + of_nat j)" if "\<not> x + of_nat i \<ge> s_fb_w v"
        using that takeWhile_mem [OF 1(1)] insideD(3) [OF assms(2)] insideD(3) [OF 1(4)] by (simp add: not_le)
      then show ?case using 1(4) by (auto simp: Let_def intro!: inside_trans [OF 1(4)] inside_puts visI)
    qed
    then show ?thesis using True Some by (simp add: BlitGlyphAlpha_def)
  qed (simp add: BlitGlyphAlpha_def Some assms)
qed (simp add: BlitGlyphAlpha_def assms)

section \<open>Rounded rectangles\<close>

lemma Isqrt_bound:
  assumes "unat v \<le> unat r * unat r" "unat r \<le> 32768"
  obtains q where "Isqrt v = Some q" "unat q \<le> unat r"
proof -
  have v: "unat v < 65535 * 65535" using assms mult_mono [of "unat r" 32768 "unat r" 32768] by simp
  obtain n where n: "n * n \<le> unat v" "unat v < (n + 1) * (n + 1)" using sqrt_exists by blast
  have nr: "n \<le> unat r"
  proof (rule ccontr)
    assume "\<not> n \<le> unat r"
    then have "(unat r + 1) * (unat r + 1) \<le> n * n" by (intro mult_le_mono) simp_all
    then show False using n(1) assms(1) by simp
  qed
  then have "n < 65535" using assms(2) by simp
  then have "Isqrt v = Some (of_nat n)" "unat (of_nat n :: u32) = n"
    using isqrt_loop_finds [OF n, of 0] by (simp_all add: Isqrt_def unat_of_nat take_bit_nat_def)
  then show thesis using nr by (intro that [of "of_nat n"]) simp_all
qed

lemma inset_bound:
  assumes "unat dy \<le> unat r" "unat r \<le> 32768"
  obtains q where "map_option (\<lambda>q. r - q) (Isqrt (r * r - dy * dy)) = Some q" "unat q \<le> unat r"
proof -
  have p: "unat r * unat r < 2 ^ 32" using assms(2) mult_mono [of "unat r" 32768 "unat r" 32768] by simp
  have d: "unat dy * unat dy \<le> unat r * unat r" using assms(1) by (intro mult_le_mono)
  have m: "unat (r * r) = unat r * unat r" "unat (dy * dy) = unat dy * unat dy" using p d by (simp_all add: unat_word_ariths)
  then have "unat (r * r - dy * dy) \<le> unat r * unat r" using d by (simp add: unat_sub word_le_nat_alt)
  then obtain q where q: "Isqrt (r * r - dy * dy) = Some q" "unat q \<le> unat r" using Isqrt_bound assms(2) by blast
  have "unat (r - q) \<le> unat r" using q(2) by (simp add: unat_sub word_le_nat_alt)
  then show thesis using q by (intro that [of "r - q"]) simp_all
qed

lemma round_inset_ok:
  assumes "2 * unat r \<le> unat h" "unat row < unat h" "unat r \<le> 32768"
  obtains q where "round_inset r h row = Some q" "unat q \<le> unat r"
proof -
  have rh: "r \<le> h" using assms(1) by (simp add: word_le_nat_alt)
  consider "row < r" | "\<not> row < r" "row \<ge> h - r" | "\<not> row < r" "\<not> row \<ge> h - r" by blast
  then show thesis
  proof cases
    case 1
    then have "unat (r - row) \<le> unat r" by (simp add: unat_sub word_le_nat_alt word_less_nat_alt)
    then obtain q where "map_option (\<lambda>q. r - q) (Isqrt (r * r - (r - row) * (r - row))) = Some q" "unat q \<le> unat r"
      using inset_bound assms(3) by blast
    then show thesis using 1 by (intro that [of q]) (simp_all add: round_inset_def Let_def)
  next
    case 2
    have hr: "unat (h - r) = unat h - unat r" using rh by (rule unat_sub)
    have "unat (row - (h - r)) = unat row - (unat h - unat r)" using 2(2) by (simp add: unat_sub hr)
    then have "unat (row - (h - r) + 1) \<le> unat r"
      using u32_add [of "row - (h - r)" 1] assms rh 2(2) by (simp add: hr word_le_nat_alt)
    then obtain q where "map_option (\<lambda>q. r - q) (Isqrt (r * r - (row - (h - r) + 1) * (row - (h - r) + 1))) = Some q" "unat q \<le> unat r"
      using inset_bound assms(3) by blast
    then show thesis using 2 by (intro that [of q]) (simp_all add: round_inset_def Let_def)
  next
    case 3
    then show thesis by (intro that [of 0]) (simp_all add: round_inset_def)
  qed
qed

lemma round_rows_inside:
  assumes "screen_ok s" "inside s t" "fits w" "2 * unat r \<le> unat w" "2 * unat r \<le> unat h" "unat r \<le> 32768"
    "\<And>row. row \<in> set rows \<Longrightarrow> row < unat h"
  shows "\<exists>u. round_rows x y w h r rgb rows t = Some u \<and> inside s u"
  using assms(2,7)
proof (induction rows arbitrary: t)
  case (Cons row rows)
  have "unat (of_nat row :: u32) = row" using Cons.prems(2) [of row] u32_lt [of h] by (simp add: unat_of_nat take_bit_nat_eq_self)
  then obtain q where q: "round_inset r h (of_nat row) = Some q" "unat q \<le> unat r"
    using round_inset_ok [OF assms(5) _ assms(6), of "of_nat row"] Cons.prems(2) [of row] by auto
  have "unat (2 * q) = 2 * unat q" using q(2) assms(6) by (simp add: unat_word_ariths)
  then have "unat (w - 2 * q) = unat w - 2 * unat q" using q(2) assms(4) by (simp add: unat_sub word_le_nat_alt)
  then have "fits (w - 2 * q)" using assms(3) by simp
  then have "inside s (FillRect (x + q) (y + of_nat row) (w - 2 * q) 1 rgb t)"
    by (intro FillRect_inside assms(1) Cons.prems) simp_all
  then show ?case using Cons.IH Cons.prems(2) by (simp add: q(1))
qed simp

lemma RoundRect_inside:
  assumes "screen_ok s" "inside s t" "unat w \<le> 32768" "unat h \<le> 32768" "unat r \<le> 32768"
  shows "\<exists>u. FillRoundRect x y w h r rgb t = Some u \<and> inside s u"
proof (cases "w = 0 \<or> h = 0")
  case False
  define r1 where "r1 = (if r * 2 > w then w div 2 else r)"
  define r2 where "r2 = (if r1 * 2 > h then h div 2 else r1)"
  have d: "unat (r * 2) = unat r * 2" using assms(5) by (simp add: unat_word_ariths)
  have r1: "2 * unat r1 \<le> unat w" "unat r1 \<le> 32768"
    using assms(3,5) by (auto simp: r1_def d word_less_nat_alt unat_div_distrib)
  have d1: "unat (r1 * 2) = unat r1 * 2" using r1(2) by (simp add: unat_word_ariths)
  have r2: "2 * unat r2 \<le> unat h" "unat r2 \<le> 32768" "2 * unat r2 \<le> unat w"
    using assms(4) r1 by (auto simp: r2_def d1 word_less_nat_alt unat_div_distrib)
  show ?thesis
    unfolding FillRoundRect_def if_not_P [OF False] Let_def r1_def [symmetric] r2_def [symmetric]
    by (rule round_rows_inside) (use assms r2 in auto)
qed (use assms in \<open>auto simp: FillRoundRect_def\<close>)

section \<open>Windows\<close>

lemma unat_add_le: "unat (a + b :: u32) \<le> unat a + unat b"
  by (simp add: unat_word_ariths)

lemma WinControls_inside:
  assumes "screen_ok s" "inside s t" "unat x \<le> 65536" "230 \<le> unat w" "unat w \<le> 65536"
  shows "inside s (DrawWinControls x y w th ink t)"
proof -
  have "unat (x + w) = unat x + unat w" using assms(3,5) by (simp add: unat_word_ariths)
  then have "unat (x + w - 27) \<le> 131072" using assms(3-5) by (simp add: unat_sub word_le_nat_alt)
  then show ?thesis
    unfolding DrawWinControls_def Let_def
    by (intro DrawTextTransparent_inside RectOutline_inside FillRect_inside assms(1,2)) (simp_all add: text_of_def)
qed

lemma LunaTitle_inside:
  assumes "screen_ok s" "inside s t" "unat x \<le> 65536" "230 \<le> unat w" "unat w \<le> 65536" "length (text_of title) \<le> 65536"
  shows "inside s (DrawLunaTitle x y w 32 title t)"
proof -
  have "unat (w - 2) = unat w - 2" using assms(4) by (simp add: unat_sub word_le_nat_alt)
  moreover have "unat (x + 14) \<le> 65550" using unat_add_le [of x 14] assms(3) by simp
  ultimately show ?thesis using assms
    unfolding DrawLunaTitle_def Let_def
    by (intro FillRect_inside WinControls_inside DrawTextTransparent_inside Gradient_inside) simp_all
qed

lemma bind_inside:
  assumes "\<exists>t. m = Some t \<and> inside s t" "\<And>t. inside s t \<Longrightarrow> \<exists>u. f t = Some u \<and> inside s u"
  shows "\<exists>u. Option.bind m f = Some u \<and> inside s u"
  using assms by auto

lemma some_inside: "inside s t \<Longrightarrow> \<exists>u. Some t = Some u \<and> inside s u" by simp

lemma DrawTextAbs_ptr_inside:
  assumes "screen_ok s" "inside s t" "txt \<noteq> None" "unat x + 8 * length (text_of txt) \<le> 2 ^ 31"
  shows "\<exists>u. DrawTextAbs_ptr x y txt fg bg t = Some u \<and> inside s u"
  using assms DrawTextAbs_inside [OF assms(1,2), of x "text_of txt"] by (auto simp: DrawTextAbs_ptr_def text_of_def)

lemma panel_toolbar_inside:
  assumes "screen_ok s" "inside s t" "unat x \<le> 65536" "230 \<le> unat w" "unat w \<le> 65536" "length (text_of title) \<le> 65536" "title \<noteq> None"
  shows "\<exists>u. panel_toolbar x cy w title t = Some u \<and> inside s u"
proof -
  have w: "unat (w - 2) = unat w - 2" "unat (w - 230) = unat w - 230" using assms(4) by (simp_all add: unat_sub word_le_nat_alt)
  have "unat (x + w) = unat x + unat w" using assms(3,5) by (simp add: unat_word_ariths)
  then have "unat (x + w - 138) \<le> 131072" using assms(3-5) by (simp add: unat_sub word_le_nat_alt)
  moreover have "unat (x + 14) \<le> 65550" "unat (x + 82) \<le> 65650" using unat_add_le [of x 14] unat_add_le [of x 82] assms(3) by simp_all
  ultimately show ?thesis using assms w
    unfolding panel_toolbar_def Let_def
    by (intro bind_inside some_inside FillRect_inside RectOutline_inside DrawTextAbs_ptr_inside DrawTextAbs_inside) simp_all
qed

lemma panel_drive_inside:
  assumes "screen_ok s" "inside s t" "unat px \<le> 70000" "i < 4"
  shows "inside s (panel_drive px cy i t)"
proof -
  have i: "unat (of_nat (i mod 2) * 200 :: u32) \<le> 200" "unat (70 + of_nat i * 10 :: u32) \<le> 100"
  proof -
    have "i = 0 \<or> i = 1 \<or> i = 2 \<or> i = 3" using assms(4) by linarith
    then show "unat (of_nat (i mod 2) * 200 :: u32) \<le> 200" "unat (70 + of_nat i * 10 :: u32) \<le> 100" by auto
  qed
  define ix where "ix = px + of_nat (i mod 2) * 200"
  have "unat ix \<le> 70200" using unat_add_le [of px "of_nat (i mod 2) * 200"] i(1) assms(3) by (simp add: ix_def)
  then have x: "unat (ix + 54) \<le> 70254" using unat_add_le [of ix 54] by simp
  show ?thesis
    unfolding panel_drive_def Let_def ix_def [symmetric]
    by (intro FillRect_inside RectOutline_inside DrawTextAbs_inside assms(1,2)) (use x i(2) in simp_all)
qed

lemma PanelWindow_inside:
  assumes "screen_ok s" "inside s t" "unat x \<le> 65536" "230 \<le> unat w" "unat w \<le> 65536" "104 \<le> unat h" "unat h \<le> 65536"
    "length (text_of title) \<le> 65536" "length (text_of status) \<le> 65536" "status \<noteq> None" "toolbar \<longrightarrow> title \<noteq> None"
  shows "\<exists>u. DrawPanelWindow x y w h title toolbar status t = Some u \<and> inside s u"
proof -
  have w: "unat (w - 2) = unat w - 2" using assms(4) by (simp add: unat_sub word_le_nat_alt)
  have c: "y + 32 + 1 - y = 33" "y + 32 + 1 + 37 - y = 70" by simp_all
  have n: "unat (h - 33 - 34) \<le> 65536" "unat (h - 70 - 34) \<le> 65536"
    using assms(6,7) by (simp_all add: unat_sub word_le_nat_alt)
  have x: "unat (x + 20) \<le> 65556" "unat (x + 12) \<le> 65548" "unat (x + 200) \<le> 65736"
    using unat_add_le [of x 20] unat_add_le [of x 12] unat_add_le [of x 200] assms(3) by simp_all
  have T: "\<exists>v. (if toolbar then panel_toolbar x (y + 32 + 1) w title u else Some u) = Some v \<and> inside s v" if "inside s u" for u
    using panel_toolbar_inside [OF assms(1) that assms(3,4,5,8)] that assms(11) by simp
  have N: "unat (h - ((if toolbar then y + 32 + 1 + 37 else y + 32 + 1) - y) - 34) \<le> 65536" using n by (simp add: c)
  have F: "inside s (fold (panel_drive (x + 200) cy) [0..<4] u)" if "inside s u" for cy u
    by (rule inside_fold [OF that]) (use x(3) assms(1) in \<open>auto intro!: panel_drive_inside\<close>)
  show ?thesis
    unfolding DrawPanelWindow_def Let_def
    by (intro bind_inside DrawTextAbs_ptr_inside T DrawTextAbs_inside FillRect_inside F LunaTitle_inside RectOutline_inside assms(1-5,8,10))
      (use x w N assms in simp_all)
qed

section \<open>Icons, taskbar and flyout\<close>

lemma ShellIcon_inside:
  assumes "screen_ok s" "inside s t" "length (text_of label) \<le> 65536"
  shows "\<exists>u. DrawShellIcon masks 18 y kind label t = Some u \<and> inside s u"
proof -
  define tw :: u32 where "tw = of_nat (length (text_of label)) * of_nat CHAR_W"
  define lx where "lx = (if tw < 96 then 18 + (96 - tw) div 2 else 18)"
  have "unat ((96 - tw) div 2) \<le> 48" if "tw < 96"
    using that by (simp add: unat_div_distrib unat_sub word_less_nat_alt word_le_nat_alt)
  then have l: "unat lx \<le> 66" using unat_add_le [of 18 "(96 - tw) div 2"] by (auto simp: lx_def)
  then have l1: "unat (lx + 1) \<le> 67" using unat_add_le [of lx 1] by simp
  show ?thesis
    unfolding DrawShellIcon_def Let_def tw_def [symmetric] lx_def [symmetric]
    by (intro bind_inside some_inside RoundRect_inside DrawTextTransparent_inside Blit_inside assms(1,2))
      (use l l1 assms(3) in simp_all)
qed

lemma paint_icons_inside:
  assumes "screen_ok s" "inside s t" "\<And>icon. icon \<in> set icons \<Longrightarrow> length (text_of (ic_Label icon)) \<le> 65536"
  shows "\<exists>u. paint_icons masks i icons t = Some u \<and> inside s u"
  using assms(2,3)
proof (induction icons arbitrary: i t)
  case (Cons icon icons)
  then show ?case
    by (simp only: paint_icons.simps, intro bind_inside ShellIcon_inside assms(1)) simp_all
qed simp

lemma WinLogo_inside: "screen_ok s \<Longrightarrow> inside s t \<Longrightarrow> inside s (DrawWinLogo x y 8 3 color t)"
  unfolding DrawWinLogo_def by (intro FillRect_inside) simp_all

lemma AppTile_inside:
  "screen_ok s \<Longrightarrow> inside s t \<Longrightarrow> unat x \<le> 131072 \<Longrightarrow> inside s (DrawAppTile x y 48 badge letter bg t)"
  using unat_add_le [of 20 x] unfolding DrawAppTile_def Let_def by (intro FillRect_inside DrawTextAbs_inside) simp_all

text \<open>The taskbar of a screen of that size.\<close>
lemma taskbar_facts:
  assumes "screen_ok s"
  defines "tb \<equiv> \<lambda>n. ComputeTaskbar (s_fb_w s) (s_fb_h s) n"
  shows "tb_Height (tb n) = 48 \<or> tb_Height (tb n) = 40" "tb_StartW (tb n) = 44" "tb_ButtonW (tb n) = 44" "tb_ButtonGap (tb n) = 6"
    "tb_TrayW (tb n) = 200" "tb_TrayX (tb n) = s_fb_w s - 200" "unat (tb_FirstButtonX (tb n)) \<le> 40000"
    "unat (s_fb_w s - 200) = unat (s_fb_w s) - 200" "s_fb_w s - 200 + 200 - 84 = s_fb_w s - 84" "unat (s_fb_w s - 84) \<le> 32768"
proof -
  have w: "s_fb_w s \<noteq> 0" "640 \<le> unat (s_fb_w s)" "unat (s_fb_w s) \<le> 32768" "s_fb_w s \<ge> 640" "s_fb_w s > 200"
    using assms(1) by (auto simp: screen_ok_def word_le_nat_alt word_less_nat_alt)
  show "tb_Height (tb n) = 48 \<or> tb_Height (tb n) = 40" "tb_StartW (tb n) = 44" "tb_ButtonW (tb n) = 44" "tb_ButtonGap (tb n) = 6"
    "tb_TrayW (tb n) = 200" "tb_TrayX (tb n) = s_fb_w s - 200"
    using w by (simp_all add: tb_def ComputeTaskbar_def Let_def)
  have "unat ((s_fb_w s - k) div 2) \<le> 32768" if "s_fb_w s > k" for k
    using that w by (simp add: unat_div_distrib unat_sub word_less_nat_alt word_le_nat_alt)
  moreover define cx where "cx = (if s_fb_w s > (n + 1) * 44 + (n + 1 - 1) * 6 then (s_fb_w s - ((n + 1) * 44 + (n + 1 - 1) * 6)) div 2 else 0)"
  ultimately have "unat cx \<le> 32768" by auto
  moreover have "tb_FirstButtonX (tb n) = cx + 50" using w(1) by (simp add: tb_def ComputeTaskbar_def Let_def cx_def)
  ultimately show "unat (tb_FirstButtonX (tb n)) \<le> 40000" using unat_add_le [of cx 50] by simp
  show "unat (s_fb_w s - 200) = unat (s_fb_w s) - 200" using w by (simp add: unat_sub word_le_nat_alt)
  show "s_fb_w s - 200 + 200 - 84 = s_fb_w s - 84" by simp
  show "unat (s_fb_w s - 84) \<le> 32768" using w by (simp add: unat_sub word_le_nat_alt)
qed

lemma paint_start_button_inside:
  assumes "screen_ok s" "inside s t" "tb_Height tb = 48 \<or> tb_Height tb = 40" "tb_StartW tb = 44"
  shows "\<exists>u. paint_start_button theme tb t = Some u \<and> inside s u"
  unfolding paint_start_button_def Let_def
  by (intro bind_inside some_inside RoundRect_inside WinLogo_inside assms(1,2)) (use assms(3,4) in auto)

lemma paint_button_inside:
  assumes "screen_ok s" "inside s t" "tb_Height tb = 48 \<or> tb_Height tb = 40" "tb_ButtonW tb = 44" "tb_ButtonGap tb = 6"
    "unat (tb_FirstButtonX tb) \<le> 40000" "i < 8"
  shows "\<exists>u. paint_button theme tb i win t = Some u \<and> inside s u"
proof -
  have i: "unat (of_nat i * 50 :: u32) \<le> 400"
    using assms(7) by (simp add: unat_word_ariths unat_of_nat take_bit_nat_def)
  define bx where "bx = tb_FirstButtonX tb + of_nat i * 50"
  have bx: "unat bx \<le> 40400" using unat_add_le [of "tb_FirstButtonX tb" "of_nat i * 50"] i assms(6) by (simp add: bx_def)
  then have x: "unat (18 + bx) \<le> 41000" using unat_add_le [of 18 bx] by simp
  have l: "length (text_of (Some (badge_letter (win_Title win)))) \<le> 1"
    by (simp add: text_of_def badge_letter_def split: option.splits)
  have first: "\<exists>u. (if i = 0 then FillRoundRect (bx + 2) (tb_Y tb + 4) (44 - 4) (tb_Height tb - 8) 6 c t else Some t) = Some u \<and> inside s u" for c
  proof (cases "i = 0")
    case True
    have "\<exists>u. FillRoundRect (bx + 2) (tb_Y tb + 4) (44 - 4) (tb_Height tb - 8) 6 c t = Some u \<and> inside s u"
      by (rule RoundRect_inside [OF assms(1,2)]) (use assms(3) in auto)
    then show ?thesis using True by simp
  qed (simp add: assms)
  have tile: "(44 - (if tb_Height tb \<ge> 44 then 36 else 28)) div 2 + (if tb_Height tb \<ge> 44 then 36 else 28) div 2 - 4 = (18 :: u32)"
    by simp
  have last: "inside s (if i = 0 then FillRect a b 18 3 c v else v)" if "inside s v" for a b c v
    using that FillRect_inside [OF assms(1) that] by simp
  have tx: "unat (bx + (44 - (if tb_Height tb \<ge> 44 then 36 else 28)) div 2 + (if tb_Height tb \<ge> 44 then 36 else 28) div 2 - 4) \<le> 41000"
    using x assms(3) by auto
  have slot: "tb_ButtonW tb + tb_ButtonGap tb = 50" using assms(4,5) by simp
  show ?thesis
    unfolding paint_button_def Let_def unfolding slot unfolding bx_def [symmetric] assms(4)
    by (intro bind_inside first some_inside last RoundRect_inside DrawTextTransparent_inside assms(1))
      (use tx l in auto)
qed

lemma paint_buttons_inside:
  assumes "screen_ok s" "tb_Height tb = 48 \<or> tb_Height tb = 40" "tb_ButtonW tb = 44" "tb_ButtonGap tb = 6"
    "unat (tb_FirstButtonX tb) \<le> 40000" "inside s t" "i + length wins \<le> 8"
  shows "\<exists>u. paint_buttons theme tb i wins t = Some u \<and> inside s u"
  using assms(6,7)
proof (induction wins arbitrary: i t)
  case (Cons win wins)
  then show ?case
    by (simp only: paint_buttons.simps, intro bind_inside paint_button_inside assms(1-5)) simp_all
qed simp

lemma paint_taskbar_inside:
  assumes "screen_ok s" "inside s t" "length wins \<le> 8"
  shows "\<exists>u. paint_taskbar theme (ComputeTaskbar (s_fb_w s) (s_fb_h s) n) wins t = Some u \<and> inside s u"
proof -
  note tb = taskbar_facts(1-7) [where n = n, OF assms(1)] taskbar_facts(8-10) [OF assms(1)]
  have w: "s_fb_w t = s_fb_w s" by (rule insideD(2) [OF assms(2)])
  have W: "unat (s_fb_w s) \<le> 32768" using assms(1) by (simp add: screen_ok_def)
  have t24: "unat (s_fb_w s - 200 + 24) \<le> 40000" using unat_add_le [of "s_fb_w s - 200" 24] tb(8) W by simp
  show ?thesis
    unfolding paint_taskbar_def Let_def w tb(5,6) unfolding tb(9)
    by (intro bind_inside some_inside paint_start_button_inside paint_buttons_inside DrawTextAbs_inside FillRect_inside
        Gradient_inside assms(1,2) tb(1-4,7)) (use W t24 tb(10) assms(3) in simp_all)
qed

lemma paint_wallpaper_inside:
  assumes "screen_ok s" "inside s t"
  shows "inside s (paint_wallpaper theme t)"
proof -
  have "unat (s_fb_w t) \<le> 32768" using assms(1) by (simp add: insideD(2) [OF assms(2)] screen_ok_def)
  then show ?thesis
    unfolding paint_wallpaper_def Let_def
    by (intro FillRect_inside Ellipse_inside Gradient_inside assms) simp_all
qed

lemma paint_tile_inside:
  assumes "screen_ok s" "inside s t" "unat mx \<le> 65536" "i < 8"
  shows "inside s (paint_tile mx my i t)"
proof -
  have i: "unat (of_nat (i mod 4) * 140 :: u32) \<le> 420"
    by (rule order.trans [of _ "i mod 4 * 140"]) (simp_all add: unat_word_ariths unat_of_nat take_bit_nat_def mod_mult_left_eq)
  define gx where "gx = mx + 40 + of_nat (i mod 4) * 140"
  have gx: "unat gx \<le> 66000"
    using unat_add_le [of "mx + 40" "of_nat (i mod 4) * 140"] unat_add_le [of mx 40] i assms(3) by (simp add: gx_def)
  have p: "length (pinned ! i) \<le> 8"
  proof -
    have "pinned ! i \<in> set pinned" using assms(4) by (intro nth_mem) (simp add: pinned_def)
    then show ?thesis by (auto simp: pinned_def)
  qed
  have x: "unat (gx + 38) \<le> 131072" "unat (gx + 30) \<le> 131072" using unat_add_le [of gx 38] unat_add_le [of gx 30] gx by simp_all
  show ?thesis
    unfolding paint_tile_def Let_def gx_def [symmetric]
    by (intro DrawTextAbs_inside AppTile_inside assms(1,2)) (use x p in simp_all)
qed

lemma paint_menu_inside:
  assumes "screen_ok s" "inside s t"
  shows "inside s (paint_menu task_y t)"
proof -
  define mx where "mx = (if s_fb_w t > 640 then (s_fb_w t - 640) div 2 else 0)"
  have W: "unat (s_fb_w t) \<le> 32768" using assms(1) by (simp add: insideD(2) [OF assms(2)] screen_ok_def)
  have m: "unat mx \<le> 32768"
    using W by (auto simp: mx_def unat_div_distrib unat_sub word_less_nat_alt word_le_nat_alt)
  have x: "unat (mx + 56) \<le> 65536" "unat (mx + 40) \<le> 65536" "unat (mx + 84) \<le> 65536" "unat (mx + 640 - 60) \<le> 65536"
    using unat_add_le [of mx 56] unat_add_le [of mx 40] unat_add_le [of mx 84] unat_add_le [of 580 mx] m by simp_all
  have F: "inside s (fold (paint_tile mx my) [0..<8] u)" if "inside s u" for my u
    by (rule inside_fold [OF that]) (use m in \<open>auto intro!: paint_tile_inside assms(1)\<close>)
  show ?thesis
    unfolding paint_menu_def Let_def mx_def [symmetric]
    by (intro DrawTextAbs_inside Ellipse_inside FillRect_inside RectOutline_inside F assms) (use x in simp_all)
qed

lemma paint_window_inside:
  assumes "screen_ok s" "inside s t" "unat (win_X win) \<le> 65536" "230 \<le> unat (win_Width win)" "unat (win_Width win) \<le> 65536"
    "104 \<le> unat (win_Height win)" "unat (win_Height win) \<le> 65536" "length (text_of (win_Title win)) \<le> 65536"
    "length (text_of (win_Status win)) \<le> 65536" "win_Status win \<noteq> None" "win_Toolbar win \<longrightarrow> win_Title win \<noteq> None"
  shows "\<exists>u. paint_window ty win t = Some u \<and> inside s u"
proof -
  have W: "unat (s_fb_w t) \<le> 32768" using assms(1) by (simp add: insideD(2) [OF assms(2)] screen_ok_def)
  have x: "unat (fst (drawn_pos (s_fb_w t) ty win)) \<le> 65536"
  proof -
    have "unat (s_fb_w t - win_Width win - 18) \<le> 65536" if "s_fb_w t > win_Width win + 18"
    proof -
      have a: "unat (win_Width win + 18) = unat (win_Width win) + 18" using u32_add [of "win_Width win" 18] assms(5) by simp
      have "unat (s_fb_w t - (win_Width win + 18)) \<le> unat (s_fb_w t)" using that by (simp add: unat_sub order_less_imp_le)
      then show ?thesis using W by (simp add: diff_diff_eq)
    qed
    then show ?thesis using assms(3) by (simp add: drawn_pos_def Let_def)
  qed
  show ?thesis
    unfolding paint_window_def case_prod_beta Let_def
    by (rule PanelWindow_inside [OF assms(1,2) x assms(4-11)])
qed

section \<open>The terminal\<close>

lemma win_geometry_facts:
  assumes "screen_ok s"
  obtains x y w h where "win_geometry s = (x, y, w, h)" "unat x \<le> 210" "230 \<le> unat w" "unat w \<le> 32768"
    "unat h \<le> 360" "w > 16" "h > 80" "unat y \<le> 540"
proof -
  have W: "640 \<le> unat (s_fb_w s)" "unat (s_fb_w s) \<le> 32768" using assms by (simp_all add: screen_ok_def)
  have s: "unat (s_fb_w s - 96 - 24) = unat (s_fb_w s) - 120"
    using W by (simp add: unat_sub word_le_nat_alt)
  show thesis
    by (rule that [of "fst (win_geometry s)" "fst (snd (win_geometry s))" "fst (snd (snd (win_geometry s)))" "snd (snd (snd (win_geometry s)))"])
      (use W s in \<open>auto simp: win_geometry_def Let_def word_less_nat_alt\<close>)
qed

lemma inside_cells: "inside s t \<Longrightarrow> inside s (clear_cells k t)" "inside s t \<Longrightarrow> inside s (clear_row r c t)"
  "inside s t \<Longrightarrow> inside s (set_cells r' c' cell t)"
proof -
  have 1: "inside s (set_cells r c cell t)" if "inside s t" for r c cell t using that by (simp add: set_cells_def inside_def)
  then show "inside s (set_cells r' c' cell t)" if "inside s t" using that by blast
  have 2: "inside s (clear_row r c t)" if "inside s t" for r c t
    unfolding clear_row_def by (rule inside_fold [OF that]) (rule 1)
  then show "inside s (clear_row r c t)" if "inside s t" using that by blast
  show "inside s (clear_cells k t)" if "inside s t" unfolding clear_cells_def by (rule inside_fold [OF that]) (rule 2)
qed

definition tinside :: "vga \<Rightarrow> vga \<Rightarrow> bool" where
  "tinside s t \<longleftrightarrow> inside s t \<and> unat (s_origin_x t) \<le> 65536 \<and> unat (s_cols t) \<le> 256"

lemma DrawChar_tinside:
  assumes "screen_ok s" "tinside s t"
  shows "tinside s (DrawChar cx cy ch fg bg t)"
proof (cases "\<not> s_fb t \<or> cx \<ge> s_cols t \<or> cy \<ge> s_rows t")
  case False
  have t: "inside s t" "unat (s_origin_x t) \<le> 65536" "unat (s_cols t) \<le> 256" using assms(2) by (simp_all add: tinside_def)
  have "fb_ok t" using assms(1) t(1) by (simp add: insideD screen_ok_def)
  moreover have "unat (s_origin_x t + cx * of_nat CHAR_W) \<le> 2 ^ 31"
  proof -
    have "unat cx < 256" using False t(3) by (simp add: not_le word_less_nat_alt)
    then have "unat (cx * of_nat CHAR_W) \<le> 2048" by (simp add: CHAR_W_def unat_word_ariths)
    then show ?thesis using unat_add_le [of "s_origin_x t" "cx * of_nat CHAR_W"] t(2) by simp
  qed
  ultimately have "inside t (puts (glyph_stores t (s_origin_x t + cx * of_nat CHAR_W) (s_origin_y t + cy * of_nat CHAR_H) ch fg bg) t)"
    using glyph_stores_vis by (intro inside_puts) blast
  then show ?thesis using t False by (simp add: DrawChar_def tinside_def inside_steps)
qed (use assms in \<open>simp add: DrawChar_def\<close>)

lemma tinside_fold: "tinside s t \<Longrightarrow> (\<And>x t. tinside s t \<Longrightarrow> tinside s (f x t)) \<Longrightarrow> tinside s (fold f xs t)"
  by (induction xs arbitrary: t) auto

lemma RedrawAll_tinside:
  assumes "screen_ok s" "tinside s t"
  shows "tinside s (RedrawAll t)"
  unfolding RedrawAll_def RedrawRow_def draw_cell_def Let_def
  by (intro tinside_fold DrawChar_tinside assms)

lemma tinside_cells:
  "tinside s t \<Longrightarrow> tinside s (set_cells r c cell t)" "tinside s t \<Longrightarrow> tinside s (clear_row r cell t)"
  "tinside s t \<Longrightarrow> tinside s (clear_cells k t)"
proof -
  have 1: "tinside s (set_cells r c cell t)" if "tinside s t" for r c cell t
    using that by (simp add: set_cells_def inside_def tinside_def)
  have 2: "tinside s (clear_row r cell t)" if "tinside s t" for r cell t
    unfolding clear_row_def by (rule tinside_fold [OF that]) (rule 1)
  have 3: "tinside s (clear_cells k t)" if "tinside s t" for t
    unfolding clear_cells_def by (rule tinside_fold [OF that]) (rule 2)
  show "tinside s t \<Longrightarrow> tinside s (set_cells r c cell t)" "tinside s t \<Longrightarrow> tinside s (clear_row r cell t)"
    "tinside s t \<Longrightarrow> tinside s (clear_cells k t)" by (fact 1 2 3)+
qed

lemma put_chars_tinside:
  "tinside s t \<Longrightarrow> (\<And>i ch t. tinside s t \<Longrightarrow> tinside s (f i ch t)) \<Longrightarrow> tinside s (put_chars f i cs t)"
  by (induction cs arbitrary: i t) auto

lemma paint_header_tinside:
  assumes "screen_ok s" "tinside s t"
  shows "tinside s (paint_header t)"
  unfolding paint_header_def Let_def
  by (intro RedrawAll_tinside put_chars_tinside tinside_cells assms) (simp add: tinside_cells)

lemma clip_cols_le: "unat (clip_cols w) \<le> 256"
  by (auto simp: clip_cols_def Let_def word_less_nat_alt)

lemma ResetTextSurface_tinside:
  assumes "inside s t" "unat x \<le> 65536"
  shows "tinside s (ResetTextSurface x y w h t)"
proof -
  let ?t = "t\<lparr>s_origin_x := x, s_origin_y := y, s_cols := if clip_cols w < 20 then 20 else clip_cols w, s_rows := if clip_rows h < 8 then 8 else clip_rows h\<rparr>"
  have "tinside s ?t" using assms clip_cols_le [of w] by (simp add: tinside_def inside_def)
  then have "tinside s (clear_cells 0 ?t)" by (rule tinside_cells)
  then show ?thesis by (simp add: ResetTextSurface_def Let_def tinside_def inside_def)
qed

lemma paint_terminal_tinside:
  assumes "screen_ok s" "inside s t"
  shows "tinside s (paint_terminal theme t)"
proof -
  have "screen_ok t" using assms by (simp add: insideD)
  then obtain x y w h where g: "win_geometry t = (x, y, w, h)" "unat x \<le> 210" "230 \<le> unat w" "unat w \<le> 32768"
    "unat h \<le> 360" "w > 16" "h > 80" "unat y \<le> 540" by (rule win_geometry_facts)
  have c: "unat (w - 16) \<le> 32768" "unat (h - 80) \<le> 360" "unat (x + 8) \<le> 65536"
    using g(2-7) unat_add_le [of x 8] by (simp_all add: unat_sub word_less_nat_alt word_le_nat_alt)
  have d: "unat (w - 16 + 2) \<le> 65536" "unat (h - 80 + 2) \<le> 65536"
    using c unat_add_le [of "w - 16" 2] unat_add_le [of "h - 80" 2] by simp_all
  show ?thesis
    unfolding paint_terminal_def Let_def g(1) prod.case if_P [OF g(6)] if_P [OF g(7)]
    by (intro ResetTextSurface_tinside FillRect_inside RectOutline_inside LunaTitle_inside assms)
      (use g c d in \<open>simp_all add: text_of_def\<close>)
qed

section \<open>The mouse pointer\<close>

lemma Restore_inside:
  assumes "fb_ok s"
  shows "inside s (RestoreMouseCursor s)"
proof -
  let ?ws = "[(pix s (s_mouse_x s + of_nat x) (s_mouse_y s + of_nat y), s_mouse_backing s (y * 24 + x)).
            y \<leftarrow> takeWhile (\<lambda>y. \<not> s_mouse_y s + of_nat y \<ge> s_fb_h s) [0..<32],
            x \<leftarrow> takeWhile (\<lambda>x. \<not> s_mouse_x s + of_nat x \<ge> s_fb_w s) [0..<24]]"
  have "inside s (puts ?ws s)"
    by (intro inside_puts) (auto intro!: visI dest!: takeWhile_mem simp: not_le)
  then show ?thesis by (simp add: RestoreMouseCursor_def inside_def)
qed

lemma MoveMouseCursor_inside:
  assumes "screen_ok s" "inside s t"
  shows "inside s (MoveMouseCursor x y t)"
proof -
  have ok: "fb_ok t" using assms by (simp add: insideD screen_ok_def)
  note f = MoveMouseCursor_form [where x = x and y = y, OF ok]
  have "inside t (MoveMouseCursor x y t)"
    unfolding inside_def
  proof (intro conjI allI impI)
    fix i assume i: "\<not> vis t i"
    have "\<not> box t (cursor_x t x) (cursor_y t y) 24 32 i" using i by (auto simp: box_def vis_def)
    then have "fbmem (MoveMouseCursor x y t) i = fbmem (RestoreMouseCursor t) i" by (rule f(9))
    then show "fbmem (MoveMouseCursor x y t) i = fbmem t i" using Restore_inside [OF ok] i by (simp add: inside_def)
  qed (use ok f(4-7) in \<open>simp_all add: fb_ok_def\<close>)
  then show ?thesis by (rule inside_trans [OF assms(2)])
qed

section \<open>The desktop\<close>

text \<open>Windows of a size that the panel fits in, with texts of ordinary lengths; the texts that the code reads without a test - the
  status, and the title in the address bar of a window with a toolbar - are there.\<close>
definition window_ok :: "ShellWindow \<Rightarrow> bool" where
  "window_ok win \<longleftrightarrow> unat (win_X win) \<le> 65536 \<and> 230 \<le> unat (win_Width win) \<and> unat (win_Width win) \<le> 65536
     \<and> 104 \<le> unat (win_Height win) \<and> unat (win_Height win) \<le> 65536
     \<and> length (text_of (win_Title win)) \<le> 65536 \<and> length (text_of (win_Status win)) \<le> 65536
     \<and> win_Status win \<noteq> None \<and> (win_Toolbar win \<longrightarrow> win_Title win \<noteq> None)"

lemma paint_windows_inside:
  assumes "screen_ok s" "inside s t" "\<And>win. win \<in> set wins \<Longrightarrow> window_ok win"
  shows "\<exists>u. paint_windows ty wins t = Some u \<and> inside s u"
  using assms(2,3)
proof (induction wins arbitrary: t)
  case (Cons win wins)
  have "window_ok win" using Cons.prems(2) by simp
  then have w: "\<exists>u. paint_window ty win t = Some u \<and> inside s u"
    using paint_window_inside [OF assms(1) Cons.prems(1)] by (simp add: window_ok_def)
  show ?case unfolding paint_windows.simps by (rule bind_inside [OF w]) (use Cons in simp)
qed simp

definition drawable :: "DesktopLayout \<Rightarrow> bool" where
  "drawable l \<longleftrightarrow> unat (lay_WindowCount l) \<le> 8
     \<and> list_all window_ok (take (unat (lay_WindowCount l)) (lay_Windows l))
     \<and> list_all (\<lambda>icon. length (text_of (ic_Label icon)) \<le> 65536) (take (unat (lay_IconCount l)) (lay_Icons l))"

lemma if_inside: "inside s t \<Longrightarrow> inside s u \<Longrightarrow> inside s (if b then t else u)" by simp

lemma StartDesktop_inside:
  assumes ok: "screen_ok s" and l: "drawable l"
  shows "\<exists>t. StartDesktop masks theme l s = Some t \<and> inside s t"
proof -
  have fb: "s_fb s" using ok by (simp add: screen_ok_def fb_ok_def)
  define s0 where "s0 = paint_wallpaper theme (s\<lparr>s_mouse_visible := False\<rparr>)"
  have s0: "inside s s0" unfolding s0_def by (rule paint_wallpaper_inside [OF ok]) (simp add: inside_def)
  have wins: "window_ok win" if "win \<in> set (take (unat (lay_WindowCount l)) (lay_Windows l))" for win
    using l that by (simp add: drawable_def list_all_iff)
  have F: "\<exists>v. paint_windows ty (take (unat (lay_WindowCount l)) (lay_Windows l)) u = Some v \<and> inside s v" if "inside s u" for ty u
    by (rule paint_windows_inside [OF ok that wins])
  have e: "s_fb_w s0 = s_fb_w s" "s_fb_h s0 = s_fb_h s" using insideD [OF s0] by simp_all
  have end_inside: "inside s (MoveMouseCursor cx cy (DrawTextAbs (fst (win_geometry u) + 12) ty ''Ready   MicroNT desktop session'' fg bg
      (paint_header (paint_terminal theme u))))" if "inside s u" for cx cy ty fg bg u
  proof -
    have "screen_ok u" using ok that by (simp add: insideD)
    then obtain x y w h where g: "win_geometry u = (x, y, w, h)" "unat x \<le> 210" by (rule win_geometry_facts)
    have "tinside s (paint_header (paint_terminal theme u))"
      by (intro paint_header_tinside paint_terminal_tinside ok that)
    then show ?thesis
      using unat_add_le [of x 12] g by (intro MoveMouseCursor_inside DrawTextAbs_inside ok) (simp_all add: tinside_def)
  qed
  show ?thesis
    unfolding StartDesktop_def Let_def s0_def [symmetric] e using fb l
    by (simp only: simp_thms if_False not_True_eq_False case_prod_beta, intro bind_inside paint_icons_inside [OF ok s0] F
        paint_taskbar_inside [OF ok] some_inside end_inside if_inside paint_menu_inside ok)
      (simp_all add: drawable_def list_all_iff min.coboundedI2)
qed


text \<open>C22 (safety): the desktop stays on the screen.  On a screen of at least 640 by 480 pixels, for at most eight windows of at least
  230 by 104 pixels with texts of ordinary lengths, whose status - and title, where there is an address bar - is not null,
  StartDesktop returns and stores to pixels of the screen only: every other word of the frame buffer, the padding of the lines
  included, keeps its value, and so do the screen's width, height and stride.\<close>
theorem desktop_painted:
  assumes "screen_ok s" "drawable l"
  shows "\<exists>t. StartDesktop masks theme l s = Some t
    \<and> s_fb t = s_fb s \<and> s_fb_w t = s_fb_w s \<and> s_fb_h t = s_fb_h s \<and> s_fb_stride t = s_fb_stride s
    \<and> (\<forall>i. \<not> vis s i \<longrightarrow> fbmem t i = fbmem s i)"
  using StartDesktop_inside [OF assms, of masks theme] by (auto simp: inside_def)

text \<open>A window without a status text stops the painting: the code reads through the null pointer.\<close>
lemma null_status_faults:
  assumes "win_Status win = None"
  shows "paint_window task_y win s = None"
  using assms by (simp add: paint_window_def DrawPanelWindow_def DrawTextAbs_ptr_def case_prod_beta Let_def)

definition screen_demo :: vga where
  "screen_demo = vga_demo\<lparr>s_fb_w := 1024, s_fb_h := 768, s_fb_stride := 1040\<rparr>"

lemma desktop_painted_witness:
  "screen_ok screen_demo \<and> drawable layout_demo
   \<and> (\<forall>theme. \<exists>t. StartDesktop (\<lambda>k i. 255) theme layout_demo screen_demo = Some t \<and> fbmem t 1024 = 0)"
proof -
  have ok: "screen_ok screen_demo" by (simp add: screen_ok_def fb_ok_def screen_demo_def vga_demo_def)
  have icons: "take 6 (lay_Icons layout_demo) = layout_icons"
    by (simp add: layout_demo_def layout_icons_def layout_windows_def add_icon_def add_window_def DesktopLayout0_def replicate_numeral)
  have l: "drawable layout_demo"
    by (simp add: drawable_def layout_demo_sel layout_windows_def icons window_ok_def MakeWindow_def text_of_def)
      (simp add: layout_icons_def MakeDesktopIcon_def)
  have v: "\<not> vis screen_demo 1024"
  proof
    assume "vis screen_demo 1024"
    then obtain X Y where XY: "on_screen screen_demo X Y" "1024 = pix screen_demo X Y" unfolding vis_def by blast
    have f: "fb_ok screen_demo" using ok by (simp add: screen_ok_def)
    have g: "s_fb_stride screen_demo = 1040" "s_fb_w screen_demo = 1024" by (simp_all add: screen_demo_def)
    have "unat Y * unat (1040 :: u32) + unat X = unat (1024 :: u64)"
      using pix_unat(1) [OF f XY(1), symmetric] unfolding XY(2) [symmetric] g .
    moreover have "unat (1040 :: u32) = 1040" "unat (1024 :: u64) = 1024" by simp_all
    ultimately have "unat Y * 1040 + unat X = 1024" by (simp only:)
    moreover have "X < 1024" using XY(1) by (simp only: g)
    then have "unat X < 1024" by (simp add: word_less_nat_alt)
    ultimately have "unat Y * 1040 + unat X = 1024 \<and> unat X < 1024" ..
    moreover have "\<not> (a * 1040 + b = 1024 \<and> b < 1024)" for a b :: nat by (cases a) auto
    ultimately show False by blast
  qed
  have "\<exists>t. StartDesktop (\<lambda>k i. 255) theme layout_demo screen_demo = Some t \<and> fbmem t 1024 = fbmem screen_demo 1024" for theme
    using desktop_painted [OF ok l, of "\<lambda>k i. 255" theme] v by auto
  then show ?thesis using ok l by (simp add: screen_demo_def vga_demo_def)
qed

end
