(* ===== verification/ShellPump.thy ===== *)
theory ShellPump
  imports SessionManager
begin

text \<open>The windows of the interactive shell as a stack, and the input pump over it: the window operations
  of kernel/sm/session\_manager.cpp implement the interface window\_stack, and PumpInteractiveInput
  returns, reads every packet and keeps the layout well formed.  The pump is one step: the code runs it
  with interrupts on, and a packet that the mouse adds meanwhile is one of the next pump here.\<close>

section \<open>The window stack interface\<close>

text \<open>A bounded list of windows, bottom to top: push puts a window on top and drops the bottom one
  when the stack is full, remove takes one out, raise moves one to the top.\<close>
locale window_stack =
  fixes ok :: "'s \<Rightarrow> bool"
    and stack :: "'s \<Rightarrow> 'w list"
    and push :: "'t \<Rightarrow> 's \<Rightarrow> 's"
    and remove :: "nat \<Rightarrow> 's \<Rightarrow> 's"
    and raise :: "nat \<Rightarrow> 's \<Rightarrow> 's"
    and mk :: "'t \<Rightarrow> nat \<Rightarrow> 'w"
    and cap :: nat
  assumes stack_cap: "ok s \<Longrightarrow> length (stack s) \<le> cap"
    and cap_pos: "0 < cap"
    and push_ok: "ok s \<Longrightarrow> ok (push t s)"
    and push_stack: "ok s \<Longrightarrow> stack (push t s) =
      (let ws = (if length (stack s) = cap then tl (stack s) else stack s) in ws @ [mk t (length ws)])"
    and remove_ok: "ok s \<Longrightarrow> ok (remove i s)"
    and remove_stack: "ok s \<Longrightarrow> i < length (stack s) \<Longrightarrow>
      stack (remove i s) = take i (stack s) @ drop (Suc i) (stack s)"
    and remove_out: "ok s \<Longrightarrow> length (stack s) \<le> i \<Longrightarrow> i < 2 ^ 31 \<Longrightarrow> stack (remove i s) = stack s"
    and raise_ok: "ok s \<Longrightarrow> i < length (stack s) \<Longrightarrow> ok (raise i s)"
    and raise_stack: "ok s \<Longrightarrow> i < length (stack s) \<Longrightarrow>
      stack (raise i s) = take i (stack s) @ drop (Suc i) (stack s) @ [stack s ! i]"
begin

lemma raise_top: "ok s \<Longrightarrow> i < length (stack s) \<Longrightarrow> List.last (stack (raise i s)) = stack s ! i"
  by (simp add: raise_stack)

lemma raise_set: "ok s \<Longrightarrow> i < length (stack s) \<Longrightarrow> set (stack (raise i s)) = set (stack s)"
proof -
  assume a: "ok s" "i < length (stack s)"
  have "set (stack s) = set (take i (stack s) @ stack s ! i # drop (Suc i) (stack s))"
    using a(2) by (simp only: id_take_nth_drop [symmetric])
  then show ?thesis using a by (auto simp: raise_stack)
qed

lemma raise_length: "ok s \<Longrightarrow> i < length (stack s) \<Longrightarrow> length (stack (raise i s)) = length (stack s)"
  by (simp add: raise_stack)

lemma push_top: "ok s \<Longrightarrow> \<exists>n. List.last (stack (push t s)) = mk t n \<and> n < cap"
  using stack_cap [of s] cap_pos by (auto simp: push_stack Let_def)

lemma push_length: "ok s \<Longrightarrow> length (stack (push t s)) = min cap (Suc (length (stack s)))"
  using stack_cap [of s] cap_pos by (auto simp: push_stack Let_def)

text \<open>Closing the window just opened undoes the opening, unless it pushed out the bottom one.\<close>
lemma push_remove:
  assumes "ok s" "length (stack s) < cap"
  shows "stack (remove (length (stack s)) (push t s)) = stack s"
  using assms remove_stack [OF push_ok [OF assms(1)], of "length (stack s)" t] by (simp add: push_stack Let_def)

end

section \<open>The operations implement it\<close>

definition windows :: "DesktopLayout \<Rightarrow> ShellWindow list" where
  "windows l = take (unat (lay_WindowCount l)) (lay_Windows l)"

lemma shift_down_spec:
  "unat n \<le> length ws \<Longrightarrow> 0 < unat i \<Longrightarrow> unat i \<le> unat n \<Longrightarrow>
     shift_down i n ws = take (unat i - 1) ws @ drop (unat i) (take (unat n) ws) @ drop (unat n - 1) ws"
proof (induction i n ws rule: shift_down.induct)
  case (1 i n ws)
  show ?case
  proof (cases "i < n")
    case False
    then have "unat i = unat n" using "1.prems" by (simp add: word_less_nat_alt)
    then show ?thesis using "1.prems" False by (simp add: shift_down.simps)
  next
    case True
    have s: "unat (i + 1) = Suc (unat i)" using True by (rule unat_step)
    have p: "unat (i - 1) = unat i - 1" using "1.prems" by (simp add: unat_sub_if')
    have l: "unat i < unat n" using True by (simp add: word_less_nat_alt)
    let ?ws = "ws[unat i - 1 := ws ! unat i]"
    have "shift_down i n ws = shift_down (i + 1) n ?ws" using True by (subst shift_down.simps) (simp add: p)
    also have "\<dots> = take (unat i) ?ws @ drop (Suc (unat i)) (take (unat n) ?ws) @ drop (unat n - 1) ?ws"
      using "1.IH" [OF True] "1.prems" l by (simp add: p s)
    also have "\<dots> = take (unat i - 1) ws @ [ws ! unat i] @ drop (Suc (unat i)) (take (unat n) ws) @ drop (unat n - 1) ws"
    proof -
      obtain k where k: "unat i = Suc k" using "1.prems"(2) by (cases "unat i") auto
      show ?thesis using "1.prems" l by (simp add: k take_Suc_conv_app_nth drop_update_cancel drop_take)
    qed
    also have "[ws ! unat i] @ drop (Suc (unat i)) (take (unat n) ws) @ drop (unat n - 1) ws =
        drop (unat i) (take (unat n) ws) @ drop (unat n - 1) ws"
      using l "1.prems"(1) Cons_nth_drop_Suc [of "unat i" "take (unat n) ws"] by simp
    finally show ?thesis .
  qed
qed

lemma windows_length: "wf_layout l \<Longrightarrow> length (windows l) = unat (lay_WindowCount l)"
  using wf_counts(1) [of l] by (simp add: windows_def wf_layout_def)

lemma windows_cap: "wf_layout l \<Longrightarrow> length (windows l) \<le> 8"
  using windows_length wf_counts(1) by simp

lemma shift_wf:
  assumes "wf_layout l" "0 < unat i" "unat i \<le> unat (lay_WindowCount l)"
  defines "ws \<equiv> shift_down i (lay_WindowCount l) (lay_Windows l)"
  shows "length ws = 8" "take (unat (lay_WindowCount l) - 1) ws = take (unat i - 1) (windows l) @ drop (unat i) (windows l)"
proof -
  have len: "length (lay_Windows l) = 8" and n: "unat (lay_WindowCount l) \<le> 8"
    using assms(1) wf_counts(1) by (auto simp: wf_layout_def)
  have ws: "ws = take (unat i - 1) (lay_Windows l) @ drop (unat i) (take (unat (lay_WindowCount l)) (lay_Windows l)) @
      drop (unat (lay_WindowCount l) - 1) (lay_Windows l)"
    unfolding ws_def using len n assms(2,3) by (intro shift_down_spec) simp_all
  show "length ws = 8" using len n assms(2,3) by (simp add: ws)
  show "take (unat (lay_WindowCount l) - 1) ws = take (unat i - 1) (windows l) @ drop (unat i) (windows l)"
  proof -
    let ?A = "take (unat i - 1) (lay_Windows l)" and ?B = "drop (unat i) (take (unat (lay_WindowCount l)) (lay_Windows l))"
    have "length (?A @ ?B) = unat (lay_WindowCount l) - 1" using len n assms(2,3) by simp
    then have "take (unat (lay_WindowCount l) - 1) ws = ?A @ ?B"
      unfolding ws append_assoc [symmetric] by (metis append_eq_conv_conj)
    moreover have "?A = take (unat i - 1) (windows l)" using assms(3) by (auto simp: windows_def min_def)
    ultimately show ?thesis by (simp add: windows_def)
  qed
qed

lemma count_minus_1: "unat n \<noteq> 0 \<Longrightarrow> unat (n - 1) = unat n - 1" for n :: u32
  by (simp add: unat_sub_if' Suc_le_eq)

lemma close_window_spec:
  assumes "wf_layout l"
  shows "wf_layout (close_window i l)"
    "windows (close_window i l) = (if unat i < length (windows l)
       then take (unat i) (windows l) @ drop (Suc (unat i)) (windows l) else windows l)"
proof -
  have "wf_layout (close_window i l) \<and> windows (close_window i l) = (if unat i < length (windows l)
       then take (unat i) (windows l) @ drop (Suc (unat i)) (windows l) else windows l)"
  proof (cases "i < lay_WindowCount l")
    case False
    then show ?thesis using assms by (simp add: close_window_def windows_length word_less_nat_alt word_le_nat_alt not_less)
  next
    case True
    then have l: "unat i < unat (lay_WindowCount l)" and s: "unat (i + 1) = Suc (unat i)"
      by (simp_all add: word_less_nat_alt unat_step)
    note w = shift_wf [OF assms, of "i + 1"] and n = wf_counts [OF assms]
    have c: "unat (lay_WindowCount l - 1) = unat (lay_WindowCount l) - 1" using l by (intro count_minus_1) simp
    have e: "close_window i l = l\<lparr>lay_Windows := shift_down (i + 1) (lay_WindowCount l) (lay_Windows l),
        lay_WindowCount := lay_WindowCount l - 1\<rparr>"
      using True by (simp add: close_window_def)
    have "wf_layout (close_window i l)"
      using assms w(1) s l n by (simp add: e wf_layout_def word_le_nat_alt c)
    moreover have "windows (close_window i l) = take (unat i) (windows l) @ drop (Suc (unat i)) (windows l)"
      using w(2) s l by (simp add: e windows_def c)
    ultimately show ?thesis using l assms by (simp add: windows_length)
  qed
  then show "wf_layout (close_window i l)"
    "windows (close_window i l) = (if unat i < length (windows l)
       then take (unat i) (windows l) @ drop (Suc (unat i)) (windows l) else windows l)" by blast+
qed

lemma focus_window_spec:
  assumes "wf_layout l"
  shows "unat i < length (windows l) \<Longrightarrow> wf_layout (focus_window i l)"
    "unat i < length (windows l) \<Longrightarrow>
       windows (focus_window i l) = take (unat i) (windows l) @ drop (Suc (unat i)) (windows l) @ [windows l ! unat i]"
    "lay_WindowCount (focus_window i l) = lay_WindowCount l"
proof -
  show "lay_WindowCount (focus_window i l) = lay_WindowCount l" by (simp add: focus_window_def Let_def)
  assume "unat i < length (windows l)"
  then have l: "unat i < unat (lay_WindowCount l)" by (simp add: windows_length assms)
  then have s: "unat (i + 1) = Suc (unat i)" by (intro unat_step [of i "lay_WindowCount l"]) (simp add: word_less_nat_alt)
  have c: "unat (lay_WindowCount l - 1) = unat (lay_WindowCount l) - 1" using l by (intro count_minus_1) simp
  note w = shift_wf [OF assms, of "i + 1"] and n = wf_counts [OF assms]
  have len: "length (lay_Windows l) = 8" using assms by (simp add: wf_layout_def)
  have "wf_layout (focus_window i l) \<and> windows (focus_window i l) =
      take (unat i) (windows l) @ drop (Suc (unat i)) (windows l) @ [windows l ! unat i]"
  proof (cases "i + 1 \<ge> lay_WindowCount l")
    case True
    then have "Suc (unat i) = length (windows l)" using l s by (simp add: word_le_nat_alt windows_length assms)
    then show ?thesis using True assms take_Suc_conv_app_nth [of "unat i" "windows l"] by (simp add: focus_window_def)
  next
    case False
    let ?ws = "shift_down (i + 1) (lay_WindowCount l) (lay_Windows l)"
    have e: "focus_window i l = l\<lparr>lay_Windows := ?ws[unat (lay_WindowCount l) - 1 := windows l ! unat i]\<rparr>"
      using False l by (simp add: focus_window_def Let_def c windows_def)
    have ws: "length ?ws = 8" "take (unat (lay_WindowCount l) - 1) ?ws = take (unat i) (windows l) @ drop (Suc (unat i)) (windows l)"
      using w s l by simp_all
    have "wf_layout (focus_window i l)" using assms ws(1) by (simp add: e wf_layout_def)
    moreover have "windows (focus_window i l) = take (unat (lay_WindowCount l) - 1) ?ws @ [windows l ! unat i]"
      using l n ws(1) take_Suc_conv_app_nth [of "unat (lay_WindowCount l) - 1" "?ws[unat (lay_WindowCount l) - 1 := windows l ! unat i]"]
      by (simp add: e windows_def)
    ultimately show ?thesis by (simp only: ws(2) append_assoc)
  qed
  then show "wf_layout (focus_window i l)"
    "windows (focus_window i l) = take (unat i) (windows l) @ drop (Suc (unat i)) (windows l) @ [windows l ! unat i]"
    by blast+
qed

lemma drop_oldest_spec:
  assumes "wf_layout l"
  shows "wf_layout (drop_oldest l)" "lay_WindowCount (drop_oldest l) < 8"
    "windows (drop_oldest l) = (if length (windows l) = 8 then tl (windows l) else windows l)"
proof -
  note n = wf_counts [OF assms] and len = windows_length [OF assms]
  have "wf_layout (drop_oldest l) \<and> lay_WindowCount (drop_oldest l) < 8 \<and>
    windows (drop_oldest l) = (if length (windows l) = 8 then tl (windows l) else windows l)"
  proof (cases "lay_WindowCount l \<ge> 8")
    case False
    then show ?thesis using assms len by (simp add: drop_oldest_def word_le_nat_alt word_less_nat_alt)
  next
    case True
    then have 8: "unat (lay_WindowCount l) = 8" using n by (simp add: word_le_nat_alt)
    have c: "unat (lay_WindowCount l - 1) = 7" using 8 by (simp add: count_minus_1)
    note w = shift_wf [OF assms, of 1]
    have e: "drop_oldest l = l\<lparr>lay_Windows := shift_down 1 (lay_WindowCount l) (lay_Windows l),
        lay_WindowCount := lay_WindowCount l - 1\<rparr>" using True by (simp add: drop_oldest_def)
    have "wf_layout (drop_oldest l)" using assms w(1) 8 by (simp add: e wf_layout_def word_le_nat_alt c)
    moreover have "windows (drop_oldest l) = tl (windows l)" using w(2) 8 by (simp add: e windows_def c drop_Suc)
    ultimately show ?thesis using len 8 by (simp add: e word_less_nat_alt c)
  qed
  then show "wf_layout (drop_oldest l)" "lay_WindowCount (drop_oldest l) < 8"
    "windows (drop_oldest l) = (if length (windows l) = 8 then tl (windows l) else windows l)" by blast+
qed

lemma open_window_spec:
  assumes "wf_layout l"
  shows "wf_layout (open_window t l)"
    "windows (open_window t l) = (let ws = (if length (windows l) = 8 then tl (windows l) else windows l)
       in ws @ [new_window t (of_nat (length ws))])"
proof -
  let ?d = "drop_oldest l"
  note d = drop_oldest_spec [OF assms]
  have lt: "unat (lay_WindowCount ?d) < 8" using d(2) by (simp add: word_less_nat_alt)
  have c: "unat (lay_WindowCount ?d + 1) = Suc (unat (lay_WindowCount ?d))" using d(2) by (rule unat_step)
  have len: "length (lay_Windows ?d) = 8" using d(1) by (simp add: wf_layout_def)
  have e: "open_window t l = ?d\<lparr>lay_Windows := (lay_Windows ?d)[unat (lay_WindowCount ?d) := new_window t (lay_WindowCount ?d)],
      lay_WindowCount := lay_WindowCount ?d + 1\<rparr>" by (simp add: open_window_def Let_def)
  show "wf_layout (open_window t l)" using d(1) lt by (simp add: e wf_layout_def word_le_nat_alt c)
  have "windows (open_window t l) = windows ?d @ [new_window t (lay_WindowCount ?d)]"
    using lt len by (simp add: e windows_def c take_Suc_conv_app_nth)
  moreover have "lay_WindowCount ?d = of_nat (length (windows ?d))" by (simp add: windows_length [OF d(1)])
  ultimately show "windows (open_window t l) = (let ws = (if length (windows l) = 8 then tl (windows l) else windows l)
       in ws @ [new_window t (of_nat (length ws))])"
    unfolding d(3) [symmetric] Let_def by simp
qed

interpretation zo: window_stack wf_layout windows open_window "\<lambda>i. close_window (of_nat i)" "\<lambda>i. focus_window (of_nat i)"
  "\<lambda>t n. new_window t (of_nat n)" 8
proof
  fix l :: DesktopLayout and i :: nat and t
  assume l: "wf_layout l"
  show "length (windows l) \<le> 8" using l by (rule windows_cap)
  show "wf_layout (open_window t l)" using l by (rule open_window_spec)
  show "windows (open_window t l) = (let ws = (if length (windows l) = 8 then tl (windows l) else windows l)
      in ws @ [new_window t (of_nat (length ws))])" using l by (rule open_window_spec)
  show "wf_layout (close_window (of_nat i) l)" using l by (rule close_window_spec)
  have u: "unat (of_nat i :: u32) = i" if "i < 2 ^ 31" using that by (intro unat_of_nat32) simp
  show "windows (close_window (of_nat i) l) = windows l" if "length (windows l) \<le> i" "i < 2 ^ 31"
    using that close_window_spec(2) [OF l, of "of_nat i"] by (simp add: u)
  have u': "unat (of_nat i :: u32) = i" if "i < length (windows l)" using that windows_cap [OF l] by (intro u) simp
  show "windows (close_window (of_nat i) l) = take i (windows l) @ drop (Suc i) (windows l)" if "i < length (windows l)"
    using that close_window_spec(2) [OF l, of "of_nat i"] by (simp add: u')
  show "wf_layout (focus_window (of_nat i) l)" if "i < length (windows l)"
    using that focus_window_spec(1) [OF l, of "of_nat i"] by (simp add: u')
  show "windows (focus_window (of_nat i) l) = take i (windows l) @ drop (Suc i) (windows l) @ [windows l ! i]"
    if "i < length (windows l)" using that focus_window_spec(2) [OF l, of "of_nat i"] by (simp add: u')
qed simp

text \<open>The window operations of the session manager are operations on a stack of at most eight
  windows: opening puts the new window on top and, when eight are open, drops the bottom one;
  focusing moves one window to the top and closing removes one, both keeping the order of the
  others; and closing the window just opened gives the old stack back.\<close>
theorem window_operations:
  assumes "wf_layout l"
  shows "windows (open_window t l) = (let ws = (if length (windows l) = 8 then tl (windows l) else windows l)
      in ws @ [new_window t (of_nat (length ws))]) \<and>
    length (windows (open_window t l)) = min 8 (Suc (length (windows l))) \<and>
    (length (windows l) < 8 \<longrightarrow> windows (close_window (of_nat (length (windows l))) (open_window t l)) = windows l) \<and>
    (i < length (windows l) \<longrightarrow>
      windows (focus_window (of_nat i) l) = take i (windows l) @ drop (Suc i) (windows l) @ [windows l ! i] \<and>
      windows (close_window (of_nat i) l) = take i (windows l) @ drop (Suc i) (windows l))"
  using zo.push_stack [OF assms] zo.raise_stack [OF assms] zo.remove_stack [OF assms] zo.push_remove [OF assms]
    zo.push_length [OF assms] by blast

lemma window_operations_witness:
  "length (windows (open_window (Some ''Edge'') layout_demo)) = 6 \<and>
   windows (focus_window 0 layout_demo) = drop 1 layout_windows @ [layout_windows ! 0]"
proof -
  have w: "windows layout_demo = layout_windows" by (simp add: windows_def layout_demo_sel)
  have "length layout_windows = 5" by (simp add: layout_windows_def)
  then show ?thesis
    using window_operations [OF layout_demo_sel(8), of "Some ''Edge''" 0] by (simp add: w)
qed

section \<open>One packet\<close>

definition put_mouse :: "mouse \<Rightarrow> smgr \<Rightarrow> smgr" where "put_mouse m s = s\<lparr>g_mouse := m\<rparr>"

lemma put_mouse_sel [simp]:
  "s_desktop_layout (put_mouse m s) = s_desktop_layout s" "s_pointer_state (put_mouse m s) = s_pointer_state s"
  "g_mouse (put_mouse m s) = m" "put_mouse m (put_mouse m' s) = put_mouse m s" "put_mouse (g_mouse s) s = s"
  by (simp_all add: put_mouse_def)

lemma RepaintDesktop_sel [simp]:
  "s_desktop_layout (RepaintDesktop s) = s_desktop_layout s" "s_pointer_state (RepaintDesktop s) = s_pointer_state s"
  "g_mouse (RepaintDesktop s) = (g_mouse s)\<lparr>s_cursor := Some (pt_X (s_pointer_state s), pt_Y (s_pointer_state s))\<rparr>"
  "s_dragging (RepaintDesktop s) = s_dragging s" "s_drag_win (RepaintDesktop s) = s_drag_win s"
  "s_drag_off_x (RepaintDesktop s) = s_drag_off_x s" "s_drag_off_y (RepaintDesktop s) = s_drag_off_y s"
  by (simp_all add: RepaintDesktop_def PresentDesktop_def case_prod_beta Let_def)

lemma upd_layout_sel [simp]:
  "s_desktop_layout (upd_layout f s) = f (s_desktop_layout s)" "s_pointer_state (upd_layout f s) = s_pointer_state s"
  "g_mouse (upd_layout f s) = g_mouse s" "s_dragging (upd_layout f s) = s_dragging s"
  "s_drag_win (upd_layout f s) = s_drag_win s"
  by (simp_all add: upd_layout_def)

text \<open>The pump reads the mouse driver only to fetch packets: everything else a packet does is
  independent of it, apart from the cursor that a repaint puts back.\<close>

lemma RepaintDesktop_mouse:
  "RepaintDesktop (put_mouse m s) =
     put_mouse (m\<lparr>s_cursor := Some (pt_X (s_pointer_state s), pt_Y (s_pointer_state s))\<rparr>) (RepaintDesktop s)"
  by (simp add: RepaintDesktop_def PresentDesktop_def put_mouse_def case_prod_beta Let_def)

lemma put_mouse_commute:
  "upd_layout f (put_mouse m s) = put_mouse m (upd_layout f s)" "SetStartMenu b (put_mouse m s) = put_mouse m (SetStartMenu b s)"
  "OpenWindow t (put_mouse m s) = put_mouse m (OpenWindow t s)" "CloseWindow i (put_mouse m s) = put_mouse m (CloseWindow i s)"
  "FocusWindow i (put_mouse m s) = put_mouse m (FocusWindow i s)"
  by (simp_all add: upd_layout_def SetStartMenu_def put_mouse_def OpenWindow_def CloseWindow_def FocusWindow_def)

definition same_but_cursor :: "mouse \<Rightarrow> mouse \<Rightarrow> bool" where
  "same_but_cursor m m' \<longleftrightarrow> (\<exists>c. m' = m\<lparr>s_cursor := c\<rparr>)"

lemma same_but_cursorI [simp, intro]: "same_but_cursor m m" "same_but_cursor m (m\<lparr>s_cursor := c\<rparr>)"
proof -
  have "m = m\<lparr>s_cursor := s_cursor m\<rparr>" by simp
  then show "same_but_cursor m m" unfolding same_but_cursor_def by blast
qed (auto simp: same_but_cursor_def)

lemma HandleShellClick_mouse:
  "\<exists>m'. same_but_cursor m m' \<and> HandleShellClick k i (put_mouse m s) = put_mouse m' (HandleShellClick k i s)"
  by (cases k) (auto simp: ToggleStartMenu_def RepaintDesktop_mouse put_mouse_commute)

lemma begin_drag_mouse:
  "\<exists>m'. same_but_cursor m m' \<and> begin_drag i x y (put_mouse m s) = put_mouse m' (begin_drag i x y s)"
proof -
  let ?f = "\<lambda>s. s\<lparr>s_drag_win := lay_WindowCount (s_desktop_layout s) - 1,
      s_drag_off_x := x - win_X (lay_Windows (s_desktop_layout s) ! unat (lay_WindowCount (s_desktop_layout s) - 1)),
      s_drag_off_y := y - win_Y (lay_Windows (s_desktop_layout s) ! unat (lay_WindowCount (s_desktop_layout s) - 1)),
      s_dragging := True\<rparr>"
  have b: "begin_drag i x y s = RepaintDesktop (?f (FocusWindow i s))" for s by (simp add: begin_drag_def Let_def)
  have f: "?f (put_mouse m s) = put_mouse m (?f s)" for s by (simp add: put_mouse_def)
  show ?thesis unfolding b put_mouse_commute f RepaintDesktop_mouse by blast
qed

lemma pump_packet_mouse:
  "\<exists>m'. same_but_cursor m m' \<and> pump_packet left x y (put_mouse m s) = put_mouse m' (pump_packet left x y s)"
proof -
  obtain e p where ep: "ProcessPointer (s_desktop_layout s) x y left (s_pointer_state s) = (e, p)" by fastforce
  let ?s = "s\<lparr>s_pointer_state := p\<rparr>"
  have c: "(put_mouse m s)\<lparr>s_pointer_state := p\<rparr> = put_mouse m ?s" "s_dragging (put_mouse m s) = s_dragging s"
    "s_drag_win (put_mouse m s) = s_drag_win s" "s_drag_off_x (put_mouse m s) = s_drag_off_x s"
    "s_drag_off_y (put_mouse m s) = s_drag_off_y s" "(put_mouse m ?s)\<lparr>s_dragging := False\<rparr> = put_mouse m (?s\<lparr>s_dragging := False\<rparr>)"
    "s_dragging (put_mouse m ?s) = s_dragging s" "s_drag_win (put_mouse m ?s) = s_drag_win s"
    "s_drag_off_x (put_mouse m ?s) = s_drag_off_x s" "s_drag_off_y (put_mouse m ?s) = s_drag_off_y s"
    by (simp_all add: put_mouse_def)
  show ?thesis
    using HandleShellClick_mouse [of m "ev_Target e" "ev_TargetIndex e" ?s] begin_drag_mouse [of m "pt_TargetIndex p" x y ?s]
    by (auto simp: pump_packet_def ep Let_def c RepaintDesktop_mouse put_mouse_commute)
qed

lemma focus_window_wf: "wf_layout l \<Longrightarrow> i < lay_WindowCount l \<or> i = 0 \<Longrightarrow> wf_layout (focus_window i l)"
proof -
  assume l: "wf_layout l" and i: "i < lay_WindowCount l \<or> i = 0"
  show ?thesis
  proof (cases "i < lay_WindowCount l")
    case True
    then show ?thesis using focus_window_spec(1) [OF l] by (simp add: windows_length [OF l] word_less_nat_alt)
  next
    case False
    then have "lay_WindowCount l = 0" using i by (auto simp: word_gt_0)
    then show ?thesis using False i l by (simp add: focus_window_def)
  qed
qed

lemma HandleShellClick_wf:
  assumes "wf_layout (s_desktop_layout s)" "valid_target (s_desktop_layout s) (k, i)"
  shows "wf_layout (s_desktop_layout (HandleShellClick k i s))"
proof -
  have st: "wf_layout (s_desktop_layout (SetStartMenu b s))" if "wf_layout (s_desktop_layout s)" for b s
    using that by (simp add: SetStartMenu_def wf_layout_def)
  show ?thesis
    using assms open_window_spec(1) close_window_spec(1) focus_window_wf st
    by (cases k) (auto simp: ToggleStartMenu_def OpenWindow_def CloseWindow_def FocusWindow_def)
qed

lemma ProcessPointer_clicked:
  assumes "wf_layout l" "ProcessPointer l x y left p = (e, p')" "ev_Clicked e"
  shows "valid_target l (ev_Target e, ev_TargetIndex e)"
  using hit_target_ok [OF assms(1), of x y] assms(2,3)
  by (cases "hit_target l x y") (auto simp: ProcessPointer_def ResolveHitTarget_def Let_def case_prod_beta split: if_splits)

lemma move_window_wf: "wf_layout l \<Longrightarrow> wf_layout (move_window i nx ny l)"
  by (simp add: move_window_def wf_layout_def)

lemma pump_packet_wf:
  assumes "wf_layout (s_desktop_layout s)"
  shows "wf_layout (s_desktop_layout (pump_packet left x y s))"
proof -
  obtain e p where ep: "ProcessPointer (s_desktop_layout s) x y left (s_pointer_state s) = (e, p)" by fastforce
  show ?thesis
    using assms ProcessPointer_clicked [OF assms ep] HandleShellClick_wf [of "s\<lparr>s_pointer_state := p\<rparr>"] focus_window_wf move_window_wf
    by (auto simp: pump_packet_def ep Let_def begin_drag_def FocusWindow_def)
qed

lemma g_mouse_pump: "same_but_cursor (g_mouse s) (g_mouse (pump_packet left x y s))"
  using pump_packet_mouse [of "g_mouse s" left x y s] by (metis put_mouse_sel(3,5))

definition pump_packets :: "i32 \<Rightarrow> i32 \<Rightarrow> Packet list \<Rightarrow> smgr \<Rightarrow> smgr" where
  "pump_packets x y ps = fold (\<lambda>p. pump_packet (BtnLeft p) x y) ps"

lemma pump_packets_wf: "wf_layout (s_desktop_layout s) \<Longrightarrow> wf_layout (s_desktop_layout (pump_packets x y ps s))"
  unfolding pump_packets_def by (induction ps arbitrary: s) (simp_all add: pump_packet_wf)

lemma pump_packets_mouse: "\<exists>m'. pump_packets x y ps (put_mouse m s) = put_mouse m' (pump_packets x y ps s)"
proof (induction ps arbitrary: m s)
  case (Cons p ps)
  obtain m1 where "pump_packet (BtnLeft p) x y (put_mouse m s) = put_mouse m1 (pump_packet (BtnLeft p) x y s)"
    using pump_packet_mouse by blast
  then show ?case using Cons [of m1] by (simp add: pump_packets_def)
qed (auto simp: pump_packets_def)

lemma TryRead_same:
  assumes "ms_ok m" "ms_packets m = p # ps"
  obtains m' where "Mouse_TryRead m = Some (p, m')" "ms_ok m'" "ms_packets m' = ps" "s_ready m' = s_ready m"
    "s_x m' = s_x m" "s_y m' = s_y m"
proof -
  obtain m' where m': "Mouse_TryRead m = Some (p, m')" "ms_ok m'" "ms_packets m' = ps" using ms.read_cons [OF assms] by blast
  then have "s_ready m' = s_ready m \<and> s_x m' = s_x m \<and> s_y m' = s_y m"
    by (auto simp: Mouse_TryRead_def split: option.splits)
  with m' that show ?thesis by blast
qed

lemma same_but_cursor_ok:
  "same_but_cursor m m' \<Longrightarrow> ms_ok m' = ms_ok m" "same_but_cursor m m' \<Longrightarrow> ms_packets m' = ms_packets m"
  "same_but_cursor m m' \<Longrightarrow> s_ready m' = s_ready m" "same_but_cursor m m' \<Longrightarrow> s_x m' = s_x m"
  "same_but_cursor m m' \<Longrightarrow> s_y m' = s_y m"
  by (auto simp: same_but_cursor_def ms_ok_def ms_packets_def)

lemma pump_loop_spec:
  assumes "ms_ok (g_mouse s)" "s_ready (g_mouse s)" "ms_packets (g_mouse s) = ps"
  shows "\<exists>m'. pump_loop b s = Some (b \<or> ps \<noteq> [],
      put_mouse m' (pump_packets (of_int (s_x (g_mouse s))) (of_int (s_y (g_mouse s))) ps s)) \<and> ms_packets m' = [] \<and> ms_ok m'"
  using assms
proof (induction ps arbitrary: s b)
  case Nil
  then have "pump_loop b s = Some (b, put_mouse (g_mouse s) s)" by (subst pump_loop.simps) (simp add: ms.read_empty)
  then show ?case using Nil by (intro exI [of _ "g_mouse s"]) (simp add: pump_packets_def)
next
  case (Cons p ps)
  obtain m' where m': "Mouse_TryRead (g_mouse s) = Some (p, m')" "ms_ok m'" "ms_packets m' = ps" "s_ready m' = s_ready (g_mouse s)"
    "s_x m' = s_x (g_mouse s)" "s_y m' = s_y (g_mouse s)" by (rule TryRead_same [OF Cons.prems(1,3)])
  let ?x = "of_int (s_x (g_mouse s)) :: i32" and ?y = "of_int (s_y (g_mouse s)) :: i32"
  let ?s = "pump_packet (BtnLeft p) ?x ?y (put_mouse m' s)"
  obtain m1 where m1: "same_but_cursor m' m1" "?s = put_mouse m1 (pump_packet (BtnLeft p) ?x ?y s)"
    using pump_packet_mouse by blast
  have g: "g_mouse ?s = m1" by (simp add: m1(2))
  note sc = same_but_cursor_ok [OF m1(1)]
  have "pump_loop b s = pump_loop True ?s"
    using m' Cons.prems by (subst pump_loop.simps) (simp add: Mouse_CurrentPosition_def put_mouse_def)
  moreover obtain m2 where "pump_loop True ?s = Some (True, put_mouse m2 (pump_packets ?x ?y ps ?s))" "ms_packets m2 = []" "ms_ok m2"
    using Cons.IH [of ?s True] m' Cons.prems(2) by (auto simp: g sc)
  moreover obtain m3 where "pump_packets ?x ?y ps ?s = put_mouse m3 (pump_packets ?x ?y (p # ps) s)"
    using pump_packets_mouse [of ?x ?y ps m1 "pump_packet (BtnLeft p) ?x ?y s"] by (auto simp: m1(2) pump_packets_def)
  ultimately show ?case by auto
qed

text \<open>C39 (termination): PumpInteractiveInput returns: it takes every queued packet exactly once and in order,
  leaves the queue empty, reports whether there was one and keeps the layout well formed - but
  every packet is hit-tested at the position of the last one, so a click that is followed by a
  movement before the pump runs lands at the later position.\<close>
theorem pump_returns:
  assumes "ms_ok (g_mouse s)" "s_ready (g_mouse s)" "wf_layout (s_desktop_layout s)"
    "pt_HitTestingReady (s_pointer_state s)" "lay_Ready (s_desktop_layout s)"
  shows "\<exists>m' s'. PumpInteractiveInput s = Some (ms_packets (g_mouse s) \<noteq> [], put_mouse m' s') \<and> ms_packets m' = [] \<and>
    s' = pump_packets (of_int (s_x (g_mouse s))) (of_int (s_y (g_mouse s))) (ms_packets (g_mouse s)) s \<and>
    wf_layout (s_desktop_layout s')"
  using pump_loop_spec [OF assms(1,2) refl, of False] assms(3-5) pump_packets_wf [OF assms(3)]
  by (auto simp: PumpInteractiveInput_def)

definition smgr_click :: smgr where
  "smgr_click = smgr_demo\<lparr>g_mouse := fold Mouse_Push
     [\<lparr>DeltaX = 0, DeltaY = 0, BtnLeft = True, BtnRight = False, BtnMiddle = False\<rparr>,
      \<lparr>DeltaX = 0, DeltaY = 0, BtnLeft = False, BtnRight = False, BtnMiddle = False\<rparr>] mouse_demo\<rparr>"

lemma pump_returns_witness:
  "\<exists>s'. PumpInteractiveInput smgr_click = Some (True, s') \<and> ms_packets (g_mouse s') = []"
proof -
  let ?ps = "[\<lparr>DeltaX = 0, DeltaY = 0, BtnLeft = True, BtnRight = False, BtnMiddle = False\<rparr>,
      \<lparr>DeltaX = 0, DeltaY = 0, BtnLeft = False, BtnRight = False, BtnMiddle = False\<rparr>]"
  have "ms_ok (g_mouse smgr_click)" using ms.pushes_ok [OF mouse_demo_ok(1), of ?ps] by (simp add: smgr_click_def)
  moreover have p: "ms_packets (g_mouse smgr_click) = ?ps"
    using ms.pushes_contents [OF mouse_demo_ok(1), of ?ps] by (simp add: smgr_click_def mouse_demo_ok(2))
  moreover have "s_ready (g_mouse smgr_click)" by (simp add: smgr_click_def Mouse_Push_def mouse_demo_def)
  moreover have "wf_layout (s_desktop_layout smgr_click)" "pt_HitTestingReady (s_pointer_state smgr_click)"
    "lay_Ready (s_desktop_layout smgr_click)"
    by (simp_all add: smgr_click_def smgr_demo_def layout_demo_sel pointer_at_def)
  ultimately show ?thesis using pump_returns [of smgr_click] by auto
qed

section \<open>Dragging\<close>

lemma ProcessPointer_hit:
  assumes "pt_HitTestingReady p" "lay_Ready l" "pt_SessionId p = lay_SessionId l"
  shows "pt_HotTarget (snd (ProcessPointer l x y left p)) = fst (hit_target l x y)"
    "pt_TargetIndex (snd (ProcessPointer l x y left p)) = snd (hit_target l x y)"
  using assms by (simp_all add: ProcessPointer_def ResolveHitTarget_def Let_def case_prod_beta)

lemma pump_packet_drag:
  assumes "s_dragging s"
  shows "s_desktop_layout (pump_packet left x y s) =
      (if left \<and> s_drag_win s < lay_WindowCount (s_desktop_layout s)
       then move_window (s_drag_win s) (x - s_drag_off_x s) (y - s_drag_off_y s) (s_desktop_layout s) else s_desktop_layout s)"
    "s_dragging (pump_packet left x y s) \<longleftrightarrow> left \<and> s_drag_win s < lay_WindowCount (s_desktop_layout s)"
    "s_drag_win (pump_packet left x y s) = s_drag_win s"
  using assms by (auto simp: pump_packet_def Let_def case_prod_beta)

lemma move_window_top:
  assumes "wf_layout l" "windows l = ws @ [w]"
  shows "windows (move_window (lay_WindowCount l - 1) nx ny l) =
    ws @ [w\<lparr>win_X := (if sint nx > 0 then nx else 0), win_Y := (if sint ny > 0 then ny else 0)\<rparr>]"
proof -
  have c: "unat (lay_WindowCount l) = Suc (length ws)" using windows_length [OF assms(1)] assms(2) by simp
  then have m: "unat (lay_WindowCount l - 1) = length ws" using count_minus_1 [of "lay_WindowCount l"] by simp
  have "lay_Windows l ! length ws = w"
    using assms(2) c nth_take [of "length ws" "Suc (length ws)" "lay_Windows l"] by (simp add: windows_def)
  then have "windows (move_window (lay_WindowCount l - 1) nx ny l) =
      (windows l)[length ws := w\<lparr>win_X := (if sint nx > 0 then nx else 0), win_Y := (if sint ny > 0 then ny else 0)\<rparr>]"
    by (simp add: move_window_def windows_def m take_update_swap)
  then show ?thesis using assms(2) by simp
qed

definition drag_coord :: "u32 \<Rightarrow> i32 \<Rightarrow> i32 \<Rightarrow> u32" where
  "drag_coord c from to = (let n = to - (from - c) in if sint n > 0 then n else 0)"

lemma begin_drag_spec:
  fixes s :: smgr and i :: nat and x y :: i32
  assumes "wf_layout (s_desktop_layout s)" "i < length (windows (s_desktop_layout s))"
  defines "ws \<equiv> windows (s_desktop_layout s)"
  defines "s' \<equiv> begin_drag (of_nat i) x y s"
  shows "s_dragging s'" "windows (s_desktop_layout s') = take i ws @ drop (Suc i) ws @ [ws ! i]" "wf_layout (s_desktop_layout s')"
    "s_drag_win s' = lay_WindowCount (s_desktop_layout s') - 1" "s_drag_off_x s' = x - win_X (ws ! i)"
    "s_drag_off_y s' = y - win_Y (ws ! i)" "s_drag_win s' < lay_WindowCount (s_desktop_layout s')"
proof -
  let ?l = "focus_window (of_nat i) (s_desktop_layout s)"
  have l: "s_desktop_layout s' = ?l" by (simp add: s'_def begin_drag_def FocusWindow_def Let_def)
  show w: "windows (s_desktop_layout s') = take i ws @ drop (Suc i) ws @ [ws ! i]"
    unfolding l ws_def using zo.raise_stack [OF assms(1,2)] .
  show wf: "wf_layout (s_desktop_layout s')" unfolding l using zo.raise_ok [OF assms(1,2)] .
  show "s_dragging s'" "s_drag_win s' = lay_WindowCount (s_desktop_layout s') - 1"
    by (simp_all add: s'_def begin_drag_def FocusWindow_def Let_def)
  have n: "unat (lay_WindowCount ?l) = length ws" using windows_length [OF wf] w assms(2) by (simp add: l ws_def)
  then have c: "unat (lay_WindowCount ?l - 1) = length ws - 1" using assms(2) by (intro count_minus_1 [THEN trans]) (auto simp: ws_def)
  have i: "i < length ws" using assms(2) by (simp add: ws_def)
  have "windows ?l = take (length ws) (lay_Windows ?l)" unfolding windows_def n ..
  then have "lay_Windows ?l ! (length ws - 1) = windows ?l ! (length ws - 1)" using i by simp
  also have "\<dots> = ws ! i" using w i by (simp add: l nth_append)
  finally have top: "lay_Windows ?l ! unat (lay_WindowCount ?l - 1) = ws ! i" by (simp add: c)
  show "s_drag_off_x s' = x - win_X (ws ! i)" "s_drag_off_y s' = y - win_Y (ws ! i)"
    using top by (simp_all add: s'_def begin_drag_def FocusWindow_def Let_def)
  show "s_drag_win s' < lay_WindowCount (s_desktop_layout s')"
    using n c assms(2) by (simp add: s'_def begin_drag_def FocusWindow_def Let_def word_less_nat_alt ws_def)
qed

text \<open>Pressing the left button on the title bar of the topmost window under the pointer brings
  that window to the top; moving with the button held moves it by the pointer's movement (the
  grabbed point stays under the pointer, coordinates stop at 0), leaves all other windows and
  their order alone, and the release ends the drag without a click.\<close>
theorem drag_moves_window:
  assumes "wf_layout (s_desktop_layout s)" "\<not> lay_StartMenuOpen (s_desktop_layout s)" "lay_Ready (s_desktop_layout s)"
    "pt_HitTestingReady (s_pointer_state s)" "pt_SessionId (s_pointer_state s) = lay_SessionId (s_desktop_layout s)"
    "\<not> s_dragging s" "\<not> pt_LeftButtonDown (s_pointer_state s)" "ws = windows (s_desktop_layout s)"
    "y < tb_Y (ComputeTaskbar (lay_ScreenW (s_desktop_layout s)) (lay_ScreenH (s_desktop_layout s)) (lay_WindowCount (s_desktop_layout s)))"
    "i < length ws" "on_body x y (ws ! i)" "\<not> on_close x y (ws ! i)" "y < win_Y (ws ! i) + 32"
    "\<And>j. i < j \<Longrightarrow> j < length ws \<Longrightarrow> \<not> covers x y (ws ! j)"
    "s1 = pump_packet True x' y' (pump_packet True x y s)" "s2 = pump_packet False x' y' s1"
  shows "windows (s_desktop_layout s2) = take i ws @ drop (Suc i) ws @
      [(ws ! i)\<lparr>win_X := drag_coord (win_X (ws ! i)) x x', win_Y := drag_coord (win_Y (ws ! i)) y y'\<rparr>] \<and>
    s_dragging s1 \<and> \<not> s_dragging s2 \<and> s_desktop_layout s2 = s_desktop_layout s1"
proof -
  let ?l = "s_desktop_layout s"
  have len: "length ws = unat (lay_WindowCount ?l)" using windows_length [OF assms(1)] assms(8) by simp
  have nth: "lay_Windows ?l ! j = ws ! j" if "j < length ws" for j using that by (simp add: assms(8) windows_def)
  let ?p = "ProcessPointer ?l x y True (s_pointer_state s)"
  have "hit_windows (lay_Windows ?l) x y (unat (lay_WindowCount ?l)) = Some (ShellWindowTarget, of_nat i)"
    using hit_windows_topmost [of i "unat (lay_WindowCount ?l)" x y "lay_Windows ?l"] assms(10-14) nth len
    by (simp add: covers_def)
  then have "hit_target ?l x y = (ShellWindowTarget, of_nat i)"
    using assms(2) linorder_not_le [THEN iffD2, OF assms(9)] by (simp add: hit_target_def Let_def hit_menu_def wf_counts(2) [OF assms(1)])
  then have p: "pt_HotTarget (snd ?p) = ShellWindowTarget" "pt_TargetIndex (snd ?p) = of_nat i"
    using ProcessPointer_hit [OF assms(4,3,5)] by simp_all
  have i: "(of_nat i :: u32) < lay_WindowCount ?l" using assms(10) len by (simp add: of_nat_less_count)
  have "i < 2 ^ 32" using assms(10) windows_cap [OF assms(1)] assms(8) by simp
  then have u: "unat (of_nat i :: u32) = i" by (rule unat_of_nat32)
  let ?s = "s\<lparr>s_pointer_state := snd ?p\<rparr>"
  have "pump_packet True x y s = begin_drag (of_nat i) x y ?s"
    using assms(6,7,10,13) p i nth u by (simp add: pump_packet_def Let_def case_prod_beta)
  moreover note b = begin_drag_spec [of ?s i x y, simplified, OF assms(1) assms(10) [unfolded assms(8)], folded assms(8)]
  ultimately have s1: "s_desktop_layout s1 = move_window (lay_WindowCount (s_desktop_layout (begin_drag (of_nat i) x y ?s)) - 1)
      (x' - (x - win_X (ws ! i))) (y' - (y - win_Y (ws ! i))) (s_desktop_layout (begin_drag (of_nat i) x y ?s))" "s_dragging s1"
    using pump_packet_drag [OF b(1), of True x' y'] by (simp_all add: assms(15))
  have "windows (s_desktop_layout s1) = take i ws @ drop (Suc i) ws @
      [(ws ! i)\<lparr>win_X := drag_coord (win_X (ws ! i)) x x', win_Y := drag_coord (win_Y (ws ! i)) y y'\<rparr>]"
    using move_window_top [OF b(3), of "take i ws @ drop (Suc i) ws" "ws ! i"] b(2) by (simp add: s1 drag_coord_def Let_def)
  then show ?thesis using s1(2) pump_packet_drag [OF s1(2), of False x' y'] by (simp add: assms(16))
qed

lemma layout_demo_windows: "windows layout_demo = layout_windows" by (simp add: windows_def layout_demo_sel)

lemma layout_windows_covers:
  "length layout_windows = 5" "on_body 1040 82 (layout_windows ! 1)" "\<not> on_close 1040 82 (layout_windows ! 1)"
  "1 < j \<Longrightarrow> j < 5 \<Longrightarrow> \<not> covers 1040 82 (layout_windows ! j)"
proof -
  show "length layout_windows = 5" "on_body 1040 82 (layout_windows ! 1)" "\<not> on_close 1040 82 (layout_windows ! 1)"
    by (simp_all add: layout_windows_def on_close_def on_body_def InRect_def MakeWindow_def)
  assume "1 < j" "j < 5"
  then have "j = 2 \<or> j = 3 \<or> j = 4" by auto
  then show "\<not> covers 1040 82 (layout_windows ! j)"
    by (elim disjE) (simp_all add: layout_windows_def covers_def on_close_def on_body_def InRect_def MakeWindow_def)
qed

lemma drag_moves_window_witness:
  "map win_X (windows (s_desktop_layout (pump_packet False 1100 100 (pump_packet True 1100 100 (pump_packet True 1040 82 smgr_demo)))))
     = [228, 645, 1238, 430, 1075]"
proof -
  have s: "s_desktop_layout smgr_demo = layout_demo" "s_pointer_state smgr_demo = pointer_at 1700 560" "\<not> s_dragging smgr_demo"
    by (simp_all add: smgr_demo_def)
  have y: "(82 :: u32) < tb_Y (ComputeTaskbar 1920 1080 5)" by (simp add: ComputeTaskbar_def Let_def)
  let ?s1 = "pump_packet True 1100 100 (pump_packet True 1040 82 smgr_demo)"
  have m: "windows (s_desktop_layout (pump_packet False 1100 100 ?s1)) = take 1 layout_windows @ drop (Suc 1) layout_windows @
      [(layout_windows ! 1)\<lparr>win_X := drag_coord (win_X (layout_windows ! 1)) 1040 1100,
         win_Y := drag_coord (win_Y (layout_windows ! 1)) 82 100\<rparr>]"
  proof (rule conjunct1 [OF drag_moves_window [of smgr_demo layout_windows 82 1 1040 ?s1 1100 100]])
    show "82 < win_Y (layout_windows ! 1) + 32" by (simp add: layout_windows_def MakeWindow_def)
  qed (use layout_windows_covers y in \<open>simp_all add: s layout_demo_windows layout_demo_sel pointer_at_def\<close>)
  show ?thesis unfolding m by (simp add: layout_windows_def MakeWindow_def drag_coord_def)
qed

text \<open>The Start menu draws its eight entries in two rows of four, but the index of a click is
  computed from the height alone: a click on the tile of any entry of the first row opens Edge and
  one on any entry of the second row opens Files, so every entry but the first opens another
  application than the one drawn there.\<close>
theorem start_tile_opens_row:
  assumes "wf_layout (s_desktop_layout s)" "400 \<le> unat (lay_ScreenH (s_desktop_layout s))" "lay_StartMenuOpen (s_desktop_layout s)"
    "i < 8" "ty = tb_Y (ComputeTaskbar (lay_ScreenW (s_desktop_layout s)) (lay_ScreenH (s_desktop_layout s)) (lay_WindowCount (s_desktop_layout s)))"
    "(x0, y0) = tile_pos (menu_x (s_desktop_layout s)) (menu_y ty) i" "InRect px py x0 y0 48 48"
    "(k, n) = hit_target (s_desktop_layout s) px py"
  shows "win_Title (List.last (windows (s_desktop_layout (HandleShellClick k n s)))) =
      Some (if i < 4 then ''Edge'' else ''Files'') \<and>
    (i = 0 \<or> kStartApps ! unat i \<noteq> (if i < 4 then ''Edge'' else ''Files''))"
proof -
  have kn: "k = StartMenuTarget" "n = i div 4" using tile_index [OF assms(4,2,3,5,6,7)] assms(8) by simp_all
  have i8: "unat i < 8" using assms(4) by (simp add: word_less_nat_alt)
  have n: "unat n = unat i div 4" by (simp add: kn unat_div)
  have "unat n < 8" using i8 by (simp add: n)
  then have "n < 8" by (simp add: word_less_nat_alt)
  have lay: "s_desktop_layout (HandleShellClick k n s) =
      (open_window (Some (kStartApps ! unat n)) (s_desktop_layout s))\<lparr>lay_StartMenuOpen := False\<rparr>"
    using \<open>n < 8\<close> by (simp add: kn(1) SetStartMenu_def OpenWindow_def)
  have "win_Title (List.last (windows (s_desktop_layout (HandleShellClick k n s)))) = Some (kStartApps ! unat n)"
    using open_window_spec(2) [OF assms(1), of "Some (kStartApps ! unat n)"]
    by (simp add: lay windows_def Let_def new_window_def)
  moreover have "kStartApps ! unat n = (if i < 4 then ''Edge'' else ''Files'')"
  proof (cases "i < 4")
    case True
    then have "unat n = 0" by (simp add: n word_less_nat_alt)
    then show ?thesis using True by (simp add: kStartApps_def)
  next
    case False
    then have "unat n = 1" using i8 by (simp add: n word_less_nat_alt div_nat_eqI)
    then show ?thesis using False by (simp add: kStartApps_def)
  qed
  moreover have "i = 0 \<or> kStartApps ! unat i \<noteq> (if i < 4 then ''Edge'' else ''Files'')"
  proof -
    have "unat i \<in> {0, 1, 2, 3, 4, 5, 6, 7}" using i8 by auto
    moreover have "i < 4 \<longleftrightarrow> unat i < 4" "i = 0 \<longleftrightarrow> unat i = 0" by (simp_all add: word_less_nat_alt unat_eq_0)
    ultimately show ?thesis by (auto simp: kStartApps_def)
  qed
  ultimately show ?thesis by simp
qed

lemma start_tile_opens_row_witness:
  "win_Title (List.last (windows (s_desktop_layout (HandleShellClick StartMenuTarget 0 (SetStartMenu True smgr_demo))))) = Some ''Edge''"
proof -
  let ?s = "SetStartMenu True smgr_demo"
  have l: "s_desktop_layout ?s = layout_demo\<lparr>lay_StartMenuOpen := True\<rparr>" by (simp add: SetStartMenu_def smgr_demo_def)
  have t: "tb_Y (ComputeTaskbar 1920 1080 5) = 1032" by (simp add: ComputeTaskbar_def Let_def)
  have p: "menu_x (layout_demo\<lparr>lay_StartMenuOpen := True\<rparr>) = 640" "menu_y 1032 = 300"
    by (simp_all add: menu_x_def menu_y_def layout_demo_sel)
  have h: "hit_target (layout_demo\<lparr>lay_StartMenuOpen := True\<rparr>) 1010 440 = (StartMenuTarget, 0)"
    by (simp add: hit_target_def Let_def layout_demo_sel t hit_menu_def p InRect_def)
  have "wf_layout (layout_demo\<lparr>lay_StartMenuOpen := True\<rparr>)" using layout_demo_sel(8) by (simp add: wf_layout_def)
  then show ?thesis
    using start_tile_opens_row [of ?s 2 1032 998 432 1010 440 StartMenuTarget 0]
    by (simp add: l layout_demo_sel t p h tile_pos_def InRect_def Let_def)
qed

end
