(* ===== verification/PeImage.thy ===== *)
theory PeImage
  imports PeLoader
begin

text \<open>A whole image in an address space: a list of pages, each mapped to a frame of its own that
  holds the bytes given for it.  The step of the loader adds one page to it.\<close>

type_synonym page = "u64 \<times> (nat \<Rightarrow> u8)"

definition image_at :: "vmm \<Rightarrow> u64 \<Rightarrow> page list \<Rightarrow> bool" where
  "image_at s r ps \<longleftrightarrow> (\<exists>fs. length fs = length ps \<and> distinct fs \<and>
     (\<forall>k<length ps. page_at s r (fst (ps ! k)) (fs ! k) \<and> (\<forall>i<4096. rd8 s (fs ! k + of_nat i) = snd (ps ! k) i)))"

text \<open>The addresses of the pages lie on pairwise different pages.\<close>
definition disjoint_pages :: "page list \<Rightarrow> bool" where
  "disjoint_pages ps \<longleftrightarrow> (\<forall>k l. k < length ps \<and> l < length ps \<and> same_page (fst (ps ! k)) (fst (ps ! l)) \<longrightarrow> k = l)"

definition on_pages :: "u64 \<Rightarrow> page list \<Rightarrow> bool" where
  "on_pages v ps \<longleftrightarrow> (\<exists>p\<in>set ps. same_page v (fst p))"

lemma disjoint_pages_snoc: "disjoint_pages (ps @ [p]) \<Longrightarrow> disjoint_pages ps \<and> \<not> on_pages (fst p) ps"
  unfolding disjoint_pages_def on_pages_def
proof (intro conjI allI impI notI; (elim conjE)?)
  assume d: "\<forall>k l. k < length (ps @ [p]) \<and> l < length (ps @ [p]) \<and> same_page (fst ((ps @ [p]) ! k)) (fst ((ps @ [p]) ! l)) \<longrightarrow> k = l"
  show "k = l" if "k < length ps" "l < length ps" "same_page (fst (ps ! k)) (fst (ps ! l))" for k l
    using d [rule_format, of k l] that by (simp add: nth_append)
  show False if ex: "\<exists>q\<in>set ps. same_page (fst p) (fst q)"
  proof -
    obtain q where q: "q \<in> set ps" "same_page (fst p) (fst q)" using ex by blast
    then obtain k where "k < length ps" "ps ! k = q" by (auto simp: in_set_conv_nth)
    then have "k < length ps" "same_page (fst p) (fst (ps ! k))" using q by simp_all
    then show False using d [rule_format, of "length ps" k] by (simp add: nth_append)
  qed
qed

lemma image_at_Nil [simp]: "image_at s r []" by (simp add: image_at_def)

lemma image_at_byte:
  assumes "image_at s r ps" "p \<in> set ps" "same_page v (fst p)"
  shows "rd8 s (TranslateInPml4 r v s) = snd p (unat (v AND 0xFFF))"
proof -
  obtain fs k where k: "k < length ps" "p = ps ! k" "page_at s r (fst p) (fs ! k)"
    "\<forall>i<4096. rd8 s (fs ! k + of_nat i) = snd p i"
    using assms(1,2) by (auto simp: image_at_def in_set_conv_nth)
  have "TranslateInPml4 r v s = fs ! k + of_nat (unat (v AND 0xFFF))"
    using k(3) assms(3) by (simp add: page_at_def)
  then show ?thesis using k(4) [rule_format, OF page_offset_lt] by simp
qed

text \<open>Pages that stay where they are, with their bytes, in a later state.\<close>
lemma image_at_keep:
  assumes "image_at s r ps"
    and "\<And>w d. w \<in> fst ` set ps \<Longrightarrow> page_at s r w d \<Longrightarrow> page_at s' r w d"
    and "\<And>d i. data_frame s r d \<Longrightarrow> i < 4096 \<Longrightarrow> rd8 s' (d + of_nat i) = rd8 s (d + of_nat i)"
  shows "image_at s' r ps"
proof -
  obtain fs where fs: "length fs = length ps" "distinct fs"
    "\<And>k. k < length ps \<Longrightarrow> page_at s r (fst (ps ! k)) (fs ! k)"
    "\<And>k i. k < length ps \<Longrightarrow> i < 4096 \<Longrightarrow> rd8 s (fs ! k + of_nat i) = snd (ps ! k) i"
    using assms(1) by (auto simp: image_at_def)
  have "page_at s' r (fst (ps ! k)) (fs ! k) \<and> (\<forall>i<4096. rd8 s' (fs ! k + of_nat i) = snd (ps ! k) i)"
    if "k < length ps" for k
    using assms(2) [OF _ fs(3) [OF that]] assms(3) fs(3,4) [OF that] that by (auto simp: page_at_def)
  then show ?thesis using fs(1,2) unfolding image_at_def by blast
qed

section \<open>Adding a page\<close>

text \<open>A routine that writes the bytes g into the frame it is given, and nothing else.\<close>
definition fills :: "(u64 \<Rightarrow> vmm \<Rightarrow> vmm) \<Rightarrow> (nat \<Rightarrow> u8) \<Rightarrow> bool" where
  "fills fill g \<longleftrightarrow> (\<forall>f s. f \<in> pmm_all_frames \<longrightarrow> writes_only s f (fill f s) \<and> (\<forall>i<4096. rd8 (fill f s) (f + of_nat i) = g i))"

lemma map_filled_step:
  assumes wf: "pt_wf st r" and M: "map_filled r va flags fill st = (res, st')" and fl: "flags AND PTE_ADDR_MASK = 0"
    and F: "fills fill g"
  shows "pt_wf st' r" "res = STATUS_SUCCESS \<or> res = STATUS_INSUFFICIENT_RESOURCES"
    "\<not> (res = STATUS_SUCCESS \<and> same_page v va) \<Longrightarrow> TranslateInPml4 r v st' = TranslateInPml4 r v st"
    "image_at st r ps \<Longrightarrow> \<not> on_pages va ps \<Longrightarrow> image_at st' r (if res = STATUS_SUCCESS then ps @ [(va, g)] else ps)"
proof -
  obtain f s1 where A: "alloc_page st = (f, s1)" by fastforce
  have "pt_wf st' r \<and> (res = STATUS_SUCCESS \<or> res = STATUS_INSUFFICIENT_RESOURCES)
    \<and> (\<forall>v. \<not> (res = STATUS_SUCCESS \<and> same_page v va) \<longrightarrow> TranslateInPml4 r v st' = TranslateInPml4 r v st)
    \<and> (image_at st r ps \<longrightarrow> \<not> on_pages va ps \<longrightarrow> image_at st' r (if res = STATUS_SUCCESS then ps @ [(va, g)] else ps))"
  proof (cases "f = 0")
    case True
    have "pmm_inv (vm_pmm st)" using wf by (simp add: pt_wf_def)
    then have "s1 = st" using alloc_page_none A True by blast
    then show ?thesis using M A True wf by (auto simp: map_filled_def STATUS_SUCCESS_def STATUS_INSUFFICIENT_RESOURCES_def)
  next
    case False
    have fa: "f \<in> pmm_all_frames" using alloc_page_frame [OF _ A False] wf by (simp add: pt_wf_def)
    then have W: "writes_only s1 f (fill f s1)" and B: "\<And>i. i < 4096 \<Longrightarrow> rd8 (fill f s1) (f + of_nat i) = g i"
      using F by (auto simp: fills_def)
    obtain b s3 where P: "MapPageInto r va f flags (fill f s1) = (b, s3)" by fastforce
    note S = map_data_page [OF wf A False W P fl]
    note Z = FreePage_data [OF S(1,3)]
    have new: "f \<noteq> d" if "page_at st r w d" for w d
      using alloc_page_frame(2) [OF _ A False] wf that by (auto simp: pt_wf_def page_at_def data_frame_def)
    have old: "rd8 s3 (d + of_nat i) = rd8 st (d + of_nat i)" if "data_frame st r d" "i < 4096" for d i
      by (rule rd8_frame_cong) (use that S(6) in \<open>auto simp: data_frame_def dest: used_frame\<close>)
    show ?thesis
    proof (cases b)
      case True
      then have e: "res = STATUS_SUCCESS" "st' = s3" using M A False P by (auto simp: map_filled_def)
      have fb: "rd8 s3 (f + of_nat i) = g i" if "i < 4096" for i
        using rd8_frame_cong [OF fa that S(7)] B [OF that] by simp
      have "image_at s3 r (ps @ [(va, g)])" if im: "image_at st r ps" and on: "\<not> on_pages va ps"
      proof -
        obtain fs where fs: "length fs = length ps" "distinct fs"
          "\<And>k. k < length ps \<Longrightarrow> page_at st r (fst (ps ! k)) (fs ! k)"
          "\<And>k i. k < length ps \<Longrightarrow> i < 4096 \<Longrightarrow> rd8 st (fs ! k + of_nat i) = snd (ps ! k) i"
          using im by (auto simp: image_at_def)
        have "f \<notin> set fs" using new fs(1,3) by (metis in_set_conv_nth)
        moreover have "page_at s3 r (fst (ps ! k)) (fs ! k) \<and> (\<forall>i<4096. rd8 s3 (fs ! k + of_nat i) = snd (ps ! k) i)"
          if k: "k < length ps" for k
        proof -
          have "\<not> same_page (fst (ps ! k)) va" using on k nth_mem by (fastforce simp: on_pages_def same_page_def)
          then show ?thesis using S(9) [OF fs(3) [OF k]] old fs(3,4) [OF k] by (auto simp: page_at_def)
        qed
        ultimately have "length (fs @ [f]) = length (ps @ [(va, g)]) \<and> distinct (fs @ [f]) \<and>
          (\<forall>k<length (ps @ [(va, g)]). page_at s3 r (fst ((ps @ [(va, g)]) ! k)) ((fs @ [f]) ! k)
             \<and> (\<forall>i<4096. rd8 s3 ((fs @ [f]) ! k + of_nat i) = snd ((ps @ [(va, g)]) ! k) i))"
          using fs(1,2) S(8) [OF True] fb by (auto simp: nth_append less_Suc_eq)
        then show ?thesis unfolding image_at_def by blast
      qed
      then show ?thesis using e S(1,4) by auto
    next
      case nb: False
      let ?s = "s3\<lparr>vm_pmm := FreePage f (vm_pmm s3)\<rparr>"
      have e: "res = STATUS_INSUFFICIENT_RESOURCES" "st' = ?s" using M A False P nb by (auto simp: map_filled_def)
      have "image_at ?s r ps" if "image_at st r ps"
      proof (rule image_at_keep [OF that])
        show "page_at ?s r w d" if "w \<in> fst ` set ps" "page_at st r w d" for w d
          using S(9) [OF that(2)] nb new [OF that(2)] Z(2,3,4) by (auto simp: page_at_def data_frame_def)
        show "rd8 ?s (d + of_nat i) = rd8 st (d + of_nat i)" if "data_frame st r d" "i < 4096" for d i
          using old [OF that] by (simp add: Z(5))
      qed
      then show ?thesis using e Z(1,2) S(4) nb by (auto simp: STATUS_SUCCESS_def STATUS_INSUFFICIENT_RESOURCES_def)
    qed
  qed
  then show "pt_wf st' r" "res = STATUS_SUCCESS \<or> res = STATUS_INSUFFICIENT_RESOURCES"
    "\<not> (res = STATUS_SUCCESS \<and> same_page v va) \<Longrightarrow> TranslateInPml4 r v st' = TranslateInPml4 r v st"
    "image_at st r ps \<Longrightarrow> \<not> on_pages va ps \<Longrightarrow> image_at st' r (if res = STATUS_SUCCESS then ps @ [(va, g)] else ps)"
    by blast+
qed

section \<open>The pages of an image\<close>

text \<open>The bytes of the header page, and of page pg of section s: file bytes as long as the file
  goes on, whatever the raw size says about the last page.\<close>
definition header_byte :: "blob \<Rightarrow> u64 \<Rightarrow> nat \<Rightarrow> u8" where
  "header_byte img pe_size i = (if i < unat pe_size then img (of_nat i) else 0)"

definition section_byte :: "blob \<Rightarrow> u64 \<Rightarrow> nat \<Rightarrow> nat \<Rightarrow> nat \<Rightarrow> u8" where
  "section_byte img pe_size s pg i =
    (if i < unat (copy_len img pe_size s pg) then img (page_file_off img s pg + of_nat i) else 0)"

definition section_pages :: "blob \<Rightarrow> u64 \<Rightarrow> u64 \<Rightarrow> nat \<Rightarrow> nat \<Rightarrow> nat \<Rightarrow> page list" where
  "section_pages img pe_size load_base s pg n =
     map (\<lambda>p. (load_base + ucast (v_rva img s) + of_nat (p * PAGE_SIZE), section_byte img pe_size s p)) [pg..<pg + n]"

definition sections_pages :: "blob \<Rightarrow> u64 \<Rightarrow> u64 \<Rightarrow> nat \<Rightarrow> nat \<Rightarrow> page list" where
  "sections_pages img pe_size load_base s n = concat (map (\<lambda>s. if v_size img s = 0 \<or> v_rva img s = 0 then []
      else section_pages img pe_size load_base s 0 (sect_pages img s)) [s..<s + n])"

definition image_pages :: "blob \<Rightarrow> u64 \<Rightarrow> u64 \<Rightarrow> page list" where
  "image_pages img pe_size load_base =
     (load_base, header_byte img pe_size) # sections_pages img pe_size load_base 0 (num_sects img)"

lemma fills_header: "fills (fill_header img pe_size) (header_byte img pe_size)"
  unfolding fills_def
proof (intro allI impI conjI)
  fix f s assume f: "f \<in> pmm_all_frames"
  show "writes_only s f (fill_header img pe_size f s)"
    using wr_bytes_only [OF f, of 0 4096] by (simp add: fill_header_def PAGE_SIZE_def Let_def)
  fix i :: nat assume i: "i < 4096"
  have u: "unat (of_nat i :: u64) = i" using i by (intro unat_of_nat64) simp
  have "of_nat i < (if pe_size < 4096 then pe_size else 4096) \<longleftrightarrow> i < unat pe_size"
    using i u by (auto simp: word_less_nat_alt)
  then show "rd8 (fill_header img pe_size f s) (f + of_nat i) = header_byte img pe_size i"
    using i u by (cases "pe_size < 4096") (simp_all add: fill_header_def header_byte_def rd8_wr_bytes PAGE_SIZE_def Let_def)
qed

lemma copy_len_le: "unat (copy_len img pe_size s pg) \<le> 4096"
proof -
  define fo where "fo = page_file_off img s pg"
  have "pe_size - fo \<le> 4096" if "fo < pe_size" "pe_size < fo + 4096"
  proof -
    have "unat (fo + 4096) \<le> unat fo + 4096" by (simp add: unat_word_ariths)
    then show ?thesis using that by (simp add: word_le_nat_alt word_less_nat_alt unat_sub)
  qed
  then show ?thesis by (auto simp: copy_len_def Let_def PAGE_SIZE_def word_le_nat_alt fo_def)
qed

lemma fills_section: "fills (fill_section img pe_size s pg) (section_byte img pe_size s pg)"
  unfolding fills_def
proof (intro allI impI conjI)
  fix f st assume f: "f \<in> pmm_all_frames"
  let ?n = "unat (copy_len img pe_size s pg)"
  have "writes_only (zero_page f st) f (fill_section img pe_size s pg f st)"
    using wr_bytes_only [OF f, of 0 ?n] copy_len_le by (simp add: fill_section_def)
  then show "writes_only st f (fill_section img pe_size s pg f st)"
    using zero_page_only [OF f] by (rule writes_in_trans [rotated])
  fix i :: nat assume i: "i < 4096"
  have u: "unat (of_nat i :: u64) = i" using i by (intro unat_of_nat64) simp
  have "?n < 2 ^ 64" using copy_len_le [of img pe_size s pg] by simp
  then show "rd8 (fill_section img pe_size s pg f st) (f + of_nat i) = section_byte img pe_size s pg i"
    using u by (simp add: fill_section_def section_byte_def rd8_wr_bytes rd8_zero_page [OF i])
qed

lemma SectionPteFlags_addr: "SectionPteFlags c AND PTE_ADDR_MASK = 0"
  by (simp add: SectionPteFlags_def PTE_ADDR_MASK_def PTE_PRESENT_def PTE_USER_def PTE_WRITABLE_def Let_def)

section \<open>What loading does\<close>

text \<open>From an address space with pages ps, pages qs were added; on a failure a part of them.\<close>
definition loaded :: "vmm \<Rightarrow> u64 \<Rightarrow> page list \<Rightarrow> page list \<Rightarrow> NTSTATUS \<Rightarrow> vmm \<Rightarrow> bool" where
  "loaded st r ps qs res st' \<longleftrightarrow> pt_wf st' r
     \<and> (\<forall>v. \<not> on_pages v qs \<longrightarrow> TranslateInPml4 r v st' = TranslateInPml4 r v st)
     \<and> (if res = STATUS_SUCCESS then image_at st' r (ps @ qs)
        else res = STATUS_INSUFFICIENT_RESOURCES \<and> (\<exists>k. image_at st' r (ps @ take k qs)))"

lemma on_pages_simps [simp]: "\<not> on_pages v []" "on_pages v (p # ps) \<longleftrightarrow> same_page v (fst p) \<or> on_pages v ps"
  "on_pages v (ps @ qs) \<longleftrightarrow> on_pages v ps \<or> on_pages v qs"
  by (auto simp: on_pages_def)

lemma loaded_Nil: "pt_wf st r \<Longrightarrow> image_at st r ps \<Longrightarrow> loaded st r ps [] STATUS_SUCCESS st"
  by (simp add: loaded_def)

lemma loaded_append:
  "loaded st r ps qs STATUS_SUCCESS st1 \<Longrightarrow> loaded st1 r (ps @ qs) qs' res st2 \<Longrightarrow> loaded st r ps (qs @ qs') res st2"
proof -
  assume a: "loaded st r ps qs STATUS_SUCCESS st1" "loaded st1 r (ps @ qs) qs' res st2"
  have "\<exists>k. image_at st2 r (ps @ take k (qs @ qs'))" if "image_at st2 r ((ps @ qs) @ take k qs')" for k
    using that by (intro exI [of _ "length qs + k"]) simp
  then show ?thesis using a by (auto simp: loaded_def split: if_splits)
qed

lemma loaded_stop:
  assumes "loaded st r ps qs res st1" "res \<noteq> STATUS_SUCCESS" shows "loaded st r ps (qs @ qs') res st1"
proof -
  obtain k where "image_at st1 r (ps @ take k qs)" using assms by (auto simp: loaded_def)
  then have "image_at st1 r (ps @ take (min k (length qs)) (qs @ qs'))"
    by (cases "k \<le> length qs") (simp_all add: min_def)
  then have "\<exists>k. image_at st1 r (ps @ take k (qs @ qs'))" by blast
  then show ?thesis using assms by (simp add: loaded_def del: take_append)
qed

lemma disjoint_pages_append: "disjoint_pages (ps @ qs) \<Longrightarrow> disjoint_pages ps"
  by (induction qs rule: rev_induct) (auto simp flip: append_assoc dest: disjoint_pages_snoc)

lemma map_filled_loaded:
  assumes wf: "pt_wf st r" "image_at st r ps" and d: "disjoint_pages (ps @ [(va, g)])"
    and M: "map_filled r va flags fill st = (res, st')" "flags AND PTE_ADDR_MASK = 0" "fills fill g"
  shows "loaded st r ps [(va, g)] res st'"
proof -
  note S = map_filled_step [OF wf(1) M]
  have "\<not> on_pages va ps" using disjoint_pages_snoc [OF d] by simp
  note I = S(4) [OF wf(2) this]
  have "\<exists>k. image_at st' r (ps @ take k [(va, g)])" if "res \<noteq> STATUS_SUCCESS"
    using I that by (intro exI [of _ 0]) simp
  then show ?thesis using S(1-3) I by (auto simp: loaded_def)
qed

lemma map_pages_loaded:
  assumes "pt_wf st r" "image_at st r ps" "disjoint_pages (ps @ section_pages img pe_size load_base s pg n)"
    and "map_pages img pe_size r load_base s pg n st = (res, st')"
  shows "loaded st r ps (section_pages img pe_size load_base s pg n) res st'"
  using assms
proof (induction n arbitrary: pg st ps)
  case 0
  then show ?case by (auto simp: section_pages_def intro: loaded_Nil)
next
  case (Suc n)
  let ?p = "(load_base + ucast (v_rva img s) + of_nat (pg * PAGE_SIZE), section_byte img pe_size s pg)"
  have sp: "section_pages img pe_size load_base s pg (Suc n) = [?p] @ section_pages img pe_size load_base s (pg + 1) n"
    by (simp add: section_pages_def upt_conv_Cons del: upt_Suc)
  obtain r1 st1 where m: "map_filled r (fst ?p) (SectionPteFlags (sect_chars img s)) (fill_section img pe_size s pg) st = (r1, st1)"
    by fastforce
  have d: "disjoint_pages ((ps @ [?p]) @ section_pages img pe_size load_base s (pg + 1) n)" using Suc.prems(3) by (simp add: sp)
  note L = map_filled_loaded [OF Suc.prems(1,2) _ m SectionPteFlags_addr fills_section, OF disjoint_pages_append]
  have l: "loaded st r ps [?p] r1 st1" using L [of "section_pages img pe_size load_base s (pg + 1) n"] d by simp
  show ?case
  proof (cases "r1 = STATUS_SUCCESS")
    case True
    then have m2: "map_pages img pe_size r load_base s (pg + 1) n st1 = (res, st')" using Suc.prems(4) m by (simp add: Let_def)
    have "pt_wf st1 r" "image_at st1 r (ps @ [?p])" using l True by (simp_all add: loaded_def)
    from Suc.IH [OF this d m2] show ?thesis using l True unfolding sp by (blast intro: loaded_append)
  next
    case False
    then show ?thesis using loaded_stop [OF l] m Suc.prems(4) unfolding sp by (simp add: Let_def)
  qed
qed

lemma map_sections_loaded:
  assumes "pt_wf st r" "image_at st r ps" "disjoint_pages (ps @ sections_pages img pe_size load_base s n)"
    and "map_sections img pe_size r load_base s n st = (res, st')"
  shows "loaded st r ps (sections_pages img pe_size load_base s n) res st'"
  using assms
proof (induction n arbitrary: s st ps)
  case 0
  then show ?case by (auto simp: sections_pages_def intro: loaded_Nil)
next
  case (Suc n)
  let ?q = "section_pages img pe_size load_base s 0 (sect_pages img s)"
  let ?rest = "sections_pages img pe_size load_base (s + 1) n"
  have sp: "sections_pages img pe_size load_base s (Suc n) = (if v_size img s = 0 \<or> v_rva img s = 0 then [] else ?q) @ ?rest"
    by (simp add: sections_pages_def upt_conv_Cons del: upt_Suc)
  show ?case
  proof (cases "v_size img s = 0 \<or> v_rva img s = 0")
    case True
    then show ?thesis using Suc by (auto simp: sp)
  next
    case False
    then have sp: "sections_pages img pe_size load_base s (Suc n) = ?q @ ?rest" by (simp add: sp)
    obtain r1 st1 where m: "map_pages img pe_size r load_base s 0 (sect_pages img s) st = (r1, st1)" by fastforce
    have d: "disjoint_pages ((ps @ ?q) @ ?rest)" using Suc.prems(3) by (simp add: sp)
    have l: "loaded st r ps ?q r1 st1" by (rule map_pages_loaded [OF Suc.prems(1,2) disjoint_pages_append [OF d] m])
    show ?thesis
    proof (cases "r1 = STATUS_SUCCESS")
      case True
      then have m2: "map_sections img pe_size r load_base (s + 1) n st1 = (res, st')" using Suc.prems(4) m False by simp
      have "pt_wf st1 r" "image_at st1 r (ps @ ?q)" using l True by (simp_all add: loaded_def)
      from Suc.IH [OF this d m2] show ?thesis using l True unfolding sp by (blast intro: loaded_append)
    next
      case r1: False
      then show ?thesis using loaded_stop [OF l r1] m Suc.prems(4) False unfolding sp by simp
    qed
  qed
qed

lemma MapSections_loaded:
  assumes "pt_wf st r" "disjoint_pages (image_pages img pe_size load_base)"
    and "MapSections img pe_size r load_base st = (res, st')"
  shows "loaded st r [] (image_pages img pe_size load_base) res st'"
proof -
  let ?p = "(load_base, header_byte img pe_size)" and ?rest = "sections_pages img pe_size load_base 0 (num_sects img)"
  have ip: "image_pages img pe_size load_base = [?p] @ ?rest" by (simp add: image_pages_def)
  have fl: "(PTE_PRESENT OR PTE_USER) AND PTE_ADDR_MASK = 0" by (simp add: PTE_ADDR_MASK_def PTE_PRESENT_def PTE_USER_def)
  obtain r1 st1 where m: "map_filled r load_base (PTE_PRESENT OR PTE_USER) (fill_header img pe_size) st = (r1, st1)" by fastforce
  have d: "disjoint_pages (([] @ [?p]) @ ?rest)" using assms(2) by (simp add: ip)
  have l: "loaded st r [] [?p] r1 st1"
    by (rule map_filled_loaded [OF assms(1) image_at_Nil disjoint_pages_append [OF d] m fl fills_header])
  show ?thesis
  proof (cases "r1 = STATUS_SUCCESS")
    case True
    then have m2: "map_sections img pe_size r load_base 0 (num_sects img) st1 = (res, st')"
      using assms(3) m by (simp add: MapSections_def)
    have "pt_wf st1 r" "image_at st1 r ([] @ [?p])" using l True by (simp_all add: loaded_def)
    from map_sections_loaded [OF this d m2] show ?thesis using l True unfolding ip by (blast intro: loaded_append)
  next
    case False
    then show ?thesis using loaded_stop [OF l] m assms(3) unfolding ip by (simp add: MapSections_def)
  qed
qed

section \<open>When loading succeeds\<close>

lemma map_filled_room:
  assumes wf: "pt_wf st r" and R: "room st r (va # vas)"
    and M: "map_filled r va flags fill st = (res, st')" and F: "fills fill g"
  shows "res = STATUS_SUCCESS" "room st' r vas"
proof -
  obtain f s1 where A: "alloc_page st = (f, s1)" by fastforce
  have f0: "f \<noteq> 0" by (rule alloc_page_room [OF wf R A])
  have "f \<in> pmm_all_frames" using alloc_page_frame(1) [OF _ A f0] wf by (simp add: pt_wf_def)
  then have W: "writes_only s1 f (fill f s1)" using F by (simp add: fills_def)
  obtain b s3 where P: "MapPageInto r va f flags (fill f s1) = (b, s3)" by fastforce
  note S = map_data_page_room [OF wf R A W P empty_subsetI]
  have "res = STATUS_SUCCESS \<and> st' = s3" using M A f0 P S(1) by (auto simp: map_filled_def)
  then show "res = STATUS_SUCCESS" "room st' r vas" using S(2) by simp_all
qed

lemma map_pages_room:
  assumes "pt_wf st r" "room st r (map fst (section_pages img pe_size load_base s pg n) @ vas)"
    and "map_pages img pe_size r load_base s pg n st = (res, st')"
  shows "res = STATUS_SUCCESS" "pt_wf st' r" "room st' r vas"
proof -
  have "res = STATUS_SUCCESS \<and> pt_wf st' r \<and> room st' r vas" using assms
  proof (induction n arbitrary: pg st)
    case 0 then show ?case by (auto simp: section_pages_def)
  next
    case (Suc n)
    let ?va = "load_base + ucast (v_rva img s) + of_nat (pg * PAGE_SIZE)"
    have sp: "map fst (section_pages img pe_size load_base s pg (Suc n)) @ vas = ?va # map fst (section_pages img pe_size load_base s (pg + 1) n) @ vas"
      by (simp add: section_pages_def upt_conv_Cons del: upt_Suc)
    obtain r1 st1 where m: "map_filled r ?va (SectionPteFlags (sect_chars img s)) (fill_section img pe_size s pg) st = (r1, st1)"
      by fastforce
    have R: "room st r (?va # map fst (section_pages img pe_size load_base s (pg + 1) n) @ vas)" using Suc.prems(2) by (simp only: sp)
    note S = map_filled_room [OF Suc.prems(1) R m fills_section]
    have "pt_wf st1 r" by (rule map_filled_step(1) [OF Suc.prems(1) m SectionPteFlags_addr fills_section])
    then show ?case using Suc.IH [OF _ S(2)] Suc.prems(3) m S(1) by (simp add: Let_def)
  qed
  then show "res = STATUS_SUCCESS" "pt_wf st' r" "room st' r vas" by blast+
qed

lemma map_sections_room:
  assumes "pt_wf st r" "room st r (map fst (sections_pages img pe_size load_base s n))"
    and "map_sections img pe_size r load_base s n st = (res, st')"
  shows "res = STATUS_SUCCESS"
  using assms
proof (induction n arbitrary: s st)
  case (Suc n)
  let ?q = "section_pages img pe_size load_base s 0 (sect_pages img s)"
  let ?rest = "sections_pages img pe_size load_base (s + 1) n"
  have sp: "sections_pages img pe_size load_base s (Suc n) = (if v_size img s = 0 \<or> v_rva img s = 0 then [] else ?q) @ ?rest"
    by (simp add: sections_pages_def upt_conv_Cons del: upt_Suc)
  obtain r1 st1 where m: "map_pages img pe_size r load_base s 0 (sect_pages img s) st = (r1, st1)" by fastforce
  show ?case
  proof (cases "v_size img s = 0 \<or> v_rva img s = 0")
    case True
    then show ?thesis using Suc by (auto simp: sp)
  next
    case False
    then have "room st r (map fst ?q @ map fst ?rest)" using Suc.prems(2) sp by simp
    note S = map_pages_room [OF Suc.prems(1) this m]
    show ?thesis using Suc.IH [OF S(2,3)] Suc.prems(3) m S(1) False by simp
  qed
qed simp

lemma MapSections_room:
  assumes "pt_wf st r" "room st r (map fst (image_pages img pe_size load_base))"
    and "MapSections img pe_size r load_base st = (res, st')"
  shows "res = STATUS_SUCCESS"
proof -
  let ?p = "(load_base, header_byte img pe_size)"
  have fl: "(PTE_PRESENT OR PTE_USER) AND PTE_ADDR_MASK = 0" by (simp add: PTE_ADDR_MASK_def PTE_PRESENT_def PTE_USER_def)
  obtain r1 st1 where m: "map_filled r load_base (PTE_PRESENT OR PTE_USER) (fill_header img pe_size) st = (r1, st1)" by fastforce
  have R: "room st r (load_base # map fst (sections_pages img pe_size load_base 0 (num_sects img)))"
    using assms(2) by (simp add: image_pages_def)
  note S = map_filled_room [OF assms(1) R m fills_header]
  have "pt_wf st1 r" by (rule map_filled_step(1) [OF assms(1) m fl fills_header])
  from map_sections_room [OF this S(2)] show ?thesis using assms(3) m S(1) by (simp add: MapSections_def)
qed

section \<open>Patching the import address table\<close>

text \<open>What one patch does, for a slot at a multiple of 8 on a page of the image.\<close>
lemma PatchIATSlot_step:
  assumes wf: "pt_wf s r" and p: "page_at s r w f" "same_page va w" "va AND 7 = 0"
  defines "ph \<equiv> TranslateInPml4 r va s"
  shows "ph = f + (va AND 0xFFF)" "ph AND 7 = 0"
    "PatchIATSlot r va x s = (True, wr64 ph x (wr64 ph x s))"
    "writes_only s f (wr64 ph x (wr64 ph x s))" "data_frame s r f"
proof -
  have d: "data_frame s r f" and ph: "ph = f + (va AND 0xFFF)" using p by (simp_all add: page_at_def ph_def)
  have f: "f \<in> pmm_all_frames" "f \<noteq> 0" using d by (auto simp: data_frame_def dest: used_frame)
  note A = frame_offset_aligned [OF f(1) p(3)]
  show "ph = f + (va AND 0xFFF)" "data_frame s r f" by (rule ph d)+
  show "ph AND 7 = 0" using A(1) ph by simp
  have nz: "TranslateInPml4 r va s \<noteq> 0" using A(3) [OF f(2)] ph by (simp add: ph_def)
  then show "PatchIATSlot r va x s = (True, wr64 ph x (wr64 ph x s))"
    by (simp add: PatchIATSlot_def Let_def ph_def)
  have e: "ph = f + of_nat (unat (va AND 0xFFF))" using ph by simp
  show "writes_only s f (wr64 ph x (wr64 ph x s))" unfolding e
    by (rule writes_in_trans [OF wr64_frame [OF f(1) A(2)] wr64_frame [OF f(1) A(2)]])
qed

section \<open>The thunks of one import descriptor\<close>

definition thunk_at :: "blob \<Rightarrow> u32 \<Rightarrow> nat \<Rightarrow> u64" where
  "thunk_at img int_off k = ld64 img (ucast int_off + ucast (of_nat k * 8 :: u32))"

definition slot_va :: "u64 \<Rightarrow> u32 \<Rightarrow> nat \<Rightarrow> u64" where
  "slot_va load_base iat_rva k = load_base + ucast iat_rva + ucast (of_nat k * 8 :: u32)"

text \<open>Thunk k imports by name; the name.\<close>
definition by_name :: "blob \<Rightarrow> u32 \<Rightarrow> nat \<Rightarrow> bool" where
  "by_name img int_off k \<longleftrightarrow> \<not> bit (thunk_at img int_off k) 63 \<and> rva_to_off img (ucast (thunk_at img int_off k)) \<noteq> 0"

definition import_name :: "blob \<Rightarrow> u32 \<Rightarrow> nat \<Rightarrow> blob" where
  "import_name img int_off k = str_at img (ucast (rva_to_off img (ucast (thunk_at img int_off k))) + 2)"

text \<open>The slots lie at multiples of 8 on pages of the image, each at an address of its own.\<close>
definition iat_ok :: "vmm \<Rightarrow> u64 \<Rightarrow> (nat \<Rightarrow> bool) \<Rightarrow> (nat \<Rightarrow> u64) \<Rightarrow> nat \<Rightarrow> bool" where
  "iat_ok st r named slot n \<longleftrightarrow>
    (\<forall>k<n. named k \<longrightarrow> slot k AND 7 = 0 \<and> (\<exists>w f. page_at st r w f \<and> same_page (slot k) w))
    \<and> (\<forall>k l. k < n \<and> l < n \<and> named k \<and> named l \<and> TranslateInPml4 r (slot k) st = TranslateInPml4 r (slot l) st \<longrightarrow> k = l)"

text \<open>The state after the slots ks were patched with the addresses va.\<close>
definition patched :: "vmm \<Rightarrow> u64 \<Rightarrow> (nat \<Rightarrow> u64) \<Rightarrow> (nat \<Rightarrow> u64) \<Rightarrow> nat set \<Rightarrow> vmm \<Rightarrow> bool" where
  "patched st r slot va ks st' \<longleftrightarrow> pt_wf st' r
    \<and> (\<forall>v. TranslateInPml4 r v st' = TranslateInPml4 r v st) \<and> (\<forall>w f. page_at st' r w f = page_at st r w f)
    \<and> (\<forall>k\<in>ks. rd64 st' (TranslateInPml4 r (slot k) st) = va k)
    \<and> (\<forall>a. (\<forall>k\<in>ks. 8 \<le> unat (a - TranslateInPml4 r (slot k) st)) \<longrightarrow> rd8 st' a = rd8 st a)"

lemma patched_step:
  assumes ok: "iat_ok st r named slot n" and ks: "ks \<subseteq> {k. k < n \<and> named k}" "k < n" "named k" "k \<notin> ks"
    and P: "patched st r slot va ks s"
  shows "\<exists>s'. PatchIATSlot r (slot k) (va k) s = (True, s') \<and> patched st r slot va (insert k ks) s'"
proof -
  let ?t = "\<lambda>k. TranslateInPml4 r (slot k) st"
  have wf: "pt_wf s r" and tr: "\<And>v. TranslateInPml4 r v s = TranslateInPml4 r v st"
    and pg: "\<And>w f. page_at s r w f = page_at st r w f"
    and vals: "\<And>j. j \<in> ks \<Longrightarrow> rd64 s (?t j) = va j"
    and rest: "\<And>a. (\<forall>j\<in>ks. 8 \<le> unat (a - ?t j)) \<Longrightarrow> rd8 s a = rd8 st a" using P by (simp_all add: patched_def)
  obtain w f where k: "slot k AND 7 = 0" "page_at st r w f" "same_page (slot k) w"
    using ok ks(2,3) by (auto simp: iat_ok_def)
  have kp: "page_at s r w f" using k(2) pg by simp
  note S = PatchIATSlot_step [OF wf kp k(3,1), unfolded tr]
  define s' where "s' = wr64 (?t k) (va k) (wr64 (?t k) (va k) s)"
  note D = write_data_frame [OF wf S(5), of s'] S(4) [of "va k", folded s'_def]
  have al: "?t j AND 7 = 0" if "j < n" "named j" for j
  proof -
    obtain w' f' where j: "slot j AND 7 = 0" "page_at st r w' f'" "same_page (slot j) w'" using ok \<open>j < n\<close> \<open>named j\<close> by (auto simp: iat_ok_def)
    have "page_at s r w' f'" using j(2) pg by simp
    from PatchIATSlot_step(2) [OF wf this j(3,1)] show ?thesis by (simp add: tr)
  qed
  have ne: "?t j \<noteq> ?t k" if "j \<in> ks" for j
    using ok that ks unfolding iat_ok_def by (metis (no_types, lifting) mem_Collect_eq subsetD)
  have "rd64 s' (?t j) = va j" if j: "j \<in> ks" for j
  proof -
    have "?t j AND 7 = 0" "?t k AND 7 = 0" using al j ks by auto
    then show ?thesis using vals [OF j] ne [OF j] by (simp add: s'_def rd64_wr64_other)
  qed
  moreover have "rd64 s' (?t k) = va k" by (simp add: s'_def rd64_wr64)
  moreover have "rd8 s' a = rd8 st a" if "\<forall>j\<in>insert k ks. 8 \<le> unat (a - ?t j)" for a
    using that rest by (simp add: s'_def wr64_rd8)
  ultimately have "patched st r slot va (insert k ks) s'"
    using D(1) [OF D(5)] D(2,4) [OF D(5)] tr pg by (simp add: patched_def)
  then show ?thesis using S(3) [of "va k"] by (simp add: s'_def)
qed

lemma thunk_loop_patches:
  assumes "\<And>k. k < n \<Longrightarrow> thunk_at img int_off k \<noteq> 0" "thunk_at img int_off n = 0"
    and ex: "\<And>k. k < n \<Longrightarrow> by_name img int_off k \<Longrightarrow> FindExport m (import_name img int_off k) = Some (va k) \<and> va k \<noteq> 0"
    and ok: "iat_ok st r (by_name img int_off) (slot_va load_base iat_rva) n"
    and "k \<le> n" "patched st r (slot_va load_base iat_rva) va {j. j < k \<and> by_name img int_off j} s"
  shows "\<exists>s'. thunk_loop img m r load_base int_off iat_rva (of_nat k) s = Some (STATUS_SUCCESS, s')
    \<and> patched st r (slot_va load_base iat_rva) va {j. j < n \<and> by_name img int_off j} s'"
  using assms(5,6)
proof (induction "n - k" arbitrary: k s)
  case 0
  then have kn: "k = n" by simp
  have "thunk_loop img m r load_base int_off iat_rva (of_nat k) s = Some (STATUS_SUCCESS, s)"
    by (subst thunk_loop.simps) (use assms(2) kn in \<open>simp add: thunk_at_def Let_def\<close>)
  then show ?case using 0(3) kn by blast
next
  case (Suc d)
  then have kn: "k < n" by simp
  let ?L = "thunk_loop img m r load_base int_off iat_rva"
  have sc: "of_nat (Suc k) = (of_nat k + 1 :: u32)" by simp
  have nz: "ld64 img (ucast int_off + ucast (of_nat k * 8 :: u32)) \<noteq> 0" using assms(1) [OF kn] by (simp add: thunk_at_def)
  show ?case
  proof (cases "by_name img int_off k")
    case False
    have "?L (of_nat k) s = ?L (of_nat (Suc k)) s"
      by (subst thunk_loop.simps) (use False nz in \<open>auto simp: by_name_def thunk_at_def Let_def sc simp del: of_nat_Suc\<close>)
    moreover have "{j. j < Suc k \<and> by_name img int_off j} = {j. j < k \<and> by_name img int_off j}"
      using False by (auto simp: less_Suc_eq)
    ultimately show ?thesis using Suc.hyps(1) [of "Suc k" s] Suc.hyps(2) Suc.prems kn by auto
  next
    case True
    let ?ks = "{j. j < k \<and> by_name img int_off j}"
    have sub: "?ks \<subseteq> {j. j < n \<and> by_name img int_off j}" using kn by auto
    obtain s1 where s1: "PatchIATSlot r (slot_va load_base iat_rva k) (va k) s = (True, s1)"
      "patched st r (slot_va load_base iat_rva) va (insert k ?ks) s1"
      using patched_step [OF ok sub kn True _ Suc.prems(2)] by auto
    have "?L (of_nat k) s = ?L (of_nat (Suc k)) s1"
      by (subst thunk_loop.simps)
        (use True nz ex [OF kn True] s1(1) in \<open>simp add: by_name_def thunk_at_def import_name_def slot_va_def Let_def sc del: of_nat_Suc\<close>)
    moreover have "{j. j < Suc k \<and> by_name img int_off j} = insert k ?ks" using True by (auto simp: less_Suc_eq)
    ultimately show ?thesis using Suc.hyps(1) [of "Suc k" s1] Suc.hyps(2) s1(2) kn by auto
  qed
qed

lemma patched_start: "pt_wf st r \<Longrightarrow> patched st r slot va {} st"
  by (simp add: patched_def)

end
