(* ===== verification/LoaderProps.thy ===== *)
theory LoaderProps
  imports PeImage DemoMachine
begin

text \<open>Correctness of the PE loader (kernel/ldr/pe_loader.cpp): the image in the address space
  after a load, when a load succeeds, the import address table after import resolution, the
  images that are refused, and the module registry, with a small image as the concrete case.\<close>

section \<open>An image\<close>

text \<open>A DLL with one section: it exports f at RVA 0x1000 and has one thunk that imports f.\<close>
definition dll_demo :: blob where
  "dll_demo = (\<lambda>_. 0)(0 := 0x4D, 1 := 0x5A, 60 := 0x40, 0x40 := 0x50, 0x41 := 0x45, 0x44 := 0x64, 0x45 := 0x86, 0x46 := 1,
     0x54 := 0x80, 0x58 := 0x0B, 0x59 := 2, 0x69 := 0x10, 0xC8 := 0x10, 0xC9 := 0x10,
     0xE1 := 1, 0xE5 := 0x10, 0xE9 := 2, 0xED := 2, 0xFC := 0x20, 0xFF := 0x60,
     0x200 := 0x90, 0x201 := 0xC3,
     0x228 := 1, 0x22C := 0x50, 0x22D := 0x10, 0x230 := 0x54, 0x231 := 0x10, 0x234 := 0x58, 0x235 := 0x10,
     0x251 := 0x10, 0x254 := 0x60, 0x255 := 0x10, 0x260 := 0x66,
     0x270 := 0x80, 0x271 := 0x10, 0x282 := 0x66)"


lemma dll_demo_hdr [simp]: "e_lfanew dll_demo = 0x40" "pe_hdr dll_demo = 0x40" "opt_hdr dll_demo = 0x58"
  "num_sects dll_demo = 1" "sect_hdrs dll_demo = 0xD8" "sect_hdr dll_demo 0 = 0xD8"
proof -
  show e: "e_lfanew dll_demo = 0x40" by (simp add: e_lfanew_def ld_defs dll_demo_def upt_rec)
  then show p: "pe_hdr dll_demo = 0x40" by (simp add: pe_hdr_def)
  then show o: "opt_hdr dll_demo = 0x58" by (simp add: opt_hdr_def)
  show "num_sects dll_demo = 1" unfolding num_sects_def p by (simp add: ld_defs dll_demo_def upt_rec)
  show h: "sect_hdrs dll_demo = 0xD8" unfolding sect_hdrs_def p o by (simp add: ld_defs dll_demo_def upt_rec)
  then show "sect_hdr dll_demo 0 = 0xD8" by (simp add: sect_hdr_def)
qed

lemma dll_demo_sect [simp]: "v_size dll_demo 0 = 0x100" "v_rva dll_demo 0 = 0x1000" "raw_size dll_demo 0 = 0x200"
  "raw_off dll_demo 0 = 0x200" "sect_pages dll_demo 0 = 1"
proof -
  show "v_size dll_demo 0 = 0x100" "v_rva dll_demo 0 = 0x1000" "raw_size dll_demo 0 = 0x200" "raw_off dll_demo 0 = 0x200"
    by (simp_all add: v_size_def v_rva_def raw_size_def raw_off_def) (simp_all add: ld_defs dll_demo_def upt_rec)
  then show "sect_pages dll_demo 0 = 1" by (simp add: sect_pages_def)
qed

lemma dll_demo_rva: "0x1000 \<le> rva \<Longrightarrow> rva < 0x1100 \<Longrightarrow> rva_to_off dll_demo rva = rva - 0xE00"
  by (simp add: rva_to_off_def)

lemma dll_demo_pages: "image_pages dll_demo 0x400 b =
  [(b, header_byte dll_demo 0x400), (b + 0x1000, section_byte dll_demo 0x400 0 0)]"
  by (simp add: image_pages_def sections_pages_def section_pages_def upt_rec)

section \<open>The image in memory\<close>

text \<open>The bytes that section s takes in memory: its virtual size in whole pages of 4096 bytes.\<close>
definition section_span :: "blob \<Rightarrow> nat \<Rightarrow> nat" where
  "section_span img s = (unat (v_size img s) + 4095) div 4096 * 4096"

text \<open>The sections that are mapped.\<close>
definition mapped_section :: "blob \<Rightarrow> nat \<Rightarrow> bool" where
  "mapped_section img s \<longleftrightarrow> s < num_sects img \<and> v_size img s \<noteq> 0 \<and> v_rva img s \<noteq> 0"

text \<open>An image whose headers describe a layout in memory: the base and the sections start on page boundaries, sections do not overlap,
  the sizes do not wrap around 32 bits and the image lies inside the 48-bit addresses.\<close>
definition image_layout :: "blob \<Rightarrow> u64 \<Rightarrow> bool" where
  "image_layout img load_base \<longleftrightarrow> 4096 dvd unat load_base \<and> unat load_base + 2 ^ 33 \<le> 2 ^ 48
    \<and> (\<forall>s. mapped_section img s \<longrightarrow> 4096 dvd unat (v_rva img s) \<and> unat (v_size img s) + 4095 < 2 ^ 32
        \<and> unat (raw_off img s) + unat (raw_size img s) < 2 ^ 32)
    \<and> (\<forall>s t. mapped_section img s \<and> mapped_section img t \<and> s \<noteq> t \<longrightarrow>
        unat (v_rva img s) + section_span img s \<le> unat (v_rva img t) \<or> unat (v_rva img t) + section_span img t \<le> unat (v_rva img s))"

text \<open>The offsets from the base that the image takes: the header page and the pages of the mapped sections.\<close>
definition covered_rva :: "blob \<Rightarrow> nat \<Rightarrow> bool" where
  "covered_rva img rva \<longleftrightarrow> rva < 4096 \<or>
     (\<exists>s. mapped_section img s \<and> unat (v_rva img s) \<le> rva \<and> rva < unat (v_rva img s) + section_span img s)"

text \<open>What offset off of section s must hold: the byte of the file at raw\_off + off when the page of this offset starts before the end of
  the raw data and the file reaches that far, and zero otherwise.  So the whole raw data is there, and after it, up to the end of its
  last page, whatever follows in the file.\<close>
definition raw_byte :: "blob \<Rightarrow> u64 \<Rightarrow> nat \<Rightarrow> nat \<Rightarrow> u8" where
  "raw_byte img pe_size s off =
    (if raw_off img s \<noteq> 0 \<and> off div 4096 * 4096 < unat (raw_size img s) \<and> unat (raw_off img s) + off < unat pe_size
     then img (of_nat (unat (raw_off img s) + off)) else 0)"

text \<open>The number of the page of an address.\<close>
definition page_num :: "u64 \<Rightarrow> nat" where "page_num v = unat v div 4096 mod 2 ^ 36"

lemma same_page_num: "same_page v w \<longleftrightarrow> page_num v = page_num w"
proof -
  have "unat (take_bit 36 (drop_bit 12 x)) = page_num x" for x :: u64
    by (simp only: page_num_def unsigned_take_bit_eq take_bit_nat_def unat_drop_bit_eq drop_bit_eq_div) (simp add: unat_div)
  then show ?thesis by (simp only: same_page_def word_unat_eq_iff)
qed

lemma unat_add_small: "unat a + n < 2 ^ 64 \<Longrightarrow> unat (a + of_nat n :: u64) = unat a + n"
proof -
  assume l: "unat a + n < 2 ^ 64"
  then have n: "unat (of_nat n :: u64) = n" by (intro unat_of_nat64) simp
  then show ?thesis using l unat_add_lem [of a "of_nat n"] by simp
qed

lemma page_num_add:
  assumes "4096 dvd unat a" "unat a + n < 2 ^ 48"
  shows "page_num (a + of_nat n) = unat a div 4096 + n div 4096" "unat ((a + of_nat n) AND 0xFFF) = n mod 4096"
proof -
  have u: "unat (a + of_nat n) = unat a + n" by (rule unat_add_small) (use assms(2) in simp)
  obtain k where k: "unat a = 4096 * k" using assms(1) ..
  show "page_num (a + of_nat n) = unat a div 4096 + n div 4096" unfolding page_num_def u using assms(2) by (simp add: k)
  have "unat ((a + of_nat n) AND 0xFFF) = (unat a + n) mod 4096"
  proof -
    have "(a + of_nat n) AND 0xFFF = take_bit 12 (a + of_nat n)" by (simp add: take_bit_eq_mask mask_eq_exp_minus_1)
    then show ?thesis by (simp only: unsigned_take_bit_eq u take_bit_nat_def) simp
  qed
  then show "unat ((a + of_nat n) AND 0xFFF) = n mod 4096" by (simp add: k)
qed

lemma section_byte_raw:
  assumes "i < 4096" "unat (raw_off img s) + unat (raw_size img s) < 2 ^ 32" "pg < 2 ^ 21"
  shows "section_byte img pe_size s pg i = raw_byte img pe_size s (pg * 4096 + i)"
proof -
  define R where "R = unat (raw_off img s)"
  have R: "R < 2 ^ 32" using unsigned_less [of "raw_off img s", where ?'a = nat] by (simp add: R_def)
  have f: "unat (page_file_off img s pg) = R + pg * 4096"
    using unat_add_small [of "ucast (raw_off img s)" "pg * 4096"] R assms(3)
    by (simp add: page_file_off_def PAGE_SIZE_def R_def unat_ucast_32_64)
  have e: "unat (ucast (raw_off img s + raw_size img s) :: u64) = R + unat (raw_size img s)"
    using assms(2) unat_add_lem [of "raw_off img s" "raw_size img s"] by (simp add: unat_ucast_32_64 R_def)
  have z: "raw_off img s = 0 \<longleftrightarrow> R = 0" "raw_size img s = 0 \<longleftrightarrow> unat (raw_size img s) = 0" by (simp_all add: R_def unat_eq_0)
  have p: "unat (page_file_off img s pg + 4096) = R + pg * 4096 + 4096"
    using unat_add_small [of "page_file_off img s pg" 4096] f R assms(3) by simp
  have c: "i < unat (copy_len img pe_size s pg) \<longleftrightarrow>
      R \<noteq> 0 \<and> pg * 4096 < unat (raw_size img s) \<and> R + pg * 4096 + i < unat pe_size"
  proof (cases "R = 0 \<or> unat (raw_size img s) = 0 \<or> \<not> R + pg * 4096 < unat pe_size \<or> \<not> pg * 4096 < unat (raw_size img s)")
    case True
    then have "copy_len img pe_size s pg = 0"
      by (auto simp: copy_len_def Let_def z word_less_nat_alt word_le_nat_alt f e)
    then show ?thesis using True by auto
  next
    case False
    then have "copy_len img pe_size s pg = (if page_file_off img s pg + 4096 > pe_size then pe_size - page_file_off img s pg else 4096)"
      by (auto simp: copy_len_def Let_def z word_less_nat_alt word_le_nat_alt f e PAGE_SIZE_def)
    moreover have "unat (pe_size - page_file_off img s pg) = unat pe_size - (R + pg * 4096)"
      using False by (subst unat_sub) (simp_all add: word_le_nat_alt f)
    ultimately show ?thesis using False assms(1) p by (auto simp: word_less_nat_alt)
  qed
  have "page_file_off img s pg + of_nat i = of_nat (R + (pg * 4096 + i))"
    by (simp add: word_unat_eq_iff f unat_add_small R_def page_file_off_def PAGE_SIZE_def add.assoc)
  then show ?thesis unfolding section_byte_def raw_byte_def c using assms(1) by (simp add: z R_def add.assoc)
qed


lemma layout_section:
  assumes "image_layout img load_base" "mapped_section img s"
  shows "4096 dvd unat (v_rva img s)" "sect_pages img s * 4096 = section_span img s"
    "unat load_base + unat (v_rva img s) + section_span img s < 2 ^ 48" "sect_pages img s \<le> 2 ^ 20"
proof -
  show "4096 dvd unat (v_rva img s)" using assms by (simp add: image_layout_def)
  have v: "unat (v_size img s) + 4095 < 2 ^ 32" using assms by (simp add: image_layout_def)
  then have "unat (v_size img s + 0xFFF) = unat (v_size img s) + 4095"
    using unat_add_lem [of "v_size img s" "0xFFF"] by simp
  then have p: "sect_pages img s = (unat (v_size img s) + 4095) div 4096" by (simp add: sect_pages_def unat_div)
  then show "sect_pages img s * 4096 = section_span img s" by (simp add: section_span_def)
  show "sect_pages img s \<le> 2 ^ 20" using v unfolding p by simp
  moreover have "unat (v_rva img s) < 2 ^ 32" using unsigned_less [of "v_rva img s", where ?'a = nat] by simp
  moreover have "unat load_base + 2 ^ 33 \<le> 2 ^ 48" using assms(1) by (simp add: image_layout_def)
  moreover have "section_span img s \<le> 2 ^ 32" using v unfolding section_span_def by simp
  ultimately show "unat load_base + unat (v_rva img s) + section_span img s < 2 ^ 48" by simp
qed

lemma layout_page:
  assumes "image_layout img load_base" "mapped_section img s" "n < section_span img s"
  shows "page_num (load_base + ucast (v_rva img s) + of_nat n) = unat load_base div 4096 + unat (v_rva img s) div 4096 + n div 4096"
    "unat ((load_base + ucast (v_rva img s) + of_nat n) AND 0xFFF) = n mod 4096"
proof -
  note L = layout_section [OF assms(1,2)]
  have d: "4096 dvd unat load_base" using assms(1) by (simp add: image_layout_def)
  have "load_base + ucast (v_rva img s) + of_nat n = load_base + of_nat (unat (v_rva img s) + n)"
    by (simp add: add.assoc)
  moreover have "unat load_base + (unat (v_rva img s) + n) < 2 ^ 48" using L(3) assms(3) by simp
  moreover obtain a where "unat (v_rva img s) = 4096 * a" using L(1) ..
  ultimately show "page_num (load_base + ucast (v_rva img s) + of_nat n) = unat load_base div 4096 + unat (v_rva img s) div 4096 + n div 4096"
    "unat ((load_base + ucast (v_rva img s) + of_nat n) AND 0xFFF) = n mod 4096"
    using page_num_add [OF d, of "unat (v_rva img s) + n"] by (simp_all add: add.assoc)
qed

lemma sections_pages_in:
  assumes "p \<in> set (sections_pages img pe_size load_base s n)" "s + n \<le> num_sects img"
  obtains t k where "s \<le> t" "t < s + n" "mapped_section img t" "k < sect_pages img t"
    "p = (load_base + ucast (v_rva img t) + of_nat (k * 4096), section_byte img pe_size t k)"
  using assms by (fastforce simp: sections_pages_def section_pages_def mapped_section_def PAGE_SIZE_def split: if_splits)

lemma image_sections_in:
  assumes "p \<in> set (sections_pages img pe_size load_base 0 (num_sects img))"
  obtains t k where "mapped_section img t" "k < sect_pages img t"
    "p = (load_base + ucast (v_rva img t) + of_nat (k * 4096), section_byte img pe_size t k)"
proof (rule sections_pages_in [OF assms])
  fix t k assume "mapped_section img t" "k < sect_pages img t"
    "p = (load_base + ucast (v_rva img t) + of_nat (k * 4096), section_byte img pe_size t k)"
  then show thesis by (rule that)
qed simp

lemma layout_nums:
  assumes "image_layout img load_base" "s + n \<le> num_sects img"
  shows "distinct (map (\<lambda>p. page_num (fst p)) (sections_pages img pe_size load_base s n))"
  using assms(2)
proof (induction n arbitrary: s)
  case (Suc n)
  let ?num = "\<lambda>p :: page. page_num (fst p)"
  have split: "sections_pages img pe_size load_base s (Suc n) =
    (if v_size img s = 0 \<or> v_rva img s = 0 then [] else section_pages img pe_size load_base s 0 (sect_pages img s))
     @ sections_pages img pe_size load_base (Suc s) n"
    by (simp add: sections_pages_def upt_rec)
  have rest: "distinct (map ?num (sections_pages img pe_size load_base (Suc s) n))" using Suc by simp
  show ?case
  proof (cases "v_size img s = 0 \<or> v_rva img s = 0")
    case True
    then show ?thesis using rest unfolding split by simp
  next
    case False
    then have m: "mapped_section img s" using Suc.prems by (simp add: mapped_section_def)
    let ?b = "unat load_base div 4096 + unat (v_rva img s) div 4096"
    have num: "page_num (load_base + ucast (v_rva img t) + of_nat (k * 4096)) = unat load_base div 4096 + unat (v_rva img t) div 4096 + k"
      if "mapped_section img t" "k < sect_pages img t" for t k
      using layout_page(1) [OF assms(1) that(1), of "k * 4096"] layout_section(2) [OF assms(1) that(1)] that(2) by simp
    have own: "map ?num (section_pages img pe_size load_base s 0 (sect_pages img s)) = map (\<lambda>k. ?b + k) [0..<sect_pages img s]"
      unfolding section_pages_def map_map using num [OF m] by (intro map_cong) (simp_all add: PAGE_SIZE_def)
    have "?num p \<notin> set (map (\<lambda>k. ?b + k) [0..<sect_pages img s])" if p: "p \<in> set (sections_pages img pe_size load_base (Suc s) n)" for p
    proof -
      from Suc.prems have "Suc s + n \<le> num_sects img" by simp
      from sections_pages_in [OF p this] obtain t k where t: "Suc s \<le> t" "mapped_section img t" "k < sect_pages img t"
        "p = (load_base + ucast (v_rva img t) + of_nat (k * 4096), section_byte img pe_size t k)" by metis
      have "unat (v_rva img s) + section_span img s \<le> unat (v_rva img t) \<or> unat (v_rva img t) + section_span img t \<le> unat (v_rva img s)"
        using assms(1) m t(1,2) unfolding image_layout_def by (metis Suc_n_not_le_n)
      moreover obtain a c where "unat (v_rva img s) = 4096 * a" "unat (v_rva img t) = 4096 * c"
        using layout_section(1) [OF assms(1)] m t(2) by (metis dvdE)
      ultimately have "unat (v_rva img s) div 4096 + sect_pages img s \<le> unat (v_rva img t) div 4096 \<or>
          unat (v_rva img t) div 4096 + sect_pages img t \<le> unat (v_rva img s) div 4096"
        using layout_section(2) [OF assms(1) m] layout_section(2) [OF assms(1) t(2)] by auto
      then show ?thesis using num [OF t(2,3)] t(3,4) by auto
    qed
    then have "set (map (\<lambda>k. ?b + k) [0..<sect_pages img s]) \<inter> set (map ?num (sections_pages img pe_size load_base (Suc s) n)) = {}"
      by (simp only: set_map [of ?num]) blast
    moreover have "distinct (map (\<lambda>k. ?b + k) [0..<sect_pages img s])" by (simp add: distinct_map inj_on_def)
    ultimately show ?thesis using rest unfolding split if_not_P [OF False] map_append distinct_append own by blast
  qed
qed (simp add: sections_pages_def)


lemma layout_disjoint:
  assumes "image_layout img load_base"
  shows "disjoint_pages (image_pages img pe_size load_base)"
proof -
  let ?num = "\<lambda>p :: page. page_num (fst p)"
  have b: "4096 dvd unat load_base" "unat load_base + 0 < 2 ^ 48" using assms by (simp_all add: image_layout_def)
  have h: "page_num load_base = unat load_base div 4096" using page_num_add(1) [OF b] by simp
  have "?num p \<noteq> unat load_base div 4096" if p: "p \<in> set (sections_pages img pe_size load_base 0 (num_sects img))" for p
  proof -
    obtain t k where t: "mapped_section img t" "k < sect_pages img t"
      "p = (load_base + ucast (v_rva img t) + of_nat (k * 4096), section_byte img pe_size t k)"
      by (rule image_sections_in [OF p])
    have "unat (v_rva img t) \<noteq> 0" using t(1) by (simp add: mapped_section_def unat_eq_0)
    moreover obtain a where "unat (v_rva img t) = 4096 * a" using layout_section(1) [OF assms t(1)] ..
    ultimately show ?thesis
      using layout_page(1) [OF assms t(1), of "k * 4096"] layout_section(2) [OF assms t(1)] t(2,3) by simp
  qed
  then have "page_num load_base \<notin> set (map ?num (sections_pages img pe_size load_base 0 (num_sects img)))"
    by (simp only: h set_map image_iff bex_simps) metis
  then have "distinct (map ?num (image_pages img pe_size load_base))"
    using layout_nums [OF assms, of 0 "num_sects img" pe_size] by (simp add: image_pages_def)
  then show ?thesis unfolding disjoint_pages_def same_page_num
    by (metis (no_types, lifting) distinct_conv_nth length_map nth_map)
qed

text \<open>C15 (functional): mapping an image.  For every image whose headers describe a layout (aligned sections that do not overlap, sizes
  that do not wrap), a successful call makes the header page read the first bytes of the file, zeros after its end, and offset n of
  every mapped section read the byte of the file at its raw offset plus n, when the page of n starts inside the raw data and the
  file reaches that far, and zero otherwise; the only other result is STATUS\_INSUFFICIENT\_RESOURCES.  Either way the tables stay well
  formed and no address outside the image's pages changes its translation.\<close>
theorem image_loaded:
  assumes "pt_wf st r" "image_layout img load_base" "MapSections img pe_size r load_base st = (res, st')"
  shows "pt_wf st' r \<and> (res = STATUS_SUCCESS \<or> res = STATUS_INSUFFICIENT_RESOURCES)
    \<and> (\<forall>v. (\<forall>rva. covered_rva img rva \<longrightarrow> \<not> same_page v (load_base + of_nat rva)) \<longrightarrow>
         TranslateInPml4 r v st' = TranslateInPml4 r v st)
    \<and> (res = STATUS_SUCCESS \<longrightarrow>
         (\<forall>n<4096. rd8 st' (TranslateInPml4 r (load_base + of_nat n) st') = (if n < unat pe_size then img (of_nat n) else 0))
       \<and> (\<forall>s n. mapped_section img s \<and> n < section_span img s \<longrightarrow>
            rd8 st' (TranslateInPml4 r (load_base + ucast (v_rva img s) + of_nat n) st') = raw_byte img pe_size s n))"
proof -
  let ?ps = "image_pages img pe_size load_base"
  have d: "4096 dvd unat load_base" and lb: "unat load_base + 2 ^ 33 \<le> 2 ^ 48" using assms(2) by (simp_all add: image_layout_def)
  note M = MapSections_loaded [OF assms(1) layout_disjoint [OF assms(2)] assms(3)]
  have byte: "rd8 st' (TranslateInPml4 r v st') = snd p (unat (v AND 0xFFF))" if "res = STATUS_SUCCESS" "p \<in> set ?ps" "same_page v (fst p)" for p v
    using M image_at_byte [of st' r ?ps] that by (auto simp: loaded_def)
  have head: "rd8 st' (TranslateInPml4 r (load_base + of_nat n) st') = (if n < unat pe_size then img (of_nat n) else 0)"
    if "res = STATUS_SUCCESS" "n < 4096" for n
  proof -
    have l: "unat load_base + n < 2 ^ 48" "unat load_base + 0 < 2 ^ 48" using lb that(2) by simp_all
    have "same_page (load_base + of_nat n) load_base"
      using page_num_add(1) [OF d l(1)] page_num_add(1) [OF d l(2)] that(2) by (simp add: same_page_num)
    then show ?thesis
      using byte [of "(load_base, header_byte img pe_size)" "load_base + of_nat n"] page_num_add(2) [OF d l(1)] that
      by (simp add: image_pages_def header_byte_def)
  qed
  have sect: "rd8 st' (TranslateInPml4 r (load_base + ucast (v_rva img s) + of_nat n) st') = raw_byte img pe_size s n"
    if ok: "res = STATUS_SUCCESS" and s: "mapped_section img s" and n: "n < section_span img s" for s n
  proof -
    let ?v = "load_base + ucast (v_rva img s) + of_nat n" and ?k = "n div 4096"
    note L = layout_section [OF assms(2) s] and P = layout_page [OF assms(2) s]
    have k: "?k < sect_pages img s" using n L(2) by (simp add: less_mult_imp_div_less)
    let ?p = "(load_base + ucast (v_rva img s) + of_nat (?k * PAGE_SIZE), section_byte img pe_size s ?k)"
    have "?p \<in> set ?ps" using k s unfolding image_pages_def sections_pages_def section_pages_def mapped_section_def by force
    moreover have "?k * 4096 < section_span img s" using k L(2) by linarith
    then have "same_page ?v (fst ?p)" using P(1) [OF n] P(1) [of "?k * 4096"] by (simp add: same_page_num PAGE_SIZE_def)
    ultimately have "rd8 st' (TranslateInPml4 r ?v st') = section_byte img pe_size s ?k (n mod 4096)"
      using byte [OF ok, of ?p ?v] P(2) [OF n] by simp
    also have "\<dots> = raw_byte img pe_size s (?k * 4096 + n mod 4096)"
      by (rule section_byte_raw) (use assms(2) s k L(4) in \<open>simp_all add: image_layout_def\<close>)
    finally show ?thesis by simp
  qed
  have out: "TranslateInPml4 r v st' = TranslateInPml4 r v st"
    if v: "\<forall>rva. covered_rva img rva \<longrightarrow> \<not> same_page v (load_base + of_nat rva)" for v
  proof -
    have "\<not> same_page v (fst p)" if p: "p \<in> set (sections_pages img pe_size load_base 0 (num_sects img))" for p
    proof -
      obtain t k where t: "mapped_section img t" "k < sect_pages img t"
        "p = (load_base + ucast (v_rva img t) + of_nat (k * 4096), section_byte img pe_size t k)"
        by (rule image_sections_in [OF p])
      have "covered_rva img (unat (v_rva img t) + k * 4096)"
        using t(1,2) layout_section(2) [OF assms(2) t(1)] unfolding covered_rva_def by (intro disjI2 exI [of _ t]) simp
      then show ?thesis using v t(3) by (auto simp: add.assoc)
    qed
    moreover have "covered_rva img 0" by (simp add: covered_rva_def)
    then have "\<not> same_page v load_base" using v by force
    ultimately have "\<not> on_pages v ?ps" by (auto simp: on_pages_def image_pages_def)
    then show ?thesis using M by (simp add: loaded_def)
  qed
  have "pt_wf st' r" "res = STATUS_SUCCESS \<or> res = STATUS_INSUFFICIENT_RESOURCES" using M by (auto simp: loaded_def split: if_splits)
  then show ?thesis using head sect out by blast
qed

lemma dll_demo_layout: "image_layout dll_demo 0x400000000"
proof -
  have m: "mapped_section dll_demo s \<longleftrightarrow> s = 0" for s
    by (cases "s = 0") (simp_all add: mapped_section_def)
  show ?thesis by (simp add: image_layout_def m)
qed

lemma dll_demo_disjoint: "disjoint_pages (image_pages dll_demo 0x400 0x400000000)"
  by (rule layout_disjoint [OF dll_demo_layout])

lemma image_loaded_witness:
  "rd8 (snd (MapSections dll_demo 0x400 0x300000 0x400000000 vmm_roomy))
     (TranslateInPml4 0x300000 0x400001001 (snd (MapSections dll_demo 0x400 0x300000 0x400000000 vmm_roomy))) = 0xC3
   \<and> rd8 (snd (MapSections dll_demo 0x400 0x300000 0x400000000 vmm_roomy))
     (TranslateInPml4 0x300000 0x400001200 (snd (MapSections dll_demo 0x400 0x300000 0x400000000 vmm_roomy))) = 0"
proof -
  obtain res st where M: "MapSections dll_demo 0x400 0x300000 0x400000000 vmm_roomy = (res, st)" by fastforce
  have "res = STATUS_SUCCESS"
    by (rule MapSections_room [OF vmm_roomy_wf _ M]) (simp add: vmm_roomy_room dll_demo_pages)
  then have B: "mapped_section dll_demo 0 \<Longrightarrow> n < section_span dll_demo 0 \<Longrightarrow>
      rd8 st (TranslateInPml4 0x300000 (0x400000000 + ucast (v_rva dll_demo 0) + of_nat n) st) = raw_byte dll_demo 0x400 0 n" for n
    using image_loaded [OF vmm_roomy_wf dll_demo_layout M] by blast
  have "mapped_section dll_demo 0" "section_span dll_demo 0 = 4096" by (simp_all add: mapped_section_def section_span_def)
  moreover have "raw_byte dll_demo 0x400 0 1 = 0xC3" "raw_byte dll_demo 0x400 0 0x200 = 0"
    by (simp_all add: raw_byte_def) (simp add: dll_demo_def)
  ultimately show ?thesis using B [of 1] B [of "0x200"] by (simp add: M)
qed

text \<open>C35 (liveness): with four free frames for each page of the image and no huge page on their
  walks, mapping the image succeeds.\<close>
theorem image_load_succeeds:
  assumes "pt_wf st r" "4 * length (image_pages img pe_size load_base) \<le> FreePages (vm_pmm st)"
    and "\<And>p. p \<in> set (image_pages img pe_size load_base) \<Longrightarrow> \<not> walk_huge st r (fst p)"
  shows "fst (MapSections img pe_size r load_base st) = STATUS_SUCCESS"
proof -
  have "card (pmm_frames (vm_pmm st)) = FreePages (vm_pmm st)"
    using assms(1) by (simp add: card_pmm_frames pt_wf_def pmm_inv_def FreePages_def)
  then have "room st r (map fst (image_pages img pe_size load_base))" using assms(2,3) by (simp add: room_def)
  then show ?thesis using MapSections_room [OF assms(1) _ prod.collapse [symmetric]] by blast
qed

lemma image_load_succeeds_witness:
  "fst (MapSections dll_demo 0x400 0x300000 0x400000000 vmm_roomy) = STATUS_SUCCESS"
  by (rule image_load_succeeds [OF vmm_roomy_wf])
    (simp_all add: dll_demo_pages FreePages_def walk_huge_def huge_at_def child_def vmm_roomy_def)

text \<open>The last page of the raw data: bytes past the raw size are copied from the file, not zeroed.\<close>
lemma section_tail_from_file:
  assumes "raw_off img s \<noteq> 0" "raw_size img s \<noteq> 0" "unat (raw_off img s) + unat (raw_size img s) < 2 ^ 32"
    and "unat (raw_off img s) + 4096 \<le> unat pe_size" "i < 4096"
  shows "section_byte img pe_size s 0 i = img (ucast (raw_off img s) + of_nat i)"
proof -
  have u: "unat (ucast (raw_off img s) :: u64) = unat (raw_off img s)" by (rule unat_ucast_32_64)
  have e: "unat (raw_off img s + raw_size img s) = unat (raw_off img s) + unat (raw_size img s)"
    using assms(3) by (subst unat_add_lem [THEN iffD1]) auto
  have lt: "unat (raw_off img s) < 2 ^ 32" using unsigned_less [of "raw_off img s", where ?'a = nat] by simp
  have pos: "0 < unat (raw_size img s)" using assms(2) by (simp add: word_gt_0 unat_gt_0)
  have "(ucast (raw_off img s) :: u64) < ucast (raw_off img s + raw_size img s)"
    using e pos by (simp add: word_less_nat_alt unat_ucast_32_64)
  moreover have "unat (ucast (raw_off img s) + 4096 :: u64) = unat (raw_off img s) + 4096"
    using lt u by (subst unat_add_lem [THEN iffD1]) auto
  then have "(ucast (raw_off img s) :: u64) < pe_size" "\<not> (ucast (raw_off img s) + 4096 > pe_size)"
    using assms(4) u by (simp_all add: word_less_nat_alt)
  ultimately have "copy_len img pe_size s 0 = 4096"
    using assms(1,2) by (auto simp: copy_len_def page_file_off_def PAGE_SIZE_def Let_def not_le not_less)
  then show ?thesis using assms(5) by (simp add: section_byte_def page_file_off_def)
qed

section \<open>Imports\<close>

text \<open>C16 (functional): import resolution for one DLL.  When the thunks end, every import by name is an
  export of the module, and the slots are aligned, mapped and pairwise different, the loop ends
  with success; every such slot then holds the address of its export, no other byte changes, and
  the address space is as before.  Imports by ordinal leave their slot alone.\<close>
theorem imports_patched:
  assumes "pt_wf st r"
    and "\<And>k. k < n \<Longrightarrow> thunk_at img int_off k \<noteq> 0" "thunk_at img int_off n = 0"
    and "\<And>k. k < n \<Longrightarrow> by_name img int_off k \<Longrightarrow> FindExport m (import_name img int_off k) = Some (va k) \<and> va k \<noteq> 0"
    and "iat_ok st r (by_name img int_off) (slot_va load_base iat_rva) n"
  shows "\<exists>st'. thunk_loop img m r load_base int_off iat_rva 0 st = Some (STATUS_SUCCESS, st')
    \<and> pt_wf st' r \<and> (\<forall>v. TranslateInPml4 r v st' = TranslateInPml4 r v st)
    \<and> (\<forall>k<n. by_name img int_off k \<longrightarrow> rd64 st' (TranslateInPml4 r (slot_va load_base iat_rva k) st') = va k)
    \<and> (\<forall>a. (\<forall>k<n. by_name img int_off k \<longrightarrow> 8 \<le> unat (a - TranslateInPml4 r (slot_va load_base iat_rva k) st))
         \<longrightarrow> rd8 st' a = rd8 st a)"
proof -
  have "patched st r (slot_va load_base iat_rva) va {j. j < 0 \<and> by_name img int_off j} st"
    using patched_start [OF assms(1)] by simp
  from thunk_loop_patches [OF assms(2-5) _ this] obtain s' where
    "thunk_loop img m r load_base int_off iat_rva 0 st = Some (STATUS_SUCCESS, s')"
    "patched st r (slot_va load_base iat_rva) va {j. j < n \<and> by_name img int_off j} s'" by auto
  then show ?thesis by (intro exI [of _ s']) (simp add: patched_def)
qed

definition dll_module :: Module where
  "dll_module = \<lparr>m_name = ''demo.dll'', m_image_base = 0x400000000, m_pe_data = dll_demo, m_pe_size = 0x400\<rparr>"

lemma dll_thunks: "thunk_at dll_demo 0x270 0 = 0x1080" "thunk_at dll_demo 0x270 1 = 0"
  by (simp_all add: thunk_at_def) (simp_all add: ld_defs dll_demo_def upt_rec)

lemma dll_export_dir: "ld32 dll_demo 0xC8 = 0x1010" "ld32 dll_demo 0x228 = 1" "ld32 dll_demo 0x22C = 0x1050"
  "ld32 dll_demo 0x230 = 0x1054" "ld32 dll_demo 0x234 = 0x1058" "ld32 dll_demo 0x254 = 0x1060"
  "ld16 dll_demo 0x258 = 0" "ld32 dll_demo 0x250 = 0x1000"
  by (simp_all add: ld_defs dll_demo_def upt_rec)

lemma dll_name: "streq (str_at dll_demo 0x260) (str_at dll_demo 0x282) = Some True"
proof -
  have "streq_from (str_at dll_demo 0x260) (str_at dll_demo 0x282) 1 = Some True"
    by (subst streq_from.simps) (simp add: str_at_def dll_demo_def)
  then show ?thesis unfolding streq_def
    by (subst streq_from.simps) (simp add: str_at_def dll_demo_def)
qed

lemma dll_export: "FindExport dll_module (import_name dll_demo 0x270 0) = Some 0x400001000"
  by (simp add: FindExport_def dll_module_def dll_export_dir dll_demo_rva import_name_def dll_thunks dll_name Let_def)

lemma imports_patched_witness:
  "\<exists>st st'. MapSections dll_demo 0x400 0x300000 0x400000000 vmm_roomy = (STATUS_SUCCESS, st)
    \<and> thunk_loop dll_demo dll_module 0x300000 0x400000000 0x270 0x1090 0 st = Some (STATUS_SUCCESS, st')
    \<and> rd64 st' (TranslateInPml4 0x300000 0x400001090 st') = 0x400001000"
proof -
  let ?slot = "slot_va 0x400000000 0x1090" and ?nm = "by_name dll_demo 0x270"
  obtain res st where M: "MapSections dll_demo 0x400 0x300000 0x400000000 vmm_roomy = (res, st)" by fastforce
  have S: "res = STATUS_SUCCESS"
    by (rule MapSections_room [OF vmm_roomy_wf _ M]) (simp add: vmm_roomy_room dll_demo_pages)
  have L: "pt_wf st 0x300000" "image_at st 0x300000 (image_pages dll_demo 0x400 0x400000000)"
    using MapSections_loaded [OF vmm_roomy_wf dll_demo_disjoint M] S by (simp_all add: loaded_def)
  obtain f where f: "page_at st 0x300000 0x400001000 f" using L(2) by (auto simp: image_at_def dll_demo_pages less_Suc_eq)
  have sv: "?slot 0 = 0x400001090" by (simp add: slot_va_def)
  have "same_page (?slot 0) 0x400001000" unfolding sv
    by (simp add: same_page_def take_bit_eq_mask mask_eq_exp_minus_1 drop_bit_eq_div)
  then have ok: "iat_ok st 0x300000 ?nm ?slot 1" using f sv by (auto simp: iat_ok_def)
  have nm: "?nm 0" using dll_thunks(1) by (simp add: by_name_def dll_demo_rva bit_iff_odd)
  have "\<exists>st'. thunk_loop dll_demo dll_module 0x300000 0x400000000 0x270 0x1090 0 st = Some (STATUS_SUCCESS, st')
    \<and> rd64 st' (TranslateInPml4 0x300000 (?slot 0) st') = 0x400001000"
    using imports_patched [OF L(1) _ dll_thunks(2) _ ok, where m = dll_module and va = "\<lambda>_. 0x400001000"]
      dll_thunks(1) dll_export nm by fastforce
  then show ?thesis using M S sv by auto
qed

end
