(* ===== verification/Userinit.thy ===== *)
theory Userinit
  imports PeLoader SessionManager
begin

text \<open>The shell launcher, kernel/sm/userinit.cpp: LaunchShell makes the address space and the
  process of the shell, maps ntdll and the shell image into it, gives it a stack page and creates
  its user thread.  Every failure is an assertion, after which the kernel stops: None.  The
  launcher that the session manager takes as an argument is then one that runs LaunchShell.\<close>

record ShellImageConfig =
  NtdllImage :: "blob option"
  NtdllSize :: u64
  NtdllBase :: u64
  ShellImage :: "blob option"
  ShellSize :: u64
  ShellBase :: u64

definition INTERACTIVE_STACK_VA :: u64 where "INTERACTIVE_STACK_VA = 0x9000500000"
definition SHELL_KSTACK :: u64 where "SHELL_KSTACK = 16384"

text \<open>The stack page of the shell: allocated, zeroed and mapped for the user.\<close>
definition map_stack :: "u64 \<Rightarrow> vmm \<Rightarrow> vmm option" where
  "map_stack cr3 v =
    (let (stk_phys, v) = alloc_page v in
     if stk_phys = 0 then None else
     let (mapped, v) = MapPageInto cr3 INTERACTIVE_STACK_VA stk_phys USER_RW (zero_page stk_phys v)
     in if mapped then Some v else None)"

text \<open>The two images: ntdll is registered, the shell is not.  The result is the entry of the shell.\<close>
definition load_images :: "ShellImageConfig \<Rightarrow> u64 \<Rightarrow> ldr \<Rightarrow> (u64 \<times> ldr) option" where
  "load_images cfg cr3 s = do {
     (st, e, s) \<leftarrow> LoadAndRegister ''ntdll.dll'' (NtdllImage cfg) (NtdllSize cfg) cr3 (NtdllBase cfg) s;
     if \<not> NT_SUCCESS st then None else do {
       (st, e, s) \<leftarrow> LoadPe (ShellImage cfg) (ShellSize cfg) cr3 (ShellBase cfg) s;
       if \<not> NT_SUCCESS st then None
       else Some (case e of None \<Rightarrow> 0 | Some a \<Rightarrow> a, s) } }"

definition LaunchShell :: "u32 \<Rightarrow> cstr option \<Rightarrow> AppIdentity \<Rightarrow> ShellImageConfig \<Rightarrow> ldr \<Rightarrow> (nat \<times> node \<times> ldr) option" where
  "LaunchShell sid shell_name identity cfg s =
    (let process_name = (case shell_name of None \<Rightarrow> ''explorer.exe'' | Some n \<Rightarrow> n) in
     if \<not> ai_Registered identity \<or> ai_SessionId identity \<noteq> sid then None else
     let (user_cr3, v) = CreateUserPml4 (p_vmm (l_ps s)); s = on_vmm (\<lambda>_. v) s in
     if user_cr3 = 0 then None else
     case CreateProcess (Some process_name) user_cr3 (l_ps s) of (None, _) \<Rightarrow> None
     | (Some proc, ps) \<Rightarrow> do {
       (entry_va, s) \<leftarrow> load_images cfg user_cr3 (s\<lparr>l_ps := ps\<rparr>);
       v \<leftarrow> map_stack user_cr3 (p_vmm (l_ps s));
       case CreateUserThread (Some proc) (Some ''explorer.exe!shell'') entry_va (INTERACTIVE_STACK_VA + of_nat PAGE_SIZE) 0
              SHELL_KSTACK (l_ps (on_vmm (\<lambda>_. v) s)) of (None, _) \<Rightarrow> None
       | (Some t, ps) \<Rightarrow> Some (proc, t, s\<lparr>l_ps := ps\<rparr>) })"

text \<open>LaunchShell as the launcher of the session manager, which has checked the identity and keeps the
  scheduler's state.\<close>
definition shell_launcher :: "u32 \<Rightarrow> AppIdentity \<Rightarrow> ShellImageConfig \<Rightarrow> ldr \<Rightarrow> launcher" where
  "shell_launcher sid identity cfg s name k =
    (case LaunchShell sid (Some name) identity cfg (s\<lparr>l_ps := (l_ps s)\<lparr>p_sys := k\<rparr>\<rparr>) of
       Some (p, Thr t, s) \<Rightarrow> Some (p, t, p_sys (l_ps s)) | _ \<Rightarrow> None)"

end
