(* ===== verification/RtlString.thy ===== *)
theory RtlString
  imports NtPrelude
begin

text \<open>The freestanding memory and string functions of kernel/rtl/string.cpp over a byte memory; a
  pointer is a 64-bit address and pointer arithmetic wraps.  Loops that look for a NUL need not
  end: they are partial functions whose result None is not returning.\<close>

type_synonym mem = "u64 \<Rightarrow> u8"

section \<open>Memory operations\<close>

fun memset_loop :: "nat \<Rightarrow> u64 \<Rightarrow> u8 \<Rightarrow> mem \<Rightarrow> mem" where
  "memset_loop 0 p v m = m"
| "memset_loop (Suc n) p v m = memset_loop n (p + 1) v (m(p := v))"

definition memset :: "u64 \<Rightarrow> i32 \<Rightarrow> u64 \<Rightarrow> mem \<Rightarrow> u64 \<times> mem" where
  "memset dst val len m = (dst, memset_loop (unat len) dst (ucast val) m)"

fun copy_forward :: "nat \<Rightarrow> u64 \<Rightarrow> u64 \<Rightarrow> mem \<Rightarrow> mem" where
  "copy_forward 0 d s m = m"
| "copy_forward (Suc n) d s m = copy_forward n (d + 1) (s + 1) (m(d := m s))"

definition memcpy :: "u64 \<Rightarrow> u64 \<Rightarrow> u64 \<Rightarrow> mem \<Rightarrow> u64 \<times> mem" where
  "memcpy dst src len m = (dst, copy_forward (unat len) dst src m)"

fun copy_backward :: "nat \<Rightarrow> u64 \<Rightarrow> u64 \<Rightarrow> mem \<Rightarrow> mem" where
  "copy_backward 0 d s m = m"
| "copy_backward (Suc n) d s m = (let d = d - 1; s = s - 1 in copy_backward n d s (m(d := m s)))"

definition memmove :: "u64 \<Rightarrow> u64 \<Rightarrow> u64 \<Rightarrow> mem \<Rightarrow> u64 \<times> mem" where
  "memmove dst src len m = (dst,
     if dst < src then copy_forward (unat len) dst src m
     else if dst > src then copy_backward (unat len) (dst + len) (src + len) m
     else m)"

fun memcmp_loop :: "nat \<Rightarrow> u64 \<Rightarrow> u64 \<Rightarrow> mem \<Rightarrow> int" where
  "memcmp_loop 0 a b m = 0"
| "memcmp_loop (Suc n) a b m = (if m a \<noteq> m b then uint (m a) - uint (m b) else memcmp_loop n (a + 1) (b + 1) m)"

definition memcmp :: "u64 \<Rightarrow> u64 \<Rightarrow> u64 \<Rightarrow> mem \<Rightarrow> int" where
  "memcmp a b len m = memcmp_loop (unat len) a b m"

section \<open>String operations\<close>

partial_function (option) strlen_loop :: "u64 \<Rightarrow> u64 \<Rightarrow> mem \<Rightarrow> u64 option" where
  "strlen_loop s n m = (if m (s + n) \<noteq> 0 then strlen_loop s (n + 1) m else Some n)"

definition strlen :: "u64 \<Rightarrow> mem \<Rightarrow> u64 option" where "strlen s m = strlen_loop s 0 m"

partial_function (option) strcmp :: "u64 \<Rightarrow> u64 \<Rightarrow> mem \<Rightarrow> int option" where
  "strcmp a b m = (if m a \<noteq> 0 \<and> m a = m b then strcmp (a + 1) (b + 1) m else Some (uint (m a) - uint (m b)))"

text \<open>The counter is decremented before it is tested; when it was 0 it wraps and the result is 0.\<close>
fun strncmp :: "u64 \<Rightarrow> u64 \<Rightarrow> nat \<Rightarrow> mem \<Rightarrow> int" where
  "strncmp a b 0 m = 0"
| "strncmp a b (Suc n) m = (if m a \<noteq> 0 \<and> m a = m b then strncmp (a + 1) (b + 1) n m else uint (m a) - uint (m b))"

partial_function (option) strcpy_loop :: "u64 \<Rightarrow> u64 \<Rightarrow> mem \<Rightarrow> mem option" where
  "strcpy_loop d s m = (let c = m s; m = m(d := c) in if c \<noteq> 0 then strcpy_loop (d + 1) (s + 1) m else Some m)"

definition strcpy :: "u64 \<Rightarrow> u64 \<Rightarrow> mem \<Rightarrow> (u64 \<times> mem) option" where
  "strcpy dst src m = map_option (Pair dst) (strcpy_loop dst src m)"

text \<open>The first loop of strncpy: the count left, where it stopped writing, and the memory.\<close>
fun strncpy_copy :: "nat \<Rightarrow> u64 \<Rightarrow> u64 \<Rightarrow> mem \<Rightarrow> nat \<times> u64 \<times> mem" where
  "strncpy_copy 0 d s m = (0, d, m)"
| "strncpy_copy (Suc n) d s m =
    (let c = m s; m = m(d := c) in if c \<noteq> 0 then strncpy_copy n (d + 1) (s + 1) m else (Suc n, d + 1, m))"

definition strncpy :: "u64 \<Rightarrow> u64 \<Rightarrow> u64 \<Rightarrow> mem \<Rightarrow> u64 \<times> mem" where
  "strncpy dst src n m = (let (left, d, m) = strncpy_copy (unat n) dst src m in (dst, memset_loop left d 0 m))"

partial_function (option) strchr :: "u64 \<Rightarrow> i32 \<Rightarrow> mem \<Rightarrow> u64 option" where
  "strchr s c m =
    (if m s \<noteq> 0 then (if m s = ucast c then Some s else strchr (s + 1) c m)
     else Some (if c = 0 then s else 0))"

section \<open>Ranges of memory\<close>

text \<open>The distance of an address from a base, and how it moves with the base.\<close>
lemma dist_succ: "a \<noteq> d \<Longrightarrow> unat (a - d) = Suc (unat (a - (d + 1) :: u64))"
proof -
  assume "a \<noteq> d"
  then have "a - d \<noteq> 0" by simp
  then have "unat (a - d - 1) = unat (a - d) - 1" "0 < unat (a - d)"
    by (simp_all add: unat_sub word_le_nat_alt Suc_le_eq unat_gt_0)
  then show ?thesis by (simp add: diff_diff_eq)
qed

lemma dist_self: "unat (d - (d + 1) :: u64) = 2 ^ 64 - 1"
proof -
  have "d - (d + 1) = (- 1 :: u64)" by simp
  then have "unat (d - (d + 1)) = mask 64" by (simp only: unsigned_minus_1_eq_mask len_num0 len_num1 len_bit0 len_bit1) simp
  then show ?thesis by (simp add: mask_eq_exp_minus_1)
qed

lemma dist_neg: "a \<noteq> 0 \<Longrightarrow> unat (- a :: u64) = 2 ^ 64 - unat a"
  using unat_sub_if' [of 0 a] by (simp add: unat_gt_0 not_le)

lemma copy_forward_spec:
  assumes "unat (s - d) + n \<le> 2 ^ 64"
  shows "copy_forward n d s m a = (if unat (a - d) < n then m (s + (a - d)) else m a)"
  using assms
proof (induction n arbitrary: d s m)
  case (Suc n)
  let ?m = "m(d := m s)"
  have "copy_forward (Suc n) d s m a = (if unat (a - (d + 1)) < n then ?m (s + 1 + (a - (d + 1))) else ?m a)"
    using Suc.IH [of "s + 1" "d + 1" ?m] Suc.prems by (simp del: fun_upd_apply)
  moreover have e: "s + 1 + (a - (d + 1)) = s + (a - d)" by simp
  ultimately have r: "copy_forward (Suc n) d s m a = (if unat (a - (d + 1)) < n then ?m (s + (a - d)) else ?m a)"
    by (simp only: e)
  show ?case
  proof (cases "a = d")
    case True
    have "n \<le> 2 ^ 64 - 1" using Suc.prems by simp
    then have "\<not> unat (a - (d + 1)) < n" using dist_self [of d] True by simp
    then show ?thesis using True r by simp
  next
    case False
    have "s + (a - d) \<noteq> d" if "unat (a - d) < Suc n"
    proof
      assume e: "s + (a - d) = d"
      then have ad: "a - d = - (s - d)" by (simp add: algebra_simps)
      then have "s - d \<noteq> 0" using False by auto
      then have "unat (a - d) = 2 ^ 64 - unat (s - d)" unfolding ad by (rule dist_neg)
      then show False using that Suc.prems by simp
    qed
    then show ?thesis using r dist_succ [OF False] False by simp
  qed
qed simp

lemma copy_backward_spec:
  assumes "unat (d - s) + n \<le> 2 ^ 64"
  shows "copy_backward n (d + of_nat n) (s + of_nat n) m a = (if unat (a - d) < n then m (s + (a - d)) else m a)"
  using assms
proof (induction n arbitrary: m)
  case (Suc n)
  let ?m = "m(d + of_nat n := m (s + of_nat n))"
  have n: "unat (of_nat n :: u64) = n" using Suc.prems by (simp add: unat_of_nat)
  have r: "copy_backward (Suc n) (d + of_nat (Suc n)) (s + of_nat (Suc n)) m a
      = (if unat (a - d) < n then ?m (s + (a - d)) else ?m a)"
  proof -
    have e: "d + of_nat (Suc n) - 1 = d + of_nat n" "s + of_nat (Suc n) - 1 = s + of_nat n" by simp_all
    have "copy_backward (Suc n) (d + of_nat (Suc n)) (s + of_nat (Suc n)) m = copy_backward n (d + of_nat n) (s + of_nat n) ?m"
      by (simp only: copy_backward.simps Let_def e)
    then show ?thesis using Suc.IH [of ?m] Suc.prems by (simp del: fun_upd_apply)
  qed
  show ?case
  proof (cases "unat (a - d) < n")
    case True
    have "s + (a - d) \<noteq> d + of_nat n"
    proof
      assume "s + (a - d) = d + of_nat n"
      then have e: "a - d = (d - s) + of_nat n" by (simp add: algebra_simps)
      have "unat ((d - s) + of_nat n) = unat (d - s) + n"
        using Suc.prems n by (subst unat_add_lem [THEN iffD1]) auto
      then show False using True unfolding e by linarith
    qed
    then show ?thesis using r True by simp
  next
    case False
    show ?thesis
    proof (cases "a = d + of_nat n")
      case True
      then show ?thesis using r n by simp
    next
      case ne: False
      have "unat (a - d) \<noteq> n"
      proof
        assume "unat (a - d) = n"
        then have "unat (a - d) = unat (of_nat n :: u64)" using n by simp
        then have "a - d = of_nat n" by (rule unsigned_word_eqI)
        then show False using ne by (simp add: algebra_simps)
      qed
      then show ?thesis using r ne False by simp
    qed
  qed
qed simp

lemma memset_loop_spec:
  "n \<le> 2 ^ 64 \<Longrightarrow> memset_loop n p v m a = (if unat (a - p) < n then v else m a)"
proof (induction n arbitrary: p m)
  case (Suc n)
  have r: "memset_loop (Suc n) p v m a = (if unat (a - (p + 1)) < n then v else (m(p := v)) a)"
    using Suc.IH [of "p + 1" "m(p := v)"] Suc.prems by (simp del: fun_upd_apply)
  show ?case
  proof (cases "a = p")
    case True
    then show ?thesis using r by simp
  next
    case False
    then show ?thesis using r dist_succ [OF False] by simp
  qed
qed simp

section \<open>C strings in memory\<close>

text \<open>The NUL-terminated string of the nonzero bytes xs at address a.\<close>
fun is_cstr :: "mem \<Rightarrow> u64 \<Rightarrow> u8 list \<Rightarrow> bool" where
  "is_cstr m a [] \<longleftrightarrow> m a = 0"
| "is_cstr m a (x # xs) \<longleftrightarrow> m a = x \<and> x \<noteq> 0 \<and> is_cstr m (a + 1) xs"

lemma strlen_loop_cstr: "is_cstr m (s + n) xs \<Longrightarrow> strlen_loop s n m = Some (n + of_nat (length xs))"
proof (induction xs arbitrary: n)
  case Nil
  then show ?case by (subst strlen_loop.simps) simp
next
  case (Cons x xs)
  have "is_cstr m (s + (n + 1)) xs" using Cons.prems by (simp add: add.assoc)
  then show ?case using Cons by (subst strlen_loop.simps) (simp add: algebra_simps)
qed

text \<open>The order of C strings: byte by byte, a prefix first.\<close>
fun cstr_diff :: "u8 list \<Rightarrow> u8 list \<Rightarrow> int" where
  "cstr_diff [] [] = 0"
| "cstr_diff [] (y # ys) = - uint y"
| "cstr_diff (x # xs) [] = uint x"
| "cstr_diff (x # xs) (y # ys) = (if x = y then cstr_diff xs ys else uint x - uint y)"

lemma strcmp_cstr: "is_cstr m a xs \<Longrightarrow> is_cstr m b ys \<Longrightarrow> strcmp a b m = Some (cstr_diff xs ys)"
proof (induction xs ys arbitrary: a b rule: cstr_diff.induct)
  case (1 a b)
  then show ?case by (subst strcmp.simps) simp
next
  case (2 y ys a b)
  then show ?case by (subst strcmp.simps) simp
next
  case (3 x xs a b)
  then show ?case by (subst strcmp.simps) simp
next
  case (4 x xs y ys a b)
  then show ?case by (subst strcmp.simps) simp
qed

lemma cstr_diff_0: "0 \<notin> set xs \<Longrightarrow> 0 \<notin> set ys \<Longrightarrow> cstr_diff xs ys = 0 \<longleftrightarrow> xs = ys"
  by (induction xs ys rule: cstr_diff.induct) (auto simp: uint_0_iff intro: unsigned_word_eqI)

lemma is_cstr_nonzero: "is_cstr m a xs \<Longrightarrow> 0 \<notin> set xs"
  by (induction xs arbitrary: a) auto

lemma is_cstr_nth: "is_cstr m a xs \<Longrightarrow> i < length xs \<Longrightarrow> m (a + of_nat i) = xs ! i"
proof (induction xs arbitrary: a i)
  case (Cons x xs)
  show ?case
  proof (cases i)
    case (Suc j)
    then have "m (a + 1 + of_nat j) = xs ! j" using Cons by simp
    then show ?thesis using Suc by (simp add: algebra_simps)
  qed (use Cons.prems in simp)
qed simp

lemma is_cstr_end: "is_cstr m a xs \<Longrightarrow> m (a + of_nat (length xs)) = 0"
proof (induction xs arbitrary: a)
  case (Cons x xs)
  then have "m (a + 1 + of_nat (length xs)) = 0" by simp
  then show ?case by (simp add: algebra_simps)
qed simp

lemma is_cstr_cong: "(\<And>i. i \<le> length xs \<Longrightarrow> m' (a + of_nat i) = m (a + of_nat i)) \<Longrightarrow> is_cstr m' a xs = is_cstr m a xs"
proof (induction xs arbitrary: a)
  case (Cons x xs)
  have "is_cstr m' (a + 1) xs = is_cstr m (a + 1) xs"
  proof (rule Cons.IH)
    fix i assume "i \<le> length xs"
    then show "m' (a + 1 + of_nat i) = m (a + 1 + of_nat i)" using Cons.prems [of "Suc i"] by (simp add: algebra_simps)
  qed
  moreover have "m' a = m a" using Cons.prems [of 0] by simp
  ultimately show ?case by simp
qed simp

text \<open>The copying loop on a string shorter than the count copies it with its NUL, but does not count
  the NUL.\<close>
lemma strncpy_copy_short:
  assumes "is_cstr m s xs" "length xs < n" "unat (s - d) + length xs < 2 ^ 64"
  shows "strncpy_copy n d s m = (n - length xs, d + of_nat (length xs) + 1, copy_forward (length xs + 1) d s m)"
  using assms
proof (induction xs arbitrary: n d s m)
  case Nil
  then obtain n' where "n = Suc n'" by (cases n) auto
  then show ?case using Nil by (simp add: Let_def fun_upd_def)
next
  case (Cons x xs)
  then obtain n' where n: "n = Suc n'" by (cases n) auto
  let ?m = "m(d := x)"
  have "is_cstr ?m (s + 1) xs = is_cstr m (s + 1) xs"
  proof (rule is_cstr_cong)
    fix i assume i: "i \<le> length xs"
    have "s + 1 + of_nat i \<noteq> d"
    proof
      assume "s + 1 + of_nat i = d"
      then have "s - d = - (of_nat (Suc i))" by (simp add: algebra_simps)
      moreover have "unat (of_nat (Suc i) :: u64) = Suc i" by (rule unat_of_nat64) (use i Cons.prems(3) in simp)
      moreover from this have "(of_nat (Suc i) :: u64) \<noteq> 0" by (metis nat.distinct(1) unat_0)
      ultimately have "unat (s - d) = 2 ^ 64 - Suc i" using dist_neg by metis
      then show False using i Cons.prems(3) by simp
    qed
    then show "?m (s + 1 + of_nat i) = m (s + 1 + of_nat i)" by simp
  qed
  then have "is_cstr ?m (s + 1) xs" using Cons.prems(1) by simp
  then have "strncpy_copy n' (d + 1) (s + 1) ?m
      = (n' - length xs, d + 1 + of_nat (length xs) + 1, copy_forward (length xs + 1) (d + 1) (s + 1) ?m)"
    by (rule Cons.IH) (use Cons.prems n in simp_all)
  moreover have "strncpy_copy n d s m = strncpy_copy n' (d + 1) (s + 1) ?m"
    using Cons.prems(1) n by (simp add: Let_def)
  moreover have "copy_forward (length (x # xs) + 1) d s m = copy_forward (length xs + 1) (d + 1) (s + 1) ?m"
    using Cons.prems(1) by simp
  ultimately show ?case using n by (simp add: algebra_simps del: copy_forward.simps)
qed

section \<open>Correctness\<close>

text \<open>Memmove copies a block of memory correctly even when source and destination overlap, and
  changes nothing else.\<close>
theorem memmove_overlap:
  assumes "unat dst + unat len \<le> 2 ^ 64" "unat src + unat len \<le> 2 ^ 64"
  shows "(\<forall>i<unat len. snd (memmove dst src len m) (dst + of_nat i) = m (src + of_nat i))
    \<and> (\<forall>a. \<not> unat (a - dst) < unat len \<longrightarrow> snd (memmove dst src len m) a = m a)"
proof -
  have "snd (memmove dst src len m) a = (if unat (a - dst) < unat len then m (src + (a - dst)) else m a)" for a
  proof -
    consider "dst < src" | "src < dst" | "dst = src" by (metis neqE)
    then show ?thesis
    proof cases
      case 1
      then have "unat (src - dst) = unat src - unat dst" "unat dst < unat src"
        by (rule unat_sub [OF less_imp_le]) (use 1 in \<open>simp add: word_less_nat_alt\<close>)
      then have "unat (src - dst) + unat len \<le> 2 ^ 64" using assms(2) by simp
      then show ?thesis using 1 by (simp add: memmove_def copy_forward_spec)
    next
      case 2
      then have "unat (dst - src) = unat dst - unat src" "unat src < unat dst"
        by (rule unat_sub [OF less_imp_le]) (use 2 in \<open>simp add: word_less_nat_alt\<close>)
      then have "unat (dst - src) + unat len \<le> 2 ^ 64" using assms(1) by simp
      from copy_backward_spec [OF this, of m a] show ?thesis using 2 by (auto simp: memmove_def)
    next
      case 3
      then show ?thesis by (simp add: memmove_def)
    qed
  qed
  moreover have "unat (dst + of_nat i - dst :: u64) = i" if "i < unat len" for i
  proof -
    have "unat len < 2 ^ 64" using unsigned_less [of len] by simp
    then show ?thesis using that unat_of_nat64 [of i] by simp
  qed
  ultimately show ?thesis by simp
qed

lemma memmove_overlap_witness: "snd (memmove 2 1 3 (\<lambda>a. ucast a)) 4 = 3"
  using memmove_overlap [of 2 3 1 "\<lambda>a. ucast a", THEN conjunct1, rule_format, of 2] by simp

text \<open>On C strings strlen, strcmp and memcmp return, with the length, the difference of the first
  bytes that differ, and 0 exactly for equal strings.\<close>
theorem strcmp_equal:
  assumes "is_cstr m a xs" "is_cstr m b ys"
  shows "strlen a m = Some (of_nat (length xs)) \<and> strcmp a b m = Some (cstr_diff xs ys) \<and> (cstr_diff xs ys = 0 \<longleftrightarrow> xs = ys)"
  using strlen_loop_cstr [of m a 0 xs] strcmp_cstr [OF assms] cstr_diff_0 is_cstr_nonzero [OF assms(1)]
    is_cstr_nonzero [OF assms(2)] assms by (simp add: strlen_def)

lemma strcmp_equal_witness: "strcmp 10 20 ((\<lambda>_. 0)(10 := 65, 11 := 66, 20 := 65)) = Some 66"
  using strcmp_equal [of "(\<lambda>_. 0)(10 := 65, 11 := 66, 20 := 65)" 10 "[65, 66]" 20 "[65]"] by simp

text \<open>On a string shorter than the count strncpy writes one byte too many: the terminating NUL is not
  counted, so the padding ends at dst + n, the first byte after the buffer.\<close>
theorem strncpy_overflows:
  assumes "is_cstr m src xs" "length xs < unat n" "unat (src - dst) + length xs < 2 ^ 64" "unat n + 1 < 2 ^ 64"
  shows "snd (strncpy dst src n m) (dst + n) = 0
    \<and> (\<forall>i<length xs. snd (strncpy dst src n m) (dst + of_nat i) = xs ! i)
    \<and> (\<forall>i. length xs \<le> i \<and> i \<le> unat n \<longrightarrow> snd (strncpy dst src n m) (dst + of_nat i) = 0)"
proof -
  let ?k = "length xs"
  let ?m = "copy_forward (?k + 1) dst src m"
  have r: "snd (strncpy dst src n m) = memset_loop (unat n - ?k) (dst + of_nat ?k + 1) 0 ?m"
    using strncpy_copy_short [OF assms(1-3)] by (simp add: strncpy_def)
  have at: "snd (strncpy dst src n m) (dst + of_nat i) =
    (if i < ?k then m (src + of_nat i) else 0)" if i: "i \<le> unat n" for i
  proof -
    have ui: "unat (of_nat i :: u64) = i" using i assms(4) by (simp add: unat_of_nat)
    have b: "unat n - ?k \<le> 2 ^ 64" using assms(4) by simp
    have dd: "dst + of_nat i - (dst + of_nat ?k + 1) = of_nat i - of_nat (Suc ?k)" by simp
    have uk: "unat (of_nat (Suc ?k) :: u64) = Suc ?k" by (rule unat_of_nat64) (use assms(2,4) in simp)
    show ?thesis
    proof (cases "Suc ?k \<le> i")
      case True
      then have "unat (of_nat i - of_nat (Suc ?k) :: u64) = i - Suc ?k"
        using ui uk by (simp add: unat_sub word_le_nat_alt)
      then have "unat (dst + of_nat i - (dst + of_nat ?k + 1)) < unat n - ?k" unfolding dd using i True by linarith
      then show ?thesis using True unfolding r memset_loop_spec [OF b] by simp
    next
      case False
      then have "unat (of_nat i - of_nat (Suc ?k) :: u64) = 2 ^ 64 + i - Suc ?k"
        using ui uk by (simp add: unat_sub_if' word_le_nat_alt)
      then have "\<not> unat (dst + of_nat i - (dst + of_nat ?k + 1)) < unat n - ?k" unfolding dd using False assms(4) by linarith
      then have "snd (strncpy dst src n m) (dst + of_nat i) = ?m (dst + of_nat i)" unfolding r memset_loop_spec [OF b] by simp
      also have "\<dots> = m (src + of_nat i)" using copy_forward_spec [of src dst "?k + 1" m] assms(3) ui False by simp
      finally show ?thesis using False assms(1) is_cstr_nth [OF assms(1)] by (auto simp: less_Suc_eq not_le is_cstr_end)
    qed
  qed
  have "dst + n = dst + of_nat (unat n)" by simp
  then show ?thesis using at [of "unat n"] at assms(2) is_cstr_nth [OF assms(1)] by auto
qed

lemma strncpy_overflows_witness: "snd (strncpy 100 10 2 ((\<lambda>_. 7)(10 := 65, 11 := 0))) 102 = 0"
  using strncpy_overflows [of "(\<lambda>_. 7)(10 := 65, 11 := 0)" 10 "[65]" 2 100] by simp

end
