(* ===== verification/Spec2Isabelle.thy ===== *)
theory Spec2Isabelle
  imports BootProps KernelMain DebugLog SvgaDisplay Kernel32 MemPanel PaintInside ShellPump LoaderProps ProcessProps Userinit SysQuery PhysMem KernelHeap AddressSpaces Keyboard Mouse SyncObjects ObjectManager Vfs RtlString
begin

text \<open>MicroNT is a small NT-like kernel for x86-64: a UEFI boot loader, a kernel with a scheduler, processes, objects, files, a
  window shell and about forty system calls, and a few user programs.  This library models the program function by function and
  proves what makes its parts correct.  It is read beside the sources; a definition has the name of the function or variable that it
  models where the logic leaves that name free, and each theory opens with the files it stands for.

  How the parts work together.  The boot loader puts the kernel image into physical memory, builds page tables that map the first
  four gigabytes to themselves, and hands over the memory map (BootLoader, BootTables, BootProps).  From the map the physical
  memory manager takes its frames (PhysMem); page tables, address spaces and data pages are built from these frames (VirtMem,
  PageTree, AddressSpaces, PhysBytes, DataPages).  Processes and threads are objects on the kernel heap (KernelHeap) with stacks
  and environment blocks in memory (ProcessCreate, ProcessProps); the scheduler links threads into queues (ThreadQueue, Scheduler);
  the PE loader maps images and patches imports (PeLoader, PeImage, LoaderProps).  The system calls work on all of these: waiting
  (SyncObjects), memory (UserMemory, SysVirtual), files and pipes over the virtual file system (Vfs, SysFiles), information and
  control (SysQuery), the line editor and the kernel's own commands (LineEditor, ShellCommands), programs started from the shell
  (Userinit).  The screen is a frame buffer with a text console on it (FontTable, Framebuffer, TextConsole, ConsoleRefine,
  MemPanel) and the painted desktop (DesktopPaint, PaintInside); keyboard and mouse fill ring buffers (RingBuffer, Keyboard,
  Mouse); the session manager starts the parts of the session and pumps the mouse into the window shell (SessionParts,
  ShellDesktop, ShellState, SessionManager, ShellPump).  The shared user page is mapped into every process and written by the timer
  (SharedPage, SharedTime).  Descriptors, interrupt lines and exceptions are in Interrupts, the timer in Timer; a system call enters
  through KiSystemCall, which dispatches its number to the handlers of the other theories over one state, kstate (SystemCalls).
  kernel\_main starts all of this in order and tests it (KernelBoot), runs its test programs, waits for their flags and then pumps
  the desktop (KernelMain).  The serial port with the log and the panic screen is DebugLog, the display adapter SvgaDisplay, and the
  DLL that Windows programs import Kernel32.  The object manager (HandleTable, ObjectManager) and the runtime strings (RtlString) stand
  alone.  NtPrelude holds the types and the lemmas on machine words that all theories share, Decimal the decimal numbers of the screen,
  and DemoMachine the small machine of the concrete cases.

  How state and operations correspond.  Static variables of a file are a record (pmm, vmm, kheap, ksys, psys, ldr, vfs, vga, ...);
  a record of a later component contains the ones it works on.  A pointer is a 64-bit address, or a node where the code links
  objects; memory is a function of addresses, read and written entry by entry (rd, wr) or byte by byte (rd8, wr8).  Machine
  integers are words of their width, so every sum wraps as in the code, except where a theory says that the values are bounded.
  An operation takes the state and returns its result and the new state; a null result, a false or an error status is the value
  that the code returns; an assertion or a panic that stops the machine, a fault on a null pointer or a loop that need not end is None.  Hardware, firmware, and images
  embedded by the build are parameters: port reads and writes, UEFI services, firmware variables, the bytes of programs.

  What the lemmas show.  The components that keep data structures have an invariant that their operations preserve (pmm\_inv, pt\_wf,
  root\_ok and others) and a description of what the operations do, and where there is a contract, an interface as a locale with the laws proved for the model by interpretation: frame\_allocator, ready\_queues, bounded\_fifo, handle\_map, name\_map,
  window\_stack and others.  The properties are stated over whole operations: what an address translates to after a mapping, what a
  process sees after it was created or an image was loaded, who runs after a switch, what a line contains after typing, what the
  screen shows, what the firmware's memory map becomes.  Each has a concrete case.  Where the code does not do what it promises,
  the theorem states what it does.

  Loops and bounds.  A loop over a range or a table is a fold or a structural recursion over that range.  A loop whose end depends
  on data is a function with a measure, or a partial function in the option monad when nothing in the code bounds it: unterminated
  strings and import tables, the sleep list, the drawing of rounded shapes, the polling of a device; then a separate theorem says
  when it returns.  No fuel is used, except the polling bounds that the code itself has.

  Other threads.  The swap of stacks is not modelled, so the code of one thread is a function only between two calls of Schedule.
  Where a thread waits for others (KernelMain, NT\_WAIT\_MULTI), what they do in the meantime is an argument, and a theorem says
  what it must bring about for the wait to end.

  Atomic steps.  An operation is one step of the model; interrupts come between operations, except where a theory lists the stores of
  an operation (SharedTime).  For most of them the code turns interrupts off or holds a lock.  It does not for the pump of the
  session manager, which runs with interrupts on (session\_manager.cpp:404), so packets that the mouse adds during the loop belong to
  the next pump in the model; and UnblockThread turns interrupts on at its end (scheduler.cpp:208), so in the code a tick can fall between
  two rounds of a loop that wakes threads.  Such a loop is one step here.

  Objects.  The reference and handle counts are 32-bit words; that an object in use stays alive holds for clients that keep at
  most 2^31 - 257 references to one object (max\_refs), and reference\_overflow shows what happens beyond.  The destructor of a
  type is recorded as a call; what it does itself, and calls it makes back into the object manager, are left out.

  Not modelled.  The assembly stubs that push registers and swap
  stacks: the frames they build are modelled where the C++ code reads or writes them.  The other ring-3 programs under user and
  the images of them that the build embeds under kernel/ldr: they are data to the kernel and come in as arguments, as does the
  table of icon masks.  The host tool peinspect, and the old boot loader bootloader.c, which the build does not use.  Spin locks: an
  operation under a lock is one step.  The contents of memory that the firmware allocates for the boot loader (the file of the
  RAM disk, the buffer of the memory map): the answers of the firmware are arguments.  The flush of address translations and the memory types of pages, which have no state here.\<close>

end
